(* ===== verification/Prelude.thy ===== *)
theory Prelude
  imports Main "HOL-Library.Word" "HOL-Library.List_Lexorder" "HOL-Library.Char_ord"
    "HOL-Library.Sublist"
begin

text \<open>
  Shared material of the development: Rust's unsigned 64-bit arithmetic (\<open>u64\<close>: wrapping,
  checked, saturating, and the \<open>as u128 ... as u64\<close> multiply-divide idiom), the textual
  forms of integers that the node puts into its state keys (\<open>{}\<close> and \<open>{:016x}\<close>), the
  little-endian byte form it stores counters in, and a small error-and-state monad in which every
  handler of the node is written. An action returns its result, or the error it stopped with,
  together with the state it reached: the node has no rollback, so the writes made before an error
  stay, and the model keeps them.
\<close>

section \<open>Rust integers\<close>

type_synonym u64 = "64 word"

definition u64_max :: u64 where
  "u64_max = - 1"

definition checked_add :: "u64 \<Rightarrow> u64 \<Rightarrow> u64 option" where
  "checked_add a b = (if unat a + unat b < 2 ^ 64 then Some (a + b) else None)"

definition sat_add :: "u64 \<Rightarrow> u64 \<Rightarrow> u64" where
  "sat_add a b = (if unat a + unat b < 2 ^ 64 then a + b else u64_max)"

definition sat_sub :: "u64 \<Rightarrow> u64 \<Rightarrow> u64" where
  "sat_sub a b = (if b \<le> a then a - b else 0)"

definition sat_mul :: "u64 \<Rightarrow> u64 \<Rightarrow> u64" where
  "sat_mul a b = (if unat a * unat b < 2 ^ 64 then a * b else u64_max)"

text \<open>\<open>(a as u128 * b as u128 / c as u128) as u64\<close>: exact product, then truncation.\<close>

definition mul_div :: "u64 \<Rightarrow> u64 \<Rightarrow> u64 \<Rightarrow> u64" where
  "mul_div a b c = word_of_nat (unat a * unat b div unat c)"

lemma unat_u64_less [simp]: "unat (w :: u64) < 18446744073709551616"
proof -
  have "unat w < 2 ^ LENGTH(64)"
    by (rule unsigned_less)
  then show ?thesis by simp
qed

lemma unat_u64_max [simp]: "unat u64_max = 2 ^ 64 - 1"
  by (simp add: u64_max_def unsigned_minus_1_eq_mask mask_eq_exp_minus_1)

lemma u64_le_iff: "(a :: u64) \<le> b \<longleftrightarrow> unat a \<le> unat b"
  by (rule word_le_nat_alt)

lemma u64_less_iff: "(a :: u64) < b \<longleftrightarrow> unat a < unat b"
  by (rule word_less_nat_alt)

lemma unat_u64_sub [simp]: "b \<le> a \<Longrightarrow> unat (a - b :: u64) = unat a - unat b"
  by (rule unat_sub)

lemma unat_u64_add: "unat a + unat b < 2 ^ 64 \<Longrightarrow> unat (a + b :: u64) = unat a + unat b"
  by (simp add: unat_word_ariths)

lemma uint_u64_sub [simp]: "b \<le> a \<Longrightarrow> uint (a - b :: u64) = uint a - uint b"
  by (simp only: uint_nat unat_u64_sub u64_le_iff of_nat_diff)

lemma uint_u64_add: "unat a + unat b < 2 ^ 64 \<Longrightarrow> uint (a + b :: u64) = uint a + uint b"
  by (simp only: uint_nat unat_u64_add of_nat_add)

lemma unat_u64_mult: "unat a * unat b < 2 ^ 64 \<Longrightarrow> unat (a * b :: u64) = unat a * unat b"
  by (simp add: unat_word_ariths)

lemma unat_u64_of_nat: "n < 2 ^ 64 \<Longrightarrow> unat (word_of_nat n :: u64) = n"
  by (simp add: unat_of_nat)

lemma unat_sat_add: "unat (sat_add a b) = min (unat a + unat b) (2 ^ 64 - 1)"
  by (simp add: sat_add_def unat_u64_add)

lemma unat_sat_sub: "unat (sat_sub a b) = unat a - unat b"
  by (simp add: sat_sub_def u64_le_iff)

lemma unat_sat_mul: "unat (sat_mul a b) = min (unat a * unat b) (2 ^ 64 - 1)"
  by (simp add: sat_mul_def unat_u64_mult)

lemma checked_add_Some:
  "checked_add a b = Some c \<longleftrightarrow> unat a + unat b < 2 ^ 64 \<and> c = a + b"
  by (auto simp: checked_add_def)

lemma unat_checked_add: "checked_add a b = Some c \<Longrightarrow> unat c = unat a + unat b"
  by (auto simp: checked_add_Some unat_u64_add)

text \<open>A share of \<open>a\<close> by a ratio \<open>b / c \<le> 1\<close> is never truncated and never exceeds \<open>a\<close>.\<close>

lemma unat_mul_div:
  assumes "unat b \<le> unat c"
  shows "unat (mul_div a b c) = unat a * unat b div unat c"
proof (cases "unat c = 0")
  case True
  then show ?thesis by (simp add: mul_div_def)
next
  case False
  have "unat a * unat b \<le> unat a * unat c"
    using assms by simp
  then have "unat a * unat b div unat c \<le> unat a * unat c div unat c"
    by (rule div_le_mono)
  also have "\<dots> = unat a"
    using False by simp
  also have "\<dots> < 2 ^ 64"
    by simp
  finally show ?thesis
    by (simp add: mul_div_def unat_u64_of_nat)
qed

lemma mul_div_le:
  assumes "unat b \<le> unat c"
  shows "unat (mul_div a b c) \<le> unat a"
proof -
  have "unat a * unat b div unat c \<le> unat a * unat c div unat c"
    using assms by (intro div_le_mono mult_le_mono) simp_all
  also have "\<dots> \<le> unat a"
    by simp
  finally show ?thesis
    by (simp add: unat_mul_div [OF assms])
qed

text \<open>Shares rounded down never add up to more than the amount shared out.\<close>

lemma sum_floor_shares:
  fixes xs :: "nat list"
  shows "(\<Sum>a \<leftarrow> xs. n * a div sum_list xs) \<le> n"
proof (cases "sum_list xs = 0")
  case True
  then show ?thesis unfolding True by simp
next
  case False
  have "(\<Sum>a \<leftarrow> ys. n * a div t) * t \<le> n * sum_list ys" for ys t
  proof (induction ys)
    case Nil
    then show ?case by simp
  next
    case (Cons a ys)
    have "n * a div t * t \<le> n * a"
      by simp
    with Cons show ?case
      by (simp only: list.map sum_list.Cons distrib_left distrib_right add_mono)
  qed
  from this [of "sum_list xs" xs] False show ?thesis
    by (metis mult.commute mult_le_cancel1 not_gr_zero)
qed

lemma unat_sum_list:
  "(\<Sum>a \<leftarrow> xs. unat a) < 2 ^ 64 \<Longrightarrow> unat (sum_list xs :: u64) = (\<Sum>a \<leftarrow> xs. unat a)"
proof (induction xs)
  case Nil
  then show ?case by simp
next
  case (Cons a xs)
  then show ?case by (simp add: unat_u64_add)
qed

lemma uint_sum_list: "(\<Sum>x \<leftarrow> xs. uint (f x :: u64)) = int (\<Sum>x \<leftarrow> xs. unat (f x))"
  by (induction xs) simp_all

lemma elem_le_sum_unat: "a \<in> set xs \<Longrightarrow> unat a \<le> (\<Sum>a \<leftarrow> xs. unat a)"
  by (rule member_le_sum_list) auto

section \<open>Encodings\<close>

text \<open>
  A value is written in some form and read back from it. What the readers rely on is that what was
  written is what is read; it follows that different values are written differently.
\<close>

locale codec =
  fixes encode :: "'r \<Rightarrow> 'b"
    and decode :: "'b \<Rightarrow> 'r option"
  assumes decode_encode: "decode (encode r) = Some r"
begin

lemma encode_inject: "encode a = encode b \<longleftrightarrow> a = b"
  by (metis decode_encode option.inject)

lemma decode_map: "map decode (map encode xs) = map Some xs"
  by (simp add: decode_encode)

end

section \<open>Integers as text and bytes\<close>

definition dec_digit :: "nat \<Rightarrow> char" where
  "dec_digit n = char_of (48 + n)"

fun dec :: "nat \<Rightarrow> string" where
  "dec n = (if n < 10 then [dec_digit n] else dec (n div 10) @ [dec_digit (n mod 10)])"

declare dec.simps [simp del]

text \<open>\<open>format!("{}", n)\<close> and \<open>format!("{:016x}", n)\<close> for a \<open>u64\<close>.\<close>

definition show_u64 :: "u64 \<Rightarrow> string" where
  "show_u64 w = dec (unat w)"

definition hex_digit :: "nat \<Rightarrow> char" where
  "hex_digit n = (if n < 10 then char_of (48 + n) else char_of (87 + n))"

definition hex16 :: "u64 \<Rightarrow> string" where
  "hex16 w = rev (map (\<lambda>i. hex_digit (unat w div 16 ^ i mod 16)) [0..<16])"

text \<open>\<open>u64::to_le_bytes\<close>, \<open>u64::from_le_bytes\<close> on exactly eight bytes.\<close>

fun le_bytes :: "nat \<Rightarrow> nat \<Rightarrow> string" where
  "le_bytes 0 n = []"
| "le_bytes (Suc k) n = char_of (n mod 256) # le_bytes k (n div 256)"

fun le_value :: "string \<Rightarrow> nat" where
  "le_value [] = 0"
| "le_value (c # cs) = of_char c + 256 * le_value cs"

definition to_le :: "u64 \<Rightarrow> string" where
  "to_le w = le_bytes 8 (unat w)"

definition from_le :: "string \<Rightarrow> u64 option" where
  "from_le bs = (if length bs = 8 then Some (word_of_nat (le_value bs)) else None)"

lemma length_le_bytes [simp]: "length (le_bytes k n) = k"
  by (induction k arbitrary: n) simp_all

lemma le_value_le_bytes: "le_value (le_bytes k n) = n mod 256 ^ k"
proof (induction k arbitrary: n)
  case 0
  then show ?case by simp
next
  case (Suc k)
  have "n mod (256 * 256 ^ k) = 256 * (n div 256 mod 256 ^ k) + n mod 256"
    by (rule mod_mult2_eq)
  with Suc show ?case by simp
qed

lemma from_le_to_le [simp]: "from_le (to_le w) = Some w"
  by (simp add: from_le_def to_le_def le_value_le_bytes)

interpretation le64: codec to_le from_le
  by unfold_locales (rule from_le_to_le)

lemma to_le_inject [simp]: "to_le a = to_le b \<longleftrightarrow> a = b"
  by (rule le64.encode_inject)

lemma of_char_dec_digit: "n < 10 \<Longrightarrow> of_char (dec_digit n) = 48 + n"
  by (simp add: dec_digit_def)

lemma dec_digit_inject: "m < 10 \<Longrightarrow> n < 10 \<Longrightarrow> dec_digit m = dec_digit n \<longleftrightarrow> m = n"
  by (metis add_left_cancel of_char_dec_digit)

lemma dec_nonempty [simp]: "dec n \<noteq> []" "[] \<noteq> dec n"
  by (subst dec.simps, simp)+

lemma dec_digits: "c \<in> set (dec n) \<Longrightarrow> 48 \<le> (of_char c :: nat) \<and> (of_char c :: nat) < 58"
proof (induction n rule: dec.induct)
  case (1 n)
  show ?case
  proof (cases "n < 10")
    case True
    with "1.prems" show ?thesis
      by (auto simp: dec.simps [of n] of_char_dec_digit)
  next
    case False
    with "1.prems" have "c \<in> set (dec (n div 10)) \<or> c = dec_digit (n mod 10)"
      by (auto simp: dec.simps [of n])
    with "1.IH" [OF False] show ?thesis
      by (auto simp: of_char_dec_digit)
  qed
qed

lemma dec_no_colon [simp]: "CHR '':'' \<notin> set (dec n)"
  using dec_digits [of "CHR '':''" n] by auto

lemma dec_inject [simp]: "dec m = dec n \<longleftrightarrow> m = n"
proof (induction m arbitrary: n rule: dec.induct)
  case (1 m)
  show ?case
  proof (cases "m < 10")
    case True
    then show ?thesis
      by (cases "n < 10") (auto simp: dec.simps [of m] dec.simps [of n] dec_digit_inject)
  next
    case False
    then show ?thesis
    proof (cases "n < 10")
      case True
      with False show ?thesis
        by (auto simp: dec.simps [of m] dec.simps [of n])
    next
      case n: False
      have "dec m = dec n \<longleftrightarrow> m div 10 = n div 10 \<and> m mod 10 = n mod 10"
        using False n "1.IH" [OF False, of "n div 10"]
        by (simp add: dec.simps [of m] dec.simps [of n] dec_digit_inject)
      also have "\<dots> \<longleftrightarrow> m = n"
        by (metis div_mult_mod_eq)
      finally show ?thesis .
    qed
  qed
qed

lemma show_u64_inject [simp]: "show_u64 a = show_u64 b \<longleftrightarrow> a = b"
  by (simp add: show_u64_def word_unat_eq_iff)

lemma show_u64_no_colon [simp]: "CHR '':'' \<notin> set (show_u64 w)"
  by (simp add: show_u64_def)

text \<open>Splitting a key at its first separator is unambiguous.\<close>

lemma append_sep_eq:
  "c \<notin> set xs \<Longrightarrow> c \<notin> set ys \<Longrightarrow>
    xs @ c # us = ys @ c # vs \<longleftrightarrow> xs = ys \<and> us = vs"
proof (induction xs arbitrary: ys)
  case Nil
  then show ?case by (cases ys) auto
next
  case (Cons x xs)
  then show ?case by (cases ys) auto
qed

lemma show_u64_sep_eq [simp]:
  "show_u64 a @ CHR '':'' # us = show_u64 b @ CHR '':'' # vs \<longleftrightarrow> a = b \<and> us = vs"
  by (simp add: append_sep_eq)

lemma prefix_show_u64_sep [simp]:
  "prefix (show_u64 a @ '':'') (show_u64 b @ CHR '':'' # vs) \<longleftrightarrow> a = b"
  by (auto simp: prefix_def)

text \<open>\<open>str::parse::<u64>()\<close>: an optional plus sign, then decimal digits, no overflow.\<close>

definition is_dec_digit :: "char \<Rightarrow> bool" where
  "is_dec_digit c \<longleftrightarrow> 48 \<le> (of_char c :: nat) \<and> (of_char c :: nat) < 58"

definition dec_value :: "string \<Rightarrow> nat" where
  "dec_value cs = foldl (\<lambda>v c. 10 * v + (of_char c - 48)) 0 cs"

definition parse_u64 :: "string \<Rightarrow> u64 option" where
  "parse_u64 s =
     (let ds = (case s of c # cs \<Rightarrow> if c = CHR ''+'' then cs else s | [] \<Rightarrow> [])
      in if ds \<noteq> [] \<and> list_all is_dec_digit ds \<and> dec_value ds < 2 ^ 64
         then Some (word_of_nat (dec_value ds)) else None)"

lemma dec_value_snoc: "dec_value (cs @ [c]) = 10 * dec_value cs + (of_char c - 48)"
  by (simp add: dec_value_def)

lemma dec_value_dec [simp]: "dec_value (dec n) = n"
proof (induction n rule: dec.induct)
  case (1 n)
  show ?case
  proof (cases "n < 10")
    case True
    then show ?thesis
      by (simp add: dec.simps [of n] dec_value_def of_char_dec_digit)
  next
    case False
    with "1.IH" show ?thesis
      by (simp add: dec.simps [of n] dec_value_snoc of_char_dec_digit)
  qed
qed

lemma parse_u64_show [simp]: "parse_u64 (show_u64 w) = Some w"
proof -
  obtain c cs where d: "dec (unat w) = c # cs"
    by (cases "dec (unat w)") auto
  have "list_all is_dec_digit (dec (unat w))"
    by (auto simp: list_all_iff is_dec_digit_def dest: dec_digits)
  moreover have "c \<noteq> CHR ''+''"
    using dec_digits [of c "unat w"] d by auto
  moreover have "dec_value (c # cs) = unat w"
    using dec_value_dec [of "unat w"] d by simp
  ultimately show ?thesis
    by (simp add: parse_u64_def show_u64_def d)
qed

interpretation dec64: codec show_u64 parse_u64
  by unfold_locales (rule parse_u64_show)

text \<open>\<open>String::from_utf8\<close> on bytes: the well-formedness rules of UTF-8.\<close>

definition utf8_cont :: "char \<Rightarrow> bool" where
  "utf8_cont c \<longleftrightarrow> 128 \<le> (of_char c :: nat) \<and> (of_char c :: nat) < 192"

fun utf8_valid :: "string \<Rightarrow> bool" where
  "utf8_valid [] = True"
| "utf8_valid (c # cs) =
     (let b = (of_char c :: nat) in
      if b < 128 then utf8_valid cs
      else if 194 \<le> b \<and> b < 224 then
        (case cs of c1 # r \<Rightarrow> utf8_cont c1 \<and> utf8_valid r | _ \<Rightarrow> False)
      else if 224 \<le> b \<and> b < 240 then
        (case cs of c1 # c2 # r \<Rightarrow>
           utf8_cont c1 \<and> utf8_cont c2 \<and>
           (b = 224 \<longrightarrow> 160 \<le> (of_char c1 :: nat)) \<and> (b = 237 \<longrightarrow> (of_char c1 :: nat) < 160) \<and>
           utf8_valid r | _ \<Rightarrow> False)
      else if 240 \<le> b \<and> b < 245 then
        (case cs of c1 # c2 # c3 # r \<Rightarrow>
           utf8_cont c1 \<and> utf8_cont c2 \<and> utf8_cont c3 \<and>
           (b = 240 \<longrightarrow> 144 \<le> (of_char c1 :: nat)) \<and> (b = 244 \<longrightarrow> (of_char c1 :: nat) < 144) \<and>
           utf8_valid r | _ \<Rightarrow> False)
      else False)"

section \<open>Actions: state, result, error\<close>

text \<open>
  The node reports errors as \<open>anyhow::Error\<close> values. \<open>Err\<close> carries the fixed part of the
  message of an \<open>ensure!\<close> or \<open>bail!\<close>; \<open>Panic\<close> is an unwinding panic.
\<close>

datatype error =
    Insufficient_balance string string
  | Balance_overflow string string
  | Err string
  | Panic string

type_synonym ('s, 'a) act = "'s \<Rightarrow> (error + 'a) \<times> 's"

definition ret :: "'a \<Rightarrow> ('s, 'a) act" where
  "ret x = (\<lambda>s. (Inr x, s))"

definition bail :: "error \<Rightarrow> ('s, 'a) act" where
  "bail e = (\<lambda>s. (Inl e, s))"

definition andThen :: "('s, 'a) act \<Rightarrow> ('a \<Rightarrow> ('s, 'b) act) \<Rightarrow> ('s, 'b) act" where
  "andThen m k = (\<lambda>s. case m s of (Inl e, s') \<Rightarrow> (Inl e, s') | (Inr x, s') \<Rightarrow> k x s')"

definition seq :: "('s, 'a) act \<Rightarrow> ('s, 'b) act \<Rightarrow> ('s, 'b) act" where
  "seq m n = andThen m (\<lambda>_. n)"

definition ensure :: "bool \<Rightarrow> error \<Rightarrow> ('s, unit) act" where
  "ensure b e = (if b then ret () else bail e)"

definition need :: "'a option \<Rightarrow> error \<Rightarrow> ('s, 'a) act" where
  "need x e = (case x of Some v \<Rightarrow> ret v | None \<Rightarrow> bail e)"

definition reads :: "('s \<Rightarrow> 'a) \<Rightarrow> ('s, 'a) act" where
  "reads f = (\<lambda>s. (Inr (f s), s))"

definition modify :: "('s \<Rightarrow> 's) \<Rightarrow> ('s, unit) act" where
  "modify f = (\<lambda>s. (Inr (), f s))"

text \<open>
  \<open>let _ = m;\<close> and \<open>if let Err(_) = m\<close>: the error becomes a value, the writes stay; a panic is not an
  \<open>Err\<close> and goes on unwinding.
\<close>

fun is_panic :: "error \<Rightarrow> bool" where
  "is_panic (Panic _) = True"
| "is_panic _ = False"

definition attempt :: "('s, 'a) act \<Rightarrow> ('s, bool) act" where
  "attempt m = (\<lambda>s. case m s of
       (Inl e, s') \<Rightarrow> (if is_panic e then Inl e else Inr False, s')
     | (Inr x, s') \<Rightarrow> (Inr True, s'))"

definition when_do :: "bool \<Rightarrow> ('s, unit) act \<Rightarrow> ('s, unit) act" where
  "when_do b m = (if b then m else ret ())"

text \<open>A \<open>for\<close> loop whose body may leave the function with an error.\<close>

fun each :: "('x \<Rightarrow> ('s, unit) act) \<Rightarrow> 'x list \<Rightarrow> ('s, unit) act" where
  "each f [] = ret ()"
| "each f (x # xs) = seq (f x) (each f xs)"

named_theorems act_simps "unfolding of the action combinators applied to a state"

named_theorems run_simps "definitions unfolded when a handler is run on a concrete state"

lemma ret_apply [act_simps]: "ret x s = (Inr x, s)"
  by (simp add: ret_def)

lemma bail_apply [act_simps]: "bail e s = (Inl e, s)"
  by (simp add: bail_def)

lemma andThen_apply [act_simps]:
  "andThen m k s = (case m s of (Inl e, s') \<Rightarrow> (Inl e, s') | (Inr x, s') \<Rightarrow> k x s')"
  by (simp add: andThen_def)

lemma seq_apply [act_simps]:
  "seq m n s = (case m s of (Inl e, s') \<Rightarrow> (Inl e, s') | (Inr _, s') \<Rightarrow> n s')"
  by (simp add: seq_def andThen_def)

lemma ensure_apply [act_simps]: "ensure b e s = (if b then (Inr (), s) else (Inl e, s))"
  by (simp add: ensure_def ret_def bail_def)

lemma need_apply [act_simps]:
  "need x e s = (case x of Some v \<Rightarrow> (Inr v, s) | None \<Rightarrow> (Inl e, s))"
  by (simp add: need_def ret_def bail_def split: option.split)

lemma reads_apply [act_simps]: "reads f s = (Inr (f s), s)"
  by (simp add: reads_def)

lemma modify_apply [act_simps]: "modify f s = (Inr (), f s)"
  by (simp add: modify_def)

lemma when_do_apply [act_simps]: "when_do b m s = (if b then m s else (Inr (), s))"
  by (simp add: when_do_def ret_def)

lemma attempt_apply [act_simps]:
  "attempt m s = (case m s of
     (Inl e, s') \<Rightarrow> (if is_panic e then Inl e else Inr False, s') | (Inr x, s') \<Rightarrow> (Inr True, s'))"
  by (simp add: attempt_def)

lemma attempt_state: "snd (attempt m s) = snd (m s)"
  by (simp add: attempt_apply split: prod.split sum.split)

section \<open>Actions that do not panic\<close>

definition calm :: "('s, 'a) act \<Rightarrow> bool" where
  "calm m \<longleftrightarrow> (\<forall>s e s'. m s = (Inl e, s') \<longrightarrow> \<not> is_panic e)"

named_theorems calm_intros "structural rules and facts for calm"

lemma attempt_result: "calm m \<Longrightarrow> \<exists>r s'. attempt m s = (Inr r, s')"
  by (cases "m s"; cases "fst (m s)") (auto simp: attempt_apply calm_def)

lemma calm_ret [calm_intros]: "calm (ret x)"
  and calm_reads [calm_intros]: "calm (reads f)"
  and calm_modify [calm_intros]: "calm (modify g)"
  by (simp_all add: calm_def act_simps)

lemma calm_bail [calm_intros]: "\<not> is_panic e \<Longrightarrow> calm (bail e)"
  and calm_ensure [calm_intros]: "\<not> is_panic e \<Longrightarrow> calm (ensure b e)"
  and calm_need [calm_intros]: "\<not> is_panic e \<Longrightarrow> calm (need x e)"
  by (simp_all add: calm_def act_simps split: option.split)

lemma calm_andThen [calm_intros]:
  assumes "calm m" and "\<And>x. calm (k x)"
  shows "calm (andThen m k)"
  unfolding calm_def
proof (intro allI impI)
  fix s e s' assume run: "andThen m k s = (Inl e, s')"
  obtain r t where m: "m s = (r, t)" by (cases "m s")
  show "\<not> is_panic e"
  proof (cases r)
    case (Inl e')
    with run m have "m s = (Inl e, s')" by (simp add: andThen_apply)
    with assms(1) show ?thesis unfolding calm_def by blast
  next
    case (Inr x)
    with run m have "k x t = (Inl e, s')" by (simp add: andThen_apply)
    with assms(2) [of x] show ?thesis unfolding calm_def by blast
  qed
qed

lemma calm_seq [calm_intros]: "calm m \<Longrightarrow> calm n \<Longrightarrow> calm (seq m n)"
  unfolding seq_def by (rule calm_andThen)

lemma calm_when_do [calm_intros]: "calm m \<Longrightarrow> calm (when_do b m)"
  by (simp add: when_do_def calm_ret)

lemma calm_attempt [calm_intros]: "calm m \<Longrightarrow> calm (attempt m)"
  unfolding calm_def by (auto simp: attempt_apply split: prod.splits sum.splits if_splits)

lemma calm_if [calm_intros]: "calm m \<Longrightarrow> calm n \<Longrightarrow> calm (if b then m else n)"
  by simp

lemma calm_option [calm_intros]: "calm m \<Longrightarrow> (\<And>v. calm (n v)) \<Longrightarrow> calm (case x of None \<Rightarrow> m | Some v \<Rightarrow> n v)"
  by (simp split: option.split)

lemma calm_prod [calm_intros]: "(\<And>a b. calm (n a b)) \<Longrightarrow> calm (case x of (a, b) \<Rightarrow> n a b)"
  by (simp split: prod.split)

lemma calm_Let [calm_intros]: "(\<And>x. calm (n x)) \<Longrightarrow> calm (Let v n)"
  by (simp add: Let_def)

lemma calm_each [calm_intros]: "(\<And>x. calm (g x)) \<Longrightarrow> calm (each g xs)"
  by (induction xs) (simp_all add: calm_ret calm_seq)

section \<open>What an action leaves alone, and what it adds\<close>

text \<open>
  \<open>keeps f m\<close>: the observation \<open>f\<close> of the state is the same after \<open>m\<close>, whether \<open>m\<close>
  returns or stops with an error. \<open>preserves P m\<close>: an invariant is kept on both ways out.
  \<open>gains v d m\<close>: when \<open>m\<close> returns, the measure \<open>v\<close> has grown by exactly \<open>d\<close>.
\<close>

definition keeps :: "('s \<Rightarrow> 'o) \<Rightarrow> ('s, 'a) act \<Rightarrow> bool" where
  "keeps f m \<longleftrightarrow> (\<forall>s. f (snd (m s)) = f s)"

definition preserves :: "('s \<Rightarrow> bool) \<Rightarrow> ('s, 'a) act \<Rightarrow> bool" where
  "preserves P m \<longleftrightarrow> (\<forall>s. P s \<longrightarrow> P (snd (m s)))"

definition gains :: "('s \<Rightarrow> int) \<Rightarrow> int \<Rightarrow> ('s, 'a) act \<Rightarrow> bool" where
  "gains v d m \<longleftrightarrow> (\<forall>s x s'. m s = (Inr x, s') \<longrightarrow> v s' = v s + d)"

named_theorems keeps_intros "structural rules and frame facts for keeps"
named_theorems preserves_intros "structural rules and facts for preserves"
named_theorems gains_intros "structural rules and facts for gains"

lemma keepsD: "keeps f m \<Longrightarrow> m s = (r, s') \<Longrightarrow> f s' = f s"
  unfolding keeps_def by (metis snd_conv)

lemma preservesD: "preserves P m \<Longrightarrow> P s \<Longrightarrow> m s = (r, s') \<Longrightarrow> P s'"
  unfolding preserves_def by (metis snd_conv)

lemma gainsD: "gains v d m \<Longrightarrow> m s = (Inr x, s') \<Longrightarrow> v s' = v s + d"
  unfolding gains_def by blast

lemma keeps_ret [keeps_intros]: "keeps f (ret x)"
  by (simp add: keeps_def act_simps)

lemma keeps_bail [keeps_intros]: "keeps f (bail e)"
  by (simp add: keeps_def act_simps)

lemma keeps_ensure [keeps_intros]: "keeps f (ensure b e)"
  by (simp add: keeps_def act_simps)

lemma keeps_need [keeps_intros]: "keeps f (need x e)"
  by (simp add: keeps_def act_simps split: option.split)

lemma keeps_reads [keeps_intros]: "keeps f (reads g)"
  by (simp add: keeps_def act_simps)

lemma keeps_andThen [keeps_intros]:
  assumes "keeps f m" and "\<And>x. keeps f (k x)"
  shows "keeps f (andThen m k)"
  using assms unfolding keeps_def
  by (simp add: act_simps split: prod.split sum.split) (metis snd_conv)

lemma keeps_seq [keeps_intros]: "keeps f m \<Longrightarrow> keeps f n \<Longrightarrow> keeps f (seq m n)"
  unfolding seq_def by (rule keeps_andThen)

lemma keeps_when_do [keeps_intros]: "(b \<Longrightarrow> keeps f m) \<Longrightarrow> keeps f (when_do b m)"
  by (simp add: when_do_def keeps_ret)

lemma keeps_attempt [keeps_intros]: "keeps f m \<Longrightarrow> keeps f (attempt m)"
  by (simp add: keeps_def attempt_state)

lemma keeps_if [keeps_intros]:
  "(b \<Longrightarrow> keeps f m) \<Longrightarrow> (\<not> b \<Longrightarrow> keeps f n) \<Longrightarrow> keeps f (if b then m else n)"
  by simp

lemma keeps_option [keeps_intros]:
  "(x = None \<Longrightarrow> keeps f m) \<Longrightarrow> (\<And>v. x = Some v \<Longrightarrow> keeps f (n v)) \<Longrightarrow>
    keeps f (case x of None \<Rightarrow> m | Some v \<Rightarrow> n v)"
  by (simp split: option.split)

lemma keeps_prod [keeps_intros]:
  "(\<And>a b. x = (a, b) \<Longrightarrow> keeps f (n a b)) \<Longrightarrow> keeps f (case x of (a, b) \<Rightarrow> n a b)"
  by (simp split: prod.split)

lemma keeps_Let [keeps_intros]: "(\<And>x. keeps f (n x)) \<Longrightarrow> keeps f (Let v n)"
  by (simp add: Let_def)

lemma keeps_each [keeps_intros]: "(\<And>x. keeps f (g x)) \<Longrightarrow> keeps f (each g xs)"
  by (induction xs) (simp_all add: keeps_ret keeps_seq)

lemma preserves_ret [preserves_intros]: "preserves P (ret x)"
  by (simp add: preserves_def act_simps)

lemma preserves_bail [preserves_intros]: "preserves P (bail e)"
  by (simp add: preserves_def act_simps)

lemma preserves_ensure [preserves_intros]: "preserves P (ensure b e)"
  by (simp add: preserves_def act_simps)

lemma preserves_need [preserves_intros]: "preserves P (need x e)"
  by (simp add: preserves_def act_simps split: option.split)

lemma preserves_reads [preserves_intros]: "preserves P (reads g)"
  by (simp add: preserves_def act_simps)

lemma preserves_andThen [preserves_intros]:
  assumes "preserves P m" and "\<And>x. preserves P (k x)"
  shows "preserves P (andThen m k)"
  using assms unfolding preserves_def
  by (simp add: act_simps split: prod.split sum.split) (metis snd_conv)

lemma preserves_seq [preserves_intros]:
  "preserves P m \<Longrightarrow> preserves P n \<Longrightarrow> preserves P (seq m n)"
  unfolding seq_def by (rule preserves_andThen)

lemma preserves_when_do [preserves_intros]: "(b \<Longrightarrow> preserves P m) \<Longrightarrow> preserves P (when_do b m)"
  by (simp add: when_do_def preserves_ret)

lemma preserves_attempt [preserves_intros]: "preserves P m \<Longrightarrow> preserves P (attempt m)"
  by (simp add: preserves_def attempt_state)

lemma preserves_if [preserves_intros]:
  "(b \<Longrightarrow> preserves P m) \<Longrightarrow> (\<not> b \<Longrightarrow> preserves P n) \<Longrightarrow> preserves P (if b then m else n)"
  by simp

lemma preserves_option [preserves_intros]:
  "(x = None \<Longrightarrow> preserves P m) \<Longrightarrow> (\<And>v. x = Some v \<Longrightarrow> preserves P (n v)) \<Longrightarrow>
    preserves P (case x of None \<Rightarrow> m | Some v \<Rightarrow> n v)"
  by (simp split: option.split)

lemma preserves_prod [preserves_intros]:
  "(\<And>a b. x = (a, b) \<Longrightarrow> preserves P (n a b)) \<Longrightarrow> preserves P (case x of (a, b) \<Rightarrow> n a b)"
  by (simp split: prod.split)

lemma preserves_Let [preserves_intros]: "(\<And>x. preserves P (n x)) \<Longrightarrow> preserves P (Let v n)"
  by (simp add: Let_def)

lemma preserves_each [preserves_intros]:
  "(\<And>x. preserves P (g x)) \<Longrightarrow> preserves P (each g xs)"
  by (induction xs) (simp_all add: preserves_ret preserves_seq)

lemma gains_ret [gains_intros]: "gains v 0 (ret x)"
  by (simp add: gains_def act_simps)

lemma gains_bail [gains_intros]: "gains v d (bail e)"
  by (simp add: gains_def act_simps)

lemma gains_andThen:
  assumes "gains v a m" and "\<And>x. gains v b (k x)" and "d = a + b"
  shows "gains v d (andThen m k)"
  using assms unfolding gains_def
  by (fastforce simp: act_simps split: prod.splits sum.splits)

lemma gains_seq: "gains v a m \<Longrightarrow> gains v b n \<Longrightarrow> d = a + b \<Longrightarrow> gains v d (seq m n)"
  unfolding seq_def by (rule gains_andThen)

lemma gains_keeps: "keeps v m \<Longrightarrow> gains v 0 m"
  unfolding gains_def by (auto dest: keepsD)

lemma gains_frame_seq: "keeps v m \<Longrightarrow> gains v d n \<Longrightarrow> gains v d (seq m n)"
  by (rule gains_seq [OF gains_keeps]) simp_all

lemma gains_frame_andThen:
  "keeps v m \<Longrightarrow> (\<And>x. gains v d (k x)) \<Longrightarrow> gains v d (andThen m k)"
  by (rule gains_andThen [OF gains_keeps]) simp_all

lemma gains_option:
  "(x = None \<Longrightarrow> gains v d m) \<Longrightarrow> (\<And>y. x = Some y \<Longrightarrow> gains v d (n y)) \<Longrightarrow>
    gains v d (case x of None \<Rightarrow> m | Some y \<Rightarrow> n y)"
  by (simp split: option.split)

lemma gains_if:
  "(b \<Longrightarrow> gains v d m) \<Longrightarrow> (\<not> b \<Longrightarrow> gains v d n) \<Longrightarrow> gains v d (if b then m else n)"
  by simp

lemma gains_when_do: "(b \<Longrightarrow> gains v d m) \<Longrightarrow> (\<not> b \<Longrightarrow> d = 0) \<Longrightarrow> gains v d (when_do b m)"
  by (auto simp: when_do_def intro: gains_ret)

text \<open>The errors an action can stop with, when it stops.\<close>

lemma seq_Inr:
  "seq m n s = (Inr x, s') \<longleftrightarrow> (\<exists>y t. m s = (Inr y, t) \<and> n t = (Inr x, s'))"
  by (auto simp: act_simps split: prod.splits sum.splits)

lemma andThen_Inr:
  "andThen m k s = (Inr x, s') \<longleftrightarrow> (\<exists>y t. m s = (Inr y, t) \<and> k y t = (Inr x, s'))"
  by (auto simp: act_simps split: prod.splits sum.splits)

end
