(* ===== verification/Ordered_KV.thy ===== *)
theory Ordered_KV
  imports Prelude
begin

text \<open>
  A RocksDB column family as the node uses it: an ordered map from byte strings to values with
  point reads, point writes, deletes, and a forward iteration from a prefix that stops at the
  first key without the prefix (\<open>state_scan_prefix\<close> of \<open>store.rs\<close>). The implementation is a
  list of key-value pairs in ascending key order; the locale \<open>ordered_kv\<close> is the contract the
  other theories rely on, interpreted here on the implementation. The same ordered map models
  \<open>serde_json::Map\<close>, which is a \<open>BTreeMap\<close>.
\<close>

type_synonym 'v kv = "(string \<times> 'v) list"

definition kv_get :: "'v kv \<Rightarrow> string \<Rightarrow> 'v option" where
  "kv_get m k = map_of m k"

fun kv_put :: "string \<Rightarrow> 'v \<Rightarrow> 'v kv \<Rightarrow> 'v kv" where
  "kv_put k v [] = [(k, v)]"
| "kv_put k v (e # m) =
     (if fst e < k then e # kv_put k v m
      else if k = fst e then (k, v) # m
      else (k, v) # e # m)"

definition kv_del :: "string \<Rightarrow> 'v kv \<Rightarrow> 'v kv" where
  "kv_del k m = filter (\<lambda>e. fst e \<noteq> k) m"

text \<open>Seek to the first key not below the prefix, then read while the prefix matches.\<close>

definition kv_scan :: "string \<Rightarrow> 'v kv \<Rightarrow> 'v kv" where
  "kv_scan p m = takeWhile (\<lambda>e. prefix p (fst e)) (dropWhile (\<lambda>e. fst e < p) m)"

definition kv_sorted :: "'v kv \<Rightarrow> bool" where
  "kv_sorted m \<longleftrightarrow> sorted_wrt (<) (map fst m)"

lemma kv_get_Nil [simp]: "kv_get [] k = None"
  by (simp add: kv_get_def)

lemma kv_get_Cons [simp]: "kv_get (e # m) k = (if k = fst e then Some (snd e) else kv_get m k)"
  by (cases e) (simp add: kv_get_def)

lemma kv_get_put [simp]: "kv_get (kv_put k v m) k' = (if k' = k then Some v else kv_get m k')"
  by (induction m) (auto simp: kv_get_def)

lemma kv_get_del [simp]: "kv_get (kv_del k m) k' = (if k' = k then None else kv_get m k')"
  by (induction m) (auto simp: kv_get_def kv_del_def)

lemma kv_put_keys: "fst ` set (kv_put k v m) = insert k (fst ` set m)"
  by (induction m) auto

lemma kv_sorted_Nil [simp]: "kv_sorted []"
  by (simp add: kv_sorted_def)

lemma kv_sorted_Cons:
  "kv_sorted (e # m) \<longleftrightarrow> (\<forall>x \<in> fst ` set m. fst e < x) \<and> kv_sorted m"
  by (auto simp: kv_sorted_def)

lemma kv_sorted_put: "kv_sorted m \<Longrightarrow> kv_sorted (kv_put k v m)"
proof (induction m)
  case Nil
  then show ?case by (simp add: kv_sorted_def)
next
  case (Cons e m)
  then show ?case
    by (auto simp: kv_sorted_Cons kv_put_keys not_less ball_Un)
qed

lemma kv_sorted_del: "kv_sorted m \<Longrightarrow> kv_sorted (kv_del k m)"
  by (induction m) (auto simp: kv_del_def kv_sorted_Cons)

lemma kv_sorted_distinct: "kv_sorted m \<Longrightarrow> distinct (map fst m)"
  by (simp add: kv_sorted_def strict_sorted_iff)

text \<open>In an ordered map the scan is exactly the entries that carry the prefix.\<close>

lemma list_le_append: "(p :: 'a :: linorder list) \<le> p @ q"
  by (induction p) auto

lemma prefix_not_below: "prefix p k \<Longrightarrow> \<not> k < (p :: string)"
  by (auto simp: prefix_def not_less list_le_append)

lemma no_prefix_above:
  "\<not> prefix p k \<Longrightarrow> (p :: 'a :: linorder list) < k \<Longrightarrow> k < k' \<Longrightarrow> \<not> prefix p k'"
proof (induction p arbitrary: k k')
  case Nil
  then show ?case by simp
next
  case (Cons a p)
  then show ?case by (cases k; cases k') auto
qed

lemma takeWhile_prefix_filter:
  "kv_sorted m \<Longrightarrow> \<forall>e \<in> set m. \<not> fst e < p \<Longrightarrow>
    takeWhile (\<lambda>e. prefix p (fst e)) m = filter (\<lambda>e. prefix p (fst e)) m"
proof (induction m)
  case Nil
  then show ?case by simp
next
  case (Cons e m)
  show ?case
  proof (cases "prefix p (fst e)")
    case True
    with Cons show ?thesis by (simp add: kv_sorted_Cons)
  next
    case False
    have "\<not> prefix p (fst x)" if "x \<in> set m" for x
    proof (rule no_prefix_above [OF False])
      show "p < fst e"
        using Cons.prems(2) False by (auto simp: not_less order_le_less)
      show "fst e < fst x"
        using Cons.prems(1) that by (auto simp: kv_sorted_Cons)
    qed
    with False show ?thesis by (simp add: filter_empty_conv)
  qed
qed

lemma kv_scan_filter:
  "kv_sorted m \<Longrightarrow> kv_scan p m = filter (\<lambda>e. prefix p (fst e)) m"
proof (induction m)
  case Nil
  then show ?case by (simp add: kv_scan_def)
next
  case (Cons e m)
  show ?case
  proof (cases "fst e < p")
    case True
    with Cons show ?thesis
      by (auto simp: kv_scan_def kv_sorted_Cons dest: prefix_not_below)
  next
    case False
    have "\<not> fst x < p" if "x \<in> set (e # m)" for x
      using that False Cons.prems
      by (auto simp: kv_sorted_Cons dest: less_trans [of "fst e" "fst x" p])
    then have "\<forall>x \<in> set (e # m). \<not> fst x < p" by blast
    from takeWhile_prefix_filter [OF Cons.prems this] False show ?thesis
      by (simp add: kv_scan_def)
  qed
qed

lemma kv_get_in_set: "kv_sorted m \<Longrightarrow> kv_get m k = Some v \<longleftrightarrow> (k, v) \<in> set m"
  by (simp add: kv_get_def kv_sorted_distinct map_of_eq_Some_iff)

lemma set_kv_scan:
  "kv_sorted m \<Longrightarrow> (k, v) \<in> set (kv_scan p m) \<longleftrightarrow> prefix p k \<and> kv_get m k = Some v"
  by (auto simp: kv_scan_filter kv_get_in_set)

section \<open>The contract of a column family\<close>

locale ordered_kv =
  fixes empty :: 'm
    and get :: "'m \<Rightarrow> string \<Rightarrow> 'v option"
    and put :: "string \<Rightarrow> 'v \<Rightarrow> 'm \<Rightarrow> 'm"
    and del :: "string \<Rightarrow> 'm \<Rightarrow> 'm"
    and scan :: "string \<Rightarrow> 'm \<Rightarrow> (string \<times> 'v) list"
    and invar :: "'m \<Rightarrow> bool"
  assumes get_empty: "get empty k = None"
    and get_put: "get (put k v m) k' = (if k' = k then Some v else get m k')"
    and get_del: "get (del k m) k' = (if k' = k then None else get m k')"
    and invar_empty: "invar empty"
    and invar_put: "invar m \<Longrightarrow> invar (put k v m)"
    and invar_del: "invar m \<Longrightarrow> invar (del k m)"
    and scan_iff: "invar m \<Longrightarrow> (k, v) \<in> set (scan p m) \<longleftrightarrow> prefix p k \<and> get m k = Some v"
    and scan_sorted: "invar m \<Longrightarrow> sorted_wrt (<) (map fst (scan p m))"
begin

lemma scan_distinct: "invar m \<Longrightarrow> distinct (scan p m)"
  using scan_sorted [of m p] by (simp add: strict_sorted_iff distinct_map)

lemma scan_empty_iff: "invar m \<Longrightarrow> scan p m = [] \<longleftrightarrow> (\<forall>k. prefix p k \<longrightarrow> get m k = None)"
proof -
  assume inv: "invar m"
  have "scan p m = [] \<longleftrightarrow> (\<forall>k v. (k, v) \<notin> set (scan p m))"
    by (cases "scan p m") auto
  also have "\<dots> \<longleftrightarrow> (\<forall>k. prefix p k \<longrightarrow> get m k = None)"
    using scan_iff [OF inv] by (metis not_None_eq)
  finally show ?thesis .
qed

text \<open>Two maps that agree below a prefix have the same scan: scans are deterministic.\<close>

lemma scan_cong:
  assumes m: "invar m" and n: "invar n"
    and eq: "\<And>k. prefix p k \<Longrightarrow> get m k = get n k"
  shows "scan p m = scan p n"
proof -
  have s: "set (scan p m) = set (scan p n)"
    using scan_iff [OF m] scan_iff [OF n] eq by auto
  have "map fst (scan p m) = map fst (scan p n)"
    using scan_sorted [OF m, of p] scan_sorted [OF n, of p] s
    by (intro strict_sorted_equal) auto
  moreover have "inj_on fst (set (scan p m))"
    using scan_sorted [OF m, of p] by (simp add: strict_sorted_iff distinct_map)
  ultimately show ?thesis
    using s map_inj_on [of fst "scan p m" "scan p n"] by auto
qed

lemma scan_put_other: "invar m \<Longrightarrow> \<not> prefix p k \<Longrightarrow> scan p (put k v m) = scan p m"
  by (intro scan_cong) (auto simp: get_put invar_put)

lemma scan_del_other: "invar m \<Longrightarrow> \<not> prefix p k \<Longrightarrow> scan p (del k m) = scan p m"
  by (intro scan_cong) (auto simp: get_del invar_del)

lemma get_del_put: "get m k = None \<Longrightarrow> get (del k (put k v m)) k' = get m k'"
  by (auto simp: get_del get_put)

end

interpretation kvi: ordered_kv "[]" kv_get kv_put kv_del kv_scan kv_sorted
proof unfold_locales
  show "kv_get [] k = None" for k by simp
  show "kv_get (kv_put k v m) k' = (if k' = k then Some v else kv_get m k')" for k v m k'
    by simp
  show "kv_get (kv_del k m) k' = (if k' = k then None else kv_get m k')" for k m k'
    by simp
  show "kv_sorted []" by simp
  show "kv_sorted m \<Longrightarrow> kv_sorted (kv_put k v m)" for k v m by (rule kv_sorted_put)
  show "kv_sorted m \<Longrightarrow> kv_sorted (kv_del k m)" for k m by (rule kv_sorted_del)
  show "kv_sorted m \<Longrightarrow> (k, v) \<in> set (kv_scan p m) \<longleftrightarrow> prefix p k \<and> kv_get m k = Some v"
    for m k v p by (rule set_kv_scan)
  show "kv_sorted m \<Longrightarrow> sorted_wrt (<) (map fst (kv_scan p m))" for m p
    by (simp add: kv_scan_filter kv_sorted_def sorted_wrt_map sorted_wrt_filter)
qed

section \<open>Summing over an ordered map\<close>

text \<open>\<open>kv_sum f m\<close> adds \<open>f k v\<close> over the entries of the map; a write changes it by the
  difference of the new and the old entry, whatever the order of the list.\<close>

definition kv_sum :: "(string \<Rightarrow> 'v \<Rightarrow> int) \<Rightarrow> 'v kv \<Rightarrow> int" where
  "kv_sum f m = (\<Sum>k \<in> fst ` set m. f k (the (kv_get m k)))"

definition kv_at :: "(string \<Rightarrow> 'v \<Rightarrow> int) \<Rightarrow> 'v kv \<Rightarrow> string \<Rightarrow> int" where
  "kv_at f m k = (case kv_get m k of Some v \<Rightarrow> f k v | None \<Rightarrow> 0)"

lemma kv_get_None_iff: "kv_get m k = None \<longleftrightarrow> k \<notin> fst ` set m"
  by (simp add: kv_get_def map_of_eq_None_iff)

lemma kv_sum_Nil [simp]: "kv_sum f [] = 0"
  by (simp add: kv_sum_def)

lemma kv_sum_remove:
  "kv_sum f m = kv_at f m k + (\<Sum>x \<in> fst ` set m - {k}. f x (the (kv_get m x)))"
proof (cases "k \<in> fst ` set m")
  case True
  then obtain v where "kv_get m k = Some v"
    using kv_get_None_iff [of m k] by auto
  with True show ?thesis
    by (simp add: kv_sum_def kv_at_def sum.remove)
next
  case False
  then have "kv_get m k = None"
    by (simp add: kv_get_None_iff)
  with False show ?thesis by (simp add: kv_sum_def kv_at_def)
qed

lemma kv_sum_put: "kv_sum f (kv_put k v m) = kv_sum f m + f k v - kv_at f m k"
proof -
  have "fst ` set (kv_put k v m) - {k} = fst ` set m - {k}"
    by (auto simp: kv_put_keys)
  then have "(\<Sum>x \<in> fst ` set (kv_put k v m) - {k}. f x (the (kv_get (kv_put k v m) x)))
      = (\<Sum>x \<in> fst ` set m - {k}. f x (the (kv_get m x)))"
    by (auto intro!: sum.cong)
  then show ?thesis
    using kv_sum_remove [of f m k] kv_sum_remove [of f "kv_put k v m" k]
    by (simp add: kv_at_def)
qed

lemma kv_sum_del: "kv_sum f (kv_del k m) = kv_sum f m - kv_at f m k"
proof -
  have "fst ` set (kv_del k m) - {k} = fst ` set m - {k}"
    by (auto simp: kv_del_def)
  then have "(\<Sum>x \<in> fst ` set (kv_del k m) - {k}. f x (the (kv_get (kv_del k m) x)))
      = (\<Sum>x \<in> fst ` set m - {k}. f x (the (kv_get m x)))"
    by (auto intro!: sum.cong)
  then show ?thesis
    using kv_sum_remove [of f m k] kv_sum_remove [of f "kv_del k m" k]
    by (simp add: kv_at_def)
qed

lemma kv_sum_put_same: "f k v = kv_at f m k \<Longrightarrow> kv_sum f (kv_put k v m) = kv_sum f m"
  by (simp add: kv_sum_put)

lemma kv_sum_nonneg: "(\<And>k v. 0 \<le> f k v) \<Longrightarrow> 0 \<le> kv_sum f m"
  by (simp add: kv_sum_def sum_nonneg)

lemma kv_at_le_sum: "(\<And>k v. 0 \<le> f k v) \<Longrightarrow> kv_at f m k \<le> kv_sum f m"
  by (subst kv_sum_remove [of f m k]) (simp add: sum_nonneg)

end
