(* ===== verification/Json.thy ===== *)
theory Json
  imports Ordered_KV
begin

text \<open>
  The values the node keeps in its \<open>meta\<close> column family. Almost all of them are JSON documents
  written with \<open>serde_json::to_vec\<close> and read back with \<open>serde_json::from_slice\<close>; a few are
  plain text or little-endian counters. A stored value is represented by how it was written
  (\<open>Json\<close>, \<open>Text\<close>, \<open>Le64\<close>), and a read of one form as another goes through its bytes: the JSON
  printer and parser are third-party code and fields of \<open>env\<close>, used only for such mixed reads.
  \<open>env\<close> also carries the other code outside the repository that the handlers call: SHA-256, the
  hex codec, Ed25519 verification and the wall clock.
\<close>

section \<open>JSON values\<close>

text \<open>\<open>JNum\<close> is a number that fits \<open>u64\<close>; any other number keeps its literal text.\<close>

datatype json =
    JNull
  | JBool bool
  | JNum u64
  | JNumText string
  | JStr string
  | JArr "json list"
  | JObj "(string \<times> json) list"

fun as_u64 :: "json \<Rightarrow> u64 option" where
  "as_u64 (JNum n) = Some n"
| "as_u64 _ = None"

fun as_str :: "json \<Rightarrow> string option" where
  "as_str (JStr s) = Some s"
| "as_str _ = None"

fun as_bool :: "json \<Rightarrow> bool option" where
  "as_bool (JBool b) = Some b"
| "as_bool _ = None"

fun as_array :: "json \<Rightarrow> json list option" where
  "as_array (JArr xs) = Some xs"
| "as_array _ = None"

text \<open>\<open>v.get(k)\<close>, and the indexing \<open>v[k]\<close> that reads \<open>Null\<close> for what is not there.\<close>

fun jfield :: "json \<Rightarrow> string \<Rightarrow> json option" where
  "jfield (JObj m) k = kv_get m k"
| "jfield _ k = None"

definition jget :: "json \<Rightarrow> string \<Rightarrow> json" where
  "jget j k = (case jfield j k of Some v \<Rightarrow> v | None \<Rightarrow> JNull)"

definition the_u64 :: "json \<Rightarrow> string \<Rightarrow> u64 \<Rightarrow> u64" where
  "the_u64 j k d = (case as_u64 (jget j k) of Some n \<Rightarrow> n | None \<Rightarrow> d)"

definition the_str :: "json \<Rightarrow> string \<Rightarrow> string \<Rightarrow> string" where
  "the_str j k d = (case as_str (jget j k) of Some t \<Rightarrow> t | None \<Rightarrow> d)"

text \<open>The \<open>json!({...})\<close> literal: later keys overwrite earlier ones, the map is ordered.\<close>

definition jobj :: "(string \<times> json) list \<Rightarrow> json" where
  "jobj kvs = JObj (fold (\<lambda>(k, v). kv_put k v) kvs [])"

text \<open>\<open>v[k] = x\<close>: on an object it inserts, on \<open>Null\<close> it makes an object, otherwise it panics.\<close>

fun jset :: "json \<Rightarrow> string \<Rightarrow> json \<Rightarrow> json option" where
  "jset (JObj m) k v = Some (JObj (kv_put k v m))"
| "jset JNull k v = Some (JObj [(k, v)])"
| "jset _ k v = None"

fun jsets :: "json \<Rightarrow> (string \<times> json) list \<Rightarrow> json option" where
  "jsets j [] = Some j"
| "jsets j ((k, v) # kvs) = (case jset j k v of Some j' \<Rightarrow> jsets j' kvs | None \<Rightarrow> None)"

definition with_fields :: "json \<Rightarrow> (string \<times> json) list \<Rightarrow> ('s, json) act" where
  "with_fields j kvs = need (jsets j kvs) (Panic ''cannot access key in JSON value'')"

definition jopt_str :: "string option \<Rightarrow> json" where
  "jopt_str x = (case x of Some t \<Rightarrow> JStr t | None \<Rightarrow> JNull)"

definition jopt_u64 :: "u64 option \<Rightarrow> json" where
  "jopt_u64 x = (case x of Some n \<Rightarrow> JNum n | None \<Rightarrow> JNull)"

definition jstrs :: "string list \<Rightarrow> json" where
  "jstrs xs = JArr (map JStr xs)"

text \<open>Deserialisation into \<open>Vec<String>\<close>: every element must be a string.\<close>

fun strs_of :: "json list \<Rightarrow> string list option" where
  "strs_of [] = Some []"
| "strs_of (JStr t # js) = map_option ((#) t) (strs_of js)"
| "strs_of (j # js) = None"

fun as_strs :: "json \<Rightarrow> string list option" where
  "as_strs (JArr js) = strs_of js"
| "as_strs _ = None"

lemma strs_of_map [simp]: "strs_of (map JStr xs) = Some xs"
  by (induction xs) simp_all

lemma as_strs_jstrs [simp]: "as_strs (jstrs xs) = Some xs"
  by (simp add: jstrs_def)

interpretation strs: codec jstrs as_strs
  by unfold_locales (rule as_strs_jstrs)

lemma kv_get_fold_put:
  "kv_get (fold (\<lambda>(k, v). kv_put k v) kvs m) k =
    (case map_of (rev kvs) k of Some v \<Rightarrow> Some v | None \<Rightarrow> kv_get m k)"
proof (induction kvs arbitrary: m)
  case Nil
  then show ?case by simp
next
  case (Cons e kvs)
  then show ?case
    by (cases e) (auto simp: map_of_append map_add_def split: option.splits)
qed

lemma jfield_jobj [simp]: "jfield (jobj kvs) k = map_of (rev kvs) k"
  by (simp add: jobj_def kv_get_fold_put split: option.split)

lemma jget_jobj [simp]:
  "jget (jobj kvs) k = (case map_of (rev kvs) k of Some v \<Rightarrow> v | None \<Rightarrow> JNull)"
  by (simp add: jget_def)

lemma jset_jfield: "jset j k v = Some j' \<Longrightarrow> jfield j' k' = (if k' = k then Some v else jfield j k')"
  by (cases j) auto

lemma jset_jobj [simp]: "jset (jobj kvs) k v = Some (jobj (kvs @ [(k, v)]))"
  by (simp add: jobj_def)

lemma jsets_jobj [simp]: "jsets (jobj kvs) ups = Some (jobj (kvs @ ups))"
proof (induction ups arbitrary: kvs)
  case Nil
  then show ?case by simp
next
  case (Cons e ups)
  then show ?case by (cases e) simp
qed

lemma jsets_jfield:
  "jsets j ups = Some j' \<Longrightarrow>
    jfield j' k = (case map_of (rev ups) k of Some v \<Rightarrow> Some v | None \<Rightarrow> jfield j k)"
proof (induction j ups rule: jsets.induct)
  case (1 j)
  then show ?case by simp
next
  case (2 j k1 v1 kvs)
  from 2(2) obtain j1 where j1: "jset j k1 v1 = Some j1" "jsets j1 kvs = Some j'"
    by (auto split: option.splits)
  from 2(1) [OF j1] jset_jfield [OF j1(1), of k] show ?case
    by (auto simp: map_add_def split: option.splits)
qed

section \<open>Stored values and the environment\<close>

datatype val = Json json | Text string | Le64 u64

record env =
  json_parse :: "string \<Rightarrow> json option"
  json_print :: "json \<Rightarrow> string"
  sha256 :: "string \<Rightarrow> string"
  hex_encode :: "string \<Rightarrow> string"
  hex_decode :: "string \<Rightarrow> string option"
  ed25519_verify :: "string \<Rightarrow> string \<Rightarrow> string \<Rightarrow> bool"
  now_secs :: u64
  log_info :: bool

text \<open>
  \<open>ed25519_verify\<close> takes the 32 bytes of a key, a message and the 64 bytes of a signature; it is false
  also for a key that is not a point of the curve. Keys and signatures arrive as hexadecimal text.
  \<open>log_info\<close> says whether the subscriber records events of level \<open>info\<close>, whose arguments are evaluated then.
\<close>

definition hex_bytes :: "env \<Rightarrow> nat \<Rightarrow> string \<Rightarrow> string option" where
  "hex_bytes E n t =
    (case hex_decode E t of Some b \<Rightarrow> if length b = n then Some b else None | None \<Rightarrow> None)"

definition val_bytes :: "env \<Rightarrow> val \<Rightarrow> string" where
  "val_bytes E v = (case v of Json j \<Rightarrow> json_print E j | Text t \<Rightarrow> t | Le64 w \<Rightarrow> to_le w)"

text \<open>\<open>serde_json::from_slice(&b).ok()\<close>, \<open>String::from_utf8(b).ok()\<close>, \<open>u64\<close> from 8 bytes.\<close>

definition as_json :: "env \<Rightarrow> val \<Rightarrow> json option" where
  "as_json E v = (case v of Json j \<Rightarrow> Some j | _ \<Rightarrow> json_parse E (val_bytes E v))"

definition as_utf8 :: "env \<Rightarrow> val \<Rightarrow> string option" where
  "as_utf8 E v =
     (case v of Text t \<Rightarrow> Some t
      | _ \<Rightarrow> let b = val_bytes E v in if utf8_valid b then Some b else None)"

definition as_le64 :: "env \<Rightarrow> val \<Rightarrow> u64 option" where
  "as_le64 E v = (case v of Le64 w \<Rightarrow> Some w | _ \<Rightarrow> from_le (val_bytes E v))"

lemma as_json_Json [simp]: "as_json E (Json j) = Some j"
  by (simp add: as_json_def)

lemma as_utf8_Text [simp]: "as_utf8 E (Text t) = Some t"
  by (simp add: as_utf8_def)

lemma as_le64_Le64 [simp]: "as_le64 E (Le64 w) = Some w"
  by (simp add: as_le64_def)

text \<open>A concrete environment, on which the theorems that mention one are witnessed.\<close>

definition demo_env :: env where
  "demo_env =
    \<lparr>json_parse = (\<lambda>_. None), json_print = (\<lambda>_. []), sha256 = (\<lambda>_. replicate 32 (CHR 0x00)),
     hex_encode = (\<lambda>b. b), hex_decode = Some,
     ed25519_verify = (\<lambda>_ _ _. True), now_secs = 0, log_info = False\<rparr>"

definition demo_key :: string where
  "demo_key = replicate 32 (CHR ''k'')"

definition demo_sig :: string where
  "demo_sig = replicate 64 (CHR ''s'')"

lemma demo_hex_bytes [simp]: "hex_bytes demo_env 32 demo_key = Some demo_key"
  "hex_bytes demo_env 64 demo_sig = Some demo_sig"
  by (simp_all add: hex_bytes_def demo_env_def demo_key_def demo_sig_def)

end
