(* ===== verification/Store.thy ===== *)
theory Store
  imports Json
begin

text \<open>
  The state store of the node (\<open>src/store.rs\<close>): one record \<open>chain\<close> with a field per RocksDB
  column family and the node's current epoch, and one definition per operation of \<open>Store\<close>. Reads
  are functions of the state, writes are actions. The I/O errors of RocksDB itself are not
  modelled: a column family always opens and a write always succeeds.

  The lemmas give the exact effect of each operation, and the total of a token over all balances
  (\<open>token_supply\<close>) with the contract \<open>value_ledger\<close>: a debit that returns takes exactly its amount out
  of the total, a credit adds exactly its amount, and neither changes another token.
\<close>

section \<open>State\<close>

record chain =
  cf_accounts :: "json kv"
  cf_balances :: "u64 kv"
  cf_stakes :: "u64 kv"
  cf_epochs :: "json kv"
  cf_blocks :: "string kv"
  cf_meta :: "val kv"
  current_epoch :: u64

type_synonym 'a chain_act = "(chain, 'a) act"

definition NATIVE_TOKEN :: string where
  "NATIVE_TOKEN = ''HONE''"

definition empty_chain :: chain where
  "empty_chain = \<lparr>cf_accounts = [], cf_balances = [], cf_stakes = [], cf_epochs = [],
     cf_blocks = [], cf_meta = [], current_epoch = 0\<rparr>"

definition wf_chain :: "chain \<Rightarrow> bool" where
  "wf_chain s \<longleftrightarrow> kv_sorted (cf_accounts s) \<and> kv_sorted (cf_balances s) \<and>
     kv_sorted (cf_stakes s) \<and> kv_sorted (cf_epochs s) \<and> kv_sorted (cf_blocks s) \<and>
     kv_sorted (cf_meta s)"

section \<open>Operations\<close>

subsection \<open>Accounts, balances, stakes\<close>

definition get_account :: "chain \<Rightarrow> string \<Rightarrow> json option" where
  "get_account s account_id = kv_get (cf_accounts s) account_id"

definition set_account :: "string \<Rightarrow> json \<Rightarrow> unit chain_act" where
  "set_account account_id data =
     modify (\<lambda>s. s\<lparr>cf_accounts := kv_put account_id data (cf_accounts s)\<rparr>)"

definition balance_key :: "string \<Rightarrow> string \<Rightarrow> string" where
  "balance_key account token = account @ [CHR 0x00] @ token"

definition get_balance :: "chain \<Rightarrow> string \<Rightarrow> string \<Rightarrow> u64" where
  "get_balance s account token =
     (case kv_get (cf_balances s) (balance_key account token) of Some b \<Rightarrow> b | None \<Rightarrow> 0)"

definition set_balance :: "string \<Rightarrow> string \<Rightarrow> u64 \<Rightarrow> unit chain_act" where
  "set_balance account token amount =
     modify (\<lambda>s. s\<lparr>cf_balances := kv_put (balance_key account token) amount (cf_balances s)\<rparr>)"

definition credit :: "string \<Rightarrow> string \<Rightarrow> u64 \<Rightarrow> u64 chain_act" where
  "credit account token amount =
     andThen (reads (\<lambda>s. get_balance s account token)) (\<lambda>current.
     andThen (need (checked_add current amount) (Balance_overflow account token)) (\<lambda>new_bal.
     seq (set_balance account token new_bal) (ret new_bal)))"

definition debit :: "string \<Rightarrow> string \<Rightarrow> u64 \<Rightarrow> u64 chain_act" where
  "debit account token amount =
     andThen (reads (\<lambda>s. get_balance s account token)) (\<lambda>bal.
     seq (ensure (bal \<ge> amount) (Insufficient_balance account token))
     (seq (set_balance account token (bal - amount)) (ret (bal - amount))))"

definition scan_balances :: "chain \<Rightarrow> string \<Rightarrow> (string \<times> u64) list" where
  "scan_balances s account =
     (let p = account @ [CHR 0x00]
      in map (\<lambda>(k, v). (drop (length p) k, v)) (kv_scan p (cf_balances s)))"

definition get_stake :: "chain \<Rightarrow> string \<Rightarrow> u64" where
  "get_stake s account = (case kv_get (cf_stakes s) account of Some n \<Rightarrow> n | None \<Rightarrow> 0)"

definition set_stake :: "string \<Rightarrow> u64 \<Rightarrow> unit chain_act" where
  "set_stake account amount =
     modify (\<lambda>s. s\<lparr>cf_stakes := kv_put account amount (cf_stakes s)\<rparr>)"

subsection \<open>Epoch metadata and contract state\<close>

definition set_epoch_meta :: "u64 \<Rightarrow> json \<Rightarrow> unit chain_act" where
  "set_epoch_meta epoch data =
     modify (\<lambda>s. s\<lparr>cf_epochs := kv_put (to_le epoch) data (cf_epochs s)\<rparr>)"

definition get_epoch_meta :: "chain \<Rightarrow> u64 \<Rightarrow> json option" where
  "get_epoch_meta s epoch = kv_get (cf_epochs s) (to_le epoch)"

definition state_set :: "string \<Rightarrow> val \<Rightarrow> unit chain_act" where
  "state_set key value = modify (\<lambda>s. s\<lparr>cf_meta := kv_put key value (cf_meta s)\<rparr>)"

definition state_get :: "chain \<Rightarrow> string \<Rightarrow> val option" where
  "state_get s key = kv_get (cf_meta s) key"

definition state_delete :: "string \<Rightarrow> unit chain_act" where
  "state_delete key = modify (\<lambda>s. s\<lparr>cf_meta := kv_del key (cf_meta s)\<rparr>)"

definition state_scan_prefix :: "chain \<Rightarrow> string \<Rightarrow> (string \<times> val) list" where
  "state_scan_prefix s pre = kv_scan pre (cf_meta s)"

text \<open>\<open>get_meta\<close> and \<open>set_meta\<close> address the same column family as \<open>state_get\<close>, \<open>state_set\<close>.\<close>

definition get_meta :: "chain \<Rightarrow> string \<Rightarrow> val option" where
  "get_meta s key = kv_get (cf_meta s) key"

definition set_meta :: "string \<Rightarrow> val \<Rightarrow> unit chain_act" where
  "set_meta key value = modify (\<lambda>s. s\<lparr>cf_meta := kv_put key value (cf_meta s)\<rparr>)"

definition get_account_by_api_key :: "env \<Rightarrow> chain \<Rightarrow> string \<Rightarrow> string option" where
  "get_account_by_api_key E s token =
     Option.bind (state_get s (''api_key:'' @ token)) (as_utf8 E)"

definition set_api_key :: "env \<Rightarrow> string \<Rightarrow> string \<Rightarrow> unit chain_act" where
  "set_api_key E account key =
     andThen (reads (\<lambda>s. Option.bind (state_get s (''account_api_key:'' @ account)) (as_utf8 E)))
       (\<lambda>old. seq (case old of
                None \<Rightarrow> ret ()
              | Some old_key \<Rightarrow> state_delete (''api_key:'' @ old_key))
       (seq (state_set (''api_key:'' @ key) (Text account))
            (state_set (''account_api_key:'' @ account) (Text key))))"

definition get_alive_epoch :: "env \<Rightarrow> chain \<Rightarrow> string \<Rightarrow> u64" where
  "get_alive_epoch E s account =
     (case Option.bind (state_get s (''alive:'' @ account)) (as_le64 E) of
        Some n \<Rightarrow> n | None \<Rightarrow> 0)"

definition set_alive_epoch :: "string \<Rightarrow> u64 \<Rightarrow> unit chain_act" where
  "set_alive_epoch account epoch = state_set (''alive:'' @ account) (Le64 epoch)"

definition scan_account_ids :: "chain \<Rightarrow> string list" where
  "scan_account_ids s = map fst (cf_accounts s)"

text \<open>The recurring read \<open>state_get(k).and_then(|b| from_slice(&b).ok())\<close> and its typed forms.\<close>

definition state_json :: "env \<Rightarrow> chain \<Rightarrow> string \<Rightarrow> json option" where
  "state_json E s key = Option.bind (state_get s key) (as_json E)"

definition state_u64 :: "env \<Rightarrow> chain \<Rightarrow> string \<Rightarrow> u64 option" where
  "state_u64 E s key = Option.bind (state_json E s key) as_u64"

definition state_text :: "env \<Rightarrow> chain \<Rightarrow> string \<Rightarrow> string option" where
  "state_text E s key = Option.bind (state_get s key) (as_utf8 E)"

definition state_amount :: "env \<Rightarrow> chain \<Rightarrow> string \<Rightarrow> u64" where
  "state_amount E s key =
     (case state_json E s key of Some j \<Rightarrow> the_u64 j ''amount'' 0 | None \<Rightarrow> 0)"

lemmas store_read_defs = get_account_def get_balance_def get_stake_def get_epoch_meta_def
  state_get_def get_meta_def

lemmas store_write_defs = set_account_def set_balance_def set_stake_def set_epoch_meta_def
  state_set_def state_delete_def set_meta_def

section \<open>Frames\<close>

lemma keeps_modify: "(\<And>s. f (g s) = f s) \<Longrightarrow> keeps f (modify g)"
  by (simp add: keeps_def act_simps)

lemma preserves_modify: "(\<And>s. P s \<Longrightarrow> P (g s)) \<Longrightarrow> preserves P (modify g)"
  by (simp add: preserves_def act_simps)

lemma keeps_balances_writes [keeps_intros]:
  "keeps cf_balances (set_account a j)"
  "keeps cf_balances (set_stake a n)"
  "keeps cf_balances (set_epoch_meta e j)"
  "keeps cf_balances (state_set k v)"
  "keeps cf_balances (state_delete k)"
  "keeps cf_balances (set_meta k v)"
  by (simp_all add: store_write_defs keeps_modify)

lemma keeps_stakes_writes [keeps_intros]:
  "keeps cf_stakes (set_account a j)"
  "keeps cf_stakes (set_balance a t n)"
  "keeps cf_stakes (set_epoch_meta e j)"
  "keeps cf_stakes (state_set k v)"
  "keeps cf_stakes (state_delete k)"
  "keeps cf_stakes (set_meta k v)"
  by (simp_all add: store_write_defs keeps_modify)

lemma keeps_accounts_writes [keeps_intros]:
  "keeps cf_accounts (set_balance a t n)"
  "keeps cf_accounts (set_stake a n)"
  "keeps cf_accounts (set_epoch_meta e j)"
  "keeps cf_accounts (state_set k v)"
  "keeps cf_accounts (state_delete k)"
  "keeps cf_accounts (set_meta k v)"
  by (simp_all add: store_write_defs keeps_modify)

lemma keeps_meta_writes [keeps_intros]:
  "keeps cf_meta (set_account a j)"
  "keeps cf_meta (set_balance a t n)"
  "keeps cf_meta (set_stake a n)"
  "keeps cf_meta (set_epoch_meta e j)"
  by (simp_all add: store_write_defs keeps_modify)

lemma keeps_with_fields [keeps_intros]: "keeps f (with_fields j kvs)"
  unfolding with_fields_def by (rule keeps_need)

lemma preserves_with_fields [preserves_intros]: "preserves P (with_fields j kvs)"
  unfolding with_fields_def by (rule preserves_need)

lemma keeps_credit [keeps_intros]:
  "keeps cf_stakes (credit a t n)" "keeps cf_accounts (credit a t n)"
  "keeps cf_meta (credit a t n)"
  unfolding credit_def by (intro keeps_intros)+

lemma keeps_debit [keeps_intros]:
  "keeps cf_stakes (debit a t n)" "keeps cf_accounts (debit a t n)"
  "keeps cf_meta (debit a t n)"
  unfolding debit_def by (intro keeps_intros)+

lemma preserves_wf_writes [preserves_intros]:
  "preserves wf_chain (set_account a j)"
  "preserves wf_chain (set_balance a t n)"
  "preserves wf_chain (set_stake a n)"
  "preserves wf_chain (set_epoch_meta e j)"
  "preserves wf_chain (state_set k v)"
  "preserves wf_chain (state_delete k)"
  "preserves wf_chain (set_meta k v)"
  by (auto simp: store_write_defs wf_chain_def intro!: preserves_modify kv_sorted_put kv_sorted_del)

lemma preserves_wf_credit [preserves_intros]: "preserves wf_chain (credit a t n)"
  unfolding credit_def by (intro preserves_intros)

lemma preserves_wf_debit [preserves_intros]: "preserves wf_chain (debit a t n)"
  unfolding debit_def by (intro preserves_intros)

lemma wf_empty_chain [simp]: "wf_chain empty_chain"
  by (simp add: wf_chain_def empty_chain_def)

section \<open>Exact effects\<close>

lemma debit_cases:
  "debit a t n s =
    (if n \<le> get_balance s a t
     then (Inr (get_balance s a t - n),
           s\<lparr>cf_balances := kv_put (balance_key a t) (get_balance s a t - n) (cf_balances s)\<rparr>)
     else (Inl (Insufficient_balance a t), s))"
  by (simp add: debit_def set_balance_def act_simps)

lemma credit_cases:
  "credit a t n s =
    (if unat (get_balance s a t) + unat n < 2 ^ 64
     then (Inr (get_balance s a t + n),
           s\<lparr>cf_balances := kv_put (balance_key a t) (get_balance s a t + n) (cf_balances s)\<rparr>)
     else (Inl (Balance_overflow a t), s))"
  by (simp add: credit_def set_balance_def checked_add_def act_simps)

lemma calm_balance [calm_intros]: "calm (credit a t n)" "calm (debit a t n)"
  by (simp_all add: calm_def credit_cases debit_cases)

lemma calm_state [calm_intros]: "calm (state_set k v)" "calm (state_delete k)" "calm (set_account a j)" "calm (set_stake a n)"
  by (simp_all add: calm_def state_set_def state_delete_def set_account_def set_stake_def modify_apply)

lemma get_balance_put:
  "get_balance (s\<lparr>cf_balances := kv_put (balance_key a t) n (cf_balances s)\<rparr>) a' t' =
    (if balance_key a' t' = balance_key a t then n else get_balance s a' t')"
  by (simp add: get_balance_def)

lemma balance_key_inject:
  "CHR 0x00 \<notin> set a \<Longrightarrow> CHR 0x00 \<notin> set b \<Longrightarrow>
    balance_key a t = balance_key b u \<longleftrightarrow> a = b \<and> t = u"
  by (simp add: balance_key_def append_sep_eq)

lemma balance_key_inject_token [simp]: "balance_key a t = balance_key b t \<longleftrightarrow> a = b"
  by (simp add: balance_key_def)

section \<open>Supply of a token\<close>

text \<open>The token of a balance key is what follows its last separator byte.\<close>

definition token_of :: "string \<Rightarrow> string" where
  "token_of k = rev (takeWhile (\<lambda>c. c \<noteq> CHR 0x00) (rev k))"

definition plain_token :: "string \<Rightarrow> bool" where
  "plain_token t \<longleftrightarrow> CHR 0x00 \<notin> set t"

definition supply_share :: "string \<Rightarrow> string \<Rightarrow> u64 \<Rightarrow> int" where
  "supply_share t k n = (if token_of k = t then uint n else 0)"

definition token_supply :: "string \<Rightarrow> chain \<Rightarrow> int" where
  "token_supply t s = kv_sum (supply_share t) (cf_balances s)"

lemma token_of_balance_key: "plain_token t \<Longrightarrow> token_of (balance_key a t) = t"
  unfolding token_of_def balance_key_def plain_token_def by (simp, subst takeWhile_append2) auto

lemma plain_NATIVE [simp]: "plain_token NATIVE_TOKEN"
  by (simp add: plain_token_def NATIVE_TOKEN_def)

lemma keeps_token_supply: "keeps cf_balances m \<Longrightarrow> keeps (token_supply t) m"
  by (simp add: keeps_def token_supply_def)

lemma kv_at_supply_share:
  "plain_token t \<Longrightarrow>
    kv_at (supply_share t') (cf_balances s) (balance_key a t) =
      (if t = t' then uint (get_balance s a t) else 0)"
  by (auto simp: kv_at_def supply_share_def get_balance_def token_of_balance_key split: option.split)

lemma supply_put:
  "plain_token t \<Longrightarrow>
    token_supply t' (s\<lparr>cf_balances := kv_put (balance_key a t) n (cf_balances s)\<rparr>) =
      token_supply t' s + (if t = t' then uint n - uint (get_balance s a t) else 0)"
  by (simp add: token_supply_def kv_sum_put kv_at_supply_share supply_share_def token_of_balance_key)

lemma gains_debit:
  "plain_token t \<Longrightarrow> gains (token_supply t') (if t = t' then - uint n else 0) (debit a t n)"
  by (auto simp: gains_def debit_cases supply_put split: if_splits)

lemma gains_credit:
  "plain_token t \<Longrightarrow> gains (token_supply t') (if t = t' then uint n else 0) (credit a t n)"
  by (auto simp: gains_def credit_cases supply_put uint_u64_add split: if_splits)

lemma supply_nonneg: "0 \<le> token_supply t s"
  unfolding token_supply_def by (rule kv_sum_nonneg) (simp add: supply_share_def)

lemma balance_le_supply: "plain_token t \<Longrightarrow> uint (get_balance s a t) \<le> token_supply t s"
  using kv_at_le_sum [of "supply_share t" "cf_balances s" "balance_key a t"]
  by (simp add: kv_at_supply_share token_supply_def) (simp add: supply_share_def)

section \<open>The contract of a ledger of value\<close>

text \<open>
  What the handlers rely on when they move value: taking out and paying in change the total by
  exactly the amount. The lemmas proved from it cover the shapes the handlers use: a move, a
  payment to several receivers, and a split of one amount into shares.
\<close>

locale value_ledger =
  fixes total :: "'s \<Rightarrow> int"
    and take_out :: "'k \<Rightarrow> u64 \<Rightarrow> ('s, 'r) act"
    and pay_in :: "'k \<Rightarrow> u64 \<Rightarrow> ('s, 'r) act"
  assumes take_out_gains: "gains total (- uint n) (take_out k n)"
    and pay_in_gains: "gains total (uint n) (pay_in k n)"
begin

lemma move_conserves: "gains total 0 (seq (take_out a n) (pay_in b n))"
  by (rule gains_seq [OF take_out_gains pay_in_gains]) simp

lemma move_then:
  "gains total d m \<Longrightarrow> gains total d (seq (take_out a n) (seq (pay_in b n) m))"
  by (rule gains_seq [OF take_out_gains gains_seq [OF pay_in_gains, where d = "uint n + d"]])
    simp_all

lemma split2_conserves:
  "uint n = uint x + uint y \<Longrightarrow>
    gains total 0 (seq (take_out a n) (seq (pay_in b x) (pay_in c y)))"
  by (rule gains_seq [OF take_out_gains gains_seq [OF pay_in_gains pay_in_gains refl]]) simp

lemma pay_list_gains:
  "gains total (\<Sum>(k, n) \<leftarrow> xs. uint n) (each (\<lambda>(k, n). seq (pay_in k n) (ret ())) xs)"
proof (induction xs)
  case Nil
  then show ?case by (simp add: gains_ret)
next
  case (Cons x xs)
  obtain k n where x: "x = (k, n)" by (cases x)
  have "gains total (uint n) (seq (pay_in k n) (ret ()))"
    by (rule gains_seq [OF pay_in_gains gains_ret]) simp
  from gains_seq [OF this Cons] show ?case by (simp add: x)
qed

end

interpretation native: value_ledger "token_supply NATIVE_TOKEN"
  "\<lambda>a. debit a NATIVE_TOKEN" "\<lambda>a. credit a NATIVE_TOKEN"
  by unfold_locales
    (use gains_debit [of NATIVE_TOKEN NATIVE_TOKEN] gains_credit [of NATIVE_TOKEN NATIVE_TOKEN]
      in simp_all)

text \<open>For a token other than the one moved, every debit and credit is a frame.\<close>

lemma other_token_debit: "plain_token t \<Longrightarrow> t \<noteq> t' \<Longrightarrow> gains (token_supply t') 0 (debit a t n)"
  using gains_debit [of t t'] by simp

lemma other_token_credit: "plain_token t \<Longrightarrow> t \<noteq> t' \<Longrightarrow> gains (token_supply t') 0 (credit a t n)"
  using gains_credit [of t t'] by simp

text \<open>Running a handler on a concrete state.\<close>

lemmas store_run_simps [run_simps] = Let_def store_read_defs store_write_defs debit_cases
  credit_cases balance_key_def set_alive_epoch_def get_alive_epoch_def state_json_def state_u64_def
  state_text_def state_amount_def set_api_key_def with_fields_def NATIVE_TOKEN_def empty_chain_def
  state_scan_prefix_def

end
