(* ===== verification/Accounts.thy ===== *)
theory Accounts
  imports Store
begin

text \<open>
  Accounts, nonces and the permissive token model (\<open>src/chain.rs\<close>, \<open>src/tx.rs\<close>): the helpers
  \<open>touch_alive\<close>, \<open>ensure_account\<close>, \<open>check_nonce\<close>, \<open>bump_nonce\<close>, the token approvals and spam
  gates, and the handlers of \<open>apply_entry\<close> for account and token entries. The central handler is
  \<open>apply_Transfer\<close>: native tokens and approved senders are credited at once, a gated recipient
  is paid a fee, and otherwise the amount waits in a \<open>pending_transfer\<close> record until the recipient
  accepts or rejects it.

  The properties: value is conserved by transfer, accept and reject (balances plus pending
  records), a nonce is accepted at most once, and the exact effect of a native transfer; and one
  path on which the code loses value, the transfer refused by an EVM gate after its debit.
\<close>

section \<open>Helpers\<close>

definition touch_alive :: "env \<Rightarrow> string \<Rightarrow> u64 \<Rightarrow> unit chain_act" where
  "touch_alive E account epoch =
     andThen (reads (\<lambda>s. get_alive_epoch E s account)) (\<lambda>current.
     when_do (epoch > current) (set_alive_epoch account epoch))"

definition ensure_account :: "string \<Rightarrow> u64 \<Rightarrow> unit chain_act" where
  "ensure_account account epoch =
     andThen (reads (\<lambda>s. get_account s account)) (\<lambda>st.
     when_do (st = None)
       (set_account account (jobj [
          (''account_id'', JStr account), (''created_epoch'', JNum epoch),
          (''nonce'', JNum 0), (''stake'', JNum 0)])))"

definition account_nonce :: "json \<Rightarrow> u64" where
  "account_nonce state = (case Option.bind (jfield state ''nonce'') as_u64 of Some n \<Rightarrow> n | None \<Rightarrow> 0)"

definition check_nonce :: "string \<Rightarrow> u64 \<Rightarrow> unit chain_act" where
  "check_nonce account submitted =
     andThen (reads (\<lambda>s. case get_account s account of
         Some state \<Rightarrow> account_nonce state + 1 | None \<Rightarrow> 1)) (\<lambda>expected.
     ensure (submitted = expected) (Err ''invalid nonce''))"

definition bump_nonce :: "string \<Rightarrow> unit chain_act" where
  "bump_nonce account =
     andThen (reads (\<lambda>s. get_account s account)) (\<lambda>st.
     case st of
       None \<Rightarrow> ret ()
     | Some state \<Rightarrow>
         andThen (with_fields state [(''nonce'', JNum (account_nonce state + 1))])
           (set_account account))"

definition is_some :: "'a option \<Rightarrow> bool" where
  "is_some x = (case x of Some _ \<Rightarrow> True | None \<Rightarrow> False)"

definition approval_key :: "string \<Rightarrow> string \<Rightarrow> string \<Rightarrow> string" where
  "approval_key account token from = ''token_approval:'' @ account @ '':'' @ token @ '':'' @ from"

definition token_approved :: "chain \<Rightarrow> string \<Rightarrow> string \<Rightarrow> string \<Rightarrow> bool" where
  "token_approved s to token from \<longleftrightarrow>
     is_some (state_get s (approval_key to token from)) \<or>
     is_some (state_get s (approval_key to ''*'' from)) \<or>
     is_some (state_get s (approval_key to token ''*'')) \<or>
     is_some (state_get s (approval_key to ''*'' ''*''))"

datatype SpamGate = OnChain u64 string | Evm string u64

definition gate_of_json :: "json \<Rightarrow> SpamGate option" where
  "gate_of_json j =
     (case (as_str (jget j ''evm_address''), as_u64 (jget j ''evm_chain_id'')) of
        (Some addr, Some chain_id) \<Rightarrow>
          if addr \<noteq> [] then Some (Evm addr chain_id)
          else map_option (\<lambda>fee. OnChain fee (the_str j ''fee_token'' NATIVE_TOKEN))
                 (as_u64 (jget j ''fee''))
      | _ \<Rightarrow> map_option (\<lambda>fee. OnChain fee (the_str j ''fee_token'' NATIVE_TOKEN))
               (as_u64 (jget j ''fee'')))"

fun first_gate :: "env \<Rightarrow> chain \<Rightarrow> string list \<Rightarrow> SpamGate option" where
  "first_gate E s [] = None"
| "first_gate E s (key # ks) =
     (case Option.bind (state_json E s key) gate_of_json of
        Some g \<Rightarrow> Some g | None \<Rightarrow> first_gate E s ks)"

definition spam_gate :: "env \<Rightarrow> chain \<Rightarrow> string \<Rightarrow> string \<Rightarrow> SpamGate option" where
  "spam_gate E s to token =
     first_gate E s [''spam_gate:'' @ to @ '':'' @ token, ''spam_gate:'' @ to @ '':*'']"

definition pending_key :: "string \<Rightarrow> string \<Rightarrow> string \<Rightarrow> u64 \<Rightarrow> string" where
  "pending_key to token from nonce =
     ''pending_transfer:'' @ to @ '':'' @ token @ '':'' @ from @ '':'' @ show_u64 nonce"

section \<open>Handlers: value\<close>

definition apply_GenesisAlloc :: "string \<Rightarrow> u64 \<Rightarrow> string \<Rightarrow> unit chain_act" where
  "apply_GenesisAlloc account amount token =
     seq (ensure_account account 0) (seq (credit account token amount) (ret ()))"

definition deliver_transfer ::
  "env \<Rightarrow> string \<Rightarrow> string \<Rightarrow> u64 \<Rightarrow> string \<Rightarrow> u64 \<Rightarrow> u64 \<Rightarrow> unit chain_act" where
  "deliver_transfer E from to amount token epoch nonce =
     andThen (reads (\<lambda>s. token = NATIVE_TOKEN \<or> token_approved s to token from)) (\<lambda>instant.
     if instant then seq (credit to token amount) (ret ())
     else andThen (reads (\<lambda>s. spam_gate E s to token)) (\<lambda>gate.
       case gate of
         None \<Rightarrow>
           state_set (pending_key to token from nonce) (Json (jobj [
             (''from'', JStr from), (''to'', JStr to), (''token'', JStr token),
             (''amount'', JNum amount), (''expires_epoch'', JNum (epoch + 30))]))
       | Some g \<Rightarrow>
           (case g of
              OnChain fee fee_token \<Rightarrow>
                andThen (reads (\<lambda>s. get_balance s from fee_token)) (\<lambda>bal.
                seq (ensure (bal \<ge> fee) (Err ''sender needs the fee to pass spam gate''))
               (seq (debit from fee_token fee)
               (seq (credit to fee_token fee)
               (seq (credit to token amount) (ret ())))))
            | Evm evm_address evm_chain_id \<Rightarrow>
                bail (Err ''recipient requires EVM payment; use SpamGatePayEvm''))))"

definition apply_Transfer ::
  "env \<Rightarrow> string \<Rightarrow> string \<Rightarrow> u64 \<Rightarrow> string \<Rightarrow> u64 \<Rightarrow> u64 \<Rightarrow> unit chain_act" where
  "apply_Transfer E from to amount token epoch nonce =
     seq (touch_alive E from epoch)
    (seq (ensure (amount > 0) (Err ''transfer amount must be positive''))
    (seq (check_nonce from nonce)
    (seq (ensure_account to epoch)
    (seq (debit from token amount)
    (seq (deliver_transfer E from to amount token epoch nonce)
         (bump_nonce from))))))"

definition apply_TokenAccept ::
  "env \<Rightarrow> string \<Rightarrow> string \<Rightarrow> string \<Rightarrow> u64 \<Rightarrow> unit chain_act" where
  "apply_TokenAccept E to token from pending_nonce =
    (let key = pending_key to token from pending_nonce in
     andThen (reads (\<lambda>s. Option.bind (state_json E s key) (\<lambda>j. as_u64 (jget j ''amount'')))) (\<lambda>found.
     andThen (need found (Err ''no pending transfer found'')) (\<lambda>amount.
     seq (state_delete key) (seq (credit to token amount) (ret ())))))"

definition apply_TokenReject ::
  "env \<Rightarrow> string \<Rightarrow> string \<Rightarrow> string \<Rightarrow> u64 \<Rightarrow> unit chain_act" where
  "apply_TokenReject E to token from pending_nonce =
    (let key = pending_key to token from pending_nonce in
     andThen (reads (\<lambda>s. Option.bind (state_json E s key) (\<lambda>j. as_u64 (jget j ''amount'')))) (\<lambda>found.
     andThen (need found (Err ''no pending transfer found'')) (\<lambda>amount.
     seq (state_delete key) (seq (credit from token amount) (ret ())))))"

definition apply_SpamGatePayEvm ::
  "env \<Rightarrow> string \<Rightarrow> string \<Rightarrow> string \<Rightarrow> u64 \<Rightarrow> string \<Rightarrow> u64 \<Rightarrow> u64 \<Rightarrow> u64 \<Rightarrow> unit chain_act" where
  "apply_SpamGatePayEvm E from to token amount evm_tx_hash evm_chain_id epoch nonce =
     andThen (reads (\<lambda>s. case spam_gate E s to token of
         Some g \<Rightarrow> (case g of Evm _ cid \<Rightarrow> cid = evm_chain_id | _ \<Rightarrow> False)
       | None \<Rightarrow> False)) (\<lambda>gate_ok.
     seq (ensure gate_ok (Err ''no EVM spam gate on chain''))
    (seq (debit from token amount)
         (state_set (pending_key to token from nonce) (Json (jobj [
            (''from'', JStr from), (''to'', JStr to), (''token'', JStr token),
            (''amount'', JNum amount), (''expires_epoch'', JNum (epoch + 30)),
            (''evm_tx_hash'', JStr evm_tx_hash), (''evm_chain_id'', JNum evm_chain_id)])))))"

definition apply_SpamGateSet ::
  "string \<Rightarrow> string \<Rightarrow> u64 \<Rightarrow> string \<Rightarrow> string option \<Rightarrow> u64 option \<Rightarrow> unit chain_act" where
  "apply_SpamGateSet account token fee fee_token evm_address evm_chain_id =
     state_set (''spam_gate:'' @ account @ '':'' @ token) (Json (jobj [
       (''fee'', JNum fee), (''fee_token'', JStr fee_token),
       (''evm_address'', jopt_str evm_address), (''evm_chain_id'', jopt_u64 evm_chain_id)]))"

definition apply_SpamGateClear :: "string \<Rightarrow> string \<Rightarrow> unit chain_act" where
  "apply_SpamGateClear account token = state_delete (''spam_gate:'' @ account @ '':'' @ token)"

definition apply_TokenApprove :: "string \<Rightarrow> string \<Rightarrow> string \<Rightarrow> unit chain_act" where
  "apply_TokenApprove account token from = state_set (approval_key account token from) (Text ''1'')"

definition apply_TokenRevoke :: "string \<Rightarrow> string \<Rightarrow> string \<Rightarrow> unit chain_act" where
  "apply_TokenRevoke account token from = state_delete (approval_key account token from)"

section \<open>Handlers: identity\<close>

definition STAKE_EXEMPT_ACCOUNTS :: "string list" where
  "STAKE_EXEMPT_ACCOUNTS = [''shindevlin'', ''__testnet_fund__'', ''__recycle__'', ''treasury'']"

definition NAME_REGISTRATION_STAKE :: u64 where
  "NAME_REGISTRATION_STAKE = 10 * 10000000000"

definition is_ws :: "char \<Rightarrow> bool" where
  "is_ws c \<longleftrightarrow> (let b = (of_char c :: nat) in b = 32 \<or> (9 \<le> b \<and> b \<le> 13))"

text \<open>\<open>str::trim\<close>, for the white space that occurs in ASCII.\<close>

definition trim :: "string \<Rightarrow> string" where
  "trim s = rev (dropWhile is_ws (rev (dropWhile is_ws s)))"

text \<open>
  \<open>keys\<close> maps a role to a public key, \<open>chain_proofs\<close> a chain to its commitment and mode. The
  handler returns \<open>False\<close> when it leaves \<open>apply_entry\<close> early (the account already exists).
\<close>

definition apply_AccountCreate ::
  "env \<Rightarrow> string \<Rightarrow> (string \<times> string) list \<Rightarrow> (string \<times> string \<times> string) list \<Rightarrow> u64 \<Rightarrow>
    string option \<Rightarrow> string option \<Rightarrow> bool chain_act" where
  "apply_AccountCreate E account keys chain_proofs epoch funded_by machine_fingerprint =
     andThen (reads (\<lambda>s. get_account s account)) (\<lambda>existing.
     if is_some existing then ret False
     else
       let exempt = account \<in> set STAKE_EXEMPT_ACCOUNTS in
       andThen (reads (\<lambda>s. case state_text E s ''chain_param:name_stake_enabled'' of
           Some t \<Rightarrow> trim t = ''true'' | None \<Rightarrow> False)) (\<lambda>stake_enabled.
       andThen (reads (\<lambda>s. case Option.bind (state_text E s ''chain_param:name_stake_amount'')
             (\<lambda>t. parse_u64 (trim t)) of Some n \<Rightarrow> n | None \<Rightarrow> NAME_REGISTRATION_STAKE))
         (\<lambda>stake_amount.
       seq (when_do (\<not> exempt \<and> stake_enabled)
             (case funded_by of
                Some funder \<Rightarrow> seq (debit funder NATIVE_TOKEN stake_amount) (ret ())
              | None \<Rightarrow> ret ()))
      (let proofs_json = jobj (map (\<lambda>(chain, commitment, mode).
             (chain, jobj [(''commitment'', JStr commitment), (''mode'', JStr mode)])) chain_proofs);
           state = jobj ([
             (''account_id'', JStr account), (''created_epoch'', JNum epoch),
             (''keys'', jobj (map (\<lambda>(r, k). (r, JStr k)) keys)),
             (''chain_proofs'', proofs_json), (''nonce'', JNum 0), (''stake'', JNum 0),
             (''name_stake_locked'', JNum NAME_REGISTRATION_STAKE)] @
             (case machine_fingerprint of
                Some fp \<Rightarrow> if fp \<noteq> [] then [(''machine_fingerprint'', JStr fp)] else []
              | None \<Rightarrow> []))
       in seq (set_account account state)
         (seq (touch_alive E account epoch) (ret True))))))"

definition apply_AccountUpdateKey :: "string \<Rightarrow> string \<Rightarrow> string \<Rightarrow> u64 \<Rightarrow> unit chain_act" where
  "apply_AccountUpdateKey account role new_public_key epoch =
     seq (ensure_account account epoch)
    (andThen (reads (\<lambda>s. case get_account s account of
         Some st \<Rightarrow> st | None \<Rightarrow> jobj [(''nonce'', JNum 0)])) (\<lambda>state.
     andThen (case jfield state ''keys'' of
         Some (JObj m) \<Rightarrow> ret (JObj m)
       | _ \<Rightarrow> ret (JObj [])) (\<lambda>keys.
     andThen (with_fields keys [(role, JStr new_public_key)]) (\<lambda>keys'.
     andThen (with_fields state [(''keys'', keys')]) (set_account account)))))"

definition apply_ChainParameterSet :: "string \<Rightarrow> string \<Rightarrow> unit chain_act" where
  "apply_ChainParameterSet key value = state_set (''chain_param:'' @ key) (Text value)"

definition apply_AccountSetPrimary :: "string \<Rightarrow> string \<Rightarrow> unit chain_act" where
  "apply_AccountSetPrimary account primary =
     andThen (reads (\<lambda>s. get_account s account)) (\<lambda>st.
     andThen (need st (Err ''account not found'')) (\<lambda>state.
     andThen (with_fields state [(''primary'', JStr primary)]) (set_account account)))"

definition apply_AccountTransfer ::
  "string \<Rightarrow> (string \<times> string) list \<Rightarrow> u64 \<Rightarrow> unit chain_act" where
  "apply_AccountTransfer account new_keys epoch =
     andThen (reads (\<lambda>s. get_account s account)) (\<lambda>st.
     andThen (need st (Err ''cannot transfer non-existent account'')) (\<lambda>state.
     seq (case Option.bind (jfield state ''primary'') as_str of
            None \<Rightarrow> ret ()
          | Some primary \<Rightarrow>
              andThen (reads (\<lambda>s. scan_balances s account)) (\<lambda>balances.
              each (\<lambda>(token, amount). when_do (amount > 0)
                (seq (debit account token amount)
                (seq (credit primary token amount) (ret ())))) balances))
    (andThen (with_fields state [
         (''keys'', jobj (map (\<lambda>(r, k). (r, JStr k)) new_keys)),
         (''transferred_epoch'', JNum epoch), (''primary'', JNull)])
       (set_account account))))"

definition apply_LivenessProof :: "env \<Rightarrow> string \<Rightarrow> u64 \<Rightarrow> unit chain_act" where
  "apply_LivenessProof E account epoch =
     andThen (reads (\<lambda>s. get_account s account)) (\<lambda>st.
     seq (ensure (is_some st) (Err ''account does not exist'')) (touch_alive E account epoch))"

definition apply_EntropyWitness :: "env \<Rightarrow> string \<Rightarrow> u64 \<Rightarrow> unit chain_act" where
  "apply_EntropyWitness E account epoch =
     andThen (reads (\<lambda>s. get_account s account)) (\<lambda>st.
     seq (ensure (is_some st) (Err ''account does not exist'')) (touch_alive E account epoch))"

definition apply_AccountApiKeySet :: "env \<Rightarrow> string \<Rightarrow> string \<Rightarrow> u64 \<Rightarrow> unit chain_act" where
  "apply_AccountApiKeySet E account api_key epoch =
     seq (touch_alive E account epoch) (set_api_key E account api_key)"

definition apply_DelegationGrant ::
  "string \<Rightarrow> string \<Rightarrow> string list \<Rightarrow> u64 \<Rightarrow> unit chain_act" where
  "apply_DelegationGrant from to capabilities expires_epoch =
     state_set (''delegation:'' @ from @ '':'' @ to) (Json (jobj [
       (''from'', JStr from), (''to'', JStr to), (''capabilities'', jstrs capabilities),
       (''expires_epoch'', JNum expires_epoch)]))"

definition apply_DelegationRevoke :: "string \<Rightarrow> string \<Rightarrow> unit chain_act" where
  "apply_DelegationRevoke from to = state_delete (''delegation:'' @ from @ '':'' @ to)"

definition has_delegation ::
  "env \<Rightarrow> chain \<Rightarrow> string \<Rightarrow> string \<Rightarrow> string \<Rightarrow> u64 \<Rightarrow> bool" where
  "has_delegation E s from delegate capability cur =
     (case state_json E s (''delegation:'' @ from @ '':'' @ delegate) of
        None \<Rightarrow> False
      | Some d \<Rightarrow>
          if the_u64 d ''expires_epoch'' 0 < cur then False
          else (case as_array (jget d ''capabilities'') of
                  Some caps \<Rightarrow> list_ex (\<lambda>c. as_str c = Some capability \<or> as_str c = Some ''all'') caps
                | None \<Rightarrow> False))"

lemmas account_run_simps [run_simps] = touch_alive_def ensure_account_def check_nonce_def
  bump_nonce_def account_nonce_def is_some_def approval_key_def token_approved_def spam_gate_def
  gate_of_json_def pending_key_def deliver_transfer_def

section \<open>Frames of the helpers\<close>

lemma keeps_touch_alive [keeps_intros]:
  "keeps cf_balances (touch_alive E a e)" "keeps cf_stakes (touch_alive E a e)"
  "keeps cf_accounts (touch_alive E a e)"
  unfolding touch_alive_def set_alive_epoch_def by (intro keeps_intros)+

lemma keeps_ensure_account [keeps_intros]:
  "keeps cf_balances (ensure_account a e)" "keeps cf_stakes (ensure_account a e)"
  "keeps cf_meta (ensure_account a e)"
  unfolding ensure_account_def by (intro keeps_intros)+

lemma keeps_check_nonce [keeps_intros]: "keeps f (check_nonce a n)"
  unfolding check_nonce_def by (intro keeps_intros)

lemma keeps_bump_nonce [keeps_intros]:
  "keeps cf_balances (bump_nonce a)" "keeps cf_stakes (bump_nonce a)" "keeps cf_meta (bump_nonce a)"
  unfolding bump_nonce_def by (intro keeps_intros)+

lemma keeps_gate [keeps_intros]:
  "(\<And>a b. keeps f (m a b)) \<Longrightarrow> (\<And>a b. keeps f (n a b)) \<Longrightarrow>
    keeps f (case g of OnChain a b \<Rightarrow> m a b | Evm a b \<Rightarrow> n a b)"
  by (cases g) simp_all

lemma keeps_deliver [keeps_intros]:
  "keeps cf_accounts (deliver_transfer E from to amount token epoch nonce)"
  "keeps cf_stakes (deliver_transfer E from to amount token epoch nonce)"
  unfolding deliver_transfer_def by (intro keeps_intros)+

lemma preserves_gate [preserves_intros]:
  "(\<And>a b. preserves P (m a b)) \<Longrightarrow> (\<And>a b. preserves P (n a b)) \<Longrightarrow>
    preserves P (case g of OnChain a b \<Rightarrow> m a b | Evm a b \<Rightarrow> n a b)"
  by (cases g) simp_all

lemma preserves_wf_helpers [preserves_intros]:
  "preserves wf_chain (touch_alive E a e)" "preserves wf_chain (ensure_account a e)"
  "preserves wf_chain (check_nonce a n)" "preserves wf_chain (bump_nonce a)"
  unfolding touch_alive_def set_alive_epoch_def ensure_account_def check_nonce_def bump_nonce_def
  by (intro preserves_intros)+

lemma preserves_wf_transfer [preserves_intros]:
  "preserves wf_chain (apply_Transfer E from to amount token epoch nonce)"
  unfolding apply_Transfer_def deliver_transfer_def by (intro preserves_intros)

lemma touch_alive_result: "\<exists>s'. touch_alive E a e s = (Inr (), s')"
  by (simp add: touch_alive_def set_alive_epoch_def state_set_def act_simps)

lemma ensure_account_result: "\<exists>s'. ensure_account a e s = (Inr (), s')"
  by (simp add: ensure_account_def set_account_def act_simps)

lemma touch_alive_state_get:
  "touch_alive E a e s = (r, s') \<Longrightarrow> \<not> prefix ''alive:'' k \<Longrightarrow> state_get s' k = state_get s k"
  by (auto simp: touch_alive_def set_alive_epoch_def state_set_def state_get_def act_simps
      split: if_splits)

section \<open>Pending transfers\<close>

text \<open>The amount of a token that waits in pending records, and the value held altogether.\<close>

definition pending_share :: "env \<Rightarrow> string \<Rightarrow> string \<Rightarrow> val \<Rightarrow> int" where
  "pending_share E t k v =
     (if prefix ''pending_transfer:'' k
      then (case as_json E v of
              Some j \<Rightarrow> if as_str (jget j ''token'') = Some t then uint (the_u64 j ''amount'' 0) else 0
            | None \<Rightarrow> 0)
      else 0)"

definition escrowed :: "env \<Rightarrow> string \<Rightarrow> chain \<Rightarrow> int" where
  "escrowed E t s = kv_sum (pending_share E t) (cf_meta s)"

definition held :: "env \<Rightarrow> string \<Rightarrow> chain \<Rightarrow> int" where
  "held E t s = token_supply t s + escrowed E t s"

lemma keeps_escrowed: "keeps cf_meta m \<Longrightarrow> keeps (escrowed E t) m"
  by (simp add: keeps_def escrowed_def)

lemma keeps_escrowed_writes:
  "\<not> prefix ''pending_transfer:'' k \<Longrightarrow> keeps (escrowed E t) (state_set k v)"
  "\<not> prefix ''pending_transfer:'' k \<Longrightarrow> keeps (escrowed E t) (state_delete k)"
  by (auto simp: keeps_def escrowed_def state_set_def state_delete_def act_simps kv_sum_put
      kv_sum_del kv_at_def pending_share_def split: option.split)

lemma keeps_heldI: "keeps (token_supply t) m \<Longrightarrow> keeps (escrowed E t) m \<Longrightarrow> keeps (held E t) m"
  by (simp add: keeps_def held_def)

lemma gains_heldI:
  "gains (token_supply t) d m \<Longrightarrow> keeps (escrowed E t) m \<Longrightarrow> gains (held E t) d m"
  by (fastforce simp: gains_def held_def dest: keepsD)

lemma keeps_held_helpers:
  "keeps (held E t) (touch_alive E' a e)" "keeps (held E t) (ensure_account a e)"
  "keeps (held E t) (check_nonce a n)" "keeps (held E t) (bump_nonce a)"
proof -
  have "keeps (escrowed E t) (touch_alive E' a e)"
    unfolding touch_alive_def set_alive_epoch_def
    by (intro keeps_intros keeps_escrowed_writes) simp
  then show "keeps (held E t) (touch_alive E' a e)"
    by (intro keeps_heldI keeps_token_supply keeps_intros)
qed (intro keeps_heldI keeps_token_supply keeps_escrowed keeps_intros)+

lemma gains_held_debit:
  "plain_token t \<Longrightarrow> gains (held E t') (if t = t' then - uint n else 0) (debit a t n)"
  by (intro gains_heldI gains_debit keeps_escrowed keeps_intros)

lemma gains_held_credit:
  "plain_token t \<Longrightarrow> gains (held E t') (if t = t' then uint n else 0) (credit a t n)"
  by (intro gains_heldI gains_credit keeps_escrowed keeps_intros)

text \<open>
  A transfer that is neither native nor approved, to a recipient without a gate, becomes a pending
  record. What the record that it replaces held is gone.
\<close>

definition left_pending :: "env \<Rightarrow> chain \<Rightarrow> string \<Rightarrow> string \<Rightarrow> string \<Rightarrow> bool" where
  "left_pending E s from to token \<longleftrightarrow>
     token \<noteq> NATIVE_TOKEN \<and> \<not> token_approved s to token from \<and> spam_gate E s to token = None"

definition pending_value :: "env \<Rightarrow> string \<Rightarrow> chain \<Rightarrow> string \<Rightarrow> int" where
  "pending_value E t s k = (case state_get s k of Some v \<Rightarrow> pending_share E t k v | None \<Rightarrow> 0)"

definition replaced_value ::
  "env \<Rightarrow> string \<Rightarrow> chain \<Rightarrow> string \<Rightarrow> string \<Rightarrow> string \<Rightarrow> u64 \<Rightarrow> int" where
  "replaced_value E t s from to token nonce =
     (if left_pending E s from to token then pending_value E t s (pending_key to token from nonce) else 0)"

lemma escrowed_put_pending:
  "escrowed E t (s\<lparr>cf_meta := kv_put (pending_key to token from nonce) (Json j) (cf_meta s)\<rparr>) =
    escrowed E t s +
      (if as_str (jget j ''token'') = Some t then uint (the_u64 j ''amount'' 0) else 0) -
      pending_value E t s (pending_key to token from nonce)"
  by (simp add: escrowed_def kv_sum_put kv_at_def state_get_def pending_value_def)
    (simp add: pending_share_def pending_key_def)

lemma deliver_held:
  assumes run: "deliver_transfer E from to amount token epoch nonce s = (Inr (), s')"
    and tok: "plain_token token"
    and gate: "\<forall>fee ft. spam_gate E s to token = Some (OnChain fee ft) \<longrightarrow> plain_token ft"
  shows "held E t s' = held E t s + (if token = t then uint amount else 0) -
    replaced_value E t s from to token nonce"
proof (cases "token = NATIVE_TOKEN \<or> token_approved s to token from")
  case True
  with run show ?thesis
    using gainsD [OF gains_held_credit [OF tok, of E t amount to]]
    by (auto simp: deliver_transfer_def act_simps replaced_value_def left_pending_def
        split: prod.splits sum.splits)
next
  case False
  show ?thesis
  proof (cases "spam_gate E s to token")
    case None
    with False run have "s' = s\<lparr>cf_meta := kv_put (pending_key to token from nonce) (Json (jobj [
             (''from'', JStr from), (''to'', JStr to), (''token'', JStr token),
             (''amount'', JNum amount), (''expires_epoch'', JNum (epoch + 30))])) (cf_meta s)\<rparr>"
      by (simp add: deliver_transfer_def state_set_def act_simps)
    moreover from False None have "left_pending E s from to token"
      by (simp add: left_pending_def)
    ultimately show ?thesis
      by (simp add: held_def token_supply_def the_u64_def replaced_value_def escrowed_put_pending)
  next
    case (Some g)
    then obtain fee ft where g: "g = OnChain fee ft"
      using run False by (cases g) (auto simp: deliver_transfer_def act_simps)
    with gate Some have ft: "plain_token ft" by simp
    from run False Some g obtain x1 s1 x2 s2 x3
      where "debit from ft fee s = (Inr x1, s1)" "credit to ft fee s1 = (Inr x2, s2)"
        and "credit to token amount s2 = (Inr x3, s')"
      by (auto simp: deliver_transfer_def act_simps split: prod.splits sum.splits if_splits)
    moreover from Some have "replaced_value E t s from to token nonce = 0"
      by (simp add: replaced_value_def left_pending_def)
    ultimately show ?thesis
      using gainsD [OF gains_held_debit [OF ft] \<open>debit from ft fee s = (Inr x1, s1)\<close>, of E t]
        gainsD [OF gains_held_credit [OF ft] \<open>credit to ft fee s1 = (Inr x2, s2)\<close>, of E t]
        gainsD [OF gains_held_credit [OF tok] \<open>credit to token amount s2 = (Inr x3, s')\<close>, of E t]
      by (simp split: if_splits)
  qed
qed


section \<open>Transfer\<close>

text \<open>Gates and approvals read only their own keys, which the steps before delivery never write.\<close>

lemma spam_gate_cong:
  assumes "\<And>k. prefix ''spam_gate:'' k \<Longrightarrow> state_get s' k = state_get s k"
  shows "spam_gate E s' to token = spam_gate E s to token"
  using assms by (simp add: spam_gate_def state_json_def split: option.split)

lemma token_approved_cong:
  assumes "\<And>k. prefix ''token_approval:'' k \<Longrightarrow> state_get s' k = state_get s k"
  shows "token_approved s' to token from = token_approved s to token from"
  using assms by (simp add: token_approved_def approval_key_def)

lemma state_get_keeps: "keeps cf_meta m \<Longrightarrow> m s = (r, s') \<Longrightarrow> state_get s' k = state_get s k"
  by (simp add: state_get_def keepsD [of cf_meta])

text \<open>What holds when the steps before delivery have succeeded.\<close>

lemma transfer_prefix:
  assumes "touch_alive E from epoch s = (Inr (), s1)"
    and "ensure_account to epoch s1 = (Inr (), s2)"
    and "debit from token amount s2 = (Inr b, s3)"
  shows "spam_gate E s3 to' token' = spam_gate E s to' token'"
    and "token_approved s3 to' token' from' = token_approved s to' token' from'"
    and "state_get s3 (pending_key to' token' from' nonce) = state_get s (pending_key to' token' from' nonce)"
proof -
  have eq: "state_get s3 k = state_get s k" if "\<not> prefix ''alive:'' k" for k
    using touch_alive_state_get [OF assms(1) that] state_get_keeps [OF keeps_ensure_account(3) assms(2)]
      state_get_keeps [OF keeps_debit(3) assms(3)] by simp
  show "spam_gate E s3 to' token' = spam_gate E s to' token'"
    by (rule spam_gate_cong) (auto intro!: eq simp: prefix_def)
  show "token_approved s3 to' token' from' = token_approved s to' token' from'"
    by (rule token_approved_cong) (auto intro!: eq simp: prefix_def)
  show "state_get s3 (pending_key to' token' from' nonce) = state_get s (pending_key to' token' from' nonce)"
    by (rule eq) (simp add: pending_key_def)
qed

lemma transfer_steps:
  assumes "apply_Transfer E from to amount token epoch nonce s = (Inr (), s')"
  obtains s1 s2 b s3 s4 where "touch_alive E from epoch s = (Inr (), s1)" "0 < amount"
    "check_nonce from nonce s1 = (Inr (), s1)" "ensure_account to epoch s1 = (Inr (), s2)"
    "debit from token amount s2 = (Inr b, s3)"
    "deliver_transfer E from to amount token epoch nonce s3 = (Inr (), s4)"
    "bump_nonce from s4 = (Inr (), s')"
  using assms
  by (auto simp: apply_Transfer_def seq_Inr ensure_apply check_nonce_def andThen_Inr reads_apply
      split: if_splits)

text \<open>
  (C1) The exact account of a transfer that succeeds, for every token, whichever of the four deliveries
  is taken (native, approved, gated with a fee, pending), provided the names of the token and of the
  token of the fee hold no separator byte: balances and pending records together hold what they held
  before, less the amount of a pending record under the same recipient, token, sender and nonce which a
  transfer that is left pending replaces. So value is conserved if there is no such record.
\<close>

theorem transfer_conserves_value:
  assumes run: "apply_Transfer E from to amount token epoch nonce s = (Inr (), s')"
    and tok: "plain_token token"
    and gate: "\<forall>fee ft. spam_gate E s to token = Some (OnChain fee ft) \<longrightarrow> plain_token ft"
  shows "held E t s' = held E t s - replaced_value E t s from to token nonce"
proof -
  from run obtain s1 s2 b s3 s4 where
    st: "touch_alive E from epoch s = (Inr (), s1)" "ensure_account to epoch s1 = (Inr (), s2)"
      "debit from token amount s2 = (Inr b, s3)"
    and d: "deliver_transfer E from to amount token epoch nonce s3 = (Inr (), s4)"
    and bump: "bump_nonce from s4 = (Inr (), s')"
    by (rule transfer_steps)
  have "held E t s3 = held E t s + (if token = t then - uint amount else 0)"
    using keepsD [OF keeps_held_helpers(1) st(1), of E t] keepsD [OF keeps_held_helpers(2) st(2), of E t]
      gainsD [OF gains_held_debit [OF tok] st(3), of E t] by simp
  moreover have "held E t s4 = held E t s3 + (if token = t then uint amount else 0) -
      replaced_value E t s3 from to token nonce"
    using gate by (intro deliver_held [OF d tok]) (simp add: transfer_prefix [OF st])
  moreover have "replaced_value E t s3 from to token nonce = replaced_value E t s from to token nonce"
    by (simp add: replaced_value_def left_pending_def pending_value_def transfer_prefix [OF st])
  ultimately show ?thesis
    using keepsD [OF keeps_held_helpers(4) bump, of E t] by simp
qed


text \<open>A ledger with one funded account, on which the properties of this theory are witnessed.\<close>

definition demo_chain :: chain where
  "demo_chain = empty_chain\<lparr>
     cf_accounts := [(''alice'', jobj [(''nonce'', JNum 0)])],
     cf_balances := [(balance_key ''alice'' ''HONE'', 100), (balance_key ''alice'' ''TOK'', 50)]\<rparr>"

lemma demo_transfer:
  "apply_Transfer demo_env ''alice'' ''bob'' 30 ''TOK'' 1 1 demo_chain =
    (Inr (), snd (apply_Transfer demo_env ''alice'' ''bob'' 30 ''TOK'' 1 1 demo_chain))"
  by (simp add: apply_Transfer_def demo_chain_def run_simps act_simps)

theorem transfer_conserves_value_witness:
  "held demo_env ''TOK''
     (snd (apply_Transfer demo_env ''alice'' ''bob'' 30 ''TOK'' 1 1 demo_chain)) =
   held demo_env ''TOK'' demo_chain"
proof -
  have "plain_token ''TOK''"
    by (simp add: plain_token_def)
  moreover have "spam_gate demo_env demo_chain ''bob'' ''TOK'' = None"
    and "replaced_value demo_env ''TOK'' demo_chain ''alice'' ''bob'' ''TOK'' 1 = 0"
    by (simp_all add: replaced_value_def pending_value_def demo_chain_def run_simps)
  ultimately show ?thesis
    using transfer_conserves_value [OF demo_transfer, of "''TOK''"] by simp
qed

section \<open>Accept and reject\<close>

text \<open>A pending record of the right token gives back exactly what it holds.\<close>

lemma take_pending_held:
  assumes "state_json E s (pending_key to token from nonce) = Some j"
    and "as_u64 (jget j ''amount'') = Some amount" and "as_str (jget j ''token'') = Some token"
    and "credit a token amount (s\<lparr>cf_meta := kv_del (pending_key to token from nonce) (cf_meta s)\<rparr>) =
      (Inr b, s')"
    and tok: "plain_token token"
  shows "held E t s' = held E t s"
proof -
  let ?k = "pending_key to token from nonce"
  let ?s1 = "s\<lparr>cf_meta := kv_del ?k (cf_meta s)\<rparr>"
  have "kv_at (pending_share E t) (cf_meta s) ?k = (if token = t then uint amount else 0)"
    using assms(1-3) by (cases "kv_get (cf_meta s) ?k")
      (auto simp: kv_at_def state_json_def state_get_def pending_share_def pending_key_def the_u64_def)
  then have "held E t ?s1 = held E t s - (if token = t then uint amount else 0)"
    by (simp add: held_def escrowed_def token_supply_def kv_sum_del)
  with gainsD [OF gains_held_credit [OF tok] assms(4), of E t] show ?thesis
    by simp
qed

text \<open>
  Accepting or rejecting a pending transfer conserves every token: the amount of the record
  that leaves the pending set is exactly what the recipient (accept) or the sender (reject) is
  credited, and afterwards the record is gone, so the same record cannot be claimed twice.
\<close>

theorem pending_settled_once:
  assumes rec: "state_json E s (pending_key to token from n) = Some j"
    and own: "as_str (jget j ''token'') = Some token" and tok: "plain_token token"
    and run: "apply_TokenAccept E to token from n s = (Inr (), s')
      \<or> apply_TokenReject E to token from n s = (Inr (), s')"
  shows "held E t s' = held E t s \<and>
    apply_TokenAccept E to token from n s' = (Inl (Err ''no pending transfer found''), s') \<and>
    apply_TokenReject E to token from n s' = (Inl (Err ''no pending transfer found''), s')"
proof -
  let ?k = "pending_key to token from n"
  from run rec obtain a amount b where amt: "as_u64 (jget j ''amount'') = Some amount"
    and c: "credit a token amount (s\<lparr>cf_meta := kv_del ?k (cf_meta s)\<rparr>) = (Inr b, s')"
    by (auto simp: apply_TokenAccept_def apply_TokenReject_def Let_def andThen_Inr seq_Inr reads_apply
        need_apply state_delete_def modify_apply ret_apply split: option.splits)
  from keepsD [OF keeps_credit(3) c] have "state_get s' ?k = None"
    by (simp add: state_get_def)
  then show ?thesis
    using take_pending_held [OF rec amt own c tok]
    by (simp add: apply_TokenAccept_def apply_TokenReject_def Let_def state_json_def act_simps)
qed

definition demo_pending :: chain where
  "demo_pending = snd (apply_Transfer demo_env ''alice'' ''bob'' 30 ''TOK'' 1 1 demo_chain)"

theorem pending_settled_once_witness:
  "held demo_env ''TOK'' (snd (apply_TokenAccept demo_env ''bob'' ''TOK'' ''alice'' 1 demo_pending)) =
    held demo_env ''TOK'' demo_pending"
proof -
  let ?j = "jobj [(''from'', JStr ''alice''), (''to'', JStr ''bob''), (''token'', JStr ''TOK''),
      (''amount'', JNum 30), (''expires_epoch'', JNum 31)]"
  have "state_json demo_env demo_pending (pending_key ''bob'' ''TOK'' ''alice'' 1) = Some ?j"
    by (simp add: apply_Transfer_def demo_pending_def demo_chain_def run_simps act_simps)
  moreover have "as_str (jget ?j ''token'') = Some ''TOK''" "plain_token ''TOK''"
    by (simp_all add: plain_token_def)
  moreover have "apply_TokenAccept demo_env ''bob'' ''TOK'' ''alice'' 1 demo_pending =
      (Inr (), snd (apply_TokenAccept demo_env ''bob'' ''TOK'' ''alice'' 1 demo_pending))"
    by (simp add: apply_Transfer_def apply_TokenAccept_def demo_pending_def demo_chain_def run_simps
        act_simps the_u64_def)
  ultimately show ?thesis
    using pending_settled_once by blast
qed

section \<open>Nonces\<close>

definition next_nonce :: "chain \<Rightarrow> string \<Rightarrow> u64" where
  "next_nonce s account =
     (case get_account s account of Some state \<Rightarrow> account_nonce state + 1 | None \<Rightarrow> 1)"

lemma check_nonce_iff:
  "check_nonce a n s = (if n = next_nonce s a then (Inr (), s) else (Inl (Err ''invalid nonce''), s))"
  by (simp add: check_nonce_def next_nonce_def act_simps)

lemma next_nonce_keeps: "keeps cf_accounts m \<Longrightarrow> m s = (r, s') \<Longrightarrow> next_nonce s' a = next_nonce s a"
  by (simp add: next_nonce_def get_account_def keepsD [of cf_accounts])

lemma get_account_keeps: "keeps cf_accounts m \<Longrightarrow> m s = (r, s') \<Longrightarrow> get_account s' a = get_account s a"
  by (simp add: get_account_def keepsD [of cf_accounts])

lemma account_nonce_jsets:
  "jsets j [(''nonce'', JNum n)] = Some j' \<Longrightarrow> account_nonce j' = n"
  by (drule jsets_jfield [where k = "''nonce''"]) (simp add: account_nonce_def)

lemma bump_nonce_next:
  assumes "bump_nonce a s = (Inr (), s')"
  shows "next_nonce s' b =
    (if b = a \<and> get_account s a \<noteq> None then next_nonce s a + 1 else next_nonce s b)"
proof (cases "get_account s a")
  case None
  with assms show ?thesis by (simp add: bump_nonce_def act_simps)
next
  case (Some j)
  with assms obtain j' where "jsets j [(''nonce'', JNum (account_nonce j + 1))] = Some j'"
    and "s' = s\<lparr>cf_accounts := kv_put a j' (cf_accounts s)\<rparr>"
    by (auto simp: bump_nonce_def with_fields_def set_account_def act_simps
        simp del: jsets.simps split: option.splits)
  with Some account_nonce_jsets show ?thesis
    by (auto simp: next_nonce_def get_account_def)
qed

text \<open>The nonce of an account can be written unless its record is a JSON value without fields.\<close>

definition fields_writable :: "chain \<Rightarrow> string \<Rightarrow> bool" where
  "fields_writable s a \<longleftrightarrow> (case get_account s a of None \<Rightarrow> True | Some (JObj f) \<Rightarrow> True | Some JNull \<Rightarrow> True | Some j \<Rightarrow> False)"

lemma bump_nonce_returns: "fields_writable s a \<Longrightarrow> \<exists>s'. bump_nonce a s = (Inr (), s')"
  by (auto simp: fields_writable_def bump_nonce_def with_fields_def set_account_def act_simps split: option.splits json.splits)

lemma fields_writable_accounts: "keeps cf_accounts m \<Longrightarrow> preserves (\<lambda>s. fields_writable s a) m"
  by (simp add: keeps_def preserves_def fields_writable_def get_account_def)

lemma fields_writable_after:
  "keeps cf_accounts m \<Longrightarrow> fields_writable s a \<Longrightarrow> m s = (r, s') \<Longrightarrow> fields_writable s' a"
  by (rule preservesD [OF fields_writable_accounts])

lemma fields_writable_ensure: "preserves (\<lambda>s. fields_writable s a) (ensure_account b e)"
  by (auto simp: preserves_def fields_writable_def ensure_account_def set_account_def get_account_def jobj_def act_simps)

lemma attempt_bump:
  assumes "fields_writable s a"
  shows "\<exists>s'. attempt (bump_nonce a) s = (Inr True, s') \<and> bump_nonce a s = (Inr (), s')"
  using bump_nonce_returns [OF assms] by (auto simp: attempt_apply)

lemma ensure_account_next:
  assumes "ensure_account a e s = (Inr (), s')"
  shows "next_nonce s' b = next_nonce s b"
    and "get_account s' b = None \<longleftrightarrow> get_account s b = None \<and> b \<noteq> a"
  using assms
  by (auto simp: ensure_account_def set_account_def next_nonce_def get_account_def account_nonce_def
      act_simps split: if_splits)

lemma transfer_next_nonce:
  assumes run: "apply_Transfer E from to amount token epoch nonce s = (Inr (), s')"
    and known: "get_account s from \<noteq> None"
  shows "next_nonce s' from = nonce + 1"
proof -
  from run obtain s1 s2 b s3 s4 where
    st: "touch_alive E from epoch s = (Inr (), s1)" "ensure_account to epoch s1 = (Inr (), s2)"
      "debit from token amount s2 = (Inr b, s3)"
      "deliver_transfer E from to amount token epoch nonce s3 = (Inr (), s4)"
      "bump_nonce from s4 = (Inr (), s')"
    and n: "check_nonce from nonce s1 = (Inr (), s1)"
    by (rule transfer_steps)
  note keep = keeps_touch_alive(3) keeps_debit(2) keeps_deliver(1)
  have "next_nonce s4 from = nonce" "get_account s4 from \<noteq> None"
    using n known ensure_account_next [OF st(2)] next_nonce_keeps [OF keep(1) st(1)]
      next_nonce_keeps [OF keep(2) st(3)] next_nonce_keeps [OF keep(3) st(4)]
      get_account_keeps [OF keep(1) st(1)] get_account_keeps [OF keep(2) st(3)]
      get_account_keeps [OF keep(3) st(4)]
    by (simp_all add: check_nonce_iff split: if_splits)
  then show ?thesis
    using bump_nonce_next [OF st(5), of "from"] by simp
qed

text \<open>
  A nonce is accepted at most once: when an account with a record makes a transfer, the only
  nonce its next transfer can carry is the successor, and a second transfer with the same nonce,
  whatever else it says, stops at the nonce check.
\<close>

theorem nonce_not_replayable:
  assumes run: "apply_Transfer E from to amount token epoch nonce s = (Inr (), s')"
    and known: "get_account s from \<noteq> None" and pos: "0 < amount'"
  shows "next_nonce s' from = nonce + 1 \<and>
    fst (apply_Transfer E from to' amount' token' epoch' nonce s') = Inl (Err ''invalid nonce'')"
proof -
  have nxt: "next_nonce s' from = nonce + 1"
    using run known by (rule transfer_next_nonce)
  obtain s1' where t: "touch_alive E from epoch' s' = (Inr (), s1')"
    using touch_alive_result by blast
  with nxt next_nonce_keeps [OF keeps_touch_alive(3) t] pos show ?thesis
    by (simp add: apply_Transfer_def seq_apply ensure_apply check_nonce_iff)
qed

theorem nonce_not_replayable_witness:
  "fst (apply_Transfer demo_env ''alice'' ''carol'' 5 ''HONE'' 2 1 demo_pending) =
    Inl (Err ''invalid nonce'')"
  unfolding demo_pending_def
proof (rule conjunct2 [OF nonce_not_replayable [OF demo_transfer]])
  show "get_account demo_chain ''alice'' \<noteq> None"
    by (simp add: demo_chain_def run_simps)
qed simp

text \<open>
  A sender that has no account record keeps its expected nonce: the transfer succeeds and the
  same nonce is accepted again, because \<open>bump_nonce\<close> does nothing for an unknown account.
\<close>

theorem unknown_sender_nonce_stays:
  assumes run: "apply_Transfer E from to amount token epoch nonce s = (Inr (), s')"
    and unknown: "get_account s from = None" and other: "to \<noteq> from"
  shows "check_nonce from nonce s' = (Inr (), s')"
proof -
  from run obtain s1 s2 b s3 s4 where
    st: "touch_alive E from epoch s = (Inr (), s1)" "ensure_account to epoch s1 = (Inr (), s2)"
      "debit from token amount s2 = (Inr b, s3)"
      "deliver_transfer E from to amount token epoch nonce s3 = (Inr (), s4)"
      "bump_nonce from s4 = (Inr (), s')"
    and n: "check_nonce from nonce s1 = (Inr (), s1)"
    by (rule transfer_steps)
  note keep = keeps_touch_alive(3) keeps_debit(2) keeps_deliver(1)
  have "next_nonce s4 from = nonce" "get_account s4 from = None"
    using n unknown other ensure_account_next [OF st(2)] next_nonce_keeps [OF keep(1) st(1)]
      next_nonce_keeps [OF keep(2) st(3)] next_nonce_keeps [OF keep(3) st(4)]
      get_account_keeps [OF keep(1) st(1)] get_account_keeps [OF keep(2) st(3)]
      get_account_keeps [OF keep(3) st(4)]
    by (simp_all add: check_nonce_iff split: if_splits)
  with bump_nonce_next [OF st(5), of "from"] show ?thesis
    by (simp add: check_nonce_iff)
qed

theorem unknown_sender_nonce_stays_witness:
  "\<exists>s'. apply_Transfer demo_env ''alice'' ''bob'' 30 ''TOK'' 1 1 (demo_chain\<lparr>cf_accounts := []\<rparr>) =
      (Inr (), s') \<and> check_nonce ''alice'' 1 s' = (Inr (), s')"
proof -
  let ?s = "demo_chain\<lparr>cf_accounts := []\<rparr>"
  have "apply_Transfer demo_env ''alice'' ''bob'' 30 ''TOK'' 1 1 ?s =
      (Inr (), snd (apply_Transfer demo_env ''alice'' ''bob'' 30 ''TOK'' 1 1 ?s))"
    by (simp add: apply_Transfer_def demo_chain_def run_simps act_simps)
  moreover from this have "check_nonce ''alice'' 1
      (snd (apply_Transfer demo_env ''alice'' ''bob'' 30 ''TOK'' 1 1 ?s)) =
      (Inr (), snd (apply_Transfer demo_env ''alice'' ''bob'' 30 ''TOK'' 1 1 ?s))"
    by (rule unknown_sender_nonce_stays) (simp_all add: run_simps)
  ultimately show ?thesis by blast
qed

section \<open>Exact outcomes\<close>

lemma get_balance_keeps:
  "keeps cf_balances m \<Longrightarrow> m s = (r, s') \<Longrightarrow> get_balance s' a t = get_balance s a t"
  by (simp add: get_balance_def keepsD [of cf_balances])

lemma touch_alive_balance:
  "get_balance (snd (touch_alive E a e s)) b t = get_balance s b t"
  using keeps_touch_alive(1) by (simp add: keeps_def get_balance_def)

text \<open>
  The exact result of a native transfer between two accounts: when the sender is known, the
  nonce is the next one and the balances allow it, the transfer succeeds, the sender loses the
  amount, the recipient gains it, and no other balance changes.
\<close>

theorem native_transfer_effect:
  assumes n: "nonce = next_nonce s from" and pos: "0 < amount" and other: "to \<noteq> from"
    and acct: "get_account s from = Some (JObj flds)"
    and funds: "amount \<le> get_balance s from NATIVE_TOKEN"
    and room: "unat (get_balance s to NATIVE_TOKEN) + unat amount < 2 ^ 64"
  shows "\<exists>s'. apply_Transfer E from to amount NATIVE_TOKEN epoch nonce s = (Inr (), s') \<and>
    (\<forall>a t. get_balance s' a t =
       (if balance_key a t = balance_key from NATIVE_TOKEN then get_balance s from NATIVE_TOKEN - amount
        else if balance_key a t = balance_key to NATIVE_TOKEN then get_balance s to NATIVE_TOKEN + amount
        else get_balance s a t))"
proof -
  obtain s1 where s1: "touch_alive E from epoch s = (Inr (), s1)"
    using touch_alive_result by blast
  obtain s2 where s2: "ensure_account to epoch s1 = (Inr (), s2)"
    using ensure_account_result by blast
  let ?b = "get_balance s from NATIVE_TOKEN - amount"
  let ?s3 = "s2\<lparr>cf_balances := kv_put (balance_key from NATIVE_TOKEN) ?b (cf_balances s2)\<rparr>"
  let ?c = "get_balance s to NATIVE_TOKEN + amount"
  let ?s4 = "?s3\<lparr>cf_balances := kv_put (balance_key to NATIVE_TOKEN) ?c (cf_balances ?s3)\<rparr>"
  have b2: "get_balance s2 a t = get_balance s a t" for a t
    using get_balance_keeps [OF keeps_touch_alive(1) s1] get_balance_keeps [OF keeps_ensure_account(1) s2]
    by simp
  have "get_account s1 from = Some (JObj flds)"
    using get_account_keeps [OF keeps_touch_alive(3) s1] acct by simp
  then have acct4: "get_account ?s4 from = Some (JObj flds)"
    using s2 other by (auto simp: ensure_account_def set_account_def get_account_def act_simps
        split: if_splits)
  have nonce: "check_nonce from nonce s1 = (Inr (), s1)"
    using n next_nonce_keeps [OF keeps_touch_alive(3) s1] by (simp add: check_nonce_iff)
  have debit: "debit from NATIVE_TOKEN amount s2 = (Inr ?b, ?s3)"
    using funds by (simp add: debit_cases b2)
  have b3: "get_balance ?s3 a t =
      (if balance_key a t = balance_key from NATIVE_TOKEN then ?b else get_balance s a t)" for a t
    by (simp add: get_balance_put b2)
  have credit: "credit to NATIVE_TOKEN amount ?s3 = (Inr ?c, ?s4)"
    using room other b3 [of to NATIVE_TOKEN] by (simp add: credit_cases)
  obtain s5 where bump: "bump_nonce from ?s4 = (Inr (), s5)"
    using acct4 by (auto simp: bump_nonce_def with_fields_def set_account_def act_simps)
  have "apply_Transfer E from to amount NATIVE_TOKEN epoch nonce s = (Inr (), s5)"
    using pos credit bump by (simp add: apply_Transfer_def deliver_transfer_def seq_apply
        andThen_apply reads_apply ensure_apply ret_apply s1 s2 nonce debit)
  moreover have "get_balance s5 a t =
      (if balance_key a t = balance_key from NATIVE_TOKEN then ?b
       else if balance_key a t = balance_key to NATIVE_TOKEN then ?c else get_balance s a t)" for a t
    using get_balance_keeps [OF keeps_bump_nonce(1) bump, of a t] b2 [of a t] other
    by (simp add: get_balance_def)
  ultimately show ?thesis by blast
qed

theorem native_transfer_effect_witness:
  "\<exists>s'. apply_Transfer demo_env ''alice'' ''bob'' 30 NATIVE_TOKEN 1 1 demo_chain = (Inr (), s') \<and>
    get_balance s' ''bob'' NATIVE_TOKEN = 30"
proof -
  have "balance_key ''bob'' NATIVE_TOKEN \<noteq> balance_key ''alice'' NATIVE_TOKEN"
    and "get_balance demo_chain ''bob'' NATIVE_TOKEN = 0"
    by (simp_all add: demo_chain_def run_simps)
  moreover have "\<exists>s'. apply_Transfer demo_env ''alice'' ''bob'' 30 NATIVE_TOKEN 1 1 demo_chain = (Inr (), s') \<and>
    (\<forall>a t. get_balance s' a t =
       (if balance_key a t = balance_key ''alice'' NATIVE_TOKEN
        then get_balance demo_chain ''alice'' NATIVE_TOKEN - 30
        else if balance_key a t = balance_key ''bob'' NATIVE_TOKEN
        then get_balance demo_chain ''bob'' NATIVE_TOKEN + 30
        else get_balance demo_chain a t))"
    by (rule native_transfer_effect [where flds = "[(''nonce'', JNum 0)]"])
      (simp_all add: demo_chain_def next_nonce_def run_simps jobj_def)
  ultimately show ?thesis by (metis add_0)
qed

text \<open>
  A transfer to a recipient whose gate asks for an EVM payment stops with an error after the
  sender has been debited, and the debit stays: the amount leaves the sender's balance and is
  neither credited nor recorded as pending, so the total held of the token drops by it.
\<close>

theorem evm_gate_loses_amount:
  assumes n: "nonce = next_nonce s from" and pos: "0 < amount"
    and tok: "token \<noteq> NATIVE_TOKEN" "plain_token token"
    and gate: "\<not> token_approved s to token from" "spam_gate E s to token = Some (Evm addr cid)"
    and funds: "amount \<le> get_balance s from token"
  shows "\<exists>s'. apply_Transfer E from to amount token epoch nonce s =
      (Inl (Err ''recipient requires EVM payment; use SpamGatePayEvm''), s') \<and>
    held E token s' = held E token s - uint amount"
proof -
  obtain s1 where s1: "touch_alive E from epoch s = (Inr (), s1)"
    using touch_alive_result by blast
  obtain s2 where s2: "ensure_account to epoch s1 = (Inr (), s2)"
    using ensure_account_result by blast
  have "get_balance s2 from token = get_balance s from token"
    using get_balance_keeps [OF keeps_touch_alive(1) s1] get_balance_keeps [OF keeps_ensure_account(1) s2]
    by simp
  with funds obtain b s3 where s3: "debit from token amount s2 = (Inr b, s3)"
    by (simp add: debit_cases)
  have nonce: "check_nonce from nonce s1 = (Inr (), s1)"
    using n next_nonce_keeps [OF keeps_touch_alive(3) s1] by (simp add: check_nonce_iff)
  have "apply_Transfer E from to amount token epoch nonce s =
      (Inl (Err ''recipient requires EVM payment; use SpamGatePayEvm''), s3)"
    using pos tok(1) gate transfer_prefix [OF s1 s2 s3]
    by (simp add: apply_Transfer_def deliver_transfer_def seq_apply andThen_apply reads_apply
        ensure_apply bail_apply s1 s2 nonce s3)
  moreover have "held E token s3 = held E token s - uint amount"
    using keepsD [OF keeps_held_helpers(1) s1, of E token] keepsD [OF keeps_held_helpers(2) s2, of E token]
      gainsD [OF gains_held_debit [OF tok(2)] s3, of E token] by simp
  ultimately show ?thesis by blast
qed

definition demo_gated :: chain where
  "demo_gated = snd (apply_SpamGateSet ''bob'' ''TOK'' 0 ''HONE'' (Some ''0xb0b'') (Some 1) demo_chain)"

theorem evm_gate_loses_amount_witness:
  "\<exists>s'. apply_Transfer demo_env ''alice'' ''bob'' 30 ''TOK'' 1 1 demo_gated =
      (Inl (Err ''recipient requires EVM payment; use SpamGatePayEvm''), s') \<and>
    held demo_env ''TOK'' s' = held demo_env ''TOK'' demo_gated - 30"
  using evm_gate_loses_amount [of 1 demo_gated "''alice''" 30 "''TOK''" "''bob''" demo_env "''0xb0b''" 1 1]
  by (simp add: demo_gated_def apply_SpamGateSet_def demo_chain_def next_nonce_def plain_token_def
      jopt_str_def jopt_u64_def run_simps act_simps)

end
