(* ===== verification/Staking.thy ===== *)
theory Staking
  imports Accounts
begin

text \<open>
  Staking and locked value (\<open>src/chain.rs\<close>): stake and unstake with the unbonding queue and its
  drain at each sealed epoch, device yield stakes, node role stakes and the distribution of a
  reward among the backers of a node, device claims with overbidding, and the opt-in records.

  The lemmas follow one measure, \<open>bonded\<close>: native balances, stakes, and the amounts in unbonding,
  yield, role and claim records. Every handler but one moves value between these places and keeps
  the measure; the drain releases exactly the records of its epoch. The exception is an overbid on
  a device claim, which pays out the premium and also keeps it in the new claim.
\<close>

section \<open>Handlers\<close>

definition UNBONDING_EPOCHS :: u64 where
  "UNBONDING_EPOCHS = 10"

definition RECYCLE_FUND_ACCOUNT :: string where
  "RECYCLE_FUND_ACCOUNT = ''__recycle_fund__''"

definition OVERCLAIM_STAKER_SHARE_BPS :: u64 where
  "OVERCLAIM_STAKER_SHARE_BPS = 5000"

definition apply_Stake :: "env \<Rightarrow> string \<Rightarrow> u64 \<Rightarrow> u64 \<Rightarrow> unit chain_act" where
  "apply_Stake E account amount epoch =
     seq (touch_alive E account epoch)
    (seq (ensure (amount > 0) (Err ''stake amount must be positive''))
    (seq (debit account NATIVE_TOKEN amount)
    (andThen (reads (\<lambda>s. get_stake s account)) (\<lambda>current_stake.
     andThen (need (checked_add current_stake amount) (Err ''stake overflow''))
       (set_stake account)))))"

definition unbonding_key :: "u64 \<Rightarrow> string \<Rightarrow> string" where
  "unbonding_key release_epoch account = ''unbonding:'' @ show_u64 release_epoch @ '':'' @ account"

text \<open>The block shared by unstake and claim unstake: add to the record of the release epoch.\<close>

definition unbond :: "env \<Rightarrow> string \<Rightarrow> u64 \<Rightarrow> u64 \<Rightarrow> unit chain_act" where
  "unbond E account amount epoch =
    (let release_epoch = epoch + UNBONDING_EPOCHS;
         key = unbonding_key release_epoch account in
     andThen (reads (\<lambda>s. state_amount E s key)) (\<lambda>prev_amount.
     state_set key (Json (jobj [
       (''account'', JStr account), (''amount'', JNum (prev_amount + amount)),
       (''release_epoch'', JNum release_epoch)]))))"

definition apply_Unstake :: "env \<Rightarrow> string \<Rightarrow> u64 \<Rightarrow> u64 \<Rightarrow> unit chain_act" where
  "apply_Unstake E account amount epoch =
     seq (touch_alive E account epoch)
    (andThen (reads (\<lambda>s. get_stake s account)) (\<lambda>current_stake.
     seq (ensure (current_stake \<ge> amount) (Err ''insufficient stake''))
    (seq (set_stake account (current_stake - amount))
         (unbond E account amount epoch))))"

definition drain_one :: "env \<Rightarrow> string \<times> val \<Rightarrow> unit chain_act" where
  "drain_one E r =
    (case as_json E (snd r) of
       None \<Rightarrow> ret ()
     | Some j \<Rightarrow>
        (case as_str (jget j ''account'') of
           None \<Rightarrow> ret ()
         | Some account \<Rightarrow>
             let amount = the_u64 j ''amount'' 0 in
             when_do (amount > 0)
               (andThen (attempt (credit account NATIVE_TOKEN amount)) (\<lambda>ok.
                when_do ok (state_delete (fst r))))))"

definition drain_unbonding :: "env \<Rightarrow> u64 \<Rightarrow> unit chain_act" where
  "drain_unbonding E sealed_epoch =
     andThen (reads (\<lambda>s. state_scan_prefix s (''unbonding:'' @ show_u64 sealed_epoch @ '':'')))
       (each (drain_one E))"

definition yield_key :: "string \<Rightarrow> string \<Rightarrow> string" where
  "yield_key device_serial staker = ''yield_stake:'' @ device_serial @ '':'' @ staker"

definition apply_DeviceYieldStake ::
  "env \<Rightarrow> string \<Rightarrow> string \<Rightarrow> u64 \<Rightarrow> u64 \<Rightarrow> unit chain_act" where
  "apply_DeviceYieldStake E device_serial staker amount epoch =
     seq (ensure_account staker epoch)
    (seq (debit staker NATIVE_TOKEN amount)
    (let key = yield_key device_serial staker in
     andThen (reads (\<lambda>s. state_amount E s key)) (\<lambda>prev.
     state_set key (Json (jobj [
       (''device_serial'', JStr device_serial), (''staker'', JStr staker),
       (''amount'', JNum (prev + amount))])))))"

definition apply_DeviceYieldUnstake :: "env \<Rightarrow> string \<Rightarrow> string \<Rightarrow> u64 \<Rightarrow> unit chain_act" where
  "apply_DeviceYieldUnstake E device_serial staker amount =
    (let key = yield_key device_serial staker in
     andThen (reads (\<lambda>s. state_amount E s key)) (\<lambda>current.
     seq (ensure (current \<ge> amount) (Err ''insufficient yield stake to unstake''))
    (seq (let remaining = current - amount in
          if remaining = 0 then state_delete key
          else state_set key (Json (jobj [
            (''device_serial'', JStr device_serial), (''staker'', JStr staker),
            (''amount'', JNum remaining)])))
    (seq (credit staker NATIVE_TOKEN amount) (ret ())))))"

definition role_opt_key :: "string \<Rightarrow> string \<Rightarrow> string" where
  "role_opt_key role node = ''role_opt:'' @ role @ '':'' @ node"

definition role_stake_key :: "string \<Rightarrow> string \<Rightarrow> string \<Rightarrow> string" where
  "role_stake_key role node staker = ''role_stake:'' @ role @ '':'' @ node @ '':'' @ staker"

text \<open>\<open>backer_share_bps\<close> and \<open>max_backers\<close> are \<open>u16\<close> and \<open>u8\<close> in the entry, widened to \<open>u64\<close>.\<close>

definition apply_NodeRoleOptIn :: "string \<Rightarrow> string \<Rightarrow> u64 \<Rightarrow> u64 \<Rightarrow> u64 \<Rightarrow> unit chain_act" where
  "apply_NodeRoleOptIn node role backer_share_bps max_backers epoch =
     seq (ensure_account node epoch)
    (let bps = min backer_share_bps 5000; mx = max 1 (min max_backers 50) in
     state_set (role_opt_key role node) (Json (jobj [
       (''node'', JStr node), (''role'', JStr role), (''backer_share_bps'', JNum bps),
       (''max_backers'', JNum mx), (''since_epoch'', JNum epoch)])))"

definition apply_NodeRoleOptOut :: "string \<Rightarrow> string \<Rightarrow> u64 \<Rightarrow> unit chain_act" where
  "apply_NodeRoleOptOut node role epoch =
     state_set (role_opt_key role node) (Json (jobj [
       (''node'', JStr node), (''role'', JStr role), (''opted_out'', JBool True),
       (''since_epoch'', JNum epoch)]))"

definition apply_NodeRoleStake ::
  "env \<Rightarrow> string \<Rightarrow> string \<Rightarrow> string \<Rightarrow> u64 \<Rightarrow> u64 \<Rightarrow> unit chain_act" where
  "apply_NodeRoleStake E node role staker amount epoch =
     seq (ensure_account staker epoch)
    (seq (debit staker NATIVE_TOKEN amount)
    (seq (when_do (staker = node)
           (andThen (reads (\<lambda>s. state_get s (role_opt_key role node))) (\<lambda>opt.
            when_do (opt = None)
              (state_set (role_opt_key role node) (Json (jobj [
                (''node'', JStr node), (''role'', JStr role), (''backer_share_bps'', JNum 1000),
                (''max_backers'', JNum 20), (''since_epoch'', JNum epoch)]))))))
    (let key = role_stake_key role node staker in
     andThen (reads (\<lambda>s. state_amount E s key)) (\<lambda>prev.
     state_set key (Json (jobj [
       (''node'', JStr node), (''role'', JStr role), (''staker'', JStr staker),
       (''amount'', JNum (prev + amount)), (''staked_epoch'', JNum epoch)]))))))"

definition apply_NodeRoleUnstake ::
  "env \<Rightarrow> string \<Rightarrow> string \<Rightarrow> string \<Rightarrow> u64 \<Rightarrow> unit chain_act" where
  "apply_NodeRoleUnstake E node role staker amount =
    (let key = role_stake_key role node staker in
     andThen (reads (\<lambda>s. state_amount E s key)) (\<lambda>current.
     seq (ensure (current \<ge> amount) (Err ''cannot unstake''))
    (seq (let remaining = current - amount in
          if remaining = 0 then state_delete key
          else state_set key (Json (jobj [
            (''node'', JStr node), (''role'', JStr role), (''staker'', JStr staker),
            (''amount'', JNum remaining)])))
    (seq (credit staker NATIVE_TOKEN amount) (ret ())))))"

text \<open>The stakers recorded under a prefix, with a positive amount.\<close>

definition staker_of_record :: "env \<Rightarrow> string \<times> val \<Rightarrow> (string \<times> u64) option" where
  "staker_of_record E r =
     Option.bind (as_json E (snd r)) (\<lambda>js.
     Option.bind (as_str (jget js ''staker'')) (\<lambda>st.
     let a = the_u64 js ''amount'' 0 in if a > 0 then Some (st, a) else None))"

definition stakers_under :: "env \<Rightarrow> chain \<Rightarrow> string \<Rightarrow> (string \<times> u64) list" where
  "stakers_under E s pre = List.map_filter (staker_of_record E) (state_scan_prefix s pre)"

definition pay_backer :: "u64 \<Rightarrow> u64 \<Rightarrow> string \<times> u64 \<Rightarrow> unit chain_act" where
  "pay_backer backer_total total_stake b =
    (let payout = mul_div backer_total (snd b) total_stake in
     when_do (payout > 0) (seq (attempt (credit (fst b) NATIVE_TOKEN payout)) (ret ())))"

definition distribute_role_backer_reward :: "env \<Rightarrow> string \<Rightarrow> string \<Rightarrow> u64 \<Rightarrow> u64 chain_act" where
  "distribute_role_backer_reward E role node_id amount =
     andThen (reads (\<lambda>s. state_json E s (role_opt_key role node_id))) (\<lambda>opt.
     case opt of
       None \<Rightarrow> ret amount
     | Some j \<Rightarrow>
        let bps = min (the_u64 j ''backer_share_bps'' 0) 5000 in
        if bps > 0 then
          let backer_total = mul_div amount bps 10000 in
          andThen (reads (\<lambda>s. stakers_under E s (role_stake_key role node_id []))) (\<lambda>stakers.
          let total_stake = sum_list (map snd stakers) in
          if total_stake > 0 \<and> backer_total > 0 then
            seq (each (pay_backer backer_total total_stake) stakers) (ret (sat_sub amount backer_total))
          else ret amount)
        else ret amount)"

definition get_role_stakes_for_account :: "env \<Rightarrow> chain \<Rightarrow> string \<Rightarrow> json list" where
  "get_role_stakes_for_account E s account =
     List.map_filter (\<lambda>r. Option.bind (as_json E (snd r)) (\<lambda>js.
        Option.bind (as_str (jget js ''staker'')) (\<lambda>staker.
        if staker = account then Some js else None)))
       (state_scan_prefix s ''role_stake:'')"

definition get_role_backers :: "env \<Rightarrow> chain \<Rightarrow> string \<Rightarrow> string \<Rightarrow> json list" where
  "get_role_backers E s role node =
     List.map_filter (\<lambda>r. as_json E (snd r)) (state_scan_prefix s (role_stake_key role node []))"

definition get_role_opt :: "env \<Rightarrow> chain \<Rightarrow> string \<Rightarrow> string \<Rightarrow> json option" where
  "get_role_opt E s role node = state_json E s (role_opt_key role node)"

subsection \<open>Device claims\<close>

definition claim_key :: "string \<Rightarrow> string" where
  "claim_key device_serial = ''device_claim:'' @ device_serial"

text \<open>\<open>(existing as u128) * 3 / 2\<close>, truncated to \<open>u64\<close>.\<close>

definition required_overbid :: "u64 \<Rightarrow> u64" where
  "required_overbid existing_stake = word_of_nat (unat existing_stake * 3 div 2)"

definition pay_yield_staker :: "u64 \<Rightarrow> u64 \<Rightarrow> string \<times> u64 \<Rightarrow> unit chain_act" where
  "pay_yield_staker staker_share total_yield_stake b =
    (let payout = mul_div staker_share (snd b) total_yield_stake in
     when_do (payout > 0) (seq (credit (fst b) NATIVE_TOKEN payout) (ret ())))"

definition distribute_premium :: "env \<Rightarrow> string \<Rightarrow> u64 \<Rightarrow> unit chain_act" where
  "distribute_premium E device_serial premium =
     when_do (premium > 0)
      (let staker_share = mul_div premium OVERCLAIM_STAKER_SHARE_BPS 10000;
           recycle_share = sat_sub premium staker_share in
       andThen (reads (\<lambda>s. stakers_under E s (yield_key device_serial []))) (\<lambda>stakers.
       let total_yield_stake = sum_list (map snd stakers) in
       seq (if total_yield_stake > 0 \<and> staker_share > 0
            then each (pay_yield_staker staker_share total_yield_stake) stakers
            else seq (attempt (credit RECYCLE_FUND_ACCOUNT NATIVE_TOKEN staker_share)) (ret ()))
           (when_do (recycle_share > 0)
             (seq (attempt (credit RECYCLE_FUND_ACCOUNT NATIVE_TOKEN recycle_share)) (ret ())))))"

definition overbid :: "env \<Rightarrow> string \<Rightarrow> string \<Rightarrow> u64 \<Rightarrow> unit chain_act" where
  "overbid E device_serial owner amount =
     andThen (reads (\<lambda>s. state_json E s (claim_key device_serial))) (\<lambda>existing.
     case existing of
       None \<Rightarrow> ret ()
     | Some j \<Rightarrow>
        let existing_owner = the_str j ''owner'' [];
            existing_stake = the_u64 j ''stake'' 0 in
        when_do (existing_owner \<noteq> [] \<and> existing_owner \<noteq> owner)
          (seq (ensure (amount \<ge> required_overbid existing_stake) (Err ''overbid requires 1.5x''))
          (seq (credit existing_owner NATIVE_TOKEN existing_stake)
               (distribute_premium E device_serial (sat_sub amount existing_stake)))))"

definition apply_DeviceClaimStake ::
  "env \<Rightarrow> string \<Rightarrow> string \<Rightarrow> u64 \<Rightarrow> u64 \<Rightarrow> unit chain_act" where
  "apply_DeviceClaimStake E device_serial owner amount epoch =
     seq (ensure_account owner epoch)
    (seq (overbid E device_serial owner amount)
    (seq (debit owner NATIVE_TOKEN amount)
         (state_set (claim_key device_serial) (Json (jobj [
            (''device_serial'', JStr device_serial), (''owner'', JStr owner),
            (''stake'', JNum amount), (''claimed_epoch'', JNum epoch)])))))"

definition apply_DeviceClaimUnstake :: "env \<Rightarrow> string \<Rightarrow> string \<Rightarrow> u64 \<Rightarrow> unit chain_act" where
  "apply_DeviceClaimUnstake E device_serial owner epoch =
     andThen (reads (\<lambda>s. Option.bind (state_json E s (claim_key device_serial)) (\<lambda>j.
         if as_str (jget j ''owner'') = Some owner then as_u64 (jget j ''stake'') else None))) (\<lambda>found.
     andThen (need found (Err ''no active claim'')) (\<lambda>stake_amount.
     seq (state_delete (claim_key device_serial))
    (seq (ensure_account owner epoch)
         (unbond E owner stake_amount epoch))))"

definition owner_of :: "env \<Rightarrow> chain \<Rightarrow> string \<Rightarrow> string option" where
  "owner_of E s key = Option.bind (state_json E s key) (\<lambda>j. as_str (jget j ''owner''))"

definition apply_DeviceYieldOptIn :: "env \<Rightarrow> string \<Rightarrow> string \<Rightarrow> u64 \<Rightarrow> unit chain_act" where
  "apply_DeviceYieldOptIn E device_serial owner max_stakers =
     andThen (reads (\<lambda>s. owner_of E s (claim_key device_serial))) (\<lambda>current_owner.
     seq (ensure (current_owner = Some owner) (Err ''only the device owner can opt in''))
         (state_set (''yield_config:'' @ device_serial) (Json (jobj [
            (''owner'', JStr owner), (''max_stakers'', JNum max_stakers),
            (''opted_in'', JBool True)]))))"

definition apply_DeviceYieldOptOut :: "env \<Rightarrow> string \<Rightarrow> string \<Rightarrow> unit chain_act" where
  "apply_DeviceYieldOptOut E device_serial owner =
     andThen (reads (\<lambda>s. owner_of E s (''yield_config:'' @ device_serial))) (\<lambda>stored_owner.
     seq (ensure (stored_owner = Some owner) (Err ''only the device owner can opt out''))
         (state_delete (''yield_config:'' @ device_serial)))"

section \<open>Entries\<close>

datatype staking_entry =
    Stake string u64 u64
  | Unstake string u64 u64
  | DeviceYieldStake string string u64 u64
  | DeviceYieldUnstake string string u64
  | NodeRoleOptIn string string u64 u64 u64
  | NodeRoleOptOut string string u64
  | NodeRoleStake string string string u64 u64
  | NodeRoleUnstake string string string u64
  | DeviceClaimStake string string u64 u64
  | DeviceClaimUnstake string string u64
  | DeviceYieldOptIn string string u64
  | DeviceYieldOptOut string string

fun apply_staking_entry :: "env \<Rightarrow> staking_entry \<Rightarrow> unit chain_act" where
  "apply_staking_entry E (Stake account amount epoch) = apply_Stake E account amount epoch"
| "apply_staking_entry E (Unstake account amount epoch) = apply_Unstake E account amount epoch"
| "apply_staking_entry E (DeviceYieldStake d st n epoch) = apply_DeviceYieldStake E d st n epoch"
| "apply_staking_entry E (DeviceYieldUnstake d st n) = apply_DeviceYieldUnstake E d st n"
| "apply_staking_entry E (NodeRoleOptIn node role bps mx epoch) = apply_NodeRoleOptIn node role bps mx epoch"
| "apply_staking_entry E (NodeRoleOptOut node role epoch) = apply_NodeRoleOptOut node role epoch"
| "apply_staking_entry E (NodeRoleStake node role st n epoch) = apply_NodeRoleStake E node role st n epoch"
| "apply_staking_entry E (NodeRoleUnstake node role st n) = apply_NodeRoleUnstake E node role st n"
| "apply_staking_entry E (DeviceClaimStake d owner n epoch) = apply_DeviceClaimStake E d owner n epoch"
| "apply_staking_entry E (DeviceClaimUnstake d owner epoch) = apply_DeviceClaimUnstake E d owner epoch"
| "apply_staking_entry E (DeviceYieldOptIn d owner mx) = apply_DeviceYieldOptIn E d owner mx"
| "apply_staking_entry E (DeviceYieldOptOut d owner) = apply_DeviceYieldOptOut E d owner"

section \<open>The value in the system\<close>

text \<open>Which records lock native tokens, and in which field.\<close>

definition lock_field :: "string \<Rightarrow> string option" where
  "lock_field k =
     (if prefix ''unbonding:'' k \<or> prefix ''yield_stake:'' k \<or> prefix ''role_stake:'' k
      then Some ''amount''
      else if prefix ''device_claim:'' k then Some ''stake'' else None)"

definition lock_share :: "env \<Rightarrow> string \<Rightarrow> val \<Rightarrow> int" where
  "lock_share E k v =
     (case lock_field k of
        None \<Rightarrow> 0
      | Some f \<Rightarrow> (case as_json E v of Some j \<Rightarrow> uint (the_u64 j f 0) | None \<Rightarrow> 0))"

definition locked :: "env \<Rightarrow> chain \<Rightarrow> int" where
  "locked E s = kv_sum (lock_share E) (cf_meta s)"

definition stake_total :: "chain \<Rightarrow> int" where
  "stake_total s = kv_sum (\<lambda>_. uint) (cf_stakes s)"

definition bonded :: "env \<Rightarrow> chain \<Rightarrow> int" where
  "bonded E s = token_supply NATIVE_TOKEN s + stake_total s + locked E s"

definition lock_at :: "env \<Rightarrow> chain \<Rightarrow> string \<Rightarrow> int" where
  "lock_at E s k = kv_at (lock_share E) (cf_meta s) k"

lemma lock_share_nonneg: "0 \<le> lock_share E k v"
  by (simp add: lock_share_def split: option.split)

lemma locked_nonneg: "0 \<le> locked E s"
  unfolding locked_def by (rule kv_sum_nonneg) (rule lock_share_nonneg)

lemma stake_total_nonneg: "0 \<le> stake_total s"
  unfolding stake_total_def by (rule kv_sum_nonneg) simp

lemma lock_at_le: "lock_at E s k \<le> locked E s"
  unfolding lock_at_def locked_def by (rule kv_at_le_sum) (rule lock_share_nonneg)

lemma stake_le_total: "uint (get_stake s a) \<le> stake_total s"
  using kv_at_le_sum [of "\<lambda>_. uint" "cf_stakes s" a] stake_total_nonneg [of s]
  by (simp add: stake_total_def kv_at_def get_stake_def split: option.splits)

lemma lock_at_amount:
  "lock_field k = Some ''amount'' \<Longrightarrow> lock_at E s k = uint (state_amount E s k)"
  by (simp add: lock_at_def kv_at_def lock_share_def state_amount_def state_json_def state_get_def
      split: option.split)

lemma lock_field_keys [simp]:
  "lock_field (unbonding_key e a) = Some ''amount''"
  "lock_field (yield_key d a) = Some ''amount''"
  "lock_field (role_stake_key r n a) = Some ''amount''"
  "lock_field (claim_key d) = Some ''stake''"
  "lock_field (role_opt_key r n) = None"
  "lock_field (CHR ''a'' # k) = None"
  by (simp_all add: lock_field_def unbonding_key_def yield_key_def role_stake_key_def claim_key_def
      role_opt_key_def)

lemma bonded_put:
  "bonded E (s\<lparr>cf_meta := kv_put k v (cf_meta s)\<rparr>) = bonded E s + lock_share E k v - lock_at E s k"
  by (simp add: bonded_def token_supply_def stake_total_def locked_def kv_sum_put lock_at_def)

lemma bonded_del:
  "bonded E (s\<lparr>cf_meta := kv_del k (cf_meta s)\<rparr>) = bonded E s - lock_at E s k"
  by (simp add: bonded_def token_supply_def stake_total_def locked_def kv_sum_del lock_at_def)

lemma bonded_stake:
  "bonded E (s\<lparr>cf_stakes := kv_put a n (cf_stakes s)\<rparr>) = bonded E s + uint n - uint (get_stake s a)"
  by (simp add: bonded_def token_supply_def stake_total_def locked_def kv_sum_put kv_at_def
      get_stake_def split: option.split)

lemma keeps_bondedI:
  "keeps cf_balances m \<Longrightarrow> keeps cf_stakes m \<Longrightarrow> keeps cf_meta m \<Longrightarrow> keeps (bonded E) m"
  by (simp add: keeps_def bonded_def token_supply_def stake_total_def locked_def)

lemma keeps_bonded_unlocked:
  "lock_field k = None \<Longrightarrow> keeps (bonded E) (state_set k v)"
  "lock_field k = None \<Longrightarrow> keeps (bonded E) (state_delete k)"
  by (simp_all add: keeps_def state_set_def state_delete_def act_simps bonded_put bonded_del
      lock_at_def kv_at_def lock_share_def split: option.split)

lemma keeps_bonded_helpers:
  "keeps (bonded E) (ensure_account a e)" "keeps (bonded E) (touch_alive E' a e)"
proof -
  show "keeps (bonded E) (ensure_account a e)"
    by (intro keeps_bondedI keeps_intros)
  show "keeps (bonded E) (touch_alive E' a e)"
    unfolding touch_alive_def set_alive_epoch_def
    by (intro keeps_intros keeps_bonded_unlocked) simp
qed

lemma gains_bonded:
  "gains (token_supply NATIVE_TOKEN) d m \<Longrightarrow> keeps cf_stakes m \<Longrightarrow> keeps cf_meta m \<Longrightarrow>
    gains (bonded E) d m"
  by (fastforce simp: gains_def bonded_def stake_total_def locked_def dest: keepsD)

interpretation bond: value_ledger "bonded E" "\<lambda>a. debit a NATIVE_TOKEN" "\<lambda>a. credit a NATIVE_TOKEN"
  for E
  by unfold_locales (intro gains_bonded native.take_out_gains native.pay_in_gains keeps_intros)+

text \<open>When the value in the system fits a \<open>u64\<close>, no single addition of two parts of it can wrap.\<close>

lemma bonded_parts:
  "token_supply NATIVE_TOKEN s + stake_total s + lock_at E s k \<le> bonded E s"
  using lock_at_le [of E s k] by (simp add: bonded_def)

lemma room_iff: "unat a + unat b < 2 ^ 64 \<longleftrightarrow> uint a + uint b < 2 ^ 64"
  for a b :: u64
  unfolding uint_nat of_nat_add [symmetric] by (metis of_nat_less_iff of_nat_numeral of_nat_power)

section \<open>Adding to and taking from a record\<close>

text \<open>The amount a debit has just taken out is what the record can grow by without wrapping.\<close>

lemma add_to_record:
  assumes "lock_field k = Some ''amount''" "the_u64 j ''amount'' 0 = state_amount E s k + n"
    and "bonded E s + uint n < 2 ^ 64"
  shows "bonded E (s\<lparr>cf_meta := kv_put k (Json j) (cf_meta s)\<rparr>) = bonded E s + uint n"
proof -
  have "uint (state_amount E s k) \<le> bonded E s"
    using bonded_parts [of s E k] supply_nonneg [of NATIVE_TOKEN s] stake_total_nonneg [of s]
      lock_at_amount [OF assms(1), of E s] by simp
  with assms(3) have "unat (state_amount E s k) + unat n < 2 ^ 64"
    unfolding room_iff by simp
  with assms(1,2) show ?thesis
    by (simp add: bonded_put lock_at_amount lock_share_def uint_u64_add)
qed

lemma take_from_record:
  assumes "lock_field k = Some ''amount''" "n \<le> state_amount E s k"
    and "m = (if state_amount E s k - n = 0 then kv_del k (cf_meta s)
      else kv_put k (Json j) (cf_meta s))"
    and "the_u64 j ''amount'' 0 = state_amount E s k - n"
  shows "bonded E (s\<lparr>cf_meta := m\<rparr>) = bonded E s - uint n"
proof -
  have "uint (state_amount E s k - n) = uint (state_amount E s k) - uint n"
    using assms(2) by simp
  with assms show ?thesis
    by (auto simp: bonded_put bonded_del lock_at_amount lock_share_def)
qed

section \<open>Each handler keeps the value\<close>

lemmas handler_steps = andThen_Inr seq_Inr reads_apply need_apply ensure_apply state_set_def
  state_delete_def set_stake_def modify_apply ret_apply

lemma unbond_bonded:
  assumes "unbond E a n e s = (Inr (), s')" and "bonded E s + uint n < 2 ^ 64"
  shows "bonded E s' = bonded E s + uint n"
proof -
  let ?k = "unbonding_key (e + UNBONDING_EPOCHS) a"
  let ?j = "jobj [(''account'', JStr a), (''amount'', JNum (state_amount E s ?k + n)),
       (''release_epoch'', JNum (e + UNBONDING_EPOCHS))]"
  have "s' = s\<lparr>cf_meta := kv_put ?k (Json ?j) (cf_meta s)\<rparr>"
    using assms(1) by (simp add: unbond_def Let_def handler_steps)
  with assms(2) show ?thesis
    by (simp only:) (rule add_to_record, simp_all add: the_u64_def)
qed

lemma stake_bonded:
  assumes run: "apply_Stake E a n e s = (Inr (), s')"
  shows "bonded E s' = bonded E s"
proof -
  from run obtain s1 b s2 where t: "touch_alive E a e s = (Inr (), s1)"
    and d: "debit a NATIVE_TOKEN n s1 = (Inr b, s2)"
    and room: "unat (get_stake s2 a) + unat n < 2 ^ 64"
    and s': "s' = s2\<lparr>cf_stakes := kv_put a (get_stake s2 a + n) (cf_stakes s2)\<rparr>"
    by (auto simp: apply_Stake_def handler_steps checked_add_Some split: if_splits option.splits)
  have "bonded E s' = bonded E s2 + uint n"
    unfolding s' bonded_stake using room by (simp add: uint_u64_add)
  with keepsD [OF keeps_bonded_helpers(2) t, of E] gainsD [OF bond.take_out_gains d, of E]
  show ?thesis by simp
qed

lemma unstake_bonded:
  assumes run: "apply_Unstake E a n e s = (Inr (), s')" and fits: "bonded E s < 2 ^ 64"
  shows "bonded E s' = bonded E s"
proof -
  from run obtain s1 where t: "touch_alive E a e s = (Inr (), s1)" and le: "n \<le> get_stake s1 a"
    and u: "unbond E a n e (s1\<lparr>cf_stakes := kv_put a (get_stake s1 a - n) (cf_stakes s1)\<rparr>) =
      (Inr (), s')"
    by (auto simp: apply_Unstake_def handler_steps split: if_splits)
  have "bonded E (s1\<lparr>cf_stakes := kv_put a (get_stake s1 a - n) (cf_stakes s1)\<rparr>) = bonded E s - uint n"
    unfolding bonded_stake using le keepsD [OF keeps_bonded_helpers(2) t, of E] by simp
  with unbond_bonded [OF u] fits show ?thesis by simp
qed

lemma yield_stake_bonded:
  assumes run: "apply_DeviceYieldStake E d a n e s = (Inr (), s')" and fits: "bonded E s < 2 ^ 64"
  shows "bonded E s' = bonded E s"
proof -
  let ?k = "yield_key d a"
  from run obtain s1 b s2 where t: "ensure_account a e s = (Inr (), s1)"
    and d: "debit a NATIVE_TOKEN n s1 = (Inr b, s2)"
    and s': "s' = s2\<lparr>cf_meta := kv_put ?k (Json (jobj [(''device_serial'', JStr d), (''staker'', JStr a),
       (''amount'', JNum (state_amount E s2 ?k + n))])) (cf_meta s2)\<rparr>"
    by (auto simp: apply_DeviceYieldStake_def Let_def handler_steps)
  have s2: "bonded E s2 = bonded E s - uint n"
    using keepsD [OF keeps_bonded_helpers(1) t, of E] gainsD [OF bond.take_out_gains d, of E] by simp
  have "bonded E s' = bonded E s2 + uint n"
    unfolding s' using s2 fits by (intro add_to_record) (simp_all add: the_u64_def)
  with s2 show ?thesis by simp
qed

lemma yield_unstake_bonded:
  assumes run: "apply_DeviceYieldUnstake E d a n s = (Inr (), s')"
  shows "bonded E s' = bonded E s"
proof -
  let ?k = "yield_key d a"
  let ?j = "jobj [(''device_serial'', JStr d), (''staker'', JStr a),
       (''amount'', JNum (state_amount E s ?k - n))]"
  let ?m = "if state_amount E s ?k - n = 0 then kv_del ?k (cf_meta s) else kv_put ?k (Json ?j) (cf_meta s)"
  from run obtain b where le: "n \<le> state_amount E s ?k"
    and c: "credit a NATIVE_TOKEN n (s\<lparr>cf_meta := ?m\<rparr>) = (Inr b, s')"
    by (auto simp: apply_DeviceYieldUnstake_def Let_def handler_steps split: if_splits)
  have "bonded E (s\<lparr>cf_meta := ?m\<rparr>) = bonded E s - uint n"
    by (rule take_from_record [OF _ le refl]) (simp_all add: the_u64_def)
  with gainsD [OF bond.pay_in_gains c, of E] show ?thesis by simp
qed

lemma role_stake_bonded:
  assumes run: "apply_NodeRoleStake E node role a n e s = (Inr (), s')" and fits: "bonded E s < 2 ^ 64"
  shows "bonded E s' = bonded E s"
proof -
  let ?k = "role_stake_key role node a"
  let ?opt = "when_do (a = node)
           (andThen (reads (\<lambda>s. state_get s (role_opt_key role node))) (\<lambda>opt.
            when_do (opt = None)
              (state_set (role_opt_key role node) (Json (jobj [
                (''node'', JStr node), (''role'', JStr role), (''backer_share_bps'', JNum 1000),
                (''max_backers'', JNum 20), (''since_epoch'', JNum e)])))))"
  from run obtain s1 b s2 s3 where t: "ensure_account a e s = (Inr (), s1)"
    and d: "debit a NATIVE_TOKEN n s1 = (Inr b, s2)" and o: "?opt s2 = (Inr (), s3)"
    and s': "s' = s3\<lparr>cf_meta := kv_put ?k (Json (jobj [(''node'', JStr node), (''role'', JStr role),
       (''staker'', JStr a), (''amount'', JNum (state_amount E s3 ?k + n)),
       (''staked_epoch'', JNum e)])) (cf_meta s3)\<rparr>"
    unfolding apply_NodeRoleStake_def seq_Inr Let_def
    by (auto simp: andThen_Inr reads_apply state_set_def [of ?k] modify_apply)
  have ko: "keeps (bonded E) ?opt"
    by (intro keeps_intros keeps_bonded_unlocked) simp
  have s3: "bonded E s3 = bonded E s - uint n"
    using keepsD [OF ko o] keepsD [OF keeps_bonded_helpers(1) t, of E]
      gainsD [OF bond.take_out_gains d, of E] by simp
  have "bonded E s' = bonded E s3 + uint n"
    unfolding s' using s3 fits by (intro add_to_record) (simp_all add: the_u64_def)
  with s3 show ?thesis by simp
qed

lemma role_unstake_bonded:
  assumes run: "apply_NodeRoleUnstake E node role a n s = (Inr (), s')"
  shows "bonded E s' = bonded E s"
proof -
  let ?k = "role_stake_key role node a"
  let ?j = "jobj [(''node'', JStr node), (''role'', JStr role), (''staker'', JStr a),
       (''amount'', JNum (state_amount E s ?k - n))]"
  let ?m = "if state_amount E s ?k - n = 0 then kv_del ?k (cf_meta s) else kv_put ?k (Json ?j) (cf_meta s)"
  from run obtain b where le: "n \<le> state_amount E s ?k"
    and c: "credit a NATIVE_TOKEN n (s\<lparr>cf_meta := ?m\<rparr>) = (Inr b, s')"
    by (auto simp: apply_NodeRoleUnstake_def Let_def handler_steps split: if_splits)
  have "bonded E (s\<lparr>cf_meta := ?m\<rparr>) = bonded E s - uint n"
    by (rule take_from_record [OF _ le refl]) (simp_all add: the_u64_def)
  with gainsD [OF bond.pay_in_gains c, of E] show ?thesis by simp
qed

lemma claim_unstake_bonded:
  assumes run: "apply_DeviceClaimUnstake E d a e s = (Inr (), s')" and fits: "bonded E s < 2 ^ 64"
  shows "bonded E s' = bonded E s"
proof -
  let ?k = "claim_key d"
  from run obtain j n s2 where j: "state_json E s ?k = Some j" "as_u64 (jget j ''stake'') = Some n"
    and t: "ensure_account a e (s\<lparr>cf_meta := kv_del ?k (cf_meta s)\<rparr>) = (Inr (), s2)"
    and u: "unbond E a n e s2 = (Inr (), s')"
    by (auto simp: apply_DeviceClaimUnstake_def handler_steps bind_eq_Some_conv
        split: if_splits option.splits)
  from j have "lock_at E s ?k = uint n"
    by (auto simp: lock_at_def kv_at_def lock_share_def state_json_def state_get_def the_u64_def
        bind_eq_Some_conv)
  then have "bonded E s2 = bonded E s - uint n"
    using keepsD [OF keeps_bonded_helpers(1) t, of E] by (simp add: bonded_del)
  with unbond_bonded [OF u] fits show ?thesis by simp
qed

lemma keeps_bonded_opt:
  "keeps (bonded E) (apply_NodeRoleOptIn node role bps mx e)"
  "keeps (bonded E) (apply_NodeRoleOptOut node role e)"
  "keeps (bonded E) (apply_DeviceYieldOptIn E' d a mx)"
  "keeps (bonded E) (apply_DeviceYieldOptOut E' d a)"
  unfolding apply_NodeRoleOptIn_def apply_NodeRoleOptOut_def apply_DeviceYieldOptIn_def
    apply_DeviceYieldOptOut_def Let_def
  by (intro keeps_intros keeps_bonded_helpers keeps_bonded_unlocked; simp add: lock_field_def role_opt_key_def)+

fun is_claim :: "staking_entry \<Rightarrow> bool" where
  "is_claim (DeviceClaimStake _ _ _ _) = True"
| "is_claim _ = False"

text \<open>
  (C3) Staking moves value and never makes or destroys it: every staking entry that succeeds,
  a device claim apart, keeps the sum of native balances, stakes, unbonding, yield, role and claim
  amounts, as long as that sum fits a \<open>u64\<close>.
\<close>

theorem staking_conserves_value:
  assumes "apply_staking_entry E op s = (Inr (), s')" and "\<not> is_claim op" and "bonded E s < 2 ^ 64"
  shows "bonded E s' = bonded E s"
  using assms
  by (cases op) (simp_all add: stake_bonded unstake_bonded yield_stake_bonded yield_unstake_bonded
      role_stake_bonded role_unstake_bonded claim_unstake_bonded keepsD [OF keeps_bonded_opt(1)]
      keepsD [OF keeps_bonded_opt(2)] keepsD [OF keeps_bonded_opt(3)] keepsD [OF keeps_bonded_opt(4)])

lemmas staking_run_simps [run_simps] = apply_Stake_def apply_Unstake_def unbond_def
  unbonding_key_def UNBONDING_EPOCHS_def checked_add_def

definition demo_staked :: chain where
  "demo_staked = snd (apply_Stake demo_env ''alice'' 40 1 demo_chain)"

lemma demo_staked_eq:
  "demo_staked = demo_chain\<lparr>
     cf_balances := [(balance_key ''alice'' ''HONE'', 60), (balance_key ''alice'' ''TOK'', 50)],
     cf_stakes := [(''alice'', 40)], cf_meta := [(''alive:alice'', Le64 1)]\<rparr>"
  by (simp add: demo_staked_def demo_chain_def run_simps act_simps)

lemma demo_staked_facts:
  "wf_chain demo_staked" "bonded demo_env demo_staked = 100"
  "apply_Unstake demo_env ''alice'' 30 2 demo_staked =
    (Inr (), snd (apply_Unstake demo_env ''alice'' 30 2 demo_staked))"
proof -
  show "wf_chain demo_staked"
    by (simp add: demo_staked_eq demo_chain_def empty_chain_def wf_chain_def kv_sorted_def balance_key_def)
  show "bonded demo_env demo_staked = 100"
    by (simp add: demo_staked_eq demo_chain_def run_simps bonded_def token_supply_def stake_total_def
        locked_def kv_sum_def supply_share_def token_of_def lock_share_def lock_field_def)
  show "apply_Unstake demo_env ''alice'' 30 2 demo_staked =
    (Inr (), snd (apply_Unstake demo_env ''alice'' 30 2 demo_staked))"
    by (simp add: demo_staked_eq demo_chain_def run_simps act_simps)
qed

theorem staking_conserves_value_witness:
  "bonded demo_env (snd (apply_Unstake demo_env ''alice'' 30 2 demo_staked)) = bonded demo_env demo_staked"
  by (rule staking_conserves_value [where op = "Unstake ''alice'' 30 2"])
    (simp_all add: demo_staked_facts(2,3) flip: demo_staked_facts(3))

section \<open>Release of unbonding value\<close>

definition payable :: "env \<Rightarrow> val \<Rightarrow> (string \<times> u64) option" where
  "payable E v =
     Option.bind (as_json E v) (\<lambda>j. Option.bind (as_str (jget j ''account'')) (\<lambda>account.
       if the_u64 j ''amount'' 0 > 0 then Some (account, the_u64 j ''amount'' 0) else None))"

definition due :: "env \<Rightarrow> string \<Rightarrow> val \<Rightarrow> int" where
  "due E a v = (case payable E v of Some (account, n) \<Rightarrow> if account = a then uint n else 0 | None \<Rightarrow> 0)"

lemma drain_one_payable:
  "drain_one E r = (case payable E (snd r) of
     None \<Rightarrow> ret ()
   | Some (account, n) \<Rightarrow> andThen (attempt (credit account NATIVE_TOKEN n)) (\<lambda>ok.
       when_do ok (state_delete (fst r))))"
  by (simp add: drain_one_def payable_def Let_def when_do_def split: option.split)

lemma payable_lock: "payable E v = Some (a, n) \<Longrightarrow> lock_field k = Some ''amount'' \<Longrightarrow> lock_share E k v = uint n"
  by (auto simp: payable_def lock_share_def bind_eq_Some_conv split: if_splits)

lemma drain_one_step:
  assumes rec: "state_get s (fst r) = Some (snd r)" "lock_field (fst r) = Some ''amount''"
    and fits: "bonded E s < 2 ^ 64"
  obtains s' where "drain_one E r s = (Inr (), s')" "bonded E s' = bonded E s"
    "\<And>a. uint (get_balance s' a NATIVE_TOKEN) = uint (get_balance s a NATIVE_TOKEN) + due E a (snd r)"
    "\<And>k. state_get s' k = (if k = fst r \<and> payable E (snd r) \<noteq> None then None else state_get s k)"
proof (cases "payable E (snd r)")
  case None
  then show thesis
    by (intro that [of s]) (simp_all add: drain_one_payable act_simps due_def)
next
  case (Some p)
  obtain account n where p: "payable E (snd r) = Some (account, n)"
    using Some by (cases p) simp
  have n: "lock_at E s (fst r) = uint n"
    using payable_lock [OF p rec(2)] rec(1) by (simp add: lock_at_def kv_at_def state_get_def)
  then have "uint (get_balance s account NATIVE_TOKEN) + uint n < 2 ^ 64"
    using bonded_parts [of s E "fst r"] fits stake_total_nonneg [of s]
      balance_le_supply [OF plain_NATIVE, of s account] by simp
  then have room: "unat (get_balance s account NATIVE_TOKEN) + unat n < 2 ^ 64"
    by (simp only: room_iff)
  then obtain b s1 where c: "credit account NATIVE_TOKEN n s = (Inr b, s1)"
    by (simp add: credit_cases)
  let ?s' = "s1\<lparr>cf_meta := kv_del (fst r) (cf_meta s1)\<rparr>"
  have meta: "cf_meta s1 = cf_meta s"
    using keepsD [OF keeps_credit(3) c] .
  then have n1: "lock_at E s1 (fst r) = uint n"
    using n by (simp add: lock_at_def)
  show thesis
  proof (rule that [of ?s'])
    show "drain_one E r s = (Inr (), ?s')"
      by (simp add: drain_one_payable p c act_simps state_delete_def)
    show "bonded E ?s' = bonded E s"
      using gainsD [OF bond.pay_in_gains c, of E] n1 by (simp add: bonded_del)
    have s1: "s1 = s\<lparr>cf_balances := kv_put (balance_key account NATIVE_TOKEN)
        (get_balance s account NATIVE_TOKEN + n) (cf_balances s)\<rparr>"
      using c room by (auto simp: credit_cases)
    show "uint (get_balance ?s' a NATIVE_TOKEN) = uint (get_balance s a NATIVE_TOKEN) + due E a (snd r)" for a
      using room p unfolding s1 by (auto simp: get_balance_def due_def uint_u64_add)
    show "state_get ?s' k = (if k = fst r \<and> payable E (snd r) \<noteq> None then None else state_get s k)" for k
      using p meta by (simp add: state_get_def)
  qed
qed

lemma drain_each:
  assumes "distinct (map fst rs)" "\<forall>r \<in> set rs. state_get s (fst r) = Some (snd r) \<and> lock_field (fst r) = Some ''amount''"
    and "bonded E s < 2 ^ 64"
  shows "\<exists>s'. each (drain_one E) rs s = (Inr (), s') \<and> bonded E s' = bonded E s \<and>
    (\<forall>a. uint (get_balance s' a NATIVE_TOKEN) =
       uint (get_balance s a NATIVE_TOKEN) + (\<Sum>r \<leftarrow> rs. due E a (snd r))) \<and>
    (\<forall>k. state_get s' k = (if \<exists>r \<in> set rs. k = fst r \<and> payable E (snd r) \<noteq> None then None else state_get s k))"
  using assms
proof (induction rs arbitrary: s)
  case Nil
  then show ?case by (simp add: act_simps)
next
  case (Cons r rs)
  from Cons.prems obtain s1 where s1: "drain_one E r s = (Inr (), s1)" "bonded E s1 = bonded E s"
    "\<And>a. uint (get_balance s1 a NATIVE_TOKEN) = uint (get_balance s a NATIVE_TOKEN) + due E a (snd r)"
    "\<And>k. state_get s1 k = (if k = fst r \<and> payable E (snd r) \<noteq> None then None else state_get s k)"
    using drain_one_step [of s r E] by auto
  have rest: "\<forall>q \<in> set rs. state_get s1 (fst q) = Some (snd q) \<and> lock_field (fst q) = Some ''amount''"
  proof
    fix q assume "q \<in> set rs"
    with Cons.prems have "fst q \<noteq> fst r" "state_get s (fst q) = Some (snd q)"
      "lock_field (fst q) = Some ''amount''"
      by (auto simp: rev_image_eqI)
    then show "state_get s1 (fst q) = Some (snd q) \<and> lock_field (fst q) = Some ''amount''"
      by (simp add: s1(4))
  qed
  from Cons.IH [OF _ rest] Cons.prems s1(2) obtain s' where "each (drain_one E) rs s1 = (Inr (), s')"
    "bonded E s' = bonded E s1"
    "\<forall>a. uint (get_balance s' a NATIVE_TOKEN) =
       uint (get_balance s1 a NATIVE_TOKEN) + (\<Sum>r \<leftarrow> rs. due E a (snd r))"
    "\<forall>k. state_get s' k = (if \<exists>r \<in> set rs. k = fst r \<and> payable E (snd r) \<noteq> None then None else state_get s1 k)"
    by auto
  with s1 show ?case
    by (intro exI [of _ s']) (auto simp: seq_apply)
qed

lemma scan_records:
  assumes "wf_chain s" "\<And>k. prefix pre k \<Longrightarrow> lock_field k = Some f"
  shows "distinct (map fst (state_scan_prefix s pre))"
    and "\<forall>r \<in> set (state_scan_prefix s pre). state_get s (fst r) = Some (snd r) \<and> lock_field (fst r) = Some f"
proof -
  have m: "kv_sorted (cf_meta s)"
    using assms(1) by (simp add: wf_chain_def)
  show "distinct (map fst (state_scan_prefix s pre))"
    using kv_sorted_distinct [OF m] unfolding state_scan_prefix_def kv_scan_filter [OF m]
    by (rule distinct_map_filter)
  show "\<forall>r \<in> set (state_scan_prefix s pre). state_get s (fst r) = Some (snd r) \<and> lock_field (fst r) = Some f"
    using assms(2) by (auto simp: state_scan_prefix_def state_get_def set_kv_scan [OF m])
qed

definition unbonding_prefix :: "u64 \<Rightarrow> string" where
  "unbonding_prefix e = ''unbonding:'' @ show_u64 e @ '':''"

lemma unbonding_prefix_lock: "prefix (unbonding_prefix e) k \<Longrightarrow> lock_field k = Some ''amount''"
  by (auto simp: unbonding_prefix_def lock_field_def prefix_def)

text \<open>The body of the next property, which the release property below uses as well.\<close>

lemma drain_unbonding_outcome:
  assumes wf: "wf_chain s" and fits: "bonded E s < 2 ^ 64"
  obtains s' where "drain_unbonding E e s = (Inr (), s')" "bonded E s' = bonded E s"
    "\<And>a. uint (get_balance s' a NATIVE_TOKEN) = uint (get_balance s a NATIVE_TOKEN) +
      (\<Sum>r \<leftarrow> state_scan_prefix s (unbonding_prefix e). due E a (snd r))"
    "\<And>k. state_get s' k =
      (if prefix (unbonding_prefix e) k \<and> Option.bind (state_get s k) (payable E) \<noteq> None
       then None else state_get s k)"
proof -
  let ?rs = "state_scan_prefix s (unbonding_prefix e)"
  have lf: "prefix (unbonding_prefix e) k \<Longrightarrow> lock_field k = Some ''amount''" for k
    by (rule unbonding_prefix_lock)
  note recs = scan_records [OF wf lf]
  from drain_each [OF recs fits]
  obtain s' where s': "each (drain_one E) ?rs s = (Inr (), s')" "bonded E s' = bonded E s"
    "\<forall>a. uint (get_balance s' a NATIVE_TOKEN) =
       uint (get_balance s a NATIVE_TOKEN) + (\<Sum>r \<leftarrow> ?rs. due E a (snd r))"
    "\<forall>k. state_get s' k = (if \<exists>r \<in> set ?rs. k = fst r \<and> payable E (snd r) \<noteq> None then None else state_get s k)"
    by blast
  have "(\<exists>r \<in> set ?rs. k = fst r \<and> payable E (snd r) \<noteq> None) \<longleftrightarrow>
      prefix (unbonding_prefix e) k \<and> Option.bind (state_get s k) (payable E) \<noteq> None" for k
    using set_kv_scan [of "cf_meta s" k _ "unbonding_prefix e"] wf
    unfolding Bex_def split_paired_Ex state_scan_prefix_def state_get_def wf_chain_def
    by (cases "kv_get (cf_meta s) k") auto
  with s' show thesis
    by (intro that [of s']) (simp_all add: drain_unbonding_def unbonding_prefix_def act_simps)
qed

text \<open>
  The drain of a sealed epoch is exact: it always returns, every account gains the amounts of
  the records of that epoch made out to it and nothing else, exactly those records are deleted,
  every other record stays, and the value in the system is unchanged.
\<close>

theorem drain_unbonding_exact:
  assumes "wf_chain s" and "bonded E s < 2 ^ 64"
  shows "\<exists>s'. drain_unbonding E e s = (Inr (), s') \<and> bonded E s' = bonded E s \<and>
    (\<forall>a. uint (get_balance s' a NATIVE_TOKEN) = uint (get_balance s a NATIVE_TOKEN) +
      (\<Sum>r \<leftarrow> state_scan_prefix s (unbonding_prefix e). due E a (snd r))) \<and>
    (\<forall>k. state_get s' k =
      (if prefix (unbonding_prefix e) k \<and> Option.bind (state_get s k) (payable E) \<noteq> None
       then None else state_get s k))"
  using drain_unbonding_outcome [OF assms, of e] by metis

lemma due_nonneg: "0 \<le> due E a v"
  by (simp add: due_def split: option.split)

lemma due_le_sum: "r \<in> set rs \<Longrightarrow> due E a (snd r) \<le> (\<Sum>r \<leftarrow> rs. due E a (snd r))"
  using due_nonneg by (intro member_le_sum_list) auto

lemma preserves_wf_unstake: "preserves wf_chain (apply_Unstake E a n e)"
  unfolding apply_Unstake_def unbond_def Let_def by (intro preserves_intros)

text \<open>What an unstake leaves behind: a record of the release epoch with at least its amount.\<close>

lemma unstake_record:
  assumes run: "apply_Unstake E a n e s = (Inr (), s')" and fits: "bonded E s < 2 ^ 64"
  shows "\<exists>j. state_get s' (unbonding_key (e + UNBONDING_EPOCHS) a) = Some (Json j) \<and>
    as_str (jget j ''account'') = Some a \<and> n \<le> the_u64 j ''amount'' 0"
    and "get_balance s' b t = get_balance s b t"
proof -
  let ?k = "unbonding_key (e + UNBONDING_EPOCHS) a"
  from run obtain s1 where t: "touch_alive E a e s = (Inr (), s1)" and le: "n \<le> get_stake s1 a"
    and s': "s' = s1\<lparr>cf_stakes := kv_put a (get_stake s1 a - n) (cf_stakes s1),
      cf_meta := kv_put ?k (Json (jobj [(''account'', JStr a),
        (''amount'', JNum (state_amount E s1 ?k + n)), (''release_epoch'', JNum (e + UNBONDING_EPOCHS))]))
        (cf_meta s1)\<rparr>"
    by (auto simp: apply_Unstake_def unbond_def Let_def handler_steps state_amount_def state_json_def
        state_get_def split: if_splits)
  have "uint (state_amount E s1 ?k) + uint n \<le> bonded E s1"
    using bonded_parts [of s1 E ?k] supply_nonneg [of NATIVE_TOKEN s1] stake_le_total [of s1 a] le
      lock_at_amount [of ?k E s1] by (simp add: word_le_def)
  then have "unat (state_amount E s1 ?k) + unat n < 2 ^ 64"
    using fits keepsD [OF keeps_bonded_helpers(2) t, of E] unfolding room_iff by simp
  then have "n \<le> state_amount E s1 ?k + n"
    by (simp add: u64_le_iff unat_u64_add)
  then show "\<exists>j. state_get s' ?k = Some (Json j) \<and> as_str (jget j ''account'') = Some a \<and>
      n \<le> the_u64 j ''amount'' 0"
    unfolding s' by (simp add: state_get_def the_u64_def)
  show "get_balance s' b t = get_balance s b t"
    using get_balance_keeps [OF keeps_touch_alive(1) t] unfolding s' by (simp add: get_balance_def)
qed

text \<open>
  Unstaked tokens are released at their epoch and not before or after: the drain of any epoch
  but the tenth after the unstake leaves the record untouched, and the drain of that epoch deletes
  it and credits the account with at least the unstaked amount.
\<close>

theorem unstake_released_on_time:
  assumes run: "apply_Unstake E a n e s = (Inr (), s1)" and pos: "0 < n"
    and wf: "wf_chain s" and fits: "bonded E s < 2 ^ 64"
    and drain: "drain_unbonding E x s1 = (Inr (), s2)"
  shows "if x = e + 10
    then uint (get_balance s2 a NATIVE_TOKEN) \<ge> uint (get_balance s a NATIVE_TOKEN) + uint n \<and>
      state_get s2 (unbonding_key (e + 10) a) = None
    else state_get s2 (unbonding_key (e + 10) a) = state_get s1 (unbonding_key (e + 10) a) \<and>
      n \<le> state_amount E s1 (unbonding_key (e + 10) a)"
proof -
  let ?k = "unbonding_key (e + 10) a"
  from unstake_record [OF run fits] obtain j where j: "state_get s1 ?k = Some (Json j)"
    "as_str (jget j ''account'') = Some a" "n \<le> the_u64 j ''amount'' 0"
    and bal: "get_balance s1 a NATIVE_TOKEN = get_balance s a NATIVE_TOKEN"
    by (auto simp: UNBONDING_EPOCHS_def)
  have wf1: "wf_chain s1" and fits1: "bonded E s1 < 2 ^ 64"
    using preservesD [OF preserves_wf_unstake wf run] unstake_bonded [OF run fits] fits by simp_all
  have pay: "payable E (Json j) = Some (a, the_u64 j ''amount'' 0)"
    using j pos by (auto simp: payable_def)
  have pre: "prefix (unbonding_prefix x) ?k \<longleftrightarrow> x = e + 10"
    by (simp add: unbonding_prefix_def unbonding_key_def)
  from drain_unbonding_outcome [OF wf1 fits1, of x] drain obtain
    out: "uint (get_balance s2 a NATIVE_TOKEN) = uint (get_balance s1 a NATIVE_TOKEN) +
      (\<Sum>r \<leftarrow> state_scan_prefix s1 (unbonding_prefix x). due E a (snd r))"
    "state_get s2 ?k = (if prefix (unbonding_prefix x) ?k \<and> Option.bind (state_get s1 ?k) (payable E) \<noteq> None
       then None else state_get s1 ?k)"
    by (metis prod.inject)
  show ?thesis
  proof (cases "x = e + 10")
    case True
    then have "(?k, Json j) \<in> set (state_scan_prefix s1 (unbonding_prefix x))"
      using j(1) pre wf1 by (simp add: state_scan_prefix_def state_get_def wf_chain_def set_kv_scan)
    from due_le_sum [OF this, of E a] pay j(3)
    have "uint n \<le> (\<Sum>r \<leftarrow> state_scan_prefix s1 (unbonding_prefix x). due E a (snd r))"
      by (simp add: due_def word_le_def)
    with out True j(1) pay pre bal show ?thesis by simp
  next
    case False
    with out(2) pre j show ?thesis
      by (simp add: state_amount_def state_json_def)
  qed
qed

theorem drain_unbonding_exact_witness:
  "\<exists>s'. drain_unbonding demo_env 12 (snd (apply_Unstake demo_env ''alice'' 30 2 demo_staked)) = (Inr (), s') \<and>
    bonded demo_env s' = 100"
proof -
  let ?s = "snd (apply_Unstake demo_env ''alice'' 30 2 demo_staked)"
  have "bonded demo_env ?s = 100"
    using unstake_bonded [OF demo_staked_facts(3)] demo_staked_facts(2) by simp
  moreover have "wf_chain ?s"
    by (rule preservesD [OF preserves_wf_unstake demo_staked_facts(1,3)])
  ultimately show ?thesis
    using drain_unbonding_exact [of ?s demo_env 12] by auto
qed

theorem unstake_released_on_time_witness:
  "60 + 30 \<le> uint (get_balance (snd (drain_unbonding demo_env 12
      (snd (apply_Unstake demo_env ''alice'' 30 2 demo_staked)))) ''alice'' NATIVE_TOKEN)"
proof -
  let ?s = "snd (apply_Unstake demo_env ''alice'' 30 2 demo_staked)"
  have "bonded demo_env ?s = 100" "wf_chain ?s"
    using unstake_bonded [OF demo_staked_facts(3)] demo_staked_facts(2)
      preservesD [OF preserves_wf_unstake demo_staked_facts(1,3)] by simp_all
  then obtain s' where "drain_unbonding demo_env 12 ?s = (Inr (), s')"
    using drain_unbonding_outcome [of ?s demo_env 12 thesis] by simp
  then have "drain_unbonding demo_env 12 ?s = (Inr (), snd (drain_unbonding demo_env 12 ?s))"
    by simp
  from unstake_released_on_time [OF demo_staked_facts(3) _ demo_staked_facts(1) _ this]
  show ?thesis
    by (simp add: demo_staked_facts(2)) (simp add: demo_staked_eq demo_chain_def run_simps)
qed

section \<open>Backer rewards\<close>

lemma payouts_le:
  assumes "(\<Sum>b \<leftarrow> bs. unat (snd b)) < 2 ^ 64"
  shows "(\<Sum>b \<leftarrow> bs. unat (mul_div n (snd b) (sum_list (map snd bs)))) \<le> unat n"
proof -
  let ?xs = "map (unat \<circ> snd) bs"
  have t: "unat (sum_list (map snd bs)) = sum_list ?xs"
    using unat_sum_list [of "map snd bs"] assms by (simp add: o_def)
  have "unat (mul_div n (snd b) (sum_list (map snd bs))) = unat n * unat (snd b) div sum_list ?xs"
    if "b \<in> set bs" for b
    using elem_le_sum_unat [of "snd b" "map snd bs"] that t
    by (subst unat_mul_div) (simp_all add: o_def)
  then have "(\<Sum>b \<leftarrow> bs. unat (mul_div n (snd b) (sum_list (map snd bs)))) =
      (\<Sum>a \<leftarrow> ?xs. unat n * a div sum_list ?xs)"
    by (simp add: o_def cong: map_cong)
  with sum_floor_shares [of "unat n" ?xs] show ?thesis by simp
qed

lemma attempt_credit_supply:
  "attempt (credit a NATIVE_TOKEN n) s = (r, s') \<Longrightarrow>
    token_supply NATIVE_TOKEN s' \<le> token_supply NATIVE_TOKEN s + uint n"
  using gains_credit [OF plain_NATIVE, of NATIVE_TOKEN n a]
  by (auto simp: attempt_apply credit_cases gains_def split: if_splits)

lemma pay_backers_supply:
  "\<exists>s'. each (pay_backer n t) bs s = (Inr (), s') \<and>
    token_supply NATIVE_TOKEN s' \<le> token_supply NATIVE_TOKEN s + (\<Sum>b \<leftarrow> bs. uint (mul_div n (snd b) t))"
proof (induction bs arbitrary: s)
  case Nil
  then show ?case by (simp add: act_simps)
next
  case (Cons b bs)
  obtain r s1 where s1: "attempt (credit (fst b) NATIVE_TOKEN (mul_div n (snd b) t)) s = (Inr r, s1)"
    using attempt_result [OF calm_balance(1)] by blast
  obtain s2 where s2: "pay_backer n t b s = (Inr (), s2)"
    and le: "token_supply NATIVE_TOKEN s2 \<le> token_supply NATIVE_TOKEN s + uint (mul_div n (snd b) t)"
    using attempt_credit_supply [OF s1] s1
    by (cases "mul_div n (snd b) t = 0")
      (simp_all add: pay_backer_def Let_def act_simps(4-8) ret_apply when_do_apply word_neq_0_conv)
  from Cons [of s2] le show ?case
    by (auto simp: seq_apply s2 intro: order_trans)
qed

lemma distribute_outcomes:
  assumes run: "distribute_role_backer_reward E role node amount s = (Inr rest, s')"
  obtains "rest = amount" "s' = s"
  | bps bt where "bps \<le> 5000" "bt = mul_div amount bps 10000" "rest = sat_sub amount bt"
    "each (pay_backer bt (sum_list (map snd (stakers_under E s (role_stake_key role node [])))))
      (stakers_under E s (role_stake_key role node [])) s = (Inr (), s')"
proof (cases "state_json E s (role_opt_key role node)")
  case None
  with run that(1) show thesis
    by (simp add: distribute_role_backer_reward_def act_simps)
next
  case (Some j)
  let ?bs = "stakers_under E s (role_stake_key role node [])"
  let ?t = "sum_list (map snd ?bs)"
  let ?bps = "min (the_u64 j ''backer_share_bps'' 0) 5000"
  let ?bt = "mul_div amount ?bps 10000"
  show thesis
  proof (cases "?bps > 0 \<and> ?t > 0 \<and> ?bt > 0")
    case True
    then have "each (pay_backer ?bt ?t) ?bs s = (Inr (), s') \<and> rest = sat_sub amount ?bt"
      using run Some by (auto simp: distribute_role_backer_reward_def Let_def andThen_apply reads_apply
          seq_Inr ret_apply)
    then show thesis
      by (intro that(2) [of ?bps]) auto
  next
    case False
    then have "rest = amount \<and> s' = s"
      using run Some by (auto simp: distribute_role_backer_reward_def Let_def andThen_apply reads_apply
          ret_apply split: if_splits)
    then show thesis
      by (intro that(1)) auto
  qed
qed

text \<open>
  Paying a node's reward through its backers never creates value: what the backers receive
  and what is left for the node are together at most the reward, and the node keeps at least half.
\<close>

theorem backer_reward_bounded:
  assumes run: "distribute_role_backer_reward E role node amount s = (Inr rest, s')"
    and sum: "(\<Sum>b \<leftarrow> stakers_under E s (role_stake_key role node []). unat (snd b)) < 2 ^ 64"
  shows "token_supply NATIVE_TOKEN s' + uint rest \<le> token_supply NATIVE_TOKEN s + uint amount \<and>
    unat amount \<le> 2 * unat rest"
proof -
  let ?bs = "stakers_under E s (role_stake_key role node [])"
  let ?t = "sum_list (map snd ?bs)"
  from run show ?thesis
  proof (cases rule: distribute_outcomes)
    case 1
    then show ?thesis by simp
  next
    case (2 bps bt)
    have b: "unat bps \<le> 5000"
      using 2(1) by (simp add: u64_le_iff)
    have "unat bt = unat amount * unat bps div 10000"
      unfolding 2(2) using b by (subst unat_mul_div) simp_all
    also have "\<dots> \<le> unat amount * 5000 div 10000"
      using b by (intro div_le_mono mult_le_mono) simp_all
    finally have bt: "2 * unat bt \<le> unat amount"
      by linarith
    then have rest: "unat rest = unat amount - unat bt"
      unfolding 2(3) by (simp add: unat_sat_sub)
    have "(\<Sum>b \<leftarrow> ?bs. uint (mul_div bt (snd b) ?t)) = int (\<Sum>b \<leftarrow> ?bs. unat (mul_div bt (snd b) ?t))"
      by (rule uint_sum_list)
    also have "\<dots> \<le> int (unat bt)"
      using payouts_le [OF sum, of bt] by (simp only: of_nat_le_iff)
    finally have "token_supply NATIVE_TOKEN s' \<le> token_supply NATIVE_TOKEN s + int (unat bt)"
      using pay_backers_supply [of bt ?t ?bs s] 2(4) by auto
    moreover have "int (unat rest) = int (unat amount) - int (unat bt)"
      using rest bt by (simp add: of_nat_diff)
    ultimately show ?thesis
      using rest bt unfolding uint_nat by linarith
  qed
qed

definition demo_backed :: chain where
  "demo_backed = demo_chain\<lparr>cf_meta := [
     (role_opt_key ''miner'' ''n1'', Json (jobj [(''backer_share_bps'', JNum 1000)])),
     (role_stake_key ''miner'' ''n1'' ''bob'', Json (jobj [(''staker'', JStr ''bob''), (''amount'', JNum 5)]))]\<rparr>"

lemmas backer_run_simps [run_simps] = distribute_role_backer_reward_def stakers_under_def
  staker_of_record_def role_opt_key_def role_stake_key_def pay_backer_def mul_div_def kv_scan_def
  map_filter_def the_u64_def

theorem backer_reward_bounded_witness:
  "token_supply NATIVE_TOKEN (snd (distribute_role_backer_reward demo_env ''miner'' ''n1'' 50 demo_backed)) + 45
    \<le> token_supply NATIVE_TOKEN demo_backed + 50"
proof -
  have "distribute_role_backer_reward demo_env ''miner'' ''n1'' 50 demo_backed =
      (Inr 45, snd (distribute_role_backer_reward demo_env ''miner'' ''n1'' 50 demo_backed))"
    by (simp add: demo_backed_def demo_chain_def run_simps act_simps sat_sub_def)
  from backer_reward_bounded [OF this] show ?thesis
    by (simp add: demo_backed_def demo_chain_def run_simps)
qed

section \<open>Overbid on a device claim\<close>

lemma credit_fits:
  assumes "bonded E s + uint n < 2 ^ 64"
  obtains b s' where "credit a NATIVE_TOKEN n s = (Inr b, s')" "bonded E s' = bonded E s + uint n"
proof -
  have "uint (get_balance s a NATIVE_TOKEN) \<le> bonded E s"
    using balance_le_supply [OF plain_NATIVE, of s a] stake_total_nonneg [of s] locked_nonneg [of E s]
    by (simp add: bonded_def)
  with assms have "uint (get_balance s a NATIVE_TOKEN) + uint n < 2 ^ 64"
    by linarith
  then have "unat (get_balance s a NATIVE_TOKEN) + unat n < 2 ^ 64"
    by (simp only: room_iff)
  then obtain b s' where c: "credit a NATIVE_TOKEN n s = (Inr b, s')"
    by (simp add: credit_cases)
  from that [OF c gainsD [OF bond.pay_in_gains c]] show thesis .
qed

lemma premium_all_to_recycle:
  assumes none: "stakers_under E s (yield_key d []) = []" and fits: "bonded E s + uint p < 2 ^ 64"
  shows "\<exists>s'. distribute_premium E d p s = (Inr (), s') \<and> bonded E s' = bonded E s + uint p \<and> cf_meta s' = cf_meta s"
proof (cases "p = 0")
  case True
  then show ?thesis by (simp add: distribute_premium_def act_simps)
next
  case False
  let ?ss = "mul_div p OVERCLAIM_STAKER_SHARE_BPS 10000"
  have le: "unat ?ss \<le> unat p"
    by (rule mul_div_le) (simp add: OVERCLAIM_STAKER_SHARE_BPS_def)
  then have rs: "uint (sat_sub p ?ss) = uint p - uint ?ss"
    by (simp add: sat_sub_def u64_le_iff)
  have ge: "uint ?ss \<le> uint p"
    using le by (simp only: uint_nat of_nat_le_iff)
  obtain b1 s1 where c1: "credit RECYCLE_FUND_ACCOUNT NATIVE_TOKEN ?ss s = (Inr b1, s1)"
    and v1: "bonded E s1 = bonded E s + uint ?ss"
    by (rule credit_fits [of E s ?ss]) (use fits ge in linarith)
  obtain b2 s2 where c2: "credit RECYCLE_FUND_ACCOUNT NATIVE_TOKEN (sat_sub p ?ss) s1 = (Inr b2, s2)"
    and v2: "bonded E s2 = bonded E s1 + uint (sat_sub p ?ss)"
    by (rule credit_fits [of E s1 "sat_sub p ?ss"]) (use fits v1 rs in linarith)
  let ?s' = "if sat_sub p ?ss > 0 then s2 else s1"
  have "distribute_premium E d p s = (Inr (), ?s')"
    using False by (simp add: distribute_premium_def Let_def none seq_apply andThen_apply reads_apply
        ret_apply when_do_apply attempt_apply c1 c2 word_neq_0_conv)
  moreover have "bonded E ?s' = bonded E s + uint p"
    using v1 v2 rs by (auto simp: word_neq_0_conv [symmetric] split: if_splits)
  moreover have "cf_meta ?s' = cf_meta s"
    using keepsD [OF keeps_credit(3) c1] keepsD [OF keeps_credit(3) c2] by simp
  ultimately show ?thesis by blast
qed

text \<open>
  Overbidding on a device claim creates value: when a device claimed by one account is claimed
  by another, without yield stakers, the value in the system grows by exactly the premium, because
  the premium is paid out to the recycle fund and the new claim still records the full stake.
\<close>

theorem overbid_creates_premium:
  assumes run: "apply_DeviceClaimStake E d owner amount e s = (Inr (), s')"
    and claim: "state_json E s (claim_key d) = Some j" "as_str (jget j ''owner'') = Some old"
      "as_u64 (jget j ''stake'') = Some stake"
    and other: "old \<noteq> []" "old \<noteq> owner" and more: "stake \<le> amount"
    and none: "stakers_under E s (yield_key d []) = []"
    and fits: "bonded E s + uint amount < 2 ^ 64"
  shows "bonded E s' = bonded E s + (uint amount - uint stake)"
proof -
  obtain s1 where s1: "ensure_account owner e s = (Inr (), s1)"
    using ensure_account_result by blast
  have m1: "cf_meta s1 = cf_meta s" and v1: "bonded E s1 = bonded E s"
    using keepsD [OF keeps_ensure_account(3) s1] keepsD [OF keeps_bonded_helpers(1) s1] by simp_all
  have claim1: "state_json E s1 (claim_key d) = Some j"
    using claim(1) m1 by (simp add: state_json_def state_get_def)
  from run s1 claim1 claim(2,3) other obtain b2 s2 s3 b4 s4 where
    c: "credit old NATIVE_TOKEN stake s1 = (Inr b2, s2)"
    and p: "distribute_premium E d (sat_sub amount stake) s2 = (Inr (), s3)"
    and db: "debit owner NATIVE_TOKEN amount s3 = (Inr b4, s4)"
    and s': "s' = s4\<lparr>cf_meta := kv_put (claim_key d) (Json (jobj [(''device_serial'', JStr d),
      (''owner'', JStr owner), (''stake'', JNum amount), (''claimed_epoch'', JNum e)])) (cf_meta s4)\<rparr>"
    by (auto simp: apply_DeviceClaimStake_def overbid_def Let_def handler_steps when_do_apply
        the_str_def the_u64_def split: if_splits)
  have v2: "bonded E s2 = bonded E s + uint stake"
    using gainsD [OF bond.pay_in_gains c, of E] v1 by simp
  have pr: "uint (sat_sub amount stake) = uint amount - uint stake"
    using more by (simp add: sat_sub_def)
  have m2: "cf_meta s2 = cf_meta s"
    using keepsD [OF keeps_credit(3) c] m1 by simp
  have "\<exists>s3. distribute_premium E d (sat_sub amount stake) s2 = (Inr (), s3) \<and>
      bonded E s3 = bonded E s2 + uint (sat_sub amount stake) \<and> cf_meta s3 = cf_meta s2"
  proof (rule premium_all_to_recycle)
    show "stakers_under E s2 (yield_key d []) = []"
      using none m2 by (simp add: stakers_under_def state_scan_prefix_def)
  qed (use v2 pr fits in linarith)
  with p have v3: "bonded E s3 = bonded E s + uint amount" and m3: "cf_meta s3 = cf_meta s"
    using v2 pr m2 by auto
  have m4: "cf_meta s4 = cf_meta s"
    using keepsD [OF keeps_debit(3) db] m3 by simp
  have "lock_at E s4 (claim_key d) = uint stake"
    using claim m4 by (auto simp: lock_at_def kv_at_def lock_share_def state_json_def state_get_def
        the_u64_def bind_eq_Some_conv)
  then show ?thesis
    unfolding s' bonded_put using v3 gainsD [OF bond.take_out_gains db, of E]
    by (simp add: lock_share_def the_u64_def)
qed

definition demo_claimed :: chain where
  "demo_claimed = demo_chain\<lparr>cf_meta := [(claim_key ''d1'', Json (jobj [
     (''owner'', JStr ''bob''), (''stake'', JNum 10)]))]\<rparr>"

theorem overbid_creates_premium_witness:
  "bonded demo_env (snd (apply_DeviceClaimStake demo_env ''d1'' ''alice'' 40 1 demo_claimed)) =
    bonded demo_env demo_claimed + 30"
proof -
  let ?j = "jobj [(''owner'', JStr ''bob''), (''stake'', JNum 10)]"
  have "apply_DeviceClaimStake demo_env ''d1'' ''alice'' 40 1 demo_claimed =
      (Inr (), snd (apply_DeviceClaimStake demo_env ''d1'' ''alice'' 40 1 demo_claimed))"
    by (simp add: apply_DeviceClaimStake_def overbid_def distribute_premium_def required_overbid_def
        OVERCLAIM_STAKER_SHARE_BPS_def RECYCLE_FUND_ACCOUNT_def claim_key_def yield_key_def the_str_def
        demo_claimed_def demo_chain_def run_simps act_simps sat_sub_def)
  moreover have "state_json demo_env demo_claimed (claim_key ''d1'') = Some ?j"
    by (simp add: demo_claimed_def demo_chain_def run_simps)
  moreover have "stakers_under demo_env demo_claimed (yield_key ''d1'' []) = []"
    by (simp add: demo_claimed_def claim_key_def yield_key_def run_simps)
  moreover have "bonded demo_env demo_claimed = 110"
    by (simp add: demo_claimed_def demo_chain_def run_simps bonded_def token_supply_def stake_total_def
        locked_def kv_sum_def supply_share_def token_of_def lock_share_def)
  ultimately show ?thesis
    using overbid_creates_premium [of demo_env "''d1''" "''alice''" 40 1 demo_claimed _ ?j "''bob''" 10]
    by simp
qed

end
