(* ===== verification/Emission.thy ===== *)
theory Emission
  imports Prelude
begin

text \<open>
  The emission schedule and the pure scoring arithmetic of the protocol
  (\<open>crates/hone-types/src/emission.rs\<close>): eras and epoch durations, block, clock and testnet
  rewards, the integer square root, the activity scores and weights, the Layer A scalar, the
  EIP-1559-style base fee and the era calibration. Every function works on \<open>u64\<close> as the source
  does, with its shifts, saturations and truncations.
\<close>

section \<open>Constants\<close>

definition DOUBLING_INTERVAL :: u64 where "DOUBLING_INTERVAL = 4200000"
definition INITIAL_EPOCH_MS :: u64 where "INITIAL_EPOCH_MS = 30000"
definition BLOCK_REWARD_HUNITS :: u64 where "BLOCK_REWARD_HUNITS = 2 * 10000000000"
definition SUPPLY_CAP_HUNITS :: u64 where "SUPPLY_CAP_HUNITS = 42000000 * 10000000000"
definition RECYCLE_ERA :: u64 where "RECYCLE_ERA = 5"
definition CLOCK_REWARD_HUNITS :: u64 where "CLOCK_REWARD_HUNITS = 10000000"
definition TESTNET_REWARD_BASE_HUNITS :: u64 where "TESTNET_REWARD_BASE_HUNITS = 5000000"
definition BTC_GENESIS_MS :: u64 where "BTC_GENESIS_MS = 1231006505000"
definition BTC_LAST_BLOCK :: u64 where "BTC_LAST_BLOCK = 6930000"
definition BTC_AVG_BLOCK_MS :: u64 where "BTC_AVG_BLOCK_MS = 600000"
definition BTC_PROJECTED_END_MS :: u64 where
  "BTC_PROJECTED_END_MS = BTC_GENESIS_MS + BTC_LAST_BLOCK * BTC_AVG_BLOCK_MS"
definition LAYER_A_SCALAR_MIN :: u64 where "LAYER_A_SCALAR_MIN = 7000"
definition LAYER_A_SCALAR_MAX :: u64 where "LAYER_A_SCALAR_MAX = 10000"
definition LAYER_A_SCALAR_DENOM :: u64 where "LAYER_A_SCALAR_DENOM = 10000"
definition MIN_STAKE :: u64 where "MIN_STAKE = 100 * 10000000000"
definition BASE_FEE_MIN_HUNITS :: u64 where "BASE_FEE_MIN_HUNITS = 1000"
definition BASE_FEE_MAX_HUNITS :: u64 where "BASE_FEE_MAX_HUNITS = 100 * 10000000000"
definition BASE_FEE_INITIAL_HUNITS :: u64 where "BASE_FEE_INITIAL_HUNITS = 10000000"

lemmas emission_consts = DOUBLING_INTERVAL_def INITIAL_EPOCH_MS_def BLOCK_REWARD_HUNITS_def
  SUPPLY_CAP_HUNITS_def RECYCLE_ERA_def CLOCK_REWARD_HUNITS_def TESTNET_REWARD_BASE_HUNITS_def
  LAYER_A_SCALAR_MIN_def LAYER_A_SCALAR_MAX_def LAYER_A_SCALAR_DENOM_def MIN_STAKE_def
  BASE_FEE_MIN_HUNITS_def BASE_FEE_MAX_HUNITS_def

section \<open>Eras, durations and rewards\<close>

definition era :: "u64 \<Rightarrow> u64" where
  "era epoch = epoch div DOUBLING_INTERVAL"

definition clock_reward_at :: "u64 \<Rightarrow> u64" where
  "clock_reward_at epoch =
     (let shift = min (era epoch) RECYCLE_ERA in push_bit (unat shift) CLOCK_REWARD_HUNITS)"

definition testnet_reward_at :: "u64 \<Rightarrow> u64" where
  "testnet_reward_at epoch =
     (let shift = min (era epoch) RECYCLE_ERA in push_bit (unat shift) TESTNET_REWARD_BASE_HUNITS)"

definition epoch_duration_ms :: "u64 \<Rightarrow> u64" where
  "epoch_duration_ms epoch =
     (let shift = min (era epoch) RECYCLE_ERA in push_bit (unat shift) INITIAL_EPOCH_MS)"

definition block_reward_at :: "u64 \<Rightarrow> u64" where
  "block_reward_at epoch =
     (if era epoch \<ge> RECYCLE_ERA then 0
      else let total_already_emitted = sat_mul epoch BLOCK_REWARD_HUNITS
           in if total_already_emitted \<ge> SUPPLY_CAP_HUNITS then 0
              else let remaining = SUPPLY_CAP_HUNITS - total_already_emitted
                   in min BLOCK_REWARD_HUNITS remaining)"

definition epoch_start_ms_from_genesis :: "u64 \<Rightarrow> u64" where
  "epoch_start_ms_from_genesis epoch =
     (if epoch = 0 then 0
      else let e = era epoch;
               full_era_ms = sum_list (map (\<lambda>k. DOUBLING_INTERVAL *
                   push_bit (unat (min (word_of_nat k) RECYCLE_ERA)) INITIAL_EPOCH_MS)
                 [0..<unat e]);
               epoch_in_era = epoch - e * DOUBLING_INTERVAL;
               cur_epoch_ms = push_bit (unat (min e RECYCLE_ERA)) INITIAL_EPOCH_MS
           in full_era_ms + epoch_in_era * cur_epoch_ms)"

definition calibrate_era_epoch_ms :: "u64 \<Rightarrow> u64 \<Rightarrow> u64 \<Rightarrow> u64" where
  "calibrate_era_epoch_ms new_era now_ms target_end_ms =
     (if new_era \<ge> RECYCLE_ERA then push_bit (unat RECYCLE_ERA) INITIAL_EPOCH_MS
      else let remaining_ms = sat_sub target_end_ms now_ms;
               remaining_eras = RECYCLE_ERA - new_era;
               series_sum = max (sat_sub (push_bit (unat remaining_eras) 1) 1) 1;
               base = remaining_ms div max (sat_mul DOUBLING_INTERVAL series_sum) 1
           in max base 1000)"

section \<open>Scores and weights\<close>

text \<open>The Newton iteration of \<open>isqrt\<close>: \<open>while y < x { x = y; y = (x + n / x) / 2 }\<close>.\<close>

function isqrt_loop :: "u64 \<Rightarrow> u64 \<Rightarrow> u64 \<Rightarrow> u64" where
  "isqrt_loop n x y = (if y < x then isqrt_loop n y (sat_add y (n div y) div 2) else x)"
  by pat_completeness auto
termination
  by (relation "measure (\<lambda>(n, x, y). unat x)") (auto simp: u64_less_iff)

declare isqrt_loop.simps [simp del]

definition isqrt :: "u64 \<Rightarrow> u64" where
  "isqrt n = (if n = 0 then 0 else isqrt_loop n n (sat_add n 1 div 2))"

definition layer_a_scalar :: "u64 \<Rightarrow> u64 \<Rightarrow> u64" where
  "layer_a_scalar fast_ema slow_ema =
     (let ema = min (min fast_ema slow_ema) LAYER_A_SCALAR_DENOM
      in LAYER_A_SCALAR_MIN +
         (LAYER_A_SCALAR_MAX - LAYER_A_SCALAR_MIN) * ema div LAYER_A_SCALAR_DENOM)"

definition stake_weight :: "u64 \<Rightarrow> u64" where
  "stake_weight stake = (if stake < MIN_STAKE then 1 else max (min (isqrt (stake div MIN_STAKE)) 10) 1)"

definition sensor_score :: "u64 \<Rightarrow> string \<Rightarrow> u64" where
  "sensor_score reading_count sensor_type =
     (if sensor_type = ''continuous'' then isqrt (sat_mul reading_count 100)
      else if sensor_type = ''event'' then sat_mul (min reading_count 20) 100
      else if sensor_type = ''sampled'' then
        (let base = sat_mul (min reading_count 60) 30;
             extra = sat_mul (min (sat_sub reading_count 60) 940) 5
         in base + extra)
      else if sensor_type = ''pulse'' then
        (if reading_count = 0 then 0
         else sat_add 200 (sat_mul (min (sat_sub reading_count 1) 10) 10))
      else isqrt (sat_mul reading_count 10))"

definition mempool_relay_score :: "u64 \<Rightarrow> u64 \<Rightarrow> u64" where
  "mempool_relay_score entries_relayed latency_ms =
     sat_mul entries_relayed 1000 div max latency_ms 1"

definition hw_tier_weight :: "8 word \<Rightarrow> u64" where
  "hw_tier_weight tier =
     (if tier = 0 then 1 else if tier = 1 then 4 else if tier = 2 then 8
      else if tier = 3 then 16 else if tier = 4 then 32 else 1)"

definition to_ascii_lowercase :: "string \<Rightarrow> string" where
  "to_ascii_lowercase s =
     map (\<lambda>c. if 65 \<le> (of_char c :: nat) \<and> (of_char c :: nat) \<le> 90
              then char_of ((of_char c :: nat) + 32) else c) s"

definition contains :: "string \<Rightarrow> string \<Rightarrow> bool" where
  "contains s pat \<longleftrightarrow> list_ex (prefix pat) (suffixes s)"

definition model_weight :: "string \<Rightarrow> u64" where
  "model_weight model =
     (let m = to_ascii_lowercase model in
      if contains m ''0.5b'' then 1
      else if contains m ''1.5b'' \<or> contains m ''1b'' then 2
      else if contains m ''3b'' \<or> contains m ''3.8b'' \<or> contains m ''4b'' then 3
      else if contains m ''7b'' \<or> contains m ''8b'' then 6
      else if contains m ''13b'' \<or> contains m ''14b'' then 10
      else if contains m ''30b'' \<or> contains m ''32b'' \<or> contains m ''33b''
           \<or> contains m ''mixtral'' then 20
      else if contains m ''70b'' \<or> contains m ''72b'' then 40
      else 2)"

definition inference_score :: "u64 \<Rightarrow> 8 word \<Rightarrow> string \<Rightarrow> u64" where
  "inference_score output_tokens hw_tier model =
     sat_mul (sat_mul output_tokens (hw_tier_weight hw_tier)) (model_weight model)"

section \<open>Base fee\<close>

definition compute_next_base_fee :: "u64 \<Rightarrow> u64 \<Rightarrow> u64 \<Rightarrow> u64" where
  "compute_next_base_fee current actual_weight target_weight =
     (if target_weight = 0 then current
      else let (over, under) = (if actual_weight \<ge> target_weight
                                then (actual_weight - target_weight, 0)
                                else (0, target_weight - actual_weight));
               ratio_bps = (if over > 0
                 then word_of_nat (min (unat over * 10000 div unat target_weight) 10000)
                 else word_of_nat (min (unat under * 10000 div unat target_weight) 10000) :: u64);
               change = word_of_nat (unat current * unat ratio_bps div 100000);
               new_fee = (if actual_weight \<ge> target_weight then sat_add current change
                          else sat_sub current change)
           in min (max new_fee BASE_FEE_MIN_HUNITS) BASE_FEE_MAX_HUNITS)"

section \<open>Integer square root\<close>

lemma square_bound: "2 * k \<le> x + k * k div (x :: nat)" if "0 < x"
proof (cases "2 * k \<le> x")
  case True
  then show ?thesis by simp
next
  case False
  have "int ((2 * k - x) * x) \<le> int (k * k)"
  proof -
    have "0 \<le> (int k - int x) * (int k - int x)" by simp
    moreover have "int (2 * k - x) = 2 * int k - int x" using False by simp
    ultimately show ?thesis by (simp add: algebra_simps)
  qed
  then have "(2 * k - x) * x \<le> k * k" by (simp only: of_nat_le_iff)
  then have "(2 * k - x) * x div x \<le> k * k div x" by (rule div_le_mono)
  with that have "2 * k - x \<le> k * k div x" by simp
  then show ?thesis by linarith
qed

lemma root_small: "k * k \<le> unat (n :: u64) \<Longrightarrow> k < 2 ^ 32"
proof (rule ccontr)
  assume k: "k * k \<le> unat n" and "\<not> k < 2 ^ 32"
  then have "2 ^ 32 * 2 ^ 32 \<le> k * k" by (intro mult_le_mono) simp_all
  from order_trans [OF this k] have "18446744073709551616 \<le> unat n" by simp
  with unat_u64_less [of n] show False by linarith
qed

lemma newton_step_above:
  assumes "0 < x" and "k * k \<le> unat n" and "k \<le> unat x"
  shows "k \<le> unat (sat_add x (n div x) div 2)"
proof -
  have "0 < unat x" using assms(1) by (simp add: u64_less_iff)
  then have "2 * k \<le> unat x + k * k div unat x" by (rule square_bound)
  also have "\<dots> \<le> unat x + unat n div unat x"
    using assms(2) by (simp add: div_le_mono)
  finally have "2 * k \<le> min (unat x + unat n div unat x) (2 ^ 64 - 1)"
    using root_small [OF assms(2)] by simp
  then have "k \<le> min (unat x + unat n div unat x) (2 ^ 64 - 1) div 2" by linarith
  then show ?thesis by (simp add: unat_div_distrib unat_sat_add)
qed

lemma newton_stop:
  assumes "0 < x" and "\<not> sat_add x (n div x) div 2 < x"
  shows "unat x * unat x \<le> unat n"
proof -
  have pos: "0 < unat x" using assms(1) by (simp add: u64_less_iff)
  have "unat x \<le> min (unat x + unat n div unat x) (2 ^ 64 - 1) div 2"
    using assms(2) by (simp add: u64_less_iff unat_div_distrib unat_sat_add not_less)
  then have "unat x \<le> unat n div unat x" by linarith
  then have "unat x * unat x \<le> unat n div unat x * unat x" by simp
  also have "\<dots> \<le> unat n" by simp
  finally show ?thesis .
qed

definition isqrt_inv :: "u64 \<Rightarrow> u64 \<Rightarrow> u64 \<Rightarrow> bool" where
  "isqrt_inv n x y \<longleftrightarrow> 0 < x \<and> y = sat_add x (n div x) div 2 \<and> (\<forall>k. k * k \<le> unat n \<longrightarrow> k \<le> unat x)"

lemma isqrt_loop_correct:
  "isqrt_inv n x y \<Longrightarrow> 0 < n \<Longrightarrow>
    (\<forall>k. k * k \<le> unat n \<longrightarrow> k \<le> unat (isqrt_loop n x y)) \<and>
    unat (isqrt_loop n x y) * unat (isqrt_loop n x y) \<le> unat n"
proof (induction n x y rule: isqrt_loop.induct)
  case (1 n x y)
  show ?case
  proof (cases "y < x")
    case True
    have below: "k \<le> unat y" if "k * k \<le> unat n" for k
      using "1.prems"(1) that newton_step_above [of x k n] by (auto simp: isqrt_inv_def)
    have "1 \<le> unat y"
      using below [of 1] "1.prems"(2) by (simp add: u64_less_iff)
    then have "isqrt_inv n y (sat_add y (n div y) div 2)"
      using below by (simp add: isqrt_inv_def u64_less_iff)
    from "1.IH" [OF True this "1.prems"(2)] True show ?thesis
      by (simp add: isqrt_loop.simps [of n x y])
  next
    case False
    then have "isqrt_loop n x y = x" by (simp add: isqrt_loop.simps [of n x y])
    with False "1.prems" newton_stop [of x n] show ?thesis
      by (simp add: isqrt_inv_def)
  qed
qed

lemma isqrt_inv_start:
  assumes "0 < n"
  shows "isqrt_inv n n (sat_add n 1 div 2)"
proof -
  have "0 < unat n" using assms u64_less_iff [of 0 n] by simp
  then have "unat n div unat n = unat (1 :: u64)" by simp
  then have "unat (n div n) = unat (1 :: u64)" by (simp only: unat_div_distrib)
  then have one: "n div n = 1" by (rule word_unat_eq_iff [THEN iffD2])
  have "k \<le> unat n" if "k * k \<le> unat n" for k
    using that le_square [of k] by linarith
  with assms show ?thesis unfolding isqrt_inv_def one by blast
qed

lemma isqrt_spec:
  "unat (isqrt n) * unat (isqrt n) \<le> unat n \<and> (\<forall>k. k * k \<le> unat n \<longrightarrow> k \<le> unat (isqrt n))"
proof (cases "n = 0")
  case True
  then show ?thesis by (simp add: isqrt_def)
next
  case False
  then have pos: "0 < n" by (simp add: word_gt_0)
  from isqrt_loop_correct [OF isqrt_inv_start [OF pos] pos] False show ?thesis
    by (simp add: isqrt_def)
qed

lemma isqrt_mono: "a \<le> b \<Longrightarrow> isqrt a \<le> isqrt b"
  using isqrt_spec [of a] isqrt_spec [of b] by (auto simp: u64_le_iff)

lemma isqrt_le: "isqrt n \<le> n"
  using isqrt_spec [of n] le_square [of "unat (isqrt n)"] unfolding u64_le_iff by linarith

section \<open>Properties of the schedule\<close>

lemma unat_era: "unat (era epoch) = unat epoch div 4200000"
  by (simp add: era_def DOUBLING_INTERVAL_def unat_div_distrib)

lemma era_ge_iff: "RECYCLE_ERA \<le> era epoch \<longleftrightarrow> 21000000 \<le> unat epoch"
proof -
  have "5 \<le> unat epoch div 4200000 \<longleftrightarrow> 21000000 \<le> unat epoch" by linarith
  then show ?thesis by (simp add: u64_le_iff unat_era RECYCLE_ERA_def)
qed

lemma unat_era_shift: "unat (min (era epoch) RECYCLE_ERA) = min (unat epoch div 4200000) 5"
  by (simp add: min_def u64_le_iff unat_era RECYCLE_ERA_def)

lemma block_reward_before_cap:
  assumes "unat epoch < 21000000"
  shows "block_reward_at epoch = BLOCK_REWARD_HUNITS"
proof -
  have m: "unat (sat_mul epoch BLOCK_REWARD_HUNITS) = unat epoch * 20000000000"
    using assms by (simp add: unat_sat_mul BLOCK_REWARD_HUNITS_def)
  have "\<not> RECYCLE_ERA \<le> era epoch" using assms by (simp add: era_ge_iff)
  moreover have "\<not> SUPPLY_CAP_HUNITS \<le> sat_mul epoch BLOCK_REWARD_HUNITS"
    using assms m by (simp add: u64_le_iff SUPPLY_CAP_HUNITS_def)
  moreover have "BLOCK_REWARD_HUNITS \<le> SUPPLY_CAP_HUNITS - sat_mul epoch BLOCK_REWARD_HUNITS"
    using assms m calculation(2)
    by (simp add: u64_le_iff SUPPLY_CAP_HUNITS_def BLOCK_REWARD_HUNITS_def)
  ultimately show ?thesis by (simp add: block_reward_at_def Let_def)
qed

lemma block_reward_after_cap: "21000000 \<le> unat epoch \<Longrightarrow> block_reward_at epoch = 0"
  by (simp add: block_reward_at_def era_ge_iff)

section \<open>Correctness of the schedule\<close>

text \<open>(C34) The integer square root is exact for every \<open>u64\<close>: Newton's iteration with saturating
  addition ends at the largest \<open>r\<close> with \<open>r * r \<le> n\<close>.\<close>

theorem isqrt_floor:
  "unat (isqrt n) ^ 2 \<le> unat n \<and> unat n < (unat (isqrt n) + 1) ^ 2"
proof
  show "unat (isqrt n) ^ 2 \<le> unat n"
    using isqrt_spec [of n] by (simp add: power2_eq_square)
  show "unat n < (unat (isqrt n) + 1) ^ 2"
  proof (rule ccontr)
    assume "\<not> unat n < (unat (isqrt n) + 1) ^ 2"
    then have "(unat (isqrt n) + 1) * (unat (isqrt n) + 1) \<le> unat n"
      by (simp add: power2_eq_square)
    with isqrt_spec [of n] have "unat (isqrt n) + 1 \<le> unat (isqrt n)" by blast
    then show False by simp
  qed
qed

lemma sum_block_rewards:
  "(\<Sum>e < m. unat (block_reward_at (word_of_nat e))) = min m 21000000 * 20000000000"
  if "m \<le> 2 ^ 64" for m :: nat
  using that
proof (induction m)
  case 0
  then show ?case by simp
next
  case (Suc m)
  then have "unat (word_of_nat m :: u64) = m" by (simp add: unat_u64_of_nat)
  with Suc show ?case
    using block_reward_before_cap [of "word_of_nat m"] block_reward_after_cap [of "word_of_nat m"]
    by (cases "m < 21000000") (simp_all add: BLOCK_REWARD_HUNITS_def)
qed

text \<open>Supply: the block rewards of the epochs before \<open>n\<close> add up to \<open>n\<close> full rewards until the
  cap of 42 million HONE is reached, and to exactly the cap for ever after. No epoch mints past
  the cap and none of the cap is left unminted.\<close>

theorem block_rewards_sum_to_cap:
  "(\<Sum>e < unat (n :: u64). unat (block_reward_at (word_of_nat e)))
     = min (unat n * unat BLOCK_REWARD_HUNITS) (unat SUPPLY_CAP_HUNITS)"
  using sum_block_rewards [of "unat n"] unat_u64_less [of n]
  by (simp add: BLOCK_REWARD_HUNITS_def SUPPLY_CAP_HUNITS_def min_def del: unat_u64_less)

lemma unat_push_bit_era:
  "unat c \<le> 10000000 \<Longrightarrow>
    unat (push_bit (unat (min (era epoch) RECYCLE_ERA)) c) =
      unat c * 2 ^ min (unat epoch div 4200000) 5" for c :: u64
proof -
  assume c: "unat c \<le> 10000000"
  have "unat c * 2 ^ min (unat epoch div 4200000) 5 \<le> 10000000 * 2 ^ 5"
    using c by (intro mult_le_mono power_increasing) simp_all
  then show ?thesis
    unfolding unat_era_shift
    by (subst unsigned_push_bit_eq) (simp add: push_bit_nat_def take_bit_nat_eq_self_iff)
qed

text \<open>A clock node's income per unit of time is the same in every era: the reward per epoch and
  the epoch duration double together, so their ratio is the era-0 ratio for every epoch. The
  testnet reward keeps half the clock rate.\<close>

theorem clock_income_constant:
  "unat (clock_reward_at epoch) * unat INITIAL_EPOCH_MS
     = unat CLOCK_REWARD_HUNITS * unat (epoch_duration_ms epoch) \<and>
   2 * unat (testnet_reward_at epoch) = unat (clock_reward_at epoch)"
proof -
  have "unat (clock_reward_at epoch) = 10000000 * 2 ^ min (unat epoch div 4200000) 5"
    unfolding clock_reward_at_def Let_def
    by (subst unat_push_bit_era) (simp_all add: CLOCK_REWARD_HUNITS_def)
  moreover have "unat (testnet_reward_at epoch) = 5000000 * 2 ^ min (unat epoch div 4200000) 5"
    unfolding testnet_reward_at_def Let_def
    by (subst unat_push_bit_era) (simp_all add: TESTNET_REWARD_BASE_HUNITS_def)
  moreover have "unat (epoch_duration_ms epoch) = 30000 * 2 ^ min (unat epoch div 4200000) 5"
    unfolding epoch_duration_ms_def Let_def
    by (subst unat_push_bit_era) (simp_all add: INITIAL_EPOCH_MS_def)
  ultimately show ?thesis
    by (simp add: INITIAL_EPOCH_MS_def CLOCK_REWARD_HUNITS_def)
qed

section \<open>Correctness of the base fee\<close>

definition fee_change :: "u64 \<Rightarrow> u64 \<Rightarrow> u64 \<Rightarrow> nat" where
  "fee_change current actual target =
     unat current * min ((if target \<le> actual then unat actual - unat target
        else unat target - unat actual) * 10000 div unat target) 10000 div 100000"

lemma fee_change_tenth: "fee_change current actual target \<le> unat current div 10"
proof -
  have "unat current * min x 10000 div 100000 \<le> unat current * 10000 div 100000" for x
    by (intro div_le_mono mult_le_mono) simp_all
  also have "unat current * 10000 div 100000 = unat current div 10"
    using div_mult2_eq [of "unat current * 10000" 10000 10] by simp
  finally show ?thesis by (simp add: fee_change_def)
qed

lemma next_base_fee_eq:
  assumes "target \<noteq> 0" and "current \<le> BASE_FEE_MAX_HUNITS"
  shows "unat (compute_next_base_fee current actual target) =
    min (max (if target \<le> actual then unat current + fee_change current actual target
              else unat current - fee_change current actual target) 1000) 1000000000000"
proof -
  have cur: "unat current \<le> 1000000000000"
    using assms(2) by (simp add: u64_le_iff BASE_FEE_MAX_HUNITS_def)
  have small: "fee_change current actual target \<le> 100000000000"
    using fee_change_tenth [of current actual target] cur by linarith
  have ratio: "unat (word_of_nat (min x 10000) :: u64) = min x 10000" for x
    by (intro unat_u64_of_nat) simp
  have chg: "unat (word_of_nat (fee_change current actual target) :: u64)
      = fee_change current actual target"
    using small by (intro unat_u64_of_nat) simp
  have "compute_next_base_fee current actual target =
    min (max (if target \<le> actual
        then sat_add current (word_of_nat (fee_change current actual target))
        else sat_sub current (word_of_nat (fee_change current actual target)))
      BASE_FEE_MIN_HUNITS) BASE_FEE_MAX_HUNITS"
    using assms(1)
    by (auto simp: compute_next_base_fee_def Let_def fee_change_def ratio u64_less_iff u64_le_iff
        word_unat_eq_iff not_less split: if_splits)
  then show ?thesis
    using cur small
    by (auto simp: min_def max_def u64_le_iff unat_sat_add unat_sat_sub chg
        BASE_FEE_MIN_HUNITS_def BASE_FEE_MAX_HUNITS_def)
qed

text \<open>The base fee adjusts as its header promises: from a fee inside the allowed band the next
  fee is inside the band, moves by at most a tenth, does not fall when the epoch's weight is at or
  above target, does not rise when it is below, and is unchanged exactly at target.\<close>

theorem base_fee_step:
  assumes "target \<noteq> 0" and "BASE_FEE_MIN_HUNITS \<le> current" and "current \<le> BASE_FEE_MAX_HUNITS"
  shows "let fee = unat (compute_next_base_fee current actual target); old = unat current in
    1000 \<le> fee \<and> fee \<le> 1000000000000 \<and>
    fee \<le> old + old div 10 \<and> old - old div 10 \<le> fee \<and>
    (if actual = target then fee = old else if target < actual then old \<le> fee else fee \<le> old)"
proof -
  have cur: "1000 \<le> unat current" "unat current \<le> 1000000000000"
    using assms by (simp_all add: u64_le_iff BASE_FEE_MIN_HUNITS_def BASE_FEE_MAX_HUNITS_def)
  have at: "fee_change current actual target = 0" if "unat actual = unat target"
    using that by (simp add: fee_change_def u64_le_iff)
  show ?thesis
    using cur fee_change_tenth [of current actual target] at
    unfolding next_base_fee_eq [OF assms(1,3)] Let_def
    by (auto simp: u64_le_iff u64_less_iff word_unat_eq_iff min_def max_def)
qed

theorem base_fee_step_witness:
  "let fee = unat (compute_next_base_fee 10000000 2000 1000); old = unat (10000000 :: u64) in
    1000 \<le> fee \<and> fee \<le> 1000000000000 \<and>
    fee \<le> old + old div 10 \<and> old - old div 10 \<le> fee \<and> old \<le> fee"
  using base_fee_step [of 1000 10000000 2000]
  by (simp add: BASE_FEE_MIN_HUNITS_def BASE_FEE_MAX_HUNITS_def Let_def)

section \<open>Correctness of the scores\<close>

lemma sat_mul_mono: "a \<le> b \<Longrightarrow> sat_mul a c \<le> sat_mul b c"
  by (simp add: u64_le_iff unat_sat_mul min.coboundedI1 mult_le_mono1 min_le_iff_disj)

text \<open>More readings never score less, whatever the sensor type, and the capped types stay below
  their caps: 2000 for events, 6500 for sampled and 300 for pulse sensors.\<close>

theorem sensor_score_mono:
  assumes "a \<le> b"
  shows "sensor_score a ty \<le> sensor_score b ty \<and>
    (if ty = ''event'' then sensor_score b ty \<le> 2000
     else if ty = ''sampled'' then sensor_score b ty \<le> 6500
     else if ty = ''pulse'' then sensor_score b ty \<le> 300 else True)"
proof -
  have ab: "unat a \<le> unat b" using assms by (simp add: u64_le_iff)
  have ev: "unat (sat_mul (min n 20) 100) = min (unat n) 20 * 100" for n :: u64
    by (auto simp: unat_sat_mul min_def u64_le_iff)
  have sa: "unat (sat_mul (min n 60) 30 + sat_mul (min (sat_sub n 60) 940) 5)
      = min (unat n) 60 * 30 + min (unat n - 60) 940 * 5" for n :: u64
    by (subst unat_u64_add) (auto simp: unat_sat_mul unat_sat_sub min_def u64_le_iff)
  have pu: "unat (sat_add 200 (sat_mul (min (sat_sub n 1) 10) 10))
      = 200 + min (unat n - 1) 10 * 10" for n :: u64
    by (auto simp: unat_sat_add unat_sat_mul unat_sat_sub min_def u64_le_iff)
  have "sensor_score a ty \<le> sensor_score b ty"
    using ab isqrt_mono [OF sat_mul_mono [OF assms]]
    by (auto simp: sensor_score_def u64_le_iff ev sa pu Let_def word_unat_eq_iff)
  then show ?thesis
    by (auto simp: sensor_score_def u64_le_iff ev sa pu Let_def)
qed

theorem sensor_score_mono_witness:
  "sensor_score 12 ''pulse'' \<le> sensor_score 40 ''pulse'' \<and> sensor_score 40 ''pulse'' \<le> 300"
  using sensor_score_mono [of 12 40 "''pulse''"] by simp

text \<open>The Layer A scalar stays between 70 and 100 percent, grows with either average, and is 100
  percent exactly when both averages are at full health.\<close>

theorem layer_a_scalar_range:
  "7000 \<le> unat (layer_a_scalar f s) \<and> unat (layer_a_scalar f s) \<le> 10000 \<and>
   (layer_a_scalar f s = LAYER_A_SCALAR_MAX \<longleftrightarrow>
      LAYER_A_SCALAR_DENOM \<le> f \<and> LAYER_A_SCALAR_DENOM \<le> s)"
proof -
  define e where "e = min (min (unat f) (unat s)) 10000"
  have e: "unat (min (min f s) LAYER_A_SCALAR_DENOM) = e"
    by (auto simp: e_def min_def u64_le_iff LAYER_A_SCALAR_DENOM_def)
  have "e \<le> 10000" by (simp add: e_def)
  then have p: "unat (3000 * min (min f s) LAYER_A_SCALAR_DENOM) = 3000 * e"
    by (subst unat_u64_mult) (simp_all add: e)
  have "unat (layer_a_scalar f s) = 7000 + 3000 * e div 10000"
    unfolding layer_a_scalar_def Let_def
    using \<open>e \<le> 10000\<close> p
    by (subst unat_u64_add)
      (simp_all add: LAYER_A_SCALAR_MIN_def LAYER_A_SCALAR_MAX_def unat_div_distrib
        LAYER_A_SCALAR_DENOM_def)
  moreover have "3000 * e div 10000 = 3000 \<longleftrightarrow> e = 10000"
    using \<open>e \<le> 10000\<close> by linarith
  moreover have "e = 10000 \<longleftrightarrow> 10000 \<le> unat f \<and> 10000 \<le> unat s"
    by (auto simp: e_def min_def)
  ultimately show ?thesis
    using \<open>e \<le> 10000\<close>
    by (simp add: word_unat_eq_iff u64_le_iff LAYER_A_SCALAR_MAX_def LAYER_A_SCALAR_DENOM_def)
qed

lemma contains_append: "contains s (p @ q) \<Longrightarrow> contains s q"
proof -
  assume "contains s (p @ q)"
  then obtain u v where "s = u @ (p @ q) @ v"
    by (auto simp: contains_def list_ex_iff in_set_suffixes suffix_def prefix_def)
  then have "suffix (q @ v) s" by (simp add: suffix_def)
  then show ?thesis
    by (auto simp: contains_def list_ex_iff in_set_suffixes intro!: bexI [of _ "q @ v"])
qed

text \<open>The weight table never assigns the weight 10 meant for 13B and 14B models: their names
  also contain \<open>3b\<close> or \<open>4b\<close>, which an earlier branch catches with the weight of a 3B model.\<close>

theorem model_weight_13b_unreachable:
  "model_weight m \<noteq> 10 \<and> model_weight ''llama-13b'' = model_weight ''llama-3b''"
proof
  have "contains s ''13b'' \<Longrightarrow> contains s ''3b''" "contains s ''14b'' \<Longrightarrow> contains s ''4b''" for s
    using contains_append [of s "''1''"] by simp_all
  then show "model_weight m \<noteq> 10"
    by (auto simp: model_weight_def Let_def)
  show "model_weight ''llama-13b'' = model_weight ''llama-3b''"
    by code_simp
qed

end
