(* ===== verification/Consensus.thy ===== *)
theory Consensus
  imports Staking Emission
begin

text \<open>
  The consensus entries of \<open>apply_entry\<close> (\<open>src/chain.rs\<close>): epoch seals with the equivocation guard
  and the era calibration, finalisations with the fork choice between competing ones, the epoch
  status, registration and slashing of clock nodes, mining and the epoch rewards, and the pool of
  pending entries (\<open>push_pending\<close>, \<open>drain_pending_sorted\<close>).

  The fork choice is refined to an abstract one: competing finalisations are ordered heads (more
  quorum first, then the smaller hash) and the stored one is the greatest seen. The log lines of the
  source are not modelled.
\<close>

section \<open>Epoch seals\<close>

definition node_seal_key :: "u64 \<Rightarrow> string \<Rightarrow> string" where
  "node_seal_key epoch node_id = ''epoch_node_seal:'' @ show_u64 epoch @ '':'' @ node_id"

definition era_ms_key :: "u64 \<Rightarrow> string" where
  "era_ms_key e = ''chain_param:era_epoch_ms:'' @ show_u64 e"

text \<open>\<open>for e in new_era..RECYCLE_ERA\<close>: the calibrated duration, doubled for each later era.\<close>

definition store_era_durations :: "u64 \<Rightarrow> u64 \<Rightarrow> unit chain_act" where
  "store_era_durations new_era base_ms =
     each (\<lambda>k. state_set (era_ms_key (new_era + word_of_nat k)) (Json (JNum (push_bit k base_ms))))
       [0..<unat RECYCLE_ERA - unat new_era]"

definition calibrate_eras :: "env \<Rightarrow> u64 \<Rightarrow> u64 \<Rightarrow> unit chain_act" where
  "calibrate_eras E epoch timestamp =
    (let new_era = era epoch;
         prev_era = (if epoch > 0 then era (epoch - 1) else 0) in
     when_do (new_era > prev_era \<and> new_era < RECYCLE_ERA)
       (andThen (reads (\<lambda>s. case state_u64 E s ''chain_param:btc_end_ms'' of
            Some n \<Rightarrow> n | None \<Rightarrow> BTC_PROJECTED_END_MS)) (\<lambda>target_end_ms.
        store_era_durations new_era (calibrate_era_epoch_ms new_era timestamp target_end_ms))))"

text \<open>
  The keys of this record are written by this handler only, as text, and are read back as text.
  A second delivery of the same seal leaves the state alone.
\<close>

definition apply_EpochSeal :: "env \<Rightarrow> string \<Rightarrow> u64 \<Rightarrow> string \<Rightarrow> u64 \<Rightarrow> unit chain_act" where
  "apply_EpochSeal E node_id epoch seal_hash timestamp =
     andThen (reads (\<lambda>s. state_get s (node_seal_key epoch node_id))) (\<lambda>prior.
     case prior of
       Some v \<Rightarrow> ensure (as_utf8 E v = Some seal_hash) (Err ''equivocating EpochSeal'')
     | None \<Rightarrow>
         seq (state_set (node_seal_key epoch node_id) (Text seal_hash))
        (andThen (reads current_epoch) (\<lambda>cur.
         seq (when_do (epoch > cur)
               (seq (modify (\<lambda>s. s\<lparr>current_epoch := epoch\<rparr>))
                    (set_meta ''current_epoch'' (Le64 epoch))))
        (seq (state_set (''epoch_seal_hash:'' @ show_u64 epoch) (Text seal_hash))
             (calibrate_eras E epoch timestamp)))))"

definition epoch_duration_ms_dynamic :: "env \<Rightarrow> chain \<Rightarrow> u64 \<Rightarrow> u64" where
  "epoch_duration_ms_dynamic E s epoch =
     (case state_u64 E s (era_ms_key (era epoch)) of Some n \<Rightarrow> n | None \<Rightarrow> epoch_duration_ms epoch)"

definition epoch_start_ms_dynamic :: "env \<Rightarrow> chain \<Rightarrow> u64 \<Rightarrow> u64 \<Rightarrow> u64" where
  "epoch_start_ms_dynamic E s epoch genesis_ms =
    (if epoch = 0 then genesis_ms
     else
       let e = era epoch;
           ms = foldl (\<lambda>ms k.
                  let era_epoch_ms = (case state_u64 E s (era_ms_key (word_of_nat k)) of
                        Some n \<Rightarrow> n
                      | None \<Rightarrow> epoch_duration_ms (word_of_nat k * DOUBLING_INTERVAL))
                  in sat_add ms (sat_mul DOUBLING_INTERVAL era_epoch_ms)) genesis_ms [0..<unat e];
           epoch_in_era = epoch - e * DOUBLING_INTERVAL;
           cur_epoch_ms = (case state_u64 E s (era_ms_key e) of
                        Some n \<Rightarrow> n | None \<Rightarrow> epoch_duration_ms epoch)
       in sat_add ms (sat_mul epoch_in_era cur_epoch_ms))"

section \<open>Finalisation and fork choice\<close>

datatype head = Head (head_quorum: u64) (head_hash: string)

definition head_of_meta :: "json \<Rightarrow> head" where
  "head_of_meta j = Head (the_u64 j ''quorum'' 0) (the_str j ''rewards_hash'' [])"

definition finalize_meta ::
  "u64 \<Rightarrow> string \<Rightarrow> u64 \<Rightarrow> string \<Rightarrow> u64 \<Rightarrow> string list \<Rightarrow> json" where
  "finalize_meta epoch rewards_hash quorum state_root timestamp sealed_by = jobj [
     (''epoch'', JNum epoch), (''rewards_hash'', JStr rewards_hash), (''quorum'', JNum quorum),
     (''state_root'', JStr state_root), (''finalized_at'', JNum timestamp),
     (''finalized'', JBool True), (''sealed_by'', jstrs sealed_by)]"

definition fork_key :: "u64 \<Rightarrow> string" where
  "fork_key epoch = ''fork_evidence:'' @ show_u64 epoch"

text \<open>The handler returns \<open>False\<close> where the source leaves \<open>apply_entry\<close> early.\<close>

definition apply_EpochFinalize ::
  "u64 \<Rightarrow> string \<Rightarrow> u64 \<Rightarrow> string \<Rightarrow> u64 \<Rightarrow> string list \<Rightarrow> bool chain_act" where
  "apply_EpochFinalize epoch rewards_hash quorum state_root timestamp sealed_by =
    (let store_it = seq (set_epoch_meta epoch
           (finalize_meta epoch rewards_hash quorum state_root timestamp sealed_by)) (ret True) in
     andThen (reads (\<lambda>s. get_epoch_meta s epoch)) (\<lambda>existing.
     case existing of
       None \<Rightarrow> store_it
     | Some prev \<Rightarrow>
         let prev_hash = the_str prev ''rewards_hash'' [];
             prev_quorum = the_u64 prev ''quorum'' 0 in
         if prev_hash = rewards_hash then store_it
         else
           let new_wins = (quorum > prev_quorum \<or> (quorum = prev_quorum \<and> rewards_hash < prev_hash)) in
           seq (state_set (fork_key epoch) (Json (jobj [
                  (''epoch'', JNum epoch),
                  (''head_a'', jobj [(''rewards_hash'', JStr prev_hash), (''quorum'', JNum prev_quorum)]),
                  (''head_b'', jobj [(''rewards_hash'', JStr rewards_hash), (''quorum'', JNum quorum)]),
                  (''winner'', JStr (if new_wins then ''head_b'' else ''head_a''))])))
               (if new_wins then store_it else ret False)))"

definition has_block :: "chain \<Rightarrow> u64 \<Rightarrow> bool" where
  "has_block s epoch = is_some (kv_get (cf_blocks s) (rev (to_le epoch)))"

definition epoch_status :: "chain \<Rightarrow> u64 \<Rightarrow> string" where
  "epoch_status s epoch =
    (if is_some (state_get s (fork_key epoch)) then ''disputed''
     else if (case get_epoch_meta s epoch of
                Some meta \<Rightarrow> as_bool (jget meta ''finalized'') = Some True | None \<Rightarrow> False)
     then ''finalized''
     else if state_scan_prefix s (node_seal_key epoch []) \<noteq> [] \<or> has_block s epoch then ''sealed''
     else ''pending'')"

section \<open>Clock nodes\<close>

definition CLOCK_BOOTSTRAP_GRACE_END_EPOCH :: u64 where
  "CLOCK_BOOTSTRAP_GRACE_END_EPOCH = 100000"

definition clock_min_stake :: "env \<Rightarrow> chain \<Rightarrow> u64" where
  "clock_min_stake E s =
     (case state_u64 E s ''chain_param:clock_min_stake'' of Some n \<Rightarrow> n | None \<Rightarrow> 5 * 10000000000)"

definition clock_reg_key :: "string \<Rightarrow> string" where
  "clock_reg_key node_id = ''clock_reg:'' @ node_id"

definition reg_of :: "env \<Rightarrow> chain \<Rightarrow> string \<Rightarrow> json" where
  "reg_of E s node_id = (case state_json E s (clock_reg_key node_id) of Some j \<Rightarrow> j | None \<Rightarrow> JObj [])"

definition apply_ClockNodeRegister ::
  "env \<Rightarrow> string \<Rightarrow> u64 \<Rightarrow> u64 \<Rightarrow> string option \<Rightarrow> unit chain_act" where
  "apply_ClockNodeRegister E node_id stake epoch pubkey =
     andThen (reads (\<lambda>s. reg_of E s node_id)) (\<lambda>prev.
     let existing_stake = the_u64 prev ''stake'' 0 in
     andThen
       (if existing_stake = 0 then
          (if epoch \<le> CLOCK_BOOTSTRAP_GRACE_END_EPOCH then
             seq (when_do (stake > 0) (seq (debit node_id NATIVE_TOKEN stake) (ret ()))) (ret stake)
           else
             andThen (reads (clock_min_stake E)) (\<lambda>mn.
             seq (ensure (stake \<ge> mn) (Err ''stake is below minimum''))
            (seq (debit node_id NATIVE_TOKEN stake) (ret stake))))
        else ret existing_stake)
       (\<lambda>recorded_stake.
     let stored_pubkey = (case pubkey of Some p \<Rightarrow> Some p | None \<Rightarrow> as_str (jget prev ''pubkey'')) in
     seq (state_set (clock_reg_key node_id) (Json (jobj [
            (''node_id'', JStr node_id), (''stake'', JNum recorded_stake),
            (''registered_epoch'', JNum epoch), (''pubkey'', jopt_str stored_pubkey)])))
         (touch_alive E node_id epoch)))"

definition verify_clock_seal_sig ::
  "env \<Rightarrow> u64 \<Rightarrow> string \<Rightarrow> string \<Rightarrow> u64 \<Rightarrow> string \<Rightarrow> string \<Rightarrow> bool" where
  "verify_clock_seal_sig E epoch seal_hash node_id timestamp pubkey_hex sig_hex =
    (case hex_bytes E 32 pubkey_hex of
       None \<Rightarrow> False
     | Some vk \<Rightarrow>
        (case hex_bytes E 64 sig_hex of
           None \<Rightarrow> False
         | Some sig \<Rightarrow> ed25519_verify E vk
             (''seal:'' @ show_u64 epoch @ '':'' @ seal_hash @ '':'' @ node_id @ '':'' @ show_u64 timestamp)
             sig))"

definition slash_guard_key :: "string \<Rightarrow> u64 \<Rightarrow> string" where
  "slash_guard_key offender epoch = ''dbl_slash:'' @ offender @ '':'' @ show_u64 epoch"

definition apply_ClockDoubleSignEvidence ::
  "env \<Rightarrow> string \<Rightarrow> string \<Rightarrow> u64 \<Rightarrow> string \<Rightarrow> u64 \<Rightarrow> string \<Rightarrow> string \<Rightarrow> u64 \<Rightarrow> string \<Rightarrow> unit chain_act" where
  "apply_ClockDoubleSignEvidence E submitter offender epoch seal_hash_a timestamp_a sig_a
      seal_hash_b timestamp_b sig_b =
     seq (ensure (seal_hash_a \<noteq> seal_hash_b) (Err ''seal hashes must differ''))
    (andThen (reads (\<lambda>s. state_get s (slash_guard_key offender epoch))) (\<lambda>slash_guard.
     seq (ensure (slash_guard = None) (Err ''double-sign evidence already applied''))
    (andThen (reads (\<lambda>s. reg_of E s offender)) (\<lambda>reg.
     let reg_stake = the_u64 reg ''stake'' 0 in
     seq (ensure (reg_stake > 0) (Err ''offender has no registered stake''))
    (andThen (need (as_str (jget reg ''pubkey'')) (Err ''offender has no registered pubkey'')) (\<lambda>pubkey_hex.
     seq (ensure (verify_clock_seal_sig E epoch seal_hash_a offender timestamp_a pubkey_hex sig_a)
           (Err ''seal A signature invalid''))
    (seq (ensure (verify_clock_seal_sig E epoch seal_hash_b offender timestamp_b pubkey_hex sig_b)
           (Err ''seal B signature invalid''))
    (let submitter_cut = reg_stake div 10;
         legal_cut = reg_stake div 10;
         recycle_cut = reg_stake - submitter_cut - legal_cut in
     seq (credit submitter NATIVE_TOKEN submitter_cut)
    (seq (credit ''__legal__'' NATIVE_TOKEN legal_cut)
    (seq (credit ''__recycle_fund__'' NATIVE_TOKEN recycle_cut)
    (seq (state_set (clock_reg_key offender) (Json (jobj [
            (''node_id'', JStr offender), (''stake'', JNum 0), (''pubkey'', JStr pubkey_hex),
            (''slashed_epoch'', JNum epoch)])))
         (state_set (slash_guard_key offender epoch) (Text ''1'')))))))))))))"

section \<open>Rewards\<close>

definition apply_MineReward :: "env \<Rightarrow> string \<Rightarrow> u64 \<Rightarrow> u64 \<Rightarrow> unit chain_act" where
  "apply_MineReward E miner amount epoch =
     seq (ensure_account miner epoch)
    (seq (when_do (era epoch \<ge> RECYCLE_ERA)
           (seq (debit RECYCLE_FUND_ACCOUNT NATIVE_TOKEN amount) (ret ())))
    (andThen (distribute_role_backer_reward E ''miner'' miner amount) (\<lambda>node_credit.
     seq (credit miner NATIVE_TOKEN node_credit) (ret ()))))"

text \<open>The part of a clock reward that goes to the balance; the rest is built into the stake.\<close>

definition bootstrap_stake :: "env \<Rightarrow> string \<Rightarrow> u64 \<Rightarrow> u64 \<Rightarrow> u64 chain_act" where
  "bootstrap_stake E node_id node_credit epoch =
    (if epoch \<le> CLOCK_BOOTSTRAP_GRACE_END_EPOCH then
       andThen (reads (\<lambda>s. state_json E s (clock_reg_key node_id))) (\<lambda>found.
       case found of
         None \<Rightarrow> ret node_credit
       | Some reg \<Rightarrow>
           andThen (reads (clock_min_stake E)) (\<lambda>mn.
           let cur_stake = the_u64 reg ''stake'' 0 in
           if cur_stake < mn then
             let into_stake = min node_credit (mn - cur_stake);
                 new_stake = cur_stake + into_stake in
             andThen (with_fields reg [(''stake'', JNum new_stake)]) (\<lambda>reg'.
             seq (state_set (clock_reg_key node_id) (Json reg')) (ret (node_credit - into_stake)))
           else ret node_credit))
     else ret node_credit)"

definition apply_ClockReward :: "env \<Rightarrow> string \<Rightarrow> u64 \<Rightarrow> u64 \<Rightarrow> unit chain_act" where
  "apply_ClockReward E node_id amount epoch =
     seq (ensure_account node_id epoch)
    (andThen (distribute_role_backer_reward E ''clock'' node_id amount) (\<lambda>node_credit.
     andThen (bootstrap_stake E node_id node_credit epoch) (\<lambda>to_balance.
     when_do (to_balance > 0) (seq (credit node_id NATIVE_TOKEN to_balance) (ret ())))))"

definition TESTNET_FUND_ACCOUNT :: string where
  "TESTNET_FUND_ACCOUNT = ''__testnet_fund__''"

definition testnet_op_key :: "string \<Rightarrow> string \<Rightarrow> string" where
  "testnet_op_key account chain_id = ''testnet_op:'' @ account @ '':'' @ chain_id"

definition apply_TestnetOperatorRegister :: "string \<Rightarrow> string \<Rightarrow> string \<Rightarrow> u64 \<Rightarrow> unit chain_act" where
  "apply_TestnetOperatorRegister mainnet_account testnet_node_id testnet_chain_id epoch =
     seq (ensure_account mainnet_account epoch)
         (state_set (testnet_op_key mainnet_account testnet_chain_id) (Json (jobj [
            (''mainnet_account'', JStr mainnet_account), (''testnet_node_id'', JStr testnet_node_id),
            (''testnet_chain_id'', JStr testnet_chain_id), (''registered_epoch'', JNum epoch)])))"

definition apply_TestnetOperatorDeregister :: "string \<Rightarrow> string \<Rightarrow> unit chain_act" where
  "apply_TestnetOperatorDeregister mainnet_account testnet_chain_id =
     state_delete (testnet_op_key mainnet_account testnet_chain_id)"

definition apply_TestnetReward :: "string \<Rightarrow> u64 \<Rightarrow> u64 \<Rightarrow> unit chain_act" where
  "apply_TestnetReward mainnet_account amount epoch =
     seq (ensure_account mainnet_account epoch)
    (seq (attempt (debit TESTNET_FUND_ACCOUNT NATIVE_TOKEN amount))
    (seq (credit mainnet_account NATIVE_TOKEN amount) (ret ())))"

text \<open>\<open>StorageReward\<close>, \<open>SensorReward\<close>, \<open>VerifierReward\<close>, \<open>ServiceReward\<close>, \<open>MempoolReward\<close>.\<close>

definition apply_NodeReward :: "string \<Rightarrow> u64 \<Rightarrow> u64 \<Rightarrow> unit chain_act" where
  "apply_NodeReward node_id amount epoch =
     seq (ensure_account node_id epoch) (seq (credit node_id NATIVE_TOKEN amount) (ret ()))"

definition apply_GatewayRewardSplit :: "string \<Rightarrow> string \<Rightarrow> u64 \<Rightarrow> u64 \<Rightarrow> u64 \<Rightarrow> unit chain_act" where
  "apply_GatewayRewardSplit sensor_account gateway_account sensor_amount gateway_amount epoch =
     seq (ensure_account sensor_account epoch)
    (seq (ensure_account gateway_account epoch)
    (seq (credit sensor_account NATIVE_TOKEN sensor_amount)
    (seq (credit gateway_account NATIVE_TOKEN gateway_amount) (ret ()))))"

definition apply_ServiceHeartbeat :: "string \<Rightarrow> u64 \<Rightarrow> json \<Rightarrow> unit chain_act" where
  "apply_ServiceHeartbeat node_id epoch container_hours =
     seq (ensure_account node_id epoch)
         (state_set (''service_beat:'' @ show_u64 epoch @ '':'' @ node_id) (Json (jobj [
            (''node_id'', JStr node_id), (''epoch'', JNum epoch),
            (''container_hours'', container_hours)])))"

definition apply_InferenceVerifyClaim :: "string \<Rightarrow> string \<Rightarrow> u64 \<Rightarrow> unit chain_act" where
  "apply_InferenceVerifyClaim job_id verifier epoch =
     state_set (''verify_claim:'' @ job_id @ '':'' @ verifier) (Json (jobj [
       (''job_id'', JStr job_id), (''verifier'', JStr verifier), (''epoch'', JNum epoch)]))"

definition apply_SensorDataPurchase :: "string \<Rightarrow> string \<Rightarrow> u64 \<Rightarrow> u64 \<Rightarrow> unit chain_act" where
  "apply_SensorDataPurchase buyer owner fee epoch =
    (let owner_share = mul_div fee 80 100;
         recycle_share = sat_sub fee owner_share in
     seq (debit buyer NATIVE_TOKEN fee)
    (seq (ensure_account owner epoch)
    (seq (credit owner NATIVE_TOKEN owner_share)
         (when_do (recycle_share > 0)
           (seq (attempt (credit RECYCLE_FUND_ACCOUNT NATIVE_TOKEN recycle_share)) (ret ()))))))"

definition apply_MempoolOperatorRegister :: "string \<Rightarrow> u64 \<Rightarrow> u64 \<Rightarrow> unit chain_act" where
  "apply_MempoolOperatorRegister operator amount epoch =
     seq (ensure_account operator epoch)
    (seq (debit operator NATIVE_TOKEN amount)
         (state_set (''mempool_op:'' @ operator) (Json (jobj [
            (''operator'', JStr operator), (''stake'', JNum amount), (''registered_epoch'', JNum epoch)]))))"

definition apply_MempoolHeartbeat :: "string \<Rightarrow> u64 \<Rightarrow> u64 \<Rightarrow> u64 \<Rightarrow> unit chain_act" where
  "apply_MempoolHeartbeat operator epoch propagation_latency_ms entries_relayed =
     seq (ensure_account operator epoch)
         (state_set (''mempool_beat:'' @ show_u64 epoch @ '':'' @ operator) (Json (jobj [
            (''operator'', JStr operator), (''epoch'', JNum epoch),
            (''latency_ms'', JNum propagation_latency_ms), (''entries_relayed'', JNum entries_relayed)])))"

section \<open>The pool of pending entries\<close>

text \<open>The pool is generic in the entry; \<open>bytes\<close> is its JSON serialisation.\<close>

record 'e pool =
  pending :: "('e \<times> string option) list"
  seen_entries :: "string set"

definition push_pending :: "env \<Rightarrow> ('e \<Rightarrow> string) \<Rightarrow> 'e \<Rightarrow> string option \<Rightarrow> 'e pool \<Rightarrow> bool \<times> 'e pool" where
  "push_pending E bytes entry sig p =
    (let fingerprint = sha256 E (bytes entry) in
     if fingerprint \<in> seen_entries p then (False, p)
     else (True, p\<lparr>seen_entries := insert fingerprint (seen_entries p),
                  pending := pending p @ [(entry, sig)]\<rparr>))"

definition pending_count :: "'e pool \<Rightarrow> nat" where
  "pending_count p = length (pending p)"

definition drain_pending_sorted ::
  "env \<Rightarrow> ('e \<Rightarrow> string) \<Rightarrow> 'e pool \<Rightarrow> ('e \<times> string option) list \<times> 'e pool" where
  "drain_pending_sorted E bytes p =
     (sort_key (\<lambda>(e, _). sha256 E (bytes e)) (pending p), p\<lparr>pending := [], seen_entries := {}\<rparr>)"

section \<open>Fork choice\<close>

text \<open>Heads in the order of preference: more quorum, and among equals the smaller hash.\<close>

instantiation head :: linorder
begin

definition less_eq_head :: "head \<Rightarrow> head \<Rightarrow> bool" where
  "less_eq_head a b \<longleftrightarrow> head_quorum a < head_quorum b \<or>
     (head_quorum a = head_quorum b \<and> head_hash b \<le> head_hash a)"

definition less_head :: "head \<Rightarrow> head \<Rightarrow> bool" where
  "less_head a b \<longleftrightarrow> head_quorum a < head_quorum b \<or>
     (head_quorum a = head_quorum b \<and> head_hash b < head_hash a)"

instance
  by standard (auto simp: less_eq_head_def less_head_def head.expand)

end

lemma head_of_finalize_meta [simp]: "head_of_meta (finalize_meta e h q r t b) = Head q h"
  by (simp add: head_of_meta_def finalize_meta_def the_u64_def the_str_def)

definition final_head :: "chain \<Rightarrow> u64 \<Rightarrow> head option" where
  "final_head s epoch = map_option head_of_meta (get_epoch_meta s epoch)"

text \<open>A finalisation of one epoch: hash, quorum, state root, time and sealers.\<close>

type_synonym finalization = "string \<times> u64 \<times> string \<times> u64 \<times> string list"

definition finalize_step :: "u64 \<Rightarrow> finalization \<Rightarrow> unit chain_act" where
  "finalize_step epoch f = (case f of (h, q, root, t, by) \<Rightarrow>
     seq (apply_EpochFinalize epoch h q root t by) (ret ()))"

fun head_of :: "finalization \<Rightarrow> head" where
  "head_of (h, q, root, t, by) = Head q h"

definition choose_head :: "head option \<Rightarrow> head \<Rightarrow> head" where
  "choose_head old new = (case old of
     None \<Rightarrow> new | Some p \<Rightarrow> if head_hash p = head_hash new then new else max p new)"

lemma finalize_step_head:
  "\<exists>s'. finalize_step e f s = (Inr (), s') \<and> final_head s' e = Some (choose_head (final_head s e) (head_of f))"
proof -
  obtain h q root t b where f: "f = (h, q, root, t, b)"
    by (cases f)
  show ?thesis
  proof (cases "get_epoch_meta s e")
    case None
    then show ?thesis
      by (simp add: f finalize_step_def apply_EpochFinalize_def Let_def act_simps final_head_def choose_head_def
          get_epoch_meta_def set_epoch_meta_def)
  next
    case (Some prev)
    then show ?thesis
      by (auto simp: f finalize_step_def apply_EpochFinalize_def Let_def act_simps final_head_def choose_head_def
          get_epoch_meta_def set_epoch_meta_def state_set_def head_of_meta_def max_def less_eq_head_def
          the_u64_def the_str_def finalize_meta_def)
  qed
qed

lemma finalize_all_max:
  assumes "final_head s e = Some p" "\<forall>f \<in> set fs. head_hash (head_of f) = head_hash p \<longrightarrow> head_of f = p"
    and "\<forall>f \<in> set fs. \<forall>g \<in> set fs. head_hash (head_of f) = head_hash (head_of g) \<longrightarrow> head_of f = head_of g"
  shows "\<exists>s'. each (finalize_step e) fs s = (Inr (), s') \<and> final_head s' e = Some (Max (insert p (head_of ` set fs)))"
  using assms
proof (induction fs arbitrary: s p)
  case Nil
  then show ?case by (simp add: act_simps)
next
  case (Cons f fs)
  obtain s1 where s1: "finalize_step e f s = (Inr (), s1)"
    and h1: "final_head s1 e = Some (choose_head (final_head s e) (head_of f))"
    using finalize_step_head by blast
  have c: "choose_head (final_head s e) (head_of f) = max p (head_of f)"
    using Cons.prems by (auto simp: choose_head_def)
  have "\<forall>g \<in> set fs. head_hash (head_of g) = head_hash (max p (head_of f)) \<longrightarrow> head_of g = max p (head_of f)"
    using Cons.prems by (auto simp: max_def)
  with Cons.IH [of s1 "max p (head_of f)"] Cons.prems h1 c obtain s' where
    "each (finalize_step e) fs s1 = (Inr (), s')"
    "final_head s' e = Some (Max (insert (max p (head_of f)) (head_of ` set fs)))"
    by auto
  moreover have "Max (insert (max p (head_of f)) (head_of ` set fs)) = Max (insert p (head_of ` set (f # fs)))"
    by (cases "fs = []") (simp_all add: max.assoc)
  ultimately show ?case
    by (simp add: seq_apply s1)
qed

text \<open>
  (C18) Fork choice converges: whatever the order in which the competing finalisations of an epoch
  arrive, the one stored in the end is the greatest of them, by quorum and then by the smaller
  hash, when finalisations with the same hash report the same quorum.
\<close>

theorem fork_choice_converges:
  assumes "get_epoch_meta s e = None" and "fs \<noteq> []"
    and "\<forall>f \<in> set fs. \<forall>g \<in> set fs. head_hash (head_of f) = head_hash (head_of g) \<longrightarrow> head_of f = head_of g"
  shows "\<exists>s'. each (finalize_step e) fs s = (Inr (), s') \<and> final_head s' e = Some (Max (head_of ` set fs))"
proof -
  obtain f gs where fs: "fs = f # gs"
    using assms(2) by (cases fs) auto
  obtain s1 where s1: "finalize_step e f s = (Inr (), s1)" "final_head s1 e = Some (head_of f)"
    using finalize_step_head [of e f s] assms(1) by (auto simp: final_head_def choose_head_def)
  with finalize_all_max [of s1 e "head_of f" gs] assms(3) show ?thesis
    by (auto simp: fs seq_apply)
qed

theorem fork_choice_converges_witness:
  "\<exists>s'. each (finalize_step 7) [(''bb'', 3, ''r'', 1, []), (''aa'', 3, ''r'', 2, [])] empty_chain = (Inr (), s') \<and>
    final_head s' 7 = Some (Head 3 ''aa'')"
proof -
  have "Max (head_of ` set [(''bb'', 3, ''r'', 1, []), (''aa'', 3, ''r'', 2, [])]) = Head 3 ''aa''"
    by (simp add: max_def less_eq_head_def)
  with fork_choice_converges [of empty_chain 7 "[(''bb'', 3, ''r'', 1, []), (''aa'', 3, ''r'', 2, [])]"]
  show ?thesis
    by (simp add: get_epoch_meta_def empty_chain_def)
qed

text \<open>
  Without that condition the stored finalisation depends on the order: a re-delivery of the
  stored hash with a smaller quorum replaces the record instead of being skipped, so the same three
  finalisations in two orders leave two nodes with different heads.
\<close>

theorem fork_choice_redelivery_order:
  "\<exists>fs gs s1 s2. set fs = set gs \<and>
    each (finalize_step 7) fs empty_chain = (Inr (), s1) \<and>
    each (finalize_step 7) gs empty_chain = (Inr (), s2) \<and> final_head s1 7 \<noteq> final_head s2 7"
proof -
  let ?a = "(''aa'', 5, ''r'', 1, []) :: finalization"
  let ?b = "(''aa'', 2, ''r'', 2, []) :: finalization"
  let ?c = "(''bb'', 3, ''r'', 3, []) :: finalization"
  have e: "each (finalize_step 7) fs s = (Inr (), snd (each (finalize_step 7) fs s))" for fs s
  proof (induction fs arbitrary: s)
    case Nil
    then show ?case by (simp add: act_simps)
  next
    case (Cons f fs)
    obtain s1 where "finalize_step 7 f s = (Inr (), s1)"
      using finalize_step_head by blast
    with Cons [of s1] show ?case by (simp add: seq_apply)
  qed
  have h: "final_head (snd (each (finalize_step 7) [?a, ?b, ?c] empty_chain)) 7 = Some (Head 3 ''bb'')"
    "final_head (snd (each (finalize_step 7) [?b, ?a, ?c] empty_chain)) 7 = Some (Head 5 ''aa'')"
    by (simp_all add: finalize_step_def apply_EpochFinalize_def final_head_def get_epoch_meta_def
        set_epoch_meta_def state_set_def head_of_meta_def finalize_meta_def the_u64_def the_str_def
        Let_def empty_chain_def act_simps)
  show ?thesis
  proof (intro exI conjI)
    show "set [?a, ?b, ?c] = set [?b, ?a, ?c]" by auto
    show "each (finalize_step 7) [?a, ?b, ?c] empty_chain =
      (Inr (), snd (each (finalize_step 7) [?a, ?b, ?c] empty_chain))" by (rule e)
    show "each (finalize_step 7) [?b, ?a, ?c] empty_chain =
      (Inr (), snd (each (finalize_step 7) [?b, ?a, ?c] empty_chain))" by (rule e)
    show "final_head (snd (each (finalize_step 7) [?a, ?b, ?c] empty_chain)) 7 \<noteq>
      final_head (snd (each (finalize_step 7) [?b, ?a, ?c] empty_chain)) 7" by (simp only: h) simp
  qed
qed

section \<open>Seals\<close>

lemma keeps_meta_key_writes:
  "k \<noteq> k' \<Longrightarrow> keeps (\<lambda>s. state_get s k) (state_set k' v)"
  "k \<noteq> k' \<Longrightarrow> keeps (\<lambda>s. state_get s k) (state_delete k')"
  "k \<noteq> k' \<Longrightarrow> keeps (\<lambda>s. state_get s k) (set_meta k' v)"
  by (simp_all add: keeps_def state_set_def state_delete_def set_meta_def state_get_def act_simps)

lemma keeps_epoch_writes [keeps_intros]:
  "keeps current_epoch (state_set k v)" "keeps current_epoch (state_delete k)"
  "keeps current_epoch (set_meta k v)"
  by (simp_all add: keeps_def state_set_def state_delete_def set_meta_def act_simps)

lemma keeps_calibrate:
  "\<not> prefix ''chain_param:'' k \<Longrightarrow> keeps (\<lambda>s. state_get s k) (calibrate_eras E e t)"
  "keeps current_epoch (calibrate_eras E e t)"
  unfolding calibrate_eras_def store_era_durations_def
  by (intro keeps_intros keeps_meta_key_writes; auto simp: era_ms_key_def prefix_def)+

lemma calibrate_result: "\<exists>s'. calibrate_eras E e t s = (Inr (), s')"
proof -
  have "\<exists>s'. each (\<lambda>k. state_set (f k) (g k)) ks s = (Inr (), s')" for f g and ks :: "nat list" and s
    by (induction ks arbitrary: s) (simp_all add: act_simps state_set_def)
  then show ?thesis
    by (auto simp: calibrate_eras_def store_era_durations_def Let_def act_simps)
qed

text \<open>
  A clock node seals an epoch with one hash: the first seal is recorded and the node's epoch
  becomes the greater of the two, and after it a seal of the same node and epoch with another hash
  is refused and leaves the state as it is, while the same seal again changes nothing.
\<close>

theorem seal_not_equivocating:
  assumes "state_get s (node_seal_key e n) = None"
  shows "\<exists>s'. apply_EpochSeal E n e h t s = (Inr (), s') \<and>
    current_epoch s' = max (current_epoch s) e \<and>
    apply_EpochSeal E n e h t' s' = (Inr (), s') \<and>
    (\<forall>h' t'. h' \<noteq> h \<longrightarrow> apply_EpochSeal E n e h' t' s' = (Inl (Err ''equivocating EpochSeal''), s'))"
proof -
  let ?k = "node_seal_key e n"
  let ?s1 = "s\<lparr>cf_meta := kv_put ?k (Text h) (cf_meta s)\<rparr>"
  let ?s2 = "if e > current_epoch s
    then ?s1\<lparr>current_epoch := e, cf_meta := kv_put ''current_epoch'' (Le64 e) (cf_meta ?s1)\<rparr> else ?s1"
  let ?s3 = "?s2\<lparr>cf_meta := kv_put (''epoch_seal_hash:'' @ show_u64 e) (Text h) (cf_meta ?s2)\<rparr>"
  obtain s' where s': "calibrate_eras E e t ?s3 = (Inr (), s')"
    using calibrate_result by blast
  have run: "apply_EpochSeal E n e h t s = (Inr (), s')"
    using assms s' by (cases "e > current_epoch s")
      (simp_all add: apply_EpochSeal_def state_set_def set_meta_def act_simps)
  have "state_get s' ?k = state_get ?s3 ?k"
    by (rule keepsD [OF keeps_calibrate(1) s']) (simp add: node_seal_key_def)
  also have "\<dots> = Some (Text h)"
    by (simp add: state_get_def node_seal_key_def)
  finally have rec: "state_get s' ?k = Some (Text h)" .
  have "current_epoch s' = max (current_epoch s) e"
    using keepsD [OF keeps_calibrate(2) s'] by (cases "current_epoch s < e") (auto simp: max_def)
  with run rec show ?thesis
    by (simp add: apply_EpochSeal_def act_simps)
qed

theorem seal_not_equivocating_witness:
  "\<exists>s'. apply_EpochSeal demo_env ''n1'' 5 ''h1'' 0 empty_chain = (Inr (), s') \<and> current_epoch s' = 5 \<and>
    apply_EpochSeal demo_env ''n1'' 5 ''h2'' 0 s' = (Inl (Err ''equivocating EpochSeal''), s')"
proof -
  have "state_get empty_chain (node_seal_key 5 ''n1'') = None"
    by (simp add: state_get_def empty_chain_def)
  from seal_not_equivocating [OF this, of demo_env "''h1''" 0 0] show ?thesis
    by (auto simp: empty_chain_def)
qed

section \<open>Slashing a double signer\<close>

text \<open>Native balances plus the stakes of registered clocks.\<close>

definition clock_share :: "env \<Rightarrow> string \<Rightarrow> val \<Rightarrow> int" where
  "clock_share E k v =
     (if prefix ''clock_reg:'' k
      then (case as_json E v of Some j \<Rightarrow> uint (the_u64 j ''stake'' 0) | None \<Rightarrow> 0) else 0)"

definition clock_value :: "env \<Rightarrow> chain \<Rightarrow> int" where
  "clock_value E s = token_supply NATIVE_TOKEN s + kv_sum (clock_share E) (cf_meta s)"

lemma clock_value_put:
  "clock_value E (s\<lparr>cf_meta := kv_put k v (cf_meta s)\<rparr>) =
    clock_value E s + clock_share E k v - kv_at (clock_share E) (cf_meta s) k"
  by (simp add: clock_value_def token_supply_def kv_sum_put)

lemma clock_at_reg:
  "kv_at (clock_share E) (cf_meta s) (clock_reg_key n) = uint (the_u64 (reg_of E s n) ''stake'' 0)"
  by (auto simp: kv_at_def clock_share_def reg_of_def clock_reg_key_def state_json_def state_get_def
      the_u64_def jget_def split: option.split)

lemma keeps_clock_value:
  "\<not> prefix ''clock_reg:'' k \<Longrightarrow> keeps (clock_value E) (state_set k v)"
  "keeps (clock_value E) (ensure_account a e)"
  "keeps (clock_value E) (touch_alive E' a e)"
proof -
  show w: "\<not> prefix ''clock_reg:'' k \<Longrightarrow> keeps (clock_value E) (state_set k v)" for k v
    by (simp add: keeps_def state_set_def act_simps clock_value_put clock_share_def kv_at_def
        split: option.split)
  have "keeps cf_balances (ensure_account a e)" "keeps cf_meta (ensure_account a e)"
    by (intro keeps_intros)+
  then show "keeps (clock_value E) (ensure_account a e)"
    by (simp add: keeps_def clock_value_def token_supply_def)
  show "keeps (clock_value E) (touch_alive E' a e)"
    unfolding touch_alive_def set_alive_epoch_def by (intro keeps_intros w) simp
qed

lemma gains_clock_value:
  "gains (token_supply NATIVE_TOKEN) d m \<Longrightarrow> keeps cf_meta m \<Longrightarrow> gains (clock_value E) d m"
  by (fastforce simp: gains_def clock_value_def dest: keepsD)

interpretation clockv: value_ledger "clock_value E" "\<lambda>a. debit a NATIVE_TOKEN" "\<lambda>a. credit a NATIVE_TOKEN"
  for E
  by unfold_locales (intro gains_clock_value native.take_out_gains native.pay_in_gains keeps_intros)+

lemma slash_steps:
  assumes "apply_ClockDoubleSignEvidence E sub off e ha ta siga hb tb sigb s = (Inr (), s')"
  obtains n pk b1 s1 b2 s2 b3 s3 where "n = the_u64 (reg_of E s off) ''stake'' 0" "n > 0" "ha \<noteq> hb"
    "as_str (jget (reg_of E s off) ''pubkey'') = Some pk"
    "verify_clock_seal_sig E e ha off ta pk siga" "verify_clock_seal_sig E e hb off tb pk sigb"
    "credit sub NATIVE_TOKEN (n div 10) s = (Inr b1, s1)"
    "credit ''__legal__'' NATIVE_TOKEN (n div 10) s1 = (Inr b2, s2)"
    "credit ''__recycle_fund__'' NATIVE_TOKEN (n - n div 10 - n div 10) s2 = (Inr b3, s3)"
    "s' = s3\<lparr>cf_meta := kv_put (slash_guard_key off e) (Text ''1'') (kv_put (clock_reg_key off)
      (Json (jobj [(''node_id'', JStr off), (''stake'', JNum 0), (''pubkey'', JStr pk),
        (''slashed_epoch'', JNum e)])) (cf_meta s3))\<rparr>"
  using assms
  by (auto simp: apply_ClockDoubleSignEvidence_def Let_def handler_steps split: if_splits option.splits)

lemma slash_cuts:
  fixes n :: u64
  shows "uint (n div 10) + uint (n div 10) + uint (n - n div 10 - n div 10) = uint n"
proof -
  have d: "unat (n div 10) = unat n div 10"
    by (simp add: unat_div)
  have "n div 10 \<le> n" "n div 10 \<le> n - n div 10"
    using d by (simp_all add: u64_le_iff)
  then show ?thesis
    by (simp only: uint_u64_sub)
qed

text \<open>
  A double sign is slashed in full, once: evidence is accepted only with two different seal
  hashes that both verify under the offender's registered key; the registered stake is paid out
  exactly (a tenth to the submitter, a tenth to the legal fund, the rest to the recycle fund), is
  zero afterwards, and the same epoch cannot be slashed again.
\<close>

theorem double_sign_slashed_once:
  assumes run: "apply_ClockDoubleSignEvidence E sub off e ha ta siga hb tb sigb s = (Inr (), s')"
  shows "ha \<noteq> hb \<and>
    (\<exists>pk. as_str (jget (reg_of E s off) ''pubkey'') = Some pk \<and>
       verify_clock_seal_sig E e ha off ta pk siga \<and> verify_clock_seal_sig E e hb off tb pk sigb) \<and>
    clock_value E s' = clock_value E s \<and> the_u64 (reg_of E s' off) ''stake'' 0 = 0 \<and>
    (\<forall>sub' ha' ta' siga' hb' tb' sigb'. \<exists>err.
       apply_ClockDoubleSignEvidence E sub' off e ha' ta' siga' hb' tb' sigb' s' = (Inl err, s'))"
proof -
  from run obtain n pk b1 s1 b2 s2 b3 s3 where n: "n = the_u64 (reg_of E s off) ''stake'' 0"
    and ev: "ha \<noteq> hb" "as_str (jget (reg_of E s off) ''pubkey'') = Some pk"
      "verify_clock_seal_sig E e ha off ta pk siga" "verify_clock_seal_sig E e hb off tb pk sigb"
    and c: "credit sub NATIVE_TOKEN (n div 10) s = (Inr b1, s1)"
      "credit ''__legal__'' NATIVE_TOKEN (n div 10) s1 = (Inr b2, s2)"
      "credit ''__recycle_fund__'' NATIVE_TOKEN (n - n div 10 - n div 10) s2 = (Inr b3, s3)"
    and s': "s' = s3\<lparr>cf_meta := kv_put (slash_guard_key off e) (Text ''1'') (kv_put (clock_reg_key off)
      (Json (jobj [(''node_id'', JStr off), (''stake'', JNum 0), (''pubkey'', JStr pk),
        (''slashed_epoch'', JNum e)])) (cf_meta s3))\<rparr>"
    by (rule slash_steps)
  let ?r = "Json (jobj [(''node_id'', JStr off), (''stake'', JNum 0), (''pubkey'', JStr pk),
        (''slashed_epoch'', JNum e)])"
  let ?s4 = "s3\<lparr>cf_meta := kv_put (clock_reg_key off) ?r (cf_meta s3)\<rparr>"
  have m3: "cf_meta s3 = cf_meta s"
    using keepsD [OF keeps_credit(3) c(1)] keepsD [OF keeps_credit(3) c(2)] keepsD [OF keeps_credit(3) c(3)] by simp
  have "clock_value E s3 = clock_value E s + uint n"
    using gainsD [OF clockv.pay_in_gains c(1), of E] gainsD [OF clockv.pay_in_gains c(2), of E]
      gainsD [OF clockv.pay_in_gains c(3), of E] slash_cuts [of n] by simp
  moreover have "kv_at (clock_share E) (cf_meta s3) (clock_reg_key off) = uint n"
    unfolding m3 n by (rule clock_at_reg)
  ultimately have "clock_value E ?s4 = clock_value E s"
    by (simp add: clock_value_put clock_share_def the_u64_def)
  moreover have w: "state_set (slash_guard_key off e) (Text ''1'') ?s4 = (Inr (), s')"
    by (simp add: s' state_set_def act_simps)
  have "\<not> prefix ''clock_reg:'' (slash_guard_key off e)"
    by (simp add: slash_guard_key_def)
  from keepsD [OF keeps_clock_value(1) [OF this] w, of E]
  have "clock_value E s' = clock_value E ?s4" .
  ultimately have v: "clock_value E s' = clock_value E s"
    by simp
  have "clock_reg_key off \<noteq> slash_guard_key off e"
    by (simp add: clock_reg_key_def slash_guard_key_def)
  then have "reg_of E s' off = jobj [(''node_id'', JStr off), (''stake'', JNum 0), (''pubkey'', JStr pk),
      (''slashed_epoch'', JNum e)]"
    by (simp add: s' reg_of_def state_json_def state_get_def)
  moreover have "state_get s' (slash_guard_key off e) = Some (Text ''1'')"
    by (simp add: s' state_get_def)
  ultimately show ?thesis
    using ev v by (simp add: the_u64_def apply_ClockDoubleSignEvidence_def act_simps)
qed

section \<open>Rewards\<close>

lemma keeps_pay_backer [keeps_intros]:
  "keeps cf_meta (pay_backer n t b)" "keeps cf_stakes (pay_backer n t b)"
  "keeps cf_accounts (pay_backer n t b)"
  unfolding pay_backer_def Let_def by (intro keeps_intros)+

lemma keeps_distribute [keeps_intros]:
  "keeps cf_meta (distribute_role_backer_reward E role node n)"
  "keeps cf_stakes (distribute_role_backer_reward E role node n)"
  unfolding distribute_role_backer_reward_def Let_def by (intro keeps_intros)+

lemma stakers_keeps:
  "keeps cf_meta m \<Longrightarrow> m s = (r, s') \<Longrightarrow> stakers_under E s' p = stakers_under E s p"
  by (simp add: stakers_under_def state_scan_prefix_def keepsD [of cf_meta])

lemma distribute_supply:
  assumes "distribute_role_backer_reward E role node amount s = (Inr rest, s')"
    and "(\<Sum>b \<leftarrow> stakers_under E s (role_stake_key role node []). unat (snd b)) < 2 ^ 64"
  shows "token_supply NATIVE_TOKEN s' + uint rest \<le> token_supply NATIVE_TOKEN s + uint amount"
proof -
  let ?bs = "stakers_under E s (role_stake_key role node [])"
  let ?t = "sum_list (map snd ?bs)"
  from assms(1) show ?thesis
  proof (cases rule: distribute_outcomes)
    case 1
    then show ?thesis by simp
  next
    case (2 bps bt)
    have "bt \<le> amount"
      unfolding 2(2) u64_le_iff using 2(1) by (intro mul_div_le) (simp add: u64_le_iff)
    then have "uint rest = uint amount - uint bt"
      using 2(3) by (simp add: sat_sub_def)
    moreover have "(\<Sum>b \<leftarrow> ?bs. uint (mul_div bt (snd b) ?t)) \<le> int (unat bt)"
      unfolding uint_sum_list of_nat_le_iff by (rule payouts_le [OF assms(2)])
    ultimately show ?thesis
      using pay_backers_supply [of bt ?t ?bs s] 2(4) by auto
  qed
qed

text \<open>
  A mining reward mints at most its amount in the first five eras and nothing afterwards: in
  the recycle era the reward is taken from the recycle fund first, so the supply does not grow.
\<close>

theorem mine_reward_supply:
  assumes run: "apply_MineReward E miner amount epoch s = (Inr (), s')"
    and sum: "(\<Sum>b \<leftarrow> stakers_under E s (role_stake_key ''miner'' miner []). unat (snd b)) < 2 ^ 64"
  shows "token_supply NATIVE_TOKEN s' \<le>
    token_supply NATIVE_TOKEN s + (if era epoch \<ge> RECYCLE_ERA then 0 else uint amount)"
proof -
  let ?take = "when_do (era epoch \<ge> RECYCLE_ERA) (seq (debit RECYCLE_FUND_ACCOUNT NATIVE_TOKEN amount) (ret ()))"
  from run obtain s1 s2 rest s3 b where a: "ensure_account miner epoch s = (Inr (), s1)"
    and t: "?take s1 = (Inr (), s2)"
    and d: "distribute_role_backer_reward E ''miner'' miner amount s2 = (Inr rest, s3)"
    and c: "credit miner NATIVE_TOKEN rest s3 = (Inr b, s')"
    by (auto simp: apply_MineReward_def seq_Inr andThen_Inr ret_apply)
  have kt: "keeps cf_meta ?take"
    by (intro keeps_intros)
  have "gains (token_supply NATIVE_TOKEN) (if era epoch \<ge> RECYCLE_ERA then - uint amount else 0) ?take"
    by (rule gains_when_do) (simp_all add: gains_seq [OF native.take_out_gains gains_ret])
  from gainsD [OF this t] keepsD [OF keeps_token_supply [OF keeps_ensure_account(1)] a, of NATIVE_TOKEN]
  have "token_supply NATIVE_TOKEN s2 =
      token_supply NATIVE_TOKEN s + (if era epoch \<ge> RECYCLE_ERA then - uint amount else 0)"
    by simp
  moreover have "token_supply NATIVE_TOKEN s3 + uint rest \<le> token_supply NATIVE_TOKEN s2 + uint amount"
    using sum stakers_keeps [OF keeps_ensure_account(3) a] stakers_keeps [OF kt t]
    by (intro distribute_supply [OF d]) simp
  ultimately show ?thesis
    using gainsD [OF native.pay_in_gains c] by (simp split: if_splits)
qed

lemma demo_mine_reward:
  "apply_MineReward demo_env ''n1'' 50 1 demo_backed =
    (Inr (), snd (apply_MineReward demo_env ''n1'' 50 1 demo_backed))"
  by (simp add: apply_MineReward_def demo_backed_def demo_chain_def run_simps act_simps sat_sub_def
      era_def DOUBLING_INTERVAL_def RECYCLE_ERA_def)

theorem mine_reward_supply_witness:
  "token_supply NATIVE_TOKEN (snd (apply_MineReward demo_env ''n1'' 50 1 demo_backed)) \<le>
    token_supply NATIVE_TOKEN demo_backed + 50"
  using mine_reward_supply [OF demo_mine_reward]
  by (simp add: demo_backed_def demo_chain_def run_simps era_def DOUBLING_INTERVAL_def RECYCLE_ERA_def)

text \<open>The stake built up during the bootstrap grace is taken out of the reward, and stops at the minimum.\<close>

lemma bootstrap_stake_value:
  assumes run: "bootstrap_stake E n c e s = (Inr rest, s')"
  shows "clock_value E s' + uint rest = clock_value E s + uint c"
    and "unat (the_u64 (reg_of E s' n) ''stake'' 0) \<le>
      max (unat (the_u64 (reg_of E s n) ''stake'' 0)) (unat (clock_min_stake E s))"
proof -
  let ?k = "clock_reg_key n"
  have "clock_value E s' + uint rest = clock_value E s + uint c \<and>
    unat (the_u64 (reg_of E s' n) ''stake'' 0) \<le>
      max (unat (the_u64 (reg_of E s n) ''stake'' 0)) (unat (clock_min_stake E s))"
  proof (cases "e \<le> CLOCK_BOOTSTRAP_GRACE_END_EPOCH \<and> (\<exists>reg. state_json E s ?k = Some reg \<and>
      the_u64 reg ''stake'' 0 < clock_min_stake E s)")
    case False
    with run show ?thesis
      by (auto simp: bootstrap_stake_def Let_def act_simps split: if_splits option.splits)
  next
    case True
    then obtain reg where e: "e \<le> CLOCK_BOOTSTRAP_GRACE_END_EPOCH" and reg: "state_json E s ?k = Some reg"
      and lt: "the_u64 reg ''stake'' 0 < clock_min_stake E s"
      by blast
    let ?cur = "the_u64 reg ''stake'' 0"
    let ?into = "min c (clock_min_stake E s - ?cur)"
    from run e reg lt obtain reg' where reg': "jsets reg [(''stake'', JNum (?cur + ?into))] = Some reg'"
      and s': "s' = s\<lparr>cf_meta := kv_put ?k (Json reg') (cf_meta s)\<rparr>" and rest: "rest = c - ?into"
      by (auto simp: bootstrap_stake_def Let_def act_simps with_fields_def state_set_def
          simp del: jsets.simps split: if_splits option.splits)
    have new: "the_u64 reg' ''stake'' 0 = ?cur + ?into"
      using jsets_jfield [OF reg', of "''stake''"] by (simp add: the_u64_def jget_def)
    have le: "?cur \<le> clock_min_stake E s"
      using lt by simp
    have into: "unat ?into \<le> unat (clock_min_stake E s) - unat ?cur" "?into \<le> c"
      using unat_u64_sub [OF le] by (auto simp: min_def u64_le_iff)
    then have fit: "unat ?cur + unat ?into \<le> unat (clock_min_stake E s)"
      using le by (simp add: u64_le_iff)
    then have room: "unat ?cur + unat ?into < 2 ^ 64"
      by (rule le_less_trans) simp
    have old: "reg_of E s n = reg"
      using reg by (simp add: reg_of_def)
    have "reg_of E s' n = reg'"
      by (simp add: s' reg_of_def state_json_def state_get_def)
    then have "unat (the_u64 (reg_of E s' n) ''stake'' 0) \<le> unat (clock_min_stake E s)"
      using new fit by (simp add: unat_u64_add [OF room])
    moreover have "clock_value E s' = clock_value E s + uint ?into"
      using clock_at_reg [of E s n] unfolding s'
      by (simp add: clock_value_put clock_share_def clock_reg_key_def new old uint_u64_add [OF room])
    ultimately show ?thesis
      using rest uint_u64_sub [OF into(2)] by simp
  qed
  then show "clock_value E s' + uint rest = clock_value E s + uint c"
    and "unat (the_u64 (reg_of E s' n) ''stake'' 0) \<le>
      max (unat (the_u64 (reg_of E s n) ''stake'' 0)) (unat (clock_min_stake E s))"
    by blast+
qed

text \<open>
  A clock reward adds at most its amount to the balances and registered clock stakes together,
  and during the bootstrap grace the stake it builds up stops at the minimum stake.
\<close>

theorem clock_reward_value:
  assumes run: "apply_ClockReward E n amount e s = (Inr (), s')"
    and sum: "(\<Sum>b \<leftarrow> stakers_under E s (role_stake_key ''clock'' n []). unat (snd b)) < 2 ^ 64"
  shows "clock_value E s' \<le> clock_value E s + uint amount \<and>
    unat (the_u64 (reg_of E s' n) ''stake'' 0) \<le>
      max (unat (the_u64 (reg_of E s n) ''stake'' 0)) (unat (clock_min_stake E s))"
proof -
  let ?pay = "\<lambda>x. when_do (x > 0) (seq (credit n NATIVE_TOKEN x) (ret ()))"
  from run obtain s1 c s2 x s3 where a: "ensure_account n e s = (Inr (), s1)"
    and d: "distribute_role_backer_reward E ''clock'' n amount s1 = (Inr c, s2)"
    and b: "bootstrap_stake E n c e s2 = (Inr x, s3)" and p: "?pay x s3 = (Inr (), s')"
    by (auto simp: apply_ClockReward_def seq_Inr andThen_Inr)
  have m: "cf_meta s2 = cf_meta s"
    using keepsD [OF keeps_ensure_account(3) a] keepsD [OF keeps_distribute(1) d] by simp
  then have reg: "reg_of E s2 n = reg_of E s n" "clock_min_stake E s2 = clock_min_stake E s"
    by (simp_all add: reg_of_def clock_min_stake_def state_u64_def state_json_def state_get_def)
  have "token_supply NATIVE_TOKEN s2 + uint c \<le> token_supply NATIVE_TOKEN s1 + uint amount"
    using sum stakers_keeps [OF keeps_ensure_account(3) a] by (intro distribute_supply [OF d]) simp
  then have "clock_value E s2 + uint c \<le> clock_value E s + uint amount"
    using keepsD [OF keeps_token_supply [OF keeps_ensure_account(1)] a, of NATIVE_TOKEN] m
    by (simp add: clock_value_def)
  moreover have gp: "gains (clock_value E) (uint x) (?pay x)"
    by (rule gains_when_do) (auto simp: word_neq_0_conv [symmetric] intro: gains_seq [OF clockv.pay_in_gains gains_ret])
  moreover have km: "keeps cf_meta (?pay x)"
    by (intro keeps_intros)
  have "reg_of E s' n = reg_of E s3 n"
    using keepsD [OF km p] by (simp add: reg_of_def state_json_def state_get_def)
  ultimately show ?thesis
    using bootstrap_stake_value [OF b] gainsD [OF gp p] reg by simp
qed

text \<open>
  A testnet reward mints when the testnet fund cannot pay: the failed withdrawal is ignored
  and the account is credited all the same, so the supply grows by the whole amount.
\<close>

theorem testnet_reward_mints:
  assumes poor: "get_balance s TESTNET_FUND_ACCOUNT NATIVE_TOKEN < amount"
    and room: "unat (get_balance s a NATIVE_TOKEN) + unat amount < 2 ^ 64"
  shows "\<exists>s'. apply_TestnetReward a amount e s = (Inr (), s') \<and>
    token_supply NATIVE_TOKEN s' = token_supply NATIVE_TOKEN s + uint amount"
proof -
  obtain s1 where a: "ensure_account a e s = (Inr (), s1)"
    using ensure_account_result by blast
  note bal = get_balance_keeps [OF keeps_ensure_account(1) a]
  have "\<not> amount \<le> get_balance s1 TESTNET_FUND_ACCOUNT NATIVE_TOKEN"
    using poor bal by simp
  then have d: "attempt (debit TESTNET_FUND_ACCOUNT NATIVE_TOKEN amount) s1 = (Inr False, s1)"
    by (simp add: attempt_apply debit_cases)
  obtain b s2 where c: "credit a NATIVE_TOKEN amount s1 = (Inr b, s2)"
    using room bal by (simp add: credit_cases)
  have "apply_TestnetReward a amount e s = (Inr (), s2)"
    by (simp add: apply_TestnetReward_def seq_apply ret_apply a d c)
  then show ?thesis
    using gainsD [OF native.pay_in_gains c] keepsD [OF keeps_token_supply [OF keeps_ensure_account(1)] a]
    by simp
qed

theorem testnet_reward_mints_witness:
  "\<exists>s'. apply_TestnetReward ''bob'' 7 1 demo_chain = (Inr (), s') \<and>
    token_supply NATIVE_TOKEN s' = token_supply NATIVE_TOKEN demo_chain + 7"
  using testnet_reward_mints [of demo_chain 7 "''bob''" 1]
  by (simp add: demo_chain_def TESTNET_FUND_ACCOUNT_def run_simps)

section \<open>Witnesses for the clock properties\<close>

definition demo_clock :: chain where
  "demo_clock = demo_chain\<lparr>cf_meta := [(clock_reg_key ''n1'', Json (jobj [
     (''stake'', JNum 25), (''pubkey'', JStr demo_key)]))]\<rparr>"

lemmas clock_run_simps [run_simps] = reg_of_def clock_reg_key_def clock_min_stake_def
  verify_clock_seal_sig_def slash_guard_key_def bootstrap_stake_def CLOCK_BOOTSTRAP_GRACE_END_EPOCH_def

theorem double_sign_slashed_once_witness:
  "clock_value demo_env (snd (apply_ClockDoubleSignEvidence demo_env ''sub'' ''n1'' 5 ''ha'' 1 demo_sig ''hb'' 2 demo_sig
      demo_clock)) = clock_value demo_env demo_clock"
proof -
  have "apply_ClockDoubleSignEvidence demo_env ''sub'' ''n1'' 5 ''ha'' 1 demo_sig ''hb'' 2 demo_sig demo_clock =
    (Inr (), snd (apply_ClockDoubleSignEvidence demo_env ''sub'' ''n1'' 5 ''ha'' 1 demo_sig ''hb'' 2 demo_sig demo_clock))"
    by (simp add: apply_ClockDoubleSignEvidence_def demo_clock_def demo_chain_def run_simps act_simps
        the_u64_def) (simp add: demo_env_def)
  from double_sign_slashed_once [OF this] show ?thesis by blast
qed

theorem clock_reward_value_witness:
  "clock_value demo_env (snd (apply_ClockReward demo_env ''n1'' 40 5 demo_clock)) \<le> clock_value demo_env demo_clock + 40"
proof -
  have "apply_ClockReward demo_env ''n1'' 40 5 demo_clock =
    (Inr (), snd (apply_ClockReward demo_env ''n1'' 40 5 demo_clock))"
    by (simp add: apply_ClockReward_def demo_clock_def demo_chain_def run_simps act_simps)
  from clock_reward_value [OF this] show ?thesis
    by (simp add: demo_clock_def demo_chain_def run_simps)
qed

section \<open>The pending pool\<close>

definition fingerprint :: "env \<Rightarrow> ('e \<Rightarrow> string) \<Rightarrow> 'e \<Rightarrow> string" where
  "fingerprint E bytes e = sha256 E (bytes e)"

definition pool_inv :: "env \<Rightarrow> ('e \<Rightarrow> string) \<Rightarrow> 'e pool \<Rightarrow> bool" where
  "pool_inv E bytes p \<longleftrightarrow> distinct (map (fingerprint E bytes \<circ> fst) (pending p)) \<and>
     seen_entries p = set (map (fingerprint E bytes \<circ> fst) (pending p))"

definition empty_pool :: "'e pool" where
  "empty_pool = \<lparr>pending = [], seen_entries = {}\<rparr>"

definition push_all :: "env \<Rightarrow> ('e \<Rightarrow> string) \<Rightarrow> ('e \<times> string option) list \<Rightarrow> 'e pool \<Rightarrow> 'e pool" where
  "push_all E bytes es p = fold (\<lambda>(e, sig) p. snd (push_pending E bytes e sig p)) es p"

lemma push_pool_inv: "pool_inv E bytes p \<Longrightarrow> pool_inv E bytes (snd (push_pending E bytes e sig p))"
  by (auto simp: pool_inv_def push_pending_def fingerprint_def Let_def)

lemma push_entries:
  assumes "pool_inv E bytes p" and "inj_on (fingerprint E bytes) (insert e (fst ` set (pending p)))"
  shows "fst ` set (pending (snd (push_pending E bytes e sig p))) = insert e (fst ` set (pending p))"
proof (cases "fingerprint E bytes e \<in> seen_entries p")
  case True
  then obtain x where x: "x \<in> fst ` set (pending p)" "fingerprint E bytes e = fingerprint E bytes x"
    using assms(1) by (auto simp: pool_inv_def)
  then have "e = x"
    using assms(2) by (auto dest: inj_onD)
  with True x(1) show ?thesis
    by (auto simp: push_pending_def fingerprint_def)
next
  case False
  then show ?thesis
    by (auto simp: push_pending_def fingerprint_def Let_def)
qed

lemma push_all_pool:
  assumes "pool_inv E bytes p" and "inj_on (fingerprint E bytes) (fst ` set es \<union> fst ` set (pending p))"
  shows "pool_inv E bytes (push_all E bytes es p) \<and>
    fst ` set (pending (push_all E bytes es p)) = fst ` set es \<union> fst ` set (pending p)"
  using assms
proof (induction es arbitrary: p)
  case Nil
  then show ?case by (simp add: push_all_def)
next
  case (Cons x es)
  obtain e sig where x: "x = (e, sig)"
    by (cases x)
  let ?p = "snd (push_pending E bytes e sig p)"
  have "inj_on (fingerprint E bytes) (insert e (fst ` set (pending p)))"
    by (rule inj_on_subset [OF Cons.prems(2)]) (auto simp: x)
  note ent = push_entries [OF Cons.prems(1) this, of sig]
  have "inj_on (fingerprint E bytes) (fst ` set es \<union> fst ` set (pending ?p))"
    by (rule inj_on_subset [OF Cons.prems(2)]) (auto simp: x ent)
  from Cons.IH [OF push_pool_inv [OF Cons.prems(1)] this] ent show ?case
    by (simp add: push_all_def x)
qed

lemma drained_entries:
  assumes "pool_inv E bytes p"
  shows "sorted (map (fingerprint E bytes) (map fst (fst (drain_pending_sorted E bytes p))))"
    and "distinct (map (fingerprint E bytes) (map fst (fst (drain_pending_sorted E bytes p))))"
    and "set (map fst (fst (drain_pending_sorted E bytes p))) = fst ` set (pending p)"
proof -
  let ?k = "\<lambda>(e, _). sha256 E (bytes e)"
  have k: "?k = fingerprint E bytes \<circ> fst"
    by (auto simp: fingerprint_def)
  show "sorted (map (fingerprint E bytes) (map fst (fst (drain_pending_sorted E bytes p))))"
    using sorted_sort_key [of ?k "pending p"] by (simp add: drain_pending_sorted_def k o_def)
  have "distinct (map ?k (sort_key ?k (pending p)))"
    using assms unfolding pool_inv_def k distinct_map by (simp)
  then show "distinct (map (fingerprint E bytes) (map fst (fst (drain_pending_sorted E bytes p))))"
    by (simp add: drain_pending_sorted_def k)
  show "set (map fst (fst (drain_pending_sorted E bytes p))) = fst ` set (pending p)"
    by (simp add: drain_pending_sorted_def)
qed

text \<open>
  Two nodes that received the same entries, in whatever order and however often, drain them
  in the same order, when SHA-256 does not collide on these entries.
\<close>

theorem drain_order_agrees:
  assumes same: "fst ` set es = fst ` set fs" and inj: "inj_on (fingerprint E bytes) (fst ` set es)"
  shows "map fst (fst (drain_pending_sorted E bytes (push_all E bytes es empty_pool))) =
    map fst (fst (drain_pending_sorted E bytes (push_all E bytes fs empty_pool)))"
proof -
  have e: "pool_inv E bytes empty_pool" "fst ` set (pending (empty_pool :: 'a pool)) = {}"
    by (simp_all add: pool_inv_def empty_pool_def)
  let ?d = "\<lambda>xs. map fst (fst (drain_pending_sorted E bytes (push_all E bytes xs empty_pool)))"
  have p: "pool_inv E bytes (push_all E bytes xs empty_pool) \<and>
      fst ` set (pending (push_all E bytes xs empty_pool)) = fst ` set xs"
    if "fst ` set xs = fst ` set es" for xs
    using push_all_pool [OF e(1), of xs] e(2) that inj by simp
  note des = drained_entries [OF conjunct1 [OF p [OF refl]]]
  note dfs = drained_entries [OF conjunct1 [OF p [OF same [symmetric]]]]
  have sets: "set (?d es) = fst ` set es" "set (?d fs) = fst ` set es"
    using des(3) dfs(3) p [OF refl] p [OF same [symmetric]] same by simp_all
  have "set (map (fingerprint E bytes) (?d es)) = set (map (fingerprint E bytes) (?d fs))"
    unfolding set_map [of "fingerprint E bytes"] sets ..
  from sorted_distinct_set_unique [OF des(1,2) dfs(1,2) this]
  have "map (fingerprint E bytes) (?d es) = map (fingerprint E bytes) (?d fs)" .
  then show ?thesis
    by (rule map_inj_on) (use sets inj in simp)
qed

theorem drain_order_agrees_witness:
  "map fst (fst (drain_pending_sorted (demo_env\<lparr>sha256 := id\<rparr>) id
      (push_all (demo_env\<lparr>sha256 := id\<rparr>) id [(''b'', None), (''a'', None)] empty_pool))) =
   map fst (fst (drain_pending_sorted (demo_env\<lparr>sha256 := id\<rparr>) id
      (push_all (demo_env\<lparr>sha256 := id\<rparr>) id [(''a'', None), (''b'', None), (''a'', None)] empty_pool)))"
  by (rule drain_order_agrees) (auto simp: fingerprint_def)

end
