(* ===== verification/Clock.thy ===== *)
theory Clock
  imports Consensus "HOL-Library.AList" "HOL-Library.Log_Nat"
begin

text \<open>
  Clock consensus (\<open>src/clock.rs\<close>): the collection of epoch seals and their resolution (median
  timestamp, outliers, quorum, most common hash), the collection of reward proposals and their
  finalisation by quorum, the scores of clock nodes, isolation, the registered clock set and the
  hashes derived from an epoch.

  The state \<open>Inner\<close> is a record with its hash maps as association lists, whose order stands for
  the iteration order of the map; the events sent on the two broadcast channels are collected in
  two lists. Time is a parameter in milliseconds. The iteration order of the vote tally, the
  quorum of the environment variable \<open>HONE_CLOCK_QUORUM\<close> and the isolation flag are parameters in
  \<open>clock_cfg\<close>. The 51 percent threshold is computed in \<open>f64\<close>, and the model computes the same
  double: the product of the count with the double next to 0.51, rounded to 53 bits.

  The properties: any two quorums intersect, so two nodes never finalise different rewards for an
  epoch unless a registered clock voted twice; the signers of a sealed epoch are distinct voters
  for one hash; scores stay between 0 and 200; the registered set is sorted without repetition. Two
  results show where the code falls short of its comments: an epoch can be sealed on either of two
  hashes that no majority supports, and a slashed clock keeps its place through its pool stake.
\<close>

section \<open>The quorum threshold\<close>

text \<open>Rounding a natural number to a 53-bit significand, ties to even.\<close>

definition round53 :: "nat \<Rightarrow> nat" where
  "round53 p =
    (let shift = floorlog 2 p - 53;
         q = p div 2 ^ shift;
         r = p mod 2 ^ shift;
         up = (shift > 0 \<and> (r > 2 ^ (shift - 1) \<or> (r = 2 ^ (shift - 1) \<and> odd q)))
     in (if up then q + 1 else q) * 2 ^ shift)"

text \<open>
  \<open>(n as f64 * 0.51).ceil() as usize\<close>. The double written 0.51 is this significand over $2^{53}$;
  a length is below $2^{53}$, so its conversion is exact.
\<close>

definition MIN_QUORUM_FRACTION_significand :: nat where
  "MIN_QUORUM_FRACTION_significand = 4593671619917906"

definition quorum_fraction :: "nat \<Rightarrow> nat" where
  "quorum_fraction n = (round53 (n * MIN_QUORUM_FRACTION_significand) + (2 ^ 53 - 1)) div 2 ^ 53"

section \<open>State\<close>

definition SEAL_COLLECT_MS :: u64 where "SEAL_COLLECT_MS = 5000"
definition PEER_SEAL_WAIT_MS :: u64 where "PEER_SEAL_WAIT_MS = 20000"
definition OUTLIER_EPOCH_TOLERANCE :: u64 where "OUTLIER_EPOCH_TOLERANCE = 2"
definition EPOCH_MS :: u64 where "EPOCH_MS = 30000"
definition ISOLATION_EPOCH_THRESHOLD :: u64 where "ISOLATION_EPOCH_THRESHOLD = 3"
definition CONSENSUS_COLLECT_MS :: u64 where "CONSENSUS_COLLECT_MS = 10000"

record EpochSeal =
  seal_epoch :: u64
  seal_node :: string
  seal_time :: u64
  seal_hash :: string
  seal_signature :: "string option"
  seal_pubkey :: "string option"

record SealedEpoch =
  sealed_epoch :: u64
  sealed_ok :: bool
  sealed_quorum :: nat
  total_clocks :: nat
  outlier_seals :: nat
  winner_seal :: "EpochSeal option"
  signing_clocks :: "string list"

record RewardProposal =
  prop_epoch :: u64
  prop_node :: string
  prop_hash :: string

record FinalizedEpoch =
  final_epoch :: u64
  final_hash :: string
  final_quorum :: nat

record ClockScore =
  score :: int
  outlier_count :: nat
  total_seals :: nat
  last_seen_ms :: u64

record EpochState =
  seals :: "EpochSeal list"
  resolved :: bool
  winner :: "EpochSeal option"
  deadline :: u64
  peer_fallback_deadline :: "u64 option"

record RewardState =
  proposals :: "RewardProposal list"
  finalized :: bool
  reward_deadline :: u64

record Inner =
  epoch_states :: "(u64 \<times> EpochState) list"
  reward_states :: "(u64 \<times> RewardState) list"
  clock_scores :: "(string \<times> ClockScore) list"
  external_peer_count :: nat
  last_external_peer_epoch :: u64
  clock_epoch :: u64
  observer_mode :: bool
  registered_clocks :: "string list"
  sealed_tx :: "SealedEpoch list"
  finalized_tx :: "FinalizedEpoch list"

record clock_cfg =
  clock_quorum :: nat
  bootstrap_isolation :: bool
  tally_order :: "(string \<times> nat) list \<Rightarrow> (string \<times> nat) list"

definition new_inner :: Inner where
  "new_inner = \<lparr>epoch_states = [], reward_states = [], clock_scores = [], external_peer_count = 0,
     last_external_peer_epoch = 0, clock_epoch = 0, observer_mode = False, registered_clocks = [],
     sealed_tx = [], finalized_tx = []\<rparr>"

definition new_epoch_state :: "u64 \<Rightarrow> EpochState" where
  "new_epoch_state now = \<lparr>seals = [], resolved = False, winner = None, deadline = now + SEAL_COLLECT_MS,
     peer_fallback_deadline = None\<rparr>"

definition new_reward_state :: "u64 \<Rightarrow> RewardState" where
  "new_reward_state now = \<lparr>proposals = [], finalized = False,
     reward_deadline = now + CONSENSUS_COLLECT_MS\<rparr>"

section \<open>Votes\<close>

text \<open>The tally of a vote, in the order the map is iterated, and \<open>max_by_key\<close>: the last maximum.\<close>

definition tally :: "clock_cfg \<Rightarrow> string list \<Rightarrow> (string \<times> nat) list" where
  "tally C hs = tally_order C (map (\<lambda>h. (h, count_list hs h)) (remdups hs))"

definition max_by_count :: "(string \<times> nat) list \<Rightarrow> (string \<times> nat) option" where
  "max_by_count xs = foldl (\<lambda>best x. case best of
       None \<Rightarrow> Some x | Some b \<Rightarrow> if snd x \<ge> snd b then Some x else Some b) None xs"

definition reward_vote ::
  "clock_cfg \<Rightarrow> string list \<Rightarrow> RewardProposal list \<Rightarrow> (string \<times> nat) option" where
  "reward_vote C reg props =
    (let valid_proposals = (if reg = [] then props else filter (\<lambda>p. prop_node p \<in> set reg) props);
         denominator = (if reg = [] then length props else length reg);
         quorum_needed = max (quorum_fraction denominator) (clock_quorum C)
     in case max_by_count (tally C (map prop_hash valid_proposals)) of
          Some (best_hash, n) \<Rightarrow> if n \<ge> quorum_needed then Some (best_hash, n) else None
        | None \<Rightarrow> None)"

definition receive_reward_proposal :: "clock_cfg \<Rightarrow> u64 \<Rightarrow> RewardProposal \<Rightarrow> Inner \<Rightarrow> Inner" where
  "receive_reward_proposal C now proposal inner =
    (let epoch = prop_epoch proposal;
         reg = registered_clocks inner;
         state = (case map_of (reward_states inner) epoch of
                    Some st \<Rightarrow> st | None \<Rightarrow> new_reward_state now)
     in if finalized state then inner\<lparr>reward_states := AList.update epoch state (reward_states inner)\<rparr>
        else
          let props = (if list_ex (\<lambda>p. prop_node p = prop_node proposal) (proposals state)
                       then proposals state else proposals state @ [proposal])
          in case reward_vote C reg props of
               None \<Rightarrow> inner\<lparr>reward_states :=
                   AList.update epoch (state\<lparr>proposals := props\<rparr>) (reward_states inner)\<rparr>
             | Some (best_hash, n) \<Rightarrow>
                 inner\<lparr>reward_states := AList.update epoch
                     (state\<lparr>proposals := props, finalized := True\<rparr>) (reward_states inner),
                   finalized_tx := finalized_tx inner @
                     [\<lparr>final_epoch = epoch, final_hash = best_hash, final_quorum = n\<rparr>]\<rparr>)"

section \<open>Scores\<close>

definition update_clock_score :: "u64 \<Rightarrow> string \<Rightarrow> bool \<Rightarrow> Inner \<Rightarrow> Inner" where
  "update_clock_score now_ms node_id agreed inner =
    (let s = (case map_of (clock_scores inner) node_id of
           Some s \<Rightarrow> s
         | None \<Rightarrow> \<lparr>score = 100, outlier_count = 0, total_seals = 0, last_seen_ms = 0\<rparr>);
         s1 = s\<lparr>total_seals := total_seals s + 1, last_seen_ms := now_ms\<rparr>;
         s2 = (if agreed then s1\<lparr>score := min (score s1 + 2) 200\<rparr>
               else s1\<lparr>outlier_count := outlier_count s1 + 1, score := max (score s1 - 10) 0\<rparr>)
     in inner\<lparr>clock_scores := AList.update node_id s2 (clock_scores inner)\<rparr>)"

definition score_all :: "u64 \<Rightarrow> bool \<Rightarrow> EpochSeal list \<Rightarrow> Inner \<Rightarrow> Inner" where
  "score_all now_ms agreed ss inner =
     fold (\<lambda>s. update_clock_score now_ms (seal_node s) agreed) ss inner"

section \<open>Seals\<close>

definition verify_seal_signature :: "env \<Rightarrow> EpochSeal \<Rightarrow> string \<Rightarrow> string \<Rightarrow> bool" where
  "verify_seal_signature E seal pubkey_hex sig_hex =
     verify_clock_seal_sig E (seal_epoch seal) (seal_hash seal) (seal_node seal) (seal_time seal)
       pubkey_hex sig_hex"

text \<open>A parsed seal; a message that does not parse is dropped before this point.\<close>

definition seal_acceptable :: "env \<Rightarrow> EpochSeal \<Rightarrow> bool" where
  "seal_acceptable E parsed =
    (case seal_signature parsed of
       None \<Rightarrow> True
     | Some sig_hex \<Rightarrow>
        (case (case seal_pubkey parsed of
                 Some k \<Rightarrow> Some k
               | None \<Rightarrow> if length (seal_node parsed) = 64 then Some (seal_node parsed) else None) of
           None \<Rightarrow> True
         | Some kh \<Rightarrow> verify_seal_signature E parsed kh sig_hex))"

definition receive_seal :: "env \<Rightarrow> u64 \<Rightarrow> EpochSeal \<Rightarrow> Inner \<Rightarrow> Inner" where
  "receive_seal E now parsed inner =
    (if \<not> seal_acceptable E parsed then inner
     else
       let epoch = seal_epoch parsed;
           state = (case map_of (epoch_states inner) epoch of
                      Some st \<Rightarrow> st | None \<Rightarrow> new_epoch_state now);
           state' = (if resolved state \<or> list_ex (\<lambda>s. seal_node s = seal_node parsed) (seals state)
                     then state else state\<lparr>seals := seals state @ [parsed]\<rparr>)
       in inner\<lparr>epoch_states := AList.update epoch state' (epoch_states inner)\<rparr>)"

definition ensure_epoch_tracked :: "u64 \<Rightarrow> u64 \<Rightarrow> Inner \<Rightarrow> Inner" where
  "ensure_epoch_tracked now epoch inner =
    (case map_of (epoch_states inner) epoch of
       Some _ \<Rightarrow> inner
     | None \<Rightarrow> inner\<lparr>epoch_states := AList.update epoch (new_epoch_state now) (epoch_states inner)\<rparr>)"

definition set_current_epoch :: "u64 \<Rightarrow> Inner \<Rightarrow> Inner" where
  "set_current_epoch epoch inner = inner\<lparr>clock_epoch := epoch\<rparr>"

definition set_registered_clocks :: "string list \<Rightarrow> Inner \<Rightarrow> Inner" where
  "set_registered_clocks nodes inner = inner\<lparr>registered_clocks := nodes\<rparr>"

definition update_peers :: "nat \<Rightarrow> Inner \<Rightarrow> Inner" where
  "update_peers n inner =
    (let i1 = inner\<lparr>external_peer_count := n\<rparr>;
         i2 = (if n > 0 then i1\<lparr>last_external_peer_epoch := clock_epoch i1\<rparr> else i1);
         isolated = (external_peer_count i2 = 0 \<and>
           sat_sub (clock_epoch i2) (last_external_peer_epoch i2) > ISOLATION_EPOCH_THRESHOLD)
     in if isolated \<noteq> observer_mode i2 then i2\<lparr>observer_mode := isolated\<rparr> else i2)"

text \<open>\<open>(a as i64 - b as i64).unsigned_abs()\<close>: the subtraction wraps.\<close>

definition abs_diff :: "u64 \<Rightarrow> u64 \<Rightarrow> u64" where
  "abs_diff a b = (let d = a - b in if sint d < 0 then - d else d)"

definition median_time :: "EpochSeal list \<Rightarrow> u64" where
  "median_time ss = (let ts = sort (map seal_time ss) in ts ! (length ts div 2))"

definition is_inlier :: "EpochSeal list \<Rightarrow> EpochSeal \<Rightarrow> bool" where
  "is_inlier ss s = (abs_diff (seal_time s) (median_time ss) \<le> OUTLIER_EPOCH_TOLERANCE * EPOCH_MS)"

definition voting_inliers :: "Inner \<Rightarrow> EpochSeal list \<Rightarrow> EpochSeal list" where
  "voting_inliers inner ss =
    (let inliers = filter (is_inlier ss) ss
     in if registered_clocks inner = [] then inliers
        else filter (\<lambda>s. seal_node s \<in> set (registered_clocks inner)) inliers)"

definition seal_quorum_needed :: "Inner \<Rightarrow> EpochSeal list \<Rightarrow> nat" where
  "seal_quorum_needed inner ss =
     max 1 (quorum_fraction (if registered_clocks inner = [] then length ss
                             else length (registered_clocks inner)))"

definition winner_hash :: "clock_cfg \<Rightarrow> EpochSeal list \<Rightarrow> string" where
  "winner_hash C voters =
     (case max_by_count (tally C (map seal_hash voters)) of Some (h, _) \<Rightarrow> h | None \<Rightarrow> [])"

text \<open>The branch of two or more seals; \<open>None\<close> as the event is the early return without quorum.\<close>

definition resolve_quorum ::
  "clock_cfg \<Rightarrow> u64 \<Rightarrow> u64 \<Rightarrow> EpochSeal list \<Rightarrow> Inner \<Rightarrow> Inner \<times> SealedEpoch option" where
  "resolve_quorum C now epoch ss inner =
    (let outliers = filter (\<lambda>s. \<not> is_inlier ss s) ss;
         i1 = score_all now False outliers inner;
         voters = voting_inliers inner ss
     in if length voters < seal_quorum_needed inner ss then (i1, None)
        else
          let wh = winner_hash C voters;
              winner_seals = filter (\<lambda>s. seal_hash s = wh) voters;
              i2 = score_all now True winner_seals i1;
              i3 = score_all now False (filter (\<lambda>s. seal_hash s \<noteq> wh) voters) i2;
              i4 = score_all now False outliers i3
          in (i4, Some \<lparr>sealed_epoch = epoch, sealed_ok = True, sealed_quorum = length winner_seals,
                total_clocks = length ss, outlier_seals = length outliers,
                winner_seal = Some (winner_seals ! 0), signing_clocks = map seal_node winner_seals\<rparr>))"

definition mark_resolved :: "u64 \<Rightarrow> Inner \<Rightarrow> Inner" where
  "mark_resolved epoch inner =
    (case map_of (epoch_states inner) epoch of
       Some st \<Rightarrow> inner\<lparr>epoch_states := AList.update epoch (st\<lparr>resolved := True\<rparr>) (epoch_states inner)\<rparr>
     | None \<Rightarrow> inner)"

text \<open>A final decision: mark, drop states more than twenty epochs behind, send the event.\<close>

definition finish_epoch :: "u64 \<Rightarrow> SealedEpoch \<Rightarrow> Inner \<Rightarrow> Inner" where
  "finish_epoch epoch event inner =
    (let i1 = mark_resolved epoch inner
     in i1\<lparr>epoch_states := filter (\<lambda>(e, _). e + 20 \<ge> epoch) (epoch_states i1),
           sealed_tx := sealed_tx i1 @ [event]\<rparr>)"

definition single_seal :: "u64 \<Rightarrow> nat \<Rightarrow> EpochSeal \<Rightarrow> SealedEpoch" where
  "single_seal epoch n seal = \<lparr>sealed_epoch = epoch, sealed_ok = True, sealed_quorum = 1,
     total_clocks = n, outlier_seals = 0, winner_seal = Some seal, signing_clocks = [seal_node seal]\<rparr>"

definition bootstrap_master :: string where
  "bootstrap_master = ''shindevlin''"

definition bootstrap_seal :: "clock_cfg \<Rightarrow> Inner \<Rightarrow> EpochSeal list \<Rightarrow> EpochSeal option" where
  "bootstrap_seal C inner ss =
    (if bootstrap_isolation C \<or> (registered_clocks inner = [] \<and> external_peer_count inner = 0)
     then find (\<lambda>s. seal_node s = bootstrap_master) ss else None)"

definition resolve_epoch :: "clock_cfg \<Rightarrow> u64 \<Rightarrow> u64 \<Rightarrow> Inner \<Rightarrow> Inner" where
  "resolve_epoch C now epoch inner =
    (case map_of (epoch_states inner) epoch of
       None \<Rightarrow> inner
     | Some st \<Rightarrow>
        if resolved st then inner
        else
          let ss = seals st in
          case bootstrap_seal C inner ss of
            Some master_seal \<Rightarrow>
              finish_epoch epoch (single_seal epoch (length ss) master_seal)
                (update_clock_score now bootstrap_master True inner)
          | None \<Rightarrow>
              if ss = [] then
                finish_epoch epoch \<lparr>sealed_epoch = epoch, sealed_ok = False, sealed_quorum = 0,
                  total_clocks = 0, outlier_seals = 0, winner_seal = None, signing_clocks = []\<rparr> inner
              else if length ss = 1 then
                let fallback = (case peer_fallback_deadline st of
                      Some f \<Rightarrow> f | None \<Rightarrow> now + PEER_SEAL_WAIT_MS);
                    i1 = (if external_peer_count inner > 0
                          then inner\<lparr>epoch_states := AList.update epoch
                                 (st\<lparr>peer_fallback_deadline := Some fallback\<rparr>) (epoch_states inner)\<rparr>
                          else inner)
                in if external_peer_count inner > 0 \<and> now < fallback then i1
                   else finish_epoch epoch (single_seal epoch 1 (ss ! 0))
                          (update_clock_score now (seal_node (ss ! 0)) True i1)
              else
                (case resolve_quorum C now epoch ss inner of
                   (i1, None) \<Rightarrow> i1
                 | (i1, Some event) \<Rightarrow> finish_epoch epoch event i1))"

definition tick :: "clock_cfg \<Rightarrow> u64 \<Rightarrow> Inner \<Rightarrow> Inner" where
  "tick C now inner =
    (let epochs_to_resolve = map fst
           (filter (\<lambda>(_, s). \<not> resolved s \<and> deadline s \<le> now) (epoch_states inner))
     in fold (resolve_epoch C now) epochs_to_resolve inner)"

section \<open>Hashes of an epoch and the registered set\<close>

text \<open>\<open>{:x}\<close> of a digest: two lower-case hexadecimal digits per byte.\<close>

definition hex_of_bytes :: "string \<Rightarrow> string" where
  "hex_of_bytes bs =
     concat (map (\<lambda>c. [hex_digit (of_char c div 16), hex_digit (of_char c mod 16)]) bs)"

definition compute_rewards_hash :: "env \<Rightarrow> u64 \<Rightarrow> chain \<Rightarrow> string" where
  "compute_rewards_hash E epoch s =
     hex_of_bytes (sha256 E (''epoch:'' @ to_le epoch @ ''|validators:'' @
       (case state_get s (''epoch_validators:'' @ show_u64 epoch) of
          Some v \<Rightarrow> val_bytes E v | None \<Rightarrow> [])))"

definition compute_storage_challenge :: "env \<Rightarrow> string \<Rightarrow> string \<Rightarrow> u64 \<Rightarrow> string" where
  "compute_storage_challenge E sealed_hash node_id epoch =
     hex_of_bytes (sha256 E (sealed_hash @ '':'' @ node_id @ '':'' @ show_u64 epoch))"

definition strip_prefix :: "string \<Rightarrow> string \<Rightarrow> string option" where
  "strip_prefix p k = (if prefix p k then Some (drop (length p) k) else None)"

text \<open>\<open>rest[..rest.rfind(':')?]\<close>: what stands before the last colon.\<close>

definition before_last_colon :: "string \<Rightarrow> string option" where
  "before_last_colon k =
     (if CHR '':'' \<in> set k then Some (rev (tl (dropWhile (\<lambda>c. c \<noteq> CHR '':'') (rev k)))) else None)"

definition add_backing :: "env \<Rightarrow> string \<times> val \<Rightarrow> (string \<times> u64 \<times> u64) list \<Rightarrow> (string \<times> u64 \<times> u64) list" where
  "add_backing E r per_node =
    (case Option.bind (strip_prefix ''role_stake:clock:'' (fst r)) before_last_colon of
       None \<Rightarrow> per_node
     | Some node \<Rightarrow>
        (case as_json E (snd r) of
           None \<Rightarrow> per_node
         | Some j \<Rightarrow>
             let (n, first) = (case map_of per_node node of Some e \<Rightarrow> e | None \<Rightarrow> (0, u64_max))
             in AList.update node (n + the_u64 j ''amount'' 0,
                  min first (the_u64 j ''staked_epoch'' u64_max)) per_node))"

definition pool_nodes :: "env \<Rightarrow> chain \<Rightarrow> string list" where
  "pool_nodes E s =
    (let per_node = fold (add_backing E) (state_scan_prefix s ''role_stake:clock:'') [];
         eligible = filter (\<lambda>(_, n, _). n \<ge> clock_min_stake E s) per_node
     in map fst (sort_key (\<lambda>(_, _, first). first) eligible))"

definition add_registration :: "env \<Rightarrow> bool \<Rightarrow> string \<times> val \<Rightarrow> string list \<Rightarrow> string list" where
  "add_registration E in_grace r nodes =
    (case strip_prefix ''clock_reg:'' (fst r) of
       None \<Rightarrow> nodes
     | Some node_id \<Rightarrow>
        if node_id \<in> set nodes then nodes
        else (case as_json E (snd r) of
                None \<Rightarrow> nodes
              | Some j \<Rightarrow> if the_u64 j ''stake'' 0 > 0 \<or> in_grace then nodes @ [node_id] else nodes))"

definition registered_clock_nodes :: "env \<Rightarrow> chain \<Rightarrow> u64 \<Rightarrow> string list" where
  "registered_clock_nodes E s epoch =
    (let in_grace = (epoch \<le> CLOCK_BOOTSTRAP_GRACE_END_EPOCH);
         nodes = fold (add_registration E in_grace) (state_scan_prefix s ''clock_reg:'') (pool_nodes E s)
     in remdups_adj (sort nodes))"

section \<open>A quorum is a majority\<close>

lemma round53_lower: "p * (2 ^ 53 - 1) \<le> round53 p * 2 ^ 53"
proof (cases "floorlog 2 p \<le> 53")
  case True
  then show ?thesis by (simp add: round53_def)
next
  case False
  define sh where "sh = floorlog 2 p - 53"
  have sh: "0 < sh" "floorlog 2 p = sh + 53"
    using False by (simp_all add: sh_def)
  have p0: "0 < p"
    using False by (cases "p = 0") (simp_all add: floorlog_def)
  then have "2 ^ (sh + 52) \<le> p"
    using floorlog_bounds [of p 2] sh(2) by (simp add: add.commute)
  then have half: "2 ^ 53 * 2 ^ (sh - 1) \<le> p"
    using sh(1) by (cases sh) (simp_all add: power_add)
  have pr: "p = p div 2 ^ sh * 2 ^ sh + p mod 2 ^ sh"
    by (simp only: div_mult_mod_eq)
  have "p \<le> round53 p + 2 ^ (sh - 1)"
  proof (cases "p mod 2 ^ sh > 2 ^ (sh - 1) \<or> (p mod 2 ^ sh = 2 ^ (sh - 1) \<and> odd (p div 2 ^ sh))")
    case True
    then have "round53 p = (p div 2 ^ sh + 1) * 2 ^ sh"
      using sh by (simp add: round53_def sh_def [symmetric] Let_def)
    moreover have "p mod 2 ^ sh < 2 ^ sh"
      by simp
    ultimately show ?thesis
      using pr by (simp only: distrib_right mult_1)
  next
    case down: False
    then have "round53 p = p div 2 ^ sh * 2 ^ sh"
      using sh by (simp add: round53_def sh_def [symmetric] Let_def)
    moreover have "p mod 2 ^ sh \<le> 2 ^ (sh - 1)"
      using down by linarith
    ultimately show ?thesis
      using pr by linarith
  qed
  then have "p * 2 ^ 53 \<le> round53 p * 2 ^ 53 + 2 ^ 53 * 2 ^ (sh - 1)"
    by (simp add: algebra_simps)
  with half have "p * 2 ^ 53 \<le> round53 p * 2 ^ 53 + p"
    by linarith
  then show ?thesis
    by (simp add: algebra_simps)
qed

lemma quorum_majority:
  assumes "0 < n"
  shows "n < 2 * quorum_fraction n"
proof -
  let ?r = "round53 (n * MIN_QUORUM_FRACTION_significand)"
  have "?r \<le> quorum_fraction n * 2 ^ 53"
    unfolding quorum_fraction_def by (simp add: div_mult_mod_eq [symmetric])
  moreover have "n * 2 ^ 53 < 2 * ?r"
  proof -
    have "n * (2 ^ 53 * 2 ^ 53) < n * (2 * (MIN_QUORUM_FRACTION_significand * (2 ^ 53 - 1)))"
      using assms by (simp add: MIN_QUORUM_FRACTION_significand_def)
    also have "\<dots> = 2 * (n * MIN_QUORUM_FRACTION_significand * (2 ^ 53 - 1))"
      by (simp only: mult_ac)
    also have "\<dots> \<le> 2 * (?r * 2 ^ 53)"
      by (intro mult_left_mono round53_lower) simp
    finally have "n * 2 ^ 53 * 2 ^ 53 < 2 * ?r * 2 ^ 53"
      by (simp only: mult_ac)
    then show ?thesis
      by (simp only: mult_less_cancel2)
  qed
  ultimately have "n * 2 ^ 53 < 2 * quorum_fraction n * 2 ^ 53"
    by linarith
  then show ?thesis
    by (simp only: mult_less_cancel2)
qed

section \<open>Votes\<close>

lemma max_by_count_mem: "max_by_count xs = Some x \<Longrightarrow> x \<in> set xs"
proof (induction xs arbitrary: x rule: rev_induct)
  case Nil
  then show ?case by (simp add: max_by_count_def)
next
  case (snoc y xs)
  then show ?case
    by (auto simp: max_by_count_def split: option.splits if_splits)
qed

lemma max_by_count_None: "max_by_count xs = None \<longleftrightarrow> xs = []"
  by (induction xs rule: rev_induct) (auto simp: max_by_count_def split: option.split)

lemma max_by_count_max: "max_by_count xs = Some x \<Longrightarrow> y \<in> set xs \<Longrightarrow> snd y \<le> snd x"
proof (induction xs arbitrary: x rule: rev_induct)
  case Nil
  then show ?case by simp
next
  case (snoc z xs)
  have step: "max_by_count (xs @ [z]) = (case max_by_count xs of
      None \<Rightarrow> Some z | Some b \<Rightarrow> if snd z \<ge> snd b then Some z else Some b)"
    by (simp add: max_by_count_def)
  show ?case
  proof (cases "max_by_count xs")
    case None
    with snoc.prems step show ?thesis by (simp add: max_by_count_None)
  next
    case (Some b)
    with snoc.prems snoc.IH [OF Some] step show ?thesis
      by (force split: if_splits)
  qed
qed

text \<open>The tally is a permutation of the votes, whatever order the map is iterated in.\<close>

definition fair_order :: "clock_cfg \<Rightarrow> bool" where
  "fair_order C \<longleftrightarrow> (\<forall>xs. set (tally_order C xs) = set xs)"

lemma set_tally: "fair_order C \<Longrightarrow> set (tally C hs) = (\<lambda>h. (h, count_list hs h)) ` set hs"
  by (simp add: fair_order_def tally_def)

lemma vote_winner:
  assumes "fair_order C" "max_by_count (tally C hs) = Some (h, n)"
  shows "h \<in> set hs" "n = count_list hs h" "\<forall>h'. count_list hs h' \<le> n"
proof -
  show h: "h \<in> set hs" "n = count_list hs h"
    using max_by_count_mem [OF assms(2)] by (auto simp: set_tally [OF assms(1)])
  show "\<forall>h'. count_list hs h' \<le> n"
  proof
    fix h'
    show "count_list hs h' \<le> n"
    proof (cases "h' \<in> set hs")
      case True
      then have "(h', count_list hs h') \<in> set (tally C hs)"
        by (auto simp: set_tally [OF assms(1)])
      from max_by_count_max [OF assms(2) this] show ?thesis by simp
    qed (simp add: count_list_0_iff)
  qed
qed

lemma vote_exists:
  assumes "fair_order C" "hs \<noteq> []"
  obtains h n where "max_by_count (tally C hs) = Some (h, n)"
proof (cases "max_by_count (tally C hs)")
  case None
  then have "set (tally C hs) = {}"
    by (simp add: max_by_count_None)
  with assms show thesis
    by (simp add: set_tally)
next
  case (Some p)
  then show thesis
    using that by (cases p) simp
qed

text \<open>The voters for a hash, as a set of registered nodes.\<close>

definition supporters :: "string list \<Rightarrow> RewardProposal list \<Rightarrow> string \<Rightarrow> string set" where
  "supporters reg props h = prop_node ` {p \<in> set props. prop_node p \<in> set reg \<and> prop_hash p = h}"

lemma card_supporters:
  assumes "distinct (map prop_node props)"
  shows "card (supporters reg props h) =
    count_list (map prop_hash (filter (\<lambda>p. prop_node p \<in> set reg) props)) h"
proof -
  let ?l = "filter (\<lambda>p. prop_hash p = h) (filter (\<lambda>p. prop_node p \<in> set reg) props)"
  have "supporters reg props h = set (map prop_node ?l)"
    by (auto simp: supporters_def)
  moreover have "distinct (map prop_node ?l)"
    using assms by (simp add: distinct_map_filter)
  ultimately have "card (supporters reg props h) = length ?l"
    by (metis distinct_card length_map)
  also have "\<dots> = count_list (map prop_hash (filter (\<lambda>p. prop_node p \<in> set reg) props)) h"
    by (simp add: count_list_eq_length_filter filter_map o_def eq_commute)
  finally show ?thesis .
qed

lemma reward_vote_majority:
  assumes "reward_vote C reg props = Some (h, n)" "fair_order C" "reg \<noteq> []"
    and "distinct (map prop_node props)" "distinct reg"
  shows "card (set reg) < 2 * card (supporters reg props h)"
proof -
  from assms(1,3) have m: "max_by_count (tally C (map prop_hash (filter (\<lambda>p. prop_node p \<in> set reg) props))) = Some (h, n)"
    and q: "quorum_fraction (length reg) \<le> n"
    by (auto simp: reward_vote_def Let_def split: option.splits prod.splits if_splits)
  have "card (supporters reg props h) = n"
    using vote_winner(2) [OF assms(2) m] card_supporters [OF assms(4)] by simp
  moreover have "length reg < 2 * quorum_fraction (length reg)"
    using assms(3) by (intro quorum_majority) simp
  ultimately show ?thesis
    using q distinct_card [OF assms(5)] by simp
qed

lemma majorities_meet:
  assumes "finite R" "A \<subseteq> R" "B \<subseteq> R" "card R < 2 * card A" "card R < 2 * card B"
  shows "A \<inter> B \<noteq> {}"
proof
  assume "A \<inter> B = {}"
  then have "card (A \<union> B) = card A + card B"
    using assms by (intro card_Un_disjoint) (auto intro: finite_subset)
  moreover have "card (A \<union> B) \<le> card R"
    using assms by (intro card_mono) auto
  ultimately show False
    using assms by simp
qed

section \<open>Reward finality\<close>

definition known_proposals :: "Inner \<Rightarrow> u64 \<Rightarrow> RewardProposal list" where
  "known_proposals inner e = (case map_of (reward_states inner) e of Some st \<Rightarrow> proposals st | None \<Rightarrow> [])"

definition reward_inv :: "Inner \<Rightarrow> bool" where
  "reward_inv inner \<longleftrightarrow> (\<forall>e. distinct (map prop_node (known_proposals inner e)))"

lemma distinct_add_proposal:
  "distinct (map prop_node ps) \<Longrightarrow>
    distinct (map prop_node (if list_ex (\<lambda>q. prop_node q = prop_node p) ps then ps else ps @ [p]))"
  by (auto simp: list_ex_iff)

lemma receive_proposals:
  "known_proposals (receive_reward_proposal C now p inner) e =
    (let ps = known_proposals inner e in
     if e = prop_epoch p \<and> \<not> (\<exists>st. map_of (reward_states inner) e = Some st \<and> finalized st) \<and>
       \<not> list_ex (\<lambda>q. prop_node q = prop_node p) ps then ps @ [p] else ps)"
  by (auto simp: receive_reward_proposal_def known_proposals_def new_reward_state_def Let_def update_conv'
      split: option.split)

lemma receive_reward_inv:
  assumes "reward_inv inner"
  shows "reward_inv (receive_reward_proposal C now p inner)"
  using assms by (auto simp: reward_inv_def receive_proposals Let_def list_ex_iff)

lemma receive_finalizes:
  assumes "finalized_tx (receive_reward_proposal C now p inner) = finalized_tx inner @ [f]"
  shows "\<exists>n. reward_vote C (registered_clocks inner)
    (known_proposals (receive_reward_proposal C now p inner) (prop_epoch p)) = Some (final_hash f, n)"
  using assms
  by (auto simp: receive_reward_proposal_def known_proposals_def Let_def update_conv'
      split: option.splits if_splits)

text \<open>
  (C2) Reward finality is safe: two nodes with the same registered clocks that both finalise the
  rewards of an epoch finalise the same hash, provided no registered clock is known to the two
  nodes with different votes. It rests on the 51 percent threshold being a majority as computed.
\<close>

theorem reward_finality_agreement:
  assumes f1: "finalized_tx (receive_reward_proposal C1 t1 p1 i1) = finalized_tx i1 @ [f1]"
    and f2: "finalized_tx (receive_reward_proposal C2 t2 p2 i2) = finalized_tx i2 @ [f2]"
    and ep: "prop_epoch p1 = e" "prop_epoch p2 = e"
    and fair: "fair_order C1" "fair_order C2" and inv: "reward_inv i1" "reward_inv i2"
    and reg: "registered_clocks i1 = reg" "registered_clocks i2 = reg" "reg \<noteq> []" "distinct reg"
    and honest: "\<forall>a \<in> set (known_proposals (receive_reward_proposal C1 t1 p1 i1) e).
      \<forall>b \<in> set (known_proposals (receive_reward_proposal C2 t2 p2 i2) e).
        prop_node a = prop_node b \<and> prop_node a \<in> set reg \<longrightarrow> prop_hash a = prop_hash b"
  shows "final_hash f1 = final_hash f2"
proof -
  let ?k1 = "known_proposals (receive_reward_proposal C1 t1 p1 i1) e"
  let ?k2 = "known_proposals (receive_reward_proposal C2 t2 p2 i2) e"
  let ?s1 = "supporters reg ?k1 (final_hash f1)"
  let ?s2 = "supporters reg ?k2 (final_hash f2)"
  obtain n1 n2 where v1: "reward_vote C1 reg ?k1 = Some (final_hash f1, n1)"
    and v2: "reward_vote C2 reg ?k2 = Some (final_hash f2, n2)"
    using receive_finalizes [OF f1] receive_finalizes [OF f2] ep reg by auto
  have d: "distinct (map prop_node ?k1)" "distinct (map prop_node ?k2)"
    using receive_reward_inv [OF inv(1)] receive_reward_inv [OF inv(2)] by (auto simp: reward_inv_def)
  have "?s1 \<inter> ?s2 \<noteq> {}"
    using reward_vote_majority [OF v1 fair(1) reg(3) d(1) reg(4)]
      reward_vote_majority [OF v2 fair(2) reg(3) d(2) reg(4)]
    by (intro majorities_meet [of "set reg"]) (auto simp: supporters_def)
  then obtain a b where "a \<in> set ?k1" "b \<in> set ?k2" "prop_node a = prop_node b" "prop_node a \<in> set reg"
    "prop_hash a = final_hash f1" "prop_hash b = final_hash f2"
    by (auto simp: supporters_def)
  with honest show ?thesis by fastforce
qed

section \<open>Witness for reward finality\<close>

definition demo_cfg :: clock_cfg where
  "demo_cfg = \<lparr>clock_quorum = 2, bootstrap_isolation = False, tally_order = id\<rparr>"

definition demo_vote :: "string \<Rightarrow> RewardProposal" where
  "demo_vote voter = \<lparr>prop_epoch = 5, prop_node = voter, prop_hash = ''h''\<rparr>"

definition demo_inner :: "string \<Rightarrow> Inner" where
  "demo_inner voter = receive_reward_proposal demo_cfg 0 (demo_vote voter)
     (new_inner\<lparr>registered_clocks := [''a'', ''b'']\<rparr>)"

lemma quorum_fraction_small: "quorum_fraction 2 = 2" "quorum_fraction 1 = 1" "quorum_fraction 3 = 2"
  by (simp_all add: quorum_fraction_def round53_def MIN_QUORUM_FRACTION_significand_def Let_def
      compute_floorlog)

lemmas reward_run_simps = receive_reward_proposal_def reward_vote_def tally_def max_by_count_def
  new_reward_state_def new_inner_def demo_cfg_def demo_vote_def Let_def quorum_fraction_small
  numeral_2_eq_2 [symmetric]

lemma demo_inner_eq:
  "demo_inner v = new_inner\<lparr>registered_clocks := [''a'', ''b''],
     reward_states := [(5, \<lparr>proposals = [demo_vote v], finalized = False, reward_deadline = CONSENSUS_COLLECT_MS\<rparr>)]\<rparr>"
  by (simp add: demo_inner_def reward_run_simps)

theorem reward_finality_agreement_witness:
  "final_hash (last (finalized_tx (receive_reward_proposal demo_cfg 1 (demo_vote ''b'') (demo_inner ''a'')))) =
   final_hash (last (finalized_tx (receive_reward_proposal demo_cfg 1 (demo_vote ''a'') (demo_inner ''b''))))"
proof -
  have f: "finalized_tx (receive_reward_proposal demo_cfg 1 (demo_vote w) (demo_inner v)) =
      finalized_tx (demo_inner v) @
        [last (finalized_tx (receive_reward_proposal demo_cfg 1 (demo_vote w) (demo_inner v)))]"
    if "(v, w) = (''a'', ''b'') \<or> (v, w) = (''b'', ''a'')" for v w
    using that by (auto simp: demo_inner_eq reward_run_simps)
  have k: "known_proposals (receive_reward_proposal demo_cfg 1 (demo_vote w) (demo_inner v)) 5 =
      [demo_vote v, demo_vote w]"
    if "(v, w) = (''a'', ''b'') \<or> (v, w) = (''b'', ''a'')" for v w
    using that by (auto simp: demo_inner_eq known_proposals_def reward_run_simps)
  have inv: "reward_inv (demo_inner v)" for v
    by (auto simp: reward_inv_def known_proposals_def demo_inner_eq new_inner_def)
  show ?thesis
    by (rule reward_finality_agreement [where e = 5 and reg = "[''a'', ''b'']", OF f [of "''a''" "''b''"]
          f [of "''b''" "''a''"] _ _ _ _ inv inv])
      (simp_all add: k, simp_all add: demo_vote_def fair_order_def demo_cfg_def demo_inner_eq)
qed

section \<open>Seal resolution\<close>

text \<open>
  When two or more seals resolve an epoch, the event is well founded: the voting inliers reach
  the required number, the signers are a non-empty set of distinct clocks among them (registered
  ones, when the registered set is known) that all sealed the winning hash, the winning seal is one
  of theirs, and no other hash has more votes.
\<close>

theorem seal_resolution_sound:
  assumes fair: "fair_order C" and uniq: "distinct (map seal_node ss)"
    and run: "resolve_quorum C now e ss inner = (inner', Some ev)"
  shows "seal_quorum_needed inner ss \<le> length (voting_inliers inner ss) \<and>
    signing_clocks ev \<noteq> [] \<and> distinct (signing_clocks ev) \<and>
    (\<exists>w. winner_seal ev = Some w \<and> seal_node w \<in> set (signing_clocks ev) \<and>
      set (signing_clocks ev) = seal_node ` {s \<in> set (voting_inliers inner ss). seal_hash s = seal_hash w} \<and>
      (\<forall>h. length (filter (\<lambda>s. seal_hash s = h) (voting_inliers inner ss)) \<le> length (signing_clocks ev)))"
proof -
  let ?v = "voting_inliers inner ss"
  let ?h = "winner_hash C ?v"
  let ?w = "filter (\<lambda>s. seal_hash s = ?h) ?v"
  from run have q: "seal_quorum_needed inner ss \<le> length ?v"
    and ev: "winner_seal ev = Some (?w ! 0)" "signing_clocks ev = map seal_node ?w"
    by (auto simp: resolve_quorum_def Let_def split: if_splits)
  have "map seal_hash ?v \<noteq> []"
    using q by (auto simp: seal_quorum_needed_def)
  then obtain h n where m: "max_by_count (tally C (map seal_hash ?v)) = Some (h, n)"
    using vote_exists [OF fair] by blast
  have h: "?h = h"
    using m by (simp add: winner_hash_def)
  note vw = vote_winner [OF fair m]
  have cnt: "length (filter (\<lambda>s. seal_hash s = x) ?v) = count_list (map seal_hash ?v) x" for x
    by (simp add: count_list_eq_length_filter filter_map o_def eq_commute)
  have ne: "?w \<noteq> []"
    using vw(1) by (auto simp: h filter_empty_conv)
  have "distinct (map seal_node ?v)"
    using uniq by (simp add: voting_inliers_def Let_def distinct_map_filter)
  then have "distinct (map seal_node ?w)"
    by (rule distinct_map_filter)
  moreover have "?w ! 0 \<in> set ?w"
    using ne by (intro nth_mem) simp
  then have "seal_hash (?w ! 0) = ?h" "seal_node (?w ! 0) \<in> seal_node ` set ?w"
    by auto
  moreover have "\<forall>x. length (filter (\<lambda>s. seal_hash s = x) ?v) \<le> length ?w"
    using vw(2,3) cnt h by simp
  ultimately show ?thesis
    using q ev ne by auto
qed

definition demo_seal :: "string \<Rightarrow> string \<Rightarrow> EpochSeal" where
  "demo_seal n h = \<lparr>seal_epoch = 5, seal_node = n, seal_time = 100, seal_hash = h,
     seal_signature = None, seal_pubkey = None\<rparr>"

definition demo_split :: "EpochSeal list" where
  "demo_split = [demo_seal ''a'' ''h1'', demo_seal ''b'' ''h2'']"

lemma demo_split_resolves:
  assumes "tally_order C [(''h1'', 1), (''h2'', 1)] = xs" "xs = [(''h1'', 1), (''h2'', 1)] \<or> xs = [(''h2'', 1), (''h1'', 1)]"
  shows "snd (resolve_quorum C 0 5 demo_split (new_inner\<lparr>registered_clocks := [''a'', ''b'']\<rparr>)) =
    Some \<lparr>sealed_epoch = 5, sealed_ok = True, sealed_quorum = 1, total_clocks = 2, outlier_seals = 0,
      winner_seal = Some (if xs = [(''h1'', 1), (''h2'', 1)] then demo_seal ''b'' ''h2'' else demo_seal ''a'' ''h1''),
      signing_clocks = [if xs = [(''h1'', 1), (''h2'', 1)] then ''b'' else ''a'']\<rparr>"
proof -
  have "is_inlier demo_split s" if "s \<in> set demo_split" for s
    using that by (auto simp: is_inlier_def demo_split_def demo_seal_def median_time_def abs_diff_def
        OUTLIER_EPOCH_TOLERANCE_def EPOCH_MS_def)
  then have "filter (is_inlier demo_split) demo_split = demo_split" "filter (\<lambda>s. \<not> is_inlier demo_split s) demo_split = []"
    by (auto intro: filter_True filter_False)
  then show ?thesis
    using assms by (auto simp: resolve_quorum_def voting_inliers_def seal_quorum_needed_def winner_hash_def
        tally_def max_by_count_def Let_def demo_split_def demo_seal_def new_inner_def quorum_fraction_small
        numeral_2_eq_2 [symmetric])
qed

theorem seal_resolution_sound_witness:
  "\<exists>i ev. resolve_quorum demo_cfg 0 5 demo_split (new_inner\<lparr>registered_clocks := [''a'', ''b'']\<rparr>) = (i, Some ev) \<and>
    signing_clocks ev \<noteq> []"
proof -
  obtain i ev where r: "resolve_quorum demo_cfg 0 5 demo_split (new_inner\<lparr>registered_clocks := [''a'', ''b'']\<rparr>) = (i, Some ev)"
    using demo_split_resolves [of demo_cfg "[(''h1'', 1), (''h2'', 1)]"]
    by (cases "resolve_quorum demo_cfg 0 5 demo_split (new_inner\<lparr>registered_clocks := [''a'', ''b'']\<rparr>)")
      (simp add: demo_cfg_def)
  have "signing_clocks ev \<noteq> []"
    using seal_resolution_sound [OF _ _ r] by (simp add: fair_order_def demo_cfg_def demo_split_def demo_seal_def)
  with r show ?thesis by blast
qed

text \<open>
  A sealed epoch need not have a majority behind its hash: with two registered clocks that seal
  different hashes, the number of voters satisfies the quorum although each hash has one vote, and
  two nodes holding the same two seals seal different hashes, depending only on the iteration order
  of their hash maps.
\<close>

theorem seal_split_diverges:
  "\<exists>C1 C2 inner ss ev1 ev2. fair_order C1 \<and> fair_order C2 \<and>
    snd (resolve_quorum C1 0 5 ss inner) = Some ev1 \<and> snd (resolve_quorum C2 0 5 ss inner) = Some ev2 \<and>
    sealed_quorum ev1 = 1 \<and> sealed_quorum ev2 = 1 \<and> length (registered_clocks inner) = 2 \<and>
    map_option seal_hash (winner_seal ev1) \<noteq> map_option seal_hash (winner_seal ev2)"
proof -
  let ?C2 = "demo_cfg\<lparr>tally_order := rev\<rparr>"
  let ?i = "new_inner\<lparr>registered_clocks := [''a'', ''b'']\<rparr>"
  have f: "fair_order demo_cfg" "fair_order ?C2"
    by (simp_all add: fair_order_def demo_cfg_def)
  have r: "tally_order demo_cfg [(''h1'', 1), (''h2'', 1)] = [(''h1'', 1), (''h2'', 1)]"
    "tally_order ?C2 [(''h1'', 1), (''h2'', 1)] = [(''h2'', 1), (''h1'', 1)]"
    by (simp_all add: demo_cfg_def)
  show ?thesis
    using f demo_split_resolves [OF r(1)] demo_split_resolves [OF r(2)]
    by (intro exI [of _ demo_cfg] exI [of _ ?C2] exI [of _ ?i] exI [of _ demo_split])
      (simp add: demo_seal_def new_inner_def)
qed

section \<open>Reachable states\<close>

text \<open>One step of the consensus: a message, a tick of the main loop, or an update from the node.\<close>

inductive clock_step :: "env \<Rightarrow> clock_cfg \<Rightarrow> Inner \<Rightarrow> Inner \<Rightarrow> bool" for E C where
  step_seal: "clock_step E C i (receive_seal E now seal i)"
| step_proposal: "clock_step E C i (receive_reward_proposal C now p i)"
| step_tick: "clock_step E C i (tick C now i)"
| step_track: "clock_step E C i (ensure_epoch_tracked now e i)"
| step_epoch: "clock_step E C i (set_current_epoch e i)"
| step_registered: "clock_step E C i (set_registered_clocks nodes i)"
| step_peers: "clock_step E C i (update_peers n i)"

inductive clock_reachable :: "env \<Rightarrow> clock_cfg \<Rightarrow> Inner \<Rightarrow> bool" for E C where
  reach_new: "clock_reachable E C new_inner"
| reach_step: "clock_reachable E C i \<Longrightarrow> clock_step E C i i' \<Longrightarrow> clock_reachable E C i'"

inductive_cases clock_stepE: "clock_step E C i i'"

definition scores_ok :: "(string \<times> ClockScore) list \<Rightarrow> bool" where
  "scores_ok cs \<longleftrightarrow> (\<forall>(n, s) \<in> set cs. 0 \<le> score s \<and> score s \<le> 200)"

definition seals_ok :: "(u64 \<times> EpochState) list \<Rightarrow> bool" where
  "seals_ok es \<longleftrightarrow> (\<forall>(e, st) \<in> set es. distinct (map seal_node (seals st)))"

text \<open>Every finalised event belongs to an epoch whose state is final, and no epoch has two.\<close>

definition finals_ok :: "Inner \<Rightarrow> bool" where
  "finals_ok i \<longleftrightarrow> distinct (map final_epoch (finalized_tx i)) \<and>
     (\<forall>f \<in> set (finalized_tx i). \<exists>st. map_of (reward_states i) (final_epoch f) = Some st \<and> finalized st)"

definition clock_inv :: "Inner \<Rightarrow> bool" where
  "clock_inv i \<longleftrightarrow> scores_ok (clock_scores i) \<and> seals_ok (epoch_states i) \<and> reward_inv i \<and> finals_ok i"

lemma set_alist_update: "set (AList.update k v al) \<subseteq> insert (k, v) (set al)"
  by (induction al) auto

lemma map_of_in: "map_of al k = Some v \<Longrightarrow> (k, v) \<in> set al"
  by (rule map_of_SomeD)

lemma scores_ok_update: "scores_ok cs \<Longrightarrow> 0 \<le> score s \<Longrightarrow> score s \<le> 200 \<Longrightarrow> scores_ok (AList.update n s cs)"
  using set_alist_update [of n s cs] unfolding scores_ok_def by fast

lemma seals_ok_update:
  "seals_ok es \<Longrightarrow> distinct (map seal_node (seals st)) \<Longrightarrow> seals_ok (AList.update e st es)"
  using set_alist_update [of e st es] unfolding seals_ok_def by fast

lemma seals_ok_get: "seals_ok es \<Longrightarrow> map_of es e = Some st \<Longrightarrow> distinct (map seal_node (seals st))"
  using map_of_in unfolding seals_ok_def by fast

text \<open>What resolution leaves alone: everything but epoch states, scores and the sealed events.\<close>

definition rest_of :: "Inner \<Rightarrow> _" where
  "rest_of i = (reward_states i, finalized_tx i, registered_clocks i)"

lemma update_score_inv:
  "scores_ok (clock_scores i) \<Longrightarrow> scores_ok (clock_scores (update_clock_score now n b i))"
  "epoch_states (update_clock_score now n b i) = epoch_states i"
  "rest_of (update_clock_score now n b i) = rest_of i"
proof -
  assume ok: "scores_ok (clock_scores i)"
  have "\<forall>s. map_of (clock_scores i) n = Some s \<longrightarrow> 0 \<le> score s \<and> score s \<le> 200"
    using ok map_of_in unfolding scores_ok_def by fast
  then show "scores_ok (clock_scores (update_clock_score now n b i))"
    by (auto simp: update_clock_score_def Let_def intro!: scores_ok_update [OF ok] split: option.splits)
qed (simp_all add: update_clock_score_def Let_def rest_of_def)

lemma score_all_inv:
  "scores_ok (clock_scores i) \<Longrightarrow> scores_ok (clock_scores (score_all now b ss i))"
  "epoch_states (score_all now b ss i) = epoch_states i"
  "rest_of (score_all now b ss i) = rest_of i"
  unfolding score_all_def
  by (induction ss arbitrary: i) (simp_all add: update_score_inv)

lemma finish_inv:
  "clock_scores (finish_epoch e ev i) = clock_scores i" "rest_of (finish_epoch e ev i) = rest_of i"
  "seals_ok (epoch_states i) \<Longrightarrow> seals_ok (epoch_states (finish_epoch e ev i))"
proof -
  show "clock_scores (finish_epoch e ev i) = clock_scores i" "rest_of (finish_epoch e ev i) = rest_of i"
    by (simp_all add: finish_epoch_def mark_resolved_def rest_of_def Let_def split: option.split)
  assume ok: "seals_ok (epoch_states i)"
  then have "seals_ok (epoch_states (mark_resolved e i))"
    by (auto simp: mark_resolved_def intro!: seals_ok_update dest: seals_ok_get split: option.split)
  then show "seals_ok (epoch_states (finish_epoch e ev i))"
    by (auto simp: finish_epoch_def Let_def seals_ok_def)
qed

lemma resolve_quorum_inv:
  assumes "resolve_quorum C now e ss i = (i', ev)"
  shows "scores_ok (clock_scores i) \<Longrightarrow> scores_ok (clock_scores i')"
    "epoch_states i' = epoch_states i" "rest_of i' = rest_of i"
  using assms by (auto simp: resolve_quorum_def Let_def score_all_inv split: if_splits)

lemma resolve_epoch_inv:
  assumes "scores_ok (clock_scores i)" "seals_ok (epoch_states i)"
  shows "scores_ok (clock_scores (resolve_epoch C now e i)) \<and>
    seals_ok (epoch_states (resolve_epoch C now e i)) \<and> rest_of (resolve_epoch C now e i) = rest_of i"
proof (cases "map_of (epoch_states i) e")
  case None
  with assms show ?thesis by (simp add: resolve_epoch_def)
next
  case (Some st)
  note d = seals_ok_get [OF assms(2) Some]
  let ?i1 = "\<lambda>f. i\<lparr>epoch_states := AList.update e (st\<lparr>peer_fallback_deadline := Some f\<rparr>) (epoch_states i)\<rparr>"
  have i1: "seals_ok (epoch_states (?i1 f))" "scores_ok (clock_scores (?i1 f))" "rest_of (?i1 f) = rest_of i" for f
    using assms d by (simp_all add: seals_ok_update rest_of_def)
  obtain i2 ev where q: "resolve_quorum C now e (seals st) i = (i2, ev)"
    by fastforce
  note qi = resolve_quorum_inv [OF q]
  show ?thesis
    using Some assms i1 qi q
    by (auto simp: resolve_epoch_def Let_def finish_inv update_score_inv split: option.split)
qed

lemma tick_inv:
  assumes "scores_ok (clock_scores i)" "seals_ok (epoch_states i)"
  shows "scores_ok (clock_scores (tick C now i)) \<and> seals_ok (epoch_states (tick C now i)) \<and>
    rest_of (tick C now i) = rest_of i"
proof -
  have "scores_ok (clock_scores (fold (resolve_epoch C now) es i)) \<and>
      seals_ok (epoch_states (fold (resolve_epoch C now) es i)) \<and>
      rest_of (fold (resolve_epoch C now) es i) = rest_of i" for es
    using assms by (induction es arbitrary: i) (simp_all add: resolve_epoch_inv)
  then show ?thesis
    by (simp add: tick_def Let_def)
qed

lemma rest_inv:
  "rest_of i' = rest_of i \<Longrightarrow> reward_inv i' = reward_inv i \<and> finals_ok i' = finals_ok i"
  by (simp add: rest_of_def reward_inv_def known_proposals_def finals_ok_def)

lemma receive_proposal_finals:
  assumes "finals_ok i"
  shows "finals_ok (receive_reward_proposal C now p i)"
  using assms
  by (auto simp: finals_ok_def receive_reward_proposal_def Let_def update_conv'
      split: option.splits prod.splits if_splits)

lemma receive_seal_inv:
  assumes "seals_ok (epoch_states i)"
  shows "seals_ok (epoch_states (receive_seal E now seal i))"
proof -
  define st where "st = (case map_of (epoch_states i) (seal_epoch seal) of
    Some st \<Rightarrow> st | None \<Rightarrow> new_epoch_state now)"
  have "distinct (map seal_node (seals st))"
    using seals_ok_get [OF assms] by (simp add: st_def new_epoch_state_def split: option.split)
  then have "distinct (map seal_node (seals
      (if resolved st \<or> list_ex (\<lambda>s. seal_node s = seal_node seal) (seals st) then st
       else st\<lparr>seals := seals st @ [seal]\<rparr>)))"
    by (auto simp: list_ex_iff)
  from seals_ok_update [OF assms this] assms show ?thesis
    unfolding receive_seal_def Let_def st_def [symmetric] by simp
qed

lemma receive_seal_rest:
  "rest_of (receive_seal E now seal i) = rest_of i" "clock_scores (receive_seal E now seal i) = clock_scores i"
  by (simp_all add: receive_seal_def rest_of_def Let_def)

lemma clock_step_inv: "clock_step E C i i' \<Longrightarrow> clock_inv i \<Longrightarrow> clock_inv i'"
proof (elim clock_stepE)
  fix now seal
  assume "clock_inv i" "i' = receive_seal E now seal i"
  then show "clock_inv i'"
    using rest_inv [OF receive_seal_rest(1)] by (simp add: clock_inv_def receive_seal_inv receive_seal_rest(2))
next
  fix now p
  assume "clock_inv i" "i' = receive_reward_proposal C now p i"
  moreover have "clock_scores (receive_reward_proposal C now p i) = clock_scores i"
    "epoch_states (receive_reward_proposal C now p i) = epoch_states i"
    by (simp_all add: receive_reward_proposal_def Let_def split: option.split)
  ultimately show "clock_inv i'"
    by (simp add: clock_inv_def receive_reward_inv receive_proposal_finals)
next
  fix now
  assume "clock_inv i" "i' = tick C now i"
  then show "clock_inv i'"
    using tick_inv [of i C now] rest_inv [of "tick C now i" i] by (simp add: clock_inv_def)
next
  fix now e
  assume "clock_inv i" "i' = ensure_epoch_tracked now e i"
  then show "clock_inv i'"
    by (auto simp: clock_inv_def ensure_epoch_tracked_def reward_inv_def known_proposals_def finals_ok_def
        new_epoch_state_def intro!: seals_ok_update split: option.split)
qed (simp_all add: clock_inv_def set_current_epoch_def set_registered_clocks_def update_peers_def Let_def
      reward_inv_def known_proposals_def finals_ok_def)

text \<open>
  (C19) In every state the consensus can reach, from whatever messages in whatever order: clock scores
  lie between 0 and 200, no clock counts twice among the seals of an epoch or among its reward
  proposals, and no epoch is finalised twice.
\<close>

theorem clock_reachable_invariant:
  assumes "clock_reachable E C i"
  shows "(\<forall>(n, s) \<in> set (clock_scores i). 0 \<le> score s \<and> score s \<le> 200) \<and>
    (\<forall>(e, st) \<in> set (epoch_states i). distinct (map seal_node (seals st))) \<and>
    (\<forall>e. distinct (map prop_node (known_proposals i e))) \<and>
    distinct (map final_epoch (finalized_tx i))"
proof -
  have "clock_inv i"
    using assms
  proof (induction rule: clock_reachable.induct)
    case reach_new
    show ?case
      by (simp add: clock_inv_def new_inner_def scores_ok_def seals_ok_def reward_inv_def
          known_proposals_def finals_ok_def)
  qed (rule clock_step_inv)
  then show ?thesis
    by (simp add: clock_inv_def scores_ok_def seals_ok_def reward_inv_def finals_ok_def)
qed

theorem clock_reachable_invariant_witness:
  "distinct (map final_epoch (finalized_tx (receive_reward_proposal demo_cfg 0 (demo_vote ''a'') new_inner)))"
proof -
  have "clock_reachable demo_env demo_cfg (receive_reward_proposal demo_cfg 0 (demo_vote ''a'') new_inner)"
    by (rule reach_step [OF reach_new step_proposal])
  from clock_reachable_invariant [OF this] show ?thesis by blast
qed

section \<open>The registered set\<close>

lemma distinct_remdups_adj_sorted: "sorted xs \<Longrightarrow> distinct (remdups_adj xs)"
proof (induction xs rule: remdups_adj.induct)
  case (3 x y xs)
  then show ?case
    by (cases "x = y") (auto simp: order_antisym)
qed simp_all

lemma pool_subset: "set (pool_nodes E s) \<subseteq> set (registered_clock_nodes E s e)"
proof -
  have "set ns \<subseteq> set (fold (add_registration E g) rs ns)" for g rs ns
  proof (induction rs arbitrary: ns)
    case Nil
    then show ?case by simp
  next
    case (Cons r rs)
    have "set ns \<subseteq> set (add_registration E g r ns)"
      by (auto simp: add_registration_def split: option.split)
    with Cons [of "add_registration E g r ns"] show ?case by auto
  qed
  then show ?thesis
    by (simp add: registered_clock_nodes_def Let_def)
qed

text \<open>
  The registered clock set is the same list on every node with the same state: sorted by name
  and without repetition, which is what the quorum rules assume of it.
\<close>

theorem registered_clocks_canonical:
  "sorted (registered_clock_nodes E s e) \<and> distinct (registered_clock_nodes E s e)"
  by (simp add: registered_clock_nodes_def Let_def distinct_remdups_adj_sorted)

lemma pool_nodes_frame:
  assumes "state_scan_prefix s' ''role_stake:clock:'' = state_scan_prefix s ''role_stake:clock:''"
    and "clock_min_stake E s' = clock_min_stake E s"
  shows "pool_nodes E s' = pool_nodes E s"
  using assms by (simp add: pool_nodes_def)

text \<open>
  A slashed clock keeps its place in the quorum through its pool: slashing zeroes the stake of
  the registration record only, so a clock whose \<open>role_stake\<close> pool reaches the minimum is still in
  the registered set after its double sign has been punished.
\<close>

theorem slashed_clock_stays_registered:
  assumes run: "apply_ClockDoubleSignEvidence E sub off e ha ta siga hb tb sigb s = (Inr (), s')"
    and wf: "wf_chain s" and pool: "off \<in> set (pool_nodes E s)"
  shows "off \<in> set (registered_clock_nodes E s' e')"
proof -
  from run obtain n pk b1 s1 b2 s2 b3 s3 where
    c: "credit sub NATIVE_TOKEN (n div 10) s = (Inr b1, s1)"
      "credit ''__legal__'' NATIVE_TOKEN (n div 10) s1 = (Inr b2, s2)"
      "credit ''__recycle_fund__'' NATIVE_TOKEN (n - n div 10 - n div 10) s2 = (Inr b3, s3)"
    and s': "s' = s3\<lparr>cf_meta := kv_put (slash_guard_key off e) (Text ''1'') (kv_put (clock_reg_key off)
      (Json (jobj [(''node_id'', JStr off), (''stake'', JNum 0), (''pubkey'', JStr pk),
        (''slashed_epoch'', JNum e)])) (cf_meta s3))\<rparr>"
    by (rule slash_steps)
  have m3: "cf_meta s3 = cf_meta s"
    using keepsD [OF keeps_credit(3) c(1)] keepsD [OF keeps_credit(3) c(2)] keepsD [OF keeps_credit(3) c(3)] by simp
  have sorted: "kv_sorted (cf_meta s)"
    using wf by (simp add: wf_chain_def)
  have keys: "\<not> prefix ''role_stake:clock:'' (slash_guard_key off e)"
    "\<not> prefix ''role_stake:clock:'' (clock_reg_key off)"
    by (simp_all add: slash_guard_key_def clock_reg_key_def)
  have "pool_nodes E s' = pool_nodes E s"
  proof (rule pool_nodes_frame)
    show "state_scan_prefix s' ''role_stake:clock:'' = state_scan_prefix s ''role_stake:clock:''"
      using keys sorted by (simp add: s' m3 state_scan_prefix_def kvi.scan_put_other kv_sorted_put)
    show "clock_min_stake E s' = clock_min_stake E s"
      by (simp add: s' m3 clock_min_stake_def state_u64_def state_json_def state_get_def slash_guard_key_def
          clock_reg_key_def)
  qed
  with pool pool_subset [of E s' e'] show ?thesis by auto
qed

definition demo_pool :: chain where
  "demo_pool = demo_chain\<lparr>cf_meta := [
     (clock_reg_key ''n1'', Json (jobj [(''stake'', JNum 25), (''pubkey'', JStr demo_key)])),
     (role_stake_key ''clock'' ''n1'' ''n1'', Json (jobj [(''amount'', JNum 60000000000)]))]\<rparr>"

theorem slashed_clock_stays_registered_witness:
  "''n1'' \<in> set (registered_clock_nodes demo_env (snd (apply_ClockDoubleSignEvidence demo_env ''sub'' ''n1'' 5
     ''ha'' 1 demo_sig ''hb'' 2 demo_sig demo_pool)) 200000)"
proof (rule slashed_clock_stays_registered)
  show "apply_ClockDoubleSignEvidence demo_env ''sub'' ''n1'' 5 ''ha'' 1 demo_sig ''hb'' 2 demo_sig demo_pool =
    (Inr (), snd (apply_ClockDoubleSignEvidence demo_env ''sub'' ''n1'' 5 ''ha'' 1 demo_sig ''hb'' 2 demo_sig demo_pool))"
    by (simp add: apply_ClockDoubleSignEvidence_def demo_pool_def demo_chain_def run_simps act_simps)
      (simp add: demo_env_def)
  show "wf_chain demo_pool"
    by (simp add: demo_pool_def demo_chain_def empty_chain_def wf_chain_def kv_sorted_def balance_key_def
        clock_reg_key_def role_stake_key_def)
  show "''n1'' \<in> set (pool_nodes demo_env demo_pool)"
    by (simp add: pool_nodes_def add_backing_def strip_prefix_def before_last_colon_def demo_pool_def
        demo_chain_def run_simps)
qed

end
