(* ===== verification/Governance.thy ===== *)
theory Governance
  imports Accounts
begin

text \<open>
  On-chain governance (\<open>src/chain.rs\<close>, \<open>src/tx.rs\<close>): proposals by the council, one vote per staked
  account, and the drain at each sealed epoch that closes the proposals whose window has passed and
  executes the action of those that passed.

  The state machine is the relation \<open>gov_step\<close>; its invariant is that the two counters of an open
  proposal are the numbers of the vote records kept beside it. From it follow that an account votes
  at most once and that the drain decides every proposal by its vote records.
\<close>

section \<open>Operations\<close>

definition governance_keys :: "env \<Rightarrow> chain \<Rightarrow> string list" where
  "governance_keys E s =
    (case Option.bind (state_json E s ''chain_param:governance_keys'') as_strs of
       Some ks \<Rightarrow> ks
     | None \<Rightarrow> [''shindevlin'', ''natoshisakamoto'', ''josh''])"

definition prop_key :: "string \<Rightarrow> string" where
  "prop_key proposal_id = ''governance:proposal:'' @ proposal_id"

definition vote_key :: "string \<Rightarrow> string \<Rightarrow> string" where
  "vote_key proposal_id voter = ''governance:vote:'' @ proposal_id @ '':'' @ voter"

definition apply_GovernancePropose ::
  "env \<Rightarrow> string \<Rightarrow> string \<Rightarrow> string \<Rightarrow> string \<Rightarrow> string \<Rightarrow> string option \<Rightarrow> string option \<Rightarrow>
    u64 \<Rightarrow> u64 \<Rightarrow> unit chain_act" where
  "apply_GovernancePropose E proposal_id proposer title description action action_key action_value
     voting_ends_epoch epoch =
     andThen (reads (\<lambda>s. governance_keys E s)) (\<lambda>council.
     seq (ensure (proposer \<in> set council) (Err ''account is not in the governance council''))
    (seq (ensure (proposal_id \<noteq> []) (Err ''proposal_id cannot be empty''))
    (andThen (reads (\<lambda>s. state_get s (prop_key proposal_id))) (\<lambda>existing.
     seq (ensure (existing = None) (Err ''proposal already exists''))
         (state_set (prop_key proposal_id) (Json (jobj [
            (''proposal_id'', JStr proposal_id), (''proposer'', JStr proposer),
            (''title'', JStr title), (''description'', JStr description),
            (''action'', JStr action), (''action_key'', jopt_str action_key),
            (''action_value'', jopt_str action_value),
            (''voting_ends_epoch'', JNum voting_ends_epoch), (''submitted_epoch'', JNum epoch),
            (''yes_votes'', JNum 0), (''no_votes'', JNum 0), (''status'', JStr ''open'')])))))))"

text \<open>\<open>state_get(k).ok_or(...)?\<close> followed by \<open>from_slice(&raw)?\<close>: two different errors.\<close>

definition load_proposal :: "env \<Rightarrow> string \<Rightarrow> json chain_act" where
  "load_proposal E proposal_id =
     andThen (reads (\<lambda>s. state_get s (prop_key proposal_id))) (\<lambda>found.
     andThen (need found (Err ''proposal not found'')) (\<lambda>raw.
     need (as_json E raw) (Err ''invalid JSON'')))"

definition apply_GovernanceVote ::
  "env \<Rightarrow> string \<Rightarrow> string \<Rightarrow> bool \<Rightarrow> u64 \<Rightarrow> unit chain_act" where
  "apply_GovernanceVote E proposal_id voter approve epoch =
     andThen (load_proposal E proposal_id) (\<lambda>proposal.
     seq (ensure (as_str (jget proposal ''status'') = Some ''open'') (Err ''proposal is not open for voting''))
    (seq (ensure (epoch \<le> the_u64 proposal ''voting_ends_epoch'' 0) (Err ''voting closed''))
    (andThen (reads (\<lambda>s. get_stake s voter)) (\<lambda>stake.
     seq (ensure (stake > 0) (Err ''account has no stake''))
    (andThen (reads (\<lambda>s. state_get s (vote_key proposal_id voter))) (\<lambda>cast.
     seq (ensure (cast = None) (Err ''account has already voted''))
    (seq (state_set (vote_key proposal_id voter)
            (Json (jobj [(''approve'', JBool approve), (''epoch'', JNum epoch)])))
    (andThen (with_fields proposal
        (if approve then [(''yes_votes'', JNum (the_u64 proposal ''yes_votes'' 0 + 1))]
         else [(''no_votes'', JNum (the_u64 proposal ''no_votes'' 0 + 1))])) (\<lambda>proposal'.
     state_set (prop_key proposal_id) (Json proposal'))))))))))"

text \<open>The match on the action of a passed proposal; any other action only signals.\<close>

definition execute_action :: "env \<Rightarrow> json \<Rightarrow> unit chain_act" where
  "execute_action E proposal =
    (let action = the_str proposal ''action'' []; akey = the_str proposal ''action_key'' [];
         aval = the_str proposal ''action_value'' [] in
     if action = ''param_set'' \<and> akey \<noteq> [] then state_set (''chain_param:'' @ akey) (Text aval)
     else if action = ''council_add'' \<and> akey \<noteq> [] then
       andThen (reads (\<lambda>s. governance_keys E s)) (\<lambda>council.
       when_do (akey \<notin> set council)
         (state_set ''chain_param:governance_keys'' (Json (jstrs (council @ [akey])))))
     else if action = ''council_remove'' \<and> akey \<noteq> [] then
       andThen (reads (\<lambda>s. filter (\<lambda>a. a \<noteq> akey) (governance_keys E s))) (\<lambda>council.
       state_set ''chain_param:governance_keys'' (Json (jstrs council)))
     else ret ())"

definition apply_GovernanceFinalize ::
  "env \<Rightarrow> string \<Rightarrow> string \<Rightarrow> u64 \<Rightarrow> u64 \<Rightarrow> u64 \<Rightarrow> unit chain_act" where
  "apply_GovernanceFinalize E proposal_id outcome yes_votes no_votes epoch =
     andThen (load_proposal E proposal_id) (\<lambda>proposal.
     seq (ensure (as_str (jget proposal ''status'') = Some ''open'') (Err ''proposal already finalized''))
    (andThen (with_fields proposal [
        (''status'', JStr outcome), (''yes_votes'', JNum yes_votes), (''no_votes'', JNum no_votes),
        (''finalized_epoch'', JNum epoch)]) (\<lambda>proposal'.
     seq (when_do (outcome = ''passed'') (execute_action E proposal'))
         (state_set (prop_key proposal_id) (Json proposal')))))"

definition outcome_of :: "u64 \<Rightarrow> u64 \<Rightarrow> string" where
  "outcome_of yes no =
    (if yes + no < 2 then ''no_quorum'' else if yes > no then ''passed'' else ''rejected'')"

definition drain_proposal :: "env \<Rightarrow> u64 \<Rightarrow> string \<times> val \<Rightarrow> unit chain_act" where
  "drain_proposal E current r =
    (case as_json E (snd r) of
       None \<Rightarrow> ret ()
     | Some proposal \<Rightarrow>
        if as_str (jget proposal ''status'') \<noteq> Some ''open'' then ret ()
        else if current \<le> the_u64 proposal ''voting_ends_epoch'' u64_max then ret ()
        else (case as_str (jget proposal ''proposal_id'') of
                None \<Rightarrow> ret ()
              | Some proposal_id \<Rightarrow>
                  let yes = the_u64 proposal ''yes_votes'' 0; no = the_u64 proposal ''no_votes'' 0 in
                  seq (attempt (apply_GovernanceFinalize E proposal_id (outcome_of yes no) yes no current))
                      (ret ())))"

definition drain_governance_proposals :: "env \<Rightarrow> u64 \<Rightarrow> unit chain_act" where
  "drain_governance_proposals E current =
     andThen (reads (\<lambda>s. state_scan_prefix s ''governance:proposal:'')) (each (drain_proposal E current))"

section \<open>Steps\<close>

text \<open>A proposal or voter name is plain when it does not contain the separator of the keys.\<close>

definition plain_id :: "string \<Rightarrow> bool" where
  "plain_id i \<longleftrightarrow> CHR '':'' \<notin> set i"

inductive gov_step :: "env \<Rightarrow> chain \<Rightarrow> chain \<Rightarrow> bool" for E where
  propose: "gov_step E s (snd (apply_GovernancePropose E p a t d act k v ends e s))"
| vote: "plain_id p \<Longrightarrow> gov_step E s (snd (apply_GovernanceVote E p a ok e s))"
| drain: "gov_step E s (snd (drain_governance_proposals E e s))"

definition gov_reach :: "env \<Rightarrow> chain \<Rightarrow> chain \<Rightarrow> bool" where
  "gov_reach E = (gov_step E)\<^sup>*\<^sup>*"


section \<open>Counters and vote records\<close>

definition vote_share :: "env \<Rightarrow> string \<Rightarrow> bool \<Rightarrow> string \<Rightarrow> val \<Rightarrow> int" where
  "vote_share E p b k v =
    (if prefix (vote_key p []) k \<and>
        Option.bind (as_json E v) (\<lambda>j. as_bool (jget j ''approve'')) = Some b then 1 else 0)"

text \<open>The number of recorded votes for (\<open>True\<close>) or against (\<open>False\<close>) a proposal.\<close>

definition votes_cast :: "env \<Rightarrow> string \<Rightarrow> bool \<Rightarrow> chain \<Rightarrow> int" where
  "votes_cast E p b s = kv_sum (vote_share E p b) (cf_meta s)"

definition proposal_open :: "json \<Rightarrow> bool" where
  "proposal_open j \<longleftrightarrow> as_str (jget j ''status'') = Some ''open''"

definition counts_ok :: "env \<Rightarrow> chain \<Rightarrow> string \<Rightarrow> json \<Rightarrow> bool" where
  "counts_ok E s p j \<longleftrightarrow>
     the_u64 j ''yes_votes'' 0 = word_of_int (votes_cast E p True s) \<and>
     the_u64 j ''no_votes'' 0 = word_of_int (votes_cast E p False s)"

definition proposal_ok :: "env \<Rightarrow> chain \<Rightarrow> string \<Rightarrow> json \<Rightarrow> bool" where
  "proposal_ok E s p j \<longleftrightarrow> (\<exists>m. j = JObj m) \<and> jget j ''proposal_id'' = JStr p \<and>
     (proposal_open j \<and> plain_id p \<longrightarrow> counts_ok E s p j)"

definition slot_ok :: "env \<Rightarrow> chain \<Rightarrow> string \<Rightarrow> bool" where
  "slot_ok E s p \<longleftrightarrow>
    (case state_get s (prop_key p) of
       None \<Rightarrow> plain_id p \<longrightarrow> (\<forall>b. votes_cast E p b s = 0)
     | Some v \<Rightarrow> (\<exists>j. v = Json j \<and> proposal_ok E s p j))"

definition gov_inv :: "env \<Rightarrow> chain \<Rightarrow> bool" where
  "gov_inv E s \<longleftrightarrow> wf_chain s \<and> (\<forall>p. slot_ok E s p)"

lemma prop_key_inject [simp]: "prop_key p = prop_key q \<longleftrightarrow> p = q"
  by (simp add: prop_key_def)

lemma vote_key_neq_prop [simp]: "vote_key p a \<noteq> prop_key q" "prop_key q \<noteq> vote_key p a"
  by (simp_all add: vote_key_def prop_key_def)

lemma vote_prefix_key [simp]:
  "plain_id p \<Longrightarrow> plain_id q \<Longrightarrow> prefix (vote_key p []) (vote_key q a) \<longleftrightarrow> p = q"
  by (auto simp: vote_key_def plain_id_def prefix_def append_sep_eq)

lemma vote_prefix_prop [simp]: "\<not> prefix (vote_key p []) (prop_key q)"
  by (simp add: vote_key_def prop_key_def)

lemma votes_put:
  "votes_cast E p b (s\<lparr>cf_meta := kv_put k v (cf_meta s)\<rparr>) =
    votes_cast E p b s + vote_share E p b k v - kv_at (vote_share E p b) (cf_meta s) k"
  by (simp add: votes_cast_def kv_sum_put)

lemma votes_put_other:
  "\<not> prefix (vote_key p []) k \<Longrightarrow>
    votes_cast E p b (s\<lparr>cf_meta := kv_put k v (cf_meta s)\<rparr>) = votes_cast E p b s"
  by (simp add: votes_put vote_share_def kv_at_def split: option.split)

lemma votes_put_vote:
  assumes "state_get s (vote_key q a) = None" "plain_id p" "plain_id q"
  shows "votes_cast E p b (s\<lparr>cf_meta := kv_put (vote_key q a)
        (Json (jobj [(''approve'', JBool ok), (''epoch'', JNum e)])) (cf_meta s)\<rparr>) =
    votes_cast E p b s + (if p = q \<and> b = ok then 1 else 0)"
  using assms by (auto simp: votes_put vote_share_def kv_at_def state_get_def)

lemma wf_put_meta: "wf_chain s \<Longrightarrow> wf_chain (s\<lparr>cf_meta := kv_put k v (cf_meta s)\<rparr>)"
  by (simp add: wf_chain_def kv_sorted_put)

lemma slot_ok_cong:
  assumes "state_get s' (prop_key p) = state_get s (prop_key p)"
    and "\<And>b. plain_id p \<Longrightarrow> votes_cast E p b s' = votes_cast E p b s"
  shows "slot_ok E s' p = slot_ok E s p"
  using assms unfolding slot_ok_def proposal_ok_def counts_ok_def by (auto split: option.split)

lemma proposal_ok_put:
  "\<not> prefix (vote_key p []) k \<Longrightarrow>
    proposal_ok E (s\<lparr>cf_meta := kv_put k w (cf_meta s)\<rparr>) p j = proposal_ok E s p j"
  by (simp add: proposal_ok_def counts_ok_def votes_put_other)

lemma gov_inv_put_prop:
  assumes "gov_inv E s" "proposal_ok E s p j"
  shows "gov_inv E (s\<lparr>cf_meta := kv_put (prop_key p) (Json j) (cf_meta s)\<rparr>)" (is "gov_inv E ?s")
proof -
  have "slot_ok E ?s q" for q
  proof (cases "q = p")
    case True
    with assms(2) show ?thesis by (simp add: slot_ok_def state_get_def proposal_ok_put)
  next
    case False
    then have "slot_ok E ?s q = slot_ok E s q"
      by (intro slot_ok_cong) (simp_all add: state_get_def votes_put_other)
    with assms(1) show ?thesis by (simp add: gov_inv_def)
  qed
  with assms(1) show ?thesis by (simp add: gov_inv_def wf_put_meta)
qed

lemma gov_inv_put_other:
  assumes "gov_inv E s" "\<not> prefix ''governance:'' k"
  shows "gov_inv E (s\<lparr>cf_meta := kv_put k v (cf_meta s)\<rparr>)" (is "gov_inv E ?s")
proof -
  have "k \<noteq> prop_key p" "\<not> prefix (vote_key p []) k" for p
    using assms(2) by (auto simp: prop_key_def vote_key_def prefix_def)
  then have "slot_ok E ?s p = slot_ok E s p" for p
    by (intro slot_ok_cong) (auto simp: state_get_def votes_put_other)
  with assms(1) show ?thesis by (simp add: gov_inv_def wf_put_meta)
qed

lemma gov_inv_propose:
  assumes "gov_inv E s"
  shows "gov_inv E (snd (apply_GovernancePropose E p a t d act k v ends e s))"
proof -
  have "proposal_ok E s p (jobj [
      (''proposal_id'', JStr p), (''proposer'', JStr a), (''title'', JStr t),
      (''description'', JStr d), (''action'', JStr act), (''action_key'', jopt_str k),
      (''action_value'', jopt_str v), (''voting_ends_epoch'', JNum ends),
      (''submitted_epoch'', JNum e), (''yes_votes'', JNum 0), (''no_votes'', JNum 0),
      (''status'', JStr ''open'')])" if "state_get s (prop_key p) = None"
    using assms that spec [of "slot_ok E s" p]
    by (auto simp: proposal_ok_def counts_ok_def gov_inv_def slot_ok_def jobj_def the_u64_def jget_def)
  with assms show ?thesis
    by (auto simp: apply_GovernancePropose_def state_set_def act_simps intro!: gov_inv_put_prop)
qed

lemma load_proposal_cases:
  assumes "gov_inv E s"
  obtains j where "state_get s (prop_key p) = Some (Json j)" "proposal_ok E s p j"
      "load_proposal E p s = (Inr j, s)"
    | "state_get s (prop_key p) = None" "load_proposal E p s = (Inl (Err ''proposal not found''), s)"
proof (cases "state_get s (prop_key p)")
  case None
  then show ?thesis by (auto intro: that(2) simp: load_proposal_def act_simps)
next
  case (Some v)
  with assms obtain j where "v = Json j" "proposal_ok E s p j"
    by (auto simp: gov_inv_def slot_ok_def dest!: spec [of _ p])
  with Some show ?thesis by (auto intro!: that(1) simp: load_proposal_def act_simps)
qed

lemma jsets_JObj: "\<exists>m'. jsets (JObj m) ups = Some (JObj m')"
proof (induction ups arbitrary: m)
  case Nil
  then show ?case by simp
next
  case (Cons u ups)
  then show ?case by (cases u) simp
qed

lemma jsets_jget:
  "jsets j ups = Some j' \<Longrightarrow>
    jget j' k = (case map_of (rev ups) k of Some v \<Rightarrow> v | None \<Rightarrow> jget j k)"
  by (simp add: jget_def jsets_jfield split: option.split)

text \<open>A vote writes its record and adds one to the matching counter.\<close>

lemma gov_inv_vote:
  assumes inv: "gov_inv E s" and p: "plain_id p"
  shows "gov_inv E (snd (apply_GovernanceVote E p a ok e s))"
  using inv
proof (cases rule: load_proposal_cases [where p = p])
  case 2
  with inv show ?thesis by (simp add: apply_GovernanceVote_def act_simps)
next
  case (1 j)
  let ?vk = "vote_key p a" and ?ups = "if ok then [(''yes_votes'', JNum (the_u64 j ''yes_votes'' 0 + 1))]
         else [(''no_votes'', JNum (the_u64 j ''no_votes'' 0 + 1))]"
  let ?s1 = "s\<lparr>cf_meta := kv_put ?vk (Json (jobj [(''approve'', JBool ok), (''epoch'', JNum e)])) (cf_meta s)\<rparr>"
  obtain m where m: "j = JObj m"
    using 1(2) by (auto simp: proposal_ok_def)
  obtain j' where j': "jsets j ?ups = Some j'" "\<exists>m. j' = JObj m"
    using jsets_JObj [of m ?ups] m by auto
  show ?thesis
  proof (cases "proposal_open j \<and> e \<le> the_u64 j ''voting_ends_epoch'' 0 \<and> 0 < get_stake s a \<and>
      state_get s ?vk = None")
    case False
    with inv 1 show ?thesis
      by (auto simp: apply_GovernanceVote_def act_simps proposal_open_def)
  next
    case True
    let ?s2 = "?s1\<lparr>cf_meta := kv_put (prop_key p) (Json j') (cf_meta ?s1)\<rparr>"
    have run: "snd (apply_GovernanceVote E p a ok e s) = ?s2"
      using True 1 j' by (simp add: apply_GovernanceVote_def act_simps proposal_open_def with_fields_def state_set_def)
    have votes: "votes_cast E q b ?s2 = votes_cast E q b s + (if q = p \<and> b = ok then 1 else 0)"
      if "plain_id q" for q b
      using that p True votes_put_vote [of s p a q E b ok e]
        votes_put_other [where p = q and k = "prop_key p" and s = ?s1 and v = "Json j'" and b = b and E = E] by simp
    have "proposal_ok E ?s2 p j'"
      using 1(2) True p j' votes [OF p]
      by (auto simp: proposal_ok_def counts_ok_def the_u64_def jsets_jget [OF j'(1)] proposal_open_def
          split: if_splits)
    then have "slot_ok E ?s2 q" for q
    proof (cases "q = p")
      case True
      with \<open>proposal_ok E ?s2 p j'\<close> show ?thesis by (simp add: slot_ok_def state_get_def)
    next
      case False
      with votes have "slot_ok E ?s2 q = slot_ok E s q"
        by (intro slot_ok_cong) (simp_all add: state_get_def)
      with inv show ?thesis by (simp add: gov_inv_def)
    qed
    with inv run show ?thesis
      by (simp add: gov_inv_def wf_put_meta [where s = ?s1, simplified] wf_put_meta)
  qed
qed

lemma gov_inv_execute: "preserves (gov_inv E) (execute_action E j)"
proof -
  have "preserves (gov_inv E) (state_set k v)" if "prefix ''chain_param:'' k" for k v
    using that by (auto simp: preserves_def state_set_def act_simps prefix_def intro!: gov_inv_put_other)
  then show ?thesis
    unfolding execute_action_def by (intro preserves_intros) simp_all
qed

lemma execute_get:
  "execute_action E j s = (r, s') \<Longrightarrow> \<not> prefix ''chain_param:'' k \<Longrightarrow> state_get s' k = state_get s k"
  by (auto simp: execute_action_def state_set_def state_get_def act_simps prefix_def Let_def
      split: if_splits)

lemma execute_result: "\<exists>s'. execute_action E j s = (Inr (), s')"
  by (simp add: execute_action_def state_set_def act_simps Let_def)

definition finalized :: "json \<Rightarrow> string \<Rightarrow> u64 \<Rightarrow> u64 \<Rightarrow> u64 \<Rightarrow> json" where
  "finalized j outcome yes no e = the (jsets j [(''status'', JStr outcome), (''yes_votes'', JNum yes),
     (''no_votes'', JNum no), (''finalized_epoch'', JNum e)])"

lemma finalize_open:
  assumes inv: "gov_inv E s" and rec: "state_get s (prop_key p) = Some (Json j)" "proposal_open j"
    and out: "outcome \<noteq> ''open''"
  obtains s1 where
    "apply_GovernanceFinalize E p outcome yes no e s =
       (Inr (), s1\<lparr>cf_meta := kv_put (prop_key p) (Json (finalized j outcome yes no e)) (cf_meta s1)\<rparr>)"
    "if outcome = ''passed'' then execute_action E (finalized j outcome yes no e) s = (Inr (), s1) else s1 = s"
    "gov_inv E (s1\<lparr>cf_meta := kv_put (prop_key p) (Json (finalized j outcome yes no e)) (cf_meta s1)\<rparr>)"
proof -
  let ?j = "finalized j outcome yes no e"
  from inv rec have ok: "proposal_ok E s p j"
    by (auto simp: gov_inv_def slot_ok_def dest!: spec [of _ p])
  then obtain m where "j = JObj m" by (auto simp: proposal_ok_def)
  then have j': "jsets j [(''status'', JStr outcome), (''yes_votes'', JNum yes),
     (''no_votes'', JNum no), (''finalized_epoch'', JNum e)] = Some ?j" "\<exists>m. ?j = JObj m"
    by (simp_all add: finalized_def)
  define s1 where "s1 = (if outcome = ''passed'' then snd (execute_action E ?j s) else s)"
  have ex: "execute_action E ?j s = (Inr (), snd (execute_action E ?j s))"
    using execute_result [of E ?j s] by auto
  have "gov_inv E s1"
    using inv gov_inv_execute [of E ?j] ex by (auto simp: s1_def preserves_def)
  moreover have "proposal_ok E s1 p ?j"
    using ok j'(2) out by (auto simp: proposal_ok_def proposal_open_def jsets_jget [OF j'(1)])
  ultimately have "gov_inv E (s1\<lparr>cf_meta := kv_put (prop_key p) (Json ?j) (cf_meta s1)\<rparr>)"
    by (rule gov_inv_put_prop)
  moreover have "apply_GovernanceFinalize E p outcome yes no e s =
      (Inr (), s1\<lparr>cf_meta := kv_put (prop_key p) (Json ?j) (cf_meta s1)\<rparr>)"
    using rec j'(1) ex
    by (auto simp: apply_GovernanceFinalize_def load_proposal_def s1_def proposal_open_def
        with_fields_def state_set_def act_simps split: prod.splits sum.splits)
  moreover have "if outcome = ''passed'' then execute_action E ?j s = (Inr (), s1) else s1 = s"
    using ex by (cases "outcome = ''passed''") (auto simp: s1_def)
  ultimately show ?thesis using that by blast
qed


text \<open>What one drain does to a proposal record: an open one past its window is decided.\<close>

definition decided :: "u64 \<Rightarrow> json \<Rightarrow> json" where
  "decided e j =
    (if proposal_open j \<and> the_u64 j ''voting_ends_epoch'' u64_max < e
     then let yes = the_u64 j ''yes_votes'' 0; no = the_u64 j ''no_votes'' 0
          in finalized j (outcome_of yes no) yes no e
     else j)"

lemma outcome_not_open: "outcome_of yes no \<noteq> ''open''"
  by (simp add: outcome_of_def)

lemma drain_proposal_step:
  assumes inv: "gov_inv E s" and rec: "state_get s (prop_key p) = Some (Json j)"
  obtains s' where "drain_proposal E e (prop_key p, Json j) s = (Inr (), s')" "gov_inv E s'"
    "\<And>q. state_get s' (prop_key q) =
       (if q = p then Some (Json (decided e j)) else state_get s (prop_key q))"
proof (cases "proposal_open j \<and> the_u64 j ''voting_ends_epoch'' u64_max < e")
  case False
  then have "drain_proposal E e (prop_key p, Json j) s = (Inr (), s)" "decided e j = j"
    by (auto simp: drain_proposal_def decided_def proposal_open_def act_simps not_less)
  with inv rec that [of s] show ?thesis by simp
next
  case True
  let ?yes = "the_u64 j ''yes_votes'' 0" and ?no = "the_u64 j ''no_votes'' 0"
  from inv rec have "jget j ''proposal_id'' = JStr p"
    by (auto simp: gov_inv_def slot_ok_def proposal_ok_def dest!: spec [of _ p])
  then have run: "drain_proposal E e (prop_key p, Json j) s =
      seq (attempt (apply_GovernanceFinalize E p (outcome_of ?yes ?no) ?yes ?no e)) (ret ()) s"
    using True by (simp add: drain_proposal_def proposal_open_def Let_def not_le [symmetric])
  have dec: "decided e j = finalized j (outcome_of ?yes ?no) ?yes ?no e"
    using True by (simp add: decided_def Let_def)
  obtain s1 where s1:
    "apply_GovernanceFinalize E p (outcome_of ?yes ?no) ?yes ?no e s =
       (Inr (), s1\<lparr>cf_meta := kv_put (prop_key p) (Json (decided e j)) (cf_meta s1)\<rparr>)"
    "if outcome_of ?yes ?no = ''passed'' then execute_action E (decided e j) s = (Inr (), s1) else s1 = s"
    "gov_inv E (s1\<lparr>cf_meta := kv_put (prop_key p) (Json (decided e j)) (cf_meta s1)\<rparr>)"
    unfolding dec by (rule finalize_open [OF inv rec conjunct1 [OF True] outcome_not_open])
  have "state_get s1 (prop_key q) = state_get s (prop_key q)" for q
    using s1(2) execute_get [of E "decided e j" s "Inr ()" s1 "prop_key q"]
    by (auto simp: prop_key_def split: if_splits)
  then have "state_get (s1\<lparr>cf_meta := kv_put (prop_key p) (Json (decided e j)) (cf_meta s1)\<rparr>) (prop_key q) =
       (if q = p then Some (Json (decided e j)) else state_get s (prop_key q))" for q
    by (simp add: state_get_def)
  with that s1 run show ?thesis by (simp add: act_simps)
qed

lemma drain_each_proposal:
  assumes "gov_inv E s" "distinct (map fst rs)"
    and "\<forall>r \<in> set rs. \<exists>p j. r = (prop_key p, Json j) \<and> state_get s (prop_key p) = Some (Json j)"
  shows "\<exists>s'. each (drain_proposal E e) rs s = (Inr (), s') \<and> gov_inv E s' \<and>
    (\<forall>q. state_get s' (prop_key q) =
      (case map_of rs (prop_key q) of
         Some v \<Rightarrow> (case v of Json j \<Rightarrow> Some (Json (decided e j)) | _ \<Rightarrow> Some v)
       | None \<Rightarrow> state_get s (prop_key q)))"
  using assms
proof (induction rs arbitrary: s)
  case Nil
  then show ?case by (simp add: act_simps)
next
  case (Cons r rs)
  then obtain p j where r: "r = (prop_key p, Json j)" "state_get s (prop_key p) = Some (Json j)"
    by auto
  obtain s1 where s1: "drain_proposal E e r s = (Inr (), s1)" "gov_inv E s1"
    "\<And>q. state_get s1 (prop_key q) =
       (if q = p then Some (Json (decided e j)) else state_get s (prop_key q))"
    using drain_proposal_step [OF Cons.prems(1) r(2), of e] r(1) by metis
  have fresh: "prop_key p \<notin> fst ` set rs" and d: "distinct (map fst rs)"
    using Cons.prems(2) r(1) by auto
  then have none: "map_of rs (prop_key p) = None"
    by (simp add: map_of_eq_None_iff)
  have rest: "\<forall>r' \<in> set rs. \<exists>q i. r' = (prop_key q, Json i) \<and> state_get s1 (prop_key q) = Some (Json i)"
  proof
    fix r' assume r': "r' \<in> set rs"
    then obtain q i where q: "r' = (prop_key q, Json i)" "state_get s (prop_key q) = Some (Json i)"
      using Cons.prems(3) by force
    moreover have "q \<noteq> p"
      using fresh r' q(1) by force
    ultimately show "\<exists>q i. r' = (prop_key q, Json i) \<and> state_get s1 (prop_key q) = Some (Json i)"
      using s1(3) by auto
  qed
  from Cons.IH [OF s1(2) d rest] obtain s' where s': "each (drain_proposal E e) rs s1 = (Inr (), s')"
    "gov_inv E s'" "\<And>q. state_get s' (prop_key q) =
      (case map_of rs (prop_key q) of
         Some v \<Rightarrow> (case v of Json j \<Rightarrow> Some (Json (decided e j)) | _ \<Rightarrow> Some v)
       | None \<Rightarrow> state_get s1 (prop_key q))"
    by blast
  have "state_get s' (prop_key q) =
      (case map_of (r # rs) (prop_key q) of
         Some v \<Rightarrow> (case v of Json j \<Rightarrow> Some (Json (decided e j)) | _ \<Rightarrow> Some v)
       | None \<Rightarrow> state_get s (prop_key q))" for q
    using s'(3) [of q] s1(3) [of q] none r(1)
    by (cases "q = p"; cases "map_of rs (prop_key q)") simp_all
  with s'(1, 2) s1(1) show ?case
    by (auto simp: act_simps)
qed

lemma drain_decides:
  assumes inv: "gov_inv E s"
  shows "\<exists>s'. drain_governance_proposals E e s = (Inr (), s') \<and> gov_inv E s' \<and>
    (\<forall>p. state_json E s' (prop_key p) = map_option (decided e) (state_json E s (prop_key p)))"
proof -
  let ?rs = "state_scan_prefix s ''governance:proposal:''"
  have wf: "kv_sorted (cf_meta s)"
    using inv by (simp add: gov_inv_def wf_chain_def)
  have mem: "(k, v) \<in> set ?rs \<longleftrightarrow> prefix ''governance:proposal:'' k \<and> state_get s k = Some v" for k v
    using set_kv_scan [OF wf] by (simp add: state_scan_prefix_def state_get_def)
  have d: "distinct (map fst ?rs)"
    using kv_sorted_distinct [OF wf] kv_scan_filter [OF wf]
    by (simp add: state_scan_prefix_def distinct_map_filter)
  have json: "\<exists>j. v = Json j" if "state_get s (prop_key p) = Some v" for p v
    using inv that by (auto simp: gov_inv_def slot_ok_def dest!: spec [of _ p])
  have recs: "\<forall>r \<in> set ?rs. \<exists>p j. r = (prop_key p, Json j) \<and> state_get s (prop_key p) = Some (Json j)"
    using mem json by (fastforce simp: prop_key_def prefix_def)
  have map_of: "map_of ?rs (prop_key p) = state_get s (prop_key p)" for p
  proof (cases "state_get s (prop_key p)")
    case None
    then have "prop_key p \<notin> fst ` set ?rs" using mem by auto
    with None show ?thesis by (simp add: map_of_eq_None_iff)
  next
    case (Some v)
    then have "(prop_key p, v) \<in> set ?rs" using mem by (simp add: prop_key_def)
    with d Some show ?thesis by simp
  qed
  from drain_each_proposal [OF inv d recs, of e] obtain s'
    where s': "each (drain_proposal E e) ?rs s = (Inr (), s')" "gov_inv E s'"
      "\<And>p. state_get s' (prop_key p) =
        (case state_get s (prop_key p) of
           Some v \<Rightarrow> (case v of Json j \<Rightarrow> Some (Json (decided e j)) | _ \<Rightarrow> Some v)
         | None \<Rightarrow> state_get s (prop_key p))"
    unfolding map_of by blast
  have "state_json E s' (prop_key p) = map_option (decided e) (state_json E s (prop_key p))" for p
    using s'(3) [of p] json [of p] by (auto simp: state_json_def split: option.splits)
  with s' show ?thesis
    by (auto simp: drain_governance_proposals_def act_simps)
qed

lemma gov_inv_step: "gov_step E s s' \<Longrightarrow> gov_inv E s \<Longrightarrow> gov_inv E s'"
proof (induction rule: gov_step.induct)
  case (drain s e)
  then show ?case using drain_decides [of E s e] by auto
qed (simp_all add: gov_inv_propose gov_inv_vote)

lemma gov_inv_reach: "gov_reach E s s' \<Longrightarrow> gov_inv E s \<Longrightarrow> gov_inv E s'"
  unfolding gov_reach_def by (induction rule: rtranclp_induct) (auto intro: gov_inv_step)


section \<open>Properties\<close>

text \<open>A state in which nothing has been proposed or voted, and the vote records of a proposal.\<close>

definition gov_start :: "chain \<Rightarrow> bool" where
  "gov_start s \<longleftrightarrow> wf_chain s \<and> state_scan_prefix s ''governance:'' = []"

definition vote_records :: "env \<Rightarrow> string \<Rightarrow> bool \<Rightarrow> chain \<Rightarrow> (string \<times> val) list" where
  "vote_records E p b s =
     filter (\<lambda>r. Option.bind (as_json E (snd r)) (\<lambda>j. as_bool (jget j ''approve'')) = Some b)
       (state_scan_prefix s (vote_key p []))"

lemma kv_sum_list: "kv_sorted m \<Longrightarrow> kv_sum f m = (\<Sum>(k, v) \<leftarrow> m. f k v)"
proof -
  assume m: "kv_sorted m"
  then have d: "distinct (map fst m)" by (rule kv_sorted_distinct)
  have "kv_sum f m = (\<Sum>e \<in> set m. f (fst e) (the (kv_get m (fst e))))"
    unfolding kv_sum_def using d by (simp add: sum.reindex distinct_map)
  also have "\<dots> = (\<Sum>e \<in> set m. f (fst e) (snd e))"
    using d by (intro sum.cong) (auto simp: kv_get_def)
  also have "\<dots> = (\<Sum>e \<leftarrow> m. f (fst e) (snd e))"
    using d by (simp add: sum_list_distinct_conv_sum_set distinct_map)
  finally show ?thesis by (simp add: case_prod_unfold)
qed

lemma sum_list_indicator: "(\<Sum>x \<leftarrow> xs. if P x then 1 else 0) = int (length (filter P xs))"
  by (induction xs) simp_all

lemma votes_cast_records:
  assumes "wf_chain s"
  shows "votes_cast E p b s = int (length (vote_records E p b s))"
proof -
  have m: "kv_sorted (cf_meta s)" using assms by (simp add: wf_chain_def)
  show ?thesis
    unfolding votes_cast_def kv_sum_list [OF m] vote_records_def vote_share_def
    by (simp add: case_prod_unfold sum_list_indicator state_scan_prefix_def kv_scan_filter [OF m]
        conj_commute)
qed

lemma gov_inv_start:
  assumes "gov_start s"
  shows "gov_inv E s"
proof -
  have m: "kv_sorted (cf_meta s)" and wf: "wf_chain s" using assms by (simp_all add: gov_start_def wf_chain_def)
  have none: "state_get s k = None" if "prefix ''governance:'' k" for k
    using assms that kvi.scan_empty_iff [OF m] by (simp add: gov_start_def state_scan_prefix_def state_get_def)
  have "state_scan_prefix s (vote_key p []) = []" for p
    using none kvi.scan_empty_iff [OF m]
    by (auto simp: state_scan_prefix_def state_get_def vote_key_def prefix_def)
  then have "votes_cast E p b s = 0" for p b
    by (simp add: votes_cast_records [OF wf] vote_records_def)
  with wf none show ?thesis
    by (simp add: gov_inv_def slot_ok_def prop_key_def)
qed

lemma gov_inv_reachable: "gov_start s \<Longrightarrow> gov_reach E s s' \<Longrightarrow> gov_inv E s'"
  by (blast intro: gov_inv_start gov_inv_reach)

lemma proposal_at:
  assumes "gov_inv E s" "state_json E s (prop_key p) = Some j"
  shows "proposal_ok E s p j"
proof -
  from assms(2) obtain v where "state_get s (prop_key p) = Some v" "as_json E v = Some j"
    by (auto simp: state_json_def bind_eq_Some_conv)
  moreover have "slot_ok E s p"
    using assms(1) by (simp add: gov_inv_def)
  ultimately show ?thesis by (auto simp: slot_ok_def)
qed

lemma counts_records:
  assumes "gov_inv E s" "state_json E s (prop_key p) = Some j" "proposal_open j" "plain_id p"
  shows "the_u64 j ''yes_votes'' 0 = word_of_nat (length (vote_records E p True s))"
    and "the_u64 j ''no_votes'' 0 = word_of_nat (length (vote_records E p False s))"
proof -
  from proposal_at [OF assms(1, 2)] assms(3, 4) have "counts_ok E s p j"
    by (simp add: proposal_ok_def)
  with assms(1) show "the_u64 j ''yes_votes'' 0 = word_of_nat (length (vote_records E p True s))"
    "the_u64 j ''no_votes'' 0 = word_of_nat (length (vote_records E p False s))"
    by (simp_all add: counts_ok_def gov_inv_def votes_cast_records)
qed

text \<open>
  (C22) In every state that proposals, votes and drains reach, the counters of an open proposal are
  the numbers of the vote records for and against it, for ids without the separator of the keys.
\<close>

theorem vote_counters_exact:
  assumes "gov_start s0" "gov_reach E s0 s" "state_json E s (prop_key p) = Some j"
    and "proposal_open j" "plain_id p"
  shows "the_u64 j ''yes_votes'' 0 = word_of_nat (length (vote_records E p True s)) \<and>
    the_u64 j ''no_votes'' 0 = word_of_nat (length (vote_records E p False s))"
  using counts_records [OF gov_inv_reachable assms(3-5)] assms(1, 2) by simp

lemma keeps_record:
  "preserves (\<lambda>s. state_get s k \<noteq> None) (state_set k' v)"
  by (auto simp: preserves_def state_set_def state_get_def act_simps)

lemma preserves_reads': "preserves P (load_proposal E p)"
  unfolding load_proposal_def by (intro preserves_intros)

lemma gov_step_records: "gov_step E s s' \<Longrightarrow> state_get s k \<noteq> None \<Longrightarrow> state_get s' k \<noteq> None"
proof (induction rule: gov_step.induct)
  case (propose s p a t d act k' v ends e)
  have "preserves (\<lambda>s. state_get s k \<noteq> None) (apply_GovernancePropose E p a t d act k' v ends e)"
    unfolding apply_GovernancePropose_def by (intro preserves_intros keeps_record)
  with propose show ?case by (simp add: preserves_def)
next
  case (vote p s a ok e)
  have "preserves (\<lambda>s. state_get s k \<noteq> None) (apply_GovernanceVote E p a ok e)"
    unfolding apply_GovernanceVote_def by (intro preserves_intros keeps_record preserves_reads')
  with vote show ?case by (simp add: preserves_def)
next
  case (drain s e)
  have "preserves (\<lambda>s. state_get s k \<noteq> None) (drain_governance_proposals E e)"
    unfolding drain_governance_proposals_def drain_proposal_def apply_GovernanceFinalize_def
      execute_action_def Let_def
    by (intro preserves_intros keeps_record preserves_reads')
  with drain show ?case by (simp add: preserves_def)
qed

text \<open>
  One vote per account and proposal: after a vote that was accepted, whatever governance
  operations follow, every further vote of the account on the proposal is refused and writes nothing.
\<close>

theorem vote_once:
  assumes "apply_GovernanceVote E p a ok e s = (Inr (), s1)" "gov_reach E s1 s2"
  shows "\<exists>err. apply_GovernanceVote E p a ok' e' s2 = (Inl err, s2)"
proof -
  have "state_get s1 (vote_key p a) \<noteq> None"
    using assms(1)
    by (auto simp: apply_GovernanceVote_def load_proposal_def with_fields_def state_set_def state_get_def
        andThen_Inr seq_Inr act_simps split: if_splits option.splits)
  with assms(2) have "state_get s2 (vote_key p a) \<noteq> None"
    unfolding gov_reach_def by (induction rule: rtranclp_induct) (auto dest: gov_step_records)
  then show ?thesis
    by (auto simp: apply_GovernanceVote_def load_proposal_def act_simps split: option.splits)
qed

text \<open>
  The drain at epoch \<open>e\<close> decides every open proposal whose window has passed by its vote
  records: fewer than two votes is no quorum, more votes for than against passes, anything else is
  rejected. It leaves every other proposal record as it was.
\<close>

theorem drain_decides_by_records:
  assumes "gov_start s0" "gov_reach E s0 s" "plain_id p"
    and rec: "state_json E s (prop_key p) = Some j"
    and yes: "yes = length (vote_records E p True s)" and no: "no = length (vote_records E p False s)"
    and fits: "yes + no < 2 ^ 64"
  shows "\<exists>s' j'. drain_governance_proposals E e s = (Inr (), s') \<and>
    state_json E s' (prop_key p) = Some j' \<and>
    (if proposal_open j \<and> the_u64 j ''voting_ends_epoch'' u64_max < e
     then the_str j' ''status'' [] =
       (if yes + no < 2 then ''no_quorum'' else if no < yes then ''passed'' else ''rejected'')
     else j' = j)"
proof -
  have inv: "gov_inv E s" using assms(1, 2) by (rule gov_inv_reachable)
  from drain_decides [OF inv, of e] rec obtain s'
    where s': "drain_governance_proposals E e s = (Inr (), s')"
      "state_json E s' (prop_key p) = Some (decided e j)"
    by auto
  have "the_str (decided e j) ''status'' [] =
      (if yes + no < 2 then ''no_quorum'' else if no < yes then ''passed'' else ''rejected'')"
    if op: "proposal_open j" and w: "the_u64 j ''voting_ends_epoch'' u64_max < e"
  proof -
    let ?y = "the_u64 j ''yes_votes'' 0" and ?n = "the_u64 j ''no_votes'' 0"
    have c: "unat ?y = yes" "unat ?n = no"
      using counts_records [OF inv rec op assms(3)] fits by (simp_all add: yes no unat_u64_of_nat)
    have "?y + ?n < 2 \<longleftrightarrow> yes + no < 2"
      using c fits by (simp add: u64_less_iff unat_u64_add)
    then have out: "outcome_of ?y ?n =
        (if yes + no < 2 then ''no_quorum'' else if no < yes then ''passed'' else ''rejected'')"
      using c by (simp add: outcome_of_def u64_less_iff)
    obtain m where m: "j = JObj m"
      using proposal_at [OF inv rec] by (auto simp: proposal_ok_def)
    have "the_str (decided e j) ''status'' [] = outcome_of ?y ?n"
      using op w by (simp add: decided_def finalized_def m the_str_def jget_def Let_def)
    with out show ?thesis by simp
  qed
  with s' show ?thesis by (auto simp: decided_def)
qed


section \<open>A run of the machine\<close>

definition demo_voters :: chain where
  "demo_voters = empty_chain\<lparr>cf_stakes := [(''ann'', 5), (''ben'', 7)]\<rparr>"

definition demo_proposed :: chain where
  "demo_proposed = snd (apply_GovernancePropose demo_env ''p1'' ''josh'' ''t'' ''d'' ''param_set''
     (Some ''x'') (Some ''9'') 3 1 demo_voters)"

definition demo_ann :: chain where
  "demo_ann = snd (apply_GovernanceVote demo_env ''p1'' ''ann'' True 2 demo_proposed)"

definition demo_ben :: chain where
  "demo_ben = snd (apply_GovernanceVote demo_env ''p1'' ''ben'' True 3 demo_ann)"

lemmas gov_run_simps = governance_keys_def prop_key_def vote_key_def apply_GovernancePropose_def
  load_proposal_def apply_GovernanceVote_def the_u64_def run_simps act_simps

lemma demo_proposed_eq:
  "demo_proposed = demo_voters\<lparr>cf_meta := [(''governance:proposal:p1'', Json (jobj [
     (''proposal_id'', JStr ''p1''), (''proposer'', JStr ''josh''), (''title'', JStr ''t''),
     (''description'', JStr ''d''), (''action'', JStr ''param_set''), (''action_key'', JStr ''x''),
     (''action_value'', JStr ''9''), (''voting_ends_epoch'', JNum 3), (''submitted_epoch'', JNum 1),
     (''yes_votes'', JNum 0), (''no_votes'', JNum 0), (''status'', JStr ''open'')]))]\<rparr>"
  by (simp add: demo_proposed_def demo_voters_def jopt_str_def gov_run_simps)

lemma demo_reach: "gov_start demo_voters" "gov_reach demo_env demo_voters demo_ben"
proof -
  show "gov_start demo_voters"
    by (simp add: gov_start_def demo_voters_def wf_chain_def kv_sorted_def run_simps kv_scan_def)
  have p: "plain_id ''p1''" by (simp add: plain_id_def)
  have "gov_step demo_env demo_voters demo_proposed"
    unfolding demo_proposed_def by (rule gov_step.propose)
  moreover have "gov_step demo_env demo_proposed demo_ann" "gov_step demo_env demo_ann demo_ben"
    unfolding demo_ann_def demo_ben_def by (rule gov_step.vote [OF p])+
  ultimately show "gov_reach demo_env demo_voters demo_ben"
    unfolding gov_reach_def by (blast intro: converse_rtranclp_into_rtranclp)
qed

lemma demo_ann_eq:
  "apply_GovernanceVote demo_env ''p1'' ''ann'' True 2 demo_proposed = (Inr (), demo_ann)"
  "demo_ann = demo_voters\<lparr>cf_meta := [(''governance:proposal:p1'', Json (jobj [
     (''proposal_id'', JStr ''p1''), (''proposer'', JStr ''josh''), (''title'', JStr ''t''),
     (''description'', JStr ''d''), (''action'', JStr ''param_set''), (''action_key'', JStr ''x''),
     (''action_value'', JStr ''9''), (''voting_ends_epoch'', JNum 3), (''submitted_epoch'', JNum 1),
     (''yes_votes'', JNum 0), (''no_votes'', JNum 0), (''status'', JStr ''open''),
     (''yes_votes'', JNum 1)])),
     (''governance:vote:p1:ann'', Json (jobj [(''approve'', JBool True), (''epoch'', JNum 2)]))]\<rparr>"
  by (simp_all add: demo_ann_def demo_proposed_eq demo_voters_def gov_run_simps)

lemma demo_ben_eq:
  "demo_ben = demo_voters\<lparr>cf_meta := [(''governance:proposal:p1'', Json (jobj [
     (''proposal_id'', JStr ''p1''), (''proposer'', JStr ''josh''), (''title'', JStr ''t''),
     (''description'', JStr ''d''), (''action'', JStr ''param_set''), (''action_key'', JStr ''x''),
     (''action_value'', JStr ''9''), (''voting_ends_epoch'', JNum 3), (''submitted_epoch'', JNum 1),
     (''yes_votes'', JNum 0), (''no_votes'', JNum 0), (''status'', JStr ''open''),
     (''yes_votes'', JNum 1), (''yes_votes'', JNum 2)])),
     (''governance:vote:p1:ann'', Json (jobj [(''approve'', JBool True), (''epoch'', JNum 2)])),
     (''governance:vote:p1:ben'', Json (jobj [(''approve'', JBool True), (''epoch'', JNum 3)]))]\<rparr>"
  by (simp add: demo_ben_def demo_ann_eq(2) demo_voters_def gov_run_simps)

definition demo_proposal :: json where
  "demo_proposal = the (state_json demo_env demo_ben (prop_key ''p1''))"

lemma demo_ben_facts:
  "state_json demo_env demo_ben (prop_key ''p1'') = Some demo_proposal"
  "proposal_open demo_proposal" "the_u64 demo_proposal ''voting_ends_epoch'' u64_max = 3"
  "length (vote_records demo_env ''p1'' True demo_ben) = 2"
  "length (vote_records demo_env ''p1'' False demo_ben) = 0"
  by (simp_all add: demo_proposal_def demo_ben_eq proposal_open_def vote_records_def kv_scan_def gov_run_simps)

theorem vote_counters_exact_witness:
  "the_u64 demo_proposal ''yes_votes'' 0 = 2 \<and> the_u64 demo_proposal ''no_votes'' 0 = 0"
  using vote_counters_exact [OF demo_reach demo_ben_facts(1, 2)] demo_ben_facts(4, 5)
  by (simp add: plain_id_def)

theorem vote_once_witness:
  "\<exists>err. apply_GovernanceVote demo_env ''p1'' ''ann'' False 2 demo_ben = (Inl err, demo_ben)"
proof (rule vote_once [OF demo_ann_eq(1)])
  have "gov_step demo_env demo_ann demo_ben"
    unfolding demo_ben_def by (rule gov_step.vote) (simp add: plain_id_def)
  then show "gov_reach demo_env demo_ann demo_ben" by (simp add: gov_reach_def)
qed

theorem drain_decides_by_records_witness:
  "\<exists>s' j'. drain_governance_proposals demo_env 4 demo_ben = (Inr (), s') \<and>
    state_json demo_env s' (prop_key ''p1'') = Some j' \<and> the_str j' ''status'' [] = ''passed''"
proof -
  have "plain_id ''p1''" by (simp add: plain_id_def)
  from drain_decides_by_records [OF demo_reach this demo_ben_facts(1) refl refl, of 4]
  show ?thesis by (simp add: demo_ben_facts)
qed

end
