(* ===== verification/Runtime.thy ===== *)
theory Runtime
  imports Staking
begin

text \<open>
  The decentralised runtime (\<open>src/chain.rs\<close>): runtimes with a bond in escrow, their deployment to
  hosts, jobs with an escrowed fee, leases, attestations that release the fee, challenges and
  slashes of the bond.

  A job goes from queued to claimed to completed. The lemmas show that the escrow moves conserve
  the native supply, that an attestation pays out its fee up to one unit of rounding, and that a
  job is paid at most once as long as its id is not enqueued again; a second enqueue of the same id
  replaces the record and strands the first fee.
\<close>

section \<open>Operations\<close>

definition RUNTIME_FEE_HOST_BPS :: u64 where
  "RUNTIME_FEE_HOST_BPS = 8000"

definition RUNTIME_FEE_RECYCLE_BPS :: u64 where
  "RUNTIME_FEE_RECYCLE_BPS = 2000"

definition runtime_key :: "string \<Rightarrow> string" where
  "runtime_key runtime_id = ''runtime:'' @ runtime_id"

definition job_key :: "string \<Rightarrow> string" where
  "job_key job_id = ''runtime_job:'' @ job_id"

definition lease_key :: "string \<Rightarrow> string" where
  "lease_key lease_id = ''runtime_lease:'' @ lease_id"

definition host_key :: "string \<Rightarrow> string" where
  "host_key host_id = ''runtime_host:'' @ host_id"

definition attest_key :: "string \<Rightarrow> string" where
  "attest_key attestation_id = ''runtime_attest:'' @ attestation_id"

definition bond_escrow :: "string \<Rightarrow> string" where
  "bond_escrow runtime_id = ''__runtime_bond_'' @ runtime_id @ ''__''"

definition job_escrow :: "string \<Rightarrow> string" where
  "job_escrow job_id = ''__runtime_job_escrow_'' @ job_id @ ''__''"

text \<open>\<open>state_get(k).and_then(|b| from_slice(&b).ok()).ok_or_else(...)?\<close>\<close>

definition load_json :: "env \<Rightarrow> string \<Rightarrow> string \<Rightarrow> json chain_act" where
  "load_json E key msg = andThen (reads (\<lambda>s. state_json E s key)) (\<lambda>found. need found (Err msg))"

text \<open>\<open>json["k"].as_str() == Some(v)\<close>.\<close>

definition field_is :: "json \<Rightarrow> string \<Rightarrow> string \<Rightarrow> bool" where
  "field_is j k v \<longleftrightarrow> as_str (jget j k) = Some v"

definition apply_RuntimeRegister ::
  "string \<Rightarrow> string \<Rightarrow> string \<Rightarrow> string \<Rightarrow> string \<Rightarrow> u64 \<Rightarrow> u64 \<Rightarrow> unit chain_act" where
  "apply_RuntimeRegister runtime_id owner manifest_cid runtime_class nonce bond epoch =
     andThen (reads (\<lambda>s. state_get s (runtime_key runtime_id))) (\<lambda>existing.
     seq (ensure (existing = None) (Err ''runtime already registered''))
    (seq (debit owner NATIVE_TOKEN bond)
    (seq (credit (bond_escrow runtime_id) NATIVE_TOKEN bond)
         (state_set (runtime_key runtime_id) (Json (jobj [
            (''runtime_id'', JStr runtime_id), (''owner'', JStr owner),
            (''manifest_cid'', JStr manifest_cid), (''runtime_class'', JStr runtime_class),
            (''nonce'', JStr nonce), (''bond'', JNum bond), (''status'', JStr ''registered''),
            (''created_epoch'', JNum epoch), (''updated_epoch'', JNum epoch)]))))))"

definition apply_RuntimeDeploy ::
  "env \<Rightarrow> string \<Rightarrow> string \<Rightarrow> string \<Rightarrow> string option \<Rightarrow> u64 \<Rightarrow> unit chain_act" where
  "apply_RuntimeDeploy E runtime_id owner host_id manifest_cid epoch =
     andThen (load_json E (runtime_key runtime_id) ''runtime not found'') (\<lambda>prev.
     seq (ensure (field_is prev ''owner'' owner) (Err ''only the runtime owner can deploy''))
    (let status = the_str prev ''status'' [] in
     seq (ensure (status = ''registered'' \<or> status = ''undeployed'')
            (Err ''runtime must be registered or undeployed to deploy''))
    (let manifest = (case manifest_cid of Some c \<Rightarrow> Some c | None \<Rightarrow> as_str (jget prev ''manifest_cid''))
     in
     seq (state_set (runtime_key runtime_id) (Json (jobj [
            (''runtime_id'', JStr runtime_id), (''owner'', JStr owner),
            (''manifest_cid'', jopt_str manifest), (''runtime_class'', jget prev ''runtime_class''),
            (''nonce'', jget prev ''nonce''), (''bond'', jget prev ''bond''),
            (''deploy_host'', JStr host_id), (''status'', JStr ''deployed''),
            (''created_epoch'', JNum (the_u64 prev ''created_epoch'' epoch)),
            (''deployed_epoch'', JNum epoch), (''updated_epoch'', JNum epoch)])))
         (state_set (host_key host_id) (Json (jobj [
            (''host_id'', JStr host_id), (''status'', JStr ''active''),
            (''last_deploy_epoch'', JNum epoch), (''updated_epoch'', JNum epoch)]))))))"

definition apply_RuntimeUndeploy :: "env \<Rightarrow> string \<Rightarrow> string \<Rightarrow> u64 \<Rightarrow> unit chain_act" where
  "apply_RuntimeUndeploy E runtime_id owner epoch =
     andThen (load_json E (runtime_key runtime_id) ''runtime not found'') (\<lambda>prev.
     seq (ensure (field_is prev ''owner'' owner) (Err ''only the runtime owner can undeploy''))
    (andThen (with_fields prev [(''status'', JStr ''undeployed''), (''undeployed_epoch'', JNum epoch),
        (''updated_epoch'', JNum epoch)]) (\<lambda>value.
     state_set (runtime_key runtime_id) (Json value))))"

definition apply_RuntimeJobEnqueue ::
  "env \<Rightarrow> string \<Rightarrow> string \<Rightarrow> string \<Rightarrow> u64 \<Rightarrow> string option \<Rightarrow> u64 \<Rightarrow> u64 \<Rightarrow> string \<Rightarrow> unit chain_act" where
  "apply_RuntimeJobEnqueue E job_id runtime_id job_class due_epoch payload_cid fee epoch signed_by =
     andThen (load_json E (runtime_key runtime_id) ''runtime not found'') (\<lambda>rt.
     seq (ensure (field_is rt ''status'' ''deployed'') (Err ''runtime is not deployed''))
    (seq (debit signed_by NATIVE_TOKEN fee)
    (seq (credit (job_escrow job_id) NATIVE_TOKEN fee)
         (state_set (job_key job_id) (Json (jobj [
            (''job_id'', JStr job_id), (''runtime_id'', JStr runtime_id),
            (''job_class'', JStr job_class), (''due_epoch'', JNum due_epoch),
            (''payload_cid'', jopt_str payload_cid), (''fee'', JNum fee),
            (''status'', JStr ''queued''), (''enqueued_by'', JStr signed_by),
            (''enqueued_epoch'', JNum epoch), (''updated_epoch'', JNum epoch)]))))))"

definition apply_RuntimeClaim ::
  "env \<Rightarrow> string \<Rightarrow> string \<Rightarrow> string \<Rightarrow> string \<Rightarrow> u64 \<Rightarrow> u64 \<Rightarrow> unit chain_act" where
  "apply_RuntimeClaim E lease_id runtime_id job_id host_id expires_epoch epoch =
     andThen (load_json E (job_key job_id) ''job not found'') (\<lambda>job.
     seq (ensure (field_is job ''status'' ''queued'') (Err ''job is not queued''))
    (seq (ensure (field_is job ''runtime_id'' runtime_id) (Err ''job belongs to a different runtime''))
    (seq (state_set (lease_key lease_id) (Json (jobj [
            (''lease_id'', JStr lease_id), (''runtime_id'', JStr runtime_id),
            (''job_id'', JStr job_id), (''host_id'', JStr host_id), (''status'', JStr ''active''),
            (''claimed_epoch'', JNum epoch), (''expires_epoch'', JNum expires_epoch),
            (''updated_epoch'', JNum epoch)])))
    (seq (state_set (host_key host_id) (Json (jobj [
            (''host_id'', JStr host_id), (''status'', JStr ''active''),
            (''last_claim_epoch'', JNum epoch), (''updated_epoch'', JNum epoch)])))
    (andThen (with_fields job [(''status'', JStr ''claimed''), (''lease_id'', JStr lease_id),
        (''claimed_by'', JStr host_id), (''updated_epoch'', JNum epoch)]) (\<lambda>job_upd.
     state_set (job_key job_id) (Json job_upd)))))))"

text \<open>\<open>fee * BPS / 10_000\<close> in \<open>u64\<close>: the product wraps.\<close>

definition release_fee :: "string \<Rightarrow> string \<Rightarrow> u64 \<Rightarrow> unit chain_act" where
  "release_fee job_id host_id fee =
     when_do (fee > 0)
      (let host_share = fee * RUNTIME_FEE_HOST_BPS div 10000;
           recycle_share = fee * RUNTIME_FEE_RECYCLE_BPS div 10000 in
       seq (debit (job_escrow job_id) NATIVE_TOKEN fee)
      (seq (credit host_id NATIVE_TOKEN host_share)
           (when_do (recycle_share > 0)
             (seq (credit RECYCLE_FUND_ACCOUNT NATIVE_TOKEN recycle_share) (ret ())))))"

definition check_runtime_sha :: "env \<Rightarrow> string \<Rightarrow> string option \<Rightarrow> unit chain_act" where
  "check_runtime_sha E runtime_id runtime_sha =
    (case runtime_sha of
       None \<Rightarrow> ret ()
     | Some sha \<Rightarrow>
        andThen (reads (\<lambda>s. Option.bind (state_json E s (runtime_key runtime_id))
            (\<lambda>rt. as_str (jget rt ''manifest_cid'')))) (\<lambda>manifest.
        case manifest of
          None \<Rightarrow> ret ()
        | Some manifest_cid \<Rightarrow>
            ensure (sha = manifest_cid) (Err ''runtime_sha does not match manifest_cid'')))"

definition apply_RuntimeAttest ::
  "env \<Rightarrow> string \<Rightarrow> string \<Rightarrow> string \<Rightarrow> string \<Rightarrow> string \<Rightarrow> string option \<Rightarrow> u64 \<Rightarrow> unit chain_act" where
  "apply_RuntimeAttest E attestation_id runtime_id job_id host_id output_commitment runtime_sha epoch =
     andThen (load_json E (job_key job_id) ''job not found'') (\<lambda>job.
     andThen (need (as_str (jget job ''lease_id'')) (Err ''job has no active lease'')) (\<lambda>lease_id.
     andThen (load_json E (lease_key lease_id) ''lease not found'') (\<lambda>lease.
     seq (ensure (field_is lease ''host_id'' host_id) (Err ''host did not claim job''))
    (seq (ensure (field_is lease ''status'' ''active'') (Err ''lease is not active''))
    (seq (ensure (field_is job ''status'' ''claimed'') (Err ''job is not claimed''))
    (seq (check_runtime_sha E runtime_id runtime_sha)
    (seq (release_fee job_id host_id (the_u64 job ''fee'' 0))
    (andThen (with_fields job [(''status'', JStr ''completed''), (''attested_by'', JStr host_id),
        (''attestation_id'', JStr attestation_id), (''updated_epoch'', JNum epoch)]) (\<lambda>job_upd.
     seq (state_set (job_key job_id) (Json job_upd))
    (andThen (with_fields lease [(''status'', JStr ''completed''), (''updated_epoch'', JNum epoch)])
        (\<lambda>lease_upd.
     seq (state_set (lease_key lease_id) (Json lease_upd))
         (state_set (attest_key attestation_id) (Json (jobj [
            (''attestation_id'', JStr attestation_id), (''runtime_id'', JStr runtime_id),
            (''job_id'', JStr job_id), (''host_id'', JStr host_id),
            (''output_commitment'', JStr output_commitment), (''epoch'', JNum epoch)]))))))))))))))"

definition apply_RuntimeChallenge ::
  "string \<Rightarrow> string \<Rightarrow> string \<Rightarrow> string \<Rightarrow> string \<Rightarrow> string option \<Rightarrow> u64 \<Rightarrow> unit chain_act" where
  "apply_RuntimeChallenge challenge_id attestation_id runtime_id challenger reason evidence_cid epoch =
     andThen (reads (\<lambda>s. state_get s (attest_key attestation_id))) (\<lambda>found.
     seq (ensure (found \<noteq> None) (Err ''attestation not found''))
         (state_set (''runtime_challenge:'' @ challenge_id) (Json (jobj [
            (''challenge_id'', JStr challenge_id), (''attestation_id'', JStr attestation_id),
            (''runtime_id'', JStr runtime_id), (''challenger'', JStr challenger),
            (''reason'', JStr reason), (''evidence_cid'', jopt_str evidence_cid),
            (''status'', JStr ''open''), (''epoch'', JNum epoch)]))))"

definition apply_RuntimeSlash ::
  "env \<Rightarrow> string \<Rightarrow> string \<Rightarrow> string \<Rightarrow> u64 \<Rightarrow> string \<Rightarrow> u64 \<Rightarrow> unit chain_act" where
  "apply_RuntimeSlash E slash_id runtime_id host_id amount reason epoch =
     andThen (reads (\<lambda>s. get_balance s (bond_escrow runtime_id) NATIVE_TOKEN)) (\<lambda>available.
     let slash_amount = min amount available in
     seq (when_do (slash_amount > 0)
           (seq (debit (bond_escrow runtime_id) NATIVE_TOKEN slash_amount)
           (seq (credit RECYCLE_FUND_ACCOUNT NATIVE_TOKEN slash_amount) (ret ()))))
    (seq (state_set (''runtime_slash:'' @ slash_id) (Json (jobj [
            (''slash_id'', JStr slash_id), (''runtime_id'', JStr runtime_id),
            (''host_id'', JStr host_id), (''amount_requested'', JNum amount),
            (''amount_slashed'', JNum slash_amount), (''reason'', JStr reason),
            (''epoch'', JNum epoch)])))
    (andThen (reads (\<lambda>s. state_json E s (runtime_key runtime_id))) (\<lambda>prev.
     case prev of
       None \<Rightarrow> ret ()
     | Some rt \<Rightarrow>
         andThen (with_fields rt [(''last_slash_epoch'', JNum epoch),
             (''last_slash_amount'', JNum slash_amount)]) (\<lambda>rt'.
         state_set (runtime_key runtime_id) (Json rt'))))))"

definition apply_RuntimeReward :: "string \<Rightarrow> u64 \<Rightarrow> u64 \<Rightarrow> unit chain_act" where
  "apply_RuntimeReward host_id amount epoch =
     seq (ensure_account host_id epoch) (seq (credit host_id NATIVE_TOKEN amount) (ret ()))"

section \<open>Entries\<close>

datatype runtime_entry =
    RuntimeRegister string string string string string u64 u64
  | RuntimeDeploy string string string "string option" u64
  | RuntimeUndeploy string string u64
  | RuntimeJobEnqueue string string string u64 "string option" u64 u64 string
  | RuntimeClaim string string string string u64 u64
  | RuntimeAttest string string string string string "string option" u64
  | RuntimeChallenge string string string string string "string option" u64
  | RuntimeSlash string string string u64 string u64
  | RuntimeReward string u64 u64

fun apply_runtime_entry :: "env \<Rightarrow> runtime_entry \<Rightarrow> unit chain_act" where
  "apply_runtime_entry E (RuntimeRegister r ow m c n b e) = apply_RuntimeRegister r ow m c n b e"
| "apply_runtime_entry E (RuntimeDeploy r ow h m e) = apply_RuntimeDeploy E r ow h m e"
| "apply_runtime_entry E (RuntimeUndeploy r ow e) = apply_RuntimeUndeploy E r ow e"
| "apply_runtime_entry E (RuntimeJobEnqueue j r c d p f e sg) = apply_RuntimeJobEnqueue E j r c d p f e sg"
| "apply_runtime_entry E (RuntimeClaim l r j h x e) = apply_RuntimeClaim E l r j h x e"
| "apply_runtime_entry E (RuntimeAttest a r j h out sha e) = apply_RuntimeAttest E a r j h out sha e"
| "apply_runtime_entry E (RuntimeChallenge c a r ch why ev e) = apply_RuntimeChallenge c a r ch why ev e"
| "apply_runtime_entry E (RuntimeSlash sl r h n why e) = apply_RuntimeSlash E sl r h n why e"
| "apply_runtime_entry E (RuntimeReward h n e) = apply_RuntimeReward h n e"

text \<open>What an entry may add to the native supply: only a reward mints.\<close>

fun runtime_mint :: "runtime_entry \<Rightarrow> u64" where
  "runtime_mint (RuntimeReward h n e) = n"
| "runtime_mint _ = 0"


section \<open>The native hone_total\<close>

lemma keeps_supply_store:
  "keeps (token_supply t) (state_set k v)" "keeps (token_supply t) (load_json E k msg)"
  "keeps (token_supply t) (with_fields j ups)" "keeps (token_supply t) (ensure_account a e)"
  "keeps (token_supply t) (check_runtime_sha E r sha)"
  unfolding load_json_def check_runtime_sha_def
  by (intro keeps_token_supply keeps_intros)+

lemmas supply_frames = gains_frame_seq gains_frame_andThen keeps_supply_store keeps_intros
  gains_keeps [OF keeps_supply_store(1)] gains_keeps [OF keeps_ret]

abbreviation hone_total :: "chain \<Rightarrow> int" where
  "hone_total \<equiv> token_supply NATIVE_TOKEN"

lemma gains_supply_register: "gains hone_total 0 (apply_RuntimeRegister r ow m c n b e)"
  unfolding apply_RuntimeRegister_def by (intro supply_frames native.move_then)

lemma gains_supply_deploy: "gains hone_total 0 (apply_RuntimeDeploy E r ow h m e)"
  unfolding apply_RuntimeDeploy_def Let_def by (intro gains_keeps keeps_intros keeps_supply_store)

lemma gains_supply_undeploy: "gains hone_total 0 (apply_RuntimeUndeploy E r ow e)"
  unfolding apply_RuntimeUndeploy_def by (intro gains_keeps keeps_intros keeps_supply_store)

lemma gains_supply_enqueue: "gains hone_total 0 (apply_RuntimeJobEnqueue E j r c d p f e sg)"
  unfolding apply_RuntimeJobEnqueue_def by (intro supply_frames native.move_then)

lemma gains_supply_claim: "gains hone_total 0 (apply_RuntimeClaim E l r j h x e)"
  unfolding apply_RuntimeClaim_def by (intro gains_keeps keeps_intros keeps_supply_store)

lemma gains_supply_challenge: "gains hone_total 0 (apply_RuntimeChallenge c a r ch why ev e)"
  unfolding apply_RuntimeChallenge_def by (intro gains_keeps keeps_intros keeps_supply_store)

lemma gains_seq_0: "gains v 0 m \<Longrightarrow> gains v d n \<Longrightarrow> gains v d (seq m n)"
  by (erule gains_seq) simp_all

lemma gains_supply_slash: "gains hone_total 0 (apply_RuntimeSlash E sl r h n why e)"
proof -
  have move: "gains hone_total 0
      (when_do (0 < x) (seq (debit a NATIVE_TOKEN x) (seq (credit b NATIVE_TOKEN x) (ret ()))))" for a b x
    by (intro gains_when_do native.move_then gains_ret) simp
  show ?thesis
    unfolding apply_RuntimeSlash_def Let_def
    by (intro gains_frame_andThen keeps_reads gains_seq_0 [OF move] gains_keeps keeps_intros
        keeps_supply_store)
qed

lemma gains_supply_reward: "gains hone_total (uint n) (apply_RuntimeReward h n e)"
proof -
  have "gains hone_total (uint n) (seq (credit h NATIVE_TOKEN n) (ret ()))"
    by (rule gains_seq [OF native.pay_in_gains gains_ret]) simp
  then show ?thesis
    unfolding apply_RuntimeReward_def by (rule gains_frame_seq [OF keeps_supply_store(4)])
qed

text \<open>The two shares of a fee whose products fit: what is missing from the fee is at most one unit.\<close>

definition fee_dust :: "u64 \<Rightarrow> int" where
  "fee_dust fee = uint fee - uint (fee * RUNTIME_FEE_HOST_BPS div 10000) -
     uint (fee * RUNTIME_FEE_RECYCLE_BPS div 10000)"

lemma fee_dust_bounds:
  assumes "unat fee * 8000 < 2 ^ 64"
  shows "0 \<le> fee_dust fee \<and> fee_dust fee \<le> 1"
proof -
  have h: "unat (fee * RUNTIME_FEE_HOST_BPS div 10000) = unat fee * 8000 div 10000"
    using assms by (simp add: RUNTIME_FEE_HOST_BPS_def unat_div unat_u64_mult)
  have r: "unat (fee * RUNTIME_FEE_RECYCLE_BPS div 10000) = unat fee * 2000 div 10000"
    using assms by (simp add: RUNTIME_FEE_RECYCLE_BPS_def unat_div unat_u64_mult)
  have "unat fee * 8000 div 10000 + unat fee * 2000 div 10000 \<le> unat fee"
    "unat fee \<le> unat fee * 8000 div 10000 + unat fee * 2000 div 10000 + 1"
    by linarith+
  then show ?thesis
    unfolding fee_dust_def uint_nat h r by linarith
qed

lemma release_fee_supply: "gains hone_total (if fee > 0 then - fee_dust fee else 0) (release_fee j h fee)"
proof -
  let ?hs = "fee * RUNTIME_FEE_HOST_BPS div 10000" and ?rs = "fee * RUNTIME_FEE_RECYCLE_BPS div 10000"
  have rec: "gains hone_total (uint ?rs) (when_do (?rs > 0) (seq (credit RECYCLE_FUND_ACCOUNT NATIVE_TOKEN ?rs) (ret ())))"
    by (rule gains_when_do) (auto intro: gains_seq [OF native.pay_in_gains gains_ret] simp: word_gt_0)
  have "gains hone_total (- fee_dust fee)
      (seq (debit (job_escrow j) NATIVE_TOKEN fee) (seq (credit h NATIVE_TOKEN ?hs)
        (when_do (?rs > 0) (seq (credit RECYCLE_FUND_ACCOUNT NATIVE_TOKEN ?rs) (ret ())))))"
    by (rule gains_seq [OF native.take_out_gains gains_seq [OF native.pay_in_gains rec refl]])
      (simp add: fee_dust_def)
  then show ?thesis
    unfolding release_fee_def Let_def by (auto intro: gains_when_do)
qed

lemma attest_steps:
  assumes "apply_RuntimeAttest E a r j h out sha e s = (Inr (), s')"
  obtains job job' lid s1 s2 s3 where
    "state_json E s (job_key j) = Some job" "field_is job ''status'' ''claimed''"
    "as_str (jget job ''lease_id'') = Some lid"
    "release_fee j h (the_u64 job ''fee'' 0) s = (Inr (), s1)"
    "jsets job [(''status'', JStr ''completed''), (''attested_by'', JStr h),
        (''attestation_id'', JStr a), (''updated_epoch'', JNum e)] = Some job'"
    "state_set (job_key j) (Json job') s1 = (Inr (), s2)"
    "\<exists>v. state_set (lease_key lid) v s2 = (Inr (), s3)" "\<exists>v. state_set (attest_key a) v s3 = (Inr (), s')"
proof -
  have sha: "check_runtime_sha E r sha s = (Inr (), s1) \<Longrightarrow> s1 = s" for s1
    by (auto simp: check_runtime_sha_def act_simps split: option.splits if_splits)
  from assms show ?thesis
    unfolding apply_RuntimeAttest_def load_json_def with_fields_def andThen_Inr seq_Inr
      reads_apply need_apply ensure_apply
    by (auto split: option.splits if_splits dest!: sha intro: that)
qed

definition is_attest :: "runtime_entry \<Rightarrow> bool" where
  "is_attest en = (case en of RuntimeAttest _ _ _ _ _ _ _ \<Rightarrow> True | _ \<Rightarrow> False)"

text \<open>The fee that an entry would release in a state.\<close>

fun fee_released :: "env \<Rightarrow> chain \<Rightarrow> runtime_entry \<Rightarrow> u64" where
  "fee_released E s (RuntimeAttest a r j h out sha e) =
     (case state_json E s (job_key j) of Some job \<Rightarrow> the_u64 job ''fee'' 0 | None \<Rightarrow> 0)"
| "fee_released E s _ = 0"

lemma attest_supply:
  assumes "apply_RuntimeAttest E a r j h out sha e s = (Inr (), s')"
  shows "hone_total s' = hone_total s - fee_dust (fee_released E s (RuntimeAttest a r j h out sha e))"
proof -
  obtain job job' lid s1 s2 s3 where st:
    "state_json E s (job_key j) = Some job"
    "release_fee j h (the_u64 job ''fee'' 0) s = (Inr (), s1)"
    "state_set (job_key j) (Json job') s1 = (Inr (), s2)"
    "\<exists>v. state_set (lease_key lid) v s2 = (Inr (), s3)" "\<exists>v. state_set (attest_key a) v s3 = (Inr (), s')"
    using attest_steps [OF assms] by metis
  have "hone_total s' = hone_total s1"
    using keepsD [OF keeps_supply_store(1)] st(3-5) by metis
  with gainsD [OF release_fee_supply st(2)] st(1) show ?thesis
    by (auto simp: fee_dust_def word_gt_0 split: if_splits)
qed

text \<open>
  (C31) What runtime entries do to the native supply. Bonds and fees only move between owners and
  escrow accounts, and a slash only moves bond to the recycle fund: these entries conserve it. A reward mints
  exactly its amount. An attestation pays the whole fee out but for at most one unit of rounding, as
  long as the fee times 8000 fits 64 bits; above that the product wraps (\<open>release_fee_wraps\<close>).
\<close>

theorem runtime_supply:
  assumes run: "apply_runtime_entry E en s = (Inr (), s')"
    and fits: "unat (fee_released E s en) * 8000 < 2 ^ 64"
  shows "if is_attest en then hone_total s - 1 \<le> hone_total s' \<and> hone_total s' \<le> hone_total s
    else hone_total s' = hone_total s + uint (runtime_mint en)"
proof (cases en)
  case (RuntimeAttest a r j h out sha e)
  with run have "hone_total s' = hone_total s - fee_dust (fee_released E s en)"
    using attest_supply by simp
  with fee_dust_bounds [OF fits] RuntimeAttest show ?thesis
    by (simp add: is_attest_def)
qed (use run in \<open>auto simp: is_attest_def dest: gainsD [OF gains_supply_register]
    gainsD [OF gains_supply_deploy] gainsD [OF gains_supply_undeploy] gainsD [OF gains_supply_enqueue]
    gainsD [OF gains_supply_claim] gainsD [OF gains_supply_challenge] gainsD [OF gains_supply_slash]
    gainsD [OF gains_supply_reward]\<close>)


section \<open>A job is paid once\<close>

abbreviation job_of :: "string \<Rightarrow> chain \<Rightarrow> val option" where
  "job_of j s \<equiv> state_get s (job_key j)"

lemma keeps_job_meta: "keeps cf_meta m \<Longrightarrow> keeps (job_of j) m"
  by (simp add: keeps_def state_get_def)

lemma keeps_job_set: "k \<noteq> job_key j \<Longrightarrow> keeps (job_of j) (state_set k v)"
  by (simp add: keeps_def state_set_def state_get_def act_simps)

lemma job_key_neq [simp]:
  "runtime_key r \<noteq> job_key j" "lease_key l \<noteq> job_key j" "host_key h \<noteq> job_key j"
  "attest_key a \<noteq> job_key j" "''runtime_challenge:'' @ c \<noteq> job_key j"
  "''runtime_slash:'' @ c \<noteq> job_key j" "job_key i = job_key j \<longleftrightarrow> i = j"
  by (simp_all add: runtime_key_def lease_key_def host_key_def attest_key_def job_key_def)

lemma keeps_job_steps:
  "keeps (job_of j) (credit a t n)" "keeps (job_of j) (debit a t n)"
  "keeps (job_of j) (ensure_account a e)" "keeps (job_of j) (load_json E k msg)"
  "keeps (job_of j) (release_fee i h fee)" "keeps (job_of j) (check_runtime_sha E r sha)"
  unfolding load_json_def release_fee_def check_runtime_sha_def Let_def
  by (intro keeps_job_meta keeps_intros)+

text \<open>Which job an entry works on.\<close>

fun job_named :: "runtime_entry \<Rightarrow> string option" where
  "job_named (RuntimeJobEnqueue j _ _ _ _ _ _ _) = Some j"
| "job_named (RuntimeClaim _ _ j _ _ _) = Some j"
| "job_named (RuntimeAttest _ _ j _ _ _ _) = Some j"
| "job_named _ = None"

lemma other_job_kept: "job_named en \<noteq> Some j \<Longrightarrow> keeps (job_of j) (apply_runtime_entry E en)"
  by (cases en)
    (simp_all only: apply_runtime_entry.simps job_named.simps option.inject apply_RuntimeRegister_def
      apply_RuntimeDeploy_def apply_RuntimeUndeploy_def apply_RuntimeJobEnqueue_def
      apply_RuntimeClaim_def apply_RuntimeAttest_def apply_RuntimeChallenge_def apply_RuntimeSlash_def
      apply_RuntimeReward_def Let_def,
     (intro keeps_intros keeps_job_steps keeps_job_set; simp add: job_key_def runtime_key_def
       lease_key_def host_key_def attest_key_def)+)

definition is_enqueue :: "runtime_entry \<Rightarrow> bool" where
  "is_enqueue en = (case en of RuntimeJobEnqueue _ _ _ _ _ _ _ _ \<Rightarrow> True | _ \<Rightarrow> False)"

definition job_completed :: "env \<Rightarrow> string \<Rightarrow> chain \<Rightarrow> bool" where
  "job_completed E j s \<longleftrightarrow>
     (\<exists>job. state_json E s (job_key j) = Some job \<and> field_is job ''status'' ''completed'')"

lemma completed_refuses:
  assumes "job_completed E j s"
  shows "\<exists>err. apply_RuntimeClaim E l r j h x e s = (Inl err, s)"
    and "\<exists>err. apply_RuntimeAttest E a r j h out sha e s = (Inl err, s)"
  using assms
  by (auto simp: job_completed_def apply_RuntimeClaim_def apply_RuntimeAttest_def load_json_def
      field_is_def act_simps split: option.split)

lemma completed_step:
  assumes "job_completed E j s" "\<not> (is_enqueue en \<and> job_named en = Some j)"
  shows "job_completed E j (snd (apply_runtime_entry E en s))"
proof (cases "job_named en = Some j")
  case True
  have "snd (apply_RuntimeClaim E l r j h x e s) = s" for l r h x e
    using completed_refuses(1) [OF assms(1)] by (metis snd_conv)
  moreover have "snd (apply_RuntimeAttest E a r j h out sha e s) = s" for a r h out sha e
    using completed_refuses(2) [OF assms(1)] by (metis snd_conv)
  ultimately show ?thesis
    using True assms by (cases en) (auto simp: is_enqueue_def)
next
  case False
  then have "keeps (job_of j) (apply_runtime_entry E en)" by (rule other_job_kept)
  with assms(1) show ?thesis by (simp add: keeps_def job_completed_def state_json_def)
qed

text \<open>A sequence of entries: each is applied to the state the one before it left, failed or not.\<close>

fun run_runtime :: "env \<Rightarrow> runtime_entry list \<Rightarrow> chain \<Rightarrow> chain" where
  "run_runtime E [] s = s"
| "run_runtime E (en # ens) s = run_runtime E ens (snd (apply_runtime_entry E en s))"

lemma completed_run:
  "job_completed E j s \<Longrightarrow> \<forall>en \<in> set ens. \<not> (is_enqueue en \<and> job_named en = Some j) \<Longrightarrow>
    job_completed E j (run_runtime E ens s)"
  by (induction ens arbitrary: s) (auto dest: completed_step)

lemma attest_completes:
  assumes "apply_RuntimeAttest E a r j h out sha e s = (Inr (), s')"
  shows "job_completed E j s'"
proof -
  obtain job job' lid s1 s2 s3 v w where st:
    "jsets job [(''status'', JStr ''completed''), (''attested_by'', JStr h),
        (''attestation_id'', JStr a), (''updated_epoch'', JNum e)] = Some job'"
    "state_set (job_key j) (Json job') s1 = (Inr (), s2)"
    "state_set (lease_key lid) v s2 = (Inr (), s3)" "state_set (attest_key a) w s3 = (Inr (), s')"
    using attest_steps [OF assms] by metis
  have "job_of j s2 = Some (Json job')"
    using st(2) by (auto simp: state_set_def state_get_def act_simps)
  moreover have "job_of j s3 = job_of j s2" "job_of j s' = job_of j s3"
    using keepsD [OF keeps_job_set st(3)] keepsD [OF keeps_job_set st(4)] by simp_all
  moreover have "field_is job' ''status'' ''completed''"
    using jsets_jfield [OF st(1), of "''status''"] by (simp add: field_is_def jget_def)
  ultimately show ?thesis
    by (simp add: job_completed_def state_json_def)
qed

text \<open>
  A job is paid at most once: after an attestation that succeeded, whatever runtime entries
  follow, no second attestation of the same job succeeds or changes the state, unless the job id is
  enqueued again in between.
\<close>

theorem job_paid_once:
  assumes "apply_RuntimeAttest E a r j h out sha e s = (Inr (), s1)"
    and "\<forall>en \<in> set ens. \<not> (is_enqueue en \<and> job_named en = Some j)"
    and "s2 = run_runtime E ens s1"
  shows "\<exists>err. apply_RuntimeAttest E a' r' j h' out' sha' e' s2 = (Inl err, s2)"
  using completed_refuses(2) [OF completed_run [OF attest_completes [OF assms(1)] assms(2)]] assms(3)
  by blast


section \<open>Two ways to lose a fee\<close>

lemma set_result: "state_set k v s = (Inr (), s\<lparr>cf_meta := kv_put k v (cf_meta s)\<rparr>)"
  by (simp add: state_set_def act_simps)

text \<open>
  Enqueueing does not check that the job id is free: anyone can enqueue an existing job of a
  deployed runtime again with fee zero. The new record replaces the old one and promises no fee,
  while the fee of the first enqueue stays in the escrow account.
\<close>

theorem enqueue_strands_fee:
  assumes "state_json E s (runtime_key r) = Some rt" "field_is rt ''status'' ''deployed''"
  shows "\<exists>s' job. apply_RuntimeJobEnqueue E j r c d p 0 e anyone s = (Inr (), s') \<and>
    state_json E s' (job_key j) = Some job \<and> the_u64 job ''fee'' 1 = 0 \<and>
    field_is job ''status'' ''queued'' \<and>
    get_balance s' (job_escrow j) NATIVE_TOKEN = get_balance s (job_escrow j) NATIVE_TOKEN"
  using assms
  by (simp add: apply_RuntimeJobEnqueue_def load_json_def act_simps debit_cases credit_cases set_result
      get_balance_put state_json_def state_get_def the_u64_def field_is_def)
    (simp add: get_balance_def)

text \<open>
  The product of the fee and the host's basis points is taken in 64 bits. At the first fee for
  which it wraps, 2305843009213694, the host is paid nothing and four fifths of the fee disappear.
\<close>

theorem release_fee_wraps:
  assumes run: "release_fee j h 2305843009213694 s = (Inr (), s')"
    and h: "h \<noteq> job_escrow j" "h \<noteq> RECYCLE_FUND_ACCOUNT"
  shows "get_balance s' h NATIVE_TOKEN = get_balance s h NATIVE_TOKEN \<and>
    hone_total s' = hone_total s - 1844674407370956"
proof -
  have "hone_total s' = hone_total s - fee_dust 2305843009213694"
    using gainsD [OF release_fee_supply run] by simp
  moreover have "fee_dust 2305843009213694 = 1844674407370956"
    by (simp add: fee_dust_def RUNTIME_FEE_HOST_BPS_def RUNTIME_FEE_RECYCLE_BPS_def)
  moreover have "get_balance s' h NATIVE_TOKEN = get_balance s h NATIVE_TOKEN"
    using run h
    by (auto simp: release_fee_def RUNTIME_FEE_HOST_BPS_def RUNTIME_FEE_RECYCLE_BPS_def seq_Inr
        debit_cases credit_cases act_simps get_balance_put split: if_splits)
      (simp_all add: get_balance_def)
  ultimately show ?thesis by simp
qed

section \<open>A job from enqueue to payment\<close>

definition demo_runtime :: chain where
  "demo_runtime = empty_chain\<lparr>
     cf_balances := [(balance_key ''__runtime_job_escrow_j1__'' ''HONE'', 55)],
     cf_meta := [
       (''runtime:r1'', Json (jobj [(''owner'', JStr ''ow''), (''manifest_cid'', JStr ''cid''),
          (''status'', JStr ''deployed'')])),
       (''runtime_job:j1'', Json (jobj [(''fee'', JNum 55), (''status'', JStr ''claimed''),
          (''lease_id'', JStr ''l1''), (''runtime_id'', JStr ''r1'')])),
       (''runtime_lease:l1'', Json (jobj [(''host_id'', JStr ''h1''), (''status'', JStr ''active'')]))]\<rparr>"

definition demo_attest :: runtime_entry where
  "demo_attest = RuntimeAttest ''a1'' ''r1'' ''j1'' ''h1'' ''out'' (Some ''cid'') 4"

definition demo_attested :: chain where
  "demo_attested = snd (apply_runtime_entry demo_env demo_attest demo_runtime)"

lemmas runtime_run_simps = demo_runtime_def demo_attest_def apply_RuntimeAttest_def load_json_def
  check_runtime_sha_def release_fee_def field_is_def job_key_def lease_key_def runtime_key_def
  attest_key_def job_escrow_def RUNTIME_FEE_HOST_BPS_def RUNTIME_FEE_RECYCLE_BPS_def
  RECYCLE_FUND_ACCOUNT_def the_u64_def run_simps act_simps

lemma demo_attest_runs: "apply_runtime_entry demo_env demo_attest demo_runtime = (Inr (), demo_attested)"
  by (simp add: demo_attested_def runtime_run_simps)

theorem runtime_supply_witness:
  "hone_total demo_runtime - 1 \<le> hone_total demo_attested \<and> hone_total demo_attested \<le> hone_total demo_runtime"
proof -
  have "fee_released demo_env demo_runtime demo_attest = 55"
    by (simp add: runtime_run_simps)
  with runtime_supply [OF demo_attest_runs] show ?thesis
    by (simp add: is_attest_def demo_attest_def)
qed

theorem job_paid_once_witness:
  "\<exists>err. apply_RuntimeAttest demo_env ''a2'' ''r1'' ''j1'' ''h1'' ''out'' None 5 demo_attested =
    (Inl err, demo_attested)"
proof (rule job_paid_once)
  show "apply_RuntimeAttest demo_env ''a1'' ''r1'' ''j1'' ''h1'' ''out'' (Some ''cid'') 4 demo_runtime =
      (Inr (), demo_attested)"
    using demo_attest_runs by (simp add: demo_attest_def)
  show "demo_attested = run_runtime demo_env [] demo_attested" by simp
qed simp

theorem enqueue_strands_fee_witness:
  "\<exists>s' job. apply_RuntimeJobEnqueue demo_env ''j1'' ''r1'' ''c'' 9 None 0 5 ''mallory'' demo_runtime = (Inr (), s') \<and>
    state_json demo_env s' (job_key ''j1'') = Some job \<and> the_u64 job ''fee'' 1 = 0 \<and>
    field_is job ''status'' ''queued'' \<and>
    get_balance s' (job_escrow ''j1'') NATIVE_TOKEN = get_balance demo_runtime (job_escrow ''j1'') NATIVE_TOKEN"
proof (rule enqueue_strands_fee)
  show "state_json demo_env demo_runtime (runtime_key ''r1'') =
      Some (jobj [(''owner'', JStr ''ow''), (''manifest_cid'', JStr ''cid''), (''status'', JStr ''deployed'')])"
    by (simp add: runtime_run_simps)
qed (simp add: field_is_def)

theorem release_fee_wraps_witness:
  "let s = empty_chain\<lparr>cf_balances := [(balance_key (job_escrow ''j'') NATIVE_TOKEN, 2305843009213694)]\<rparr>
   in get_balance (snd (release_fee ''j'' ''h'' 2305843009213694 s)) ''h'' NATIVE_TOKEN =
     get_balance s ''h'' NATIVE_TOKEN"
proof -
  let ?s = "empty_chain\<lparr>cf_balances := [(balance_key (job_escrow ''j'') NATIVE_TOKEN, 2305843009213694)]\<rparr>"
  have "release_fee ''j'' ''h'' 2305843009213694 ?s = (Inr (), snd (release_fee ''j'' ''h'' 2305843009213694 ?s))"
    by (simp add: runtime_run_simps)
  from release_fee_wraps [OF this] show ?thesis
    by (simp add: job_escrow_def RECYCLE_FUND_ACCOUNT_def)
qed

end
