(* ===== verification/Tracker.thy ===== *)
theory Tracker
  imports Runtime
begin

text \<open>
  Bluetooth trackers (\<open>src/chain.rs\<close>): sighting reports with their cap, claims of a tag and their
  verification, subscriptions with an escrowed fee, lost mode with an escrowed bounty, and the
  confirmation of a find that pays the bounty out.

  The bounty is split exactly between finder, treasury and observers; but a confirmation does not
  look at the status of the escrow record, so each further one pays the bounty again.
\<close>

section \<open>Operations\<close>

definition MAX_SIGHTINGS_PER_OBSERVER_PER_EPOCH :: u64 where
  "MAX_SIGHTINGS_PER_OBSERVER_PER_EPOCH = 500"

definition tracker_claim_key :: "string \<Rightarrow> string \<Rightarrow> string" where
  "tracker_claim_key claimer serial_commitment = ''tracker_claim:'' @ claimer @ '':'' @ serial_commitment"

definition lost_escrow_key :: "string \<Rightarrow> string \<Rightarrow> string" where
  "lost_escrow_key claimer serial_commitment = ''tracker_lost_escrow:'' @ claimer @ '':'' @ serial_commitment"

text \<open>\<open>if let Some(bytes) = state_get(k)\<close> with \<open>from_slice(&bytes).unwrap_or_default()\<close>.\<close>

definition state_or_null :: "env \<Rightarrow> chain \<Rightarrow> string \<Rightarrow> json option" where
  "state_or_null E s key =
     map_option (\<lambda>v. case as_json E v of Some j \<Rightarrow> j | None \<Rightarrow> JNull) (state_get s key)"

definition update_record :: "env \<Rightarrow> string \<Rightarrow> (string \<times> json) list \<Rightarrow> unit chain_act" where
  "update_record E key ups =
     andThen (reads (\<lambda>s. state_or_null E s key)) (\<lambda>found.
     case found of
       None \<Rightarrow> ret ()
     | Some rec \<Rightarrow> andThen (with_fields rec ups) (\<lambda>rec'. state_set key (Json rec')))"

text \<open>The five counts are \<open>u32\<close> in the entry, widened to \<open>u64\<close>.\<close>

definition apply_TrackerSightingCommit ::
  "env \<Rightarrow> string \<Rightarrow> string \<Rightarrow> u64 \<Rightarrow> u64 \<Rightarrow> u64 \<Rightarrow> u64 \<Rightarrow> u64 \<Rightarrow> string \<Rightarrow> u64 \<Rightarrow> unit chain_act" where
  "apply_TrackerSightingCommit E observer_id owner airtag_count android_fmd_count tile_count
     samsung_count other_count batch_hash epoch =
     andThen (reads (\<lambda>s. case state_u64 E s ''chain_param:max_sightings_per_observer'' of
         Some n \<Rightarrow> n | None \<Rightarrow> MAX_SIGHTINGS_PER_OBSERVER_PER_EPOCH)) (\<lambda>sighting_cap.
     let total_sightings = airtag_count + android_fmd_count + tile_count + samsung_count + other_count in
     seq (ensure (total_sightings \<le> sighting_cap) (Err ''sighting count exceeds per-observer cap''))
         (state_set (''tracker_sighting:'' @ show_u64 epoch @ '':'' @ observer_id) (Json (jobj [
            (''observer_id'', JStr observer_id), (''owner'', JStr owner),
            (''airtag_count'', JNum airtag_count), (''android_fmd_count'', JNum android_fmd_count),
            (''tile_count'', JNum tile_count), (''samsung_count'', JNum samsung_count),
            (''other_count'', JNum other_count), (''batch_hash'', JStr batch_hash),
            (''epoch'', JNum epoch)]))))"

definition apply_TrackerClaim ::
  "string \<Rightarrow> string \<Rightarrow> string \<Rightarrow> u64 \<Rightarrow> u64 \<Rightarrow> u64 \<Rightarrow> unit chain_act" where
  "apply_TrackerClaim serial_commitment tag_type claimer fee epoch nonce =
     seq (when_do (fee > 0)
           (seq (debit claimer NATIVE_TOKEN fee) (seq (credit ''treasury'' NATIVE_TOKEN fee) (ret ()))))
         (state_set (tracker_claim_key claimer serial_commitment) (Json (jobj [
            (''serial_commitment'', JStr serial_commitment), (''tag_type'', JStr tag_type),
            (''claimer'', JStr claimer), (''fee'', JNum fee), (''epoch'', JNum epoch),
            (''nonce'', JNum nonce), (''status'', JStr ''Registered'')])))"

definition apply_TrackerClaimRelease :: "string \<Rightarrow> string \<Rightarrow> unit chain_act" where
  "apply_TrackerClaimRelease serial_commitment claimer =
     state_delete (tracker_claim_key claimer serial_commitment)"

definition apply_TrackerAcousticProof ::
  "env \<Rightarrow> string \<Rightarrow> string \<Rightarrow> string \<Rightarrow> string \<Rightarrow> u64 \<Rightarrow> unit chain_act" where
  "apply_TrackerAcousticProof E serial_commitment witness_id proof_hash claimer epoch =
     update_record E (tracker_claim_key claimer serial_commitment) [
       (''status'', JStr ''Verified''), (''witness_id'', JStr witness_id),
       (''proof_hash'', JStr proof_hash), (''verified_epoch'', JNum epoch)]"

definition apply_TrackerSubscription ::
  "env \<Rightarrow> string \<Rightarrow> string \<Rightarrow> u64 \<Rightarrow> u64 \<Rightarrow> u64 \<Rightarrow> u64 \<Rightarrow> unit chain_act" where
  "apply_TrackerSubscription E serial_commitment claimer fee_per_epoch expires_epoch epoch nonce =
     andThen (reads (\<lambda>s. state_or_null E s (tracker_claim_key claimer serial_commitment))) (\<lambda>found.
     andThen (need found (Err ''no TrackerClaim found for serial_commitment'')) (\<lambda>rec.
     let status = the_str rec ''status'' [] in
     seq (ensure (status = ''Verified'' \<or> status = ''AcousticVerified'')
            (Err ''TrackerSubscription requires Verified or AcousticVerified claim''))
    (let duration = sat_sub expires_epoch epoch; total_fee = sat_mul fee_per_epoch duration in
     when_do (total_fee > 0)
      (seq (debit claimer NATIVE_TOKEN total_fee)
           (state_set (''tracker_sub_escrow:'' @ claimer @ '':'' @ serial_commitment) (Json (jobj [
              (''serial_commitment'', JStr serial_commitment), (''claimer'', JStr claimer),
              (''fee_per_epoch'', JNum fee_per_epoch), (''expires_epoch'', JNum expires_epoch),
              (''start_epoch'', JNum epoch), (''nonce'', JNum nonce),
              (''total_escrowed'', JNum total_fee)])))))))"

definition apply_TrackerSightingData ::
  "string \<Rightarrow> string \<Rightarrow> string \<Rightarrow> string \<Rightarrow> u64 \<Rightarrow> unit chain_act" where
  "apply_TrackerSightingData serial_commitment observer_id cid plaintext_hash epoch =
     state_set (''tracker_route:'' @ serial_commitment @ '':'' @ hex16 epoch) (Json (jobj [
       (''epoch'', JNum epoch), (''observer_id'', JStr observer_id), (''cid'', JStr cid),
       (''plaintext_hash'', JStr plaintext_hash)]))"

definition apply_TrackerLostMode ::
  "env \<Rightarrow> string \<Rightarrow> string \<Rightarrow> u64 \<Rightarrow> u64 \<Rightarrow> string option \<Rightarrow> u64 \<Rightarrow> u64 \<Rightarrow> unit chain_act" where
  "apply_TrackerLostMode E serial_commitment claimer bounty_hunits expires_epoch contact_encrypted
     epoch nonce =
     seq (when_do (bounty_hunits > 0)
           (seq (debit claimer NATIVE_TOKEN bounty_hunits)
                (state_set (lost_escrow_key claimer serial_commitment) (Json (jobj [
                   (''serial_commitment'', JStr serial_commitment), (''claimer'', JStr claimer),
                   (''bounty_hunits'', JNum bounty_hunits), (''expires_epoch'', JNum expires_epoch),
                   (''contact_encrypted'', jopt_str contact_encrypted), (''epoch'', JNum epoch),
                   (''nonce'', JNum nonce), (''status'', JStr ''active'')])))))
         (update_record E (tracker_claim_key claimer serial_commitment) [
            (''lost_mode'', JBool True), (''lost_since'', JNum epoch)])"

definition apply_TrackerFoundReport ::
  "string \<Rightarrow> string \<Rightarrow> string \<Rightarrow> string option \<Rightarrow> u64 \<Rightarrow> u64 \<Rightarrow> unit chain_act" where
  "apply_TrackerFoundReport serial_commitment finder gps_commitment acoustic_proof_hash epoch nonce =
     state_set (''tracker_found_report:'' @ serial_commitment @ '':'' @ finder) (Json (jobj [
       (''serial_commitment'', JStr serial_commitment), (''finder'', JStr finder),
       (''gps_commitment'', JStr gps_commitment),
       (''acoustic_proof_hash'', jopt_str acoustic_proof_hash), (''epoch'', JNum epoch),
       (''nonce'', JNum nonce), (''status'', JStr ''pending'')]))"

definition apply_TrackerCoverageReward :: "string \<Rightarrow> u64 \<Rightarrow> unit chain_act" where
  "apply_TrackerCoverageReward observer_id amount =
     seq (credit observer_id NATIVE_TOKEN amount) (ret ())"

text \<open>\<open>bounty * 70 / 100\<close> and \<open>bounty * 20 / 100\<close> in \<open>u64\<close>, and the subtraction that takes the rest.\<close>

definition pay_bounty :: "string \<Rightarrow> u64 \<Rightarrow> unit chain_act" where
  "pay_bounty finder bounty =
     when_do (bounty > 0)
      (let finder_share = bounty * 70 div 100;
           treasury_share = bounty - finder_share - (bounty * 20 div 100);
           observer_share = bounty * 20 div 100 in
       seq (credit finder NATIVE_TOKEN finder_share)
      (seq (credit ''treasury'' NATIVE_TOKEN treasury_share)
      (seq (credit ''sensor_pool'' NATIVE_TOKEN observer_share) (ret ()))))"

definition apply_TrackerFoundConfirm ::
  "env \<Rightarrow> string \<Rightarrow> string \<Rightarrow> string \<Rightarrow> u64 \<Rightarrow> unit chain_act" where
  "apply_TrackerFoundConfirm E serial_commitment finder claimer epoch =
     seq (andThen (reads (\<lambda>s. state_or_null E s (lost_escrow_key claimer serial_commitment))) (\<lambda>found.
          case found of
            None \<Rightarrow> ret ()
          | Some rec \<Rightarrow>
             seq (pay_bounty finder (the_u64 rec ''bounty_hunits'' 0))
            (andThen (with_fields rec [(''status'', JStr ''confirmed''), (''confirmed_epoch'', JNum epoch)])
               (\<lambda>escrow. state_set (lost_escrow_key claimer serial_commitment) (Json escrow)))))
         (update_record E (tracker_claim_key claimer serial_commitment) [(''lost_mode'', JBool False)])"


section \<open>The bounty\<close>

lemma keeps_supply_update: "keeps hone_total (update_record E k ups)"
  unfolding update_record_def by (intro keeps_token_supply keeps_intros)

lemma update_other: "k \<noteq> k' \<Longrightarrow> update_record E k' ups s = (r, s') \<Longrightarrow> state_get s' k = state_get s k"
  by (auto simp: update_record_def with_fields_def state_set_def state_get_def act_simps
      split: option.splits)

lemma claim_lost_neq [simp]: "tracker_claim_key c x \<noteq> lost_escrow_key c' x'"
  "lost_escrow_key c' x' \<noteq> tracker_claim_key c x"
  by (simp_all add: tracker_claim_key_def lost_escrow_key_def)

text \<open>The three shares add up to the bounty exactly when the larger product fits.\<close>

lemma bounty_shares:
  fixes b :: u64
  assumes "unat b * 70 < 2 ^ 64"
  shows "uint (b * 70 div 100) + uint (b - b * 70 div 100 - b * 20 div 100) + uint (b * 20 div 100) = uint b"
proof -
  let ?f = "b * 70 div 100" and ?o = "b * 20 div 100"
  have f: "unat ?f = unat b * 70 div 100" and o: "unat ?o = unat b * 20 div 100"
    using assms by (simp_all add: unat_div unat_u64_mult)
  have le: "?f \<le> b" "?o \<le> b - ?f"
    using f o by (simp_all add: u64_le_iff)
  then show ?thesis by simp
qed

lemma pay_bounty_supply:
  assumes "unat b * 70 < 2 ^ 64"
  shows "gains hone_total (uint b) (pay_bounty finder b)"
proof -
  have c: "gains hone_total (uint x) (seq (credit a NATIVE_TOKEN x) (ret ()))" for a x
    by (rule gains_seq [OF native.pay_in_gains gains_ret]) simp
  show ?thesis
    unfolding pay_bounty_def Let_def
    by (rule gains_when_do)
      (auto intro!: gains_seq [OF native.pay_in_gains gains_seq [OF native.pay_in_gains c refl]]
        simp: bounty_shares [OF assms, symmetric] word_gt_0)
qed

lemma confirm_effect:
  assumes run: "apply_TrackerFoundConfirm E sc finder cl e s = (Inr (), s')"
    and rec: "state_or_null E s (lost_escrow_key cl sc) = Some rec" "the_u64 rec ''bounty_hunits'' 0 = b"
    and fits: "unat b * 70 < 2 ^ 64"
  obtains rec' where "state_or_null E s' (lost_escrow_key cl sc) = Some rec'"
    "the_u64 rec' ''bounty_hunits'' 0 = b" "field_is rec' ''status'' ''confirmed''"
    "hone_total s' = hone_total s + uint b"
proof -
  let ?k = "lost_escrow_key cl sc"
  from run rec obtain s1 rec' s2 where
    pay: "pay_bounty finder b s = (Inr (), s1)"
    and up: "jsets rec [(''status'', JStr ''confirmed''), (''confirmed_epoch'', JNum e)] = Some rec'"
    and set: "state_set ?k (Json rec') s1 = (Inr (), s2)"
    and cl: "update_record E (tracker_claim_key cl sc) [(''lost_mode'', JBool False)] s2 = (Inr (), s')"
    by (auto simp: apply_TrackerFoundConfirm_def with_fields_def seq_Inr andThen_Inr reads_apply need_apply
        split: option.splits)
  have "state_get s' ?k = state_get s2 ?k"
    by (rule update_other [OF _ cl]) simp
  with set have "state_or_null E s' ?k = Some rec'"
    by (auto simp: state_or_null_def state_set_def state_get_def act_simps)
  moreover have "the_u64 rec' ''bounty_hunits'' 0 = b" "field_is rec' ''status'' ''confirmed''"
    using rec(2) jsets_jfield [OF up, of "''bounty_hunits''"] jsets_jfield [OF up, of "''status''"]
    by (simp_all add: the_u64_def field_is_def jget_def)
  moreover have "hone_total s' = hone_total s + uint b"
    using gainsD [OF pay_bounty_supply [OF fits] pay] keepsD [OF keeps_supply_store(1) set, of NATIVE_TOKEN]
      keepsD [OF keeps_supply_update cl] by simp
  ultimately show ?thesis by (rule that)
qed

lemma lost_effect:
  assumes run: "apply_TrackerLostMode E sc cl b x c e n s = (Inr (), s')" and b: "0 < b"
  obtains rec where "state_or_null E s' (lost_escrow_key cl sc) = Some rec"
    "the_u64 rec ''bounty_hunits'' 0 = b" "hone_total s' = hone_total s - uint b"
proof -
  let ?k = "lost_escrow_key cl sc"
  from run b obtain y s1 rec s2 where
    d: "debit cl NATIVE_TOKEN b s = (Inr y, s1)"
    and set: "state_set ?k (Json rec) s1 = (Inr (), s2)" and rec: "the_u64 rec ''bounty_hunits'' 0 = b"
    and cl: "update_record E (tracker_claim_key cl sc) [(''lost_mode'', JBool True), (''lost_since'', JNum e)] s2 =
      (Inr (), s')"
    by (auto simp: apply_TrackerLostMode_def seq_Inr when_do_def the_u64_def)
  have "state_get s' ?k = state_get s2 ?k"
    by (rule update_other [OF _ cl]) simp
  with set have "state_or_null E s' ?k = Some rec"
    by (auto simp: state_or_null_def state_set_def state_get_def act_simps)
  moreover have "hone_total s' = hone_total s - uint b"
    using gainsD [OF native.take_out_gains d] keepsD [OF keeps_supply_store(1) set, of NATIVE_TOKEN]
      keepsD [OF keeps_supply_update cl] by simp
  ultimately show ?thesis using rec that by blast
qed

text \<open>
  Putting a tag into lost mode and confirming a find conserves the native supply: the shares of
  finder, treasury and observers add up to the bounty that the owner paid in, without remainder.
\<close>

theorem lost_found_conserves:
  assumes "apply_TrackerLostMode E sc cl b x c e n s = (Inr (), s1)"
    and "apply_TrackerFoundConfirm E sc finder cl e' s1 = (Inr (), s2)"
    and "0 < b" "unat b * 70 < 2 ^ 64"
  shows "hone_total s2 = hone_total s"
proof -
  obtain rec where rec: "state_or_null E s1 (lost_escrow_key cl sc) = Some rec"
    "the_u64 rec ''bounty_hunits'' 0 = b" "hone_total s1 = hone_total s - uint b"
    by (rule lost_effect [OF assms(1, 3)])
  obtain rec' where "hone_total s2 = hone_total s1 + uint b"
    by (rule confirm_effect [OF assms(2) rec(1, 2) assms(4)])
  with rec(3) show ?thesis by simp
qed

text \<open>
  A confirmation never reads the status it writes: a second confirmation of the same find
  pays the whole bounty again, out of nothing.
\<close>

theorem bounty_paid_twice:
  assumes run: "apply_TrackerFoundConfirm E sc finder cl e s = (Inr (), s1)"
      "apply_TrackerFoundConfirm E sc finder' cl e' s1 = (Inr (), s2)"
    and rec: "state_or_null E s (lost_escrow_key cl sc) = Some rec" "the_u64 rec ''bounty_hunits'' 0 = b"
    and fits: "unat b * 70 < 2 ^ 64"
  shows "hone_total s2 = hone_total s + 2 * uint b"
proof -
  obtain rec1 where rec1: "state_or_null E s1 (lost_escrow_key cl sc) = Some rec1"
    "the_u64 rec1 ''bounty_hunits'' 0 = b" "hone_total s1 = hone_total s + uint b"
    by (rule confirm_effect [OF run(1) rec fits])
  obtain rec2 where "hone_total s2 = hone_total s1 + uint b"
    by (rule confirm_effect [OF run(2) rec1(1, 2) fits])
  with rec1(3) show ?thesis by simp
qed

definition demo_owner :: chain where
  "demo_owner = empty_chain\<lparr>cf_balances := [(balance_key ''o'' ''HONE'', 100)]\<rparr>"

definition demo_lost :: chain where
  "demo_lost = snd (apply_TrackerLostMode demo_env ''t'' ''o'' 90 9 None 1 1 demo_owner)"

definition demo_found :: chain where
  "demo_found = snd (apply_TrackerFoundConfirm demo_env ''t'' ''f'' ''o'' 2 demo_lost)"

lemmas tracker_run_simps = demo_owner_def apply_TrackerLostMode_def apply_TrackerFoundConfirm_def
  update_record_def state_or_null_def pay_bounty_def tracker_claim_key_def lost_escrow_key_def the_u64_def
  run_simps act_simps

lemma demo_lost_runs:
  "apply_TrackerLostMode demo_env ''t'' ''o'' 90 9 None 1 1 demo_owner = (Inr (), demo_lost)"
  by (simp add: demo_lost_def tracker_run_simps)

lemma demo_found_runs:
  "apply_TrackerFoundConfirm demo_env ''t'' ''f'' ''o'' 2 demo_lost = (Inr (), demo_found)"
  by (simp add: demo_found_def demo_lost_def tracker_run_simps)

theorem lost_found_conserves_witness: "hone_total demo_found = hone_total demo_owner"
  by (rule lost_found_conserves [OF demo_lost_runs demo_found_runs]) simp_all

theorem bounty_paid_twice_witness:
  "hone_total (snd (apply_TrackerFoundConfirm demo_env ''t'' ''f'' ''o'' 3 demo_found)) =
    hone_total demo_lost + 180"
proof -
  have run: "apply_TrackerFoundConfirm demo_env ''t'' ''f'' ''o'' 3 demo_found =
      (Inr (), snd (apply_TrackerFoundConfirm demo_env ''t'' ''f'' ''o'' 3 demo_found))"
    by (simp add: demo_found_def demo_lost_def tracker_run_simps)
  obtain rec where "state_or_null demo_env demo_lost (lost_escrow_key ''o'' ''t'') = Some rec"
    "the_u64 rec ''bounty_hunits'' 0 = 90"
    by (rule lost_effect [OF demo_lost_runs]) simp_all
  from bounty_paid_twice [OF demo_found_runs run this] show ?thesis by simp
qed

end
