(* ===== verification/Entry.thy ===== *)
theory Entry
  imports Consensus Governance Tracker
begin

text \<open>
  Ledger entries as values (\<open>hone-types/entry.rs\<close>): the variants that move value, keys, stakes,
  delegations, tokens and votes, with the fields of the source in their order, their serialised
  form, hash, epoch and fee weight; and \<open>apply_entry\<close> of \<open>chain.rs\<close>, which dispatches an entry to
  its handler and, when the handler succeeds, indexes it in the transaction history. The theorems
  say where an applied entry can be found again and that a sealed block lists what was indexed.
\<close>

section \<open>Entries\<close>

record TwoFactor =
  tf_chain :: string
  tf_signature :: string

text \<open>A chain proof is its chain, commitment and mode; a key map is an ordered association list.\<close>

type_synonym chain_proof = "string \<times> string \<times> string"
type_synonym key_map = "(string \<times> string) list"

datatype (plugins only: code size) ledger_entry =
    AccountCreate string key_map "chain_proof list" u64 "string option" "string option"
  | AccountUpdateKey string string string u64 string
  | AccountSetPrimary string string u64 string "string option"
  | ChainParameterSet string string string u64 "string option"
  | AccountTransfer string key_map u64 string u64 "string option"
  | Transfer string string u64 string "string option" u64 string u64 "TwoFactor option"
  | Stake string u64 u64 u64 string
  | Unstake string u64 u64 u64 string
  | NodeRoleOptIn string string u64 u64 u64 u64 string
  | NodeRoleOptOut string string u64 u64 string
  | NodeRoleStake string string string u64 u64 u64 string
  | NodeRoleUnstake string string string u64 u64 u64 string
  | MineReward string u64 u64
  | ClockReward string u64 u64
  | DeviceClaimStake string string u64 u64 u64 string
  | DeviceClaimUnstake string string u64 u64 string
  | DeviceYieldStake string string u64 u64 u64 string
  | DeviceYieldUnstake string string u64 u64 u64 string
  | TrackerLostMode string string u64 u64 "string option" u64 u64 string
  | TrackerFoundConfirm string string string u64 u64 string
  | GenesisAlloc string u64 string
  | DelegationGrant string string "string list" u64 u64 u64 string
  | DelegationRevoke string string u64 u64 string
  | DeviceYieldOptIn string string u64 u64 u64 string
  | DeviceYieldOptOut string string u64 u64 string
  | SpamGateSet string string u64 string "string option" "u64 option" u64 u64 string
  | SpamGatePayEvm string string string u64 string u64 u64 u64 string
  | SpamGateClear string string u64 u64 string
  | TokenApprove string string string u64 u64 string
  | TokenRevoke string string string u64 u64 string
  | TokenAccept string string string u64 u64 u64 string
  | TokenReject string string string u64 u64 u64 string
  | GovernancePropose string string string string string "string option" "string option" u64 u64
      string "string option"
  | GovernanceVote string string bool u64 u64 string "string option"

text \<open>
  The serialised form: the tag first, then the fields in declaration order; optional fields with
  \<open>skip_serializing_if\<close> are left out, other optional fields print \<open>null\<close>.
\<close>

definition opt_field :: "string \<Rightarrow> string option \<Rightarrow> (string \<times> json) list" where
  "opt_field k x = (case x of Some t \<Rightarrow> [(k, JStr t)] | None \<Rightarrow> [])"

definition twofactor_field :: "TwoFactor option \<Rightarrow> (string \<times> json) list" where
  "twofactor_field x = (case x of None \<Rightarrow> []
     | Some tf \<Rightarrow> [(''twofactor'', JObj [(''chain'', JStr (tf_chain tf)),
         (''signature'', JStr (tf_signature tf))])])"

definition key_map_json :: "key_map \<Rightarrow> json" where
  "key_map_json ks = jobj (map (\<lambda>(r, k). (r, JStr k)) ks)"

definition chain_proof_json :: "chain_proof \<Rightarrow> json" where
  "chain_proof_json p = JObj [(''chain'', JStr (fst p)), (''commitment'', JStr (fst (snd p))),
     (''mode'', JStr (snd (snd p)))]"

definition signed_fields :: "u64 \<Rightarrow> u64 \<Rightarrow> string \<Rightarrow> (string \<times> json) list" where
  "signed_fields epoch nonce signed_by =
     [(''epoch'', JNum epoch), (''nonce'', JNum nonce), (''signed_by'', JStr signed_by)]"

fun entry_fields :: "ledger_entry \<Rightarrow> (string \<times> json) list" where
  "entry_fields (AccountCreate account keys proofs epoch funded_by fp) =
     [(''type'', JStr ''ACCOUNT_CREATE''), (''account'', JStr account), (''keys'', key_map_json keys)] @
     (if proofs = [] then [] else [(''chain_proofs'', JArr (map chain_proof_json proofs))]) @
     [(''epoch'', JNum epoch)] @ opt_field ''funded_by'' funded_by @
     opt_field ''machine_fingerprint'' fp"
| "entry_fields (AccountUpdateKey account role key epoch signed_by) =
     [(''type'', JStr ''ACCOUNT_UPDATE_KEY''), (''account'', JStr account), (''role'', JStr role),
      (''new_public_key'', JStr key), (''epoch'', JNum epoch), (''signed_by'', JStr signed_by)]"
| "entry_fields (AccountSetPrimary account primary epoch signed_by signature) =
     [(''type'', JStr ''ACCOUNT_SET_PRIMARY''), (''account'', JStr account),
      (''primary'', JStr primary), (''epoch'', JNum epoch), (''signed_by'', JStr signed_by),
      (''signature'', jopt_str signature)]"
| "entry_fields (ChainParameterSet key value signed_by epoch signature) =
     [(''type'', JStr ''CHAIN_PARAMETER_SET''), (''key'', JStr key), (''value'', JStr value),
      (''signed_by'', JStr signed_by), (''epoch'', JNum epoch), (''signature'', jopt_str signature)]"
| "entry_fields (AccountTransfer account keys epoch signed_by nonce signature) =
     [(''type'', JStr ''ACCOUNT_TRANSFER''), (''account'', JStr account),
      (''new_keys'', key_map_json keys), (''epoch'', JNum epoch), (''signed_by'', JStr signed_by),
      (''nonce'', JNum nonce), (''signature'', jopt_str signature)]"
| "entry_fields (Transfer from to amount token memo epoch signed_by nonce twofactor) =
     [(''type'', JStr ''TRANSFER''), (''from'', JStr from), (''to'', JStr to),
      (''amount'', JNum amount), (''token'', JStr token), (''memo'', jopt_str memo),
      (''epoch'', JNum epoch), (''signed_by'', JStr signed_by), (''nonce'', JNum nonce)] @
     twofactor_field twofactor"
| "entry_fields (Stake account amount epoch nonce signed_by) =
     [(''type'', JStr ''STAKE''), (''account'', JStr account), (''amount'', JNum amount)] @
     signed_fields epoch nonce signed_by"
| "entry_fields (Unstake account amount epoch nonce signed_by) =
     [(''type'', JStr ''UNSTAKE''), (''account'', JStr account), (''amount'', JNum amount)] @
     signed_fields epoch nonce signed_by"
| "entry_fields (NodeRoleOptIn node role bps mx epoch nonce signed_by) =
     [(''type'', JStr ''NODE_ROLE_OPT_IN''), (''node'', JStr node), (''role'', JStr role),
      (''backer_share_bps'', JNum bps), (''max_backers'', JNum mx)] @
     signed_fields epoch nonce signed_by"
| "entry_fields (NodeRoleOptOut node role epoch nonce signed_by) =
     [(''type'', JStr ''NODE_ROLE_OPT_OUT''), (''node'', JStr node), (''role'', JStr role)] @
     signed_fields epoch nonce signed_by"
| "entry_fields (NodeRoleStake node role staker amount epoch nonce signed_by) =
     [(''type'', JStr ''NODE_ROLE_STAKE''), (''node'', JStr node), (''role'', JStr role),
      (''staker'', JStr staker), (''amount'', JNum amount)] @ signed_fields epoch nonce signed_by"
| "entry_fields (NodeRoleUnstake node role staker amount epoch nonce signed_by) =
     [(''type'', JStr ''NODE_ROLE_UNSTAKE''), (''node'', JStr node), (''role'', JStr role),
      (''staker'', JStr staker), (''amount'', JNum amount)] @ signed_fields epoch nonce signed_by"
| "entry_fields (MineReward miner amount epoch) =
     [(''type'', JStr ''MINE_REWARD''), (''miner'', JStr miner), (''amount'', JNum amount),
      (''epoch'', JNum epoch)]"
| "entry_fields (ClockReward node_id amount epoch) =
     [(''type'', JStr ''CLOCK_REWARD''), (''node_id'', JStr node_id), (''amount'', JNum amount),
      (''epoch'', JNum epoch)]"
| "entry_fields (DeviceClaimStake serial owner amount epoch nonce signed_by) =
     [(''type'', JStr ''DEVICE_CLAIM_STAKE''), (''device_serial'', JStr serial),
      (''owner'', JStr owner), (''amount'', JNum amount)] @ signed_fields epoch nonce signed_by"
| "entry_fields (DeviceClaimUnstake serial owner epoch nonce signed_by) =
     [(''type'', JStr ''DEVICE_CLAIM_UNSTAKE''), (''device_serial'', JStr serial),
      (''owner'', JStr owner)] @ signed_fields epoch nonce signed_by"
| "entry_fields (DeviceYieldStake serial staker amount epoch nonce signed_by) =
     [(''type'', JStr ''DEVICE_YIELD_STAKE''), (''device_serial'', JStr serial),
      (''staker'', JStr staker), (''amount'', JNum amount)] @ signed_fields epoch nonce signed_by"
| "entry_fields (DeviceYieldUnstake serial staker amount epoch nonce signed_by) =
     [(''type'', JStr ''DEVICE_YIELD_UNSTAKE''), (''device_serial'', JStr serial),
      (''staker'', JStr staker), (''amount'', JNum amount)] @ signed_fields epoch nonce signed_by"
| "entry_fields (TrackerLostMode serial claimer bounty expires contact epoch nonce signed_by) =
     [(''type'', JStr ''TRACKER_LOST_MODE''), (''serial_commitment'', JStr serial),
      (''claimer'', JStr claimer), (''bounty_hunits'', JNum bounty),
      (''expires_epoch'', JNum expires), (''contact_encrypted'', jopt_str contact)] @
     signed_fields epoch nonce signed_by"
| "entry_fields (TrackerFoundConfirm serial finder claimer epoch nonce signed_by) =
     [(''type'', JStr ''TRACKER_FOUND_CONFIRM''), (''serial_commitment'', JStr serial),
      (''finder'', JStr finder), (''claimer'', JStr claimer)] @ signed_fields epoch nonce signed_by"
| "entry_fields (GenesisAlloc account amount token) =
     [(''type'', JStr ''GENESIS_ALLOC''), (''account'', JStr account), (''amount'', JNum amount),
      (''token'', JStr token)]"
| "entry_fields (DelegationGrant from to capabilities expires epoch nonce signed_by) =
     [(''type'', JStr ''DELEGATION_GRANT''), (''from'', JStr from), (''to'', JStr to),
      (''capabilities'', jstrs capabilities), (''expires_epoch'', JNum expires)] @
     signed_fields epoch nonce signed_by"
| "entry_fields (DelegationRevoke from to epoch nonce signed_by) =
     [(''type'', JStr ''DELEGATION_REVOKE''), (''from'', JStr from), (''to'', JStr to)] @
     signed_fields epoch nonce signed_by"
| "entry_fields (DeviceYieldOptIn serial owner mx epoch nonce signed_by) =
     [(''type'', JStr ''DEVICE_YIELD_OPT_IN''), (''device_serial'', JStr serial),
      (''owner'', JStr owner), (''max_stakers'', JNum mx)] @ signed_fields epoch nonce signed_by"
| "entry_fields (DeviceYieldOptOut serial owner epoch nonce signed_by) =
     [(''type'', JStr ''DEVICE_YIELD_OPT_OUT''), (''device_serial'', JStr serial),
      (''owner'', JStr owner)] @ signed_fields epoch nonce signed_by"
| "entry_fields (SpamGateSet account token fee fee_token evm_address evm_chain_id epoch nonce signed_by) =
     [(''type'', JStr ''SPAM_GATE_SET''), (''account'', JStr account), (''token'', JStr token),
      (''fee'', JNum fee), (''fee_token'', JStr fee_token), (''evm_address'', jopt_str evm_address),
      (''evm_chain_id'', jopt_u64 evm_chain_id)] @ signed_fields epoch nonce signed_by"
| "entry_fields (SpamGatePayEvm from to token amount tx_hash evm_chain_id epoch nonce signed_by) =
     [(''type'', JStr ''SPAM_GATE_PAY_EVM''), (''from'', JStr from), (''to'', JStr to),
      (''token'', JStr token), (''amount'', JNum amount), (''evm_tx_hash'', JStr tx_hash),
      (''evm_chain_id'', JNum evm_chain_id)] @ signed_fields epoch nonce signed_by"
| "entry_fields (SpamGateClear account token epoch nonce signed_by) =
     [(''type'', JStr ''SPAM_GATE_CLEAR''), (''account'', JStr account), (''token'', JStr token)] @
     signed_fields epoch nonce signed_by"
| "entry_fields (TokenApprove account token from epoch nonce signed_by) =
     [(''type'', JStr ''TOKEN_APPROVE''), (''account'', JStr account), (''token'', JStr token),
      (''from'', JStr from)] @ signed_fields epoch nonce signed_by"
| "entry_fields (TokenRevoke account token from epoch nonce signed_by) =
     [(''type'', JStr ''TOKEN_REVOKE''), (''account'', JStr account), (''token'', JStr token),
      (''from'', JStr from)] @ signed_fields epoch nonce signed_by"
| "entry_fields (TokenAccept to token from pending_nonce epoch nonce signed_by) =
     [(''type'', JStr ''TOKEN_ACCEPT''), (''to'', JStr to), (''token'', JStr token),
      (''from'', JStr from), (''pending_nonce'', JNum pending_nonce)] @
     signed_fields epoch nonce signed_by"
| "entry_fields (TokenReject to token from pending_nonce epoch nonce signed_by) =
     [(''type'', JStr ''TOKEN_REJECT''), (''to'', JStr to), (''token'', JStr token),
      (''from'', JStr from), (''pending_nonce'', JNum pending_nonce)] @
     signed_fields epoch nonce signed_by"
| "entry_fields (GovernancePropose pid proposer title description action akey aval ends epoch
     signed_by signature) =
     [(''type'', JStr ''GOVERNANCE_PROPOSE''), (''proposal_id'', JStr pid),
      (''proposer'', JStr proposer), (''title'', JStr title), (''description'', JStr description),
      (''action'', JStr action)] @ opt_field ''action_key'' akey @ opt_field ''action_value'' aval @
     [(''voting_ends_epoch'', JNum ends), (''epoch'', JNum epoch), (''signed_by'', JStr signed_by)] @
     opt_field ''signature'' signature"
| "entry_fields (GovernanceVote pid voter approve epoch nonce signed_by signature) =
     [(''type'', JStr ''GOVERNANCE_VOTE''), (''proposal_id'', JStr pid), (''voter'', JStr voter),
      (''approve'', JBool approve)] @ signed_fields epoch nonce signed_by @
     opt_field ''signature'' signature"

text \<open>\<open>serde_json::to_string(entry)\<close>, \<open>serde_json::to_value(entry)\<close> and \<open>entry.hash()\<close>.\<close>

definition entry_text :: "env \<Rightarrow> ledger_entry \<Rightarrow> string" where
  "entry_text E e = json_print E (JObj (entry_fields e))"

definition entry_value :: "ledger_entry \<Rightarrow> json" where
  "entry_value e = jobj (entry_fields e)"

definition entry_hash :: "env \<Rightarrow> ledger_entry \<Rightarrow> string" where
  "entry_hash E e = hex_encode E (sha256 E (entry_text E e))"

text \<open>\<open>entry.epoch()\<close>: every modelled variant has the field but the genesis allocation.\<close>

fun epoch_of :: "ledger_entry \<Rightarrow> u64" where
  "epoch_of (AccountCreate account keys proofs epoch funded_by fp) = epoch"
| "epoch_of (AccountUpdateKey account role key epoch signed_by) = epoch"
| "epoch_of (AccountSetPrimary account primary epoch signed_by signature) = epoch"
| "epoch_of (ChainParameterSet key value signed_by epoch signature) = epoch"
| "epoch_of (AccountTransfer account keys epoch signed_by nonce signature) = epoch"
| "epoch_of (Transfer from to amount token memo epoch signed_by nonce twofactor) = epoch"
| "epoch_of (Stake account amount epoch nonce signed_by) = epoch"
| "epoch_of (Unstake account amount epoch nonce signed_by) = epoch"
| "epoch_of (NodeRoleOptIn node role bps mx epoch nonce signed_by) = epoch"
| "epoch_of (NodeRoleOptOut node role epoch nonce signed_by) = epoch"
| "epoch_of (NodeRoleStake node role staker amount epoch nonce signed_by) = epoch"
| "epoch_of (NodeRoleUnstake node role staker amount epoch nonce signed_by) = epoch"
| "epoch_of (MineReward miner amount epoch) = epoch"
| "epoch_of (ClockReward node_id amount epoch) = epoch"
| "epoch_of (DeviceClaimStake serial owner amount epoch nonce signed_by) = epoch"
| "epoch_of (DeviceClaimUnstake serial owner epoch nonce signed_by) = epoch"
| "epoch_of (DeviceYieldStake serial staker amount epoch nonce signed_by) = epoch"
| "epoch_of (DeviceYieldUnstake serial staker amount epoch nonce signed_by) = epoch"
| "epoch_of (TrackerLostMode serial claimer bounty expires contact epoch nonce signed_by) = epoch"
| "epoch_of (TrackerFoundConfirm serial finder claimer epoch nonce signed_by) = epoch"
| "epoch_of (GenesisAlloc account amount token) = 0"
| "epoch_of (DelegationGrant from to capabilities expires epoch nonce signed_by) = epoch"
| "epoch_of (DelegationRevoke from to epoch nonce signed_by) = epoch"
| "epoch_of (DeviceYieldOptIn serial owner mx epoch nonce signed_by) = epoch"
| "epoch_of (DeviceYieldOptOut serial owner epoch nonce signed_by) = epoch"
| "epoch_of (SpamGateSet account token fee fee_token addr cid epoch nonce signed_by) = epoch"
| "epoch_of (SpamGatePayEvm from to token amount tx_hash cid epoch nonce signed_by) = epoch"
| "epoch_of (SpamGateClear account token epoch nonce signed_by) = epoch"
| "epoch_of (TokenApprove account token from epoch nonce signed_by) = epoch"
| "epoch_of (TokenRevoke account token from epoch nonce signed_by) = epoch"
| "epoch_of (TokenAccept to token from pending_nonce epoch nonce signed_by) = epoch"
| "epoch_of (TokenReject to token from pending_nonce epoch nonce signed_by) = epoch"
| "epoch_of (GovernancePropose pid proposer title descr action akey aval ends epoch signed_by sg) = epoch"
| "epoch_of (GovernanceVote pid voter approve epoch nonce signed_by signature) = epoch"

definition ENTRY_WEIGHT_SYSTEM :: u64 where "ENTRY_WEIGHT_SYSTEM = 0"

definition ENTRY_WEIGHT_MICRO :: u64 where "ENTRY_WEIGHT_MICRO = 1"

definition ENTRY_WEIGHT_STANDARD :: u64 where "ENTRY_WEIGHT_STANDARD = 3"

definition ENTRY_WEIGHT_HEAVY :: u64 where "ENTRY_WEIGHT_HEAVY = 5"

definition ENTRY_WEIGHT_REGISTRATION :: u64 where "ENTRY_WEIGHT_REGISTRATION = 20"

definition entry_weight :: "ledger_entry \<Rightarrow> u64" where
  "entry_weight e = (case e of
       MineReward _ _ _ \<Rightarrow> ENTRY_WEIGHT_SYSTEM
     | ClockReward _ _ _ \<Rightarrow> ENTRY_WEIGHT_SYSTEM
     | GenesisAlloc _ _ _ \<Rightarrow> ENTRY_WEIGHT_SYSTEM
     | Transfer _ _ _ _ _ _ _ _ _ \<Rightarrow> ENTRY_WEIGHT_MICRO
     | DelegationGrant _ _ _ _ _ _ _ \<Rightarrow> ENTRY_WEIGHT_MICRO
     | DelegationRevoke _ _ _ _ _ \<Rightarrow> ENTRY_WEIGHT_MICRO
     | ChainParameterSet _ _ _ _ _ \<Rightarrow> ENTRY_WEIGHT_MICRO
     | AccountTransfer _ _ _ _ _ _ \<Rightarrow> ENTRY_WEIGHT_MICRO
     | Stake _ _ _ _ _ \<Rightarrow> ENTRY_WEIGHT_STANDARD
     | Unstake _ _ _ _ _ \<Rightarrow> ENTRY_WEIGHT_STANDARD
     | NodeRoleStake _ _ _ _ _ _ _ \<Rightarrow> ENTRY_WEIGHT_STANDARD
     | NodeRoleUnstake _ _ _ _ _ _ _ \<Rightarrow> ENTRY_WEIGHT_STANDARD
     | TrackerFoundConfirm _ _ _ _ _ _ \<Rightarrow> ENTRY_WEIGHT_STANDARD
     | DeviceClaimUnstake _ _ _ _ _ \<Rightarrow> ENTRY_WEIGHT_STANDARD
     | DeviceYieldUnstake _ _ _ _ _ _ \<Rightarrow> ENTRY_WEIGHT_STANDARD
     | DeviceYieldOptOut _ _ _ _ _ \<Rightarrow> ENTRY_WEIGHT_STANDARD
     | SpamGateClear _ _ _ _ _ \<Rightarrow> ENTRY_WEIGHT_STANDARD
     | TokenAccept _ _ _ _ _ _ _ \<Rightarrow> ENTRY_WEIGHT_STANDARD
     | TokenReject _ _ _ _ _ _ _ \<Rightarrow> ENTRY_WEIGHT_STANDARD
     | TrackerLostMode _ _ _ _ _ _ _ _ \<Rightarrow> ENTRY_WEIGHT_HEAVY
     | SpamGatePayEvm _ _ _ _ _ _ _ _ _ \<Rightarrow> ENTRY_WEIGHT_HEAVY
     | AccountCreate _ _ _ _ _ _ \<Rightarrow> ENTRY_WEIGHT_REGISTRATION
     | AccountUpdateKey _ _ _ _ _ \<Rightarrow> ENTRY_WEIGHT_REGISTRATION
     | AccountSetPrimary _ _ _ _ _ \<Rightarrow> ENTRY_WEIGHT_REGISTRATION
     | DeviceClaimStake _ _ _ _ _ _ \<Rightarrow> ENTRY_WEIGHT_REGISTRATION
     | DeviceYieldStake _ _ _ _ _ _ \<Rightarrow> ENTRY_WEIGHT_REGISTRATION
     | DeviceYieldOptIn _ _ _ _ _ _ \<Rightarrow> ENTRY_WEIGHT_REGISTRATION
     | NodeRoleOptIn _ _ _ _ _ _ _ \<Rightarrow> ENTRY_WEIGHT_REGISTRATION
     | NodeRoleOptOut _ _ _ _ _ \<Rightarrow> ENTRY_WEIGHT_REGISTRATION
     | GovernancePropose _ _ _ _ _ _ _ _ _ _ _ \<Rightarrow> ENTRY_WEIGHT_REGISTRATION
     | GovernanceVote _ _ _ _ _ _ _ \<Rightarrow> ENTRY_WEIGHT_REGISTRATION
     | SpamGateSet _ _ _ _ _ _ _ _ _ \<Rightarrow> ENTRY_WEIGHT_REGISTRATION
     | TokenApprove _ _ _ _ _ _ \<Rightarrow> ENTRY_WEIGHT_REGISTRATION
     | TokenRevoke _ _ _ _ _ _ \<Rightarrow> ENTRY_WEIGHT_REGISTRATION)"

section \<open>The transaction history\<close>

text \<open>The accounts whose balance or stake an entry touches, each with its role in the entry.\<close>

definition touched :: "ledger_entry \<Rightarrow> (string \<times> string) list" where
  "touched e = (case e of
       Transfer from to _ _ _ _ _ _ _ \<Rightarrow> [(from, ''sender''), (to, ''recipient'')]
     | GenesisAlloc account _ _ \<Rightarrow> [(account, ''genesis'')]
     | MineReward miner _ _ \<Rightarrow> [(miner, ''mine_reward'')]
     | ClockReward node_id _ _ \<Rightarrow> [(node_id, ''clock_reward'')]
     | Stake account _ _ _ _ \<Rightarrow> [(account, ''stake'')]
     | Unstake account _ _ _ _ \<Rightarrow> [(account, ''unstake'')]
     | NodeRoleStake _ _ staker _ _ _ _ \<Rightarrow> [(staker, ''role_stake'')]
     | NodeRoleUnstake _ _ staker _ _ _ _ \<Rightarrow> [(staker, ''role_unstake'')]
     | _ \<Rightarrow> [])"

definition txhist_key :: "string \<Rightarrow> u64 \<Rightarrow> string \<Rightarrow> string \<Rightarrow> string" where
  "txhist_key account epoch role pre =
     ''txhist:'' @ account @ '':'' @ hex16 epoch @ '':'' @ role @ '':'' @ pre"

definition txglobal_key :: "u64 \<Rightarrow> string \<Rightarrow> string" where
  "txglobal_key epoch pre = ''txglobal:'' @ hex16 epoch @ '':'' @ pre"

definition history_record :: "ledger_entry \<Rightarrow> json" where
  "history_record e = jobj [(''epoch'', JNum (epoch_of e)),
     (''type'', JStr (the_str (entry_value e) ''type'' ''unknown'')), (''entry'', entry_value e)]"

definition index_tx_history :: "env \<Rightarrow> ledger_entry \<Rightarrow> unit chain_act" where
  "index_tx_history E e =
    (let pre = take 8 (entry_hash E e) in
     if touched e = [] then ret ()
     else seq (each (\<lambda>(account, role).
                 state_set (txhist_key account (epoch_of e) role pre) (Json (history_record e)))
                 (touched e))
              (state_set (txglobal_key (epoch_of e) pre) (Json (history_record e))))"

section \<open>Application\<close>

text \<open>The arm of the entry; \<open>False\<close> is the arm that returns from \<open>apply_entry\<close> at once.\<close>

definition apply_arm :: "env \<Rightarrow> ledger_entry \<Rightarrow> bool chain_act" where
  "apply_arm E e = (case e of
       AccountCreate account keys proofs epoch funded_by fp \<Rightarrow>
         apply_AccountCreate E account keys proofs epoch funded_by fp
     | AccountUpdateKey account role key epoch _ \<Rightarrow>
         seq (apply_AccountUpdateKey account role key epoch) (ret True)
     | AccountSetPrimary account primary _ _ _ \<Rightarrow> seq (apply_AccountSetPrimary account primary) (ret True)
     | ChainParameterSet key value _ _ _ \<Rightarrow> seq (apply_ChainParameterSet key value) (ret True)
     | AccountTransfer account keys epoch _ _ _ \<Rightarrow>
         seq (apply_AccountTransfer account keys epoch) (ret True)
     | Transfer from to amount token _ epoch _ nonce _ \<Rightarrow>
         seq (apply_Transfer E from to amount token epoch nonce) (ret True)
     | Stake account amount epoch _ _ \<Rightarrow> seq (apply_Stake E account amount epoch) (ret True)
     | Unstake account amount epoch _ _ \<Rightarrow> seq (apply_Unstake E account amount epoch) (ret True)
     | NodeRoleOptIn node role bps mx epoch _ _ \<Rightarrow>
         seq (apply_NodeRoleOptIn node role bps mx epoch) (ret True)
     | NodeRoleOptOut node role epoch _ _ \<Rightarrow> seq (apply_NodeRoleOptOut node role epoch) (ret True)
     | NodeRoleStake node role staker amount epoch _ _ \<Rightarrow>
         seq (apply_NodeRoleStake E node role staker amount epoch) (ret True)
     | NodeRoleUnstake node role staker amount _ _ _ \<Rightarrow>
         seq (apply_NodeRoleUnstake E node role staker amount) (ret True)
     | MineReward miner amount epoch \<Rightarrow> seq (apply_MineReward E miner amount epoch) (ret True)
     | ClockReward node_id amount epoch \<Rightarrow> seq (apply_ClockReward E node_id amount epoch) (ret True)
     | DeviceClaimStake serial owner amount epoch _ _ \<Rightarrow>
         seq (apply_DeviceClaimStake E serial owner amount epoch) (ret True)
     | DeviceClaimUnstake serial owner epoch _ _ \<Rightarrow>
         seq (apply_DeviceClaimUnstake E serial owner epoch) (ret True)
     | DeviceYieldStake serial staker amount epoch _ _ \<Rightarrow>
         seq (apply_DeviceYieldStake E serial staker amount epoch) (ret True)
     | DeviceYieldUnstake serial staker amount _ _ _ \<Rightarrow>
         seq (apply_DeviceYieldUnstake E serial staker amount) (ret True)
     | TrackerLostMode serial claimer bounty expires contact epoch nonce _ \<Rightarrow>
         seq (apply_TrackerLostMode E serial claimer bounty expires contact epoch nonce) (ret True)
     | TrackerFoundConfirm serial finder claimer epoch _ _ \<Rightarrow>
         seq (apply_TrackerFoundConfirm E serial finder claimer epoch) (ret True)
     | GenesisAlloc account amount token \<Rightarrow> seq (apply_GenesisAlloc account amount token) (ret True)
     | DelegationGrant from to capabilities expires _ _ _ \<Rightarrow>
         seq (apply_DelegationGrant from to capabilities expires) (ret True)
     | DelegationRevoke from to _ _ _ \<Rightarrow> seq (apply_DelegationRevoke from to) (ret True)
     | DeviceYieldOptIn serial owner mx _ _ _ \<Rightarrow>
         seq (apply_DeviceYieldOptIn E serial owner mx) (ret True)
     | DeviceYieldOptOut serial owner _ _ _ \<Rightarrow> seq (apply_DeviceYieldOptOut E serial owner) (ret True)
     | SpamGateSet account token fee fee_token addr cid _ _ _ \<Rightarrow>
         seq (apply_SpamGateSet account token fee fee_token addr cid) (ret True)
     | SpamGatePayEvm from to token amount tx_hash cid epoch nonce _ \<Rightarrow>
         seq (apply_SpamGatePayEvm E from to token amount tx_hash cid epoch nonce) (ret True)
     | SpamGateClear account token _ _ _ \<Rightarrow> seq (apply_SpamGateClear account token) (ret True)
     | TokenApprove account token from _ _ _ \<Rightarrow> seq (apply_TokenApprove account token from) (ret True)
     | TokenRevoke account token from _ _ _ \<Rightarrow> seq (apply_TokenRevoke account token from) (ret True)
     | TokenAccept to token from pending_nonce _ _ _ \<Rightarrow>
         seq (apply_TokenAccept E to token from pending_nonce) (ret True)
     | TokenReject to token from pending_nonce _ _ _ \<Rightarrow>
         seq (apply_TokenReject E to token from pending_nonce) (ret True)
     | GovernancePropose pid proposer title descr action akey aval ends epoch _ _ \<Rightarrow>
         seq (apply_GovernancePropose E pid proposer title descr action akey aval ends epoch) (ret True)
     | GovernanceVote pid voter approve epoch _ _ _ \<Rightarrow>
         seq (apply_GovernanceVote E pid voter approve epoch) (ret True))"

definition apply_entry :: "env \<Rightarrow> ledger_entry \<Rightarrow> unit chain_act" where
  "apply_entry E e =
     andThen (apply_arm E e) (\<lambda>went_on. when_do went_on (index_tx_history E e))"

text \<open>
  A rejected entry is logged and skipped, its partial writes stay; the result counts the others.
  A panic is not an \<open>Err\<close> and unwinds through the loop.
\<close>

definition logged :: "('s, 'a) act \<Rightarrow> ('s, bool) act" where
  "logged m = (\<lambda>s. case m s of
       (Inl (Panic t), s') \<Rightarrow> (Inl (Panic t), s')
     | (Inl _, s') \<Rightarrow> (Inr False, s')
     | (Inr _, s') \<Rightarrow> (Inr True, s'))"

fun apply_block_entries :: "env \<Rightarrow> ledger_entry list \<Rightarrow> nat chain_act" where
  "apply_block_entries E [] = ret 0"
| "apply_block_entries E (e # es) =
     andThen (logged (apply_entry E e)) (\<lambda>ok.
     andThen (apply_block_entries E es) (\<lambda>n. ret (if ok then n + 1 else n)))"

end
