(* ===== verification/History.thy ===== *)
theory History
  imports Entry
begin

text \<open>
  Facts about applying an entry: every handler keeps the store well-formed, and an applied entry
  that moves a balance or a stake can be found again in the transaction history.
\<close>

section \<open>Well-formed states\<close>

lemma preserves_SpamGate [preserves_intros]:
  "(\<And>a b. g = OnChain a b \<Longrightarrow> preserves P (m a b)) \<Longrightarrow>
    (\<And>a b. g = Evm a b \<Longrightarrow> preserves P (n a b)) \<Longrightarrow>
    preserves P (case g of OnChain a b \<Rightarrow> m a b | Evm a b \<Rightarrow> n a b)"
  by (simp split: SpamGate.split)

lemmas account_handlers = apply_AccountCreate_def apply_AccountUpdateKey_def
  apply_AccountSetPrimary_def apply_ChainParameterSet_def apply_AccountTransfer_def
  apply_GenesisAlloc_def apply_DelegationGrant_def apply_DelegationRevoke_def

lemma preserves_wf_account_handlers [preserves_intros]:
  "preserves wf_chain (apply_AccountCreate E a ks ps ep fb fp)"
  "preserves wf_chain (apply_AccountUpdateKey a r k ep)"
  "preserves wf_chain (apply_AccountSetPrimary a p)"
  "preserves wf_chain (apply_ChainParameterSet k v)"
  "preserves wf_chain (apply_AccountTransfer a ks ep)"
  "preserves wf_chain (apply_GenesisAlloc a n t)"
  "preserves wf_chain (apply_DelegationGrant a b cs x)"
  "preserves wf_chain (apply_DelegationRevoke a b)"
  unfolding account_handlers
  by (intro preserves_intros; (simp split: option.split json.split add: preserves_ret)?)+

lemma preserves_wf_token_handlers [preserves_intros]:
  "preserves wf_chain (apply_SpamGateSet a t f ft ad c)"
  "preserves wf_chain (apply_SpamGatePayEvm E a b t n h ci ep no)"
  "preserves wf_chain (apply_SpamGateClear a t)"
  "preserves wf_chain (apply_TokenApprove a t b)"
  "preserves wf_chain (apply_TokenRevoke a t b)"
  "preserves wf_chain (apply_TokenAccept E a t b no)"
  "preserves wf_chain (apply_TokenReject E a t b no)"
  unfolding apply_SpamGateSet_def apply_SpamGatePayEvm_def apply_SpamGateClear_def
    apply_TokenApprove_def apply_TokenRevoke_def apply_TokenAccept_def apply_TokenReject_def
  by (intro preserves_intros)+

lemma preserves_wf_stake_handlers [preserves_intros]:
  "preserves wf_chain (apply_Stake E a n ep)"
  "preserves wf_chain (apply_Unstake E a n ep)"
  "preserves wf_chain (apply_DeviceYieldStake E d a n ep)"
  "preserves wf_chain (apply_DeviceYieldUnstake E d a n)"
  "preserves wf_chain (apply_DeviceYieldOptIn E d a mx)"
  "preserves wf_chain (apply_DeviceYieldOptOut E d a)"
  unfolding apply_Stake_def apply_Unstake_def unbond_def apply_DeviceYieldStake_def
    apply_DeviceYieldUnstake_def apply_DeviceYieldOptIn_def apply_DeviceYieldOptOut_def
  by (intro preserves_intros)+

lemma preserves_wf_role_handlers [preserves_intros]:
  "preserves wf_chain (apply_NodeRoleOptIn a r bp mx ep)"
  "preserves wf_chain (apply_NodeRoleOptOut a r ep)"
  "preserves wf_chain (apply_NodeRoleStake E a r b n ep)"
  "preserves wf_chain (apply_NodeRoleUnstake E a r b n)"
  unfolding apply_NodeRoleOptIn_def apply_NodeRoleOptOut_def apply_NodeRoleStake_def
    apply_NodeRoleUnstake_def
  by (intro preserves_intros)+

lemma preserves_wf_claim_handlers [preserves_intros]:
  "preserves wf_chain (apply_DeviceClaimStake E d a n ep)"
  "preserves wf_chain (apply_DeviceClaimUnstake E d a ep)"
  unfolding apply_DeviceClaimStake_def apply_DeviceClaimUnstake_def overbid_def
    distribute_premium_def pay_yield_staker_def unbond_def
  by (intro preserves_intros)+

lemma preserves_wf_reward_handlers [preserves_intros]:
  "preserves wf_chain (apply_MineReward E a n ep)"
  "preserves wf_chain (apply_ClockReward E a n ep)"
  unfolding apply_MineReward_def apply_ClockReward_def distribute_role_backer_reward_def
    pay_backer_def bootstrap_stake_def
  by (intro preserves_intros)+

lemma preserves_wf_tracker_handlers [preserves_intros]:
  "preserves wf_chain (apply_TrackerLostMode E a b n x c ep no)"
  "preserves wf_chain (apply_TrackerFoundConfirm E a f b ep)"
  unfolding apply_TrackerLostMode_def apply_TrackerFoundConfirm_def update_record_def pay_bounty_def
  by (intro preserves_intros)+

lemma preserves_wf_governance_handlers [preserves_intros]:
  "preserves wf_chain (apply_GovernancePropose E p a t d ac k v x ep)"
  "preserves wf_chain (apply_GovernanceVote E p a yes ep)"
  unfolding apply_GovernancePropose_def apply_GovernanceVote_def load_proposal_def
  by (intro preserves_intros)+

lemma preserves_wf_arm [preserves_intros]: "preserves wf_chain (apply_arm E e)"
  unfolding apply_arm_def by (cases e) (simp, intro preserves_intros)+

lemma preserves_wf_index [preserves_intros]: "preserves wf_chain (index_tx_history E e)"
  unfolding index_tx_history_def by (intro preserves_intros)

lemma preserves_wf_entry [preserves_intros]: "preserves wf_chain (apply_entry E e)"
  unfolding apply_entry_def by (intro preserves_intros)

lemma logged_state: "snd (logged m s) = snd (m s)"
  by (simp add: logged_def split: prod.split sum.split error.split)

lemma preserves_logged [preserves_intros]: "preserves P m \<Longrightarrow> preserves P (logged m)"
  by (simp add: preserves_def logged_state)

text \<open>
  Applying the entries of a block, the refused ones and a panic included, leaves every
  column family ordered by key without duplicates, which the prefix scans of the node rely on.
\<close>

theorem block_keeps_wf: "preserves wf_chain (apply_block_entries E es)"
  by (induction es) (simp_all add: preserves_intros)

section \<open>What the history keeps\<close>

lemma state_set_apply: "state_set k v s = (Inr (), s\<lparr>cf_meta := kv_put k v (cf_meta s)\<rparr>)"
  by (simp add: state_set_def modify_apply)

lemma each_state_set:
  assumes "each (\<lambda>x. state_set (key x) v) xs s = (r, s')"
  shows "r = Inr () \<and> state_get s' k = (if k \<in> key ` set xs then Some v else state_get s k)"
  using assms
proof (induction xs arbitrary: s)
  case Nil
  then show ?case by (auto simp: act_simps)
next
  case (Cons x xs)
  from Cons(2) obtain s1 where x: "state_set (key x) v s = (Inr (), s1)"
    and xs: "each (\<lambda>x. state_set (key x) v) xs s1 = (r, s')"
    by (auto simp: seq_apply state_set_apply [of "key x" v s])
  from x have "state_get s1 k = (if k = key x then Some v else state_get s k)"
    by (auto simp: state_set_apply state_get_def)
  with Cons(1) [OF xs] show ?case by auto
qed

lemma index_get:
  assumes run: "index_tx_history E e s = (r, s')" and some: "touched e \<noteq> []"
  shows "state_get s' k =
    (if k = txglobal_key (epoch_of e) (take 8 (entry_hash E e)) \<or>
        k \<in> (\<lambda>x. txhist_key (fst x) (epoch_of e) (snd x) (take 8 (entry_hash E e))) ` set (touched e)
     then Some (Json (history_record e)) else state_get s k)"
proof -
  let ?pre = "take 8 (entry_hash E e)" and ?v = "Json (history_record e)"
  let ?key = "\<lambda>x. txhist_key (fst x) (epoch_of e) (snd x) ?pre"
  obtain r1 s1 where e1: "each (\<lambda>x. state_set (?key x) ?v) (touched e) s = (r1, s1)"
    by fastforce
  note keys = each_state_set [OF e1, of k]
  from run some e1 keys have "s' = s1\<lparr>cf_meta := kv_put (txglobal_key (epoch_of e) ?pre) ?v (cf_meta s1)\<rparr>"
    by (simp add: index_tx_history_def Let_def seq_apply case_prod_unfold state_set_apply)
  with keys show ?thesis by (auto simp: state_get_def)
qed

lemma apply_entry_steps:
  assumes run: "apply_entry E e s = (Inr (), s')" and some: "touched e \<noteq> []"
  obtains s1 where "apply_arm E e s = (Inr True, s1)" "index_tx_history E e s1 = (Inr (), s')"
proof -
  obtain b s1 where arm: "apply_arm E e s = (Inr b, s1)"
      and rest: "when_do b (index_tx_history E e) s1 = (Inr (), s')"
    using run by (auto simp: apply_entry_def andThen_Inr)
  have "b" using arm some
    by (cases e) (auto simp: touched_def apply_arm_def seq_Inr ret_apply)
  with arm rest that show ?thesis by (simp add: when_do_apply)
qed

text \<open>
  An applied entry that moves a balance or a stake is in the history: each account it touches
  has a record under its own prefix, the scan of the epoch's global index lists the entry, and the
  record holds the entry as it was serialised.
\<close>

theorem applied_entry_indexed:
  assumes run: "apply_entry E e s = (Inr (), s')" and some: "touched e \<noteq> []" and wf: "wf_chain s"
  shows "(\<forall>x \<in> set (touched e).
        state_get s' (txhist_key (fst x) (epoch_of e) (snd x) (take 8 (entry_hash E e))) =
          Some (Json (history_record e))) \<and>
      (txglobal_key (epoch_of e) (take 8 (entry_hash E e)), Json (history_record e)) \<in>
        set (state_scan_prefix s' (''txglobal:'' @ hex16 (epoch_of e) @ '':'')) \<and>
      jget (history_record e) ''entry'' = entry_value e"
proof -
  obtain s1 where "apply_arm E e s = (Inr True, s1)" and idx: "index_tx_history E e s1 = (Inr (), s')"
    using apply_entry_steps [OF run some] .
  have sorted: "kv_sorted (cf_meta s')"
    using preservesD [OF preserves_wf_entry wf run] by (simp add: wf_chain_def)
  have "state_get s' (txglobal_key (epoch_of e) (take 8 (entry_hash E e))) =
      Some (Json (history_record e))"
    by (simp add: index_get [OF idx some])
  with sorted have "(txglobal_key (epoch_of e) (take 8 (entry_hash E e)), Json (history_record e)) \<in>
      set (state_scan_prefix s' (''txglobal:'' @ hex16 (epoch_of e) @ '':''))"
    by (simp add: state_scan_prefix_def set_kv_scan state_get_def) (simp add: txglobal_key_def)
  moreover have "jget (history_record e) ''entry'' = entry_value e"
    by (simp add: history_record_def)
  ultimately show ?thesis by (auto simp: index_get [OF idx some])
qed

definition demo_entry :: ledger_entry where
  "demo_entry = Transfer ''alice'' ''bob'' 30 ''TOK'' None 1 ''alice'' 1 None"

theorem applied_entry_indexed_witness:
  "(txglobal_key 1 (take 8 (entry_hash demo_env demo_entry)), Json (history_record demo_entry)) \<in>
     set (state_scan_prefix (snd (apply_entry demo_env demo_entry demo_chain))
       (''txglobal:'' @ hex16 1 @ '':''))"
proof -
  obtain r s' where run: "index_tx_history demo_env demo_entry demo_pending = (r, s')"
    by fastforce
  have "r = Inr ()"
    using run by (simp add: index_tx_history_def demo_entry_def touched_def Let_def seq_apply
        state_set_apply ret_apply)
  moreover have "apply_Transfer demo_env ''alice'' ''bob'' 30 ''TOK'' 1 1 demo_chain = (Inr (), demo_pending)"
    unfolding demo_pending_def by (rule demo_transfer)
  ultimately have ok: "apply_entry demo_env demo_entry demo_chain = (Inr (), s')"
    using run
    by (simp add: apply_entry_def apply_arm_def demo_entry_def andThen_apply seq_apply ret_apply
        when_do_apply)
  have "wf_chain demo_chain"
    by (simp add: demo_chain_def wf_chain_def kv_sorted_def empty_chain_def balance_key_def run_simps)
  from applied_entry_indexed [OF ok _ this] ok show ?thesis
    by (simp add: demo_entry_def touched_def)
qed

end
