(* ===== verification/Validation.thy ===== *)
theory Validation
  imports History
begin

text \<open>
  The gatekeeper for submitted entries (\<open>tx.rs\<close>): \<open>validate_and_apply\<close> with its stale-entry and fee
  guards, the checks of each arm (who may sign, key, nonce, signature, second factor, funds), the
  canonical message a client signs, and the fee that is moved after the entry has been applied.
  \<open>drain_pending_params\<close> of \<open>chain.rs\<close> releases what the parameter arm has queued. The theorems say
  what an accepted transfer or creation was authorised by, that a transfer in order is accepted, that
  an accepted nonce is spent across entry types, that fees are only moved and that a parameter waits
  for its epoch; and three gaps: a signer without an active key needs no signature, a key update can
  be replayed, and a second factor named by its chain locks the account.
\<close>

section \<open>The node\<close>

text \<open>
  The chain id of the node; the recovery of an address from an external wallet's signature, which
  the node does with third-party cryptography for the four signature types it knows; and the
  deserialisation of an entry from its text.
\<close>

record node =
  chain_id :: string
  recover_wallet :: "string \<Rightarrow> string \<Rightarrow> string \<Rightarrow> string option"
  entry_parse :: "string \<Rightarrow> ledger_entry option"

definition recover_chain_address :: "node \<Rightarrow> string \<Rightarrow> string \<Rightarrow> string \<Rightarrow> string option" where
  "recover_chain_address N sig_type message signature =
    (if sig_type \<in> {''eth_personal_sign'', ''sol_sign'', ''btc_legacy'', ''ton_sign_data''}
     then recover_wallet N sig_type message signature else None)"

definition STALE_WINDOW :: u64 where
  "STALE_WINDOW = 5"

definition read_base_fee :: "env \<Rightarrow> chain \<Rightarrow> u64" where
  "read_base_fee E s =
    (case Option.bind (state_json E s ''chain_param:base_fee'') (\<lambda>j. as_u64 (jget j ''fee'')) of
       Some fee \<Rightarrow> fee | None \<Rightarrow> BASE_FEE_INITIAL_HUNITS)"

definition entry_fee_payer :: "ledger_entry \<Rightarrow> string option" where
  "entry_fee_payer e = (case e of
       Transfer from _ _ _ _ _ _ _ _ \<Rightarrow> Some from
     | Stake account _ _ _ _ \<Rightarrow> Some account
     | Unstake account _ _ _ _ \<Rightarrow> Some account
     | _ \<Rightarrow> as_str (jget (entry_value e) ''signed_by''))"

definition is_system_entry :: "ledger_entry \<Rightarrow> bool" where
  "is_system_entry e = (case e of
       MineReward _ _ _ \<Rightarrow> True | ClockReward _ _ _ \<Rightarrow> True | GenesisAlloc _ _ _ \<Rightarrow> True | _ \<Rightarrow> False)"

definition is_account_create :: "ledger_entry \<Rightarrow> bool" where
  "is_account_create e = (case e of AccountCreate _ _ _ _ _ _ \<Rightarrow> True | _ \<Rightarrow> False)"

text \<open>The epoch the stale guard looks at; \<open>None\<close> for the variants the table does not list.\<close>

definition entry_epoch :: "ledger_entry \<Rightarrow> u64 option" where
  "entry_epoch e = (case e of
       Transfer _ _ _ _ _ epoch _ _ _ \<Rightarrow> Some epoch
     | Stake _ _ epoch _ _ \<Rightarrow> Some epoch
     | Unstake _ _ epoch _ _ \<Rightarrow> Some epoch
     | DeviceClaimStake _ _ _ epoch _ _ \<Rightarrow> Some epoch
     | DeviceClaimUnstake _ _ epoch _ _ \<Rightarrow> Some epoch
     | DeviceYieldStake _ _ _ epoch _ _ \<Rightarrow> Some epoch
     | DelegationGrant _ _ _ _ epoch _ _ \<Rightarrow> Some epoch
     | DelegationRevoke _ _ epoch _ _ \<Rightarrow> Some epoch
     | AccountTransfer _ _ epoch _ _ _ \<Rightarrow> Some epoch
     | NodeRoleOptIn _ _ _ _ epoch _ _ \<Rightarrow> Some epoch
     | NodeRoleOptOut _ _ epoch _ _ \<Rightarrow> Some epoch
     | NodeRoleStake _ _ _ _ epoch _ _ \<Rightarrow> Some epoch
     | NodeRoleUnstake _ _ _ _ epoch _ _ \<Rightarrow> Some epoch
     | _ \<Rightarrow> None)"

definition check_not_empty :: "string \<Rightarrow> unit chain_act" where
  "check_not_empty t = ensure (trim t \<noteq> []) (Err ''field must not be empty'')"

section \<open>Keys and signatures\<close>

text \<open>\<open>state.get("keys").and_then(get(role)).and_then(as_str).filter(|k| !k.is_empty())\<close>\<close>

definition role_key :: "json \<Rightarrow> string \<Rightarrow> string option" where
  "role_key state role =
     Option.bind (Option.bind (Option.bind (jfield state ''keys'') (\<lambda>ks. jfield ks role)) as_str)
       (\<lambda>k. if k = [] then None else Some k)"

definition or_else :: "'a option \<Rightarrow> 'a option \<Rightarrow> 'a option" where
  "or_else x y = (case x of Some v \<Rightarrow> Some v | None \<Rightarrow> y)"

definition owner_or_posting :: "json \<Rightarrow> string option" where
  "owner_or_posting state = or_else (role_key state ''owner'') (role_key state ''posting'')"

definition require_key :: "string \<Rightarrow> unit chain_act" where
  "require_key account =
    (if account \<in> set STAKE_EXEMPT_ACCOUNTS then ret ()
     else andThen (reads (\<lambda>s. get_account s account)) (\<lambda>st.
       case st of
         None \<Rightarrow> ret ()
       | Some state \<Rightarrow> ensure (role_key state ''posting'' \<noteq> None)
           (Err ''account has no posting key registered'')))"

text \<open>The message a client signs: the chain id and the fields it knows, printed with ordered keys.\<close>

definition create_proofs :: "chain_proof list \<Rightarrow> json list" where
  "create_proofs ps = map (\<lambda>p. jobj [(''chain'', JStr (fst p)), (''commitment'', JStr (fst (snd p))),
     (''mode'', JStr (snd (snd p)))]) (sort_key fst ps)"

definition signing_fields :: "env \<Rightarrow> ledger_entry \<Rightarrow> (string \<times> json) list" where
  "signing_fields E e = (case e of
       AccountCreate account keys proofs _ funded_by _ \<Rightarrow>
         [(''type'', JStr ''ACCOUNT_CREATE''), (''account'', JStr account),
          (''keys'', key_map_json keys), (''chain_proofs'', JArr (create_proofs proofs)),
          (''funded_by'', jopt_str funded_by)]
     | Transfer from to amount token _ _ _ nonce _ \<Rightarrow>
         [(''type'', JStr ''TRANSFER''), (''from'', JStr from), (''to'', JStr to),
          (''amount'', JNum amount), (''token'', JStr token), (''nonce'', JNum nonce)]
     | Stake account amount _ nonce _ \<Rightarrow>
         [(''type'', JStr ''STAKE''), (''account'', JStr account), (''amount'', JNum amount),
          (''nonce'', JNum nonce)]
     | Unstake account amount _ nonce _ \<Rightarrow>
         [(''type'', JStr ''UNSTAKE''), (''account'', JStr account), (''amount'', JNum amount),
          (''nonce'', JNum nonce)]
     | TrackerLostMode serial claimer bounty expires contact _ nonce _ \<Rightarrow>
         [(''type'', JStr ''TRACKER_LOST_MODE''), (''serial_commitment'', JStr serial),
          (''claimer'', JStr claimer), (''bounty_hunits'', JNum bounty),
          (''expires_epoch'', JNum expires), (''contact_encrypted'', jopt_str contact),
          (''nonce'', JNum nonce)]
     | TrackerFoundConfirm serial finder claimer _ nonce _ \<Rightarrow>
         [(''type'', JStr ''TRACKER_FOUND_CONFIRM''), (''serial_commitment'', JStr serial),
          (''finder'', JStr finder), (''claimer'', JStr claimer), (''nonce'', JNum nonce)]
     | DeviceYieldUnstake serial staker amount _ nonce _ \<Rightarrow>
         [(''type'', JStr ''DEVICE_YIELD_UNSTAKE''), (''device_serial'', JStr serial),
          (''staker'', JStr staker), (''amount'', JNum amount), (''nonce'', JNum nonce)]
     | AccountUpdateKey account role key _ _ \<Rightarrow>
         [(''type'', JStr ''ACCOUNT_UPDATE_KEY''), (''account'', JStr account),
          (''role'', JStr role), (''new_public_key'', JStr key)]
     | AccountSetPrimary account primary _ _ _ \<Rightarrow>
         [(''type'', JStr ''ACCOUNT_SET_PRIMARY''), (''account'', JStr account),
          (''primary'', JStr primary)]
     | ChainParameterSet key value _ _ _ \<Rightarrow>
         [(''type'', JStr ''CHAIN_PARAMETER_SET''), (''key'', JStr key), (''value'', JStr value)]
     | AccountTransfer account keys _ _ nonce _ \<Rightarrow>
         [(''type'', JStr ''ACCOUNT_TRANSFER''), (''account'', JStr account),
          (''new_keys'', key_map_json keys), (''nonce'', JNum nonce)]
     | NodeRoleOptIn node role bps mx _ nonce _ \<Rightarrow>
         [(''type'', JStr ''NODE_ROLE_OPT_IN''), (''node'', JStr node), (''role'', JStr role),
          (''backer_share_bps'', JNum bps), (''max_backers'', JNum mx), (''nonce'', JNum nonce)]
     | NodeRoleOptOut node role _ nonce _ \<Rightarrow>
         [(''type'', JStr ''NODE_ROLE_OPT_OUT''), (''node'', JStr node), (''role'', JStr role),
          (''nonce'', JNum nonce)]
     | NodeRoleStake node role staker amount _ nonce _ \<Rightarrow>
         [(''type'', JStr ''NODE_ROLE_STAKE''), (''node'', JStr node), (''role'', JStr role),
          (''staker'', JStr staker), (''amount'', JNum amount), (''nonce'', JNum nonce)]
     | NodeRoleUnstake node role staker amount _ nonce _ \<Rightarrow>
         [(''type'', JStr ''NODE_ROLE_UNSTAKE''), (''node'', JStr node), (''role'', JStr role),
          (''staker'', JStr staker), (''amount'', JNum amount), (''nonce'', JNum nonce)]
     | _ \<Rightarrow> [(''entry'', JStr (entry_text E e))])"

definition canonical_signing_message :: "env \<Rightarrow> node \<Rightarrow> ledger_entry \<Rightarrow> string" where
  "canonical_signing_message E N e =
     json_print E (jobj ((''chain_id'', JStr (chain_id N)) # signing_fields E e))"

text \<open>Decoding of key and signature, and the strict verification over the message.\<close>

definition verify_entry :: "env \<Rightarrow> node \<Rightarrow> ledger_entry \<Rightarrow> string \<Rightarrow> string option \<Rightarrow> unit chain_act" where
  "verify_entry E N e pubkey_hex sig_hex =
     andThen (need (Option.bind sig_hex (\<lambda>t. if t = [] then None else Some t)) (Err ''signature required''))
       (\<lambda>sig_str.
     andThen (need (hex_bytes E 32 pubkey_hex) (Err ''stored key is not 32 bytes of hex'')) (\<lambda>pk.
     andThen (need (hex_bytes E 64 sig_str) (Err ''signature is not 64 bytes of hex'')) (\<lambda>sg.
     ensure (ed25519_verify E pk (canonical_signing_message E N e) sg)
       (Err ''signature verification failed''))))"

definition check_signature ::
  "env \<Rightarrow> node \<Rightarrow> string \<Rightarrow> ledger_entry \<Rightarrow> string option \<Rightarrow> string \<Rightarrow> unit chain_act" where
  "check_signature E N signed_by e sig_hex role =
     andThen (reads (\<lambda>s. get_account s signed_by)) (\<lambda>st.
     case st of
       None \<Rightarrow> ret ()
     | Some state \<Rightarrow>
        (case (if role = ''owner'' then owner_or_posting state else role_key state role) of
           None \<Rightarrow> ret ()
         | Some pubkey_hex \<Rightarrow> verify_entry E N e pubkey_hex sig_hex))"

definition check_account_create_signature ::
  "env \<Rightarrow> node \<Rightarrow> ledger_entry \<Rightarrow> string option \<Rightarrow> string \<Rightarrow> unit chain_act" where
  "check_account_create_signature E N e sig_hex owner_pubkey_hex =
     verify_entry E N e owner_pubkey_hex sig_hex"

definition check_slot_2fa ::
  "env \<Rightarrow> node \<Rightarrow> string \<Rightarrow> string \<Rightarrow> ledger_entry \<Rightarrow> TwoFactor option \<Rightarrow> unit chain_act" where
  "check_slot_2fa E N account role e twofactor =
     andThen (reads (\<lambda>s. get_account s account)) (\<lambda>st.
     case st of
       None \<Rightarrow> ret ()
     | Some state \<Rightarrow>
        (case Option.bind (Option.bind (Option.bind (jfield state ''key_policies'') (\<lambda>p. jfield p role))
                (\<lambda>policy. jfield policy ''twofactor_chain'')) as_str of
           None \<Rightarrow> ret ()
         | Some required_chain \<Rightarrow>
             andThen (need twofactor (Err ''key slot requires 2FA'')) (\<lambda>tf.
             seq (ensure (tf_chain tf = required_chain) (Err ''2FA chain mismatch''))
            (seq (ensure (recover_chain_address N required_chain
                    (''hone:2fa:'' @ entry_hash E e @ '':'' @ show_u64 (epoch_of e))
                    (tf_signature tf) \<noteq> None) (Err ''2FA signature verification failed''))
                 (ensure (Option.bind (jfield state ''chain_proofs'') (\<lambda>cp. jfield cp required_chain) \<noteq> None)
                    (Err ''no chain proof on account''))))))"

section \<open>The arms\<close>

text \<open>An entry signed by the account it acts for, or by a delegate that holds the capability.\<close>

definition signer_allowed ::
  "env \<Rightarrow> string \<Rightarrow> string \<Rightarrow> string \<Rightarrow> unit chain_act" where
  "signer_allowed E account signed_by capability =
     andThen (reads (\<lambda>s. signed_by = account \<or>
         has_delegation E s account signed_by capability (current_epoch s))) (\<lambda>ok.
     ensure ok (Err ''signed_by is neither the account nor its delegate''))"

definition funds_for :: "string \<Rightarrow> string \<Rightarrow> u64 \<Rightarrow> unit chain_act" where
  "funds_for account token amount =
     andThen (reads (\<lambda>s. get_balance s account token)) (\<lambda>bal.
     ensure (bal \<ge> amount) (Err ''insufficient balance''))"

text \<open>
  The sequence most arms share: the signer is the account itself, it has a key, the nonce is the
  next one, the signature verifies; then the entry is applied and the nonce advanced.
\<close>

definition own_nonced ::
  "env \<Rightarrow> node \<Rightarrow> ledger_entry \<Rightarrow> string option \<Rightarrow> string \<Rightarrow> string \<Rightarrow> u64 \<Rightarrow> string \<Rightarrow>
    unit chain_act \<Rightarrow> unit chain_act" where
  "own_nonced E N e sig account signed_by nonce role check =
     seq (ensure (signed_by = account) (Err ''signed_by must equal account''))
    (seq (require_key account)
    (seq (check_nonce account nonce)
    (seq (check_signature E N signed_by e sig role)
    (seq check
    (seq (apply_entry E e) (bump_nonce account))))))"

definition validate_Transfer ::
  "env \<Rightarrow> node \<Rightarrow> ledger_entry \<Rightarrow> string option \<Rightarrow> string \<Rightarrow> string \<Rightarrow> u64 \<Rightarrow> string \<Rightarrow> string \<Rightarrow> u64 \<Rightarrow>
    TwoFactor option \<Rightarrow> unit chain_act" where
  "validate_Transfer E N e sig from to amount token signed_by nonce twofactor =
     seq (check_not_empty from)
    (seq (check_not_empty to)
    (seq (ensure (amount \<noteq> 0) (Err ''transfer amount must be positive''))
    (seq (signer_allowed E from signed_by ''Transfer'')
    (seq (require_key signed_by)
    (seq (check_nonce from nonce)
    (seq (check_signature E N signed_by e sig ''active'')
    (seq (check_slot_2fa E N from ''active'' e twofactor)
    (seq (funds_for from token amount)
         (apply_entry E e)))))))))"

definition validate_Stake ::
  "env \<Rightarrow> node \<Rightarrow> ledger_entry \<Rightarrow> string option \<Rightarrow> string \<Rightarrow> u64 \<Rightarrow> u64 \<Rightarrow> string \<Rightarrow> unit chain_act" where
  "validate_Stake E N e sig account amount nonce signed_by =
     seq (ensure (amount \<noteq> 0) (Err ''stake amount must be positive''))
    (seq (signer_allowed E account signed_by ''Stake'')
    (seq (require_key signed_by)
    (seq (check_nonce account nonce)
    (seq (check_signature E N signed_by e sig ''active'')
    (seq (funds_for account NATIVE_TOKEN amount)
    (seq (apply_entry E e) (bump_nonce account)))))))"

definition validate_Unstake ::
  "env \<Rightarrow> node \<Rightarrow> ledger_entry \<Rightarrow> string option \<Rightarrow> string \<Rightarrow> u64 \<Rightarrow> u64 \<Rightarrow> string \<Rightarrow> unit chain_act" where
  "validate_Unstake E N e sig account amount nonce signed_by =
     seq (ensure (amount \<noteq> 0) (Err ''unstake amount must be positive''))
    (seq (signer_allowed E account signed_by ''Stake'')
    (seq (require_key signed_by)
    (seq (check_nonce account nonce)
    (seq (check_signature E N signed_by e sig ''active'')
    (andThen (reads (\<lambda>s. get_stake s account)) (\<lambda>staked.
     seq (ensure (staked \<ge> amount) (Err ''insufficient stake''))
    (seq (apply_entry E e) (bump_nonce account))))))))"

definition is_hex_digit :: "char \<Rightarrow> bool" where
  "is_hex_digit c \<longleftrightarrow> is_dec_digit c \<or>
    (let b = (of_char c :: nat) in (65 \<le> b \<and> b \<le> 70) \<or> (97 \<le> b \<and> b \<le> 102))"

definition name_stake_check :: "env \<Rightarrow> string option \<Rightarrow> unit chain_act" where
  "name_stake_check E funded_by =
     andThen (reads (\<lambda>s. case state_text E s ''chain_param:name_stake_enabled'' of
         Some t \<Rightarrow> trim t = ''true'' | None \<Rightarrow> False)) (\<lambda>stake_enabled.
     when_do stake_enabled
      (andThen (reads (\<lambda>s. case Option.bind (state_text E s ''chain_param:name_stake_amount'')
           (\<lambda>t. parse_u64 (trim t)) of Some n \<Rightarrow> n | None \<Rightarrow> NAME_REGISTRATION_STAKE)) (\<lambda>stake_amount.
       andThen (need (Option.bind funded_by (\<lambda>f. if f = [] then None else Some f))
           (Err ''name registration requires a funded_by account'')) (\<lambda>funder.
       andThen (reads (\<lambda>s. get_balance s funder NATIVE_TOKEN)) (\<lambda>bal.
       ensure (bal \<ge> stake_amount) (Err ''funded_by cannot pay for the name''))))))"

definition validate_AccountCreate ::
  "env \<Rightarrow> node \<Rightarrow> ledger_entry \<Rightarrow> string option \<Rightarrow> string \<Rightarrow> key_map \<Rightarrow> string option \<Rightarrow> unit chain_act" where
  "validate_AccountCreate E N e sig account keys funded_by =
     seq (check_not_empty account)
    (seq (ensure (\<not> (length account = 3 \<and> list_all is_dec_digit account))
           (Err ''3-digit numeric names are reserved''))
    (andThen (need (Option.bind (kv_get keys ''owner'') (\<lambda>k. if trim k = [] then None else Some k))
        (Err ''account creation requires an owner public key'')) (\<lambda>owner_key.
     seq (ensure (list_all (\<lambda>rk. length (snd rk) = 64 \<and> list_all is_hex_digit (snd rk)) keys)
           (Err ''account creation key must be a 64-char hex string''))
    (seq (check_account_create_signature E N e sig owner_key)
    (seq (when_do (account \<notin> set STAKE_EXEMPT_ACCOUNTS) (name_stake_check E funded_by))
         (apply_entry E e))))))"

definition pending_param_key :: "u64 \<Rightarrow> string \<Rightarrow> string" where
  "pending_param_key release_epoch key = ''pending_param:'' @ show_u64 release_epoch @ '':'' @ key"

text \<open>A minimum stake may rise by the capped share of its current value in one action.\<close>

definition stake_rate_limit :: "env \<Rightarrow> string \<Rightarrow> string \<Rightarrow> unit chain_act" where
  "stake_rate_limit E key value =
     andThen (reads (\<lambda>s. case state_u64 E s (''chain_param:'' @ key) of
         Some n \<Rightarrow> n | None \<Rightarrow> 100 * 10000000000)) (\<lambda>current.
     andThen (need (parse_u64 (trim value)) (Err ''stake minimum param must be an integer'')) (\<lambda>proposed.
     andThen (reads (\<lambda>s. case state_u64 E s ''chain_param:stake_increase_cap_bps'' of
         Some n \<Rightarrow> n | None \<Rightarrow> 2500)) (\<lambda>cap_bps.
     ensure (proposed \<le> sat_add current (sat_mul current cap_bps div 10000))
       (Err ''exceeds per-action rate limit''))))"

definition validate_ChainParameterSet ::
  "env \<Rightarrow> node \<Rightarrow> ledger_entry \<Rightarrow> string option \<Rightarrow> string \<Rightarrow> string \<Rightarrow> string \<Rightarrow> u64 \<Rightarrow> unit chain_act" where
  "validate_ChainParameterSet E N e sig key value signed_by epoch =
     andThen (reads (\<lambda>s. governance_keys E s)) (\<lambda>authorized.
     seq (ensure (signed_by \<in> set authorized) (Err ''account is not in the governance council''))
    (seq (check_signature E N signed_by e sig ''posting'')
    (seq (when_do (suffix ''_min_stake'' key) (stake_rate_limit E key value))
    (let release_epoch = epoch + 2 in
     state_set (pending_param_key release_epoch key) (Json (jobj [
       (''entry'', JStr (entry_text E e)), (''release_epoch'', JNum release_epoch),
       (''submitted_by'', JStr signed_by)]))))))"

definition validate_AccountUpdateKey ::
  "env \<Rightarrow> node \<Rightarrow> ledger_entry \<Rightarrow> string option \<Rightarrow> string \<Rightarrow> string \<Rightarrow> unit chain_act" where
  "validate_AccountUpdateKey E N e sig account signed_by =
     seq (ensure (signed_by = account) (Err ''signed_by must equal account''))
    (andThen (reads (\<lambda>s. get_account s account)) (\<lambda>st.
     seq (case st of
            Some state \<Rightarrow>
              when_do (owner_or_posting state \<noteq> None) (check_signature E N account e sig ''owner'')
          | None \<Rightarrow> ret ())
         (apply_entry E e)))"

definition validate_AccountSetPrimary ::
  "env \<Rightarrow> node \<Rightarrow> ledger_entry \<Rightarrow> string option \<Rightarrow> string \<Rightarrow> string \<Rightarrow> string \<Rightarrow> unit chain_act" where
  "validate_AccountSetPrimary E N e sig account primary signed_by =
     seq (ensure (signed_by = account) (Err ''signed_by must equal account''))
    (seq (ensure (account \<noteq> primary) (Err ''primary cannot be the same as account''))
    (andThen (reads (\<lambda>s. get_account s account)) (\<lambda>cur.
     andThen (need cur (Err ''account not found'')) (\<lambda>cur_state.
     andThen (reads (\<lambda>s. get_account s primary)) (\<lambda>pri.
     andThen (need pri (Err ''primary does not exist'')) (\<lambda>primary_state.
     let cur_posting = role_key cur_state ''posting''; pri_posting = role_key primary_state ''posting'' in
     seq (ensure (cur_posting = None \<or> cur_posting = pri_posting)
           (Err ''primary must share the same posting key''))
    (seq (when_do (cur_posting \<noteq> None) (check_signature E N account e sig ''posting''))
         (apply_entry E e))))))))"

definition validate_AccountTransfer ::
  "env \<Rightarrow> node \<Rightarrow> ledger_entry \<Rightarrow> string option \<Rightarrow> string \<Rightarrow> string \<Rightarrow> key_map \<Rightarrow> unit chain_act" where
  "validate_AccountTransfer E N e sig account signed_by new_keys =
     seq (ensure (signed_by = account) (Err ''signed_by must equal account for AccountTransfer''))
    (seq (ensure (new_keys \<noteq> []) (Err ''new_keys must not be empty''))
    (andThen (reads (\<lambda>s. get_account s account)) (\<lambda>cur.
     andThen (need cur (Err ''cannot transfer non-existent account'')) (\<lambda>cur_state.
     andThen (need (Option.bind (Option.bind (jfield cur_state ''primary'') as_str)
         (\<lambda>t. if t = [] then None else Some t)) (Err ''call AccountSetPrimary first'')) (\<lambda>primary.
     andThen (reads (\<lambda>s. get_account s primary)) (\<lambda>pri.
     seq (ensure (pri \<noteq> None) (Err ''declared primary no longer exists''))
    (seq (when_do (owner_or_posting cur_state \<noteq> None) (check_signature E N account e sig ''owner''))
         (apply_entry E e))))))))"

text \<open>Escrow-moving entries bound to the account whose funds move, with no nonce check.\<close>

definition own_signed ::
  "env \<Rightarrow> node \<Rightarrow> ledger_entry \<Rightarrow> string option \<Rightarrow> string \<Rightarrow> string \<Rightarrow> unit chain_act" where
  "own_signed E N e sig account signed_by =
     seq (ensure (signed_by = account) (Err ''signed_by must equal the account whose funds move''))
    (seq (check_signature E N signed_by e sig ''posting'')
         (apply_entry E e))"

definition validate_TrackerLostMode ::
  "env \<Rightarrow> node \<Rightarrow> ledger_entry \<Rightarrow> string option \<Rightarrow> string \<Rightarrow> string \<Rightarrow> unit chain_act" where
  "validate_TrackerLostMode E N e sig claimer signed_by = own_signed E N e sig claimer signed_by"

definition validate_TrackerFoundConfirm ::
  "env \<Rightarrow> node \<Rightarrow> ledger_entry \<Rightarrow> string option \<Rightarrow> string \<Rightarrow> string \<Rightarrow> unit chain_act" where
  "validate_TrackerFoundConfirm E N e sig claimer signed_by = own_signed E N e sig claimer signed_by"

definition validate_DeviceYieldUnstake ::
  "env \<Rightarrow> node \<Rightarrow> ledger_entry \<Rightarrow> string option \<Rightarrow> string \<Rightarrow> string \<Rightarrow> unit chain_act" where
  "validate_DeviceYieldUnstake E N e sig staker signed_by = own_signed E N e sig staker signed_by"

definition validate_DeviceClaimStake ::
  "env \<Rightarrow> node \<Rightarrow> ledger_entry \<Rightarrow> string option \<Rightarrow> u64 \<Rightarrow> string \<Rightarrow> string \<Rightarrow> u64 \<Rightarrow> unit chain_act" where
  "validate_DeviceClaimStake E N e sig amount owner signed_by nonce =
     own_nonced E N e sig owner signed_by nonce ''posting'' (funds_for owner NATIVE_TOKEN amount)"

definition validate_DeviceClaimUnstake ::
  "env \<Rightarrow> node \<Rightarrow> ledger_entry \<Rightarrow> string option \<Rightarrow> string \<Rightarrow> string \<Rightarrow> u64 \<Rightarrow> unit chain_act" where
  "validate_DeviceClaimUnstake E N e sig owner signed_by nonce =
     own_nonced E N e sig owner signed_by nonce ''posting'' (ret ())"

definition validate_DeviceYieldStake ::
  "env \<Rightarrow> node \<Rightarrow> ledger_entry \<Rightarrow> string option \<Rightarrow> string \<Rightarrow> string \<Rightarrow> u64 \<Rightarrow> string \<Rightarrow> u64 \<Rightarrow>
    unit chain_act" where
  "validate_DeviceYieldStake E N e sig device_serial staker amount signed_by nonce =
     seq (signer_allowed E staker signed_by ''DeviceYield'')
    (seq (require_key signed_by)
    (seq (check_nonce staker nonce)
    (seq (check_signature E N signed_by e sig ''active'')
    (andThen (reads (\<lambda>s. state_get s (''yield_config:'' @ device_serial))) (\<lambda>raw.
     andThen (need raw (Err ''device has not opted in to yield sharing'')) (\<lambda>config_raw.
     andThen (need (as_json E config_raw) (Err ''corrupt yield config'')) (\<lambda>config.
     andThen (reads (\<lambda>s. length (state_scan_prefix s (yield_key device_serial [])))) (\<lambda>current_stakers.
     seq (ensure (current_stakers < unat (the_u64 config ''max_stakers'' 10))
           (Err ''device is at maximum staker capacity''))
    (seq (funds_for staker NATIVE_TOKEN amount)
    (seq (apply_entry E e) (bump_nonce staker)))))))))))"

definition validate_DelegationGrant ::
  "env \<Rightarrow> node \<Rightarrow> ledger_entry \<Rightarrow> string option \<Rightarrow> string \<Rightarrow> string \<Rightarrow> u64 \<Rightarrow> unit chain_act" where
  "validate_DelegationGrant E N e sig from signed_by nonce =
     own_nonced E N e sig from signed_by nonce ''active'' (ret ())"

definition validate_DelegationRevoke ::
  "env \<Rightarrow> node \<Rightarrow> ledger_entry \<Rightarrow> string option \<Rightarrow> string \<Rightarrow> string \<Rightarrow> u64 \<Rightarrow> unit chain_act" where
  "validate_DelegationRevoke E N e sig from signed_by nonce =
     own_nonced E N e sig from signed_by nonce ''active'' (ret ())"

definition validate_DeviceYieldOptIn ::
  "env \<Rightarrow> node \<Rightarrow> ledger_entry \<Rightarrow> string option \<Rightarrow> string \<Rightarrow> string \<Rightarrow> u64 \<Rightarrow> unit chain_act" where
  "validate_DeviceYieldOptIn E N e sig owner signed_by nonce =
     own_nonced E N e sig owner signed_by nonce ''active'' (ret ())"

definition validate_DeviceYieldOptOut ::
  "env \<Rightarrow> node \<Rightarrow> ledger_entry \<Rightarrow> string option \<Rightarrow> string \<Rightarrow> string \<Rightarrow> u64 \<Rightarrow> unit chain_act" where
  "validate_DeviceYieldOptOut E N e sig owner signed_by nonce =
     own_nonced E N e sig owner signed_by nonce ''active'' (ret ())"

definition validate_NodeRoleOptIn ::
  "env \<Rightarrow> node \<Rightarrow> ledger_entry \<Rightarrow> string option \<Rightarrow> u64 \<Rightarrow> string \<Rightarrow> string \<Rightarrow> u64 \<Rightarrow> unit chain_act" where
  "validate_NodeRoleOptIn E N e sig backer_share_bps node signed_by nonce =
     seq (ensure (signed_by = node) (Err ''NodeRoleOptIn: signed_by must equal node''))
    (seq (ensure (backer_share_bps \<le> 5000) (Err ''backer_share_bps must be at most 5000''))
         (own_nonced E N e sig node signed_by nonce ''posting'' (ret ())))"

definition validate_NodeRoleOptOut ::
  "env \<Rightarrow> node \<Rightarrow> ledger_entry \<Rightarrow> string option \<Rightarrow> string \<Rightarrow> string \<Rightarrow> u64 \<Rightarrow> unit chain_act" where
  "validate_NodeRoleOptOut E N e sig node signed_by nonce =
     own_nonced E N e sig node signed_by nonce ''posting'' (ret ())"

text \<open>The slots of a node that has not opted out; a node without a record takes twenty backers.\<close>

definition backer_slot :: "env \<Rightarrow> string \<Rightarrow> string \<Rightarrow> string \<Rightarrow> unit chain_act" where
  "backer_slot E node role staker =
     andThen (reads (\<lambda>s. state_json E s (role_opt_key role node))) (\<lambda>opt.
     seq (ensure (\<not> (case opt of
              Some cfg \<Rightarrow> Option.bind (jfield cfg ''opted_out'') as_bool = Some True
            | None \<Rightarrow> False)) (Err ''node has opted out of backer sharing''))
    (let max_backers = (case opt of Some cfg \<Rightarrow> the_u64 cfg ''max_backers'' 20 | None \<Rightarrow> 20) in
     andThen (reads (\<lambda>s. length (state_scan_prefix s (role_stake_key role node [])))) (\<lambda>current_count.
     andThen (reads (\<lambda>s. state_get s (role_stake_key role node staker))) (\<lambda>existing.
     ensure (is_some existing \<or> current_count < unat max_backers) (Err ''node is at backer capacity'')))))"

definition validate_NodeRoleStake ::
  "env \<Rightarrow> node \<Rightarrow> ledger_entry \<Rightarrow> string option \<Rightarrow> string \<Rightarrow> string \<Rightarrow> string \<Rightarrow> u64 \<Rightarrow> string \<Rightarrow> u64 \<Rightarrow>
    unit chain_act" where
  "validate_NodeRoleStake E N e sig node role staker amount signed_by nonce =
     seq (signer_allowed E staker signed_by ''NodeRoleStake'')
    (seq (ensure (amount \<noteq> 0) (Err ''stake amount must be positive''))
    (seq (require_key signed_by)
    (seq (check_nonce staker nonce)
    (seq (check_signature E N signed_by e sig ''active'')
    (seq (when_do (staker \<noteq> node) (backer_slot E node role staker))
    (seq (funds_for staker NATIVE_TOKEN amount)
    (seq (apply_entry E e) (bump_nonce staker))))))))"

definition validate_NodeRoleUnstake ::
  "env \<Rightarrow> node \<Rightarrow> ledger_entry \<Rightarrow> string option \<Rightarrow> string \<Rightarrow> string \<Rightarrow> string \<Rightarrow> u64 \<Rightarrow> string \<Rightarrow> u64 \<Rightarrow>
    unit chain_act" where
  "validate_NodeRoleUnstake E N e sig node role staker amount signed_by nonce =
     seq (signer_allowed E staker signed_by ''NodeRoleStake'')
    (seq (ensure (amount \<noteq> 0) (Err ''unstake amount must be positive''))
    (seq (require_key signed_by)
    (seq (check_nonce staker nonce)
    (seq (check_signature E N signed_by e sig ''active'')
    (andThen (reads (\<lambda>s. state_amount E s (role_stake_key role node staker))) (\<lambda>current.
     seq (ensure (current \<ge> amount) (Err ''cannot unstake more than is staked''))
    (seq (apply_entry E e) (bump_nonce staker))))))))"

definition validate_SpamGateSet ::
  "env \<Rightarrow> node \<Rightarrow> ledger_entry \<Rightarrow> string option \<Rightarrow> string \<Rightarrow> string \<Rightarrow> u64 \<Rightarrow> unit chain_act" where
  "validate_SpamGateSet E N e sig account signed_by nonce =
     own_nonced E N e sig account signed_by nonce ''active'' (ret ())"

definition validate_SpamGatePayEvm ::
  "env \<Rightarrow> node \<Rightarrow> ledger_entry \<Rightarrow> string option \<Rightarrow> u64 \<Rightarrow> string \<Rightarrow> string \<Rightarrow> string \<Rightarrow> u64 \<Rightarrow> unit chain_act" where
  "validate_SpamGatePayEvm E N e sig amount token from signed_by nonce =
     own_nonced E N e sig from signed_by nonce ''active'' (funds_for from token amount)"

definition validate_SpamGateClear ::
  "env \<Rightarrow> node \<Rightarrow> ledger_entry \<Rightarrow> string option \<Rightarrow> string \<Rightarrow> string \<Rightarrow> u64 \<Rightarrow> unit chain_act" where
  "validate_SpamGateClear E N e sig account signed_by nonce =
     own_nonced E N e sig account signed_by nonce ''active'' (ret ())"

definition validate_TokenApprove ::
  "env \<Rightarrow> node \<Rightarrow> ledger_entry \<Rightarrow> string option \<Rightarrow> string \<Rightarrow> string \<Rightarrow> u64 \<Rightarrow> unit chain_act" where
  "validate_TokenApprove E N e sig account signed_by nonce =
     own_nonced E N e sig account signed_by nonce ''active'' (ret ())"

definition validate_TokenRevoke ::
  "env \<Rightarrow> node \<Rightarrow> ledger_entry \<Rightarrow> string option \<Rightarrow> string \<Rightarrow> string \<Rightarrow> u64 \<Rightarrow> unit chain_act" where
  "validate_TokenRevoke E N e sig account signed_by nonce =
     own_nonced E N e sig account signed_by nonce ''active'' (ret ())"

definition validate_TokenAccept ::
  "env \<Rightarrow> node \<Rightarrow> ledger_entry \<Rightarrow> string option \<Rightarrow> string \<Rightarrow> string \<Rightarrow> u64 \<Rightarrow> unit chain_act" where
  "validate_TokenAccept E N e sig to signed_by nonce =
     own_nonced E N e sig to signed_by nonce ''active'' (ret ())"

definition validate_TokenReject ::
  "env \<Rightarrow> node \<Rightarrow> ledger_entry \<Rightarrow> string option \<Rightarrow> string \<Rightarrow> string \<Rightarrow> u64 \<Rightarrow> unit chain_act" where
  "validate_TokenReject E N e sig to signed_by nonce =
     own_nonced E N e sig to signed_by nonce ''active'' (ret ())"

definition validate_GovernancePropose ::
  "env \<Rightarrow> node \<Rightarrow> ledger_entry \<Rightarrow> string option \<Rightarrow> string \<Rightarrow> unit chain_act" where
  "validate_GovernancePropose E N e sig proposer =
     seq (require_key proposer)
    (seq (check_signature E N proposer e sig ''posting'')
         (apply_entry E e))"

definition validate_GovernanceVote ::
  "env \<Rightarrow> node \<Rightarrow> ledger_entry \<Rightarrow> string option \<Rightarrow> string \<Rightarrow> u64 \<Rightarrow> unit chain_act" where
  "validate_GovernanceVote E N e sig voter nonce =
     seq (require_key voter)
    (seq (check_nonce voter nonce)
    (seq (check_signature E N voter e sig ''posting'')
    (seq (apply_entry E e) (bump_nonce voter))))"

definition validate_arm :: "env \<Rightarrow> node \<Rightarrow> ledger_entry \<Rightarrow> string option \<Rightarrow> unit chain_act" where
  "validate_arm E N e sig = (case e of
       Transfer from to amount token _ _ signed_by nonce twofactor \<Rightarrow>
         validate_Transfer E N e sig from to amount token signed_by nonce twofactor
     | Stake account amount _ nonce signed_by \<Rightarrow> validate_Stake E N e sig account amount nonce signed_by
     | Unstake account amount _ nonce signed_by \<Rightarrow> validate_Unstake E N e sig account amount nonce signed_by
     | AccountCreate account keys _ _ funded_by _ \<Rightarrow> validate_AccountCreate E N e sig account keys funded_by
     | ChainParameterSet key value signed_by epoch _ \<Rightarrow>
         validate_ChainParameterSet E N e sig key value signed_by epoch
     | AccountUpdateKey account _ _ _ signed_by \<Rightarrow> validate_AccountUpdateKey E N e sig account signed_by
     | AccountSetPrimary account primary _ signed_by _ \<Rightarrow>
         validate_AccountSetPrimary E N e sig account primary signed_by
     | AccountTransfer account keys _ signed_by _ _ \<Rightarrow>
         validate_AccountTransfer E N e sig account signed_by keys
     | TrackerLostMode _ claimer _ _ _ _ _ signed_by \<Rightarrow> validate_TrackerLostMode E N e sig claimer signed_by
     | TrackerFoundConfirm _ _ claimer _ _ signed_by \<Rightarrow>
         validate_TrackerFoundConfirm E N e sig claimer signed_by
     | DeviceYieldUnstake _ staker _ _ _ signed_by \<Rightarrow>
         validate_DeviceYieldUnstake E N e sig staker signed_by
     | DeviceClaimStake _ owner amount _ nonce signed_by \<Rightarrow>
         validate_DeviceClaimStake E N e sig amount owner signed_by nonce
     | DeviceClaimUnstake _ owner _ nonce signed_by \<Rightarrow>
         validate_DeviceClaimUnstake E N e sig owner signed_by nonce
     | DeviceYieldStake serial staker amount _ nonce signed_by \<Rightarrow>
         validate_DeviceYieldStake E N e sig serial staker amount signed_by nonce
     | DelegationGrant from _ _ _ _ nonce signed_by \<Rightarrow>
         validate_DelegationGrant E N e sig from signed_by nonce
     | DelegationRevoke from _ _ nonce signed_by \<Rightarrow>
         validate_DelegationRevoke E N e sig from signed_by nonce
     | DeviceYieldOptIn _ owner _ _ nonce signed_by \<Rightarrow>
         validate_DeviceYieldOptIn E N e sig owner signed_by nonce
     | DeviceYieldOptOut _ owner _ nonce signed_by \<Rightarrow>
         validate_DeviceYieldOptOut E N e sig owner signed_by nonce
     | NodeRoleOptIn node _ bps _ _ nonce signed_by \<Rightarrow>
         validate_NodeRoleOptIn E N e sig bps node signed_by nonce
     | NodeRoleOptOut node _ _ nonce signed_by \<Rightarrow>
         validate_NodeRoleOptOut E N e sig node signed_by nonce
     | NodeRoleStake node role staker amount _ nonce signed_by \<Rightarrow>
         validate_NodeRoleStake E N e sig node role staker amount signed_by nonce
     | NodeRoleUnstake node role staker amount _ nonce signed_by \<Rightarrow>
         validate_NodeRoleUnstake E N e sig node role staker amount signed_by nonce
     | SpamGateSet account _ _ _ _ _ _ nonce signed_by \<Rightarrow>
         validate_SpamGateSet E N e sig account signed_by nonce
     | SpamGatePayEvm from _ token amount _ _ _ nonce signed_by \<Rightarrow>
         validate_SpamGatePayEvm E N e sig amount token from signed_by nonce
     | SpamGateClear account _ _ nonce signed_by \<Rightarrow>
         validate_SpamGateClear E N e sig account signed_by nonce
     | TokenApprove account _ _ _ nonce signed_by \<Rightarrow>
         validate_TokenApprove E N e sig account signed_by nonce
     | TokenRevoke account _ _ _ nonce signed_by \<Rightarrow>
         validate_TokenRevoke E N e sig account signed_by nonce
     | TokenAccept to _ _ _ _ nonce signed_by \<Rightarrow> validate_TokenAccept E N e sig to signed_by nonce
     | TokenReject to _ _ _ _ nonce signed_by \<Rightarrow> validate_TokenReject E N e sig to signed_by nonce
     | GovernancePropose _ proposer _ _ _ _ _ _ _ _ _ \<Rightarrow> validate_GovernancePropose E N e sig proposer
     | GovernanceVote _ voter _ _ nonce _ _ \<Rightarrow> validate_GovernanceVote E N e sig voter nonce
     | MineReward _ _ _ \<Rightarrow> bail (Err ''entry type is not externally submittable'')
     | ClockReward _ _ _ \<Rightarrow> bail (Err ''entry type is not externally submittable'')
     | GenesisAlloc _ _ _ \<Rightarrow> bail (Err ''entry type is not externally submittable''))"

section \<open>The whole gate\<close>

definition stale_guard :: "ledger_entry \<Rightarrow> unit chain_act" where
  "stale_guard e =
    (if is_system_entry e then ret ()
     else case entry_epoch e of
       None \<Rightarrow> ret ()
     | Some epoch \<Rightarrow>
        andThen (reads current_epoch) (\<lambda>current.
        ensure (\<not> (current > STALE_WINDOW \<and> epoch < current - STALE_WINDOW))
          (Err ''entry epoch is too stale'')))"

definition total_fee :: "env \<Rightarrow> ledger_entry \<Rightarrow> chain \<Rightarrow> u64" where
  "total_fee E e s = sat_mul (read_base_fee E s) (entry_weight e)"

definition fee_preflight :: "env \<Rightarrow> ledger_entry \<Rightarrow> unit chain_act" where
  "fee_preflight E e =
     when_do (entry_weight e > 0 \<and> \<not> is_account_create e)
      (andThen (reads (total_fee E e)) (\<lambda>fee.
       when_do (fee > 0)
        (case entry_fee_payer e of
           None \<Rightarrow> ret ()
         | Some payer \<Rightarrow>
             andThen (reads (\<lambda>s. get_balance s payer NATIVE_TOKEN)) (\<lambda>bal.
             ensure (bal \<ge> fee) (Err ''insufficient balance for entry fee'')))))"

definition move_fee :: "string \<Rightarrow> u64 \<Rightarrow> unit chain_act" where
  "move_fee payer fee =
     seq (attempt (seq (debit payer NATIVE_TOKEN fee) (credit RECYCLE_FUND_ACCOUNT NATIVE_TOKEN fee)))
         (ret ())"

definition fee_deduction :: "env \<Rightarrow> ledger_entry \<Rightarrow> unit chain_act" where
  "fee_deduction E e =
     when_do (entry_weight e > 0)
      (andThen (reads (total_fee E e)) (\<lambda>fee.
       when_do (fee > 0)
        (if is_account_create e then move_fee TESTNET_FUND_ACCOUNT fee
         else case entry_fee_payer e of
           None \<Rightarrow> ret ()
         | Some payer \<Rightarrow> move_fee payer fee)))"

definition validate_and_apply ::
  "env \<Rightarrow> node \<Rightarrow> ledger_entry \<Rightarrow> string option \<Rightarrow> string chain_act" where
  "validate_and_apply E N e sig_hex =
     seq (stale_guard e)
    (seq (fee_preflight E e)
    (seq (validate_arm E N e sig_hex)
    (seq (fee_deduction E e)
         (ret (entry_hash E e)))))"

section \<open>Release of parameter changes\<close>

text \<open>A record that fails to parse or to apply stays; an applied one is deleted.\<close>

definition drain_param :: "env \<Rightarrow> node \<Rightarrow> string \<times> val \<Rightarrow> unit chain_act" where
  "drain_param E N r =
    (case Option.bind (as_json E (snd r)) (\<lambda>j. as_str (jget j ''entry'')) of
       None \<Rightarrow> ret ()
     | Some entry_json \<Rightarrow>
        (case entry_parse N entry_json of
           None \<Rightarrow> ret ()
         | Some e \<Rightarrow>
             andThen (logged (apply_entry E e)) (\<lambda>ok. when_do ok (state_delete (fst r)))))"

definition drain_pending_params :: "env \<Rightarrow> node \<Rightarrow> u64 \<Rightarrow> unit chain_act" where
  "drain_pending_params E N cur =
     andThen (reads (\<lambda>s. state_scan_prefix s (pending_param_key cur []))) (each (drain_param E N))"

section \<open>What the guards accept\<close>

text \<open>
  A guard returns with the state as it was, or stops; each is characterised by the condition under
  which it returns.
\<close>

named_theorems guard_simps "when a check returns"

definition valid_signature :: "env \<Rightarrow> node \<Rightarrow> ledger_entry \<Rightarrow> string \<Rightarrow> string option \<Rightarrow> bool" where
  "valid_signature E N e pubkey_hex sig \<longleftrightarrow>
     (\<exists>t pk sg. sig = Some t \<and> t \<noteq> [] \<and> hex_bytes E 32 pubkey_hex = Some pk \<and> hex_bytes E 64 t = Some sg \<and>
        ed25519_verify E pk (canonical_signing_message E N e) sg)"

definition slot_key :: "chain \<Rightarrow> string \<Rightarrow> string \<Rightarrow> string option" where
  "slot_key s account role =
     Option.bind (get_account s account) (\<lambda>state.
       if role = ''owner'' then owner_or_posting state else role_key state role)"

definition signature_ok ::
  "env \<Rightarrow> node \<Rightarrow> chain \<Rightarrow> string \<Rightarrow> ledger_entry \<Rightarrow> string option \<Rightarrow> string \<Rightarrow> bool" where
  "signature_ok E N s account e sig role \<longleftrightarrow>
     (\<forall>pubkey_hex. slot_key s account role = Some pubkey_hex \<longrightarrow> valid_signature E N e pubkey_hex sig)"

lemma ensure_Inr [guard_simps]: "ensure b err s = (Inr x, s') \<longleftrightarrow> b \<and> s' = s"
  by (auto simp: ensure_apply)

lemma need_Inr [guard_simps]: "need x err s = (Inr v, s') \<longleftrightarrow> x = Some v \<and> s' = s"
  by (auto simp: need_apply split: option.split)

lemma reads_Inr [guard_simps]: "reads f s = (Inr v, s') \<longleftrightarrow> v = f s \<and> s' = s"
  by (auto simp: reads_apply)

lemma check_nonce_Inr [guard_simps]:
  "check_nonce a n s = (Inr x, s') \<longleftrightarrow> n = next_nonce s a \<and> s' = s"
  by (auto simp: check_nonce_iff)

lemma verify_entry_Inr:
  "verify_entry E N e pk sig s = (Inr x, s') \<longleftrightarrow> valid_signature E N e pk sig \<and> s' = s"
  by (auto simp: verify_entry_def valid_signature_def andThen_Inr guard_simps split: bind_splits if_splits)

lemma check_signature_Inr [guard_simps]:
  "check_signature E N a e sig role s = (Inr x, s') \<longleftrightarrow> signature_ok E N s a e sig role \<and> s' = s"
  by (auto simp: check_signature_def signature_ok_def slot_key_def andThen_Inr guard_simps
      verify_entry_Inr ret_apply split: option.splits)

lemma require_key_Inr [guard_simps]:
  "require_key a s = (Inr x, s') \<longleftrightarrow>
     (a \<in> set STAKE_EXEMPT_ACCOUNTS \<or> (\<forall>st. get_account s a = Some st \<longrightarrow> role_key st ''posting'' \<noteq> None)) \<and>
     s' = s"
  by (auto simp: require_key_def andThen_Inr guard_simps ret_apply split: option.splits)

lemma signer_allowed_Inr [guard_simps]:
  "signer_allowed E a b cap s = (Inr x, s') \<longleftrightarrow>
     (b = a \<or> has_delegation E s a b cap (current_epoch s)) \<and> s' = s"
  by (auto simp: signer_allowed_def andThen_Inr guard_simps)

lemma funds_for_Inr [guard_simps]:
  "funds_for a t n s = (Inr x, s') \<longleftrightarrow> n \<le> get_balance s a t \<and> s' = s"
  by (auto simp: funds_for_def andThen_Inr guard_simps)

lemma check_not_empty_Inr [guard_simps]:
  "check_not_empty t s = (Inr x, s') \<longleftrightarrow> trim t \<noteq> [] \<and> s' = s"
  by (auto simp: check_not_empty_def guard_simps)

definition second_factor_ok :: "env \<Rightarrow> node \<Rightarrow> chain \<Rightarrow> string \<Rightarrow> string \<Rightarrow> ledger_entry \<Rightarrow> TwoFactor option \<Rightarrow> bool" where
  "second_factor_ok E N s account role e tf \<longleftrightarrow>
     (\<forall>st c. get_account s account = Some st \<longrightarrow>
        Option.bind (Option.bind (Option.bind (jfield st ''key_policies'') (\<lambda>p. jfield p role))
                (\<lambda>policy. jfield policy ''twofactor_chain'')) as_str = Some c \<longrightarrow>
        (\<exists>f. tf = Some f \<and> tf_chain f = c \<and>
           recover_chain_address N c (''hone:2fa:'' @ entry_hash E e @ '':'' @ show_u64 (epoch_of e))
             (tf_signature f) \<noteq> None \<and>
           Option.bind (jfield st ''chain_proofs'') (\<lambda>cp. jfield cp c) \<noteq> None))"

lemma check_slot_2fa_Inr [guard_simps]:
  "check_slot_2fa E N a role e tf s = (Inr x, s') \<longleftrightarrow> second_factor_ok E N s a role e tf \<and> s' = s"
proof (cases "get_account s a")
  case None
  then show ?thesis
    by (auto simp: check_slot_2fa_def second_factor_ok_def andThen_Inr reads_Inr ret_apply)
next
  case (Some st)
  show ?thesis
  proof (cases "Option.bind (Option.bind (Option.bind (jfield st ''key_policies'') (\<lambda>p. jfield p role))
                (\<lambda>policy. jfield policy ''twofactor_chain'')) as_str")
    case None
    with Some show ?thesis
      by (auto simp: check_slot_2fa_def second_factor_ok_def andThen_Inr reads_Inr ret_apply)
  next
    case (Some c)
    with \<open>get_account s a = Some st\<close> show ?thesis
      by (auto simp: check_slot_2fa_def second_factor_ok_def andThen_Inr seq_Inr guard_simps)
  qed
qed

lemma stale_guard_Inr [guard_simps]:
  "stale_guard e s = (Inr x, s') \<longleftrightarrow>
     (\<not> is_system_entry e \<longrightarrow> (\<forall>epoch. entry_epoch e = Some epoch \<longrightarrow>
        \<not> (STALE_WINDOW < current_epoch s \<and> epoch < current_epoch s - STALE_WINDOW))) \<and> s' = s"
  by (auto simp: stale_guard_def andThen_Inr guard_simps ret_apply split: option.splits)

lemma fee_preflight_Inr [guard_simps]:
  "fee_preflight E e s = (Inr x, s') \<longleftrightarrow>
     (0 < entry_weight e \<longrightarrow> \<not> is_account_create e \<longrightarrow> (\<forall>payer. entry_fee_payer e = Some payer \<longrightarrow>
        total_fee E e s \<le> get_balance s payer NATIVE_TOKEN)) \<and> s' = s"
proof -
  have "total_fee E e s \<le> b" if "\<not> 0 < total_fee E e s" for b
    using that by (simp add: word_neq_0_conv [symmetric])
  then show ?thesis
    by (auto simp: fee_preflight_def when_do_apply andThen_Inr guard_simps ret_apply
        split: option.splits if_splits)
qed

lemma accepted_steps:
  assumes "validate_and_apply E N e sig s = (Inr h, s')"
  obtains t where "stale_guard e s = (Inr (), s)" "fee_preflight E e s = (Inr (), s)"
    "validate_arm E N e sig s = (Inr (), t)" "fee_deduction E e t = (Inr (), s')" "h = entry_hash E e"
  using assms by (auto simp: validate_and_apply_def seq_Inr guard_simps ret_apply)

section \<open>Authorisation of a transfer\<close>

text \<open>
  (C9) What an accepted transfer was authorised by: its signer is the sender or holds a live
  delegation for transfers, the nonce was the sender's next one, the sender could cover the amount
  and the fee, and whenever the signer has an active key the signature verifies under it over the
  canonical message of this chain; a second factor was present where the sender asks for one.
\<close>

theorem transfer_authorised:
  assumes "validate_and_apply E N (Transfer from to amount token memo epoch signed_by nonce tf) sig s =
    (Inr h, s')"
  shows "(signed_by = from \<or> has_delegation E s from signed_by ''Transfer'' (current_epoch s)) \<and>
    nonce = next_nonce s from \<and> 0 < amount \<and> amount \<le> get_balance s from token \<and>
    total_fee E (Transfer from to amount token memo epoch signed_by nonce tf) s \<le>
      get_balance s from NATIVE_TOKEN \<and>
    (\<forall>pk. slot_key s signed_by ''active'' = Some pk \<longrightarrow>
       valid_signature E N (Transfer from to amount token memo epoch signed_by nonce tf) pk sig) \<and>
    second_factor_ok E N s from ''active''
      (Transfer from to amount token memo epoch signed_by nonce tf) tf"
proof -
  let ?e = "Transfer from to amount token memo epoch signed_by nonce tf"
  obtain t where g: "fee_preflight E ?e s = (Inr (), s)" "validate_arm E N ?e sig s = (Inr (), t)"
    using accepted_steps [OF assms] .
  from g(2) have "signed_by = from \<or> has_delegation E s from signed_by ''Transfer'' (current_epoch s)"
      "nonce = next_nonce s from" "amount \<noteq> 0" "amount \<le> get_balance s from token"
      "signature_ok E N s signed_by ?e sig ''active''" "second_factor_ok E N s from ''active'' ?e tf"
    by (auto simp: validate_arm_def validate_Transfer_def seq_Inr guard_simps)
  moreover from g(1) have "total_fee E ?e s \<le> get_balance s from NATIVE_TOKEN"
    by (simp add: guard_simps entry_weight_def ENTRY_WEIGHT_MICRO_def is_account_create_def
        entry_fee_payer_def)
  ultimately show ?thesis
    by (simp add: signature_ok_def word_neq_0_conv)
qed

section \<open>Nonces\<close>

text \<open>The account and the nonce an arm checks; the other arms check none.\<close>

definition nonce_slot :: "ledger_entry \<Rightarrow> (string \<times> u64) option" where
  "nonce_slot e = (case e of
       Transfer from _ _ _ _ _ _ nonce _ \<Rightarrow> Some (from, nonce)
     | Stake account _ _ nonce _ \<Rightarrow> Some (account, nonce)
     | Unstake account _ _ nonce _ \<Rightarrow> Some (account, nonce)
     | DeviceClaimStake _ owner _ _ nonce _ \<Rightarrow> Some (owner, nonce)
     | DeviceClaimUnstake _ owner _ nonce _ \<Rightarrow> Some (owner, nonce)
     | DeviceYieldStake _ staker _ _ nonce _ \<Rightarrow> Some (staker, nonce)
     | DelegationGrant from _ _ _ _ nonce _ \<Rightarrow> Some (from, nonce)
     | DelegationRevoke from _ _ nonce _ \<Rightarrow> Some (from, nonce)
     | DeviceYieldOptIn _ owner _ _ nonce _ \<Rightarrow> Some (owner, nonce)
     | DeviceYieldOptOut _ owner _ nonce _ \<Rightarrow> Some (owner, nonce)
     | NodeRoleOptIn node _ _ _ _ nonce _ \<Rightarrow> Some (node, nonce)
     | NodeRoleOptOut node _ _ nonce _ \<Rightarrow> Some (node, nonce)
     | NodeRoleStake _ _ staker _ _ nonce _ \<Rightarrow> Some (staker, nonce)
     | NodeRoleUnstake _ _ staker _ _ nonce _ \<Rightarrow> Some (staker, nonce)
     | SpamGateSet account _ _ _ _ _ _ nonce _ \<Rightarrow> Some (account, nonce)
     | SpamGatePayEvm from _ _ _ _ _ _ nonce _ \<Rightarrow> Some (from, nonce)
     | SpamGateClear account _ _ nonce _ \<Rightarrow> Some (account, nonce)
     | TokenApprove account _ _ _ nonce _ \<Rightarrow> Some (account, nonce)
     | TokenRevoke account _ _ _ nonce _ \<Rightarrow> Some (account, nonce)
     | TokenAccept to _ _ _ _ nonce _ \<Rightarrow> Some (to, nonce)
     | TokenReject to _ _ _ _ nonce _ \<Rightarrow> Some (to, nonce)
     | GovernanceVote _ voter _ _ nonce _ _ \<Rightarrow> Some (voter, nonce)
     | _ \<Rightarrow> None)"

definition bumps_itself :: "ledger_entry \<Rightarrow> bool" where
  "bumps_itself e = (case e of Transfer _ _ _ _ _ _ _ _ _ \<Rightarrow> True | _ \<Rightarrow> False)"

text \<open>Every arm with a nonce checks it against the state it was given, then applies the entry.\<close>

lemma arm_nonce:
  assumes slot: "nonce_slot e = Some (a, n)" and run: "validate_arm E N e sig s = (Inr (), s')"
  shows "n = next_nonce s a \<and> (\<exists>t. apply_entry E e s = (Inr (), t) \<and>
    (if bumps_itself e then s' = t else bump_nonce a t = (Inr (), s')))"
  using assms
  by (cases e)
    (auto simp: nonce_slot_def bumps_itself_def validate_arm_def seq_Inr guard_simps own_nonced_def
      validate_Transfer_def validate_Stake_def validate_Unstake_def validate_DeviceClaimStake_def
      validate_DeviceClaimUnstake_def validate_DeviceYieldStake_def validate_DelegationGrant_def
      validate_DelegationRevoke_def validate_DeviceYieldOptIn_def validate_DeviceYieldOptOut_def
      validate_NodeRoleOptIn_def validate_NodeRoleOptOut_def validate_NodeRoleStake_def
      validate_NodeRoleUnstake_def validate_SpamGateSet_def validate_SpamGatePayEvm_def
      validate_SpamGateClear_def validate_TokenApprove_def validate_TokenRevoke_def
      validate_TokenAccept_def validate_TokenReject_def validate_GovernanceVote_def
      backer_slot_def when_do_apply andThen_Inr ret_apply split: if_splits)

text \<open>What the handlers of these entries do to the nonces: nothing, an account at most appears.\<close>

lemma keeps_next_of_accounts: "keeps cf_accounts m \<Longrightarrow> keeps (\<lambda>s. next_nonce s a) m"
  by (simp add: keeps_def next_nonce_def get_account_def)

lemma preserves_known_of_accounts:
  "keeps cf_accounts m \<Longrightarrow> preserves (\<lambda>s. get_account s a \<noteq> None) m"
  by (simp add: keeps_def preserves_def get_account_def)

lemma keeps_next_ensure: "keeps (\<lambda>s. next_nonce s a) (ensure_account b e)"
  and preserves_known_ensure: "preserves (\<lambda>s. get_account s a \<noteq> None) (ensure_account b e)"
  by (auto simp: keeps_def preserves_def ensure_account_def set_account_def next_nonce_def
      get_account_def account_nonce_def act_simps)

definition nonce_frame :: "string \<Rightarrow> 'a chain_act \<Rightarrow> bool" where
  "nonce_frame a m \<longleftrightarrow> keeps (\<lambda>s. next_nonce s a) m \<and> preserves (\<lambda>s. get_account s a \<noteq> None) m"

lemma nonce_frame_accounts: "keeps cf_accounts m \<Longrightarrow> nonce_frame a m"
  unfolding nonce_frame_def by (intro conjI keeps_next_of_accounts preserves_known_of_accounts)

lemma nonce_frame_ensure: "nonce_frame a (ensure_account b e)"
  unfolding nonce_frame_def by (intro conjI keeps_next_ensure preserves_known_ensure)

lemma nonce_frame_andThen:
  "nonce_frame a m \<Longrightarrow> (\<And>x. nonce_frame a (k x)) \<Longrightarrow> nonce_frame a (andThen m k)"
  unfolding nonce_frame_def by (intro conjI keeps_andThen preserves_andThen) simp_all

lemma nonce_frame_seq: "nonce_frame a m \<Longrightarrow> nonce_frame a n \<Longrightarrow> nonce_frame a (seq m n)"
  unfolding seq_def by (rule nonce_frame_andThen)

lemma nonce_frameD:
  assumes "nonce_frame a m" and "m s = (r, s')"
  shows "next_nonce s' a = next_nonce s a" and "get_account s a \<noteq> None \<Longrightarrow> get_account s' a \<noteq> None"
  using assms keepsD [of "\<lambda>s. next_nonce s a" m] preservesD [of "\<lambda>s. get_account s a \<noteq> None" m]
  unfolding nonce_frame_def by blast+

lemmas nonced_handlers = apply_Stake_def apply_Unstake_def unbond_def apply_DeviceYieldOptIn_def
  apply_DeviceYieldOptOut_def apply_DelegationGrant_def apply_DelegationRevoke_def
  apply_NodeRoleOptOut_def apply_NodeRoleUnstake_def apply_SpamGateSet_def apply_SpamGatePayEvm_def
  apply_SpamGateClear_def apply_TokenApprove_def apply_TokenRevoke_def apply_TokenAccept_def
  apply_TokenReject_def apply_GovernanceVote_def load_proposal_def

lemma keeps_accounts_handlers:
  "keeps cf_accounts (apply_Stake E a n ep)" "keeps cf_accounts (apply_Unstake E a n ep)"
  "keeps cf_accounts (apply_DeviceYieldOptIn E d a mx)" "keeps cf_accounts (apply_DeviceYieldOptOut E d a)"
  "keeps cf_accounts (apply_DelegationGrant a b cs x)" "keeps cf_accounts (apply_DelegationRevoke a b)"
  "keeps cf_accounts (apply_NodeRoleOptOut a r ep)" "keeps cf_accounts (apply_NodeRoleUnstake E a r b n)"
  "keeps cf_accounts (apply_SpamGateSet a t f ft ad c)"
  "keeps cf_accounts (apply_SpamGatePayEvm E a b t n h ci ep no)"
  "keeps cf_accounts (apply_SpamGateClear a t)" "keeps cf_accounts (apply_TokenApprove a t b)"
  "keeps cf_accounts (apply_TokenRevoke a t b)" "keeps cf_accounts (apply_TokenAccept E a t b no)"
  "keeps cf_accounts (apply_TokenReject E a t b no)" "keeps cf_accounts (apply_GovernanceVote E p a yes ep)"
  unfolding nonced_handlers by (intro keeps_intros keeps_touch_alive)+

lemma nonce_frame_openers:
  "nonce_frame x (apply_DeviceYieldStake E d a n ep)" "nonce_frame x (apply_NodeRoleOptIn a r bp mx ep)"
  "nonce_frame x (apply_NodeRoleStake E a r b n ep)" "nonce_frame x (apply_DeviceClaimStake E d a n ep)"
  unfolding apply_DeviceYieldStake_def apply_NodeRoleOptIn_def apply_NodeRoleStake_def
    apply_DeviceClaimStake_def overbid_def distribute_premium_def pay_yield_staker_def
  by (intro nonce_frame_seq nonce_frame_ensure nonce_frame_accounts keeps_intros)+

lemma nonce_frame_claim_unstake: "nonce_frame x (apply_DeviceClaimUnstake E d a ep)"
  unfolding apply_DeviceClaimUnstake_def unbond_def
  apply (rule nonce_frame_andThen [OF nonce_frame_accounts [OF keeps_reads]])
  apply (rule nonce_frame_andThen [OF nonce_frame_accounts [OF keeps_need]])
  by (intro nonce_frame_seq nonce_frame_ensure nonce_frame_accounts keeps_intros)

lemma keeps_accounts_index: "keeps cf_accounts (index_tx_history E e)"
  unfolding index_tx_history_def by (intro keeps_intros)

lemma keeps_accounts_fee: "keeps cf_accounts (fee_deduction E e)"
  unfolding fee_deduction_def move_fee_def by (intro keeps_intros)

lemma nonce_frame_arm:
  assumes "nonce_slot e = Some (a, n)" and "\<not> bumps_itself e"
  shows "nonce_frame a (apply_arm E e)"
  using assms unfolding apply_arm_def nonce_slot_def bumps_itself_def
  by (cases e)
    (auto intro!: nonce_frame_seq nonce_frame_accounts [OF keeps_ret]
      intro: nonce_frame_openers nonce_frame_claim_unstake
        nonce_frame_accounts keeps_accounts_handlers)

text \<open>The next nonce after an accepted entry is the successor of the one it carried.\<close>

lemma accepted_next_nonce:
  assumes run: "validate_and_apply E N e sig s = (Inr h, s')" and slot: "nonce_slot e = Some (a, n)"
    and known: "get_account s a \<noteq> None"
  shows "next_nonce s' a = n + 1"
proof -
  obtain t where arm: "validate_arm E N e sig s = (Inr (), t)" and fee: "fee_deduction E e t = (Inr (), s')"
    using accepted_steps [OF run] .
  obtain u where n: "n = next_nonce s a" and app: "apply_entry E e s = (Inr (), u)"
    and bump: "if bumps_itself e then t = u else bump_nonce a u = (Inr (), t)"
    using arm_nonce [OF slot arm] by blast
  obtain b v where v: "apply_arm E e s = (Inr b, v)" "when_do b (index_tx_history E e) v = (Inr (), u)"
    using app by (auto simp: apply_entry_def andThen_Inr)
  note index = keeps_when_do [OF keeps_accounts_index]
  have "next_nonce t a = n + 1"
  proof (cases "bumps_itself e")
    case True
    then obtain to amount token memo epoch signed_by tf where
      e: "e = Transfer a to amount token memo epoch signed_by n tf"
      using slot by (cases e) (auto simp: bumps_itself_def nonce_slot_def)
    from v(1) have "apply_Transfer E a to amount token epoch n s = (Inr (), v)"
      by (simp add: e apply_arm_def seq_Inr ret_apply)
    from transfer_next_nonce [OF this known] next_nonce_keeps [OF index v(2)] bump True
    show ?thesis by simp
  next
    case False
    note frame = nonce_frameD [OF nonce_frame_arm [OF slot False] v(1)]
    have "get_account u a \<noteq> None" "next_nonce u a = n"
      using frame known n get_account_keeps [OF index v(2)] next_nonce_keeps [OF index v(2)] by simp_all
    with bump False bump_nonce_next [of a u t a] show ?thesis by simp
  qed
  then show ?thesis
    using next_nonce_keeps [OF keeps_accounts_fee fee] by simp
qed

section \<open>Acceptance\<close>

lemma attempt_then_ret: "calm m \<Longrightarrow> \<exists>s'. seq (attempt m) (ret ()) s = (Inr (), s')"
  using attempt_result [of m s] by (auto simp: seq_apply ret_apply)

lemma move_fee_result: "\<exists>s'. move_fee p f s = (Inr (), s')"
  unfolding move_fee_def by (intro attempt_then_ret calm_intros)

lemma fee_deduction_result: "\<exists>s'. fee_deduction E e s = (Inr (), s')"
proof -
  show ?thesis using move_fee_result
    by (auto simp: fee_deduction_def when_do_apply andThen_apply reads_apply ret_apply split: option.split)
qed

lemma index_result: "\<exists>s'. index_tx_history E e s = (Inr (), s')"
proof -
  let ?key = "\<lambda>x. txhist_key (fst x) (epoch_of e) (snd x) (take 8 (entry_hash E e))"
  obtain r1 s1 where e1: "each (\<lambda>x. state_set (?key x) (Json (history_record e))) (touched e) s = (r1, s1)"
    by fastforce
  with each_state_set [OF e1] show ?thesis
    by (simp add: index_tx_history_def Let_def seq_apply case_prod_unfold state_set_apply ret_apply)
qed

lemma apply_entry_result:
  assumes "apply_arm E e s = (Inr b, t)"
  shows "\<exists>s'. apply_entry E e s = (Inr (), s')"
  using assms index_result [of E e t] by (auto simp: apply_entry_def andThen_apply when_do_apply)

lemma accepted_from_arm:
  assumes "stale_guard e s = (Inr (), s)" "fee_preflight E e s = (Inr (), s)"
    and "validate_arm E N e sig s = (Inr (), t)"
  shows "\<exists>s'. validate_and_apply E N e sig s = (Inr (entry_hash E e), s')"
  using assms fee_deduction_result [of E e t]
  by (auto simp: validate_and_apply_def seq_apply ret_apply)

lemma transfer_arm_accepts:
  assumes names: "trim from \<noteq> []" "trim to \<noteq> []" "to \<noteq> from" and pos: "0 < amount"
    and who: "signed_by = from \<or> has_delegation E s from signed_by ''Transfer'' (current_epoch s)"
    and n: "nonce = next_nonce s from" and acct: "get_account s from = Some (JObj flds)"
    and posting: "slot_key s signed_by ''posting'' \<noteq> None"
    and e: "e = Transfer from to amount NATIVE_TOKEN memo epoch signed_by nonce tf"
    and sg: "signature_ok E N s signed_by e sig ''active''"
    and factor: "second_factor_ok E N s from ''active'' e tf"
    and funds: "amount \<le> get_balance s from NATIVE_TOKEN"
    and room: "unat (get_balance s to NATIVE_TOKEN) + unat amount < 2 ^ 64"
  shows "\<exists>u. validate_arm E N e sig s = (Inr (), u)"
proof -
  obtain t where "apply_Transfer E from to amount NATIVE_TOKEN epoch nonce s = (Inr (), t)"
    using native_transfer_effect [OF n pos names(3) acct funds room] by blast
  then have "apply_arm E e s = (Inr True, t)"
    by (simp add: e apply_arm_def seq_apply ret_apply)
  then obtain u where app: "apply_entry E e s = (Inr (), u)"
    using apply_entry_result by blast
  have key: "signed_by \<in> set STAKE_EXEMPT_ACCOUNTS \<or>
      (\<forall>st. get_account s signed_by = Some st \<longrightarrow> role_key st ''posting'' \<noteq> None)"
    using posting by (auto simp: slot_key_def)
  have "validate_Transfer E N e sig from to amount NATIVE_TOKEN signed_by nonce tf s = (Inr (), u)"
    using names(1,2) pos who n key sg factor funds app
    unfolding validate_Transfer_def seq_Inr guard_simps
    by (auto simp: word_neq_0_conv)
  then show ?thesis
    by (simp add: e validate_arm_def)
qed

text \<open>
  (C33) The gate is not stricter than it says: a native transfer from a known account to another
  one, with names, amount, signer, nonce, keys, signature, second factor, balance and fee in order
  and an epoch that is not stale, is accepted.
\<close>

theorem transfer_accepted:
  assumes names: "trim from \<noteq> []" "trim to \<noteq> []" "to \<noteq> from" and pos: "0 < amount"
    and who: "signed_by = from \<or> has_delegation E s from signed_by ''Transfer'' (current_epoch s)"
    and n: "nonce = next_nonce s from" and acct: "get_account s from = Some (JObj flds)"
    and posting: "slot_key s signed_by ''posting'' \<noteq> None"
    and e: "e = Transfer from to amount NATIVE_TOKEN memo epoch signed_by nonce tf"
    and sg: "signature_ok E N s signed_by e sig ''active''"
    and factor: "second_factor_ok E N s from ''active'' e tf"
    and funds: "amount \<le> get_balance s from NATIVE_TOKEN" "total_fee E e s \<le> get_balance s from NATIVE_TOKEN"
    and room: "unat (get_balance s to NATIVE_TOKEN) + unat amount < 2 ^ 64"
    and fresh: "current_epoch s \<le> STALE_WINDOW \<or> current_epoch s - STALE_WINDOW \<le> epoch"
  shows "\<exists>s'. validate_and_apply E N e sig s = (Inr (entry_hash E e), s')"
proof -
  obtain u where arm: "validate_arm E N e sig s = (Inr (), u)"
    using transfer_arm_accepts [OF names pos who n acct posting e sg factor funds(1) room] by blast
  have "stale_guard e s = (Inr (), s)"
    using fresh by (auto simp: e guard_simps entry_epoch_def)
  moreover have "fee_preflight E e s = (Inr (), s)"
    using funds(2) by (simp add: e guard_simps entry_fee_payer_def)
  ultimately show ?thesis
    by (rule accepted_from_arm [OF _ _ arm])
qed

text \<open>An account as its creation leaves it, with an owner and a posting key, and some coins.\<close>

definition demo_node :: node where
  "demo_node = \<lparr>chain_id = ''hone-testnet'', recover_wallet = (\<lambda>_ _ _. None), entry_parse = (\<lambda>_. None)\<rparr>"

definition demo_keyed :: chain where
  "demo_keyed = empty_chain\<lparr>
     cf_accounts := [(''alice'', jobj [
       (''keys'', jobj [(''owner'', JStr demo_key), (''posting'', JStr demo_key)]), (''nonce'', JNum 0)])],
     cf_balances := [(balance_key ''alice'' ''HONE'', 1000000000)]\<rparr>"

definition demo_send :: ledger_entry where
  "demo_send = Transfer ''alice'' ''mallory'' 500 NATIVE_TOKEN None 0 ''alice'' 1 None"

lemma demo_keyed_account:
  "get_account demo_keyed ''alice'' = Some (jobj [
     (''keys'', jobj [(''owner'', JStr demo_key), (''posting'', JStr demo_key)]), (''nonce'', JNum 0)])"
  by (simp add: demo_keyed_def get_account_def kv_get_def)

lemma demo_keyed_facts:
  "slot_key demo_keyed ''alice'' ''posting'' = Some demo_key"
  "slot_key demo_keyed ''alice'' ''owner'' = Some demo_key"
  "slot_key demo_keyed ''alice'' ''active'' = None"
  "next_nonce demo_keyed ''alice'' = 1"
  "get_balance demo_keyed ''alice'' NATIVE_TOKEN = 1000000000"
  "get_balance demo_keyed ''mallory'' NATIVE_TOKEN = 0"
  "current_epoch demo_keyed = 0"
  "second_factor_ok demo_env demo_node demo_keyed ''alice'' ''active'' demo_send None"
  by (simp_all add: slot_key_def demo_keyed_account role_key_def owner_or_posting_def or_else_def
      next_nonce_def account_nonce_def second_factor_ok_def demo_key_def)
    (simp_all add: demo_keyed_def get_balance_def kv_get_def NATIVE_TOKEN_def empty_chain_def)

lemma demo_keyed_fee: "total_fee demo_env e demo_keyed = sat_mul 10000000 (entry_weight e)"
  by (simp add: total_fee_def read_base_fee_def state_json_def state_get_def demo_keyed_def
      empty_chain_def kv_get_def BASE_FEE_INITIAL_HUNITS_def)

lemma demo_send_fee: "total_fee demo_env demo_send demo_keyed = 10000000"
  by (simp add: demo_keyed_fee demo_send_def entry_weight_def ENTRY_WEIGHT_MICRO_def sat_mul_def)

lemma demo_signature_ok: "signature_ok demo_env demo_node demo_keyed ''alice'' demo_send sig ''active''"
  by (simp add: signature_ok_def demo_keyed_facts)

lemma demo_keyed_object: "\<exists>flds. get_account demo_keyed ''alice'' = Some (JObj flds)"
  by (simp add: demo_keyed_account jobj_def)

lemmas demo_send_side = demo_keyed_facts demo_send_fee trim_def is_ws_def word_le_nat_alt
  word_less_nat_alt

theorem transfer_accepted_witness:
  "\<exists>s'. validate_and_apply demo_env demo_node demo_send None demo_keyed =
    (Inr (entry_hash demo_env demo_send), s')"
proof -
  obtain flds where "get_account demo_keyed ''alice'' = Some (JObj flds)"
    using demo_keyed_object by blast
  note accepted = transfer_accepted [OF _ _ _ _ _ _ this _ _ demo_signature_ok demo_keyed_facts(8),
    where to = "''mallory''" and amount = 500 and memo = None and epoch = 0 and nonce = 1]
  show ?thesis
    by (rule accepted) (simp_all add: demo_send_side demo_send_def [symmetric])
qed

lemma demo_send_accepted:
  "\<exists>s'. validate_and_apply demo_env demo_node demo_send None demo_keyed =
    (Inr (entry_hash demo_env demo_send), s')"
proof -
  obtain flds where "get_account demo_keyed ''alice'' = Some (JObj flds)"
    using demo_keyed_object by blast
  note arm = transfer_arm_accepts [OF _ _ _ _ _ _ this _ _ demo_signature_ok demo_keyed_facts(8),
    where to = "''mallory''" and amount = 500 and memo = None and epoch = 0 and nonce = 1]
  have "\<exists>u. validate_arm demo_env demo_node demo_send None demo_keyed = (Inr (), u)"
    by (rule arm) (simp_all add: demo_send_side demo_send_def [symmetric])
  moreover have "stale_guard demo_send demo_keyed = (Inr (), demo_keyed)"
    by (simp add: guard_simps demo_keyed_facts)
  moreover have "fee_preflight demo_env demo_send demo_keyed = (Inr (), demo_keyed)"
    by (simp add: guard_simps demo_send_fee) (simp add: demo_send_def entry_fee_payer_def demo_keyed_facts)
  ultimately show ?thesis
    using accepted_from_arm by blast
qed

theorem transfer_authorised_witness:
  "1 = next_nonce demo_keyed ''alice'' \<and> (500 :: u64) \<le> get_balance demo_keyed ''alice'' NATIVE_TOKEN"
proof -
  obtain s' where "validate_and_apply demo_env demo_node demo_send None demo_keyed =
      (Inr (entry_hash demo_env demo_send), s')"
    using demo_send_accepted by blast
  from transfer_authorised [OF this [unfolded demo_send_def]] show ?thesis by simp
qed

section \<open>Signatures that are not asked for\<close>

lemma seq_cong_state:
  "(\<And>x t. m s = (Inr x, t) \<Longrightarrow> n t = n' t) \<Longrightarrow> seq m n s = seq m n' s"
  by (simp add: seq_apply split: prod.split sum.split)

text \<open>
  The signature of a transfer only counts where the signer has a key in the active slot: for a
  signer without one, posting and owner keys or not, the gate answers every signature, and none, in
  the same way.
\<close>

theorem signature_ignored_without_active_key:
  assumes "slot_key s signed_by ''active'' = None"
  shows "validate_and_apply E N (Transfer from to amount token memo epoch signed_by nonce tf) sig s =
    validate_and_apply E N (Transfer from to amount token memo epoch signed_by nonce tf) sig' s"
proof -
  define e where "e = Transfer from to amount token memo epoch signed_by nonce tf"
  have same: "check_signature E N signed_by e x ''active'' s = (Inr (), s)" for x
    using assms by (simp add: guard_simps signature_ok_def)
  have "validate_Transfer E N e sig from to amount token signed_by nonce tf s =
      validate_Transfer E N e sig' from to amount token signed_by nonce tf s"
    unfolding validate_Transfer_def
    by (intro seq_cong_state) (auto simp: guard_simps seq_apply same)
  then have "validate_arm E N e sig s = validate_arm E N e sig' s"
    by (simp add: validate_arm_def e_def)
  then show ?thesis
    unfolding e_def [symmetric] validate_and_apply_def
    by (intro seq_cong_state) (auto simp: guard_simps seq_apply)
qed

theorem signature_ignored_without_active_key_witness:
  "slot_key demo_keyed ''alice'' ''owner'' = Some demo_key \<and>
   (\<exists>s'. validate_and_apply demo_env demo_node demo_send (Some ''forged'') demo_keyed =
      (Inr (entry_hash demo_env demo_send), s'))"
  using demo_send_accepted demo_keyed_facts(2)
    signature_ignored_without_active_key [OF demo_keyed_facts(3), of demo_env demo_node "''alice''"
      "''mallory''" 500 NATIVE_TOKEN None 0 1 None None "Some ''forged''"]
  by (simp add: demo_send_def)

section \<open>Key updates\<close>

lemma update_key_effect:
  assumes acct: "get_account s a = Some (JObj flds)"
  shows "\<exists>s' st. apply_AccountUpdateKey a role k epoch s = (Inr (), s') \<and> get_account s' a = Some st \<and>
    Option.bind (jfield st ''keys'') (\<lambda>ks. jfield ks role) = Some (JStr k)"
proof -
  have "\<exists>m. (case jfield (JObj flds) ''keys'' of Some (JObj m) \<Rightarrow> ret (JObj m) | _ \<Rightarrow> ret (JObj [])) =
      (ret (JObj m) :: json chain_act)"
  proof (cases "jfield (JObj flds) ''keys''")
    case (Some j)
    then show ?thesis by (cases j) auto
  qed auto
  then obtain m where m: "(case jfield (JObj flds) ''keys'' of Some (JObj m) \<Rightarrow> ret (JObj m) | _ \<Rightarrow> ret (JObj [])) =
      (ret (JObj m) :: json chain_act)" ..
  have "ensure_account a epoch s = (Inr (), s)"
    using acct by (simp add: ensure_account_def act_simps)
  with acct m show ?thesis
    by (simp add: apply_AccountUpdateKey_def act_simps with_fields_def set_account_def get_account_def)
qed

lemma update_key_accepted:
  assumes e: "e = AccountUpdateKey a role k epoch a" and sg: "signature_ok E N s a e sig ''owner''"
    and acct: "get_account s a = Some (JObj flds)" and fee: "total_fee E e s \<le> get_balance s a NATIVE_TOKEN"
  shows "\<exists>s' st. validate_and_apply E N e sig s = (Inr (entry_hash E e), s') \<and> get_account s' a = Some st \<and>
    Option.bind (jfield st ''keys'') (\<lambda>ks. jfield ks role) = Some (JStr k)"
proof -
  obtain u st where upd: "apply_AccountUpdateKey a role k epoch s = (Inr (), u)" "get_account u a = Some st"
      "Option.bind (jfield st ''keys'') (\<lambda>ks. jfield ks role) = Some (JStr k)"
    using update_key_effect [OF acct] by blast
  then have "apply_entry E e s = (Inr (), u)"
    by (simp add: apply_entry_def e apply_arm_def andThen_apply seq_apply ret_apply when_do_apply
        index_tx_history_def touched_def)
  with sg acct have "validate_arm E N e sig s = (Inr (), u)"
    by (simp add: e validate_arm_def validate_AccountUpdateKey_def seq_Inr andThen_Inr guard_simps
        when_do_apply)
  moreover have "stale_guard e s = (Inr (), s)" "fee_preflight E e s = (Inr (), s)"
    using fee by (simp_all add: e guard_simps entry_epoch_def entry_fee_payer_def entry_value_def)
  moreover obtain s' where s': "fee_deduction E e u = (Inr (), s')"
    using fee_deduction_result by blast
  ultimately have "validate_and_apply E N e sig s = (Inr (entry_hash E e), s')"
    by (simp add: validate_and_apply_def seq_apply ret_apply)
  moreover have "get_account s' a = Some st"
    using upd(2) get_account_keeps [OF keeps_accounts_fee s'] by simp
  ultimately show ?thesis using upd(3) by blast
qed

text \<open>
  (C38) A signed key update can be replayed. The signed message has neither a nonce nor an epoch and
  the stale guard does not look at this entry, so once an update was accepted, the same entry with
  the same signature is accepted again in any later state where the account's owner key (or, without
  one, its posting key) is what it was and the fee can be paid, and it puts the old key back in place
  of whatever the role holds by then.
\<close>

theorem key_update_replayable:
  assumes first: "validate_and_apply E N (AccountUpdateKey a role k epoch a) sig s = (Inr h, s1)"
    and owner: "slot_key s a ''owner'' = Some pk" "slot_key s2 a ''owner'' = Some pk"
    and acct: "get_account s2 a = Some (JObj flds)"
    and fee: "total_fee E (AccountUpdateKey a role k epoch a) s2 \<le> get_balance s2 a NATIVE_TOKEN"
  shows "\<exists>s3 st. validate_and_apply E N (AccountUpdateKey a role k epoch a) sig s2 = (Inr h, s3) \<and>
    get_account s3 a = Some st \<and> Option.bind (jfield st ''keys'') (\<lambda>ks. jfield ks role) = Some (JStr k)"
proof -
  define e where "e = AccountUpdateKey a role k epoch a"
  obtain t where "validate_arm E N e sig s = (Inr (), t)" and h: "h = entry_hash E e"
    using accepted_steps [OF first] unfolding e_def .
  with owner(1) have "signature_ok E N s a e sig ''owner''"
    by (auto simp: e_def validate_arm_def validate_AccountUpdateKey_def seq_Inr andThen_Inr guard_simps
        when_do_apply slot_key_def split: bind_splits)
  with owner have "signature_ok E N s2 a e sig ''owner''"
    by (simp add: signature_ok_def)
  from update_key_accepted [OF e_def this acct] fee show ?thesis
    unfolding h e_def by blast
qed

definition demo_rotate :: "string \<Rightarrow> ledger_entry" where
  "demo_rotate k = AccountUpdateKey ''alice'' ''posting'' k 0 ''alice''"

text \<open>Alice's posting key is \<open>old\<close> again after she had replaced it.\<close>

definition demo_rotated :: chain where
  "demo_rotated = demo_keyed\<lparr>cf_accounts := [(''alice'', jobj [
     (''keys'', jobj [(''owner'', JStr demo_key), (''posting'', JStr ''new'')]), (''nonce'', JNum 0)])]\<rparr>"

lemma demo_rotated_facts:
  "get_account demo_rotated ''alice'' = Some (jobj [
     (''keys'', jobj [(''owner'', JStr demo_key), (''posting'', JStr ''new'')]), (''nonce'', JNum 0)])"
  "slot_key demo_rotated ''alice'' ''owner'' = Some demo_key"
  "get_balance demo_rotated ''alice'' NATIVE_TOKEN = 1000000000"
  "total_fee demo_env e demo_rotated = total_fee demo_env e demo_keyed"
  by (simp_all add: demo_rotated_def slot_key_def get_account_def kv_get_def role_key_def
      owner_or_posting_def or_else_def demo_key_def total_fee_def read_base_fee_def state_json_def
      state_get_def)
    (simp add: demo_keyed_def get_balance_def kv_get_def NATIVE_TOKEN_def)

lemma demo_rotate_fee: "total_fee demo_env (demo_rotate k) demo_keyed = 200000000"
  by (simp add: demo_keyed_fee demo_rotate_def entry_weight_def ENTRY_WEIGHT_REGISTRATION_def sat_mul_def)

lemma demo_rotate_accepted:
  "\<exists>s1. validate_and_apply demo_env demo_node (demo_rotate k) (Some demo_sig) demo_keyed =
    (Inr (entry_hash demo_env (demo_rotate k)), s1)"
proof -
  obtain flds where acct: "get_account demo_keyed ''alice'' = Some (JObj flds)"
    using demo_keyed_object by blast
  have "valid_signature demo_env demo_node (demo_rotate k) demo_key (Some demo_sig)"
    by (simp add: valid_signature_def) (simp add: demo_sig_def demo_env_def)
  then have "signature_ok demo_env demo_node demo_keyed ''alice'' (demo_rotate k) (Some demo_sig) ''owner''"
    by (simp add: signature_ok_def demo_keyed_facts)
  from update_key_accepted [OF demo_rotate_def this acct] show ?thesis
    by (auto simp: demo_rotate_fee demo_keyed_facts word_le_nat_alt)
qed

theorem key_update_replayable_witness:
  "\<exists>s3 st. validate_and_apply demo_env demo_node (demo_rotate ''old'') (Some demo_sig) demo_rotated =
      (Inr (entry_hash demo_env (demo_rotate ''old'')), s3) \<and> get_account s3 ''alice'' = Some st \<and>
    Option.bind (jfield st ''keys'') (\<lambda>ks. jfield ks ''posting'') = Some (JStr ''old'')"
proof -
  obtain s1 where first: "validate_and_apply demo_env demo_node (demo_rotate ''old'') (Some demo_sig) demo_keyed =
      (Inr (entry_hash demo_env (demo_rotate ''old'')), s1)"
    using demo_rotate_accepted by blast
  obtain flds where acct: "get_account demo_rotated ''alice'' = Some (JObj flds)"
    by (simp add: demo_rotated_facts jobj_def)
  show ?thesis
    using key_update_replayable [OF first [unfolded demo_rotate_def] demo_keyed_facts(2)
      demo_rotated_facts(2) acct] demo_rotate_fee [of "''old''"]
    by (simp add: demo_rotate_def demo_rotated_facts word_le_nat_alt)
qed

section \<open>The second factor\<close>

text \<open>
  A second factor named by its chain locks the account: the recovery knows signature types, not
  chains, so while the active slot of the sender asks for a factor from a chain such as
  \<open>ethereum\<close>, no transfer of the account is accepted, whatever factor and signature it carries.
\<close>

theorem named_chain_factor_never_accepted:
  assumes "get_account s from = Some st"
    and "jfield st ''key_policies'' = Some p" "jfield p ''active'' = Some pol"
    and "jfield pol ''twofactor_chain'' = Some (JStr c)"
    and "c \<notin> {''eth_personal_sign'', ''sol_sign'', ''btc_legacy'', ''ton_sign_data''}"
  shows "\<nexists>h s'. validate_and_apply E N (Transfer from to amount token memo epoch signed_by nonce tf) sig s =
    (Inr h, s')"
proof
  let ?e = "Transfer from to amount token memo epoch signed_by nonce tf"
  assume "\<exists>h s'. validate_and_apply E N ?e sig s = (Inr h, s')"
  then obtain h s' where "validate_and_apply E N ?e sig s = (Inr h, s')" by blast
  then obtain t where "validate_arm E N ?e sig s = (Inr (), t)" by (rule accepted_steps)
  then have "second_factor_ok E N s from ''active'' ?e tf"
    by (auto simp: validate_arm_def validate_Transfer_def seq_Inr guard_simps)
  with assms show False
    by (auto simp: second_factor_ok_def recover_chain_address_def)
qed

definition demo_policy :: chain where
  "demo_policy = demo_keyed\<lparr>cf_accounts := [(''alice'', jobj [
     (''key_policies'', jobj [(''active'', jobj [(''twofactor_chain'', JStr ''ethereum'')])])])]\<rparr>"

theorem named_chain_factor_never_accepted_witness:
  "\<nexists>h s'. validate_and_apply demo_env demo_node demo_send None demo_policy = (Inr h, s')"
  unfolding demo_send_def
  by (rule named_chain_factor_never_accepted [where c = "''ethereum''" and
        st = "jobj [(''key_policies'', jobj [(''active'', jobj [(''twofactor_chain'', JStr ''ethereum'')])])]" and
        p = "jobj [(''active'', jobj [(''twofactor_chain'', JStr ''ethereum'')])]" and
        pol = "jobj [(''twofactor_chain'', JStr ''ethereum'')]"])
    (simp_all add: demo_policy_def get_account_def kv_get_def)

section \<open>Fees\<close>

text \<open>
  The fee of an accepted entry is moved or waived, never made or lost: when the payer still
  holds it after the entry, exactly the fee goes from the payer to the recycle fund and no other
  balance changes; when the entry has spent it, nothing changes at all.
\<close>

theorem fee_moved_or_waived:
  assumes payer: "entry_fee_payer e = Some p" "p \<noteq> RECYCLE_FUND_ACCOUNT" and weight: "0 < entry_weight e"
    and user: "\<not> is_account_create e"
    and room: "unat (get_balance s RECYCLE_FUND_ACCOUNT NATIVE_TOKEN) + unat (total_fee E e s) < 2 ^ 64"
    and run: "fee_deduction E e s = (r, s')"
  shows "if total_fee E e s \<le> get_balance s p NATIVE_TOKEN
    then \<forall>a t. get_balance s' a t =
      (if balance_key a t = balance_key p NATIVE_TOKEN then get_balance s p NATIVE_TOKEN - total_fee E e s
       else if balance_key a t = balance_key RECYCLE_FUND_ACCOUNT NATIVE_TOKEN
       then get_balance s RECYCLE_FUND_ACCOUNT NATIVE_TOKEN + total_fee E e s
       else get_balance s a t)
    else s' = s"
proof (cases "total_fee E e s = 0")
  case True
  with run weight have "s' = s"
    by (simp add: fee_deduction_def act_simps)
  with True show ?thesis by (simp add: get_balance_def)
next
  case False
  with run payer weight user have moved: "move_fee p (total_fee E e s) s = (r, s')"
    by (simp add: fee_deduction_def act_simps word_neq_0_conv)
  show ?thesis
  proof (cases "total_fee E e s \<le> get_balance s p NATIVE_TOKEN")
    case True
    let ?s1 = "s\<lparr>cf_balances := kv_put (balance_key p NATIVE_TOKEN)
      (get_balance s p NATIVE_TOKEN - total_fee E e s) (cf_balances s)\<rparr>"
    have "get_balance ?s1 RECYCLE_FUND_ACCOUNT NATIVE_TOKEN = get_balance s RECYCLE_FUND_ACCOUNT NATIVE_TOKEN"
      using payer(2) by (auto simp: get_balance_put)
    with True moved room have "s' = ?s1\<lparr>cf_balances := kv_put (balance_key RECYCLE_FUND_ACCOUNT NATIVE_TOKEN)
        (get_balance s RECYCLE_FUND_ACCOUNT NATIVE_TOKEN + total_fee E e s) (cf_balances ?s1)\<rparr>"
      by (simp add: move_fee_def seq_apply attempt_apply debit_cases credit_cases ret_apply del: select_convs)
    with True payer(2) show ?thesis
      by (simp only: get_balance_put) (simp add: get_balance_put)
  next
    case False
    with moved show ?thesis
      by (simp add: move_fee_def seq_apply attempt_apply debit_cases ret_apply)
  qed
qed

theorem fee_moved_or_waived_witness:
  "get_balance (snd (fee_deduction demo_env demo_send demo_keyed)) RECYCLE_FUND_ACCOUNT NATIVE_TOKEN = 10000000"
proof -
  have "get_balance demo_keyed RECYCLE_FUND_ACCOUNT NATIVE_TOKEN = 0"
    by (simp add: demo_keyed_def get_balance_def kv_get_def RECYCLE_FUND_ACCOUNT_def NATIVE_TOKEN_def
        balance_key_def)
  moreover have "entry_fee_payer demo_send = Some ''alice''" "''alice'' \<noteq> RECYCLE_FUND_ACCOUNT"
      "0 < entry_weight demo_send" "\<not> is_account_create demo_send"
    by (simp_all add: demo_send_def entry_fee_payer_def RECYCLE_FUND_ACCOUNT_def entry_weight_def
        ENTRY_WEIGHT_MICRO_def is_account_create_def)
  ultimately show ?thesis
    using fee_moved_or_waived [of demo_send "''alice''" demo_keyed demo_env
        "fst (fee_deduction demo_env demo_send demo_keyed)" "snd (fee_deduction demo_env demo_send demo_keyed)"]
    by (simp add: demo_send_fee demo_keyed_facts word_le_nat_alt)
qed

section \<open>The time lock of parameters\<close>

lemma filter_put_only:
  "filter (\<lambda>e. prefix p (fst e)) m = [] \<Longrightarrow> prefix p k \<Longrightarrow>
    filter (\<lambda>e. prefix p (fst e)) (kv_put k v m) = [(k, v)]"
  by (induction m) (auto split: if_splits)

lemma prefix_pending_param: "prefix (pending_param_key c []) (pending_param_key d key) \<longleftrightarrow> c = d"
  by (simp add: pending_param_key_def)

lemma keeps_meta_fee: "keeps cf_meta (fee_deduction E e)"
  unfolding fee_deduction_def move_fee_def by (intro keeps_intros)

lemma drain_only_param:
  assumes scan: "state_scan_prefix s (pending_param_key c []) = [(k, Json j)]"
    and j: "as_str (jget j ''entry'') = Some txt" and parse: "entry_parse N txt = Some e"
    and e: "e = ChainParameterSet key value signed_by epoch signature"
    and other: "k \<noteq> ''chain_param:'' @ key"
  shows "\<exists>s'. drain_pending_params E N c s = (Inr (), s') \<and>
    state_get s' (''chain_param:'' @ key) = Some (Text value) \<and> state_get s' k = None"
proof -
  have "apply_entry E e s = (Inr (), s\<lparr>cf_meta := kv_put (''chain_param:'' @ key) (Text value) (cf_meta s)\<rparr>)"
    by (simp add: e apply_entry_def apply_arm_def apply_ChainParameterSet_def state_set_apply
        index_tx_history_def touched_def act_simps)
  with scan j parse other show ?thesis
    by (simp add: drain_pending_params_def drain_param_def logged_def state_delete_def state_get_def act_simps)
qed

text \<open>
  A parameter change waits two epochs from the epoch its entry names: accepting it leaves the
  parameter as it was and writes one record, which only the drain of that epoch plus two reads; that
  drain puts the value in force and removes the record. The epoch is the submitter's, not the
  chain's: it is not checked against the current epoch.
\<close>

theorem parameter_time_lock:
  assumes run: "validate_and_apply E N (ChainParameterSet key value signed_by epoch signature) sig s = (Inr h, s')"
    and wf: "wf_chain s" and none: "state_scan_prefix s (pending_param_key (epoch + 2) []) = []"
    and parse: "entry_parse N (entry_text E (ChainParameterSet key value signed_by epoch signature)) =
      Some (ChainParameterSet key value signed_by epoch signature)"
  shows "state_get s' (''chain_param:'' @ key) = state_get s (''chain_param:'' @ key) \<and>
    (\<forall>c. pending_param_key (epoch + 2) key \<in> fst ` set (state_scan_prefix s' (pending_param_key c [])) \<longleftrightarrow>
       c = epoch + 2) \<and>
    (\<exists>s''. drain_pending_params E N (epoch + 2) s' = (Inr (), s'') \<and>
       state_get s'' (''chain_param:'' @ key) = Some (Text value) \<and>
       state_get s'' (pending_param_key (epoch + 2) key) = None)"
proof -
  define e where "e = ChainParameterSet key value signed_by epoch signature"
  let ?k = "pending_param_key (epoch + 2) key"
  let ?j = "jobj [(''entry'', JStr (entry_text E e)), (''release_epoch'', JNum (epoch + 2)),
       (''submitted_by'', JStr signed_by)]"
  obtain t where arm: "validate_arm E N e sig s = (Inr (), t)" and fee: "fee_deduction E e t = (Inr (), s')"
    using accepted_steps [OF run] unfolding e_def .
  have rate: "stake_rate_limit E key value u = (Inr x, u') \<Longrightarrow> u' = u" for u u' x
    by (auto simp: stake_rate_limit_def andThen_Inr guard_simps)
  from arm have "cf_meta t = kv_put ?k (Json ?j) (cf_meta s)"
    by (auto simp: e_def validate_arm_def validate_ChainParameterSet_def andThen_Inr seq_Inr guard_simps
        when_do_apply state_set_apply Let_def dest!: rate split: if_splits)
  then have meta: "cf_meta s' = kv_put ?k (Json ?j) (cf_meta s)"
    using keepsD [OF keeps_meta_fee fee] by simp
  have sorted: "kv_sorted (cf_meta s)" "kv_sorted (cf_meta s')"
    using wf unfolding meta by (simp_all add: wf_chain_def kv_sorted_put)
  have scan: "state_scan_prefix s' (pending_param_key (epoch + 2) []) = [(?k, Json ?j)]"
    using none filter_put_only [of "pending_param_key (epoch + 2) []" "cf_meta s" ?k "Json ?j"] sorted
    by (simp add: state_scan_prefix_def kv_scan_filter meta prefix_pending_param)
  have other: "?k \<noteq> ''chain_param:'' @ key"
    by (simp add: pending_param_key_def)
  have only: "?k \<in> fst ` set (state_scan_prefix s' (pending_param_key c [])) \<longleftrightarrow> c = epoch + 2" for c
  proof
    assume "?k \<in> fst ` set (state_scan_prefix s' (pending_param_key c []))"
    then show "c = epoch + 2"
      by (auto simp: state_scan_prefix_def kv_scan_filter [OF sorted(2)] prefix_pending_param)
  qed (simp add: scan)
  have "\<exists>s''. drain_pending_params E N (epoch + 2) s' = (Inr (), s'') \<and>
       state_get s'' (''chain_param:'' @ key) = Some (Text value) \<and> state_get s'' ?k = None"
    by (rule drain_only_param [OF scan _ parse [folded e_def] e_def other]) simp
  moreover have "state_get s' (''chain_param:'' @ key) = state_get s (''chain_param:'' @ key)"
    using other by (simp add: state_get_def meta)
  ultimately show ?thesis using only by simp
qed

text \<open>A council member at epoch 10 names epoch 8 and has the parameter in force in the same epoch.\<close>

definition demo_param :: ledger_entry where
  "demo_param = ChainParameterSet ''miner_min_stake'' ''7'' ''josh'' 8 None"

definition demo_param_node :: node where
  "demo_param_node = demo_node\<lparr>entry_parse := (\<lambda>_. Some demo_param)\<rparr>"

definition demo_council :: chain where
  "demo_council = empty_chain\<lparr>cf_balances := [(balance_key ''josh'' ''HONE'', 1000000000)],
     current_epoch := 10\<rparr>"

lemma demo_council_facts:
  "state_get demo_council k = None" "get_account demo_council a = None"
  "get_balance demo_council ''josh'' NATIVE_TOKEN = 1000000000"
  "total_fee demo_env demo_param demo_council = 10000000"
  "wf_chain demo_council" "state_scan_prefix demo_council p = []"
  by (simp_all add: demo_council_def state_get_def get_account_def kv_get_def get_balance_def
      NATIVE_TOKEN_def empty_chain_def total_fee_def read_base_fee_def state_json_def demo_param_def
      entry_weight_def ENTRY_WEIGHT_MICRO_def BASE_FEE_INITIAL_HUNITS_def sat_mul_def wf_chain_def
      kv_sorted_def state_scan_prefix_def kv_scan_def)

lemma demo_param_accepted:
  "\<exists>s'. validate_and_apply demo_env demo_param_node demo_param None demo_council =
    (Inr (entry_hash demo_env demo_param), s')"
proof -
  have "\<exists>t. validate_arm demo_env demo_param_node demo_param None demo_council = (Inr (), t)"
    by (simp add: demo_param_def validate_arm_def validate_ChainParameterSet_def stake_rate_limit_def
        governance_keys_def state_json_def state_u64_def demo_council_facts check_signature_def state_set_apply
        act_simps parse_u64_def trim_def is_ws_def is_dec_digit_def dec_value_def sat_add_def sat_mul_def
        suffix_def word_le_nat_alt)
  moreover have "stale_guard demo_param demo_council = (Inr (), demo_council)"
    "fee_preflight demo_env demo_param demo_council = (Inr (), demo_council)"
    by (simp_all add: guard_simps demo_council_facts)
      (simp_all add: demo_param_def entry_epoch_def entry_fee_payer_def entry_value_def demo_council_facts
        word_le_nat_alt)
  ultimately show ?thesis
    using accepted_from_arm by blast
qed

theorem parameter_time_lock_witness:
  "\<exists>s' s''. validate_and_apply demo_env demo_param_node demo_param None demo_council =
      (Inr (entry_hash demo_env demo_param), s') \<and>
    drain_pending_params demo_env demo_param_node (current_epoch demo_council) s' = (Inr (), s'') \<and>
    state_get s'' ''chain_param:miner_min_stake'' = Some (Text ''7'')"
proof -
  obtain s' where run: "validate_and_apply demo_env demo_param_node demo_param None demo_council =
      (Inr (entry_hash demo_env demo_param), s')"
    using demo_param_accepted by blast
  have parse: "entry_parse demo_param_node (entry_text demo_env demo_param) = Some demo_param"
    by (simp add: demo_param_node_def)
  have "current_epoch demo_council = 8 + 2"
    by (simp add: demo_council_def)
  with run parameter_time_lock [OF run [unfolded demo_param_def] demo_council_facts(5,6)
      parse [unfolded demo_param_def]]
  show ?thesis
    by (auto simp: demo_param_def)
qed

section \<open>Account creation\<close>

text \<open>
  Nobody registers a name for another key: an accepted creation names an owner key, every key it
  registers is 64 hexadecimal digits, and the submitted signature verifies under that owner key
  over the keys, proofs and funder of this entry on this chain. If the name was taken, its
  record is left as it was.
\<close>

theorem account_create_authorised:
  assumes run: "validate_and_apply E N (AccountCreate a keys proofs epoch funded_by fp) sig s = (Inr h, s')"
  shows "(\<exists>pk. kv_get keys ''owner'' = Some pk \<and>
      valid_signature E N (AccountCreate a keys proofs epoch funded_by fp) pk sig) \<and>
    (\<forall>rk \<in> set keys. length (snd rk) = 64 \<and> list_all is_hex_digit (snd rk)) \<and>
    trim a \<noteq> [] \<and> (get_account s a \<noteq> None \<longrightarrow> get_account s' a = get_account s a)"
proof -
  define e where "e = AccountCreate a keys proofs epoch funded_by fp"
  obtain t where arm: "validate_arm E N e sig s = (Inr (), t)" and fee: "fee_deduction E e t = (Inr (), s')"
    using accepted_steps [OF run] unfolding e_def .
  have stake: "name_stake_check E funded_by u = (Inr x, u') \<Longrightarrow> u' = u" for u u' x
    by (auto simp: name_stake_check_def when_do_apply andThen_Inr guard_simps split: if_splits)
  from arm obtain pk where key: "kv_get keys ''owner'' = Some pk" "valid_signature E N e pk sig"
      "\<forall>rk \<in> set keys. length (snd rk) = 64 \<and> list_all is_hex_digit (snd rk)" "trim a \<noteq> []"
      and app: "apply_entry E e s = (Inr (), t)"
    unfolding e_def validate_arm_def ledger_entry.case validate_AccountCreate_def seq_Inr andThen_Inr
    by (auto simp: guard_simps check_account_create_signature_def verify_entry_Inr when_do_apply list_all_iff
        dest!: stake split: bind_splits if_splits)
  have "get_account t a = get_account s a" if "get_account s a \<noteq> None"
    using app that
    by (auto simp: e_def apply_entry_def apply_arm_def apply_AccountCreate_def andThen_Inr reads_Inr is_some_def
        ret_apply when_do_apply split: option.splits)
  with key get_account_keeps [OF keeps_accounts_fee fee, of a] show ?thesis
    unfolding e_def by auto
qed

text \<open>A codec that reads two digits a byte, as far as lengths go.\<close>

definition demo_hex_env :: env where
  "demo_hex_env = demo_env\<lparr>hex_decode := (\<lambda>t. Some (take (length t div 2) t))\<rparr>"

definition demo_create :: ledger_entry where
  "demo_create = AccountCreate ''carol'' [(''owner'', replicate 64 (CHR ''a''))] [] 1 None None"

lemma demo_create_accepted:
  "\<exists>s'. validate_and_apply demo_hex_env demo_node demo_create (Some (replicate 128 (CHR ''5''))) empty_chain =
    (Inr (entry_hash demo_hex_env demo_create), s')"
proof -
  let ?sig = "Some (replicate 128 (CHR ''5''))"
  have "valid_signature demo_hex_env demo_node demo_create (replicate 64 (CHR ''a'')) ?sig"
    by (simp add: valid_signature_def demo_hex_env_def demo_env_def hex_bytes_def)
  moreover have "\<exists>t. apply_arm demo_hex_env demo_create empty_chain = (Inr True, t)"
    by (simp add: demo_create_def apply_arm_def apply_AccountCreate_def demo_hex_env_def state_text_def run_simps
        STAKE_EXEMPT_ACCOUNTS_def act_simps empty_chain_def)
  then obtain t where "apply_entry demo_hex_env demo_create empty_chain = (Inr (), t)"
    using apply_entry_result by blast
  moreover have "trim (replicate 64 (CHR ''a'')) \<noteq> []" "trim ''carol'' \<noteq> []"
      "list_all is_hex_digit (replicate 64 (CHR ''a''))"
    by (simp_all add: trim_def is_ws_def is_hex_digit_def list_all_iff numeral_eq_Suc)
  moreover have "name_stake_check demo_hex_env None empty_chain = (Inr (), empty_chain)"
    by (simp add: name_stake_check_def state_text_def state_get_def kv_get_def empty_chain_def act_simps)
  ultimately have "validate_arm demo_hex_env demo_node demo_create ?sig empty_chain = (Inr (), t)"
    by (simp add: demo_create_def validate_arm_def validate_AccountCreate_def seq_Inr andThen_Inr guard_simps
        kv_get_def check_account_create_signature_def verify_entry_Inr when_do_apply is_dec_digit_def)
  moreover have "stale_guard demo_create empty_chain = (Inr (), empty_chain)"
    "fee_preflight demo_hex_env demo_create empty_chain = (Inr (), empty_chain)"
    by (simp_all add: guard_simps demo_create_def entry_epoch_def is_account_create_def)
  ultimately show ?thesis
    using accepted_from_arm by blast
qed

theorem account_create_authorised_witness:
  "\<exists>pk. valid_signature demo_hex_env demo_node demo_create pk (Some (replicate 128 (CHR ''5'')))"
proof -
  obtain s' where "validate_and_apply demo_hex_env demo_node demo_create (Some (replicate 128 (CHR ''5'')))
      empty_chain = (Inr (entry_hash demo_hex_env demo_create), s')"
    using demo_create_accepted by blast
  from account_create_authorised [OF this [unfolded demo_create_def]] show ?thesis
    unfolding demo_create_def by blast
qed

end
