(* ===== verification/Projects.thy ===== *)
theory Projects
  imports Runtime
begin

text \<open>
  Projects and their tasks (\<open>src/chain.rs\<close>): a creator opens a project and posts tasks, a worker
  claims and submits one, and the lead or a collaborator approves it, which pays the bounty of a
  partial task or makes the worker of a full task a collaborator.

  Paying conserves the native supply, and only the creator or a collaborator approves; collaborators
  come only from approvals. An approval does not look at the status of the task: it needs neither a
  claim nor a submission and can be repeated.
\<close>

section \<open>Operations\<close>

definition project_key :: "string \<Rightarrow> string" where
  "project_key project_id = ''project:'' @ project_id"

definition task_key :: "string \<Rightarrow> string \<Rightarrow> string" where
  "task_key project_id task_id = ''project_task:'' @ project_id @ '':'' @ task_id"

definition apply_ProjectCreate ::
  "string \<Rightarrow> string \<Rightarrow> string \<Rightarrow> string option \<Rightarrow> string \<Rightarrow> u64 \<Rightarrow> unit chain_act" where
  "apply_ProjectCreate project_id name description repo creator epoch =
     andThen (reads (\<lambda>s. state_get s (project_key project_id))) (\<lambda>existing.
     seq (ensure (existing = None) (Err ''project already exists''))
         (state_set (project_key project_id) (Json (jobj [
            (''project_id'', JStr project_id), (''name'', JStr name),
            (''description'', JStr description), (''repo'', jopt_str repo),
            (''creator'', JStr creator), (''created_epoch'', JNum epoch),
            (''collaborators'', JArr [])]))))"

definition apply_ProjectTask ::
  "string \<Rightarrow> string \<Rightarrow> string \<Rightarrow> string \<Rightarrow> string \<Rightarrow> u64 \<Rightarrow> string list \<Rightarrow> u64 \<Rightarrow> string \<Rightarrow> u64 \<Rightarrow>
    unit chain_act" where
  "apply_ProjectTask project_id task_id title description task_type bounty tags deadline_epoch
     creator epoch =
     andThen (reads (\<lambda>s. state_get s (project_key project_id))) (\<lambda>project.
     seq (ensure (project \<noteq> None) (Err ''project does not exist''))
    (andThen (reads (\<lambda>s. state_get s (task_key project_id task_id))) (\<lambda>existing.
     seq (ensure (existing = None) (Err ''task already exists in project''))
         (state_set (task_key project_id task_id) (Json (jobj [
            (''project_id'', JStr project_id), (''task_id'', JStr task_id), (''title'', JStr title),
            (''description'', JStr description), (''task_type'', JStr task_type),
            (''bounty'', JNum bounty), (''tags'', jstrs tags),
            (''deadline_epoch'', JNum deadline_epoch), (''creator'', JStr creator),
            (''created_epoch'', JNum epoch), (''status'', JStr ''open''), (''claimant'', JNull),
            (''submission_link'', JNull)]))))))"

definition apply_TaskClaim :: "env \<Rightarrow> string \<Rightarrow> string \<Rightarrow> string \<Rightarrow> unit chain_act" where
  "apply_TaskClaim E project_id task_id claimant =
     andThen (load_json E (task_key project_id task_id) ''task not found in project'') (\<lambda>task.
     seq (ensure (field_is task ''status'' ''open'') (Err ''task is not open''))
    (andThen (with_fields task [(''status'', JStr ''claimed''), (''claimant'', JStr claimant)])
       (\<lambda>task'. state_set (task_key project_id task_id) (Json task'))))"

definition apply_TaskSubmit ::
  "env \<Rightarrow> string \<Rightarrow> string \<Rightarrow> string \<Rightarrow> string \<Rightarrow> string option \<Rightarrow> u64 \<Rightarrow> unit chain_act" where
  "apply_TaskSubmit E project_id task_id submitter link notes epoch =
     andThen (load_json E (task_key project_id task_id) ''task not found in project'') (\<lambda>task.
     seq (ensure (field_is task ''claimant'' submitter) (Err ''only the task claimant can submit''))
    (andThen (with_fields task [(''status'', JStr ''submitted''), (''submission_link'', JStr link),
        (''submission_notes'', jopt_str notes), (''submitted_epoch'', JNum epoch)])
       (\<lambda>task'. state_set (task_key project_id task_id) (Json task'))))"

definition json_array :: "json \<Rightarrow> json list" where
  "json_array j = (case as_array j of Some xs \<Rightarrow> xs | None \<Rightarrow> [])"

text \<open>The strings of the collaborator array; other elements are skipped.\<close>

definition collaborators :: "json \<Rightarrow> string list" where
  "collaborators project = List.map_filter as_str (json_array (jget project ''collaborators''))"

definition pay_task :: "json \<Rightarrow> string \<Rightarrow> string \<Rightarrow> u64 option \<Rightarrow> u64 \<Rightarrow> unit chain_act" where
  "pay_task task approver recipient payout epoch =
    (let bounty = (case payout of Some n \<Rightarrow> n | None \<Rightarrow> the_u64 task ''bounty'' 0) in
     when_do (bounty > 0)
      (seq (debit approver NATIVE_TOKEN bounty)
      (seq (ensure_account recipient epoch)
      (seq (credit recipient NATIVE_TOKEN bounty) (ret ())))))"

definition add_collaborator :: "string \<Rightarrow> json \<Rightarrow> string \<Rightarrow> unit chain_act" where
  "add_collaborator project_id project recipient =
    (let collabs_arr = json_array (jget project ''collaborators'') in
     when_do (\<not> (\<exists>v \<in> set collabs_arr. as_str v = Some recipient))
      (andThen (with_fields project [(''collaborators'', JArr (collabs_arr @ [JStr recipient]))])
        (\<lambda>proj. state_set (project_key project_id) (Json proj))))"

definition apply_TaskApprove ::
  "env \<Rightarrow> string \<Rightarrow> string \<Rightarrow> string \<Rightarrow> string \<Rightarrow> u64 option \<Rightarrow> u64 \<Rightarrow> unit chain_act" where
  "apply_TaskApprove E project_id task_id approver recipient payout epoch =
     andThen (load_json E (project_key project_id) ''project not found'') (\<lambda>project.
     seq (ensure (approver = the_str project ''creator'' [] \<or> approver \<in> set (collaborators project))
            (Err ''only the project lead or a collaborator can approve tasks''))
    (andThen (load_json E (task_key project_id task_id) ''task not found'') (\<lambda>task.
     let task_type = the_str task ''task_type'' ''partial'' in
     seq (when_do (task_type = ''partial'') (pay_task task approver recipient payout epoch))
    (seq (when_do (task_type = ''full'') (add_collaborator project_id project recipient))
    (andThen (with_fields task [(''status'', JStr ''approved''), (''approved_epoch'', JNum epoch),
        (''approved_by'', JStr approver)])
       (\<lambda>task'. state_set (task_key project_id task_id) (Json task')))))))"

section \<open>Entries and steps\<close>

datatype project_entry =
    ProjectCreate string string string "string option" string u64
  | ProjectTask string string string string string u64 "string list" u64 string u64
  | TaskClaim string string string
  | TaskSubmit string string string string "string option" u64
  | TaskApprove string string string string "u64 option" u64

fun apply_project_entry :: "env \<Rightarrow> project_entry \<Rightarrow> unit chain_act" where
  "apply_project_entry E (ProjectCreate p n d r c e) = apply_ProjectCreate p n d r c e"
| "apply_project_entry E (ProjectTask p t ti d ty b tg dl c e) = apply_ProjectTask p t ti d ty b tg dl c e"
| "apply_project_entry E (TaskClaim p t c) = apply_TaskClaim E p t c"
| "apply_project_entry E (TaskSubmit p t sub l n e) = apply_TaskSubmit E p t sub l n e"
| "apply_project_entry E (TaskApprove p t a r pay e) = apply_TaskApprove E p t a r pay e"

section \<open>Who may approve\<close>

lemma project_task_neq [simp]: "task_key p t \<noteq> project_key q" "project_key q \<noteq> task_key p t"
  by (simp_all add: task_key_def project_key_def)

abbreviation project_of :: "string \<Rightarrow> chain \<Rightarrow> val option" where
  "project_of p s \<equiv> state_get s (project_key p)"

lemma keeps_project:
  "k \<noteq> project_key p \<Longrightarrow> keeps (project_of p) (state_set k v)"
  "keeps cf_meta m \<Longrightarrow> keeps (project_of p) m"
  by (simp_all add: keeps_def state_set_def state_get_def act_simps)

lemma project_frames:
  "keeps (project_of p) (load_json E k msg)" "keeps (project_of p) (pay_task t a r py e)"
  "q \<noteq> p \<Longrightarrow> keeps (project_of p) (add_collaborator q j r)"
proof -
  show "keeps (project_of p) (load_json E k msg)" "keeps (project_of p) (pay_task t a r py e)"
    unfolding load_json_def pay_task_def Let_def by (intro keeps_project(2) keeps_intros)+
  assume "q \<noteq> p"
  then have "project_key q \<noteq> project_key p" by (simp add: project_key_def)
  then show "keeps (project_of p) (add_collaborator q j r)"
    unfolding add_collaborator_def Let_def by (intro keeps_intros keeps_project(1))
qed


text \<open>Entries that are not an approval in the project leave its record alone.\<close>

lemma only_approvals_touch:
  assumes "\<nexists>t a r pay e. en = TaskApprove p t a r pay e" "project_of p s \<noteq> None"
  shows "project_of p (snd (apply_project_entry E en s)) = project_of p s"
proof (cases en)
  case (ProjectCreate q n d r c e)
  with assms(2) show ?thesis
    by (auto simp: apply_ProjectCreate_def state_set_def state_get_def project_key_def act_simps)
next
  case (ProjectTask q t ti d ty b tg dl c e)
  have "keeps (project_of p) (apply_ProjectTask q t ti d ty b tg dl c e)"
    unfolding apply_ProjectTask_def by (intro keeps_intros keeps_project(1)) simp
  with ProjectTask show ?thesis by (simp add: keeps_def)
next
  case (TaskClaim q t c)
  have "keeps (project_of p) (apply_TaskClaim E q t c)"
    unfolding apply_TaskClaim_def by (intro keeps_intros keeps_project(1) project_frames) simp
  with TaskClaim show ?thesis by (simp add: keeps_def)
next
  case (TaskSubmit q t sub l n e)
  have "keeps (project_of p) (apply_TaskSubmit E q t sub l n e)"
    unfolding apply_TaskSubmit_def by (intro keeps_intros keeps_project(1) project_frames) simp
  with TaskSubmit show ?thesis by (simp add: keeps_def)
next
  case (TaskApprove q t a r pay e)
  with assms(1) have "q \<noteq> p" by auto
  then have "keeps (project_of p) (apply_TaskApprove E q t a r pay e)"
    unfolding apply_TaskApprove_def Let_def
    by (intro keeps_intros keeps_project(1) project_frames) simp_all
  with TaskApprove show ?thesis by (simp add: keeps_def)
qed

text \<open>What an approval can do to the project record it starts from.\<close>

definition grown :: "json \<Rightarrow> string \<Rightarrow> json \<Rightarrow> bool" where
  "grown j r j' \<longleftrightarrow> the_str j' ''creator'' [] = the_str j ''creator'' [] \<and>
     set (collaborators j') = insert r (set (collaborators j))"

definition same_or_grown :: "string \<Rightarrow> val \<Rightarrow> json \<Rightarrow> string \<Rightarrow> chain \<Rightarrow> bool" where
  "same_or_grown p v j r x \<longleftrightarrow>
     project_of p x = Some v \<or> (\<exists>j'. project_of p x = Some (Json j') \<and> grown j r j')"

lemma preserves_grown_keeps: "keeps (project_of p) m \<Longrightarrow> preserves (same_or_grown p v j r) m"
  by (simp add: keeps_def preserves_def same_or_grown_def)

lemma preserves_grown_add: "preserves (same_or_grown p v j r) (add_collaborator p j r)"
proof -
  have g: "grown j r j'"
    if "jset j ''collaborators'' (JArr (json_array (jget j ''collaborators'') @ [JStr r])) = Some j'"
    for j'
    using jset_jfield [OF that, of "''creator''"] jset_jfield [OF that, of "''collaborators''"]
    by (auto simp: grown_def the_str_def collaborators_def json_array_def jget_def map_filter_def)
  show ?thesis
    by (auto simp: preserves_def same_or_grown_def add_collaborator_def with_fields_def Let_def act_simps
        state_set_def state_get_def split: option.splits dest: g)
qed

lemma approval_effect:
  assumes rec: "project_of p s = Some v" "as_json E v = Some j"
  shows "project_of p (snd (apply_TaskApprove E p t a r pay e s)) = Some v \<or>
    ((a = the_str j ''creator'' [] \<or> a \<in> set (collaborators j)) \<and>
     same_or_grown p v j r (snd (apply_TaskApprove E p t a r pay e s)))"
proof (cases "a = the_str j ''creator'' [] \<or> a \<in> set (collaborators j)")
  case False
  with assms show ?thesis
    by (auto simp: apply_TaskApprove_def load_json_def state_json_def act_simps)
next
  case True
  define rest where "rest = andThen (load_json E (task_key p t) ''task not found'') (\<lambda>task.
     let task_type = the_str task ''task_type'' ''partial'' in
     seq (when_do (task_type = ''partial'') (pay_task task a r pay e))
    (seq (when_do (task_type = ''full'') (add_collaborator p j r))
    (andThen (with_fields task [(''status'', JStr ''approved''), (''approved_epoch'', JNum e),
        (''approved_by'', JStr a)])
       (\<lambda>task'. state_set (task_key p t) (Json task')))))"
  have "preserves (same_or_grown p v j r) rest"
    unfolding rest_def
    by (intro preserves_intros preserves_grown_add preserves_grown_keeps [OF project_frames(1)]
        preserves_grown_keeps [OF project_frames(2)] preserves_grown_keeps [OF keeps_project(1)]) simp
  moreover have "apply_TaskApprove E p t a r pay e s = rest s"
    using assms True by (simp add: apply_TaskApprove_def rest_def load_json_def [of E "project_key p"]
        state_json_def [of E s "project_key p"] act_simps)
  moreover have "same_or_grown p v j r s"
    using rec by (simp add: same_or_grown_def)
  ultimately show ?thesis
    using True by (simp add: preserves_def)
qed

text \<open>
  Who is on a project changes only by approval: whatever entry is applied, and whether it
  succeeds or not, the creator stays, and a collaborator is added only by an approval of the creator
  or of an existing collaborator, which adds exactly the recipient it names.
\<close>

theorem collaborators_by_approval:
  assumes "state_json E s (project_key p) = Some j"
  shows "\<exists>j'. state_json E (snd (apply_project_entry E en s)) (project_key p) = Some j' \<and>
    the_str j' ''creator'' [] = the_str j ''creator'' [] \<and>
    (set (collaborators j') = set (collaborators j) \<or>
     (\<exists>t a r pay e. en = TaskApprove p t a r pay e \<and>
        (a = the_str j ''creator'' [] \<or> a \<in> set (collaborators j)) \<and>
        set (collaborators j') = insert r (set (collaborators j))))"
proof -
  from assms obtain v where v: "project_of p s = Some v" "as_json E v = Some j"
    by (auto simp: state_json_def bind_eq_Some_conv)
  show ?thesis
  proof (cases "\<exists>t a r pay e. en = TaskApprove p t a r pay e")
    case False
    then have "project_of p (snd (apply_project_entry E en s)) = project_of p s"
      using v by (intro only_approvals_touch) simp_all
    with v show ?thesis by (simp add: state_json_def)
  next
    case True
    then obtain t a r pay e where en: "en = TaskApprove p t a r pay e" by blast
    show ?thesis
      using approval_effect [OF v, of t a r pay e] v(2)
      by (auto simp: en same_or_grown_def grown_def state_json_def)
  qed
qed

definition demo_project :: chain where
  "demo_project = empty_chain\<lparr>
     cf_balances := [(balance_key ''lead'' ''HONE'', 100)],
     cf_meta := [
       (''project:p'', Json (jobj [(''creator'', JStr ''lead''), (''collaborators'', JArr [])])),
       (''project_task:p:t'', Json (jobj [(''task_type'', JStr ''partial''), (''bounty'', JNum 30),
          (''status'', JStr ''open''), (''claimant'', JNull)]))]\<rparr>"

lemmas project_run_simps = demo_project_def apply_TaskApprove_def load_json_def pay_task_def
  add_collaborator_def collaborators_def json_array_def field_is_def project_key_def task_key_def
  the_u64_def the_str_def map_filter_def ensure_account_def run_simps act_simps

theorem collaborators_by_approval_witness:
  "\<exists>j'. state_json demo_env (snd (apply_project_entry demo_env (TaskApprove ''p'' ''t'' ''lead'' ''w'' None 2)
      demo_project)) (project_key ''p'') = Some j' \<and> the_str j' ''creator'' [] = ''lead''"
proof -
  have "state_json demo_env demo_project (project_key ''p'') =
      Some (jobj [(''creator'', JStr ''lead''), (''collaborators'', JArr [])])"
    by (simp add: project_run_simps)
  from collaborators_by_approval [OF this] show ?thesis
    by (fastforce simp: the_str_def)
qed

text \<open>An open task that nobody claimed is approved, and paid, as often as the lead asks.\<close>

lemma approve_repeatable:
  "get_balance (snd (apply_TaskApprove demo_env ''p'' ''t'' ''lead'' ''w'' None 3
     (snd (apply_TaskApprove demo_env ''p'' ''t'' ''lead'' ''w'' None 2 demo_project)))) ''w'' NATIVE_TOKEN = 60"
  by (simp add: project_run_simps)

end
