(* ===== verification/LinkGit.thy ===== *)
theory LinkGit
  imports Runtime
begin

text \<open>
  LinkGit, the git hosting entries (\<open>src/chain.rs\<close>): repositories and their refs, access grants,
  serve heartbeats and the rewards computed from them, issues and pull requests.

  The serve counter of a repository, which its reward is computed from, equals the number of
  different requesters of the epoch, however often and in whatever order their heartbeats arrive.
\<close>

section \<open>Operations\<close>

subsection \<open>Repositories\<close>

definition repo_key :: "string \<Rightarrow> string" where
  "repo_key repo_id = ''linkgit:repo:'' @ repo_id"

definition access_key :: "string \<Rightarrow> string \<Rightarrow> string" where
  "access_key repo_id grantee = ''linkgit:access:'' @ repo_id @ '':'' @ grantee"

text \<open>A list of strings under a key, empty when it is missing or is not such a list.\<close>

definition state_strs :: "env \<Rightarrow> chain \<Rightarrow> string \<Rightarrow> string list" where
  "state_strs E s key = (case Option.bind (state_json E s key) as_strs of Some xs \<Rightarrow> xs | None \<Rightarrow> [])"

definition state_le64 :: "env \<Rightarrow> chain \<Rightarrow> string \<Rightarrow> u64" where
  "state_le64 E s key = (case Option.bind (state_get s key) (as_le64 E) of Some n \<Rightarrow> n | None \<Rightarrow> 0)"

text \<open>Append to the list under a key when it is not there yet; only then is the list written.\<close>

definition push_new :: "env \<Rightarrow> string \<Rightarrow> string \<Rightarrow> unit chain_act" where
  "push_new E key x =
     andThen (reads (\<lambda>s. state_strs E s key)) (\<lambda>xs.
     when_do (x \<notin> set xs) (state_set key (Json (jstrs (xs @ [x])))))"

definition apply_LinkGitRepoCreate ::
  "string \<Rightarrow> string \<Rightarrow> string \<Rightarrow> string \<Rightarrow> string option \<Rightarrow> u64 \<Rightarrow> unit chain_act" where
  "apply_LinkGitRepoCreate repo_id owner name visibility hide_key epoch =
     seq (set_meta (repo_key repo_id) (Json (jobj [
            (''repo_id'', JStr repo_id), (''owner'', JStr owner), (''name'', JStr name),
            (''visibility'', JStr visibility), (''hide_key'', jopt_str hide_key),
            (''refs'', JObj []), (''created_epoch'', JNum epoch)])))
         (set_meta (''linkgit:byname:'' @ owner @ '':'' @ name) (Text repo_id))"

text \<open>\<open>repo["refs"][ref_name] = hash\<close>: both levels are created when missing, both can panic.\<close>

definition set_ref :: "json \<Rightarrow> string \<Rightarrow> string \<Rightarrow> ('s, json) act" where
  "set_ref repo ref_name commit_hash =
     andThen (with_fields (jget repo ''refs'') [(ref_name, JStr commit_hash)]) (\<lambda>refs.
     with_fields repo [(''refs'', refs)])"

definition apply_LinkGitRefUpdate ::
  "env \<Rightarrow> string \<Rightarrow> string \<Rightarrow> string \<Rightarrow> u64 \<Rightarrow> string \<Rightarrow> unit chain_act" where
  "apply_LinkGitRefUpdate E repo_id ref_name commit_hash epoch signed_by =
     seq (andThen (reads (\<lambda>s. Option.bind (get_meta s (repo_key repo_id)) (as_json E))) (\<lambda>found.
          case found of
            None \<Rightarrow> ret ()
          | Some repo \<Rightarrow> andThen (set_ref repo ref_name commit_hash) (\<lambda>repo'.
              set_meta (repo_key repo_id) (Json repo'))))
    (let build_key = ''linkgit:build:'' @ show_u64 epoch @ '':'' @ signed_by in
     andThen (reads (\<lambda>s. state_le64 E s build_key)) (\<lambda>prev.
     seq (state_set build_key (Le64 (prev + 1)))
         (push_new E (''linkgit:builders:'' @ show_u64 epoch) signed_by)))"

definition apply_LinkGitAccessGrant :: "string \<Rightarrow> string \<Rightarrow> string \<Rightarrow> unit chain_act" where
  "apply_LinkGitAccessGrant repo_id grantee encrypted_key =
     set_meta (access_key repo_id grantee) (Text encrypted_key)"

definition apply_LinkGitAccessRevoke :: "string \<Rightarrow> string \<Rightarrow> unit chain_act" where
  "apply_LinkGitAccessRevoke repo_id grantee = state_delete (access_key repo_id grantee)"

subsection \<open>Serving\<close>

definition dedup_key :: "u64 \<Rightarrow> string \<Rightarrow> string \<Rightarrow> string" where
  "dedup_key epoch repo_id requester_hash =
     ''linkgit:serve_dedup:'' @ show_u64 epoch @ '':'' @ repo_id @ '':'' @ requester_hash"

definition count_key :: "u64 \<Rightarrow> string \<Rightarrow> string" where
  "count_key epoch repo_id = ''linkgit:serve_count:'' @ show_u64 epoch @ '':'' @ repo_id"

definition apply_LinkGitServeHeartbeat :: "env \<Rightarrow> string \<Rightarrow> string \<Rightarrow> u64 \<Rightarrow> unit chain_act" where
  "apply_LinkGitServeHeartbeat E repo_id requester_hash epoch =
     andThen (reads (\<lambda>s. state_get s (dedup_key epoch repo_id requester_hash))) (\<lambda>seen.
     if seen \<noteq> None then ret ()
     else
       seq (state_set (dedup_key epoch repo_id requester_hash) (Text ''1''))
      (andThen (reads (\<lambda>s. state_le64 E s (count_key epoch repo_id))) (\<lambda>count.
       seq (state_set (count_key epoch repo_id) (Le64 (count + 1)))
           (push_new E (''linkgit:served_repos:'' @ show_u64 epoch) repo_id))))"

definition apply_LinkGitReward :: "string \<Rightarrow> u64 \<Rightarrow> unit chain_act" where
  "apply_LinkGitReward receiver amount = seq (credit receiver NATIVE_TOKEN amount) (ret ())"

subsection \<open>Issues and pull requests\<close>

definition issue_key :: "string \<Rightarrow> string \<Rightarrow> string" where
  "issue_key repo_id issue_id = ''linkgit:issue:'' @ repo_id @ '':'' @ issue_id"

definition pr_key :: "string \<Rightarrow> string \<Rightarrow> string" where
  "pr_key repo_id pr_id = ''linkgit:pr:'' @ repo_id @ '':'' @ pr_id"

text \<open>The index of a repository is written back even when the id is on it already.\<close>

definition add_to_index :: "env \<Rightarrow> string \<Rightarrow> string \<Rightarrow> unit chain_act" where
  "add_to_index E idx_key i =
     andThen (reads (\<lambda>s. state_strs E s idx_key)) (\<lambda>ids.
     set_meta idx_key (Json (jstrs (if i \<in> set ids then ids else ids @ [i]))))"

text \<open>
  \<open>doc["comments"].as_array_mut().map(push)\<close>: indexing creates a missing field as \<open>Null\<close>; the
  comment is dropped unless the field is an array.
\<close>

definition push_comment :: "json \<Rightarrow> json \<Rightarrow> json option" where
  "push_comment doc comment =
     jset doc ''comments'' (case jget doc ''comments'' of
       JArr xs \<Rightarrow> JArr (xs @ [comment]) | other \<Rightarrow> other)"

text \<open>\<open>if let Some(bytes) = get_meta(k) { if let Ok(mut doc) = from_slice(&bytes) { ...; set_meta } }\<close>\<close>

definition edit_doc :: "env \<Rightarrow> string \<Rightarrow> (json \<Rightarrow> json option) \<Rightarrow> unit chain_act" where
  "edit_doc E key f =
     andThen (reads (\<lambda>s. Option.bind (get_meta s key) (as_json E))) (\<lambda>found.
     case found of
       None \<Rightarrow> ret ()
     | Some doc \<Rightarrow> andThen (need (f doc) (Panic ''cannot access key in JSON value'')) (\<lambda>doc'.
         set_meta key (Json doc')))"

definition comment_on :: "string \<Rightarrow> string \<Rightarrow> string \<Rightarrow> u64 \<Rightarrow> json \<Rightarrow> json option" where
  "comment_on comment_id body author epoch doc =
     Option.bind (push_comment doc (jobj [(''comment_id'', JStr comment_id), (''body'', JStr body),
        (''author'', JStr author), (''epoch'', JNum epoch)]))
       (\<lambda>doc'. jset doc' ''updated_epoch'' (JNum epoch))"

definition apply_LinkGitIssueCreate ::
  "env \<Rightarrow> string \<Rightarrow> string \<Rightarrow> string \<Rightarrow> string \<Rightarrow> string list \<Rightarrow> string \<Rightarrow> u64 \<Rightarrow> unit chain_act" where
  "apply_LinkGitIssueCreate E repo_id issue_id title body labels author epoch =
     seq (set_meta (issue_key repo_id issue_id) (Json (jobj [
            (''issue_id'', JStr issue_id), (''repo_id'', JStr repo_id), (''title'', JStr title),
            (''body'', JStr body), (''labels'', jstrs labels), (''author'', JStr author),
            (''status'', JStr ''open''), (''comments'', JArr []), (''created_epoch'', JNum epoch),
            (''updated_epoch'', JNum epoch)])))
         (add_to_index E (''linkgit:issues:'' @ repo_id) issue_id)"

definition apply_LinkGitIssueComment ::
  "env \<Rightarrow> string \<Rightarrow> string \<Rightarrow> string \<Rightarrow> string \<Rightarrow> string \<Rightarrow> u64 \<Rightarrow> unit chain_act" where
  "apply_LinkGitIssueComment E repo_id issue_id comment_id body author epoch =
     edit_doc E (issue_key repo_id issue_id) (comment_on comment_id body author epoch)"

definition apply_LinkGitIssueClose ::
  "env \<Rightarrow> string \<Rightarrow> string \<Rightarrow> string option \<Rightarrow> u64 \<Rightarrow> unit chain_act" where
  "apply_LinkGitIssueClose E repo_id issue_id resolution epoch =
     edit_doc E (issue_key repo_id issue_id) (\<lambda>issue. jsets issue (
       [(''status'', JStr ''closed'')] @
       (case resolution of Some res \<Rightarrow> [(''resolution'', JStr res)] | None \<Rightarrow> []) @
       [(''closed_epoch'', JNum epoch), (''updated_epoch'', JNum epoch)]))"

definition apply_LinkGitIssueReopen :: "env \<Rightarrow> string \<Rightarrow> string \<Rightarrow> u64 \<Rightarrow> unit chain_act" where
  "apply_LinkGitIssueReopen E repo_id issue_id epoch =
     edit_doc E (issue_key repo_id issue_id) (\<lambda>issue. jsets issue
       [(''status'', JStr ''open''), (''updated_epoch'', JNum epoch)])"

definition apply_LinkGitPrCreate ::
  "env \<Rightarrow> string \<Rightarrow> string \<Rightarrow> string \<Rightarrow> string \<Rightarrow> string \<Rightarrow> string \<Rightarrow> string \<Rightarrow> string \<Rightarrow> u64 \<Rightarrow> unit chain_act" where
  "apply_LinkGitPrCreate E repo_id pr_id title body source_branch target_branch head_commit author epoch =
     seq (set_meta (pr_key repo_id pr_id) (Json (jobj [
            (''pr_id'', JStr pr_id), (''repo_id'', JStr repo_id), (''title'', JStr title),
            (''body'', JStr body), (''source_branch'', JStr source_branch),
            (''target_branch'', JStr target_branch), (''head_commit'', JStr head_commit),
            (''author'', JStr author), (''status'', JStr ''open''), (''comments'', JArr []),
            (''created_epoch'', JNum epoch), (''updated_epoch'', JNum epoch)])))
         (add_to_index E (''linkgit:prs:'' @ repo_id) pr_id)"

definition apply_LinkGitPrComment ::
  "env \<Rightarrow> string \<Rightarrow> string \<Rightarrow> string \<Rightarrow> string \<Rightarrow> string \<Rightarrow> u64 \<Rightarrow> unit chain_act" where
  "apply_LinkGitPrComment E repo_id pr_id comment_id body author epoch =
     edit_doc E (pr_key repo_id pr_id) (comment_on comment_id body author epoch)"

definition apply_LinkGitPrMerge :: "env \<Rightarrow> string \<Rightarrow> string \<Rightarrow> string \<Rightarrow> u64 \<Rightarrow> unit chain_act" where
  "apply_LinkGitPrMerge E repo_id pr_id merge_commit epoch =
     edit_doc E (pr_key repo_id pr_id) (\<lambda>pr. jsets pr [
       (''status'', JStr ''merged''), (''merge_commit'', JStr merge_commit),
       (''merged_epoch'', JNum epoch), (''updated_epoch'', JNum epoch)])"

definition apply_LinkGitPrClose :: "env \<Rightarrow> string \<Rightarrow> string \<Rightarrow> u64 \<Rightarrow> unit chain_act" where
  "apply_LinkGitPrClose E repo_id pr_id epoch =
     edit_doc E (pr_key repo_id pr_id) (\<lambda>pr. jsets pr [
       (''status'', JStr ''closed''), (''closed_epoch'', JNum epoch), (''updated_epoch'', JNum epoch)])"

section \<open>Counting requesters\<close>

record heartbeat =
  hb_repo :: string
  hb_requester :: string
  hb_epoch :: u64

fun run_heartbeats :: "env \<Rightarrow> heartbeat list \<Rightarrow> chain \<Rightarrow> chain" where
  "run_heartbeats E [] s = s"
| "run_heartbeats E (h # hs) s =
     run_heartbeats E hs (snd (apply_LinkGitServeHeartbeat E (hb_repo h) (hb_requester h) (hb_epoch h) s))"

definition requesters :: "u64 \<Rightarrow> string \<Rightarrow> heartbeat list \<Rightarrow> string set" where
  "requesters e r hs = set (map hb_requester (filter (\<lambda>h. hb_repo h = r \<and> hb_epoch h = e) hs))"

definition serve_ok :: "env \<Rightarrow> heartbeat list \<Rightarrow> chain \<Rightarrow> bool" where
  "serve_ok E hs s \<longleftrightarrow> (\<forall>e r. CHR '':'' \<notin> set r \<longrightarrow>
     state_le64 E s (count_key e r) = word_of_nat (card (requesters e r hs)) \<and>
     (\<forall>q. state_get s (dedup_key e r q) \<noteq> None \<longleftrightarrow> q \<in> requesters e r hs))"

lemma dedup_key_inject:
  "CHR '':'' \<notin> set r \<Longrightarrow> CHR '':'' \<notin> set r' \<Longrightarrow>
    dedup_key e r q = dedup_key e' r' q' \<longleftrightarrow> e = e' \<and> r = r' \<and> q = q'"
  by (simp add: dedup_key_def append_sep_eq)

lemma count_key_inject [simp]: "count_key e r = count_key e' r' \<longleftrightarrow> e = e' \<and> r = r'"
  by (simp add: count_key_def)

lemma serve_keys_differ [simp]:
  "count_key e r \<noteq> dedup_key e' r' q" "dedup_key e' r' q \<noteq> count_key e r"
  "''linkgit:served_repos:'' @ x \<noteq> dedup_key e' r' q" "''linkgit:served_repos:'' @ x \<noteq> count_key e r"
  by (simp_all add: count_key_def dedup_key_def)

lemma finite_requesters [simp]: "finite (requesters e r hs)"
  by (simp add: requesters_def)

lemma requesters_snoc:
  "requesters e r (hs @ [h]) =
    (if hb_repo h = r \<and> hb_epoch h = e then insert (hb_requester h) (requesters e r hs) else requesters e r hs)"
  by (auto simp: requesters_def)

lemma push_new_other: "k \<noteq> key \<Longrightarrow> state_get (snd (push_new E key x s)) k = state_get s k"
  by (simp add: push_new_def state_set_def state_get_def act_simps)

text \<open>A heartbeat changes the counter and the mark of its own requester, and nothing else that counts.\<close>

lemma heartbeat_get:
  assumes "k \<noteq> ''linkgit:served_repos:'' @ show_u64 e"
  shows "state_get (snd (apply_LinkGitServeHeartbeat E r q e s)) k =
    (if state_get s (dedup_key e r q) \<noteq> None then state_get s k
     else if k = count_key e r then Some (Le64 (state_le64 E s (count_key e r) + 1))
     else if k = dedup_key e r q then Some (Text ''1'')
     else state_get s k)"
proof (cases "state_get s (dedup_key e r q)")
  case (Some v)
  then show ?thesis by (simp add: apply_LinkGitServeHeartbeat_def act_simps)
next
  case None
  let ?s1 = "s\<lparr>cf_meta := kv_put (dedup_key e r q) (Text ''1'') (cf_meta s)\<rparr>"
  let ?s2 = "?s1\<lparr>cf_meta := kv_put (count_key e r) (Le64 (state_le64 E s (count_key e r) + 1)) (cf_meta ?s1)\<rparr>"
  have "state_le64 E ?s1 (count_key e r) = state_le64 E s (count_key e r)"
    by (simp add: state_le64_def state_get_def)
  then have "snd (apply_LinkGitServeHeartbeat E r q e s) =
      snd (push_new E (''linkgit:served_repos:'' @ show_u64 e) r ?s2)"
    using None by (simp add: apply_LinkGitServeHeartbeat_def state_set_def act_simps)
  then show ?thesis
    using push_new_other [OF assms] None by (simp add: state_get_def)
qed

lemma heartbeat_count:
  "state_le64 E (snd (apply_LinkGitServeHeartbeat E r q e s)) (count_key e' r') =
    (if state_get s (dedup_key e r q) = None \<and> e' = e \<and> r' = r
     then state_le64 E s (count_key e r) + 1 else state_le64 E s (count_key e' r'))"
proof -
  have "count_key e' r' \<noteq> ''linkgit:served_repos:'' @ show_u64 e"
    by (simp add: count_key_def)
  from heartbeat_get [OF this, of E r q s] show ?thesis
    by (auto simp: state_le64_def)
qed

lemma heartbeat_mark:
  assumes "CHR '':'' \<notin> set r" "CHR '':'' \<notin> set r'"
  shows "state_get (snd (apply_LinkGitServeHeartbeat E r q e s)) (dedup_key e' r' q') \<noteq> None \<longleftrightarrow>
    state_get s (dedup_key e' r' q') \<noteq> None \<or> (e' = e \<and> r' = r \<and> q' = q)"
proof -
  have "dedup_key e' r' q' \<noteq> ''linkgit:served_repos:'' @ show_u64 e"
    by (simp add: dedup_key_def)
  from heartbeat_get [OF this, of E r q s] dedup_key_inject [OF assms(2, 1)] show ?thesis
    by auto
qed

lemma heartbeat_serve_ok:
  assumes ok: "serve_ok E hs s" and h: "CHR '':'' \<notin> set (hb_repo h)"
  shows "serve_ok E (hs @ [h])
    (snd (apply_LinkGitServeHeartbeat E (hb_repo h) (hb_requester h) (hb_epoch h) s))"
  unfolding serve_ok_def
proof (intro allI impI conjI)
  fix e r
  assume r: "CHR '':'' \<notin> set r"
  have cnt: "state_le64 E s (count_key e r) = word_of_nat (card (requesters e r hs))"
    using ok r by (simp add: serve_ok_def)
  have seen: "state_get s (dedup_key e r q) = None \<longleftrightarrow> q \<notin> requesters e r hs" for q
    using ok r unfolding serve_ok_def by blast
  show "state_le64 E (snd (apply_LinkGitServeHeartbeat E (hb_repo h) (hb_requester h) (hb_epoch h) s))
      (count_key e r) = word_of_nat (card (requesters e r (hs @ [h])))"
    using cnt seen [of "hb_requester h"]
    by (cases "hb_requester h \<in> requesters e r hs") (auto simp: heartbeat_count requesters_snoc insert_absorb)
  show "(state_get (snd (apply_LinkGitServeHeartbeat E (hb_repo h) (hb_requester h) (hb_epoch h) s))
      (dedup_key e r q) \<noteq> None) = (q \<in> requesters e r (hs @ [h]))" for q
    unfolding heartbeat_mark [OF h r] using seen by (auto simp: requesters_snoc)
qed

lemma run_serve_ok:
  "serve_ok E ps s \<Longrightarrow> \<forall>h \<in> set hs. CHR '':'' \<notin> set (hb_repo h) \<Longrightarrow>
    serve_ok E (ps @ hs) (run_heartbeats E hs s)"
proof (induction hs arbitrary: ps s)
  case Nil
  then show ?case by simp
next
  case (Cons h hs)
  from Cons.IH [OF heartbeat_serve_ok [OF Cons.prems(1)]] Cons.prems(2) show ?case by simp
qed

text \<open>
  From a state without serve records, the counter of a repository and epoch is the number of
  different requesters among the heartbeats applied, for every sequence of heartbeats of
  repositories whose id has no colon: repetitions and order make no difference.
\<close>

theorem serve_count_exact:
  assumes fresh: "\<forall>k. prefix ''linkgit:serve_'' k \<longrightarrow> state_get s k = None"
    and ids: "\<forall>h \<in> set hs. CHR '':'' \<notin> set (hb_repo h)" and r: "CHR '':'' \<notin> set r"
  shows "state_le64 E (run_heartbeats E hs s) (count_key e r) = word_of_nat (card (requesters e r hs))"
proof -
  have "serve_ok E [] s"
    using fresh by (simp add: serve_ok_def state_le64_def requesters_def count_key_def dedup_key_def)
  from run_serve_ok [OF this ids] r show ?thesis by (simp add: serve_ok_def)
qed

definition demo_heartbeats :: "heartbeat list" where
  "demo_heartbeats = map (\<lambda>q. \<lparr>hb_repo = ''r'', hb_requester = q, hb_epoch = 4\<rparr>) [''x'', ''y'', ''x'']"

theorem serve_count_exact_witness:
  "state_le64 demo_env (run_heartbeats demo_env demo_heartbeats empty_chain) (count_key 4 ''r'') = 2"
proof -
  have "requesters 4 ''r'' demo_heartbeats = {''x'', ''y''}"
    by (auto simp: requesters_def demo_heartbeats_def)
  then have "card (requesters 4 ''r'' demo_heartbeats) = 2" by simp
  with serve_count_exact [of empty_chain demo_heartbeats "''r''" demo_env 4] show ?thesis
    by (simp add: demo_heartbeats_def empty_chain_def state_get_def)
qed

end
