(* ===== verification/Merkle.thy ===== *)
theory Merkle
  imports Store
begin

text \<open>
  The Merkle tree over balances (\<open>src/store.rs\<close>): leaf and node hashes, the tree level by level,
  inclusion paths, and the balance proof with its check, which needs no access to the store.

  The tree is an authenticated list: the path of a position leads from its leaf to the root. From it
  follows that a proof that the store hands out is accepted. Conversely, a proof accepted against the
  root of the store states the balance the store has, unless the hashes computed on the way contain
  a collision; the byte lengths of a node's children and of a balance, and the two prefixes, are what
  makes the hashed strings unambiguous.
\<close>

section \<open>Hashes\<close>

definition leaf_input :: "string \<Rightarrow> string \<Rightarrow> string" where
  "leaf_input key val = ''leaf:'' @ key @ ''='' @ val"

definition node_input :: "string \<Rightarrow> string \<Rightarrow> string" where
  "node_input left right = ''node:'' @ left @ right"

definition merkle_leaf :: "env \<Rightarrow> string \<Rightarrow> string \<Rightarrow> string" where
  "merkle_leaf E key val = sha256 E (leaf_input key val)"

definition merkle_node :: "env \<Rightarrow> string \<Rightarrow> string \<Rightarrow> string" where
  "merkle_node E left right = sha256 E (node_input left right)"

section \<open>Tree and path\<close>

text \<open>One round of the loop: neighbours are paired, an odd last entry is paired with itself.\<close>

fun next_level :: "env \<Rightarrow> string list \<Rightarrow> string list" where
  "next_level E (a # b # xs) = merkle_node E a b # next_level E xs"
| "next_level E [a] = [merkle_node E a a]"
| "next_level E [] = []"

lemma length_next_level [simp]: "length (next_level E xs) = (length xs + 1) div 2"
  by (induction E xs rule: next_level.induct) simp_all

function build_levels :: "env \<Rightarrow> string list \<Rightarrow> string list list" where
  "build_levels E xs = (if 1 < length xs then xs # build_levels E (next_level E xs) else [xs])"
  by pat_completeness auto

termination
  by (relation "measure (\<lambda>(E, xs). length xs)") auto

declare build_levels.simps [simp del]

definition build_merkle_tree :: "env \<Rightarrow> string list \<Rightarrow> string list list" where
  "build_merkle_tree E leaves = (if leaves = [] then [] else build_levels E leaves)"

text \<open>Indexing panics out of range, which is the value \<open>None\<close>.\<close>

definition nth_opt :: "'a list \<Rightarrow> nat \<Rightarrow> 'a option" where
  "nth_opt xs i = (if i < length xs then Some (xs ! i) else None)"

definition sibling_idx :: "string list \<Rightarrow> nat \<Rightarrow> nat" where
  "sibling_idx level cur =
    (if cur mod 2 = 0 then (if cur + 1 < length level then cur + 1 else cur) else cur - 1)"

fun merkle_proof_path :: "string list list \<Rightarrow> nat \<Rightarrow> (string \<times> bool) list option" where
  "merkle_proof_path (level # l # ls) cur =
     Option.bind (nth_opt level (sibling_idx level cur)) (\<lambda>h.
     map_option ((#) (h, cur mod 2 = 0)) (merkle_proof_path (l # ls) (cur div 2)))"
| "merkle_proof_path _ cur = Some []"

section \<open>Balance proofs\<close>

record BalanceMerkleProof =
  account :: string
  token :: string
  balance :: u64
  leaf_hash :: string
  path :: "(string \<times> bool) list"
  proof_root :: string

text \<open>The walk of \<open>verify\<close>: a sibling that is not the hex of 32 bytes makes it fail.\<close>

fun walk_path :: "env \<Rightarrow> string \<Rightarrow> (string \<times> bool) list \<Rightarrow> string option" where
  "walk_path E current [] = Some current"
| "walk_path E current ((sib_hex, is_left) # p) =
     (case hex_decode E sib_hex of
        Some sib \<Rightarrow>
          if length sib = 32
          then walk_path E (if is_left then merkle_node E current sib else merkle_node E sib current) p
          else None
      | None \<Rightarrow> None)"

definition verify :: "env \<Rightarrow> BalanceMerkleProof \<Rightarrow> bool" where
  "verify E p =
    (let expected_leaf = merkle_leaf E (balance_key (account p) (token p)) (to_le (balance p)) in
     hex_encode E expected_leaf = leaf_hash p \<and>
     (case walk_path E expected_leaf (path p) of
        Some current \<Rightarrow> hex_encode E current = proof_root p
      | None \<Rightarrow> False))"

text \<open>The column family is ordered already; entries whose key is not UTF-8 are left out.\<close>

definition sorted_balance_entries :: "chain \<Rightarrow> (string \<times> string) list" where
  "sorted_balance_entries s =
     map (\<lambda>(k, v). (k, to_le v)) (filter (\<lambda>(k, v). utf8_valid k) (cf_balances s))"

definition entry_leaves :: "env \<Rightarrow> (string \<times> string) list \<Rightarrow> string list" where
  "entry_leaves E es = map (\<lambda>(k, v). merkle_leaf E k v) es"

definition balance_merkle_root :: "env \<Rightarrow> chain \<Rightarrow> string" where
  "balance_merkle_root E s =
    (let es = sorted_balance_entries s in
     if es = [] then replicate 64 (CHR ''0'')
     else hex_encode E (hd (last (build_merkle_tree E (entry_leaves E es)))))"

fun position :: "('a \<Rightarrow> bool) \<Rightarrow> 'a list \<Rightarrow> nat option" where
  "position P [] = None"
| "position P (x # xs) = (if P x then Some 0 else map_option Suc (position P xs))"

definition balance_merkle_proof :: "env \<Rightarrow> chain \<Rightarrow> string \<Rightarrow> string \<Rightarrow> BalanceMerkleProof option" where
  "balance_merkle_proof E s acc tok =
    (let target_key = balance_key acc tok; es = sorted_balance_entries s in
     if es = [] then None
     else Option.bind (position (\<lambda>e. fst e = target_key) es) (\<lambda>idx.
       let val_bytes = snd (es ! idx) in
       Option.bind (from_le val_bytes) (\<lambda>bal.
       let levels = build_merkle_tree E (entry_leaves E es) in
       map_option (\<lambda>raw_path.
         \<lparr>account = acc, token = tok, balance = bal,
          leaf_hash = hex_encode E (merkle_leaf E target_key val_bytes),
          path = map (\<lambda>(h, is_left). (hex_encode E h, is_left)) raw_path,
          proof_root = hex_encode E (hd (last levels))\<rparr>)
         (merkle_proof_path levels idx))))"

section \<open>Authenticated lists\<close>

text \<open>
  The contract between the tree and the balance proofs: every position has a path, and folding the
  path onto the entry at that position gives the root.
\<close>

locale authenticated_list =
  fixes root :: "'h list \<Rightarrow> 'h"
    and path_at :: "'h list \<Rightarrow> nat \<Rightarrow> ('h \<times> bool) list option"
    and combine :: "'h \<Rightarrow> 'h \<times> bool \<Rightarrow> 'h"
  assumes path_leads: "i < length xs \<Longrightarrow> \<exists>p. path_at xs i = Some p \<and> foldl combine (xs ! i) p = root xs"
begin

lemma path_exists: "i < length xs \<Longrightarrow> path_at xs i \<noteq> None"
  using path_leads by fastforce

lemma path_root: "i < length xs \<Longrightarrow> path_at xs i = Some p \<Longrightarrow> foldl combine (xs ! i) p = root xs"
  using path_leads by fastforce

text \<open>Equal roots and equal paths: a path is bound to what it starts from where combining is.\<close>

lemma same_path_same_root:
  "i < length xs \<Longrightarrow> j < length ys \<Longrightarrow> path_at xs i = path_at ys j \<Longrightarrow> xs ! i = ys ! j \<Longrightarrow> root xs = root ys"
  by (metis path_leads option.inject)

end

definition combine_node :: "env \<Rightarrow> string \<Rightarrow> string \<times> bool \<Rightarrow> string" where
  "combine_node E cur e = (if snd e then merkle_node E cur (fst e) else merkle_node E (fst e) cur)"

definition tree_root :: "env \<Rightarrow> string list \<Rightarrow> string" where
  "tree_root E xs = hd (last (build_merkle_tree E xs))"

lemma build_levels_neq [simp]: "build_levels E xs \<noteq> []"
  by (subst build_levels.simps) simp

lemma nth_next_level:
  "i < length xs \<Longrightarrow>
    next_level E xs ! (i div 2) = combine_node E (xs ! i) (xs ! sibling_idx xs i, i mod 2 = 0)"
proof (induction E xs arbitrary: i rule: next_level.induct)
  case (1 E a b xs)
  show ?case
  proof (cases "i < 2")
    case True
    then have "i = 0 \<or> i = 1" by auto
    then show ?thesis by (auto simp: combine_node_def sibling_idx_def)
  next
    case False
    then obtain j where j: "i = Suc (Suc j)" by (metis add_2_eq_Suc le_Suc_ex not_less)
    with 1 have "next_level E xs ! (j div 2) = combine_node E (xs ! j) (xs ! sibling_idx xs j, j mod 2 = 0)"
      by simp
    moreover have "sibling_idx (a # b # xs) i = Suc (Suc (sibling_idx xs j))"
      using j by (cases j) (auto simp: sibling_idx_def)
    ultimately show ?thesis using j by simp
  qed
qed (simp_all add: combine_node_def sibling_idx_def)

lemma sibling_in_range: "i < length xs \<Longrightarrow> sibling_idx xs i < length xs"
  by (auto simp: sibling_idx_def)

lemma path_to_root:
  "i < length xs \<Longrightarrow> \<exists>p. merkle_proof_path (build_levels E xs) i = Some p \<and>
    foldl (combine_node E) (xs ! i) p = hd (last (build_levels E xs))"
proof (induction E xs arbitrary: i rule: build_levels.induct)
  case (1 E xs)
  show ?case
  proof (cases "1 < length xs")
    case False
    with 1(2) have "i = 0" "\<exists>x. xs = [x]" by (auto simp: length_Suc_conv le_Suc_eq not_less)
    then show ?thesis by (auto simp: build_levels.simps [of E xs])
  next
    case True
    let ?ys = "next_level E xs"
    obtain l ls where ls: "build_levels E ?ys = l # ls"
      by (cases "build_levels E ?ys") simp_all
    have "i div 2 < length ?ys" using 1(2) by auto
    from 1(1) [OF True this] obtain p where
      p: "merkle_proof_path (l # ls) (i div 2) = Some p"
        "foldl (combine_node E) (?ys ! (i div 2)) p = hd (last (l # ls))"
      unfolding ls by blast
    with True 1(2) show ?thesis
      by (simp add: build_levels.simps [of E xs] ls nth_opt_def sibling_in_range nth_next_level)
  qed
qed

interpretation bal_tree: authenticated_list "tree_root E" "\<lambda>xs. merkle_proof_path (build_merkle_tree E xs)"
  "combine_node E" for E
proof
  fix i and xs :: "string list"
  assume "i < length xs"
  then show "\<exists>p. merkle_proof_path (build_merkle_tree E xs) i = Some p \<and>
      foldl (combine_node E) (xs ! i) p = tree_root E xs"
    using path_to_root [of i xs E] by (auto simp: build_merkle_tree_def tree_root_def)
qed


section \<open>Proofs handed out are accepted\<close>

text \<open>What is assumed of SHA-256: a digest has 32 bytes.\<close>

definition digest32 :: "env \<Rightarrow> bool" where
  "digest32 E \<longleftrightarrow> (\<forall>b. length (sha256 E b) = 32)"

lemma length_merkle:
  "digest32 E \<Longrightarrow> length (merkle_leaf E k v) = 32" "digest32 E \<Longrightarrow> length (merkle_node E a b) = 32"
  by (simp_all add: digest32_def merkle_leaf_def merkle_node_def)

text \<open>The strings that are hashed to make one level from the one below it.\<close>

fun level_inputs :: "string list \<Rightarrow> string list" where
  "level_inputs (a # b # xs) = node_input a b # level_inputs xs"
| "level_inputs [a] = [node_input a a]"
| "level_inputs [] = []"

lemma next_level_inputs: "next_level E xs = map (sha256 E) (level_inputs xs)"
  by (induction xs rule: level_inputs.induct) (simp_all add: merkle_node_def)

lemma level_inputs_nodes:
  "i \<in> set (level_inputs xs) \<Longrightarrow> \<exists>a b. a \<in> set xs \<and> b \<in> set xs \<and> i = node_input a b"
  by (induction xs rule: level_inputs.induct) auto

lemma levels_0 [simp]: "build_levels E xs ! 0 = xs"
  by (subst build_levels.simps) simp

lemma levels_Suc:
  "Suc j < length (build_levels E xs) \<Longrightarrow>
    build_levels E xs ! Suc j = next_level E (build_levels E xs ! j)"
proof (induction E xs arbitrary: j rule: build_levels.induct)
  case (1 E xs)
  show ?case
  proof (cases "1 < length xs")
    case False
    with 1(2) show ?thesis by (simp add: build_levels.simps [of E xs])
  next
    case True
    with 1 show ?thesis by (cases j) (simp_all add: build_levels.simps [of E xs])
  qed
qed

lemma level_hashes:
  assumes "digest32 E" "\<forall>x \<in> set xs. length x = 32" "j < length (build_levels E xs)"
    and "x \<in> set (build_levels E xs ! j)"
  shows "length x = 32"
  using assms by (cases j) (auto simp: levels_Suc next_level_inputs digest32_def)

lemma path_hashes:
  "merkle_proof_path levels i = Some p \<Longrightarrow> e \<in> set p \<Longrightarrow> \<exists>level \<in> set levels. fst e \<in> set level"
proof (induction levels i arbitrary: p rule: merkle_proof_path.induct)
  case (1 level l ls cur)
  then show ?case
    by (auto simp: bind_eq_Some_conv nth_opt_def split: if_splits)
qed simp_all

lemma walk_encoded:
  assumes hex: "codec (hex_encode E) (hex_decode E)"
  shows "\<forall>e \<in> set p. length (fst e) = 32 \<Longrightarrow>
    walk_path E cur (map (\<lambda>(h, l). (hex_encode E h, l)) p) = Some (foldl (combine_node E) cur p)"
  by (induction p arbitrary: cur) (auto simp: combine_node_def codec.decode_encode [OF hex])

lemma position_Some: "position P xs = Some i \<Longrightarrow> i < length xs \<and> P (xs ! i)"
proof (induction xs arbitrary: i)
  case Nil
  then show ?case by simp
next
  case (Cons x xs)
  then show ?case by (cases i) (auto split: if_splits)
qed

lemma position_None: "position P xs = None \<longleftrightarrow> (\<forall>x \<in> set xs. \<not> P x)"
  by (induction xs) auto

lemma entries_get:
  assumes "wf_chain s"
  shows "(k, v) \<in> set (sorted_balance_entries s) \<longleftrightarrow>
    (\<exists>n. v = to_le n \<and> kv_get (cf_balances s) k = Some n \<and> utf8_valid k)"
  using assms kv_get_in_set [of "cf_balances s" k]
  by (auto simp: sorted_balance_entries_def wf_chain_def)

text \<open>
  (C20) A recorded balance under a UTF-8 key has a proof: the store hands out one that states the
  recorded balance, carries the root of the store, and is accepted by the check.
\<close>

theorem balance_proof_complete:
  assumes hex: "codec (hex_encode E) (hex_decode E)" and sha: "digest32 E" and wf: "wf_chain s"
    and rec: "kv_get (cf_balances s) (balance_key acc tok) = Some n" "utf8_valid (balance_key acc tok)"
  shows "\<exists>p. balance_merkle_proof E s acc tok = Some p \<and> balance p = n \<and>
    proof_root p = balance_merkle_root E s \<and> verify E p"
proof -
  let ?es = "sorted_balance_entries s" and ?k = "balance_key acc tok"
  let ?xs = "entry_leaves E ?es"
  have mem: "(?k, to_le n) \<in> set ?es"
    using rec by (simp add: entries_get [OF wf])
  then have "?es \<noteq> []" by auto
  have "position (\<lambda>e. fst e = ?k) ?es \<noteq> None"
    unfolding position_None using bspec [OF _ mem, of "\<lambda>e. fst e \<noteq> ?k"] by auto
  then obtain i where pos: "position (\<lambda>e. fst e = ?k) ?es = Some i" by blast
  then have i: "i < length ?es" "fst (?es ! i) = ?k"
    using position_Some by fastforce+
  then have "(?k, snd (?es ! i)) \<in> set ?es"
    by (metis nth_mem prod.collapse)
  then have val: "snd (?es ! i) = to_le n"
    using rec by (auto simp: entries_get [OF wf])
  have leaf: "?xs ! i = merkle_leaf E ?k (to_le n)"
    using i val by (simp add: entry_leaves_def case_prod_beta)
  have il: "i < length ?xs"
    using i by (simp add: entry_leaves_def)
  then obtain q where q: "merkle_proof_path (build_merkle_tree E ?xs) i = Some q"
      "foldl (combine_node E) (?xs ! i) q = tree_root E ?xs"
    using bal_tree.path_leads [of i ?xs E] by blast
  have "length (fst e) = 32" if e: "e \<in> set q" for e
  proof -
    have "\<forall>x \<in> set ?xs. length x = 32"
      using length_merkle [OF sha] by (auto simp: entry_leaves_def)
    moreover obtain level where "level \<in> set (build_levels E ?xs)" "fst e \<in> set level"
      using path_hashes [OF q(1) e] il by (auto simp: build_merkle_tree_def split: if_splits)
    ultimately show ?thesis
      using level_hashes [OF sha] by (metis in_set_conv_nth)
  qed
  then have "walk_path E (merkle_leaf E ?k (to_le n)) (map (\<lambda>(h, l). (hex_encode E h, l)) q) =
      Some (tree_root E ?xs)"
    using walk_encoded [OF hex] q(2) leaf by auto
  with pos q(1) val \<open>?es \<noteq> []\<close> show ?thesis
    by (simp add: balance_merkle_proof_def verify_def balance_merkle_root_def tree_root_def Let_def)
qed

section \<open>Proofs accepted are true\<close>

fun walk_inputs :: "env \<Rightarrow> string \<Rightarrow> (string \<times> bool) list \<Rightarrow> string list" where
  "walk_inputs E cur [] = []"
| "walk_inputs E cur (e # p) =
     (if snd e then node_input cur (fst e) else node_input (fst e) cur) # walk_inputs E (combine_node E cur e) p"

lemma walk_inputs_snoc:
  "walk_inputs E cur (p @ [e]) = walk_inputs E cur p @
    [if snd e then node_input (foldl (combine_node E) cur p) (fst e)
     else node_input (fst e) (foldl (combine_node E) cur p)]"
  by (induction p arbitrary: cur) simp_all

lemma combine_input:
  "combine_node E cur e = sha256 E (if snd e then node_input cur (fst e) else node_input (fst e) cur)"
  by (simp add: combine_node_def merkle_node_def)

lemma leaf_node_differ [simp]: "leaf_input k v \<noteq> node_input a b" "node_input a b \<noteq> leaf_input k v"
  by (simp_all add: leaf_input_def node_input_def)

lemma node_input_inject:
  "length a = 32 \<Longrightarrow> length c = 32 \<Longrightarrow> node_input a b = node_input c d \<longleftrightarrow> a = c \<and> b = d"
  by (simp add: node_input_def)

lemma length_to_le [simp]: "length (to_le n) = 8"
  by (simp add: to_le_def)

lemma leaf_input_inject: "leaf_input k (to_le m) = leaf_input l (to_le n) \<longleftrightarrow> k = l \<and> m = n"
  by (simp add: leaf_input_def)

text \<open>Every string hashed to build the tree over the entries, and to check a proof.\<close>

definition tree_inputs :: "env \<Rightarrow> (string \<times> string) list \<Rightarrow> string set" where
  "tree_inputs E es = set (map (\<lambda>(k, v). leaf_input k v) es) \<union>
     (\<Union>level \<in> set (butlast (build_levels E (entry_leaves E es))). set (level_inputs level))"

definition raw_path :: "env \<Rightarrow> BalanceMerkleProof \<Rightarrow> (string \<times> bool) list" where
  "raw_path E p = map (\<lambda>(h, l). (the (hex_decode E h), l)) (path p)"

definition proof_inputs :: "env \<Rightarrow> BalanceMerkleProof \<Rightarrow> string set" where
  "proof_inputs E p =
    (let i = leaf_input (balance_key (account p) (token p)) (to_le (balance p))
     in insert i (set (walk_inputs E (sha256 E i) (raw_path E p))))"


lemma walk_decoded:
  "walk_path E cur p = Some h \<Longrightarrow>
    (let q = map (\<lambda>(h, l). (the (hex_decode E h), l)) p
     in h = foldl (combine_node E) cur q \<and> (\<forall>e \<in> set q. length (fst e) = 32))"
proof (induction E cur p rule: walk_path.induct)
  case (1 E cur)
  then show ?case by simp
next
  case (2 E cur sib_hex is_left p)
  then show ?case
    by (auto simp: Let_def combine_node_def split: option.splits if_splits)
qed

text \<open>A walk that ends in the tree starts at one of its leaves.\<close>

lemma walk_starts_at_leaf:
  assumes inj: "inj_on (sha256 E) S" and sha: "digest32 E"
    and leaves: "\<forall>x \<in> set xs. \<exists>k v. x = sha256 E (leaf_input k v) \<and> leaf_input k v \<in> S"
    and levels: "(\<Union>level \<in> set (butlast (build_levels E xs)). set (level_inputs level)) \<subseteq> S"
    and cur: "cur = sha256 E (leaf_input k0 v0)" "leaf_input k0 v0 \<in> S"
  shows "set (walk_inputs E cur q) \<subseteq> S \<Longrightarrow> \<forall>e \<in> set q. length (fst e) = 32 \<Longrightarrow>
    j < length (build_levels E xs) \<Longrightarrow> foldl (combine_node E) cur q \<in> set (build_levels E xs ! j) \<Longrightarrow>
    cur \<in> set xs"
proof (induction q arbitrary: j rule: rev_induct)
  have node: "\<exists>a b. a \<in> set (build_levels E xs ! i) \<and> b \<in> set (build_levels E xs ! i) \<and>
      h = sha256 E (node_input a b) \<and> node_input a b \<in> S"
    if "Suc i < length (build_levels E xs)" "h \<in> set (build_levels E xs ! Suc i)" for i h
  proof -
    from that obtain x where x: "x \<in> set (level_inputs (build_levels E xs ! i))" "h = sha256 E x"
      by (auto simp: levels_Suc next_level_inputs)
    moreover have "build_levels E xs ! i \<in> set (butlast (build_levels E xs))"
      using that(1) nth_mem [of i "butlast (build_levels E xs)"] by (simp add: nth_butlast)
    ultimately show ?thesis
      using levels level_inputs_nodes [OF x(1)] by blast
  qed
  {
    case Nil
    show ?case
    proof (cases j)
      case 0
      with Nil show ?thesis by simp
    next
      case (Suc i)
      with Nil node [of i cur] obtain a b where "cur = sha256 E (node_input a b)" "node_input a b \<in> S"
        by auto
      with cur inj show ?thesis by (auto dest: inj_onD)
    qed
  next
    case (snoc e q)
    let ?h = "foldl (combine_node E) cur q"
    let ?i = "if snd e then node_input ?h (fst e) else node_input (fst e) ?h"
    have top: "foldl (combine_node E) cur (q @ [e]) = sha256 E ?i" and S: "?i \<in> S"
      using snoc.prems(1) by (simp_all add: combine_input walk_inputs_snoc split: if_splits)
    have len: "length ?h = 32" "length (fst e) = 32"
      using snoc.prems(2) sha cur(1)
      by (cases q rule: rev_cases; simp add: combine_input digest32_def)+
    show ?case
    proof (cases j)
      case 0
      with snoc.prems(4) top leaves obtain k v where kv: "sha256 E ?i = sha256 E (leaf_input k v)" "leaf_input k v \<in> S"
        by auto
      have "?i = leaf_input k v" by (rule inj_onD [OF inj kv(1) S kv(2)])
      then show ?thesis by (simp split: if_splits)
    next
      case (Suc i)
      with snoc.prems(3, 4) top node [of i "sha256 E ?i"] obtain a b where
        ab: "a \<in> set (build_levels E xs ! i)" "b \<in> set (build_levels E xs ! i)"
          "sha256 E ?i = sha256 E (node_input a b)" "node_input a b \<in> S"
        by auto
      have xs32: "\<forall>x \<in> set xs. length x = 32"
        using leaves sha by (auto simp: digest32_def)
      have "i < length (build_levels E xs)"
        using Suc snoc.prems(3) by simp
      then have "length a = 32"
        using level_hashes [OF sha xs32] ab(1) by blast
      moreover have "?i = node_input a b" by (rule inj_onD [OF inj ab(3) S ab(4)])
      ultimately have "?h = a \<or> ?h = b"
        using len by (auto simp: node_input_inject split: if_splits)
      with ab \<open>i < length (build_levels E xs)\<close> snoc.prems snoc.IH [of i] show ?thesis
        by (auto simp: walk_inputs_snoc)
    qed
  }
qed

lemma root_in_last: "xs \<noteq> [] \<Longrightarrow> hd (last (build_levels E xs)) \<in> set (last (build_levels E xs))"
proof -
  have "xs \<noteq> [] \<Longrightarrow> last (build_levels E xs) \<noteq> []"
  proof (induction E xs rule: build_levels.induct)
    case (1 E xs)
    show ?case
    proof (cases "1 < length xs")
      case True
      then have "next_level E xs \<noteq> []"
        by (cases xs rule: level_inputs.cases) simp_all
      with 1(1) True show ?thesis by (simp add: build_levels.simps [of E xs])
    next
      case False
      with 1(2) show ?thesis by (simp add: build_levels.simps [of E xs])
    qed
  qed
  then show "xs \<noteq> [] \<Longrightarrow> hd (last (build_levels E xs)) \<in> set (last (build_levels E xs))" by simp
qed

text \<open>
  (C7) A proof accepted against the root of the store states the balance that the store records,
  unless two different strings among those hashed for the tree and for the check have the same
  digest. It holds for every proof value, of any path length, not only for those the store made.
\<close>

theorem balance_proof_sound:
  assumes hex: "codec (hex_encode E) (hex_decode E)" and sha: "digest32 E" and wf: "wf_chain s"
    and inj: "inj_on (sha256 E) (tree_inputs E (sorted_balance_entries s) \<union> proof_inputs E p)"
    and ne: "sorted_balance_entries s \<noteq> []"
    and ok: "verify E p" "proof_root p = balance_merkle_root E s"
  shows "kv_get (cf_balances s) (balance_key (account p) (token p)) = Some (balance p)"
proof -
  let ?es = "sorted_balance_entries s" and ?i = "leaf_input (balance_key (account p) (token p)) (to_le (balance p))"
  let ?S = "tree_inputs E ?es \<union> proof_inputs E p" and ?xs = "entry_leaves E (sorted_balance_entries s)"
  have xs: "?xs \<noteq> []" using ne by (simp add: entry_leaves_def)
  from ok(1) obtain h where h: "walk_path E (sha256 E ?i) (path p) = Some h" "hex_encode E h = proof_root p"
    by (auto simp: verify_def merkle_leaf_def Let_def split: option.splits)
  have "h = hd (last (build_levels E ?xs))"
    using h(2) ok(2) ne xs codec.encode_inject [OF hex]
    by (simp add: balance_merkle_root_def build_merkle_tree_def Let_def)
  then have top: "h \<in> set (build_levels E ?xs ! (length (build_levels E ?xs) - 1))"
    using root_in_last [OF xs, of E] by (simp add: last_conv_nth)
  have q: "h = foldl (combine_node E) (sha256 E ?i) (raw_path E p)" "\<forall>e \<in> set (raw_path E p). length (fst e) = 32"
    using walk_decoded [OF h(1)] by (simp_all add: raw_path_def Let_def)
  have "sha256 E ?i \<in> set ?xs"
  proof (rule walk_starts_at_leaf [OF inj sha _ _ refl _ _ q(2)])
    show "\<forall>x \<in> set ?xs. \<exists>k v. x = sha256 E (leaf_input k v) \<and> leaf_input k v \<in> ?S"
      by (auto simp: entry_leaves_def merkle_leaf_def tree_inputs_def)
    show "(\<Union>level \<in> set (butlast (build_levels E ?xs)). set (level_inputs level)) \<subseteq> ?S"
      by (auto simp: tree_inputs_def)
    show "?i \<in> ?S" "set (walk_inputs E (sha256 E ?i) (raw_path E p)) \<subseteq> ?S"
      by (auto simp: proof_inputs_def Let_def)
    show "length (build_levels E ?xs) - 1 < length (build_levels E ?xs)" by simp
    show "foldl (combine_node E) (sha256 E ?i) (raw_path E p) \<in>
        set (build_levels E ?xs ! (length (build_levels E ?xs) - 1))"
      using top q(1) by simp
  qed
  then obtain k v where kv: "(k, v) \<in> set ?es" "sha256 E ?i = sha256 E (leaf_input k v)"
    by (auto simp: entry_leaves_def merkle_leaf_def)
  then have "leaf_input k v \<in> ?S" "?i \<in> ?S"
    by (auto simp: tree_inputs_def proof_inputs_def Let_def)
  with inj kv(2) have eq: "?i = leaf_input k v" by (auto dest: inj_onD)
  from kv(1) obtain n where n: "v = to_le n" "kv_get (cf_balances s) k = Some n"
    by (auto simp: entries_get [OF wf])
  with eq show ?thesis by (auto simp: leaf_input_inject)
qed


section \<open>Two balances\<close>

text \<open>A digest that keeps the first 32 bytes has no collision among the strings hashed here.\<close>

definition merkle_env :: env where
  "merkle_env = demo_env\<lparr>sha256 := (\<lambda>b. take 32 (b @ replicate 32 (CHR 0x00)))\<rparr>"

definition demo_balances :: chain where
  "demo_balances = empty_chain\<lparr>cf_balances := [(balance_key ''a'' ''T'', 5), (balance_key ''b'' ''T'', 7)]\<rparr>"

definition demo_proof :: BalanceMerkleProof where
  "demo_proof = \<lparr>account = ''a'', token = ''T'', balance = 5,
     leaf_hash = merkle_leaf merkle_env (balance_key ''a'' ''T'') (to_le 5),
     path = [(merkle_leaf merkle_env (balance_key ''b'' ''T'') (to_le 7), True)],
     proof_root = balance_merkle_root merkle_env demo_balances\<rparr>"

lemma merkle_env_laws:
  "codec (hex_encode merkle_env) (hex_decode merkle_env)" "digest32 merkle_env" "wf_chain demo_balances"
  by (simp_all add: merkle_env_def demo_env_def codec_def digest32_def demo_balances_def wf_chain_def
      empty_chain_def kv_sorted_def balance_key_def min_def)

lemma demo_entries:
  "sorted_balance_entries demo_balances =
    [(balance_key ''a'' ''T'', to_le 5), (balance_key ''b'' ''T'', to_le 7)]"
  by (simp add: sorted_balance_entries_def demo_balances_def balance_key_def)

theorem balance_proof_complete_witness:
  "\<exists>p. balance_merkle_proof merkle_env demo_balances ''a'' ''T'' = Some p \<and> balance p = 5 \<and>
    proof_root p = balance_merkle_root merkle_env demo_balances \<and> verify merkle_env p"
  by (rule balance_proof_complete [OF merkle_env_laws])
    (simp_all add: demo_balances_def balance_key_def)

lemma demo_hashes_differ:
  "inj_on (sha256 merkle_env) (tree_inputs merkle_env (sorted_balance_entries demo_balances) \<union>
    proof_inputs merkle_env demo_proof)"
  by (simp add: demo_entries tree_inputs_def proof_inputs_def demo_proof_def raw_path_def entry_leaves_def
      build_levels.simps merkle_leaf_def merkle_env_def demo_env_def inj_on_def leaf_input_def node_input_def
      balance_key_def Let_def)

theorem balance_proof_sound_witness:
  "kv_get (cf_balances demo_balances) (balance_key (account demo_proof) (token demo_proof)) =
    Some (balance demo_proof)"
proof (rule balance_proof_sound [OF merkle_env_laws demo_hashes_differ])
  show "verify merkle_env demo_proof"
    using length_merkle [OF merkle_env_laws(2)]
    by (simp add: verify_def demo_proof_def Let_def balance_merkle_root_def demo_entries
        build_merkle_tree_def build_levels.simps entry_leaves_def merkle_env_def demo_env_def)
qed (simp_all add: demo_entries demo_proof_def)

section \<open>The height of the tree\<close>

lemma build_levels_depth:
  assumes "xs \<noteq> []"
  shows "(\<exists>top. last (build_levels E xs) = [top]) \<and> length xs \<le> 2 ^ (length (build_levels E xs) - 1) \<and>
    (1 < length xs \<longrightarrow> 1 < length (build_levels E xs) \<and> 2 ^ (length (build_levels E xs) - 2) < length xs)"
  using assms
proof (induction E xs rule: build_levels.induct)
  case (1 E xs)
  show ?case
  proof (cases "1 < length xs")
    case True
    let ?ys = "next_level E xs" and ?L = "build_levels E (next_level E xs)"
    have "length ?ys > 0" using True by simp
    then have ne: "?ys \<noteq> []" by (rule length_greater_0_conv [THEN iffD1])
    note IH = 1(1) [OF True ne]
    have L: "build_levels E xs = xs # ?L" using True by (simp add: build_levels.simps [of E xs])
    obtain k where k: "length ?L = Suc k" by (cases "length ?L") simp_all
    have "Suc (length xs) div 2 \<le> 2 ^ k"
      using IH k by simp
    then have "length xs \<le> 2 * 2 ^ k" by linarith
    moreover have "2 ^ k < length xs"
    proof (cases "1 < length ?ys")
      case False
      with ne have "length ?ys = 1" by (cases ?ys) simp_all
      moreover have "k = 0" using k False by (simp add: build_levels.simps [of E ?ys] split: if_splits)
      ultimately show ?thesis using True by simp
    next
      case t: True
      then obtain j where "k = Suc j" using IH k by (cases k) simp_all
      with IH t k have "2 ^ j < (length xs + 1) div 2" by simp
      then have "2 * 2 ^ j < length xs" by linarith
      with \<open>k = Suc j\<close> show ?thesis by simp
    qed
    ultimately show ?thesis using IH k by (simp add: L)
  next
    case False
    with 1(2) obtain a where "xs = [a]" by (cases xs) (auto simp: length_Suc_conv)
    then show ?thesis by (simp add: build_levels.simps)
  qed
qed

text \<open>
  (C21) Building the tree ends, after as many rounds as the logarithm of the number of leaves says. For \<open>n > 1\<close>
  leaves the loop pushes \<open>k\<close> levels on top of the leaves with \<open>2 ^ (k - 1) < n \<le> 2 ^ k\<close>, and the
  last one is the root alone.
\<close>

theorem merkle_tree_depth:
  assumes "1 < length leaves"
  shows "\<exists>top k. last (build_merkle_tree E leaves) = [top] \<and> length (build_merkle_tree E leaves) = Suc (Suc k) \<and>
    2 ^ k < length leaves \<and> length leaves \<le> 2 ^ Suc k"
proof -
  have ne: "leaves \<noteq> []" using assms by auto
  let ?n = "length (build_levels E leaves)"
  from build_levels_depth [OF ne, of E] assms obtain top where d: "last (build_levels E leaves) = [top]"
    "length leaves \<le> 2 ^ (?n - 1)" "1 < ?n" "2 ^ (?n - 2) < length leaves" by auto
  then have "?n = Suc (Suc (?n - 2))" "?n - 1 = Suc (?n - 2)" by simp_all
  with d ne show ?thesis
    unfolding build_merkle_tree_def by (intro exI [of _ top] exI [of _ "?n - 2"]) simp
qed

theorem merkle_tree_depth_witness:
  "length (build_merkle_tree demo_env [''a'', ''b'', ''c'', ''d'', ''e'']) = 4"
proof -
  let ?l = "[''a'', ''b'', ''c'', ''d'', ''e'']"
  obtain k where k: "length (build_merkle_tree demo_env ?l) = Suc (Suc k)" "2 ^ k < (5 :: nat)" "(5 :: nat) \<le> 2 ^ Suc k"
    using merkle_tree_depth [of ?l demo_env] by auto
  have "\<not> 3 \<le> k" using power_increasing [of 3 k "2 :: nat"] k(2) by auto
  moreover have "\<not> k \<le> 1" using power_increasing [of k 1 "2 :: nat"] k(3) by auto
  ultimately show ?thesis using k(1) by simp
qed

end
