(* ===== verification/Records.thy ===== *)
theory Records
  imports Runtime
begin

text \<open>
  Typed records in the state store. Several components of the node keep their objects as Rust
  structs that derive \<open>Serialize\<close> and \<open>Deserialize\<close> and store them under a key with
  \<open>serde_json::to_vec\<close>. A struct is represented by the object of its fields; reading one back follows
  the derived deserialiser: every field must be there with its type, an optional field may be \<open>null\<close>
  or missing, unknown fields are ignored. The contract \<open>record_codec\<close> is what the components rely on:
  a record that was saved under a key is the record that is loaded from it.
\<close>

section \<open>Fields\<close>

definition field_u64 :: "json \<Rightarrow> string \<Rightarrow> u64 option" where
  "field_u64 j k = Option.bind (jfield j k) as_u64"

definition field_str :: "json \<Rightarrow> string \<Rightarrow> string option" where
  "field_str j k = Option.bind (jfield j k) as_str"

definition field_bool :: "json \<Rightarrow> string \<Rightarrow> bool option" where
  "field_bool j k = Option.bind (jfield j k) as_bool"

definition field_opt :: "(json \<Rightarrow> 'a option) \<Rightarrow> json \<Rightarrow> string \<Rightarrow> 'a option option" where
  "field_opt rd j k =
     (case jfield j k of None \<Rightarrow> Some None | Some JNull \<Rightarrow> Some None
      | Some v \<Rightarrow> map_option Some (rd v))"

definition as_vec :: "(json \<Rightarrow> 'a option) \<Rightarrow> json \<Rightarrow> 'a list option" where
  "as_vec rd j = Option.bind (as_array j) (\<lambda>js. those (map rd js))"

definition field_vec :: "(json \<Rightarrow> 'a option) \<Rightarrow> json \<Rightarrow> string \<Rightarrow> 'a list option" where
  "field_vec rd j k = Option.bind (jfield j k) (as_vec rd)"

definition vec_json :: "('a \<Rightarrow> json) \<Rightarrow> 'a list \<Rightarrow> json" where
  "vec_json wr xs = JArr (map wr xs)"

lemmas field_defs = field_u64_def field_str_def field_bool_def field_opt_def field_vec_def

lemma field_opt_jopt [simp]: "jfield j k = Some (jopt_str x) \<Longrightarrow> field_opt as_str j k = Some x"
  by (cases x) (simp_all add: field_opt_def jopt_str_def)

lemma field_opt_u64 [simp]: "jfield j k = Some (jopt_u64 x) \<Longrightarrow> field_opt as_u64 j k = Some x"
  by (cases x) (simp_all add: field_opt_def jopt_u64_def)

lemma those_map_Some: "(\<And>x. x \<in> set xs \<Longrightarrow> f x = Some (g x)) \<Longrightarrow> those (map f xs) = Some (map g xs)"
  by (induction xs) auto

text \<open>\<open>str::is_char_boundary\<close>: a slice of a string that ends elsewhere panics.\<close>

definition char_boundary :: "string \<Rightarrow> nat \<Rightarrow> bool" where
  "char_boundary t i \<longleftrightarrow> i = 0 \<or> i = length t \<or> i < length t \<and> \<not> utf8_cont (t ! i)"

section \<open>Loading and saving\<close>

text \<open>The two reads: \<open>state_get(k).and_then(|b| from_slice(&b).ok())\<close>, and the failing form.\<close>

definition peek :: "env \<Rightarrow> (json \<Rightarrow> 'r option) \<Rightarrow> chain \<Rightarrow> string \<Rightarrow> 'r option" where
  "peek E rd s key = Option.bind (state_json E s key) rd"

definition load_record :: "env \<Rightarrow> (json \<Rightarrow> 'r option) \<Rightarrow> string \<Rightarrow> string \<Rightarrow> 'r chain_act" where
  "load_record E rd key not_found =
     andThen (reads (\<lambda>s. state_get s key)) (\<lambda>raw.
     andThen (need raw (Err not_found)) (\<lambda>v.
     need (Option.bind (as_json E v) rd) (Err ''invalid record'')))"

definition save_record :: "('r \<Rightarrow> json) \<Rightarrow> string \<Rightarrow> 'r \<Rightarrow> unit chain_act" where
  "save_record wr key r = state_set key (Json (wr r))"

lemma peek_state_get:
  "peek E rd s key = Option.bind (state_get s key) (\<lambda>v. Option.bind (as_json E v) rd)"
  by (simp add: peek_def state_json_def split: Option.bind_split)

lemma load_record_apply:
  "load_record E rd key m s =
    (case peek E rd s key of
       Some r \<Rightarrow> (Inr r, s)
     | None \<Rightarrow> (Inl (if state_get s key = None then Err m else Err ''invalid record''), s))"
  by (auto simp: load_record_def peek_state_get act_simps split: option.split)

lemma load_record_Inr:
  "load_record E rd key m s = (Inr r, s') \<longleftrightarrow> peek E rd s key = Some r \<and> s' = s"
  by (auto simp: load_record_apply split: option.splits)

lemma keeps_load_record [keeps_intros]: "keeps f (load_record E rd key m)"
  unfolding load_record_def by (intro keeps_intros)

lemma preserves_load_record [preserves_intros]: "preserves P (load_record E rd key m)"
  unfolding load_record_def by (intro preserves_intros)

lemma keeps_save_record [keeps_intros]:
  "keeps cf_balances (save_record wr key r)" "keeps cf_stakes (save_record wr key r)"
  "keeps cf_accounts (save_record wr key r)"
  unfolding save_record_def by (intro keeps_intros)+

lemma preserves_wf_save [preserves_intros]: "preserves wf_chain (save_record wr key r)"
  unfolding save_record_def by (intro preserves_intros)

lemma save_record_apply: "save_record wr key r s = (Inr (), snd (state_set key (Json (wr r)) s))"
  by (simp add: save_record_def state_set_def act_simps)

lemma calm_save_record [calm_intros]: "calm (save_record wr key r)"
  by (simp add: calm_def save_record_apply)

lemma state_get_set:
  "state_set key v s = (x, s') \<Longrightarrow> state_get s' k = (if k = key then Some v else state_get s k)"
  by (auto simp: state_set_def state_get_def act_simps)

lemma state_get_delete:
  "state_delete key s = (x, s') \<Longrightarrow>
    state_get s' k = (if k = key then None else state_get s k)"
  by (auto simp: state_delete_def state_get_def act_simps)

lemma keeps_peek: "keeps cf_meta m \<Longrightarrow> keeps (\<lambda>s. peek E rd s k) m"
  by (simp add: keeps_def peek_state_get state_get_def)

lemma peek_kept: "keeps cf_meta m \<Longrightarrow> m s = (r, s') \<Longrightarrow> peek E rd s k = x \<Longrightarrow> peek E rd s' k = x"
  using keepsD [OF keeps_peek] by metis

lemma peek_cong: "state_get s' k = state_get s k \<Longrightarrow> peek E rd s' k = peek E rd s k"
  by (simp add: peek_state_get)

lemma peek_save_other: "save_record wr key r s = (x, s') \<Longrightarrow> k \<noteq> key \<Longrightarrow> peek E rd s' k = peek E rd s k"
  unfolding save_record_def by (rule peek_cong) (simp add: state_get_set)

text \<open>The balances of one token after a debit or a credit that returned.\<close>

lemma debit_balances:
  "debit a t n s = (Inr x, s') \<Longrightarrow>
    uint (get_balance s' y t) = uint (get_balance s y t) - (if y = a then uint n else 0)"
  by (auto simp: debit_cases get_balance_put split: if_splits)

lemma credit_balances:
  "credit a t n s = (Inr x, s') \<Longrightarrow>
    uint (get_balance s' y t) = uint (get_balance s y t) + (if y = a then uint n else 0)"
  by (auto simp: credit_cases get_balance_put uint_u64_add split: if_splits)

lemma balances_kept: "keeps cf_balances m \<Longrightarrow> m s = (r, s') \<Longrightarrow> get_balance s' y t = get_balance s y t"
  unfolding get_balance_def by (drule (1) keepsD) simp

text \<open>Payments in native tokens: what they change, and that they go through while the supply fits a \<open>u64\<close>.\<close>

lemma debit_run:
  "debit a NATIVE_TOKEN n s = (Inr x, s') \<Longrightarrow> cf_meta s' = cf_meta s \<and> hone_total s' = hone_total s - uint n"
  using gainsD [OF native.take_out_gains] keepsD [OF keeps_debit(3)] by fastforce

lemma credit_run:
  "credit a NATIVE_TOKEN n s = (Inr x, s') \<Longrightarrow> cf_meta s' = cf_meta s \<and> hone_total s' = hone_total s + uint n"
  using gainsD [OF native.pay_in_gains] keepsD [OF keeps_credit(3)] by fastforce

lemma credit_succeeds:
  assumes "hone_total s + uint n < 2 ^ 64"
  shows "\<exists>x s'. credit a NATIVE_TOKEN n s = (Inr x, s')"
proof -
  have "uint (get_balance s a NATIVE_TOKEN) + uint n < 2 ^ 64"
    using balance_le_supply [OF plain_NATIVE, of s a] assms by simp
  then have "unat (get_balance s a NATIVE_TOKEN) + unat n < 2 ^ 64" by (simp only: room_iff)
  then show ?thesis by (simp add: credit_cases)
qed

lemma credits_run:
  assumes "hone_total s + uint n * int (length as) < 2 ^ 64"
  shows "\<exists>s'. each (\<lambda>a. seq (credit a NATIVE_TOKEN n) (ret ())) as s = (Inr (), s') \<and>
    cf_meta s' = cf_meta s \<and> hone_total s' = hone_total s + uint n * int (length as)"
  using assms
proof (induction as arbitrary: s)
  case Nil
  then show ?case by (simp add: ret_apply)
next
  case (Cons a as)
  have "0 \<le> uint n * int (length as)" by simp
  then have "hone_total s + uint n < 2 ^ 64"
    using Cons.prems by (simp only: length_Cons of_nat_Suc distrib_left mult_1_right)
  then obtain x s1 where cr: "credit a NATIVE_TOKEN n s = (Inr x, s1)"
    using credit_succeeds by blast
  from Cons.IH [of s1] Cons.prems credit_run [OF cr] cr show ?case
    by (auto simp: seq_apply ret_apply algebra_simps)
qed

locale record_codec = codec wr rd
  for wr :: "'r \<Rightarrow> json" and rd :: "json \<Rightarrow> 'r option"
begin

lemma peek_save: "save_record wr key r s = (x, s') \<Longrightarrow> peek E rd s' key = Some r"
  unfolding save_record_def by (simp add: peek_state_get state_get_set decode_encode)

lemma load_after_save:
  "seq (save_record wr key r) (load_record E rd key m) s =
    (Inr r, snd (save_record wr key r s))"
  using peek_save [of key r s "Inr ()" "snd (save_record wr key r s)" E]
  by (simp add: seq_apply save_record_apply load_record_apply)

lemma as_vec_json: "as_vec rd (vec_json wr rs) = Some rs"
  using those_map_Some [of rs "\<lambda>r. rd (wr r)" "\<lambda>r. r"]
  by (simp add: as_vec_def vec_json_def decode_encode comp_def)

lemma update_then_peek:
  assumes "andThen (load_record E rd key m) (\<lambda>r. save_record wr key (f r)) s = (Inr u, s')"
  obtains r where "peek E rd s key = Some r" "peek E rd s' key = Some (f r)"
  using assms by (auto simp: andThen_Inr load_record_Inr dest: peek_save)

end

section \<open>Scans\<close>

lemma in_map_filter: "y \<in> set (List.map_filter f xs) \<longleftrightarrow> (\<exists>x \<in> set xs. f x = Some y)"
  by (induction xs) (auto simp: List.map_filter_simps split: option.split)

text \<open>The records under a prefix, as a scan that skips what does not decode collects them.\<close>

lemma scanned_records:
  assumes "wf_chain s"
  shows "r \<in> set (List.map_filter (\<lambda>kv. Option.bind (as_json E (snd kv)) rd) (state_scan_prefix s pre)) \<longleftrightarrow>
    (\<exists>k. prefix pre k \<and> peek E rd s k = Some r)"
proof -
  have "kv_sorted (cf_meta s)" using assms by (simp add: wf_chain_def)
  then have scan: "kv \<in> set (state_scan_prefix s pre) \<longleftrightarrow> prefix pre (fst kv) \<and> state_get s (fst kv) = Some (snd kv)" for kv
    by (cases kv) (auto simp: state_scan_prefix_def state_get_def set_kv_scan)
  have "(\<exists>kv \<in> set (state_scan_prefix s pre). Option.bind (as_json E (snd kv)) rd = Some r) \<longleftrightarrow>
      (\<exists>k v. prefix pre k \<and> state_get s k = Some v \<and> Option.bind (as_json E v) rd = Some r)"
    unfolding Bex_def scan by (metis fst_conv snd_conv)
  then show ?thesis by (auto simp: in_map_filter peek_state_get bind_eq_Some_conv)
qed

section \<open>Sweeps\<close>

text \<open>
  A sweep walks the entries under a prefix as they were when it started. What each entry's action keeps,
  when it leaves the other entries under the prefix alone, the sweep keeps.
\<close>

lemma each_entries_invariant:
  assumes step: "\<And>k v s r s'. P s \<Longrightarrow> prefix pre k \<Longrightarrow> state_get s k = Some v \<Longrightarrow> f (k, v) s = (r, s') \<Longrightarrow>
      P s' \<and> (\<forall>j. prefix pre j \<longrightarrow> j \<noteq> k \<longrightarrow> state_get s' j = state_get s j)"
    and "P s" and "\<forall>(k, v) \<in> set kvs. state_get s k = Some v \<and> prefix pre k" and "distinct (map fst kvs)"
    and "each f kvs s = (r, s')"
  shows "P s'"
  using assms(2-)
proof (induction kvs arbitrary: s)
  case Nil
  then show ?case by (simp add: ret_apply)
next
  case (Cons kv kvs)
  obtain k v where kv: "kv = (k, v)" by (cases kv)
  obtain r1 s1 where st: "f (k, v) s = (r1, s1)" by (cases "f (k, v) s")
  have k: "prefix pre k" "state_get s k = Some v" using Cons.prems(2) kv by auto
  note eff = step [OF Cons.prems(1) k st]
  show ?case
  proof (cases r1)
    case (Inl e)
    with Cons.prems(4) kv st eff show ?thesis by (simp add: seq_apply)
  next
    case (Inr u)
    with Cons.prems(4) kv st have rest: "each f kvs s1 = (r, s')" by (simp add: seq_apply)
    have "\<forall>(j, w) \<in> set kvs. state_get s1 j = Some w \<and> prefix pre j"
      using Cons.prems(2,3) kv eff by force
    with Cons.IH [OF _ _ _ rest] eff Cons.prems(3) show ?thesis by simp
  qed
qed

lemma scan_each_invariant:
  assumes wf: "wf_chain s" and P: "P s" and run: "andThen (reads (\<lambda>s. state_scan_prefix s pre)) (each f) s = (r, s')"
    and step: "\<And>k v s r s'. P s \<Longrightarrow> prefix pre k \<Longrightarrow> state_get s k = Some v \<Longrightarrow> f (k, v) s = (r, s') \<Longrightarrow>
      P s' \<and> (\<forall>j. prefix pre j \<longrightarrow> j \<noteq> k \<longrightarrow> state_get s' j = state_get s j)"
  shows "P s'"
proof (rule each_entries_invariant [OF step P])
  have sorted: "kv_sorted (cf_meta s)" using wf by (simp add: wf_chain_def)
  show "\<forall>(k, v) \<in> set (state_scan_prefix s pre). state_get s k = Some v \<and> prefix pre k"
    using set_kv_scan [OF sorted] by (auto simp: state_scan_prefix_def state_get_def)
  show "distinct (map fst (state_scan_prefix s pre))"
    using sorted by (simp add: state_scan_prefix_def kv_scan_filter kv_sorted_def distinct_map_filter strict_sorted_iff)
  show "each f (state_scan_prefix s pre) s = (r, s')"
    using run by (simp add: andThen_apply reads_apply)
qed assumption+

section \<open>Value held in records\<close>

text \<open>
  An object may hold native tokens in escrow: they have left the balances and are owed to whom the
  record says. \<open>record_total\<close> adds up what the records under a key prefix hold, \<open>escrow_value\<close> adds
  the balances.
\<close>

definition record_share :: "env \<Rightarrow> (json \<Rightarrow> 'r option) \<Rightarrow> string \<Rightarrow> ('r \<Rightarrow> int) \<Rightarrow> string \<Rightarrow> val \<Rightarrow> int" where
  "record_share E rd pre share k v =
    (if prefix pre k then (case Option.bind (as_json E v) rd of Some r \<Rightarrow> share r | None \<Rightarrow> 0) else 0)"

definition record_total :: "env \<Rightarrow> (json \<Rightarrow> 'r option) \<Rightarrow> string \<Rightarrow> ('r \<Rightarrow> int) \<Rightarrow> chain \<Rightarrow> int" where
  "record_total E rd pre share s = kv_sum (record_share E rd pre share) (cf_meta s)"

definition escrow_value :: "env \<Rightarrow> (json \<Rightarrow> 'r option) \<Rightarrow> string \<Rightarrow> ('r \<Rightarrow> int) \<Rightarrow> chain \<Rightarrow> int" where
  "escrow_value E rd pre share s = hone_total s + record_total E rd pre share s"

lemma keeps_record_total: "keeps cf_meta m \<Longrightarrow> keeps (record_total E rd pre share) m"
  by (simp add: keeps_def record_total_def)

lemma record_total_other:
  assumes "\<not> prefix pre k"
  shows "keeps (record_total E rd pre share) (state_set k v)"
    and "keeps (record_total E rd pre share) (state_delete k)"
    and "keeps (record_total E rd pre share) (save_record wr k r)"
  using assms
  by (auto simp: keeps_def record_total_def save_record_def state_set_def state_delete_def act_simps
      kv_sum_put kv_sum_del kv_at_def record_share_def split: option.split)

lemma keeps_escrow_value:
  "keeps (token_supply NATIVE_TOKEN) m \<Longrightarrow> keeps (record_total E rd pre share) m \<Longrightarrow>
    keeps (escrow_value E rd pre share) m"
  by (simp add: keeps_def escrow_value_def)

lemma keeps_escrow_other:
  "\<not> prefix pre k \<Longrightarrow> keeps (escrow_value E rd pre share) (state_set k v)"
  "\<not> prefix pre k \<Longrightarrow> keeps (escrow_value E rd pre share) (state_delete k)"
  "\<not> prefix pre k \<Longrightarrow> keeps (escrow_value E rd pre share) (save_record wr k r)"
  by (intro keeps_escrow_value record_total_other keeps_token_supply keeps_intros; assumption)+

lemma keeps_escrow_ensure: "keeps (escrow_value E rd pre share) (ensure_account a e)"
  by (intro keeps_escrow_value keeps_record_total keeps_token_supply keeps_intros)

lemma keeps_escrow_touch:
  assumes "\<And>a. \<not> prefix pre (''alive:'' @ a)"
  shows "keeps (escrow_value E rd pre share) (touch_alive E' a e)"
  unfolding touch_alive_def set_alive_epoch_def
  by (intro keeps_intros keeps_escrow_other assms)

locale escrow_table = record_codec wr rd
  for wr :: "'r \<Rightarrow> json" and rd :: "json \<Rightarrow> 'r option" +
  fixes pre :: string
    and share :: "'r \<Rightarrow> int"
  assumes share_nonneg: "0 \<le> share r"
begin

abbreviation owed :: "env \<Rightarrow> chain \<Rightarrow> string \<Rightarrow> int" where
  "owed E s k \<equiv> (case peek E rd s k of Some r \<Rightarrow> share r | None \<Rightarrow> 0)"

lemma kv_at_owed: "prefix pre k \<Longrightarrow> kv_at (record_share E rd pre share) (cf_meta s) k = owed E s k"
  by (auto simp: kv_at_def record_share_def peek_state_get state_get_def split: option.split)

lemma record_total_save:
  assumes "save_record wr k r s = (u, s')" and "prefix pre k"
  shows "record_total E rd pre share s' = record_total E rd pre share s + share r - owed E s k"
  using assms
  by (auto simp: save_record_def state_set_def act_simps record_total_def kv_sum_put kv_at_owed)
    (simp add: record_share_def decode_encode)

lemma escrow_save:
  assumes "save_record wr k r s = (u, s')" and "prefix pre k"
  shows "escrow_value E rd pre share s' = escrow_value E rd pre share s + share r - owed E s k"
proof -
  have "hone_total s' = hone_total s"
    using assms(1) by (rule keepsD [OF keeps_token_supply [OF keeps_save_record(1)]])
  then show ?thesis
    using record_total_save [OF assms] by (simp add: escrow_value_def)
qed

text \<open>The shape of most handlers: payments, then the changed record is saved.\<close>

lemma pay_and_save:
  assumes meta: "cf_meta s1 = cf_meta s" and bal: "hone_total s1 = hone_total s + d"
    and sv: "save_record wr k r s1 = (x, s')" and k: "prefix pre k"
  shows "escrow_value E rd pre share s' = escrow_value E rd pre share s + d + share r - owed E s k"
    and "peek E rd s' k = Some r" and "\<And>j. j \<noteq> k \<Longrightarrow> state_get s' j = state_get s j"
proof -
  have s1: "state_get s1 j = state_get s j" for j using meta by (simp add: state_get_def)
  have "escrow_value E rd pre share s1 = escrow_value E rd pre share s + d"
    using bal meta by (simp add: escrow_value_def record_total_def)
  moreover have "peek E rd s1 k = peek E rd s k" using s1 by (rule peek_cong)
  ultimately show "escrow_value E rd pre share s' = escrow_value E rd pre share s + d + share r - owed E s k"
    using escrow_save [OF sv k, of E] by simp
  show "peek E rd s' k = Some r" by (rule peek_save [OF sv])
  show "state_get s' j = state_get s j" if "j \<noteq> k" for j
    using sv that s1 by (simp add: save_record_def state_get_set)
qed

lemma share_entry_nonneg: "0 \<le> record_share E rd pre share k v"
  by (simp add: record_share_def share_nonneg split: option.split)

lemma owed_le: "prefix pre k \<Longrightarrow> owed E s k \<le> record_total E rd pre share s"
  using kv_at_le_sum [of "record_share E rd pre share" "cf_meta s" k]
  by (simp add: share_entry_nonneg kv_at_owed record_total_def)

lemma record_total_nonneg: "0 \<le> record_total E rd pre share s"
  unfolding record_total_def by (rule kv_sum_nonneg) (rule share_entry_nonneg)

text \<open>While the value in the system fits a \<open>u64\<close>, what a record holds can be paid to anyone.\<close>

lemma credit_room:
  fixes n :: u64
  assumes "escrow_value E rd pre share s < 2 ^ 64" and "prefix pre k"
    and "peek E rd s k = Some r" and "uint n \<le> share r"
  shows "unat (get_balance s a NATIVE_TOKEN) + unat n < 2 ^ 64"
proof -
  have "uint (get_balance s a NATIVE_TOKEN) \<le> hone_total s"
    by (rule balance_le_supply) simp
  then have "uint (get_balance s a NATIVE_TOKEN) + uint n < 2 ^ 64"
    using owed_le [OF assms(2), of E s] assms by (simp add: escrow_value_def)
  then show ?thesis by (simp only: room_iff)
qed

lemma gains_escrow_debit: "gains (escrow_value E rd pre share) (- uint n) (debit a NATIVE_TOKEN n)"
  using native.take_out_gains [of n a] keeps_record_total [OF keeps_debit(3), of E rd pre share]
  by (fastforce simp: gains_def escrow_value_def dest: keepsD)

lemma gains_escrow_credit: "gains (escrow_value E rd pre share) (uint n) (credit a NATIVE_TOKEN n)"
  using native.pay_in_gains [of n a] keeps_record_total [OF keeps_credit(3), of E rd pre share]
  by (fastforce simp: gains_def escrow_value_def dest: keepsD)

end

end
