(* ===== verification/Auction.thy ===== *)
theory Auction
  imports Records
begin

text \<open>
  Auctions of names and Freeport items (\<open>auction.rs\<close>, with the arms of \<open>chain.rs\<close> that call it): the
  auction record, opening, bidding with the escrow of the top bid, settlement and cancellation.

  The value the auctions hold, the native supply together with the escrowed top bids of the open
  auctions, is followed over arbitrary sequences of operations: it never grows, and it is conserved
  by every bid, settlement and cancellation. It can shrink in one way, which is stated: opening an
  auction under the id of a running one replaces its record and strands the escrowed bid.
\<close>

section \<open>State\<close>

datatype AuctionKind =
    NameKind string
  | FreeportKind string string

record AuctionState =
  au_id :: string
  au_kind :: AuctionKind
  au_opener :: string
  au_min_bid :: u64
  au_end_epoch :: u64
  au_top_bidder :: "string option"
  au_top_bid :: u64
  au_prev_bidder :: "string option"
  au_prev_bid :: u64
  au_settled :: bool
  au_cancelled :: bool
  au_opened_epoch :: u64

fun AuctionKind_json :: "AuctionKind \<Rightarrow> json" where
  "AuctionKind_json (NameKind name) = jobj [(''type'', JStr ''name''), (''name'', JStr name)]"
| "AuctionKind_json (FreeportKind item_type item_id) =
     jobj [(''type'', JStr ''freeport''), (''item_type'', JStr item_type), (''item_id'', JStr item_id)]"

definition AuctionKind_of_json :: "json \<Rightarrow> AuctionKind option" where
  "AuctionKind_of_json j =
     Option.bind (field_str j ''type'') (\<lambda>t.
       if t = ''name'' then map_option NameKind (field_str j ''name'')
       else if t = ''freeport'' then
         Option.bind (field_str j ''item_type'') (\<lambda>item_type.
         map_option (FreeportKind item_type) (field_str j ''item_id''))
       else None)"

definition AuctionState_json :: "AuctionState \<Rightarrow> json" where
  "AuctionState_json a = jobj [
     (''auction_id'', JStr (au_id a)), (''kind'', AuctionKind_json (au_kind a)),
     (''opener'', JStr (au_opener a)), (''min_bid'', JNum (au_min_bid a)),
     (''end_epoch'', JNum (au_end_epoch a)), (''top_bidder'', jopt_str (au_top_bidder a)),
     (''top_bid'', JNum (au_top_bid a)), (''prev_bidder'', jopt_str (au_prev_bidder a)),
     (''prev_bid'', JNum (au_prev_bid a)), (''settled'', JBool (au_settled a)),
     (''cancelled'', JBool (au_cancelled a)), (''opened_epoch'', JNum (au_opened_epoch a))]"

definition AuctionState_of_json :: "json \<Rightarrow> AuctionState option" where
  "AuctionState_of_json j =
     Option.bind (field_str j ''auction_id'') (\<lambda>i.
     Option.bind (Option.bind (jfield j ''kind'') AuctionKind_of_json) (\<lambda>k.
     Option.bind (field_str j ''opener'') (\<lambda>opener.
     Option.bind (field_u64 j ''min_bid'') (\<lambda>min_bid.
     Option.bind (field_u64 j ''end_epoch'') (\<lambda>end_epoch.
     Option.bind (field_opt as_str j ''top_bidder'') (\<lambda>top_bidder.
     Option.bind (field_u64 j ''top_bid'') (\<lambda>top_bid.
     Option.bind (field_opt as_str j ''prev_bidder'') (\<lambda>prev_bidder.
     Option.bind (field_u64 j ''prev_bid'') (\<lambda>prev_bid.
     Option.bind (field_bool j ''settled'') (\<lambda>settled.
     Option.bind (field_bool j ''cancelled'') (\<lambda>cancelled.
     Option.bind (field_u64 j ''opened_epoch'') (\<lambda>opened_epoch.
     Some \<lparr>au_id = i, au_kind = k, au_opener = opener, au_min_bid = min_bid,
       au_end_epoch = end_epoch, au_top_bidder = top_bidder, au_top_bid = top_bid,
       au_prev_bidder = prev_bidder, au_prev_bid = prev_bid, au_settled = settled,
       au_cancelled = cancelled, au_opened_epoch = opened_epoch\<rparr>))))))))))))"

section \<open>Operations\<close>

text \<open>The floor for a bid by the length of the name in bytes.\<close>

definition name_min_bid :: "string \<Rightarrow> u64" where
  "name_min_bid name =
    (if length name = 1 then 10000000 * 100000000
     else if length name = 2 then 1000000 * 100000000
     else if length name \<in> {3, 4} then 100000 * 100000000
     else if 5 \<le> length name \<and> length name \<le> 9 then 1000 * 100000000
     else 0)"

definition auction_key :: "string \<Rightarrow> string" where
  "auction_key auction_id = ''auction:'' @ auction_id"

definition name_owner_key :: "string \<Rightarrow> string" where
  "name_owner_key name = ''name_owner:'' @ name"

definition name_active_key :: "string \<Rightarrow> string" where
  "name_active_key name = ''name_auction_active:'' @ name"

abbreviation load_auction :: "env \<Rightarrow> string \<Rightarrow> AuctionState chain_act" where
  "load_auction E auction_id \<equiv>
     load_record E AuctionState_of_json (auction_key auction_id) ''auction not found''"

abbreviation save_auction :: "string \<Rightarrow> AuctionState \<Rightarrow> unit chain_act" where
  "save_auction auction_id \<equiv> save_record AuctionState_json (auction_key auction_id)"

definition new_auction :: "string \<Rightarrow> AuctionKind \<Rightarrow> string \<Rightarrow> u64 \<Rightarrow> u64 \<Rightarrow> u64 \<Rightarrow> AuctionState" where
  "new_auction auction_id k opener min_bid end_epoch epoch =
     \<lparr>au_id = auction_id, au_kind = k, au_opener = opener, au_min_bid = min_bid,
      au_end_epoch = end_epoch, au_top_bidder = None, au_top_bid = 0,
      au_prev_bidder = None, au_prev_bid = 0, au_settled = False,
      au_cancelled = False, au_opened_epoch = epoch\<rparr>"

definition apply_name_open ::
  "string \<Rightarrow> string \<Rightarrow> string \<Rightarrow> u64 \<Rightarrow> u64 \<Rightarrow> u64 \<Rightarrow> unit chain_act" where
  "apply_name_open auction_id name opener min_bid end_epoch epoch =
    (let effective_min = max min_bid (name_min_bid name) in
     andThen (reads (\<lambda>s. state_get s (name_owner_key name))) (\<lambda>registered.
     seq (ensure (registered = None) (Err ''name is already registered''))
    (seq (save_auction auction_id
            (new_auction auction_id (NameKind name) opener effective_min end_epoch epoch))
         (state_set (name_active_key name) (Text auction_id)))))"

definition apply_freeport_open ::
  "string \<Rightarrow> string \<Rightarrow> string \<Rightarrow> string \<Rightarrow> u64 \<Rightarrow> u64 \<Rightarrow> u64 \<Rightarrow> unit chain_act" where
  "apply_freeport_open auction_id item_type item_id seller min_bid end_epoch epoch =
     save_auction auction_id
       (new_auction auction_id (FreeportKind item_type item_id) seller min_bid end_epoch epoch)"

definition apply_bid :: "env \<Rightarrow> string \<Rightarrow> string \<Rightarrow> u64 \<Rightarrow> u64 \<Rightarrow> unit chain_act" where
  "apply_bid E auction_id bidder amount epoch =
     andThen (load_auction E auction_id) (\<lambda>a.
     seq (ensure (\<not> au_settled a \<and> \<not> au_cancelled a) (Err ''auction is closed''))
    (seq (ensure (epoch \<le> au_end_epoch a) (Err ''auction has ended''))
    (seq (ensure (amount > au_top_bid a \<and> amount \<ge> au_min_bid a)
            (Err ''bid does not exceed current top bid or min bid''))
    (seq (debit bidder NATIVE_TOKEN amount)
    (seq (case au_top_bidder a of
            None \<Rightarrow> ret ()
          | Some prev \<Rightarrow> when_do (au_top_bid a > 0)
              (seq (credit prev NATIVE_TOKEN (au_top_bid a)) (ret ())))
         (save_auction auction_id
            (a\<lparr>au_prev_bidder := au_top_bidder a, au_prev_bid := au_top_bid a,
               au_top_bidder := Some bidder, au_top_bid := amount\<rparr>)))))))"

text \<open>What the winner receives; the writes cannot fail.\<close>

definition assign_item :: "AuctionKind \<Rightarrow> string \<Rightarrow> unit chain_act" where
  "assign_item k winner =
    (case k of
       NameKind name \<Rightarrow>
         seq (state_set (name_owner_key name) (Text winner))
        (seq (state_set (''account_name:'' @ winner) (Text name))
             (state_delete (name_active_key name)))
     | FreeportKind item_type item_id \<Rightarrow>
         state_set (''freeport_owner:'' @ item_type @ '':'' @ item_id) (Text winner))"

definition apply_settle :: "env \<Rightarrow> string \<Rightarrow> u64 \<Rightarrow> unit chain_act" where
  "apply_settle E auction_id epoch =
     andThen (load_auction E auction_id) (\<lambda>a.
     seq (ensure (\<not> au_settled a \<and> \<not> au_cancelled a) (Err ''auction already closed''))
    (seq (ensure (epoch > au_end_epoch a) (Err ''auction has not ended yet''))
    (seq (case au_top_bidder a of
            None \<Rightarrow> ret ()
          | Some winner \<Rightarrow>
              seq (attempt (credit (au_opener a) NATIVE_TOKEN (au_top_bid a)))
                  (assign_item (au_kind a) winner))
         (save_auction auction_id (a\<lparr>au_settled := True\<rparr>)))))"

definition apply_cancel :: "env \<Rightarrow> string \<Rightarrow> string \<Rightarrow> unit chain_act" where
  "apply_cancel E auction_id requester =
     andThen (load_auction E auction_id) (\<lambda>a.
     seq (ensure (au_opener a = requester) (Err ''only the opener can cancel''))
    (seq (ensure (\<not> au_settled a \<and> \<not> au_cancelled a) (Err ''auction already closed''))
    (seq (ensure (au_top_bidder a = None) (Err ''cannot cancel: bids already received''))
         (save_auction auction_id (a\<lparr>au_cancelled := True\<rparr>)))))"

text \<open>The entries, as the arms of \<open>apply_entry\<close> handle them.\<close>

datatype auction_entry =
    NameAuctionOpen string string string u64 u64 u64
  | NameAuctionBid string string u64 u64
  | NameAuctionSettle string u64
  | NameAuctionCancel string string
  | FreeportAuctionOpen string string string string u64 u64 u64
  | FreeportAuctionBid string string u64 u64
  | FreeportAuctionSettle string u64

fun apply_auction_entry :: "env \<Rightarrow> auction_entry \<Rightarrow> unit chain_act" where
  "apply_auction_entry E (NameAuctionOpen auction_id name opener min_bid end_epoch epoch) =
     seq (touch_alive E opener epoch)
    (seq (ensure_account opener epoch)
         (apply_name_open auction_id name opener min_bid end_epoch epoch))"
| "apply_auction_entry E (NameAuctionBid auction_id bidder amount epoch) =
     seq (touch_alive E bidder epoch)
    (seq (ensure_account bidder epoch) (apply_bid E auction_id bidder amount epoch))"
| "apply_auction_entry E (NameAuctionSettle auction_id epoch) = apply_settle E auction_id epoch"
| "apply_auction_entry E (NameAuctionCancel auction_id opener) = apply_cancel E auction_id opener"
| "apply_auction_entry E (FreeportAuctionOpen auction_id item_type item_id seller min_bid end_epoch epoch) =
     seq (touch_alive E seller epoch)
    (seq (ensure_account seller epoch)
         (apply_freeport_open auction_id item_type item_id seller min_bid end_epoch epoch))"
| "apply_auction_entry E (FreeportAuctionBid auction_id bidder amount epoch) =
     seq (touch_alive E bidder epoch)
    (seq (ensure_account bidder epoch) (apply_bid E auction_id bidder amount epoch))"
| "apply_auction_entry E (FreeportAuctionSettle auction_id epoch) = apply_settle E auction_id epoch"

section \<open>The record\<close>

lemma AuctionKind_roundtrip: "AuctionKind_of_json (AuctionKind_json k) = Some k"
  by (cases k) (simp_all add: AuctionKind_of_json_def field_defs)

lemma AuctionState_roundtrip: "AuctionState_of_json (AuctionState_json a) = Some a"
  by (simp add: AuctionState_of_json_def AuctionState_json_def field_u64_def field_str_def
      field_bool_def AuctionKind_roundtrip)

interpretation auction_rec: record_codec AuctionState_json AuctionState_of_json
  by unfold_locales (rule AuctionState_roundtrip)


section \<open>The value held by auctions\<close>

definition open_escrow :: "AuctionState \<Rightarrow> int" where
  "open_escrow a =
    (if au_settled a \<or> au_cancelled a \<or> au_top_bidder a = None then 0 else uint (au_top_bid a))"

abbreviation auction_value :: "env \<Rightarrow> chain \<Rightarrow> int" where
  "auction_value E \<equiv> escrow_value E AuctionState_of_json ''auction:'' open_escrow"

abbreviation get_auction :: "env \<Rightarrow> chain \<Rightarrow> string \<Rightarrow> AuctionState option" where
  "get_auction E s auction_id \<equiv> peek E AuctionState_of_json s (auction_key auction_id)"

interpretation auctions: escrow_table AuctionState_json AuctionState_of_json "''auction:''" open_escrow
  by unfold_locales (simp add: open_escrow_def)

lemma prefix_auction_key [simp]: "prefix ''auction:'' (auction_key i)"
  by (simp add: auction_key_def)

lemma not_prefix_name_keys [simp]:
  "\<not> prefix ''auction:'' (name_owner_key n)" "\<not> prefix ''auction:'' (name_active_key n)"
  by (simp_all add: name_owner_key_def name_active_key_def)

lemma auction_key_neq [simp]: "auction_key i \<noteq> name_owner_key n" "auction_key i \<noteq> name_active_key n"
  "name_owner_key n \<noteq> auction_key i" "name_active_key n \<noteq> auction_key i"
  by (simp_all add: auction_key_def name_owner_key_def name_active_key_def)

lemma keeps_auction_helpers:
  "keeps (auction_value E) (touch_alive E' a e)" "keeps (auction_value E) (ensure_account a e)"
  "keeps (auction_value E) (assign_item k w)"
proof -
  show "keeps (auction_value E) (assign_item k w)"
    unfolding assign_item_def
    by (cases k) (simp_all, (intro keeps_seq keeps_escrow_other; simp)+)
qed (intro keeps_escrow_touch keeps_escrow_ensure; simp)+

text \<open>The steps of a bid that passes its guards: payment, refund, record.\<close>

definition bid_refund :: "AuctionState \<Rightarrow> unit chain_act" where
  "bid_refund a =
    (case au_top_bidder a of
       None \<Rightarrow> ret ()
     | Some prev \<Rightarrow> when_do (au_top_bid a > 0) (seq (credit prev NATIVE_TOKEN (au_top_bid a)) (ret ())))"

definition outbid :: "AuctionState \<Rightarrow> string \<Rightarrow> u64 \<Rightarrow> AuctionState" where
  "outbid a bidder amount =
     a\<lparr>au_prev_bidder := au_top_bidder a, au_prev_bid := au_top_bid a,
       au_top_bidder := Some bidder, au_top_bid := amount\<rparr>"

definition bid_ok :: "AuctionState \<Rightarrow> u64 \<Rightarrow> u64 \<Rightarrow> bool" where
  "bid_ok a amount epoch \<longleftrightarrow> \<not> au_settled a \<and> \<not> au_cancelled a \<and> epoch \<le> au_end_epoch a \<and>
     amount > au_top_bid a \<and> amount \<ge> au_min_bid a"

definition refund_of :: "AuctionState \<Rightarrow> string \<Rightarrow> int" where
  "refund_of a account = (if au_top_bidder a = Some account then uint (au_top_bid a) else 0)"

lemma apply_bid_guarded:
  assumes "get_auction E s i = Some a" "bid_ok a n e"
  shows "apply_bid E i b n e s =
    seq (debit b NATIVE_TOKEN n) (seq (bid_refund a) (save_auction i (outbid a b n))) s"
  using assms
  by (simp add: apply_bid_def andThen_apply load_record_apply seq_apply ensure_apply bid_ok_def
      bid_refund_def outbid_def)

lemma apply_bid_refused:
  assumes "\<nexists>a. get_auction E s i = Some a \<and> bid_ok a n e"
  shows "\<exists>err. apply_bid E i b n e s = (Inl err, s)"
  using assms
  by (cases "get_auction E s i")
    (auto simp: apply_bid_def andThen_apply load_record_apply seq_apply ensure_apply bid_ok_def)

lemma keeps_meta_refund: "keeps cf_meta (bid_refund a)"
  unfolding bid_refund_def by (intro keeps_intros)

lemma refund_runs:
  assumes "auction_value E s < 2 ^ 64" "get_auction E s i = Some a" "bid_ok a n e"
  obtains s' where "bid_refund a s = (Inr (), s')"
    "auction_value E s' = auction_value E s + open_escrow a"
    "\<forall>y. uint (get_balance s' y NATIVE_TOKEN) =
      uint (get_balance s y NATIVE_TOKEN) + refund_of a y"
proof (cases "au_top_bidder a")
  case None
  then show ?thesis
    using that by (simp add: bid_refund_def ret_apply open_escrow_def refund_of_def)
next
  case (Some prev)
  have share: "open_escrow a = uint (au_top_bid a)"
    using assms(3) Some by (simp add: open_escrow_def bid_ok_def)
  show ?thesis
  proof (cases "au_top_bid a > 0")
    case True
    have "unat (get_balance s prev NATIVE_TOKEN) + unat (au_top_bid a) < 2 ^ 64"
      by (rule auctions.credit_room [OF assms(1) prefix_auction_key assms(2)]) (simp add: share)
    then obtain x s' where c: "credit prev NATIVE_TOKEN (au_top_bid a) s = (Inr x, s')"
      by (simp add: credit_cases)
    with Some True have "bid_refund a s = (Inr (), s')"
      by (simp add: bid_refund_def act_simps)
    with gainsD [OF auctions.gains_escrow_credit c] credit_balances [OF c] share Some that
    show ?thesis by (auto simp: refund_of_def)
  next
    case False
    with Some share that show ?thesis
      by (simp add: bid_refund_def act_simps word_gt_0 refund_of_def)
  qed
qed

lemma bid_runs:
  assumes fits: "auction_value E s < 2 ^ 64" and a: "get_auction E s i = Some a" "bid_ok a n e"
    and funds: "n \<le> get_balance s b NATIVE_TOKEN"
  obtains s' where "apply_bid E i b n e s = (Inr (), s')" "get_auction E s' i = Some (outbid a b n)"
    "auction_value E s' = auction_value E s"
    "\<forall>y. uint (get_balance s' y NATIVE_TOKEN) =
      uint (get_balance s y NATIVE_TOKEN) - (if y = b then uint n else 0) + refund_of a y"
proof -
  obtain x s1 where d: "debit b NATIVE_TOKEN n s = (Inr x, s1)"
    using funds by (simp add: debit_cases)
  have v1: "auction_value E s1 = auction_value E s - uint n"
    using gainsD [OF auctions.gains_escrow_debit d] by simp
  have a1: "get_auction E s1 i = Some a"
    using keeps_debit(3) d a(1) by (rule peek_kept)
  from v1 fits have "auction_value E s1 < 2 ^ 64"
    using uint_ge_0 [of n] by linarith
  then obtain s2 where r: "bid_refund a s1 = (Inr (), s2)"
    "auction_value E s2 = auction_value E s1 + open_escrow a"
    and r3: "\<forall>y. uint (get_balance s2 y NATIVE_TOKEN) =
      uint (get_balance s1 y NATIVE_TOKEN) + refund_of a y"
    using a1 a(2) by (rule refund_runs)
  have a2: "get_auction E s2 i = Some a"
    using keeps_meta_refund r(1) a1 by (rule peek_kept)
  obtain s' where sv: "save_auction i (outbid a b n) s2 = (Inr (), s')"
    by (simp add: save_record_apply)
  have run: "apply_bid E i b n e s = (Inr (), s')"
    using d r(1) sv by (simp add: apply_bid_guarded [OF a] seq_apply)
  have "open_escrow (outbid a b n) = uint n"
    using a(2) by (simp add: open_escrow_def outbid_def bid_ok_def)
  with auctions.escrow_save [OF sv prefix_auction_key, of E] r(2) v1 a2
  have "auction_value E s' = auction_value E s" by simp
  moreover have "uint (get_balance s' y NATIVE_TOKEN) =
      uint (get_balance s y NATIVE_TOKEN) - (if y = b then uint n else 0) + refund_of a y" for y
    using r3 debit_balances [OF d, of y] balances_kept [OF keeps_save_record(1) sv] by simp
  ultimately show ?thesis
    using run auction_rec.peek_save [OF sv] that by blast
qed

lemma bid_conserves:
  assumes "auction_value E s < 2 ^ 64" and run: "apply_bid E i b n e s = (r, s')"
  shows "auction_value E s' = auction_value E s"
proof (cases "\<exists>a. get_auction E s i = Some a \<and> bid_ok a n e")
  case False
  with apply_bid_refused [OF False, of b] run show ?thesis by auto
next
  case True
  then obtain a where a: "get_auction E s i = Some a" "bid_ok a n e" by blast
  show ?thesis
  proof (cases "n \<le> get_balance s b NATIVE_TOKEN")
    case True
    with assms(1) a obtain t where "apply_bid E i b n e s = (Inr (), t)"
      "auction_value E t = auction_value E s" by (rule bid_runs)
    with run show ?thesis by simp
  next
    case False
    with run show ?thesis
      by (simp add: apply_bid_guarded [OF a] seq_apply debit_cases)
  qed
qed

text \<open>Settlement: the credit to the opener cannot fail while the value fits, the record closes.\<close>

definition settle_ok :: "AuctionState \<Rightarrow> u64 \<Rightarrow> bool" where
  "settle_ok a epoch \<longleftrightarrow> \<not> au_settled a \<and> \<not> au_cancelled a \<and> epoch > au_end_epoch a"

definition pay_out :: "AuctionState \<Rightarrow> unit chain_act" where
  "pay_out a =
    (case au_top_bidder a of
       None \<Rightarrow> ret ()
     | Some winner \<Rightarrow>
         seq (attempt (credit (au_opener a) NATIVE_TOKEN (au_top_bid a))) (assign_item (au_kind a) winner))"

lemma apply_settle_guarded:
  assumes "get_auction E s i = Some a" "settle_ok a e"
  shows "apply_settle E i e s = seq (pay_out a) (save_auction i (a\<lparr>au_settled := True\<rparr>)) s"
  using assms
  by (simp add: apply_settle_def andThen_apply load_record_apply seq_apply ensure_apply settle_ok_def
      pay_out_def)

lemma apply_settle_refused:
  assumes "\<nexists>a. get_auction E s i = Some a \<and> settle_ok a e"
  shows "\<exists>err. apply_settle E i e s = (Inl err, s)"
  using assms
  by (cases "get_auction E s i")
    (auto simp: apply_settle_def andThen_apply load_record_apply seq_apply ensure_apply settle_ok_def)

lemma assign_item_runs: "\<exists>s'. assign_item k w s = (Inr (), s')"
  by (simp add: assign_item_def seq_apply state_set_def state_delete_def modify_apply
      split: AuctionKind.split)

definition name_won :: "AuctionState \<Rightarrow> chain \<Rightarrow> bool" where
  "name_won a s =
    (case (au_kind a, au_top_bidder a) of
       (NameKind name, Some winner) \<Rightarrow> state_get s (name_owner_key name) = Some (Text winner)
     | _ \<Rightarrow> True)"

lemma assign_item_owner:
  "assign_item (NameKind n) w s = (r, s') \<Longrightarrow> state_get s' (name_owner_key n) = Some (Text w)"
  by (auto simp: assign_item_def seq_apply state_set_def state_delete_def state_get_def modify_apply
      name_owner_key_def name_active_key_def)

lemma keeps_assign_balances: "keeps cf_balances (assign_item k w)"
  unfolding assign_item_def by (cases k) (simp_all add: keeps_intros)

lemma peek_auction_kept:
  "\<not> prefix ''auction:'' k \<Longrightarrow> keeps (\<lambda>s. get_auction E s i) (state_set k v)"
  "\<not> prefix ''auction:'' k \<Longrightarrow> keeps (\<lambda>s. get_auction E s i) (state_delete k)"
  by (auto simp: keeps_def peek_state_get state_set_def state_delete_def state_get_def act_simps
      auction_key_def)

lemma keeps_get_auction_assign: "keeps (\<lambda>s. get_auction E s i) (assign_item k w)"
  unfolding assign_item_def
  by (cases k) (simp_all, (intro keeps_seq peek_auction_kept; simp)+)

lemma pay_out_runs:
  assumes "auction_value E s < 2 ^ 64" "get_auction E s i = Some a" "settle_ok a e"
  obtains s' where "pay_out a s = (Inr (), s')"
    "auction_value E s' = auction_value E s + open_escrow a" "get_auction E s' i = Some a"
    "name_won a s'"
    "\<forall>y. uint (get_balance s' y NATIVE_TOKEN) =
      uint (get_balance s y NATIVE_TOKEN) + (if y = au_opener a then open_escrow a else 0)"
proof (cases "au_top_bidder a")
  case None
  with assms(2) show ?thesis
    using that by (simp add: pay_out_def ret_apply open_escrow_def name_won_def split: AuctionKind.split)
next
  case (Some w)
  have share: "open_escrow a = uint (au_top_bid a)"
    using assms(3) Some by (simp add: open_escrow_def settle_ok_def)
  have "unat (get_balance s (au_opener a) NATIVE_TOKEN) + unat (au_top_bid a) < 2 ^ 64"
    by (rule auctions.credit_room [OF assms(1) prefix_auction_key assms(2)]) (simp add: share)
  then obtain x s1 where c: "credit (au_opener a) NATIVE_TOKEN (au_top_bid a) s = (Inr x, s1)"
    by (simp add: credit_cases)
  obtain s' where as: "assign_item (au_kind a) w s1 = (Inr (), s')"
    using assign_item_runs by blast
  have a1: "get_auction E s1 i = Some a"
    using keeps_credit(3) c assms(2) by (rule peek_kept)
  show ?thesis
  proof (rule that)
    show "pay_out a s = (Inr (), s')"
      using Some c as by (simp add: pay_out_def seq_apply attempt_apply)
    show "auction_value E s' = auction_value E s + open_escrow a"
      using gainsD [OF auctions.gains_escrow_credit c] keepsD [OF keeps_auction_helpers(3) as] share by simp
    show "get_auction E s' i = Some a"
      using keepsD [OF keeps_get_auction_assign as] a1 by simp
    show "name_won a s'"
      using as Some assign_item_owner by (auto simp: name_won_def split: AuctionKind.split)
    show "\<forall>y. uint (get_balance s' y NATIVE_TOKEN) =
      uint (get_balance s y NATIVE_TOKEN) + (if y = au_opener a then open_escrow a else 0)"
      using credit_balances [OF c] balances_kept [OF keeps_assign_balances as] share by simp
  qed
qed

lemma settle_runs:
  assumes fits: "auction_value E s < 2 ^ 64" and a: "get_auction E s i = Some a" "settle_ok a e"
  obtains s' where "apply_settle E i e s = (Inr (), s')"
    "get_auction E s' i = Some (a\<lparr>au_settled := True\<rparr>)" "auction_value E s' = auction_value E s"
    "name_won a s'"
    "\<forall>y. uint (get_balance s' y NATIVE_TOKEN) =
      uint (get_balance s y NATIVE_TOKEN) + (if y = au_opener a then open_escrow a else 0)"
proof -
  obtain s1 where p: "pay_out a s = (Inr (), s1)"
    "auction_value E s1 = auction_value E s + open_escrow a" "get_auction E s1 i = Some a"
    and w: "name_won a s1"
    and b: "\<forall>y. uint (get_balance s1 y NATIVE_TOKEN) =
      uint (get_balance s y NATIVE_TOKEN) + (if y = au_opener a then open_escrow a else 0)"
    using fits a by (rule pay_out_runs)
  obtain s' where sv: "save_auction i (a\<lparr>au_settled := True\<rparr>) s1 = (Inr (), s')"
    by (simp add: save_record_apply)
  have "auction_value E s' = auction_value E s"
    using auctions.escrow_save [OF sv prefix_auction_key, of E] p by (simp add: open_escrow_def)
  moreover have "uint (get_balance s' y NATIVE_TOKEN) =
      uint (get_balance s y NATIVE_TOKEN) + (if y = au_opener a then open_escrow a else 0)" for y
    using b balances_kept [OF keeps_save_record(1) sv] by simp
  moreover have "name_won a s'"
    using w state_get_set [OF sv [unfolded save_record_def]]
    by (auto simp: name_won_def split: AuctionKind.splits option.splits)
  moreover have "apply_settle E i e s = (Inr (), s')"
    using p(1) sv by (simp add: apply_settle_guarded [OF a] seq_apply)
  ultimately show ?thesis
    using auction_rec.peek_save [OF sv] that by blast
qed

lemma settle_conserves:
  assumes "auction_value E s < 2 ^ 64" and run: "apply_settle E i e s = (r, s')"
  shows "auction_value E s' = auction_value E s"
proof (cases "\<exists>a. get_auction E s i = Some a \<and> settle_ok a e")
  case False
  with apply_settle_refused [OF False] run show ?thesis by auto
next
  case True
  with assms(1) obtain t where "apply_settle E i e s = (Inr (), t)"
    "auction_value E t = auction_value E s" by (blast elim: settle_runs)
  with run show ?thesis by simp
qed

lemma cancel_conserves: "keeps (auction_value E) (apply_cancel E i q)"
proof -
  have "auction_value E s' = auction_value E s" if "apply_cancel E i q s = (r, s')" for s r s'
  proof (cases r)
    case (Inl err)
    with that show ?thesis
      by (auto simp: apply_cancel_def act_simps load_record_apply save_record_apply
          split: option.splits if_splits)
  next
    case (Inr u)
    with that obtain a where a: "get_auction E s i = Some a" "au_top_bidder a = None"
      and sv: "save_auction i (a\<lparr>au_cancelled := True\<rparr>) s = (Inr u, s')"
      by (auto simp: apply_cancel_def andThen_Inr seq_Inr load_record_Inr ensure_apply split: if_splits)
    show ?thesis
      using auctions.escrow_save [OF sv prefix_auction_key, of E] a by (simp add: open_escrow_def)
  qed
  then show ?thesis
    unfolding keeps_def by (metis prod.collapse)
qed

text \<open>Opening replaces whatever the key held.\<close>

lemma open_value:
  assumes "apply_name_open i n opener m ee e s = (r, s')"
  shows "auction_value E s' = auction_value E s - (if r = Inr () then auctions.owed E s (auction_key i) else 0)"
proof (cases "state_get s (name_owner_key n)")
  case None
  let ?a = "new_auction i (NameKind n) opener (max m (name_min_bid n)) ee e"
  obtain s1 where sv: "save_auction i ?a s = (Inr (), s1)"
    by (simp add: save_record_apply)
  with None assms have st: "state_set (name_active_key n) (Text i) s1 = (r, s')"
    by (simp add: apply_name_open_def Let_def act_simps)
  moreover from st have "r = Inr ()"
    by (simp add: state_set_def act_simps)
  ultimately show ?thesis
    using auctions.escrow_save [OF sv prefix_auction_key, of E]
      keepsD [OF keeps_escrow_other(1) st, of "''auction:''" E AuctionState_of_json open_escrow]
    by (simp add: open_escrow_def new_auction_def)
next
  case (Some v)
  with assms show ?thesis by (auto simp: apply_name_open_def act_simps)
qed

lemma freeport_open_value:
  assumes "apply_freeport_open i ty it seller m ee e s = (r, s')"
  shows "auction_value E s' = auction_value E s - auctions.owed E s (auction_key i)"
  using auctions.escrow_save [OF assms [unfolded apply_freeport_open_def] prefix_auction_key, of E]
  by (simp add: open_escrow_def new_auction_def)

lemma owed_nonneg: "0 \<le> auctions.owed E s k"
  by (simp add: open_escrow_def split: option.split)

definition opens :: "auction_entry \<Rightarrow> string option" where
  "opens x = (case x of
       NameAuctionOpen auction_id _ _ _ _ _ \<Rightarrow> Some auction_id
     | FreeportAuctionOpen auction_id _ _ _ _ _ _ \<Rightarrow> Some auction_id
     | _ \<Rightarrow> None)"

lemma with_actor:
  assumes "seq (touch_alive E a e) (seq (ensure_account a e) m) s = (r, s')"
  obtains s0 where "m s0 = (r, s')" "auction_value E s0 = auction_value E s"
    "\<And>i. get_auction E s0 i = get_auction E s i"
proof -
  obtain s1 where t: "touch_alive E a e s = (Inr (), s1)"
    using touch_alive_result by blast
  obtain s0 where en: "ensure_account a e s1 = (Inr (), s0)"
    using ensure_account_result by blast
  have "get_auction E s0 i = get_auction E s i" for i
    using touch_alive_state_get [OF t, of "auction_key i"] keepsD [OF keeps_ensure_account(3) en]
    by (simp add: peek_state_get auction_key_def state_get_def)
  moreover have "auction_value E s0 = auction_value E s"
    using keepsD [OF keeps_auction_helpers(1) t] keepsD [OF keeps_auction_helpers(2) en] by simp
  moreover have "m s0 = (r, s')"
    using assms t en by (simp add: seq_apply)
  ultimately show ?thesis using that by blast
qed

lemma entry_value:
  assumes fits: "auction_value E s < 2 ^ 64" and run: "apply_auction_entry E x s = (r, s')"
  shows "auction_value E s' \<le> auction_value E s"
    and "opens x = None \<Longrightarrow> auction_value E s' = auction_value E s"
proof -
  have "auction_value E s' \<le> auction_value E s \<and>
    (opens x = None \<longrightarrow> auction_value E s' = auction_value E s)"
  proof (cases x)
    case (NameAuctionOpen i n opener m ee e)
    with run obtain s0 where o: "apply_name_open i n opener m ee e s0 = (r, s')"
      and v: "auction_value E s0 = auction_value E s"
      by simp (erule with_actor)
    from open_value [OF o, of E] owed_nonneg [of E s0 "auction_key i"] v NameAuctionOpen
    show ?thesis by (auto simp: opens_def)
  next
    case (NameAuctionBid i b n e)
    with run obtain s0 where "apply_bid E i b n e s0 = (r, s')" "auction_value E s0 = auction_value E s"
      by simp (erule with_actor)
    with fits bid_conserves [of E s0] show ?thesis by simp
  next
    case (NameAuctionSettle i e)
    with fits run settle_conserves [of E s] show ?thesis by simp
  next
    case (NameAuctionCancel i q)
    with run keepsD [OF cancel_conserves] show ?thesis by simp
  next
    case (FreeportAuctionOpen i ty it seller m ee e)
    with run obtain s0 where o: "apply_freeport_open i ty it seller m ee e s0 = (r, s')"
      and v: "auction_value E s0 = auction_value E s"
      by simp (erule with_actor)
    from freeport_open_value [OF o, of E] owed_nonneg [of E s0 "auction_key i"] v FreeportAuctionOpen
    show ?thesis by (auto simp: opens_def)
  next
    case (FreeportAuctionBid i b n e)
    with run obtain s0 where "apply_bid E i b n e s0 = (r, s')" "auction_value E s0 = auction_value E s"
      by simp (erule with_actor)
    with fits bid_conserves [of E s0] show ?thesis by simp
  next
    case (FreeportAuctionSettle i e)
    with fits run settle_conserves [of E s] show ?thesis by simp
  qed
  then show "auction_value E s' \<le> auction_value E s"
    and "opens x = None \<Longrightarrow> auction_value E s' = auction_value E s" by simp_all
qed

section \<open>Closed auctions\<close>

lemma keeps_other_auction:
  assumes "j \<noteq> i"
  shows "keeps (\<lambda>s. get_auction E s i) (save_auction j a)"
  using assms by (auto simp: keeps_def peek_state_get save_record_apply state_set_def state_get_def
      act_simps auction_key_def)

lemma keeps_other_ops:
  assumes "j \<noteq> i"
  shows "keeps (\<lambda>s. get_auction E s i) (apply_bid E j b n e)"
    and "keeps (\<lambda>s. get_auction E s i) (apply_settle E j e)"
    and "keeps (\<lambda>s. get_auction E s i) (apply_cancel E j q)"
    and "keeps (\<lambda>s. get_auction E s i) (apply_name_open j nm op m ee e)"
    and "keeps (\<lambda>s. get_auction E s i) (apply_freeport_open j ty it op m ee e)"
  unfolding apply_bid_def apply_settle_def apply_cancel_def apply_name_open_def apply_freeport_open_def Let_def
  using assms
  by (intro keeps_intros keeps_other_auction keeps_get_auction_assign peek_auction_kept keeps_peek; simp)+

definition closed :: "AuctionState \<Rightarrow> bool" where
  "closed a \<longleftrightarrow> au_settled a \<or> au_cancelled a"

lemma closed_refuses:
  assumes "get_auction E s i = Some a" "closed a"
  shows "apply_bid E i b n e s = (Inl (Err ''auction is closed''), s)"
    and "apply_settle E i e s = (Inl (Err ''auction already closed''), s)"
    and "snd (apply_cancel E i q s) = s"
  using assms
  by (auto simp: apply_bid_def apply_settle_def apply_cancel_def act_simps load_record_apply closed_def)

lemma closed_entry:
  assumes a: "get_auction E s i = Some a" "closed a" and o: "opens x \<noteq> Some i"
  shows "get_auction E (snd (apply_auction_entry E x s)) i = Some a"
proof -
  have bid: "get_auction E s' i = Some a"
    if "apply_bid E j b n e s0 = (r, s')" "get_auction E s0 i = Some a" for j b n e s0 r s'
    using that keepsD [OF keeps_other_ops(1) that(1)] closed_refuses(1) [OF that(2) a(2)]
    by (cases "j = i") auto
  have settle: "get_auction E (snd (apply_settle E j e s)) i = Some a" for j e
    using a keeps_other_ops(2) [of j i E e] closed_refuses(2) [OF a]
    by (cases "j = i") (auto simp: keeps_def)
  obtain r s' where run: "apply_auction_entry E x s = (r, s')"
    by (cases "apply_auction_entry E x s")
  show ?thesis
  proof (cases x)
    case (NameAuctionOpen j n opener m ee e)
    with run obtain s0 where "apply_name_open j n opener m ee e s0 = (r, s')" "get_auction E s0 i = Some a"
      using a(1) by simp (erule with_actor, simp)
    with keepsD [OF keeps_other_ops(4)] o NameAuctionOpen run show ?thesis by (auto simp: opens_def)
  next
    case (FreeportAuctionOpen j ty it op m ee e)
    with run obtain s0 where "apply_freeport_open j ty it op m ee e s0 = (r, s')" "get_auction E s0 i = Some a"
      using a(1) by simp (erule with_actor, simp)
    with keepsD [OF keeps_other_ops(5)] o FreeportAuctionOpen run show ?thesis by (auto simp: opens_def)
  next
    case (NameAuctionBid j b n e)
    with run obtain s0 where "apply_bid E j b n e s0 = (r, s')" "get_auction E s0 i = Some a"
      using a(1) by simp (erule with_actor, simp)
    with bid run show ?thesis by simp
  next
    case (FreeportAuctionBid j b n e)
    with run obtain s0 where "apply_bid E j b n e s0 = (r, s')" "get_auction E s0 i = Some a"
      using a(1) by simp (erule with_actor, simp)
    with bid run show ?thesis by simp
  next
    case (NameAuctionCancel j q)
    then show ?thesis
      using a keeps_other_ops(3) [of j i E q] closed_refuses(3) [OF a]
      by (cases "j = i") (auto simp: keeps_def)
  qed (use settle in simp_all)
qed

section \<open>Theorems\<close>

fun run_auctions :: "env \<Rightarrow> auction_entry list \<Rightarrow> chain \<Rightarrow> chain" where
  "run_auctions E [] s = s"
| "run_auctions E (x # xs) s = run_auctions E xs (snd (apply_auction_entry E x s))"

definition demo_auction :: AuctionState where
  "demo_auction = (new_auction ''a1'' (NameKind ''shindevlin2'') ''alice'' 5 10 1)
     \<lparr>au_top_bidder := Some ''bob'', au_top_bid := 20\<rparr>"

definition demo_auction_chain :: chain where
  "demo_auction_chain =
     empty_chain\<lparr>cf_balances := kv_put (balance_key ''carol'' NATIVE_TOKEN) 50 [],
       cf_meta := [(auction_key ''a1'', Json (AuctionState_json demo_auction))]\<rparr>"

lemma demo_auction_found [simp]: "get_auction E demo_auction_chain ''a1'' = Some demo_auction"
  by (simp add: peek_state_get demo_auction_chain_def state_get_def AuctionState_roundtrip kv_get_def)

lemma demo_auction_value [simp]: "auction_value E demo_auction_chain = 70"
proof -
  have "hone_total demo_auction_chain = 50"
    by (simp add: token_supply_def demo_auction_chain_def kv_sum_def kv_get_def supply_share_def
        token_of_balance_key)
  moreover have "record_total E AuctionState_of_json ''auction:'' open_escrow demo_auction_chain = 20"
    by (simp add: record_total_def demo_auction_chain_def kv_sum_def record_share_def kv_get_def
        AuctionState_roundtrip open_escrow_def demo_auction_def new_auction_def)
  ultimately show ?thesis by (simp add: escrow_value_def)
qed

lemma demo_carol [simp]: "get_balance demo_auction_chain ''carol'' NATIVE_TOKEN = 50"
  by (simp add: get_balance_def demo_auction_chain_def)

text \<open>
  (C5) Auctions never create value. While the native balances and the escrowed top bids together fit
  a \<open>u64\<close>, their total does not grow under any sequence of auction entries, whether they are
  accepted or refused; and bids, settlements and cancellations leave it exactly as it was.
\<close>

theorem auction_value_never_grows:
  assumes "auction_value E s < 2 ^ 64"
  shows "auction_value E (run_auctions E xs s) \<le> auction_value E s \<and>
    ((\<forall>x \<in> set xs. opens x = None) \<longrightarrow> auction_value E (run_auctions E xs s) = auction_value E s)"
  using assms
proof (induction xs arbitrary: s)
  case Nil
  then show ?case by simp
next
  case (Cons x xs)
  obtain r s' where run: "apply_auction_entry E x s = (r, s')"
    by (cases "apply_auction_entry E x s")
  note step = entry_value [OF Cons.prems run]
  from step(1) Cons.prems have "auction_value E s' < 2 ^ 64" by linarith
  from Cons.IH [OF this] step run show ?case by auto
qed

theorem auction_value_never_grows_witness:
  "auction_value demo_env (run_auctions demo_env
     [FreeportAuctionBid ''a1'' ''carol'' 30 2, NameAuctionSettle ''a1'' 11] demo_auction_chain) = 70"
  using auction_value_never_grows [of demo_env demo_auction_chain
      "[FreeportAuctionBid ''a1'' ''carol'' 30 2, NameAuctionSettle ''a1'' 11]"]
  by (simp add: opens_def)

text \<open>
  What a bid does. On an open auction, a bid above the top bid and at least the minimum, which the
  bidder can pay, is accepted: the record names the new top bidder and bid and remembers the previous
  ones, the bidder has paid the bid, the previous top bidder has its bid back, nobody else's balance
  moves.
\<close>

theorem bid_accepted:
  assumes "auction_value E s < 2 ^ 64" and "get_auction E s i = Some a" and "bid_ok a n e"
    and "n \<le> get_balance s b NATIVE_TOKEN"
  shows "\<exists>s'. apply_bid E i b n e s = (Inr (), s') \<and> get_auction E s' i = Some (outbid a b n) \<and>
    (\<forall>y. uint (get_balance s' y NATIVE_TOKEN) =
      uint (get_balance s y NATIVE_TOKEN) - (if y = b then uint n else 0) + refund_of a y)"
  using assms by (rule bid_runs) (intro exI conjI)

theorem bid_accepted_witness:
  "\<exists>s'. apply_bid demo_env ''a1'' ''carol'' 30 2 demo_auction_chain = (Inr (), s') \<and>
    uint (get_balance s' ''carol'' NATIVE_TOKEN) = 20 \<and>
    uint (get_balance s' ''bob'' NATIVE_TOKEN) =
      uint (get_balance demo_auction_chain ''bob'' NATIVE_TOKEN) + 20"
proof -
  have "bid_ok demo_auction 30 2"
    by (simp add: bid_ok_def demo_auction_def new_auction_def)
  from bid_accepted [of demo_env demo_auction_chain "''a1''", OF _ _ this, of "''carol''"]
  obtain s' where run: "apply_bid demo_env ''a1'' ''carol'' 30 2 demo_auction_chain = (Inr (), s')"
    and bal: "\<forall>y. uint (get_balance s' y NATIVE_TOKEN) = uint (get_balance demo_auction_chain y NATIVE_TOKEN) -
      (if y = ''carol'' then 30 else 0) + refund_of demo_auction y"
    by auto
  have "refund_of demo_auction ''carol'' = 0" "refund_of demo_auction ''bob'' = 20"
    by (simp_all add: refund_of_def demo_auction_def new_auction_def)
  with bal have "uint (get_balance s' ''carol'' NATIVE_TOKEN) = 20"
    "uint (get_balance s' ''bob'' NATIVE_TOKEN) =
      uint (get_balance demo_auction_chain ''bob'' NATIVE_TOKEN) + 20"
    by simp_all
  then show ?thesis using run by blast
qed

text \<open>
  What a settlement does. After its end an auction that is still open can be settled by anyone:
  the opener receives exactly the escrowed top bid and nobody else's balance moves, a name belongs to
  the winner, and the record is closed.
\<close>

theorem settle_pays_opener:
  assumes "auction_value E s < 2 ^ 64" and "get_auction E s i = Some a" and "settle_ok a e"
  shows "\<exists>s'. apply_settle E i e s = (Inr (), s') \<and>
    get_auction E s' i = Some (a\<lparr>au_settled := True\<rparr>) \<and> name_won a s' \<and>
    (\<forall>y. uint (get_balance s' y NATIVE_TOKEN) =
      uint (get_balance s y NATIVE_TOKEN) + (if y = au_opener a then open_escrow a else 0))"
  using assms by (rule settle_runs) (intro exI conjI)

theorem settle_pays_opener_witness:
  "\<exists>s'. apply_settle demo_env ''a1'' 11 demo_auction_chain = (Inr (), s') \<and> name_won demo_auction s' \<and>
    uint (get_balance s' ''carol'' NATIVE_TOKEN) = 50"
proof -
  have ok: "settle_ok demo_auction 11"
    by (simp add: settle_ok_def demo_auction_def new_auction_def)
  have "au_opener demo_auction \<noteq> ''carol''"
    by (simp add: demo_auction_def new_auction_def)
  moreover obtain s' where "apply_settle demo_env ''a1'' 11 demo_auction_chain = (Inr (), s')"
    "name_won demo_auction s'" "\<forall>y. uint (get_balance s' y NATIVE_TOKEN) =
      uint (get_balance demo_auction_chain y NATIVE_TOKEN) +
      (if y = au_opener demo_auction then open_escrow demo_auction else 0)"
    using settle_pays_opener [OF _ demo_auction_found ok, of demo_env] by auto
  ultimately show ?thesis by auto
qed

text \<open>
  A closed auction stays as it was: its record is the same after any sequence of auction entries
  that does not open an auction under its id, so that no bid is taken and nothing is paid twice.
\<close>

theorem closed_auction_final:
  assumes "get_auction E s i = Some a" and "closed a" and "\<forall>x \<in> set xs. opens x \<noteq> Some i"
  shows "get_auction E (run_auctions E xs s) i = Some a"
  using assms by (induction xs arbitrary: s) (simp_all add: closed_entry)

theorem closed_auction_final_witness:
  "get_auction demo_env (run_auctions demo_env [FreeportAuctionSettle ''a2'' 11, NameAuctionSettle ''a2'' 12]
     (snd (save_auction ''a2'' (demo_auction\<lparr>au_settled := True\<rparr>) empty_chain))) ''a2'' =
    Some (demo_auction\<lparr>au_settled := True\<rparr>)"
proof -
  have "get_auction demo_env (snd (save_auction ''a2'' (demo_auction\<lparr>au_settled := True\<rparr>) empty_chain)) ''a2'' =
      Some (demo_auction\<lparr>au_settled := True\<rparr>)"
    by (rule auction_rec.peek_save [of _ _ _ "Inr ()"]) (simp add: save_record_apply)
  then show ?thesis
    by (rule closed_auction_final) (simp_all add: closed_def opens_def)
qed

text \<open>
  Opening an auction does not look whether its id is in use. For a name nobody owns, anyone can
  open an auction under the id of a running one: the record of the running auction is replaced, no
  balance changes, and the escrowed top bid is out of the system for good.
\<close>

theorem reopening_strands_bid:
  assumes "get_auction E s i = Some a" and "state_get s (name_owner_key n) = None"
  shows "\<exists>s'. apply_name_open i n opener m ee e s = (Inr (), s') \<and>
    (\<forall>y t. get_balance s' y t = get_balance s y t) \<and>
    auction_value E s' = auction_value E s - open_escrow a"
proof -
  obtain r s' where run: "apply_name_open i n opener m ee e s = (r, s')"
    by (cases "apply_name_open i n opener m ee e s")
  have r: "r = Inr ()"
    using run assms(2) by (auto simp: apply_name_open_def Let_def act_simps save_record_apply state_set_def)
  have "keeps cf_balances (apply_name_open i n opener m ee e)"
    unfolding apply_name_open_def Let_def by (intro keeps_intros)
  from balances_kept [OF this run] open_value [OF run, of E] assms(1) run r show ?thesis by auto
qed

theorem reopening_strands_bid_witness:
  "\<exists>s'. apply_name_open ''a1'' ''zz'' ''mallory'' 0 9 2 demo_auction_chain = (Inr (), s') \<and>
    auction_value demo_env s' = 50"
proof -
  have "state_get demo_auction_chain (name_owner_key ''zz'') = None"
    by (simp add: demo_auction_chain_def state_get_def kv_get_def name_owner_key_def auction_key_def)
  from reopening_strands_bid [OF demo_auction_found this, of "''mallory''" 0 9 2 demo_env]
  show ?thesis by (auto simp: open_escrow_def demo_auction_def new_auction_def)
qed

end
