(* ===== verification/Bridge.thy ===== *)
theory Bridge
  imports Records
begin

text \<open>
  The bridge of wrapped HONE (\<open>bridge.rs\<close>): funding against an external deposit, wrapping and
  unwrapping, the queue of unlock requests and their fulfilment, with the entries that the arms of
  \<open>chain.rs\<close> pass on.

  The supply counter equals the wHONE in all balances and stays below the cap under any sequence of
  entries whose amounts leave room in a \<open>u64\<close>; the queue only grows at its end and a fulfilled
  request stays fulfilled. Two defects are stated: the cap check adds in \<open>u64\<close> without an overflow
  check, so a large enough deposit passes it; and two unwraps of an account to the same address in
  one epoch share their request id, so that the second can never be fulfilled.
\<close>

section \<open>State\<close>

definition BRIDGE_CAP_HUNITS :: u64 where
  "BRIDGE_CAP_HUNITS = 4200000 * 100000000"

definition WHONE_TOKEN :: string where
  "WHONE_TOKEN = ''wHONE''"

definition BRIDGE_QUEUE_KEY :: string where
  "BRIDGE_QUEUE_KEY = ''bridge_unlock_queue''"

definition BRIDGE_SUPPLY_KEY :: string where
  "BRIDGE_SUPPLY_KEY = ''bridge_whone_supply''"

record UnlockRequest =
  rq_id :: string
  rq_recipient_external :: string
  rq_amount_hunits :: u64
  rq_queued_epoch :: u64
  rq_chain :: string
  rq_fulfilled :: bool

definition UnlockRequest_json :: "UnlockRequest \<Rightarrow> json" where
  "UnlockRequest_json r = jobj [
     (''request_id'', JStr (rq_id r)), (''recipient_external'', JStr (rq_recipient_external r)),
     (''amount_hunits'', JNum (rq_amount_hunits r)), (''queued_epoch'', JNum (rq_queued_epoch r)),
     (''chain'', JStr (rq_chain r)), (''fulfilled'', JBool (rq_fulfilled r))]"

definition UnlockRequest_of_json :: "json \<Rightarrow> UnlockRequest option" where
  "UnlockRequest_of_json j =
     Option.bind (field_str j ''request_id'') (\<lambda>request_id.
     Option.bind (field_str j ''recipient_external'') (\<lambda>recipient.
     Option.bind (field_u64 j ''amount_hunits'') (\<lambda>amount.
     Option.bind (field_u64 j ''queued_epoch'') (\<lambda>epoch.
     Option.bind (field_str j ''chain'') (\<lambda>ext_chain.
     Option.bind (field_bool j ''fulfilled'') (\<lambda>fulfilled.
     Some \<lparr>rq_id = request_id, rq_recipient_external = recipient, rq_amount_hunits = amount,
       rq_queued_epoch = epoch, rq_chain = ext_chain, rq_fulfilled = fulfilled\<rparr>))))))"

lemma UnlockRequest_roundtrip: "UnlockRequest_of_json (UnlockRequest_json r) = Some r"
  by (simp add: UnlockRequest_of_json_def UnlockRequest_json_def field_defs)

interpretation request_rec: record_codec UnlockRequest_json UnlockRequest_of_json
  by unfold_locales (rule UnlockRequest_roundtrip)

interpretation queue_rec: record_codec "vec_json UnlockRequest_json" "as_vec UnlockRequest_of_json"
  by unfold_locales (rule request_rec.as_vec_json)

definition bridge_supply :: "env \<Rightarrow> chain \<Rightarrow> u64" where
  "bridge_supply E s = (case state_u64 E s BRIDGE_SUPPLY_KEY of Some n \<Rightarrow> n | None \<Rightarrow> 0)"

definition unlock_queue :: "env \<Rightarrow> chain \<Rightarrow> UnlockRequest list" where
  "unlock_queue E s =
    (case peek E (as_vec UnlockRequest_of_json) s BRIDGE_QUEUE_KEY of Some q \<Rightarrow> q | None \<Rightarrow> [])"

abbreviation set_bridge_supply :: "u64 \<Rightarrow> unit chain_act" where
  "set_bridge_supply n \<equiv> state_set BRIDGE_SUPPLY_KEY (Json (JNum n))"

abbreviation set_unlock_queue :: "UnlockRequest list \<Rightarrow> unit chain_act" where
  "set_unlock_queue \<equiv> save_record (vec_json UnlockRequest_json) BRIDGE_QUEUE_KEY"

section \<open>Operations\<close>

definition apply_fund ::
  "env \<Rightarrow> string \<Rightarrow> string \<Rightarrow> u64 \<Rightarrow> string \<Rightarrow> string \<Rightarrow> u64 \<Rightarrow> unit chain_act" where
  "apply_fund E bridge_id custodian amount external_tx_hash ext_chain epoch =
    (let dedup_key = ''bridge_fund_tx:'' @ external_tx_hash in
     andThen (reads (\<lambda>s. state_get s dedup_key)) (\<lambda>seen.
     seq (ensure (seen = None) (Err ''external tx already processed''))
    (andThen (reads (bridge_supply E)) (\<lambda>current_supply.
     seq (ensure (current_supply + amount \<le> BRIDGE_CAP_HUNITS) (Err ''bridge cap exceeded''))
    (seq (credit custodian WHONE_TOKEN amount)
    (seq (set_bridge_supply (current_supply + amount))
    (seq (state_set dedup_key (Json (JNum epoch)))
         (state_set (''bridge_fund:'' @ show_u64 epoch @ '':'' @ external_tx_hash) (Json (jobj [
            (''bridge_id'', JStr bridge_id), (''custodian'', JStr custodian),
            (''amount_hunits'', JNum amount), (''external_tx_hash'', JStr external_tx_hash),
            (''chain'', JStr ext_chain), (''epoch'', JNum epoch)]))))))))))"

definition apply_wrap :: "env \<Rightarrow> string \<Rightarrow> u64 \<Rightarrow> string \<Rightarrow> string \<Rightarrow> u64 \<Rightarrow> unit chain_act" where
  "apply_wrap E account amount external_address ext_chain epoch =
     andThen (reads (bridge_supply E)) (\<lambda>current_supply.
     seq (ensure (current_supply + amount \<le> BRIDGE_CAP_HUNITS) (Err ''bridge cap exceeded''))
    (seq (debit account NATIVE_TOKEN amount)
    (seq (credit account WHONE_TOKEN amount)
    (seq (set_bridge_supply (current_supply + amount))
         (state_set (''bridge_wrap:'' @ account @ '':'' @ show_u64 epoch) (Json (jobj [
            (''account'', JStr account), (''amount_hunits'', JNum amount),
            (''external_address'', JStr external_address), (''chain'', JStr ext_chain),
            (''epoch'', JNum epoch)])))))))"

definition unwrap_request_id :: "env \<Rightarrow> string \<Rightarrow> u64 \<Rightarrow> string \<Rightarrow> string" where
  "unwrap_request_id E account epoch recipient_external =
     hex_encode E (sha256 E (''unwrap:'' @ account @ '':'' @ show_u64 epoch @ '':'' @ recipient_external))"

definition apply_unwrap :: "env \<Rightarrow> string \<Rightarrow> u64 \<Rightarrow> string \<Rightarrow> string \<Rightarrow> u64 \<Rightarrow> unit chain_act" where
  "apply_unwrap E account amount recipient_external ext_chain epoch =
     seq (debit account WHONE_TOKEN amount)
    (andThen (reads (\<lambda>s. sat_sub (bridge_supply E s) amount)) (\<lambda>new_supply.
     seq (set_bridge_supply new_supply)
    (let req = \<lparr>rq_id = unwrap_request_id E account epoch recipient_external,
           rq_recipient_external = recipient_external, rq_amount_hunits = amount,
           rq_queued_epoch = epoch, rq_chain = ext_chain, rq_fulfilled = False\<rparr> in
     andThen (reads (unlock_queue E)) (\<lambda>queue. set_unlock_queue (queue @ [req])))))"

text \<open>\<open>queue.iter_mut().find(...)\<close>: the first request with the id is the one that is changed.\<close>

fun mark_fulfilled :: "string \<Rightarrow> UnlockRequest list \<Rightarrow> UnlockRequest list" where
  "mark_fulfilled request_id [] = []"
| "mark_fulfilled request_id (r # rs) =
    (if rq_id r = request_id then r\<lparr>rq_fulfilled := True\<rparr> # rs
     else r # mark_fulfilled request_id rs)"

definition apply_unlock :: "env \<Rightarrow> string \<Rightarrow> string \<Rightarrow> string \<Rightarrow> u64 \<Rightarrow> unit chain_act" where
  "apply_unlock E request_id custodian external_tx_hash epoch =
     andThen (reads (unlock_queue E)) (\<lambda>queue.
     andThen (need (find (\<lambda>r. rq_id r = request_id) queue) (Err ''unlock request not found'')) (\<lambda>req.
     seq (ensure (\<not> rq_fulfilled req) (Err ''request already fulfilled''))
    (seq (set_unlock_queue (mark_fulfilled request_id queue))
         (state_set (''bridge_unlock:'' @ request_id @ '':'' @ show_u64 epoch) (Json (jobj [
            (''request_id'', JStr request_id), (''custodian'', JStr custodian),
            (''external_tx_hash'', JStr external_tx_hash), (''epoch'', JNum epoch)]))))))"

datatype bridge_entry =
    BridgeFund string string u64 string string u64
  | BridgeWrap string u64 string string u64
  | BridgeUnwrap string u64 string string u64
  | BridgeUnlock string string string u64

fun apply_bridge_entry :: "env \<Rightarrow> bridge_entry \<Rightarrow> unit chain_act" where
  "apply_bridge_entry E (BridgeFund bridge_id custodian amount tx ext_chain epoch) =
     apply_fund E bridge_id custodian amount tx ext_chain epoch"
| "apply_bridge_entry E (BridgeWrap account amount addr ext_chain epoch) =
     apply_wrap E account amount addr ext_chain epoch"
| "apply_bridge_entry E (BridgeUnwrap account amount recipient ext_chain epoch) =
     apply_unwrap E account amount recipient ext_chain epoch"
| "apply_bridge_entry E (BridgeUnlock request_id custodian tx epoch) =
     apply_unlock E request_id custodian tx epoch"

section \<open>Supply\<close>

lemma plain_WHONE [simp]: "plain_token WHONE_TOKEN"
  by (simp add: plain_token_def WHONE_TOKEN_def)

lemma WHONE_not_NATIVE [simp]: "WHONE_TOKEN \<noteq> NATIVE_TOKEN" "NATIVE_TOKEN \<noteq> WHONE_TOKEN"
  by (simp_all add: WHONE_TOKEN_def NATIVE_TOKEN_def)

interpretation wrapped: value_ledger "token_supply WHONE_TOKEN"
  "\<lambda>a. debit a WHONE_TOKEN" "\<lambda>a. credit a WHONE_TOKEN"
  by unfold_locales
    (use gains_debit [of WHONE_TOKEN WHONE_TOKEN] gains_credit [of WHONE_TOKEN WHONE_TOKEN] in simp_all)

lemma bridge_supply_cong:
  "state_get s' BRIDGE_SUPPLY_KEY = state_get s BRIDGE_SUPPLY_KEY \<Longrightarrow> bridge_supply E s' = bridge_supply E s"
  by (simp add: bridge_supply_def state_u64_def state_json_def)

lemma unlock_queue_cong:
  "state_get s' BRIDGE_QUEUE_KEY = state_get s BRIDGE_QUEUE_KEY \<Longrightarrow> unlock_queue E s' = unlock_queue E s"
  unfolding unlock_queue_def by (simp only: peek_cong [of s' BRIDGE_QUEUE_KEY s])

lemma bridge_frames:
  "k \<noteq> BRIDGE_SUPPLY_KEY \<Longrightarrow> keeps (bridge_supply E) (state_set k v)"
  "k \<noteq> BRIDGE_QUEUE_KEY \<Longrightarrow> keeps (unlock_queue E) (state_set k v)"
  "keeps cf_meta m \<Longrightarrow> keeps (bridge_supply E) m"
  "keeps cf_meta m \<Longrightarrow> keeps (unlock_queue E) m"
  by (auto simp: keeps_def state_set_def state_get_def act_simps
      intro!: bridge_supply_cong unlock_queue_cong)

lemma bridge_keys_neq [simp]:
  "BRIDGE_QUEUE_KEY \<noteq> BRIDGE_SUPPLY_KEY" "BRIDGE_SUPPLY_KEY \<noteq> BRIDGE_QUEUE_KEY"
  by (simp_all add: BRIDGE_QUEUE_KEY_def BRIDGE_SUPPLY_KEY_def)

lemma bridge_supply_set: "set_bridge_supply n s = (r, s') \<Longrightarrow> bridge_supply E s' = n"
  by (simp add: state_get_set bridge_supply_def state_u64_def state_json_def)

lemma unlock_queue_set: "set_unlock_queue q s = (r, s') \<Longrightarrow> unlock_queue E s' = q"
  by (simp add: unlock_queue_def queue_rec.peek_save)

lemma keeps_supply_queue_set: "keeps (bridge_supply E) (set_unlock_queue q)"
  unfolding save_record_def by (rule bridge_frames) simp

lemma keeps_queue_supply_set: "keeps (unlock_queue E) (set_bridge_supply n)"
  by (rule bridge_frames) simp

text \<open>The counter is the wHONE in circulation, and within the cap.\<close>

definition bridge_ok :: "env \<Rightarrow> chain \<Rightarrow> bool" where
  "bridge_ok E s \<longleftrightarrow> uint (bridge_supply E s) = token_supply WHONE_TOKEN s \<and>
     bridge_supply E s \<le> BRIDGE_CAP_HUNITS"

text \<open>An amount that cannot wrap the addition in the cap check.\<close>

definition amount_fits :: "u64 \<Rightarrow> bool" where
  "amount_fits n \<longleftrightarrow> unat BRIDGE_CAP_HUNITS + unat n < 2 ^ 64"

lemma cap_check_exact:
  assumes "bridge_supply E s \<le> BRIDGE_CAP_HUNITS" "amount_fits n"
  shows "unat (bridge_supply E s) + unat n < 2 ^ 64"
  using assms by (simp add: amount_fits_def u64_le_iff)

lemma bridge_ok_cong:
  "bridge_supply E s' = bridge_supply E s \<Longrightarrow> token_supply WHONE_TOKEN s' = token_supply WHONE_TOKEN s \<Longrightarrow>
    bridge_ok E s' = bridge_ok E s"
  by (simp add: bridge_ok_def)

lemma mint_runs:
  assumes ok: "bridge_ok E s" and n: "amount_fits n" "bridge_supply E s + n \<le> BRIDGE_CAP_HUNITS"
  obtains x s1 s2 where "credit a WHONE_TOKEN n s = (Inr x, s1)"
    "set_bridge_supply (bridge_supply E s + n) s1 = (Inr (), s2)" "bridge_ok E s2"
    "bridge_supply E s2 = bridge_supply E s + n"
proof -
  have room: "unat (bridge_supply E s) + unat n < 2 ^ 64"
    using ok n(1) by (intro cap_check_exact) (simp_all add: bridge_ok_def)
  have "uint (get_balance s a WHONE_TOKEN) \<le> uint (bridge_supply E s)"
    using balance_le_supply [OF plain_WHONE, of s a] ok by (simp add: bridge_ok_def)
  then have "unat (get_balance s a WHONE_TOKEN) \<le> unat (bridge_supply E s)"
    by (simp only: uint_nat of_nat_le_iff)
  with room obtain x s1 where c: "credit a WHONE_TOKEN n s = (Inr x, s1)"
    by (simp add: credit_cases)
  obtain s2 where st: "set_bridge_supply (bridge_supply E s + n) s1 = (Inr (), s2)"
    by (simp add: state_set_def act_simps)
  have "token_supply WHONE_TOKEN s2 = token_supply WHONE_TOKEN s + uint n"
    using gainsD [OF wrapped.pay_in_gains c] keepsD [OF keeps_token_supply [OF keeps_balances_writes(4)] st]
    by simp
  moreover have "uint (bridge_supply E s + n) = uint (bridge_supply E s) + uint n"
    by (rule uint_u64_add [OF room])
  ultimately have "bridge_ok E s2"
    using ok n(2) bridge_supply_set [OF st, of E] by (simp add: bridge_ok_def)
  with c st bridge_supply_set [OF st] show ?thesis using that by blast
qed

lemma keeps_ok_state_set:
  "k \<noteq> BRIDGE_SUPPLY_KEY \<Longrightarrow> state_set k v s = (r, s') \<Longrightarrow> bridge_ok E s' = bridge_ok E s"
  by (rule bridge_ok_cong) (erule keepsD [OF bridge_frames(1)], simp,
    rule keepsD [OF keeps_token_supply [OF keeps_balances_writes(4)]])

lemma bridge_record_keys:
  "''bridge_fund_tx:'' @ x \<noteq> BRIDGE_SUPPLY_KEY" "''bridge_fund:'' @ x \<noteq> BRIDGE_SUPPLY_KEY"
  "''bridge_wrap:'' @ x \<noteq> BRIDGE_SUPPLY_KEY" "''bridge_unlock:'' @ x \<noteq> BRIDGE_SUPPLY_KEY"
  "''bridge_fund_tx:'' @ x \<noteq> BRIDGE_QUEUE_KEY" "''bridge_fund:'' @ x \<noteq> BRIDGE_QUEUE_KEY"
  "''bridge_wrap:'' @ x \<noteq> BRIDGE_QUEUE_KEY" "''bridge_unlock:'' @ x \<noteq> BRIDGE_QUEUE_KEY"
  by (simp_all add: BRIDGE_SUPPLY_KEY_def BRIDGE_QUEUE_KEY_def)

lemma state_set_runs: "\<exists>s'. state_set k v s = (Inr (), s')"
  by (simp add: state_set_def act_simps)

lemma fund_ok:
  assumes ok: "bridge_ok E s" and n: "amount_fits n" and run: "apply_fund E b c n tx ch e s = (r, s')"
  shows "bridge_ok E s'"
proof (cases "state_get s (''bridge_fund_tx:'' @ tx) = None \<and> bridge_supply E s + n \<le> BRIDGE_CAP_HUNITS")
  case False
  with run have "s' = s"
    by (auto simp: apply_fund_def Let_def andThen_apply seq_apply reads_apply ensure_apply split: if_splits)
  with ok show ?thesis by simp
next
  case True
  then obtain x s1 s2 where m: "credit c WHONE_TOKEN n s = (Inr x, s1)"
    "set_bridge_supply (bridge_supply E s + n) s1 = (Inr (), s2)" and ok2: "bridge_ok E s2"
    using mint_runs [OF ok n, of c] by blast
  obtain s3 where d: "state_set (''bridge_fund_tx:'' @ tx) (Json (JNum e)) s2 = (Inr (), s3)"
    using state_set_runs by blast
  from True m d run obtain v where "state_set (''bridge_fund:'' @ show_u64 e @ '':'' @ tx) v s3 = (r, s')"
    by (simp add: apply_fund_def Let_def andThen_apply seq_apply reads_apply ensure_apply)
  from keeps_ok_state_set [OF bridge_record_keys(2) this] keeps_ok_state_set [OF bridge_record_keys(1) d] ok2
  show ?thesis by simp
qed

lemma wrap_ok:
  assumes ok: "bridge_ok E s" and n: "amount_fits n" and run: "apply_wrap E a n ad ch e s = (r, s')"
  shows "bridge_ok E s'"
proof (cases "bridge_supply E s + n \<le> BRIDGE_CAP_HUNITS \<and> n \<le> get_balance s a NATIVE_TOKEN")
  case False
  with run have "s' = s"
    by (auto simp: apply_wrap_def andThen_apply seq_apply reads_apply ensure_apply debit_cases split: if_splits)
  with ok show ?thesis by simp
next
  case True
  then obtain y s0 where d: "debit a NATIVE_TOKEN n s = (Inr y, s0)"
    by (simp add: debit_cases)
  have sup: "bridge_supply E s0 = bridge_supply E s"
    by (rule keepsD [OF bridge_frames(3) [OF keeps_debit(3)] d])
  have "token_supply WHONE_TOKEN s0 = token_supply WHONE_TOKEN s"
    using gainsD [OF other_token_debit d] by simp
  with sup ok have "bridge_ok E s0" using bridge_ok_cong by blast
  then obtain x s1 s2 where m: "credit a WHONE_TOKEN n s0 = (Inr x, s1)"
    "set_bridge_supply (bridge_supply E s + n) s1 = (Inr (), s2)" and ok2: "bridge_ok E s2"
    using mint_runs [of E s0 n a] n True sup by metis
  from True d m run obtain v where "state_set (''bridge_wrap:'' @ a @ '':'' @ show_u64 e) v s2 = (r, s')"
    by (simp add: apply_wrap_def andThen_apply seq_apply reads_apply ensure_apply)
  from keeps_ok_state_set [OF bridge_record_keys(3) this] ok2 show ?thesis by simp
qed

lemma unwrap_runs:
  assumes "apply_unwrap E a n rc ch e s = (r, s')"
  obtains "r \<noteq> Inr ()" "s' = s"
  | x s1 s2 where "r = Inr ()" "debit a WHONE_TOKEN n s = (Inr x, s1)"
    "set_bridge_supply (sat_sub (bridge_supply E s) n) s1 = (Inr (), s2)"
    "set_unlock_queue (unlock_queue E s @ [\<lparr>rq_id = unwrap_request_id E a e rc,
       rq_recipient_external = rc, rq_amount_hunits = n, rq_queued_epoch = e, rq_chain = ch,
       rq_fulfilled = False\<rparr>]) s2 = (Inr (), s')"
proof (cases "n \<le> get_balance s a WHONE_TOKEN")
  case False
  with assms that(1) show ?thesis
    by (auto simp: apply_unwrap_def seq_apply debit_cases)
next
  case True
  then obtain x s1 where d: "debit a WHONE_TOKEN n s = (Inr x, s1)"
    by (simp add: debit_cases)
  have sup: "bridge_supply E s1 = bridge_supply E s" "unlock_queue E s1 = unlock_queue E s"
    using keepsD [OF bridge_frames(3) [OF keeps_debit(3)] d] keepsD [OF bridge_frames(4) [OF keeps_debit(3)] d]
    by auto
  obtain s2 where st: "set_bridge_supply (sat_sub (bridge_supply E s) n) s1 = (Inr (), s2)"
    using state_set_runs by blast
  have "unlock_queue E s2 = unlock_queue E s"
    using keepsD [OF keeps_queue_supply_set st, of E] sup by simp
  with d st sup assms that(2) show ?thesis
    by (simp add: apply_unwrap_def Let_def andThen_apply seq_apply reads_apply save_record_apply)
qed

lemma unwrap_ok:
  assumes ok: "bridge_ok E s" and run: "apply_unwrap E a n rc ch e s = (r, s')"
  shows "bridge_ok E s'"
  using run
proof (cases rule: unwrap_runs)
  case 1
  with ok show ?thesis by simp
next
  case (2 x s1 s2)
  have "n \<le> get_balance s a WHONE_TOKEN"
    using 2(2) by (simp add: debit_cases split: if_splits)
  moreover have "uint (get_balance s a WHONE_TOKEN) \<le> uint (bridge_supply E s)"
    using balance_le_supply [OF plain_WHONE, of s a] ok by (simp add: bridge_ok_def)
  ultimately have le: "n \<le> bridge_supply E s"
    by (simp add: word_le_def)
  then have u: "uint (sat_sub (bridge_supply E s) n) = uint (bridge_supply E s) - uint n"
    by (simp add: sat_sub_def)
  have "token_supply WHONE_TOKEN s' = token_supply WHONE_TOKEN s - uint n"
    using gainsD [OF wrapped.take_out_gains 2(2)]
      keepsD [OF keeps_token_supply [OF keeps_balances_writes(4)] 2(3)]
      keepsD [OF keeps_token_supply [OF keeps_save_record(1)] 2(4)] by simp
  moreover have "bridge_supply E s' = sat_sub (bridge_supply E s) n"
    using bridge_supply_set [OF 2(3)] keepsD [OF keeps_supply_queue_set 2(4)] by simp
  moreover have "sat_sub (bridge_supply E s) n \<le> bridge_supply E s"
    by (simp add: u64_le_iff unat_sat_sub)
  ultimately show ?thesis
    using ok u by (auto simp: bridge_ok_def)
qed

lemma unlock_ok:
  assumes run: "apply_unlock E i c tx e s = (r, s')"
  shows "bridge_ok E s' = bridge_ok E s"
proof (rule bridge_ok_cong)
  have "keeps (bridge_supply E) (apply_unlock E i c tx e)"
    unfolding apply_unlock_def
    by (intro keeps_intros keeps_supply_queue_set bridge_frames(1) bridge_record_keys)
  from keepsD [OF this run] show "bridge_supply E s' = bridge_supply E s" .
  have "keeps (token_supply WHONE_TOKEN) (apply_unlock E i c tx e)"
    unfolding apply_unlock_def by (intro keeps_token_supply keeps_intros)
  from keepsD [OF this run] show "token_supply WHONE_TOKEN s' = token_supply WHONE_TOKEN s" .
qed

fun entry_amount :: "bridge_entry \<Rightarrow> u64" where
  "entry_amount (BridgeFund bridge_id custodian amount tx ext_chain epoch) = amount"
| "entry_amount (BridgeWrap account amount addr ext_chain epoch) = amount"
| "entry_amount (BridgeUnwrap account amount recipient ext_chain epoch) = amount"
| "entry_amount (BridgeUnlock request_id custodian tx epoch) = 0"

lemma bridge_entry_ok:
  assumes "bridge_ok E s" "amount_fits (entry_amount x)"
  shows "bridge_ok E (snd (apply_bridge_entry E x s))"
proof -
  obtain r s' where run: "apply_bridge_entry E x s = (r, s')"
    by (cases "apply_bridge_entry E x s")
  have "bridge_ok E s'"
  proof (cases x)
    case (BridgeFund b c n tx ch e)
    with assms run fund_ok [of E s n b c tx ch e r s'] show ?thesis by simp
  next
    case (BridgeWrap a n ad ch e)
    with assms run wrap_ok [of E s n a ad ch e r s'] show ?thesis by simp
  next
    case (BridgeUnwrap a n rc ch e)
    with assms run unwrap_ok [of E s a n rc ch e r s'] show ?thesis by simp
  next
    case (BridgeUnlock i c tx e)
    with assms run unlock_ok [of E i c tx e s r s'] show ?thesis by simp
  qed
  with run show ?thesis by simp
qed

fun run_bridge :: "env \<Rightarrow> bridge_entry list \<Rightarrow> chain \<Rightarrow> chain" where
  "run_bridge E [] s = s"
| "run_bridge E (x # xs) s = run_bridge E xs (snd (apply_bridge_entry E x s))"

section \<open>The queue\<close>

text \<open>
  What may happen to the queue: requests are added at the end, and the flag of a request may rise.
\<close>

definition queue_extends :: "UnlockRequest list \<Rightarrow> UnlockRequest list \<Rightarrow> bool" where
  "queue_extends q q' \<longleftrightarrow> length q \<le> length q' \<and>
    (\<forall>k < length q. q' ! k = q ! k \<or> q' ! k = (q ! k)\<lparr>rq_fulfilled := True\<rparr>)"

lemma queue_extends_refl: "queue_extends q q"
  by (simp add: queue_extends_def)

lemma queue_extends_snoc: "queue_extends q (q @ rs)"
  by (simp add: queue_extends_def nth_append)

lemma queue_extends_trans: "queue_extends p q \<Longrightarrow> queue_extends q r \<Longrightarrow> queue_extends p r"
  unfolding queue_extends_def
proof (intro conjI allI impI; elim conjE)
  fix k
  assume le: "length p \<le> length q" and k: "k < length p"
    and pq: "\<forall>k < length p. q ! k = p ! k \<or> q ! k = (p ! k)\<lparr>rq_fulfilled := True\<rparr>"
    and qr: "\<forall>k < length q. r ! k = q ! k \<or> r ! k = (q ! k)\<lparr>rq_fulfilled := True\<rparr>"
  from pq k have "q ! k = p ! k \<or> q ! k = (p ! k)\<lparr>rq_fulfilled := True\<rparr>" by simp
  moreover from qr k le have "r ! k = q ! k \<or> r ! k = (q ! k)\<lparr>rq_fulfilled := True\<rparr>" by simp
  ultimately show "r ! k = p ! k \<or> r ! k = (p ! k)\<lparr>rq_fulfilled := True\<rparr>" by auto
qed simp

lemma length_mark_fulfilled [simp]: "length (mark_fulfilled i q) = length q"
  by (induction q) simp_all

lemma nth_mark_fulfilled:
  "k < length q \<Longrightarrow> mark_fulfilled i q ! k = q ! k \<or> mark_fulfilled i q ! k = (q ! k)\<lparr>rq_fulfilled := True\<rparr>"
proof (induction q arbitrary: k)
  case Nil
  then show ?case by simp
next
  case (Cons r rs)
  then show ?case by (cases k) auto
qed

lemma find_mark_fulfilled:
  "find (\<lambda>r. rq_id r = i) q = Some r \<Longrightarrow>
    find (\<lambda>r. rq_id r = i) (mark_fulfilled i q) = Some (r\<lparr>rq_fulfilled := True\<rparr>)"
  by (induction q) (auto split: if_splits)

lemma unlock_cases:
  assumes "apply_unlock E i c tx e s = (r, s')"
  obtains "r \<noteq> Inr ()" "s' = s"
  | req where "r = Inr ()" "find (\<lambda>r. rq_id r = i) (unlock_queue E s) = Some req" "\<not> rq_fulfilled req"
    "unlock_queue E s' = mark_fulfilled i (unlock_queue E s)"
proof (cases "find (\<lambda>r. rq_id r = i) (unlock_queue E s)")
  case None
  with assms that(1) show ?thesis
    by (auto simp: apply_unlock_def andThen_apply reads_apply need_apply)
next
  case (Some req)
  show ?thesis
  proof (cases "rq_fulfilled req")
    case True
    with Some assms that(1) show ?thesis
      by (auto simp: apply_unlock_def andThen_apply reads_apply need_apply seq_apply ensure_apply)
  next
    case False
    obtain s1 where q: "set_unlock_queue (mark_fulfilled i (unlock_queue E s)) s = (Inr (), s1)"
      by (simp add: save_record_apply)
    with Some False assms obtain v where
      st: "state_set (''bridge_unlock:'' @ i @ '':'' @ show_u64 e) v s1 = (r, s')"
      by (simp add: apply_unlock_def andThen_apply reads_apply need_apply seq_apply ensure_apply)
    then have "r = Inr ()" by (simp add: state_set_def act_simps)
    moreover have "unlock_queue E s' = mark_fulfilled i (unlock_queue E s)"
      using keepsD [OF bridge_frames(2) [OF bridge_record_keys(8)] st] unlock_queue_set [OF q] by simp
    ultimately show ?thesis using that(2) Some False by blast
  qed
qed

lemma keeps_queue_mint:
  "keeps (unlock_queue E) (apply_fund E b c n tx ch e)" "keeps (unlock_queue E) (apply_wrap E a n ad ch e)"
  unfolding apply_fund_def apply_wrap_def Let_def
  by (intro keeps_intros bridge_frames(2,4) bridge_record_keys bridge_keys_neq)+

lemma bridge_entry_queue:
  "queue_extends (unlock_queue E s) (unlock_queue E (snd (apply_bridge_entry E x s)))"
proof -
  obtain r s' where run: "apply_bridge_entry E x s = (r, s')"
    by (cases "apply_bridge_entry E x s")
  have "queue_extends (unlock_queue E s) (unlock_queue E s')"
  proof (cases x)
    case (BridgeFund b c n tx ch e)
    with run keepsD [OF keeps_queue_mint(1)] show ?thesis by (simp add: queue_extends_refl)
  next
    case (BridgeWrap a n ad ch e)
    with run keepsD [OF keeps_queue_mint(2)] show ?thesis by (simp add: queue_extends_refl)
  next
    case (BridgeUnwrap a n rc ch e)
    with run have "apply_unwrap E a n rc ch e s = (r, s')" by simp
    then show ?thesis
      by (cases rule: unwrap_runs) (simp_all add: queue_extends_refl queue_extends_snoc unlock_queue_set)
  next
    case (BridgeUnlock i c tx e)
    with run have "apply_unlock E i c tx e s = (r, s')" by simp
    then show ?thesis
      by (cases rule: unlock_cases)
        (auto simp: queue_extends_refl queue_extends_def nth_mark_fulfilled)
  qed
  with run show ?thesis by simp
qed

lemma run_bridge_queue: "queue_extends (unlock_queue E s) (unlock_queue E (run_bridge E xs s))"
proof (induction xs arbitrary: s)
  case Nil
  then show ?case by (simp add: queue_extends_refl)
next
  case (Cons x xs)
  have "queue_extends (unlock_queue E s) (unlock_queue E (snd (apply_bridge_entry E x s)))"
    by (rule bridge_entry_queue)
  from queue_extends_trans [OF this Cons.IH] show ?case by simp
qed

lemma queue_extends_find:
  assumes "queue_extends q q'" and "find (\<lambda>r. rq_id r = i) q = Some r" and "rq_fulfilled r"
  shows "\<exists>r'. find (\<lambda>r. rq_id r = i) q' = Some r' \<and> rq_fulfilled r'"
proof -
  from assms(2) obtain k where k: "k < length q" "rq_id (q ! k) = i" "r = q ! k"
    and least: "\<forall>j < k. rq_id (q ! j) \<noteq> i"
    by (auto simp: find_Some_iff)
  have ext: "q' ! j = q ! j \<or> q' ! j = (q ! j)\<lparr>rq_fulfilled := True\<rparr>" if "j \<le> k" for j
    using assms(1) k(1) that by (simp add: queue_extends_def)
  have id_eq: "rq_id (q' ! j) = rq_id (q ! j)" if "j \<le> k" for j
    using ext [OF that] by auto
  have "find (\<lambda>r. rq_id r = i) q' = Some (q' ! k)"
    unfolding find_Some_iff
    using assms(1) k least id_eq by (auto simp: queue_extends_def intro!: exI [of _ k])
  moreover have "rq_fulfilled (q' ! k)"
    using ext [of k] k(3) assms(3) by auto
  ultimately show ?thesis by blast
qed

lemma fulfilled_refused:
  assumes "find (\<lambda>r. rq_id r = i) (unlock_queue E s) = Some r" "rq_fulfilled r"
  shows "apply_unlock E i c tx e s = (Inl (Err ''request already fulfilled''), s)"
  using assms by (simp add: apply_unlock_def andThen_apply reads_apply need_apply seq_apply ensure_apply)

lemma unwrap_succeeds:
  assumes "n \<le> get_balance s a WHONE_TOKEN"
  obtains s' where "apply_unwrap E a n rc ch e s = (Inr (), s')"
    "get_balance s' a WHONE_TOKEN = get_balance s a WHONE_TOKEN - n"
proof -
  obtain s' where run: "apply_unwrap E a n rc ch e s = (Inr (), s')"
    using assms by (simp add: apply_unwrap_def seq_apply debit_cases andThen_apply reads_apply Let_def
        save_record_apply state_set_def act_simps)
  then have "get_balance s' a WHONE_TOKEN = get_balance s a WHONE_TOKEN - n"
  proof (cases rule: unwrap_runs)
    case 1
    then show ?thesis by simp
  next
    case (2 x s1 s2)
    with assms balances_kept [OF keeps_balances_writes(4) 2(3)] balances_kept [OF keeps_save_record(1) 2(4)]
    show ?thesis by (auto simp: debit_cases get_balance_put)
  qed
  with run that show ?thesis by blast
qed

lemma unlock_succeeds:
  assumes "find (\<lambda>r. rq_id r = i) (unlock_queue E s) = Some r" "\<not> rq_fulfilled r"
  shows "\<exists>s'. apply_unlock E i c tx e s = (Inr (), s')"
  using assms by (simp add: apply_unlock_def andThen_apply reads_apply need_apply seq_apply ensure_apply
      save_record_apply state_set_def act_simps)

section \<open>Theorems\<close>

lemma unat_uminus_u64:
  fixes w :: u64
  assumes "w \<noteq> 0"
  shows "unat (- w) = 2 ^ 64 - unat w"
proof -
  have m: "unat (u64_max - w) = 2 ^ 64 - 1 - unat w"
    by (subst unat_u64_sub) (simp_all add: u64_max_def, simp add: u64_max_def [symmetric])
  have pos: "0 < unat w"
    using assms by (simp add: unat_gt_0)
  have "- w = (u64_max - w) + 1"
    by (simp add: u64_max_def)
  also have "unat \<dots> = unat (u64_max - w) + unat (1 :: u64)"
    by (rule unat_u64_add) (use m pos in simp)
  finally have "unat (- w) = unat (u64_max - w) + 1" by simp
  moreover have "unat w < 2 ^ 64" by simp
  ultimately show ?thesis using m by linarith
qed

definition demo_bridge_chain :: chain where
  "demo_bridge_chain = empty_chain\<lparr>cf_balances := [(balance_key ''alice'' NATIVE_TOKEN, 100)]\<rparr>"

lemma demo_bridge_ok [simp]: "bridge_ok E demo_bridge_chain"
  by (simp add: bridge_ok_def demo_bridge_chain_def empty_chain_def bridge_supply_def state_u64_def
      state_json_def state_get_def kv_get_def token_supply_def kv_sum_def supply_share_def
      token_of_balance_key)

text \<open>
  (C6) Wrapped tokens are counted and capped. Under any sequence of bridge entries, accepted or refused,
  whose amounts leave room for the cap in a \<open>u64\<close>, the supply counter equals the wHONE held in all
  balances and never exceeds \<open>BRIDGE_CAP_HUNITS\<close>.
\<close>

theorem wrapped_supply_capped:
  assumes "bridge_ok E s" and "\<forall>x \<in> set xs. amount_fits (entry_amount x)"
  shows "bridge_ok E (run_bridge E xs s)"
  using assms by (induction xs arbitrary: s) (simp_all add: bridge_entry_ok)

theorem wrapped_supply_capped_witness:
  "bridge_ok demo_env (run_bridge demo_env
     [BridgeWrap ''alice'' 60 ''0xab'' ''eth'' 1, BridgeUnwrap ''alice'' 20 ''0xab'' ''eth'' 2] demo_bridge_chain)"
  using wrapped_supply_capped [OF demo_bridge_ok,
      of "[BridgeWrap ''alice'' 60 ''0xab'' ''eth'' 1, BridgeUnwrap ''alice'' 20 ''0xab'' ''eth'' 2]"]
  by (simp add: amount_fits_def BRIDGE_CAP_HUNITS_def)

text \<open>
  The cap can be passed. The check adds supply and deposit in \<open>u64\<close>, where the sum may wrap: once any
  wHONE exists, a deposit of the two's complement of the counter is accepted from an account without
  wHONE, sets the counter to zero and leaves that account with more wHONE than the cap.
\<close>

theorem bridge_cap_bypassed:
  assumes "state_get s (''bridge_fund_tx:'' @ tx) = None" and "get_balance s c WHONE_TOKEN = 0"
    and "bridge_supply E s \<noteq> 0" and "bridge_supply E s \<le> BRIDGE_CAP_HUNITS"
  shows "\<exists>s'. apply_fund E b c (- bridge_supply E s) tx ch e s = (Inr (), s') \<and>
    bridge_supply E s' = 0 \<and> get_balance s' c WHONE_TOKEN > BRIDGE_CAP_HUNITS"
proof -
  let ?n = "- bridge_supply E s"
  have credit: "credit c WHONE_TOKEN ?n s = (Inr ?n, s\<lparr>cf_balances := kv_put (balance_key c WHONE_TOKEN) ?n (cf_balances s)\<rparr>)"
    (is "_ = (_, ?s1)") using assms(2) by (simp add: credit_cases)
  obtain s2 s3 s4 v where w: "set_bridge_supply 0 ?s1 = (Inr (), s2)"
    "state_set (''bridge_fund_tx:'' @ tx) (Json (JNum e)) s2 = (Inr (), s3)"
    "state_set (''bridge_fund:'' @ show_u64 e @ '':'' @ tx) v s3 = (Inr (), s4)"
    "v = Json (jobj [(''bridge_id'', JStr b), (''custodian'', JStr c), (''amount_hunits'', JNum ?n),
       (''external_tx_hash'', JStr tx), (''chain'', JStr ch), (''epoch'', JNum e)])"
    using state_set_runs by metis
  have run: "apply_fund E b c ?n tx ch e s = (Inr (), s4)"
    using assms(1) credit w
    by (simp add: apply_fund_def Let_def andThen_apply seq_apply reads_apply ensure_apply)
  have zero: "bridge_supply E s4 = 0"
    using bridge_supply_set [OF w(1)] keepsD [OF bridge_frames(1) [OF bridge_record_keys(1)] w(2)]
      keepsD [OF bridge_frames(1) [OF bridge_record_keys(2)] w(3)] by simp
  have bal: "get_balance s4 c WHONE_TOKEN = ?n"
    using balances_kept [OF keeps_balances_writes(4) w(1)] balances_kept [OF keeps_balances_writes(4) w(2)]
      balances_kept [OF keeps_balances_writes(4) w(3)] get_balance_put [of c WHONE_TOKEN ?n s] by simp
  have "unat ?n = 2 ^ 64 - unat (bridge_supply E s)"
    using assms(3) by (rule unat_uminus_u64)
  moreover have "unat (bridge_supply E s) \<le> 420000000000000"
    using assms(4) by (simp add: u64_le_iff BRIDGE_CAP_HUNITS_def)
  ultimately have "?n > BRIDGE_CAP_HUNITS"
    by (simp add: u64_less_iff BRIDGE_CAP_HUNITS_def)
  with run zero bal show ?thesis by auto
qed

theorem bridge_cap_bypassed_witness:
  "\<exists>s'. apply_fund demo_env ''b'' ''mallory'' (- 60) ''0x2'' ''eth'' 2
       (snd (set_bridge_supply 60 demo_bridge_chain)) = (Inr (), s') \<and>
     get_balance s' ''mallory'' WHONE_TOKEN > BRIDGE_CAP_HUNITS"
proof -
  let ?s = "snd (set_bridge_supply 60 demo_bridge_chain)"
  have sup: "bridge_supply demo_env ?s = 60"
    by (rule bridge_supply_set [of _ _ "Inr ()"]) (simp add: state_set_def act_simps)
  moreover have "get_balance ?s ''mallory'' WHONE_TOKEN = 0"
    by (simp add: state_set_def act_simps get_balance_def demo_bridge_chain_def kv_get_def balance_key_def)
  moreover have "state_get ?s (''bridge_fund_tx:'' @ ''0x2'') = None"
    by (simp add: state_set_def act_simps state_get_def demo_bridge_chain_def empty_chain_def
        BRIDGE_SUPPLY_KEY_def kv_get_def)
  ultimately show ?thesis
    using bridge_cap_bypassed [of ?s "''0x2''" "''mallory''" demo_env "''b''" "''eth''" 2]
    by (auto simp: BRIDGE_CAP_HUNITS_def)
qed

text \<open>
  (C37) An unlock request is fulfilled at most once: when a request has been unlocked, every later unlock of
  the same request is refused and changes nothing, whatever bridge entries come in between.
\<close>

theorem unlocked_once:
  assumes "apply_unlock E i c tx e s = (Inr (), s1)"
  shows "apply_unlock E i c' tx' e' (run_bridge E xs s1) =
    (Inl (Err ''request already fulfilled''), run_bridge E xs s1)"
  using assms
proof (cases rule: unlock_cases)
  case 1
  then show ?thesis by simp
next
  case (2 req)
  then have "find (\<lambda>r. rq_id r = i) (unlock_queue E s1) = Some (req\<lparr>rq_fulfilled := True\<rparr>)"
    by (simp add: find_mark_fulfilled)
  from queue_extends_find [OF run_bridge_queue this] show ?thesis
    by (auto intro: fulfilled_refused)
qed

definition demo_request :: "string \<Rightarrow> UnlockRequest" where
  "demo_request i = \<lparr>rq_id = i, rq_recipient_external = ''0xab'', rq_amount_hunits = 5,
     rq_queued_epoch = 1, rq_chain = ''eth'', rq_fulfilled = False\<rparr>"

definition demo_queue_chain :: chain where
  "demo_queue_chain = snd (set_unlock_queue [demo_request ''r1'', demo_request ''r2''] demo_bridge_chain)"

lemma demo_queue [simp]: "unlock_queue E demo_queue_chain = [demo_request ''r1'', demo_request ''r2'']"
  unfolding demo_queue_chain_def
  by (rule unlock_queue_set [of _ _ "Inr ()"]) (simp add: save_record_apply)

lemma demo_unlock: "\<exists>s'. apply_unlock E ''r2'' ''bob'' ''0x9'' 3 demo_queue_chain = (Inr (), s')"
  by (rule unlock_succeeds [of _ _ _ "demo_request ''r2''"]) (simp_all add: demo_request_def)

theorem unlocked_once_witness:
  "\<exists>s1. apply_unlock demo_env ''r2'' ''bob'' ''0x9'' 3 demo_queue_chain = (Inr (), s1) \<and>
    (let s2 = run_bridge demo_env [BridgeUnlock ''r1'' ''bob'' ''0x8'' 4] s1
     in apply_unlock demo_env ''r2'' ''bob'' ''0x9'' 5 s2 = (Inl (Err ''request already fulfilled''), s2))"
proof -
  obtain s1 where u: "apply_unlock demo_env ''r2'' ''bob'' ''0x9'' 3 demo_queue_chain = (Inr (), s1)"
    using demo_unlock by blast
  with unlocked_once [OF u, of "''bob''" "''0x9''" 5 "[BridgeUnlock ''r1'' ''bob'' ''0x8'' 4]"]
  show ?thesis by (auto simp: Let_def)
qed

definition demo_wrapped_chain :: chain where
  "demo_wrapped_chain = empty_chain\<lparr>cf_balances := [(balance_key ''alice'' WHONE_TOKEN, 10)]\<rparr>"

lemma demo_wrapped_balance: "get_balance demo_wrapped_chain ''alice'' WHONE_TOKEN = 10"
  by (simp add: get_balance_def demo_wrapped_chain_def kv_get_def)

lemma find_append: "find P (xs @ ys) = (case find P xs of Some x \<Rightarrow> Some x | None \<Rightarrow> find P ys)"
  by (induction xs) auto

text \<open>
  Requests can get stuck. The id of a request is derived from account, epoch and recipient only, and an
  unlock acts on the first request with its id: of two unwraps by one account to one address in the same
  epoch, the first can be unlocked, and from then on the second one is in the queue, unfulfilled, while
  every unlock of its id is refused.
\<close>

theorem second_unwrap_stuck:
  assumes "apply_unwrap E a n rc ch e s = (Inr (), s1)" and "apply_unwrap E a m rc ch' e s1 = (Inr (), s2)"
    and "\<forall>r \<in> set (unlock_queue E s). rq_id r \<noteq> unwrap_request_id E a e rc"
    and "apply_unlock E (unwrap_request_id E a e rc) c tx e1 s2 = (Inr (), s3)"
  shows "(\<exists>r \<in> set (unlock_queue E s3).
      rq_id r = unwrap_request_id E a e rc \<and> rq_amount_hunits r = m \<and> \<not> rq_fulfilled r) \<and>
    apply_unlock E (unwrap_request_id E a e rc) c' tx' e2 s3 = (Inl (Err ''request already fulfilled''), s3)"
proof -
  let ?i = "unwrap_request_id E a e rc"
  let ?r = "\<lambda>k x. \<lparr>rq_id = ?i, rq_recipient_external = rc, rq_amount_hunits = k, rq_queued_epoch = e,
    rq_chain = x, rq_fulfilled = False\<rparr>"
  have q1: "unlock_queue E s1 = unlock_queue E s @ [?r n ch]"
    using assms(1) by (cases rule: unwrap_runs) (simp_all add: unlock_queue_set)
  have "unlock_queue E s2 = unlock_queue E s1 @ [?r m ch']"
    using assms(2) by (cases rule: unwrap_runs) (simp_all add: unlock_queue_set)
  with q1 have q2: "unlock_queue E s2 = unlock_queue E s @ [?r n ch, ?r m ch']" by simp
  have mark: "mark_fulfilled i (q @ rs) = q @ mark_fulfilled i rs"
    if "\<forall>r \<in> set q. rq_id r \<noteq> i" for i q rs
    using that by (induction q) auto
  have none: "find (\<lambda>r. rq_id r = ?i) (unlock_queue E s) = None"
    using assms(3) by (simp add: find_None_iff)
  have q3: "unlock_queue E s3 = unlock_queue E s @ [(?r n ch)\<lparr>rq_fulfilled := True\<rparr>, ?r m ch']"
    using assms(4) by (cases rule: unlock_cases) (simp_all add: q2 mark assms(3))
  then have "find (\<lambda>r. rq_id r = ?i) (unlock_queue E s3) = Some ((?r n ch)\<lparr>rq_fulfilled := True\<rparr>)"
    using none by (simp add: find_append)
  from fulfilled_refused [OF this] q3 show ?thesis by simp
qed

theorem second_unwrap_stuck_witness:
  "\<exists>s1 s2 s3. apply_unwrap demo_env ''alice'' 4 ''0xab'' ''eth'' 1 demo_wrapped_chain = (Inr (), s1) \<and>
    apply_unwrap demo_env ''alice'' 6 ''0xab'' ''eth'' 1 s1 = (Inr (), s2) \<and>
    apply_unlock demo_env (unwrap_request_id demo_env ''alice'' 1 ''0xab'') ''bob'' ''0x9'' 2 s2 = (Inr (), s3) \<and>
    (\<exists>r \<in> set (unlock_queue demo_env s3). rq_amount_hunits r = 6 \<and> \<not> rq_fulfilled r)"
proof -
  let ?i = "unwrap_request_id demo_env ''alice'' 1 ''0xab''"
  obtain s1 where 1: "apply_unwrap demo_env ''alice'' 4 ''0xab'' ''eth'' 1 demo_wrapped_chain = (Inr (), s1)"
    "get_balance s1 ''alice'' WHONE_TOKEN = 6"
    by (rule unwrap_succeeds [of 4 demo_wrapped_chain "''alice''" demo_env "''0xab''" "''eth''" 1])
      (simp_all add: demo_wrapped_balance)
  obtain s2 where 2: "apply_unwrap demo_env ''alice'' 6 ''0xab'' ''eth'' 1 s1 = (Inr (), s2)"
    by (rule unwrap_succeeds [of 6 s1 "''alice''" demo_env "''0xab''" "''eth''" 1]) (simp_all add: 1)
  have q0: "unlock_queue demo_env demo_wrapped_chain = []"
    by (simp add: unlock_queue_def peek_state_get state_get_def demo_wrapped_chain_def empty_chain_def kv_get_def)
  have "\<exists>r. find (\<lambda>r. rq_id r = ?i) (unlock_queue demo_env s1) = Some r \<and> \<not> rq_fulfilled r"
    using 1(1) by (cases rule: unwrap_runs) (simp_all add: unlock_queue_set q0)
  moreover have "\<exists>rs. unlock_queue demo_env s2 = unlock_queue demo_env s1 @ rs"
    using 2 by (cases rule: unwrap_runs) (simp_all add: unlock_queue_set)
  ultimately have "\<exists>r. find (\<lambda>r. rq_id r = ?i) (unlock_queue demo_env s2) = Some r \<and> \<not> rq_fulfilled r"
    by (auto simp: find_append)
  then obtain s3 where 3: "apply_unlock demo_env ?i ''bob'' ''0x9'' 2 s2 = (Inr (), s3)"
    using unlock_succeeds by blast
  from second_unwrap_stuck [OF 1(1) 2 _ 3, of "''bob''" "''0x9''" 3] q0
  have "\<exists>r \<in> set (unlock_queue demo_env s3). rq_amount_hunits r = 6 \<and> \<not> rq_fulfilled r" by auto
  with 1(1) 2 3 show ?thesis by blast
qed

end
