(* ===== verification/Oracle.thy ===== *)
theory Oracle
  imports Records
begin

text \<open>
  Oracle price feeds (\<open>oracle.rs\<close>): creation of a feed, the commitments of a round, and finalisation,
  which checks the revealed values against the commitments, takes their median as the price and
  scores the reporters.

  The accepted price is a value that a committed reporter revealed, and no minority can push it out of
  the range of the others; a reporter commits at most once per round; scores stay within 0 and 100;
  the rewards paid are bounded by the number of reports. The deviation that decides who is an outlier
  is computed in \<open>u64\<close> and can wrap, so that some values far from the median count as accurate.
\<close>

section \<open>State\<close>

definition OUTLIER_THRESHOLD_BPS :: u64 where "OUTLIER_THRESHOLD_BPS = 500"

definition REPORTER_REWARD_HUNITS :: u64 where "REPORTER_REWARD_HUNITS = 2000"

definition FEED_CREATION_FEE_HUNITS :: u64 where "FEED_CREATION_FEE_HUNITS = 100000"

definition MIN_REPORTS :: nat where "MIN_REPORTS = 3"

record OracleCommit =
  oc_reporter :: string
  oc_commit_hash :: string
  oc_reveal_value :: "u64 option"
  oc_reveal_nonce :: "string option"
  oc_epoch :: u64

record OracleFeed =
  of_feed_id :: string
  of_creator :: string
  of_asset_pair :: string
  of_update_interval_epochs :: u64
  of_created_epoch :: u64
  of_last_price :: "u64 option"
  of_last_updated_epoch :: "u64 option"
  of_report_deadline :: u64
  of_reports :: "OracleCommit list"
  of_active :: bool

text \<open>The score is an \<open>i64\<close>.\<close>

record ReporterReputation =
  rr_reporter :: string
  rr_score :: int
  rr_reports_total :: u64
  rr_outliers :: u64

definition i64_wrap :: "int \<Rightarrow> int" where
  "i64_wrap z = (z + 2 ^ 63) mod 2 ^ 64 - 2 ^ 63"

definition i64_json :: "int \<Rightarrow> json" where
  "i64_json z = (if 0 \<le> z then JNum (word_of_int z) else JNumText (CHR ''-'' # dec (nat (- z))))"

fun as_i64 :: "json \<Rightarrow> int option" where
  "as_i64 (JNum n) = (if uint n < 2 ^ 63 then Some (uint n) else None)"
| "as_i64 (JNumText (c # ds)) =
    (if c = CHR ''-'' \<and> ds \<noteq> [] \<and> list_all is_dec_digit ds \<and> dec_value ds \<le> 2 ^ 63
     then Some (- int (dec_value ds)) else None)"
| "as_i64 _ = None"

definition OracleCommit_json :: "OracleCommit \<Rightarrow> json" where
  "OracleCommit_json c = jobj [
     (''reporter'', JStr (oc_reporter c)), (''commit_hash'', JStr (oc_commit_hash c)),
     (''reveal_value'', jopt_u64 (oc_reveal_value c)), (''reveal_nonce'', jopt_str (oc_reveal_nonce c)),
     (''epoch'', JNum (oc_epoch c))]"

definition OracleCommit_of_json :: "json \<Rightarrow> OracleCommit option" where
  "OracleCommit_of_json j =
     Option.bind (field_str j ''reporter'') (\<lambda>reporter.
     Option.bind (field_str j ''commit_hash'') (\<lambda>commit_hash.
     Option.bind (field_opt as_u64 j ''reveal_value'') (\<lambda>reveal_value.
     Option.bind (field_opt as_str j ''reveal_nonce'') (\<lambda>reveal_nonce.
     Option.bind (field_u64 j ''epoch'') (\<lambda>epoch.
     Some \<lparr>oc_reporter = reporter, oc_commit_hash = commit_hash, oc_reveal_value = reveal_value,
       oc_reveal_nonce = reveal_nonce, oc_epoch = epoch\<rparr>)))))"

definition OracleFeed_json :: "OracleFeed \<Rightarrow> json" where
  "OracleFeed_json f = jobj [
     (''feed_id'', JStr (of_feed_id f)), (''creator'', JStr (of_creator f)),
     (''asset_pair'', JStr (of_asset_pair f)),
     (''update_interval_epochs'', JNum (of_update_interval_epochs f)),
     (''created_epoch'', JNum (of_created_epoch f)), (''last_price'', jopt_u64 (of_last_price f)),
     (''last_updated_epoch'', jopt_u64 (of_last_updated_epoch f)),
     (''report_deadline'', JNum (of_report_deadline f)),
     (''reports'', vec_json OracleCommit_json (of_reports f)), (''active'', JBool (of_active f))]"

definition OracleFeed_of_json :: "json \<Rightarrow> OracleFeed option" where
  "OracleFeed_of_json j =
     Option.bind (field_str j ''feed_id'') (\<lambda>feed_id.
     Option.bind (field_str j ''creator'') (\<lambda>creator.
     Option.bind (field_str j ''asset_pair'') (\<lambda>asset_pair.
     Option.bind (field_u64 j ''update_interval_epochs'') (\<lambda>interval.
     Option.bind (field_u64 j ''created_epoch'') (\<lambda>created_epoch.
     Option.bind (field_opt as_u64 j ''last_price'') (\<lambda>last_price.
     Option.bind (field_opt as_u64 j ''last_updated_epoch'') (\<lambda>last_updated.
     Option.bind (field_u64 j ''report_deadline'') (\<lambda>deadline.
     Option.bind (field_vec OracleCommit_of_json j ''reports'') (\<lambda>reports.
     Option.bind (field_bool j ''active'') (\<lambda>active.
     Some \<lparr>of_feed_id = feed_id, of_creator = creator, of_asset_pair = asset_pair,
       of_update_interval_epochs = interval, of_created_epoch = created_epoch,
       of_last_price = last_price, of_last_updated_epoch = last_updated,
       of_report_deadline = deadline, of_reports = reports, of_active = active\<rparr>))))))))))"

definition ReporterReputation_json :: "ReporterReputation \<Rightarrow> json" where
  "ReporterReputation_json r = jobj [
     (''reporter'', JStr (rr_reporter r)), (''score'', i64_json (rr_score r)),
     (''reports_total'', JNum (rr_reports_total r)), (''outliers'', JNum (rr_outliers r))]"

definition ReporterReputation_of_json :: "json \<Rightarrow> ReporterReputation option" where
  "ReporterReputation_of_json j =
     Option.bind (field_str j ''reporter'') (\<lambda>reporter.
     Option.bind (Option.bind (jfield j ''score'') as_i64) (\<lambda>score.
     Option.bind (field_u64 j ''reports_total'') (\<lambda>reports_total.
     Option.bind (field_u64 j ''outliers'') (\<lambda>outliers.
     Some \<lparr>rr_reporter = reporter, rr_score = score, rr_reports_total = reports_total,
       rr_outliers = outliers\<rparr>))))"

lemma OracleCommit_roundtrip: "OracleCommit_of_json (OracleCommit_json c) = Some c"
  by (simp add: OracleCommit_of_json_def OracleCommit_json_def field_str_def field_u64_def)

interpretation commit_rec: record_codec OracleCommit_json OracleCommit_of_json
  by unfold_locales (rule OracleCommit_roundtrip)

lemma OracleFeed_roundtrip: "OracleFeed_of_json (OracleFeed_json f) = Some f"
  by (simp add: OracleFeed_of_json_def OracleFeed_json_def field_str_def field_u64_def field_bool_def
      field_vec_def commit_rec.as_vec_json)

interpretation feed_rec: record_codec OracleFeed_json OracleFeed_of_json
  by unfold_locales (rule OracleFeed_roundtrip)

lemma as_i64_json: "- (2 ^ 63) \<le> z \<Longrightarrow> z < 2 ^ 63 \<Longrightarrow> as_i64 (i64_json z) = Some z"
proof (cases "0 \<le> z")
  case True
  moreover assume "z < 2 ^ 63"
  ultimately show ?thesis
    by (simp add: i64_json_def uint_word_of_int)
next
  case False
  moreover assume "- (2 ^ 63) \<le> z"
  moreover have "list_all is_dec_digit (dec (nat (- z)))"
    by (auto simp: list_all_iff is_dec_digit_def dest: dec_digits)
  ultimately show ?thesis
    by (simp add: i64_json_def)
qed

lemma Reputation_roundtrip:
  "- (2 ^ 63) \<le> rr_score r \<Longrightarrow> rr_score r < 2 ^ 63 \<Longrightarrow>
    ReporterReputation_of_json (ReporterReputation_json r) = Some r"
  by (simp add: ReporterReputation_of_json_def ReporterReputation_json_def field_str_def field_u64_def as_i64_json)

section \<open>Operations\<close>

definition feed_key :: "string \<Rightarrow> string" where
  "feed_key feed_id = ''oracle_feed:'' @ feed_id"

definition rep_key :: "string \<Rightarrow> string" where
  "rep_key reporter = ''oracle_rep:'' @ reporter"

abbreviation get_feed :: "env \<Rightarrow> chain \<Rightarrow> string \<Rightarrow> OracleFeed option" where
  "get_feed E s feed_id \<equiv> peek E OracleFeed_of_json s (feed_key feed_id)"

abbreviation load_feed :: "env \<Rightarrow> string \<Rightarrow> OracleFeed chain_act" where
  "load_feed E feed_id \<equiv> load_record E OracleFeed_of_json (feed_key feed_id) ''feed not found''"

abbreviation save_feed :: "string \<Rightarrow> OracleFeed \<Rightarrow> unit chain_act" where
  "save_feed feed_id \<equiv> save_record OracleFeed_json (feed_key feed_id)"

definition apply_feed_create :: "string \<Rightarrow> string \<Rightarrow> string \<Rightarrow> u64 \<Rightarrow> u64 \<Rightarrow> unit chain_act" where
  "apply_feed_create feed_id creator asset_pair interval epoch =
     andThen (reads (\<lambda>s. state_get s (feed_key feed_id))) (\<lambda>found.
     seq (ensure (found = None) (Err ''feed already exists''))
    (seq (debit creator NATIVE_TOKEN FEED_CREATION_FEE_HUNITS)
    (seq (credit RECYCLE_FUND_ACCOUNT NATIVE_TOKEN FEED_CREATION_FEE_HUNITS)
         (save_feed feed_id \<lparr>of_feed_id = feed_id, of_creator = creator, of_asset_pair = asset_pair,
            of_update_interval_epochs = interval, of_created_epoch = epoch, of_last_price = None,
            of_last_updated_epoch = None, of_report_deadline = epoch + interval, of_reports = [],
            of_active = True\<rparr>))))"

definition apply_report :: "env \<Rightarrow> string \<Rightarrow> string \<Rightarrow> string \<Rightarrow> u64 \<Rightarrow> unit chain_act" where
  "apply_report E feed_id reporter commit_hash epoch =
     andThen (load_feed E feed_id) (\<lambda>feed.
     seq (ensure (of_active feed) (Err ''feed is inactive''))
    (seq (ensure (epoch \<le> of_report_deadline feed) (Err ''report window closed''))
    (seq (ensure (\<not> list_ex (\<lambda>c. oc_reporter c = reporter) (of_reports feed))
            (Err ''reporter already submitted for this round''))
         (save_feed feed_id (feed\<lparr>of_reports := of_reports feed @
            [\<lparr>oc_reporter = reporter, oc_commit_hash = commit_hash, oc_reveal_value = None,
              oc_reveal_nonce = None, oc_epoch = epoch\<rparr>]\<rparr>)))))"

text \<open>A reveal names a reporter, its value and its nonce; of several for one reporter the last counts.\<close>

type_synonym reveal = "string \<times> u64 \<times> string"

definition commit_of :: "env \<Rightarrow> u64 \<Rightarrow> string \<Rightarrow> string \<Rightarrow> string" where
  "commit_of E value nonce reporter = hex_encode E (sha256 E (to_le value @ nonce @ reporter))"

definition revealed :: "env \<Rightarrow> reveal list \<Rightarrow> OracleCommit \<Rightarrow> (u64 \<times> string) option" where
  "revealed E reveals c =
    (case map_of (rev reveals) (oc_reporter c) of
       None \<Rightarrow> None
     | Some (value, nonce) \<Rightarrow>
         if commit_of E value nonce (oc_reporter c) = oc_commit_hash c then Some (value, nonce) else None)"

definition reveal_commit :: "env \<Rightarrow> reveal list \<Rightarrow> OracleCommit \<Rightarrow> OracleCommit" where
  "reveal_commit E reveals c =
    (case revealed E reveals c of
       None \<Rightarrow> c
     | Some (value, nonce) \<Rightarrow> c\<lparr>oc_reveal_value := Some value, oc_reveal_nonce := Some nonce\<rparr>)"

definition valid_values :: "env \<Rightarrow> reveal list \<Rightarrow> OracleCommit list \<Rightarrow> u64 list" where
  "valid_values E reveals cs = List.map_filter (\<lambda>c. map_option fst (revealed E reveals c)) cs"

definition median_of :: "u64 list \<Rightarrow> u64" where
  "median_of xs = sort xs ! (length xs div 2)"

definition deviation :: "u64 \<Rightarrow> u64 \<Rightarrow> u64" where
  "deviation val median =
    (if val > median then (val - median) * 10000 div max median 1
     else (median - val) * 10000 div max median 1)"

definition reputation_of :: "env \<Rightarrow> chain \<Rightarrow> string \<Rightarrow> ReporterReputation" where
  "reputation_of E s reporter =
    (case peek E ReporterReputation_of_json s (rep_key reporter) of
       Some r \<Rightarrow> r
     | None \<Rightarrow> \<lparr>rr_reporter = reporter, rr_score = 100, rr_reports_total = 0, rr_outliers = 0\<rparr>)"

definition score_reporter :: "env \<Rightarrow> u64 \<Rightarrow> OracleCommit \<Rightarrow> unit chain_act" where
  "score_reporter E median c =
    (case oc_reveal_value c of
       None \<Rightarrow> ret ()
     | Some val \<Rightarrow>
         andThen (reads (\<lambda>s. reputation_of E s (oc_reporter c))) (\<lambda>rep0.
         let rep = rep0\<lparr>rr_reports_total := rr_reports_total rep0 + 1\<rparr> in
         if deviation val median > OUTLIER_THRESHOLD_BPS
         then save_record ReporterReputation_json (rep_key (oc_reporter c))
                (rep\<lparr>rr_score := max (i64_wrap (rr_score rep - 5)) 0, rr_outliers := rr_outliers rep + 1\<rparr>)
         else seq (attempt (credit (oc_reporter c) NATIVE_TOKEN REPORTER_REWARD_HUNITS))
                  (save_record ReporterReputation_json (rep_key (oc_reporter c))
                     (rep\<lparr>rr_score := min (i64_wrap (rr_score rep + 1)) 100\<rparr>))))"

definition apply_finalize :: "env \<Rightarrow> string \<Rightarrow> reveal list \<Rightarrow> u64 \<Rightarrow> unit chain_act" where
  "apply_finalize E feed_id reveals epoch =
     andThen (load_feed E feed_id) (\<lambda>feed.
     seq (ensure (epoch \<ge> of_report_deadline feed) (Err ''finalization window not open yet''))
    (seq (ensure (length (of_reports feed) \<ge> MIN_REPORTS) (Err ''insufficient reports''))
    (let reports = map (reveal_commit E reveals) (of_reports feed);
         values = valid_values E reveals (of_reports feed);
         next_round = feed\<lparr>of_report_deadline := epoch + of_update_interval_epochs feed, of_reports := []\<rparr> in
     if length values < MIN_REPORTS then save_feed feed_id next_round
     else
       let median = median_of values in
       seq (each (score_reporter E median) reports)
      (seq (save_feed feed_id
              (next_round\<lparr>of_last_price := Some median, of_last_updated_epoch := Some epoch\<rparr>))
           (state_set (''oracle_price:'' @ of_asset_pair feed) (Json (jobj [
              (''price'', JNum median), (''epoch'', JNum epoch), (''feed_id'', JStr feed_id)])))))))"

section \<open>The median\<close>

lemma median_mem:
  assumes "xs \<noteq> []"
  shows "median_of xs \<in> set xs"
proof -
  have "length xs div 2 < length (sort xs)"
    using assms by (simp add: length_greater_0_conv [symmetric] del: length_greater_0_conv)
  then have "median_of xs \<in> set (sort xs)"
    unfolding median_of_def by (rule nth_mem)
  then show ?thesis by simp
qed

lemma length_filter_indices: "length (filter P xs) = card {k. k < length xs \<and> P (xs ! k)}"
  by (rule length_filter_conv_card)

text \<open>A value outside the range that most of the values are in is not the median.\<close>

lemma median_majority:
  assumes "length xs < 2 * length (filter (\<lambda>v. lo \<le> v \<and> v \<le> hi) xs)"
  shows "lo \<le> median_of xs \<and> median_of xs \<le> hi"
proof -
  let ?ys = "sort xs" and ?n = "length xs"
  let ?P = "\<lambda>v. lo \<le> v \<and> v \<le> hi"
  let ?I = "{k. k < ?n \<and> ?P (?ys ! k)}"
  have perm: "length (filter ?P xs) = card ?I"
  proof -
    have "length (filter ?P xs) = length (filter ?P ?ys)"
      by (simp add: filter_sort)
    then show ?thesis by (simp add: length_filter_indices)
  qed
  have "lo \<le> ?ys ! (?n div 2)"
  proof (rule ccontr)
    assume "\<not> lo \<le> ?ys ! (?n div 2)"
    then have "?I \<subseteq> {?n div 2 <..< ?n}"
      using sorted_nth_mono [OF sorted_sort, of _ "?n div 2" xs]
      by (force simp: not_le not_less)
    from card_mono [OF _ this] perm assms show False by simp
  qed
  moreover have "?ys ! (?n div 2) \<le> hi"
  proof (rule ccontr)
    assume "\<not> ?ys ! (?n div 2) \<le> hi"
    then have "?I \<subseteq> {..< ?n div 2}"
      using sorted_nth_mono [OF sorted_sort, of "?n div 2" _ xs]
      by (force simp: not_le not_less)
    from card_mono [OF _ this] perm assms show False by simp
  qed
  ultimately show ?thesis by (simp add: median_of_def)
qed

section \<open>Scoring\<close>

lemma feed_rep_neq [simp]: "feed_key i \<noteq> rep_key r" "rep_key r \<noteq> feed_key i"
  by (simp_all add: feed_key_def rep_key_def)

lemma key_inject [simp]: "feed_key i = feed_key j \<longleftrightarrow> i = j" "rep_key r = rep_key q \<longleftrightarrow> r = q"
  by (simp_all add: feed_key_def rep_key_def)

lemma price_key_neq [simp]: "feed_key i \<noteq> ''oracle_price:'' @ p" "rep_key r \<noteq> ''oracle_price:'' @ p"
  by (simp_all add: feed_key_def rep_key_def)

lemma score_reporter_runs: "\<exists>s'. score_reporter E m c s = (Inr (), s')"
  using attempt_result [OF calm_balance(1), of "oc_reporter c" NATIVE_TOKEN REPORTER_REWARD_HUNITS s]
  by (auto simp: score_reporter_def Let_def andThen_apply reads_apply ret_apply seq_apply save_record_apply
      split: option.split)

lemma each_runs: "(\<And>x s. \<exists>s'. f x s = (Inr (), s')) \<Longrightarrow> \<exists>s'. each f xs s = (Inr (), s')"
proof (induction xs arbitrary: s)
  case Nil
  then show ?case by (simp add: ret_apply)
next
  case (Cons x xs)
  obtain s1 where "f x s = (Inr (), s1)" using Cons.prems by blast
  moreover obtain s2 where "each f xs s1 = (Inr (), s2)" using Cons by blast
  ultimately show ?case by (simp add: seq_apply)
qed

lemma scores_run: "\<exists>s'. each (score_reporter E m) cs s = (Inr (), s')"
  by (rule each_runs) (rule score_reporter_runs)

lemma keeps_feed_frames:
  "keeps (\<lambda>s. get_feed E s i) (save_record wr (rep_key r) x)"
  "keeps (\<lambda>s. get_feed E s i) (state_set (''oracle_price:'' @ p) v)"
  "i \<noteq> j \<Longrightarrow> keeps (\<lambda>s. get_feed E s i) (save_feed j f)"
  by (auto simp: keeps_def save_record_def peek_state_get state_set_def state_get_def act_simps
      feed_key_def rep_key_def)

lemma keeps_feed_score: "keeps (\<lambda>s. get_feed E s i) (score_reporter E' m c)"
  unfolding score_reporter_def Let_def
  by (intro keeps_intros keeps_feed_frames keeps_peek)

text \<open>Scores stay between 0 and 100.\<close>

definition reps_ok :: "env \<Rightarrow> chain \<Rightarrow> bool" where
  "reps_ok E s \<longleftrightarrow> (\<forall>r. 0 \<le> rr_score (reputation_of E s r) \<and> rr_score (reputation_of E s r) \<le> 100)"

lemma reputation_cong:
  "state_get s' (rep_key r) = state_get s (rep_key r) \<Longrightarrow> reputation_of E s' r = reputation_of E s r"
  unfolding reputation_of_def by (simp only: peek_cong [of s' "rep_key r" s])

lemma reps_ok_cong: "(\<And>r. state_get s' (rep_key r) = state_get s (rep_key r)) \<Longrightarrow> reps_ok E s' = reps_ok E s"
  unfolding reps_ok_def by (simp add: reputation_cong [of s' _ s])

lemma preserves_repsI:
  assumes "\<And>s r. state_get (snd (m s)) (rep_key r) = state_get s (rep_key r)"
  shows "preserves (reps_ok E) m"
  unfolding preserves_def
proof (intro allI impI)
  fix s
  assume "reps_ok E s"
  moreover have "reps_ok E (snd (m s)) = reps_ok E s"
    by (rule reps_ok_cong) (rule assms)
  ultimately show "reps_ok E (snd (m s))" by simp
qed

lemma preserves_reps_frames:
  "keeps cf_meta m \<Longrightarrow> preserves (reps_ok E) m"
  "preserves (reps_ok E) (save_feed i f)"
  "preserves (reps_ok E) (state_set (''oracle_price:'' @ p) v)"
  by (rule preserves_repsI, simp add: keeps_def save_record_def state_set_def act_simps state_get_def
      rep_key_def feed_key_def)+

lemma reps_ok_save:
  assumes "reps_ok E s" "0 \<le> rr_score rep" "rr_score rep \<le> 100"
    and sv: "save_record ReporterReputation_json (rep_key r) rep s = (u, s')"
  shows "reps_ok E s'"
proof -
  have "state_get s' (rep_key q) = (if q = r then Some (Json (ReporterReputation_json rep)) else state_get s (rep_key q))" for q
    using state_get_set [OF sv [unfolded save_record_def], of "rep_key q"] by simp
  then have "reputation_of E s' q = (if q = r then rep else reputation_of E s q)" for q
    using assms(2,3) by (auto simp: reputation_of_def peek_state_get Reputation_roundtrip)
  with assms(1-3) show ?thesis by (simp add: reps_ok_def)
qed

lemma preserves_reps_score: "preserves (reps_ok E) (score_reporter E m c)"
proof -
  have "reps_ok E s'" if ok: "reps_ok E s" and run: "score_reporter E m c s = (r, s')" for s r s'
  proof (cases "oc_reveal_value c")
    case None
    with that show ?thesis by (simp add: score_reporter_def ret_apply)
  next
    case (Some val)
    let ?rep = "reputation_of E s (oc_reporter c)"
    have rng: "0 \<le> rr_score ?rep" "rr_score ?rep \<le> 100"
      using ok by (simp_all add: reps_ok_def)
    then have wrap: "i64_wrap (rr_score ?rep - 5) = rr_score ?rep - 5"
      "i64_wrap (rr_score ?rep + 1) = rr_score ?rep + 1"
      by (simp_all add: i64_wrap_def)
    obtain x s1 where c: "attempt (credit (oc_reporter c) NATIVE_TOKEN REPORTER_REWARD_HUNITS) s = (Inr x, s1)"
      using attempt_result [OF calm_balance(1), of "oc_reporter c" NATIVE_TOKEN REPORTER_REWARD_HUNITS s] by blast
    have "preserves (reps_ok E) (attempt (credit (oc_reporter c) NATIVE_TOKEN REPORTER_REWARD_HUNITS))"
      by (intro preserves_reps_frames keeps_intros)
    from preservesD [OF this ok c] have ok1: "reps_ok E s1" .
    show ?thesis
      using run Some c rng wrap ok ok1
      by (auto simp: score_reporter_def Let_def andThen_apply reads_apply seq_apply split: if_splits
          elim!: reps_ok_save [rotated 3])
  qed
  then show ?thesis unfolding preserves_def by (metis prod.collapse)
qed

text \<open>A round has one commitment per reporter.\<close>

definition rounds_ok :: "env \<Rightarrow> chain \<Rightarrow> bool" where
  "rounds_ok E s \<longleftrightarrow>
    (\<forall>i f. get_feed E s i = Some f \<longrightarrow> distinct (map oc_reporter (of_reports f)))"

lemma preserves_rounds_frames:
  "(\<And>i. keeps (\<lambda>s. get_feed E s i) m) \<Longrightarrow> preserves (rounds_ok E) m"
  unfolding preserves_def rounds_ok_def keeps_def by simp

lemma preserves_rounds_save:
  "distinct (map oc_reporter (of_reports f)) \<Longrightarrow> preserves (rounds_ok E) (save_feed i f)"
proof -
  assume d: "distinct (map oc_reporter (of_reports f))"
  have "rounds_ok E s'" if ok: "rounds_ok E s" and sv: "save_feed i f s = (r, s')" for s r s'
    unfolding rounds_ok_def
  proof (intro allI impI)
    fix j g
    assume g: "get_feed E s' j = Some g"
    show "distinct (map oc_reporter (of_reports g))"
    proof (cases "j = i")
      case True
      with g d feed_rec.peek_save [OF sv, of E] show ?thesis by simp
    next
      case False
      then have "get_feed E s' j = get_feed E s j"
        by (intro peek_save_other [OF sv]) simp
      with g ok show ?thesis by (auto simp: rounds_ok_def)
    qed
  qed
  then show ?thesis unfolding preserves_def by (metis prod.collapse)
qed

section \<open>Rounds\<close>

text \<open>A finalisation that passes its guards, on each of its two ways.\<close>

definition round_over :: "OracleFeed \<Rightarrow> u64 \<Rightarrow> bool" where
  "round_over f epoch \<longleftrightarrow> epoch \<ge> of_report_deadline f \<and> length (of_reports f) \<ge> MIN_REPORTS"

definition next_round :: "OracleFeed \<Rightarrow> u64 \<Rightarrow> OracleFeed" where
  "next_round f epoch = f\<lparr>of_report_deadline := epoch + of_update_interval_epochs f, of_reports := []\<rparr>"

definition priced :: "OracleFeed \<Rightarrow> u64 \<Rightarrow> u64 \<Rightarrow> OracleFeed" where
  "priced f epoch p = (next_round f epoch)\<lparr>of_last_price := Some p, of_last_updated_epoch := Some epoch\<rparr>"

lemma finalize_guarded:
  assumes "get_feed E s i = Some f" "round_over f e"
  shows "apply_finalize E i rs e s =
    (if length (valid_values E rs (of_reports f)) < MIN_REPORTS then save_feed i (next_round f e) s
     else seq (each (score_reporter E (median_of (valid_values E rs (of_reports f))))
                 (map (reveal_commit E rs) (of_reports f)))
         (seq (save_feed i (priced f e (median_of (valid_values E rs (of_reports f)))))
              (state_set (''oracle_price:'' @ of_asset_pair f) (Json (jobj [
                 (''price'', JNum (median_of (valid_values E rs (of_reports f)))),
                 (''epoch'', JNum e), (''feed_id'', JStr i)])))) s)"
  using assms
  by (simp add: apply_finalize_def andThen_apply load_record_apply seq_apply [of "ensure _ _"] ensure_apply
      round_over_def next_round_def priced_def Let_def)

lemma finalize_refused:
  assumes "\<nexists>f. get_feed E s i = Some f \<and> round_over f e"
  shows "\<exists>err. apply_finalize E i rs e s = (Inl err, s)"
  using assms
  by (cases "get_feed E s i")
    (auto simp: apply_finalize_def andThen_apply load_record_apply seq_apply ensure_apply round_over_def)

lemma finalize_priced:
  assumes f: "get_feed E s i = Some f" "round_over f e"
    and enough: "MIN_REPORTS \<le> length (valid_values E rs (of_reports f))"
    and p: "p = median_of (valid_values E rs (of_reports f))"
  obtains s1 s' where "apply_finalize E i rs e s = (Inr (), s')" "get_feed E s' i = Some (priced f e p)"
    "state_get s' (''oracle_price:'' @ of_asset_pair f) =
      Some (Json (jobj [(''price'', JNum p), (''epoch'', JNum e), (''feed_id'', JStr i)]))"
    "each (score_reporter E p) (map (reveal_commit E rs) (of_reports f)) s = (Inr (), s1)"
    "hone_total s' = hone_total s1"
proof -
  let ?v = "Json (jobj [(''price'', JNum p), (''epoch'', JNum e), (''feed_id'', JStr i)])"
  obtain s1 where sc: "each (score_reporter E p) (map (reveal_commit E rs) (of_reports f)) s = (Inr (), s1)"
    using scores_run by blast
  obtain s2 where sv: "save_feed i (priced f e p) s1 = (Inr (), s2)"
    by (simp add: save_record_apply)
  obtain s3 where st: "state_set (''oracle_price:'' @ of_asset_pair f) ?v s2 = (Inr (), s3)"
    by (simp add: state_set_def act_simps)
  have run: "apply_finalize E i rs e s = (Inr (), s3)"
    using enough sc sv st unfolding finalize_guarded [OF f] p [symmetric] by (simp add: seq_apply)
  have "get_feed E s3 i = Some (priced f e p)"
    using feed_rec.peek_save [OF sv] keepsD [OF keeps_feed_frames(2) st] by simp
  moreover have "hone_total s3 = hone_total s1"
    using keepsD [OF keeps_token_supply [OF keeps_save_record(1)] sv]
      keepsD [OF keeps_token_supply [OF keeps_balances_writes(4)] st] by simp
  ultimately show ?thesis
    using run sc state_get_set [OF st] that by simp
qed

text \<open>The reward is paid out of nothing, once per accurate report.\<close>

lemma score_supply:
  assumes "score_reporter E m c s = (r, s')"
  shows "hone_total s \<le> hone_total s' \<and> hone_total s' \<le> hone_total s + 2000"
proof (cases "\<exists>val. oc_reveal_value c = Some val \<and> \<not> deviation val m > OUTLIER_THRESHOLD_BPS")
  case False
  then have "keeps hone_total (score_reporter E m c)"
    unfolding score_reporter_def Let_def
    by (intro keeps_intros keeps_token_supply) auto
  from keepsD [OF this assms] show ?thesis by simp
next
  case True
  let ?c = "credit (oc_reporter c) NATIVE_TOKEN REPORTER_REWARD_HUNITS"
  obtain x s1 where c: "attempt ?c s = (Inr x, s1)"
    using attempt_result [OF calm_balance(1)] by blast
  have "s1 = s \<or> (\<exists>y. ?c s = (Inr y, s1))"
    using c by (auto simp: attempt_apply credit_cases split: if_splits)
  then have s1: "hone_total s \<le> hone_total s1 \<and> hone_total s1 \<le> hone_total s + 2000"
    using gainsD [OF native.pay_in_gains, of "oc_reporter c" REPORTER_REWARD_HUNITS s]
    by (auto simp: REPORTER_REWARD_HUNITS_def)
  from True assms c obtain rep where
    sv: "save_record ReporterReputation_json (rep_key (oc_reporter c)) rep s1 = (r, s')"
    by (auto simp: score_reporter_def Let_def andThen_apply reads_apply seq_apply)
  from keepsD [OF keeps_token_supply [OF keeps_save_record(1)] sv] s1 show ?thesis by simp
qed

lemma scores_supply:
  "each (score_reporter E m) cs s = (r, s') \<Longrightarrow>
    hone_total s \<le> hone_total s' \<and> hone_total s' \<le> hone_total s + 2000 * int (length cs)"
proof (induction cs arbitrary: s)
  case Nil
  then show ?case by (simp add: ret_apply)
next
  case (Cons c cs)
  obtain s1 where sc: "score_reporter E m c s = (Inr (), s1)"
    using score_reporter_runs by blast
  with Cons.prems have "each (score_reporter E m) cs s1 = (r, s')" by (simp add: seq_apply)
  from Cons.IH [OF this] score_supply [OF sc] show ?case by (simp add: distrib_left)
qed

datatype oracle_entry =
    OracleFeedCreate string string string u64 u64
  | OracleReport string string string u64
  | OracleFeedFinalize string "reveal list" u64

fun apply_oracle_entry :: "env \<Rightarrow> oracle_entry \<Rightarrow> unit chain_act" where
  "apply_oracle_entry E (OracleFeedCreate feed_id creator asset_pair interval epoch) =
     apply_feed_create feed_id creator asset_pair interval epoch"
| "apply_oracle_entry E (OracleReport feed_id reporter commit_hash epoch) =
     apply_report E feed_id reporter commit_hash epoch"
| "apply_oracle_entry E (OracleFeedFinalize feed_id reveals epoch) =
     apply_finalize E feed_id reveals epoch"

fun run_oracle :: "env \<Rightarrow> oracle_entry list \<Rightarrow> chain \<Rightarrow> chain" where
  "run_oracle E [] s = s"
| "run_oracle E (x # xs) s = run_oracle E xs (snd (apply_oracle_entry E x s))"

lemma keeps_feed_meta:
  "keeps (\<lambda>s. get_feed E s i) (credit a t n)" "keeps (\<lambda>s. get_feed E s i) (debit a t n)"
  by (intro keeps_peek keeps_intros)+

lemma preserves_rounds_report: "preserves (rounds_ok E) (apply_report E i r h e)"
proof -
  have "rounds_ok E s'" if ok: "rounds_ok E s" and run: "apply_report E i r h e s = (u, s')" for s u s'
  proof (cases "s' = s")
    case False
    with run obtain f where f: "get_feed E s i = Some f" "\<not> list_ex (\<lambda>c. oc_reporter c = r) (of_reports f)"
      and sv: "save_feed i (f\<lparr>of_reports := of_reports f @
            [\<lparr>oc_reporter = r, oc_commit_hash = h, oc_reveal_value = None,
              oc_reveal_nonce = None, oc_epoch = e\<rparr>]\<rparr>) s = (u, s')"
      by (auto simp: apply_report_def andThen_apply load_record_apply seq_apply ensure_apply
          split: option.splits if_splits)
    from f ok have "distinct (map oc_reporter (of_reports f @
            [\<lparr>oc_reporter = r, oc_commit_hash = h, oc_reveal_value = None,
              oc_reveal_nonce = None, oc_epoch = e\<rparr>]))"
      by (auto simp: rounds_ok_def list_ex_iff)
    then show ?thesis
      by (intro preservesD [OF preserves_rounds_save ok sv]) simp
  qed (use ok in simp)
  then show ?thesis unfolding preserves_def by (metis prod.collapse)
qed

lemma oracle_entry_ok:
  "preserves (rounds_ok E) (apply_oracle_entry E x)" "preserves (reps_ok E) (apply_oracle_entry E x)"
proof -
  show "preserves (rounds_ok E) (apply_oracle_entry E x)"
  proof (cases x)
    case (OracleFeedCreate i c p n e)
    then show ?thesis
      by (simp add: apply_feed_create_def)
        (intro preserves_intros preserves_rounds_frames keeps_feed_meta preserves_rounds_save; simp)
  next
    case (OracleReport i r h e)
    then show ?thesis by (simp add: preserves_rounds_report)
  next
    case (OracleFeedFinalize i rs e)
    then show ?thesis
      by (simp add: apply_finalize_def Let_def)
        (intro preserves_intros preserves_rounds_frames keeps_feed_frames keeps_feed_score
          preserves_rounds_save; simp)
  qed
  show "preserves (reps_ok E) (apply_oracle_entry E x)"
    by (cases x) (simp_all add: apply_feed_create_def apply_report_def apply_finalize_def Let_def,
      (intro preserves_intros preserves_reps_frames preserves_reps_score keeps_intros; simp)+)
qed

section \<open>Theorems\<close>

definition demo_commit :: "string \<Rightarrow> OracleCommit" where
  "demo_commit r = \<lparr>oc_reporter = r, oc_commit_hash = commit_of demo_env 0 [] r,
     oc_reveal_value = None, oc_reveal_nonce = None, oc_epoch = 1\<rparr>"

definition demo_feed :: OracleFeed where
  "demo_feed = \<lparr>of_feed_id = ''f'', of_creator = ''alice'', of_asset_pair = ''HONE/USD'',
     of_update_interval_epochs = 5, of_created_epoch = 1, of_last_price = None,
     of_last_updated_epoch = None, of_report_deadline = 6,
     of_reports = [demo_commit ''r1'', demo_commit ''r2'', demo_commit ''r3''], of_active = True\<rparr>"

definition demo_oracle_chain :: chain where
  "demo_oracle_chain = snd (save_feed ''f'' demo_feed empty_chain)"

definition demo_reveals :: "reveal list" where
  "demo_reveals = [(''r1'', 1000, []), (''r2'', 1010, []), (''r3'', 7777, [])]"

lemma demo_feed_found [simp]: "get_feed E demo_oracle_chain ''f'' = Some demo_feed"
  unfolding demo_oracle_chain_def
  by (rule feed_rec.peek_save [of _ _ _ "Inr ()"]) (simp add: save_record_apply)

lemma demo_round_over: "round_over demo_feed 6"
  by (simp add: round_over_def demo_feed_def MIN_REPORTS_def)

lemma demo_valid: "valid_values demo_env demo_reveals (of_reports demo_feed) = [1000, 1010, 7777]"
  by (simp add: valid_values_def demo_feed_def demo_commit_def demo_reveals_def revealed_def commit_of_def
      demo_env_def List.map_filter_simps)

text \<open>
  (C28) The price of a round. When the round is over and at least three reveals match their commitments,
  finalisation succeeds; the price recorded in the feed and in the price index is one of the revealed
  values; and whatever range more than half of the valid values lie in, the price lies in it too, so
  a minority of reporters cannot move it further. At most 2000 hunits are paid per report.
\<close>

theorem oracle_price_of_majority:
  assumes "get_feed E s i = Some f" and "round_over f e"
    and "vs = valid_values E rs (of_reports f)" and "MIN_REPORTS \<le> length vs"
    and "length vs < 2 * length (filter (\<lambda>v. lo \<le> v \<and> v \<le> hi) vs)"
  shows "\<exists>s' p. apply_finalize E i rs e s = (Inr (), s') \<and> get_feed E s' i = Some (priced f e p) \<and>
    state_get s' (''oracle_price:'' @ of_asset_pair f) =
      Some (Json (jobj [(''price'', JNum p), (''epoch'', JNum e), (''feed_id'', JStr i)])) \<and>
    p \<in> set vs \<and> lo \<le> p \<and> p \<le> hi \<and>
    hone_total s' \<le> hone_total s + 2000 * int (length (of_reports f))"
proof -
  have enough: "MIN_REPORTS \<le> length (valid_values E rs (of_reports f))"
    and pv: "median_of vs = median_of (valid_values E rs (of_reports f))"
    using assms(3,4) by simp_all
  obtain s1 s' where fin: "apply_finalize E i rs e s = (Inr (), s')"
    "get_feed E s' i = Some (priced f e (median_of vs))"
    "state_get s' (''oracle_price:'' @ of_asset_pair f) =
      Some (Json (jobj [(''price'', JNum (median_of vs)), (''epoch'', JNum e), (''feed_id'', JStr i)]))"
    and sc: "each (score_reporter E (median_of vs)) (map (reveal_commit E rs) (of_reports f)) s = (Inr (), s1)"
    and tot: "hone_total s' = hone_total s1"
    by (rule finalize_priced [OF assms(1,2) enough pv])
  have "median_of vs \<in> set vs"
    using assms(4) by (intro median_mem) (auto simp: MIN_REPORTS_def)
  moreover have "lo \<le> median_of vs \<and> median_of vs \<le> hi"
    using assms(5) by (rule median_majority)
  moreover have "hone_total s' \<le> hone_total s + 2000 * int (length (of_reports f))"
    using scores_supply [OF sc] tot by simp
  ultimately show ?thesis using fin by blast
qed

theorem oracle_price_of_majority_witness:
  "\<exists>s' p. apply_finalize demo_env ''f'' demo_reveals 6 demo_oracle_chain = (Inr (), s') \<and>
    get_feed demo_env s' ''f'' = Some (priced demo_feed 6 p) \<and> 1000 \<le> p \<and> p \<le> 1010"
proof -
  have "length [1000, 1010, 7777 :: u64] < 2 * length (filter (\<lambda>v. 1000 \<le> v \<and> v \<le> 1010) [1000, 1010, 7777 :: u64])"
    by simp
  from oracle_price_of_majority [OF demo_feed_found demo_round_over demo_valid [symmetric] _ this]
  show ?thesis by (auto simp: MIN_REPORTS_def)
qed

text \<open>
  Invariants of the oracle. Under any sequence of oracle entries, accepted or refused, no round of any
  feed holds two commitments of one reporter, and every reputation score stays between 0 and 100.
\<close>

theorem oracle_invariants:
  assumes "rounds_ok E s" and "reps_ok E s"
  shows "rounds_ok E (run_oracle E xs s) \<and> reps_ok E (run_oracle E xs s)"
  using assms
proof (induction xs arbitrary: s)
  case Nil
  then show ?case by simp
next
  case (Cons x xs)
  obtain r s' where run: "apply_oracle_entry E x s = (r, s')"
    by (cases "apply_oracle_entry E x s")
  have "rounds_ok E s'" "reps_ok E s'"
    using preservesD [OF oracle_entry_ok(1) Cons.prems(1) run]
      preservesD [OF oracle_entry_ok(2) Cons.prems(2) run] by simp_all
  with Cons.IH run show ?case by simp
qed

theorem oracle_invariants_witness:
  "reps_ok demo_env (run_oracle demo_env [OracleFeedFinalize ''f'' demo_reveals 6] demo_oracle_chain)"
proof -
  have e: "reps_ok demo_env empty_chain"
    by (simp add: reps_ok_def reputation_of_def peek_state_get state_get_def empty_chain_def kv_get_def)
  have r0: "rounds_ok demo_env empty_chain"
    by (simp add: rounds_ok_def peek_state_get state_get_def empty_chain_def kv_get_def)
  have "save_feed ''f'' demo_feed empty_chain = (Inr (), demo_oracle_chain)"
    by (simp add: demo_oracle_chain_def save_record_apply)
  from preservesD [OF preserves_reps_frames(2) e this] preservesD [OF preserves_rounds_save r0 this]
  have "reps_ok demo_env demo_oracle_chain" "rounds_ok demo_env demo_oracle_chain"
    by (simp_all add: demo_feed_def demo_commit_def)
  with oracle_invariants show ?thesis by blast
qed

text \<open>
  The test for outliers is blind in places: the difference to the median is multiplied by 10000 in
  \<open>u64\<close> before the division. A value that exceeds the median by \<open>2 ^ 60\<close> has deviation zero, so
  its reporter's score does not fall.
\<close>

theorem far_value_not_outlier:
  assumes "unat median + 2 ^ 60 < 2 ^ 64"
  shows "deviation (median + 2 ^ 60) median = 0"
proof -
  have p: "unat (2 ^ 60 :: u64) = 2 ^ 60"
    by simp
  then have lt: "median < median + 2 ^ 60"
    using assms by (simp add: u64_less_iff unat_u64_add)
  have "(2 ^ 60 * 10000 :: u64) = 0"
    by simp
  then have "(median + 2 ^ 60 - median) * 10000 = 0"
    by (simp only: add_diff_cancel_left')
  with lt show ?thesis
    unfolding deviation_def by (simp only: if_True) simp
qed

theorem far_value_not_outlier_witness: "deviation (1000 + 2 ^ 60) 1000 = 0"
  by (rule far_value_not_outlier) simp

end
