(* ===== verification/AgentTask.thy ===== *)
theory AgentTask
  imports Records
begin

text \<open>
  The agentic task marketplace (\<open>agent_task.rs\<close>): agent credit, the life of a task from posting over
  bids, assignment, submission and the commitments and reveals of its verifiers to settlement or
  expiry.

  A task moves along the states of the protocol only; the value in balances, credit and reserved fees
  is conserved by every operation and by the sweep; the verdict does not depend on the order in which
  a hash map is walked when one result has strictly more reveals than any other. When two results
  tie, it does; and a task that asks for no verifiers makes the settlement panic.
\<close>

section \<open>State\<close>

type_synonym u32 = "32 word"

definition VERIFIER_FEE_PCT :: u64 where "VERIFIER_FEE_PCT = 10"

definition TASK_EXPIRY_BUFFER_EPOCHS :: u64 where "TASK_EXPIRY_BUFFER_EPOCHS = 10"

datatype TaskStatus = Open | Assigned | Submitted | Verifying | Settled | Expired | Cancelled

record VerifierCommit =
  vc_verifier :: string
  vc_commit_hash :: string
  vc_epoch :: u64

record VerifierReveal =
  vr_verifier :: string
  vr_result_hash :: string
  vr_salt :: string

record AgentTask =
  at_task_id :: string
  at_requester :: string
  at_description :: string
  at_tools_allowed :: "string list"
  at_max_fee :: u64
  at_agreed_fee :: u64
  at_min_verifiers :: u32
  at_bid_window_epochs :: u64
  at_deadline_epoch :: u64
  at_posted_epoch :: u64
  at_status :: TaskStatus
  at_agent :: "string option"
  at_result_hash :: "string option"
  at_output_cid :: "string option"
  at_commits :: "VerifierCommit list"
  at_reveals :: "VerifierReveal list"

fun TaskStatus_json :: "TaskStatus \<Rightarrow> json" where
  "TaskStatus_json Open = JStr ''open''"
| "TaskStatus_json Assigned = JStr ''assigned''"
| "TaskStatus_json Submitted = JStr ''submitted''"
| "TaskStatus_json Verifying = JStr ''verifying''"
| "TaskStatus_json Settled = JStr ''settled''"
| "TaskStatus_json Expired = JStr ''expired''"
| "TaskStatus_json Cancelled = JStr ''cancelled''"

definition TaskStatus_of_json :: "json \<Rightarrow> TaskStatus option" where
  "TaskStatus_of_json j =
     find (\<lambda>st. TaskStatus_json st = j) [Open, Assigned, Submitted, Verifying, Settled, Expired, Cancelled]"

definition u32_json :: "u32 \<Rightarrow> json" where
  "u32_json n = JNum (word_of_nat (unat n))"

definition as_u32 :: "json \<Rightarrow> u32 option" where
  "as_u32 j = Option.bind (as_u64 j) (\<lambda>n. if unat n < 2 ^ 32 then Some (word_of_nat (unat n)) else None)"

definition VerifierCommit_json :: "VerifierCommit \<Rightarrow> json" where
  "VerifierCommit_json c = jobj [(''verifier'', JStr (vc_verifier c)),
     (''commit_hash'', JStr (vc_commit_hash c)), (''epoch'', JNum (vc_epoch c))]"

definition VerifierCommit_of_json :: "json \<Rightarrow> VerifierCommit option" where
  "VerifierCommit_of_json j =
     Option.bind (field_str j ''verifier'') (\<lambda>verifier.
     Option.bind (field_str j ''commit_hash'') (\<lambda>commit_hash.
     Option.bind (field_u64 j ''epoch'') (\<lambda>epoch.
     Some \<lparr>vc_verifier = verifier, vc_commit_hash = commit_hash, vc_epoch = epoch\<rparr>)))"

definition VerifierReveal_json :: "VerifierReveal \<Rightarrow> json" where
  "VerifierReveal_json r = jobj [(''verifier'', JStr (vr_verifier r)),
     (''result_hash'', JStr (vr_result_hash r)), (''salt'', JStr (vr_salt r))]"

definition VerifierReveal_of_json :: "json \<Rightarrow> VerifierReveal option" where
  "VerifierReveal_of_json j =
     Option.bind (field_str j ''verifier'') (\<lambda>verifier.
     Option.bind (field_str j ''result_hash'') (\<lambda>result_hash.
     Option.bind (field_str j ''salt'') (\<lambda>salt.
     Some \<lparr>vr_verifier = verifier, vr_result_hash = result_hash, vr_salt = salt\<rparr>)))"

definition AgentTask_json :: "AgentTask \<Rightarrow> json" where
  "AgentTask_json t = jobj [
     (''task_id'', JStr (at_task_id t)), (''requester'', JStr (at_requester t)),
     (''description'', JStr (at_description t)), (''tools_allowed'', jstrs (at_tools_allowed t)),
     (''max_fee'', JNum (at_max_fee t)), (''agreed_fee'', JNum (at_agreed_fee t)),
     (''min_verifiers'', u32_json (at_min_verifiers t)),
     (''bid_window_epochs'', JNum (at_bid_window_epochs t)),
     (''deadline_epoch'', JNum (at_deadline_epoch t)), (''posted_epoch'', JNum (at_posted_epoch t)),
     (''status'', TaskStatus_json (at_status t)), (''agent'', jopt_str (at_agent t)),
     (''result_hash'', jopt_str (at_result_hash t)), (''output_cid'', jopt_str (at_output_cid t)),
     (''commits'', vec_json VerifierCommit_json (at_commits t)),
     (''reveals'', vec_json VerifierReveal_json (at_reveals t))]"

definition AgentTask_of_json :: "json \<Rightarrow> AgentTask option" where
  "AgentTask_of_json j =
     Option.bind (field_str j ''task_id'') (\<lambda>task_id.
     Option.bind (field_str j ''requester'') (\<lambda>requester.
     Option.bind (field_str j ''description'') (\<lambda>description.
     Option.bind (Option.bind (jfield j ''tools_allowed'') as_strs) (\<lambda>tools_allowed.
     Option.bind (field_u64 j ''max_fee'') (\<lambda>max_fee.
     Option.bind (field_u64 j ''agreed_fee'') (\<lambda>agreed_fee.
     Option.bind (Option.bind (jfield j ''min_verifiers'') as_u32) (\<lambda>min_verifiers.
     Option.bind (field_u64 j ''bid_window_epochs'') (\<lambda>bid_window.
     Option.bind (field_u64 j ''deadline_epoch'') (\<lambda>deadline.
     Option.bind (field_u64 j ''posted_epoch'') (\<lambda>posted.
     Option.bind (Option.bind (jfield j ''status'') TaskStatus_of_json) (\<lambda>status.
     Option.bind (field_opt as_str j ''agent'') (\<lambda>agent.
     Option.bind (field_opt as_str j ''result_hash'') (\<lambda>result_hash.
     Option.bind (field_opt as_str j ''output_cid'') (\<lambda>output_cid.
     Option.bind (field_vec VerifierCommit_of_json j ''commits'') (\<lambda>commits.
     Option.bind (field_vec VerifierReveal_of_json j ''reveals'') (\<lambda>reveals.
     Some \<lparr>at_task_id = task_id, at_requester = requester, at_description = description,
       at_tools_allowed = tools_allowed, at_max_fee = max_fee, at_agreed_fee = agreed_fee,
       at_min_verifiers = min_verifiers, at_bid_window_epochs = bid_window,
       at_deadline_epoch = deadline, at_posted_epoch = posted, at_status = status,
       at_agent = agent, at_result_hash = result_hash, at_output_cid = output_cid,
       at_commits = commits, at_reveals = reveals\<rparr>))))))))))))))))"

lemma TaskStatus_roundtrip: "TaskStatus_of_json (TaskStatus_json st) = Some st"
  by (cases st) (simp_all add: TaskStatus_of_json_def)

lemma as_u32_json: "as_u32 (u32_json n) = Some n"
proof -
  have "unat n < 2 ^ LENGTH(32)"
    by (rule unsigned_less)
  then have lt: "unat n < 2 ^ 32" by simp
  then have e: "unat (word_of_nat (unat n) :: u64) = unat n"
    by (intro unat_u64_of_nat) simp
  from lt show ?thesis
    unfolding as_u32_def u32_json_def as_u64.simps Option.bind.simps e by simp
qed

interpretation task_commit_rec: record_codec VerifierCommit_json VerifierCommit_of_json
  by unfold_locales (simp add: VerifierCommit_of_json_def VerifierCommit_json_def field_defs)

interpretation task_reveal_rec: record_codec VerifierReveal_json VerifierReveal_of_json
  by unfold_locales (simp add: VerifierReveal_of_json_def VerifierReveal_json_def field_defs)

lemma AgentTask_roundtrip: "AgentTask_of_json (AgentTask_json t) = Some t"
  by (simp add: AgentTask_of_json_def AgentTask_json_def field_str_def field_u64_def field_vec_def
      TaskStatus_roundtrip as_u32_json task_commit_rec.as_vec_json task_reveal_rec.as_vec_json)

section \<open>Operations\<close>

definition credit_key :: "string \<Rightarrow> string" where
  "credit_key account = ''agent_credit:'' @ account"

definition agent_task_key :: "string \<Rightarrow> string" where
  "agent_task_key task_id = ''agent_task:'' @ task_id"

definition bid_key :: "string \<Rightarrow> string \<Rightarrow> string" where
  "bid_key task_id agent = ''agent_task_bid:'' @ task_id @ '':'' @ agent"

definition load_task :: "env \<Rightarrow> string \<Rightarrow> AgentTask chain_act" where
  "load_task E task_id = load_record E AgentTask_of_json (agent_task_key task_id) ''task not found''"

definition save_task :: "AgentTask \<Rightarrow> unit chain_act" where
  "save_task task = save_record AgentTask_json (agent_task_key (at_task_id task)) task"

definition get_credit :: "env \<Rightarrow> chain \<Rightarrow> string \<Rightarrow> u64" where
  "get_credit E s account = (case peek E as_u64 s (credit_key account) of Some n \<Rightarrow> n | None \<Rightarrow> 0)"

definition set_credit :: "string \<Rightarrow> u64 \<Rightarrow> unit chain_act" where
  "set_credit account amount = save_record JNum (credit_key account) amount"

definition apply_credit_deposit :: "env \<Rightarrow> string \<Rightarrow> u64 \<Rightarrow> unit chain_act" where
  "apply_credit_deposit E account amount =
     seq (debit account NATIVE_TOKEN amount)
    (andThen (reads (\<lambda>s. sat_add (get_credit E s account) amount)) (set_credit account))"

definition apply_credit_withdraw :: "env \<Rightarrow> string \<Rightarrow> u64 \<Rightarrow> unit chain_act" where
  "apply_credit_withdraw E account amount =
     andThen (reads (\<lambda>s. get_credit E s account)) (\<lambda>c.
     seq (ensure (c \<ge> amount) (Err ''insufficient agent credit''))
    (seq (set_credit account (c - amount))
    (seq (credit account NATIVE_TOKEN amount) (ret ()))))"

definition apply_task_post ::
  "env \<Rightarrow> string \<Rightarrow> string \<Rightarrow> string \<Rightarrow> string list \<Rightarrow> u64 \<Rightarrow> u32 \<Rightarrow> u64 \<Rightarrow> u64 \<Rightarrow> u64 \<Rightarrow> unit chain_act" where
  "apply_task_post E task_id requester description tools_allowed max_fee min_verifiers bid_window
     deadline epoch =
     andThen (reads (\<lambda>s. state_get s (agent_task_key task_id))) (\<lambda>found.
     seq (ensure (found = None) (Err ''task already exists''))
    (andThen (reads (\<lambda>s. get_credit E s requester)) (\<lambda>c.
     seq (ensure (c \<ge> max_fee) (Err ''insufficient agent credit''))
    (seq (set_credit requester (c - max_fee))
         (save_task \<lparr>at_task_id = task_id, at_requester = requester, at_description = description,
            at_tools_allowed = tools_allowed, at_max_fee = max_fee, at_agreed_fee = 0,
            at_min_verifiers = min_verifiers, at_bid_window_epochs = bid_window,
            at_deadline_epoch = deadline, at_posted_epoch = epoch, at_status = Open,
            at_agent = None, at_result_hash = None, at_output_cid = None,
            at_commits = [], at_reveals = []\<rparr>)))))"

definition apply_task_bid :: "env \<Rightarrow> string \<Rightarrow> string \<Rightarrow> u64 \<Rightarrow> u64 \<Rightarrow> unit chain_act" where
  "apply_task_bid E task_id agent proposed_fee epoch =
     andThen (load_task E task_id) (\<lambda>task.
     seq (ensure (at_status task = Open) (Err ''task is not accepting bids''))
    (seq (ensure (proposed_fee \<le> at_max_fee task) (Err ''proposed_fee exceeds max_fee''))
    (seq (ensure (epoch \<le> at_posted_epoch task + at_bid_window_epochs task) (Err ''bid window has closed''))
         (save_record JNum (bid_key task_id agent) proposed_fee))))"

text \<open>A bid record that is not a number counts as \<open>u64::MAX\<close>.\<close>

definition apply_task_assign :: "env \<Rightarrow> string \<Rightarrow> string \<Rightarrow> u64 \<Rightarrow> unit chain_act" where
  "apply_task_assign E task_id agent fee =
     andThen (load_task E task_id) (\<lambda>task.
     seq (ensure (at_status task = Open) (Err ''task is not open for assignment''))
    (seq (ensure (fee \<le> at_max_fee task) (Err ''fee exceeds max_fee''))
    (andThen (reads (\<lambda>s. state_get s (bid_key task_id agent))) (\<lambda>bid_raw.
     andThen (need bid_raw (Err ''agent has not bid on task'')) (\<lambda>raw.
     seq (ensure (fee \<le> (case Option.bind (as_json E raw) as_u64 of Some n \<Rightarrow> n | None \<Rightarrow> u64_max))
            (Err ''assigned fee exceeds the bid''))
         (save_task (task\<lparr>at_agent := Some agent, at_agreed_fee := fee, at_status := Assigned\<rparr>)))))))"

definition apply_task_submit :: "env \<Rightarrow> string \<Rightarrow> string \<Rightarrow> string \<Rightarrow> string \<Rightarrow> unit chain_act" where
  "apply_task_submit E task_id agent result_hash output_cid =
     andThen (load_task E task_id) (\<lambda>task.
     seq (ensure (at_status task = Assigned) (Err ''task is not in Assigned state''))
    (seq (ensure (at_agent task = Some agent) (Err ''only the assigned agent can submit''))
    (seq (save_task (task\<lparr>at_result_hash := Some result_hash, at_output_cid := Some output_cid,
            at_status := Submitted\<rparr>))
         (when_do (log_info E) (ensure (char_boundary result_hash 12)
            (Panic ''byte index 12 is not a char boundary''))))))"

definition apply_verifier_commit :: "env \<Rightarrow> string \<Rightarrow> string \<Rightarrow> string \<Rightarrow> u64 \<Rightarrow> unit chain_act" where
  "apply_verifier_commit E task_id verifier commit_hash epoch =
     andThen (load_task E task_id) (\<lambda>task.
     seq (ensure (at_status task = Submitted \<or> at_status task = Verifying)
            (Err ''task is not awaiting verification''))
    (seq (ensure (list_all (\<lambda>c. vc_verifier c \<noteq> verifier) (at_commits task))
            (Err ''verifier already committed''))
         (save_task (task\<lparr>at_commits := at_commits task @ [\<lparr>vc_verifier = verifier,
            vc_commit_hash = commit_hash, vc_epoch = epoch\<rparr>], at_status := Verifying\<rparr>))))"

definition apply_verifier_reveal :: "env \<Rightarrow> string \<Rightarrow> string \<Rightarrow> string \<Rightarrow> string \<Rightarrow> unit chain_act" where
  "apply_verifier_reveal E task_id verifier result_hash salt =
     andThen (load_task E task_id) (\<lambda>task.
     seq (ensure (at_status task = Verifying) (Err ''task is not in Verifying state''))
    (andThen (need (find (\<lambda>c. vc_verifier c = verifier) (at_commits task)) (Err ''no commit found for verifier''))
       (\<lambda>commit.
     seq (ensure (vc_commit_hash commit = hex_encode E (sha256 E (result_hash @ salt)))
            (Err ''reveal does not match commit''))
    (seq (ensure (list_all (\<lambda>r. vr_verifier r \<noteq> verifier) (at_reveals task))
            (Err ''verifier already revealed''))
         (save_task (task\<lparr>at_reveals := at_reveals task @ [\<lparr>vr_verifier = verifier,
            vr_result_hash = result_hash, vr_salt = salt\<rparr>]\<rparr>))))))"

interpretation task_rec: record_codec AgentTask_json AgentTask_of_json
  by unfold_locales (rule AgentTask_roundtrip)

text \<open>
  The tally of the reveals: a hash map from results to their verifiers, here in the order of first
  appearance. \<open>into_iter\<close> walks it in an order of its own, the parameter \<open>iter\<close>; \<open>max_by_key\<close>
  keeps the last of several maxima.
\<close>

fun tally_add :: "string \<Rightarrow> string \<Rightarrow> (string \<times> string list) list \<Rightarrow> (string \<times> string list) list" where
  "tally_add h v [] = [(h, [v])]"
| "tally_add h v ((k, vs) # m) = (if k = h then (k, vs @ [v]) # m else (k, vs) # tally_add h v m)"

definition reveal_tally :: "VerifierReveal list \<Rightarrow> (string \<times> string list) list" where
  "reveal_tally rs = fold (\<lambda>r. tally_add (vr_result_hash r) (vr_verifier r)) rs []"

fun max_by_len :: "(string \<times> string list) list \<Rightarrow> (string \<times> string list) option" where
  "max_by_len [] = None"
| "max_by_len (x # xs) =
    (case max_by_len xs of
       None \<Rightarrow> Some x
     | Some y \<Rightarrow> if length (snd x) \<le> length (snd y) then Some y else Some x)"

type_synonym map_order = "(string \<times> string list) list \<Rightarrow> (string \<times> string list) list"

definition agent_share :: "AgentTask \<Rightarrow> bool \<Rightarrow> u64" where
  "agent_share task agent_correct =
    (let verifier_cut_total = sat_mul (at_agreed_fee task) VERIFIER_FEE_PCT div 100 in
     if agent_correct then sat_sub (at_agreed_fee task) verifier_cut_total else 0)"

definition verifier_share :: "AgentTask \<Rightarrow> string list \<Rightarrow> u64" where
  "verifier_share task winners =
    (let verifier_cut_total = sat_mul (at_agreed_fee task) VERIFIER_FEE_PCT div 100 in
     if winners = [] then 0 else verifier_cut_total div word_of_nat (length winners))"

definition refund_share :: "AgentTask \<Rightarrow> bool \<Rightarrow> string list \<Rightarrow> u64" where
  "refund_share task agent_correct winners =
     sat_sub (sat_sub (at_max_fee task) (agent_share task agent_correct))
       (sat_mul (verifier_share task winners) (word_of_nat (length winners)))"

definition pay_if :: "string \<Rightarrow> u64 \<Rightarrow> unit chain_act" where
  "pay_if account amount =
     when_do (amount > 0) (seq (attempt (credit account NATIVE_TOKEN amount)) (ret ()))"

definition pay_verdict :: "env \<Rightarrow> AgentTask \<Rightarrow> string \<Rightarrow> bool \<Rightarrow> string list \<Rightarrow> unit chain_act" where
  "pay_verdict E task agent agent_correct winners =
     seq (pay_if agent (agent_share task agent_correct))
    (seq (each (\<lambda>v. pay_if v (verifier_share task winners)) winners)
         (when_do (refund_share task agent_correct winners > 0)
           (andThen (reads (\<lambda>s. sat_add (get_credit E s (at_requester task))
               (refund_share task agent_correct winners))) (set_credit (at_requester task)))))"

text \<open>The entry that records the settlement: its handler does nothing and it is not indexed.\<close>

definition apply_task_settle :: "unit chain_act" where
  "apply_task_settle = ret ()"

definition try_settle :: "env \<Rightarrow> map_order \<Rightarrow> string \<Rightarrow> u64 \<Rightarrow> bool chain_act" where
  "try_settle E iter task_id epoch =
     andThen (load_task E task_id) (\<lambda>task.
     if at_status task \<noteq> Verifying then ret False
     else (case at_agent task of None \<Rightarrow> ret False | Some agent \<Rightarrow>
          (case at_result_hash task of None \<Rightarrow> ret False | Some agent_hash \<Rightarrow>
       if length (at_reveals task) < unat (at_min_verifiers task) then ret False
       else
         andThen (need (max_by_len (iter (reveal_tally (at_reveals task))))
             (Panic ''called Option::unwrap() on a None value'')) (\<lambda>(winning_hash, winners).
         seq (pay_verdict E task agent (agent_hash = winning_hash) winners)
        (seq apply_task_settle
        (seq (save_task (task\<lparr>at_status := Settled\<rparr>)) (ret True)))))))"

text \<open>\<open>m.unwrap_or(false)\<close>: an error is \<open>False\<close>, a panic unwinds.\<close>

definition unwrap_or_false :: "bool chain_act \<Rightarrow> bool chain_act" where
  "unwrap_or_false m = (\<lambda>s. case m s of
       (Inl (Panic t), s') \<Rightarrow> (Inl (Panic t), s')
     | (Inl _, s') \<Rightarrow> (Inr False, s')
     | (Inr b, s') \<Rightarrow> (Inr b, s'))"

definition sweep_task :: "env \<Rightarrow> map_order \<Rightarrow> u64 \<Rightarrow> string \<times> val \<Rightarrow> unit chain_act" where
  "sweep_task E iter epoch kv =
    (case Option.bind (as_json E (snd kv)) AgentTask_of_json of
       None \<Rightarrow> ret ()
     | Some task \<Rightarrow>
         if at_status task \<in> {Settled, Expired, Cancelled} then ret ()
         else if epoch \<le> at_deadline_epoch task + TASK_EXPIRY_BUFFER_EPOCHS then ret ()
         else
           andThen (if at_status task = Verifying \<and> length (at_reveals task) \<ge> unat (at_min_verifiers task)
                    then unwrap_or_false (try_settle E iter (at_task_id task) epoch) else ret False) (\<lambda>settled.
           if settled then ret ()
           else
             seq (andThen (reads (\<lambda>s. sat_add (get_credit E s (at_requester task)) (at_max_fee task)))
                   (set_credit (at_requester task)))
                 (save_record AgentTask_json (fst kv) (task\<lparr>at_status := Expired, at_max_fee := 0\<rparr>))))"

definition sweep_tasks :: "env \<Rightarrow> map_order \<Rightarrow> u64 \<Rightarrow> unit chain_act" where
  "sweep_tasks E iter epoch =
     andThen (reads (\<lambda>s. state_scan_prefix s ''agent_task:'')) (each (sweep_task E iter epoch))"

datatype task_entry =
    AgentCreditDeposit string u64
  | AgentCreditWithdraw string u64
  | AgentTaskPost string string string "string list" u64 u32 u64 u64 u64
  | AgentTaskBid string string u64 u64
  | AgentTaskAssign string string u64
  | AgentTaskSubmit string string string string
  | AgentTaskVerifierCommit string string string u64
  | AgentTaskVerifierReveal string string string string
  | AgentTaskSettle

fun apply_task_entry :: "env \<Rightarrow> task_entry \<Rightarrow> unit chain_act" where
  "apply_task_entry E (AgentCreditDeposit account amount) = apply_credit_deposit E account amount"
| "apply_task_entry E (AgentCreditWithdraw account amount) = apply_credit_withdraw E account amount"
| "apply_task_entry E (AgentTaskPost task_id requester description tools max_fee min_verifiers window deadline epoch) =
     apply_task_post E task_id requester description tools max_fee min_verifiers window deadline epoch"
| "apply_task_entry E (AgentTaskBid task_id agent fee epoch) = apply_task_bid E task_id agent fee epoch"
| "apply_task_entry E (AgentTaskAssign task_id agent fee) = apply_task_assign E task_id agent fee"
| "apply_task_entry E (AgentTaskSubmit task_id agent result_hash cid) =
     apply_task_submit E task_id agent result_hash cid"
| "apply_task_entry E (AgentTaskVerifierCommit task_id verifier commit_hash epoch) =
     apply_verifier_commit E task_id verifier commit_hash epoch"
| "apply_task_entry E (AgentTaskVerifierReveal task_id verifier result_hash salt) =
     apply_verifier_reveal E task_id verifier result_hash salt"
| "apply_task_entry E AgentTaskSettle = apply_task_settle"

section \<open>Value\<close>

definition closed_task :: "AgentTask \<Rightarrow> bool" where
  "closed_task t \<longleftrightarrow> at_status t \<in> {Settled, Expired, Cancelled}"

definition reserved :: "AgentTask \<Rightarrow> int" where
  "reserved t = (if closed_task t then 0 else uint (at_max_fee t))"

abbreviation get_task :: "env \<Rightarrow> chain \<Rightarrow> string \<Rightarrow> AgentTask option" where
  "get_task E s i \<equiv> peek E AgentTask_of_json s (agent_task_key i)"

abbreviation credit_total :: "env \<Rightarrow> chain \<Rightarrow> int" where
  "credit_total E \<equiv> record_total E as_u64 ''agent_credit:'' uint"

abbreviation reserved_total :: "env \<Rightarrow> chain \<Rightarrow> int" where
  "reserved_total E \<equiv> record_total E AgentTask_of_json ''agent_task:'' reserved"

text \<open>The value in balances, agent credit and reserved fees.\<close>

definition market_value :: "env \<Rightarrow> chain \<Rightarrow> int" where
  "market_value E s = hone_total s + credit_total E s + reserved_total E s"

interpretation agent_credits: escrow_table JNum as_u64 "''agent_credit:''" "uint :: u64 \<Rightarrow> int"
  by unfold_locales simp_all

interpretation tasks: escrow_table AgentTask_json AgentTask_of_json "''agent_task:''" reserved
  by unfold_locales (simp add: reserved_def)

lemma task_prefixes [simp]:
  "prefix ''agent_credit:'' (credit_key a)" "\<not> prefix ''agent_task:'' (credit_key a)"
  "prefix ''agent_task:'' (agent_task_key i)" "\<not> prefix ''agent_credit:'' (agent_task_key i)"
  "\<not> prefix ''agent_credit:'' (bid_key i a)" "\<not> prefix ''agent_task:'' (bid_key i a)"
  by (simp_all add: credit_key_def agent_task_key_def bid_key_def)

lemma task_keys [simp]:
  "credit_key a \<noteq> agent_task_key i" "agent_task_key i \<noteq> credit_key a" "bid_key j a \<noteq> agent_task_key i"
  "agent_task_key i \<noteq> bid_key j a" "agent_task_key i = agent_task_key j \<longleftrightarrow> i = j"
  by (simp_all add: credit_key_def agent_task_key_def bid_key_def)

lemma owed_credit: "agent_credits.owed E s (credit_key a) = uint (get_credit E s a)"
  by (simp add: get_credit_def split: option.split)

lemma mv_set_credit:
  assumes "set_credit a n s = (r, s')"
  shows "market_value E s' = market_value E s + uint n - uint (get_credit E s a)"
proof -
  note run = assms [unfolded set_credit_def]
  have "credit_total E s' = credit_total E s + uint n - uint (get_credit E s a)"
    using agent_credits.record_total_save [OF run, of E] by (simp add: owed_credit)
  moreover have "reserved_total E s' = reserved_total E s"
    by (rule keepsD [OF record_total_other(3) run]) simp
  moreover have "hone_total s' = hone_total s"
    by (rule keepsD [OF keeps_token_supply [OF keeps_save_record(1)] run])
  ultimately show ?thesis by (simp add: market_value_def)
qed

lemma mv_save_task:
  assumes "save_record AgentTask_json (agent_task_key i) t s = (r, s')"
  shows "market_value E s' = market_value E s + reserved t - tasks.owed E s (agent_task_key i)"
proof -
  have "reserved_total E s' = reserved_total E s + reserved t - tasks.owed E s (agent_task_key i)"
    using tasks.record_total_save [OF assms, of E] by simp
  moreover have "credit_total E s' = credit_total E s"
    by (rule keepsD [OF record_total_other(3) assms]) simp
  moreover have "hone_total s' = hone_total s"
    by (rule keepsD [OF keeps_token_supply [OF keeps_save_record(1)] assms])
  ultimately show ?thesis by (simp add: market_value_def)
qed

lemma mv_meta_kept:
  assumes "keeps cf_meta m" "m s = (r, s')"
  shows "market_value E s' - hone_total s' = market_value E s - hone_total s"
    and "get_credit E s' a = get_credit E s a" and "get_task E s' i = get_task E s i"
proof -
  have m: "cf_meta s' = cf_meta s" by (rule keepsD [OF assms])
  show "market_value E s' - hone_total s' = market_value E s - hone_total s"
    by (simp add: market_value_def record_total_def m)
  show "get_credit E s' a = get_credit E s a" "get_task E s' i = get_task E s i"
    by (simp_all add: get_credit_def peek_state_get state_get_def m)
qed

text \<open>The parts of the value, and the room they leave.\<close>

lemma mv_parts:
  "hone_total s + uint (get_credit E s a) + tasks.owed E s (agent_task_key i) \<le> market_value E s"
  using agent_credits.owed_le [of "credit_key a" E s] tasks.owed_le [of "agent_task_key i" E s]
  by (simp add: market_value_def owed_credit)

lemma mv_balance: "uint (get_balance s b NATIVE_TOKEN) \<le> hone_total s"
  by (rule balance_le_supply) simp

lemma owed_task_nonneg: "0 \<le> tasks.owed E s k"
  by (simp add: reserved_def split: option.split)

lemma uint_sat_add: "uint a + uint b < 2 ^ 64 \<Longrightarrow> uint (sat_add a b) = uint a + uint b"
  by (drule room_iff [THEN iffD2]) (simp add: sat_add_def uint_u64_add)

lemma credit_has_room:
  assumes "hone_total s + uint n < 2 ^ 64"
  obtains x s' where "credit a NATIVE_TOKEN n s = (Inr x, s')"
    "hone_total s' = hone_total s + uint n" "cf_meta s' = cf_meta s"
proof -
  have "uint (get_balance s a NATIVE_TOKEN) + uint n < 2 ^ 64"
    using mv_balance [of s a] assms by linarith
  then have "unat (get_balance s a NATIVE_TOKEN) + unat n < 2 ^ 64"
    by (rule room_iff [THEN iffD2])
  then obtain x s' where c: "credit a NATIVE_TOKEN n s = (Inr x, s')"
    by (simp add: credit_cases)
  from gainsD [OF native.pay_in_gains c] keepsD [OF keeps_credit(3) c] c that show ?thesis by simp
qed

lemma deposit_value:
  assumes fits: "market_value E s < 2 ^ 64" and run: "apply_credit_deposit E a n s = (r, s')"
  shows "market_value E s' = market_value E s"
proof (cases "n \<le> get_balance s a NATIVE_TOKEN")
  case False
  with run show ?thesis by (simp add: apply_credit_deposit_def seq_apply debit_cases)
next
  case True
  then obtain x s1 where d: "debit a NATIVE_TOKEN n s = (Inr x, s1)"
    by (simp add: debit_cases)
  have h: "hone_total s1 = hone_total s - uint n"
    using gainsD [OF native.take_out_gains d] by simp
  note kept = mv_meta_kept [OF keeps_debit(3) d, of E]
  have "uint n \<le> hone_total s"
    using True mv_balance [of s a] by (simp add: word_le_def)
  then have "uint (get_credit E s a) + uint n < 2 ^ 64"
    using mv_parts [of s E a undefined] owed_task_nonneg [of E s "agent_task_key undefined"] fits by linarith
  then have "uint (sat_add (get_credit E s1 a) n) = uint (get_credit E s1 a) + uint n"
    using kept(2) by (simp add: uint_sat_add)
  moreover have "set_credit a (sat_add (get_credit E s1 a) n) s1 = (r, s')"
    using run d by (simp add: apply_credit_deposit_def seq_apply andThen_apply reads_apply)
  ultimately show ?thesis
    using mv_set_credit kept(1) h by fastforce
qed

lemma withdraw_value:
  assumes fits: "market_value E s < 2 ^ 64" and run: "apply_credit_withdraw E a n s = (r, s')"
  shows "market_value E s' = market_value E s"
proof (cases "n \<le> get_credit E s a")
  case False
  with run show ?thesis by (simp add: apply_credit_withdraw_def andThen_apply reads_apply seq_apply ensure_apply)
next
  case True
  obtain s1 where st: "set_credit a (get_credit E s a - n) s = (Inr (), s1)"
    by (simp add: set_credit_def save_record_apply)
  have v1: "market_value E s1 = market_value E s - uint n"
    using mv_set_credit [OF st, of E] True by simp
  have h1: "hone_total s1 = hone_total s"
    by (rule keepsD [OF keeps_token_supply [OF keeps_save_record(1)] st [unfolded set_credit_def]])
  have "uint n \<le> uint (get_credit E s a)"
    using True by (simp add: word_le_def)
  then have "hone_total s1 + uint n < 2 ^ 64"
    using h1 mv_parts [of s E a undefined] owed_task_nonneg [of E s "agent_task_key undefined"] fits by linarith
  then obtain x s2 where c: "credit a NATIVE_TOKEN n s1 = (Inr x, s2)"
    and h2: "hone_total s2 = hone_total s1 + uint n"
    by (rule credit_has_room)
  have "s' = s2"
    using run True st c
    by (simp add: apply_credit_withdraw_def andThen_apply reads_apply seq_apply ensure_apply ret_apply)
  with mv_meta_kept(1) [OF keeps_credit(3) c, of E] h2 v1 show ?thesis by simp
qed

section \<open>The life of a task\<close>

text \<open>The protocol: what may happen to a task once it has been posted.\<close>

inductive task_step :: "AgentTask \<Rightarrow> AgentTask \<Rightarrow> bool" where
  assign: "at_status t = Open \<Longrightarrow> fee \<le> at_max_fee t \<Longrightarrow>
    task_step t (t\<lparr>at_agent := Some agent, at_agreed_fee := fee, at_status := Assigned\<rparr>)"
| submit: "at_status t = Assigned \<Longrightarrow> at_agent t = Some agent \<Longrightarrow>
    task_step t (t\<lparr>at_result_hash := Some h, at_output_cid := Some cid, at_status := Submitted\<rparr>)"
| commit: "at_status t \<in> {Submitted, Verifying} \<Longrightarrow> vc_verifier c \<notin> vc_verifier ` set (at_commits t) \<Longrightarrow>
    task_step t (t\<lparr>at_commits := at_commits t @ [c], at_status := Verifying\<rparr>)"
| reveal: "at_status t = Verifying \<Longrightarrow> vr_verifier r \<in> vc_verifier ` set (at_commits t) \<Longrightarrow>
    vr_verifier r \<notin> vr_verifier ` set (at_reveals t) \<Longrightarrow>
    task_step t (t\<lparr>at_reveals := at_reveals t @ [r]\<rparr>)"
| settle: "at_status t = Verifying \<Longrightarrow> task_step t (t\<lparr>at_status := Settled\<rparr>)"
| expire: "\<not> closed_task t \<Longrightarrow> task_step t (t\<lparr>at_status := Expired, at_max_fee := 0\<rparr>)"

inductive_cases task_stepE: "task_step t t'"

definition task_inv :: "AgentTask \<Rightarrow> bool" where
  "task_inv t \<longleftrightarrow> (closed_task t \<or> at_agreed_fee t \<le> at_max_fee t) \<and>
     distinct (map vc_verifier (at_commits t)) \<and> distinct (map vr_verifier (at_reveals t)) \<and>
     vr_verifier ` set (at_reveals t) \<subseteq> vc_verifier ` set (at_commits t)"

lemma task_step_inv: "task_step t t' \<Longrightarrow> task_inv t \<Longrightarrow> task_inv t'"
  by (induction rule: task_step.induct) (auto simp: task_inv_def closed_task_def)

lemma closed_no_step: "closed_task t \<Longrightarrow> \<not> task_step t t'"
  by (auto simp: closed_task_def elim: task_stepE)

lemma task_step_id: "task_step t t' \<Longrightarrow> at_task_id t' = at_task_id t"
  by (induction rule: task_step.induct) simp_all

lemma task_step_reserved:
  "task_step t t' \<Longrightarrow> \<not> closed_task t' \<Longrightarrow> reserved t' = reserved t"
  by (induction rule: task_step.induct) (auto simp: reserved_def closed_task_def)

definition tasks_wf :: "env \<Rightarrow> chain \<Rightarrow> bool" where
  "tasks_wf E s \<longleftrightarrow> (\<forall>i t. get_task E s i = Some t \<longrightarrow> at_task_id t = i \<and> task_inv t)"

text \<open>The four operations that update a task make a step of the protocol or change nothing.\<close>

definition updates_by_step :: "env \<Rightarrow> string \<Rightarrow> unit chain_act \<Rightarrow> bool" where
  "updates_by_step E i m \<longleftrightarrow> (\<forall>s r s'. m s = (r, s') \<longrightarrow> s' = s \<or>
     (\<exists>t t'. get_task E s i = Some t \<and> task_step t t' \<and> \<not> closed_task t' \<and> save_task t' s = (Inr (), s')))"

lemma save_task_returns: "save_task t s = (Inr (), snd (save_task t s))"
  by (simp add: save_task_def save_record_apply)

lemma case_save_task: "(case save_task t s of (r, s') \<Rightarrow> f r s') = f (Inr ()) (snd (save_task t s))"
  by (simp add: save_task_def save_record_apply)

lemma updates_by_stepI:
  assumes "\<And>s r s'. m s = (r, s') \<Longrightarrow> s' = s \<or> (\<exists>t. get_task E s i = Some t \<and> P t \<and> snd (save_task (f t) s) = s')"
    and "\<And>t. P t \<Longrightarrow> task_step t (f t)" and "\<And>t. P t \<Longrightarrow> \<not> closed_task (f t)"
  shows "updates_by_step E i m"
  unfolding updates_by_step_def using assms save_task_returns by (metis prod.collapse)

lemmas task_op_unfold = load_task_def andThen_apply load_record_apply seq_apply ensure_apply reads_apply
  need_apply

lemma update_steps:
  "updates_by_step E i (apply_task_assign E i a fee)"
  "updates_by_step E i (apply_task_submit E i a h cid)"
  "updates_by_step E i (apply_verifier_commit E i v h e)"
  "updates_by_step E i (apply_verifier_reveal E i v h salt)"
proof -
  show "updates_by_step E i (apply_task_assign E i a fee)"
    by (rule updates_by_stepI [where P = "\<lambda>t. at_status t = Open \<and> fee \<le> at_max_fee t"
          and f = "\<lambda>t. t\<lparr>at_agent := Some a, at_agreed_fee := fee, at_status := Assigned\<rparr>"])
      (auto simp: apply_task_assign_def task_op_unfold closed_task_def task_step.assign
        split: option.splits if_splits)
  show "updates_by_step E i (apply_task_submit E i a h cid)"
    by (rule updates_by_stepI [where P = "\<lambda>t. at_status t = Assigned \<and> at_agent t = Some a"
          and f = "\<lambda>t. t\<lparr>at_result_hash := Some h, at_output_cid := Some cid, at_status := Submitted\<rparr>"])
      (auto simp: apply_task_submit_def task_op_unfold when_do_apply case_save_task closed_task_def
        task_step.submit split: option.splits if_splits)
  let ?c = "\<lparr>vc_verifier = v, vc_commit_hash = h, vc_epoch = e\<rparr>"
  show "updates_by_step E i (apply_verifier_commit E i v h e)"
    by (rule updates_by_stepI [where P = "\<lambda>t. at_status t \<in> {Submitted, Verifying} \<and>
            v \<notin> vc_verifier ` set (at_commits t)"
          and f = "\<lambda>t. t\<lparr>at_commits := at_commits t @ [?c], at_status := Verifying\<rparr>"])
      (auto simp: apply_verifier_commit_def task_op_unfold closed_task_def list_all_iff
        split: option.splits if_splits intro: task_step.commit [of _ ?c, simplified])
  let ?r = "\<lparr>vr_verifier = v, vr_result_hash = h, vr_salt = salt\<rparr>"
  show "updates_by_step E i (apply_verifier_reveal E i v h salt)"
    by (rule updates_by_stepI [where P = "\<lambda>t. at_status t = Verifying \<and>
            v \<in> vc_verifier ` set (at_commits t) \<and> v \<notin> vr_verifier ` set (at_reveals t)"
          and f = "\<lambda>t. t\<lparr>at_reveals := at_reveals t @ [?r]\<rparr>"])
      (auto simp: apply_verifier_reveal_def task_op_unfold closed_task_def list_all_iff find_Some_iff
        split: option.splits if_splits intro!: task_step.reveal)
qed

lemma step_value:
  assumes "updates_by_step E i m" "tasks_wf E s" "m s = (r, s')"
  shows "market_value E s' = market_value E s"
proof (cases "s' = s")
  case False
  with assms obtain t t' where t: "get_task E s i = Some t" "task_step t t'" "\<not> closed_task t'"
    "save_task t' s = (Inr (), s')"
    unfolding updates_by_step_def by blast
  then have "at_task_id t' = i"
    using assms(2) task_step_id by (auto simp: tasks_wf_def)
  with mv_save_task [of i t' s "Inr ()" s' E] task_step_reserved [OF t(2,3)] t show ?thesis
    by (simp add: save_task_def)
qed simp

lemma wf_save_task:
  assumes "tasks_wf E s" "task_inv t" "save_record AgentTask_json (agent_task_key (at_task_id t)) t s = (r, s')"
  shows "tasks_wf E s'"
  unfolding tasks_wf_def
proof (intro allI impI)
  fix j u
  assume u: "get_task E s' j = Some u"
  show "at_task_id u = j \<and> task_inv u"
  proof (cases "j = at_task_id t")
    case True
    with u task_rec.peek_save [OF assms(3), of E] assms(2) show ?thesis by simp
  next
    case False
    then have "get_task E s' j = get_task E s j"
      by (intro peek_save_other [OF assms(3)]) simp
    with u assms(1) show ?thesis by (auto simp: tasks_wf_def)
  qed
qed

lemma step_wf:
  assumes "updates_by_step E i m" "tasks_wf E s" "m s = (r, s')"
  shows "tasks_wf E s'"
proof (cases "s' = s")
  case False
  with assms obtain t t' where t: "get_task E s i = Some t" "task_step t t'" "save_task t' s = (Inr (), s')"
    unfolding updates_by_step_def by blast
  with assms(2) have "task_inv t'" using task_step_inv by (auto simp: tasks_wf_def)
  from wf_save_task [OF assms(2) this] t(3) show ?thesis by (simp add: save_task_def)
qed (use assms in simp)

lemma wf_cong:
  assumes "tasks_wf E s" "\<And>i. state_get s' (agent_task_key i) = state_get s (agent_task_key i)"
  shows "tasks_wf E s'"
  using assms(1) unfolding tasks_wf_def by (simp add: peek_cong [OF assms(2)])

lemma wf_meta:
  assumes "keeps cf_meta m" and "tasks_wf E s" and "m s = (r, s')"
  shows "tasks_wf E s'"
  using assms(2) by (rule wf_cong) (simp add: state_get_def keepsD [OF assms(1,3)])

lemma wf_frames:
  "tasks_wf E s \<Longrightarrow> set_credit a n s = (r, s') \<Longrightarrow> tasks_wf E s'"
  "tasks_wf E s \<Longrightarrow> save_record JNum (bid_key j a) n s = (r, s') \<Longrightarrow> tasks_wf E s'"
  unfolding set_credit_def save_record_def by (erule wf_cong, simp add: state_get_set)+

lemma post_effect:
  assumes run: "apply_task_post E i q d ts mf mv w dl e s = (r, s')" and wf: "tasks_wf E s"
  shows "market_value E s' = market_value E s" and "tasks_wf E s'"
proof -
  let ?t = "\<lparr>at_task_id = i, at_requester = q, at_description = d, at_tools_allowed = ts,
    at_max_fee = mf, at_agreed_fee = 0, at_min_verifiers = mv, at_bid_window_epochs = w,
    at_deadline_epoch = dl, at_posted_epoch = e, at_status = Open, at_agent = None,
    at_result_hash = None, at_output_cid = None, at_commits = [], at_reveals = []\<rparr>"
  have "market_value E s' = market_value E s \<and> tasks_wf E s'"
  proof (cases "state_get s (agent_task_key i) = None \<and> mf \<le> get_credit E s q")
    case False
    with run have "s' = s"
      by (auto simp: apply_task_post_def task_op_unfold split: if_splits)
    with wf show ?thesis by simp
  next
    case True
    obtain s1 where st: "set_credit q (get_credit E s q - mf) s = (Inr (), s1)"
      by (simp add: set_credit_def save_record_apply)
    with True run have sv: "save_record AgentTask_json (agent_task_key i) ?t s1 = (r, s')"
      by (simp add: apply_task_post_def task_op_unfold save_task_def)
    have "state_get s1 (agent_task_key i) = None"
      using True st by (simp add: set_credit_def save_record_def state_get_set)
    then have none: "get_task E s1 i = None" by (simp add: peek_state_get)
    have "market_value E s1 = market_value E s - uint mf"
      using mv_set_credit [OF st, of E] True by simp
    with mv_save_task [OF sv, of E] none have "market_value E s' = market_value E s"
      by (simp add: reserved_def closed_task_def)
    moreover have "tasks_wf E s'"
      using wf_save_task [OF wf_frames(1) [OF wf st], of ?t] sv by (simp add: task_inv_def)
    ultimately show ?thesis by simp
  qed
  then show "market_value E s' = market_value E s" and "tasks_wf E s'" by simp_all
qed

lemma bid_effect:
  assumes run: "apply_task_bid E i a fee e s = (r, s')" and wf: "tasks_wf E s"
  shows "market_value E s' = market_value E s" and "tasks_wf E s'"
proof -
  have "s' = s \<or> save_record JNum (bid_key i a) fee s = (r, s')"
    using run by (auto simp: apply_task_bid_def task_op_unfold split: option.splits if_splits)
  then have "market_value E s' = market_value E s \<and> tasks_wf E s'"
  proof
    assume sv: "save_record JNum (bid_key i a) fee s = (r, s')"
    have "reserved_total E s' = reserved_total E s" "credit_total E s' = credit_total E s"
      by (rule keepsD [OF record_total_other(3) sv], simp)+
    moreover have "hone_total s' = hone_total s"
      by (rule keepsD [OF keeps_token_supply [OF keeps_save_record(1)] sv])
    ultimately show ?thesis
      using wf_frames(2) [OF wf sv] by (simp add: market_value_def)
  qed (use wf in simp)
  then show "market_value E s' = market_value E s" and "tasks_wf E s'" by simp_all
qed

lemma credit_ops_wf:
  assumes wf: "tasks_wf E s"
  shows "tasks_wf E (snd (apply_credit_deposit E a n s))" "tasks_wf E (snd (apply_credit_withdraw E a n s))"
proof -
  show "tasks_wf E (snd (apply_credit_deposit E a n s))"
  proof (cases "n \<le> get_balance s a NATIVE_TOKEN")
    case True
    then obtain x s1 where d: "debit a NATIVE_TOKEN n s = (Inr x, s1)"
      by (simp add: debit_cases)
    obtain s2 where st: "set_credit a (sat_add (get_credit E s1 a) n) s1 = (Inr (), s2)"
      by (simp add: set_credit_def save_record_apply)
    from wf_frames(1) [OF wf_meta [OF keeps_debit(3) wf d] st] d st show ?thesis
      by (simp add: apply_credit_deposit_def task_op_unfold)
  qed (use wf in \<open>simp add: apply_credit_deposit_def task_op_unfold debit_cases\<close>)
  show "tasks_wf E (snd (apply_credit_withdraw E a n s))"
  proof (cases "n \<le> get_credit E s a")
    case True
    obtain s1 where st: "set_credit a (get_credit E s a - n) s = (Inr (), s1)"
      by (simp add: set_credit_def save_record_apply)
    obtain r s2 where c: "credit a NATIVE_TOKEN n s1 = (r, s2)"
      by (cases "credit a NATIVE_TOKEN n s1")
    from wf_meta [OF keeps_credit(3) wf_frames(1) [OF wf st] c] True st c show ?thesis
      by (cases r) (simp_all add: apply_credit_withdraw_def task_op_unfold ret_apply)
  qed (use wf in \<open>simp add: apply_credit_withdraw_def task_op_unfold\<close>)
qed

lemma task_entry_effect:
  assumes fits: "market_value E s < 2 ^ 64" and wf: "tasks_wf E s"
    and run: "apply_task_entry E x s = (r, s')"
  shows "market_value E s' = market_value E s \<and> tasks_wf E s'"
proof (cases x)
  case (AgentCreditDeposit a n)
  with fits wf run deposit_value [of E s a n r s'] credit_ops_wf(1) [of E s a n] show ?thesis by simp
next
  case (AgentCreditWithdraw a n)
  with fits wf run withdraw_value [of E s a n r s'] credit_ops_wf(2) [of E s a n] show ?thesis by simp
next
  case (AgentTaskPost i q d ts mf mv w dl e)
  with run post_effect [of E i q d ts mf mv w dl e s r s'] wf show ?thesis by simp
next
  case (AgentTaskBid i a fee e)
  with run bid_effect [of E i a fee e s r s'] wf show ?thesis by simp
next
  case (AgentTaskAssign i a fee)
  with run wf step_value [OF update_steps(1) wf, of i a fee r s'] step_wf [OF update_steps(1) wf, of i a fee r s']
  show ?thesis by simp
next
  case (AgentTaskSubmit i a h cid)
  with run wf step_value [OF update_steps(2) wf, of i a h cid r s'] step_wf [OF update_steps(2) wf, of i a h cid r s']
  show ?thesis by simp
next
  case (AgentTaskVerifierCommit i v h e)
  with run wf step_value [OF update_steps(3) wf, of i v h e r s'] step_wf [OF update_steps(3) wf, of i v h e r s']
  show ?thesis by simp
next
  case (AgentTaskVerifierReveal i v h salt)
  with run wf step_value [OF update_steps(4) wf, of i v h salt r s'] step_wf [OF update_steps(4) wf, of i v h salt r s']
  show ?thesis by simp
next
  case AgentTaskSettle
  with run wf show ?thesis by (simp add: apply_task_settle_def ret_apply)
qed

section \<open>Settlement\<close>

text \<open>The three shares use up the reserved fee exactly.\<close>

lemma cut_le: "unat (sat_mul a VERIFIER_FEE_PCT div 100) \<le> unat a"
proof -
  have "unat (sat_mul a VERIFIER_FEE_PCT div 100) = min (unat a * 10) (2 ^ 64 - 1) div 100"
    by (simp add: unat_div unat_sat_mul VERIFIER_FEE_PCT_def)
  also have "\<dots> \<le> unat a * 10 div 100"
    by (intro div_le_mono) simp
  also have "\<dots> \<le> unat a" by simp
  finally show ?thesis .
qed

lemma shares_exact:
  assumes fee: "at_agreed_fee t \<le> at_max_fee t" and w: "length ws < 2 ^ 64"
  shows "uint (agent_share t ok) + int (length ws) * uint (verifier_share t ws) + uint (refund_share t ok ws) =
    uint (at_max_fee t)"
proof -
  let ?cut = "sat_mul (at_agreed_fee t) VERIFIER_FEE_PCT div 100"
  let ?ag = "unat (agent_share t ok)" and ?v = "unat (verifier_share t ws)"
  have "unat (word_of_nat (length ws) :: u64) = length ws"
    using w by (rule unat_u64_of_nat)
  then have v: "length ws * ?v \<le> unat ?cut" and len: "unat (word_of_nat (length ws) :: u64) = length ws"
    by (simp_all add: verifier_share_def Let_def unat_div)
  have ag: "?ag \<le> unat (at_agreed_fee t) - unat ?cut"
    by (simp add: agent_share_def Let_def unat_sat_sub)
  have sum: "?ag + length ws * ?v \<le> unat (at_agreed_fee t)"
    using ag v cut_le [of "at_agreed_fee t"] by linarith
  have fee': "unat (at_agreed_fee t) \<le> unat (at_max_fee t)"
    using fee by (simp add: u64_le_iff)
  have "length ws * ?v < 2 ^ 64"
    using sum fee' unat_u64_less [of "at_max_fee t"] by (simp del: unat_u64_less)
  then have "unat (refund_share t ok ws) = unat (at_max_fee t) - ?ag - length ws * ?v"
    by (simp add: refund_share_def unat_sat_sub unat_sat_mul len mult.commute)
  with sum fee' have "?ag + length ws * ?v + unat (refund_share t ok ws) = unat (at_max_fee t)" by simp
  then show ?thesis
    by (simp only: uint_nat of_nat_add [symmetric] of_nat_mult [symmetric])
qed

lemma pay_if_runs:
  assumes "hone_total s + uint n < 2 ^ 64"
  obtains s' where "pay_if a n s = (Inr (), s')" "hone_total s' = hone_total s + uint n" "cf_meta s' = cf_meta s"
proof (cases "n > 0")
  case True
  obtain x s' where "credit a NATIVE_TOKEN n s = (Inr x, s')"
    "hone_total s' = hone_total s + uint n" "cf_meta s' = cf_meta s"
    using assms by (rule credit_has_room)
  with True that show ?thesis by (simp add: pay_if_def act_simps)
next
  case False
  with that show ?thesis by (simp add: pay_if_def act_simps word_gt_0)
qed

lemma each_pay_runs:
  assumes "hone_total s + int (length ws) * uint n < 2 ^ 64"
  shows "\<exists>s'. each (\<lambda>v. pay_if v n) ws s = (Inr (), s') \<and>
    hone_total s' = hone_total s + int (length ws) * uint n \<and> cf_meta s' = cf_meta s"
  using assms
proof (induction ws arbitrary: s)
  case Nil
  then show ?case by (simp add: ret_apply)
next
  case (Cons w ws)
  have "0 \<le> int (length ws) * uint n" by simp
  moreover have "int (length (w # ws)) * uint n = uint n + int (length ws) * uint n"
    by (simp add: distrib_right)
  ultimately have "hone_total s + uint n < 2 ^ 64" using Cons.prems by linarith
  then obtain s1 where p: "pay_if w n s = (Inr (), s1)" "hone_total s1 = hone_total s + uint n"
    "cf_meta s1 = cf_meta s" by (rule pay_if_runs)
  with Cons.prems have "hone_total s1 + int (length ws) * uint n < 2 ^ 64" by (simp add: distrib_right)
  from Cons.IH [OF this] p show ?case by (auto simp: seq_apply distrib_right)
qed

lemma pay_task_runs:
  assumes fits: "market_value E s < 2 ^ 64" and t: "get_task E s i = Some t" "\<not> closed_task t"
    and fee: "at_agreed_fee t \<le> at_max_fee t" and w: "length ws < 2 ^ 64"
  obtains s' where "pay_verdict E t a ok ws s = (Inr (), s')"
    "market_value E s' = market_value E s + uint (at_max_fee t)"
    "\<forall>j. state_get s' (agent_task_key j) = state_get s (agent_task_key j)"
proof -
  let ?ag = "agent_share t ok" and ?v = "verifier_share t ws" and ?rf = "refund_share t ok ws"
  note ex = shares_exact [OF fee w, of ok]
  have res: "hone_total s + uint (get_credit E s q) + uint (at_max_fee t) \<le> market_value E s" for q
    using mv_parts [of s E q i] t by (simp add: reserved_def)
  have vs: "0 \<le> int (length ws) * uint ?v" by simp
  have "hone_total s + uint ?ag < 2 ^ 64"
    using ex res [of a] fits vs uint_ge_0 [of ?rf] uint_ge_0 [of "get_credit E s a"] by linarith
  then obtain s1 where p1: "pay_if a ?ag s = (Inr (), s1)" "hone_total s1 = hone_total s + uint ?ag"
    "cf_meta s1 = cf_meta s" by (rule pay_if_runs)
  have "hone_total s1 + int (length ws) * uint ?v < 2 ^ 64"
    using p1(2) ex res [of a] fits uint_ge_0 [of ?rf] uint_ge_0 [of "get_credit E s a"] by linarith
  then obtain s2 where p2: "each (\<lambda>v. pay_if v ?v) ws s1 = (Inr (), s2)"
    "hone_total s2 = hone_total s1 + int (length ws) * uint ?v" "cf_meta s2 = cf_meta s1"
    using each_pay_runs by blast
  have meta: "cf_meta s2 = cf_meta s" using p1 p2 by simp
  then have mv2: "market_value E s2 = market_value E s + uint ?ag + int (length ws) * uint ?v"
    and cr: "get_credit E s2 q = get_credit E s q" for q
    using p1(2) p2(2) by (simp_all add: market_value_def record_total_def get_credit_def peek_state_get state_get_def)
  show ?thesis
  proof (cases "?rf > 0")
    case True
    let ?q = "at_requester t"
    have "uint (get_credit E s2 ?q) + uint ?rf < 2 ^ 64"
      unfolding cr using ex res [of ?q] fits vs uint_ge_0 [of ?ag] supply_nonneg [of NATIVE_TOKEN s]
      by linarith
    then have sa: "uint (sat_add (get_credit E s2 ?q) ?rf) = uint (get_credit E s2 ?q) + uint ?rf"
      by (rule uint_sat_add)
    obtain s3 where st: "set_credit ?q (sat_add (get_credit E s2 ?q) ?rf) s2 = (Inr (), s3)"
      by (simp add: set_credit_def save_record_apply)
    have "pay_verdict E t a ok ws s = (Inr (), s3)"
      using p1(1) p2(1) st True by (simp add: pay_verdict_def seq_apply when_do_apply andThen_apply reads_apply)
    moreover have "market_value E s3 = market_value E s + uint (at_max_fee t)"
      using mv_set_credit [OF st, of E] mv2 sa ex by simp
    moreover have "state_get s3 (agent_task_key j) = state_get s (agent_task_key j)" for j
      using st meta by (simp add: set_credit_def save_record_def state_get_set state_get_def [of s2] state_get_def [of s])
    ultimately show ?thesis using that by blast
  next
    case False
    then have rf: "?rf = 0" by (simp add: word_gt_0)
    have "pay_verdict E t a ok ws s = (Inr (), s2)"
      using p1(1) p2(1) False by (simp add: pay_verdict_def seq_apply when_do_apply)
    moreover have "market_value E s2 = market_value E s + uint (at_max_fee t)"
      using mv2 ex rf by simp
    ultimately show ?thesis using that meta by (simp add: state_get_def)
  qed
qed

text \<open>The tally: each revealed result once, with those who revealed it.\<close>

definition voters :: "VerifierReveal list \<Rightarrow> string \<Rightarrow> string list" where
  "voters rs h = map vr_verifier (filter (\<lambda>r. vr_result_hash r = h) rs)"

lemma voters_Nil: "h \<notin> vr_result_hash ` set rs \<Longrightarrow> voters rs h = []"
  by (auto simp: voters_def filter_empty_conv image_iff)

lemma tally_add_set:
  "distinct (map fst m) \<Longrightarrow> set (tally_add h v m) =
    (let old = (case map_of m h of Some vs \<Rightarrow> vs | None \<Rightarrow> []) in
     insert (h, old @ [v]) {x \<in> set m. fst x \<noteq> h})"
proof (induction m)
  case Nil
  then show ?case by simp
next
  case (Cons x m)
  then show ?case
    by (cases x) (force simp: Let_def split: if_splits option.splits)
qed

lemma fst_tally_add: "set (map fst (tally_add h v m)) = insert h (set (map fst m))"
proof (induction m)
  case Nil
  then show ?case by simp
next
  case (Cons x m)
  then show ?case by (cases x) auto
qed

lemma distinct_tally_add: "distinct (map fst m) \<Longrightarrow> distinct (map fst (tally_add h v m))"
proof (induction m)
  case Nil
  then show ?case by simp
next
  case (Cons x m)
  then show ?case
    using fst_tally_add [of h v m] by (cases x) auto
qed

lemma tally_spec:
  "distinct (map fst (reveal_tally rs)) \<and> set (reveal_tally rs) = {(h, voters rs h) | h. h \<in> vr_result_hash ` set rs}"
proof (induction rs rule: rev_induct)
  case Nil
  then show ?case by (simp add: reveal_tally_def)
next
  case (snoc r rs)
  let ?h = "vr_result_hash r"
  have t: "reveal_tally (rs @ [r]) = tally_add ?h (vr_verifier r) (reveal_tally rs)"
    by (simp add: reveal_tally_def)
  have old: "(case map_of (reveal_tally rs) ?h of Some vs \<Rightarrow> vs | None \<Rightarrow> []) = voters rs ?h"
  proof (cases "map_of (reveal_tally rs) ?h")
    case None
    then have "?h \<notin> vr_result_hash ` set rs"
      using snoc by (force simp: map_of_eq_None_iff)
    then have "voters rs ?h = []" by (rule voters_Nil)
    with None show ?thesis by simp
  next
    case (Some vs)
    with snoc map_of_SomeD [OF Some] show ?thesis by auto
  qed
  have "voters (rs @ [r]) h = voters rs h @ (if h = ?h then [vr_verifier r] else [])" for h
    by (simp add: voters_def)
  with snoc distinct_tally_add [of "reveal_tally rs" ?h] show ?case
    by (auto simp: t tally_add_set old Let_def)
qed

lemma length_voters: "length (voters rs h) \<le> length rs"
  by (simp add: voters_def)

definition walks :: "map_order \<Rightarrow> bool" where
  "walks iter \<longleftrightarrow> (\<forall>m. set (iter m) = set m)"

lemma max_by_len_spec:
  "max_by_len xs = Some x \<Longrightarrow> x \<in> set xs \<and> (\<forall>y \<in> set xs. length (snd y) \<le> length (snd x))"
proof (induction xs arbitrary: x)
  case Nil
  then show ?case by simp
next
  case (Cons z xs)
  show ?case
  proof (cases "max_by_len xs")
    case None
    then have "xs = []" by (cases xs) (auto split: option.splits if_splits)
    with Cons show ?thesis by simp
  next
    case (Some y)
    with Cons.IH [OF Some] Cons.prems show ?thesis
      by (auto split: if_splits)
  qed
qed

lemma max_by_len_None: "max_by_len xs = None \<longleftrightarrow> xs = []"
  by (cases xs) (auto split: option.splits)

lemma winner_voters:
  assumes "walks iter" "max_by_len (iter (reveal_tally rs)) = Some (h, ws)"
  shows "ws = voters rs h" and "length ws \<le> length rs" and "\<And>h'. length (voters rs h') \<le> length ws"
proof -
  have mem: "(h, ws) \<in> set (reveal_tally rs)" and max: "\<forall>y \<in> set (reveal_tally rs). length (snd y) \<le> length ws"
    using max_by_len_spec [OF assms(2)] assms(1) by (auto simp: walks_def)
  then show ws: "ws = voters rs h" using tally_spec [of rs] by auto
  then show "length ws \<le> length rs" by (simp add: length_voters)
  fix h'
  show "length (voters rs h') \<le> length ws"
  proof (cases "h' \<in> vr_result_hash ` set rs")
    case True
    then have "(h', voters rs h') \<in> set (reveal_tally rs)" using tally_spec [of rs] by auto
    with max show ?thesis by force
  next
    case False
    then have "voters rs h' = []" by (rule voters_Nil)
    then show ?thesis by simp
  qed
qed

text \<open>When a task is ready and its tally has a winner, settlement pays and closes it.\<close>

definition ready :: "AgentTask \<Rightarrow> bool" where
  "ready t \<longleftrightarrow> at_status t = Verifying \<and> at_agent t \<noteq> None \<and> at_result_hash t \<noteq> None \<and>
     length (at_reveals t) \<ge> unat (at_min_verifiers t)"

lemma try_settle_ready:
  assumes "get_task E s i = Some t" "ready t" "at_agent t = Some a" "at_result_hash t = Some h"
  shows "try_settle E iter i e s =
    (case max_by_len (iter (reveal_tally (at_reveals t))) of
       None \<Rightarrow> (Inl (Panic ''called Option::unwrap() on a None value''), s)
     | Some (wh, ws) \<Rightarrow>
         seq (pay_verdict E t a (h = wh) ws)
           (seq apply_task_settle (seq (save_task (t\<lparr>at_status := Settled\<rparr>)) (ret True))) s)"
  using assms
  by (auto simp: try_settle_def load_task_def andThen_apply load_record_apply ready_def need_apply
      split: option.split)

lemma try_settle_idle:
  assumes "\<nexists>t. get_task E s i = Some t \<and> ready t"
  shows "\<exists>r. try_settle E iter i e s = (r, s) \<and> r \<noteq> Inr True"
  using assms
  by (cases "get_task E s i")
    (auto simp: try_settle_def load_task_def andThen_apply load_record_apply ready_def ret_apply split: option.splits)

lemma try_settle_runs:
  assumes fits: "market_value E s < 2 ^ 64" and wf: "tasks_wf E s" and t: "get_task E s i = Some t" "ready t"
    and ah: "at_agent t = Some a" "at_result_hash t = Some h"
    and len: "length (at_reveals t) < 2 ^ 64" and iter: "walks iter"
    and win: "max_by_len (iter (reveal_tally (at_reveals t))) = Some (wh, ws)"
  obtains s1 s' where "try_settle E iter i e s = (Inr True, s')" "market_value E s' = market_value E s"
    "tasks_wf E s'" "get_task E s' i = Some (t\<lparr>at_status := Settled\<rparr>)"
    "\<forall>k. k \<noteq> i \<longrightarrow> state_get s' (agent_task_key k) = state_get s (agent_task_key k)"
    "pay_verdict E t a (h = wh) ws s = (Inr (), s1)" "cf_balances s' = cf_balances s1"
proof -
  let ?t = "t\<lparr>at_status := Settled\<rparr>"
  have i: "at_task_id t = i" "task_inv t" using wf t by (auto simp: tasks_wf_def)
  have open': "\<not> closed_task t" using t(2) by (simp add: ready_def closed_task_def)
  have fee: "at_agreed_fee t \<le> at_max_fee t" using i(2) open' by (simp add: task_inv_def)
  have lw: "length ws < 2 ^ 64" using winner_voters(2) [OF iter win] len by linarith
  obtain s1 where p: "pay_verdict E t a (h = wh) ws s = (Inr (), s1)"
    "market_value E s1 = market_value E s + uint (at_max_fee t)"
    and kept: "\<forall>j. state_get s1 (agent_task_key j) = state_get s (agent_task_key j)"
    by (rule pay_task_runs [OF fits t(1) open' fee lw, of a "h = wh"])
  have p3: "state_get s1 (agent_task_key j) = state_get s (agent_task_key j)" for j using kept by blast
  obtain s' where sv: "save_record AgentTask_json (agent_task_key i) ?t s1 = (Inr (), s')"
    by (simp add: save_record_apply)
  have run: "try_settle E iter i e s = (Inr True, s')"
    using p(1) sv i(1)
    by (simp add: try_settle_ready [OF t ah] win seq_apply apply_task_settle_def ret_apply save_task_def)
  have t1: "get_task E s1 i = Some t" using t(1) p3 by (simp add: peek_state_get)
  have "market_value E s' = market_value E s"
    using mv_save_task [OF sv, of E] p(2) t1 open' by (simp add: reserved_def closed_task_def)
  moreover have "tasks_wf E s'"
    using wf_save_task [OF wf_cong [OF wf p3], of ?t "Inr ()" s'] sv i
    by (simp add: task_inv_def closed_task_def)
  moreover have "\<forall>k. k \<noteq> i \<longrightarrow> state_get s' (agent_task_key k) = state_get s (agent_task_key k)"
    using sv p3 by (simp add: save_record_def state_get_set)
  moreover have "cf_balances s' = cf_balances s1"
    by (rule keepsD [OF keeps_save_record(1) sv])
  ultimately show ?thesis
    using run p(1) task_rec.peek_save [OF sv, of E] that by blast
qed

definition usize_ok :: "env \<Rightarrow> chain \<Rightarrow> bool" where
  "usize_ok E s \<longleftrightarrow> (\<forall>i t. get_task E s i = Some t \<longrightarrow> length (at_reveals t) < 2 ^ 64)"

definition reveals_kept :: "env \<Rightarrow> string \<Rightarrow> chain \<Rightarrow> chain \<Rightarrow> bool" where
  "reveals_kept E i s s' \<longleftrightarrow>
    (\<forall>t'. get_task E s' i = Some t' \<longrightarrow> (\<exists>t. get_task E s i = Some t \<and> at_reveals t' = at_reveals t))"

lemma reveals_kept_refl [simp]: "reveals_kept E i s s"
  by (simp add: reveals_kept_def)

lemma usize_kept:
  assumes "usize_ok E s" "reveals_kept E i s s'"
    and "\<forall>k. k \<noteq> i \<longrightarrow> state_get s' (agent_task_key k) = state_get s (agent_task_key k)"
  shows "usize_ok E s'"
  unfolding usize_ok_def
proof (intro allI impI)
  fix k t'
  assume t': "get_task E s' k = Some t'"
  show "length (at_reveals t') < 2 ^ 64"
  proof (cases "k = i")
    case True
    with t' assms(1,2) show ?thesis by (fastforce simp: reveals_kept_def usize_ok_def)
  next
    case False
    with t' assms(3) have "get_task E s k = Some t'" by (simp add: peek_state_get)
    with assms(1) show ?thesis by (simp add: usize_ok_def)
  qed
qed

lemma try_settle_effect:
  assumes fits: "market_value E s < 2 ^ 64" and wf: "tasks_wf E s" and us: "usize_ok E s"
    and iter: "walks iter" and run: "try_settle E iter i e s = (r, s')"
  shows "market_value E s' = market_value E s \<and> tasks_wf E s' \<and>
    (\<forall>k. k \<noteq> i \<longrightarrow> state_get s' (agent_task_key k) = state_get s (agent_task_key k)) \<and> reveals_kept E i s s' \<and>
    (r \<noteq> Inr True \<longrightarrow> s' = s)"
proof (cases "\<exists>t. get_task E s i = Some t \<and> ready t")
  case False
  with try_settle_idle [OF False, of iter e] run wf show ?thesis by auto
next
  case True
  then obtain t where t: "get_task E s i = Some t" "ready t" by blast
  then obtain a h where ah: "at_agent t = Some a" "at_result_hash t = Some h"
    by (auto simp: ready_def)
  show ?thesis
  proof (cases "max_by_len (iter (reveal_tally (at_reveals t)))")
    case None
    with run wf show ?thesis by (simp add: try_settle_ready [OF t ah])
  next
    case (Some x)
    obtain wh ws where x: "x = (wh, ws)" by (cases x)
    have len: "length (at_reveals t) < 2 ^ 64" using us t by (auto simp: usize_ok_def)
    obtain s1 s2 where "try_settle E iter i e s = (Inr True, s2)" "market_value E s2 = market_value E s"
      "tasks_wf E s2" "get_task E s2 i = Some (t\<lparr>at_status := Settled\<rparr>)"
      "\<forall>k. k \<noteq> i \<longrightarrow> state_get s2 (agent_task_key k) = state_get s (agent_task_key k)"
      "pay_verdict E t a (h = wh) ws s = (Inr (), s1)" "cf_balances s2 = cf_balances s1"
      by (rule try_settle_runs [OF fits wf t ah len iter Some [unfolded x]])
    with run t(1) show ?thesis by (simp add: reveals_kept_def)
  qed
qed

section \<open>The sweep\<close>

lemma expire_effect:
  assumes fits: "market_value E s < 2 ^ 64" and wf: "tasks_wf E s" and t: "get_task E s i = Some t" "\<not> closed_task t"
    and run: "seq (andThen (reads (\<lambda>s. sat_add (get_credit E s (at_requester t)) (at_max_fee t)))
        (set_credit (at_requester t)))
      (save_record AgentTask_json (agent_task_key i) (t\<lparr>at_status := Expired, at_max_fee := 0\<rparr>)) s = (r, s')"
  shows "market_value E s' = market_value E s \<and> tasks_wf E s' \<and>
    (\<forall>k. k \<noteq> i \<longrightarrow> state_get s' (agent_task_key k) = state_get s (agent_task_key k)) \<and> reveals_kept E i s s'"
proof -
  let ?q = "at_requester t" and ?t = "t\<lparr>at_status := Expired, at_max_fee := 0\<rparr>"
  have i: "at_task_id t = i" "task_inv t" using wf t by (auto simp: tasks_wf_def)
  have "uint (get_credit E s ?q) + uint (at_max_fee t) < 2 ^ 64"
    using mv_parts [of s E ?q i] t supply_nonneg [of NATIVE_TOKEN s] fits by (simp add: reserved_def)
  then have sa: "uint (sat_add (get_credit E s ?q) (at_max_fee t)) = uint (get_credit E s ?q) + uint (at_max_fee t)"
    by (rule uint_sat_add)
  obtain s1 where st: "set_credit ?q (sat_add (get_credit E s ?q) (at_max_fee t)) s = (Inr (), s1)"
    by (simp add: set_credit_def save_record_apply)
  with run have sv: "save_record AgentTask_json (agent_task_key i) ?t s1 = (r, s')"
    by (simp add: seq_apply andThen_apply reads_apply)
  have k1: "state_get s1 (agent_task_key k) = state_get s (agent_task_key k)" for k
    using st by (simp add: set_credit_def save_record_def state_get_set)
  have t1: "get_task E s1 i = Some t" using t(1) k1 by (simp add: peek_state_get)
  have "market_value E s' = market_value E s"
    using mv_save_task [OF sv, of E] mv_set_credit [OF st, of E] sa t1 t(2)
    by (simp add: reserved_def closed_task_def)
  moreover have "tasks_wf E s'"
    using wf_save_task [OF wf_cong [OF wf k1], of ?t r s'] sv i by (simp add: task_inv_def closed_task_def)
  moreover have "reveals_kept E i s s'"
    using task_rec.peek_save [OF sv, of E] t(1) by (simp add: reveals_kept_def)
  ultimately show ?thesis
    using sv k1 by (simp add: save_record_def state_get_set)
qed

lemma sweep_task_effect:
  assumes fits: "market_value E s < 2 ^ 64" and wf: "tasks_wf E s" and us: "usize_ok E s" and iter: "walks iter"
    and v: "state_get s (agent_task_key i) = Some v" and run: "sweep_task E iter e (agent_task_key i, v) s = (r, s')"
  shows "market_value E s' = market_value E s \<and> tasks_wf E s' \<and>
    (\<forall>k. k \<noteq> i \<longrightarrow> state_get s' (agent_task_key k) = state_get s (agent_task_key k)) \<and> reveals_kept E i s s'"
proof (cases "\<exists>t. get_task E s i = Some t \<and> \<not> closed_task t \<and>
    \<not> e \<le> at_deadline_epoch t + TASK_EXPIRY_BUFFER_EPOCHS")
  case False
  with run v wf show ?thesis
    by (auto simp: sweep_task_def peek_state_get closed_task_def ret_apply split: option.splits if_splits)
next
  case True
  then obtain t where t: "get_task E s i = Some t" "\<not> closed_task t"
    "\<not> e \<le> at_deadline_epoch t + TASK_EXPIRY_BUFFER_EPOCHS" by blast
  have dec: "Option.bind (as_json E v) AgentTask_of_json = Some t"
    using t(1) v by (simp add: peek_state_get)
  have i: "at_task_id t = i" using wf t(1) by (auto simp: tasks_wf_def)
  note unfold_sweep = sweep_task_def dec fst_conv snd_conv option.case
  show ?thesis
  proof (cases "at_status t = Verifying \<and> length (at_reveals t) \<ge> unat (at_min_verifiers t)")
    case False
    with run t have "seq (andThen (reads (\<lambda>s. sat_add (get_credit E s (at_requester t)) (at_max_fee t)))
        (set_credit (at_requester t)))
      (save_record AgentTask_json (agent_task_key i) (t\<lparr>at_status := Expired, at_max_fee := 0\<rparr>)) s = (r, s')"
      by (auto simp: unfold_sweep closed_task_def andThen_apply [of "ret _"] ret_apply)
    with fits wf t(1,2) show ?thesis by (rule expire_effect)
  next
    case True
    obtain r1 s1 where ts: "try_settle E iter i e s = (r1, s1)"
      by (cases "try_settle E iter i e s")
    note eff = try_settle_effect [OF fits wf us iter ts]
    show ?thesis
    proof (cases "r1 = Inr True \<or> (\<exists>m. r1 = Inl (Panic m))")
      case True
      with \<open>at_status t = Verifying \<and> _\<close> run t ts i have "s' = s1"
        by (auto simp: unfold_sweep closed_task_def andThen_apply unwrap_or_false_def ret_apply)
      with eff show ?thesis by simp
    next
      case False
      then have "s1 = s" using eff by simp
      have "unwrap_or_false (try_settle E iter i e) s = (Inr False, s)"
        using False ts \<open>s1 = s\<close> by (auto simp: unwrap_or_false_def split: sum.splits error.splits)
      with \<open>at_status t = Verifying \<and> _\<close> run t i have "seq (andThen (reads (\<lambda>s. sat_add (get_credit E s (at_requester t)) (at_max_fee t)))
          (set_credit (at_requester t)))
        (save_record AgentTask_json (agent_task_key i) (t\<lparr>at_status := Expired, at_max_fee := 0\<rparr>)) s = (r, s')"
        by (simp add: unfold_sweep closed_task_def andThen_apply [of "unwrap_or_false _"])
      with fits wf t(1,2) show ?thesis by (rule expire_effect)
    qed
  qed
qed

lemma sweep_effect:
  assumes "wf_chain s" "market_value E s < 2 ^ 64" "tasks_wf E s" "usize_ok E s" "walks iter"
    and run: "sweep_tasks E iter e s = (r, s')"
  shows "market_value E s' = market_value E s \<and> tasks_wf E s'"
proof -
  let ?P = "\<lambda>u. market_value E u = market_value E s \<and> tasks_wf E u \<and> usize_ok E u"
  have "?P s'"
  proof (rule scan_each_invariant [OF assms(1) _ run [unfolded sweep_tasks_def], where P = ?P])
    fix k v u r u'
    assume P: "?P u" and k: "prefix ''agent_task:'' k" and v: "state_get u k = Some v"
      and st: "sweep_task E iter e (k, v) u = (r, u')"
    from k obtain i where i: "k = agent_task_key i" by (auto simp: agent_task_key_def prefix_def)
    have "market_value E u < 2 ^ 64" using P assms(2) by simp
    note eff = sweep_task_effect [OF this _ _ assms(5) v [unfolded i] st [unfolded i]]
    have "state_get u' j = state_get u j" if "prefix ''agent_task:'' j" "j \<noteq> k" for j
      using that eff P i by (force simp: agent_task_key_def prefix_def)
    with eff P usize_kept [of E u i u'] show "?P u' \<and>
      (\<forall>j. prefix ''agent_task:'' j \<longrightarrow> j \<noteq> k \<longrightarrow> state_get u' j = state_get u j)" by simp
  qed (use assms in simp)
  then show ?thesis by simp
qed

section \<open>The verdict\<close>

definition verdict :: "map_order \<Rightarrow> VerifierReveal list \<Rightarrow> string option" where
  "verdict iter rs = map_option fst (max_by_len (iter (reveal_tally rs)))"

lemma tally_Nil_iff: "reveal_tally rs = [] \<longleftrightarrow> rs = []"
  using tally_spec [of rs] by (cases rs) auto

lemma strict_winner:
  assumes "walks iter" "rs \<noteq> []" "\<forall>h'. h' \<noteq> h \<longrightarrow> length (voters rs h') < length (voters rs h)"
  shows "max_by_len (iter (reveal_tally rs)) = Some (h, voters rs h)"
proof -
  have "iter (reveal_tally rs) \<noteq> []"
    using assms(1,2) tally_Nil_iff [of rs] by (metis set_empty walks_def)
  then obtain h' ws where m: "max_by_len (iter (reveal_tally rs)) = Some (h', ws)"
    using max_by_len_None [of "iter (reveal_tally rs)"] by (cases "max_by_len (iter (reveal_tally rs))") auto
  have "h' = h"
    using winner_voters(1,3) [OF assms(1) m] assms(3) by (metis leD)
  with m winner_voters(1) [OF assms(1) m] show ?thesis by simp
qed

text \<open>Walking the map so that one entry comes last.\<close>

definition last_walk :: "string \<Rightarrow> map_order" where
  "last_walk h m = filter (\<lambda>x. fst x \<noteq> h) m @ filter (\<lambda>x. fst x = h) m"

lemma walks_last: "walks (last_walk h)"
  by (auto simp: walks_def last_walk_def)

lemma max_by_len_snoc:
  "\<forall>y \<in> set xs. length (snd y) \<le> length (snd x) \<Longrightarrow> max_by_len (xs @ [x]) = Some x"
  by (induction xs) auto

lemma last_walk_wins:
  assumes "h \<in> vr_result_hash ` set rs" "\<forall>h'. length (voters rs h') \<le> length (voters rs h)"
  shows "max_by_len (last_walk h (reveal_tally rs)) = Some (h, voters rs h)"
proof -
  have d: "distinct (map fst (reveal_tally rs))" and st: "set (reveal_tally rs) = {(h, voters rs h) | h. h \<in> vr_result_hash ` set rs}"
    using tally_spec [of rs] by auto
  have mem: "(h, voters rs h) \<in> set (reveal_tally rs)" using st assms(1) by blast
  have "filter (\<lambda>x. fst x = h) m = [(h, w)]" if "distinct (map fst m)" "(h, w) \<in> set m" for m and w :: "string list"
    using that
  proof (induction m)
    case (Cons y m)
    then show ?case by (cases y) (force simp: filter_empty_conv)
  qed simp
  from this [OF d mem] have "last_walk h (reveal_tally rs) = filter (\<lambda>x. fst x \<noteq> h) (reveal_tally rs) @ [(h, voters rs h)]"
    by (simp add: last_walk_def)
  then show ?thesis
    using max_by_len_snoc [of "filter (\<lambda>x. fst x \<noteq> h) (reveal_tally rs)" "(h, voters rs h)"] st assms(2) by auto
qed

section \<open>Following the protocol\<close>

definition follows :: "env \<Rightarrow> string \<Rightarrow> chain \<Rightarrow> chain \<Rightarrow> bool" where
  "follows E i s s' \<longleftrightarrow>
    (\<forall>t. get_task E s i = Some t \<longrightarrow> (\<exists>t'. get_task E s' i = Some t' \<and> (t' = t \<or> task_step t t')))"

lemma follows_same: "state_get s' (agent_task_key i) = state_get s (agent_task_key i) \<Longrightarrow> follows E i s s'"
  by (simp add: follows_def peek_state_get)

lemma follows_meta: "keeps cf_meta m \<Longrightarrow> m s = (r, s') \<Longrightarrow> follows E i s s'"
  by (rule follows_same) (simp add: state_get_def, drule (1) keepsD, simp)

lemma follows_update:
  assumes up: "updates_by_step E j m" and wf: "tasks_wf E s" and run: "m s = (r, s')"
  shows "follows E i s s'"
proof (cases "s' = s")
  case False
  with up run obtain t t' where t: "get_task E s j = Some t" "task_step t t'" "save_task t' s = (Inr (), s')"
    unfolding updates_by_step_def by blast
  have sv: "save_record AgentTask_json (agent_task_key j) t' s = (Inr (), s')"
    using t wf task_step_id [OF t(2)] by (auto simp: save_task_def tasks_wf_def)
  show ?thesis
  proof (cases "i = j")
    case True
    with t(1,2) task_rec.peek_save [OF sv, of E] show ?thesis by (simp add: follows_def)
  next
    case False
    with sv show ?thesis by (intro follows_same) (simp add: save_record_def state_get_set)
  qed
qed (simp add: follows_def)

lemma follows_entry:
  assumes wf: "tasks_wf E s" and run: "apply_task_entry E x s = (r, s')"
  shows "follows E i s s'"
proof (cases x)
  case (AgentCreditDeposit a n)
  with run have "state_get s' (agent_task_key i) = state_get s (agent_task_key i)"
    by (auto simp: apply_credit_deposit_def task_op_unfold debit_cases set_credit_def save_record_def
        state_set_def modify_apply state_get_def split: if_splits)
  then show ?thesis by (rule follows_same)
next
  case (AgentCreditWithdraw a n)
  with run have "state_get s' (agent_task_key i) = state_get s (agent_task_key i)"
    by (auto simp: apply_credit_withdraw_def task_op_unfold credit_cases set_credit_def save_record_def
        state_set_def modify_apply state_get_def ret_apply split: if_splits)
  then show ?thesis by (rule follows_same)
next
  case (AgentTaskPost j q d ts mf mv w dl e)
  show ?thesis
  proof (cases "i = j")
    case True
    have "s' = s" if "state_get s (agent_task_key j) \<noteq> None"
      using that run AgentTaskPost by (auto simp: apply_task_post_def task_op_unfold)
    with True show ?thesis
      by (cases "state_get s (agent_task_key j)") (simp_all add: follows_def peek_state_get)
  next
    case False
    with run AgentTaskPost have "state_get s' (agent_task_key i) = state_get s (agent_task_key i)"
      by (auto simp: apply_task_post_def task_op_unfold set_credit_def save_task_def save_record_def
          state_set_def modify_apply state_get_def split: if_splits)
    then show ?thesis by (rule follows_same)
  qed
next
  case (AgentTaskBid j a fee e)
  with run have "state_get s' (agent_task_key i) = state_get s (agent_task_key i)"
    by (auto simp: apply_task_bid_def task_op_unfold save_record_def state_set_def modify_apply state_get_def
        split: option.splits if_splits)
  then show ?thesis by (rule follows_same)
next
  case (AgentTaskAssign j a fee)
  with run follows_update [OF update_steps(1) wf] show ?thesis by simp
next
  case (AgentTaskSubmit j a h cid)
  with run follows_update [OF update_steps(2) wf] show ?thesis by simp
next
  case (AgentTaskVerifierCommit j v h e)
  with run follows_update [OF update_steps(3) wf] show ?thesis by simp
next
  case (AgentTaskVerifierReveal j v h salt)
  with run follows_update [OF update_steps(4) wf] show ?thesis by simp
next
  case AgentTaskSettle
  with run show ?thesis by (simp add: apply_task_settle_def ret_apply follows_def)
qed

fun run_tasks :: "env \<Rightarrow> task_entry list \<Rightarrow> chain \<Rightarrow> chain" where
  "run_tasks E [] s = s"
| "run_tasks E (x # xs) s = run_tasks E xs (snd (apply_task_entry E x s))"

section \<open>Theorems\<close>

definition demo_task :: "u32 \<Rightarrow> VerifierReveal list \<Rightarrow> AgentTask" where
  "demo_task mv rs = \<lparr>at_task_id = ''t'', at_requester = ''alice'', at_description = [],
     at_tools_allowed = [], at_max_fee = 100, at_agreed_fee = 50, at_min_verifiers = mv,
     at_bid_window_epochs = 5, at_deadline_epoch = 20, at_posted_epoch = 1, at_status = Verifying,
     at_agent = Some ''bob'', at_result_hash = Some ''h1'', at_output_cid = Some ''c'',
     at_commits = map (\<lambda>r. \<lparr>vc_verifier = vr_verifier r, vc_commit_hash = [], vc_epoch = 3\<rparr>) rs,
     at_reveals = rs\<rparr>"

definition demo_reveal_of :: "string \<Rightarrow> string \<Rightarrow> VerifierReveal" where
  "demo_reveal_of v h = \<lparr>vr_verifier = v, vr_result_hash = h, vr_salt = []\<rparr>"

definition demo_task_chain :: "AgentTask \<Rightarrow> chain" where
  "demo_task_chain t = snd (save_record AgentTask_json (agent_task_key ''t'') t empty_chain)"

lemma demo_task_saved: "save_record AgentTask_json (agent_task_key ''t'') t empty_chain = (Inr (), demo_task_chain t)"
  by (simp add: demo_task_chain_def save_record_apply)

lemma demo_task_found: "get_task E (demo_task_chain t) ''t'' = Some t"
  by (rule task_rec.peek_save [OF demo_task_saved])

lemma no_task [simp]: "get_task E empty_chain i = None"
  by (simp add: peek_state_get state_get_def empty_chain_def)

lemma demo_task_only: "get_task E (demo_task_chain t) i = Some u \<Longrightarrow> i = ''t'' \<and> u = t"
  using peek_save_other [OF demo_task_saved, of "agent_task_key i" E AgentTask_of_json t] demo_task_found [of E t]
  by (cases "i = ''t''") simp_all

lemma demo_task_ok:
  "distinct (map vr_verifier rs) \<Longrightarrow> tasks_wf E (demo_task_chain (demo_task mv rs))"
  "market_value E (demo_task_chain (demo_task mv rs)) = 100"
  "length rs < 2 ^ 64 \<Longrightarrow> usize_ok E (demo_task_chain (demo_task mv rs))"
proof -
  show "distinct (map vr_verifier rs) \<Longrightarrow> tasks_wf E (demo_task_chain (demo_task mv rs))"
    by (auto simp: tasks_wf_def demo_task_def task_inv_def comp_def image_image dest!: demo_task_only)
  have "market_value E empty_chain = 0"
    by (simp add: market_value_def token_supply_def record_total_def empty_chain_def)
  then show "market_value E (demo_task_chain (demo_task mv rs)) = 100"
    using mv_save_task [OF demo_task_saved, of E "demo_task mv rs"]
    by (simp add: reserved_def closed_task_def demo_task_def)
  show "length rs < 2 ^ 64 \<Longrightarrow> usize_ok E (demo_task_chain (demo_task mv rs))"
    by (auto simp: usize_ok_def demo_task_def dest!: demo_task_only)
qed

text \<open>
  (C4) The marketplace conserves value. While balances, agent credit and reserved fees together fit a
  \<open>u64\<close>, their total is unchanged by any sequence of credit and task entries, accepted or refused; and
  every task stays well-formed: agreed fee within the maximum, at most one commitment and one reveal per
  verifier, and no reveal without a commitment.
\<close>

theorem task_value_conserved:
  assumes "market_value E s < 2 ^ 64" and "tasks_wf E s"
  shows "market_value E (run_tasks E xs s) = market_value E s \<and> tasks_wf E (run_tasks E xs s)"
  using assms
proof (induction xs arbitrary: s)
  case Nil
  then show ?case by simp
next
  case (Cons x xs)
  obtain r s' where run: "apply_task_entry E x s = (r, s')"
    by (cases "apply_task_entry E x s")
  from task_entry_effect [OF Cons.prems run] Cons.prems Cons.IH [of s'] run show ?case by simp
qed

theorem task_value_conserved_witness:
  "market_value demo_env (run_tasks demo_env
     [AgentTaskVerifierCommit ''t'' ''v9'' ''x'' 4, AgentTaskBid ''t'' ''eve'' 10 4]
     (demo_task_chain (demo_task 2 []))) = 100"
  using task_value_conserved [of demo_env "demo_task_chain (demo_task 2 [])"
      "[AgentTaskVerifierCommit ''t'' ''v9'' ''x'' 4, AgentTaskBid ''t'' ''eve'' 10 4]"]
  by (simp add: demo_task_ok)

text \<open>
  The sweep conserves value too: settling or expiring every overdue task leaves the total of balances,
  credit and reserved fees as it was, in whatever order the tallies are walked, and also when it is cut
  short by a panic. Vectors are shorter than \<open>2 ^ 64\<close>.
\<close>

theorem sweep_conserves_value:
  assumes "wf_chain s" and "market_value E s < 2 ^ 64" and "tasks_wf E s" and "usize_ok E s" and "walks iter"
  shows "market_value E (snd (sweep_tasks E iter e s)) = market_value E s"
  using sweep_effect [OF assms, of e "fst (sweep_tasks E iter e s)" "snd (sweep_tasks E iter e s)"] by simp

theorem sweep_conserves_value_witness:
  "market_value demo_env (snd (sweep_tasks demo_env (\<lambda>m. m) 40 (demo_task_chain (demo_task 2 [])))) = 100"
proof -
  have "wf_chain (demo_task_chain t)" for t
    using preservesD [OF preserves_wf_save wf_empty_chain demo_task_saved] .
  then show ?thesis
    using sweep_conserves_value [of "demo_task_chain (demo_task 2 [])" demo_env "\<lambda>m. m" 40]
    by (simp add: demo_task_ok walks_def)
qed

text \<open>
  (C23) Tasks follow the protocol: over any sequence of entries, a task that exists keeps existing and moves
  only along the steps open, assigned, submitted, verifying, settled or expired, with commitments and
  reveals added on the way; in particular a closed task never changes again.
\<close>

theorem tasks_follow_protocol:
  assumes "market_value E s < 2 ^ 64" and "tasks_wf E s" and "get_task E s i = Some t"
  shows "\<exists>t'. get_task E (run_tasks E xs s) i = Some t' \<and> task_step\<^sup>*\<^sup>* t t' \<and> (closed_task t \<longrightarrow> t' = t)"
  using assms
proof (induction xs arbitrary: s t)
  case Nil
  then show ?case by auto
next
  case (Cons x xs)
  obtain r s' where run: "apply_task_entry E x s = (r, s')"
    by (cases "apply_task_entry E x s")
  obtain u where u: "get_task E s' i = Some u" "u = t \<or> task_step t u"
    using follows_entry [OF Cons.prems(2) run, of i] Cons.prems(3) unfolding follows_def by blast
  have "market_value E s' < 2 ^ 64" "tasks_wf E s'"
    using task_entry_effect [OF Cons.prems(1,2) run] Cons.prems(1) by simp_all
  from Cons.IH [OF this u(1)] obtain t' where t': "get_task E (run_tasks E xs s') i = Some t'"
    "task_step\<^sup>*\<^sup>* u t'" "closed_task u \<longrightarrow> t' = u" by blast
  have "task_step\<^sup>*\<^sup>* t t'"
    using u(2) t'(2) by (auto intro: converse_rtranclp_into_rtranclp)
  moreover have "closed_task t \<longrightarrow> t' = t"
    using u(2) t'(3) closed_no_step by blast
  ultimately show ?case using t'(1) run by auto
qed

theorem tasks_follow_protocol_witness:
  "\<exists>t'. get_task demo_env (run_tasks demo_env [AgentTaskVerifierCommit ''t'' ''v9'' ''x'' 4]
      (demo_task_chain (demo_task 2 []))) ''t'' = Some t' \<and> task_step\<^sup>*\<^sup>* (demo_task 2 []) t'"
  using tasks_follow_protocol [OF _ _ demo_task_found, of demo_env "demo_task 2 []"
      "[AgentTaskVerifierCommit ''t'' ''v9'' ''x'' 4]"]
  by (auto simp: demo_task_ok)

text \<open>
  (C27) A clear verdict is the same on every node. When a task is ready and one result has strictly more
  reveals than any other, settlement succeeds with the same final state in whatever order the node walks
  its hash map: the task is settled, the shares of agent, verifiers and requester use up the reserved
  fee, and nothing is created or lost.
\<close>

theorem clear_verdict_settles:
  assumes "market_value E s < 2 ^ 64" and "tasks_wf E s" and "usize_ok E s"
    and "get_task E s i = Some t" and "ready t" and "at_reveals t \<noteq> []"
    and "\<forall>h'. h' \<noteq> h \<longrightarrow> length (voters (at_reveals t) h') < length (voters (at_reveals t) h)"
  shows "\<exists>s'. (\<forall>iter. walks iter \<longrightarrow> try_settle E iter i e s = (Inr True, s')) \<and>
    get_task E s' i = Some (t\<lparr>at_status := Settled\<rparr>) \<and> market_value E s' = market_value E s"
proof -
  obtain a ah where ah: "at_agent t = Some a" "at_result_hash t = Some ah"
    using assms(5) by (auto simp: ready_def)
  have len: "length (at_reveals t) < 2 ^ 64" using assms(3,4) by (auto simp: usize_ok_def)
  have win: "max_by_len (iter (reveal_tally (at_reveals t))) = Some (h, voters (at_reveals t) h)" if "walks iter" for iter
    using that assms(6,7) by (rule strict_winner)
  have id: "walks (\<lambda>m. m)" by (simp add: walks_def)
  obtain s1 s' where "try_settle E (\<lambda>m. m) i e s = (Inr True, s')" "market_value E s' = market_value E s"
    "tasks_wf E s'" "get_task E s' i = Some (t\<lparr>at_status := Settled\<rparr>)"
    "\<forall>k. k \<noteq> i \<longrightarrow> state_get s' (agent_task_key k) = state_get s (agent_task_key k)"
    "pay_verdict E t a (ah = h) (voters (at_reveals t) h) s = (Inr (), s1)" "cf_balances s' = cf_balances s1"
    by (rule try_settle_runs [OF assms(1,2,4,5) ah len id win [OF id]])
  moreover have "try_settle E iter i e s = try_settle E (\<lambda>m. m) i e s" if "walks iter" for iter
    using win [OF that] win [OF id] by (simp add: try_settle_ready [OF assms(4,5) ah])
  ultimately show ?thesis by auto
qed

theorem clear_verdict_settles_witness:
  "\<exists>s'. (\<forall>iter. walks iter \<longrightarrow> try_settle demo_env iter ''t'' 9
      (demo_task_chain (demo_task 2 [demo_reveal_of ''v1'' ''h1'', demo_reveal_of ''v2'' ''h1''])) = (Inr True, s')) \<and>
    market_value demo_env s' = 100"
proof -
  let ?rs = "[demo_reveal_of ''v1'' ''h1'', demo_reveal_of ''v2'' ''h1'']"
  have r: "ready (demo_task 2 ?rs)" by (simp add: ready_def demo_task_def)
  have v: "\<forall>h'. h' \<noteq> ''h1'' \<longrightarrow>
      length (voters (at_reveals (demo_task 2 ?rs)) h') < length (voters (at_reveals (demo_task 2 ?rs)) ''h1'')"
    by (simp add: voters_def demo_task_def demo_reveal_of_def)
  have "distinct (map vr_verifier ?rs)" by (simp add: demo_reveal_of_def)
  note ok = demo_task_ok(1) [OF this, of demo_env 2] demo_task_ok(3) [of ?rs demo_env 2]
  have ne: "at_reveals (demo_task 2 ?rs) \<noteq> []" by (simp add: demo_task_def)
  from clear_verdict_settles [OF _ ok(1) ok(2) demo_task_found r ne v, of 9]
  show ?thesis by (auto simp only: demo_task_ok(2)) auto
qed

text \<open>
  A tie is decided by the hash map. When several results have the largest number of reveals, each of
  them is the verdict for some order of walking the map; the standard library randomises that order per
  process, so nodes that settle the same task can disagree about who is paid.
\<close>

theorem tie_decided_by_map_order:
  assumes "h \<in> vr_result_hash ` set rs" and "\<forall>h'. length (voters rs h') \<le> length (voters rs h)"
  shows "\<exists>iter. walks iter \<and> verdict iter rs = Some h"
  using last_walk_wins [OF assms] walks_last [of h] by (auto simp: verdict_def)

theorem tie_decided_by_map_order_witness:
  "(\<exists>iter. walks iter \<and> verdict iter [demo_reveal_of ''v1'' ''h1'', demo_reveal_of ''v2'' ''h2''] = Some ''h1'') \<and>
   (\<exists>iter. walks iter \<and> verdict iter [demo_reveal_of ''v1'' ''h1'', demo_reveal_of ''v2'' ''h2''] = Some ''h2'')"
proof -
  let ?rs = "[demo_reveal_of ''v1'' ''h1'', demo_reveal_of ''v2'' ''h2'']"
  have max: "\<forall>h'. length (voters ?rs h') \<le> length (voters ?rs h)" if "h \<in> {''h1'', ''h2''}" for h
    using that by (auto simp: voters_def demo_reveal_of_def)
  have "''h1'' \<in> vr_result_hash ` set ?rs" "''h2'' \<in> vr_result_hash ` set ?rs"
    by (simp_all add: demo_reveal_of_def)
  with tie_decided_by_map_order [OF _ max] show ?thesis by blast
qed

text \<open>
  A task that asks for zero verifiers stops the sweep. When such a task has received a commitment but
  no reveal, settlement is attempted on an empty tally and panics; the sweep of the epoch after its
  deadline panics there, every epoch anew, since the task stays as it is.
\<close>

theorem zero_verifiers_panic:
  assumes "get_task E s i = Some t" and "at_status t = Verifying" and "at_agent t = Some a"
    and "at_result_hash t = Some h" and "at_reveals t = []" and "at_min_verifiers t = 0"
    and "walks iter" and "state_get s (agent_task_key i) = Some v" and "at_task_id t = i"
    and "e > at_deadline_epoch t + TASK_EXPIRY_BUFFER_EPOCHS"
  shows "sweep_task E iter e (agent_task_key i, v) s =
    (Inl (Panic ''called Option::unwrap() on a None value''), s)"
proof -
  have r: "ready t" using assms by (simp add: ready_def)
  have "iter (reveal_tally []) = []"
    using assms(7) tally_Nil_iff [of "[]"] by (metis set_empty walks_def)
  then have "try_settle E iter i e s = (Inl (Panic ''called Option::unwrap() on a None value''), s)"
    using assms(5) by (simp add: try_settle_ready [OF assms(1) r assms(3,4)])
  moreover have "Option.bind (as_json E v) AgentTask_of_json = Some t"
    using assms(1,8) by (simp add: peek_state_get)
  ultimately show ?thesis
    using assms by (simp add: sweep_task_def andThen_apply unwrap_or_false_def not_le [symmetric])
qed

theorem zero_verifiers_panic_witness:
  "sweep_tasks demo_env (\<lambda>m. m) 40 (demo_task_chain (demo_task 0 [])) =
    (Inl (Panic ''called Option::unwrap() on a None value''), demo_task_chain (demo_task 0 []))"
proof -
  let ?s = "demo_task_chain (demo_task 0 [])" and ?v = "Json (AgentTask_json (demo_task 0 []))"
  have v: "state_get ?s (agent_task_key ''t'') = Some ?v"
    using state_get_set [OF demo_task_saved [unfolded save_record_def], where k = "agent_task_key ''t''"] by simp
  have "sweep_task demo_env (\<lambda>m. m) 40 (agent_task_key ''t'', ?v) ?s =
      (Inl (Panic ''called Option::unwrap() on a None value''), ?s)"
    by (rule zero_verifiers_panic [OF demo_task_found _ _ _ _ _ _ v])
      (simp_all add: demo_task_def walks_def TASK_EXPIRY_BUFFER_EPOCHS_def)
  moreover have "state_scan_prefix ?s ''agent_task:'' = [(agent_task_key ''t'', ?v)]"
    by (simp add: state_scan_prefix_def demo_task_chain_def save_record_apply state_set_def act_simps
        empty_chain_def kv_scan_def agent_task_key_def)
  ultimately show ?thesis
    by (simp add: sweep_tasks_def andThen_apply reads_apply seq_apply)
qed

end
