(* ===== verification/SessionMarket.thy ===== *)
theory SessionMarket
  imports AgentTask
begin

text \<open>
  The marketplace of session contexts (\<open>session_market.rs\<close>): listing, purchase with its fee,
  cancellation and the sweep of expired listings.

  A purchase moves the price exactly to seller and recycle fund; a listing leaves the active state
  once and is then never sold again; what a sweep may change is the state of active listings past
  their time.
\<close>

section \<open>State\<close>

definition MARKETPLACE_FEE_BPS :: u64 where "MARKETPLACE_FEE_BPS = 200"

definition SESSION_EXPIRY_EPOCHS :: u64 where "SESSION_EXPIRY_EPOCHS = 720"

datatype ListingStatus = ListingActive | ListingSold | ListingCancelled | ListingExpired

record SessionListing =
  ls_listing_id :: string
  ls_seller :: string
  ls_price_hunits :: u64
  ls_model :: string
  ls_summary_hash :: string
  ls_turn_count :: u32
  ls_created_epoch :: u64
  ls_expires_epoch :: u64
  ls_status :: ListingStatus
  ls_buyer :: "string option"
  ls_session_key_encrypted :: "string option"

fun ListingStatus_json :: "ListingStatus \<Rightarrow> json" where
  "ListingStatus_json ListingActive = JStr ''active''"
| "ListingStatus_json ListingSold = JStr ''sold''"
| "ListingStatus_json ListingCancelled = JStr ''cancelled''"
| "ListingStatus_json ListingExpired = JStr ''expired''"

definition ListingStatus_of_json :: "json \<Rightarrow> ListingStatus option" where
  "ListingStatus_of_json j =
     find (\<lambda>st. ListingStatus_json st = j) [ListingActive, ListingSold, ListingCancelled, ListingExpired]"

definition SessionListing_json :: "SessionListing \<Rightarrow> json" where
  "SessionListing_json l = jobj [
     (''listing_id'', JStr (ls_listing_id l)), (''seller'', JStr (ls_seller l)),
     (''price_hunits'', JNum (ls_price_hunits l)), (''model'', JStr (ls_model l)),
     (''summary_hash'', JStr (ls_summary_hash l)), (''turn_count'', u32_json (ls_turn_count l)),
     (''created_epoch'', JNum (ls_created_epoch l)), (''expires_epoch'', JNum (ls_expires_epoch l)),
     (''status'', ListingStatus_json (ls_status l)), (''buyer'', jopt_str (ls_buyer l)),
     (''session_key_encrypted'', jopt_str (ls_session_key_encrypted l))]"

definition SessionListing_of_json :: "json \<Rightarrow> SessionListing option" where
  "SessionListing_of_json j =
     Option.bind (field_str j ''listing_id'') (\<lambda>listing_id.
     Option.bind (field_str j ''seller'') (\<lambda>seller.
     Option.bind (field_u64 j ''price_hunits'') (\<lambda>price.
     Option.bind (field_str j ''model'') (\<lambda>model.
     Option.bind (field_str j ''summary_hash'') (\<lambda>summary_hash.
     Option.bind (Option.bind (jfield j ''turn_count'') as_u32) (\<lambda>turn_count.
     Option.bind (field_u64 j ''created_epoch'') (\<lambda>created.
     Option.bind (field_u64 j ''expires_epoch'') (\<lambda>expires.
     Option.bind (Option.bind (jfield j ''status'') ListingStatus_of_json) (\<lambda>status.
     Option.bind (field_opt as_str j ''buyer'') (\<lambda>buyer.
     Option.bind (field_opt as_str j ''session_key_encrypted'') (\<lambda>session_key.
     Some \<lparr>ls_listing_id = listing_id, ls_seller = seller, ls_price_hunits = price, ls_model = model,
       ls_summary_hash = summary_hash, ls_turn_count = turn_count, ls_created_epoch = created,
       ls_expires_epoch = expires, ls_status = status, ls_buyer = buyer,
       ls_session_key_encrypted = session_key\<rparr>)))))))))))"

lemma ListingStatus_roundtrip: "ListingStatus_of_json (ListingStatus_json st) = Some st"
  by (cases st) (simp_all add: ListingStatus_of_json_def)

interpretation listing_rec: record_codec SessionListing_json SessionListing_of_json
  by unfold_locales
    (simp add: SessionListing_of_json_def SessionListing_json_def field_str_def field_u64_def
      ListingStatus_roundtrip as_u32_json)

section \<open>Operations\<close>

definition listing_key :: "string \<Rightarrow> string" where
  "listing_key listing_id = ''session_listing:'' @ listing_id"

abbreviation get_listing :: "env \<Rightarrow> chain \<Rightarrow> string \<Rightarrow> SessionListing option" where
  "get_listing E s i \<equiv> peek E SessionListing_of_json s (listing_key i)"

abbreviation save_listing :: "string \<Rightarrow> SessionListing \<Rightarrow> unit chain_act" where
  "save_listing i \<equiv> save_record SessionListing_json (listing_key i)"

definition apply_listing_create ::
  "string \<Rightarrow> string \<Rightarrow> u64 \<Rightarrow> string \<Rightarrow> string \<Rightarrow> u32 \<Rightarrow> u64 \<Rightarrow> unit chain_act" where
  "apply_listing_create listing_id seller price model summary_hash turn_count epoch =
     andThen (reads (\<lambda>s. state_get s (listing_key listing_id))) (\<lambda>found.
     seq (ensure (found = None) (Err ''listing already exists''))
         (save_listing listing_id \<lparr>ls_listing_id = listing_id, ls_seller = seller, ls_price_hunits = price,
            ls_model = model, ls_summary_hash = summary_hash, ls_turn_count = turn_count,
            ls_created_epoch = epoch, ls_expires_epoch = epoch + SESSION_EXPIRY_EPOCHS,
            ls_status = ListingActive, ls_buyer = None, ls_session_key_encrypted = None\<rparr>))"

definition market_fee :: "u64 \<Rightarrow> u64" where
  "market_fee price = price * MARKETPLACE_FEE_BPS div 10000"

definition apply_listing_buy :: "env \<Rightarrow> string \<Rightarrow> string \<Rightarrow> u64 \<Rightarrow> unit chain_act" where
  "apply_listing_buy E listing_id buyer epoch =
     andThen (load_record E SessionListing_of_json (listing_key listing_id) ''listing not found'') (\<lambda>l.
     seq (ensure (ls_status l = ListingActive) (Err ''listing is not active''))
    (seq (ensure (epoch \<le> ls_expires_epoch l) (Err ''listing has expired''))
    (seq (ensure (buyer \<noteq> ls_seller l) (Err ''cannot buy your own listing''))
    (seq (debit buyer NATIVE_TOKEN (ls_price_hunits l))
    (seq (credit (ls_seller l) NATIVE_TOKEN (sat_sub (ls_price_hunits l) (market_fee (ls_price_hunits l))))
    (seq (when_do (market_fee (ls_price_hunits l) > 0)
           (seq (credit RECYCLE_FUND_ACCOUNT NATIVE_TOKEN (market_fee (ls_price_hunits l))) (ret ())))
         (save_listing listing_id (l\<lparr>ls_status := ListingSold, ls_buyer := Some buyer\<rparr>))))))))"

definition apply_listing_cancel :: "env \<Rightarrow> string \<Rightarrow> string \<Rightarrow> unit chain_act" where
  "apply_listing_cancel E listing_id seller =
     andThen (load_record E SessionListing_of_json (listing_key listing_id) ''listing not found'') (\<lambda>l.
     seq (ensure (ls_seller l = seller) (Err ''only the seller can cancel''))
    (seq (ensure (ls_status l = ListingActive) (Err ''listing is not active''))
         (save_listing listing_id (l\<lparr>ls_status := ListingCancelled\<rparr>))))"

definition sweep_listing :: "env \<Rightarrow> u64 \<Rightarrow> string \<times> val \<Rightarrow> unit chain_act" where
  "sweep_listing E epoch kv =
    (case Option.bind (as_json E (snd kv)) SessionListing_of_json of
       None \<Rightarrow> ret ()
     | Some l \<Rightarrow>
         if ls_status l \<noteq> ListingActive then ret ()
         else if epoch \<le> ls_expires_epoch l then ret ()
         else save_record SessionListing_json (fst kv) (l\<lparr>ls_status := ListingExpired\<rparr>))"

definition sweep_listings :: "env \<Rightarrow> u64 \<Rightarrow> unit chain_act" where
  "sweep_listings E epoch =
     andThen (reads (\<lambda>s. state_scan_prefix s ''session_listing:'')) (each (sweep_listing E epoch))"

section \<open>Purchases\<close>

lemma market_fee_le: "market_fee p \<le> p"
proof -
  have "unat (p * 200) div 10000 \<le> unat p * 200 div 10000"
    by (rule div_le_mono) (simp add: unat_word_ariths)
  also have "\<dots> \<le> unat p" by simp
  finally show ?thesis
    by (simp add: u64_le_iff market_fee_def MARKETPLACE_FEE_BPS_def unat_div)
qed

lemma price_split: "uint (sat_sub p (market_fee p)) + uint (market_fee p) = uint p"
  using market_fee_le [of p] by (simp add: sat_sub_def)

lemma gains_fee: "gains hone_total (uint n) (when_do (n > 0) (seq (credit a NATIVE_TOKEN n) (ret ())))"
  by (rule gains_when_do [OF gains_seq [OF native.pay_in_gains gains_ret]]) (simp_all add: word_gt_0)

lemma gains_buy: "gains hone_total 0 (apply_listing_buy E i b e)"
proof -
  have pays: "gains hone_total 0
      (seq (debit b NATIVE_TOKEN p)
      (seq (credit sl NATIVE_TOKEN (sat_sub p (market_fee p)))
      (seq (when_do (market_fee p > 0) (seq (credit RECYCLE_FUND_ACCOUNT NATIVE_TOKEN (market_fee p)) (ret ())))
           (save_listing i l))))" for p sl l
    by (rule gains_seq [OF native.take_out_gains gains_seq [OF native.pay_in_gains
          gains_seq [OF gains_fee gains_keeps [OF keeps_token_supply [OF keeps_save_record(1)]] refl] refl]])
      (simp add: price_split [of p, symmetric])
  show ?thesis
    unfolding apply_listing_buy_def
    by (intro gains_frame_andThen [OF keeps_load_record] gains_frame_seq [OF keeps_ensure] pays)
qed

lemma buy_Inr:
  assumes "apply_listing_buy E i b e s = (Inr (), s')"
  obtains l where "get_listing E s i = Some l" "ls_status l = ListingActive" "e \<le> ls_expires_epoch l"
    "get_listing E s' i = Some (l\<lparr>ls_status := ListingSold, ls_buyer := Some b\<rparr>)"
    "b \<noteq> ls_seller l"
  using assms
  by (auto simp: apply_listing_buy_def andThen_Inr seq_Inr load_record_Inr ensure_apply split: if_splits
      dest: listing_rec.peek_save)

text \<open>
  A listing is sold at most once, for its price. A purchase that is accepted found the listing active
  and not expired, leaves the native supply as it was, and records the buyer; from then on every purchase
  and cancellation of the listing is refused and changes nothing.
\<close>

theorem listing_sold_once:
  assumes "apply_listing_buy E i b e s = (Inr (), s')"
  shows "hone_total s' = hone_total s \<and>
    (\<exists>l. get_listing E s i = Some l \<and> ls_status l = ListingActive \<and> e \<le> ls_expires_epoch l \<and> b \<noteq> ls_seller l \<and>
      get_listing E s' i = Some (l\<lparr>ls_status := ListingSold, ls_buyer := Some b\<rparr>)) \<and>
    apply_listing_buy E i b' e' s' = (Inl (Err ''listing is not active''), s') \<and>
    snd (apply_listing_cancel E i q s') = s'"
proof -
  obtain l where l: "get_listing E s i = Some l" "ls_status l = ListingActive" "e \<le> ls_expires_epoch l"
    "get_listing E s' i = Some (l\<lparr>ls_status := ListingSold, ls_buyer := Some b\<rparr>)" "b \<noteq> ls_seller l"
    using assms by (rule buy_Inr)
  have "apply_listing_buy E i b' e' s' = (Inl (Err ''listing is not active''), s')"
    using l(4) by (simp add: apply_listing_buy_def andThen_apply load_record_apply seq_apply ensure_apply)
  moreover have "snd (apply_listing_cancel E i q s') = s'"
    using l(4) by (simp add: apply_listing_cancel_def andThen_apply load_record_apply seq_apply ensure_apply)
  ultimately show ?thesis
    using l gainsD [OF gains_buy assms] by simp
qed

definition demo_listing :: SessionListing where
  "demo_listing = \<lparr>ls_listing_id = ''l'', ls_seller = ''alice'', ls_price_hunits = 1000, ls_model = [],
     ls_summary_hash = [], ls_turn_count = 1, ls_created_epoch = 1, ls_expires_epoch = 721,
     ls_status = ListingActive, ls_buyer = None, ls_session_key_encrypted = None\<rparr>"

definition demo_market_chain :: chain where
  "demo_market_chain = snd (save_listing ''l'' demo_listing
     (empty_chain\<lparr>cf_balances := [(balance_key ''bob'' NATIVE_TOKEN, 5000)]\<rparr>))"

lemma demo_listing_found: "get_listing E demo_market_chain ''l'' = Some demo_listing"
  unfolding demo_market_chain_def
  by (rule listing_rec.peek_save [of _ _ _ "Inr ()"]) (simp add: save_record_apply)

lemma demo_buy_runs: "\<exists>s'. apply_listing_buy demo_env ''l'' ''bob'' 5 demo_market_chain = (Inr (), s')"
proof -
  have "cf_balances demo_market_chain = [(balance_key ''bob'' NATIVE_TOKEN, 5000)]"
    by (simp add: demo_market_chain_def save_record_apply state_set_def act_simps)
  then show ?thesis
    by (simp add: apply_listing_buy_def andThen_apply seq_apply load_record_apply demo_listing_found ensure_apply
        demo_listing_def debit_cases credit_cases get_balance_def kv_get_def balance_key_def when_do_apply
        ret_apply save_record_apply market_fee_def MARKETPLACE_FEE_BPS_def sat_sub_def)
qed

theorem listing_sold_once_witness:
  "\<exists>s'. apply_listing_buy demo_env ''l'' ''bob'' 5 demo_market_chain = (Inr (), s') \<and>
    apply_listing_buy demo_env ''l'' ''carol'' 6 s' = (Inl (Err ''listing is not active''), s')"
proof -
  obtain s' where run: "apply_listing_buy demo_env ''l'' ''bob'' 5 demo_market_chain = (Inr (), s')"
    using demo_buy_runs by blast
  from listing_sold_once [OF run, of "''carol''" 6 "''alice''"] run show ?thesis by blast
qed

end
