(* ===== verification/Slashing.thy ===== *)
theory Slashing
  imports Records
begin

text \<open>
  Slashing of misbehaving validators (\<open>slashing.rs\<close>): the slash with its split between reporter and
  recycle fund, and the appeal, a vote that is counted when five votes are in.

  A slash moves a tenth of the accused's stake from its liquid balance and conserves the supply; each
  account votes once per appeal and a decided appeal is final. Three gaps are stated: a slash leaves
  the stake itself as it is, an appeal that succeeds creates the slashed amount anew, and a reporter
  without a \<open>clock_stake\<close> record, which no operation of the node writes, can never slash.
\<close>

section \<open>State\<close>

definition APPEAL_WINDOW_EPOCHS :: u64 where "APPEAL_WINDOW_EPOCHS = 100"

definition APPEAL_PANEL_SIZE :: nat where "APPEAL_PANEL_SIZE = 5"

definition OVERTURN_THRESHOLD_BPS :: u64 where "OVERTURN_THRESHOLD_BPS = 6600"

definition REPORTER_SHARE_BPS :: u64 where "REPORTER_SHARE_BPS = 5000"

definition MIN_SLASH_STAKE :: u64 where "MIN_SLASH_STAKE = 1000000"

datatype SlashStatus = Active | Appealed | Overturned | Upheld

record AppealVote =
  av_panelist :: string
  av_overturn :: bool
  av_epoch :: u64

record SlashRecord =
  sl_slash_id :: string
  sl_reporter :: string
  sl_accused :: string
  sl_evidence :: string
  sl_violation :: string
  sl_slash_epoch :: u64
  sl_appeal_deadline :: u64
  sl_slashed_amount :: u64
  sl_status :: SlashStatus
  sl_appeal_votes :: "AppealVote list"

fun SlashStatus_json :: "SlashStatus \<Rightarrow> json" where
  "SlashStatus_json Active = JStr ''active''"
| "SlashStatus_json Appealed = JStr ''appealed''"
| "SlashStatus_json Overturned = JStr ''overturned''"
| "SlashStatus_json Upheld = JStr ''upheld''"

definition SlashStatus_of_json :: "json \<Rightarrow> SlashStatus option" where
  "SlashStatus_of_json j = find (\<lambda>st. SlashStatus_json st = j) [Active, Appealed, Overturned, Upheld]"

definition AppealVote_json :: "AppealVote \<Rightarrow> json" where
  "AppealVote_json v = jobj [(''panelist'', JStr (av_panelist v)), (''overturn'', JBool (av_overturn v)),
     (''epoch'', JNum (av_epoch v))]"

definition AppealVote_of_json :: "json \<Rightarrow> AppealVote option" where
  "AppealVote_of_json j =
     Option.bind (field_str j ''panelist'') (\<lambda>panelist.
     Option.bind (field_bool j ''overturn'') (\<lambda>overturn.
     Option.bind (field_u64 j ''epoch'') (\<lambda>epoch.
     Some \<lparr>av_panelist = panelist, av_overturn = overturn, av_epoch = epoch\<rparr>)))"

definition SlashRecord_json :: "SlashRecord \<Rightarrow> json" where
  "SlashRecord_json r = jobj [
     (''slash_id'', JStr (sl_slash_id r)), (''reporter'', JStr (sl_reporter r)),
     (''accused'', JStr (sl_accused r)), (''evidence'', JStr (sl_evidence r)),
     (''violation'', JStr (sl_violation r)), (''slash_epoch'', JNum (sl_slash_epoch r)),
     (''appeal_deadline'', JNum (sl_appeal_deadline r)),
     (''slashed_amount'', JNum (sl_slashed_amount r)), (''status'', SlashStatus_json (sl_status r)),
     (''appeal_votes'', vec_json AppealVote_json (sl_appeal_votes r))]"

definition SlashRecord_of_json :: "json \<Rightarrow> SlashRecord option" where
  "SlashRecord_of_json j =
     Option.bind (field_str j ''slash_id'') (\<lambda>slash_id.
     Option.bind (field_str j ''reporter'') (\<lambda>reporter.
     Option.bind (field_str j ''accused'') (\<lambda>accused.
     Option.bind (field_str j ''evidence'') (\<lambda>evidence.
     Option.bind (field_str j ''violation'') (\<lambda>violation.
     Option.bind (field_u64 j ''slash_epoch'') (\<lambda>slash_epoch.
     Option.bind (field_u64 j ''appeal_deadline'') (\<lambda>deadline.
     Option.bind (field_u64 j ''slashed_amount'') (\<lambda>amount.
     Option.bind (Option.bind (jfield j ''status'') SlashStatus_of_json) (\<lambda>status.
     Option.bind (field_vec AppealVote_of_json j ''appeal_votes'') (\<lambda>votes.
     Some \<lparr>sl_slash_id = slash_id, sl_reporter = reporter, sl_accused = accused, sl_evidence = evidence,
       sl_violation = violation, sl_slash_epoch = slash_epoch, sl_appeal_deadline = deadline,
       sl_slashed_amount = amount, sl_status = status, sl_appeal_votes = votes\<rparr>))))))))))"

lemma SlashStatus_roundtrip: "SlashStatus_of_json (SlashStatus_json st) = Some st"
  by (cases st) (simp_all add: SlashStatus_of_json_def)

interpretation appeal_rec: record_codec AppealVote_json AppealVote_of_json
  by unfold_locales (simp add: AppealVote_of_json_def AppealVote_json_def field_defs)

interpretation slash_rec: record_codec SlashRecord_json SlashRecord_of_json
  by unfold_locales
    (simp add: SlashRecord_of_json_def SlashRecord_json_def field_str_def field_u64_def field_vec_def
      SlashStatus_roundtrip appeal_rec.as_vec_json)

section \<open>Operations\<close>

definition slash_key :: "string \<Rightarrow> string" where
  "slash_key slash_id = ''slash:'' @ slash_id"

abbreviation get_slash :: "env \<Rightarrow> chain \<Rightarrow> string \<Rightarrow> SlashRecord option" where
  "get_slash E s i \<equiv> peek E SlashRecord_of_json s (slash_key i)"

abbreviation save_slash :: "string \<Rightarrow> SlashRecord \<Rightarrow> unit chain_act" where
  "save_slash i \<equiv> save_record SlashRecord_json (slash_key i)"

definition reporter_cut :: "u64 \<Rightarrow> u64" where
  "reporter_cut amount = amount * REPORTER_SHARE_BPS div 10000"

definition apply_slash ::
  "env \<Rightarrow> string \<Rightarrow> string \<Rightarrow> string \<Rightarrow> string \<Rightarrow> string \<Rightarrow> u64 \<Rightarrow> unit chain_act" where
  "apply_slash E slash_id reporter accused evidence violation epoch =
     andThen (reads (\<lambda>s. case state_u64 E s (''clock_stake:'' @ reporter) of Some n \<Rightarrow> n | None \<Rightarrow> 0))
       (\<lambda>reporter_stake.
     seq (ensure (reporter_stake \<noteq> 0) (Err ''reporter has no clock stake''))
    (andThen (reads (\<lambda>s. get_stake s accused)) (\<lambda>accused_stake.
     seq (ensure (accused_stake \<ge> MIN_SLASH_STAKE) (Err ''accused stake is below minimum''))
    (andThen (reads (\<lambda>s. state_get s (slash_key slash_id))) (\<lambda>found.
     seq (ensure (found = None) (Err ''slash already exists''))
    (let slash_amount = accused_stake div 10;
         recycle_cut = sat_sub slash_amount (reporter_cut slash_amount) in
     seq (debit accused NATIVE_TOKEN slash_amount)
    (seq (credit reporter NATIVE_TOKEN (reporter_cut slash_amount))
    (seq (when_do (recycle_cut > 0)
           (seq (credit RECYCLE_FUND_ACCOUNT NATIVE_TOKEN recycle_cut) (ret ())))
         (save_slash slash_id \<lparr>sl_slash_id = slash_id, sl_reporter = reporter, sl_accused = accused,
            sl_evidence = evidence, sl_violation = violation, sl_slash_epoch = epoch,
            sl_appeal_deadline = epoch + APPEAL_WINDOW_EPOCHS, sl_slashed_amount = slash_amount,
            sl_status = Active, sl_appeal_votes = []\<rparr>)))))))))"

definition overturns :: "AppealVote list \<Rightarrow> bool" where
  "overturns votes \<longleftrightarrow>
     word_of_nat (length (filter av_overturn votes)) * 10000 div word_of_nat APPEAL_PANEL_SIZE
       \<ge> OVERTURN_THRESHOLD_BPS"

definition pay_overturned :: "SlashRecord \<Rightarrow> unit chain_act" where
  "pay_overturned r =
     seq (attempt (credit (sl_accused r) NATIVE_TOKEN (sl_slashed_amount r)))
    (seq (attempt (debit (sl_reporter r) NATIVE_TOKEN (reporter_cut (sl_slashed_amount r))))
    (seq (attempt (credit RECYCLE_FUND_ACCOUNT NATIVE_TOKEN (reporter_cut (sl_slashed_amount r)))) (ret ())))"

definition apply_appeal :: "env \<Rightarrow> string \<Rightarrow> string \<Rightarrow> bool \<Rightarrow> u64 \<Rightarrow> unit chain_act" where
  "apply_appeal E slash_id panelist overturn epoch =
     andThen (load_record E SlashRecord_of_json (slash_key slash_id) ''slash not found'') (\<lambda>record0.
     seq (ensure (sl_status record0 = Active \<or> sl_status record0 = Appealed) (Err ''slash is already finalized''))
    (seq (ensure (epoch \<le> sl_appeal_deadline record0) (Err ''appeal window closed''))
    (seq (ensure (\<not> list_ex (\<lambda>v. av_panelist v = panelist) (sl_appeal_votes record0))
            (Err ''panelist already voted on appeal''))
    (let r = record0\<lparr>sl_status := Appealed, sl_appeal_votes := sl_appeal_votes record0 @
               [\<lparr>av_panelist = panelist, av_overturn = overturn, av_epoch = epoch\<rparr>]\<rparr> in
     if length (sl_appeal_votes r) \<ge> APPEAL_PANEL_SIZE
     then
       if overturns (sl_appeal_votes r)
       then seq (pay_overturned r) (save_slash slash_id (r\<lparr>sl_status := Overturned\<rparr>))
       else save_slash slash_id (r\<lparr>sl_status := Upheld\<rparr>)
     else save_slash slash_id r))))"

section \<open>The split\<close>

lemma reporter_cut_le: "reporter_cut a \<le> a"
proof -
  have "unat (a * 5000) \<le> unat a * 5000"
    by (simp add: unat_word_ariths)
  then have "unat (a * 5000) div 10000 \<le> unat a * 5000 div 10000"
    by (rule div_le_mono)
  also have "\<dots> \<le> unat a" by simp
  finally show ?thesis
    by (simp add: u64_le_iff reporter_cut_def REPORTER_SHARE_BPS_def unat_div)
qed

lemma split_exact: "uint (reporter_cut a) + uint (sat_sub a (reporter_cut a)) = uint a"
  using reporter_cut_le [of a] by (simp add: sat_sub_def)

lemma gains_credit_unit: "gains hone_total (uint n) (seq (credit a NATIVE_TOKEN n) (ret ()))"
  by (rule gains_seq [OF native.pay_in_gains gains_ret]) simp

lemma gains_slash: "gains hone_total 0 (apply_slash E i rep acc ev vi e)"
proof -
  have cut: "gains hone_total (uint n) (when_do (n > 0) (seq (credit a NATIVE_TOKEN n) (ret ())))" for a n
    by (rule gains_when_do [OF gains_credit_unit]) (simp add: word_gt_0)
  have save: "gains hone_total 0 (save_slash i r)" for r
    by (intro gains_keeps keeps_token_supply keeps_intros)
  have pays: "gains hone_total 0
      (seq (debit acc NATIVE_TOKEN n)
      (seq (credit rep NATIVE_TOKEN (reporter_cut n))
      (seq (when_do (sat_sub n (reporter_cut n) > 0)
             (seq (credit RECYCLE_FUND_ACCOUNT NATIVE_TOKEN (sat_sub n (reporter_cut n))) (ret ())))
           (save_slash i r))))" for n r
    by (rule gains_seq [OF native.take_out_gains
          gains_seq [OF native.pay_in_gains gains_seq [OF cut save refl] refl]])
      (simp add: split_exact [of n, symmetric])
  show ?thesis
    unfolding apply_slash_def Let_def
    by (intro gains_frame_andThen [OF keeps_reads] gains_frame_seq [OF keeps_ensure] pays)
qed

section \<open>Appeals\<close>

definition appeal_open :: "SlashRecord \<Rightarrow> string \<Rightarrow> u64 \<Rightarrow> bool" where
  "appeal_open r panelist epoch \<longleftrightarrow> sl_status r \<in> {Active, Appealed} \<and> epoch \<le> sl_appeal_deadline r \<and>
     panelist \<notin> av_panelist ` set (sl_appeal_votes r)"

definition add_vote :: "SlashRecord \<Rightarrow> string \<Rightarrow> bool \<Rightarrow> u64 \<Rightarrow> SlashRecord" where
  "add_vote r panelist overturn epoch =
     r\<lparr>sl_status := Appealed, sl_appeal_votes := sl_appeal_votes r @
        [\<lparr>av_panelist = panelist, av_overturn = overturn, av_epoch = epoch\<rparr>]\<rparr>"

lemma appeal_refused:
  assumes "\<nexists>r. get_slash E s i = Some r \<and> appeal_open r p e"
  shows "\<exists>err. apply_appeal E i p b e s = (Inl err, s)"
  using assms
  by (cases "get_slash E s i")
    (auto simp: apply_appeal_def andThen_apply load_record_apply seq_apply ensure_apply appeal_open_def
      list_ex_iff)

lemma appeal_guarded:
  assumes "get_slash E s i = Some r" "appeal_open r p e"
  shows "apply_appeal E i p b e s =
    (let r' = add_vote r p b e in
     if length (sl_appeal_votes r') \<ge> APPEAL_PANEL_SIZE
     then if overturns (sl_appeal_votes r')
       then seq (pay_overturned r') (save_slash i (r'\<lparr>sl_status := Overturned\<rparr>)) s
       else save_slash i (r'\<lparr>sl_status := Upheld\<rparr>) s
     else save_slash i r' s)"
  using assms
  by (auto simp: apply_appeal_def andThen_apply load_record_apply seq_apply [of "ensure _ _"] ensure_apply
      appeal_open_def add_vote_def list_ex_iff Let_def)

lemma attempt_credit_room:
  assumes "hone_total s + uint n < 2 ^ 64"
  obtains s' where "attempt (credit a NATIVE_TOKEN n) s = (Inr True, s')"
    "hone_total s' = hone_total s + uint n"
proof -
  have "uint (get_balance s a NATIVE_TOKEN) \<le> hone_total s"
    by (rule balance_le_supply) simp
  with assms have "uint (get_balance s a NATIVE_TOKEN) + uint n < 2 ^ 64" by linarith
  then have "unat (get_balance s a NATIVE_TOKEN) + unat n < 2 ^ 64"
    by (rule room_iff [THEN iffD2])
  then obtain x s' where c: "credit a NATIVE_TOKEN n s = (Inr x, s')"
    by (simp add: credit_cases)
  with gainsD [OF native.pay_in_gains c] that show ?thesis by (simp add: attempt_apply)
qed

text \<open>What an overturned slash pays: the accused in full, and the reporter's cut moves to the fund.\<close>

lemma pay_overturned_runs:
  assumes fits: "hone_total s + 2 * uint (sl_slashed_amount r) < 2 ^ 64"
    and has: "reporter_cut (sl_slashed_amount r) \<le> get_balance s (sl_reporter r) NATIVE_TOKEN"
  obtains s' where "pay_overturned r s = (Inr (), s')"
    "hone_total s' = hone_total s + uint (sl_slashed_amount r)"
proof -
  let ?n = "sl_slashed_amount r" and ?c = "reporter_cut (sl_slashed_amount r)"
  have cn: "uint ?c \<le> uint ?n" using reporter_cut_le [of ?n] by (simp add: word_le_def)
  have "hone_total s + uint ?n < 2 ^ 64" using fits uint_ge_0 [of ?n] by linarith
  then obtain s1 where c1: "attempt (credit (sl_accused r) NATIVE_TOKEN ?n) s = (Inr True, s1)"
    and h1: "hone_total s1 = hone_total s + uint ?n" by (rule attempt_credit_room)
  have c1': "\<exists>x. credit (sl_accused r) NATIVE_TOKEN ?n s = (Inr x, s1)"
    using c1 by (auto simp: attempt_apply split: prod.splits sum.splits if_splits)
  then have "uint (get_balance s1 (sl_reporter r) NATIVE_TOKEN) \<ge> uint (get_balance s (sl_reporter r) NATIVE_TOKEN)"
    using credit_balances by fastforce
  then have "?c \<le> get_balance s1 (sl_reporter r) NATIVE_TOKEN"
    using has by (simp add: word_le_def)
  then obtain y s2 where d: "debit (sl_reporter r) NATIVE_TOKEN ?c s1 = (Inr y, s2)"
    by (simp add: debit_cases)
  have h2: "hone_total s2 = hone_total s1 - uint ?c"
    using gainsD [OF native.take_out_gains d] by simp
  have "hone_total s2 + uint ?c < 2 ^ 64" using h1 h2 fits uint_ge_0 [of ?n] by linarith
  then obtain s3 where c3: "attempt (credit RECYCLE_FUND_ACCOUNT NATIVE_TOKEN ?c) s2 = (Inr True, s3)"
    and h3: "hone_total s3 = hone_total s2 + uint ?c" by (rule attempt_credit_room)
  have "pay_overturned r s = (Inr (), s3)"
    using c1 d c3 by (simp add: pay_overturned_def seq_apply attempt_apply [of "debit _ _ _"] ret_apply)
  with h1 h2 h3 that show ?thesis by simp
qed

section \<open>Theorems\<close>

text \<open>
  A slash only moves value: when it is accepted, the native supply is unchanged, a tenth of the
  accused's stake has been recorded as the slashed amount, and the stakes themselves, the accused's
  included, are exactly what they were.
\<close>

theorem slash_moves_value_keeps_stake:
  assumes "apply_slash E i rep acc ev vi e s = (Inr (), s')"
  shows "hone_total s' = hone_total s \<and> cf_stakes s' = cf_stakes s \<and>
    (\<exists>r. get_slash E s' i = Some r \<and> sl_slashed_amount r = get_stake s acc div 10 \<and> sl_status r = Active)"
proof -
  have "keeps cf_stakes (apply_slash E i rep acc ev vi e)"
    unfolding apply_slash_def Let_def by (intro keeps_intros)
  from keepsD [OF this assms] have st: "cf_stakes s' = cf_stakes s" .
  obtain s1 r where sv: "save_slash i r s1 = (Inr (), s')"
    and r: "sl_slashed_amount r = get_stake s acc div 10" "sl_status r = Active"
    using assms
    by (auto simp: apply_slash_def Let_def andThen_Inr seq_Inr reads_apply ensure_apply split: if_splits)
  from gainsD [OF gains_slash assms] st slash_rec.peek_save [OF sv, of E] r show ?thesis by simp
qed

definition demo_slash_chain :: chain where
  "demo_slash_chain = empty_chain\<lparr>cf_balances := [(balance_key ''mal'' NATIVE_TOKEN, 5000000)],
     cf_stakes := [(''mal'', 20000000)], cf_meta := [(''clock_stake:rep'', Json (JNum 1))]\<rparr>"

lemma demo_slash_runs: "\<exists>s'. apply_slash demo_env ''x'' ''rep'' ''mal'' [] [] 3 demo_slash_chain = (Inr (), s')"
  by (simp add: apply_slash_def Let_def andThen_apply seq_apply reads_apply ensure_apply when_do_apply
      ret_apply debit_cases credit_cases get_balance_def get_stake_def state_get_def state_u64_def
      state_json_def demo_slash_chain_def empty_chain_def kv_get_def MIN_SLASH_STAKE_def reporter_cut_def
      REPORTER_SHARE_BPS_def balance_key_def save_record_apply slash_key_def sat_sub_def)

theorem slash_moves_value_keeps_stake_witness:
  "\<exists>s'. apply_slash demo_env ''x'' ''rep'' ''mal'' [] [] 3 demo_slash_chain = (Inr (), s') \<and>
    cf_stakes s' = [(''mal'', 20000000)]"
proof -
  obtain s' where run: "apply_slash demo_env ''x'' ''rep'' ''mal'' [] [] 3 demo_slash_chain = (Inr (), s')"
    using demo_slash_runs by blast
  from slash_moves_value_keeps_stake [OF run] run show ?thesis
    by (simp add: demo_slash_chain_def)
qed

text \<open>
  A successful appeal creates value. When the fifth vote decides to overturn and the reporter still
  holds its cut, the native supply grows by exactly the slashed amount: the accused is repaid in full,
  while the half that went to the recycle fund stays there and the reporter's half is added to it.
\<close>

theorem overturned_appeal_mints:
  assumes "get_slash E s i = Some r" and "appeal_open r p e"
    and "length (sl_appeal_votes (add_vote r p b e)) \<ge> APPEAL_PANEL_SIZE"
    and "overturns (sl_appeal_votes (add_vote r p b e))"
    and "hone_total s + 2 * uint (sl_slashed_amount r) < 2 ^ 64"
    and "reporter_cut (sl_slashed_amount r) \<le> get_balance s (sl_reporter r) NATIVE_TOKEN"
  shows "\<exists>s'. apply_appeal E i p b e s = (Inr (), s') \<and>
    hone_total s' = hone_total s + uint (sl_slashed_amount r)"
proof -
  let ?r = "add_vote r p b e"
  have same: "sl_slashed_amount ?r = sl_slashed_amount r" "sl_reporter ?r = sl_reporter r"
    by (simp_all add: add_vote_def)
  obtain s1 where p1: "pay_overturned ?r s = (Inr (), s1)"
    and h: "hone_total s1 = hone_total s + uint (sl_slashed_amount r)"
    by (rule pay_overturned_runs [of s ?r]) (simp_all only: same assms(5,6))
  obtain s' where sv: "save_slash i (?r\<lparr>sl_status := Overturned\<rparr>) s1 = (Inr (), s')"
    by (simp add: save_record_apply)
  have "apply_appeal E i p b e s = (Inr (), s')"
    using p1 sv assms(3,4) by (simp add: appeal_guarded [OF assms(1,2)] Let_def seq_apply)
  with keepsD [OF keeps_token_supply [OF keeps_save_record(1)] sv, of NATIVE_TOKEN] h show ?thesis by simp
qed

definition demo_slash_record :: SlashRecord where
  "demo_slash_record = \<lparr>sl_slash_id = ''x'', sl_reporter = ''rep'', sl_accused = ''mal'', sl_evidence = [],
     sl_violation = [], sl_slash_epoch = 3, sl_appeal_deadline = 103, sl_slashed_amount = 2000000,
     sl_status = Appealed, sl_appeal_votes = map (\<lambda>p. \<lparr>av_panelist = p, av_overturn = True, av_epoch = 4\<rparr>)
       [''p1'', ''p2'', ''p3'', ''p4'']\<rparr>"

definition demo_appeal_chain :: chain where
  "demo_appeal_chain = snd (save_slash ''x'' demo_slash_record
     (empty_chain\<lparr>cf_balances := [(balance_key ''rep'' NATIVE_TOKEN, 1000000)]\<rparr>))"

theorem overturned_appeal_mints_witness:
  "\<exists>s'. apply_appeal demo_env ''x'' ''p5'' True 5 demo_appeal_chain = (Inr (), s') \<and>
    hone_total s' = hone_total demo_appeal_chain + 2000000"
proof -
  let ?s = "empty_chain\<lparr>cf_balances := [(balance_key ''rep'' NATIVE_TOKEN, 1000000)]\<rparr>"
  have sv: "save_slash ''x'' demo_slash_record ?s = (Inr (), demo_appeal_chain)"
    by (simp add: demo_appeal_chain_def save_record_apply)
  have "hone_total ?s = 1000000"
    by (simp add: token_supply_def kv_sum_def kv_get_def supply_share_def token_of_balance_key)
  then have h: "hone_total demo_appeal_chain = 1000000"
    using keepsD [OF keeps_token_supply [OF keeps_save_record(1)] sv, of NATIVE_TOKEN] by simp
  have b: "get_balance demo_appeal_chain ''rep'' NATIVE_TOKEN = 1000000"
    using balances_kept [OF keeps_save_record(1) sv, of "''rep''" NATIVE_TOKEN]
    by (simp add: get_balance_def kv_get_def)
  show ?thesis
    using overturned_appeal_mints [OF slash_rec.peek_save [OF sv], of "''p5''" 5 True demo_env] h b
    by (simp add: appeal_open_def add_vote_def demo_slash_record_def APPEAL_PANEL_SIZE_def overturns_def
        OVERTURN_THRESHOLD_BPS_def reporter_cut_def REPORTER_SHARE_BPS_def)
qed

text \<open>
  Only a reporter with a \<open>clock_stake\<close> record can slash: without one every slash is refused and nothing
  changes, whatever stake the reporter has elsewhere.
\<close>

theorem slash_needs_clock_stake:
  assumes "state_get s (''clock_stake:'' @ rep) = None"
  shows "apply_slash E i rep acc ev vi e s = (Inl (Err ''reporter has no clock stake''), s)"
  using assms
  by (simp add: apply_slash_def andThen_apply reads_apply seq_apply ensure_apply state_u64_def state_json_def)

theorem slash_needs_clock_stake_witness:
  "apply_slash demo_env ''y'' ''bob'' ''mal'' [] [] 3 demo_slash_chain =
    (Inl (Err ''reporter has no clock stake''), demo_slash_chain)"
  by (rule slash_needs_clock_stake)
    (simp add: state_get_def demo_slash_chain_def kv_get_def)

end
