(* ===== verification/Identity.thy ===== *)
theory Identity
  imports Auction
begin

text \<open>
  Names as assets with social recovery, and credentials bound to names: \<open>identity_nft.rs\<close>,
  \<open>soulbound.rs\<close> and the reserved names of \<open>reserved_names.rs\<close>, with the arms of \<open>apply_entry\<close> that
  call them. A name is a record with an owner, a lock and an optional recovery configuration;
  \<open>name_owner\<close> indexes the owner for the gateway and for the auctions, which write the same index.
  The theorems are about what moves a locked name, about the sequence number that makes an
  authorisation of the guardians usable once, about the index under identity and auction entries in
  any order, and about the credentials that a sale takes off a name.
\<close>

section \<open>Records\<close>

type_synonym u8 = "8 word"

record Recovery =
  rc_guardians :: "string list"
  rc_threshold :: u8
  rc_destination :: string
  rc_founder_backstop :: bool

record NameNft =
  nn_name :: string
  nn_owner :: string
  nn_minted_epoch :: u64
  nn_transferable :: bool
  nn_recovery :: "Recovery option"
  nn_recovery_seq :: u64

record PendingOffer =
  po_from :: string
  po_to :: string
  po_offered_epoch :: u64

datatype SbtClass = HolderScoped | Provenance

record SoulboundToken =
  sb_token_id :: string
  sb_name :: string
  sb_issuer :: string
  sb_class :: SbtClass
  sb_wallet_bound :: bool
  sb_data :: string
  sb_issued_epoch :: u64
  sb_accepted :: bool
  sb_revoked :: bool
  sb_stripped :: bool

text \<open>\<open>#[serde(default)]\<close>: a missing field has the default of its type.\<close>

definition field_default :: "(json \<Rightarrow> 'a option) \<Rightarrow> 'a \<Rightarrow> json \<Rightarrow> string \<Rightarrow> 'a option" where
  "field_default rd d j k = (case jfield j k of None \<Rightarrow> Some d | Some v \<Rightarrow> rd v)"

definition u8_json :: "u8 \<Rightarrow> json" where
  "u8_json n = JNum (word_of_nat (unat n))"

definition as_u8 :: "json \<Rightarrow> u8 option" where
  "as_u8 j = Option.bind (as_u64 j) (\<lambda>n. if unat n < 2 ^ 8 then Some (word_of_nat (unat n)) else None)"

definition Recovery_json :: "Recovery \<Rightarrow> json" where
  "Recovery_json r = jobj [(''guardians'', vec_json JStr (rc_guardians r)),
     (''threshold'', u8_json (rc_threshold r)), (''destination'', JStr (rc_destination r)),
     (''founder_backstop'', JBool (rc_founder_backstop r))]"

definition Recovery_of_json :: "json \<Rightarrow> Recovery option" where
  "Recovery_of_json j =
     Option.bind (field_vec as_str j ''guardians'') (\<lambda>guardians.
     Option.bind (Option.bind (jfield j ''threshold'') as_u8) (\<lambda>threshold.
     Option.bind (field_str j ''destination'') (\<lambda>destination.
     Option.bind (field_bool j ''founder_backstop'') (\<lambda>founder_backstop.
     Some \<lparr>rc_guardians = guardians, rc_threshold = threshold, rc_destination = destination,
       rc_founder_backstop = founder_backstop\<rparr>))))"

definition NameNft_json :: "NameNft \<Rightarrow> json" where
  "NameNft_json t = jobj [(''name'', JStr (nn_name t)), (''owner'', JStr (nn_owner t)),
     (''minted_epoch'', JNum (nn_minted_epoch t)), (''transferable'', JBool (nn_transferable t)),
     (''recovery'', case nn_recovery t of None \<Rightarrow> JNull | Some r \<Rightarrow> Recovery_json r),
     (''recovery_seq'', JNum (nn_recovery_seq t))]"

definition NameNft_of_json :: "json \<Rightarrow> NameNft option" where
  "NameNft_of_json j =
     Option.bind (field_str j ''name'') (\<lambda>name.
     Option.bind (field_str j ''owner'') (\<lambda>owner.
     Option.bind (field_u64 j ''minted_epoch'') (\<lambda>minted_epoch.
     Option.bind (field_bool j ''transferable'') (\<lambda>transferable.
     Option.bind (field_opt Recovery_of_json j ''recovery'') (\<lambda>recovery.
     Option.bind (field_default as_u64 0 j ''recovery_seq'') (\<lambda>recovery_seq.
     Some \<lparr>nn_name = name, nn_owner = owner, nn_minted_epoch = minted_epoch,
       nn_transferable = transferable, nn_recovery = recovery, nn_recovery_seq = recovery_seq\<rparr>))))))"

definition PendingOffer_json :: "PendingOffer \<Rightarrow> json" where
  "PendingOffer_json p = jobj [(''from'', JStr (po_from p)), (''to'', JStr (po_to p)),
     (''offered_epoch'', JNum (po_offered_epoch p))]"

definition PendingOffer_of_json :: "json \<Rightarrow> PendingOffer option" where
  "PendingOffer_of_json j =
     Option.bind (field_str j ''from'') (\<lambda>from.
     Option.bind (field_str j ''to'') (\<lambda>to.
     Option.bind (field_u64 j ''offered_epoch'') (\<lambda>offered_epoch.
     Some \<lparr>po_from = from, po_to = to, po_offered_epoch = offered_epoch\<rparr>)))"

fun SbtClass_json :: "SbtClass \<Rightarrow> json" where
  "SbtClass_json HolderScoped = JStr ''holder_scoped''"
| "SbtClass_json Provenance = JStr ''provenance''"

definition SbtClass_of_json :: "json \<Rightarrow> SbtClass option" where
  "SbtClass_of_json j = find (\<lambda>c. SbtClass_json c = j) [HolderScoped, Provenance]"

definition SoulboundToken_json :: "SoulboundToken \<Rightarrow> json" where
  "SoulboundToken_json t = jobj [(''token_id'', JStr (sb_token_id t)), (''name'', JStr (sb_name t)),
     (''issuer'', JStr (sb_issuer t)), (''class'', SbtClass_json (sb_class t)),
     (''wallet_bound'', JBool (sb_wallet_bound t)), (''data'', JStr (sb_data t)),
     (''issued_epoch'', JNum (sb_issued_epoch t)), (''accepted'', JBool (sb_accepted t)),
     (''revoked'', JBool (sb_revoked t)), (''stripped'', JBool (sb_stripped t))]"

definition SoulboundToken_of_json :: "json \<Rightarrow> SoulboundToken option" where
  "SoulboundToken_of_json j =
     Option.bind (field_str j ''token_id'') (\<lambda>token_id.
     Option.bind (field_str j ''name'') (\<lambda>name.
     Option.bind (field_str j ''issuer'') (\<lambda>issuer.
     Option.bind (Option.bind (jfield j ''class'') SbtClass_of_json) (\<lambda>class.
     Option.bind (field_default as_bool False j ''wallet_bound'') (\<lambda>wallet_bound.
     Option.bind (field_str j ''data'') (\<lambda>data.
     Option.bind (field_u64 j ''issued_epoch'') (\<lambda>issued_epoch.
     Option.bind (field_default as_bool False j ''accepted'') (\<lambda>accepted.
     Option.bind (field_default as_bool False j ''revoked'') (\<lambda>revoked.
     Option.bind (field_default as_bool False j ''stripped'') (\<lambda>stripped.
     Some \<lparr>sb_token_id = token_id, sb_name = name, sb_issuer = issuer, sb_class = class,
       sb_wallet_bound = wallet_bound, sb_data = data, sb_issued_epoch = issued_epoch,
       sb_accepted = accepted, sb_revoked = revoked, sb_stripped = stripped\<rparr>))))))))))"

section \<open>Reserved names\<close>

definition POPULAR_NAMES :: "string list" where
  "POPULAR_NAMES = [
    ''ace'', ''ada'', ''adam'', ''alan'', ''alex'', ''ali'', ''alma'', ''amy'', ''ana'', ''andy'',
    ''angel'', ''anna'', ''anne'', ''arlo'', ''arthur'', ''ash'', ''asher'', ''atlas'', ''august'',
    ''aurora'', ''austin'', ''autumn'', ''ava'', ''avery'', ''axel'', ''beau'', ''beck'', ''bella'',
    ''ben'', ''blake'', ''bob'', ''brad'', ''brandon'', ''brett'', ''brian'', ''brooke'', ''bruce'',
    ''bryce'', ''caleb'', ''carl'', ''carla'', ''carol'', ''casey'', ''chad'', ''charlie'',
    ''charlotte'', ''chloe'', ''chris'', ''claire'', ''clark'', ''cody'', ''cole'', ''corey'', ''craig'',
    ''dale'', ''dan'', ''daniel'', ''dana'', ''darren'', ''david'', ''dean'', ''derek'', ''diana'',
    ''dominic'', ''don'', ''donna'', ''drew'', ''dylan'', ''earl'', ''eli'', ''elijah'', ''ella'',
    ''emily'', ''emma'', ''eric'', ''ethan'', ''evan'', ''eve'', ''faith'', ''felix'', ''finn'',
    ''fiona'', ''frank'', ''fred'', ''gabriel'', ''gavin'', ''george'', ''glen'', ''grace'', ''graham'',
    ''greg'', ''hannah'', ''harper'', ''harry'', ''hazel'', ''heidi'', ''henry'', ''holly'', ''hugo'',
    ''ian'', ''iris'', ''isaac'', ''isabella'', ''isla'', ''ivy'', ''jack'', ''jackson'', ''jade'',
    ''jake'', ''james'', ''jane'', ''jasmine'', ''jason'', ''jay'', ''jeff'', ''jen'', ''jesse'',
    ''jessica'', ''jill'', ''joel'', ''joanna'', ''john'', ''jonah'', ''jonathan'', ''jordan'', ''josh'',
    ''joy'', ''julia'', ''june'', ''karen'', ''kate'', ''kelly'', ''kevin'', ''kim'', ''kyle'',
    ''layla'', ''lea'', ''leah'', ''leo'', ''leon'', ''lewis'', ''liam'', ''lily'', ''linda'', ''lisa'',
    ''logan'', ''lola'', ''louis'', ''lucas'', ''luke'', ''luna'', ''lydia'', ''mae'', ''marcus'',
    ''maria'', ''marie'', ''martin'', ''mary'', ''mason'', ''matt'', ''max'', ''maya'', ''megan'',
    ''mia'', ''michael'', ''mila'', ''miles'', ''molly'', ''morgan'', ''naomi'', ''nate'', ''neil'',
    ''nick'', ''noah'', ''noel'', ''nora'', ''nova'', ''oliver'', ''olivia'', ''oscar'', ''owen'',
    ''paige'', ''parker'', ''paul'', ''pearl'', ''peter'', ''piper'', ''rachel'', ''ray'', ''reed'',
    ''rex'', ''richard'', ''riley'', ''rob'', ''robin'', ''rosa'', ''rose'', ''ross'', ''ryan'', ''sam'',
    ''sandy'', ''sara'', ''sarah'', ''scarlett'', ''scott'', ''sean'', ''selena'', ''serena'', ''seth'',
    ''sierra'', ''simon'', ''skye'', ''sofia'', ''sophia'', ''stella'', ''stephen'', ''sue'', ''summer'',
    ''susan'', ''tara'', ''taylor'', ''ted'', ''theo'', ''thomas'', ''tim'', ''tina'', ''tori'',
    ''travis'', ''troy'', ''tyler'', ''vera'', ''victor'', ''vincent'', ''violet'', ''vivian'', ''wade'',
    ''walter'', ''wendy'', ''will'', ''willow'', ''wyatt'', ''yvonne'', ''zach'', ''zane'', ''zara'',
    ''zoe'', ''zoey'', ''alejandro'', ''camila'', ''carmen'', ''carlos'', ''consuelo'', ''cristina'',
    ''diego'', ''elena'', ''emilio'', ''fernanda'', ''florencia'', ''gabriela'', ''gonzalo'',
    ''ignacio'', ''isabella'', ''javier'', ''jose'', ''juan'', ''juanita'', ''lucia'', ''luciana'',
    ''luisa'', ''maia'', ''marcelo'', ''mariana'', ''mateo'', ''marina'', ''miguel'', ''natalia'',
    ''nicolas'', ''pablo'', ''pilar'', ''rafael'', ''ramon'', ''roberto'', ''rosario'', ''santiago'',
    ''sebastian'', ''valentina'', ''valeria'', ''martina'', ''ximena'', ''aisha'', ''amir'', ''amira'',
    ''farid'', ''farida'', ''fatima'', ''hafsa'', ''hamid'', ''hassan'', ''ibrahim'', ''jasmin'',
    ''karim'', ''karima'', ''laila'', ''leila'', ''lina'', ''malik'', ''malika'', ''mariam'', ''nadia'',
    ''omar'', ''rania'', ''rima'', ''sana'', ''soraya'', ''tariq'', ''yasmin'', ''yusuf'', ''zainab'',
    ''aarav'', ''aditya'', ''ananya'', ''anjali'', ''ankit'', ''arjun'', ''aryan'', ''ayaan'', ''deepa'',
    ''dev'', ''diya'', ''ishaan'', ''kavya'', ''krish'', ''kunal'', ''meera'', ''neha'', ''nikhil'',
    ''pooja'', ''priya'', ''rahul'', ''raj'', ''riya'', ''rohan'', ''sakshi'', ''shiv'', ''sunita'',
    ''varun'', ''veer'', ''yash'', ''zara'', ''akira'', ''chen'', ''fang'', ''hana'', ''haruto'',
    ''hiro'', ''kai'', ''kenji'', ''lei'', ''mei'', ''min'', ''ming'', ''ren'', ''ryo'', ''sakura'',
    ''sato'', ''wei'', ''xin'', ''yuki'', ''yuna'', ''zhang'', ''abena'', ''amara'', ''amina'', ''ayo'',
    ''chi'', ''chioma'', ''esi'', ''fatou'', ''imani'', ''kofi'', ''kwame'', ''nia'', ''obi'', ''ola'',
    ''sade'', ''seun'', ''yemi'', ''zola'', ''alexei'', ''anastasia'', ''bogdan'', ''dmitry'',
    ''ekaterina'', ''inna'', ''ivan'', ''katya'', ''ludmila'', ''mikhail'', ''natasha'', ''nina'',
    ''olga'', ''oleg'', ''sasha'', ''sonya'', ''tania'', ''tatiana'', ''yara'', ''yuri'', ''astrid'',
    ''bjorn'', ''erik'', ''freya'', ''gunnar'', ''hilde'', ''ingrid'', ''lars'', ''leif'', ''sigrid'',
    ''sven'', ''thor'', ''adonis'', ''agatha'', ''alexia'', ''callie'', ''daphne'', ''demetrios'',
    ''elektra'', ''evander'', ''giorgos'', ''irene'', ''katerina'', ''konstantinos'', ''nikos'',
    ''panos'', ''phoebe'', ''stavros'', ''thalia'', ''elia'', ''elias'', ''emre'', ''esra'', ''ezra'',
    ''gio'', ''lena'', ''levi'', ''mara'', ''noa'', ''nolan'', ''oren'', ''petra'', ''rene'', ''reza'',
    ''rio'', ''roma'', ''romi'', ''romy'', ''rona'', ''shira'', ''sol'', ''sula'', ''tamar'', ''tara'',
    ''teo'', ''yael'']"

definition letters :: "string list" where
  "letters = map (\<lambda>c. [char_of c]) [97..<(123::nat)]"

definition all_reserved :: "string list" where
  "all_reserved =
    (let short = letters @ concat (map (\<lambda>c1. map (\<lambda>c2. c1 @ c2) letters) letters) in
     fold (\<lambda>s names. if s \<notin> set short \<and> s \<notin> set names then names @ [s] else names) POPULAR_NAMES short)"

definition is_reserved :: "string \<Rightarrow> bool" where
  "is_reserved name \<longleftrightarrow> name \<in> set all_reserved"

section \<open>Names\<close>

definition ISSUER_ACCOUNT :: string where "ISSUER_ACCOUNT = ''shindevlin''"

definition OFFER_EXPIRY_EPOCHS :: u64 where "OFFER_EXPIRY_EPOCHS = 2880"

definition IDENTITY_OPEN_PHASE_LIMIT :: u64 where "IDENTITY_OPEN_PHASE_LIMIT = 1000"

definition level :: "NameNft \<Rightarrow> string" where
  "level t = (if \<not> nn_transferable t then ''locked''
     else if nn_recovery t \<noteq> None then ''guarded'' else ''open'')"

definition nft_key :: "string \<Rightarrow> string" where
  "nft_key name = ''name_nft:'' @ name"

definition held_key :: "string \<Rightarrow> string \<Rightarrow> string" where
  "held_key account name = ''name_held:'' @ account @ '':'' @ name"

definition offer_key :: "string \<Rightarrow> string" where
  "offer_key name = ''name_pending:'' @ name"

definition primary_key :: "string \<Rightarrow> string" where
  "primary_key account = ''account_name:'' @ account"

definition COUNT_KEY :: string where "COUNT_KEY = ''identity_registered_count''"

definition is_valid_identity_name :: "string \<Rightarrow> bool" where
  "is_valid_identity_name name \<longleftrightarrow>
     name \<noteq> [] \<and> length name \<le> 63 \<and> hd name \<noteq> CHR ''-'' \<and> last name \<noteq> CHR ''-'' \<and>
     list_all (\<lambda>c. let b = (of_char c :: nat) in
       (97 \<le> b \<and> b \<le> 122) \<or> (48 \<le> b \<and> b \<le> 57) \<or> b = 45) name"

definition registered_count :: "env \<Rightarrow> chain \<Rightarrow> u64" where
  "registered_count E s =
    (case Option.bind (state_text E s COUNT_KEY) (\<lambda>t. parse_u64 (trim t)) of Some n \<Rightarrow> n | None \<Rightarrow> 0)"

definition bump_count :: "env \<Rightarrow> unit chain_act" where
  "bump_count E = andThen (reads (registered_count E)) (\<lambda>n. state_set COUNT_KEY (Text (show_u64 (n + 1))))"

definition is_open_phase :: "env \<Rightarrow> chain \<Rightarrow> bool" where
  "is_open_phase E s \<longleftrightarrow> registered_count E s < IDENTITY_OPEN_PHASE_LIMIT"

definition get_nft :: "env \<Rightarrow> chain \<Rightarrow> string \<Rightarrow> NameNft option" where
  "get_nft E s name = peek E NameNft_of_json s (nft_key name)"

definition get_offer :: "env \<Rightarrow> chain \<Rightarrow> string \<Rightarrow> PendingOffer option" where
  "get_offer E s name = peek E PendingOffer_of_json s (offer_key name)"

definition put_nft :: "NameNft \<Rightarrow> unit chain_act" where
  "put_nft t =
     seq (save_record NameNft_json (nft_key (nn_name t)) t)
         (state_set (name_owner_key (nn_name t)) (Text (nn_owner t)))"

abbreviation need_nft :: "env \<Rightarrow> string \<Rightarrow> NameNft chain_act" where
  "need_nft E name \<equiv> andThen (reads (\<lambda>s. get_nft E s name)) (\<lambda>found. need found (Err ''name is not minted''))"

fun check_guardians :: "string list \<Rightarrow> string list \<Rightarrow> error option" where
  "check_guardians seen [] = None"
| "check_guardians seen (g # gs) =
    (if trim g = [] then Some (Err ''empty guardian name'')
     else if g \<in> set seen then Some (Err ''duplicate guardian'')
     else check_guardians (g # seen) gs)"

definition validate_recovery :: "string list \<Rightarrow> u8 \<Rightarrow> string \<Rightarrow> unit chain_act" where
  "validate_recovery guardians threshold destination =
     seq (ensure (guardians \<noteq> []) (Err ''recovery needs at least one guardian''))
    (seq (ensure (length guardians \<le> 16) (Err ''too many guardians (max 16)''))
    (seq (case check_guardians [] guardians of None \<Rightarrow> ret () | Some e \<Rightarrow> bail e)
    (seq (ensure (threshold \<noteq> 0) (Err ''threshold must be at least 1''))
    (seq (ensure (unat threshold \<le> length guardians) (Err ''threshold exceeds guardian count''))
         (ensure (trim destination \<noteq> []) (Err ''recovery destination must be set''))))))"

definition apply_nft_mint :: "env \<Rightarrow> string \<Rightarrow> string \<Rightarrow> string \<Rightarrow> u64 \<Rightarrow> unit chain_act" where
  "apply_nft_mint E name to minter epoch =
     seq (ensure (is_valid_identity_name name) (Err ''not a valid identity name''))
    (andThen (reads (\<lambda>s. get_nft E s name \<noteq> None \<or> state_get s (name_owner_key name) \<noteq> None)) (\<lambda>registered.
     seq (ensure (\<not> registered) (Err ''name is already registered''))
    (andThen (reads (\<lambda>s. state_get s (name_active_key name))) (\<lambda>active.
     seq (ensure (active = None) (Err ''name is in an active auction''))
    (let issuer = (minter = ISSUER_ACCOUNT) in
     seq (ensure (to = minter \<or> issuer) (Err ''can only mint a name to your own account''))
    (seq (ensure (\<not> is_reserved name \<or> issuer) (Err ''reserved name''))
    (andThen (reads (is_open_phase E)) (\<lambda>open_phase.
     seq (ensure (open_phase \<or> issuer) (Err ''name issuance is auction-only now''))
    (seq (put_nft \<lparr>nn_name = name, nn_owner = to, nn_minted_epoch = epoch, nn_transferable = True,
            nn_recovery = None, nn_recovery_seq = 0\<rparr>)
    (seq (state_set (held_key to name) (Text ''1''))
         (bump_count E)))))))))))"

definition apply_nft_transfer :: "env \<Rightarrow> string \<Rightarrow> string \<Rightarrow> string \<Rightarrow> u64 \<Rightarrow> unit chain_act" where
  "apply_nft_transfer E name from to epoch =
     andThen (need_nft E name) (\<lambda>nft.
     seq (ensure (nn_owner nft = from) (Err ''does not own the name''))
    (seq (ensure (nn_transferable nft) (Err ''locked and can only move via recovery''))
    (seq (ensure (from \<noteq> to) (Err ''cannot transfer a name to its current owner''))
         (save_record PendingOffer_json (offer_key name)
            \<lparr>po_from = from, po_to = to, po_offered_epoch = epoch\<rparr>))))"

section \<open>Credentials\<close>

definition tok_key :: "string \<Rightarrow> string" where
  "tok_key tid = ''sbt:'' @ tid"

definition sbt_pending_key :: "string \<Rightarrow> string \<Rightarrow> string" where
  "sbt_pending_key name tid = ''sbt_pending:'' @ name @ '':'' @ tid"

definition on_key :: "string \<Rightarrow> string \<Rightarrow> string" where
  "on_key name tid = ''sbt_on:'' @ name @ '':'' @ tid"

definition get_sbt :: "env \<Rightarrow> chain \<Rightarrow> string \<Rightarrow> SoulboundToken option" where
  "get_sbt E s tid = peek E SoulboundToken_of_json s (tok_key tid)"

definition put_sbt :: "SoulboundToken \<Rightarrow> unit chain_act" where
  "put_sbt t = save_record SoulboundToken_json (tok_key (sb_token_id t)) t"

abbreviation need_sbt :: "env \<Rightarrow> string \<Rightarrow> SoulboundToken chain_act" where
  "need_sbt E tid \<equiv> andThen (reads (\<lambda>s. get_sbt E s tid)) (\<lambda>found. need found (Err ''no soulbound token''))"

definition parse_class :: "string \<Rightarrow> SbtClass option" where
  "parse_class s =
    (if s \<in> {''holder_scoped'', ''holder'', ''''} then Some HolderScoped
     else if s = ''provenance'' then Some Provenance else None)"

definition sbt_holder :: "env \<Rightarrow> chain \<Rightarrow> string \<Rightarrow> string option" where
  "sbt_holder E s name = map_option nn_owner (get_nft E s name)"

definition apply_sbt_issue ::
  "env \<Rightarrow> string \<Rightarrow> string \<Rightarrow> string \<Rightarrow> string \<Rightarrow> bool \<Rightarrow> string \<Rightarrow> u64 \<Rightarrow> unit chain_act" where
  "apply_sbt_issue E token_id name issuer class wallet_bound data epoch =
     seq (ensure (trim token_id \<noteq> []) (Err ''empty token_id''))
    (andThen (reads (\<lambda>s. get_sbt E s token_id)) (\<lambda>found.
     seq (ensure (found = None) (Err ''soulbound token already exists''))
    (andThen (reads (\<lambda>s. get_nft E s name)) (\<lambda>nft.
     seq (ensure (nft \<noteq> None) (Err ''name is not minted''))
    (andThen (need (parse_class class) (Err ''unknown soulbound class'')) (\<lambda>cls.
     seq (put_sbt \<lparr>sb_token_id = token_id, sb_name = name, sb_issuer = issuer, sb_class = cls,
            sb_wallet_bound = wallet_bound, sb_data = data, sb_issued_epoch = epoch,
            sb_accepted = False, sb_revoked = False, sb_stripped = False\<rparr>)
         (state_set (sbt_pending_key name token_id) (Text ''1''))))))))"

definition apply_sbt_accept :: "env \<Rightarrow> string \<Rightarrow> string \<Rightarrow> unit chain_act" where
  "apply_sbt_accept E token_id acceptor =
     andThen (need_sbt E token_id) (\<lambda>t.
     seq (ensure (\<not> sb_accepted t) (Err ''token already accepted''))
    (andThen (reads (\<lambda>s. sbt_holder E s (sb_name t))) (\<lambda>holder.
     seq (ensure (holder \<noteq> None) (Err ''name is not minted''))
    (seq (ensure (holder = Some acceptor) (Err ''only the current holder may accept this credential''))
    (seq (put_sbt (t\<lparr>sb_accepted := True\<rparr>))
    (seq (state_delete (sbt_pending_key (sb_name t) token_id))
         (state_set (on_key (sb_name t) token_id) (Text ''1''))))))))"

definition apply_sbt_reject :: "env \<Rightarrow> string \<Rightarrow> string \<Rightarrow> unit chain_act" where
  "apply_sbt_reject E token_id signer =
     andThen (need_sbt E token_id) (\<lambda>t.
     andThen (reads (\<lambda>s. sbt_holder E s (sb_name t))) (\<lambda>holder.
     seq (ensure (holder = Some signer \<or> signer = sb_issuer t)
            (Err ''only the holder or the issuer may reject this credential''))
    (seq (state_delete (sbt_pending_key (sb_name t) token_id))
    (seq (state_delete (on_key (sb_name t) token_id))
         (state_delete (tok_key token_id))))))"

definition apply_sbt_revoke :: "env \<Rightarrow> string \<Rightarrow> string \<Rightarrow> unit chain_act" where
  "apply_sbt_revoke E token_id revoker =
     andThen (need_sbt E token_id) (\<lambda>t.
     seq (ensure (revoker = sb_issuer t) (Err ''only the issuer may revoke''))
    (seq (put_sbt (t\<lparr>sb_revoked := True\<rparr>))
    (seq (state_delete (on_key (sb_name t) token_id))
         (state_delete (sbt_pending_key (sb_name t) token_id)))))"

text \<open>\<open>k.rsplit(':').next()\<close>: what follows the last colon.\<close>

definition after_last_colon :: "string \<Rightarrow> string" where
  "after_last_colon k = rev (takeWhile (\<lambda>c. c \<noteq> CHR '':'') (rev k))"

definition active_on :: "chain \<Rightarrow> string \<Rightarrow> string list" where
  "active_on s name = map (\<lambda>kv. after_last_colon (fst kv)) (state_scan_prefix s (''sbt_on:'' @ name @ '':''))"

definition strip_one :: "env \<Rightarrow> string \<Rightarrow> string \<Rightarrow> unit chain_act" where
  "strip_one E name tid =
     andThen (reads (\<lambda>s. get_sbt E s tid)) (\<lambda>found.
     case found of
       None \<Rightarrow> ret ()
     | Some t \<Rightarrow> when_do (sb_class t = HolderScoped)
         (seq (put_sbt (t\<lparr>sb_stripped := True\<rparr>)) (state_delete (on_key name tid))))"

definition strip_holder_scoped :: "env \<Rightarrow> string \<Rightarrow> unit chain_act" where
  "strip_holder_scoped E name = andThen (reads (\<lambda>s. active_on s name)) (each (strip_one E name))"

section \<open>Moving a name\<close>

definition clear_primary :: "env \<Rightarrow> string \<Rightarrow> string \<Rightarrow> unit chain_act" where
  "clear_primary E from name =
     andThen (reads (\<lambda>s. map_option (val_bytes E) (state_get s (primary_key from)))) (\<lambda>primary.
     when_do (primary = Some name) (state_delete (primary_key from)))"

definition drop_offer :: "string \<Rightarrow> error \<Rightarrow> unit chain_act" where
  "drop_offer name e = seq (state_delete (offer_key name)) (bail e)"

definition apply_nft_accept :: "env \<Rightarrow> string \<Rightarrow> string \<Rightarrow> u64 \<Rightarrow> unit chain_act" where
  "apply_nft_accept E name to epoch =
     andThen (reads (\<lambda>s. get_offer E s name)) (\<lambda>found.
     andThen (need found (Err ''no pending offer'')) (\<lambda>offer.
     seq (ensure (po_to offer = to) (Err ''not the offered recipient''))
    (if epoch > sat_add (po_offered_epoch offer) OFFER_EXPIRY_EPOCHS
     then drop_offer name (Err ''the transfer offer has expired'')
     else
       andThen (need_nft E name) (\<lambda>nft.
       if \<not> nn_transferable nft then drop_offer name (Err ''became locked after the offer'')
       else if nn_owner nft \<noteq> po_from offer then drop_offer name (Err ''offer is stale'')
       else
         seq (state_delete (held_key (po_from offer) name))
        (seq (put_nft (nft\<lparr>nn_owner := to, nn_recovery := None, nn_transferable := True\<rparr>))
        (seq (state_set (held_key to name) (Text ''1''))
        (seq (clear_primary E (po_from offer) name)
        (seq (state_delete (offer_key name))
             (strip_holder_scoped E name)))))))))"

definition apply_nft_reject :: "env \<Rightarrow> string \<Rightarrow> string \<Rightarrow> unit chain_act" where
  "apply_nft_reject E name signed_by =
     andThen (reads (\<lambda>s. get_offer E s name)) (\<lambda>found.
     andThen (need found (Err ''no pending offer'')) (\<lambda>offer.
     seq (ensure (signed_by = po_to offer \<or> signed_by = po_from offer) (Err ''not a party to the offer''))
         (state_delete (offer_key name))))"

definition apply_nft_set_primary :: "env \<Rightarrow> string \<Rightarrow> string \<Rightarrow> unit chain_act" where
  "apply_nft_set_primary E account name =
     andThen (need_nft E name) (\<lambda>nft.
     seq (ensure (nn_owner nft = account) (Err ''does not own the name''))
         (state_set (primary_key account) (Text name)))"

definition apply_nft_set_recovery ::
  "env \<Rightarrow> string \<Rightarrow> string \<Rightarrow> string list \<Rightarrow> u8 \<Rightarrow> string \<Rightarrow> bool \<Rightarrow> unit chain_act" where
  "apply_nft_set_recovery E name caller guardians threshold destination founder_backstop =
     andThen (need_nft E name) (\<lambda>nft.
     seq (ensure (nn_owner nft = caller) (Err ''does not own the name''))
    (seq (ensure (nn_transferable nft) (Err ''unlock before changing the recovery configuration''))
    (seq (validate_recovery guardians threshold destination)
         (put_nft (nft\<lparr>nn_recovery := Some \<lparr>rc_guardians = guardians, rc_threshold = threshold,
            rc_destination = destination, rc_founder_backstop = founder_backstop\<rparr>\<rparr>)))))"

definition apply_nft_lock :: "env \<Rightarrow> string \<Rightarrow> string \<Rightarrow> unit chain_act" where
  "apply_nft_lock E name caller =
     andThen (need_nft E name) (\<lambda>nft.
     seq (ensure (nn_owner nft = caller) (Err ''does not own the name''))
    (seq (ensure (nn_recovery nft \<noteq> None) (Err ''set a recovery path before locking''))
         (put_nft (nft\<lparr>nn_transferable := False\<rparr>))))"

definition apply_nft_unlock :: "env \<Rightarrow> string \<Rightarrow> u64 \<Rightarrow> unit chain_act" where
  "apply_nft_unlock E name expected_seq =
     andThen (need_nft E name) (\<lambda>nft.
     seq (ensure (\<not> nn_transferable nft) (Err ''not locked''))
    (seq (ensure (expected_seq = nn_recovery_seq nft) (Err ''stale recovery_seq''))
         (put_nft (nft\<lparr>nn_transferable := True, nn_recovery_seq := nn_recovery_seq nft + 1\<rparr>))))"

definition apply_nft_recover :: "env \<Rightarrow> string \<Rightarrow> u64 \<Rightarrow> unit chain_act" where
  "apply_nft_recover E name expected_seq =
     andThen (need_nft E name) (\<lambda>nft.
     andThen (need (nn_recovery nft) (Err ''has no recovery configured'')) (\<lambda>rec.
     seq (ensure (expected_seq = nn_recovery_seq nft) (Err ''stale recovery_seq''))
    (let dest = rc_destination rec; from = nn_owner nft in
     if dest = from then put_nft (nft\<lparr>nn_recovery_seq := nn_recovery_seq nft + 1\<rparr>)
     else
       seq (state_delete (held_key from name))
      (seq (put_nft (nft\<lparr>nn_owner := dest, nn_recovery_seq := nn_recovery_seq nft + 1\<rparr>))
      (seq (state_set (held_key dest name) (Text ''1''))
      (seq (clear_primary E from name)
           (state_delete (offer_key name))))))))"

definition apply_nft_set_backstop :: "env \<Rightarrow> string \<Rightarrow> string \<Rightarrow> bool \<Rightarrow> unit chain_act" where
  "apply_nft_set_backstop E name caller enabled =
     andThen (need_nft E name) (\<lambda>nft.
     seq (ensure (nn_owner nft = caller) (Err ''does not own the name''))
    (andThen (need (nn_recovery nft) (Err ''has no recovery configured'')) (\<lambda>rec.
     seq (ensure (\<not> (enabled \<and> \<not> nn_transferable nft)) (Err ''unlock before re-enabling the founder backstop''))
         (put_nft (nft\<lparr>nn_recovery := Some (rec\<lparr>rc_founder_backstop := enabled\<rparr>)\<rparr>)))))"

section \<open>The entries\<close>

text \<open>
  The entries in the order of the arms; the fields are those the arms read, \<open>signed_by\<close> and \<open>epoch\<close>
  last.
\<close>

datatype identity_entry =
    IdentityNftMint string string string u64
  | IdentityNftTransfer string string string u64
  | IdentityNftAccept string string u64
  | IdentityNftReject string string u64
  | IdentityNftSetRecovery string "string list" u8 string bool string u64
  | IdentityNftLock string string u64
  | IdentityNftUnlock string u64 string u64
  | IdentityNftRecover string u64 string u64
  | IdentityNftSetBackstop string bool string u64
  | IdentityNftSetPrimary string string u64
  | SoulboundIssue string string string bool string string u64
  | SoulboundAccept string string u64
  | SoulboundReject string string u64
  | SoulboundRevoke string string u64

fun apply_identity_entry :: "env \<Rightarrow> identity_entry \<Rightarrow> unit chain_act" where
  "apply_identity_entry E (IdentityNftMint name to signed_by epoch) =
     seq (touch_alive E signed_by epoch)
    (seq (ensure_account signed_by epoch)
    (seq (ensure_account to epoch) (apply_nft_mint E name to signed_by epoch)))"
| "apply_identity_entry E (IdentityNftTransfer name from to epoch) =
     seq (touch_alive E from epoch)
    (seq (ensure_account from epoch)
    (seq (ensure_account to epoch) (apply_nft_transfer E name from to epoch)))"
| "apply_identity_entry E (IdentityNftAccept name to epoch) =
     seq (touch_alive E to epoch)
    (seq (ensure_account to epoch) (apply_nft_accept E name to epoch))"
| "apply_identity_entry E (IdentityNftReject name signed_by epoch) =
     seq (touch_alive E signed_by epoch) (apply_nft_reject E name signed_by)"
| "apply_identity_entry E (IdentityNftSetRecovery name guardians threshold destination founder_backstop signed_by epoch) =
     seq (touch_alive E signed_by epoch)
    (seq (ensure_account destination epoch)
         (apply_nft_set_recovery E name signed_by guardians threshold destination founder_backstop))"
| "apply_identity_entry E (IdentityNftLock name signed_by epoch) =
     seq (touch_alive E signed_by epoch) (apply_nft_lock E name signed_by)"
| "apply_identity_entry E (IdentityNftUnlock name sn signed_by epoch) =
     seq (touch_alive E signed_by epoch) (apply_nft_unlock E name sn)"
| "apply_identity_entry E (IdentityNftRecover name sn signed_by epoch) =
     seq (touch_alive E signed_by epoch) (apply_nft_recover E name sn)"
| "apply_identity_entry E (IdentityNftSetBackstop name enabled signed_by epoch) =
     seq (touch_alive E signed_by epoch) (apply_nft_set_backstop E name signed_by enabled)"
| "apply_identity_entry E (IdentityNftSetPrimary account name epoch) =
     seq (touch_alive E account epoch)
    (seq (ensure_account account epoch) (apply_nft_set_primary E account name))"
| "apply_identity_entry E (SoulboundIssue token_id name class wallet_bound data signed_by epoch) =
     seq (touch_alive E signed_by epoch)
    (seq (ensure_account signed_by epoch)
         (apply_sbt_issue E token_id name signed_by class wallet_bound data epoch))"
| "apply_identity_entry E (SoulboundAccept token_id signed_by epoch) =
     seq (touch_alive E signed_by epoch) (apply_sbt_accept E token_id signed_by)"
| "apply_identity_entry E (SoulboundReject token_id signed_by epoch) =
     seq (touch_alive E signed_by epoch) (apply_sbt_reject E token_id signed_by)"
| "apply_identity_entry E (SoulboundRevoke token_id signed_by epoch) =
     seq (touch_alive E signed_by epoch) (apply_sbt_revoke E token_id signed_by)"

section \<open>The records\<close>

lemma as_u8_json: "as_u8 (u8_json n) = Some n"
proof -
  have "unat n < 2 ^ LENGTH(8)"
    by (rule unsigned_less)
  then have lt: "unat n < 2 ^ 8" by simp
  then have e: "unat (word_of_nat (unat n) :: u64) = unat n"
    by (intro unat_u64_of_nat) simp
  from lt show ?thesis
    unfolding as_u8_def u8_json_def as_u64.simps Option.bind.simps e by simp
qed

lemma as_vec_strs: "as_vec as_str (vec_json JStr xs) = Some xs"
  using those_map_Some [of xs "\<lambda>x. as_str (JStr x)" "\<lambda>x. x"]
  by (simp add: as_vec_def vec_json_def comp_def)

interpretation recovery_rec: record_codec Recovery_json Recovery_of_json
  by unfold_locales (simp add: Recovery_of_json_def Recovery_json_def field_vec_def field_str_def
      field_bool_def as_u8_json as_vec_strs)

lemma Recovery_json_not_null: "Recovery_json r \<noteq> JNull"
  by (simp add: Recovery_json_def jobj_def)

lemma field_opt_value:
  "jfield j k = Some v \<Longrightarrow> v \<noteq> JNull \<Longrightarrow> field_opt rd j k = map_option Some (rd v)"
  by (cases v) (simp_all add: field_opt_def)

lemma field_recovery:
  assumes "jfield j k = Some (case r of None \<Rightarrow> JNull | Some x \<Rightarrow> Recovery_json x)"
  shows "field_opt Recovery_of_json j k = Some r"
  using assms by (cases r) (simp_all add: field_opt_value Recovery_json_not_null recovery_rec.decode_encode,
      simp add: field_opt_def)

interpretation nft_rec: record_codec NameNft_json NameNft_of_json
  by unfold_locales
    (simp add: NameNft_of_json_def NameNft_json_def field_str_def field_u64_def field_bool_def
      field_default_def field_recovery)

interpretation offer_rec: record_codec PendingOffer_json PendingOffer_of_json
  by unfold_locales (simp add: PendingOffer_of_json_def PendingOffer_json_def field_defs)

lemma SbtClass_roundtrip: "SbtClass_of_json (SbtClass_json c) = Some c"
  by (cases c) (simp_all add: SbtClass_of_json_def)

interpretation sbt_rec: record_codec SoulboundToken_json SoulboundToken_of_json
  by unfold_locales
    (simp add: SoulboundToken_of_json_def SoulboundToken_json_def field_str_def field_u64_def
      field_default_def SbtClass_roundtrip)

section \<open>What touches a name\<close>

text \<open>
  The view of a name: its record and its index entry. Everything but \<open>put_nft\<close> leaves all views
  alone, and \<open>put_nft\<close> changes one of them.
\<close>

definition name_view :: "string \<Rightarrow> chain \<Rightarrow> val option \<times> val option" where
  "name_view n s = (state_get s (nft_key n), state_get s (name_owner_key n))"

lemmas identity_keys = nft_key_def name_owner_key_def held_key_def offer_key_def primary_key_def
  COUNT_KEY_def tok_key_def sbt_pending_key_def on_key_def name_active_key_def auction_key_def

lemma keeps_state_get_other:
  assumes "k \<noteq> k'"
  shows "keeps (\<lambda>s. state_get s k) (state_set k' v)" "keeps (\<lambda>s. state_get s k) (state_delete k')"
    "keeps (\<lambda>s. state_get s k) (save_record wr k' x)"
  using assms by (simp_all add: keeps_def save_record_def state_set_def state_delete_def state_get_def act_simps)

lemma keeps_view:
  "keeps (\<lambda>s. state_get s (nft_key n)) m \<Longrightarrow> keeps (\<lambda>s. state_get s (name_owner_key n)) m \<Longrightarrow>
    keeps (name_view n) m"
  by (simp add: keeps_def name_view_def)

lemma keeps_view_other [keeps_intros]:
  "nft_key n \<noteq> k \<Longrightarrow> name_owner_key n \<noteq> k \<Longrightarrow> keeps (name_view n) (state_set k v)"
  "nft_key n \<noteq> k \<Longrightarrow> name_owner_key n \<noteq> k \<Longrightarrow> keeps (name_view n) (state_delete k)"
  "nft_key n \<noteq> k \<Longrightarrow> name_owner_key n \<noteq> k \<Longrightarrow> keeps (name_view n) (save_record wr k x)"
  by (intro keeps_view keeps_state_get_other; assumption)+

lemma keeps_view_actor [keeps_intros]:
  "keeps (name_view n) (touch_alive E a e)" "keeps (name_view n) (ensure_account a e)"
proof -
  show "keeps (name_view n) (touch_alive E a e)"
    unfolding touch_alive_def set_alive_epoch_def
    by (intro keeps_intros) (simp_all add: identity_keys)
  show "keeps (name_view n) (ensure_account a e)"
    using keeps_ensure_account(3) [of a e] by (simp add: keeps_def name_view_def state_get_def)
qed

lemma keeps_view_helpers [keeps_intros]:
  "keeps (name_view n) (clear_primary E a m)" "keeps (name_view n) (drop_offer m err)"
  "keeps (name_view n) (put_sbt t)" "keeps (name_view n) (strip_holder_scoped E m)"
  "keeps (name_view n) (bump_count E)"
  unfolding clear_primary_def drop_offer_def put_sbt_def strip_holder_scoped_def strip_one_def bump_count_def
  by (intro keeps_intros; simp add: identity_keys)+

lemma keeps_view_ops:
  "keeps (name_view n) (apply_nft_transfer E m a b e)" "keeps (name_view n) (apply_nft_reject E m a)"
  "keeps (name_view n) (apply_nft_set_primary E a m)"
  "keeps (name_view n) (apply_sbt_issue E i m a c w d e)" "keeps (name_view n) (apply_sbt_accept E i a)"
  "keeps (name_view n) (apply_sbt_reject E i a)" "keeps (name_view n) (apply_sbt_revoke E i a)"
  unfolding apply_nft_transfer_def apply_nft_reject_def apply_nft_set_primary_def apply_sbt_issue_def
    apply_sbt_accept_def apply_sbt_reject_def apply_sbt_revoke_def
  by (intro keeps_intros; simp add: identity_keys)+

text \<open>\<open>same_names\<close>: no name changed. \<open>wrote t\<close>: the name of \<open>t\<close> now has this record, and no other changed.\<close>

definition same_names :: "chain \<Rightarrow> chain \<Rightarrow> bool" where
  "same_names s s' \<longleftrightarrow> (\<forall>n. name_view n s' = name_view n s)"

definition wrote :: "NameNft \<Rightarrow> chain \<Rightarrow> chain \<Rightarrow> bool" where
  "wrote t s s' \<longleftrightarrow>
     (\<forall>n. name_view n s' = (if n = nn_name t then (Some (Json (NameNft_json t)), Some (Text (nn_owner t)))
        else name_view n s))"

lemma same_namesI: "(\<And>n. keeps (name_view n) m) \<Longrightarrow> m s = (r, s') \<Longrightarrow> same_names s s'"
  unfolding same_names_def by (blast intro: keepsD)

lemma same_names_refl [simp]: "same_names s s"
  by (simp add: same_names_def)

lemma same_names_trans: "same_names s s1 \<Longrightarrow> same_names s1 s2 \<Longrightarrow> same_names s s2"
  by (simp add: same_names_def)

lemma wrote_trans:
  "same_names s s1 \<Longrightarrow> wrote t s1 s2 \<Longrightarrow> wrote t s s2" "wrote t s s1 \<Longrightarrow> same_names s1 s2 \<Longrightarrow> wrote t s s2"
  by (simp_all add: same_names_def wrote_def)

lemma put_nft_wrote:
  assumes "put_nft t s = (r, s')"
  shows "r = Inr () \<and> wrote t s s'"
proof -
  obtain s1 where sv: "save_record NameNft_json (nft_key (nn_name t)) t s = (Inr (), s1)"
    by (simp add: save_record_apply)
  with assms have st: "state_set (name_owner_key (nn_name t)) (Text (nn_owner t)) s1 = (r, s')"
    by (simp add: put_nft_def seq_apply)
  have "nft_key n \<noteq> name_owner_key m" "name_owner_key m \<noteq> nft_key n" "name_owner_key n = name_owner_key m \<longleftrightarrow> n = m"
    "nft_key n = nft_key m \<longleftrightarrow> n = m" for n m
    by (simp_all add: nft_key_def name_owner_key_def)
  then have "wrote t s s'"
    using state_get_set [OF st] state_get_set [OF sv [unfolded save_record_def]]
    by (auto simp: wrote_def name_view_def)
  moreover from st have "r = Inr ()" by (simp add: state_set_def act_simps)
  ultimately show ?thesis by simp
qed

lemma get_nft_view: "get_nft E s n = Option.bind (fst (name_view n s)) (\<lambda>v. Option.bind (as_json E v) NameNft_of_json)"
  by (simp add: get_nft_def name_view_def peek_state_get)

lemma same_names_get: "same_names s s' \<Longrightarrow> get_nft E s' n = get_nft E s n"
  by (simp add: get_nft_view same_names_def)

lemma wrote_get: "wrote t s s' \<Longrightarrow> get_nft E s' n = (if n = nn_name t then Some t else get_nft E s n)"
  by (simp add: get_nft_view wrote_def nft_rec.decode_encode)

lemma same_names_owner: "same_names s s' \<Longrightarrow> state_get s' (name_owner_key n) = state_get s (name_owner_key n)"
  by (simp add: same_names_def name_view_def)

lemma wrote_owner: "wrote t s s' \<Longrightarrow>
    state_get s' (name_owner_key n) = (if n = nn_name t then Some (Text (nn_owner t)) else state_get s (name_owner_key n))"
  by (auto simp: wrote_def name_view_def split: if_splits)

text \<open>The life of a name: what each entry may do to its record.\<close>

inductive nft_step :: "identity_entry \<Rightarrow> NameNft option \<Rightarrow> NameNft \<Rightarrow> bool" where
  minted: "nft_step (IdentityNftMint n to m e) None
    \<lparr>nn_name = n, nn_owner = to, nn_minted_epoch = e, nn_transferable = True, nn_recovery = None,
     nn_recovery_seq = 0\<rparr>"
| sold: "nn_transferable t \<Longrightarrow> nft_step (IdentityNftAccept (nn_name t) to e) (Some t)
    (t\<lparr>nn_owner := to, nn_recovery := None, nn_transferable := True\<rparr>)"
| guarded: "nn_transferable t \<Longrightarrow> nft_step (IdentityNftSetRecovery (nn_name t) gs th d b (nn_owner t) e) (Some t)
    (t\<lparr>nn_recovery := Some \<lparr>rc_guardians = gs, rc_threshold = th, rc_destination = d, rc_founder_backstop = b\<rparr>\<rparr>)"
| locked: "nn_recovery t \<noteq> None \<Longrightarrow> nft_step (IdentityNftLock (nn_name t) (nn_owner t) e) (Some t)
    (t\<lparr>nn_transferable := False\<rparr>)"
| unlocked: "\<not> nn_transferable t \<Longrightarrow> nft_step (IdentityNftUnlock (nn_name t) (nn_recovery_seq t) a e) (Some t)
    (t\<lparr>nn_transferable := True, nn_recovery_seq := nn_recovery_seq t + 1\<rparr>)"
| recovered: "nn_recovery t = Some rc \<Longrightarrow> nft_step (IdentityNftRecover (nn_name t) (nn_recovery_seq t) a e) (Some t)
    (t\<lparr>nn_owner := rc_destination rc, nn_recovery_seq := nn_recovery_seq t + 1\<rparr>)"
| backstop: "nn_recovery t = Some rc \<Longrightarrow> \<not> (b \<and> \<not> nn_transferable t) \<Longrightarrow>
    nft_step (IdentityNftSetBackstop (nn_name t) b (nn_owner t) e) (Some t)
      (t\<lparr>nn_recovery := Some (rc\<lparr>rc_founder_backstop := b\<rparr>)\<rparr>)"

inductive_simps nft_step_None: "nft_step x None t"
inductive_cases nft_step_SomeE: "nft_step x (Some t) t'"

text \<open>
  The index and the records agree, and a locked name has a way to be recovered.
\<close>

definition names_ok :: "env \<Rightarrow> chain \<Rightarrow> bool" where
  "names_ok E s \<longleftrightarrow> (\<forall>n t. get_nft E s n = Some t \<longrightarrow>
     nn_name t = n \<and> state_get s (name_owner_key n) = Some (Text (nn_owner t)) \<and>
     (nn_transferable t \<or> nn_recovery t \<noteq> None))"

text \<open>What an entry does to the names.\<close>

definition name_effect :: "env \<Rightarrow> identity_entry \<Rightarrow> chain \<Rightarrow> chain \<Rightarrow> bool" where
  "name_effect E x s s' \<longleftrightarrow> same_names s s' \<or>
     (\<exists>t. nft_step x (get_nft E s (nn_name t)) t \<and> wrote t s s' \<and>
       (get_nft E s (nn_name t) = None \<longrightarrow>
         state_get s (name_owner_key (nn_name t)) = None \<and> state_get s (name_active_key (nn_name t)) = None))"

lemma name_effectI:
  assumes "nft_step x (Some t0) t" and "get_nft E s (nn_name t) = Some t0" and "wrote t s s'"
  shows "name_effect E x s s'"
  unfolding name_effect_def by (rule disjI2) (use assms in \<open>intro exI [of _ t]; simp\<close>)

lemma mint_effect:
  assumes "apply_nft_mint E n to m e s = (r, s')"
  shows "name_effect E (IdentityNftMint n to m e) s s'"
proof -
  let ?t = "\<lparr>nn_name = n, nn_owner = to, nn_minted_epoch = e, nn_transferable = True, nn_recovery = None,
     nn_recovery_seq = 0\<rparr>"
  consider "s' = s" | s1 where "get_nft E s n = None" "state_get s (name_owner_key n) = None"
      "state_get s (name_active_key n) = None" "put_nft ?t s = (Inr (), s1)"
      "seq (state_set (held_key to n) (Text ''1'')) (bump_count E) s1 = (r, s')"
    using assms put_nft_wrote [of ?t s]
    by (auto simp: apply_nft_mint_def Let_def act_simps split: if_splits prod.splits sum.splits)
  then show ?thesis
  proof cases
    case 2
    have "same_names s1 s'"
      by (rule same_namesI [where m = "seq (state_set (held_key to n) (Text ''1'')) (bump_count E)", OF _ 2(5)])
        (intro keeps_intros; simp add: identity_keys)
    then have "wrote ?t s s'"
      using put_nft_wrote [OF 2(4)] wrote_trans(2) by blast
    with 2(1-3) show ?thesis
      unfolding name_effect_def by (intro disjI2 exI [of _ ?t]) (simp add: nft_step_None)
  qed (simp add: name_effect_def)
qed

definition offer_good :: "PendingOffer \<Rightarrow> NameNft \<Rightarrow> string \<Rightarrow> u64 \<Rightarrow> bool" where
  "offer_good p t to e \<longleftrightarrow> po_to p = to \<and> \<not> e > sat_add (po_offered_epoch p) OFFER_EXPIRY_EPOCHS \<and>
     nn_transferable t \<and> nn_owner t = po_from p"

abbreviation sold_nft :: "NameNft \<Rightarrow> string \<Rightarrow> NameNft" where
  "sold_nft t to \<equiv> t\<lparr>nn_owner := to, nn_recovery := None, nn_transferable := True\<rparr>"

abbreviation after_sale :: "env \<Rightarrow> string \<Rightarrow> string \<Rightarrow> string \<Rightarrow> unit chain_act" where
  "after_sale E a n to \<equiv> seq (state_set (held_key to n) (Text ''1''))
    (seq (clear_primary E a n) (seq (state_delete (offer_key n)) (strip_holder_scoped E n)))"

lemma apply_nft_accept_good:
  assumes "get_offer E s n = Some p" "get_nft E s n = Some t" "offer_good p t to e"
  shows "apply_nft_accept E n to e s = seq (state_delete (held_key (po_from p) n))
    (seq (put_nft (sold_nft t to)) (after_sale E (po_from p) n to)) s"
  using assms
  by (simp add: apply_nft_accept_def offer_good_def andThen_apply seq_apply [of "ensure _ _"] reads_apply need_apply
      ensure_apply)

lemma drop_offer_Inl: "drop_offer n err s = (r, s') \<Longrightarrow> r = Inl err"
  by (auto simp: drop_offer_def state_delete_def act_simps)

lemma apply_nft_accept_bad:
  assumes run: "apply_nft_accept E n to e s = (r, s')"
    and bad: "\<nexists>p t. get_offer E s n = Some p \<and> get_nft E s n = Some t \<and> offer_good p t to e"
  shows "(\<exists>err. r = Inl err) \<and> (s' = s \<or> (\<exists>err. drop_offer n err s = (r, s')))"
  using assms
  by (cases "get_offer E s n"; cases "get_nft E s n")
    (auto simp: apply_nft_accept_def offer_good_def andThen_apply seq_apply [of "ensure _ _"] reads_apply need_apply
      ensure_apply dest: drop_offer_Inl split: if_splits)

lemma accept_effect:
  assumes ok: "names_ok E s" and run: "apply_nft_accept E n to e s = (r, s')"
  shows "name_effect E (IdentityNftAccept n to e) s s'"
proof (cases "\<exists>p t. get_offer E s n = Some p \<and> get_nft E s n = Some t \<and> offer_good p t to e")
  case False
  from apply_nft_accept_bad [OF run False] show ?thesis
    using same_namesI [OF keeps_view_helpers(2)] by (auto simp: name_effect_def)
next
  case True
  then obtain p t where t: "get_offer E s n = Some p" "get_nft E s n = Some t" "offer_good p t to e" by blast
  let ?held = "state_delete (held_key (po_from p) n)"
  let ?after = "after_sale E (po_from p) n to"
  obtain s1 where d: "?held s = (Inr (), s1)"
    by (simp add: state_delete_def act_simps)
  obtain s2 where w: "put_nft (sold_nft t to) s1 = (Inr (), s2)"
    using put_nft_wrote by (cases "put_nft (sold_nft t to) s1") blast
  from run d w have after: "?after s2 = (r, s')"
    by (simp add: apply_nft_accept_good [OF t] seq_apply [of ?held] seq_apply [of "put_nft _"])
  have "same_names s s1"
    by (rule same_namesI [where m = ?held, OF _ d]) (intro keeps_intros; simp add: identity_keys)
  moreover have "same_names s2 s'"
    by (rule same_namesI [where m = ?after, OF _ after]) (intro keeps_intros; simp add: identity_keys)
  ultimately have "wrote (sold_nft t to) s s'"
    using put_nft_wrote [OF w] wrote_trans by blast
  moreover have "nn_name t = n" using ok t(2) by (simp add: names_ok_def)
  ultimately show ?thesis
    using sold [of t to e] t by (intro name_effectI [of _ t "sold_nft t to"]) (simp_all add: offer_good_def)
qed

lemma names_okD: "names_ok E s \<Longrightarrow> get_nft E s n = Some t \<Longrightarrow> n = nn_name t"
  by (simp add: names_ok_def)

lemma name_effect_refl [simp]: "name_effect E x s s"
  by (simp add: name_effect_def)

lemma put_effect:
  "get_nft E s (nn_name t) = Some t \<Longrightarrow> nft_step x (Some t) u \<Longrightarrow> nn_name u = nn_name t \<Longrightarrow>
    put_nft u s = (r, s') \<Longrightarrow> name_effect E x s s'"
  using put_nft_wrote by (metis name_effectI)

lemma set_recovery_effect:
  assumes ok: "names_ok E s" and run: "apply_nft_set_recovery E n c gs th d b s = (r, s')"
  shows "name_effect E (IdentityNftSetRecovery n gs th d b c e) s s'"
proof (cases "get_nft E s n")
  case (Some t)
  have v: "snd (validate_recovery gs th d s) = s"
    by (simp add: validate_recovery_def act_simps split: option.split)
  show ?thesis
    using run v Some unfolding names_okD [OF ok Some]
    by (cases "validate_recovery gs th d s")
      (auto simp: apply_nft_set_recovery_def act_simps intro: put_effect [OF _ guarded] split: if_splits sum.splits)
qed (use run in \<open>simp add: apply_nft_set_recovery_def act_simps\<close>)

lemma lock_effect:
  assumes ok: "names_ok E s" and run: "apply_nft_lock E n c s = (r, s')"
  shows "name_effect E (IdentityNftLock n c e) s s'"
proof (cases "get_nft E s n")
  case (Some t)
  show ?thesis
    using run Some unfolding names_okD [OF ok Some]
    by (auto simp: apply_nft_lock_def act_simps intro: put_effect [OF _ locked] split: if_splits)
qed (use run in \<open>simp add: apply_nft_lock_def act_simps\<close>)

lemma unlock_effect:
  assumes ok: "names_ok E s" and run: "apply_nft_unlock E n q s = (r, s')"
  shows "name_effect E (IdentityNftUnlock n q a e) s s'"
proof (cases "get_nft E s n")
  case (Some t)
  show ?thesis
    using run Some unfolding names_okD [OF ok Some]
    by (auto simp: apply_nft_unlock_def act_simps intro: put_effect [OF _ unlocked] split: if_splits)
qed (use run in \<open>simp add: apply_nft_unlock_def act_simps\<close>)

lemma backstop_effect:
  assumes ok: "names_ok E s" and run: "apply_nft_set_backstop E n c b s = (r, s')"
  shows "name_effect E (IdentityNftSetBackstop n b c e) s s'"
proof (cases "get_nft E s n")
  case (Some t)
  show ?thesis
    using run Some unfolding names_okD [OF ok Some]
    by (auto simp: apply_nft_set_backstop_def act_simps intro: put_effect [OF _ backstop] split: if_splits option.splits)
qed (use run in \<open>simp add: apply_nft_set_backstop_def act_simps\<close>)

abbreviation recovered_nft :: "NameNft \<Rightarrow> Recovery \<Rightarrow> NameNft" where
  "recovered_nft t rc \<equiv> t\<lparr>nn_owner := rc_destination rc, nn_recovery_seq := nn_recovery_seq t + 1\<rparr>"

lemma recover_wrote:
  assumes t: "get_nft E s n = Some t" "nn_recovery t = Some rc"
    and run: "apply_nft_recover E n (nn_recovery_seq t) s = (r, s')"
  shows "wrote (recovered_nft t rc) s s'"
proof (cases "rc_destination rc = nn_owner t")
  case True
  with run t have "put_nft (t\<lparr>nn_recovery_seq := nn_recovery_seq t + 1\<rparr>) s = (r, s')"
    by (simp add: apply_nft_recover_def act_simps)
  moreover have "t\<lparr>nn_recovery_seq := nn_recovery_seq t + 1\<rparr> = recovered_nft t rc"
    using True by simp
  ultimately show ?thesis using put_nft_wrote by metis
next
  case False
  let ?held = "state_delete (held_key (nn_owner t) n)"
  let ?rest = "seq (state_set (held_key (rc_destination rc) n) (Text ''1''))
    (seq (clear_primary E (nn_owner t) n) (state_delete (offer_key n)))"
  obtain s1 where d: "?held s = (Inr (), s1)"
    by (simp add: state_delete_def act_simps)
  obtain s2 where w: "put_nft (recovered_nft t rc) s1 = (Inr (), s2)"
    using put_nft_wrote by (cases "put_nft (recovered_nft t rc) s1") blast
  from run t False d w have rest: "?rest s2 = (r, s')"
    by (simp add: apply_nft_recover_def Let_def andThen_apply seq_apply reads_apply need_apply ensure_apply)
  have "same_names s s1"
    by (rule same_namesI [where m = ?held, OF _ d]) (intro keeps_intros; simp add: identity_keys)
  moreover have "same_names s2 s'"
    by (rule same_namesI [where m = ?rest, OF _ rest]) (intro keeps_intros; simp add: identity_keys)
  ultimately show ?thesis
    using put_nft_wrote [OF w] wrote_trans by blast
qed

lemma recover_effect:
  assumes ok: "names_ok E s" and run: "apply_nft_recover E n q s = (r, s')"
  shows "name_effect E (IdentityNftRecover n q a e) s s'"
proof (cases "\<exists>t rc. get_nft E s n = Some t \<and> nn_recovery t = Some rc \<and> nn_recovery_seq t = q")
  case False
  with run show ?thesis
    by (auto simp: apply_nft_recover_def act_simps split: option.splits if_splits)
next
  case True
  then obtain t rc where t: "get_nft E s n = Some t" "nn_recovery t = Some rc" "nn_recovery_seq t = q" by blast
  then show ?thesis
    using recovered [OF t(2), of a e] names_okD [OF ok t(1)] recover_wrote [OF t(1,2)] run
    by (intro name_effectI [of _ t "recovered_nft t rc"]) simp_all
qed

text \<open>The bookkeeping of the actor at the head of an arm writes the liveness record and the account only.\<close>

definition quiet :: "chain \<Rightarrow> chain \<Rightarrow> bool" where
  "quiet s s0 \<longleftrightarrow> (\<forall>k. \<not> prefix ''alive:'' k \<longrightarrow> state_get s0 k = state_get s k)"

lemma quiet_names: "quiet s s0 \<Longrightarrow> same_names s s0"
  by (simp add: quiet_def same_names_def name_view_def identity_keys)

lemma quiet_trans: "quiet s s0 \<Longrightarrow> quiet s0 s1 \<Longrightarrow> quiet s s1"
  by (simp add: quiet_def)

lemma names_ok_same: "same_names s s' \<Longrightarrow> names_ok E s' \<longleftrightarrow> names_ok E s"
  by (simp add: names_ok_def same_names_get same_names_owner)

lemma touch_quiet: "touch_alive E a e s = (r, s0) \<Longrightarrow> quiet s s0"
  by (simp add: quiet_def touch_alive_state_get)

lemma ensure_quiet: "ensure_account a e s = (r, s0) \<Longrightarrow> quiet s s0"
  unfolding quiet_def state_get_def by (drule keepsD [OF keeps_ensure_account(3)]) simp

lemma effect_quiet:
  assumes "quiet s s0" and "name_effect E x s0 s'"
  shows "name_effect E x s s'"
proof -
  note q = quiet_names [OF assms(1)]
  have "state_get s0 (name_active_key n) = state_get s (name_active_key n)" for n
    using assms(1) by (simp add: quiet_def name_active_key_def)
  with assms(2) show ?thesis
    unfolding name_effect_def using q wrote_trans(1) [OF q] same_names_trans [OF q]
    by (auto simp: same_names_get [OF q] same_names_owner [OF q])
qed

lemma effect_same: "(\<And>n. keeps (name_view n) m) \<Longrightarrow> m s = (r, s') \<Longrightarrow> name_effect E x s s'"
  using same_namesI unfolding name_effect_def by blast

lemma touch_run:
  assumes "seq (touch_alive E a e) m s = (r, s')"
  obtains s0 where "quiet s s0" "m s0 = (r, s')"
proof -
  obtain s0 where t: "touch_alive E a e s = (Inr (), s0)"
    using touch_alive_result by blast
  with assms have "m s0 = (r, s')" by (simp add: seq_apply)
  with touch_quiet [OF t] show ?thesis by (rule that)
qed

lemma effect_actor:
  assumes "seq (touch_alive E a e) m s = (r, s')"
    and "\<And>s0. quiet s s0 \<Longrightarrow> m s0 = (r, s') \<Longrightarrow> name_effect E x s0 s'"
  shows "name_effect E x s s'"
  using assms(1) by (rule touch_run) (blast intro: effect_quiet assms(2))

lemma effect_account:
  assumes "seq (ensure_account a e) m s = (r, s')"
    and "\<And>s0. quiet s s0 \<Longrightarrow> m s0 = (r, s') \<Longrightarrow> name_effect E x s0 s'"
  shows "name_effect E x s s'"
proof -
  obtain s0 where t: "ensure_account a e s = (Inr (), s0)"
    using ensure_account_result by blast
  with assms(1) have "m s0 = (r, s')" by (simp add: seq_apply)
  with ensure_quiet [OF t] assms(2) show ?thesis by (blast intro: effect_quiet)
qed

lemma names_ok_quiet: "names_ok E s \<Longrightarrow> quiet s s0 \<Longrightarrow> names_ok E s0"
  using names_ok_same quiet_names by blast

lemma entry_effect:
  assumes ok: "names_ok E s" and run: "apply_identity_entry E x s = (r, s')"
  shows "name_effect E x s s'"
proof (cases x)
  case (IdentityNftMint n to m e)
  from run show ?thesis
    unfolding IdentityNftMint apply_identity_entry.simps
    by (elim effect_actor effect_account) (rule mint_effect)
next
  case (IdentityNftAccept n to e)
  from run show ?thesis
    unfolding IdentityNftAccept apply_identity_entry.simps
    by (elim effect_actor effect_account) (rule accept_effect [OF names_ok_quiet [OF names_ok_quiet [OF ok]]])
next
  case (IdentityNftSetRecovery n gs th d b c e)
  from run show ?thesis
    unfolding IdentityNftSetRecovery apply_identity_entry.simps
    by (elim effect_actor effect_account) (rule set_recovery_effect [OF names_ok_quiet [OF names_ok_quiet [OF ok]]])
next
  case (IdentityNftLock n c e)
  from run show ?thesis
    unfolding IdentityNftLock apply_identity_entry.simps
    by (elim effect_actor) (rule lock_effect [OF names_ok_quiet [OF ok]])
next
  case (IdentityNftUnlock n q c e)
  from run show ?thesis
    unfolding IdentityNftUnlock apply_identity_entry.simps
    by (elim effect_actor) (rule unlock_effect [OF names_ok_quiet [OF ok]])
next
  case (IdentityNftRecover n q c e)
  from run show ?thesis
    unfolding IdentityNftRecover apply_identity_entry.simps
    by (elim effect_actor) (rule recover_effect [OF names_ok_quiet [OF ok]])
next
  case (IdentityNftSetBackstop n b c e)
  from run show ?thesis
    unfolding IdentityNftSetBackstop apply_identity_entry.simps
    by (elim effect_actor) (rule backstop_effect [OF names_ok_quiet [OF ok]])
qed (rule effect_same [where m = "apply_identity_entry E x", OF _ run], simp, intro keeps_intros keeps_view_ops)+

lemma names_ok_entry:
  assumes ok: "names_ok E s" and run: "apply_identity_entry E x s = (r, s')"
  shows "names_ok E s'"
  using entry_effect [OF assms] unfolding name_effect_def
proof (elim disjE exE conjE)
  fix t
  assume st: "nft_step x (get_nft E s (nn_name t)) t" and w: "wrote t s s'"
  have "nn_transferable t \<or> nn_recovery t \<noteq> None"
    using st by (cases rule: nft_step.cases) simp_all
  then show ?thesis
    using ok by (auto simp: names_ok_def wrote_get [OF w] wrote_owner [OF w])
qed (use ok names_ok_same in blast)

fun run_identity :: "env \<Rightarrow> identity_entry list \<Rightarrow> chain \<Rightarrow> chain" where
  "run_identity E [] s = s"
| "run_identity E (x # xs) s = run_identity E xs (snd (apply_identity_entry E x s))"

text \<open>A name that exists goes on existing, along the steps of its entries.\<close>

lemma entry_follows:
  assumes ok: "names_ok E s" and t: "get_nft E s n = Some t" and run: "apply_identity_entry E x s = (r, s')"
  shows "get_nft E s' n = Some t \<or> (\<exists>u. get_nft E s' n = Some u \<and> nft_step x (Some t) u)"
  using entry_effect [OF ok run] t unfolding name_effect_def
  by (auto simp: same_names_get wrote_get)

section \<open>Locked names\<close>

definition unlocks :: "string \<Rightarrow> identity_entry \<Rightarrow> bool" where
  "unlocks n x \<longleftrightarrow> (case x of IdentityNftUnlock m _ _ _ \<Rightarrow> m = n | _ \<Rightarrow> False)"

definition recovers :: "string \<Rightarrow> identity_entry \<Rightarrow> bool" where
  "recovers n x \<longleftrightarrow> (case x of IdentityNftRecover m _ _ _ \<Rightarrow> m = n | _ \<Rightarrow> False)"

text \<open>
  The part of a recovery configuration that is frozen while the name is locked; the backstop may only be
  dropped.
\<close>

definition no_looser :: "Recovery \<Rightarrow> Recovery \<Rightarrow> bool" where
  "no_looser rc rc' \<longleftrightarrow> rc_guardians rc' = rc_guardians rc \<and> rc_threshold rc' = rc_threshold rc \<and>
     rc_destination rc' = rc_destination rc \<and> (rc_founder_backstop rc' \<longrightarrow> rc_founder_backstop rc)"

lemma locked_step:
  assumes "nft_step x (Some t) u" and "\<not> nn_transferable t" and "nn_recovery t = Some rc"
    and "\<not> unlocks (nn_name t) x"
  shows "\<not> nn_transferable u \<and> (\<exists>rc'. nn_recovery u = Some rc' \<and> no_looser rc rc') \<and>
    nn_owner u = (if recovers (nn_name t) x then rc_destination rc else nn_owner t)"
  using assms by (cases rule: nft_step_SomeE) (auto simp: unlocks_def recovers_def no_looser_def)

definition loosens :: "identity_entry \<Rightarrow> (string \<times> u64) option" where
  "loosens x = (case x of
       IdentityNftUnlock n q _ _ \<Rightarrow> Some (n, q)
     | IdentityNftRecover n q _ _ \<Rightarrow> Some (n, q)
     | _ \<Rightarrow> None)"

lemma seq_step:
  "nft_step x (Some t) u \<Longrightarrow> nn_recovery_seq u = nn_recovery_seq t \<or> nn_recovery_seq u = nn_recovery_seq t + 1"
  by (cases rule: nft_step_SomeE) auto

lemma seq_after:
  assumes "names_ok E s" and "get_nft E s n = Some t"
  shows "\<exists>u k. get_nft E (run_identity E xs s) n = Some u \<and> k \<le> length xs \<and>
    nn_recovery_seq u = nn_recovery_seq t + word_of_nat k"
  using assms
proof (induction xs arbitrary: s t)
  case Nil
  then show ?case by auto
next
  case (Cons x xs)
  obtain r s' where run: "apply_identity_entry E x s = (r, s')"
    by (cases "apply_identity_entry E x s")
  have "\<exists>v j. get_nft E s' n = Some v \<and> nn_recovery_seq v = nn_recovery_seq t + word_of_nat j \<and> j \<le> 1"
    using entry_follows [OF Cons.prems run]
  proof (elim disjE exE conjE)
    fix v
    assume v: "get_nft E s' n = Some v" "nft_step x (Some t) v"
    from seq_step [OF v(2)] v(1) show ?thesis
      by (elim disjE) (rule exI [of _ v], rule exI [of _ 0], simp, rule exI [of _ v], rule exI [of _ 1], simp)
  qed (rule exI [of _ t], rule exI [of _ 0], simp)
  then obtain v j where v: "get_nft E s' n = Some v" "nn_recovery_seq v = nn_recovery_seq t + word_of_nat j" "j \<le> 1"
    by blast
  from Cons.IH [OF names_ok_entry [OF Cons.prems(1) run] v(1)] obtain u k where
    "get_nft E (run_identity E xs s') n = Some u" "k \<le> length xs" "nn_recovery_seq u = nn_recovery_seq v + word_of_nat k"
    by blast
  with v run show ?case
    by (intro exI [of _ u] exI [of _ "j + k"]) simp
qed

text \<open>A loosening entry that returned found its number, and counted on.\<close>

lemma quiet_get: "quiet s s0 \<Longrightarrow> get_nft E s0 n = get_nft E s n"
  by (simp add: same_names_get quiet_names)

lemma loosening_needs_seq:
  assumes ok: "names_ok E s" and x: "loosens x = Some (n, q)"
    and run: "apply_identity_entry E x s = (Inr (), s')"
  shows "(\<exists>t. get_nft E s n = Some t \<and> nn_recovery_seq t = q) \<and>
    (\<exists>u. get_nft E s' n = Some u \<and> nn_recovery_seq u = q + 1)"
proof (cases x)
  case (IdentityNftUnlock m p a e)
  with x have xs: "m = n" "p = q" by (simp_all add: loosens_def)
  from run obtain s0 where q: "quiet s s0" and u: "apply_nft_unlock E n q s0 = (Inr (), s')"
    unfolding IdentityNftUnlock xs apply_identity_entry.simps by (rule touch_run)
  from u obtain t where t: "get_nft E s0 n = Some t" "nn_recovery_seq t = q"
    "put_nft (t\<lparr>nn_transferable := True, nn_recovery_seq := nn_recovery_seq t + 1\<rparr>) s0 = (Inr (), s')"
    by (auto simp: apply_nft_unlock_def act_simps split: option.splits if_splits)
  have "nn_name t = n" using names_okD [OF names_ok_quiet [OF ok q] t(1)] by simp
  with t put_nft_wrote [OF t(3)] show ?thesis
    by (auto simp: quiet_get [OF q] wrote_get)
next
  case (IdentityNftRecover m p a e)
  with x have xs: "m = n" "p = q" by (simp_all add: loosens_def)
  from run obtain s0 where q: "quiet s s0" and u: "apply_nft_recover E n q s0 = (Inr (), s')"
    unfolding IdentityNftRecover xs apply_identity_entry.simps by (rule touch_run)
  from u obtain t rc where t: "get_nft E s0 n = Some t" "nn_recovery t = Some rc" "q = nn_recovery_seq t"
    by (auto simp: apply_nft_recover_def act_simps split: option.splits if_splits)
  have "nn_name t = n" using names_okD [OF names_ok_quiet [OF ok q] t(1)] by simp
  with t recover_wrote [OF t(1,2) u [unfolded t(3)]] show ?thesis
    by (auto simp: quiet_get [OF q] wrote_get)
qed (use x in \<open>simp_all add: loosens_def\<close>)

section \<open>Theorems\<close>

definition demo_nft :: NameNft where
  "demo_nft = \<lparr>nn_name = ''zed'', nn_owner = ''alice'', nn_minted_epoch = 1, nn_transferable = False,
     nn_recovery = Some \<lparr>rc_guardians = [''gina'', ''gus''], rc_threshold = 2, rc_destination = ''vault'',
       rc_founder_backstop = False\<rparr>, nn_recovery_seq = 4\<rparr>"

definition demo_identity_chain :: chain where
  "demo_identity_chain = snd (put_nft demo_nft empty_chain)"

lemma demo_nft_found: "get_nft demo_env demo_identity_chain n = (if n = ''zed'' then Some demo_nft else None)"
proof -
  have "wrote demo_nft empty_chain demo_identity_chain"
    using put_nft_wrote [of demo_nft empty_chain] by (simp add: demo_identity_chain_def) (metis prod.collapse)
  moreover have "get_nft demo_env empty_chain n = None"
    by (simp add: get_nft_def peek_state_get state_get_def empty_chain_def)
  ultimately show ?thesis by (simp add: wrote_get demo_nft_def)
qed

lemma demo_names_ok: "names_ok demo_env demo_identity_chain"
proof -
  have "wrote demo_nft empty_chain demo_identity_chain"
    using put_nft_wrote [of demo_nft empty_chain] by (simp add: demo_identity_chain_def) (metis prod.collapse)
  from wrote_owner [OF this] show ?thesis
    by (auto simp: names_ok_def demo_nft_found demo_nft_def split: if_splits)
qed

text \<open>
  (C11) A locked name stays where it is or goes where its owner said in advance. Whatever identity
  entries follow, by anyone and in any order, as long as none of them unlocks the name: it stays
  locked, its guardians, threshold and destination stay as they are, the founders' backstop may be switched off
  but is not switched on, and the name belongs to its owner or to the pinned destination; to its owner, if no entry
  recovers it.
\<close>

theorem locked_name_pinned:
  assumes "names_ok E s" and "get_nft E s n = Some t" and "\<not> nn_transferable t" and "nn_recovery t = Some rc"
    and "\<forall>x \<in> set xs. \<not> unlocks n x"
  shows "\<exists>u rc'. get_nft E (run_identity E xs s) n = Some u \<and> \<not> nn_transferable u \<and>
    nn_recovery u = Some rc' \<and> no_looser rc rc' \<and>
    (nn_owner u = nn_owner t \<or> nn_owner u = rc_destination rc) \<and>
    ((\<forall>x \<in> set xs. \<not> recovers n x) \<longrightarrow> nn_owner u = nn_owner t)"
  using assms
proof (induction xs arbitrary: s t rc)
  case Nil
  then show ?case by (auto simp: no_looser_def)
next
  case (Cons x xs)
  obtain r s' where run: "apply_identity_entry E x s = (r, s')"
    by (cases "apply_identity_entry E x s")
  have name: "nn_name t = n" using names_okD [OF Cons.prems(1,2)] by simp
  obtain v rv where v: "get_nft E s' n = Some v" "\<not> nn_transferable v" "nn_recovery v = Some rv" "no_looser rc rv"
    "nn_owner v = nn_owner t \<or> recovers n x \<and> nn_owner v = rc_destination rc"
    using entry_follows [OF Cons.prems(1,2) run]
  proof (elim disjE exE conjE)
    fix v
    assume "get_nft E s' n = Some v" "nft_step x (Some t) v"
    with locked_step [of x t v rc] Cons.prems name that show thesis by (auto split: if_splits)
  qed (use Cons.prems(3,4) that in \<open>simp add: no_looser_def\<close>)
  from Cons.IH [OF names_ok_entry [OF Cons.prems(1) run] v(1-3)] Cons.prems(5) obtain u rc' where
    "get_nft E (run_identity E xs s') n = Some u" "\<not> nn_transferable u" "nn_recovery u = Some rc'" "no_looser rv rc'"
    "nn_owner u = nn_owner v \<or> nn_owner u = rc_destination rv"
    "(\<forall>x \<in> set xs. \<not> recovers n x) \<longrightarrow> nn_owner u = nn_owner v"
    by auto
  with v run show ?case by (auto simp: no_looser_def)
qed

theorem locked_name_pinned_witness:
  "\<exists>u. get_nft demo_env (run_identity demo_env
      [IdentityNftTransfer ''zed'' ''alice'' ''mallory'' 5, IdentityNftAccept ''zed'' ''mallory'' 6]
      demo_identity_chain) ''zed'' = Some u \<and> nn_owner u = ''alice''"
  using locked_name_pinned [OF demo_names_ok, of "''zed''" demo_nft _
      "[IdentityNftTransfer ''zed'' ''alice'' ''mallory'' 5, IdentityNftAccept ''zed'' ''mallory'' 6]"]
  by (auto simp: demo_nft_found demo_nft_def unlocks_def recovers_def)

text \<open>
  An authorisation of the guardians is used at most once. The number it names is the one the record
  held when it was used; after that, over any sequence of fewer than \<open>2 ^ 64 - 1\<close> entries, every
  unlock and every recovery of the name that carries the number is refused.
\<close>

theorem authorisation_used_once:
  assumes "names_ok E s" and "loosens x = Some (n, q)" and "apply_identity_entry E x s = (Inr (), s1)"
    and "length xs < 2 ^ 64 - 1" and "loosens y = Some (n, q)"
  shows "\<exists>err. fst (apply_identity_entry E y (run_identity E xs s1)) = Inl err"
proof -
  note ok1 = names_ok_entry [OF assms(1,3)]
  have ok: "names_ok E (run_identity E ys s2)" if "names_ok E s2" for ys s2
    using that by (induction ys arbitrary: s2) (simp_all, metis names_ok_entry prod.collapse)
  obtain u where u: "get_nft E s1 n = Some u" "nn_recovery_seq u = q + 1"
    using loosening_needs_seq [OF assms(1-3)] by blast
  from seq_after [OF ok1 u(1), of xs] obtain v k where
    v: "get_nft E (run_identity E xs s1) n = Some v" "k \<le> length xs" "nn_recovery_seq v = q + 1 + word_of_nat k"
    using u(2) by auto
  have "nn_recovery_seq v \<noteq> q"
  proof
    assume "nn_recovery_seq v = q"
    with v(3) have "(word_of_nat (Suc k) :: u64) = 0" by (simp add: ac_simps)
    then have "2 ^ LENGTH(64) dvd Suc k" by (simp only: word_of_nat_eq_0_iff)
    with v(2) assms(4) show False by (auto dest: dvd_imp_le)
  qed
  with v(1) loosening_needs_seq [OF ok [OF ok1] assms(5)] show ?thesis
    by (cases "apply_identity_entry E y (run_identity E xs s1)";
        cases "fst (apply_identity_entry E y (run_identity E xs s1))") fastforce+
qed

lemma put_nft_returns: "\<exists>s'. put_nft t s = (Inr (), s')"
  using put_nft_wrote by (metis prod.collapse)

lemma recover_returns:
  assumes "get_nft E s n = Some t" "nn_recovery t = Some rc"
  shows "\<exists>s'. apply_identity_entry E (IdentityNftRecover n (nn_recovery_seq t) a e) s = (Inr (), s')"
proof -
  obtain s0 where s0: "touch_alive E a e s = (Inr (), s0)"
    using touch_alive_result by blast
  obtain s1 where d: "state_delete (held_key (nn_owner t) n) s0 = (Inr (), s1)"
    by (simp add: state_delete_def act_simps)
  obtain s2 where w: "put_nft (recovered_nft t rc) s1 = (Inr (), s2)"
    using put_nft_returns by blast
  obtain s3 where w': "put_nft (t\<lparr>nn_recovery_seq := nn_recovery_seq t + 1\<rparr>) s0 = (Inr (), s3)"
    using put_nft_returns by blast
  have "get_nft E s0 n = Some t"
    using assms(1) quiet_get [OF touch_quiet [OF s0]] by simp
  with assms(2) s0 d w w' show ?thesis
    by (simp add: apply_nft_recover_def Let_def andThen_apply seq_apply reads_apply need_apply ensure_apply)
      (simp add: clear_primary_def act_simps state_set_def state_delete_def)
qed

theorem authorisation_used_once_witness:
  "\<exists>s1 err. apply_identity_entry demo_env (IdentityNftRecover ''zed'' 4 ''gina'' 9) demo_identity_chain = (Inr (), s1) \<and>
    fst (apply_identity_entry demo_env (IdentityNftUnlock ''zed'' 4 ''gus'' 12)
      (run_identity demo_env [IdentityNftLock ''zed'' ''vault'' 10] s1)) = Inl err"
proof -
  obtain s1 where s1: "apply_identity_entry demo_env (IdentityNftRecover ''zed'' 4 ''gina'' 9) demo_identity_chain = (Inr (), s1)"
    using recover_returns [of demo_env demo_identity_chain "''zed''" demo_nft _ "''gina''" 9]
    by (auto simp: demo_nft_found demo_nft_def)
  have "\<exists>err. fst (apply_identity_entry demo_env (IdentityNftUnlock ''zed'' 4 ''gus'' 12)
      (run_identity demo_env [IdentityNftLock ''zed'' ''vault'' 10] s1)) = Inl err"
    by (rule authorisation_used_once [OF demo_names_ok _ s1]) (simp_all add: loosens_def)
  with s1 show ?thesis by blast
qed

section \<open>Credentials on a name that is sold\<close>

definition sbts_ok :: "env \<Rightarrow> chain \<Rightarrow> bool" where
  "sbts_ok E s \<longleftrightarrow> (\<forall>i t. get_sbt E s i = Some t \<longrightarrow> sb_token_id t = i)"

definition holder_scoped :: "env \<Rightarrow> chain \<Rightarrow> string \<Rightarrow> bool" where
  "holder_scoped E s i \<longleftrightarrow> (\<exists>t. get_sbt E s i = Some t \<and> sb_class t = HolderScoped)"

lemma tok_key_eq [simp]: "tok_key i = tok_key j \<longleftrightarrow> i = j" "on_key n i \<noteq> tok_key j"
  "on_key n i = on_key n j \<longleftrightarrow> i = j"
  by (simp_all add: tok_key_def on_key_def)

lemma strip_one_effect:
  assumes ok: "sbts_ok E s" and run: "strip_one E n i s = (r, s')"
  shows "r = Inr () \<and> sbts_ok E s' \<and> (\<forall>j. holder_scoped E s' j \<longleftrightarrow> holder_scoped E s j) \<and>
    (\<forall>j. state_get s' (on_key n j) = (if j = i \<and> holder_scoped E s i then None else state_get s (on_key n j)))"
proof (cases "holder_scoped E s i")
  case False
  with run have "r = Inr ()" "s' = s"
    by (auto simp: strip_one_def act_simps holder_scoped_def split: option.splits if_splits)
  with ok False show ?thesis by simp
next
  case True
  then obtain t where t: "get_sbt E s i = Some t" "sb_class t = HolderScoped" "sb_token_id t = i"
    using ok by (auto simp: holder_scoped_def sbts_ok_def)
  obtain s1 where p: "save_record SoulboundToken_json (tok_key i) (t\<lparr>sb_stripped := True\<rparr>) s = (Inr (), s1)"
    by (simp add: save_record_apply)
  have d: "state_delete (on_key n i) s1 = (r, s')"
    using run t p by (simp add: strip_one_def put_sbt_def act_simps)
  have "get_sbt E s1 j = (if j = i then Some (t\<lparr>sb_stripped := True\<rparr>) else get_sbt E s j)" for j
    using sbt_rec.peek_save [OF p, of E] peek_save_other [OF p, of "tok_key j" E SoulboundToken_of_json] by (simp add: get_sbt_def)
  moreover have "get_sbt E s' j = get_sbt E s1 j" for j
    unfolding get_sbt_def
    by (rule peek_cong) (simp add: state_get_delete [OF d] tok_key_eq(2) [symmetric])
  moreover have "state_get s' (on_key n j) = (if j = i then None else state_get s (on_key n j))" for j
    using state_get_set [OF p [unfolded save_record_def]] by (simp add: state_get_delete [OF d])
  moreover have "r = Inr ()" using d by (simp add: state_delete_def act_simps)
  ultimately show ?thesis
    using ok t True by (auto simp: sbts_ok_def holder_scoped_def)
qed

lemma strip_each:
  assumes "sbts_ok E s" and "each (strip_one E n) is s = (r, s')"
  shows "(\<forall>j. holder_scoped E s' j \<longleftrightarrow> holder_scoped E s j) \<and>
    (\<forall>j. state_get s' (on_key n j) = (if j \<in> set is \<and> holder_scoped E s j then None else state_get s (on_key n j)))"
  using assms
proof (induction "is" arbitrary: s)
  case Nil
  then show ?case by (simp add: act_simps)
next
  case (Cons i "is")
  obtain r1 s1 where one: "strip_one E n i s = (r1, s1)"
    by (cases "strip_one E n i s")
  note e = strip_one_effect [OF Cons.prems(1) one]
  with Cons.prems(2) one have "each (strip_one E n) is s1 = (r, s')"
    by (simp add: seq_apply)
  from Cons.IH [OF _ this] e show ?case by auto
qed

lemma after_last_colon_on_key: "CHR '':'' \<notin> set i \<Longrightarrow> after_last_colon (on_key n i) = i"
proof -
  assume i: "CHR '':'' \<notin> set i"
  have "takeWhile (\<lambda>c. c \<noteq> CHR '':'') (rev i @ CHR '':'' # xs) = rev i" for xs
    using i by (subst takeWhile_append2) auto
  then show ?thesis by (simp add: after_last_colon_def on_key_def)
qed

lemma after_last_colon_free: "CHR '':'' \<notin> set (after_last_colon k)"
  by (auto simp: after_last_colon_def dest: set_takeWhileD)

lemma active_on_mem:
  assumes "wf_chain s" and "state_get s (on_key n i) \<noteq> None" and "CHR '':'' \<notin> set i"
  shows "i \<in> set (active_on s n)"
proof -
  obtain v where "state_get s (on_key n i) = Some v" using assms(2) by blast
  then have "(on_key n i, v) \<in> set (state_scan_prefix s (''sbt_on:'' @ n @ '':''))"
    using assms(1) by (simp add: state_scan_prefix_def state_get_def wf_chain_def set_kv_scan on_key_def)
  then show ?thesis
    using after_last_colon_on_key [OF assms(3), of n] unfolding active_on_def by force
qed

lemma seq_runs:
  assumes "seq m n s = (Inr x, s')" and "keeps f m" and "preserves P m"
  obtains s1 where "n s1 = (Inr x, s')" "f s1 = f s" "P s \<Longrightarrow> P s1"
  using assms by (auto simp: seq_Inr dest: keepsD preservesD)

abbreviation credential_view :: "chain \<Rightarrow> (string \<Rightarrow> string \<Rightarrow> val option) \<times> (string \<Rightarrow> val option)" where
  "credential_view s \<equiv> (\<lambda>n i. state_get s (on_key n i), \<lambda>i. state_get s (tok_key i))"

lemma keeps_credentials:
  assumes "\<not> prefix ''sbt_on:'' k" "\<not> prefix ''sbt:'' k"
  shows "keeps credential_view (state_set k v)" "keeps credential_view (state_delete k)"
    "keeps credential_view (save_record wr k x)"
proof -
  have "on_key n i \<noteq> k" "tok_key i \<noteq> k" for n i
    using assms by (auto simp: on_key_def tok_key_def)
  then show "keeps credential_view (state_set k v)" "keeps credential_view (state_delete k)"
    "keeps credential_view (save_record wr k x)"
    by (simp_all add: keeps_def save_record_def state_set_def state_delete_def state_get_def act_simps)
qed

lemma keeps_credentials_moves:
  "keeps credential_view (state_delete (held_key a n))" "keeps credential_view (state_set (held_key a n) v)"
  "keeps credential_view (put_nft t)" "keeps credential_view (clear_primary E a n)"
  "keeps credential_view (state_delete (offer_key n))"
  unfolding put_nft_def clear_primary_def
  by (intro keeps_intros keeps_credentials; simp add: identity_keys)+

lemma preserves_wf_moves:
  "preserves wf_chain (put_nft t)" "preserves wf_chain (clear_primary E a n)"
  unfolding put_nft_def clear_primary_def by (intro preserves_intros)+

lemma accept_runs_strip:
  assumes "apply_nft_accept E n to e s = (Inr (), s')"
  obtains s0 where "strip_holder_scoped E n s0 = (Inr (), s')" "credential_view s0 = credential_view s"
    "wf_chain s \<longrightarrow> wf_chain s0"
proof -
  obtain p t where good: "get_offer E s n = Some p" "get_nft E s n = Some t" "offer_good p t to e"
    using apply_nft_accept_bad [OF assms] by auto
  from assms have "seq (state_delete (held_key (po_from p) n))
    (seq (put_nft (sold_nft t to)) (after_sale E (po_from p) n to)) s = (Inr (), s')"
    by (simp add: apply_nft_accept_good [OF good])
  then show ?thesis
    by (elim seq_runs [where f = credential_view and P = wf_chain])
      (intro keeps_credentials_moves preserves_wf_moves preserves_intros | erule that; simp)+
qed

text \<open>
  A sale takes the holder's credentials off the name and leaves the name's own. After an accepted
  transfer, for every credential whose id has no colon: it is active on the name exactly when it was
  before and is not scoped to the holder.
\<close>

theorem sale_strips_credentials:
  assumes "wf_chain s" and "sbts_ok E s" and "apply_nft_accept E n to e s = (Inr (), s')"
    and "CHR '':'' \<notin> set i"
  shows "state_get s' (on_key n i) = (if holder_scoped E s i then None else state_get s (on_key n i))"
proof -
  obtain s0 where strip: "strip_holder_scoped E n s0 = (Inr (), s')"
    and view: "credential_view s0 = credential_view s" and wf0: "wf_chain s \<longrightarrow> wf_chain s0"
    by (rule accept_runs_strip [OF assms(3)])
  note wf = wf0 [rule_format, OF assms(1)]
  have on: "state_get s0 (on_key n j) = state_get s (on_key n j)" for j
    using view by (metis prod.inject)
  have tok: "get_sbt E s0 j = get_sbt E s j" for j
    unfolding get_sbt_def using view by (intro peek_cong) (metis prod.inject)
  then have scoped: "holder_scoped E s0 j = holder_scoped E s j" for j
    by (simp add: holder_scoped_def)
  have "sbts_ok E s0" using assms(2) tok by (simp add: sbts_ok_def)
  moreover from strip have "each (strip_one E n) (active_on s0 n) s0 = (Inr (), s')"
    by (simp add: strip_holder_scoped_def act_simps)
  ultimately have "state_get s' (on_key n i) =
      (if i \<in> set (active_on s0 n) \<and> holder_scoped E s0 i then None else state_get s0 (on_key n i))"
    using strip_each by blast
  moreover have "state_get s (on_key n i) = None" if "i \<notin> set (active_on s0 n)"
    using that active_on_mem [OF wf _ assms(4), of n] on by metis
  ultimately show ?thesis by (auto simp: scoped on)
qed

lemma strip_returns: "fst (each (strip_one E n) is s) = Inr ()"
proof (induction "is" arbitrary: s)
  case (Cons i "is")
  have "\<exists>s1. strip_one E n i s = (Inr (), s1)"
    by (cases "get_sbt E s i")
      (simp_all add: strip_one_def put_sbt_def save_record_def state_set_def state_delete_def act_simps)
  with Cons show ?case by (auto simp: seq_apply)
qed (simp add: act_simps)

lemma accept_returns:
  assumes "get_offer E s n = Some p" "get_nft E s n = Some t" "offer_good p t to e"
  shows "\<exists>s'. apply_nft_accept E n to e s = (Inr (), s')"
proof -
  have strip: "\<exists>s4. strip_holder_scoped E n s3 = (Inr (), s4)" for s3
    using strip_returns by (simp add: strip_holder_scoped_def act_simps) (metis prod.collapse)
  obtain s1 where d: "state_delete (held_key (po_from p) n) s = (Inr (), s1)"
    by (simp add: state_delete_def act_simps)
  obtain s2 where w: "put_nft (sold_nft t to) s1 = (Inr (), s2)"
    using put_nft_returns by blast
  from d w show ?thesis
    by (simp add: apply_nft_accept_good [OF assms] seq_apply)
      (simp add: clear_primary_def act_simps state_set_def state_delete_def strip)
qed

definition demo_offer :: PendingOffer where
  "demo_offer = \<lparr>po_from = ''alice'', po_to = ''bob'', po_offered_epoch = 3\<rparr>"

definition demo_badge :: SoulboundToken where
  "demo_badge = \<lparr>sb_token_id = ''kyc'', sb_name = ''zed'', sb_issuer = ''ida'', sb_class = HolderScoped,
     sb_wallet_bound = False, sb_data = [], sb_issued_epoch = 2, sb_accepted = True, sb_revoked = False,
     sb_stripped = False\<rparr>"

definition demo_sale_chain :: chain where
  "demo_sale_chain = snd (seq (put_nft (demo_nft\<lparr>nn_transferable := True\<rparr>))
    (seq (save_record PendingOffer_json (offer_key ''zed'') demo_offer)
    (seq (put_sbt demo_badge) (state_set (on_key ''zed'' ''kyc'') (Text ''1'')))) empty_chain)"

lemma demo_sale_gets:
  "state_get demo_sale_chain k =
    (if k = on_key ''zed'' ''kyc'' then Some (Text ''1'') else if k = tok_key ''kyc'' then Some (Json (SoulboundToken_json demo_badge))
     else if k = offer_key ''zed'' then Some (Json (PendingOffer_json demo_offer))
     else if k = name_owner_key ''zed'' then Some (Text ''alice'')
     else if k = nft_key ''zed'' then Some (Json (NameNft_json (demo_nft\<lparr>nn_transferable := True\<rparr>))) else None)"
  by (simp add: demo_sale_chain_def put_nft_def put_sbt_def save_record_def state_set_def state_get_def act_simps
      empty_chain_def demo_nft_def demo_badge_def)

lemma demo_sale_facts:
  "wf_chain demo_sale_chain" "get_offer demo_env demo_sale_chain ''zed'' = Some demo_offer"
  "get_nft demo_env demo_sale_chain ''zed'' = Some (demo_nft\<lparr>nn_transferable := True\<rparr>)"
  "get_sbt demo_env demo_sale_chain i = (if i = ''kyc'' then Some demo_badge else None)"
proof -
  have "preserves wf_chain (seq (put_nft (demo_nft\<lparr>nn_transferable := True\<rparr>))
    (seq (save_record PendingOffer_json (offer_key ''zed'') demo_offer)
    (seq (put_sbt demo_badge) (state_set (on_key ''zed'' ''kyc'') (Text ''1'')))))"
    unfolding put_sbt_def by (intro preserves_intros preserves_wf_moves)
  moreover have "wf_chain empty_chain" by (simp add: wf_chain_def empty_chain_def)
  ultimately show "wf_chain demo_sale_chain" by (simp add: preserves_def demo_sale_chain_def)
  show "get_offer demo_env demo_sale_chain ''zed'' = Some demo_offer"
    "get_nft demo_env demo_sale_chain ''zed'' = Some (demo_nft\<lparr>nn_transferable := True\<rparr>)"
    "get_sbt demo_env demo_sale_chain i = (if i = ''kyc'' then Some demo_badge else None)"
    by (simp_all add: get_offer_def get_nft_def get_sbt_def peek_state_get demo_sale_gets offer_rec.decode_encode
        nft_rec.decode_encode sbt_rec.decode_encode identity_keys)
qed

theorem sale_strips_credentials_witness:
  "\<exists>s'. apply_nft_accept demo_env ''zed'' ''bob'' 4 demo_sale_chain = (Inr (), s') \<and>
    state_get demo_sale_chain (on_key ''zed'' ''kyc'') = Some (Text ''1'') \<and>
    state_get s' (on_key ''zed'' ''kyc'') = None"
proof -
  obtain s' where run: "apply_nft_accept demo_env ''zed'' ''bob'' 4 demo_sale_chain = (Inr (), s')"
    using accept_returns [OF demo_sale_facts(2,3), of "''bob''" 4]
    by (auto simp: offer_good_def demo_offer_def demo_nft_def OFFER_EXPIRY_EPOCHS_def sat_add_def)
  have "sbts_ok demo_env demo_sale_chain"
    by (simp add: sbts_ok_def demo_sale_facts demo_badge_def)
  from sale_strips_credentials [OF demo_sale_facts(1) this run, of "''kyc''"] run show ?thesis
    by (simp add: demo_sale_gets holder_scoped_def demo_sale_facts demo_badge_def)
qed

text \<open>
  A credential whose id contains a colon survives the sale of the name: the ids on a name are read back as
  what follows the last colon of their keys, which is never such an id.
\<close>

theorem colon_credential_survives_sale:
  assumes "sbts_ok E s" and "apply_nft_accept E n to e s = (Inr (), s')" and "CHR '':'' \<in> set i"
  shows "state_get s' (on_key n i) = state_get s (on_key n i)"
proof -
  obtain s0 where strip: "strip_holder_scoped E n s0 = (Inr (), s')"
    and view: "credential_view s0 = credential_view s"
    by (rule accept_runs_strip [OF assms(2)])
  have "get_sbt E s0 j = get_sbt E s j" for j
    unfolding get_sbt_def using view by (intro peek_cong) (metis prod.inject)
  then have "sbts_ok E s0" using assms(1) by (simp add: sbts_ok_def)
  moreover from strip have "each (strip_one E n) (active_on s0 n) s0 = (Inr (), s')"
    by (simp add: strip_holder_scoped_def act_simps)
  moreover have "i \<notin> set (active_on s0 n)"
    using assms(3) after_last_colon_free by (auto simp: active_on_def)
  ultimately have "state_get s' (on_key n i) = state_get s0 (on_key n i)"
    using strip_each by fastforce
  with view show ?thesis by (metis prod.inject)
qed

text \<open>
  A revoked credential can still be put on a name. When the issuer withdraws a pending credential, the holder
  of the name can accept it afterwards: it is then active on the name and marked as revoked.
\<close>

theorem revoked_credential_accepted:
  assumes "get_sbt E s i = Some t" and "sb_token_id t = i" and "\<not> sb_accepted t"
    and "sbt_holder E s (sb_name t) = Some a"
  shows "\<exists>s1 s2 u. apply_sbt_revoke E i (sb_issuer t) s = (Inr (), s1) \<and> apply_sbt_accept E i a s1 = (Inr (), s2) \<and>
    state_get s2 (on_key (sb_name t) i) = Some (Text ''1'') \<and> get_sbt E s2 i = Some u \<and> sb_revoked u \<and> sb_accepted u"
proof -
  let ?t = "t\<lparr>sb_revoked := True\<rparr>"
  obtain s1 where run: "apply_sbt_revoke E i (sb_issuer t) s = (Inr (), s1)"
    and g1: "state_get s1 (tok_key i) = Some (Json (SoulboundToken_json ?t))"
    using assms(1,2)
    by (simp add: apply_sbt_revoke_def put_sbt_def save_record_def state_set_def state_delete_def state_get_def act_simps
        identity_keys)
  have "same_names s s1"
    by (rule same_namesI [OF keeps_view_ops(7) run])
  then have holder: "sbt_holder E s1 (sb_name t) = Some a"
    using assms(4) by (simp add: sbt_holder_def same_names_get)
  have "get_sbt E s1 i = Some ?t"
    using g1 by (simp add: get_sbt_def peek_state_get sbt_rec.decode_encode)
  then have "\<exists>s2. apply_sbt_accept E i a s1 = (Inr (), s2) \<and> state_get s2 (on_key (sb_name t) i) = Some (Text ''1'') \<and>
      state_get s2 (tok_key i) = Some (Json (SoulboundToken_json (?t\<lparr>sb_accepted := True\<rparr>)))"
    using assms(2,3) holder
    by (simp add: apply_sbt_accept_def put_sbt_def save_record_def state_set_def state_delete_def state_get_def act_simps
        identity_keys)
  then obtain s2 where s2: "apply_sbt_accept E i a s1 = (Inr (), s2)" "state_get s2 (on_key (sb_name t) i) = Some (Text ''1'')"
    "state_get s2 (tok_key i) = Some (Json (SoulboundToken_json (?t\<lparr>sb_accepted := True\<rparr>)))"
    by blast
  then have "get_sbt E s2 i = Some (?t\<lparr>sb_accepted := True\<rparr>)"
    by (simp add: get_sbt_def peek_state_get sbt_rec.decode_encode)
  with run s2 show ?thesis by auto
qed

end
