(* ===== verification/Names.thy ===== *)
theory Names
  imports Identity
begin

text \<open>
  Names under auctions and identity entries together. \<open>auction.rs\<close> and \<open>identity_nft.rs\<close> write the same
  index \<open>name_owner\<close>; each looks at marks the other leaves: a mint refuses a name that is owned or
  marked as being auctioned, an auction of a name refuses to open when the name is owned. The theorem is
  that this is enough: over any interleaving of entries of both kinds the index of a minted name
  names the owner of its record, so no auction takes a minted name away.
\<close>

section \<open>What auctions do to names\<close>

definition name_auction :: "env \<Rightarrow> chain \<Rightarrow> string \<Rightarrow> bool" where
  "name_auction E s n \<longleftrightarrow> (\<exists>i a. get_auction E s i = Some a \<and> au_kind a = NameKind n \<and> \<not> closed a)"

abbreviation name_owner :: "chain \<Rightarrow> string \<Rightarrow> val option" where
  "name_owner s n \<equiv> state_get s (name_owner_key n)"

abbreviation auction_mark :: "chain \<Rightarrow> string \<Rightarrow> val option" where
  "auction_mark s n \<equiv> state_get s (name_active_key n)"

definition auction_effect :: "env \<Rightarrow> chain \<Rightarrow> chain \<Rightarrow> bool" where
  "auction_effect E s s' \<longleftrightarrow>
     (\<forall>n. get_nft E s' n = get_nft E s n) \<and>
     (\<forall>n. name_auction E s' n \<longrightarrow> name_auction E s n \<or> name_owner s n = None \<and> auction_mark s' n \<noteq> None) \<and>
     (\<forall>n. name_owner s' n = name_owner s n \<or> name_owner s' n \<noteq> None \<and> name_auction E s n) \<and>
     (\<forall>n. auction_mark s n \<noteq> None \<longrightarrow> auction_mark s' n \<noteq> None \<or> name_owner s' n \<noteq> None)"

lemma auction_effect_refl [simp]: "auction_effect E s s"
  by (simp add: auction_effect_def)

lemma quiet_auction_view:
  assumes "quiet s s0"
  shows "get_auction E s0 i = get_auction E s i" "name_auction E s0 n = name_auction E s n"
    "name_owner s0 n = name_owner s n" "auction_mark s0 n = auction_mark s n" "get_nft E s0 n = get_nft E s n"
  using assms by (simp_all add: quiet_def name_auction_def peek_state_get get_nft_def identity_keys)

lemma effect_before: "quiet s s0 \<Longrightarrow> auction_effect E s0 s' \<Longrightarrow> auction_effect E s s'"
  by (simp add: auction_effect_def quiet_auction_view)

lemma meta_quiet: "keeps cf_meta m \<Longrightarrow> m s = (r, s0) \<Longrightarrow> quiet s s0"
  unfolding quiet_def state_get_def by (drule (1) keepsD) simp

text \<open>Saving a record of the same item that is no more open than the one before changes no name.\<close>

lemma save_auction_effect:
  assumes a: "get_auction E s i = Some a" "\<not> closed a" and b: "au_kind b = au_kind a"
    and sv: "save_auction i b s = (r, s')"
  shows "auction_effect E s s'"
proof -
  note g = state_get_set [OF sv [unfolded save_record_def]]
  have "get_auction E s' j = (if j = i then Some b else get_auction E s j)" for j
    using auction_rec.peek_save [OF sv, of E] peek_save_other [OF sv, of "auction_key j" E AuctionState_of_json]
    by (auto simp: auction_key_def)
  then have "name_auction E s' n \<Longrightarrow> name_auction E s n" for n
    using a b by (auto simp: name_auction_def split: if_splits)
  then show ?thesis
    by (simp add: auction_effect_def get_nft_def peek_state_get g identity_keys)
qed

lemma name_open_effect:
  assumes run: "apply_name_open i n opener m ee e s = (r, s')"
  shows "auction_effect E s s'"
proof (cases "name_owner s n")
  case None
  let ?a = "new_auction i (NameKind n) opener (max m (name_min_bid n)) ee e"
  obtain s1 where sv: "save_auction i ?a s = (Inr (), s1)"
    by (simp add: save_record_apply)
  with None run have st: "state_set (name_active_key n) (Text i) s1 = (r, s')"
    by (simp add: apply_name_open_def Let_def act_simps)
  have g: "state_get s' k = (if k = name_active_key n then Some (Text i)
      else if k = auction_key i then Some (Json (AuctionState_json ?a)) else state_get s k)" for k
    by (simp add: state_get_set [OF st] state_get_set [OF sv [unfolded save_record_def]])
  have "get_auction E s' j = (if j = i then Some ?a else get_auction E s j)" for j
    by (simp add: peek_state_get g auction_rec.decode_encode identity_keys)
  then have "name_auction E s' k \<Longrightarrow> name_auction E s k \<or> k = n" for k
    by (auto simp: name_auction_def new_auction_def split: if_splits)
  with None show ?thesis
    by (auto simp: auction_effect_def get_nft_def peek_state_get g identity_keys)
next
  case (Some v)
  with run show ?thesis by (auto simp: apply_name_open_def act_simps)
qed

lemma freeport_open_effect:
  assumes run: "apply_freeport_open i ty it opener m ee e s = (r, s')"
  shows "auction_effect E s s'"
proof -
  let ?a = "new_auction i (FreeportKind ty it) opener m ee e"
  have sv: "save_auction i ?a s = (r, s')" using run by (simp add: apply_freeport_open_def)
  note g = state_get_set [OF sv [unfolded save_record_def]]
  have "get_auction E s' j = (if j = i then Some ?a else get_auction E s j)" for j
    by (simp add: peek_state_get g auction_rec.decode_encode identity_keys)
  then have "name_auction E s' k \<Longrightarrow> name_auction E s k" for k
    by (auto simp: name_auction_def new_auction_def split: if_splits)
  then show ?thesis
    by (simp add: auction_effect_def get_nft_def peek_state_get g identity_keys)
qed

lemma auction_bid_effect:
  assumes run: "apply_bid E i b n e s = (r, s')"
  shows "auction_effect E s s'"
proof (cases "\<exists>a. get_auction E s i = Some a \<and> bid_ok a n e")
  case False
  with run show ?thesis
    by (auto simp: apply_bid_def act_simps load_record_apply bid_ok_def split: option.splits if_splits)
next
  case True
  then obtain a where a: "get_auction E s i = Some a" "bid_ok a n e" by blast
  let ?pay = "seq (debit b NATIVE_TOKEN n) (bid_refund a)"
  let ?b = "a\<lparr>au_prev_bidder := au_top_bidder a, au_prev_bid := au_top_bid a, au_top_bidder := Some b, au_top_bid := n\<rparr>"
  obtain r1 s1 where pay: "?pay s = (r1, s1)" by (cases "?pay s")
  have "keeps cf_meta ?pay"
    unfolding bid_refund_def by (intro keeps_intros)
  note q = meta_quiet [OF this pay]
  have "s' = s1 \<or> save_auction i ?b s1 = (r, s')"
    using run a pay
    by (cases r1) (auto simp: apply_bid_def act_simps load_record_apply bid_ok_def bid_refund_def
        split: prod.splits sum.splits if_splits)
  moreover have "auction_effect E s1 s'" if "save_auction i ?b s1 = (r, s')"
    using a that by (intro save_auction_effect [of E s1 i a ?b]) (simp_all add: quiet_auction_view [OF q] bid_ok_def closed_def)
  ultimately show ?thesis using effect_before [OF q] by auto
qed

lemma cancel_effect:
  assumes run: "apply_cancel E i q s = (r, s')"
  shows "auction_effect E s s'"
proof (cases "\<exists>a. get_auction E s i = Some a \<and> \<not> closed a \<and> save_auction i (a\<lparr>au_cancelled := True\<rparr>) s = (r, s')")
  case False
  with run show ?thesis
    by (auto simp: apply_cancel_def act_simps load_record_apply closed_def split: option.splits if_splits)
next
  case True
  then obtain a where "get_auction E s i = Some a" "\<not> closed a" "save_auction i (a\<lparr>au_cancelled := True\<rparr>) s = (r, s')"
    by blast
  then show ?thesis by (intro save_auction_effect [of E s i a]) simp_all
qed

lemma assign_save_effect:
  assumes a0: "get_auction E s0 i = Some a" "\<not> closed a"
    and rest: "seq (assign_item (au_kind a) w) (save_auction i (a\<lparr>au_settled := True\<rparr>)) s0 = (r, s')"
  shows "auction_effect E s0 s'"
proof (cases "au_kind a")
  case (NameKind n)
  from rest have g: "state_get s' k = (if k = auction_key i then Some (Json (AuctionState_json (a\<lparr>au_settled := True\<rparr>)))
      else if k = name_active_key n then None else if k = ''account_name:'' @ w then Some (Text n)
      else if k = name_owner_key n then Some (Text w) else state_get s0 k)" for k
    by (auto simp: NameKind assign_item_def save_record_def state_set_def state_delete_def state_get_def act_simps)
  have "get_auction E s' j = (if j = i then Some (a\<lparr>au_settled := True\<rparr>) else get_auction E s0 j)" for j
    by (simp add: peek_state_get g auction_rec.decode_encode identity_keys)
  then have "name_auction E s' k \<Longrightarrow> name_auction E s0 k" for k
    by (auto simp: name_auction_def closed_def split: if_splits)
  moreover have "name_auction E s0 n"
    using a0 NameKind by (auto simp: name_auction_def)
  ultimately show ?thesis
    by (auto simp: auction_effect_def get_nft_def peek_state_get g identity_keys)
next
  case (FreeportKind ty it)
  let ?k = "''freeport_owner:'' @ ty @ '':'' @ it"
  obtain s1 where st: "state_set ?k (Text w) s0 = (Inr (), s1)" and sv: "save_auction i (a\<lparr>au_settled := True\<rparr>) s1 = (r, s')"
    using rest by (auto simp: FreeportKind assign_item_def seq_apply state_set_def act_simps)
  have v: "get_auction E s1 j = get_auction E s0 j" "name_owner s1 n = name_owner s0 n" "get_nft E s1 n = get_nft E s0 n"
    "auction_mark s1 n = auction_mark s0 n" for j n
    by (simp_all add: peek_state_get get_nft_def state_get_set [OF st] identity_keys)
  have "auction_effect E s1 s'"
    using a0 v(1) sv by (intro save_auction_effect [of E s1 i a]) simp_all
  then show ?thesis by (simp add: auction_effect_def name_auction_def v)
qed

lemma settle_effect:
  assumes run: "apply_settle E i e s = (r, s')"
  shows "auction_effect E s s'"
proof (cases "\<exists>a. get_auction E s i = Some a \<and> settle_ok a e")
  case False
  with run show ?thesis
    by (auto simp: apply_settle_def act_simps load_record_apply settle_ok_def split: option.splits if_splits)
next
  case True
  then obtain a where a: "get_auction E s i = Some a" "settle_ok a e" by blast
  let ?save = "save_auction i (a\<lparr>au_settled := True\<rparr>)"
  have "\<not> closed a" using a(2) by (simp add: settle_ok_def closed_def)
  show ?thesis
  proof (cases "au_top_bidder a")
    case None
    with run a have "?save s = (r, s')"
      by (simp add: apply_settle_def act_simps load_record_apply settle_ok_def)
    with a \<open>\<not> closed a\<close> show ?thesis by (intro save_auction_effect [of E s i a]) simp_all
  next
    case (Some w)
    obtain u s0 where cr: "attempt (credit (au_opener a) NATIVE_TOKEN (au_top_bid a)) s = (Inr u, s0)"
      using attempt_result [OF calm_balance(1)] by blast
    have "keeps cf_meta (attempt (credit (au_opener a) NATIVE_TOKEN (au_top_bid a)))"
      by (intro keeps_intros)
    note q = meta_quiet [OF this cr]
    have rest: "seq (assign_item (au_kind a) w) ?save s0 = (r, s')"
      using run a Some cr by (simp add: apply_settle_def andThen_apply seq_apply load_record_apply ensure_apply settle_ok_def)
    have a0: "get_auction E s0 i = Some a" using a(1) by (simp add: quiet_auction_view [OF q])
    from assign_save_effect [OF a0 \<open>\<not> closed a\<close> rest] show ?thesis using effect_before [OF q] by blast
  qed
qed

lemma actor_auction_effect:
  assumes "seq (touch_alive E a e) (seq (ensure_account a e) m) s = (r, s')"
    and "\<And>s0. m s0 = (r, s') \<Longrightarrow> auction_effect E s0 s'"
  shows "auction_effect E s s'"
proof -
  obtain s1 where t: "touch_alive E a e s = (Inr (), s1)"
    using touch_alive_result by blast
  obtain s0 where en: "ensure_account a e s1 = (Inr (), s0)"
    using ensure_account_result by blast
  have "m s0 = (r, s')" using assms(1) t en by (simp add: seq_apply)
  with effect_before [OF quiet_trans [OF touch_quiet [OF t] ensure_quiet [OF en]]] assms(2) show ?thesis by blast
qed

lemma auction_entry_effect:
  assumes "apply_auction_entry E x s = (r, s')"
  shows "auction_effect E s s'"
  using assms
  by (cases x)
    (auto elim!: actor_auction_effect
      intro: name_open_effect freeport_open_effect auction_bid_effect settle_effect cancel_effect)

section \<open>What identity entries do to auctions\<close>

lemma keeps_foreign:
  assumes k: "k = auction_key i \<or> k = name_active_key n"
  shows "keeps (\<lambda>s. state_get s k) (apply_identity_entry E x)"
proof -
  have alive: "keeps (\<lambda>s. state_get s k) (touch_alive E a e)" for a e
    unfolding touch_alive_def set_alive_epoch_def
    by (intro keeps_intros keeps_state_get_other) (use k in \<open>auto simp: identity_keys\<close>)
  have acc: "keeps (\<lambda>s. state_get s k) (ensure_account a e)" for a e
    using keeps_ensure_account(3) [of a e] by (simp add: keeps_def state_get_def)
  have others: "k \<noteq> nft_key m" "k \<noteq> name_owner_key m" "k \<noteq> held_key a m" "k \<noteq> offer_key m" "k \<noteq> primary_key a"
    "k \<noteq> COUNT_KEY" "k \<noteq> tok_key m" "k \<noteq> sbt_pending_key a m" "k \<noteq> on_key a m" for m a
    using k by (auto simp: identity_keys)
  have strip: "keeps (\<lambda>s. state_get s k) (strip_one E m t)" for m t
    unfolding strip_one_def put_sbt_def by (intro keeps_intros keeps_state_get_other others)
  show ?thesis
    by (cases x; simp only: apply_identity_entry.simps apply_nft_mint_def apply_nft_transfer_def apply_nft_accept_def
        apply_nft_reject_def apply_nft_set_recovery_def apply_nft_lock_def apply_nft_unlock_def apply_nft_recover_def
        apply_nft_set_backstop_def apply_nft_set_primary_def apply_sbt_issue_def apply_sbt_accept_def
        apply_sbt_reject_def apply_sbt_revoke_def put_nft_def put_sbt_def bump_count_def clear_primary_def drop_offer_def
        strip_holder_scoped_def validate_recovery_def)
      (intro keeps_intros keeps_state_get_other alive acc others strip)+
qed

section \<open>One owner\<close>

definition auctions_apart :: "env \<Rightarrow> chain \<Rightarrow> bool" where
  "auctions_apart E s \<longleftrightarrow> (\<forall>n. name_auction E s n \<longrightarrow>
     get_nft E s n = None \<and> (auction_mark s n \<noteq> None \<or> name_owner s n \<noteq> None))"

lemma apart_auction:
  assumes "names_ok E s" and "auctions_apart E s" and "apply_auction_entry E x s = (r, s')"
  shows "names_ok E s' \<and> auctions_apart E s'"
proof -
  note e = auction_entry_effect [OF assms(3), unfolded auction_effect_def]
  have "names_ok E s'"
    using e assms(1,2) unfolding names_ok_def auctions_apart_def by (metis option.distinct(1))
  moreover have "get_nft E s n = None" if "name_owner s n = None" for n
    using assms(1) that by (cases "get_nft E s n") (auto simp: names_ok_def)
  then have "auctions_apart E s'"
    using e assms(2) unfolding auctions_apart_def by metis
  ultimately show ?thesis ..
qed

lemma apart_identity:
  assumes "names_ok E s" and "auctions_apart E s" and "apply_identity_entry E x s = (r, s')"
  shows "names_ok E s' \<and> auctions_apart E s'"
proof -
  have mark: "auction_mark s' n = auction_mark s n" for n
    using keepsD [OF keeps_foreign assms(3)] by blast
  have "get_auction E s' i = get_auction E s i" for i
    using keepsD [OF keeps_foreign assms(3)] by (intro peek_cong) blast
  then have au: "name_auction E s' n = name_auction E s n" for n
    by (simp add: name_auction_def)
  have "auctions_apart E s'"
    using entry_effect [OF assms(1,3)] unfolding name_effect_def
  proof (elim disjE exE conjE)
    assume "same_names s s'"
    with assms(2) show ?thesis
      by (simp add: auctions_apart_def au mark same_names_get same_names_owner)
  next
    fix t
    assume w: "wrote t s s'" and free: "get_nft E s (nn_name t) = None \<longrightarrow>
      name_owner s (nn_name t) = None \<and> auction_mark s (nn_name t) = None"
    have "\<not> name_auction E s (nn_name t)"
      using assms(2) free by (auto simp: auctions_apart_def)
    with assms(2) show ?thesis
      by (auto simp: auctions_apart_def au mark wrote_get [OF w] wrote_owner [OF w])
  qed
  with names_ok_entry [OF assms(1,3)] show ?thesis ..
qed

datatype name_entry = OfAuction auction_entry | OfIdentity identity_entry

fun apply_name_entry :: "env \<Rightarrow> name_entry \<Rightarrow> unit chain_act" where
  "apply_name_entry E (OfAuction x) = apply_auction_entry E x"
| "apply_name_entry E (OfIdentity x) = apply_identity_entry E x"

fun run_names :: "env \<Rightarrow> name_entry list \<Rightarrow> chain \<Rightarrow> chain" where
  "run_names E [] s = s"
| "run_names E (x # xs) s = run_names E xs (snd (apply_name_entry E x s))"

lemma apart_entry:
  assumes "names_ok E s" and "auctions_apart E s"
  shows "names_ok E (snd (apply_name_entry E x s)) \<and> auctions_apart E (snd (apply_name_entry E x s))"
  using apart_auction [OF assms] apart_identity [OF assms] by (cases x) (auto, (metis prod.collapse)+)

text \<open>
  (C12) A minted name has one owner. Starting from names whose index agrees with their records and that are not
  being auctioned, over any interleaving of auction and identity entries: the index of a minted name
  names the owner of its record, a locked name has a recovery configuration, and no open auction is for a
  minted name.
\<close>

theorem minted_name_has_one_owner:
  assumes "names_ok E s" and "auctions_apart E s" and "get_nft E (run_names E xs s) n = Some t"
  shows "nn_name t = n \<and> name_owner (run_names E xs s) n = Some (Text (nn_owner t)) \<and>
    (nn_transferable t \<or> nn_recovery t \<noteq> None) \<and> \<not> name_auction E (run_names E xs s) n"
proof -
  have "names_ok E (run_names E xs s) \<and> auctions_apart E (run_names E xs s)"
    using assms(1,2) by (induction xs arbitrary: s) (simp_all add: apart_entry)
  with assms(3) show ?thesis by (auto simp: names_ok_def auctions_apart_def)
qed

lemma demo_no_auction: "auctions_apart demo_env demo_identity_chain"
proof -
  have "get_auction demo_env demo_identity_chain i = None" for i
    by (simp add: demo_identity_chain_def put_nft_def save_record_def state_set_def state_get_def act_simps
        peek_state_get empty_chain_def identity_keys)
  then show ?thesis by (simp add: auctions_apart_def name_auction_def)
qed

theorem minted_name_has_one_owner_witness:
  "name_owner (run_names demo_env [OfAuction (NameAuctionOpen ''a1'' ''zed'' ''mallory'' 0 2 1),
      OfAuction (NameAuctionSettle ''a1'' 3)] demo_identity_chain) ''zed'' = Some (Text ''alice'')"
proof -
  let ?xs = "[OfAuction (NameAuctionOpen ''a1'' ''zed'' ''mallory'' 0 2 1), OfAuction (NameAuctionSettle ''a1'' 3)]"
  have "get_nft demo_env (snd (apply_auction_entry demo_env x s)) n = get_nft demo_env s n" for x s n
    using auction_entry_effect [of demo_env x s] by (metis auction_effect_def prod.collapse)
  then have "get_nft demo_env (run_names demo_env ?xs demo_identity_chain) ''zed'' = Some demo_nft"
    by (simp only: run_names.simps apply_name_entry.simps demo_nft_found) simp
  from minted_name_has_one_owner [OF demo_names_ok demo_no_auction this] show ?thesis
    by (simp only: demo_nft_def) simp
qed

end
