(* ===== verification/IdentityTx.thy ===== *)
theory IdentityTx
  imports Identity Validation
begin

text \<open>
  Validation of identity and credential entries: their arms in \<open>validate_and_apply\<close> of \<open>tx.rs\<close>, the check
  of a signature that moves an asset, and the authority of the guardians. The stale guard and the fees
  around the arms are those of \<open>Validation\<close>. The theorems are what an accepted recovery was
  authorised by, and that a recovery configuration which was signed once can be put back later.
\<close>

section \<open>Entries and their messages\<close>

text \<open>
  A submitted entry: the fields that \<open>apply_entry\<close> reads, and those only validation reads. \<open>ix_signed_by\<close>
  stands for \<open>signed_by\<close> of the entries whose arm of \<open>apply_entry\<close> does not read it, \<open>ix_seq\<close> for \<open>seq\<close>
  of a recovery configuration and of the backstop.
\<close>

record identity_tx =
  ix_entry :: identity_entry
  ix_signed_by :: string
  ix_seq :: u64
  ix_nonce :: u64
  ix_cosignatures :: "(string \<times> string) list"

definition tx_signed_by :: "identity_tx \<Rightarrow> string" where
  "tx_signed_by T = (case ix_entry T of
       IdentityNftMint _ _ signed_by _ \<Rightarrow> signed_by
     | IdentityNftTransfer _ _ _ _ \<Rightarrow> ix_signed_by T
     | IdentityNftAccept _ _ _ \<Rightarrow> ix_signed_by T
     | IdentityNftReject _ signed_by _ \<Rightarrow> signed_by
     | IdentityNftSetRecovery _ _ _ _ _ signed_by _ \<Rightarrow> signed_by
     | IdentityNftLock _ signed_by _ \<Rightarrow> signed_by
     | IdentityNftUnlock _ _ signed_by _ \<Rightarrow> signed_by
     | IdentityNftRecover _ _ signed_by _ \<Rightarrow> signed_by
     | IdentityNftSetBackstop _ _ signed_by _ \<Rightarrow> signed_by
     | IdentityNftSetPrimary _ _ _ \<Rightarrow> ix_signed_by T
     | SoulboundIssue _ _ _ _ _ signed_by _ \<Rightarrow> signed_by
     | SoulboundAccept _ signed_by _ \<Rightarrow> signed_by
     | SoulboundReject _ signed_by _ \<Rightarrow> signed_by
     | SoulboundRevoke _ signed_by _ \<Rightarrow> signed_by)"

definition identity_fields :: "identity_tx \<Rightarrow> (string \<times> json) list" where
  "identity_fields T = (case ix_entry T of
       IdentityNftMint name to _ _ \<Rightarrow>
         [(''type'', JStr ''IDENTITY_NFT_MINT''), (''name'', JStr name), (''to'', JStr to), (''nonce'', JNum (ix_nonce T))]
     | IdentityNftTransfer name from to _ \<Rightarrow>
         [(''type'', JStr ''IDENTITY_NFT_TRANSFER''), (''name'', JStr name), (''from'', JStr from), (''to'', JStr to),
          (''nonce'', JNum (ix_nonce T))]
     | IdentityNftAccept name to _ \<Rightarrow>
         [(''type'', JStr ''IDENTITY_NFT_ACCEPT''), (''name'', JStr name), (''to'', JStr to), (''nonce'', JNum (ix_nonce T))]
     | IdentityNftReject name signed_by _ \<Rightarrow>
         [(''type'', JStr ''IDENTITY_NFT_REJECT''), (''name'', JStr name), (''signed_by'', JStr signed_by),
          (''nonce'', JNum (ix_nonce T))]
     | IdentityNftSetRecovery name guardians threshold destination founder_backstop _ _ \<Rightarrow>
         [(''type'', JStr ''IDENTITY_NFT_SET_RECOVERY''), (''name'', JStr name), (''guardians'', jstrs guardians),
          (''threshold'', u8_json threshold), (''destination'', JStr destination),
          (''founder_backstop'', JBool founder_backstop), (''seq'', JNum (ix_seq T))]
     | IdentityNftLock name _ _ \<Rightarrow>
         [(''type'', JStr ''IDENTITY_NFT_LOCK''), (''name'', JStr name), (''nonce'', JNum (ix_nonce T))]
     | IdentityNftUnlock name sn _ _ \<Rightarrow>
         [(''type'', JStr ''IDENTITY_NFT_UNLOCK''), (''name'', JStr name), (''seq'', JNum sn)]
     | IdentityNftRecover name sn _ _ \<Rightarrow>
         [(''type'', JStr ''IDENTITY_NFT_RECOVER''), (''name'', JStr name), (''seq'', JNum sn)]
     | IdentityNftSetBackstop name enabled _ _ \<Rightarrow>
         [(''type'', JStr ''IDENTITY_NFT_SET_BACKSTOP''), (''name'', JStr name), (''enabled'', JBool enabled),
          (''seq'', JNum (ix_seq T))]
     | IdentityNftSetPrimary account name _ \<Rightarrow>
         [(''type'', JStr ''IDENTITY_NFT_SET_PRIMARY''), (''account'', JStr account), (''name'', JStr name),
          (''nonce'', JNum (ix_nonce T))]
     | SoulboundIssue token_id name class wallet_bound data _ _ \<Rightarrow>
         [(''type'', JStr ''SOULBOUND_ISSUE''), (''token_id'', JStr token_id), (''name'', JStr name),
          (''class'', JStr class), (''wallet_bound'', JBool wallet_bound), (''data'', JStr data),
          (''nonce'', JNum (ix_nonce T))]
     | SoulboundAccept token_id _ _ \<Rightarrow>
         [(''type'', JStr ''SOULBOUND_ACCEPT''), (''token_id'', JStr token_id), (''nonce'', JNum (ix_nonce T))]
     | SoulboundReject token_id _ _ \<Rightarrow>
         [(''type'', JStr ''SOULBOUND_REJECT''), (''token_id'', JStr token_id), (''nonce'', JNum (ix_nonce T))]
     | SoulboundRevoke token_id _ _ \<Rightarrow>
         [(''type'', JStr ''SOULBOUND_REVOKE''), (''token_id'', JStr token_id), (''nonce'', JNum (ix_nonce T))])"

definition identity_message :: "env \<Rightarrow> node \<Rightarrow> identity_tx \<Rightarrow> string" where
  "identity_message E N T = json_print E (jobj ((''chain_id'', JStr (chain_id N)) # identity_fields T))"

section \<open>Signatures\<close>

definition IDENTITY_NFT_ACTIVATION_EPOCH :: u64 where "IDENTITY_NFT_ACTIVATION_EPOCH = 400000"

definition IDENTITY_FOUNDER_ACCOUNTS :: "string list" where
  "IDENTITY_FOUNDER_ACCOUNTS = [''shindevlin'', ''josh'', ''natoshisakamoto'']"

definition IDENTITY_FOUNDER_THRESHOLD :: nat where "IDENTITY_FOUNDER_THRESHOLD = 2"

definition ensure_identity_active :: "unit chain_act" where
  "ensure_identity_active =
     andThen (reads current_epoch) (\<lambda>cur.
     ensure (\<not> cur < IDENTITY_NFT_ACTIVATION_EPOCH) (Err ''identity NFTs are not active''))"

definition verify_against_pubkey :: "env \<Rightarrow> string \<Rightarrow> string \<Rightarrow> string option \<Rightarrow> unit chain_act" where
  "verify_against_pubkey E message pubkey_hex sig_hex =
     andThen (need (Option.bind sig_hex (\<lambda>t. if t = [] then None else Some t)) (Err ''signature required''))
       (\<lambda>sig_str.
     andThen (need (hex_bytes E 32 pubkey_hex) (Err ''pubkey is not 32 bytes of hex'')) (\<lambda>pk.
     andThen (need (hex_bytes E 64 sig_str) (Err ''signature is not 64 bytes of hex'')) (\<lambda>sg.
     ensure (ed25519_verify E pk message sg) (Err ''signature verification failed''))))"

text \<open>\<open>check_signature\<close> with the role \<open>posting\<close>, on the message of an identity entry.\<close>

definition check_posting_signature :: "env \<Rightarrow> node \<Rightarrow> identity_tx \<Rightarrow> string \<Rightarrow> string option \<Rightarrow> unit chain_act" where
  "check_posting_signature E N T signed_by sig_hex =
     andThen (reads (\<lambda>s. get_account s signed_by)) (\<lambda>st.
     case Option.bind st (\<lambda>state. role_key state ''posting'') of
       None \<Rightarrow> ret ()
     | Some pubkey_hex \<Rightarrow> verify_against_pubkey E (identity_message E N T) pubkey_hex sig_hex)"

definition check_value_signature :: "env \<Rightarrow> node \<Rightarrow> identity_tx \<Rightarrow> string \<Rightarrow> string option \<Rightarrow> unit chain_act" where
  "check_value_signature E N T signed_by sig_hex =
     andThen (reads (\<lambda>s. get_account s signed_by)) (\<lambda>found.
     andThen (need found (Err ''unknown account cannot sign'')) (\<lambda>state.
     andThen (need (or_else (role_key state ''active'') (role_key state ''owner''))
        (Err ''no active or owner key'')) (\<lambda>pubkey_hex.
     verify_against_pubkey E (identity_message E N T) pubkey_hex sig_hex)))"

definition valid_signers ::
  "env \<Rightarrow> node \<Rightarrow> identity_tx \<Rightarrow> chain \<Rightarrow> string \<Rightarrow> string option \<Rightarrow> string list" where
  "valid_signers E N T s primary primary_sig =
    (let ok = (\<lambda>acct sig. fst (check_value_signature E N T acct (Some sig) s) = Inr ()) in
     remdups
      ((case primary_sig of Some ps \<Rightarrow> if ok primary ps then [primary] else [] | None \<Rightarrow> []) @
       map fst (filter (\<lambda>c. fst c \<noteq> primary \<and> ok (fst c) (snd c)) (ix_cosignatures T))))"

definition verify_recovery_authority ::
  "env \<Rightarrow> node \<Rightarrow> identity_tx \<Rightarrow> Recovery \<Rightarrow> string \<Rightarrow> string option \<Rightarrow> unit chain_act" where
  "verify_recovery_authority E N T rec primary primary_sig =
     andThen (reads (\<lambda>s. valid_signers E N T s primary primary_sig)) (\<lambda>valid.
     let guardian_hits = length (filter (\<lambda>g. g \<in> set valid) (rc_guardians rec));
         founder_hits = length (filter (\<lambda>a. a \<in> set IDENTITY_FOUNDER_ACCOUNTS) valid) in
     if guardian_hits \<ge> unat (rc_threshold rec) then ret ()
     else if rc_founder_backstop rec \<and> founder_hits \<ge> IDENTITY_FOUNDER_THRESHOLD then ret ()
     else bail (Err ''recovery not authorized''))"

section \<open>The arms\<close>

text \<open>What every arm does before its own checks, and after them; a failing nonce update is ignored.\<close>

definition identity_guards :: "string \<Rightarrow> u64 \<Rightarrow> unit chain_act" where
  "identity_guards account nonce = seq (require_key account) (check_nonce account nonce)"

definition apply_and_bump :: "env \<Rightarrow> identity_tx \<Rightarrow> string \<Rightarrow> unit chain_act" where
  "apply_and_bump E T account =
     seq (apply_identity_entry E (ix_entry T)) (seq (attempt (bump_nonce account)) (ret ()))"

definition owned_by :: "env \<Rightarrow> string \<Rightarrow> string \<Rightarrow> unit chain_act" where
  "owned_by E name signed_by =
     andThen (need_nft E name) (\<lambda>nft. ensure (nn_owner nft = signed_by) (Err ''signed_by does not own the name''))"

definition under_recovery_authority ::
  "env \<Rightarrow> node \<Rightarrow> identity_tx \<Rightarrow> string \<Rightarrow> string \<Rightarrow> string option \<Rightarrow> unit chain_act" where
  "under_recovery_authority E N T name signed_by sig_hex =
     andThen (need_nft E name) (\<lambda>nft.
     andThen (need (nn_recovery nft) (Err ''has no recovery authority'')) (\<lambda>rec.
     verify_recovery_authority E N T rec signed_by sig_hex))"

definition validate_identity :: "env \<Rightarrow> node \<Rightarrow> identity_tx \<Rightarrow> string option \<Rightarrow> unit chain_act" where
  "validate_identity E N T sig_hex =
    (let signed_by = tx_signed_by T; guards = identity_guards signed_by (ix_nonce T);
         value = check_value_signature E N T signed_by sig_hex;
         posting = check_posting_signature E N T signed_by sig_hex;
         run = apply_and_bump E T signed_by in
     seq ensure_identity_active
     (case ix_entry T of
        IdentityNftMint name to _ _ \<Rightarrow>
          seq guards
         (seq (if signed_by = ISSUER_ACCOUNT \<or> to \<noteq> signed_by \<or> is_reserved name then value else posting) run)
      | IdentityNftTransfer name from to _ \<Rightarrow>
          seq (ensure (signed_by = from) (Err ''signed_by must equal from''))
         (seq (ensure (from \<noteq> to) (Err ''cannot transfer a name to its current owner''))
         (seq guards (seq value run)))
      | IdentityNftAccept name to _ \<Rightarrow>
          seq (ensure (signed_by = to) (Err ''signed_by must equal recipient'')) (seq guards (seq posting run))
      | IdentityNftReject _ _ _ \<Rightarrow> seq guards (seq posting run)
      | IdentityNftSetRecovery name guardians threshold destination _ _ _ \<Rightarrow>
          seq guards
         (seq (validate_recovery guardians threshold destination)
         (seq (owned_by E name signed_by) (seq value run)))
      | IdentityNftLock name _ _ \<Rightarrow> seq guards (seq (owned_by E name signed_by) (seq value run))
      | IdentityNftUnlock name _ _ _ \<Rightarrow>
          seq guards (seq (under_recovery_authority E N T name signed_by sig_hex) run)
      | IdentityNftRecover name _ _ _ \<Rightarrow>
          seq guards (seq (under_recovery_authority E N T name signed_by sig_hex) run)
      | IdentityNftSetBackstop name _ _ _ \<Rightarrow> seq guards (seq (owned_by E name signed_by) (seq value run))
      | IdentityNftSetPrimary account _ _ \<Rightarrow>
          seq (ensure (signed_by = account) (Err ''signed_by must equal account'')) (seq guards (seq posting run))
      | SoulboundIssue _ _ _ _ _ _ _ \<Rightarrow> seq guards (seq posting run)
      | SoulboundAccept _ _ _ \<Rightarrow> seq guards (seq posting run)
      | SoulboundReject _ _ _ \<Rightarrow> seq guards (seq posting run)
      | SoulboundRevoke _ _ _ \<Rightarrow> seq guards (seq posting run)))"

section \<open>What the checks establish\<close>

definition value_signed :: "env \<Rightarrow> node \<Rightarrow> identity_tx \<Rightarrow> chain \<Rightarrow> string \<Rightarrow> string option \<Rightarrow> bool" where
  "value_signed E N T s a sig \<longleftrightarrow> (\<exists>st k t pk sg.
     get_account s a = Some st \<and> or_else (role_key st ''active'') (role_key st ''owner'') = Some k \<and>
     sig = Some t \<and> t \<noteq> [] \<and> hex_bytes E 32 k = Some pk \<and> hex_bytes E 64 t = Some sg \<and>
     ed25519_verify E pk (identity_message E N T) sg)"

lemma check_value_signature_Inr [guard_simps]:
  "check_value_signature E N T a sig s = (Inr x, s') \<longleftrightarrow> value_signed E N T s a sig \<and> s' = s"
  by (auto simp: check_value_signature_def verify_against_pubkey_def value_signed_def andThen_Inr guard_simps
      split: bind_splits if_splits)

lemma value_signed_fst: "fst (check_value_signature E N T a sig s) = Inr () \<longleftrightarrow> value_signed E N T s a sig"
  using check_value_signature_Inr [of E N T a sig s "()"]
  by (metis (full_types) fst_conv old.unit.exhaust prod.collapse)

definition authorised :: "env \<Rightarrow> node \<Rightarrow> identity_tx \<Rightarrow> chain \<Rightarrow> string \<Rightarrow> bool" where
  "authorised E N T s a \<longleftrightarrow> (\<exists>t. value_signed E N T s a (Some t))"

lemma valid_signers_authorised: "a \<in> set (valid_signers E N T s p ps) \<Longrightarrow> authorised E N T s a"
  by (auto simp: valid_signers_def Let_def value_signed_fst authorised_def split: option.splits if_splits)

lemma distinct_valid_signers: "distinct (valid_signers E N T s p ps)"
  by (simp add: valid_signers_def Let_def)

definition recovery_quorum :: "env \<Rightarrow> node \<Rightarrow> identity_tx \<Rightarrow> chain \<Rightarrow> Recovery \<Rightarrow> bool" where
  "recovery_quorum E N T s rc \<longleftrightarrow>
     unat (rc_threshold rc) \<le> length (filter (authorised E N T s) (rc_guardians rc)) \<or>
     rc_founder_backstop rc \<and> 2 \<le> length (filter (authorised E N T s) IDENTITY_FOUNDER_ACCOUNTS)"

lemma length_filter_mono: "(\<And>x. P x \<Longrightarrow> Q x) \<Longrightarrow> length (filter P xs) \<le> length (filter Q xs)"
  by (induction xs) (auto simp: le_Suc_eq)

lemma verify_recovery_authority_Inr:
  assumes "verify_recovery_authority E N T rc p ps s = (Inr x, s')"
  shows "recovery_quorum E N T s rc \<and> s' = s"
proof -
  let ?v = "valid_signers E N T s p ps" and ?F = IDENTITY_FOUNDER_ACCOUNTS
  have g: "length (filter (\<lambda>g. g \<in> set ?v) (rc_guardians rc)) \<le> length (filter (authorised E N T s) (rc_guardians rc))"
    by (rule length_filter_mono) (rule valid_signers_authorised)
  have "length (filter (\<lambda>a. a \<in> set ?F) ?v) = card (set ?F \<inter> set ?v)"
    using distinct_card [OF distinct_filter [OF distinct_valid_signers]] by (simp add: Int_def conj_commute)
  also have "\<dots> \<le> card (set (filter (authorised E N T s) ?F))"
    using valid_signers_authorised by (intro card_mono) auto
  also have "\<dots> \<le> length (filter (authorised E N T s) ?F)" by (rule card_length)
  finally show ?thesis
    using assms g
    by (auto simp: verify_recovery_authority_def recovery_quorum_def IDENTITY_FOUNDER_THRESHOLD_def Let_def andThen_Inr guard_simps
        ret_apply bail_apply split: if_splits)
qed

lemma guards_Inr [guard_simps]:
  "identity_guards a k s = (Inr x, s') \<longleftrightarrow>
     (a \<in> set STAKE_EXEMPT_ACCOUNTS \<or> (\<forall>st. get_account s a = Some st \<longrightarrow> role_key st ''posting'' \<noteq> None)) \<and>
     k = next_nonce s a \<and> s' = s"
  by (auto simp: identity_guards_def seq_Inr guard_simps)

lemma identity_active_Inr [guard_simps]:
  "ensure_identity_active s = (Inr x, s') \<longleftrightarrow> \<not> current_epoch s < IDENTITY_NFT_ACTIVATION_EPOCH \<and> s' = s"
  by (auto simp: ensure_identity_active_def andThen_Inr guard_simps)

lemma apply_and_bump_Inr:
  assumes "apply_and_bump E T a s = (Inr x, s')"
  obtains s1 where "apply_identity_entry E (ix_entry T) s = (Inr (), s1)" "\<forall>n. get_nft E s' n = get_nft E s1 n"
proof -
  obtain s1 where s1: "apply_identity_entry E (ix_entry T) s = (Inr (), s1)"
    and b: "seq (attempt (bump_nonce a)) (ret ()) s1 = (Inr x, s')"
    using assms by (auto simp: apply_and_bump_def seq_Inr)
  have "keeps cf_meta (seq (attempt (bump_nonce a)) (ret ()))"
    by (intro keeps_intros)
  from keepsD [OF this b] have "\<forall>n. get_nft E s' n = get_nft E s1 n"
    by (simp add: get_nft_def peek_state_get state_get_def)
  with s1 show ?thesis by (rule that)
qed

text \<open>A recovery configuration that is in order is accepted.\<close>

lemma keeps_accounts_put_nft: "keeps cf_accounts (put_nft t)"
  unfolding put_nft_def by (intro keeps_intros)

lemma keeps_accounts_recover: "keeps cf_accounts (apply_identity_entry E (IdentityNftRecover n q a e))"
  unfolding apply_identity_entry.simps apply_nft_recover_def clear_primary_def Let_def
  by (intro keeps_intros keeps_accounts_put_nft)

lemma validate_recovery_state: "validate_recovery gs th d s = (Inr (), s) \<Longrightarrow> validate_recovery gs th d s' = (Inr (), s')"
  by (auto simp: validate_recovery_def act_simps split: option.splits if_splits)

lemma set_recovery_accepted:
  assumes entry: "ix_entry T = IdentityNftSetRecovery n gs th d b a e" and nonce: "ix_nonce T = next_nonce s a"
    and signed: "value_signed E N T s a sig" and valid: "validate_recovery gs th d s = (Inr (), s)"
    and key: "get_account s a = Some st" "role_key st ''posting'' \<noteq> None"
    and name: "names_ok E s" "get_nft E s n = Some t" "nn_owner t = a" "nn_transferable t"
    and active: "\<not> current_epoch s < IDENTITY_NFT_ACTIVATION_EPOCH"
  shows "\<exists>s3. validate_identity E N T sig s = (Inr (), s3) \<and> get_nft E s3 n = Some (t\<lparr>nn_recovery :=
    Some \<lparr>rc_guardians = gs, rc_threshold = th, rc_destination = d, rc_founder_backstop = b\<rparr>\<rparr>)"
proof -
  let ?t = "t\<lparr>nn_recovery := Some \<lparr>rc_guardians = gs, rc_threshold = th, rc_destination = d, rc_founder_backstop = b\<rparr>\<rparr>"
  obtain sa where sa: "touch_alive E a e s = (Inr (), sa)" using touch_alive_result by blast
  obtain sb where sb: "ensure_account d e sa = (Inr (), sb)" using ensure_account_result by blast
  have tb: "get_nft E sb n = Some t"
    using name(2) quiet_get [OF quiet_trans [OF touch_quiet [OF sa] ensure_quiet [OF sb]]] by simp
  obtain sc where sc: "put_nft ?t sb = (Inr (), sc)" using put_nft_returns by blast
  have run: "apply_identity_entry E (IdentityNftSetRecovery n gs th d b a e) s = (Inr (), sc)"
    using sa sb sc tb name(3,4) validate_recovery_state [OF valid, of sb]
    by (simp add: apply_nft_set_recovery_def andThen_apply seq_apply reads_apply need_apply ensure_apply)
  have "fields_writable s a"
    using key by (cases st) (auto simp: fields_writable_def role_key_def)
  then have "fields_writable sc a"
    using preservesD [OF fields_writable_accounts [OF keeps_touch_alive(3)] _ sa] preservesD [OF fields_writable_ensure _ sb]
      preservesD [OF fields_writable_accounts [OF keeps_accounts_put_nft] _ sc] by blast
  then obtain s3 where s3: "seq (attempt (bump_nonce a)) (ret ()) sc = (Inr (), s3)"
    using attempt_bump by (fastforce simp: seq_apply ret_apply)
  have bump: "apply_and_bump E T a s = (Inr (), s3)"
    using run s3 by (auto simp: apply_and_bump_def entry seq_Inr simp del: apply_identity_entry.simps)
  obtain sd where "apply_identity_entry E (ix_entry T) s = (Inr (), sd)" "\<forall>m. get_nft E s3 m = get_nft E sd m"
    by (rule apply_and_bump_Inr [OF bump])
  with run have "get_nft E s3 n = get_nft E sc n" by (simp add: entry)
  moreover have "wrote ?t sb sc" using put_nft_wrote [OF sc] ..
  ultimately have "get_nft E s3 n = Some ?t"
    using names_okD [OF name(1,2)] by (simp add: wrote_get)
  moreover have "validate_identity E N T sig s = (Inr (), s3)"
    using signed valid key name active bump nonce
    by (auto simp: validate_identity_def tx_signed_by_def entry owned_by_def Let_def seq_Inr andThen_Inr guard_simps)
  ultimately show ?thesis by blast
qed

section \<open>Theorems\<close>

text \<open>
  (C10) What moves a name without its owner's key. When a recovery is accepted, the name was minted and
  had a recovery configuration, the entry named the current sequence number, and the canonical message
  of the entry was signed with their active or owner keys by as many guardians as the threshold asks
  for, or, with the backstop on, by two of the founders; the name now belongs to the pinned destination
  and the number has gone up.
\<close>

theorem recovery_authorised:
  assumes "validate_identity E N T sig s = (Inr (), s')" and "ix_entry T = IdentityNftRecover n q a e"
    and "names_ok E s"
  shows "\<exists>t rc. get_nft E s n = Some t \<and> nn_recovery t = Some rc \<and> nn_recovery_seq t = q \<and>
    recovery_quorum E N T s rc \<and>
    get_nft E s' n = Some (t\<lparr>nn_owner := rc_destination rc, nn_recovery_seq := q + 1\<rparr>)"
proof -
  obtain t rc where t: "get_nft E s n = Some t" "nn_recovery t = Some rc" and quorum: "recovery_quorum E N T s rc"
    and run: "apply_and_bump E T a s = (Inr (), s')"
    using assms(1,2)
    by (auto simp: validate_identity_def tx_signed_by_def under_recovery_authority_def Let_def seq_Inr andThen_Inr guard_simps
        dest!: verify_recovery_authority_Inr)
  obtain s1 where s1: "apply_identity_entry E (IdentityNftRecover n q a e) s = (Inr (), s1)"
    and keep: "\<forall>n. get_nft E s' n = get_nft E s1 n"
    using apply_and_bump_Inr [OF run] unfolding assms(2) .
  from s1 obtain s0 where quiet: "quiet s s0" and rec: "apply_nft_recover E n q s0 = (Inr (), s1)"
    unfolding apply_identity_entry.simps by (rule touch_run)
  have t0: "get_nft E s0 n = Some t" using t(1) by (simp add: quiet_get [OF quiet])
  with rec t(2) have q: "q = nn_recovery_seq t"
    by (auto simp: apply_nft_recover_def andThen_Inr seq_Inr guard_simps)
  from wrote_get [OF recover_wrote [OF t0 t(2) rec [unfolded q]], of E n] names_okD [OF assms(3) t(1)] keep q
  have "get_nft E s' n = Some (t\<lparr>nn_owner := rc_destination rc, nn_recovery_seq := q + 1\<rparr>)" by simp
  with t q quorum show ?thesis by blast
qed

text \<open>
  A signed recovery configuration can be put back. Its message carries a sequence number that nothing
  compares and no nonce, so once it was accepted, the same signature is accepted again with the next nonce, in
  any later state in which the name is unlocked and still belongs to the signer and the signer's key is the
  same, whatever configuration the owner has chosen since; the old guardians and the old destination are
  in force again.
\<close>

theorem recovery_setting_replayable:
  assumes first: "validate_identity E N T sig s = (Inr (), s1)"
    and entry: "ix_entry T = IdentityNftSetRecovery n gs th d b a e"
    and key: "get_account s a = Some st" "get_account s2 a = Some st2"
      "or_else (role_key st2 ''active'') (role_key st2 ''owner'') = or_else (role_key st ''active'') (role_key st ''owner'')"
      "role_key st2 ''posting'' \<noteq> None"
    and name: "names_ok E s2" "get_nft E s2 n = Some t" "nn_owner t = a" "nn_transferable t"
    and active: "\<not> current_epoch s2 < IDENTITY_NFT_ACTIVATION_EPOCH"
  shows "\<exists>s3. validate_identity E N (T\<lparr>ix_nonce := next_nonce s2 a\<rparr>) sig s2 = (Inr (), s3) \<and>
    get_nft E s3 n = Some (t\<lparr>nn_recovery := Some \<lparr>rc_guardians = gs, rc_threshold = th, rc_destination = d,
      rc_founder_backstop = b\<rparr>\<rparr>)"
proof -
  let ?T = "T\<lparr>ix_nonce := next_nonce s2 a\<rparr>"
  have msg: "identity_message E N ?T = identity_message E N T"
    by (simp add: identity_message_def identity_fields_def entry)
  from first entry have signed: "value_signed E N T s a sig" and valid: "validate_recovery gs th d s = (Inr (), s)"
    by (auto simp: validate_identity_def tx_signed_by_def owned_by_def Let_def seq_Inr andThen_Inr guard_simps
        validate_recovery_def ret_apply bail_apply split: option.splits)
  have signed2: "value_signed E N ?T s2 a sig"
    using signed key unfolding value_signed_def msg by auto
  show ?thesis
    using entry by (intro set_recovery_accepted [OF _ _ signed2 validate_recovery_state [OF valid] key(2,4) name active]) simp_all
qed

definition demo_recovery_tx :: identity_tx where
  "demo_recovery_tx = \<lparr>ix_entry = IdentityNftRecover ''zed'' 4 ''gina'' 9, ix_signed_by = ''gina'', ix_seq = 0, ix_nonce = 1,
     ix_cosignatures = [(''gus'', demo_sig)]\<rparr>"

definition demo_signer :: json where
  "demo_signer = jobj [(''keys'', jobj [(''active'', JStr demo_key), (''posting'', JStr demo_key)]), (''nonce'', JNum 0)]"

definition demo_guarded_chain :: "NameNft \<Rightarrow> chain" where
  "demo_guarded_chain t = (snd (put_nft t empty_chain))\<lparr>cf_accounts := [(''alice'', demo_signer), (''gina'', demo_signer),
     (''gus'', demo_signer)], current_epoch := 400000\<rparr>"

lemma demo_guarded_nft:
  "get_nft demo_env (demo_guarded_chain t) n = (if n = nn_name t then Some t else None)"
  "nn_transferable t \<or> nn_recovery t \<noteq> None \<Longrightarrow> names_ok demo_env (demo_guarded_chain t)"
proof -
  let ?s = "snd (put_nft t empty_chain)"
  have w: "wrote t empty_chain ?s"
    using put_nft_wrote [of t empty_chain] by (metis prod.collapse)
  have same: "same_names ?s (demo_guarded_chain t)"
    by (simp add: same_names_def name_view_def demo_guarded_chain_def state_get_def)
  have "get_nft demo_env empty_chain n = None" for n
    by (simp add: get_nft_def peek_state_get state_get_def empty_chain_def)
  then show get: "get_nft demo_env (demo_guarded_chain t) n = (if n = nn_name t then Some t else None)" for n
    by (simp add: same_names_get [OF same] wrote_get [OF w])
  show "names_ok demo_env (demo_guarded_chain t)" if "nn_transferable t \<or> nn_recovery t \<noteq> None"
    using that by (auto simp: names_ok_def get same_names_owner [OF same] wrote_owner [OF w])
qed

lemma demo_guarded_accounts:
  "a \<in> {''alice'', ''gina'', ''gus''} \<Longrightarrow> get_account (demo_guarded_chain t) a = Some demo_signer"
  by (auto simp: demo_guarded_chain_def get_account_def kv_get_def)

lemma demo_signer_keys:
  "role_key demo_signer ''active'' = Some demo_key" "role_key demo_signer ''posting'' = Some demo_key"
  by (simp_all add: role_key_def demo_signer_def demo_key_def)

lemma demo_value_signed:
  assumes "a \<in> {''alice'', ''gina'', ''gus''}"
  shows "value_signed demo_env N T (demo_guarded_chain t) a (Some demo_sig)"
proof -
  have "demo_sig \<noteq> []" "ed25519_verify demo_env pk m sg" for pk m sg
    by (simp_all add: demo_sig_def demo_env_def)
  then show ?thesis
    using demo_guarded_accounts [OF assms]
    by (auto simp: value_signed_def demo_signer_keys or_else_def)
qed

lemma demo_recovery_accepted:
  "\<exists>s'. validate_identity demo_env N demo_recovery_tx (Some demo_sig) (demo_guarded_chain demo_nft) = (Inr (), s')"
proof -
  let ?s = "demo_guarded_chain demo_nft"
  obtain rc where t: "get_nft demo_env ?s ''zed'' = Some demo_nft" "nn_recovery demo_nft = Some rc"
    and rc: "rc_guardians rc = [''gina'', ''gus'']" "rc_threshold rc = 2"
    by (simp add: demo_guarded_nft) (simp add: demo_nft_def)
  have "nn_recovery_seq demo_nft = 4" by (simp add: demo_nft_def)
  with recover_returns [OF t, of "''gina''" 9] obtain s1 where
    s1: "apply_identity_entry demo_env (IdentityNftRecover ''zed'' 4 ''gina'' 9) ?s = (Inr (), s1)" by auto
  have "fields_writable ?s ''gina''" by (simp add: fields_writable_def demo_guarded_accounts) (simp add: demo_signer_def jobj_def)
  then have "fields_writable s1 ''gina''"
    using preservesD [OF fields_writable_accounts [OF keeps_accounts_recover] _ s1] by blast
  then obtain s2 where s2: "seq (attempt (bump_nonce ''gina'')) (ret ()) s1 = (Inr (), s2)"
    using attempt_bump by (fastforce simp: seq_apply ret_apply)
  have run: "apply_and_bump demo_env demo_recovery_tx ''gina'' ?s = (Inr (), s2)"
    using s1 s2 by (auto simp: apply_and_bump_def demo_recovery_tx_def seq_Inr simp del: apply_identity_entry.simps)
  have "ix_cosignatures demo_recovery_tx = [(''gus'', demo_sig)]" by (simp add: demo_recovery_tx_def)
  then have "set (valid_signers demo_env N demo_recovery_tx ?s ''gina'' (Some demo_sig)) = {''gina'', ''gus''}"
    by (simp add: valid_signers_def Let_def value_signed_fst demo_value_signed)
  then have auth: "verify_recovery_authority demo_env N demo_recovery_tx rc ''gina'' (Some demo_sig) ?s = (Inr (), ?s)"
    by (simp add: verify_recovery_authority_def Let_def act_simps rc)
  have "next_nonce ?s ''gina'' = 1" "\<not> current_epoch ?s < IDENTITY_NFT_ACTIVATION_EPOCH"
    by (simp_all add: next_nonce_def demo_guarded_accounts demo_signer_def account_nonce_def)
      (simp add: demo_guarded_chain_def IDENTITY_NFT_ACTIVATION_EPOCH_def)
  then have "identity_guards ''gina'' 1 ?s = (Inr (), ?s)" "ensure_identity_active ?s = (Inr (), ?s)"
    by (simp_all add: guard_simps demo_guarded_accounts demo_signer_keys)
  with auth run t show ?thesis
    by (simp add: validate_identity_def Let_def under_recovery_authority_def seq_apply andThen_apply reads_apply need_apply
        tx_signed_by_def demo_recovery_tx_def)
qed

theorem recovery_authorised_witness:
  "\<exists>s' t. validate_identity demo_env demo_node demo_recovery_tx (Some demo_sig) (demo_guarded_chain demo_nft) = (Inr (), s') \<and>
    get_nft demo_env s' ''zed'' = Some t \<and> nn_owner t = ''vault'' \<and> nn_recovery_seq t = 5"
proof -
  obtain s' where acc: "validate_identity demo_env demo_node demo_recovery_tx (Some demo_sig) (demo_guarded_chain demo_nft) = (Inr (), s')"
    using demo_recovery_accepted by blast
  have entry: "ix_entry demo_recovery_tx = IdentityNftRecover ''zed'' 4 ''gina'' 9"
    by (simp add: demo_recovery_tx_def)
  have "names_ok demo_env (demo_guarded_chain demo_nft)"
    by (rule demo_guarded_nft) (simp add: demo_nft_def)
  from recovery_authorised [OF acc entry this] obtain t rc where
    t: "get_nft demo_env (demo_guarded_chain demo_nft) ''zed'' = Some t" "nn_recovery t = Some rc"
    "get_nft demo_env s' ''zed'' = Some (t\<lparr>nn_owner := rc_destination rc, nn_recovery_seq := 4 + 1\<rparr>)" by blast
  from t(1) have "t = demo_nft" by (simp add: demo_guarded_nft split: if_splits)
  with t(2) have "rc_destination rc = ''vault''" by (auto simp: demo_nft_def)
  with acc t(3) show ?thesis by auto
qed

definition demo_setting :: "u64 \<Rightarrow> identity_tx" where
  "demo_setting k = \<lparr>ix_entry = IdentityNftSetRecovery ''zed'' [''gina''] 1 ''lost'' False ''alice'' 9,
     ix_signed_by = ''alice'', ix_seq = 0, ix_nonce = k, ix_cosignatures = []\<rparr>"

theorem recovery_setting_replayable_witness:
  "\<exists>s1 s3 t. validate_identity demo_env demo_node (demo_setting 1) (Some demo_sig)
      (demo_guarded_chain (demo_nft\<lparr>nn_transferable := True, nn_recovery := None\<rparr>)) = (Inr (), s1) \<and>
    validate_identity demo_env demo_node (demo_setting 1) (Some demo_sig)
      (demo_guarded_chain (demo_nft\<lparr>nn_transferable := True\<rparr>)) = (Inr (), s3) \<and>
    get_nft demo_env s3 ''zed'' = Some t \<and> map_option rc_destination (nn_recovery t) = Some ''lost''"
proof -
  let ?t = "demo_nft\<lparr>nn_transferable := True, nn_recovery := None\<rparr>" and ?u = "demo_nft\<lparr>nn_transferable := True\<rparr>"
  have entry: "ix_entry (demo_setting 1) = IdentityNftSetRecovery ''zed'' [''gina''] 1 ''lost'' False ''alice'' 9"
    by (simp add: demo_setting_def)
  have valid: "validate_recovery [''gina''] 1 ''lost'' s = (Inr (), s)" for s
    by (simp add: validate_recovery_def act_simps trim_def is_ws_def)
  have facts: "names_ok demo_env (demo_guarded_chain t)" "get_nft demo_env (demo_guarded_chain t) ''zed'' = Some t"
    "next_nonce (demo_guarded_chain t) ''alice'' = 1" "nn_owner t = ''alice''" "nn_transferable t"
    if "t \<in> {?t, ?u}" for t
    using that by (auto simp: demo_guarded_nft demo_nft_def next_nonce_def demo_guarded_accounts demo_signer_def account_nonce_def)
  have active: "\<not> current_epoch (demo_guarded_chain t) < IDENTITY_NFT_ACTIVATION_EPOCH" for t
    by (simp add: demo_guarded_chain_def IDENTITY_NFT_ACTIVATION_EPOCH_def)
  have acct: "get_account (demo_guarded_chain t) ''alice'' = Some demo_signer" for t
    by (simp add: demo_guarded_accounts)
  have posting: "role_key demo_signer ''posting'' \<noteq> None" by (simp add: demo_signer_keys)
  have nonce: "ix_nonce (demo_setting 1) = next_nonce (demo_guarded_chain ?t) ''alice''"
    using facts(3) [of ?t] by (simp add: demo_setting_def)
  obtain s1 where s1: "validate_identity demo_env demo_node (demo_setting 1) (Some demo_sig) (demo_guarded_chain ?t) = (Inr (), s1)"
    using set_recovery_accepted [OF entry nonce demo_value_signed valid acct posting facts(1,2,4,5) active] by auto
  have "(demo_setting 1)\<lparr>ix_nonce := next_nonce (demo_guarded_chain ?u) ''alice''\<rparr> = demo_setting 1"
    using facts(3) [of ?u] by (simp add: demo_setting_def)
  with recovery_setting_replayable [OF s1 entry acct acct refl posting facts(1,2,4,5) [of ?u] active]
  obtain s3 where "validate_identity demo_env demo_node (demo_setting 1) (Some demo_sig) (demo_guarded_chain ?u) = (Inr (), s3)"
    "get_nft demo_env s3 ''zed'' = Some (?u\<lparr>nn_recovery := Some \<lparr>rc_guardians = [''gina''], rc_threshold = 1,
      rc_destination = ''lost'', rc_founder_backstop = False\<rparr>\<rparr>)" by auto
  with s1 show ?thesis by auto
qed

end
