(* ===== verification/Vrf.thy ===== *)
theory Vrf
  imports Records "HOL-Library.Multiset"
begin

text \<open>
  The random beacon (\<open>vrf.rs\<close>): clock nodes commit to a secret for an epoch with a deposit, reveal it,
  and the exclusive or of the hashes of the revealed secrets becomes the beacon; the sweep at the seal
  of an epoch closes the round of two epochs before and keeps the deposits of those who did not reveal.

  What the deposits do is stated exactly: balances and held deposits add up to the same sum over any
  sequence of entries and sweeps, except that a reveal after the round was closed pays out once more the
  deposit that the sweep has already given to the recycle fund. Without such reveals the beacon of a
  round in which all reveal is fixed by the commitments, whatever the order of commits and reveals; and
  whoever reveals last chooses between two known values of it.
\<close>

section \<open>State\<close>

definition COMMIT_DEPOSIT_HUNITS :: u64 where "COMMIT_DEPOSIT_HUNITS = 10000"

definition REVEAL_WINDOW_EPOCHS :: u64 where "REVEAL_WINDOW_EPOCHS = 2"

record VrfCommitRecord =
  vk_committer :: string
  vk_commit_hash :: string
  vk_revealed_secret :: "string option"
  vk_deposit_refunded :: bool

record VrfRound =
  vr_epoch :: u64
  vr_commits :: "VrfCommitRecord list"
  vr_beacon :: "string option"
  vr_finalised :: bool

definition VrfCommitRecord_json :: "VrfCommitRecord \<Rightarrow> json" where
  "VrfCommitRecord_json c = jobj [
     (''committer'', JStr (vk_committer c)), (''commit_hash'', JStr (vk_commit_hash c)),
     (''revealed_secret'', jopt_str (vk_revealed_secret c)),
     (''deposit_refunded'', JBool (vk_deposit_refunded c))]"

definition VrfCommitRecord_of_json :: "json \<Rightarrow> VrfCommitRecord option" where
  "VrfCommitRecord_of_json j =
     Option.bind (field_str j ''committer'') (\<lambda>committer.
     Option.bind (field_str j ''commit_hash'') (\<lambda>commit_hash.
     Option.bind (field_opt as_str j ''revealed_secret'') (\<lambda>revealed_secret.
     Option.bind (field_bool j ''deposit_refunded'') (\<lambda>deposit_refunded.
     Some \<lparr>vk_committer = committer, vk_commit_hash = commit_hash,
       vk_revealed_secret = revealed_secret, vk_deposit_refunded = deposit_refunded\<rparr>))))"

definition VrfRound_json :: "VrfRound \<Rightarrow> json" where
  "VrfRound_json r = jobj [
     (''epoch'', JNum (vr_epoch r)), (''commits'', vec_json VrfCommitRecord_json (vr_commits r)),
     (''beacon'', jopt_str (vr_beacon r)), (''finalised'', JBool (vr_finalised r))]"

definition VrfRound_of_json :: "json \<Rightarrow> VrfRound option" where
  "VrfRound_of_json j =
     Option.bind (field_u64 j ''epoch'') (\<lambda>epoch.
     Option.bind (field_vec VrfCommitRecord_of_json j ''commits'') (\<lambda>commits.
     Option.bind (field_opt as_str j ''beacon'') (\<lambda>beacon.
     Option.bind (field_bool j ''finalised'') (\<lambda>finalised.
     Some \<lparr>vr_epoch = epoch, vr_commits = commits, vr_beacon = beacon, vr_finalised = finalised\<rparr>))))"

interpretation vrf_commit_rec: record_codec VrfCommitRecord_json VrfCommitRecord_of_json
  by unfold_locales
    (simp add: VrfCommitRecord_of_json_def VrfCommitRecord_json_def field_str_def field_bool_def)

definition round_key :: "u64 \<Rightarrow> string" where
  "round_key epoch = ''vrf_round:'' @ show_u64 epoch"

abbreviation get_round :: "env \<Rightarrow> chain \<Rightarrow> u64 \<Rightarrow> VrfRound option" where
  "get_round E s e \<equiv> peek E VrfRound_of_json s (round_key e)"

abbreviation save_round :: "u64 \<Rightarrow> VrfRound \<Rightarrow> unit chain_act" where
  "save_round e \<equiv> save_record VrfRound_json (round_key e)"

text \<open>The deposits a round still holds.\<close>

definition held_deposits :: "VrfRound \<Rightarrow> int" where
  "held_deposits r = uint COMMIT_DEPOSIT_HUNITS * int (length (filter (\<lambda>c. \<not> vk_deposit_refunded c) (vr_commits r)))"

interpretation rounds: escrow_table VrfRound_json VrfRound_of_json "''vrf_round:''" held_deposits
  by unfold_locales
    (simp_all add: VrfRound_of_json_def VrfRound_json_def field_u64_def field_bool_def field_vec_def
      vrf_commit_rec.as_vec_json held_deposits_def COMMIT_DEPOSIT_HUNITS_def)

section \<open>Operations\<close>

text \<open>\<open>epoch.to_be_bytes()\<close>.\<close>

definition to_be :: "u64 \<Rightarrow> string" where
  "to_be w = rev (to_le w)"

definition apply_vrf_commit :: "env \<Rightarrow> string \<Rightarrow> string \<Rightarrow> u64 \<Rightarrow> unit chain_act" where
  "apply_vrf_commit E committer commit_hash epoch =
     andThen (reads (\<lambda>s. state_get s (''clock_node:'' @ committer))) (\<lambda>reg.
     seq (ensure (reg \<noteq> None) (Err ''committer is not a registered clock node''))
    (andThen (reads (\<lambda>s. case get_round E s epoch of Some round \<Rightarrow> round
        | None \<Rightarrow> \<lparr>vr_epoch = epoch, vr_commits = [], vr_beacon = None, vr_finalised = False\<rparr>)) (\<lambda>round.
     seq (ensure (\<not> vr_finalised round) (Err ''VRF round already finalised''))
    (seq (ensure (\<not> list_ex (\<lambda>c. vk_committer c = committer) (vr_commits round)) (Err ''already committed''))
    (seq (debit committer NATIVE_TOKEN COMMIT_DEPOSIT_HUNITS)
         (save_round epoch (round\<lparr>vr_commits := vr_commits round @ [\<lparr>vk_committer = committer,
            vk_commit_hash = commit_hash, vk_revealed_secret = None, vk_deposit_refunded = False\<rparr>]\<rparr>)))))))"

text \<open>\<open>beacon.iter_mut().zip(hash.iter())\<close> with \<open>*b ^= h\<close>.\<close>

fun xor_into :: "string \<Rightarrow> string \<Rightarrow> string" where
  "xor_into [] hs = []"
| "xor_into bs [] = bs"
| "xor_into (b # bs) (h # hs) = char_of (xor (of_char b :: nat) (of_char h)) # xor_into bs hs"

definition fold_secret :: "env \<Rightarrow> string \<Rightarrow> VrfCommitRecord \<Rightarrow> string" where
  "fold_secret E beacon commit =
    (case vk_revealed_secret commit of
       None \<Rightarrow> beacon
     | Some secret_hex \<Rightarrow> (case hex_decode E secret_hex of
         None \<Rightarrow> beacon
       | Some bytes \<Rightarrow> xor_into beacon (sha256 E bytes)))"

definition round_beacon :: "env \<Rightarrow> VrfCommitRecord list \<Rightarrow> string" where
  "round_beacon E commits = foldl (fold_secret E) (replicate 32 (CHR 0x00)) commits"

definition finalise_round :: "env \<Rightarrow> VrfRound \<Rightarrow> u64 \<Rightarrow> VrfRound chain_act" where
  "finalise_round E round epoch =
    (let beacon_hex = hex_encode E (round_beacon E (vr_commits round)) in
     seq (state_set ''vrf:latest_beacon'' (Json (jobj [(''beacon'', JStr beacon_hex), (''epoch'', JNum epoch)])))
         (ret (round\<lparr>vr_beacon := Some beacon_hex, vr_finalised := True\<rparr>)))"

text \<open>The first record of the committer is the one that \<open>find\<close> returns and the handler changes.\<close>

fun reveal_first :: "string \<Rightarrow> string \<Rightarrow> VrfCommitRecord list \<Rightarrow> VrfCommitRecord list" where
  "reveal_first committer secret_hex [] = []"
| "reveal_first committer secret_hex (c # cs) =
    (if vk_committer c = committer
     then c\<lparr>vk_revealed_secret := Some secret_hex, vk_deposit_refunded := True\<rparr> # cs
     else c # reveal_first committer secret_hex cs)"

definition apply_vrf_reveal :: "env \<Rightarrow> string \<Rightarrow> string \<Rightarrow> u64 \<Rightarrow> unit chain_act" where
  "apply_vrf_reveal E committer secret_hex epoch =
     andThen (load_record E VrfRound_of_json (round_key epoch) ''VRF round not found'') (\<lambda>round.
     andThen (need (find (\<lambda>c. vk_committer c = committer) (vr_commits round)) (Err ''no commit found'')) (\<lambda>commit.
     seq (ensure (vk_revealed_secret commit = None) (Err ''already revealed''))
    (andThen (need (hex_decode E secret_hex) (Err ''invalid secret hex'')) (\<lambda>secret_bytes.
     seq (ensure (hex_encode E (sha256 E (secret_bytes @ to_be epoch)) = vk_commit_hash commit)
           (Err ''reveal does not match commit''))
    (let round' = round\<lparr>vr_commits := reveal_first committer secret_hex (vr_commits round)\<rparr> in
     seq (credit committer NATIVE_TOKEN COMMIT_DEPOSIT_HUNITS)
    (andThen (if list_all (\<lambda>c. vk_revealed_secret c \<noteq> None) (vr_commits round')
              then finalise_round E round' epoch else ret round')
       (save_round epoch)))))))"

definition sweep_epoch :: "env \<Rightarrow> u64 \<Rightarrow> unit chain_act" where
  "sweep_epoch E epoch =
    (let slash_epoch = sat_sub epoch REVEAL_WINDOW_EPOCHS in
     andThen (reads (\<lambda>s. get_round E s slash_epoch)) (\<lambda>found.
     case found of
       None \<Rightarrow> ret ()
     | Some round \<Rightarrow>
         if vr_finalised round then ret ()
         else
           seq (each (\<lambda>c. seq (attempt (credit RECYCLE_FUND_ACCOUNT NATIVE_TOKEN COMMIT_DEPOSIT_HUNITS)) (ret ()))
                 (filter (\<lambda>c. \<not> vk_deposit_refunded c) (vr_commits round)))
          (andThen (finalise_round E
              (round\<lparr>vr_commits := map (\<lambda>c. c\<lparr>vk_deposit_refunded := True\<rparr>) (vr_commits round)\<rparr>) slash_epoch)
            (save_round slash_epoch))))"

definition derive_from_beacon :: "env \<Rightarrow> chain \<Rightarrow> string \<Rightarrow> string option" where
  "derive_from_beacon E s domain =
     Option.bind (state_json E s ''vrf:latest_beacon'') (\<lambda>j.
     Option.bind (as_str (jget j ''beacon'')) (\<lambda>beacon_hex.
     map_option (\<lambda>beacon. sha256 E (beacon @ domain)) (hex_decode E beacon_hex)))"

datatype vrf_entry = VrfCommit string string u64 | VrfReveal string string u64 | VrfSweep u64

fun apply_vrf_entry :: "env \<Rightarrow> vrf_entry \<Rightarrow> unit chain_act" where
  "apply_vrf_entry E (VrfCommit committer commit_hash epoch) = apply_vrf_commit E committer commit_hash epoch"
| "apply_vrf_entry E (VrfReveal committer secret_hex epoch) = apply_vrf_reveal E committer secret_hex epoch"
| "apply_vrf_entry E (VrfSweep epoch) = sweep_epoch E epoch"

fun run_vrf :: "env \<Rightarrow> vrf_entry list \<Rightarrow> chain \<Rightarrow> chain" where
  "run_vrf E [] s = s"
| "run_vrf E (x # xs) s = run_vrf E xs (snd (apply_vrf_entry E x s))"

section \<open>The state of a round\<close>

text \<open>The secret opens the commitment.\<close>

definition opens_commit :: "env \<Rightarrow> u64 \<Rightarrow> VrfCommitRecord \<Rightarrow> string \<Rightarrow> bool" where
  "opens_commit E e c t \<longleftrightarrow>
    (\<exists>b. hex_decode E t = Some b \<and> hex_encode E (sha256 E (b @ to_be e)) = vk_commit_hash c)"

definition all_revealed :: "VrfRound \<Rightarrow> bool" where
  "all_revealed r \<longleftrightarrow> list_all (\<lambda>c. vk_revealed_secret c \<noteq> None) (vr_commits r)"

definition record_ok :: "env \<Rightarrow> u64 \<Rightarrow> bool \<Rightarrow> VrfCommitRecord \<Rightarrow> bool" where
  "record_ok E e finalised c \<longleftrightarrow>
    (case vk_revealed_secret c of
       None \<Rightarrow> vk_deposit_refunded c = finalised
     | Some t \<Rightarrow> vk_deposit_refunded c \<and> opens_commit E e c t)"

definition round_ok :: "env \<Rightarrow> u64 \<Rightarrow> VrfRound \<Rightarrow> bool" where
  "round_ok E e r \<longleftrightarrow> vr_epoch r = e \<and> vr_commits r \<noteq> [] \<and> distinct (map vk_committer (vr_commits r)) \<and>
     (\<forall>c \<in> set (vr_commits r). record_ok E e (vr_finalised r) c) \<and> (all_revealed r \<longrightarrow> vr_finalised r)"

definition vrf_rounds_ok :: "env \<Rightarrow> chain \<Rightarrow> bool" where
  "vrf_rounds_ok E s \<longleftrightarrow> (\<forall>e r. get_round E s e = Some r \<longrightarrow> round_ok E e r)"

definition beacons_ok :: "env \<Rightarrow> chain \<Rightarrow> bool" where
  "beacons_ok E s \<longleftrightarrow> (\<forall>e r. get_round E s e = Some r \<longrightarrow> vr_finalised r \<longrightarrow>
     vr_beacon r = Some (hex_encode E (round_beacon E (vr_commits r))))"

definition close_round :: "env \<Rightarrow> VrfRound \<Rightarrow> VrfRound" where
  "close_round E r = r\<lparr>vr_beacon := Some (hex_encode E (round_beacon E (vr_commits r))), vr_finalised := True\<rparr>"

definition close_if_done :: "env \<Rightarrow> VrfRound \<Rightarrow> VrfRound" where
  "close_if_done E r = (if all_revealed r then close_round E r else r)"

abbreviation with_reveal :: "VrfRound \<Rightarrow> string \<Rightarrow> string \<Rightarrow> VrfRound" where
  "with_reveal r c t \<equiv> r\<lparr>vr_commits := reveal_first c t (vr_commits r)\<rparr>"

abbreviation with_commit :: "VrfRound \<Rightarrow> string \<Rightarrow> string \<Rightarrow> VrfRound" where
  "with_commit r c h \<equiv> r\<lparr>vr_commits := vr_commits r @ [\<lparr>vk_committer = c, vk_commit_hash = h,
     vk_revealed_secret = None, vk_deposit_refunded = False\<rparr>]\<rparr>"

abbreviation swept :: "VrfRound \<Rightarrow> VrfRound" where
  "swept r \<equiv> r\<lparr>vr_commits := map (\<lambda>c. c\<lparr>vk_deposit_refunded := True\<rparr>) (vr_commits r)\<rparr>"

abbreviation fresh_round :: "u64 \<Rightarrow> VrfRound" where
  "fresh_round e \<equiv> \<lparr>vr_epoch = e, vr_commits = [], vr_beacon = None, vr_finalised = False\<rparr>"

lemma finalise_round_apply:
  "finalise_round E r e s = (Inr (close_round E r), snd (state_set ''vrf:latest_beacon''
     (Json (jobj [(''beacon'', JStr (hex_encode E (round_beacon E (vr_commits r)))), (''epoch'', JNum e)])) s))"
  by (simp add: finalise_round_def close_round_def Let_def seq_apply ret_apply state_set_def act_simps)

text \<open>What one accepted operation does to a round, to the balances and to the other rounds.\<close>

definition vrf_value :: "env \<Rightarrow> chain \<Rightarrow> int" where
  "vrf_value E s = escrow_value E VrfRound_of_json ''vrf_round:'' held_deposits s"

definition round_step :: "env \<Rightarrow> u64 \<Rightarrow> VrfRound \<Rightarrow> int \<Rightarrow> chain \<Rightarrow> chain \<Rightarrow> bool" where
  "round_step E e r' d s s' \<longleftrightarrow>
     vrf_value E s' = vrf_value E s + d + held_deposits r' - rounds.owed E s (round_key e) \<and>
     (\<forall>k. get_round E s' k = (if k = e then Some r' else get_round E s k)) \<and>
     (\<forall>k. \<not> prefix ''vrf'' k \<longrightarrow> state_get s' k = state_get s k)"

lemma round_key_simps [simp]:
  "round_key e = round_key k \<longleftrightarrow> e = k" "prefix ''vrf_round:'' (round_key e)" "round_key e \<noteq> ''vrf:latest_beacon''"
  using dec64.encode_inject by (simp_all add: round_key_def)

lemma round_step_intro:
  assumes meta: "cf_meta s1 = cf_meta s" and bal: "hone_total s1 = hone_total s + d"
    and mid: "s2 = s1 \<or> (\<exists>v. s2 = snd (state_set ''vrf:latest_beacon'' v s1))"
    and sv: "save_round e r' s2 = (x, s')"
  shows "round_step E e r' d s s'"
proof -
  have v1: "vrf_value E s1 = vrf_value E s + d"
    using bal meta by (simp add: vrf_value_def escrow_value_def record_total_def)
  have v2: "vrf_value E s2 = vrf_value E s1"
    using mid by (auto simp: vrf_value_def keeps_escrow_other(1) [unfolded keeps_def, rule_format])
  have g: "get_round E s2 k = get_round E s k" for k
    using mid meta round_key_simps(3) [of k, symmetric]
    by (auto simp: peek_state_get state_get_def state_set_def act_simps)
  have "vrf_value E s' = vrf_value E s2 + held_deposits r' - rounds.owed E s2 (round_key e)"
    using rounds.escrow_save [OF sv] by (simp add: vrf_value_def)
  moreover have "get_round E s' k = (if k = e then Some r' else get_round E s k)" for k
    using rounds.peek_save [OF sv, of E] peek_save_other [OF sv, of "round_key k" E VrfRound_of_json] g by auto
  moreover have "state_get s' k = state_get s k" if "\<not> prefix ''vrf'' k" for k
  proof -
    have "k \<noteq> round_key e" "k \<noteq> ''vrf:latest_beacon''" using that by (auto simp: round_key_def)
    then have "state_get s' k = state_get s2 k" "state_get s2 k = state_get s1 k"
      using sv mid by (auto simp: save_record_def state_get_set state_set_def state_get_def act_simps)
    then show ?thesis using meta by (simp add: state_get_def)
  qed
  ultimately show ?thesis
    using v1 v2 g by (simp add: round_step_def)
qed

lemma commit_accepted:
  assumes "state_get s (''clock_node:'' @ c) \<noteq> None"
    and r: "get_round E s e = Some r \<or> get_round E s e = None \<and> r = fresh_round e" "\<not> vr_finalised r"
      "c \<notin> vk_committer ` set (vr_commits r)"
    and bal: "COMMIT_DEPOSIT_HUNITS \<le> get_balance s c NATIVE_TOKEN"
  obtains s' where "apply_vrf_commit E c h e s = (Inr (), s')"
    "round_step E e (with_commit r c h) (- uint COMMIT_DEPOSIT_HUNITS) s s'"
    "\<forall>a. uint (get_balance s' a NATIVE_TOKEN) =
      uint (get_balance s a NATIVE_TOKEN) - (if a = c then uint COMMIT_DEPOSIT_HUNITS else 0)"
proof -
  obtain z s1 where d: "debit c NATIVE_TOKEN COMMIT_DEPOSIT_HUNITS s = (Inr z, s1)"
    using bal by (simp add: debit_cases)
  obtain s' where sv: "save_round e (with_commit r c h) s1 = (Inr (), s')" by (simp add: save_record_apply)
  have "(case get_round E s e of Some r \<Rightarrow> r | None \<Rightarrow> fresh_round e) = r" using r(1) by auto
  then have "apply_vrf_commit E c h e s = (Inr (), s')"
    using assms d sv
    by (auto simp: apply_vrf_commit_def andThen_apply seq_apply reads_apply ensure_apply list_ex_iff)
  moreover have "round_step E e (with_commit r c h) (- uint COMMIT_DEPOSIT_HUNITS) s s'"
    by (rule round_step_intro [OF _ _ disjI1 [OF refl] sv]) (use debit_run [OF d] in auto)
  moreover have "get_balance s' a NATIVE_TOKEN = get_balance s1 a NATIVE_TOKEN" for a
    by (rule balances_kept [OF keeps_save_record(1) sv])
  ultimately show ?thesis using that debit_balances [OF d] by simp
qed

lemma commit_step:
  assumes run: "apply_vrf_commit E c h e s = (x, s')"
  obtains "s' = s"
  | r where "get_round E s e = Some r \<or> get_round E s e = None \<and> r = fresh_round e" "\<not> vr_finalised r"
      "c \<notin> vk_committer ` set (vr_commits r)"
      "round_step E e (with_commit r c h) (- uint COMMIT_DEPOSIT_HUNITS) s s'"
proof (cases "s' = s")
  case False
  define r where "r = (case get_round E s e of Some r \<Rightarrow> r | None \<Rightarrow> fresh_round e)"
  from False run have ok: "state_get s (''clock_node:'' @ c) \<noteq> None"
    "\<not> vr_finalised r" "c \<notin> vk_committer ` set (vr_commits r)"
    "COMMIT_DEPOSIT_HUNITS \<le> get_balance s c NATIVE_TOKEN"
    by (auto simp: apply_vrf_commit_def andThen_apply seq_apply reads_apply ensure_apply list_ex_iff r_def [symmetric]
        debit_cases split: if_splits)
  have r: "get_round E s e = Some r \<or> get_round E s e = None \<and> r = fresh_round e"
    by (simp add: r_def split: option.split)
  show ?thesis
    by (rule commit_accepted [OF ok(1) r ok(2-4), of h]) (use that(2) r ok run in auto)
qed (use that in blast)

lemma reveal_accepted:
  assumes r: "get_round E s e = Some r" "find (\<lambda>k. vk_committer k = c) (vr_commits r) = Some k"
      "vk_revealed_secret k = None" "opens_commit E e k t"
    and room: "unat (get_balance s c NATIVE_TOKEN) + unat COMMIT_DEPOSIT_HUNITS < 2 ^ 64"
  obtains s' where "apply_vrf_reveal E c t e s = (Inr (), s')"
    "round_step E e (close_if_done E (with_reveal r c t)) (uint COMMIT_DEPOSIT_HUNITS) s s'"
    "\<forall>a. uint (get_balance s' a NATIVE_TOKEN) =
      uint (get_balance s a NATIVE_TOKEN) + (if a = c then uint COMMIT_DEPOSIT_HUNITS else 0)"
proof -
  obtain z s1 where cr: "credit c NATIVE_TOKEN COMMIT_DEPOSIT_HUNITS s = (Inr z, s1)"
    using room by (simp add: credit_cases)
  let ?r = "with_reveal r c t"
  define s2 where "s2 = (if all_revealed ?r then snd (finalise_round E ?r e s1) else s1)"
  obtain s' where sv: "save_round e (close_if_done E ?r) s2 = (Inr (), s')" by (simp add: save_record_apply)
  have fin: "(if all_revealed ?r then finalise_round E ?r e else ret ?r) s1 = (Inr (close_if_done E ?r), s2)"
    by (simp add: s2_def close_if_done_def finalise_round_apply ret_apply)
  obtain b where b: "hex_decode E t = Some b" "hex_encode E (sha256 E (b @ to_be e)) = vk_commit_hash k"
    using r(4) by (auto simp: opens_commit_def)
  have "apply_vrf_reveal E c t e s = (Inr (), s')"
    using r b cr fin sv
    by (simp add: apply_vrf_reveal_def andThen_apply load_record_apply need_apply seq_apply ensure_apply
        all_revealed_def Let_def)
  moreover have mid: "s2 = s1 \<or> (\<exists>v. s2 = snd (state_set ''vrf:latest_beacon'' v s1))"
    by (auto simp: s2_def finalise_round_apply)
  moreover from mid have "round_step E e (close_if_done E ?r) (uint COMMIT_DEPOSIT_HUNITS) s s'"
    using round_step_intro [OF _ _ _ sv] credit_run [OF cr] by blast
  moreover have "cf_balances s' = cf_balances s1"
    using mid keepsD [OF keeps_save_record(1) sv] keeps_balances_writes(4) by (auto simp: keeps_def)
  then have "get_balance s' a NATIVE_TOKEN = get_balance s1 a NATIVE_TOKEN" for a by (simp add: get_balance_def)
  ultimately show ?thesis using that credit_balances [OF cr] by simp
qed

lemma reveal_step:
  assumes run: "apply_vrf_reveal E c t e s = (x, s')"
  obtains "s' = s" "x \<noteq> Inr ()"
  | r k where "get_round E s e = Some r" "find (\<lambda>k. vk_committer k = c) (vr_commits r) = Some k"
      "vk_revealed_secret k = None" "opens_commit E e k t" "x = Inr ()"
      "round_step E e (close_if_done E (with_reveal r c t)) (uint COMMIT_DEPOSIT_HUNITS) s s'"
proof (cases "\<exists>r k. get_round E s e = Some r \<and> find (\<lambda>k. vk_committer k = c) (vr_commits r) = Some k \<and>
    vk_revealed_secret k = None \<and> opens_commit E e k t \<and>
    unat (get_balance s c NATIVE_TOKEN) + unat COMMIT_DEPOSIT_HUNITS < 2 ^ 64")
  case False
  then have "s' = s \<and> x \<noteq> Inr ()"
    using run
    by (auto simp: apply_vrf_reveal_def andThen_apply load_record_apply need_apply seq_apply ensure_apply
        opens_commit_def Let_def credit_cases split: option.splits if_splits)
  then show ?thesis using that(1) by blast
next
  case True
  then obtain r k where r: "get_round E s e = Some r" "find (\<lambda>k. vk_committer k = c) (vr_commits r) = Some k"
    "vk_revealed_secret k = None" "opens_commit E e k t"
    "unat (get_balance s c NATIVE_TOKEN) + unat COMMIT_DEPOSIT_HUNITS < 2 ^ 64" by blast
  show ?thesis
    by (rule reveal_accepted [OF r]) (use that(2) r run in auto)
qed

lemma pay_deposits:
  assumes "hone_total s + uint COMMIT_DEPOSIT_HUNITS * int (length cs) < 2 ^ 64"
  shows "\<exists>s'. each (\<lambda>c. seq (attempt (credit RECYCLE_FUND_ACCOUNT NATIVE_TOKEN COMMIT_DEPOSIT_HUNITS)) (ret ())) cs s =
      (Inr (), s') \<and> cf_meta s' = cf_meta s \<and> hone_total s' = hone_total s + uint COMMIT_DEPOSIT_HUNITS * int (length cs)"
  using assms
proof (induction cs arbitrary: s)
  case Nil
  then show ?case by (simp add: ret_apply)
next
  case (Cons c cs)
  have "0 \<le> uint COMMIT_DEPOSIT_HUNITS * int (length cs)" by simp
  then have "hone_total s + uint COMMIT_DEPOSIT_HUNITS < 2 ^ 64"
    using Cons.prems by (simp only: length_Cons of_nat_Suc distrib_left mult_1_right)
  then obtain x s1 where cr: "credit RECYCLE_FUND_ACCOUNT NATIVE_TOKEN COMMIT_DEPOSIT_HUNITS s = (Inr x, s1)"
    using credit_succeeds by blast
  from Cons.IH [of s1] Cons.prems credit_run [OF cr] cr show ?case
    by (auto simp: seq_apply attempt_apply ret_apply algebra_simps)
qed

lemma sweep_closes:
  assumes fits: "vrf_value E s < 2 ^ 64" and k: "k = sat_sub e REVEAL_WINDOW_EPOCHS"
    and r: "get_round E s k = Some r" "\<not> vr_finalised r"
  obtains s' where "sweep_epoch E e s = (Inr (), s')"
    "round_step E k (close_round E (swept r)) (held_deposits r) s s'"
proof -
  let ?cs = "filter (\<lambda>c. \<not> vk_deposit_refunded c) (vr_commits r)"
  have "held_deposits r \<le> record_total E VrfRound_of_json ''vrf_round:'' held_deposits s"
    using rounds.owed_le [of "round_key k" E s] r by simp
  then have "hone_total s + uint COMMIT_DEPOSIT_HUNITS * int (length ?cs) < 2 ^ 64"
    using fits by (simp add: vrf_value_def escrow_value_def held_deposits_def)
  from pay_deposits [OF this] obtain s1 where p: "each (\<lambda>c. seq (attempt (credit RECYCLE_FUND_ACCOUNT NATIVE_TOKEN
      COMMIT_DEPOSIT_HUNITS)) (ret ())) ?cs s = (Inr (), s1)" "cf_meta s1 = cf_meta s"
    "hone_total s1 = hone_total s + held_deposits r" by (auto simp: held_deposits_def)
  obtain s' where sv: "save_round k (close_round E (swept r)) (snd (finalise_round E (swept r) k s1)) = (Inr (), s')"
    by (simp add: save_record_apply)
  have "sweep_epoch E e s = (Inr (), s')"
    using r p(1) sv
    by (simp add: sweep_epoch_def Let_def k [symmetric] andThen_apply reads_apply seq_apply finalise_round_apply)
  moreover have "round_step E k (close_round E (swept r)) (held_deposits r) s s'"
    by (rule round_step_intro [OF p(2,3) _ sv]) (auto simp: finalise_round_apply)
  ultimately show ?thesis using that by blast
qed

lemma sweep_step:
  assumes run: "sweep_epoch E e s = (x, s')" and fits: "vrf_value E s < 2 ^ 64"
  defines "k \<equiv> sat_sub e REVEAL_WINDOW_EPOCHS"
  obtains "s' = s"
  | r where "get_round E s k = Some r" "\<not> vr_finalised r"
      "round_step E k (close_round E (swept r)) (held_deposits r) s s'"
proof (cases "\<exists>r. get_round E s k = Some r \<and> \<not> vr_finalised r")
  case False
  then have "s' = s"
    using run
    by (auto simp: sweep_epoch_def Let_def k_def [symmetric] andThen_apply reads_apply ret_apply split: option.splits if_splits)
  then show ?thesis using that(1) by blast
next
  case True
  then obtain r where r: "get_round E s k = Some r" "\<not> vr_finalised r" by blast
  show ?thesis
    by (rule sweep_closes [OF fits k_def [THEN meta_eq_to_obj_eq] r]) (use that(2) r run in auto)
qed

section \<open>What a reveal does to the records\<close>

lemma committers_reveal [simp]: "map vk_committer (reveal_first c t cs) = map vk_committer cs"
  by (induction cs) auto

lemma set_reveal_first:
  "find (\<lambda>k. vk_committer k = c) cs = Some k \<Longrightarrow> distinct (map vk_committer cs) \<Longrightarrow>
    set (reveal_first c t cs) =
      insert (k\<lparr>vk_revealed_secret := Some t, vk_deposit_refunded := True\<rparr>) (set cs - {k})"
proof (induction cs)
  case (Cons x cs)
  then show ?case
    by (cases "vk_committer x = c") (auto simp: find_Some_iff image_iff)
qed simp

lemma unrefunded_reveal:
  "find (\<lambda>k. vk_committer k = c) cs = Some k \<Longrightarrow>
    length (filter (\<lambda>k. \<not> vk_deposit_refunded k) cs) =
    length (filter (\<lambda>k. \<not> vk_deposit_refunded k) (reveal_first c t cs)) + (if vk_deposit_refunded k then 0 else 1)"
  by (induction cs) (auto split: if_splits)

lemma found_member: "find P xs = Some x \<Longrightarrow> x \<in> set xs \<and> P x"
  by (auto simp: find_Some_iff)

text \<open>Closing a round does not change who committed and revealed what.\<close>

lemma close_simps [simp]:
  "vr_commits (close_round E r) = vr_commits r" "vr_epoch (close_round E r) = vr_epoch r"
  "vr_finalised (close_round E r)" "vr_commits (close_if_done E r) = vr_commits r"
  "vr_epoch (close_if_done E r) = vr_epoch r"
  "vr_finalised (close_if_done E r) \<longleftrightarrow> vr_finalised r \<or> all_revealed r"
  "held_deposits (close_round E r) = held_deposits r" "held_deposits (close_if_done E r) = held_deposits r"
  "all_revealed (close_if_done E r) = all_revealed r"
  by (simp_all add: close_round_def close_if_done_def held_deposits_def all_revealed_def)

lemma commit_round_ok:
  assumes "round_ok E e r \<or> r = fresh_round e" "\<not> vr_finalised r" "c \<notin> vk_committer ` set (vr_commits r)"
  shows "round_ok E e (with_commit r c h)"
  using assms by (auto simp: round_ok_def record_ok_def all_revealed_def)

lemma reveal_round_ok:
  assumes ok: "round_ok E e r" and k: "find (\<lambda>k. vk_committer k = c) (vr_commits r) = Some k"
    and o: "opens_commit E e k t"
  shows "round_ok E e (close_if_done E (with_reveal r c t))"
proof -
  let ?r = "with_reveal r c t" and ?k = "k\<lparr>vk_revealed_secret := Some t, vk_deposit_refunded := True\<rparr>"
  have set': "set (vr_commits ?r) = insert ?k (set (vr_commits r) - {k})"
    using set_reveal_first [OF k] ok by (simp add: round_ok_def)
  have "record_ok E e f ?k" for f using o by (simp add: record_ok_def opens_commit_def)
  moreover have "record_ok E e (vr_finalised ?r \<or> all_revealed ?r) x" if "x \<in> set (vr_commits ?r)" "x \<noteq> ?k" for x
  proof -
    have x: "record_ok E e (vr_finalised r) x" "vk_revealed_secret x = None \<Longrightarrow> \<not> all_revealed ?r"
      using that set' ok by (auto simp: round_ok_def all_revealed_def list_all_iff)
    then show ?thesis by (auto simp: record_ok_def split: option.splits)
  qed
  ultimately have "\<forall>x \<in> set (vr_commits ?r). record_ok E e (vr_finalised ?r \<or> all_revealed ?r) x" by metis
  moreover have "vr_commits ?r \<noteq> []" using set' by auto
  ultimately show ?thesis
    using ok by (simp add: round_ok_def)
qed

lemma sweep_round_ok:
  assumes "round_ok E e r"
  shows "round_ok E e (close_round E (swept r))"
  using assms
  by (auto simp: round_ok_def record_ok_def opens_commit_def comp_def split: option.splits)

lemma held_with_commit: "held_deposits (with_commit r c h) = held_deposits r + uint COMMIT_DEPOSIT_HUNITS"
  by (simp add: held_deposits_def algebra_simps)

lemma held_swept: "held_deposits (swept r) = 0"
  by (simp add: held_deposits_def filter_map comp_def)

lemma held_with_reveal:
  "find (\<lambda>k. vk_committer k = c) (vr_commits r) = Some k \<Longrightarrow>
    held_deposits (with_reveal r c t) =
      held_deposits r - (if vk_deposit_refunded k then 0 else uint COMMIT_DEPOSIT_HUNITS)"
  using unrefunded_reveal [of c "vr_commits r" k t] by (simp add: held_deposits_def algebra_simps)

section \<open>Deposits\<close>

text \<open>A reveal that is accepted although the round was closed before.\<close>

definition late_reveal :: "env \<Rightarrow> vrf_entry \<Rightarrow> chain \<Rightarrow> bool" where
  "late_reveal E x s \<longleftrightarrow> fst (apply_vrf_entry E x s) = Inr () \<and>
    (case x of
       VrfReveal c t e \<Rightarrow> (case get_round E s e of Some r \<Rightarrow> vr_finalised r | None \<Rightarrow> False)
     | _ \<Rightarrow> False)"

fun late_reveals :: "env \<Rightarrow> vrf_entry list \<Rightarrow> chain \<Rightarrow> nat" where
  "late_reveals E [] s = 0"
| "late_reveals E (x # xs) s =
    (if late_reveal E x s then 1 else 0) + late_reveals E xs (snd (apply_vrf_entry E x s))"

lemma round_step_ok:
  assumes "round_step E e r d s s'" "vrf_rounds_ok E s" "round_ok E e r"
  shows "vrf_rounds_ok E s'"
  using assms by (auto simp: vrf_rounds_ok_def round_step_def split: if_splits)

lemma vrf_entry_effect:
  assumes ok: "vrf_rounds_ok E s" and fits: "vrf_value E s < 2 ^ 64"
    and run: "apply_vrf_entry E x s = (y, s')"
  shows "vrf_rounds_ok E s' \<and>
    vrf_value E s' = vrf_value E s + (if late_reveal E x s then uint COMMIT_DEPOSIT_HUNITS else 0)"
proof (cases x)
  case (VrfCommit c h e)
  with run have "apply_vrf_commit E c h e s = (y, s')" by simp
  then show ?thesis
  proof (cases rule: commit_step)
    case 1
    with ok VrfCommit show ?thesis by (simp add: late_reveal_def)
  next
    case (2 r)
    have "round_ok E e (with_commit r c h)"
      by (rule commit_round_ok) (use 2 ok in \<open>auto simp: vrf_rounds_ok_def\<close>)
    moreover have "rounds.owed E s (round_key e) = held_deposits r"
      using 2(1) by (auto simp: held_deposits_def)
    ultimately show ?thesis
      using 2(4) ok VrfCommit round_step_ok [OF 2(4)]
      by (simp add: round_step_def held_with_commit late_reveal_def)
  qed
next
  case (VrfReveal c t e)
  with run have "apply_vrf_reveal E c t e s = (y, s')" by simp
  then show ?thesis
  proof (cases rule: reveal_step)
    case 1
    with ok VrfReveal run show ?thesis by (simp add: late_reveal_def)
  next
    case (2 r k)
    have r: "round_ok E e r" using 2(1) ok by (auto simp: vrf_rounds_ok_def)
    then have "vk_deposit_refunded k = vr_finalised r"
      using found_member [OF 2(2)] 2(3) by (auto simp: round_ok_def record_ok_def)
    then show ?thesis
      using 2(1,2,5,6) run VrfReveal round_step_ok [OF 2(6) ok reveal_round_ok [OF r 2(2,4)]]
      by (simp add: round_step_def held_with_reveal late_reveal_def)
  qed
next
  case (VrfSweep e)
  with run have "sweep_epoch E e s = (y, s')" by simp
  from this fits show ?thesis
  proof (cases rule: sweep_step)
    case 1
    with ok VrfSweep show ?thesis by (simp add: late_reveal_def)
  next
    case (2 r)
    with ok have "round_ok E (sat_sub e REVEAL_WINDOW_EPOCHS) (close_round E (swept r))"
      by (intro sweep_round_ok) (auto simp: vrf_rounds_ok_def)
    then show ?thesis
      using 2 VrfSweep ok round_step_ok [OF 2(3)] by (simp add: round_step_def held_swept late_reveal_def)
  qed
qed

section \<open>The beacon\<close>

lemma byte_xor: "xor (of_char a) (of_char b) mod 256 = (xor (of_char a) (of_char b) :: nat)"
proof -
  have "take_bit 8 (xor (of_char a) (of_char b) :: nat) = xor (take_bit 8 (of_char a)) (take_bit 8 (of_char b))"
    by (rule take_bit_xor)
  then show ?thesis by (simp add: take_bit_eq_mod)
qed

lemma xor_into_commute: "xor_into (xor_into b h) k = xor_into (xor_into b k) h"
proof (induction b arbitrary: h k)
  case (Cons x b)
  then show ?case
    by (cases h; cases k) (simp_all add: byte_xor ac_simps)
qed simp

lemma fold_secret_commute: "fold_secret E (fold_secret E b c) d = fold_secret E (fold_secret E b d) c"
  by (simp add: fold_secret_def xor_into_commute split: option.split)

text \<open>What a record contributes, and the beacon as a function of the contributions.\<close>

definition contribution :: "env \<Rightarrow> VrfCommitRecord \<Rightarrow> string option" where
  "contribution E c = map_option (sha256 E) (Option.bind (vk_revealed_secret c) (hex_decode E))"

definition mix :: "string option \<Rightarrow> string \<Rightarrow> string" where
  "mix h b = (case h of None \<Rightarrow> b | Some h \<Rightarrow> xor_into b h)"

lemma mix_commute: "mix h \<circ> mix k = mix k \<circ> mix h"
  by (auto simp: mix_def fun_eq_iff xor_into_commute split: option.split)

lemma round_beacon_mix: "round_beacon E cs = fold mix (map (contribution E) cs) (replicate 32 (CHR 0x00))"
proof -
  have "fold_secret E b c = mix (contribution E c) b" for b c
    by (simp add: fold_secret_def contribution_def mix_def split: option.split)
  then show ?thesis
    by (simp add: round_beacon_def foldl_conv_fold fold_map comp_def)
qed

lemma round_beacon_mset:
  assumes "mset (map (contribution E) cs) = mset (map (contribution E) ds)"
  shows "round_beacon E cs = round_beacon E ds"
  unfolding round_beacon_mix
  by (rule fun_cong [OF fold_multiset_equiv [OF _ assms]]) (rule mix_commute)

lemma round_beacon_swept: "round_beacon E (vr_commits (swept r)) = round_beacon E (vr_commits r)"
  by (simp add: round_beacon_mix contribution_def [abs_def] comp_def)

lemma vrf_entry_beacons:
  assumes "beacons_ok E s" "vrf_value E s < 2 ^ 64" "\<not> late_reveal E x s"
    and run: "apply_vrf_entry E x s = (y, s')"
  shows "beacons_ok E s'"
proof -
  have step: "beacons_ok E s'" if "round_step E e r d s s'"
    "vr_finalised r \<Longrightarrow> vr_beacon r = Some (hex_encode E (round_beacon E (vr_commits r)))" for e r d
    using assms(1) that by (auto simp: beacons_ok_def round_step_def split: if_splits)
  show ?thesis
  proof (cases x)
    case (VrfCommit c h e)
    with run have "apply_vrf_commit E c h e s = (y, s')" by simp
    then show ?thesis
    proof (cases rule: commit_step)
      case (2 r)
      then show ?thesis by (intro step [OF 2(4)]) simp
    qed (use assms(1) in simp)
  next
    case (VrfReveal c t e)
    with run have "apply_vrf_reveal E c t e s = (y, s')" by simp
    then show ?thesis
    proof (cases rule: reveal_step)
      case (2 r k)
      then have "\<not> vr_finalised r" using assms(3) VrfReveal run by (simp add: late_reveal_def)
      then show ?thesis
        by (intro step [OF 2(6)]) (auto simp: close_if_done_def close_round_def)
    qed (use assms(1) in simp)
  next
    case (VrfSweep e)
    with run have "sweep_epoch E e s = (y, s')" by simp
    from this assms(2) show ?thesis
    proof (cases rule: sweep_step)
      case (2 r)
      then show ?thesis by (intro step [OF 2(3)]) (simp add: close_round_def)
    qed (use assms(1) in simp)
  qed
qed

lemma vrf_run_effect:
  assumes "vrf_rounds_ok E s" and "vrf_value E s + 10000 * int (length xs) < 2 ^ 64"
  shows "vrf_rounds_ok E (run_vrf E xs s) \<and> vrf_value E (run_vrf E xs s) = vrf_value E s + 10000 * int (late_reveals E xs s) \<and>
    (beacons_ok E s \<longrightarrow> late_reveals E xs s = 0 \<longrightarrow> beacons_ok E (run_vrf E xs s))"
  using assms
proof (induction xs arbitrary: s)
  case (Cons x xs)
  obtain y s1 where run: "apply_vrf_entry E x s = (y, s1)" by (cases "apply_vrf_entry E x s")
  have fits: "vrf_value E s < 2 ^ 64" using Cons.prems(2) by simp
  note eff = vrf_entry_effect [OF Cons.prems(1) fits run]
  have "vrf_value E s1 + 10000 * int (length xs) < 2 ^ 64"
    using eff Cons.prems(2) by (simp add: COMMIT_DEPOSIT_HUNITS_def split: if_splits)
  with Cons.IH [of s1] eff run vrf_entry_beacons [OF _ fits _ run] show ?case
    by (auto simp: COMMIT_DEPOSIT_HUNITS_def)
qed simp

text \<open>
  (C14) Deposits. Over any sequence of commits, reveals and sweeps from a chain whose rounds are in order, the
  rounds stay in order (distinct committers; every recorded secret opens its commitment; a deposit is
  held exactly for those who have not revealed in a round that is still open), and the native supply
  with the held deposits grows by one deposit for each reveal that was accepted after its round was
  closed, and by nothing else.
\<close>

theorem vrf_deposits_exact:
  assumes "vrf_rounds_ok E s" and "vrf_value E s + 10000 * int (length xs) < 2 ^ 64"
  shows "vrf_rounds_ok E (run_vrf E xs s) \<and>
    vrf_value E (run_vrf E xs s) = vrf_value E s + 10000 * int (late_reveals E xs s)"
  using vrf_run_effect [OF assms] by simp

definition openings :: "env \<Rightarrow> VrfRound \<Rightarrow> string set" where
  "openings E r = {b @ to_be (vr_epoch r) | b. \<exists>c \<in> set (vr_commits r). \<exists>t.
     vk_revealed_secret c = Some t \<and> hex_decode E t = Some b}"

lemma contribution_of_hash:
  assumes hex: "codec (hex_encode E) (hex_decode E)" and inj: "inj_on (sha256 E) S"
    and r: "round_ok E e r" "all_revealed r" "openings E r \<subseteq> S" and c: "c \<in> set (vr_commits r)"
  shows "contribution E c = Some (sha256 E (SOME b. b @ to_be e \<in> S \<and>
    hex_encode E (sha256 E (b @ to_be e)) = vk_commit_hash c))"
proof -
  obtain t where t: "vk_revealed_secret c = Some t" using r(2) c by (auto simp: all_revealed_def list_all_iff)
  then obtain b where b: "hex_decode E t = Some b" "hex_encode E (sha256 E (b @ to_be e)) = vk_commit_hash c"
    using r(1) c by (fastforce simp: round_ok_def record_ok_def opens_commit_def)
  have bS: "b @ to_be e \<in> S" using r(1,3) c t b by (fastforce simp: openings_def round_ok_def)
  have "(SOME b. b @ to_be e \<in> S \<and> hex_encode E (sha256 E (b @ to_be e)) = vk_commit_hash c) = b"
  proof (rule some_equality)
    fix d
    assume d: "d @ to_be e \<in> S \<and> hex_encode E (sha256 E (d @ to_be e)) = vk_commit_hash c"
    then have "sha256 E (d @ to_be e) = sha256 E (b @ to_be e)"
      using b(2) codec.encode_inject [OF hex] by metis
    then show "d = b" using inj d bS by (auto dest: inj_onD)
  qed (use b bS in simp)
  then show ?thesis using t b(1) by (simp add: contribution_def)
qed

text \<open>
  (C36) The beacon is fixed by the commitments. Take two continuations of a chain without late reveals, in
  which the round of an epoch holds the same commitments, in whatever order they were made, and in
  which all committers have revealed. Then both rounds are closed with the same beacon, as long as the
  hash does not collide on the revealed secrets.
\<close>

theorem beacon_fixed_by_commitments:
  assumes s: "vrf_rounds_ok E s" "beacons_ok E s"
    and xs: "vrf_value E s + 10000 * int (length xs) < 2 ^ 64" "late_reveals E xs s = 0"
    and ys: "vrf_value E s + 10000 * int (length ys) < 2 ^ 64" "late_reveals E ys s = 0"
    and r: "get_round E (run_vrf E xs s) e = Some r" "all_revealed r"
    and q: "get_round E (run_vrf E ys s) e = Some q" "all_revealed q"
    and same: "mset (map vk_commit_hash (vr_commits r)) = mset (map vk_commit_hash (vr_commits q))"
    and hex: "codec (hex_encode E) (hex_decode E)"
    and inj: "inj_on (sha256 E) (openings E r \<union> openings E q)"
  shows "vr_finalised r \<and> vr_finalised q \<and> vr_beacon r \<noteq> None \<and> vr_beacon r = vr_beacon q"
proof -
  let ?S = "openings E r \<union> openings E q"
  define g where "g h = Some (sha256 E (SOME b. b @ to_be e \<in> ?S \<and> hex_encode E (sha256 E (b @ to_be e)) = h))" for h
  note runs = vrf_run_effect [OF s(1) xs(1)] vrf_run_effect [OF s(1) ys(1)]
  have ok: "round_ok E e r" "round_ok E e q"
    using runs(1) [THEN conjunct1] runs(2) [THEN conjunct1] r(1) q(1) by (simp_all only: vrf_rounds_ok_def)
  then have fin: "vr_finalised r" "vr_finalised q" using r(2) q(2) by (simp_all add: round_ok_def)
  have b: "vr_beacon r = Some (hex_encode E (round_beacon E (vr_commits r)))"
    "vr_beacon q = Some (hex_encode E (round_beacon E (vr_commits q)))"
    using runs s(2) xs(2) ys(2) r(1) q(1) fin unfolding beacons_ok_def by blast+
  have g: "map (contribution E) (vr_commits p) = map g (map vk_commit_hash (vr_commits p))" if "p \<in> {r, q}" for p
    using contribution_of_hash [OF hex inj] that ok r(2) q(2) by (auto simp: g_def)
  have "mset (map (contribution E) (vr_commits r)) = mset (map g (map vk_commit_hash (vr_commits r)))"
    by (rule arg_cong [OF g]) simp
  also have "\<dots> = mset (map g (map vk_commit_hash (vr_commits q)))"
    by (simp only: mset_map [of g] same)
  also have "\<dots> = mset (map (contribution E) (vr_commits q))"
    by (rule arg_cong [OF g [symmetric]]) simp
  finally have "mset (map (contribution E) (vr_commits r)) = mset (map (contribution E) (vr_commits q))" .
  from round_beacon_mset [OF this] b fin show ?thesis by simp
qed

definition demo_vrf_env :: env where
  "demo_vrf_env = demo_env\<lparr>sha256 := id\<rparr>"

definition demo_vrf_chain :: chain where
  "demo_vrf_chain = empty_chain\<lparr>
     cf_balances := [(balance_key ''ann'' NATIVE_TOKEN, 50000), (balance_key ''bob'' NATIVE_TOKEN, 50000)],
     cf_meta := [(''clock_node:ann'', Text ''1''), (''clock_node:bob'', Text ''1'')]\<rparr>"

definition commit_of_secret :: "string \<Rightarrow> u64 \<Rightarrow> string" where
  "commit_of_secret t e = t @ to_be e"

definition demo_late :: "vrf_entry list" where
  "demo_late = [VrfCommit ''ann'' (commit_of_secret ''A'' 5) 5, VrfSweep 7, VrfReveal ''ann'' ''A'' 5]"

lemma demo_rounds_ok: "vrf_rounds_ok E demo_vrf_chain" "beacons_ok E demo_vrf_chain"
  by (simp_all add: vrf_rounds_ok_def beacons_ok_def peek_state_get state_get_def demo_vrf_chain_def round_key_def kv_get_def)

lemma demo_vrf_value: "vrf_value demo_vrf_env demo_vrf_chain = 100000"
  by code_simp

lemma demo_facts:
  "state_get demo_vrf_chain ''clock_node:ann'' \<noteq> None" "state_get demo_vrf_chain ''clock_node:bob'' \<noteq> None"
  "get_round E demo_vrf_chain e = None"
  "uint (get_balance demo_vrf_chain ''ann'' NATIVE_TOKEN) = 50000"
  "uint (get_balance demo_vrf_chain ''bob'' NATIVE_TOKEN) = 50000"
  by (simp_all add: peek_state_get state_get_def demo_vrf_chain_def round_key_def kv_get_def get_balance_def
      balance_key_def)

lemma demo_opens: "vk_commit_hash k = commit_of_secret t e \<Longrightarrow> opens_commit demo_vrf_env e k t"
  by (simp add: opens_commit_def demo_vrf_env_def demo_env_def commit_of_secret_def)

definition two_reveal :: "string \<Rightarrow> string \<Rightarrow> string \<Rightarrow> string \<Rightarrow> vrf_entry list" where
  "two_reveal a t b u = [VrfCommit a (commit_of_secret t 5) 5, VrfCommit b (commit_of_secret u 5) 5,
     VrfReveal a t 5, VrfReveal b u 5]"

definition revealed_record :: "string \<Rightarrow> string \<Rightarrow> VrfCommitRecord" where
  "revealed_record a t = \<lparr>vk_committer = a, vk_commit_hash = commit_of_secret t 5,
     vk_revealed_secret = Some t, vk_deposit_refunded = True\<rparr>"

lemma deposit_le: "10000 \<le> uint w \<Longrightarrow> COMMIT_DEPOSIT_HUNITS \<le> w"
  by (simp add: COMMIT_DEPOSIT_HUNITS_def word_le_def)

lemma deposit_room: "uint (w :: u64) \<le> 100000 \<Longrightarrow> unat w + unat COMMIT_DEPOSIT_HUNITS < 2 ^ 64"
proof -
  assume "uint w \<le> 100000"
  then have "unat w \<le> nat 100000" unfolding unat_eq_nat_uint by (rule nat_mono)
  then show ?thesis by (simp add: COMMIT_DEPOSIT_HUNITS_def)
qed

lemma demo_commit:
  assumes "state_get s (''clock_node:'' @ c) \<noteq> None" "10000 \<le> uint (get_balance s c NATIVE_TOKEN)"
    and r: "get_round E s 5 = Some r \<or> get_round E s 5 = None \<and> r = fresh_round 5" "\<not> vr_finalised r"
      "c \<notin> vk_committer ` set (vr_commits r)"
  obtains s' where "apply_vrf_entry E (VrfCommit c h 5) s = (Inr (), s')" "get_round E s' 5 = Some (with_commit r c h)"
    "\<forall>k. state_get s' (''clock_node:'' @ k) = state_get s (''clock_node:'' @ k)"
    "\<forall>a. uint (get_balance s' a NATIVE_TOKEN) = uint (get_balance s a NATIVE_TOKEN) - (if a = c then 10000 else 0)"
proof -
  have dep: "uint COMMIT_DEPOSIT_HUNITS = 10000" by (simp add: COMMIT_DEPOSIT_HUNITS_def)
  obtain s' where s': "apply_vrf_commit E c h 5 s = (Inr (), s')"
    "round_step E 5 (with_commit r c h) (- uint COMMIT_DEPOSIT_HUNITS) s s'"
    "\<forall>a. uint (get_balance s' a NATIVE_TOKEN) =
      uint (get_balance s a NATIVE_TOKEN) - (if a = c then uint COMMIT_DEPOSIT_HUNITS else 0)"
    by (rule commit_accepted [OF assms(1) r deposit_le [OF assms(2)], of h])
  show ?thesis
    by (rule that [of s']) (use s' in \<open>simp_all add: round_step_def dep\<close>)
qed

lemma demo_reveal:
  assumes r: "get_round demo_vrf_env s 5 = Some r" "find (\<lambda>k. vk_committer k = c) (vr_commits r) = Some k"
      "vk_revealed_secret k = None" "vk_commit_hash k = commit_of_secret t 5"
    and "uint (get_balance s c NATIVE_TOKEN) \<le> 100000"
  obtains s' where "apply_vrf_entry demo_vrf_env (VrfReveal c t 5) s = (Inr (), s')"
    "get_round demo_vrf_env s' 5 = Some (close_if_done demo_vrf_env (with_reveal r c t))"
    "\<forall>a. a \<noteq> c \<longrightarrow> uint (get_balance s' a NATIVE_TOKEN) = uint (get_balance s a NATIVE_TOKEN)"
proof -
  obtain s' where s': "apply_vrf_reveal demo_vrf_env c t 5 s = (Inr (), s')"
    "round_step demo_vrf_env 5 (close_if_done demo_vrf_env (with_reveal r c t)) (uint COMMIT_DEPOSIT_HUNITS) s s'"
    "\<forall>a. uint (get_balance s' a NATIVE_TOKEN) =
      uint (get_balance s a NATIVE_TOKEN) + (if a = c then uint COMMIT_DEPOSIT_HUNITS else 0)"
    by (rule reveal_accepted [OF r(1-3) demo_opens [OF r(4)] deposit_room [OF assms(5)]])
  show ?thesis
    by (rule that [of s']) (use s' in \<open>simp_all add: round_step_def\<close>)
qed

lemma two_reveal_runs:
  assumes ab: "a \<noteq> b" "a \<in> {''ann'', ''bob''}" "b \<in> {''ann'', ''bob''}"
  obtains r where "get_round demo_vrf_env (run_vrf demo_vrf_env (two_reveal a t b u) demo_vrf_chain) 5 = Some r"
    "all_revealed r" "vr_commits r = [revealed_record a t, revealed_record b u]" "vr_epoch r = 5"
    "late_reveals demo_vrf_env (two_reveal a t b u) demo_vrf_chain = 0"
proof -
  let ?E = demo_vrf_env and ?s = demo_vrf_chain
  let ?c = "\<lambda>a t. \<lparr>vk_committer = a, vk_commit_hash = commit_of_secret t 5, vk_revealed_secret = None,
    vk_deposit_refunded = False\<rparr>"
  let ?r1 = "with_commit (fresh_round 5) a (commit_of_secret t 5)"
  let ?r2 = "with_commit ?r1 b (commit_of_secret u 5)"
  let ?r3 = "with_reveal ?r2 a t" let ?r4 = "close_if_done ?E (with_reveal ?r3 b u)"
  have node: "state_get ?s (''clock_node:'' @ a) \<noteq> None" "state_get ?s (''clock_node:'' @ b) \<noteq> None"
    and bal: "uint (get_balance ?s a NATIVE_TOKEN) = 50000" "uint (get_balance ?s b NATIVE_TOKEN) = 50000"
    using ab demo_facts by auto
  have new: "get_round ?E ?s 5 = Some (fresh_round 5) \<or> get_round ?E ?s 5 = None \<and> fresh_round 5 = fresh_round 5"
    by (simp add: demo_facts(3))
  have b0: "10000 \<le> uint (get_balance ?s a NATIVE_TOKEN)" "\<not> vr_finalised (fresh_round 5)"
    "a \<notin> vk_committer ` set (vr_commits (fresh_round 5))" by (simp_all add: bal)
  obtain s1 where s1: "apply_vrf_entry ?E (VrfCommit a (commit_of_secret t 5) 5) ?s = (Inr (), s1)"
    "get_round ?E s1 5 = Some ?r1" "\<forall>k. state_get s1 (''clock_node:'' @ k) = state_get ?s (''clock_node:'' @ k)"
    "\<forall>x. uint (get_balance s1 x NATIVE_TOKEN) = uint (get_balance ?s x NATIVE_TOKEN) - (if x = a then 10000 else 0)"
    by (rule demo_commit [OF node(1) b0(1) new b0(2,3), where h = "commit_of_secret t 5"])
  have b1: "state_get s1 (''clock_node:'' @ b) \<noteq> None" "10000 \<le> uint (get_balance s1 b NATIVE_TOKEN)"
    using s1(3,4) bal node ab(1) by simp_all
  have n1: "\<not> vr_finalised ?r1" "b \<notin> vk_committer ` set (vr_commits ?r1)" using ab(1) by simp_all
  obtain s2 where s2: "apply_vrf_entry ?E (VrfCommit b (commit_of_secret u 5) 5) s1 = (Inr (), s2)"
    "get_round ?E s2 5 = Some ?r2"
    "\<forall>x. uint (get_balance s2 x NATIVE_TOKEN) = uint (get_balance s1 x NATIVE_TOKEN) - (if x = b then 10000 else 0)"
    by (rule demo_commit [OF b1 disjI1 [OF s1(2)] n1, where h = "commit_of_secret u 5"])
  have b2: "uint (get_balance s2 a NATIVE_TOKEN) \<le> 100000" "uint (get_balance s2 b NATIVE_TOKEN) \<le> 100000"
    using s2(3) s1(4) bal ab(1) by simp_all
  have "\<not> all_revealed ?r3" using ab(1) by (simp add: all_revealed_def)
  then have open3: "close_if_done ?E ?r3 = ?r3" by (simp add: close_if_done_def)
  have f2: "find (\<lambda>k. vk_committer k = a) (vr_commits ?r2) = Some (?c a t)" by simp
  obtain s3 where s3: "apply_vrf_entry ?E (VrfReveal a t 5) s2 = (Inr (), s3)"
    "get_round ?E s3 5 = Some (close_if_done ?E ?r3)"
    "\<forall>x. x \<noteq> a \<longrightarrow> uint (get_balance s3 x NATIVE_TOKEN) = uint (get_balance s2 x NATIVE_TOKEN)"
    by (rule demo_reveal [OF s2(2) f2 _ _ b2(1)]) simp_all
  have b3: "uint (get_balance s3 b NATIVE_TOKEN) \<le> 100000" using s3(3) b2 ab(1) by simp
  note r3 = s3(2) [unfolded open3]
  have f3: "find (\<lambda>k. vk_committer k = b) (vr_commits ?r3) = Some (?c b u)" using ab(1) by simp
  obtain s4 where s4: "apply_vrf_entry ?E (VrfReveal b u 5) s3 = (Inr (), s4)" "get_round ?E s4 5 = Some ?r4"
    by (rule demo_reveal [OF r3 f3 _ _ b3]) simp_all
  show ?thesis
  proof (rule that)
    show "get_round ?E (run_vrf ?E (two_reveal a t b u) ?s) 5 = Some ?r4"
      using s1(1) s2(1) s3(1) s4 by (simp add: two_reveal_def)
    show "late_reveals ?E (two_reveal a t b u) ?s = 0"
      using s1(1) s2(1,2) s3(1) r3 s4(1) by (simp add: two_reveal_def late_reveal_def)
  qed (use ab in \<open>simp_all add: all_revealed_def revealed_record_def\<close>)
qed

theorem beacon_fixed_by_commitments_witness:
  "\<exists>r q. get_round demo_vrf_env (run_vrf demo_vrf_env (two_reveal ''ann'' ''A'' ''bob'' ''B'') demo_vrf_chain) 5 = Some r \<and>
    get_round demo_vrf_env (run_vrf demo_vrf_env (two_reveal ''bob'' ''B'' ''ann'' ''A'') demo_vrf_chain) 5 = Some q \<and>
    vr_commits r \<noteq> vr_commits q \<and> vr_beacon r \<noteq> None \<and> vr_beacon r = vr_beacon q"
proof -
  let ?E = demo_vrf_env
  obtain r where r: "get_round ?E (run_vrf ?E (two_reveal ''ann'' ''A'' ''bob'' ''B'') demo_vrf_chain) 5 = Some r"
    "all_revealed r" "vr_commits r = [revealed_record ''ann'' ''A'', revealed_record ''bob'' ''B'']" "vr_epoch r = 5"
    "late_reveals ?E (two_reveal ''ann'' ''A'' ''bob'' ''B'') demo_vrf_chain = 0"
    by (rule two_reveal_runs [of "''ann''" "''bob''" "''A''" "''B''"]) simp_all
  obtain q where q: "get_round ?E (run_vrf ?E (two_reveal ''bob'' ''B'' ''ann'' ''A'') demo_vrf_chain) 5 = Some q"
    "all_revealed q" "vr_commits q = [revealed_record ''bob'' ''B'', revealed_record ''ann'' ''A'']" "vr_epoch q = 5"
    "late_reveals ?E (two_reveal ''bob'' ''B'' ''ann'' ''A'') demo_vrf_chain = 0"
    by (rule two_reveal_runs [of "''bob''" "''ann''" "''B''" "''A''"]) simp_all
  have fits: "vrf_value ?E demo_vrf_chain + 10000 * int (length (two_reveal a t b u)) < 2 ^ 64" for a t b u
    by (simp add: demo_vrf_value two_reveal_def)
  have same: "mset (map vk_commit_hash (vr_commits r)) = mset (map vk_commit_hash (vr_commits q))"
    by (simp add: r(3) q(3))
  have hex: "codec (hex_encode ?E) (hex_decode ?E)"
    by unfold_locales (simp add: demo_vrf_env_def demo_env_def)
  have inj: "inj_on (sha256 ?E) (openings ?E r \<union> openings ?E q)"
    by (simp add: demo_vrf_env_def)
  have "vr_beacon r \<noteq> None \<and> vr_beacon r = vr_beacon q"
    using beacon_fixed_by_commitments [OF demo_rounds_ok fits r(5) fits q(5) r(1,2) q(1,2) same hex inj] by blast
  moreover have "vr_commits r \<noteq> vr_commits q" by (simp add: r(3) q(3) revealed_record_def)
  ultimately show ?thesis using r(1) q(1) by blast
qed

text \<open>A committer who lets the round be closed without revealing, and reveals then.\<close>

lemma demo_late_counts: "late_reveals demo_vrf_env demo_late demo_vrf_chain = 1"
proof -
  let ?E = demo_vrf_env and ?s = demo_vrf_chain and ?h = "commit_of_secret ''A'' 5"
  let ?r1 = "with_commit (fresh_round 5) ''ann'' ?h"
  let ?r2 = "close_round ?E (swept ?r1)"
  let ?k = "\<lparr>vk_committer = ''ann'', vk_commit_hash = ?h, vk_revealed_secret = None, vk_deposit_refunded = True\<rparr>"
  have new: "get_round ?E ?s 5 = Some (fresh_round 5) \<or> get_round ?E ?s 5 = None \<and> fresh_round 5 = fresh_round 5"
    "state_get ?s (''clock_node:'' @ ''ann'') \<noteq> None" "10000 \<le> uint (get_balance ?s ''ann'' NATIVE_TOKEN)"
    "\<not> vr_finalised (fresh_round 5)" "''ann'' \<notin> vk_committer ` set (vr_commits (fresh_round 5))"
    using demo_facts by simp_all
  obtain s1 where s1: "apply_vrf_entry ?E (VrfCommit ''ann'' ?h 5) ?s = (Inr (), s1)" "get_round ?E s1 5 = Some ?r1"
    by (rule demo_commit [OF new(2,3) new(1,4,5), where h = ?h]) blast
  have "vrf_value ?E ?s < 2 ^ 64" by (simp add: demo_vrf_value)
  from vrf_entry_effect [OF demo_rounds_ok(1) this s1(1)]
  have v1: "vrf_rounds_ok ?E s1" "vrf_value ?E s1 = 100000"
    by (simp_all add: demo_vrf_value late_reveal_def)
  then have f1: "vrf_value ?E s1 < 2 ^ 64" by simp
  have five: "(5 :: u64) = sat_sub 7 REVEAL_WINDOW_EPOCHS" by (simp add: sat_sub_def REVEAL_WINDOW_EPOCHS_def)
  have open1: "\<not> vr_finalised ?r1" by simp
  obtain s2 where s2: "sweep_epoch ?E 7 s1 = (Inr (), s2)" "round_step ?E 5 ?r2 (held_deposits ?r1) s1 s2"
    by (rule sweep_closes [OF f1 five s1(2) open1])
  have r2: "get_round ?E s2 5 = Some ?r2" using s2(2) by (simp add: round_step_def)
  have "vrf_value ?E s2 = 100000"
    using vrf_entry_effect [OF v1(1) f1, of "VrfSweep 7" "Inr ()" s2] s2(1) v1(2) by (simp add: late_reveal_def)
  then have bal: "uint (get_balance s2 ''ann'' NATIVE_TOKEN) \<le> 100000"
    using balance_le_supply [OF plain_NATIVE, of s2 "''ann''"] rounds.record_total_nonneg [of ?E s2]
    by (simp add: vrf_value_def escrow_value_def)
  have f2: "find (\<lambda>k. vk_committer k = ''ann'') (vr_commits ?r2) = Some ?k" by simp
  obtain s3 where "apply_vrf_entry ?E (VrfReveal ''ann'' ''A'' 5) s2 = (Inr (), s3)"
    by (rule demo_reveal [OF r2 f2 _ _ bal]) simp_all
  with s1 s2(1) r2 show ?thesis by (simp add: demo_late_def late_reveal_def)
qed

theorem vrf_deposits_exact_witness:
  "vrf_value demo_vrf_env (run_vrf demo_vrf_env demo_late demo_vrf_chain) = vrf_value demo_vrf_env demo_vrf_chain + 10000"
proof -
  have "vrf_value demo_vrf_env demo_vrf_chain + 10000 * int (length demo_late) < 2 ^ 64"
    by (simp add: demo_vrf_value demo_late_def)
  from vrf_deposits_exact [OF demo_rounds_ok(1) this] show ?thesis by (simp add: demo_late_counts)
qed

section \<open>The last reveal\<close>

lemma contribution_reveal_first:
  "find (\<lambda>k. vk_committer k = c) cs = Some k \<Longrightarrow> vk_revealed_secret k = None \<Longrightarrow> hex_decode E t = Some b \<Longrightarrow>
    mset (map (contribution E) (reveal_first c t cs)) + {#None#} =
    mset (map (contribution E) cs) + {#Some (sha256 E b)#}"
  by (induction cs) (auto simp: contribution_def split: if_splits)

lemma round_beacon_reveal:
  assumes "find (\<lambda>k. vk_committer k = c) cs = Some k" "vk_revealed_secret k = None" "hex_decode E t = Some b"
  shows "round_beacon E (reveal_first c t cs) = xor_into (round_beacon E cs) (sha256 E b)"
proof -
  let ?m = "map (contribution E)"
  have "fold mix (None # ?m (reveal_first c t cs)) = fold mix (?m cs @ [Some (sha256 E b)])"
    by (rule fold_multiset_equiv) (use contribution_reveal_first [OF assms] mix_commute in auto)
  from fun_cong [OF this, of "replicate 32 (CHR 0x00)"] show ?thesis
    by (simp add: round_beacon_mix mix_def)
qed

text \<open>
  The last to reveal decides. When all committers of an open round but one have revealed, the beacon is
  the exclusive or \<open>B\<close> of their hashes if the last one stays silent until the sweep, and \<open>B\<close> combined with
  the hash of the last secret otherwise; both values are known to the last committer before the choice.
\<close>

theorem last_reveal_decides:
  assumes r: "get_round E s e = Some r" "\<not> vr_finalised r" "find (\<lambda>k. vk_committer k = c) (vr_commits r) = Some k"
    "vk_revealed_secret k = None" "opens_commit E e k t" "hex_decode E t = Some b"
    and last: "all_revealed (with_reveal r c t)"
    and room: "vrf_value E s < 2 ^ 64" "unat (get_balance s c NATIVE_TOKEN) + unat COMMIT_DEPOSIT_HUNITS < 2 ^ 64"
    and e: "e = sat_sub e' REVEAL_WINDOW_EPOCHS"
  shows "map_option vr_beacon (get_round E (snd (sweep_epoch E e' s)) e) =
      Some (Some (hex_encode E (round_beacon E (vr_commits r)))) \<and>
    map_option vr_beacon (get_round E (snd (apply_vrf_reveal E c t e s)) e) =
      Some (Some (hex_encode E (xor_into (round_beacon E (vr_commits r)) (sha256 E b))))"
proof -
  obtain s1 where "sweep_epoch E e' s = (Inr (), s1)" "round_step E e (close_round E (swept r)) (held_deposits r) s s1"
    by (rule sweep_closes [OF room(1) e r(1,2)])
  moreover obtain s2 where "apply_vrf_reveal E c t e s = (Inr (), s2)"
    "round_step E e (close_if_done E (with_reveal r c t)) (uint COMMIT_DEPOSIT_HUNITS) s s2"
    using reveal_accepted [OF r(1,3,4,5) room(2)] by blast
  ultimately show ?thesis
    using last round_beacon_swept [of E r] round_beacon_reveal [OF r(3,4,6)]
    by (simp add: round_step_def close_if_done_def close_round_def)
qed

end
