(* ===== verification/Ensemble.thy ===== *)
theory Ensemble
  imports Records
begin

text \<open>
  Ensemble inference (\<open>ensemble.rs\<close>): a job with its fee in escrow, the votes of workers for the hash of
  an output, the decision by majority with its payments, and the sweep of jobs past their window.

  The majority hash does not depend on the iteration order of the hash map that counts the votes, and is
  the hash with more than half of the votes. While the job ids satisfy what the log lines assume of
  them, no sequence of posts, votes and sweeps creates value, every worker has at most one vote and a
  decided job was decided by a majority of its votes. Two defects are stated: a job for two workers is
  decided by the first vote alone; and the log line of a decision slices twelve bytes off the job id, so
  that for a shorter id it panics after the winners are paid and before the job is saved, and the same
  vote is paid again each time it is submitted.
\<close>

section \<open>State\<close>

definition VOTE_WINDOW_EPOCHS :: u64 where "VOTE_WINDOW_EPOCHS = 3"

definition MIN_ENSEMBLE_SIZE :: u64 where "MIN_ENSEMBLE_SIZE = 2"

definition MAX_ENSEMBLE_SIZE :: u64 where "MAX_ENSEMBLE_SIZE = 7"

definition WORKER_SHARE_BPS :: u64 where "WORKER_SHARE_BPS = 7000"

datatype EnsembleStatus = EnsembleVoting | EnsembleFinalized | EnsembleCancelled

record EnsembleVoteRecord =
  ev_worker :: string
  ev_output_hash :: string
  ev_epoch :: u64

record EnsembleJob =
  ej_job_id :: string
  ej_requester :: string
  ej_model :: string
  ej_input_hash :: string
  ej_max_fee :: u64
  ej_n_workers :: u64
  ej_posted_epoch :: u64
  ej_vote_deadline :: u64
  ej_votes :: "EnsembleVoteRecord list"
  ej_status :: EnsembleStatus
  ej_winner_output_hash :: "string option"

fun EnsembleStatus_json :: "EnsembleStatus \<Rightarrow> json" where
  "EnsembleStatus_json EnsembleVoting = JStr ''voting''"
| "EnsembleStatus_json EnsembleFinalized = JStr ''finalized''"
| "EnsembleStatus_json EnsembleCancelled = JStr ''cancelled''"

definition EnsembleStatus_of_json :: "json \<Rightarrow> EnsembleStatus option" where
  "EnsembleStatus_of_json j = find (\<lambda>st. EnsembleStatus_json st = j) [EnsembleVoting, EnsembleFinalized, EnsembleCancelled]"

definition EnsembleVoteRecord_json :: "EnsembleVoteRecord \<Rightarrow> json" where
  "EnsembleVoteRecord_json v = jobj [
     (''worker'', JStr (ev_worker v)), (''output_hash'', JStr (ev_output_hash v)),
     (''epoch'', JNum (ev_epoch v))]"

definition EnsembleVoteRecord_of_json :: "json \<Rightarrow> EnsembleVoteRecord option" where
  "EnsembleVoteRecord_of_json j =
     Option.bind (field_str j ''worker'') (\<lambda>worker.
     Option.bind (field_str j ''output_hash'') (\<lambda>output_hash.
     Option.bind (field_u64 j ''epoch'') (\<lambda>epoch.
     Some \<lparr>ev_worker = worker, ev_output_hash = output_hash, ev_epoch = epoch\<rparr>)))"

definition EnsembleJob_json :: "EnsembleJob \<Rightarrow> json" where
  "EnsembleJob_json b = jobj [
     (''job_id'', JStr (ej_job_id b)), (''requester'', JStr (ej_requester b)), (''model'', JStr (ej_model b)),
     (''input_hash'', JStr (ej_input_hash b)), (''max_fee'', JNum (ej_max_fee b)),
     (''n_workers'', JNum (ej_n_workers b)), (''posted_epoch'', JNum (ej_posted_epoch b)),
     (''vote_deadline'', JNum (ej_vote_deadline b)),
     (''votes'', vec_json EnsembleVoteRecord_json (ej_votes b)),
     (''status'', EnsembleStatus_json (ej_status b)),
     (''winner_output_hash'', jopt_str (ej_winner_output_hash b))]"

definition EnsembleJob_of_json :: "json \<Rightarrow> EnsembleJob option" where
  "EnsembleJob_of_json j =
     Option.bind (field_str j ''job_id'') (\<lambda>job_id.
     Option.bind (field_str j ''requester'') (\<lambda>requester.
     Option.bind (field_str j ''model'') (\<lambda>model.
     Option.bind (field_str j ''input_hash'') (\<lambda>input_hash.
     Option.bind (field_u64 j ''max_fee'') (\<lambda>max_fee.
     Option.bind (field_u64 j ''n_workers'') (\<lambda>n_workers.
     Option.bind (field_u64 j ''posted_epoch'') (\<lambda>posted.
     Option.bind (field_u64 j ''vote_deadline'') (\<lambda>deadline.
     Option.bind (field_vec EnsembleVoteRecord_of_json j ''votes'') (\<lambda>votes.
     Option.bind (Option.bind (jfield j ''status'') EnsembleStatus_of_json) (\<lambda>status.
     Option.bind (field_opt as_str j ''winner_output_hash'') (\<lambda>winner.
     Some \<lparr>ej_job_id = job_id, ej_requester = requester, ej_model = model, ej_input_hash = input_hash,
       ej_max_fee = max_fee, ej_n_workers = n_workers, ej_posted_epoch = posted, ej_vote_deadline = deadline,
       ej_votes = votes, ej_status = status, ej_winner_output_hash = winner\<rparr>)))))))))))"

interpretation ensemble_vote_rec: record_codec EnsembleVoteRecord_json EnsembleVoteRecord_of_json
  by unfold_locales
    (simp add: EnsembleVoteRecord_of_json_def EnsembleVoteRecord_json_def field_str_def field_u64_def)

lemma EnsembleStatus_roundtrip: "EnsembleStatus_of_json (EnsembleStatus_json st) = Some st"
  by (cases st) (simp_all add: EnsembleStatus_of_json_def)

text \<open>What a job holds: its fee, while it is being voted on.\<close>

definition voting_fee :: "EnsembleJob \<Rightarrow> int" where
  "voting_fee b = (if ej_status b = EnsembleVoting then uint (ej_max_fee b) else 0)"

interpretation jobs: escrow_table EnsembleJob_json EnsembleJob_of_json "''ensemble_job:''" voting_fee
  by unfold_locales
    (simp_all add: EnsembleJob_of_json_def EnsembleJob_json_def field_str_def field_u64_def field_vec_def
      ensemble_vote_rec.as_vec_json EnsembleStatus_roundtrip voting_fee_def)

definition ensemble_job_key :: "string \<Rightarrow> string" where
  "ensemble_job_key job_id = ''ensemble_job:'' @ job_id"

abbreviation get_job :: "env \<Rightarrow> chain \<Rightarrow> string \<Rightarrow> EnsembleJob option" where
  "get_job E s i \<equiv> peek E EnsembleJob_of_json s (ensemble_job_key i)"

abbreviation save_job :: "string \<Rightarrow> EnsembleJob \<Rightarrow> unit chain_act" where
  "save_job i \<equiv> save_record EnsembleJob_json (ensemble_job_key i)"

section \<open>Operations\<close>

text \<open>
  The slice \<open>&job_id[..12]\<close> in the arguments of a log line: it panics unless twelve is a character
  boundary of the string. The arguments are evaluated when events of level \<open>info\<close> are recorded, which
  \<open>log\<close> says.
\<close>

definition log_id :: "bool \<Rightarrow> string \<Rightarrow> unit chain_act" where
  "log_id log job_id =
     when_do log (ensure (char_boundary job_id 12) (Panic ''byte index 12 is not a char boundary''))"

definition apply_job_post ::
  "bool \<Rightarrow> string \<Rightarrow> string \<Rightarrow> string \<Rightarrow> string \<Rightarrow> u64 \<Rightarrow> u64 \<Rightarrow> u64 \<Rightarrow> unit chain_act" where
  "apply_job_post log job_id requester model input_hash max_fee n_workers epoch =
     andThen (reads (\<lambda>s. state_get s (ensemble_job_key job_id))) (\<lambda>found.
     seq (ensure (found = None) (Err ''ensemble job already exists''))
    (seq (ensure (\<not> (n_workers < MIN_ENSEMBLE_SIZE \<or> n_workers > MAX_ENSEMBLE_SIZE)) (Err ''n_workers out of range''))
    (seq (debit requester NATIVE_TOKEN max_fee)
    (seq (save_job job_id \<lparr>ej_job_id = job_id, ej_requester = requester, ej_model = model,
            ej_input_hash = input_hash, ej_max_fee = max_fee, ej_n_workers = n_workers, ej_posted_epoch = epoch,
            ej_vote_deadline = epoch + VOTE_WINDOW_EPOCHS, ej_votes = [], ej_status = EnsembleVoting,
            ej_winner_output_hash = None\<rparr>)
         (log_id log job_id)))))"

text \<open>
  The votes are counted in a hash map; \<open>iter\<close> is the order in which it is walked, which the standard
  library does not fix.
\<close>

type_synonym count_order = "(string \<times> nat) list \<Rightarrow> (string \<times> nat) list"

fun count_vote :: "string \<Rightarrow> (string \<times> nat) list \<Rightarrow> (string \<times> nat) list" where
  "count_vote h [] = [(h, 1)]"
| "count_vote h ((k, n) # m) = (if k = h then (k, n + 1) # m else (k, n) # count_vote h m)"

definition vote_counts :: "EnsembleVoteRecord list \<Rightarrow> (string \<times> nat) list" where
  "vote_counts votes = foldl (\<lambda>m v. count_vote (ev_output_hash v) m) [] votes"

definition majority_hash :: "count_order \<Rightarrow> EnsembleVoteRecord list \<Rightarrow> string option" where
  "majority_hash iter votes =
    (let threshold = length votes div 2 + 1 in
     map_option fst (find (\<lambda>(h, c). c \<ge> threshold) (iter (vote_counts votes))))"

definition winners :: "EnsembleVoteRecord list \<Rightarrow> string \<Rightarrow> string list" where
  "winners votes h = map ev_worker (filter (\<lambda>v. ev_output_hash v = h) votes)"

definition worker_pool :: "u64 \<Rightarrow> u64" where
  "worker_pool max_fee = max_fee * WORKER_SHARE_BPS div 10000"

definition per_worker :: "u64 \<Rightarrow> nat \<Rightarrow> u64" where
  "per_worker max_fee n = worker_pool max_fee div word_of_nat (max n 1)"

definition finalize_job :: "bool \<Rightarrow> EnsembleJob \<Rightarrow> string \<Rightarrow> EnsembleJob chain_act" where
  "finalize_job log b winner_hash =
    (let ws = winners (ej_votes b) winner_hash;
         recycle = sat_sub (ej_max_fee b) (worker_pool (ej_max_fee b)) in
     seq (each (\<lambda>w. seq (credit w NATIVE_TOKEN (per_worker (ej_max_fee b) (length ws))) (ret ())) ws)
    (seq (when_do (recycle > 0) (seq (credit RECYCLE_FUND_ACCOUNT NATIVE_TOKEN recycle) (ret ())))
    (seq (log_id log (ej_job_id b))
         (ret (b\<lparr>ej_status := EnsembleFinalized, ej_winner_output_hash := Some winner_hash\<rparr>)))))"

definition apply_vote ::
  "env \<Rightarrow> count_order \<Rightarrow> bool \<Rightarrow> string \<Rightarrow> string \<Rightarrow> string \<Rightarrow> u64 \<Rightarrow> unit chain_act" where
  "apply_vote E iter log job_id worker output_hash epoch =
     andThen (load_record E EnsembleJob_of_json (ensemble_job_key job_id) ''ensemble job not found'') (\<lambda>b.
     seq (ensure (ej_status b = EnsembleVoting) (Err ''job is not accepting votes''))
    (seq (ensure (\<not> epoch > ej_vote_deadline b) (Err ''vote window closed''))
    (seq (ensure (\<not> list_ex (\<lambda>v. ev_worker v = worker) (ej_votes b)) (Err ''worker already voted''))
    (let b' = b\<lparr>ej_votes := ej_votes b @ [\<lparr>ev_worker = worker, ev_output_hash = output_hash, ev_epoch = epoch\<rparr>]\<rparr> in
     andThen (if word_of_nat (length (ej_votes b')) \<ge> (ej_n_workers b' + 1) div 2
              then (case majority_hash iter (ej_votes b') of
                      Some winner_hash \<Rightarrow> finalize_job log b' winner_hash
                    | None \<Rightarrow> ret b')
              else ret b')
       (save_job job_id)))))"

text \<open>\<open>let _ = finalize_job(chain, &mut job, h)\<close>: on an error the job is as it was, a panic unwinds.\<close>

definition or_unchanged :: "EnsembleJob \<Rightarrow> EnsembleJob chain_act \<Rightarrow> EnsembleJob chain_act" where
  "or_unchanged b m = (\<lambda>s. case m s of
       (Inl (Panic t), s') \<Rightarrow> (Inl (Panic t), s')
     | (Inl _, s') \<Rightarrow> (Inr b, s')
     | (Inr b', s') \<Rightarrow> (Inr b', s'))"

definition sweep_job :: "env \<Rightarrow> count_order \<Rightarrow> bool \<Rightarrow> u64 \<Rightarrow> string \<times> val \<Rightarrow> unit chain_act" where
  "sweep_job E iter log epoch kv =
    (case Option.bind (as_json E (snd kv)) EnsembleJob_of_json of
       None \<Rightarrow> ret ()
     | Some b \<Rightarrow>
         if ej_status b \<noteq> EnsembleVoting then ret ()
         else if epoch \<le> ej_vote_deadline b then ret ()
         else
           andThen (case majority_hash iter (ej_votes b) of
               Some winner_hash \<Rightarrow> or_unchanged b (finalize_job log b winner_hash)
             | None \<Rightarrow>
                 seq (attempt (credit (ej_requester b) NATIVE_TOKEN (ej_max_fee b)))
                (seq (log_id log (ej_job_id b)) (ret (b\<lparr>ej_status := EnsembleCancelled\<rparr>))))
             (save_record EnsembleJob_json (fst kv)))"

definition sweep_jobs :: "env \<Rightarrow> count_order \<Rightarrow> bool \<Rightarrow> u64 \<Rightarrow> unit chain_act" where
  "sweep_jobs E iter log epoch =
     andThen (reads (\<lambda>s. state_scan_prefix s ''ensemble_job:'')) (each (sweep_job E iter log epoch))"

datatype ensemble_entry =
    EnsembleJobPost string string string string u64 u64 u64
  | EnsembleVote string string string u64
  | EnsembleSweep u64

fun apply_ensemble_entry :: "env \<Rightarrow> count_order \<Rightarrow> bool \<Rightarrow> ensemble_entry \<Rightarrow> unit chain_act" where
  "apply_ensemble_entry E iter log (EnsembleJobPost job_id requester model input_hash max_fee n_workers epoch) =
     apply_job_post log job_id requester model input_hash max_fee n_workers epoch"
| "apply_ensemble_entry E iter log (EnsembleVote job_id worker output_hash epoch) =
     apply_vote E iter log job_id worker output_hash epoch"
| "apply_ensemble_entry E iter log (EnsembleSweep epoch) = sweep_jobs E iter log epoch"

fun run_ensemble :: "env \<Rightarrow> count_order \<Rightarrow> bool \<Rightarrow> ensemble_entry list \<Rightarrow> chain \<Rightarrow> chain" where
  "run_ensemble E iter log [] s = s"
| "run_ensemble E iter log (x # xs) s = run_ensemble E iter log xs (snd (apply_ensemble_entry E iter log x s))"

section \<open>The majority\<close>

definition votes_for :: "EnsembleVoteRecord list \<Rightarrow> string \<Rightarrow> nat" where
  "votes_for votes h = length (filter (\<lambda>v. ev_output_hash v = h) votes)"

definition is_majority :: "EnsembleVoteRecord list \<Rightarrow> string \<Rightarrow> bool" where
  "is_majority votes h \<longleftrightarrow> length votes < 2 * votes_for votes h"

text \<open>A walk of a map visits each of its entries.\<close>

definition counts_walked :: "count_order \<Rightarrow> bool" where
  "counts_walked iter \<longleftrightarrow> (\<forall>m. set (iter m) = set m)"

lemma map_of_count_vote:
  "map_of (count_vote h m) k =
    (if k = h then Some (case map_of m h of Some n \<Rightarrow> n + 1 | None \<Rightarrow> 1) else map_of m k)"
  by (induction h m rule: count_vote.induct) auto

lemma keys_count_vote: "fst ` set (count_vote h m) = insert h (fst ` set m)"
  by (induction h m rule: count_vote.induct) auto

lemma distinct_count_vote: "distinct (map fst m) \<Longrightarrow> distinct (map fst (count_vote h m))"
  by (induction h m rule: count_vote.induct) (auto simp: keys_count_vote)

lemma vote_counts_spec:
  "distinct (map fst (vote_counts votes)) \<and>
    map_of (vote_counts votes) h = (if votes_for votes h = 0 then None else Some (votes_for votes h))"
proof (induction votes arbitrary: h rule: rev_induct)
  case Nil
  then show ?case by (simp add: vote_counts_def votes_for_def)
next
  case (snoc v votes)
  have "vote_counts (votes @ [v]) = count_vote (ev_output_hash v) (vote_counts votes)"
    by (simp add: vote_counts_def)
  moreover have "votes_for (votes @ [v]) k = votes_for votes k + (if ev_output_hash v = k then 1 else 0)" for k
    by (simp add: votes_for_def)
  ultimately show ?case
    using snoc by (simp add: map_of_count_vote distinct_count_vote)
qed

lemma vote_counts_mem: "(h, c) \<in> set (vote_counts votes) \<longleftrightarrow> c = votes_for votes h \<and> 0 < c"
  using vote_counts_spec [of votes h] map_of_eq_Some_iff [of "vote_counts votes" h c] by (auto split: if_splits)

lemma votes_for_two: "h \<noteq> k \<Longrightarrow> votes_for votes h + votes_for votes k \<le> length votes"
  by (induction votes) (auto simp: votes_for_def)

lemma majority_unique: "is_majority votes h \<Longrightarrow> is_majority votes k \<Longrightarrow> h = k"
  using votes_for_two [of h k votes] by (auto simp: is_majority_def)

lemma length_winners: "length (winners votes h) = votes_for votes h"
  by (simp add: winners_def votes_for_def)

text \<open>
  The hash that the count finds is the hash of more than half of the votes, if there is one, for every
  order in which the hash map may be walked.
\<close>

theorem majority_hash_iff:
  assumes "counts_walked iter"
  shows "majority_hash iter votes = Some h \<longleftrightarrow> is_majority votes h"
proof -
  have half: "length votes div 2 + 1 \<le> c \<longleftrightarrow> length votes < 2 * c" for c by auto
  let ?P = "\<lambda>(h, c). length votes div 2 + 1 \<le> (c :: nat)" and ?m = "iter (vote_counts votes)"
  have mem: "(k, c) \<in> set ?m \<longleftrightarrow> c = votes_for votes k \<and> 0 < c" for k c
    using assms by (simp add: counts_walked_def vote_counts_mem)
  have sound: "is_majority votes k" if found: "majority_hash iter votes = Some k" for k
  proof -
    from found obtain c where "find ?P ?m = Some (k, c)" by (auto simp: majority_hash_def Let_def)
    then have "(k, c) \<in> set ?m" "?P (k, c)" by (auto simp: find_Some_iff dest: nth_mem)
    then show ?thesis using mem half [of c] by (simp add: is_majority_def)
  qed
  have complete: "majority_hash iter votes \<noteq> None" if "is_majority votes h"
  proof -
    have "(h, votes_for votes h) \<in> set ?m" "?P (h, votes_for votes h)"
      using that mem by (auto simp: is_majority_def half)
    then show ?thesis by (auto simp: majority_hash_def Let_def find_None_iff)
  qed
  show ?thesis using sound complete majority_unique by auto
qed

section \<open>Payments\<close>

definition payout :: "u64 \<Rightarrow> nat \<Rightarrow> int" where
  "payout fee n = uint (per_worker fee n) * int n + uint (sat_sub fee (worker_pool fee))"

lemma worker_pool_le: "unat (worker_pool fee) \<le> unat fee"
proof -
  have "unat (fee * 7000) div 10000 \<le> unat fee * 7000 div 10000"
    by (rule div_le_mono) (simp add: unat_word_ariths)
  also have "\<dots> \<le> unat fee" by simp
  finally show ?thesis by (simp add: worker_pool_def WORKER_SHARE_BPS_def unat_div)
qed

lemma payout_bounds:
  assumes "0 < n" "n < 2 ^ 64"
  shows "payout fee n \<le> uint fee" and "uint fee - int n < payout fee n"
proof -
  let ?p = "unat (worker_pool fee)" and ?w = "unat (per_worker fee n)"
  have "unat (word_of_nat (max n 1) :: u64) = n"
    using assms by (simp add: unat_u64_of_nat max_def)
  then have w: "?w = ?p div n" by (simp add: per_worker_def unat_div)
  have mod: "?w * n + ?p mod n = ?p" unfolding w by simp
  have "?p mod n < n" using assms(1) by simp
  have pay: "payout fee n = int (?w * n + (unat fee - ?p))"
    unfolding payout_def uint_nat by (simp add: unat_sat_sub)
  show "payout fee n \<le> uint fee"
    unfolding pay uint_nat using mod worker_pool_le [of fee] by linarith
  show "uint fee - int n < payout fee n"
    unfolding pay uint_nat using mod \<open>?p mod n < n\<close> worker_pool_le [of fee] by linarith
qed

text \<open>The payments of a decision, before its log line.\<close>

definition pay_decision :: "EnsembleJob \<Rightarrow> string \<Rightarrow> unit chain_act" where
  "pay_decision b h =
    (let ws = winners (ej_votes b) h; recycle = sat_sub (ej_max_fee b) (worker_pool (ej_max_fee b)) in
     seq (each (\<lambda>w. seq (credit w NATIVE_TOKEN (per_worker (ej_max_fee b) (length ws))) (ret ())) ws)
         (when_do (recycle > 0) (seq (credit RECYCLE_FUND_ACCOUNT NATIVE_TOKEN recycle) (ret ()))))"

lemma finalize_job_apply:
  "pay_decision b h s = (Inr (), s1) \<Longrightarrow>
    finalize_job log b h s =
      (if log \<and> \<not> char_boundary (ej_job_id b) 12 then (Inl (Panic ''byte index 12 is not a char boundary''), s1)
       else (Inr (b\<lparr>ej_status := EnsembleFinalized, ej_winner_output_hash := Some h\<rparr>), s1))"
  by (auto simp: pay_decision_def finalize_job_def Let_def seq_apply log_id_def when_do_apply ensure_apply ret_apply
      split: prod.splits sum.splits if_splits)

lemma pay_decision_runs:
  assumes fits: "hone_total s + payout (ej_max_fee b) (votes_for (ej_votes b) h) < 2 ^ 64"
  obtains s1 where "pay_decision b h s = (Inr (), s1)" "cf_meta s1 = cf_meta s"
    "hone_total s1 = hone_total s + payout (ej_max_fee b) (votes_for (ej_votes b) h)"
proof -
  let ?n = "votes_for (ej_votes b) h" and ?f = "ej_max_fee b"
  let ?w = "per_worker ?f ?n" and ?rc = "sat_sub ?f (worker_pool ?f)"
  have "hone_total s + uint ?w * int (length (winners (ej_votes b) h)) < 2 ^ 64"
    using fits uint_ge_0 [of ?rc] unfolding payout_def length_winners by linarith
  from credits_run [OF this] obtain s1 where
    s1: "each (\<lambda>a. seq (credit a NATIVE_TOKEN ?w) (ret ())) (winners (ej_votes b) h) s = (Inr (), s1)"
    "cf_meta s1 = cf_meta s" "hone_total s1 = hone_total s + uint ?w * int ?n"
    by (auto simp: length_winners)
  have "hone_total s1 + uint ?rc < 2 ^ 64" using fits s1(3) by (simp add: payout_def)
  then obtain x s2 where c: "credit RECYCLE_FUND_ACCOUNT NATIVE_TOKEN ?rc s1 = (Inr x, s2)"
    using credit_succeeds by blast
  show ?thesis
  proof (cases "?rc > 0")
    case True
    then show ?thesis
      using that [of s2] s1 c credit_run [OF c]
      by (simp add: pay_decision_def Let_def seq_apply when_do_apply ret_apply length_winners payout_def)
  next
    case False
    then have "?rc = 0" by (simp only: word_gt_0 not_not)
    then show ?thesis
      using that [of s1] s1 False
      by (simp add: pay_decision_def Let_def seq_apply when_do_apply length_winners payout_def)
  qed
qed

section \<open>Jobs in order\<close>

definition id_ok :: "bool \<Rightarrow> string \<Rightarrow> bool" where
  "id_ok log i \<longleftrightarrow> (log \<longrightarrow> char_boundary i 12)"

definition job_ok :: "bool \<Rightarrow> nat \<Rightarrow> string \<Rightarrow> EnsembleJob \<Rightarrow> bool" where
  "job_ok log n i b \<longleftrightarrow> ej_job_id b = i \<and> id_ok log i \<and> distinct (map ev_worker (ej_votes b)) \<and>
     length (ej_votes b) + n < 2 ^ 64 \<and>
     (ej_status b = EnsembleFinalized \<longrightarrow> (\<exists>h. ej_winner_output_hash b = Some h \<and> is_majority (ej_votes b) h))"

definition jobs_ok :: "env \<Rightarrow> bool \<Rightarrow> nat \<Rightarrow> chain \<Rightarrow> bool" where
  "jobs_ok E log n s \<longleftrightarrow> (\<forall>i b. get_job E s i = Some b \<longrightarrow> job_ok log n i b)"

definition ensemble_value :: "env \<Rightarrow> chain \<Rightarrow> int" where
  "ensemble_value E s = escrow_value E EnsembleJob_of_json ''ensemble_job:'' voting_fee s"

text \<open>One job is replaced, after payments of \<open>d\<close>.\<close>

definition job_step :: "env \<Rightarrow> string \<Rightarrow> EnsembleJob \<Rightarrow> int \<Rightarrow> chain \<Rightarrow> chain \<Rightarrow> bool" where
  "job_step E i b' d s s' \<longleftrightarrow>
     ensemble_value E s' = ensemble_value E s + d + voting_fee b' - jobs.owed E s (ensemble_job_key i) \<and>
     get_job E s' i = Some b' \<and>
     (\<forall>k. k \<noteq> ensemble_job_key i \<longrightarrow> state_get s' k = state_get s k)"

lemma job_key_simps [simp]:
  "ensemble_job_key i = ensemble_job_key k \<longleftrightarrow> i = k" "prefix ''ensemble_job:'' (ensemble_job_key i)"
  by (simp_all add: ensemble_job_key_def)

lemma job_step_intro:
  assumes meta: "cf_meta s1 = cf_meta s" and bal: "hone_total s1 = hone_total s + d"
    and sv: "save_job i b' s1 = (x, s')"
  shows "job_step E i b' d s s'"
  using jobs.pay_and_save [OF meta bal sv] by (simp add: job_step_def ensemble_value_def)

lemma job_step_ok:
  assumes "job_step E i b' d s s'" "jobs_ok E log n s" "job_ok log n i b'"
  shows "jobs_ok E log n s'"
  unfolding jobs_ok_def
proof (intro allI impI)
  fix k c
  assume c: "get_job E s' k = Some c"
  show "job_ok log n k c"
  proof (cases "k = i")
    case True
    with c assms show ?thesis by (simp add: job_step_def)
  next
    case False
    then have "get_job E s' k = get_job E s k"
      using assms(1) by (intro peek_cong) (simp add: job_step_def)
    with c assms(2) show ?thesis by (simp add: jobs_ok_def)
  qed
qed

lemma jobs_ok_mono: "jobs_ok E log n s \<Longrightarrow> m \<le> n \<Longrightarrow> jobs_ok E log m s"
  by (fastforce simp: jobs_ok_def job_ok_def)

definition decided :: "EnsembleJob \<Rightarrow> string \<Rightarrow> EnsembleJob" where
  "decided b h = b\<lparr>ej_status := EnsembleFinalized, ej_winner_output_hash := Some h\<rparr>"

lemma voting_fee_decided [simp]: "voting_fee (decided b h) = 0"
  by (simp add: voting_fee_def decided_def)

text \<open>A decision that has room to pay goes through and gives the fee away but for the rounding.\<close>

lemma decide_runs:
  assumes fits: "ensemble_value E s < 2 ^ 64" and b: "get_job E s i = Some b0" "voting_fee b0 = uint (ej_max_fee b)"
    and id: "id_ok log (ej_job_id b)" and h: "is_majority (ej_votes b) h" "length (ej_votes b) < 2 ^ 64"
  obtains s1 where "finalize_job log b h s = (Inr (decided b h), s1)" "cf_meta s1 = cf_meta s"
    "hone_total s1 = hone_total s + payout (ej_max_fee b) (votes_for (ej_votes b) h)"
    "payout (ej_max_fee b) (votes_for (ej_votes b) h) \<le> uint (ej_max_fee b)"
proof -
  have n: "0 < votes_for (ej_votes b) h" "votes_for (ej_votes b) h < 2 ^ 64"
    using h by (auto simp: is_majority_def votes_for_def intro: le_less_trans [OF length_filter_le])
  note le = payout_bounds(1) [OF n, of "ej_max_fee b"]
  have "uint (ej_max_fee b) \<le> record_total E EnsembleJob_of_json ''ensemble_job:'' voting_fee s"
    using jobs.owed_le [of "ensemble_job_key i" E s] b by simp
  then have "hone_total s + payout (ej_max_fee b) (votes_for (ej_votes b) h) < 2 ^ 64"
    using fits le by (simp add: ensemble_value_def escrow_value_def)
  from pay_decision_runs [OF this] obtain s1 where "pay_decision b h s = (Inr (), s1)" "cf_meta s1 = cf_meta s"
    "hone_total s1 = hone_total s + payout (ej_max_fee b) (votes_for (ej_votes b) h)" .
  then show ?thesis
    using that [of s1] finalize_job_apply [of b h s s1 log] id le by (simp add: id_ok_def decided_def)
qed

abbreviation with_vote :: "EnsembleJob \<Rightarrow> string \<Rightarrow> string \<Rightarrow> u64 \<Rightarrow> EnsembleJob" where
  "with_vote b w h e \<equiv> b\<lparr>ej_votes := ej_votes b @ [\<lparr>ev_worker = w, ev_output_hash = h, ev_epoch = e\<rparr>]\<rparr>"

definition vote_open :: "EnsembleJob \<Rightarrow> string \<Rightarrow> u64 \<Rightarrow> bool" where
  "vote_open b w e \<longleftrightarrow> ej_status b = EnsembleVoting \<and> \<not> e > ej_vote_deadline b \<and> w \<notin> ev_worker ` set (ej_votes b)"

definition quorum_met :: "EnsembleJob \<Rightarrow> bool" where
  "quorum_met b \<longleftrightarrow> word_of_nat (length (ej_votes b)) \<ge> (ej_n_workers b + 1) div 2"

lemma apply_vote_apply:
  assumes "get_job E s i = Some b" "vote_open b w e"
  shows "apply_vote E iter log i w h e s =
    andThen (if quorum_met (with_vote b w h e)
             then (case majority_hash iter (ej_votes (with_vote b w h e)) of
                     Some k \<Rightarrow> finalize_job log (with_vote b w h e) k | None \<Rightarrow> ret (with_vote b w h e))
             else ret (with_vote b w h e)) (save_job i) s"
  using assms
  by (auto simp: apply_vote_def andThen_apply load_record_apply seq_apply ensure_apply vote_open_def list_ex_iff
      quorum_met_def Let_def)

lemma vote_refused:
  assumes "\<nexists>b. get_job E s i = Some b \<and> vote_open b w e"
  shows "snd (apply_vote E iter log i w h e s) = s \<and> fst (apply_vote E iter log i w h e s) \<noteq> Inr ()"
  using assms
  by (cases "get_job E s i")
    (auto simp: apply_vote_def andThen_apply load_record_apply seq_apply ensure_apply vote_open_def list_ex_iff)

lemma vote_effect:
  assumes fits: "ensemble_value E s < 2 ^ 64" and ok: "jobs_ok E log (Suc n) s" and iter: "counts_walked iter"
    and run: "apply_vote E iter log i w h e s = (x, s')"
  shows "ensemble_value E s' \<le> ensemble_value E s \<and> jobs_ok E log n s'"
proof (cases "\<exists>b. get_job E s i = Some b \<and> vote_open b w e")
  case False
  from vote_refused [OF False, of iter log h] run have "s' = s" by simp
  with ok show ?thesis by (auto intro: jobs_ok_mono)
next
  case True
  then obtain b where b: "get_job E s i = Some b" "vote_open b w e" by blast
  let ?b = "with_vote b w h e"
  have okb: "job_ok log (Suc n) i b" using ok b by (simp add: jobs_ok_def)
  then have okv: "job_ok log n i ?b" and id: "id_ok log (ej_job_id ?b)" and len: "length (ej_votes ?b) < 2 ^ 64"
    using b(2) by (auto simp: job_ok_def vote_open_def)
  have fee: "voting_fee b = uint (ej_max_fee ?b)" using b(2) by (simp add: voting_fee_def vote_open_def)
  note run' = run [unfolded apply_vote_apply [OF b]]
  have okn: "jobs_ok E log n s" using jobs_ok_mono [OF ok] by simp
  show ?thesis
  proof (cases "quorum_met ?b \<and> (\<exists>k. majority_hash iter (ej_votes ?b) = Some k)")
    case False
    with run' have sv: "save_job i ?b s = (x, s')"
      by (auto simp: andThen_apply ret_apply split: if_splits option.splits)
    have st: "job_step E i ?b 0 s s'" by (rule job_step_intro [OF refl _ sv]) simp
    then show ?thesis
      using job_step_ok [OF st okn okv] b fee by (simp add: job_step_def voting_fee_def vote_open_def)
  next
    case True
    then obtain k where k: "quorum_met ?b" "majority_hash iter (ej_votes ?b) = Some k" by blast
    have maj: "is_majority (ej_votes ?b) k" using k(2) majority_hash_iff [OF iter] by simp
    obtain s1 where s1: "finalize_job log ?b k s = (Inr (decided ?b k), s1)" "cf_meta s1 = cf_meta s"
      "hone_total s1 = hone_total s + payout (ej_max_fee ?b) (votes_for (ej_votes ?b) k)"
      "payout (ej_max_fee ?b) (votes_for (ej_votes ?b) k) \<le> uint (ej_max_fee ?b)"
      by (rule decide_runs [OF fits b(1) fee id maj len])
    have sv: "save_job i (decided ?b k) s1 = (x, s')"
      using run' k s1(1) by (simp add: andThen_apply)
    have st: "job_step E i (decided ?b k) (payout (ej_max_fee ?b) (votes_for (ej_votes ?b) k)) s s'"
      by (rule job_step_intro [OF s1(2,3) sv])
    have "job_ok log n i (decided ?b k)" using okv maj by (simp add: job_ok_def decided_def)
    from job_step_ok [OF st okn this] st s1(4) b fee show ?thesis
      by (simp add: job_step_def)
  qed
qed

lemma job_post_effect:
  assumes run: "apply_job_post log i q m ih f nw e s = (x, s')" and ok: "jobs_ok E log (Suc n) s"
    and i: "id_ok log i" "n < 2 ^ 64"
  shows "ensemble_value E s' = ensemble_value E s \<and> jobs_ok E log n s'"
proof (cases "state_get s (ensemble_job_key i) = None \<and> \<not> (nw < MIN_ENSEMBLE_SIZE \<or> nw > MAX_ENSEMBLE_SIZE) \<and>
    f \<le> get_balance s q NATIVE_TOKEN")
  case False
  with run have "s' = s"
    by (auto simp: apply_job_post_def andThen_apply reads_apply seq_apply ensure_apply debit_cases split: if_splits)
  with ok show ?thesis by (auto intro: jobs_ok_mono)
next
  case True
  let ?b = "\<lparr>ej_job_id = i, ej_requester = q, ej_model = m, ej_input_hash = ih, ej_max_fee = f, ej_n_workers = nw,
    ej_posted_epoch = e, ej_vote_deadline = e + VOTE_WINDOW_EPOCHS, ej_votes = [], ej_status = EnsembleVoting,
    ej_winner_output_hash = None\<rparr>"
  obtain y s1 where d: "debit q NATIVE_TOKEN f s = (Inr y, s1)" using True by (simp add: debit_cases)
  obtain s2 where sv: "save_job i ?b s1 = (Inr (), s2)" by (simp add: save_record_apply)
  have "s' = s2"
    using True run d sv
    by (auto simp: apply_job_post_def andThen_apply reads_apply seq_apply ensure_apply log_id_def when_do_apply
        split: if_splits)
  moreover have st: "job_step E i ?b (- uint f) s s2"
    by (rule job_step_intro [OF _ _ sv]) (use debit_run [OF d] in simp_all)
  moreover have "jobs.owed E s (ensemble_job_key i) = 0" using True by (simp add: peek_state_get)
  moreover have "job_ok log n i ?b" using i by (simp add: job_ok_def)
  ultimately show ?thesis
    using job_step_ok [OF st jobs_ok_mono [OF ok]] by (simp add: job_step_def voting_fee_def)
qed

lemma sweep_job_effect:
  assumes fits: "ensemble_value E s < 2 ^ 64" and ok: "jobs_ok E log n s" and iter: "counts_walked iter"
    and v: "state_get s (ensemble_job_key i) = Some v" and run: "sweep_job E iter log e (ensemble_job_key i, v) s = (x, s')"
  shows "ensemble_value E s' \<le> ensemble_value E s \<and> jobs_ok E log n s' \<and>
    (\<forall>k. k \<noteq> ensemble_job_key i \<longrightarrow> state_get s' k = state_get s k)"
proof (cases "\<exists>b. get_job E s i = Some b \<and> ej_status b = EnsembleVoting \<and> \<not> e \<le> ej_vote_deadline b")
  case False
  with run v have "s' = s"
    by (auto simp: sweep_job_def peek_state_get ret_apply split: option.splits if_splits)
  with ok show ?thesis by simp
next
  case True
  then obtain b where b: "get_job E s i = Some b" "ej_status b = EnsembleVoting" "\<not> e \<le> ej_vote_deadline b" by blast
  have dec: "Option.bind (as_json E v) EnsembleJob_of_json = Some b" using b(1) v by (simp add: peek_state_get)
  have okb: "job_ok log n i b" using ok b(1) by (simp add: jobs_ok_def)
  then have id: "id_ok log (ej_job_id b)" and len: "length (ej_votes b) < 2 ^ 64" by (auto simp: job_ok_def)
  have fee: "voting_fee b = uint (ej_max_fee b)" using b(2) by (simp add: voting_fee_def)
  have "\<exists>b' d s1. cf_meta s1 = cf_meta s \<and> hone_total s1 = hone_total s + d \<and> d \<le> uint (ej_max_fee b) \<and>
    voting_fee b' = 0 \<and> job_ok log n i b' \<and> save_job i b' s1 = (x, s')"
  proof (cases "majority_hash iter (ej_votes b)")
    case None
    have "uint (ej_max_fee b) \<le> record_total E EnsembleJob_of_json ''ensemble_job:'' voting_fee s"
      using jobs.owed_le [of "ensemble_job_key i" E s] b(1) fee by simp
    then have "hone_total s + uint (ej_max_fee b) < 2 ^ 64"
      using fits by (simp add: ensemble_value_def escrow_value_def)
    then obtain y s1 where c: "credit (ej_requester b) NATIVE_TOKEN (ej_max_fee b) s = (Inr y, s1)"
      using credit_succeeds by blast
    have "save_job i (b\<lparr>ej_status := EnsembleCancelled\<rparr>) s1 = (x, s')"
      using run b(2,3) None c id
      by (simp add: sweep_job_def dec andThen_apply seq_apply attempt_apply ret_apply log_id_def when_do_apply
          ensure_apply id_ok_def split: if_splits)
    moreover have "job_ok log n i (b\<lparr>ej_status := EnsembleCancelled\<rparr>)"
      "voting_fee (b\<lparr>ej_status := EnsembleCancelled\<rparr>) = 0"
      using okb by (simp_all add: job_ok_def voting_fee_def)
    ultimately show ?thesis using credit_run [OF c] by blast
  next
    case (Some k)
    then have maj: "is_majority (ej_votes b) k" using majority_hash_iff [OF iter] by simp
    obtain s1 where s1: "finalize_job log b k s = (Inr (decided b k), s1)" "cf_meta s1 = cf_meta s"
      "hone_total s1 = hone_total s + payout (ej_max_fee b) (votes_for (ej_votes b) k)"
      "payout (ej_max_fee b) (votes_for (ej_votes b) k) \<le> uint (ej_max_fee b)"
      by (rule decide_runs [OF fits b(1) fee id maj len])
    have "save_job i (decided b k) s1 = (x, s')"
      using run b(2,3) Some s1(1) by (simp add: sweep_job_def dec andThen_apply or_unchanged_def)
    moreover have "job_ok log n i (decided b k)" using okb maj by (simp add: job_ok_def decided_def)
    ultimately show ?thesis using s1 voting_fee_decided by blast
  qed
  then obtain b' d s1 where p: "cf_meta s1 = cf_meta s" "hone_total s1 = hone_total s + d"
    "d \<le> uint (ej_max_fee b)" "voting_fee b' = 0" "job_ok log n i b'" "save_job i b' s1 = (x, s')" by blast
  have st: "job_step E i b' d s s'" by (rule job_step_intro [OF p(1,2,6)])
  with p b(1) fee job_step_ok [OF st ok p(5)] show ?thesis by (simp add: job_step_def)
qed

lemma sweep_jobs_effect:
  assumes wf: "wf_chain s" and fits: "ensemble_value E s < 2 ^ 64" and ok: "jobs_ok E log n s"
    and iter: "counts_walked iter" and run: "sweep_jobs E iter log e s = (x, s')"
  shows "ensemble_value E s' \<le> ensemble_value E s \<and> jobs_ok E log n s'"
proof (rule scan_each_invariant [OF wf _ run [unfolded sweep_jobs_def], where
      P = "\<lambda>u. ensemble_value E u \<le> ensemble_value E s \<and> jobs_ok E log n u"])
  fix k v u r u'
  assume P: "ensemble_value E u \<le> ensemble_value E s \<and> jobs_ok E log n u"
    and k: "prefix ''ensemble_job:'' k" and v: "state_get u k = Some v" and st: "sweep_job E iter log e (k, v) u = (r, u')"
  obtain i where i: "k = ensemble_job_key i" using k by (auto simp: ensemble_job_key_def prefix_def)
  have "ensemble_value E u < 2 ^ 64" using P fits by linarith
  from sweep_job_effect [OF this _ iter v [unfolded i] st [unfolded i], of n] P i
  show "(ensemble_value E u' \<le> ensemble_value E s \<and> jobs_ok E log n u') \<and>
    (\<forall>j. prefix ''ensemble_job:'' j \<longrightarrow> j \<noteq> k \<longrightarrow> state_get u' j = state_get u j)" by auto
qed (use ok in simp)

lemma preserves_or_unchanged [preserves_intros]: "preserves P m \<Longrightarrow> preserves P (or_unchanged b m)"
  unfolding preserves_def or_unchanged_def
  by (fastforce split: prod.split sum.split error.split)

lemma wf_ensemble_entry: "preserves wf_chain (apply_ensemble_entry E iter log x)"
proof -
  have f: "preserves wf_chain (finalize_job log b h)" for b h
    unfolding finalize_job_def log_id_def by (intro preserves_intros)
  show ?thesis
    by (cases x)
      (auto simp: apply_job_post_def apply_vote_def sweep_jobs_def sweep_job_def log_id_def intro!: preserves_intros f)
qed

definition entry_id_ok :: "bool \<Rightarrow> ensemble_entry \<Rightarrow> bool" where
  "entry_id_ok log x = (case x of EnsembleJobPost i _ _ _ _ _ _ \<Rightarrow> id_ok log i | _ \<Rightarrow> True)"

lemma ensemble_entry_effect:
  assumes "wf_chain s" and "ensemble_value E s < 2 ^ 64" and "jobs_ok E log (Suc n) s" and "n < 2 ^ 64"
    and "counts_walked iter" and "entry_id_ok log x" and run: "apply_ensemble_entry E iter log x s = (y, s')"
  shows "ensemble_value E s' \<le> ensemble_value E s \<and> jobs_ok E log n s'"
proof (cases x)
  case (EnsembleJobPost i q m ih f nw e)
  with job_post_effect [of log i q m ih f nw e s y s' E n] assms show ?thesis by (simp add: entry_id_ok_def)
next
  case (EnsembleVote i w h e)
  with vote_effect [of E s log n iter i w h e y s'] assms show ?thesis by simp
next
  case (EnsembleSweep e)
  with sweep_jobs_effect [OF assms(1,2) jobs_ok_mono [OF assms(3)] assms(5), of n e y s'] run show ?thesis by simp
qed

text \<open>
  (C16) Escrow of ensemble jobs. Let the job ids be such that the log lines do not panic, or logging be off.
  Then along any sequence of posts, votes and sweeps the native supply with the fees in escrow does not
  grow, no worker has two votes on a job, and each decided job records a hash with more than half of
  its votes, whatever the order in which the vote counts are walked.
\<close>

theorem ensemble_creates_nothing:
  assumes "wf_chain s" and "ensemble_value E s < 2 ^ 64" and "jobs_ok E log (length xs) s" and "length xs < 2 ^ 64"
    and "counts_walked iter" and "list_all (entry_id_ok log) xs"
  shows "ensemble_value E (run_ensemble E iter log xs s) \<le> ensemble_value E s \<and>
    jobs_ok E log 0 (run_ensemble E iter log xs s)"
  using assms
proof (induction xs arbitrary: s)
  case (Cons x xs)
  obtain y s1 where run: "apply_ensemble_entry E iter log x s = (y, s1)" by (cases "apply_ensemble_entry E iter log x s")
  have "jobs_ok E log (Suc (length xs)) s" "length xs < 2 ^ 64" "entry_id_ok log x" using Cons.prems by simp_all
  note eff = ensemble_entry_effect [OF Cons.prems(1,2) this(1,2) Cons.prems(5) this(3) run]
  have "wf_chain s1" using preservesD [OF wf_ensemble_entry Cons.prems(1) run] .
  moreover have "ensemble_value E s1 < 2 ^ 64" using eff Cons.prems(2) by linarith
  ultimately have "ensemble_value E (run_ensemble E iter log xs s1) \<le> ensemble_value E s1 \<and>
    jobs_ok E log 0 (run_ensemble E iter log xs s1)"
    using Cons.IH [of s1] eff Cons.prems(4-6) by simp
  with eff run show ?case by simp
qed simp

definition demo_job :: "string \<Rightarrow> u64 \<Rightarrow> EnsembleJob" where
  "demo_job i n = \<lparr>ej_job_id = i, ej_requester = ''req'', ej_model = [], ej_input_hash = [], ej_max_fee = 1000,
     ej_n_workers = n, ej_posted_epoch = 1, ej_vote_deadline = 4, ej_votes = [], ej_status = EnsembleVoting,
     ej_winner_output_hash = None\<rparr>"

definition demo_job_chain :: "string \<Rightarrow> u64 \<Rightarrow> chain" where
  "demo_job_chain i n = empty_chain\<lparr>cf_meta := [(ensemble_job_key i, Json (EnsembleJob_json (demo_job i n)))]\<rparr>"

lemma demo_job_get: "get_job E (demo_job_chain i n) k = (if k = i then Some (demo_job i n) else None)"
  using jobs.decode_encode by (simp add: peek_state_get state_get_def demo_job_chain_def kv_get_def)

lemma demo_job_value: "hone_total (demo_job_chain i n) = 0" "ensemble_value E (demo_job_chain i n) = 1000"
  using jobs.decode_encode
  by (simp_all add: ensemble_value_def escrow_value_def token_supply_def record_total_def demo_job_chain_def
      empty_chain_def kv_sum_def record_share_def voting_fee_def demo_job_def)

lemma counts_walked_id: "counts_walked id"
  by (simp add: counts_walked_def)

theorem ensemble_creates_nothing_witness:
  "ensemble_value demo_env (run_ensemble demo_env id True
      [EnsembleVote ''job000000001'' ''ann'' ''h'' 2, EnsembleVote ''job000000001'' ''bob'' ''h'' 2, EnsembleSweep 9]
      (demo_job_chain ''job000000001'' 3)) \<le> 1000"
proof -
  let ?s = "demo_job_chain ''job000000001'' 3"
  let ?xs = "[EnsembleVote ''job000000001'' ''ann'' ''h'' 2, EnsembleVote ''job000000001'' ''bob'' ''h'' 2, EnsembleSweep 9]"
  have wf: "wf_chain ?s" by (simp add: wf_chain_def demo_job_chain_def empty_chain_def kv_sorted_def)
  have ok: "jobs_ok demo_env True (length ?xs) ?s"
    by (simp add: jobs_ok_def demo_job_get job_ok_def id_ok_def char_boundary_def demo_job_def)
  have v: "ensemble_value demo_env ?s < 2 ^ 64" by (simp add: demo_job_value)
  have ids: "list_all (entry_id_ok True) ?xs" by (simp add: entry_id_ok_def)
  from ensemble_creates_nothing [OF wf v ok _ counts_walked_id ids] show ?thesis
    by (simp add: demo_job_value)
qed

section \<open>Deciding votes\<close>

lemma majority_of_all: "votes \<noteq> [] \<Longrightarrow> (\<And>v. v \<in> set votes \<Longrightarrow> ev_output_hash v = h) \<Longrightarrow> is_majority votes h"
  by (simp add: is_majority_def votes_for_def)

text \<open>
  A job that asks for two workers is decided by the first vote, whoever casts it and whatever it says:
  the vote is a majority of the votes cast, and one vote is the quorum.
\<close>

theorem first_of_two_decides:
  assumes fits: "ensemble_value E s < 2 ^ 64" and iter: "counts_walked iter" and b: "get_job E s i = Some b"
    "vote_open b w e" "ej_votes b = []" "ej_n_workers b = 2" and id: "id_ok log (ej_job_id b)"
  shows "\<exists>s'. apply_vote E iter log i w h e s = (Inr (), s') \<and>
    get_job E s' i = Some (decided (with_vote b w h e) h) \<and> winners (ej_votes (with_vote b w h e)) h = [w]"
proof -
  let ?b = "with_vote b w h e"
  have maj: "is_majority (ej_votes ?b) h" by (rule majority_of_all) (auto simp: b(3))
  have q: "quorum_met ?b" by (simp add: quorum_met_def b(3,4))
  have fee: "voting_fee b = uint (ej_max_fee ?b)" using b(2) by (simp add: voting_fee_def vote_open_def)
  have idv: "id_ok log (ej_job_id ?b)" and len: "length (ej_votes ?b) < 2 ^ 64" using id by (simp_all add: b(3))
  obtain s1 where s1: "finalize_job log ?b h s = (Inr (decided ?b h), s1)"
    by (rule decide_runs [OF fits b(1) fee idv maj len])
  obtain s' where sv: "save_job i (decided ?b h) s1 = (Inr (), s')" by (simp add: save_record_apply)
  have mh: "majority_hash iter (ej_votes ?b) = Some h" using maj majority_hash_iff [OF iter] by simp
  have "apply_vote E iter log i w h e s = (Inr (), s')"
    using q mh s1 sv by (simp add: apply_vote_apply [OF b(1,2)] andThen_apply)
  moreover have "get_job E s' i = Some (decided ?b h)" by (rule jobs.peek_save [OF sv])
  ultimately show ?thesis by (simp add: winners_def b(3))
qed

text \<open>
  With logging on and a job id shorter than twelve bytes (or cut inside a character), a vote that decides
  the job pays the winners and panics before the vote is recorded. The job is as before, so that the same
  vote does it again: after \<open>n\<close> submissions the supply has grown by \<open>n\<close> payments and the next one panics too.
\<close>

theorem short_job_id_mints:
  assumes b: "get_job E s i = Some b" "vote_open b w e" "ej_job_id b = i" and short: "\<not> char_boundary i 12"
    and q: "quorum_met (with_vote b w h e)" "majority_hash iter (ej_votes (with_vote b w h e)) = Some k"
    and room: "hone_total s + int (Suc n) * payout (ej_max_fee b) (votes_for (ej_votes (with_vote b w h e)) k) < 2 ^ 64"
  shows "hone_total (((\<lambda>t. snd (apply_vote E iter True i w h e t)) ^^ n) s) =
      hone_total s + int n * payout (ej_max_fee b) (votes_for (ej_votes (with_vote b w h e)) k) \<and>
    get_job E (((\<lambda>t. snd (apply_vote E iter True i w h e t)) ^^ n) s) i = Some b \<and>
    fst (apply_vote E iter True i w h e (((\<lambda>t. snd (apply_vote E iter True i w h e t)) ^^ n) s)) =
      Inl (Panic ''byte index 12 is not a char boundary'')"
proof -
  let ?b = "with_vote b w h e" and ?f = "\<lambda>t. snd (apply_vote E iter True i w h e t)"
  let ?p = "payout (ej_max_fee b) (votes_for (ej_votes ?b) k)"
  have pos: "0 \<le> ?p" by (simp add: payout_def)
  have once: "fst (apply_vote E iter True i w h e t) = Inl (Panic ''byte index 12 is not a char boundary'') \<and>
      hone_total (?f t) = hone_total t + ?p \<and> get_job E (?f t) i = Some b"
    if t: "get_job E t i = Some b" "hone_total t + ?p < 2 ^ 64" for t
  proof -
    obtain s1 where s1: "pay_decision ?b k t = (Inr (), s1)" "cf_meta s1 = cf_meta t"
      "hone_total s1 = hone_total t + ?p" using pay_decision_runs [of t ?b k] t(2) by auto
    have "finalize_job True ?b k t = (Inl (Panic ''byte index 12 is not a char boundary''), s1)"
      using finalize_job_apply [OF s1(1), of True] short b(3) by simp
    then have "apply_vote E iter True i w h e t = (Inl (Panic ''byte index 12 is not a char boundary''), s1)"
      using q by (simp add: apply_vote_apply [OF t(1) b(2)] andThen_apply)
    moreover have "get_job E s1 i = get_job E t i" using s1(2) by (intro peek_cong) (simp add: state_get_def)
    ultimately show ?thesis using s1 t by simp
  qed
  have run: "m \<le> n \<Longrightarrow> hone_total ((?f ^^ m) s) = hone_total s + int m * ?p \<and> get_job E ((?f ^^ m) s) i = Some b" for m
  proof (induction m)
    case (Suc m)
    have "int (Suc m) * ?p \<le> int (Suc n) * ?p" using Suc.prems pos by (intro mult_right_mono) simp_all
    then have "hone_total ((?f ^^ m) s) + ?p < 2 ^ 64"
      using Suc room by (simp add: algebra_simps)
    from once [OF _ this] Suc show ?case by (simp add: algebra_simps)
  qed (simp add: b)
  have "hone_total ((?f ^^ n) s) + ?p < 2 ^ 64" using run [of n] room by (simp add: algebra_simps)
  from once [OF _ this] run [of n] show ?thesis by simp
qed

lemma payout_demo: "payout 1000 (Suc 0) = 1000"
  by (simp add: payout_def per_worker_def worker_pool_def WORKER_SHARE_BPS_def sat_sub_def)

theorem short_job_id_mints_witness:
  "hone_total (((\<lambda>t. snd (apply_vote demo_env id True ''job'' ''bob'' ''h'' 2 t)) ^^ 3) (demo_job_chain ''job'' 2)) = 3000"
proof -
  let ?b = "with_vote (demo_job ''job'' 2) ''bob'' ''h'' 2"
  have get: "get_job demo_env (demo_job_chain ''job'' 2) ''job'' = Some (demo_job ''job'' 2)" by (simp add: demo_job_get)
  have v: "vote_open (demo_job ''job'' 2) ''bob'' 2" "ej_job_id (demo_job ''job'' 2) = ''job''" "\<not> char_boundary ''job'' 12"
    "quorum_met ?b" by (simp_all add: vote_open_def demo_job_def char_boundary_def quorum_met_def)
  have m: "majority_hash id (ej_votes ?b) = Some ''h''"
    using majority_hash_iff [OF counts_walked_id] majority_of_all [of "ej_votes ?b" "''h''"] by (simp add: demo_job_def)
  have p: "payout (ej_max_fee (demo_job ''job'' 2)) (votes_for (ej_votes ?b) ''h'') = 1000"
    by (simp add: votes_for_def demo_job_def payout_demo)
  have "hone_total (demo_job_chain ''job'' 2) + int (Suc 3) *
      payout (ej_max_fee (demo_job ''job'' 2)) (votes_for (ej_votes ?b) ''h'') < 2 ^ 64"
    unfolding p by (simp add: demo_job_value)
  from short_job_id_mints [OF get v m this] show ?thesis unfolding p by (simp add: demo_job_value)
qed

end
