(* ===== verification/AgentSession.thy ===== *)
theory AgentSession
  imports AgentTask
begin

text \<open>
  Agent sessions (\<open>agent_session.rs\<close>): opening with a fee in escrow, turns of the conversation with the
  rolling history, closing with refund and protocol fee, the sweep of expired sessions. A turn reads the
  session, waits for the inference engine and writes the session back, without a lock; the model has it
  as two actions, and as their composition where nothing comes in between.

  Opening, closing and expiry conserve value; each turn destroys the fee it takes out of the escrow, and
  the turns are charged again when the session closes, twice each. A close that falls between the two
  halves of a turn is undone by the second half: the session is open again with the escrow that was paid
  out.
\<close>

section \<open>State\<close>

definition MAX_HISTORY_TURNS :: nat where "MAX_HISTORY_TURNS = 50"

definition SESSION_FEE_PER_TURN_HUNITS :: u64 where "SESSION_FEE_PER_TURN_HUNITS = 500"

definition AGENT_SESSION_EXPIRY_EPOCHS :: u64 where "AGENT_SESSION_EXPIRY_EPOCHS = 2880"

datatype SessionStatus = SessionOpen | SessionClosed | SessionExpired

record ToolCall =
  tc_name :: string
  tc_arguments :: json
  tc_result :: "string option"

record Turn =
  tn_role :: string
  tn_content :: string
  tn_tool_calls :: "ToolCall list"
  tn_turn_number :: u32

record AgentSession =
  as_session_id :: string
  as_client :: string
  as_client_pubkey :: string
  as_server_pubkey :: string
  as_model :: string
  as_opened_epoch :: u64
  as_expires_epoch :: u64
  as_turn_count :: u32
  as_fee_escrow :: u64
  as_status :: SessionStatus
  as_system_prompt :: "string option"
  as_history :: "Turn list"
  as_summary :: "string option"

fun SessionStatus_json :: "SessionStatus \<Rightarrow> json" where
  "SessionStatus_json SessionOpen = JStr ''open''"
| "SessionStatus_json SessionClosed = JStr ''closed''"
| "SessionStatus_json SessionExpired = JStr ''expired''"

definition SessionStatus_of_json :: "json \<Rightarrow> SessionStatus option" where
  "SessionStatus_of_json j = find (\<lambda>st. SessionStatus_json st = j) [SessionOpen, SessionClosed, SessionExpired]"

definition ToolCall_json :: "ToolCall \<Rightarrow> json" where
  "ToolCall_json c = jobj [(''name'', JStr (tc_name c)), (''arguments'', tc_arguments c),
     (''result'', jopt_str (tc_result c))]"

definition ToolCall_of_json :: "json \<Rightarrow> ToolCall option" where
  "ToolCall_of_json j =
     Option.bind (field_str j ''name'') (\<lambda>name.
     Option.bind (jfield j ''arguments'') (\<lambda>arguments.
     Option.bind (field_opt as_str j ''result'') (\<lambda>result.
     Some \<lparr>tc_name = name, tc_arguments = arguments, tc_result = result\<rparr>)))"

definition Turn_json :: "Turn \<Rightarrow> json" where
  "Turn_json t = jobj [(''role'', JStr (tn_role t)), (''content'', JStr (tn_content t)),
     (''tool_calls'', vec_json ToolCall_json (tn_tool_calls t)), (''turn_number'', u32_json (tn_turn_number t))]"

definition Turn_of_json :: "json \<Rightarrow> Turn option" where
  "Turn_of_json j =
     Option.bind (field_str j ''role'') (\<lambda>role.
     Option.bind (field_str j ''content'') (\<lambda>content.
     Option.bind (field_vec ToolCall_of_json j ''tool_calls'') (\<lambda>tool_calls.
     Option.bind (Option.bind (jfield j ''turn_number'') as_u32) (\<lambda>turn_number.
     Some \<lparr>tn_role = role, tn_content = content, tn_tool_calls = tool_calls, tn_turn_number = turn_number\<rparr>))))"

definition AgentSession_json :: "AgentSession \<Rightarrow> json" where
  "AgentSession_json a = jobj [
     (''session_id'', JStr (as_session_id a)), (''client'', JStr (as_client a)),
     (''client_pubkey'', JStr (as_client_pubkey a)), (''server_pubkey'', JStr (as_server_pubkey a)),
     (''model'', JStr (as_model a)), (''opened_epoch'', JNum (as_opened_epoch a)),
     (''expires_epoch'', JNum (as_expires_epoch a)), (''turn_count'', u32_json (as_turn_count a)),
     (''fee_escrow'', JNum (as_fee_escrow a)), (''status'', SessionStatus_json (as_status a)),
     (''system_prompt'', jopt_str (as_system_prompt a)), (''history'', vec_json Turn_json (as_history a)),
     (''summary'', jopt_str (as_summary a))]"

definition AgentSession_of_json :: "json \<Rightarrow> AgentSession option" where
  "AgentSession_of_json j =
     Option.bind (field_str j ''session_id'') (\<lambda>session_id.
     Option.bind (field_str j ''client'') (\<lambda>client.
     Option.bind (field_str j ''client_pubkey'') (\<lambda>client_pubkey.
     Option.bind (field_str j ''server_pubkey'') (\<lambda>server_pubkey.
     Option.bind (field_str j ''model'') (\<lambda>model.
     Option.bind (field_u64 j ''opened_epoch'') (\<lambda>opened.
     Option.bind (field_u64 j ''expires_epoch'') (\<lambda>expires.
     Option.bind (Option.bind (jfield j ''turn_count'') as_u32) (\<lambda>turn_count.
     Option.bind (field_u64 j ''fee_escrow'') (\<lambda>fee_escrow.
     Option.bind (Option.bind (jfield j ''status'') SessionStatus_of_json) (\<lambda>status.
     Option.bind (field_opt as_str j ''system_prompt'') (\<lambda>system_prompt.
     Option.bind (field_vec Turn_of_json j ''history'') (\<lambda>history.
     Option.bind (field_opt as_str j ''summary'') (\<lambda>summary.
     Some \<lparr>as_session_id = session_id, as_client = client, as_client_pubkey = client_pubkey,
       as_server_pubkey = server_pubkey, as_model = model, as_opened_epoch = opened, as_expires_epoch = expires,
       as_turn_count = turn_count, as_fee_escrow = fee_escrow, as_status = status,
       as_system_prompt = system_prompt, as_history = history, as_summary = summary\<rparr>)))))))))))))"

interpretation tool_call_rec: record_codec ToolCall_json ToolCall_of_json
  by unfold_locales (simp add: ToolCall_of_json_def ToolCall_json_def field_str_def)

interpretation turn_rec: record_codec Turn_json Turn_of_json
  by unfold_locales
    (simp add: Turn_of_json_def Turn_json_def field_str_def field_vec_def tool_call_rec.as_vec_json as_u32_json)

lemma SessionStatus_roundtrip: "SessionStatus_of_json (SessionStatus_json st) = Some st"
  by (cases st) (simp_all add: SessionStatus_of_json_def)

interpretation sessions: escrow_table AgentSession_json AgentSession_of_json "''agent_session:''" "\<lambda>a. uint (as_fee_escrow a)"
  by unfold_locales
    (simp_all add: AgentSession_of_json_def AgentSession_json_def field_str_def field_u64_def field_vec_def
      turn_rec.as_vec_json as_u32_json SessionStatus_roundtrip)

definition session_key :: "string \<Rightarrow> string" where
  "session_key session_id = ''agent_session:'' @ session_id"

abbreviation get_session :: "env \<Rightarrow> chain \<Rightarrow> string \<Rightarrow> AgentSession option" where
  "get_session E s i \<equiv> peek E AgentSession_of_json s (session_key i)"

abbreviation save_session :: "string \<Rightarrow> AgentSession \<Rightarrow> unit chain_act" where
  "save_session i \<equiv> save_record AgentSession_json (session_key i)"

abbreviation load_session :: "env \<Rightarrow> string \<Rightarrow> AgentSession chain_act" where
  "load_session E i \<equiv> load_record E AgentSession_of_json (session_key i) ''session not found''"

section \<open>Opening and closing\<close>

definition apply_session_open ::
  "string \<Rightarrow> string \<Rightarrow> string \<Rightarrow> string \<Rightarrow> u64 \<Rightarrow> u64 \<Rightarrow> string option \<Rightarrow> string \<Rightarrow> unit chain_act" where
  "apply_session_open session_id client client_pubkey model fee_escrow epoch system_prompt server_pubkey =
     andThen (reads (\<lambda>s. state_get s (session_key session_id))) (\<lambda>found.
     seq (ensure (found = None) (Err ''session already exists''))
    (seq (debit client NATIVE_TOKEN fee_escrow)
         (save_session session_id \<lparr>as_session_id = session_id, as_client = client, as_client_pubkey = client_pubkey,
            as_server_pubkey = server_pubkey, as_model = model, as_opened_epoch = epoch,
            as_expires_epoch = epoch + AGENT_SESSION_EXPIRY_EPOCHS, as_turn_count = 0, as_fee_escrow = fee_escrow,
            as_status = SessionOpen, as_system_prompt = system_prompt, as_history = [], as_summary = None\<rparr>)))"

text \<open>The arm of \<open>apply_entry\<close> passes the key that this node stored for itself when it started.\<close>

definition open_session_arm ::
  "env \<Rightarrow> string \<Rightarrow> string \<Rightarrow> string \<Rightarrow> string \<Rightarrow> u64 \<Rightarrow> u64 \<Rightarrow> string option \<Rightarrow> unit chain_act" where
  "open_session_arm E session_id client client_pubkey model fee_escrow epoch system_prompt =
     andThen (reads (\<lambda>s. case state_text E s ''node:server_pubkey'' of Some k \<Rightarrow> k | None \<Rightarrow> []))
       (apply_session_open session_id client client_pubkey model fee_escrow epoch system_prompt)"

definition fees_used :: "AgentSession \<Rightarrow> u64" where
  "fees_used a = sat_mul (word_of_nat (unat (as_turn_count a))) SESSION_FEE_PER_TURN_HUNITS"

definition apply_session_close :: "env \<Rightarrow> string \<Rightarrow> string \<Rightarrow> unit chain_act" where
  "apply_session_close E session_id client =
     andThen (load_session E session_id) (\<lambda>a.
     seq (ensure (as_client a = client) (Err ''only the session owner can close it''))
    (seq (ensure (as_status a = SessionOpen) (Err ''session is not open''))
    (let refund = sat_sub (as_fee_escrow a) (fees_used a);
         protocol_fee = min (fees_used a) (as_fee_escrow a) in
     seq (when_do (refund > 0) (seq (credit client NATIVE_TOKEN refund) (ret ())))
    (seq (when_do (protocol_fee > 0) (seq (credit RECYCLE_FUND_ACCOUNT NATIVE_TOKEN protocol_fee) (ret ())))
         (save_session session_id (a\<lparr>as_status := SessionClosed, as_fee_escrow := 0\<rparr>))))))"

definition sweep_session :: "env \<Rightarrow> u64 \<Rightarrow> string \<times> val \<Rightarrow> unit chain_act" where
  "sweep_session E epoch kv =
    (case Option.bind (as_json E (snd kv)) AgentSession_of_json of
       None \<Rightarrow> ret ()
     | Some a \<Rightarrow>
         if as_status a \<noteq> SessionOpen then ret ()
         else if epoch \<le> as_expires_epoch a then ret ()
         else
           seq (when_do (as_fee_escrow a > 0)
                 (seq (attempt (credit (as_client a) NATIVE_TOKEN (as_fee_escrow a))) (ret ())))
               (save_record AgentSession_json (fst kv) (a\<lparr>as_status := SessionExpired, as_fee_escrow := 0\<rparr>)))"

definition sweep_sessions :: "env \<Rightarrow> u64 \<Rightarrow> unit chain_act" where
  "sweep_sessions E epoch =
     andThen (reads (\<lambda>s. state_scan_prefix s ''agent_session:'')) (each (sweep_session E epoch))"

section \<open>Turns\<close>

record Message =
  ms_role :: string
  ms_content :: string

record ChatRequest =
  cr_model :: string
  cr_messages :: "Message list"
  cr_max_tokens :: nat

definition chat_request :: "AgentSession \<Rightarrow> string \<Rightarrow> ChatRequest" where
  "chat_request a user_message = \<lparr>cr_model = as_model a, cr_messages =
     (case as_system_prompt a of Some sys \<Rightarrow> [\<lparr>ms_role = ''system'', ms_content = sys\<rparr>] | None \<Rightarrow> []) @
     (case as_summary a of
        Some summary \<Rightarrow> [\<lparr>ms_role = ''system'', ms_content = ''[Conversation summary]: '' @ summary\<rparr>] | None \<Rightarrow> []) @
     map (\<lambda>t. \<lparr>ms_role = tn_role t, ms_content = tn_content t\<rparr>) (as_history a) @
     [\<lparr>ms_role = ''user'', ms_content = user_message\<rparr>], cr_max_tokens = 1024\<rparr>"

text \<open>The first half: the session is read and checked.\<close>

definition begin_turn :: "env \<Rightarrow> string \<Rightarrow> AgentSession chain_act" where
  "begin_turn E session_id =
     andThen (load_session E session_id) (\<lambda>a.
     seq (ensure (as_status a = SessionOpen) (Err ''session is not open''))
    (seq (ensure (as_fee_escrow a \<ge> SESSION_FEE_PER_TURN_HUNITS) (Err ''insufficient fee escrow for another turn''))
         (ret a)))"

text \<open>\<open>&t.content[..t.content.len().min(200)]\<close>.\<close>

definition turn_line :: "Turn \<Rightarrow> string option" where
  "turn_line t =
    (let n = min (length (tn_content t)) 200 in
     if char_boundary (tn_content t) n then Some (tn_role t @ '': '' @ take n (tn_content t)) else None)"

fun join_lines :: "string list \<Rightarrow> string" where
  "join_lines [] = []"
| "join_lines [l] = l"
| "join_lines (l # ls) = l @ [CHR 0x0A] @ join_lines ls"

definition push_turns :: "AgentSession \<Rightarrow> string \<Rightarrow> string \<Rightarrow> AgentSession" where
  "push_turns a user_message reply =
     a\<lparr>as_history := as_history a @
         [\<lparr>tn_role = ''user'', tn_content = user_message, tn_tool_calls = [], tn_turn_number = as_turn_count a\<rparr>,
          \<lparr>tn_role = ''assistant'', tn_content = reply, tn_tool_calls = [], tn_turn_number = as_turn_count a + 1\<rparr>],
       as_turn_count := as_turn_count a + 2\<rparr>"

definition summarise :: "AgentSession \<Rightarrow> AgentSession chain_act" where
  "summarise a =
    (if length (as_history a) > MAX_HISTORY_TURNS then
       andThen (need (those (map turn_line (take (MAX_HISTORY_TURNS div 2) (as_history a))))
           (Panic ''byte index is not a char boundary'')) (\<lambda>ls.
       ret (a\<lparr>as_summary := Some (join_lines ls @ ''...''),
              as_history := drop (MAX_HISTORY_TURNS div 2) (as_history a)\<rparr>))
     else ret a)"

text \<open>The second half: what was read is extended and written back.\<close>

definition finish_turn :: "string \<Rightarrow> AgentSession \<Rightarrow> string \<Rightarrow> string \<Rightarrow> string chain_act" where
  "finish_turn session_id a user_message reply =
     andThen (summarise (push_turns a user_message reply)) (\<lambda>a'.
     seq (save_session session_id (a'\<lparr>as_fee_escrow := sat_sub (as_fee_escrow a') SESSION_FEE_PER_TURN_HUNITS\<rparr>))
         (ret reply))"

text \<open>\<open>chat\<close> is the inference engine: a reply or an error.\<close>

definition execute_turn ::
  "env \<Rightarrow> (ChatRequest \<Rightarrow> error + string) \<Rightarrow> string \<Rightarrow> string \<Rightarrow> string chain_act" where
  "execute_turn E chat session_id user_message =
     andThen (begin_turn E session_id) (\<lambda>a.
     case chat (chat_request a user_message) of
       Inl e \<Rightarrow> bail e
     | Inr reply \<Rightarrow> finish_turn session_id a user_message reply)"

datatype session_entry =
    AgentSessionOpen string string string string u64 u64 "string option"
  | AgentSessionClose string string
  | SessionTurn string string
  | SessionSweep u64

fun apply_session_entry :: "env \<Rightarrow> (ChatRequest \<Rightarrow> error + string) \<Rightarrow> session_entry \<Rightarrow> unit chain_act" where
  "apply_session_entry E chat (AgentSessionOpen session_id client client_pubkey model fee_escrow epoch system_prompt) =
     open_session_arm E session_id client client_pubkey model fee_escrow epoch system_prompt"
| "apply_session_entry E chat (AgentSessionClose session_id client) = apply_session_close E session_id client"
| "apply_session_entry E chat (SessionTurn session_id user_message) =
     seq (execute_turn E chat session_id user_message) (ret ())"
| "apply_session_entry E chat (SessionSweep epoch) = sweep_sessions E epoch"

fun run_sessions :: "env \<Rightarrow> (ChatRequest \<Rightarrow> error + string) \<Rightarrow> session_entry list \<Rightarrow> chain \<Rightarrow> chain" where
  "run_sessions E chat [] s = s"
| "run_sessions E chat (x # xs) s = run_sessions E chat xs (snd (apply_session_entry E chat x s))"

section \<open>Value\<close>

definition session_value :: "env \<Rightarrow> chain \<Rightarrow> int" where
  "session_value E s = escrow_value E AgentSession_of_json ''agent_session:'' (\<lambda>a. uint (as_fee_escrow a)) s"

definition session_step :: "env \<Rightarrow> string \<Rightarrow> AgentSession \<Rightarrow> int \<Rightarrow> chain \<Rightarrow> chain \<Rightarrow> bool" where
  "session_step E i a' d s s' \<longleftrightarrow>
     session_value E s' = session_value E s + d + uint (as_fee_escrow a') - sessions.owed E s (session_key i) \<and>
     get_session E s' i = Some a' \<and> (\<forall>k. k \<noteq> session_key i \<longrightarrow> state_get s' k = state_get s k)"

lemma session_key_simps [simp]:
  "session_key i = session_key k \<longleftrightarrow> i = k" "prefix ''agent_session:'' (session_key i)"
  by (simp_all add: session_key_def)

lemma session_step_intro:
  assumes "cf_meta s1 = cf_meta s" "hone_total s1 = hone_total s + d" "save_session i a' s1 = (x, s')"
  shows "session_step E i a' d s s'"
  using sessions.pay_and_save [OF assms] by (simp add: session_step_def session_value_def)

lemma pay_some_runs:
  assumes "hone_total s + uint n < 2 ^ 64"
  obtains s1 where "when_do (n > 0) (seq (credit a NATIVE_TOKEN n) (ret ())) s = (Inr (), s1)"
    "cf_meta s1 = cf_meta s" "hone_total s1 = hone_total s + uint n"
    "\<forall>x. uint (get_balance s1 x NATIVE_TOKEN) = uint (get_balance s x NATIVE_TOKEN) + (if x = a then uint n else 0)"
proof (cases "n > 0")
  case True
  obtain y s1 where c: "credit a NATIVE_TOKEN n s = (Inr y, s1)" using credit_succeeds [OF assms] by blast
  show ?thesis
    by (rule that [of s1]) (use True c credit_run [OF c] credit_balances [OF c] in
        \<open>simp_all add: when_do_apply seq_apply ret_apply\<close>)
next
  case False
  then have "n = 0" by (simp only: word_gt_0 not_not)
  then show ?thesis by (intro that [of s]) (simp_all add: when_do_apply)
qed

lemma escrow_fits:
  assumes "session_value E s < 2 ^ 64" "get_session E s i = Some a"
  shows "hone_total s + uint (as_fee_escrow a) < 2 ^ 64"
  using sessions.owed_le [of "session_key i" E s] assms by (simp add: session_value_def escrow_value_def)

text \<open>The escrow is split between refund and protocol fee.\<close>

lemma close_split: "uint (sat_sub n u) + uint (min u n) = uint (n :: u64)"
  by (auto simp: sat_sub_def min_def)

lemma close_accepted:
  assumes fits: "session_value E s < 2 ^ 64" and a: "get_session E s i = Some a" "as_client a = c" "as_status a = SessionOpen"
  obtains s' where "apply_session_close E i c s = (Inr (), s')"
    "session_step E i (a\<lparr>as_status := SessionClosed, as_fee_escrow := 0\<rparr>) (uint (as_fee_escrow a)) s s'"
    "\<forall>x. uint (get_balance s' x NATIVE_TOKEN) = uint (get_balance s x NATIVE_TOKEN) +
      (if x = c then uint (sat_sub (as_fee_escrow a) (fees_used a)) else 0) +
      (if x = RECYCLE_FUND_ACCOUNT then uint (min (fees_used a) (as_fee_escrow a)) else 0)"
proof -
  let ?rf = "sat_sub (as_fee_escrow a) (fees_used a)" and ?pf = "min (fees_used a) (as_fee_escrow a)"
  note split = close_split [of "as_fee_escrow a" "fees_used a"]
  have room: "hone_total s + uint ?rf + uint ?pf < 2 ^ 64" using escrow_fits [OF fits a(1)] split by linarith
  then have "hone_total s + uint ?rf < 2 ^ 64" using uint_ge_0 [of ?pf] by linarith
  from pay_some_runs [OF this, of c] obtain s1 where
    s1: "when_do (?rf > 0) (seq (credit c NATIVE_TOKEN ?rf) (ret ())) s = (Inr (), s1)" "cf_meta s1 = cf_meta s"
    "hone_total s1 = hone_total s + uint ?rf"
    "\<forall>x. uint (get_balance s1 x NATIVE_TOKEN) = uint (get_balance s x NATIVE_TOKEN) + (if x = c then uint ?rf else 0)" .
  have "hone_total s1 + uint ?pf < 2 ^ 64" using room s1(3) by simp
  from pay_some_runs [OF this, of RECYCLE_FUND_ACCOUNT] obtain s2 where
    s2: "when_do (?pf > 0) (seq (credit RECYCLE_FUND_ACCOUNT NATIVE_TOKEN ?pf) (ret ())) s1 = (Inr (), s2)"
    "cf_meta s2 = cf_meta s1" "hone_total s2 = hone_total s1 + uint ?pf"
    "\<forall>x. uint (get_balance s2 x NATIVE_TOKEN) = uint (get_balance s1 x NATIVE_TOKEN) +
      (if x = RECYCLE_FUND_ACCOUNT then uint ?pf else 0)" .
  obtain s' where sv: "save_session i (a\<lparr>as_status := SessionClosed, as_fee_escrow := 0\<rparr>) s2 = (Inr (), s')"
    by (simp add: save_record_apply)
  have "apply_session_close E i c s = (Inr (), s')"
    using a s1(1) s2(1) sv
    by (simp add: apply_session_close_def andThen_apply load_record_apply seq_apply ensure_apply Let_def)
  moreover have "session_step E i (a\<lparr>as_status := SessionClosed, as_fee_escrow := 0\<rparr>) (uint (as_fee_escrow a)) s s'"
    by (rule session_step_intro [OF _ _ sv]) (use s1 s2 split in simp_all)
  moreover have "get_balance s' x NATIVE_TOKEN = get_balance s2 x NATIVE_TOKEN" for x
    by (rule balances_kept [OF keeps_save_record(1) sv])
  ultimately show ?thesis using that s1(4) s2(4) by simp
qed

lemma close_value:
  assumes fits: "session_value E s < 2 ^ 64" and run: "apply_session_close E i c s = (x, s')"
  shows "session_value E s' = session_value E s"
proof (cases "\<exists>a. get_session E s i = Some a \<and> as_client a = c \<and> as_status a = SessionOpen")
  case False
  with run have "s' = s"
    by (auto simp: apply_session_close_def andThen_apply load_record_apply seq_apply ensure_apply split: option.splits if_splits)
  then show ?thesis by simp
next
  case True
  then obtain a where a: "get_session E s i = Some a" "as_client a = c" "as_status a = SessionOpen" by blast
  obtain t where "apply_session_close E i c s = (Inr (), t)"
    "session_step E i (a\<lparr>as_status := SessionClosed, as_fee_escrow := 0\<rparr>) (uint (as_fee_escrow a)) s t"
    using close_accepted [OF fits a] by blast
  with run a show ?thesis by (simp add: session_step_def)
qed

lemma session_open_value:
  assumes run: "apply_session_open i c pk m f e sys spk s = (x, s')"
  shows "session_value E s' = session_value E s"
proof (cases "state_get s (session_key i) = None \<and> f \<le> get_balance s c NATIVE_TOKEN")
  case False
  with run have "s' = s"
    by (auto simp: apply_session_open_def andThen_apply reads_apply seq_apply ensure_apply debit_cases split: if_splits)
  then show ?thesis by simp
next
  case True
  then obtain y s1 where d: "debit c NATIVE_TOKEN f s = (Inr y, s1)" by (simp add: debit_cases)
  then obtain a where "save_session i a s1 = (x, s')" "as_fee_escrow a = f"
    using True run by (auto simp: apply_session_open_def andThen_apply reads_apply seq_apply ensure_apply)
  moreover from this(1) have "session_step E i a (- uint f) s s'"
    by (rule session_step_intro [rotated 2]) (use debit_run [OF d] in simp_all)
  moreover have "sessions.owed E s (session_key i) = 0" using True by (simp add: peek_state_get)
  ultimately show ?thesis by (simp add: session_step_def)
qed

lemma begin_turn_Inr:
  "begin_turn E i s = (Inr a, s') \<longleftrightarrow> get_session E s i = Some a \<and> as_status a = SessionOpen \<and>
    as_fee_escrow a \<ge> SESSION_FEE_PER_TURN_HUNITS \<and> s' = s"
  by (auto simp: begin_turn_def andThen_Inr load_record_Inr seq_Inr ensure_apply ret_apply split: if_splits)

lemma begin_turn_state: "snd (begin_turn E i s) = s"
  by (simp add: begin_turn_def andThen_apply load_record_apply seq_apply ensure_apply ret_apply split: option.split)

lemma finish_turn_Inr:
  assumes "finish_turn i a m reply s = (Inr x, s')"
  obtains a' where "session_step E i a' 0 s s'" "as_fee_escrow a' = sat_sub (as_fee_escrow a) SESSION_FEE_PER_TURN_HUNITS"
    "as_turn_count a' = as_turn_count a + 2" "as_status a' = as_status a" "as_client a' = as_client a"
proof -
  obtain b where b: "summarise (push_turns a m reply) s = (Inr b, s)"
    and sv: "save_session i (b\<lparr>as_fee_escrow := sat_sub (as_fee_escrow b) SESSION_FEE_PER_TURN_HUNITS\<rparr>) s = (Inr (), s')"
    using assms
    by (auto simp: finish_turn_def andThen_Inr seq_Inr summarise_def need_apply ret_apply split: if_splits option.splits)
  have f: "as_fee_escrow b = as_fee_escrow a" "as_turn_count b = as_turn_count a + 2" "as_status b = as_status a"
    "as_client b = as_client a"
    using b by (auto simp: summarise_def push_turns_def andThen_Inr need_apply ret_apply split: if_splits option.splits)
  have "session_step E i (b\<lparr>as_fee_escrow := sat_sub (as_fee_escrow b) SESSION_FEE_PER_TURN_HUNITS\<rparr>) 0 s s'"
    by (rule session_step_intro [OF refl _ sv]) simp
  with f show ?thesis using that by simp
qed

lemma finish_turn_Inl: "finish_turn i a m reply s = (Inl err, s') \<Longrightarrow> s' = s"
  by (auto simp: finish_turn_def andThen_apply seq_apply summarise_def need_apply ret_apply save_record_apply
      split: if_splits option.splits)

lemma fee_taken: "n \<ge> SESSION_FEE_PER_TURN_HUNITS \<Longrightarrow> uint (sat_sub n SESSION_FEE_PER_TURN_HUNITS) = uint n - 500"
  by (simp add: sat_sub_def SESSION_FEE_PER_TURN_HUNITS_def)

lemma turn_Inr:
  assumes "execute_turn E chat i m s = (Inr x, s')"
  obtains a a' where "get_session E s i = Some a" "as_status a = SessionOpen" "as_fee_escrow a \<ge> SESSION_FEE_PER_TURN_HUNITS"
    "session_step E i a' 0 s s'" "uint (as_fee_escrow a') = uint (as_fee_escrow a) - 500"
    "as_turn_count a' = as_turn_count a + 2" "as_status a' = SessionOpen" "as_client a' = as_client a"
proof -
  obtain a where b: "begin_turn E i s = (Inr a, s)"
    and f: "(case chat (chat_request a m) of Inl e \<Rightarrow> bail e | Inr reply \<Rightarrow> finish_turn i a m reply) s = (Inr x, s')"
    using assms by (auto simp: execute_turn_def andThen_Inr begin_turn_Inr)
  obtain reply where a: "begin_turn E i s = (Inr a, s)" "finish_turn i a m reply s = (Inr x, s')"
    using b f by (cases "chat (chat_request a m)") (auto simp: bail_apply)
  obtain a' where "session_step E i a' 0 s s'" "as_fee_escrow a' = sat_sub (as_fee_escrow a) SESSION_FEE_PER_TURN_HUNITS"
    "as_turn_count a' = as_turn_count a + 2" "as_status a' = as_status a" "as_client a' = as_client a"
    by (rule finish_turn_Inr [OF a(2), of E])
  with a(1) show ?thesis by (intro that [of a a']) (auto simp: begin_turn_Inr fee_taken)
qed

lemma turn_Inl:
  assumes "execute_turn E chat i m s = (Inl err, s')"
  shows "s' = s"
  using assms begin_turn_state [of E i s]
  by (auto simp: execute_turn_def andThen_apply bail_apply split: prod.splits sum.splits dest: finish_turn_Inl)

lemma sweep_session_value:
  assumes fits: "session_value E s < 2 ^ 64" and v: "state_get s (session_key i) = Some v"
    and run: "sweep_session E e (session_key i, v) s = (x, s')"
  shows "session_value E s' = session_value E s \<and> (\<forall>k. k \<noteq> session_key i \<longrightarrow> state_get s' k = state_get s k)"
proof (cases "\<exists>a. get_session E s i = Some a \<and> as_status a = SessionOpen \<and> \<not> e \<le> as_expires_epoch a")
  case False
  with run v have "s' = s" by (auto simp: sweep_session_def peek_state_get ret_apply split: option.splits if_splits)
  then show ?thesis by simp
next
  case True
  then obtain a where a: "get_session E s i = Some a" "as_status a = SessionOpen" "\<not> e \<le> as_expires_epoch a" by blast
  let ?a = "a\<lparr>as_status := SessionExpired, as_fee_escrow := 0\<rparr>"
  have dec: "Option.bind (as_json E v) AgentSession_of_json = Some a" using a(1) v by (simp add: peek_state_get)
  obtain y s1 where c: "credit (as_client a) NATIVE_TOKEN (as_fee_escrow a) s = (Inr y, s1)"
    using credit_succeeds [OF escrow_fits [OF fits a(1)]] by blast
  define s2 where "s2 = (if as_fee_escrow a > 0 then s1 else s)"
  have sv: "save_session i ?a s2 = (x, s')"
    using run a(2,3) c
    by (simp add: sweep_session_def dec seq_apply when_do_apply attempt_apply ret_apply s2_def split: if_splits)
  have "as_fee_escrow a = 0" if "\<not> as_fee_escrow a > 0" using that by (simp only: word_gt_0 not_not)
  then have "session_step E i ?a (uint (as_fee_escrow a)) s s'"
    using credit_run [OF c] by (intro session_step_intro [OF _ _ sv]) (auto simp: s2_def)
  then show ?thesis using a(1) by (simp add: session_step_def)
qed

lemma sweep_sessions_value:
  assumes wf: "wf_chain s" and fits: "session_value E s < 2 ^ 64" and run: "sweep_sessions E e s = (x, s')"
  shows "session_value E s' = session_value E s"
proof (rule scan_each_invariant [OF wf _ run [unfolded sweep_sessions_def], where P = "\<lambda>u. session_value E u = session_value E s"])
  fix k v u r u'
  assume P: "session_value E u = session_value E s" and k: "prefix ''agent_session:'' k"
    and v: "state_get u k = Some v" and st: "sweep_session E e (k, v) u = (r, u')"
  obtain i where i: "k = session_key i" using k by (auto simp: session_key_def prefix_def)
  from sweep_session_value [OF _ v [unfolded i] st [unfolded i]] P fits i
  show "session_value E u' = session_value E s \<and>
    (\<forall>j. prefix ''agent_session:'' j \<longrightarrow> j \<noteq> k \<longrightarrow> state_get u' j = state_get u j)" by simp
qed simp

lemma wf_session_entry: "preserves wf_chain (apply_session_entry E chat x)"
proof -
  have t: "preserves wf_chain (execute_turn E chat i m)" for i m
    unfolding execute_turn_def begin_turn_def
    by (intro preserves_intros) (auto simp: finish_turn_def summarise_def intro!: preserves_intros split: sum.split)
  show ?thesis
    by (cases x)
      (auto simp: open_session_arm_def apply_session_open_def apply_session_close_def sweep_sessions_def sweep_session_def
        intro!: preserves_intros t)
qed

fun turns_done :: "env \<Rightarrow> (ChatRequest \<Rightarrow> error + string) \<Rightarrow> session_entry list \<Rightarrow> chain \<Rightarrow> nat" where
  "turns_done E chat [] s = 0"
| "turns_done E chat (x # xs) s =
    (case x of SessionTurn i m \<Rightarrow> (if fst (apply_session_entry E chat x s) = Inr () then 1 else 0) | _ \<Rightarrow> 0) +
    turns_done E chat xs (snd (apply_session_entry E chat x s))"

lemma session_entry_value:
  assumes wf: "wf_chain s" and fits: "session_value E s < 2 ^ 64" and run: "apply_session_entry E chat x s = (y, s')"
  shows "session_value E s' = session_value E s -
    500 * int (case x of SessionTurn i m \<Rightarrow> (if y = Inr () then 1 else 0) | _ \<Rightarrow> 0)"
proof (cases x)
  case (AgentSessionOpen i c pk m f e sys)
  with run obtain spk where "apply_session_open i c pk m f e sys spk s = (y, s')"
    by (auto simp: open_session_arm_def andThen_apply reads_apply)
  from session_open_value [OF this] AgentSessionOpen show ?thesis by simp
next
  case (AgentSessionClose i c)
  with run close_value [OF fits] show ?thesis by simp
next
  case (SessionTurn i m)
  show ?thesis
  proof (cases "execute_turn E chat i m s")
    case (Pair z t)
    show ?thesis
    proof (cases z)
      case (Inl err)
      with Pair turn_Inl [of E chat i m s err t] run SessionTurn show ?thesis by (auto simp: seq_apply)
    next
      case (Inr r)
      with Pair run SessionTurn have "y = Inr ()" "s' = t" by (simp_all add: seq_apply ret_apply)
      moreover obtain a a' where "get_session E s i = Some a" "session_step E i a' 0 s t"
        "uint (as_fee_escrow a') = uint (as_fee_escrow a) - 500"
        by (rule turn_Inr [OF Pair [unfolded Inr]])
      ultimately show ?thesis using SessionTurn by (simp add: session_step_def)
    qed
  qed
next
  case (SessionSweep e)
  with run sweep_sessions_value [OF wf fits] show ?thesis by simp
qed

text \<open>
  (C15) Value in sessions. Over any sequence of openings, turns, closings and sweeps the native supply with the
  escrow of all sessions shrinks by 500 units for each completed turn, and changes in no other way:
  openings, closings and expiry conserve it, and the fee of a turn is taken out of the escrow without
  being paid to anyone.
\<close>

theorem session_value_exact:
  assumes "wf_chain s" and "session_value E s < 2 ^ 64"
  shows "session_value E (run_sessions E chat xs s) = session_value E s - 500 * int (turns_done E chat xs s)"
  using assms
proof (induction xs arbitrary: s)
  case (Cons x xs)
  obtain y s1 where run: "apply_session_entry E chat x s = (y, s1)" by (cases "apply_session_entry E chat x s")
  note v = session_entry_value [OF Cons.prems run]
  have "wf_chain s1" using preservesD [OF wf_session_entry Cons.prems(1) run] .
  moreover have "session_value E s1 < 2 ^ 64" using v Cons.prems(2) by linarith
  ultimately show ?case using Cons.IH [of s1] v run by simp
qed simp

definition demo_session :: AgentSession where
  "demo_session = \<lparr>as_session_id = ''s1'', as_client = ''ann'', as_client_pubkey = [], as_server_pubkey = [],
     as_model = ''m'', as_opened_epoch = 1, as_expires_epoch = 2881, as_turn_count = 0, as_fee_escrow = 5000,
     as_status = SessionOpen, as_system_prompt = None, as_history = [], as_summary = None\<rparr>"

definition demo_session_chain :: chain where
  "demo_session_chain = empty_chain\<lparr>cf_meta := [(session_key ''s1'', Json (AgentSession_json demo_session))]\<rparr>"

lemma demo_session_get: "get_session E demo_session_chain ''s1'' = Some demo_session"
  using sessions.decode_encode by (simp add: peek_state_get state_get_def demo_session_chain_def kv_get_def)

lemma demo_session_value: "session_value E demo_session_chain = 5000" "wf_chain demo_session_chain"
  using sessions.decode_encode
  by (simp_all add: session_value_def escrow_value_def token_supply_def record_total_def demo_session_chain_def
      empty_chain_def kv_sum_def record_share_def demo_session_def wf_chain_def kv_sorted_def)

lemma demo_session_balance: "get_balance demo_session_chain x NATIVE_TOKEN = 0"
  by (simp add: get_balance_def demo_session_chain_def empty_chain_def)

text \<open>A turn in a session whose history is short.\<close>

lemma turn_runs:
  assumes "get_session E s i = Some a" "as_status a = SessionOpen" "as_fee_escrow a \<ge> SESSION_FEE_PER_TURN_HUNITS"
    "length (as_history a) < 49" "chat (chat_request a m) = Inr reply"
  obtains s' where "execute_turn E chat i m s = (Inr reply, s')"
proof -
  have b: "begin_turn E i s = (Inr a, s)" using assms(1-3) by (simp add: begin_turn_Inr)
  have short: "\<not> MAX_HISTORY_TURNS < length (as_history (push_turns a m reply))"
    using assms(4) by (simp add: push_turns_def MAX_HISTORY_TURNS_def)
  show ?thesis
    by (rule that) (simp add: execute_turn_def andThen_apply b assms(5) finish_turn_def summarise_def short ret_apply
        seq_apply save_record_apply)
qed

lemma demo_turn:
  obtains s' where "execute_turn demo_env (\<lambda>_. Inr ''ok'') ''s1'' ''hi'' demo_session_chain = (Inr ''ok'', s')"
  by (rule turn_runs [OF demo_session_get, of "\<lambda>_. Inr ''ok''" "''hi''" "''ok''" demo_env])
    (simp_all add: demo_session_def SESSION_FEE_PER_TURN_HUNITS_def)

theorem session_value_exact_witness:
  "session_value demo_env (run_sessions demo_env (\<lambda>_. Inr ''ok'') [SessionTurn ''s1'' ''hi''] demo_session_chain) = 4500"
proof -
  obtain s' where "execute_turn demo_env (\<lambda>_. Inr ''ok'') ''s1'' ''hi'' demo_session_chain = (Inr ''ok'', s')"
    by (rule demo_turn)
  then have "turns_done demo_env (\<lambda>_. Inr ''ok'') [SessionTurn ''s1'' ''hi''] demo_session_chain = 1"
    by (simp add: seq_apply ret_apply)
  moreover have "session_value demo_env demo_session_chain < 2 ^ 64" by (simp add: demo_session_value)
  ultimately show ?thesis
    using session_value_exact [OF demo_session_value(2), of demo_env "\<lambda>_. Inr ''ok''" "[SessionTurn ''s1'' ''hi'']"]
    by (simp add: demo_session_value del: run_sessions.simps turns_done.simps)
qed

section \<open>What a client pays\<close>

lemma turns_run:
  assumes "each (\<lambda>m. seq (execute_turn E chat i m) (ret ())) ms s = (Inr (), s1)"
    and "get_session E s i = Some a" "as_status a = SessionOpen" "session_value E s < 2 ^ 64"
  shows "\<exists>a1. get_session E s1 i = Some a1 \<and> as_status a1 = SessionOpen \<and> as_client a1 = as_client a \<and>
    uint (as_fee_escrow a1) = uint (as_fee_escrow a) - 500 * int (length ms) \<and>
    as_turn_count a1 = as_turn_count a + 2 * word_of_nat (length ms) \<and> session_value E s1 < 2 ^ 64 \<and>
    cf_balances s1 = cf_balances s"
  using assms
proof (induction ms arbitrary: s a)
  case Nil
  then show ?case by (auto simp: ret_apply)
next
  case (Cons m ms)
  obtain x t where t: "execute_turn E chat i m s = (Inr x, t)"
    and rest: "each (\<lambda>m. seq (execute_turn E chat i m) (ret ())) ms t = (Inr (), s1)"
    using Cons.prems(1) unfolding each.simps seq_Inr by (auto simp: ret_apply)
  obtain a' where a': "session_step E i a' 0 s t" "uint (as_fee_escrow a') = uint (as_fee_escrow a) - 500"
    "as_turn_count a' = as_turn_count a + 2" "as_status a' = SessionOpen" "as_client a' = as_client a"
    using turn_Inr [OF t] Cons.prems(2) by (metis option.inject)
  have "keeps cf_balances (execute_turn E chat i m)"
    unfolding execute_turn_def begin_turn_def finish_turn_def summarise_def
    by (intro keeps_intros) (auto intro!: keeps_intros split: sum.split)
  from keepsD [OF this t] have bal: "cf_balances t = cf_balances s" .
  have "get_session E t i = Some a'" "session_value E t < 2 ^ 64"
    using a'(1,2) Cons.prems(2,4) by (simp_all add: session_step_def)
  from Cons.IH [OF rest this(1) a'(4) this(2)] a' bal show ?case by (auto simp: algebra_simps)
qed

text \<open>
  The fee of a turn is 500 units by its constant, and a client pays 1500: 500 leave the escrow with the
  turn, and closing charges the turn counter, which counts two for a turn, at 500 each. After \<open>k\<close> turns in
  a session opened with an escrow of at least \<open>1500 k\<close> a close returns the escrow less \<open>1500 k\<close>, and the
  recycle fund receives \<open>1000 k\<close>.
\<close>

theorem turns_charged_threefold:
  assumes run: "each (\<lambda>m. seq (execute_turn E chat i m) (ret ())) ms s = (Inr (), s1)"
    and a: "get_session E s i = Some a" "as_status a = SessionOpen" "as_turn_count a = 0" "as_client a = c"
    and c: "c \<noteq> RECYCLE_FUND_ACCOUNT" and few: "length ms < 2 ^ 31" "1500 * int (length ms) \<le> uint (as_fee_escrow a)"
    and fits: "session_value E s < 2 ^ 64"
  shows "\<exists>s2. apply_session_close E i c s1 = (Inr (), s2) \<and>
    uint (get_balance s2 c NATIVE_TOKEN) =
      uint (get_balance s c NATIVE_TOKEN) + uint (as_fee_escrow a) - 1500 * int (length ms) \<and>
    uint (get_balance s2 RECYCLE_FUND_ACCOUNT NATIVE_TOKEN) =
      uint (get_balance s RECYCLE_FUND_ACCOUNT NATIVE_TOKEN) + 1000 * int (length ms)"
proof -
  let ?k = "length ms"
  obtain a1 where a1: "get_session E s1 i = Some a1" "as_status a1 = SessionOpen" "as_client a1 = c"
    "uint (as_fee_escrow a1) = uint (as_fee_escrow a) - 500 * int ?k" "as_turn_count a1 = 2 * word_of_nat ?k"
    "session_value E s1 < 2 ^ 64" "cf_balances s1 = cf_balances s"
    using turns_run [OF run a(1,2) fits] a(3,4) by auto
  have "as_turn_count a1 = word_of_nat (2 * ?k)" using a1(5) by simp
  then have cnt: "unat (as_turn_count a1) = 2 * ?k"
    using few(1) by (simp add: unat_of_nat take_bit_nat_eq_self del: of_nat_mult)
  have "unat (fees_used a1) = 1000 * ?k"
    using few(1) by (simp add: fees_used_def cnt unat_sat_mul SESSION_FEE_PER_TURN_HUNITS_def unat_u64_of_nat
        del: of_nat_mult)
  then have used: "uint (fees_used a1) = 1000 * int ?k" by (simp only: uint_nat)
  have le: "fees_used a1 \<le> as_fee_escrow a1"
    using few(2) a1(4) used by (simp add: word_le_def)
  then have split: "uint (sat_sub (as_fee_escrow a1) (fees_used a1)) = uint (as_fee_escrow a) - 1500 * int ?k"
    "uint (min (fees_used a1) (as_fee_escrow a1)) = 1000 * int ?k"
    using close_split [of "as_fee_escrow a1" "fees_used a1"] a1(4) used by (simp_all add: min_def)
  obtain s2 where s2: "apply_session_close E i c s1 = (Inr (), s2)"
    "\<forall>x. uint (get_balance s2 x NATIVE_TOKEN) = uint (get_balance s1 x NATIVE_TOKEN) +
      (if x = c then uint (sat_sub (as_fee_escrow a1) (fees_used a1)) else 0) +
      (if x = RECYCLE_FUND_ACCOUNT then uint (min (fees_used a1) (as_fee_escrow a1)) else 0)"
    by (rule close_accepted [OF a1(6,1,3,2)]) blast
  have "get_balance s1 x NATIVE_TOKEN = get_balance s x NATIVE_TOKEN" for x
    using a1(7) by (simp add: get_balance_def)
  then show ?thesis using s2 split c by auto
qed

theorem turns_charged_threefold_witness:
  "\<exists>s1 s2. each (\<lambda>m. seq (execute_turn demo_env (\<lambda>_. Inr ''ok'') ''s1'' m) (ret ())) [''hi''] demo_session_chain = (Inr (), s1) \<and>
    apply_session_close demo_env ''s1'' ''ann'' s1 = (Inr (), s2) \<and>
    uint (get_balance s2 ''ann'' NATIVE_TOKEN) = 3500 \<and> uint (get_balance s2 RECYCLE_FUND_ACCOUNT NATIVE_TOKEN) = 1000"
proof -
  obtain s1 where "execute_turn demo_env (\<lambda>_. Inr ''ok'') ''s1'' ''hi'' demo_session_chain = (Inr ''ok'', s1)"
    by (rule demo_turn)
  then have run: "each (\<lambda>m. seq (execute_turn demo_env (\<lambda>_. Inr ''ok'') ''s1'' m) (ret ())) [''hi''] demo_session_chain = (Inr (), s1)"
    by (simp add: seq_apply ret_apply)
  from turns_charged_threefold [OF run demo_session_get, of "''ann''"] run show ?thesis
    by (simp add: demo_session_def demo_session_balance demo_session_value RECYCLE_FUND_ACCOUNT_def)
qed

text \<open>
  (C40) A close between the halves of a turn. The client's close pays the escrow out and is accepted; the turn
  then writes the session back as it had read it, open and with its escrow less one fee. Value has been
  created, and the client can close a second time.
\<close>

theorem turn_undoes_close:
  assumes b: "begin_turn E i s = (Inr a, s)" and c: "as_client a = c"
    and close: "apply_session_close E i c s = (Inr (), s1)" and fin: "finish_turn i a m reply s1 = (Inr x, s2)"
    and fits: "session_value E s + uint (as_fee_escrow a) < 2 ^ 64"
  shows "session_value E s2 = session_value E s + uint (as_fee_escrow a) - 500 \<and>
    (\<exists>a2 s3. get_session E s2 i = Some a2 \<and> as_status a2 = SessionOpen \<and>
      uint (as_fee_escrow a2) = uint (as_fee_escrow a) - 500 \<and> apply_session_close E i c s2 = (Inr (), s3))"
proof -
  have a: "get_session E s i = Some a" "as_status a = SessionOpen" "as_fee_escrow a \<ge> SESSION_FEE_PER_TURN_HUNITS"
    using b by (simp_all add: begin_turn_Inr)
  have f: "session_value E s < 2 ^ 64" using fits uint_ge_0 [of "as_fee_escrow a"] by linarith
  have "session_step E i (a\<lparr>as_status := SessionClosed, as_fee_escrow := 0\<rparr>) (uint (as_fee_escrow a)) s s1"
    using close_accepted [OF f a(1) c a(2)] close by (metis prod.inject)
  then have s1: "session_value E s1 = session_value E s" "sessions.owed E s1 (session_key i) = 0"
    using a(1) by (simp_all add: session_step_def)
  obtain a2 where a2: "session_step E i a2 0 s1 s2"
    "as_fee_escrow a2 = sat_sub (as_fee_escrow a) SESSION_FEE_PER_TURN_HUNITS" "as_status a2 = as_status a"
    "as_client a2 = as_client a"
    by (rule finish_turn_Inr [OF fin])
  have fee: "uint (as_fee_escrow a2) = uint (as_fee_escrow a) - 500" using a2(2) fee_taken [OF a(3)] by simp
  have v: "session_value E s2 = session_value E s + uint (as_fee_escrow a) - 500"
    using a2(1) s1 fee by (simp add: session_step_def)
  then have "session_value E s2 < 2 ^ 64" using fits by linarith
  moreover have "get_session E s2 i = Some a2" using a2(1) by (simp add: session_step_def)
  moreover have "as_status a2 = SessionOpen" "as_client a2 = c" using a2(3,4) a(2) c by simp_all
  ultimately show ?thesis using close_accepted [of E s2 i a2 c] v fee by blast
qed

theorem turn_undoes_close_witness:
  "\<exists>a s1 s2 x. begin_turn demo_env ''s1'' demo_session_chain = (Inr a, demo_session_chain) \<and>
    apply_session_close demo_env ''s1'' ''ann'' demo_session_chain = (Inr (), s1) \<and>
    finish_turn ''s1'' a ''hi'' ''ok'' s1 = (Inr x, s2) \<and> session_value demo_env s2 = 9500"
proof -
  let ?a = demo_session and ?s = demo_session_chain
  have b: "begin_turn demo_env ''s1'' ?s = (Inr ?a, ?s)" and c: "as_client ?a = ''ann''" "as_status ?a = SessionOpen"
    by (simp_all add: begin_turn_Inr demo_session_get) (simp_all add: demo_session_def SESSION_FEE_PER_TURN_HUNITS_def)
  have "session_value demo_env ?s < 2 ^ 64" by (simp add: demo_session_value)
  from close_accepted [OF this demo_session_get c] obtain s1 where
    s1: "apply_session_close demo_env ''s1'' ''ann'' ?s = (Inr (), s1)" by blast
  obtain s2 where s2: "finish_turn ''s1'' ?a ''hi'' ''ok'' s1 = (Inr ''ok'', s2)"
    by (simp add: finish_turn_def summarise_def push_turns_def MAX_HISTORY_TURNS_def demo_session_def andThen_apply ret_apply
        seq_apply save_record_apply)
  have "uint (as_fee_escrow ?a) = 5000" by (simp add: demo_session_def)
  with turn_undoes_close [OF b c(1) s1 s2] have "session_value demo_env s2 = 9500" by (simp add: demo_session_value)
  with b s1 s2 show ?thesis by blast
qed

end
