(* ===== verification/AgentRegistry.thy ===== *)
theory AgentRegistry
  imports Records
begin

text \<open>
  The agent registry (\<open>agent_registry.rs\<close>): registration with tools, model and least fee, withdrawal of
  a registration, the counters of completed and verified tasks, and the listing that requesters query.

  The records in the store implement a directory that is specified by the history of operations alone, and the
  listing is the set of registrations in force that name the tool.
\<close>

section \<open>State\<close>

record AgentRegistration =
  ar_account :: string
  ar_name :: string
  ar_description :: string
  ar_tools :: "string list"
  ar_model :: string
  ar_min_fee :: u64
  ar_registered_epoch :: u64
  ar_updated_epoch :: u64
  ar_tasks_completed :: u64
  ar_tasks_verified :: u64
  ar_active :: bool

definition AgentRegistration_json :: "AgentRegistration \<Rightarrow> json" where
  "AgentRegistration_json r = jobj [
     (''account'', JStr (ar_account r)), (''name'', JStr (ar_name r)), (''description'', JStr (ar_description r)),
     (''tools'', jstrs (ar_tools r)), (''model'', JStr (ar_model r)), (''min_fee'', JNum (ar_min_fee r)),
     (''registered_epoch'', JNum (ar_registered_epoch r)), (''updated_epoch'', JNum (ar_updated_epoch r)),
     (''tasks_completed'', JNum (ar_tasks_completed r)), (''tasks_verified'', JNum (ar_tasks_verified r)),
     (''active'', JBool (ar_active r))]"

definition AgentRegistration_of_json :: "json \<Rightarrow> AgentRegistration option" where
  "AgentRegistration_of_json j =
     Option.bind (field_str j ''account'') (\<lambda>account.
     Option.bind (field_str j ''name'') (\<lambda>name.
     Option.bind (field_str j ''description'') (\<lambda>description.
     Option.bind (Option.bind (jfield j ''tools'') as_strs) (\<lambda>tools.
     Option.bind (field_str j ''model'') (\<lambda>model.
     Option.bind (field_u64 j ''min_fee'') (\<lambda>min_fee.
     Option.bind (field_u64 j ''registered_epoch'') (\<lambda>registered_epoch.
     Option.bind (field_u64 j ''updated_epoch'') (\<lambda>updated_epoch.
     Option.bind (field_u64 j ''tasks_completed'') (\<lambda>tasks_completed.
     Option.bind (field_u64 j ''tasks_verified'') (\<lambda>tasks_verified.
     Option.bind (field_bool j ''active'') (\<lambda>active.
     Some \<lparr>ar_account = account, ar_name = name, ar_description = description, ar_tools = tools, ar_model = model,
       ar_min_fee = min_fee, ar_registered_epoch = registered_epoch, ar_updated_epoch = updated_epoch,
       ar_tasks_completed = tasks_completed, ar_tasks_verified = tasks_verified, ar_active = active\<rparr>)))))))))))"

interpretation registrations: record_codec AgentRegistration_json AgentRegistration_of_json
  by unfold_locales (simp add: AgentRegistration_of_json_def AgentRegistration_json_def field_defs)

definition registry_key :: "string \<Rightarrow> string" where
  "registry_key account = ''agent_registry:'' @ account"

abbreviation get_registration :: "env \<Rightarrow> chain \<Rightarrow> string \<Rightarrow> AgentRegistration option" where
  "get_registration E s a \<equiv> peek E AgentRegistration_of_json s (registry_key a)"

abbreviation save_registration :: "string \<Rightarrow> AgentRegistration \<Rightarrow> unit chain_act" where
  "save_registration a \<equiv> save_record AgentRegistration_json (registry_key a)"

section \<open>Operations\<close>

definition registration ::
  "AgentRegistration option \<Rightarrow> string \<Rightarrow> string \<Rightarrow> string \<Rightarrow> string list \<Rightarrow> string \<Rightarrow> u64 \<Rightarrow> u64 \<Rightarrow> AgentRegistration" where
  "registration existing account name description tools model min_fee epoch =
     \<lparr>ar_account = account, ar_name = name, ar_description = description, ar_tools = tools, ar_model = model,
      ar_min_fee = min_fee,
      ar_registered_epoch = (case existing of Some r \<Rightarrow> ar_registered_epoch r | None \<Rightarrow> epoch),
      ar_updated_epoch = epoch,
      ar_tasks_completed = (case existing of Some r \<Rightarrow> ar_tasks_completed r | None \<Rightarrow> 0),
      ar_tasks_verified = (case existing of Some r \<Rightarrow> ar_tasks_verified r | None \<Rightarrow> 0),
      ar_active = True\<rparr>"

definition apply_register ::
  "env \<Rightarrow> string \<Rightarrow> string \<Rightarrow> string \<Rightarrow> string list \<Rightarrow> string \<Rightarrow> u64 \<Rightarrow> u64 \<Rightarrow> unit chain_act" where
  "apply_register E account name description tools model min_fee epoch =
     andThen (reads (\<lambda>s. get_registration E s account)) (\<lambda>existing.
     save_registration account (registration existing account name description tools model min_fee epoch))"

definition apply_deregister :: "env \<Rightarrow> string \<Rightarrow> unit chain_act" where
  "apply_deregister E account =
     andThen (load_record E AgentRegistration_of_json (registry_key account) ''agent not registered'') (\<lambda>reg.
     seq (ensure (ar_active reg) (Err ''agent already deregistered''))
         (save_registration account (reg\<lparr>ar_active := False\<rparr>)))"

definition record_task_completed :: "env \<Rightarrow> string \<Rightarrow> unit chain_act" where
  "record_task_completed E account =
     andThen (reads (\<lambda>s. get_registration E s account)) (\<lambda>found.
     case found of
       None \<Rightarrow> ret ()
     | Some reg \<Rightarrow> save_registration account (reg\<lparr>ar_tasks_completed := ar_tasks_completed reg + 1\<rparr>))"

definition record_verification :: "env \<Rightarrow> string \<Rightarrow> unit chain_act" where
  "record_verification E account =
     andThen (reads (\<lambda>s. get_registration E s account)) (\<lambda>found.
     case found of
       None \<Rightarrow> ret ()
     | Some reg \<Rightarrow> save_registration account (reg\<lparr>ar_tasks_verified := ar_tasks_verified reg + 1\<rparr>))"

definition offers :: "string option \<Rightarrow> AgentRegistration \<Rightarrow> bool" where
  "offers tool_filter r = (case tool_filter of Some t \<Rightarrow> list_ex (\<lambda>rt. rt = t) (ar_tools r) | None \<Rightarrow> True)"

definition list_agents :: "env \<Rightarrow> chain \<Rightarrow> string option \<Rightarrow> AgentRegistration list" where
  "list_agents E s tool_filter =
     filter (offers tool_filter) (filter ar_active
       (List.map_filter (\<lambda>kv. Option.bind (as_json E (snd kv)) AgentRegistration_of_json)
         (state_scan_prefix s ''agent_registry:'')))"

datatype registry_entry =
    AgentRegister string string string "string list" string u64 u64
  | AgentDeregister string

fun apply_registry_entry :: "env \<Rightarrow> registry_entry \<Rightarrow> unit chain_act" where
  "apply_registry_entry E (AgentRegister account name description tools model min_fee epoch) =
     apply_register E account name description tools model min_fee epoch"
| "apply_registry_entry E (AgentDeregister account) = apply_deregister E account"

text \<open>What can happen to the registry: an entry, or one of the counters being increased.\<close>

datatype registry_op = RegistryEntry registry_entry | TaskCompleted string | TaskVerified string

fun registry_step :: "env \<Rightarrow> registry_op \<Rightarrow> unit chain_act" where
  "registry_step E (RegistryEntry x) = apply_registry_entry E x"
| "registry_step E (TaskCompleted account) = record_task_completed E account"
| "registry_step E (TaskVerified account) = record_verification E account"

fun run_registry :: "env \<Rightarrow> registry_op list \<Rightarrow> chain \<Rightarrow> chain" where
  "run_registry E [] s = s"
| "run_registry E (x # xs) s = run_registry E xs (snd (registry_step E x s))"

section \<open>The directory\<close>

text \<open>
  What the directory should hold for an account is read off the history of operations, without a state: what
  the last registration said, the epoch of the first one, and how many of its tasks were completed and
  verified since then. It is active when it was not withdrawn after its last registration.
\<close>

fun registers :: "string \<Rightarrow> registry_op \<Rightarrow> bool" where
  "registers a (RegistryEntry (AgentRegister b _ _ _ _ _ _)) = (a = b)"
| "registers a _ = False"

fun withdraws :: "string \<Rightarrow> registry_op \<Rightarrow> bool" where
  "withdraws a (RegistryEntry (AgentDeregister b)) = (a = b)"
| "withdraws a _ = False"

fun epoch_said :: "registry_op \<Rightarrow> u64" where
  "epoch_said (RegistryEntry (AgentRegister _ _ _ _ _ _ epoch)) = epoch"
| "epoch_said _ = 0"

fun said :: "registry_op \<Rightarrow> string \<times> string \<times> string list \<times> string \<times> u64" where
  "said (RegistryEntry (AgentRegister _ name description tools model min_fee _)) = (name, description, tools, model, min_fee)"
| "said _ = ([], [], [], [], 0)"

definition since_first :: "string \<Rightarrow> registry_op list \<Rightarrow> registry_op list" where
  "since_first a xs = dropWhile (\<lambda>x. \<not> registers a x) xs"

definition happened :: "registry_op \<Rightarrow> string \<Rightarrow> registry_op list \<Rightarrow> u64" where
  "happened x a xs = word_of_nat (count_list (since_first a xs) x)"

definition in_force :: "string \<Rightarrow> registry_op list \<Rightarrow> bool" where
  "in_force a xs \<longleftrightarrow> registers a (last (filter (\<lambda>x. registers a x \<or> withdraws a x) xs))"

definition history_says :: "string \<Rightarrow> registry_op list \<Rightarrow> AgentRegistration option" where
  "history_says a xs =
    (case filter (registers a) xs of [] \<Rightarrow> None
     | first # rest \<Rightarrow>
        (case said (last (first # rest)) of (name, description, tools, model, min_fee) \<Rightarrow>
           Some \<lparr>ar_account = a, ar_name = name, ar_description = description, ar_tools = tools, ar_model = model,
             ar_min_fee = min_fee, ar_registered_epoch = epoch_said first, ar_updated_epoch = epoch_said (last (first # rest)),
             ar_tasks_completed = happened (TaskCompleted a) a xs, ar_tasks_verified = happened (TaskVerified a) a xs,
             ar_active = in_force a xs\<rparr>))"

lemma registry_key_simps [simp]:
  "registry_key a = registry_key b \<longleftrightarrow> a = b" "prefix ''agent_registry:'' (registry_key a)"
  by (simp_all add: registry_key_def)

lemma save_registration_get:
  "get_registration E (snd (save_registration a r s)) b = (if b = a then Some r else get_registration E s b)"
proof -
  obtain s' where sv: "save_registration a r s = (Inr (), s')" by (simp add: save_record_apply)
  show ?thesis
    using sv registrations.peek_save [OF sv] peek_save_other [OF sv, of "registry_key b"] by (cases "b = a") simp_all
qed

lemma registry_op_cases [case_names Register Withdraw Completed Verified]:
  assumes "\<And>b n ds ts m f ep. x = RegistryEntry (AgentRegister b n ds ts m f ep) \<Longrightarrow> P"
    and "\<And>b. x = RegistryEntry (AgentDeregister b) \<Longrightarrow> P"
    and "\<And>b. x = TaskCompleted b \<Longrightarrow> P" and "\<And>b. x = TaskVerified b \<Longrightarrow> P"
  shows P
  using assms by (metis registry_op.exhaust registry_entry.exhaust)

text \<open>Each operation changes the record of its account as the history, longer by the operation, says.\<close>

lemma since_first_snoc:
  "since_first a (xs @ [x]) = (if since_first a xs = [] then (if registers a x then [x] else []) else since_first a xs @ [x])"
  by (auto simp: since_first_def dropWhile_append dropWhile_eq_Nil_conv)

lemma since_first_empty: "since_first a xs = [] \<longleftrightarrow> filter (registers a) xs = []"
  by (simp add: since_first_def dropWhile_eq_Nil_conv filter_empty_conv)

lemma happened_snoc:
  "happened y a (xs @ [x]) =
    (if filter (registers a) xs = [] then (if registers a x \<and> x = y then 1 else 0) else happened y a xs + (if x = y then 1 else 0))"
proof -
  have "count_list (since_first a (xs @ [x])) y = (if filter (registers a) xs = [] then (if registers a x \<and> x = y then 1 else 0)
      else count_list (since_first a xs) y + (if x = y then 1 else 0))"
  proof (cases "since_first a xs = []")
    case True
    then have "filter (registers a) xs = []" using since_first_empty by blast
    then show ?thesis using True by (cases "registers a x"; cases "x = y") (simp_all add: since_first_snoc)
  next
    case False
    then have "filter (registers a) xs \<noteq> []" using since_first_empty by blast
    then show ?thesis using False by (simp add: since_first_snoc)
  qed
  then show ?thesis by (cases "filter (registers a) xs = []"; cases "x = y"; cases "registers a x") (simp_all add: happened_def)
qed

lemma in_force_snoc:
  "in_force a (xs @ [x]) = (if registers a x then True else if withdraws a x then False else in_force a xs)"
  by (cases x rule: registry_op_cases) (auto simp: in_force_def)

lemma history_snoc:
  "history_says a (xs @ [x]) = (case x of
     RegistryEntry (AgentRegister b name description tools model min_fee epoch) \<Rightarrow>
       if a = b then Some \<lparr>ar_account = a, ar_name = name, ar_description = description, ar_tools = tools, ar_model = model,
         ar_min_fee = min_fee,
         ar_registered_epoch = (case history_says a xs of None \<Rightarrow> epoch | Some r \<Rightarrow> ar_registered_epoch r),
         ar_updated_epoch = epoch,
         ar_tasks_completed = (case history_says a xs of None \<Rightarrow> 0 | Some r \<Rightarrow> ar_tasks_completed r),
         ar_tasks_verified = (case history_says a xs of None \<Rightarrow> 0 | Some r \<Rightarrow> ar_tasks_verified r), ar_active = True\<rparr>
       else history_says a xs
   | RegistryEntry (AgentDeregister b) \<Rightarrow>
       if a = b then map_option (\<lambda>r. r\<lparr>ar_active := False\<rparr>) (history_says a xs) else history_says a xs
   | TaskCompleted b \<Rightarrow>
       if a = b then map_option (\<lambda>r. r\<lparr>ar_tasks_completed := ar_tasks_completed r + 1\<rparr>) (history_says a xs) else history_says a xs
   | TaskVerified b \<Rightarrow>
       if a = b then map_option (\<lambda>r. r\<lparr>ar_tasks_verified := ar_tasks_verified r + 1\<rparr>) (history_says a xs) else history_says a xs)"
proof (cases "filter (registers a) xs")
  case Nil
  then show ?thesis
    by (cases x rule: registry_op_cases)
      (auto simp: history_says_def happened_snoc in_force_snoc split: prod.split registry_op.split registry_entry.split)
next
  case (Cons first rest)
  then have "filter (registers a) xs \<noteq> []" by simp
  with Cons show ?thesis
    by (cases x rule: registry_op_cases)
      (auto simp: history_says_def happened_snoc in_force_snoc split: prod.split registry_op.split registry_entry.split)
qed

lemma registry_step_history:
  assumes "\<forall>a. get_registration E s a = history_says a xs"
  shows "get_registration E (snd (registry_step E x s)) a = history_says a (xs @ [x])"
proof (cases x rule: registry_op_cases)
  case (Register b n ds ts m f ep)
  with assms show ?thesis
    by (simp add: apply_register_def andThen_apply reads_apply save_registration_get history_snoc registration_def)
next
  case (Withdraw b)
  have idle: "r\<lparr>ar_active := False\<rparr> = r" if "\<not> ar_active r" for r using that by (cases r) simp
  with Withdraw assms show ?thesis
    by (cases "history_says b xs")
      (simp_all add: apply_deregister_def andThen_apply load_record_apply seq_apply ensure_apply save_registration_get history_snoc)
next
  case (Completed b)
  with assms show ?thesis
    by (cases "history_says b xs")
      (simp_all add: record_task_completed_def andThen_apply reads_apply ret_apply save_registration_get history_snoc)
next
  case (Verified b)
  with assms show ?thesis
    by (cases "history_says b xs")
      (simp_all add: record_verification_def andThen_apply reads_apply ret_apply save_registration_get history_snoc)
qed

lemma wf_registry_step: "preserves wf_chain (registry_step E x)"
proof (cases x)
  case (RegistryEntry e)
  then show ?thesis
    by (cases e) (auto simp: apply_register_def apply_deregister_def intro!: preserves_intros)
qed (auto simp: record_task_completed_def record_verification_def intro!: preserves_intros split: option.split)

lemma list_agents_iff:
  assumes "wf_chain s"
  shows "r \<in> set (list_agents E s tool) \<longleftrightarrow> (\<exists>a. get_registration E s a = Some r) \<and> ar_active r \<and> offers tool r"
  unfolding list_agents_def set_filter mem_Collect_eq scanned_records [OF assms]
  by (auto simp: prefix_def registry_key_def)

lemma run_registry_history:
  assumes "\<forall>a. get_registration E s a = history_says a ys"
  shows "get_registration E (run_registry E xs s) a = history_says a (ys @ xs)"
  using assms
proof (induction xs arbitrary: s ys)
  case (Cons x xs)
  from Cons.IH [of "snd (registry_step E x s)" "ys @ [x]"] registry_step_history [OF Cons.prems] show ?case by simp
qed simp

lemma wf_run_registry: "wf_chain s \<Longrightarrow> wf_chain (run_registry E xs s)"
proof (induction xs arbitrary: s)
  case (Cons x xs)
  have "wf_chain (snd (registry_step E x s))"
    using preservesD [OF wf_registry_step Cons.prems, of E x] by (cases "registry_step E x s") simp
  with Cons.IH show ?case by simp
qed simp

text \<open>
  (C26) The registry implements its directory. Start without registrations and let any sequence of registrations,
  withdrawals and counter updates follow, refused ones included. The listing for a tool then consists of exactly what
  the history says of the accounts that are in force and named the tool in their last registration: the data of the last
  registration, the epoch of the first one, and the number of completions and verifications since the first one,
  counted over withdrawal and renewal.
\<close>

theorem registry_implements_directory:
  assumes "wf_chain s" and "\<forall>a. get_registration E s a = None"
  shows "r \<in> set (list_agents E (run_registry E xs s) tool) \<longleftrightarrow>
    (\<exists>a. history_says a xs = Some r \<and> in_force a xs \<and> (\<forall>t. tool = Some t \<longrightarrow> t \<in> set (ar_tools r)))"
proof -
  have "history_says a [] = None" for a by (simp add: history_says_def)
  then have get: "get_registration E (run_registry E xs s) a = history_says a xs" for a
    using run_registry_history [of E s "[]" xs a] assms(2) by simp
  have active: "history_says a xs = Some r \<Longrightarrow> ar_active r = in_force a xs" for a
    by (auto simp: history_says_def split: list.splits prod.splits)
  have "offers tool r \<longleftrightarrow> (\<forall>t. tool = Some t \<longrightarrow> t \<in> set (ar_tools r))"
    by (auto simp: offers_def list_ex_iff split: option.split)
  then show ?thesis
    using active unfolding list_agents_iff [OF wf_run_registry [OF assms(1)]] get by blast
qed

definition demo_registry :: "registry_op list" where
  "demo_registry = [RegistryEntry (AgentRegister ''ann'' ''A'' [] [''web''] ''m'' 10 1), TaskCompleted ''ann'',
     RegistryEntry (AgentDeregister ''ann''), RegistryEntry (AgentRegister ''ann'' ''B'' [] [''web'', ''sql''] ''m'' 20 5),
     RegistryEntry (AgentRegister ''bob'' ''C'' [] [''web''] ''m'' 10 6), RegistryEntry (AgentDeregister ''bob'')]"

theorem registry_implements_directory_witness:
  "set (list_agents demo_env (run_registry demo_env demo_registry empty_chain) (Some ''web'')) =
    {\<lparr>ar_account = ''ann'', ar_name = ''B'', ar_description = [], ar_tools = [''web'', ''sql''], ar_model = ''m'',
      ar_min_fee = 20, ar_registered_epoch = 1, ar_updated_epoch = 5, ar_tasks_completed = 1, ar_tasks_verified = 0,
      ar_active = True\<rparr>}"
proof -
  have wf: "wf_chain empty_chain" by (simp add: wf_chain_def empty_chain_def kv_sorted_def)
  have none: "get_registration demo_env empty_chain = (\<lambda>a. None)"
    by (simp add: fun_eq_iff peek_state_get state_get_def empty_chain_def)
  let ?ann = "\<lparr>ar_account = ''ann'', ar_name = ''B'', ar_description = [], ar_tools = [''web'', ''sql''], ar_model = ''m'',
      ar_min_fee = 20, ar_registered_epoch = 1, ar_updated_epoch = 5, ar_tasks_completed = 1, ar_tasks_verified = 0,
      ar_active = True\<rparr>"
  have ann: "history_says ''ann'' demo_registry = Some ?ann" "in_force ''ann'' demo_registry"
    by (simp_all add: demo_registry_def history_says_def happened_def since_first_def in_force_def)
  have other: "history_says a demo_registry = None \<or> \<not> in_force a demo_registry" if "a \<noteq> ''ann''" for a
    using that by (cases "a = ''bob''") (simp_all add: demo_registry_def history_says_def in_force_def)
  have none: "\<forall>a. get_registration demo_env empty_chain a = None" using none by (simp add: fun_eq_iff)
  show ?thesis
  proof (intro set_eqI iffI)
    fix r assume "r \<in> set (list_agents demo_env (run_registry demo_env demo_registry empty_chain) (Some ''web''))"
    then obtain a where a: "history_says a demo_registry = Some r" "in_force a demo_registry"
      using registry_implements_directory [OF wf none] by blast
    then have "a = ''ann''" using other by fastforce
    with a ann show "r \<in> {?ann}" by simp
  next
    fix r assume "r \<in> {?ann}"
    then have r: "r = ?ann" by simp
    have "(\<forall>t. Some ''web'' = Some t \<longrightarrow> t \<in> set (ar_tools ?ann))" by simp
    with ann have "\<exists>a. history_says a demo_registry = Some ?ann \<and> in_force a demo_registry \<and>
      (\<forall>t. Some ''web'' = Some t \<longrightarrow> t \<in> set (ar_tools ?ann))" by blast
    then show "r \<in> set (list_agents demo_env (run_registry demo_env demo_registry empty_chain) (Some ''web''))"
      unfolding r registry_implements_directory [OF wf none] .
  qed
qed

end
