(* ===== verification/MarketTx.thy ===== *)
theory MarketTx
  imports IdentityTx AgentRegistry SessionMarket AgentSession Oracle Bridge Auction Slashing Vrf Ensemble
begin

text \<open>
  Submission of the entries of the market components: their arms in \<open>validate_and_apply\<close> of \<open>tx.rs\<close>, with the
  fee check before and the fee after them, and the dispatch of \<open>apply_entry\<close>. No epoch of these entries
  is in the table of the stale guard, so it lets them pass.

  The arms are of two kinds. Registry and task entries have to be signed by the account they act for. The
  others check the key and the signature of \<open>signed_by\<close> and the nonce of the account acted for, and do not
  compare the two. The theorems are that an accepted task or registry entry was authorised by its
  account, and that with a purchase in the session market an account spends the balance of another one.
\<close>

section \<open>Entries\<close>

text \<open>Auction, task, oracle, bridge and registry entries are those of their theories.\<close>

datatype market_entry =
    TxRegistry registry_entry
  | TxTask task_entry
  | TxOracle oracle_entry
  | TxListingCreate string string u64 string string u32 u64
  | TxListingBuy string string u64
  | TxListingCancel string string
  | TxSessionOpen string string string string u64 u64 "string option"
  | TxSessionClose string string
  | TxVrfCommit string string u64
  | TxVrfReveal string string u64
  | TxJobPost string string string string u64 u64 u64
  | TxVote string string string u64
  | TxSlash string string string string string u64
  | TxAppeal string string bool u64
  | TxBridge bridge_entry
  | TxAuction auction_entry

text \<open>
  A submitted entry: the fields that \<open>apply_entry\<close> reads, and those only validation reads. \<open>mx_caller\<close> is
  \<open>finalizer\<close> of a feed's finalisation and \<open>settler\<close> of an auction's settlement.
\<close>

record market_tx =
  mx_entry :: market_entry
  mx_caller :: string
  mx_nonce :: u64
  mx_signed_by :: string

text \<open>
  What the node adds: the orders in which its hash maps are walked, whether log lines are written, and
  \<open>serde_json::to_string\<close> of the entry, which is the signed text.
\<close>

record market_node =
  mn_task_order :: map_order
  mn_vote_order :: count_order
  mn_log :: bool
  mn_text :: "market_tx \<Rightarrow> string"

definition apply_market :: "env \<Rightarrow> market_node \<Rightarrow> market_entry \<Rightarrow> unit chain_act" where
  "apply_market E M x = (case x of
       TxRegistry e \<Rightarrow> apply_registry_entry E e
     | TxTask e \<Rightarrow> apply_task_entry E e
     | TxOracle e \<Rightarrow> apply_oracle_entry E e
     | TxListingCreate listing_id seller price model summary_hash turn_count epoch \<Rightarrow>
         apply_listing_create listing_id seller price model summary_hash turn_count epoch
     | TxListingBuy listing_id buyer epoch \<Rightarrow> apply_listing_buy E listing_id buyer epoch
     | TxListingCancel listing_id seller \<Rightarrow> apply_listing_cancel E listing_id seller
     | TxSessionOpen session_id client client_pubkey model fee_escrow epoch system_prompt \<Rightarrow>
         open_session_arm E session_id client client_pubkey model fee_escrow epoch system_prompt
     | TxSessionClose session_id client \<Rightarrow> apply_session_close E session_id client
     | TxVrfCommit committer commit_hash epoch \<Rightarrow> apply_vrf_commit E committer commit_hash epoch
     | TxVrfReveal committer secret_hex epoch \<Rightarrow> apply_vrf_reveal E committer secret_hex epoch
     | TxJobPost job_id requester model input_hash max_fee n_workers epoch \<Rightarrow>
         apply_job_post (mn_log M) job_id requester model input_hash max_fee n_workers epoch
     | TxVote job_id worker output_hash epoch \<Rightarrow>
         apply_vote E (mn_vote_order M) (mn_log M) job_id worker output_hash epoch
     | TxSlash slash_id reporter accused evidence violation epoch \<Rightarrow>
         apply_slash E slash_id reporter accused evidence violation epoch
     | TxAppeal slash_id panelist overturn epoch \<Rightarrow> apply_appeal E slash_id panelist overturn epoch
     | TxBridge e \<Rightarrow> apply_bridge_entry E e
     | TxAuction e \<Rightarrow> apply_auction_entry E e)"

text \<open>The account whose nonce an arm checks.\<close>

definition market_actor :: "market_tx \<Rightarrow> string" where
  "market_actor T = (case mx_entry T of
       TxRegistry e \<Rightarrow> (case e of AgentRegister account _ _ _ _ _ _ \<Rightarrow> account | AgentDeregister account \<Rightarrow> account)
     | TxTask e \<Rightarrow> (case e of
           AgentCreditDeposit account _ \<Rightarrow> account
         | AgentCreditWithdraw account _ \<Rightarrow> account
         | AgentTaskPost _ requester _ _ _ _ _ _ _ \<Rightarrow> requester
         | AgentTaskBid _ agent _ _ \<Rightarrow> agent
         | AgentTaskAssign _ _ _ \<Rightarrow> mx_signed_by T
         | AgentTaskSubmit _ agent _ _ \<Rightarrow> agent
         | AgentTaskVerifierCommit _ verifier _ _ \<Rightarrow> verifier
         | AgentTaskVerifierReveal _ verifier _ _ \<Rightarrow> verifier
         | AgentTaskSettle \<Rightarrow> mx_signed_by T)
     | TxOracle e \<Rightarrow> (case e of
           OracleFeedCreate _ creator _ _ _ \<Rightarrow> creator
         | OracleReport _ reporter _ _ \<Rightarrow> reporter
         | OracleFeedFinalize _ _ _ \<Rightarrow> mx_caller T)
     | TxListingCreate _ seller _ _ _ _ _ \<Rightarrow> seller
     | TxListingBuy _ buyer _ \<Rightarrow> buyer
     | TxListingCancel _ seller \<Rightarrow> seller
     | TxSessionOpen _ client _ _ _ _ _ \<Rightarrow> client
     | TxSessionClose _ client \<Rightarrow> client
     | TxVrfCommit committer _ _ \<Rightarrow> committer
     | TxVrfReveal committer _ _ \<Rightarrow> committer
     | TxJobPost _ requester _ _ _ _ _ \<Rightarrow> requester
     | TxVote _ worker _ _ \<Rightarrow> worker
     | TxSlash _ reporter _ _ _ _ \<Rightarrow> reporter
     | TxAppeal _ panelist _ _ \<Rightarrow> panelist
     | TxBridge e \<Rightarrow> (case e of
           BridgeFund _ custodian _ _ _ _ \<Rightarrow> custodian
         | BridgeWrap account _ _ _ _ \<Rightarrow> account
         | BridgeUnwrap account _ _ _ _ \<Rightarrow> account
         | BridgeUnlock _ custodian _ _ \<Rightarrow> custodian)
     | TxAuction e \<Rightarrow> (case e of
           NameAuctionOpen _ _ opener _ _ _ \<Rightarrow> opener
         | NameAuctionBid _ bidder _ _ \<Rightarrow> bidder
         | NameAuctionSettle _ _ \<Rightarrow> mx_caller T
         | NameAuctionCancel _ opener \<Rightarrow> opener
         | FreeportAuctionOpen _ _ _ seller _ _ _ \<Rightarrow> seller
         | FreeportAuctionBid _ bidder _ _ \<Rightarrow> bidder
         | FreeportAuctionSettle _ _ \<Rightarrow> mx_caller T))"

section \<open>The arms\<close>

definition market_message :: "env \<Rightarrow> node \<Rightarrow> market_node \<Rightarrow> market_tx \<Rightarrow> string" where
  "market_message E N M T =
     json_print E (jobj [(''chain_id'', JStr (chain_id N)), (''entry'', JStr (mn_text M T))])"

text \<open>\<open>check_signature\<close> with the role \<open>posting\<close> or \<open>active\<close>.\<close>

definition check_market_signature ::
  "env \<Rightarrow> node \<Rightarrow> market_node \<Rightarrow> market_tx \<Rightarrow> string \<Rightarrow> string option \<Rightarrow> string \<Rightarrow> unit chain_act" where
  "check_market_signature E N M T signed_by sig_hex role =
     andThen (reads (\<lambda>s. get_account s signed_by)) (\<lambda>st.
     case Option.bind st (\<lambda>state. role_key state role) of
       None \<Rightarrow> ret ()
     | Some pubkey_hex \<Rightarrow> verify_against_pubkey E (market_message E N M T) pubkey_hex sig_hex)"

definition own_checks :: "env \<Rightarrow> node \<Rightarrow> market_node \<Rightarrow> market_tx \<Rightarrow> string option \<Rightarrow> unit chain_act" where
  "own_checks E N M T sig_hex =
     seq (ensure (mx_signed_by T = market_actor T) (Err ''signed_by must equal account''))
    (seq (require_key (market_actor T))
    (seq (check_nonce (market_actor T) (mx_nonce T))
         (check_market_signature E N M T (mx_signed_by T) sig_hex ''posting'')))"

definition assign_checks ::
  "env \<Rightarrow> node \<Rightarrow> market_node \<Rightarrow> market_tx \<Rightarrow> string \<Rightarrow> string option \<Rightarrow> unit chain_act" where
  "assign_checks E N M T task_id sig_hex =
     seq (require_key (mx_signed_by T))
    (seq (check_nonce (mx_signed_by T) (mx_nonce T))
    (andThen (load_task E task_id) (\<lambda>task.
     seq (ensure (at_requester task = mx_signed_by T) (Err ''only the requester can assign''))
         (check_market_signature E N M T (mx_signed_by T) sig_hex ''posting''))))"

definition signer_checks :: "env \<Rightarrow> node \<Rightarrow> market_node \<Rightarrow> market_tx \<Rightarrow> string option \<Rightarrow> unit chain_act" where
  "signer_checks E N M T sig_hex =
     seq (require_key (mx_signed_by T))
    (seq (check_nonce (market_actor T) (mx_nonce T))
         (check_market_signature E N M T (mx_signed_by T) sig_hex ''active''))"

text \<open>The arms of tasks and of the registry; a revealed verdict is settled at once where it can be.\<close>

definition validate_owned :: "env \<Rightarrow> node \<Rightarrow> market_node \<Rightarrow> market_tx \<Rightarrow> string option \<Rightarrow> unit chain_act" where
  "validate_owned E N M T sig_hex =
    (let run = apply_market E M (mx_entry T); bump = bump_nonce (market_actor T) in
     case mx_entry T of
       TxTask AgentTaskSettle \<Rightarrow> bail (Err ''AgentTaskSettle is system-only'')
     | TxTask (AgentTaskAssign task_id _ _) \<Rightarrow>
         seq (assign_checks E N M T task_id sig_hex) (seq run bump)
     | TxTask (AgentTaskVerifierReveal task_id _ _ _) \<Rightarrow>
         seq (own_checks E N M T sig_hex) (seq run (seq bump
        (andThen (reads current_epoch) (\<lambda>epoch.
         seq (attempt (try_settle E (mn_task_order M) task_id epoch)) (ret ())))))
     | _ \<Rightarrow> seq (own_checks E N M T sig_hex) (seq run bump))"

text \<open>The other arms; a failing nonce update is ignored.\<close>

definition validate_by_signer :: "env \<Rightarrow> node \<Rightarrow> market_node \<Rightarrow> market_tx \<Rightarrow> string option \<Rightarrow> unit chain_act" where
  "validate_by_signer E N M T sig_hex =
     seq (signer_checks E N M T sig_hex)
    (seq (apply_market E M (mx_entry T))
    (seq (attempt (bump_nonce (market_actor T))) (ret ())))"

definition validate_market :: "env \<Rightarrow> node \<Rightarrow> market_node \<Rightarrow> market_tx \<Rightarrow> string option \<Rightarrow> unit chain_act" where
  "validate_market E N M T sig_hex = (case mx_entry T of
       TxTask _ \<Rightarrow> validate_owned E N M T sig_hex
     | TxRegistry _ \<Rightarrow> validate_owned E N M T sig_hex
     | _ \<Rightarrow> validate_by_signer E N M T sig_hex)"

section \<open>Fees\<close>

definition market_weight :: "market_entry \<Rightarrow> u64" where
  "market_weight x = (case x of
       TxRegistry (AgentRegister _ _ _ _ _ _ _) \<Rightarrow> ENTRY_WEIGHT_REGISTRATION
     | TxTask (AgentTaskPost _ _ _ _ _ _ _ _ _) \<Rightarrow> ENTRY_WEIGHT_HEAVY
     | TxTask AgentTaskSettle \<Rightarrow> ENTRY_WEIGHT_SYSTEM
     | TxOracle (OracleFeedCreate _ _ _ _ _) \<Rightarrow> ENTRY_WEIGHT_HEAVY
     | TxOracle (OracleFeedFinalize _ _ _) \<Rightarrow> ENTRY_WEIGHT_HEAVY
     | TxListingCreate _ _ _ _ _ _ _ \<Rightarrow> ENTRY_WEIGHT_HEAVY
     | TxSessionOpen _ _ _ _ _ _ _ \<Rightarrow> ENTRY_WEIGHT_HEAVY
     | TxJobPost _ _ _ _ _ _ _ \<Rightarrow> ENTRY_WEIGHT_HEAVY
     | TxSlash _ _ _ _ _ _ \<Rightarrow> ENTRY_WEIGHT_HEAVY
     | TxBridge _ \<Rightarrow> ENTRY_WEIGHT_HEAVY
     | TxAuction (NameAuctionOpen _ _ _ _ _ _) \<Rightarrow> ENTRY_WEIGHT_HEAVY
     | TxAuction (FreeportAuctionOpen _ _ _ _ _ _ _) \<Rightarrow> ENTRY_WEIGHT_HEAVY
     | _ \<Rightarrow> ENTRY_WEIGHT_STANDARD)"

definition market_total_fee :: "env \<Rightarrow> market_tx \<Rightarrow> chain \<Rightarrow> u64" where
  "market_total_fee E T s = sat_mul (read_base_fee E s) (market_weight (mx_entry T))"

text \<open>The payer is \<open>signed_by\<close>. A weight of zero gives a fee of zero.\<close>

definition submit_market :: "env \<Rightarrow> node \<Rightarrow> market_node \<Rightarrow> market_tx \<Rightarrow> string option \<Rightarrow> unit chain_act" where
  "submit_market E N M T sig_hex =
     andThen (reads (\<lambda>s. (market_total_fee E T s, get_balance s (mx_signed_by T) NATIVE_TOKEN))) (\<lambda>(fee, bal).
     seq (ensure (fee = 0 \<or> bal \<ge> fee) (Err ''insufficient balance for entry fee''))
    (seq (validate_market E N M T sig_hex)
    (andThen (reads (market_total_fee E T)) (\<lambda>fee.
     when_do (fee > 0) (move_fee (mx_signed_by T) fee)))))"

section \<open>Authorised entries\<close>

text \<open>The signature was made with this key, over the message of the entry.\<close>

definition market_signed :: "env \<Rightarrow> node \<Rightarrow> market_node \<Rightarrow> market_tx \<Rightarrow> string \<Rightarrow> string option \<Rightarrow> bool" where
  "market_signed E N M T k sig \<longleftrightarrow> (\<exists>t pk sg. sig = Some t \<and> t \<noteq> [] \<and> hex_bytes E 32 k = Some pk \<and>
     hex_bytes E 64 t = Some sg \<and> ed25519_verify E pk (market_message E N M T) sg)"

lemma check_market_signature_Inr [guard_simps]:
  "check_market_signature E N M T a sig role s = (Inr x, s') \<longleftrightarrow>
     (\<forall>st k. get_account s a = Some st \<longrightarrow> role_key st role = Some k \<longrightarrow> market_signed E N M T k sig) \<and> s' = s"
  by (auto simp: check_market_signature_def verify_against_pubkey_def market_signed_def andThen_Inr guard_simps ret_apply
      split: option.splits bind_splits if_splits)

definition has_posting_key :: "chain \<Rightarrow> string \<Rightarrow> bool" where
  "has_posting_key s a \<longleftrightarrow> (\<forall>st. get_account s a = Some st \<longrightarrow> role_key st ''posting'' \<noteq> None)"

lemma own_checks_Inr:
  "own_checks E N M T sig s = (Inr x, s') \<longleftrightarrow>
     mx_signed_by T = market_actor T \<and> (market_actor T \<in> set STAKE_EXEMPT_ACCOUNTS \<or> has_posting_key s (market_actor T)) \<and>
     mx_nonce T = next_nonce s (market_actor T) \<and>
     (\<forall>st k. get_account s (market_actor T) = Some st \<longrightarrow> role_key st ''posting'' = Some k \<longrightarrow> market_signed E N M T k sig) \<and>
     s' = s"
  by (auto simp: own_checks_def has_posting_key_def seq_Inr guard_simps)

lemma assign_checks_Inr:
  "assign_checks E N M T i sig s = (Inr x, s') \<longleftrightarrow>
     (mx_signed_by T \<in> set STAKE_EXEMPT_ACCOUNTS \<or> has_posting_key s (mx_signed_by T)) \<and>
     mx_nonce T = next_nonce s (mx_signed_by T) \<and>
     (\<exists>t. get_task E s i = Some t \<and> at_requester t = mx_signed_by T) \<and>
     (\<forall>st k. get_account s (mx_signed_by T) = Some st \<longrightarrow> role_key st ''posting'' = Some k \<longrightarrow> market_signed E N M T k sig) \<and>
     s' = s"
  by (auto simp: assign_checks_def has_posting_key_def seq_Inr andThen_Inr load_task_def load_record_Inr guard_simps)

lemma validate_market_Inr:
  assumes "validate_market E N M T sig s = (Inr x, s')"
    and "(\<exists>e. mx_entry T = TxTask e) \<or> (\<exists>e. mx_entry T = TxRegistry e)"
  shows "own_checks E N M T sig s = (Inr (), s) \<or>
    (\<exists>i a f. mx_entry T = TxTask (AgentTaskAssign i a f) \<and> assign_checks E N M T i sig s = (Inr (), s))"
  using assms
  by (auto simp: validate_market_def validate_owned_def validate_by_signer_def Let_def seq_Inr bail_apply own_checks_Inr assign_checks_Inr
      split: market_entry.splits task_entry.splits)

text \<open>
  (C13) An accepted task or registry entry was authorised by its account, if the account it acts for exists and is not
  one of the protocol's own (\<open>STAKE_EXEMPT_ACCOUNTS\<close>; those, and an account without a record, pass without a key).
  The entry was signed by that account, with its next nonce; the account has a posting key and the signature was
  made with that key over the message of this chain; and an assignment was made by the requester of the task.
\<close>

theorem task_entry_authorised:
  assumes run: "submit_market E N M T sig s = (Inr (), s')" and st: "get_account s (market_actor T) = Some st"
    and kind: "(\<exists>e. mx_entry T = TxTask e) \<or> (\<exists>e. mx_entry T = TxRegistry e)"
    and exempt: "market_actor T \<notin> set STAKE_EXEMPT_ACCOUNTS"
  shows "mx_signed_by T = market_actor T \<and> mx_nonce T = next_nonce s (market_actor T) \<and>
    (\<exists>k. role_key st ''posting'' = Some k \<and> market_signed E N M T k sig) \<and>
    (\<forall>i a f. mx_entry T = TxTask (AgentTaskAssign i a f) \<longrightarrow>
       (\<exists>t. get_task E s i = Some t \<and> at_requester t = market_actor T))"
proof -
  obtain t where "validate_market E N M T sig s = (Inr (), t)"
    using run by (auto simp: submit_market_def andThen_Inr seq_Inr guard_simps)
  from validate_market_Inr [OF this kind] show ?thesis
  proof
    assume own: "own_checks E N M T sig s = (Inr (), s)"
    have "\<exists>t. get_task E s i = Some t \<and> at_requester t = market_actor T"
      if "mx_entry T = TxTask (AgentTaskAssign i a f)" for i a f
      using that \<open>validate_market E N M T sig s = (Inr (), t)\<close>
      by (auto simp: validate_market_def validate_owned_def validate_by_signer_def Let_def seq_Inr assign_checks_Inr market_actor_def)
    with own st exempt show ?thesis by (auto simp: own_checks_Inr has_posting_key_def)
  next
    assume "\<exists>i a f. mx_entry T = TxTask (AgentTaskAssign i a f) \<and> assign_checks E N M T i sig s = (Inr (), s)"
    then obtain i a f where "mx_entry T = TxTask (AgentTaskAssign i a f)" "assign_checks E N M T i sig s = (Inr (), s)"
      by blast
    moreover from this(1) have "market_actor T = mx_signed_by T" by (simp add: market_actor_def)
    ultimately show ?thesis using st exempt by (auto simp: assign_checks_Inr has_posting_key_def)
  qed
qed

lemma bump_runs: "get_account s a = Some (JObj f) \<Longrightarrow> \<exists>s'. bump_nonce a s = (Inr (), s')"
  by (simp add: bump_nonce_def with_fields_def set_account_def act_simps)

lemma submitted_from_arm:
  assumes "market_total_fee E T s \<le> get_balance s (mx_signed_by T) NATIVE_TOKEN"
    and "validate_market E N M T sig s = (Inr (), t)"
  shows "submit_market E N M T sig s = when_do (market_total_fee E T t > 0) (move_fee (mx_signed_by T) (market_total_fee E T t)) t"
  using assms by (simp add: submit_market_def andThen_apply reads_apply seq_apply ensure_apply)

definition demo_market_node :: market_node where
  "demo_market_node = \<lparr>mn_task_order = id, mn_vote_order = id, mn_log = True, mn_text = (\<lambda>_. [])\<rparr>"

definition demo_register :: market_tx where
  "demo_register = \<lparr>mx_entry = TxRegistry (AgentRegister ''alice'' ''A'' [] [''web''] ''m'' 10 0), mx_caller = [],
     mx_nonce = 1, mx_signed_by = ''alice''\<rparr>"

lemma demo_fee: "market_total_fee demo_env T demo_keyed = sat_mul 10000000 (market_weight (mx_entry T))"
  by (simp add: market_total_fee_def read_base_fee_def state_json_def state_get_def demo_keyed_def empty_chain_def kv_get_def
      BASE_FEE_INITIAL_HUNITS_def)

lemma demo_register_accepted:
  "\<exists>s'. submit_market demo_env demo_node demo_market_node demo_register (Some demo_sig) demo_keyed = (Inr (), s')"
proof -
  let ?T = demo_register
  have who: "market_actor ?T = ''alice''" "mx_signed_by ?T = ''alice''" by (simp_all add: market_actor_def demo_register_def)
  have "market_signed demo_env demo_node demo_market_node ?T demo_key (Some demo_sig)"
    using demo_hex_bytes by (simp add: market_signed_def hex_bytes_def demo_env_def demo_sig_def demo_key_def)
  then have checks: "own_checks demo_env demo_node demo_market_node ?T (Some demo_sig) demo_keyed = (Inr (), demo_keyed)"
    by (simp add: own_checks_Inr who has_posting_key_def demo_keyed_account demo_keyed_facts(4) role_key_def demo_key_def)
      (simp add: demo_register_def)
  obtain s1 where s1: "apply_market demo_env demo_market_node (mx_entry ?T) demo_keyed = (Inr (), s1)" "cf_accounts s1 = cf_accounts demo_keyed"
    by (simp add: apply_market_def demo_register_def apply_register_def andThen_apply reads_apply save_record_apply state_set_def act_simps)
  then obtain s2 where s2: "bump_nonce ''alice'' s1 = (Inr (), s2)"
    using bump_runs [of s1 "''alice''"] demo_keyed_object by (auto simp: get_account_def)
  have "validate_market demo_env demo_node demo_market_node ?T (Some demo_sig) demo_keyed = (Inr (), s2)"
    using checks s1(1) s2 who by (simp add: demo_register_def validate_market_def validate_owned_def seq_apply)
  moreover have "market_total_fee demo_env ?T demo_keyed \<le> get_balance demo_keyed (mx_signed_by ?T) NATIVE_TOKEN"
    by (simp add: demo_fee who demo_keyed_facts) (simp add: demo_register_def market_weight_def ENTRY_WEIGHT_REGISTRATION_def sat_mul_def)
  ultimately show ?thesis using submitted_from_arm move_fee_result by (fastforce simp: when_do_apply)
qed

theorem task_entry_authorised_witness:
  "market_signed demo_env demo_node demo_market_node demo_register demo_key (Some demo_sig) \<and>
    mx_nonce demo_register = next_nonce demo_keyed ''alice''"
proof -
  obtain s' where run: "submit_market demo_env demo_node demo_market_node demo_register (Some demo_sig) demo_keyed = (Inr (), s')"
    using demo_register_accepted by blast
  have who: "market_actor demo_register = ''alice''" by (simp add: market_actor_def demo_register_def)
  have kind: "(\<exists>e. mx_entry demo_register = TxTask e) \<or> (\<exists>e. mx_entry demo_register = TxRegistry e)"
    by (simp add: demo_register_def)
  have "market_actor demo_register \<notin> set STAKE_EXEMPT_ACCOUNTS" by (simp add: who STAKE_EXEMPT_ACCOUNTS_def)
  from task_entry_authorised [OF run demo_keyed_account [folded who] kind this] show ?thesis
    by (auto simp: who role_key_def demo_key_def)
qed

section \<open>Spending for another account\<close>

lemma buy_accepted:
  assumes fits: "hone_total s < 2 ^ 64" and l: "get_listing E s i = Some l" "ls_status l = ListingActive"
    "e \<le> ls_expires_epoch l" "b \<noteq> ls_seller l" and funds: "ls_price_hunits l \<le> get_balance s b NATIVE_TOKEN"
  obtains s' where "apply_listing_buy E i b e s = (Inr (), s')" "hone_total s' = hone_total s"
    "\<forall>k. k \<noteq> listing_key i \<longrightarrow> state_get s' k = state_get s k"
    "\<forall>x. uint (get_balance s' x NATIVE_TOKEN) = uint (get_balance s x NATIVE_TOKEN) -
      (if x = b then uint (ls_price_hunits l) else 0) +
      (if x = ls_seller l then uint (ls_price_hunits l) - uint (market_fee (ls_price_hunits l)) else 0) +
      (if x = RECYCLE_FUND_ACCOUNT then uint (market_fee (ls_price_hunits l)) else 0)"
proof -
  let ?p = "ls_price_hunits l"
  let ?net = "sat_sub ?p (market_fee ?p)"
  note split = price_split [of ?p]
  obtain y s1 where d: "debit b NATIVE_TOKEN ?p s = (Inr y, s1)" using funds by (simp add: debit_cases)
  note d1 = debit_run [OF d]
  have "hone_total s1 + uint ?net < 2 ^ 64" using fits d1 split uint_ge_0 [of "market_fee ?p"] by linarith
  then obtain z s2 where c: "credit (ls_seller l) NATIVE_TOKEN ?net s1 = (Inr z, s2)" using credit_succeeds by blast
  note c1 = credit_run [OF c]
  have "hone_total s2 + uint (market_fee ?p) < 2 ^ 64" using fits d1 c1 split by linarith
  from pay_some_runs [OF this, of RECYCLE_FUND_ACCOUNT] obtain s3 where
    s3: "when_do (market_fee ?p > 0) (seq (credit RECYCLE_FUND_ACCOUNT NATIVE_TOKEN (market_fee ?p)) (ret ())) s2 = (Inr (), s3)"
    "cf_meta s3 = cf_meta s2" "hone_total s3 = hone_total s2 + uint (market_fee ?p)"
    "\<forall>x. uint (get_balance s3 x NATIVE_TOKEN) = uint (get_balance s2 x NATIVE_TOKEN) +
      (if x = RECYCLE_FUND_ACCOUNT then uint (market_fee ?p) else 0)" .
  obtain s' where sv: "save_listing i (l\<lparr>ls_status := ListingSold, ls_buyer := Some b\<rparr>) s3 = (Inr (), s')"
    by (simp add: save_record_apply)
  have run: "apply_listing_buy E i b e s = (Inr (), s')"
    using l d c s3(1) sv by (simp add: apply_listing_buy_def andThen_apply seq_apply load_record_apply ensure_apply)
  have meta: "state_get s' k = state_get s k" if "k \<noteq> listing_key i" for k
    using that sv s3(2) c1 d1 by (auto simp: save_record_apply state_set_def state_get_def act_simps)
  have bal: "get_balance s' x NATIVE_TOKEN = get_balance s3 x NATIVE_TOKEN" for x
    by (rule balances_kept [OF keeps_save_record(1) sv])
  have net: "uint ?net = uint ?p - uint (market_fee ?p)" using split by linarith
  show ?thesis
    by (rule that [OF run gainsD [OF gains_buy run, simplified]])
      (use meta bal s3(4) debit_balances [OF d] credit_balances [OF c] net in auto)
qed

lemma move_fee_pays:
  assumes fits: "hone_total s < 2 ^ 64" and funds: "n \<le> get_balance s a NATIVE_TOKEN" and run: "move_fee a n s = (x, s')"
  shows "uint (get_balance s' y NATIVE_TOKEN) = uint (get_balance s y NATIVE_TOKEN) -
    (if y = a then uint n else 0) + (if y = RECYCLE_FUND_ACCOUNT then uint n else 0)"
proof -
  obtain u s1 where d: "debit a NATIVE_TOKEN n s = (Inr u, s1)" using funds by (simp add: debit_cases)
  have "hone_total s1 + uint n < 2 ^ 64" using fits debit_run [OF d] by simp
  then obtain v s2 where c: "credit RECYCLE_FUND_ACCOUNT NATIVE_TOKEN n s1 = (Inr v, s2)" using credit_succeeds by blast
  have "s' = s2" using run d c by (simp add: move_fee_def seq_apply attempt_apply ret_apply)
  then show ?thesis using debit_balances [OF d, of y] credit_balances [OF c, of y] by simp
qed

lemma signer_checks_Inr:
  "signer_checks E N M T sig s = (Inr x, s') \<longleftrightarrow>
     (mx_signed_by T \<in> set STAKE_EXEMPT_ACCOUNTS \<or> has_posting_key s (mx_signed_by T)) \<and>
     mx_nonce T = next_nonce s (market_actor T) \<and>
     (\<forall>st k. get_account s (mx_signed_by T) = Some st \<longrightarrow> role_key st ''active'' = Some k \<longrightarrow> market_signed E N M T k sig) \<and>
     s' = s"
  by (auto simp: signer_checks_def has_posting_key_def seq_Inr guard_simps)

text \<open>
  (C39) A seller sells to whom it likes. An account \<open>q\<close> that passes for its own key, with an active listing of its
  own, submits the purchase of that listing by any other account \<open>b\<close> with funds (whose record, if it has one, is a
  JSON object or null, so that its nonce can be written). The entry is accepted:
  the price leaves \<open>b\<close>, which signed nothing, and \<open>q\<close> receives it less the market's fee and the entry's.
\<close>

theorem purchase_spends_for_another:
  assumes T: "T = \<lparr>mx_entry = TxListingBuy i b e, mx_caller = c, mx_nonce = next_nonce s b, mx_signed_by = q\<rparr>"
    and l: "get_listing E s i = Some l" "ls_status l = ListingActive" "e \<le> ls_expires_epoch l" "ls_seller l = q"
    and ne: "b \<noteq> q" "b \<noteq> RECYCLE_FUND_ACCOUNT" "q \<noteq> RECYCLE_FUND_ACCOUNT"
    and key: "has_posting_key s q"
    and sg: "\<forall>st k. get_account s q = Some st \<longrightarrow> role_key st ''active'' = Some k \<longrightarrow> market_signed E N M T k sig"
    and fee: "market_total_fee E T s \<le> get_balance s q NATIVE_TOKEN"
    and funds: "ls_price_hunits l \<le> get_balance s b NATIVE_TOKEN" and fits: "hone_total s < 2 ^ 64"
    and nonce: "fields_writable s b"
  shows "\<exists>s'. submit_market E N M T sig s = (Inr (), s') \<and>
    uint (get_balance s' b NATIVE_TOKEN) = uint (get_balance s b NATIVE_TOKEN) - uint (ls_price_hunits l) \<and>
    uint (get_balance s' q NATIVE_TOKEN) = uint (get_balance s q NATIVE_TOKEN) +
      uint (ls_price_hunits l) - uint (market_fee (ls_price_hunits l)) - uint (market_total_fee E T s)"
proof -
  have T': "mx_entry T = TxListingBuy i b e" "mx_signed_by T = q" "market_actor T = b" "mx_nonce T = next_nonce s b"
    by (simp_all add: T market_actor_def)
  have b: "b \<noteq> ls_seller l" using ne(1) l(4) by simp
  obtain s1 where s1: "apply_listing_buy E i b e s = (Inr (), s1)" "hone_total s1 = hone_total s"
    "\<forall>k. k \<noteq> listing_key i \<longrightarrow> state_get s1 k = state_get s k"
    "\<forall>x. uint (get_balance s1 x NATIVE_TOKEN) = uint (get_balance s x NATIVE_TOKEN) -
      (if x = b then uint (ls_price_hunits l) else 0) +
      (if x = ls_seller l then uint (ls_price_hunits l) - uint (market_fee (ls_price_hunits l)) else 0) +
      (if x = RECYCLE_FUND_ACCOUNT then uint (market_fee (ls_price_hunits l)) else 0)"
    by (rule buy_accepted [OF fits l(1-3) b funds])
  have "keeps cf_accounts (apply_listing_buy E i b e)" unfolding apply_listing_buy_def by (intro keeps_intros)
  then have "fields_writable s1 b" using nonce s1(1) by (rule fields_writable_after)
  then obtain s2 where b2: "attempt (bump_nonce b) s1 = (Inr True, s2)" "bump_nonce b s1 = (Inr (), s2)" using attempt_bump by blast
  then have s2: "attempt (bump_nonce b) s1 = (Inr True, s2)" "cf_meta s2 = cf_meta s1" "cf_balances s2 = cf_balances s1"
    using keepsD [OF keeps_bump_nonce(1)] keepsD [OF keeps_bump_nonce(3)] by metis+
  have "signer_checks E N M T sig s = (Inr (), s)" using key sg by (simp add: signer_checks_Inr T')
  then have arm: "validate_market E N M T sig s = (Inr (), s2)"
    using s1(1) s2(1) by (simp add: validate_market_def validate_owned_def validate_by_signer_def T' apply_market_def seq_apply ret_apply)
  have "''chain_param:base_fee'' \<noteq> listing_key i" by (simp add: listing_key_def)
  then have "market_total_fee E T s2 = market_total_fee E T s"
    using s1(3) s2(2) by (simp add: market_total_fee_def read_base_fee_def state_json_def state_get_def)
  moreover obtain s' where s': "when_do (market_total_fee E T s > 0) (move_fee q (market_total_fee E T s)) s2 = (Inr (), s')"
    using move_fee_result [of q "market_total_fee E T s" s2] by (cases "market_total_fee E T s > 0") (auto simp: when_do_apply)
  ultimately have run: "submit_market E N M T sig s = (Inr (), s')"
    using submitted_from_arm [OF fee [folded T'(2)] arm] T'(2) by simp
  have bal: "get_balance s2 x NATIVE_TOKEN = get_balance s1 x NATIVE_TOKEN" for x using s2(3) by (simp add: get_balance_def)
  have "uint (get_balance s q NATIVE_TOKEN) \<le> uint (get_balance s2 q NATIVE_TOKEN)"
    using bal s1(4) ne l(4) market_fee_le [of "ls_price_hunits l"] by (simp add: word_le_def)
  then have funds2: "market_total_fee E T s \<le> get_balance s2 q NATIVE_TOKEN" using fee by (simp add: word_le_def)
  have "hone_total s2 < 2 ^ 64" using fits s1(2) s2(3) by (simp add: token_supply_def)
  then have "uint (get_balance s' x NATIVE_TOKEN) = uint (get_balance s2 x NATIVE_TOKEN) -
      (if x = q then uint (market_total_fee E T s) else 0) +
      (if x = RECYCLE_FUND_ACCOUNT then uint (market_total_fee E T s) else 0)" for x
    using s' move_fee_pays [OF _ funds2, of "Inr ()" s' x] by (cases "market_total_fee E T s > 0") (auto simp: when_do_apply word_gt_0)
  with run bal s1(4) ne l(4) show ?thesis by auto
qed

definition demo_theft_chain :: chain where
  "demo_theft_chain = snd (save_listing ''l'' (demo_listing\<lparr>ls_seller := ''mallory''\<rparr>) (empty_chain\<lparr>
     cf_accounts := [
       (''alice'', jobj [(''keys'', jobj [(''active'', JStr demo_key), (''posting'', JStr demo_key)]), (''nonce'', JNum 6)]),
       (''mallory'', jobj [(''keys'', jobj [(''posting'', JStr demo_key)]), (''nonce'', JNum 0)])],
     cf_balances := [(balance_key ''alice'' NATIVE_TOKEN, 5000), (balance_key ''mallory'' NATIVE_TOKEN, 30000000)]\<rparr>))"

definition demo_theft :: market_tx where
  "demo_theft = \<lparr>mx_entry = TxListingBuy ''l'' ''alice'' 5, mx_caller = [], mx_nonce = 7, mx_signed_by = ''mallory''\<rparr>"

lemma demo_theft_facts:
  "get_listing E demo_theft_chain ''l'' = Some (demo_listing\<lparr>ls_seller := ''mallory''\<rparr>)"
  "next_nonce demo_theft_chain ''alice'' = 7" "has_posting_key demo_theft_chain ''mallory''"
  "\<forall>st k. get_account demo_theft_chain ''mallory'' = Some st \<longrightarrow> role_key st ''active'' = Some k \<longrightarrow> P st k"
  "get_balance demo_theft_chain ''alice'' NATIVE_TOKEN = 5000"
  "get_balance demo_theft_chain ''mallory'' NATIVE_TOKEN = 30000000"
  "hone_total demo_theft_chain = 30005000" "read_base_fee demo_env demo_theft_chain = 10000000"
proof -
  show "get_listing E demo_theft_chain ''l'' = Some (demo_listing\<lparr>ls_seller := ''mallory''\<rparr>)"
    unfolding demo_theft_chain_def by (rule listing_rec.peek_save [of _ _ _ "Inr ()"]) (simp add: save_record_apply)
qed (simp_all add: demo_theft_chain_def save_record_apply state_set_def act_simps next_nonce_def get_account_def kv_get_def
    account_nonce_def has_posting_key_def role_key_def demo_key_def get_balance_def token_supply_def kv_sum_def
    read_base_fee_def state_json_def state_get_def listing_key_def BASE_FEE_INITIAL_HUNITS_def empty_chain_def
    balance_key_def NATIVE_TOKEN_def supply_share_def token_of_def)

lemma demo_theft_writable: "fields_writable demo_theft_chain ''alice''"
  by (simp add: fields_writable_def demo_theft_chain_def save_record_apply state_set_def act_simps get_account_def kv_get_def jobj_def)

theorem purchase_spends_for_another_witness:
  "\<exists>s'. submit_market demo_env demo_node demo_market_node demo_theft None demo_theft_chain = (Inr (), s') \<and>
    uint (get_balance s' ''alice'' NATIVE_TOKEN) = 4000 \<and> uint (get_balance s' ''mallory'' NATIVE_TOKEN) = 980"
proof -
  let ?s = demo_theft_chain and ?l = "demo_listing\<lparr>ls_seller := ''mallory''\<rparr>"
  have T: "demo_theft = \<lparr>mx_entry = TxListingBuy ''l'' ''alice'' 5, mx_caller = [],
      mx_nonce = next_nonce ?s ''alice'', mx_signed_by = ''mallory''\<rparr>"
    by (simp add: demo_theft_def demo_theft_facts)
  have fee: "market_total_fee demo_env demo_theft ?s = 30000000"
    by (simp add: market_total_fee_def demo_theft_facts demo_theft_def market_weight_def ENTRY_WEIGHT_STANDARD_def sat_mul_def)
  have l: "ls_status ?l = ListingActive" "5 \<le> ls_expires_epoch ?l" "ls_seller ?l = ''mallory''" "ls_price_hunits ?l = 1000"
    "market_fee 1000 = 20"
    by (simp_all add: demo_listing_def market_fee_def MARKETPLACE_FEE_BPS_def)
  have "\<exists>s'. submit_market demo_env demo_node demo_market_node demo_theft None ?s = (Inr (), s') \<and>
      uint (get_balance s' ''alice'' NATIVE_TOKEN) = uint (get_balance ?s ''alice'' NATIVE_TOKEN) - uint (ls_price_hunits ?l) \<and>
      uint (get_balance s' ''mallory'' NATIVE_TOKEN) = uint (get_balance ?s ''mallory'' NATIVE_TOKEN) +
        uint (ls_price_hunits ?l) - uint (market_fee (ls_price_hunits ?l)) - uint (market_total_fee demo_env demo_theft ?s)"
    by (rule purchase_spends_for_another [OF T demo_theft_facts(1) l(1-3) _ _ _ demo_theft_facts(3,4)])
      (simp_all add: RECYCLE_FUND_ACCOUNT_def fee demo_theft_facts l(4) demo_theft_writable)
  then show ?thesis by (simp add: fee demo_theft_facts l(4,5))
qed

end
