(* ===== verification/Inference.thy ===== *)
theory Inference
  imports Identity Validation
begin

text \<open>
  The inference marketplace (\<open>inference.rs\<close>): jobs with their fee in escrow, bids, awards, completion,
  the board of verifiers with its verdicts, claims and human review, payment, cancellation, and the
  builders of the payment entries.
\<close>

section \<open>Constants\<close>

definition INFERENCE_FEE_WORKER_BPS :: u64 where "INFERENCE_FEE_WORKER_BPS = 8000"

definition INFERENCE_FEE_VERIFIER_BPS :: u64 where "INFERENCE_FEE_VERIFIER_BPS = 1500"

definition INFERENCE_FEE_RECYCLE_BPS :: u64 where "INFERENCE_FEE_RECYCLE_BPS = 500"

definition INFERENCE_FEE_WORKER_DISPUTED_BPS :: u64 where "INFERENCE_FEE_WORKER_DISPUTED_BPS = 7000"

definition INFERENCE_FEE_VERIFIER_DISPUTED_BPS :: u64 where "INFERENCE_FEE_VERIFIER_DISPUTED_BPS = 1000"

definition INFERENCE_FEE_REVIEWER_BPS :: u64 where "INFERENCE_FEE_REVIEWER_BPS = 1500"

definition INFERENCE_FEE_RECYCLE_DISPUTED_BPS :: u64 where "INFERENCE_FEE_RECYCLE_DISPUTED_BPS = 500"

definition CLAIM_WINDOW_EPOCHS :: u64 where "CLAIM_WINDOW_EPOCHS = 20"

definition MIN_REVIEW_VOTES :: u64 where "MIN_REVIEW_VOTES = 3"

definition INFERENCE_PRUNE_WINDOW_EPOCHS :: u64 where "INFERENCE_PRUNE_WINDOW_EPOCHS = 100"

definition COMPLETE_STALE_WINDOW :: u64 where "COMPLETE_STALE_WINDOW = 3"

definition INFERENCE_COMMIT_REVEAL_ENABLED :: bool where "INFERENCE_COMMIT_REVEAL_ENABLED = False"

definition VERIFIER_ASSIGNMENT_ENABLED :: bool where "VERIFIER_ASSIGNMENT_ENABLED = False"

definition VERIFIER_THRESHOLD_BYTE :: nat where "VERIFIER_THRESHOLD_BYTE = 51"

definition VERIFIER_APPROVAL_WINDOW_EPOCHS :: u64 where "VERIFIER_APPROVAL_WINDOW_EPOCHS = 100"

definition VERIFIER_ACTIVE_THRESH_3 :: u64 where "VERIFIER_ACTIVE_THRESH_3 = 5"

definition VERIFIER_ACTIVE_THRESH_5 :: u64 where "VERIFIER_ACTIVE_THRESH_5 = 15"

definition VERIFIER_VOTE_WEIGHT_NORMAL :: u64 where "VERIFIER_VOTE_WEIGHT_NORMAL = 100"

definition VERIFIER_VOTE_WEIGHT_REVIEW :: u64 where "VERIFIER_VOTE_WEIGHT_REVIEW = 101"

definition VERIFIER_RUBBER_STAMP_BPS :: u64 where "VERIFIER_RUBBER_STAMP_BPS = 9500"

definition VERIFIER_SUSPEND_BPS :: u64 where "VERIFIER_SUSPEND_BPS = 9900"

definition VERIFIER_SUSPEND_EPOCHS :: u64 where "VERIFIER_SUSPEND_EPOCHS = 20"

section \<open>State\<close>

datatype JobStatus = JobPosted | JobAwarded | JobCompleted | JobVerified | JobDisputed | JobClaimed
  | JobReviewed | JobPaid | JobRejected | JobNoFee | JobCancelled | JobExpired

record JobState =
  js_job_id :: string
  js_requester :: string
  js_model :: string
  js_mode :: string
  js_input_hash :: string
  js_max_fee :: u64
  js_min_reputation :: u64
  js_bid_window_epochs :: u64
  js_deadline_epoch :: u64
  js_posted_epoch :: u64
  js_status :: JobStatus
  js_winner :: "string option"
  js_awarded_fee :: "u64 option"
  js_verifiers :: "string list"
  js_result_hash :: "string option"
  js_latency_ms :: "u64 option"
  js_disputed_epoch :: "u64 option"
  js_claimed_epoch :: "u64 option"
  js_settled_epoch :: "u64 option"
  js_completed_epoch :: "u64 option"
  js_persist_on_fs :: bool
  js_verdicts :: "(string \<times> string) list"
  js_commits :: "(string \<times> string) list"
  js_min_verifiers :: u64
  js_node_fingerprint :: "string option"

record BidState =
  bs_job_id :: string
  bs_bidder :: string
  bs_fee :: u64
  bs_role :: string
  bs_epoch :: u64

record ReviewVote =
  rv_reviewer :: string
  rv_approved :: bool
  rv_epoch :: u64

record NodeReputation =
  nr_node_id :: string
  nr_jobs_accepted :: u64
  nr_jobs_completed :: u64
  nr_jobs_failed :: u64
  nr_total_latency_ms :: u64
  nr_score :: u64

text \<open>The variants in snake case; a pair is an array of two.\<close>

fun JobStatus_json :: "JobStatus \<Rightarrow> json" where
  "JobStatus_json JobPosted = JStr ''posted''"
| "JobStatus_json JobAwarded = JStr ''awarded''"
| "JobStatus_json JobCompleted = JStr ''completed''"
| "JobStatus_json JobVerified = JStr ''verified''"
| "JobStatus_json JobDisputed = JStr ''disputed''"
| "JobStatus_json JobClaimed = JStr ''claimed''"
| "JobStatus_json JobReviewed = JStr ''reviewed''"
| "JobStatus_json JobPaid = JStr ''paid''"
| "JobStatus_json JobRejected = JStr ''rejected''"
| "JobStatus_json JobNoFee = JStr ''no_fee''"
| "JobStatus_json JobCancelled = JStr ''cancelled''"
| "JobStatus_json JobExpired = JStr ''expired''"

definition JobStatus_of_json :: "json \<Rightarrow> JobStatus option" where
  "JobStatus_of_json j = find (\<lambda>st. JobStatus_json st = j)
     [JobPosted, JobAwarded, JobCompleted, JobVerified, JobDisputed, JobClaimed, JobReviewed, JobPaid, JobRejected,
      JobNoFee, JobCancelled, JobExpired]"

definition str_pair_json :: "string \<times> string \<Rightarrow> json" where
  "str_pair_json p = JArr [JStr (fst p), JStr (snd p)]"

fun as_str_pair :: "json \<Rightarrow> (string \<times> string) option" where
  "as_str_pair (JArr [JStr a, JStr b]) = Some (a, b)"
| "as_str_pair _ = None"

definition JobState_json :: "JobState \<Rightarrow> json" where
  "JobState_json j = jobj ([
     (''job_id'', JStr (js_job_id j)), (''requester'', JStr (js_requester j)), (''model'', JStr (js_model j)),
     (''mode'', JStr (js_mode j)), (''input_hash'', JStr (js_input_hash j)), (''max_fee'', JNum (js_max_fee j)),
     (''min_reputation'', JNum (js_min_reputation j)), (''bid_window_epochs'', JNum (js_bid_window_epochs j)),
     (''deadline_epoch'', JNum (js_deadline_epoch j)), (''posted_epoch'', JNum (js_posted_epoch j)),
     (''status'', JobStatus_json (js_status j)), (''winner'', jopt_str (js_winner j)),
     (''awarded_fee'', jopt_u64 (js_awarded_fee j)), (''verifiers'', jstrs (js_verifiers j)),
     (''result_hash'', jopt_str (js_result_hash j)), (''latency_ms'', jopt_u64 (js_latency_ms j)),
     (''disputed_epoch'', jopt_u64 (js_disputed_epoch j)), (''claimed_epoch'', jopt_u64 (js_claimed_epoch j)),
     (''settled_epoch'', jopt_u64 (js_settled_epoch j)), (''completed_epoch'', jopt_u64 (js_completed_epoch j)),
     (''persist_on_fs'', JBool (js_persist_on_fs j)), (''verdicts'', vec_json str_pair_json (js_verdicts j)),
     (''commits'', vec_json str_pair_json (js_commits j)), (''min_verifiers'', JNum (js_min_verifiers j))] @
     (case js_node_fingerprint j of Some t \<Rightarrow> [(''node_fingerprint'', JStr t)] | None \<Rightarrow> []))"

definition JobState_of_json :: "json \<Rightarrow> JobState option" where
  "JobState_of_json j =
     Option.bind (field_str j ''job_id'') (\<lambda>job_id.
     Option.bind (field_str j ''requester'') (\<lambda>requester.
     Option.bind (field_str j ''model'') (\<lambda>model.
     Option.bind (field_str j ''mode'') (\<lambda>mode.
     Option.bind (field_str j ''input_hash'') (\<lambda>input_hash.
     Option.bind (field_u64 j ''max_fee'') (\<lambda>max_fee.
     Option.bind (field_u64 j ''min_reputation'') (\<lambda>min_reputation.
     Option.bind (field_u64 j ''bid_window_epochs'') (\<lambda>bid_window_epochs.
     Option.bind (field_u64 j ''deadline_epoch'') (\<lambda>deadline_epoch.
     Option.bind (field_u64 j ''posted_epoch'') (\<lambda>posted_epoch.
     Option.bind (Option.bind (jfield j ''status'') JobStatus_of_json) (\<lambda>status.
     Option.bind (field_opt as_str j ''winner'') (\<lambda>winner.
     Option.bind (field_opt as_u64 j ''awarded_fee'') (\<lambda>awarded_fee.
     Option.bind (Option.bind (jfield j ''verifiers'') as_strs) (\<lambda>verifiers.
     Option.bind (field_opt as_str j ''result_hash'') (\<lambda>result_hash.
     Option.bind (field_opt as_u64 j ''latency_ms'') (\<lambda>latency_ms.
     Option.bind (field_opt as_u64 j ''disputed_epoch'') (\<lambda>disputed_epoch.
     Option.bind (field_opt as_u64 j ''claimed_epoch'') (\<lambda>claimed_epoch.
     Option.bind (field_opt as_u64 j ''settled_epoch'') (\<lambda>settled_epoch.
     Option.bind (field_opt as_u64 j ''completed_epoch'') (\<lambda>completed_epoch.
     Option.bind (field_default as_bool False j ''persist_on_fs'') (\<lambda>persist_on_fs.
     Option.bind (field_default (as_vec as_str_pair) [] j ''verdicts'') (\<lambda>verdicts.
     Option.bind (field_default (as_vec as_str_pair) [] j ''commits'') (\<lambda>commits.
     Option.bind (field_default as_u64 1 j ''min_verifiers'') (\<lambda>min_verifiers.
     Option.bind (field_opt as_str j ''node_fingerprint'') (\<lambda>node_fingerprint.
     Some \<lparr>js_job_id = job_id, js_requester = requester, js_model = model, js_mode = mode, js_input_hash = input_hash,
       js_max_fee = max_fee, js_min_reputation = min_reputation, js_bid_window_epochs = bid_window_epochs,
       js_deadline_epoch = deadline_epoch, js_posted_epoch = posted_epoch, js_status = status, js_winner = winner,
       js_awarded_fee = awarded_fee, js_verifiers = verifiers, js_result_hash = result_hash,
       js_latency_ms = latency_ms, js_disputed_epoch = disputed_epoch, js_claimed_epoch = claimed_epoch,
       js_settled_epoch = settled_epoch, js_completed_epoch = completed_epoch, js_persist_on_fs = persist_on_fs,
       js_verdicts = verdicts, js_commits = commits, js_min_verifiers = min_verifiers,
       js_node_fingerprint = node_fingerprint\<rparr>)))))))))))))))))))))))))"

definition BidState_json :: "BidState \<Rightarrow> json" where
  "BidState_json b = jobj [(''job_id'', JStr (bs_job_id b)), (''bidder'', JStr (bs_bidder b)), (''fee'', JNum (bs_fee b)),
     (''role'', JStr (bs_role b)), (''epoch'', JNum (bs_epoch b))]"

definition BidState_of_json :: "json \<Rightarrow> BidState option" where
  "BidState_of_json j =
     Option.bind (field_str j ''job_id'') (\<lambda>job_id.
     Option.bind (field_str j ''bidder'') (\<lambda>bidder.
     Option.bind (field_u64 j ''fee'') (\<lambda>fee.
     Option.bind (field_str j ''role'') (\<lambda>role.
     Option.bind (field_u64 j ''epoch'') (\<lambda>epoch.
     Some \<lparr>bs_job_id = job_id, bs_bidder = bidder, bs_fee = fee, bs_role = role, bs_epoch = epoch\<rparr>)))))"

definition ReviewVote_json :: "ReviewVote \<Rightarrow> json" where
  "ReviewVote_json v = jobj [(''reviewer'', JStr (rv_reviewer v)), (''approved'', JBool (rv_approved v)),
     (''epoch'', JNum (rv_epoch v))]"

definition ReviewVote_of_json :: "json \<Rightarrow> ReviewVote option" where
  "ReviewVote_of_json j =
     Option.bind (field_str j ''reviewer'') (\<lambda>reviewer.
     Option.bind (field_bool j ''approved'') (\<lambda>approved.
     Option.bind (field_u64 j ''epoch'') (\<lambda>epoch.
     Some \<lparr>rv_reviewer = reviewer, rv_approved = approved, rv_epoch = epoch\<rparr>)))"

definition NodeReputation_json :: "NodeReputation \<Rightarrow> json" where
  "NodeReputation_json r = jobj [(''node_id'', JStr (nr_node_id r)), (''jobs_accepted'', JNum (nr_jobs_accepted r)),
     (''jobs_completed'', JNum (nr_jobs_completed r)), (''jobs_failed'', JNum (nr_jobs_failed r)),
     (''total_latency_ms'', JNum (nr_total_latency_ms r)), (''score'', JNum (nr_score r))]"

definition NodeReputation_of_json :: "json \<Rightarrow> NodeReputation option" where
  "NodeReputation_of_json j =
     Option.bind (field_str j ''node_id'') (\<lambda>node_id.
     Option.bind (field_u64 j ''jobs_accepted'') (\<lambda>jobs_accepted.
     Option.bind (field_u64 j ''jobs_completed'') (\<lambda>jobs_completed.
     Option.bind (field_u64 j ''jobs_failed'') (\<lambda>jobs_failed.
     Option.bind (field_u64 j ''total_latency_ms'') (\<lambda>total_latency_ms.
     Option.bind (field_u64 j ''score'') (\<lambda>score.
     Some \<lparr>nr_node_id = node_id, nr_jobs_accepted = jobs_accepted, nr_jobs_completed = jobs_completed,
       nr_jobs_failed = jobs_failed, nr_total_latency_ms = total_latency_ms, nr_score = score\<rparr>))))))"

section \<open>Reputation\<close>

definition new_reputation :: "string \<Rightarrow> NodeReputation" where
  "new_reputation node_id = \<lparr>nr_node_id = node_id, nr_jobs_accepted = 0, nr_jobs_completed = 0, nr_jobs_failed = 0,
     nr_total_latency_ms = 0, nr_score = 5000\<rparr>"

definition recompute_score :: "NodeReputation \<Rightarrow> NodeReputation" where
  "recompute_score r =
    (if nr_jobs_accepted r = 0 then r\<lparr>nr_score := 5000\<rparr>
     else
       let completion = nr_jobs_completed r * 100 div nr_jobs_accepted r;
           avg_latency_ms = (if nr_jobs_completed r = 0 then 5000 else nr_total_latency_ms r div nr_jobs_completed r);
           latency_factor = min (5000 div max avg_latency_ms 50) 100 in
       r\<lparr>nr_score := min (completion * (50 + latency_factor)) 10000\<rparr>)"

section \<open>The board\<close>

definition auto_scale_min_verifiers :: "env \<Rightarrow> chain \<Rightarrow> u64" where
  "auto_scale_min_verifiers E s =
    (let active = (case Option.bind (state_get s ''active_verifier_count'') (as_le64 E) of Some n \<Rightarrow> n | None \<Rightarrow> 0) in
     if active \<ge> VERIFIER_ACTIVE_THRESH_5 then 5 else if active \<ge> VERIFIER_ACTIVE_THRESH_3 then 3 else 1)"

definition verdict_weight :: "string \<Rightarrow> u64 \<Rightarrow> (string \<times> string) list \<Rightarrow> u64" where
  "verdict_weight verdict w verdicts = foldl (\<lambda>n p. if snd p = verdict then n + w else n) 0 verdicts"

definition resolve_quorum_verdict :: "(string \<times> string) list \<Rightarrow> u64 \<Rightarrow> string option" where
  "resolve_quorum_verdict verdicts min_verifiers =
    (let voted = word_of_nat (length verdicts);
         approved_w = verdict_weight ''approved'' VERIFIER_VOTE_WEIGHT_NORMAL verdicts;
         rejected_w = verdict_weight ''rejected'' VERIFIER_VOTE_WEIGHT_NORMAL verdicts;
         review_w = verdict_weight ''review_required'' VERIFIER_VOTE_WEIGHT_REVIEW verdicts;
         max_swing = sat_sub min_verifiers voted * VERIFIER_VOTE_WEIGHT_REVIEW in
     if approved_w > sat_add rejected_w max_swing \<and> approved_w > sat_add review_w max_swing then Some ''approved''
     else if rejected_w > sat_add approved_w max_swing \<and> rejected_w > sat_add review_w max_swing then Some ''rejected''
     else if review_w > sat_add approved_w max_swing \<and> review_w > sat_add rejected_w max_swing
       then Some ''review_required''
     else if voted < min_verifiers then None
     else if review_w \<ge> approved_w \<and> review_w \<ge> rejected_w then Some ''review_required''
     else if approved_w \<ge> rejected_w then Some ''approved''
     else Some ''rejected'')"

section \<open>Storage\<close>

definition infer_job_key :: "string \<Rightarrow> string" where
  "infer_job_key i = ''infer_job:'' @ i"

definition infer_bid_key :: "string \<Rightarrow> string \<Rightarrow> string" where
  "infer_bid_key job_id bidder = ''infer_bid:'' @ job_id @ '':'' @ bidder"

definition node_rep_key :: "string \<Rightarrow> string" where
  "node_rep_key node_id = ''node_rep:'' @ node_id"

definition infer_votes_key :: "string \<Rightarrow> string" where
  "infer_votes_key job_id = ''infer_votes:'' @ job_id"

definition infer_get_job :: "env \<Rightarrow> chain \<Rightarrow> string \<Rightarrow> JobState option" where
  "infer_get_job E s job_id = peek E JobState_of_json s (infer_job_key job_id)"

definition set_job :: "JobState \<Rightarrow> unit chain_act" where
  "set_job j = save_record JobState_json (infer_job_key (js_job_id j)) j"

definition get_bids :: "env \<Rightarrow> chain \<Rightarrow> string \<Rightarrow> BidState list" where
  "get_bids E s job_id = List.map_filter (\<lambda>kv. Option.bind (as_json E (snd kv)) BidState_of_json)
     (state_scan_prefix s (''infer_bid:'' @ job_id @ '':''))"

definition set_bid :: "BidState \<Rightarrow> unit chain_act" where
  "set_bid b = save_record BidState_json (infer_bid_key (bs_job_id b) (bs_bidder b)) b"

definition get_reputation :: "env \<Rightarrow> chain \<Rightarrow> string \<Rightarrow> NodeReputation" where
  "get_reputation E s node_id =
    (case peek E NodeReputation_of_json s (node_rep_key node_id) of Some r \<Rightarrow> r | None \<Rightarrow> new_reputation node_id)"

definition set_reputation :: "NodeReputation \<Rightarrow> unit chain_act" where
  "set_reputation r = save_record NodeReputation_json (node_rep_key (nr_node_id r)) r"

definition get_votes :: "env \<Rightarrow> chain \<Rightarrow> string \<Rightarrow> ReviewVote list" where
  "get_votes E s job_id =
    (case peek E (as_vec ReviewVote_of_json) s (infer_votes_key job_id) of Some vs \<Rightarrow> vs | None \<Rightarrow> [])"

definition set_votes :: "string \<Rightarrow> ReviewVote list \<Rightarrow> unit chain_act" where
  "set_votes job_id votes = save_record (vec_json ReviewVote_json) (infer_votes_key job_id) votes"

definition all_jobs :: "env \<Rightarrow> chain \<Rightarrow> JobState list" where
  "all_jobs E s = List.map_filter (\<lambda>kv. Option.bind (as_json E (snd kv)) JobState_of_json)
     (state_scan_prefix s ''infer_job:'')"

definition jobs_ready_to_award :: "env \<Rightarrow> chain \<Rightarrow> u64 \<Rightarrow> JobState list" where
  "jobs_ready_to_award E s cur = filter (\<lambda>j. js_status j = JobPosted \<and>
     cur \<ge> js_posted_epoch j + js_bid_window_epochs j) (all_jobs E s)"

definition jobs_claim_expired :: "env \<Rightarrow> chain \<Rightarrow> u64 \<Rightarrow> JobState list" where
  "jobs_claim_expired E s cur = filter (\<lambda>j. js_status j = JobDisputed \<and>
     (case js_disputed_epoch j of Some de \<Rightarrow> cur > de + CLAIM_WINDOW_EPOCHS | None \<Rightarrow> False)) (all_jobs E s)"

definition jobs_past_deadline :: "env \<Rightarrow> chain \<Rightarrow> u64 \<Rightarrow> JobState list" where
  "jobs_past_deadline E s cur = filter (\<lambda>j. (js_status j = JobPosted \<or> js_status j = JobAwarded) \<and>
     cur > js_deadline_epoch j) (all_jobs E s)"

section \<open>Operations\<close>

abbreviation need_job :: "env \<Rightarrow> string \<Rightarrow> JobState chain_act" where
  "need_job E job_id \<equiv> andThen (reads (\<lambda>s. infer_get_job E s job_id)) (\<lambda>found. need found (Err ''job not found''))"

definition apply_infer_post ::
  "env \<Rightarrow> string \<Rightarrow> string \<Rightarrow> string \<Rightarrow> string \<Rightarrow> string \<Rightarrow> u64 \<Rightarrow> u64 \<Rightarrow> u64 \<Rightarrow> u64 \<Rightarrow> u64 \<Rightarrow> bool option \<Rightarrow>
   u64 option \<Rightarrow> string option \<Rightarrow> unit chain_act" where
  "apply_infer_post E job_id requester model mode input_hash max_fee min_reputation bid_window deadline epoch
     persist_on_fs requested_min_verifiers node_fingerprint =
     andThen (reads (\<lambda>s. infer_get_job E s job_id)) (\<lambda>found.
     seq (ensure (found = None) (Err ''job already exists''))
    (seq (debit requester NATIVE_TOKEN max_fee)
    (seq (credit RECYCLE_FUND_ACCOUNT NATIVE_TOKEN max_fee)
    (andThen (reads (auto_scale_min_verifiers E)) (\<lambda>auto_min.
     set_job \<lparr>js_job_id = job_id, js_requester = requester, js_model = model, js_mode = mode, js_input_hash = input_hash,
       js_max_fee = max_fee, js_min_reputation = min_reputation, js_bid_window_epochs = bid_window,
       js_deadline_epoch = deadline, js_posted_epoch = epoch, js_status = JobPosted, js_winner = None,
       js_awarded_fee = None, js_verifiers = [], js_result_hash = None, js_latency_ms = None,
       js_disputed_epoch = None, js_claimed_epoch = None, js_settled_epoch = None, js_completed_epoch = None,
       js_persist_on_fs = (case persist_on_fs of Some b \<Rightarrow> b | None \<Rightarrow> False), js_verdicts = [], js_commits = [],
       js_min_verifiers = max auto_min (case requested_min_verifiers of Some n \<Rightarrow> n | None \<Rightarrow> 0),
       js_node_fingerprint = node_fingerprint\<rparr>)))))"

definition apply_infer_bid :: "env \<Rightarrow> string \<Rightarrow> string \<Rightarrow> u64 \<Rightarrow> string \<Rightarrow> u64 \<Rightarrow> unit chain_act" where
  "apply_infer_bid E job_id bidder fee role epoch =
     andThen (need_job E job_id) (\<lambda>job.
     seq (ensure (js_status job = JobPosted) (Err ''job not open for bids''))
    (andThen (reads current_epoch) (\<lambda>cur.
     seq (ensure (\<not> cur \<ge> js_posted_epoch job + js_bid_window_epochs job) (Err ''bid window closed''))
    (seq (ensure (bidder \<noteq> js_requester job) (Err ''requester cannot bid on their own job''))
    (seq (ensure (\<not> fee > js_max_fee job) (Err ''bid fee exceeds job max_fee''))
    (seq (ensure (role \<in> set [''worker'', ''verifier'']) (Err ''bid role must be worker or verifier''))
    (andThen (reads (\<lambda>s. get_reputation E s bidder)) (\<lambda>rep.
     seq (ensure (\<not> nr_score rep < js_min_reputation job) (Err ''reputation below required''))
    (andThen (reads (\<lambda>s. state_get s (infer_bid_key job_id bidder))) (\<lambda>prev.
     seq (ensure (prev = None) (Err ''node already bid on job''))
         (set_bid \<lparr>bs_job_id = job_id, bs_bidder = bidder, bs_fee = fee, bs_role = role, bs_epoch = epoch\<rparr>)))))))))))"

definition mine_queue_key :: "string \<Rightarrow> string \<Rightarrow> string" where
  "mine_queue_key worker job_id = ''mine_queue:'' @ worker @ '':'' @ job_id"

text \<open>A counter of the reputation of a node is changed and its score recomputed.\<close>

definition amend_reputation :: "env \<Rightarrow> string \<Rightarrow> (NodeReputation \<Rightarrow> NodeReputation) \<Rightarrow> unit chain_act" where
  "amend_reputation E node_id f =
     andThen (reads (\<lambda>s. get_reputation E s node_id)) (\<lambda>rep. set_reputation (recompute_score (f rep)))"

definition award_role :: "JobState \<Rightarrow> string \<Rightarrow> string \<Rightarrow> string \<Rightarrow> u64 \<Rightarrow> JobState chain_act" where
  "award_role job job_id winner role fee =
    (if role = ''worker'' then
       seq (state_set (mine_queue_key winner job_id) (Text ''awarded''))
           (ret (job\<lparr>js_winner := Some winner, js_awarded_fee := Some fee, js_status := JobAwarded\<rparr>))
     else if role = ''verifier'' then
       seq (ensure (\<not> length (js_verifiers job) \<ge> 3) (Err ''job already has the maximum 3 verifiers''))
      (seq (ensure (winner \<notin> set (js_verifiers job)) (Err ''already a verifier for job''))
           (ret (job\<lparr>js_verifiers := js_verifiers job @ [winner]\<rparr>)))
     else bail (Err ''unknown award role''))"

definition apply_infer_award :: "env \<Rightarrow> string \<Rightarrow> string \<Rightarrow> string \<Rightarrow> u64 \<Rightarrow> unit chain_act" where
  "apply_infer_award E job_id winner role fee =
     andThen (need_job E job_id) (\<lambda>job.
     seq (ensure (js_status job = JobPosted) (Err ''job cannot be awarded''))
    (andThen (award_role job job_id winner role fee) (\<lambda>job'.
     seq (amend_reputation E winner (\<lambda>r. r\<lparr>nr_jobs_accepted := nr_jobs_accepted r + 1\<rparr>))
         (set_job job'))))"

definition apply_infer_complete :: "env \<Rightarrow> string \<Rightarrow> string \<Rightarrow> string \<Rightarrow> u64 \<Rightarrow> u64 \<Rightarrow> unit chain_act" where
  "apply_infer_complete E job_id worker result_hash latency_ms epoch =
     andThen (need_job E job_id) (\<lambda>job.
     seq (ensure (js_status job = JobAwarded) (Err ''job not in awarded state''))
    (seq (ensure (js_winner job = Some worker) (Err ''not the awarded worker for job''))
    (andThen (reads current_epoch) (\<lambda>cur.
     seq (ensure (\<not> cur > js_deadline_epoch job + COMPLETE_STALE_WINDOW) (Err ''job completion is too late''))
    (seq (amend_reputation E worker (\<lambda>r. r\<lparr>nr_jobs_completed := nr_jobs_completed r + 1,
            nr_total_latency_ms := sat_add (nr_total_latency_ms r) latency_ms\<rparr>))
    (seq (set_job (job\<lparr>js_result_hash := Some result_hash, js_latency_ms := Some latency_ms,
            js_status := JobCompleted, js_completed_epoch := Some epoch\<rparr>))
         (state_set (mine_queue_key worker job_id) (Text ''completed''))))))))"

text \<open>The statistics of a verifier in an epoch.\<close>

definition infer_verify_key :: "u64 \<Rightarrow> string \<Rightarrow> string" where
  "infer_verify_key epoch verifier = ''infer_verify:'' @ show_u64 epoch @ '':'' @ verifier"

definition count_verification :: "env \<Rightarrow> u64 \<Rightarrow> string \<Rightarrow> u64 \<Rightarrow> unit chain_act" where
  "count_verification E epoch verifier value_score =
    (let vkey = infer_verify_key epoch verifier in
     andThen (reads (\<lambda>s. state_json E s vkey)) (\<lambda>prev.
     let prev_count = (case prev of Some j \<Rightarrow> the_u64 j ''count'' 0 | None \<Rightarrow> 0);
         prev_score = (case prev of Some j \<Rightarrow> the_u64 j ''value_score_total'' 0 | None \<Rightarrow> 0) in
     state_set vkey (Json (jobj [(''verifier'', JStr verifier), (''epoch'', JNum epoch),
       (''count'', JNum (prev_count + 1)), (''value_score_total'', JNum (prev_score + value_score))]))))"

definition apply_infer_commit :: "env \<Rightarrow> string \<Rightarrow> string \<Rightarrow> string \<Rightarrow> u64 \<Rightarrow> unit chain_act" where
  "apply_infer_commit E job_id verifier commit_hash epoch =
     andThen (need_job E job_id) (\<lambda>job.
     seq (ensure (js_status job = JobCompleted) (Err ''job must be Completed to accept commits''))
    (seq (ensure (length commit_hash = 64 \<and> list_all is_hex_digit commit_hash) (Err ''commit_hash must be a 64-char hex''))
    (seq (ensure (\<not> list_ex (\<lambda>c. fst c = verifier) (js_commits job)) (Err ''verifier already committed''))
    (seq (ensure (js_verifiers job = [] \<or> verifier \<in> set (js_verifiers job)) (Err ''not an assigned verifier for job''))
    (seq (set_job (job\<lparr>js_commits := js_commits job @ [(verifier, commit_hash)]\<rparr>))
         (count_verification E epoch verifier 0))))))"

section \<open>Verdicts\<close>

definition verifier_rep_key :: "string \<Rightarrow> string" where
  "verifier_rep_key verifier = ''verifier_rep:'' @ verifier"

definition approval_counts :: "u64 \<Rightarrow> u64 \<Rightarrow> bool \<Rightarrow> u64 \<times> u64" where
  "approval_counts prev_total prev_approved approved =
    (if prev_total < VERIFIER_APPROVAL_WINDOW_EPOCHS
     then (prev_total + 1, prev_approved + (if approved then 1 else 0))
     else (prev_total, if approved then prev_approved else sat_sub prev_approved 1))"

definition approval_sanction :: "u64 \<Rightarrow> u64 \<Rightarrow> u64 \<Rightarrow> bool \<times> u64" where
  "approval_sanction n approved_count prev_suspended_until =
    (let approval_bps = (if n > 0 then approved_count * 10000 div n else 0) in
     if n \<ge> 10 then
       if approval_bps \<ge> VERIFIER_SUSPEND_BPS then (True, max prev_suspended_until (n + VERIFIER_SUSPEND_EPOCHS))
       else if approval_bps \<ge> VERIFIER_RUBBER_STAMP_BPS then (True, prev_suspended_until)
       else (False, prev_suspended_until)
     else (False, prev_suspended_until))"

definition update_verifier_approval_rate :: "env \<Rightarrow> string \<Rightarrow> bool \<Rightarrow> unit chain_act" where
  "update_verifier_approval_rate E verifier approved =
     andThen (reads (\<lambda>s. case state_json E s (verifier_rep_key verifier) of Some j \<Rightarrow> j
        | None \<Rightarrow> jobj [(''total'', JNum 0), (''approved_count'', JNum 0), (''weight_halved'', JBool False),
            (''suspended_until'', JNum 0)])) (\<lambda>vrep.
     case approval_counts (the_u64 vrep ''total'' 0) (the_u64 vrep ''approved_count'' 0) approved of
       (n, approved_count) \<Rightarrow>
     case approval_sanction n approved_count (the_u64 vrep ''suspended_until'' 0) of
       (weight_halved, suspended_until) \<Rightarrow>
     andThen (with_fields vrep [(''total'', JNum n), (''approved_count'', JNum approved_count),
         (''weight_halved'', JBool weight_halved), (''suspended_until'', JNum suspended_until)]) (\<lambda>vrep'.
     state_set (verifier_rep_key verifier) (Json vrep')))"

definition check_reveal :: "env \<Rightarrow> JobState \<Rightarrow> string \<Rightarrow> string \<Rightarrow> string option \<Rightarrow> unit chain_act" where
  "check_reveal E job verifier verdict reveal_salt =
     andThen (need (map_of (js_commits job) verifier) (Err ''must submit InferenceJobCommit before revealing'')) (\<lambda>stored.
     ensure (hex_encode E (sha256 E (verdict @ ''|'' @ (case reveal_salt of Some t \<Rightarrow> t | None \<Rightarrow> []))) = stored)
       (Err ''reveal does not match commit''))"

definition check_assignment :: "env \<Rightarrow> string \<Rightarrow> string \<Rightarrow> u64 \<Rightarrow> unit chain_act" where
  "check_assignment E job_id verifier epoch =
     andThen (reads (\<lambda>s. case state_text E s (''epoch_entropy:'' @ show_u64 epoch) of Some t \<Rightarrow> t | None \<Rightarrow> [])) (\<lambda>entropy.
     ensure (\<not> of_char (hd (sha256 E (entropy @ '':'' @ job_id @ '':'' @ verifier))) \<ge> VERIFIER_THRESHOLD_BYTE)
       (Err ''verifier not assigned to job this epoch''))"

definition settle_verdict :: "env \<Rightarrow> JobState \<Rightarrow> u64 \<Rightarrow> JobState chain_act" where
  "settle_verdict E job epoch =
    (case resolve_quorum_verdict (js_verdicts job) (js_min_verifiers job) of
       None \<Rightarrow> ret job
     | Some consensus \<Rightarrow>
         if consensus = ''approved'' then ret (job\<lparr>js_status := JobVerified\<rparr>)
         else if consensus = ''rejected'' then
           seq (case js_winner job of
                  Some winner \<Rightarrow> amend_reputation E winner (\<lambda>r. r\<lparr>nr_jobs_failed := nr_jobs_failed r + 1\<rparr>)
                | None \<Rightarrow> ret ())
               (ret (job\<lparr>js_status := JobRejected\<rparr>))
         else if consensus = ''review_required'' then
           ret (job\<lparr>js_status := JobDisputed, js_disputed_epoch := Some epoch\<rparr>)
         else ret job)"

definition apply_infer_verify ::
  "env \<Rightarrow> string \<Rightarrow> string \<Rightarrow> string \<Rightarrow> u64 \<Rightarrow> u64 \<Rightarrow> string option \<Rightarrow> unit chain_act" where
  "apply_infer_verify E job_id verifier verdict value_score epoch reveal_salt =
     andThen (need_job E job_id) (\<lambda>job.
     seq (ensure (js_status job = JobCompleted) (Err ''job not in completed state for verification''))
    (seq (ensure (js_winner job \<noteq> Some verifier) (Err ''verifier cannot verify their own job''))
    (seq (when_do INFERENCE_COMMIT_REVEAL_ENABLED (check_reveal E job verifier verdict reveal_salt))
    (andThen (reads (\<lambda>s. case state_json E s (verifier_rep_key verifier) of Some j \<Rightarrow> j | None \<Rightarrow> JNull)) (\<lambda>vrep.
     seq (ensure (\<not> the_u64 vrep ''suspended_until'' 0 > epoch) (Err ''verifier is suspended''))
    (seq (when_do VERIFIER_ASSIGNMENT_ENABLED (check_assignment E job_id verifier epoch))
    (seq (ensure (js_verifiers job = [] \<or> verifier \<in> set (js_verifiers job)) (Err ''not an assigned verifier for job''))
    (seq (ensure (\<not> list_ex (\<lambda>v. fst v = verifier) (js_verdicts job)) (Err ''verifier already submitted a verdict''))
    (seq (ensure (verdict \<in> set [''approved'', ''rejected'', ''review_required'']) (Err ''unknown verdict''))
    (andThen (settle_verdict E (job\<lparr>js_verdicts := js_verdicts job @ [(verifier, verdict)]\<rparr>) epoch) (\<lambda>job'.
     seq (set_job job')
    (seq (count_verification E epoch verifier value_score)
         (update_verifier_approval_rate E verifier (verdict = ''approved''))))))))))))))"

section \<open>Disputes\<close>

definition apply_infer_claim :: "env \<Rightarrow> string \<Rightarrow> string \<Rightarrow> u64 \<Rightarrow> unit chain_act" where
  "apply_infer_claim E job_id claimant epoch =
     andThen (need_job E job_id) (\<lambda>job.
     seq (ensure (js_status job = JobDisputed) (Err ''job is not in review_required state''))
    (seq (ensure (js_winner job = Some claimant \<or> js_requester job = claimant)
           (Err ''only the worker or requester can file a claim''))
    (seq (ensure (\<not> epoch > (case js_disputed_epoch job of Some e \<Rightarrow> e | None \<Rightarrow> 0) + CLAIM_WINDOW_EPOCHS)
           (Err ''claim window has expired''))
         (set_job (job\<lparr>js_status := JobClaimed, js_claimed_epoch := Some epoch\<rparr>)))))"

definition apply_review_vote :: "env \<Rightarrow> string \<Rightarrow> string \<Rightarrow> bool \<Rightarrow> u64 \<Rightarrow> unit chain_act" where
  "apply_review_vote E job_id reviewer approved epoch =
     andThen (need_job E job_id) (\<lambda>job.
     seq (ensure (js_status job = JobClaimed) (Err ''job is not in claimed state''))
    (andThen (reads (\<lambda>s. get_votes E s job_id)) (\<lambda>votes0.
     seq (ensure (\<not> list_ex (\<lambda>v. rv_reviewer v = reviewer) votes0) (Err ''reviewer already voted''))
    (let votes = votes0 @ [\<lparr>rv_reviewer = reviewer, rv_approved = approved, rv_epoch = epoch\<rparr>];
         approvals = length (filter rv_approved votes) in
     seq (set_votes job_id votes)
         (when_do (word_of_nat (length votes) \<ge> MIN_REVIEW_VOTES)
           (set_job (job\<lparr>js_status := (if approvals > length votes - approvals then JobReviewed else JobRejected)\<rparr>)))))))"

section \<open>Payment\<close>

record PayEntry =
  py_job_id :: string
  py_worker :: string
  py_worker_amount :: u64
  py_verifier_payments :: "(string \<times> u64) list"
  py_reviewer_payments :: "(string \<times> u64) list"
  py_recycle_amount :: u64
  py_refund_amount :: u64
  py_dissenter_slashes :: "(string \<times> u64) list"
  py_epoch :: u64

definition infer_payable :: "JobStatus \<Rightarrow> bool" where
  "infer_payable st \<longleftrightarrow> st \<in> {JobVerified, JobReviewed, JobNoFee, JobRejected, JobCompleted}"

definition total_out :: "PayEntry \<Rightarrow> u64" where
  "total_out p = py_worker_amount p + sum_list (map snd (py_verifier_payments p)) +
     sum_list (map snd (py_reviewer_payments p)) + py_recycle_amount p + py_refund_amount p"

definition slash_dissenter :: "string \<times> u64 \<Rightarrow> unit chain_act" where
  "slash_dissenter d =
     andThen (reads (\<lambda>s. get_stake s (fst d))) (\<lambda>current_stake.
     let actual_slash = min (snd d) current_stake in
     when_do (actual_slash > 0)
      (seq (set_stake (fst d) (current_stake - actual_slash))
      (seq (attempt (credit RECYCLE_FUND_ACCOUNT NATIVE_TOKEN actual_slash)) (ret ()))))"

definition apply_infer_pay :: "env \<Rightarrow> PayEntry \<Rightarrow> unit chain_act" where
  "apply_infer_pay E p =
    (let job_id = py_job_id p; epoch = py_epoch p in
     andThen (need_job E job_id) (\<lambda>job.
     seq (ensure (infer_payable (js_status job)) (Err ''job not ready for payment''))
    (seq (debit RECYCLE_FUND_ACCOUNT NATIVE_TOKEN (total_out p))
    (seq (when_do (py_worker_amount p > 0) (seq (credit (py_worker p) NATIVE_TOKEN (py_worker_amount p)) (ret ())))
    (seq (each (\<lambda>v. seq (credit (fst v) NATIVE_TOKEN (snd v)) (ret ())) (py_verifier_payments p))
    (seq (each (\<lambda>v. seq (credit (fst v) NATIVE_TOKEN (snd v)) (ret ())) (py_reviewer_payments p))
    (seq (credit RECYCLE_FUND_ACCOUNT NATIVE_TOKEN (py_recycle_amount p))
    (seq (when_do (py_refund_amount p > 0) (seq (credit (js_requester job) NATIVE_TOKEN (py_refund_amount p)) (ret ())))
    (seq (each slash_dissenter (py_dissenter_slashes p))
    (seq (set_job (job\<lparr>js_settled_epoch := Some epoch, js_status := JobPaid\<rparr>))
    (seq (when_do (\<not> js_persist_on_fs job)
           (state_set (''prune_ready:'' @ show_u64 (epoch + INFERENCE_PRUNE_WINDOW_EPOCHS) @ '':'' @ job_id) (Text job_id)))
         (when_do (py_worker_amount p > 0)
           (state_set (''fee_flow:'' @ show_u64 epoch @ '':'' @ job_id)
             (Json (jobj [(''from'', JStr (js_requester job)), (''to'', JStr (py_worker p)),
                (''amount'', JNum (py_worker_amount p))])))))))))))))))"

definition apply_infer_cancel :: "env \<Rightarrow> string \<Rightarrow> string \<Rightarrow> unit chain_act" where
  "apply_infer_cancel E job_id cancelled_by =
     andThen (need_job E job_id) (\<lambda>job.
     seq (ensure (js_status job = JobPosted \<or> js_status job = JobAwarded) (Err ''job cannot be cancelled''))
    (seq (if cancelled_by = ''system'' then ret ()
          else if cancelled_by = js_requester job then
            ensure (js_status job \<noteq> JobAwarded) (Err ''requester cannot cancel job after it has been awarded'')
          else bail (Err ''only the requester or system can cancel job''))
    (seq (debit RECYCLE_FUND_ACCOUNT NATIVE_TOKEN (js_max_fee job))
    (seq (credit (js_requester job) NATIVE_TOKEN (js_max_fee job))
    (seq (case js_winner job of
            Some winner \<Rightarrow> amend_reputation E winner (\<lambda>r. r\<lparr>nr_jobs_failed := nr_jobs_failed r + 1\<rparr>)
          | None \<Rightarrow> ret ())
         (set_job (job\<lparr>js_status := JobCancelled\<rparr>)))))))"

section \<open>Builders\<close>

text \<open>\<open>max_by_key\<close> keeps the last of equal maxima.\<close>

fun max_by_key :: "('a \<Rightarrow> u64) \<Rightarrow> 'a list \<Rightarrow> 'a option" where
  "max_by_key f [] = None"
| "max_by_key f (x # xs) =
    (case max_by_key f xs of None \<Rightarrow> Some x | Some y \<Rightarrow> if f x > f y then Some x else Some y)"

definition select_best_bid :: "env \<Rightarrow> chain \<Rightarrow> BidState list \<Rightarrow> string \<Rightarrow> BidState option" where
  "select_best_bid E s bids role =
     max_by_key (\<lambda>b. sat_mul (nr_score (get_reputation E s (bs_bidder b))) 10000 div max (bs_fee b) 1)
       (filter (\<lambda>b. bs_role b = role) bids)"

definition split_board_by_consensus :: "JobState \<Rightarrow> string \<Rightarrow> string list \<times> string list" where
  "split_board_by_consensus job consensus =
    (if js_verdicts job = [] then (js_verifiers job, [])
     else (map fst (filter (\<lambda>v. snd v = consensus) (js_verdicts job)),
           map fst (filter (\<lambda>v. snd v \<noteq> consensus) (js_verdicts job))))"

definition verifier_weight :: "env \<Rightarrow> chain \<Rightarrow> string \<Rightarrow> u64" where
  "verifier_weight E s verifier =
    (let vrep = (case state_json E s (verifier_rep_key verifier) of Some j \<Rightarrow> j | None \<Rightarrow> JNull) in
     if as_bool (jget vrep ''weight_halved'') = Some True then 50 else 100)"

definition compute_verifier_split ::
  "env \<Rightarrow> chain \<Rightarrow> string list \<Rightarrow> string list \<Rightarrow> u64 \<Rightarrow> (string \<times> u64) list \<times> (string \<times> u64) list" where
  "compute_verifier_split E s consensus_vers dissenters pool =
    (let per_head = pool div word_of_nat (max (length consensus_vers + length dissenters) 1);
         weights = map (verifier_weight E s) consensus_vers;
         total_weight = max (sum_list weights) 1 in
     (map (\<lambda>(acc, w). (acc, pool * w div total_weight)) (zip consensus_vers weights),
      map (\<lambda>acc. (acc, per_head)) dissenters))"

definition fee_share :: "u64 \<Rightarrow> u64 \<Rightarrow> u64" where
  "fee_share fee bps = fee * bps div 10000"

definition build_pay_entry_happy :: "env \<Rightarrow> chain \<Rightarrow> JobState \<Rightarrow> u64 \<Rightarrow> PayEntry option" where
  "build_pay_entry_happy E s job epoch =
     Option.bind (js_winner job) (\<lambda>worker.
     Option.bind (js_awarded_fee job) (\<lambda>fee.
     let worker_amount = fee_share fee INFERENCE_FEE_WORKER_BPS;
         verifier_pool = fee_share fee INFERENCE_FEE_VERIFIER_BPS;
         recycle_amount = fee_share fee INFERENCE_FEE_RECYCLE_BPS;
         (consensus_vers, dissenters) = split_board_by_consensus job ''approved'';
         (verifier_payments, dissenter_slashes) = compute_verifier_split E s consensus_vers dissenters verifier_pool;
         paid = worker_amount + sum_list (map snd verifier_payments) + recycle_amount in
     Some \<lparr>py_job_id = js_job_id job, py_worker = worker, py_worker_amount = worker_amount,
       py_verifier_payments = verifier_payments, py_reviewer_payments = [], py_recycle_amount = recycle_amount,
       py_refund_amount = sat_sub (js_max_fee job) paid, py_dissenter_slashes = dissenter_slashes, py_epoch = epoch\<rparr>))"

definition reviewer_shares :: "string list \<Rightarrow> u64 \<Rightarrow> (string \<times> u64) list" where
  "reviewer_shares reviewers reviewer_pool =
     map (\<lambda>r. (r, reviewer_pool div word_of_nat (max (length reviewers) 1))) reviewers"

definition build_pay_entry_disputed :: "env \<Rightarrow> chain \<Rightarrow> JobState \<Rightarrow> string list \<Rightarrow> u64 \<Rightarrow> PayEntry option" where
  "build_pay_entry_disputed E s job reviewers epoch =
     Option.bind (js_winner job) (\<lambda>worker.
     Option.bind (js_awarded_fee job) (\<lambda>fee.
     let worker_amount = fee_share fee INFERENCE_FEE_WORKER_DISPUTED_BPS;
         verifier_pool = fee_share fee INFERENCE_FEE_VERIFIER_DISPUTED_BPS;
         reviewer_pool = fee_share fee INFERENCE_FEE_REVIEWER_BPS;
         recycle_amount = fee_share fee INFERENCE_FEE_RECYCLE_DISPUTED_BPS;
         (consensus_vers, dissenters) = split_board_by_consensus job ''review_required'';
         (verifier_payments, dissenter_slashes) = compute_verifier_split E s consensus_vers dissenters verifier_pool;
         reviewer_payments = reviewer_shares reviewers reviewer_pool;
         paid = worker_amount + sum_list (map snd verifier_payments) + sum_list (map snd reviewer_payments) + recycle_amount in
     Some \<lparr>py_job_id = js_job_id job, py_worker = worker, py_worker_amount = worker_amount,
       py_verifier_payments = verifier_payments, py_reviewer_payments = reviewer_payments,
       py_recycle_amount = recycle_amount, py_refund_amount = sat_sub (js_max_fee job) paid,
       py_dissenter_slashes = dissenter_slashes, py_epoch = epoch\<rparr>))"

definition build_pay_entry_nofee :: "env \<Rightarrow> chain \<Rightarrow> JobState \<Rightarrow> string list \<Rightarrow> u64 \<Rightarrow> PayEntry" where
  "build_pay_entry_nofee E s job reviewers epoch =
    (let fee = (case js_awarded_fee job of Some f \<Rightarrow> f | None \<Rightarrow> js_max_fee job);
         verifier_pool = fee_share fee INFERENCE_FEE_VERIFIER_DISPUTED_BPS;
         reviewer_pool = (if reviewers = [] then 0 else fee_share fee INFERENCE_FEE_REVIEWER_BPS);
         recycle_amount = fee_share fee INFERENCE_FEE_RECYCLE_DISPUTED_BPS;
         (consensus_vers, dissenters) = split_board_by_consensus job ''rejected'';
         (verifier_payments, dissenter_slashes) = compute_verifier_split E s consensus_vers dissenters verifier_pool;
         reviewer_payments = reviewer_shares reviewers reviewer_pool;
         paid = sum_list (map snd verifier_payments) + sum_list (map snd reviewer_payments) + recycle_amount in
     \<lparr>py_job_id = js_job_id job, py_worker = (case js_winner job of Some w \<Rightarrow> w | None \<Rightarrow> ''__no_worker__''),
       py_worker_amount = 0, py_verifier_payments = verifier_payments, py_reviewer_payments = reviewer_payments,
       py_recycle_amount = recycle_amount, py_refund_amount = sat_sub (js_max_fee job) paid,
       py_dissenter_slashes = dissenter_slashes, py_epoch = epoch\<rparr>)"

section \<open>Entries\<close>

text \<open>The payment entry as JSON, and its records in the transaction history.\<close>

definition amount_pair_json :: "string \<times> u64 \<Rightarrow> json" where
  "amount_pair_json p = JArr [JStr (fst p), JNum (snd p)]"

definition pay_fields :: "PayEntry \<Rightarrow> (string \<times> json) list" where
  "pay_fields p =
     [(''type'', JStr ''INFERENCE_JOB_PAY''), (''job_id'', JStr (py_job_id p)), (''worker'', JStr (py_worker p)),
      (''worker_amount'', JNum (py_worker_amount p)),
      (''verifier_payments'', vec_json amount_pair_json (py_verifier_payments p)),
      (''reviewer_payments'', vec_json amount_pair_json (py_reviewer_payments p)),
      (''recycle_amount'', JNum (py_recycle_amount p)), (''refund_amount'', JNum (py_refund_amount p))] @
     (if py_dissenter_slashes p = [] then []
      else [(''dissenter_slashes'', vec_json amount_pair_json (py_dissenter_slashes p))]) @
     [(''epoch'', JNum (py_epoch p))]"

definition pay_touched :: "PayEntry \<Rightarrow> (string \<times> string) list" where
  "pay_touched p = (py_worker p, ''inference_fee'') # map (\<lambda>v. (fst v, ''verifier_fee'')) (py_verifier_payments p) @
     map (\<lambda>d. (fst d, ''dissent_slash'')) (py_dissenter_slashes p)"

definition index_pay_history :: "env \<Rightarrow> PayEntry \<Rightarrow> unit chain_act" where
  "index_pay_history E p =
    (let pre = take 8 (hex_encode E (sha256 E (json_print E (JObj (pay_fields p)))));
         rec = Json (jobj [(''epoch'', JNum (py_epoch p)), (''type'', JStr ''INFERENCE_JOB_PAY''),
                 (''entry'', jobj (pay_fields p))]) in
     seq (each (\<lambda>x. state_set (txhist_key (fst x) (py_epoch p) (snd x) pre) rec) (pay_touched p))
         (state_set (txglobal_key (py_epoch p) pre) rec))"

datatype inference_entry =
    InferenceJobPost string string string string string u64 u64 u64 u64 u64 "bool option" "u64 option" "string option"
  | InferenceJobBid string string u64 string u64
  | InferenceJobAward string string string u64
  | InferenceJobComplete string string string u64 u64
  | InferenceJobCommit string string string u64
  | InferenceJobVerify string string string u64 u64 "string option"
  | InferenceJobClaim string string u64
  | InferenceReviewVote string string bool u64
  | InferenceJobPay PayEntry
  | InferenceJobCancel string string

fun apply_inference_entry :: "env \<Rightarrow> inference_entry \<Rightarrow> unit chain_act" where
  "apply_inference_entry E (InferenceJobPost job_id requester model mode input_hash max_fee min_reputation bid_window
     deadline epoch persist_on_fs min_verifiers node_fingerprint) =
     apply_infer_post E job_id requester model mode input_hash max_fee min_reputation bid_window deadline epoch
       persist_on_fs min_verifiers node_fingerprint"
| "apply_inference_entry E (InferenceJobBid job_id bidder fee role epoch) = apply_infer_bid E job_id bidder fee role epoch"
| "apply_inference_entry E (InferenceJobAward job_id winner role fee) = apply_infer_award E job_id winner role fee"
| "apply_inference_entry E (InferenceJobComplete job_id worker result_hash latency_ms epoch) =
     apply_infer_complete E job_id worker result_hash latency_ms epoch"
| "apply_inference_entry E (InferenceJobCommit job_id verifier commit_hash epoch) =
     apply_infer_commit E job_id verifier commit_hash epoch"
| "apply_inference_entry E (InferenceJobVerify job_id verifier verdict value_score epoch reveal_salt) =
     apply_infer_verify E job_id verifier verdict value_score epoch reveal_salt"
| "apply_inference_entry E (InferenceJobClaim job_id claimant epoch) = apply_infer_claim E job_id claimant epoch"
| "apply_inference_entry E (InferenceReviewVote job_id reviewer approved epoch) =
     apply_review_vote E job_id reviewer approved epoch"
| "apply_inference_entry E (InferenceJobPay p) = seq (apply_infer_pay E p) (index_pay_history E p)"
| "apply_inference_entry E (InferenceJobCancel job_id cancelled_by) = apply_infer_cancel E job_id cancelled_by"

fun run_inference :: "env \<Rightarrow> inference_entry list \<Rightarrow> chain \<Rightarrow> chain" where
  "run_inference E [] s = s"
| "run_inference E (x # xs) s = run_inference E xs (snd (apply_inference_entry E x s))"

section \<open>Records\<close>

lemma JobStatus_roundtrip: "JobStatus_of_json (JobStatus_json st) = Some st"
  by (cases st) (simp_all add: JobStatus_of_json_def)

interpretation str_pairs: record_codec str_pair_json as_str_pair
  by unfold_locales (simp add: str_pair_json_def)

interpretation review_votes: record_codec ReviewVote_json ReviewVote_of_json
  by unfold_locales (simp add: ReviewVote_of_json_def ReviewVote_json_def field_defs)

interpretation bids: record_codec BidState_json BidState_of_json
  by unfold_locales (simp add: BidState_of_json_def BidState_json_def field_defs)

interpretation reputations: record_codec NodeReputation_json NodeReputation_of_json
  by unfold_locales (simp add: NodeReputation_of_json_def NodeReputation_json_def field_defs)

interpretation infer_jobs: record_codec JobState_json JobState_of_json
proof
  fix j
  show "JobState_of_json (JobState_json j) = Some j"
    by (cases "js_node_fingerprint j")
      (simp_all add: JobState_of_json_def JobState_json_def field_str_def field_u64_def field_default_def
        JobStatus_roundtrip str_pairs.as_vec_json, simp_all add: field_opt_def)
qed

end
