(* ===== verification/InferenceJobs.thy ===== *)
theory InferenceJobs
  imports Inference
begin

text \<open>
  Facts about the inference marketplace: what a board decides, the life cycle of a job, value, and what
  the payment entries distribute.
\<close>

section \<open>The verdict of a board\<close>

definition verdicts_for :: "string \<Rightarrow> (string \<times> string) list \<Rightarrow> nat" where
  "verdicts_for v vs = length (filter (\<lambda>p. snd p = v) vs)"

text \<open>The verdict with the greatest weight, review before approval before rejection.\<close>

definition board_verdict :: "(string \<times> string) list \<Rightarrow> string" where
  "board_verdict vs =
    (let a = 100 * verdicts_for ''approved'' vs; r = 100 * verdicts_for ''rejected'' vs;
         v = 101 * verdicts_for ''review_required'' vs in
     if v \<ge> a \<and> v \<ge> r then ''review_required'' else if a \<ge> r then ''approved'' else ''rejected'')"

lemma verdicts_for_append: "verdicts_for v (vs @ ws) = verdicts_for v vs + verdicts_for v ws"
  by (simp add: verdicts_for_def)

lemma verdicts_for_le: "verdicts_for v vs \<le> length vs"
  by (simp add: verdicts_for_def)

lemma unat_verdict_weight:
  assumes "unat w * length vs < 2 ^ 64"
  shows "unat (verdict_weight v w vs) = unat w * verdicts_for v vs"
  using assms
proof (induction vs rule: rev_induct)
  case Nil
  then show ?case by (simp add: verdict_weight_def verdicts_for_def)
next
  case (snoc p vs)
  have step: "verdict_weight v w (vs @ [p]) = (if snd p = v then verdict_weight v w vs + w else verdict_weight v w vs)"
    by (simp add: verdict_weight_def)
  have ih: "unat (verdict_weight v w vs) = unat w * verdicts_for v vs" using snoc by simp
  have "unat w * verdicts_for v vs \<le> unat w * length vs" by (intro mult_le_mono2 verdicts_for_le)
  moreover have "unat w * length vs + unat w < 2 ^ 64" using snoc.prems by simp
  ultimately have "unat (verdict_weight v w vs) + unat w < 2 ^ 64" using ih by linarith
  then show ?case
    using ih by (simp add: step verdicts_for_append unat_u64_add) (simp add: verdicts_for_def)
qed

lemma resolve_unat:
  fixes m :: u64
  defines "A vs \<equiv> 100 * verdicts_for ''approved'' vs" and "R vs \<equiv> 100 * verdicts_for ''rejected'' vs"
    and "V vs \<equiv> 101 * verdicts_for ''review_required'' vs" and "swing vs \<equiv> (unat m - length vs) * 101"
  assumes len: "length vs \<le> unat m" and m: "202 * unat m < 2 ^ 64"
  shows "resolve_quorum_verdict vs m =
    (if A vs > R vs + swing vs \<and> A vs > V vs + swing vs then Some ''approved''
     else if R vs > A vs + swing vs \<and> R vs > V vs + swing vs then Some ''rejected''
     else if V vs > A vs + swing vs \<and> V vs > R vs + swing vs then Some ''review_required''
     else if length vs < unat m then None
     else Some (board_verdict vs))"
proof -
  have b: "verdicts_for v vs \<le> unat m" for v using verdicts_for_le [of v vs] len by linarith
  let ?a = "verdict_weight ''approved'' 100 vs" and ?r = "verdict_weight ''rejected'' 100 vs"
    and ?v = "verdict_weight ''review_required'' 101 vs" and ?n = "word_of_nat (length vs) :: u64"
  have w: "unat ?a = A vs" "unat ?r = R vs" "unat ?v = V vs"
    using len m by (simp_all add: unat_verdict_weight A_def R_def V_def)
  have n: "unat ?n = length vs" by (rule unat_u64_of_nat) (use len m in simp)
  have sub: "unat (sat_sub m ?n) = unat m - length vs" by (simp add: unat_sat_sub n)
  have sw: "unat (sat_sub m ?n * 101) = swing vs"
    unfolding swing_def using m by (simp add: unat_u64_mult sub)
  have bound: "A vs \<le> 101 * unat m" "R vs \<le> 101 * unat m" "V vs \<le> 101 * unat m" "swing vs \<le> 101 * unat m"
    using b [of "''approved''"] b [of "''rejected''"] b [of "''review_required''"]
    by (simp_all add: A_def R_def V_def swing_def)
  have add: "unat (sat_add x (sat_sub m ?n * 101)) = unat x + swing vs" if "unat x \<le> 101 * unat m" for x
    using that bound(4) m by (simp add: unat_sat_add sw)
  show ?thesis
    unfolding resolve_quorum_verdict_def Let_def VERIFIER_VOTE_WEIGHT_NORMAL_def VERIFIER_VOTE_WEIGHT_REVIEW_def board_verdict_def
      u64_less_iff u64_le_iff
    using w bound n by (simp add: add A_def R_def V_def)
qed

text \<open>
  (C35) An early verdict of a board is its final one. Let a board of \<open>m\<close> verifiers be complete. It decides for the
  verdict of greatest weight, and whatever was decided after some of the votes is that verdict: the
  remaining votes could not have changed it.
\<close>

theorem early_verdict_final:
  assumes "length (vs @ ws) = unat m" and "202 * unat m < 2 ^ 64"
  shows "resolve_quorum_verdict (vs @ ws) m = Some (board_verdict (vs @ ws)) \<and>
    resolve_quorum_verdict vs m \<in> {None, Some (board_verdict (vs @ ws))}"
proof -
  let ?c = "\<lambda>v. verdicts_for v vs" and ?d = "\<lambda>v. verdicts_for v ws"
  have d: "?d v \<le> length ws" for v by (rule verdicts_for_le)
  have full: "resolve_quorum_verdict (vs @ ws) m = Some (board_verdict (vs @ ws))"
    using assms by (subst resolve_unat) (auto simp: board_verdict_def Let_def)
  have rem: "unat m - length vs = length ws" using assms(1) by simp
  have "resolve_quorum_verdict vs m \<in> {None, Some (board_verdict (vs @ ws))}"
  proof (cases "ws = []")
    case False
    then have part: "length vs < unat m" "length vs \<le> unat m" using assms(1) by (cases ws; simp)+
    show ?thesis
      using d [of "''approved''"] d [of "''rejected''"] d [of "''review_required''"] part
      unfolding resolve_unat [OF part(2) assms(2)] board_verdict_def Let_def verdicts_for_append rem by auto
  qed (use full in simp)
  with full show ?thesis by blast
qed

theorem early_verdict_final_witness:
  "resolve_quorum_verdict [(''a'', ''approved''), (''b'', ''approved''), (''c'', ''approved'')] 3 = Some ''approved'' \<and>
    resolve_quorum_verdict [(''a'', ''approved''), (''b'', ''approved'')] 3 = Some ''approved''"
proof -
  let ?vs = "[(''a'', ''approved''), (''b'', ''approved'')]" and ?ws = "[(''c'', ''approved'')]"
  have "board_verdict (?vs @ ?ws) = ''approved''" by (simp add: board_verdict_def verdicts_for_def)
  moreover have "resolve_quorum_verdict ?vs 3 \<noteq> None"
    by (subst resolve_unat) (simp_all add: verdicts_for_def)
  ultimately show ?thesis using early_verdict_final [of ?vs ?ws 3] by (auto simp del: not_None_eq)
qed

section \<open>The life cycle of a job\<close>

definition board_outcome :: "JobState \<Rightarrow> u64 \<Rightarrow> JobState" where
  "board_outcome j e =
    (case resolve_quorum_verdict (js_verdicts j) (js_min_verifiers j) of
       None \<Rightarrow> j
     | Some d \<Rightarrow> if d = ''approved'' then j\<lparr>js_status := JobVerified\<rparr>
         else if d = ''rejected'' then j\<lparr>js_status := JobRejected\<rparr>
         else if d = ''review_required'' then j\<lparr>js_status := JobDisputed, js_disputed_epoch := Some e\<rparr> else j)"

inductive job_move :: "JobState \<Rightarrow> JobState \<Rightarrow> bool" where
  award: "js_status j = JobPosted \<Longrightarrow>
    job_move j (j\<lparr>js_winner := Some w, js_awarded_fee := Some f, js_status := JobAwarded\<rparr>)"
| assign: "js_status j = JobPosted \<Longrightarrow> v \<notin> set (js_verifiers j) \<Longrightarrow> length (js_verifiers j) < 3 \<Longrightarrow>
    job_move j (j\<lparr>js_verifiers := js_verifiers j @ [v]\<rparr>)"
| complete: "js_status j = JobAwarded \<Longrightarrow> js_winner j = Some w \<Longrightarrow>
    job_move j (j\<lparr>js_result_hash := Some h, js_latency_ms := Some l, js_status := JobCompleted, js_completed_epoch := Some e\<rparr>)"
| commit: "js_status j = JobCompleted \<Longrightarrow> v \<notin> fst ` set (js_commits j) \<Longrightarrow>
    job_move j (j\<lparr>js_commits := js_commits j @ [(v, h)]\<rparr>)"
| verdict: "js_status j = JobCompleted \<Longrightarrow> js_winner j \<noteq> Some v \<Longrightarrow> v \<notin> fst ` set (js_verdicts j) \<Longrightarrow>
    job_move j (board_outcome (j\<lparr>js_verdicts := js_verdicts j @ [(v, d)]\<rparr>) e)"
| claim: "js_status j = JobDisputed \<Longrightarrow> js_winner j = Some c \<or> js_requester j = c \<Longrightarrow>
    e \<le> (case js_disputed_epoch j of Some d \<Rightarrow> d | None \<Rightarrow> 0) + CLAIM_WINDOW_EPOCHS \<Longrightarrow>
    job_move j (j\<lparr>js_status := JobClaimed, js_claimed_epoch := Some e\<rparr>)"
| review: "js_status j = JobClaimed \<Longrightarrow> st \<in> {JobReviewed, JobRejected} \<Longrightarrow> job_move j (j\<lparr>js_status := st\<rparr>)"
| pay: "infer_payable (js_status j) \<Longrightarrow> job_move j (j\<lparr>js_settled_epoch := Some e, js_status := JobPaid\<rparr>)"
| cancel: "js_status j = JobPosted \<or> js_status j = JobAwarded \<Longrightarrow> job_move j (j\<lparr>js_status := JobCancelled\<rparr>)"

lemma board_outcome_simps [simp]:
  "js_job_id (board_outcome j e) = js_job_id j" "js_requester (board_outcome j e) = js_requester j"
  "js_max_fee (board_outcome j e) = js_max_fee j" "js_verifiers (board_outcome j e) = js_verifiers j"
  by (auto simp: board_outcome_def split: option.split)

lemma job_move_fixed:
  "job_move j j' \<Longrightarrow> js_job_id j' = js_job_id j \<and> js_requester j' = js_requester j \<and> js_max_fee j' = js_max_fee j"
  by (induction rule: job_move.induct) auto

lemma job_move_final: "job_move j j' \<Longrightarrow> js_status j \<noteq> JobPaid \<and> js_status j \<noteq> JobCancelled"
  by (induction rule: job_move.induct) (auto simp: infer_payable_def)

text \<open>
  An action tracks the job \<open>i\<close> when it leaves all job records as they are, or replaces the record of \<open>i\<close>, if that is \<open>j\<close>, as
  the predicate allows; this on success and on failure.
\<close>

definition tracks :: "env \<Rightarrow> string \<Rightarrow> JobState option \<Rightarrow> (JobState \<Rightarrow> bool) \<Rightarrow> 'a chain_act \<Rightarrow> bool" where
  "tracks E i j R m \<longleftrightarrow> (\<forall>s r s'. infer_get_job E s i = j \<longrightarrow> m s = (r, s') \<longrightarrow>
     infer_get_job E s' = infer_get_job E s \<or> (\<exists>j'. R j' \<and> infer_get_job E s' = (infer_get_job E s)(i \<mapsto> j')))"

named_theorems tracks_intros "actions that track a job"

lemma tracks_keep: "keeps (infer_get_job E) m \<Longrightarrow> tracks E i j R m"
  unfolding tracks_def by (metis keepsD)

lemma tracks_bail [tracks_intros]: "tracks E i j R (bail e)"
  by (rule tracks_keep [OF keeps_bail])

lemma tracks_ret [tracks_intros]: "tracks E i j R (ret x)"
  by (rule tracks_keep [OF keeps_ret])

lemma tracks_bind:
  assumes k: "keeps (infer_get_job E) m" and n: "\<And>s x s'. m s = (Inr x, s') \<Longrightarrow> tracks E i j R (n x)"
  shows "tracks E i j R (andThen m n)"
  unfolding tracks_def
proof (intro allI impI)
  fix s r s'
  assume j: "infer_get_job E s i = j" and run: "andThen m n s = (r, s')"
  obtain y t where m: "m s = (y, t)" by (cases "m s")
  have same: "infer_get_job E t = infer_get_job E s" using keepsD [OF k m] .
  show "infer_get_job E s' = infer_get_job E s \<or> (\<exists>j'. R j' \<and> infer_get_job E s' = (infer_get_job E s)(i \<mapsto> j'))"
  proof (cases y)
    case (Inl e)
    with run m same show ?thesis by (simp add: andThen_apply)
  next
    case (Inr x)
    with run m have "n x t = (r, s')" by (simp add: andThen_apply)
    with n [OF m [unfolded Inr]] j same show ?thesis unfolding tracks_def by metis
  qed
qed

lemma tracks_seq [tracks_intros]: "keeps (infer_get_job E) m \<Longrightarrow> tracks E i j R n \<Longrightarrow> tracks E i j R (seq m n)"
  unfolding seq_def by (rule tracks_bind)

lemma tracks_ensure: "(P \<Longrightarrow> tracks E i j R n) \<Longrightarrow> tracks E i j R (seq (ensure P e) n)"
  unfolding seq_def by (rule tracks_bind [OF keeps_ensure]) (auto simp: ensure_apply split: if_splits)

lemma tracks_reads: "(\<And>x. tracks E i j R (n x)) \<Longrightarrow> tracks E i j R (andThen (reads f) n)"
  by (rule tracks_bind [OF keeps_reads])

lemma set_job_directory:
  "infer_get_job E (snd (set_job j s)) = (infer_get_job E s)(js_job_id j \<mapsto> j)"
proof
  fix b
  obtain s' where sv: "save_record JobState_json (infer_job_key (js_job_id j)) j s = (Inr (), s')" by (simp add: save_record_apply)
  show "infer_get_job E (snd (set_job j s)) b = ((infer_get_job E s)(js_job_id j \<mapsto> j)) b"
    using sv infer_jobs.peek_save [OF sv] peek_save_other [OF sv, of "infer_job_key b"]
    by (cases "b = js_job_id j") (simp_all add: set_job_def infer_get_job_def infer_job_key_def)
qed

lemma tracks_set: "js_job_id j' = i \<Longrightarrow> R j' \<Longrightarrow> tracks E i j R (set_job j')"
  unfolding tracks_def by (metis set_job_directory snd_conv)

lemma tracks_set_seq:
  assumes "js_job_id j' = i" "R j'" and n: "keeps (infer_get_job E) n"
  shows "tracks E i j R (seq (set_job j') n)"
  unfolding tracks_def
proof (intro allI impI)
  fix s r s'
  assume run: "seq (set_job j') n s = (r, s')"
  obtain t where t: "set_job j' s = (Inr (), t)" by (simp add: set_job_def save_record_apply)
  have "infer_get_job E t = (infer_get_job E s)(i \<mapsto> j')" using set_job_directory [of E j' s] t assms(1) by simp
  moreover have "infer_get_job E s' = infer_get_job E t"
    using run t keepsD [OF n, of t r s'] by (simp add: seq_apply)
  ultimately show "infer_get_job E s' = infer_get_job E s \<or> (\<exists>j'. R j' \<and> infer_get_job E s' = (infer_get_job E s)(i \<mapsto> j'))"
    using assms(2) by auto
qed

lemma keeps_jobs_meta: "keeps cf_meta m \<Longrightarrow> keeps (infer_get_job E) m"
  by (auto simp: keeps_def infer_get_job_def peek_state_get state_get_def fun_eq_iff)

lemma keeps_jobs_set:
  assumes "\<not> prefix ''infer_job:'' k"
  shows "keeps (infer_get_job E) (state_set k v)"
proof -
  have "k \<noteq> infer_job_key i" for i using assms by (auto simp: infer_job_key_def)
  then show ?thesis
    by (auto simp: keeps_def infer_get_job_def peek_state_get state_set_def state_get_def act_simps fun_eq_iff)
qed

lemma keeps_jobs_save: "\<not> prefix ''infer_job:'' k \<Longrightarrow> keeps (infer_get_job E) (save_record wr k r)"
  unfolding save_record_def by (rule keeps_jobs_set)

lemma keeps_jobs_count: "keeps (infer_get_job E) (count_verification E e v n)"
  unfolding count_verification_def Let_def infer_verify_key_def
  by (intro keeps_andThen keeps_reads keeps_jobs_set) simp

lemma keeps_jobs_reputation: "keeps (infer_get_job E) (amend_reputation E a f)"
  unfolding amend_reputation_def set_reputation_def node_rep_key_def
  by (intro keeps_andThen keeps_reads keeps_jobs_save) simp

lemma keeps_jobs_approval: "keeps (infer_get_job E) (update_verifier_approval_rate E v b)"
  unfolding update_verifier_approval_rate_def
  by (auto simp: verifier_rep_key_def split: prod.split intro!: keeps_intros keeps_jobs_set)

lemmas keeps_jobs = keeps_jobs_count keeps_jobs_reputation keeps_jobs_approval keeps_jobs_set keeps_jobs_save
  keeps_jobs_meta [OF keeps_credit(3)] keeps_jobs_meta [OF keeps_debit(3)] keeps_jobs_meta [OF keeps_meta_writes(3)]

lemma keeps_jobs_slash: "keeps (infer_get_job E) (slash_dissenter d)"
  unfolding slash_dissenter_def Let_def
  by (intro keeps_intros keeps_jobs)

lemma keeps_jobs_checks:
  "keeps (infer_get_job E) (check_reveal E j v d t)" "keeps (infer_get_job E) (check_assignment E i v e)"
  unfolding check_reveal_def check_assignment_def by (intro keeps_intros)+

subsection \<open>Every operation moves one job\<close>

definition jobs_named :: "env \<Rightarrow> chain \<Rightarrow> bool" where
  "jobs_named E s \<longleftrightarrow> (\<forall>i j. infer_get_job E s i = Some j \<longrightarrow> js_job_id j = i)"

inductive infer_step :: "env \<Rightarrow> string \<Rightarrow> chain \<Rightarrow> chain \<Rightarrow> bool" for E i where
  idle: "infer_get_job E s' = infer_get_job E s \<Longrightarrow> infer_step E i s s'"
| post: "infer_get_job E s i = None \<Longrightarrow> js_job_id j = i \<Longrightarrow> js_status j = JobPosted \<Longrightarrow>
    infer_get_job E s' = (infer_get_job E s)(i \<mapsto> j) \<Longrightarrow> infer_step E i s s'"
| move: "infer_get_job E s i = Some j \<Longrightarrow> job_move j j' \<Longrightarrow>
    infer_get_job E s' = (infer_get_job E s)(i \<mapsto> j') \<Longrightarrow> infer_step E i s s'"

lemma job_step_need:
  assumes n: "\<And>j. js_job_id j = i \<Longrightarrow> tracks E i (Some j) (job_move j) (n j)"
    and "jobs_named E s" and run: "andThen (need_job E i) n s = (r, s')"
  shows "infer_step E i s s'"
proof (cases "infer_get_job E s i")
  case None
  with run show ?thesis by (auto simp: act_simps intro: infer_step.idle)
next
  case (Some j)
  have "js_job_id j = i" using assms(2) Some by (auto simp: jobs_named_def)
  moreover have "n j s = (r, s')" using run Some by (simp add: act_simps)
  ultimately have "infer_get_job E s' = infer_get_job E s \<or>
      (\<exists>j'. job_move j j' \<and> infer_get_job E s' = (infer_get_job E s)(i \<mapsto> j'))"
    using n Some unfolding tracks_def by blast
  then show ?thesis using Some by (auto intro: infer_step.intros)
qed

lemma tracks_settle:
  assumes n: "tracks E i j R (n (board_outcome k e))"
  shows "tracks E i j R (andThen (settle_verdict E k e) n)"
proof (rule tracks_bind)
  show "keeps (infer_get_job E) (settle_verdict E k e)"
    unfolding settle_verdict_def by (auto split: option.split intro!: keeps_intros keeps_jobs)
  fix s x s'
  assume "settle_verdict E k e s = (Inr x, s')"
  then have "x = board_outcome k e"
    by (auto simp: settle_verdict_def board_outcome_def act_simps split: option.splits if_splits sum.splits prod.splits)
  with n show "tracks E i j R (n x)" by simp
qed

lemma tracks_award:
  assumes "role = ''worker'' \<Longrightarrow> tracks E i j R (n (k\<lparr>js_winner := Some w, js_awarded_fee := Some f, js_status := JobAwarded\<rparr>))"
    and "role = ''verifier'' \<Longrightarrow> length (js_verifiers k) < 3 \<Longrightarrow> w \<notin> set (js_verifiers k) \<Longrightarrow>
      tracks E i j R (n (k\<lparr>js_verifiers := js_verifiers k @ [w]\<rparr>))"
  shows "tracks E i j R (andThen (award_role k i w role f) n)"
proof (rule tracks_bind)
  show "keeps (infer_get_job E) (award_role k i w role f)"
    unfolding award_role_def mine_queue_key_def by (auto intro!: keeps_intros keeps_jobs)
  fix s x s'
  assume "award_role k i w role f s = (Inr x, s')"
  with assms show "tracks E i j R (n x)"
    by (auto simp: award_role_def act_simps state_set_def split: if_splits)
qed

lemma tracks_when: "(b \<Longrightarrow> tracks E i j R m) \<Longrightarrow> tracks E i j R (when_do b m)"
  by (simp add: when_do_def tracks_ret)

lemma job_step_award: "jobs_named E s \<Longrightarrow> apply_infer_award E i w role f s = (r, s') \<Longrightarrow> infer_step E i s s'"
  unfolding apply_infer_award_def
  by (erule (1) job_step_need [rotated])
    (intro tracks_ensure tracks_award tracks_seq keeps_jobs tracks_set job_move.intros | simp)+

lemma job_step_complete: "jobs_named E s \<Longrightarrow> apply_infer_complete E i w h l e s = (r, s') \<Longrightarrow> infer_step E i s s'"
  unfolding apply_infer_complete_def mine_queue_key_def
  by (erule (1) job_step_need [rotated])
    (intro tracks_ensure tracks_reads tracks_seq keeps_jobs tracks_set_seq job_move.intros | simp)+

lemma job_step_commit: "jobs_named E s \<Longrightarrow> apply_infer_commit E i v h e s = (r, s') \<Longrightarrow> infer_step E i s s'"
  unfolding apply_infer_commit_def
  by (erule (1) job_step_need [rotated])
    (intro tracks_ensure tracks_set_seq keeps_jobs job_move.intros | force simp: list_ex_iff)+

lemma job_step_verify: "jobs_named E s \<Longrightarrow> apply_infer_verify E i v d n e t s = (r, s') \<Longrightarrow> infer_step E i s s'"
  unfolding apply_infer_verify_def
  by (erule (1) job_step_need [rotated])
    (intro tracks_ensure tracks_reads tracks_settle tracks_set_seq tracks_seq keeps_jobs keeps_jobs_checks keeps_when_do
      keeps_seq job_move.intros | force simp: list_ex_iff)+

lemma job_step_claim: "jobs_named E s \<Longrightarrow> apply_infer_claim E i c e s = (r, s') \<Longrightarrow> infer_step E i s s'"
  unfolding apply_infer_claim_def
  by (erule (1) job_step_need [rotated]) (intro tracks_ensure tracks_set job_move.intros | simp add: not_less)+

lemma job_step_review: "jobs_named E s \<Longrightarrow> apply_review_vote E i v b e s = (r, s') \<Longrightarrow> infer_step E i s s'"
  unfolding apply_review_vote_def Let_def set_votes_def infer_votes_key_def
  by (erule (1) job_step_need [rotated])
    (intro tracks_ensure tracks_reads tracks_seq keeps_jobs tracks_when tracks_set job_move.intros | simp)+

lemma job_step_pay: "jobs_named E s \<Longrightarrow> apply_infer_pay E p s = (r, s') \<Longrightarrow> infer_step E (py_job_id p) s s'"
  unfolding apply_infer_pay_def Let_def
  by (erule (1) job_step_need [rotated])
    (intro tracks_ensure tracks_set_seq tracks_seq keeps_intros keeps_jobs keeps_jobs_slash job_move.intros | simp)+

lemma job_step_cancel: "jobs_named E s \<Longrightarrow> apply_infer_cancel E i c s = (r, s') \<Longrightarrow> infer_step E i s s'"
  unfolding apply_infer_cancel_def
  by (erule (1) job_step_need [rotated])
    (intro tracks_ensure tracks_set tracks_seq keeps_option keeps_if keeps_intros keeps_jobs job_move.intros | simp split: option.split)+

lemma job_step_post:
  assumes "apply_infer_post E i a m md h f n w d e p v g s = (r, s')"
  shows "infer_step E i s s'"
proof (cases "infer_get_job E s i")
  case None
  have "tracks E i None (\<lambda>j. js_job_id j = i \<and> js_status j = JobPosted)
      (apply_infer_post E i a m md h f n w d e p v g)"
    unfolding apply_infer_post_def
    by (intro tracks_ensure tracks_reads tracks_set tracks_seq keeps_jobs | simp)+
  with assms None show ?thesis unfolding tracks_def by (blast intro: infer_step.idle infer_step.post)
next
  case (Some j)
  with assms show ?thesis by (auto simp: apply_infer_post_def act_simps intro: infer_step.idle)
qed

lemma job_step_bid: "apply_infer_bid E i b f role e s = (r, s') \<Longrightarrow> infer_step E i s s'"
  by (rule infer_step.idle, erule keepsD [rotated], unfold apply_infer_bid_def set_bid_def infer_bid_key_def)
    (intro keeps_intros keeps_jobs; simp)

lemma keeps_jobs_history: "keeps (infer_get_job E) (index_pay_history E p)"
  unfolding index_pay_history_def Let_def txhist_key_def txglobal_key_def
  by (intro keeps_intros keeps_jobs; simp)

lemma job_step_paid:
  assumes "jobs_named E s" and run: "seq (apply_infer_pay E p) (index_pay_history E p) s = (r, s')"
  shows "infer_step E (py_job_id p) s s'"
proof -
  obtain y t where p: "apply_infer_pay E p s = (y, t)" by (cases "apply_infer_pay E p s")
  note st = job_step_pay [OF assms(1) p]
  show ?thesis
  proof (cases y)
    case (Inl e)
    with run p st show ?thesis by (simp add: seq_apply)
  next
    case (Inr u)
    with run p have "index_pay_history E p t = (r, s')" by (simp add: seq_apply)
    from keepsD [OF keeps_jobs_history this] st show ?thesis by (auto simp: infer_step.simps)
  qed
qed

lemmas job_steps = job_step_award job_step_complete job_step_commit job_step_verify
  job_step_claim job_step_review job_step_paid job_step_cancel

fun entry_job :: "inference_entry \<Rightarrow> string" where
  "entry_job (InferenceJobPost i _ _ _ _ _ _ _ _ _ _ _ _) = i"
| "entry_job (InferenceJobBid i _ _ _ _) = i"
| "entry_job (InferenceJobAward i _ _ _) = i"
| "entry_job (InferenceJobComplete i _ _ _ _) = i"
| "entry_job (InferenceJobCommit i _ _ _) = i"
| "entry_job (InferenceJobVerify i _ _ _ _ _) = i"
| "entry_job (InferenceJobClaim i _ _) = i"
| "entry_job (InferenceReviewVote i _ _ _) = i"
| "entry_job (InferenceJobPay p) = py_job_id p"
| "entry_job (InferenceJobCancel i _) = i"

lemma entry_job_step:
  assumes "jobs_named E s"
  shows "infer_step E (entry_job x) s (snd (apply_inference_entry E x s))"
  by (cases x) (auto intro: job_step_post [OF surjective_pairing] job_step_bid [OF surjective_pairing]
    job_steps [OF assms surjective_pairing])

lemma job_step_named: "infer_step E i s s' \<Longrightarrow> jobs_named E s \<Longrightarrow> jobs_named E s'"
  by (induction rule: infer_step.induct) (auto simp: jobs_named_def dest: job_move_fixed)

lemma job_step_other: "infer_step E k s s' \<Longrightarrow> i \<noteq> k \<Longrightarrow> infer_get_job E s' i = infer_get_job E s i"
  by (cases rule: infer_step.cases) auto

lemma job_step_job:
  assumes "infer_step E k s s'" and "infer_get_job E s i = Some j"
  shows "\<exists>j'. infer_get_job E s' i = Some j' \<and> job_move\<^sup>*\<^sup>* j j'"
  using assms by (cases rule: infer_step.cases) auto

lemma moves_fixed: "job_move\<^sup>*\<^sup>* j j' \<Longrightarrow> js_requester j' = js_requester j \<and> js_max_fee j' = js_max_fee j"
  by (induction rule: rtranclp_induct) (auto dest: job_move_fixed)

lemma moves_final: "job_move\<^sup>*\<^sup>* j j' \<Longrightarrow> js_status j \<in> {JobPaid, JobCancelled} \<Longrightarrow> j' = j"
  by (induction rule: converse_rtranclp_induct) (auto dest: job_move_final)

lemma run_moves:
  assumes "jobs_named E s" and "infer_get_job E s i = Some j"
  shows "\<exists>j'. infer_get_job E (run_inference E xs s) i = Some j' \<and> job_move\<^sup>*\<^sup>* j j'"
  using assms
proof (induction xs arbitrary: s j)
  case (Cons x xs)
  let ?t = "snd (apply_inference_entry E x s)"
  have st: "infer_step E (entry_job x) s ?t" by (rule entry_job_step [OF Cons.prems(1)])
  obtain k where k: "infer_get_job E ?t i = Some k" "job_move\<^sup>*\<^sup>* j k" using job_step_job [OF st Cons.prems(2)] by blast
  obtain j' where "infer_get_job E (run_inference E xs ?t) i = Some j'" "job_move\<^sup>*\<^sup>* k j'"
    using Cons.IH [OF job_step_named [OF st Cons.prems(1)] k(1)] by blast
  with k(2) show ?case by auto
qed auto

text \<open>
  (C24) Jobs follow their life cycle. Whatever inference entries are applied, and whether they succeed or fail, the
  record of a job goes through the moves of \<open>job_move\<close> only: it is awarded while posted, completed by its worker,
  judged by distinct verifiers other than the worker with the outcome the board decides, disputed and claimed
  within the window, reviewed, and paid or cancelled. Its requester and its escrow never change, and a paid
  or cancelled job stays as it is.
\<close>

theorem jobs_follow_lifecycle:
  assumes "jobs_named E s" and "infer_get_job E s i = Some j"
  shows "\<exists>j'. infer_get_job E (run_inference E xs s) i = Some j' \<and> job_move\<^sup>*\<^sup>* j j' \<and>
    js_requester j' = js_requester j \<and> js_max_fee j' = js_max_fee j \<and>
    (js_status j \<in> {JobPaid, JobCancelled} \<longrightarrow> j' = j)"
proof -
  obtain j' where j': "infer_get_job E (run_inference E xs s) i = Some j'" "job_move\<^sup>*\<^sup>* j j'"
    using run_moves [OF assms, of xs] by blast
  with moves_fixed [OF j'(2)] moves_final [OF j'(2)] show ?thesis by blast
qed

definition paid_job :: JobState where
  "paid_job = \<lparr>js_job_id = ''j'', js_requester = ''ann'', js_model = ''m'', js_mode = ''solo'', js_input_hash = [],
     js_max_fee = 100, js_min_reputation = 0, js_bid_window_epochs = 2, js_deadline_epoch = 9, js_posted_epoch = 1,
     js_status = JobPaid, js_winner = Some ''bob'', js_awarded_fee = Some 80, js_verifiers = [], js_result_hash = Some ''h'',
     js_latency_ms = Some 5, js_disputed_epoch = None, js_claimed_epoch = None, js_settled_epoch = Some 8,
     js_completed_epoch = Some 4, js_persist_on_fs = False, js_verdicts = [(''eve'', ''approved'')], js_commits = [],
     js_min_verifiers = 1, js_node_fingerprint = None\<rparr>"

lemma one_job_directory: "infer_get_job E (snd (set_job j empty_chain)) = [js_job_id j \<mapsto> j]"
proof -
  have "infer_get_job E empty_chain = (\<lambda>i. None)"
    by (simp add: fun_eq_iff infer_get_job_def peek_state_get state_get_def empty_chain_def)
  then show ?thesis by (simp add: set_job_directory)
qed

theorem jobs_follow_lifecycle_witness:
  "infer_get_job demo_env (run_inference demo_env [InferenceJobCancel ''j'' ''system'', InferenceJobVerify ''j'' ''dan'' ''rejected'' 1 9 None]
     (snd (set_job paid_job empty_chain))) ''j'' = Some paid_job"
proof -
  let ?s = "snd (set_job paid_job empty_chain)"
  have "jobs_named demo_env ?s" by (simp add: jobs_named_def one_job_directory)
  moreover have "infer_get_job demo_env ?s ''j'' = Some paid_job" by (simp add: one_job_directory paid_job_def)
  ultimately show ?thesis using jobs_follow_lifecycle [of demo_env ?s "''j''" paid_job
    "[InferenceJobCancel ''j'' ''system'', InferenceJobVerify ''j'' ''dan'' ''rejected'' 1 9 None]"]
    by (auto simp: paid_job_def)
qed

end
