(* ===== verification/InferencePay.thy ===== *)
theory InferencePay
  imports Inference
begin

text \<open>
  The value that the inference entries move, and what the payment entries built by the node distribute.
\<close>

section \<open>Upper bounds on the value an action adds\<close>

definition spends :: "('s \<Rightarrow> int) \<Rightarrow> int \<Rightarrow> ('s, 'a) act \<Rightarrow> bool" where
  "spends v d m \<longleftrightarrow> 0 \<le> d \<and> (\<forall>s. v (snd (m s)) \<le> v s + d)"

lemma spends_keeps: "keeps v m \<Longrightarrow> spends v 0 m"
  by (simp add: spends_def keeps_def)

lemma spends_seq:
  assumes "spends v a m" and "spends v b n"
  shows "spends v (a + b) (seq m n)"
proof -
  have "v (snd (seq m n s)) \<le> v s + (a + b)" for s
  proof -
    obtain y t where m: "m s = (y, t)" by (cases "m s")
    have "v t \<le> v s + a" "v (snd (n t)) \<le> v t + b" "0 \<le> b" using assms m by (auto simp: spends_def dest: spec [of _ s])
    then show ?thesis using m by (cases y) (auto simp: seq_apply)
  qed
  then show ?thesis using assms by (simp add: spends_def)
qed

lemma spends_bind:
  assumes "keeps v m" and "\<And>x. spends v d (n x)" and "0 \<le> d"
  shows "spends v d (andThen m n)"
proof -
  have "v (snd (andThen m n s)) \<le> v s + d" for s
  proof -
    obtain y t where m: "m s = (y, t)" by (cases "m s")
    have "v t = v s" using keepsD [OF assms(1) m] .
    moreover have "v (snd (n x t)) \<le> v t + d" for x using assms(2) [of x] by (simp add: spends_def)
    ultimately show ?thesis using m assms(3) by (cases y) (auto simp: andThen_apply)
  qed
  then show ?thesis using assms(3) by (simp add: spends_def)
qed

lemma spends_keep_seq: "keeps v m \<Longrightarrow> spends v d n \<Longrightarrow> spends v d (seq m n)"
  using spends_seq [OF spends_keeps, of v m d n] by simp

lemma spends_seq_keep: "spends v d m \<Longrightarrow> keeps v n \<Longrightarrow> spends v d (seq m n)"
  using spends_seq [OF _ spends_keeps, of v d m n] by simp

lemma spends_when: "spends v d m \<Longrightarrow> spends v d (when_do b m)"
  by (simp add: when_do_def spends_def ret_apply)

lemma spends_each: "(\<And>x. spends v (f x) (g x)) \<Longrightarrow> spends v (\<Sum>x \<leftarrow> xs. f x) (each g xs)"
proof (induction xs)
  case (Cons x xs)
  from spends_seq [OF Cons.prems [of x] Cons.IH [OF Cons.prems]] show ?case by simp
qed (simp add: spends_keeps keeps_ret)

section \<open>Balances and stakes\<close>

definition wealth :: "chain \<Rightarrow> int" where
  "wealth s = token_supply NATIVE_TOKEN s + stake_total s"

lemma keeps_wealth: "keeps cf_balances m \<Longrightarrow> keeps cf_stakes m \<Longrightarrow> keeps wealth m"
  by (simp add: keeps_def wealth_def token_supply_def stake_total_def)

lemma wealth_balance:
  "wealth (s\<lparr>cf_balances := kv_put (balance_key a NATIVE_TOKEN) n (cf_balances s)\<rparr>) =
    wealth s + (uint n - uint (get_balance s a NATIVE_TOKEN))"
  by (simp add: wealth_def supply_put stake_total_def)

lemma wealth_stake:
  "wealth (s\<lparr>cf_stakes := kv_put a n (cf_stakes s)\<rparr>) = wealth s + (uint n - uint (get_stake s a))"
  by (simp add: wealth_def token_supply_def stake_total_def kv_sum_put kv_at_def get_stake_def split: option.split)

lemma spends_credit: "spends wealth (uint n) (credit a NATIVE_TOKEN n)"
  by (auto simp: spends_def credit_cases wealth_balance uint_u64_add)

lemma spends_debit:
  assumes "spends wealth (uint n) m"
  shows "spends wealth 0 (seq (debit a NATIVE_TOKEN n) m)"
proof -
  have "wealth (snd (seq (debit a NATIVE_TOKEN n) m s)) \<le> wealth s" for s
    using assms by (auto simp: spends_def seq_apply debit_cases
      dest: spec [of _ "s\<lparr>cf_balances := kv_put (balance_key a NATIVE_TOKEN) (get_balance s a NATIVE_TOKEN - n) (cf_balances s)\<rparr>"]
      simp: wealth_balance)
  then show ?thesis by (simp add: spends_def)
qed

lemma spends_slash: "spends wealth 0 (slash_dissenter d)"
proof -
  have "wealth (snd (slash_dissenter d s)) \<le> wealth s" for s
  proof -
    let ?n = "min (snd d) (get_stake s (fst d))"
    let ?t = "s\<lparr>cf_stakes := kv_put (fst d) (get_stake s (fst d) - ?n) (cf_stakes s)\<rparr>"
    have t: "wealth ?t = wealth s - uint ?n" by (simp add: wealth_stake)
    have "wealth (snd (credit RECYCLE_FUND_ACCOUNT NATIVE_TOKEN ?n ?t)) \<le> wealth ?t + uint ?n"
      using spends_credit [of ?n RECYCLE_FUND_ACCOUNT] unfolding spends_def by blast
    then have "wealth (snd (credit RECYCLE_FUND_ACCOUNT NATIVE_TOKEN ?n ?t)) \<le> wealth s" using t by simp
    then show ?thesis
      by (auto simp: slash_dissenter_def Let_def set_stake_def act_simps split: sum.split prod.split)
  qed
  then show ?thesis by (simp add: spends_def)
qed

lemma keeps_wealth_writes:
  "keeps wealth (state_set k v)" "keeps wealth (save_record wr k r)" "keeps wealth (set_job j)"
  unfolding save_record_def set_job_def by (intro keeps_wealth keeps_intros)+

lemma keeps_wealth_parts:
  "keeps wealth (amend_reputation E a f)" "keeps wealth (count_verification E e v n)"
  "keeps wealth (update_verifier_approval_rate E v b)" "keeps wealth (set_bid b')" "keeps wealth (set_votes i vs)"
  "keeps wealth (award_role j i w role fee)" "keeps wealth (settle_verdict E j e)"
  "keeps wealth (check_reveal E j v d t)" "keeps wealth (check_assignment E i v e)"
  "keeps wealth (index_pay_history E p)"
  unfolding amend_reputation_def set_reputation_def count_verification_def update_verifier_approval_rate_def set_bid_def
    set_votes_def award_role_def settle_verdict_def check_reveal_def check_assignment_def index_pay_history_def
  by (intro keeps_intros keeps_wealth_writes)+

section \<open>No entry creates value\<close>

definition pay_fits :: "PayEntry \<Rightarrow> bool" where
  "pay_fits p \<longleftrightarrow> unat (py_worker_amount p) + (\<Sum>v \<leftarrow> py_verifier_payments p. unat (snd v)) +
     (\<Sum>v \<leftarrow> py_reviewer_payments p. unat (snd v)) + unat (py_recycle_amount p) + unat (py_refund_amount p) < 2 ^ 64"

lemma unat_total_out:
  assumes "pay_fits p"
  shows "unat (total_out p) = unat (py_worker_amount p) + (\<Sum>v \<leftarrow> py_verifier_payments p. unat (snd v)) +
     (\<Sum>v \<leftarrow> py_reviewer_payments p. unat (snd v)) + unat (py_recycle_amount p) + unat (py_refund_amount p)"
proof -
  have "unat (sum_list (map snd vs)) = (\<Sum>v \<leftarrow> vs. unat (snd v))" if "(\<Sum>v \<leftarrow> vs. unat (snd v)) < 2 ^ 64"
    for vs :: "(string \<times> u64) list"
    using that unat_sum_list [of "map snd vs"] by (simp add: o_def)
  with assms show ?thesis unfolding total_out_def pay_fits_def by (simp add: unat_u64_add)
qed

lemma uint_total_out:
  assumes "pay_fits p"
  shows "uint (total_out p) = uint (py_worker_amount p) + ((\<Sum>v \<leftarrow> py_verifier_payments p. uint (snd v)) +
     ((\<Sum>v \<leftarrow> py_reviewer_payments p. uint (snd v)) + (uint (py_recycle_amount p) + (uint (py_refund_amount p) + 0))))"
  using arg_cong [OF unat_total_out [OF assms], of int] unfolding uint_sum_list by simp

lemma spends_pay_unit: "spends wealth (uint n) (seq (credit a NATIVE_TOKEN n) (ret ()))"
  by (rule spends_seq_keep [OF spends_credit keeps_ret])

lemma spends_slashes: "spends wealth 0 (each slash_dissenter ds)"
  using spends_each [of wealth "\<lambda>d. 0" slash_dissenter ds] spends_slash by simp

lemma keeps_need_job: "keeps v (need_job E i)"
  by (intro keeps_intros)

lemma spends_pay:
  assumes "pay_fits p"
  shows "spends wealth 0 (apply_infer_pay E p)"
proof -
  note parts = spends_seq [OF spends_when [OF spends_pay_unit]] spends_seq [OF spends_each [OF spends_pay_unit]]
    spends_seq [OF spends_credit]
  show ?thesis
    unfolding apply_infer_pay_def Let_def
    by (rule spends_bind [OF keeps_need_job spends_keep_seq [OF keeps_ensure spends_debit]], unfold uint_total_out [OF assms])
      (intro parts spends_seq_keep [OF spends_slashes] keeps_intros keeps_wealth_writes order_refl)+
qed

lemma spends_post: "spends wealth 0 (apply_infer_post E i a m md h f n w d e p v g)"
  unfolding apply_infer_post_def
  by (rule spends_bind [OF keeps_reads spends_keep_seq [OF keeps_ensure spends_debit [OF spends_seq_keep [OF spends_credit]]]])
    (intro keeps_intros keeps_wealth_writes order_refl)+

lemma spends_cancel: "spends wealth 0 (apply_infer_cancel E i c)"
  unfolding apply_infer_cancel_def
  by (rule spends_bind [OF keeps_need_job spends_keep_seq [OF keeps_ensure spends_keep_seq
        [OF _ spends_debit [OF spends_seq_keep [OF spends_credit]]]]])
    (intro keeps_intros keeps_wealth_writes keeps_wealth_parts order_refl)+

lemma keeps_wealth_entries:
  "keeps wealth (apply_infer_bid E i b f role e)" "keeps wealth (apply_infer_award E i w role f)"
  "keeps wealth (apply_infer_complete E i w h l e)" "keeps wealth (apply_infer_commit E i v h e)"
  "keeps wealth (apply_infer_verify E i v d n e t)" "keeps wealth (apply_infer_claim E i c e)"
  "keeps wealth (apply_review_vote E i v b' e)"
  unfolding apply_infer_bid_def apply_infer_award_def apply_infer_complete_def apply_infer_commit_def
    apply_infer_verify_def apply_infer_claim_def apply_review_vote_def
  by (intro keeps_intros keeps_wealth_writes keeps_wealth_parts)+

definition entry_fits :: "inference_entry \<Rightarrow> bool" where
  "entry_fits x = (case x of InferenceJobPay p \<Rightarrow> pay_fits p | _ \<Rightarrow> True)"

lemma spends_entry: "entry_fits x \<Longrightarrow> spends wealth 0 (apply_inference_entry E x)"
  by (cases x) (auto simp: entry_fits_def intro: spends_keeps keeps_wealth_entries spends_post spends_cancel
    spends_seq_keep [OF spends_pay keeps_wealth_parts(10)])

text \<open>
  (C17) No value from inference. Along any sequence of inference entries, successful or not, the native supply together
  with the stakes does not grow, if the amounts of each payment entry add up within 64 bits: escrow,
  payments, refunds and the slashing of dissenting verifiers only move value.
\<close>

theorem inference_creates_nothing:
  assumes "list_all entry_fits xs"
  shows "wealth (run_inference E xs s) \<le> wealth s"
  using assms
proof (induction xs arbitrary: s)
  case (Cons x xs)
  have "wealth (snd (apply_inference_entry E x s)) \<le> wealth s"
    using spends_entry [of x E] Cons.prems by (simp add: spends_def)
  with Cons.IH [of "snd (apply_inference_entry E x s)"] Cons.prems show ?case by simp
qed simp

definition demo_pay :: PayEntry where
  "demo_pay = \<lparr>py_job_id = ''j'', py_worker = ''bob'', py_worker_amount = 64, py_verifier_payments = [(''eve'', 12)],
     py_reviewer_payments = [], py_recycle_amount = 4, py_refund_amount = 20, py_dissenter_slashes = [(''dan'', 12)], py_epoch = 8\<rparr>"

theorem inference_creates_nothing_witness:
  "wealth (run_inference demo_env [InferenceJobPost ''j'' ''ann'' ''m'' ''solo'' [] 100 0 2 9 1 None None None, InferenceJobPay demo_pay]
     (empty_chain\<lparr>cf_balances := [(balance_key ''ann'' NATIVE_TOKEN, 500)], cf_stakes := [(''dan'', 7)]\<rparr>)) \<le> 507"
proof -
  let ?s = "empty_chain\<lparr>cf_balances := [(balance_key ''ann'' NATIVE_TOKEN, 500)], cf_stakes := [(''dan'', 7)]\<rparr>"
  have "wealth ?s = 507"
    by (simp add: wealth_def token_supply_def stake_total_def kv_sum_def supply_share_def token_of_balance_key)
  moreover have "list_all entry_fits [InferenceJobPost ''j'' ''ann'' ''m'' ''solo'' [] 100 0 2 9 1 None None None, InferenceJobPay demo_pay]"
    by (simp add: entry_fits_def pay_fits_def demo_pay_def)
  ultimately show ?thesis
    using inference_creates_nothing [of "[InferenceJobPost ''j'' ''ann'' ''m'' ''solo'' [] 100 0 2 9 1 None None None, InferenceJobPay demo_pay]"
      demo_env ?s] by simp
qed

section \<open>What a settlement distributes\<close>

lemma unat_fee_share:
  assumes "unat fee * 10000 < 2 ^ 64" and "unat bps \<le> 10000"
  shows "unat (fee_share fee bps) = unat fee * unat bps div 10000"
proof -
  have "unat fee * unat bps \<le> unat fee * 10000" using assms(2) by (rule mult_le_mono2)
  with assms(1) have "unat (fee * bps) = unat fee * unat bps" by (intro unat_u64_mult) linarith
  then show ?thesis by (simp add: fee_share_def unat_div)
qed

lemma verifier_weight_cases: "verifier_weight E s v \<in> {50, 100}"
  by (simp add: verifier_weight_def)

lemma verifier_split_bounded:
  assumes "unat pool * 100 < 2 ^ 64" and "length vs * 100 < 2 ^ 64"
  shows "(\<Sum>v \<leftarrow> fst (compute_verifier_split E s vs ds pool). unat (snd v)) \<le> unat pool"
proof (cases "vs = []")
  case False
  let ?ws = "map (verifier_weight E s) vs" and ?us = "map (unat \<circ> verifier_weight E s) vs"
  have w: "unat (verifier_weight E s v) \<le> 100" "0 < unat (verifier_weight E s v)" for v
    using verifier_weight_cases [of E s v] by auto
  have "sum_list ?us \<le> sum_list (map (\<lambda>v. 100) vs)" by (rule sum_list_mono) (simp add: w)
  then have "sum_list ?us < 2 ^ 64" using assms(2) by (simp add: sum_list_triv)
  then have t: "unat (sum_list ?ws) = sum_list ?us" using unat_sum_list [of ?ws] by (simp add: o_def)
  have "0 < sum_list ?us" using False w by (cases vs) (simp_all add: add_pos_nonneg)
  then have m: "max (sum_list ?ws) 1 = sum_list ?ws" using t by (intro max_absorb1) (simp add: u64_le_iff)
  have "unat (pool * verifier_weight E s v div sum_list ?ws) = unat pool * unat (verifier_weight E s v) div sum_list ?us" for v
  proof -
    have "unat pool * unat (verifier_weight E s v) \<le> unat pool * 100" using w(1) by (rule mult_le_mono2)
    then have "unat (pool * verifier_weight E s v) = unat pool * unat (verifier_weight E s v)"
      using assms(1) by (intro unat_u64_mult) linarith
    then show ?thesis using t by (simp add: unat_div)
  qed
  then have "(\<Sum>v \<leftarrow> fst (compute_verifier_split E s vs ds pool). unat (snd v)) = (\<Sum>a \<leftarrow> ?us. unat pool * a div sum_list ?us)"
    by (simp add: compute_verifier_split_def m zip_map2 zip_same_conv_map o_def case_prod_unfold)
  then show ?thesis using sum_floor_shares [of "unat pool" ?us] by simp
qed (simp add: compute_verifier_split_def)

lemma reviewer_shares_bounded:
  assumes "length rs < 2 ^ 64"
  shows "(\<Sum>v \<leftarrow> reviewer_shares rs pool. unat (snd v)) \<le> unat pool"
proof (cases "rs = []")
  case False
  then have "max (length rs) 1 = length rs" by (cases rs) auto
  then have "(\<Sum>v \<leftarrow> reviewer_shares rs pool. unat (snd v)) = length rs * (unat pool div length rs)"
    using assms by (simp add: reviewer_shares_def o_def sum_list_triv unat_div unat_u64_of_nat)
  then show ?thesis by (simp add: mult.commute)
qed (simp add: reviewer_shares_def)

text \<open>The refund makes the parts add up to the escrow when the shares do not exceed it.\<close>

lemma settle_exact:
  assumes out: "py_refund_amount p = sat_sub fee (py_worker_amount p + sum_list (map snd (py_verifier_payments p)) +
      sum_list (map snd (py_reviewer_payments p)) + py_recycle_amount p)"
    and le: "unat (py_worker_amount p) + (\<Sum>v \<leftarrow> py_verifier_payments p. unat (snd v)) +
      (\<Sum>v \<leftarrow> py_reviewer_payments p. unat (snd v)) + unat (py_recycle_amount p) \<le> unat fee"
  shows "pay_fits p \<and> total_out p = fee"
proof -
  let ?paid = "py_worker_amount p + sum_list (map snd (py_verifier_payments p)) +
      sum_list (map snd (py_reviewer_payments p)) + py_recycle_amount p"
  let ?sum = "unat (py_worker_amount p) + (\<Sum>v \<leftarrow> py_verifier_payments p. unat (snd v)) +
      (\<Sum>v \<leftarrow> py_reviewer_payments p. unat (snd v)) + unat (py_recycle_amount p)"
  have f: "unat fee < 2 ^ 64" by simp
  let ?q = "p\<lparr>py_refund_amount := 0\<rparr>"
  have "pay_fits ?q" using le_less_trans [OF le f] unfolding pay_fits_def by simp
  then have "unat (total_out ?q) = ?sum" by (simp add: unat_total_out)
  then have "unat ?paid = ?sum" by (simp add: total_out_def)
  then have r: "unat (py_refund_amount p) = unat fee - ?sum" by (simp add: out unat_sat_sub)
  then have fits: "pay_fits p" using le f unfolding pay_fits_def by linarith
  have "unat (total_out p) = unat fee" using unat_total_out [OF fits] r le by linarith
  with fits show ?thesis by (simp add: word_unat_eq_iff)
qed

definition fee_within :: "JobState \<Rightarrow> bool" where
  "fee_within job \<longleftrightarrow> (case js_awarded_fee job of Some f \<Rightarrow> f \<le> js_max_fee job | None \<Rightarrow> True)"

definition board_fits :: "JobState \<Rightarrow> bool" where
  "board_fits job \<longleftrightarrow> length (js_verifiers job) * 100 < 2 ^ 64 \<and> length (js_verdicts job) * 100 < 2 ^ 64"

lemma board_part:
  assumes "board_fits job" and "split_board_by_consensus job d = (vs, ds)"
  shows "length vs * 100 < 2 ^ 64"
proof -
  have "length (filter P (js_verdicts job)) * 100 < 2 ^ 64" for P
    using assms(1) length_filter_le [of P "js_verdicts job"] unfolding board_fits_def by linarith
  with assms show ?thesis by (auto simp: split_board_by_consensus_def board_fits_def split: if_splits)
qed

lemma floor_parts:
  fixes f :: nat
  assumes "a + b + c + d \<le> n" "0 < n"
  shows "f * a div n + f * b div n + f * c div n + f * d div n \<le> f"
proof -
  have "(f * a div n + f * b div n + f * c div n + f * d div n) * n \<le> f * a + f * b + f * c + f * d"
    by (simp add: distrib_right add_mono)
  also have "\<dots> = f * (a + b + c + d)" by (simp add: distrib_left)
  also have "\<dots> \<le> f * n" using assms(1) by (rule mult_le_mono2)
  finally show ?thesis using assms(2) by simp
qed

lemma settle_shares:
  assumes f: "unat f \<le> unat (js_max_fee job)" "unat (js_max_fee job) * 10000 < 2 ^ 64" and board: "board_fits job"
    and bps: "unat a + unat b + unat c + unat d \<le> 10000" "unat b \<le> 1500" and rs: "length rs < 2 ^ 64"
    and vs: "split_board_by_consensus job o' = (vs, ds)"
    and p: "py_worker_amount p = fee_share f a" "py_verifier_payments p = fst (compute_verifier_split E s vs ds (fee_share f b))"
      "py_reviewer_payments p = reviewer_shares rs (fee_share f c)" "py_recycle_amount p = fee_share f d"
      "py_refund_amount p = sat_sub (js_max_fee job) (py_worker_amount p + sum_list (map snd (py_verifier_payments p)) +
        sum_list (map snd (py_reviewer_payments p)) + py_recycle_amount p)"
  shows "pay_fits p \<and> total_out p = js_max_fee job"
proof (rule settle_exact [OF p(5)])
  have fit: "unat f * 10000 < 2 ^ 64" using f by linarith
  have share: "unat (fee_share f x) = unat f * unat x div 10000" if "unat x \<le> 10000" for x
    using unat_fee_share [OF fit that] .
  have "unat f * unat b \<le> unat f * 1500" using bps(2) by (rule mult_le_mono2)
  then have "unat f * unat b div 10000 * 100 < 2 ^ 64" using fit by linarith
  then have pool: "unat (fee_share f b) * 100 < 2 ^ 64" using share [of b] bps by simp
  note v = verifier_split_bounded [OF pool board_part [OF board vs], of E s ds]
  note r = reviewer_shares_bounded [OF rs, of "fee_share f c"]
  have "unat (fee_share f a) + unat (fee_share f b) + unat (fee_share f c) + unat (fee_share f d) \<le> unat f"
    using floor_parts [OF bps(1), of "unat f"] bps by (simp add: share)
  with v r f(1) show "unat (py_worker_amount p) + (\<Sum>v \<leftarrow> py_verifier_payments p. unat (snd v)) +
      (\<Sum>v \<leftarrow> py_reviewer_payments p. unat (snd v)) + unat (py_recycle_amount p) \<le> unat (js_max_fee job)"
    unfolding p(1-4) by linarith
qed

lemmas fee_bps = INFERENCE_FEE_WORKER_BPS_def INFERENCE_FEE_VERIFIER_BPS_def INFERENCE_FEE_RECYCLE_BPS_def
  INFERENCE_FEE_WORKER_DISPUTED_BPS_def INFERENCE_FEE_VERIFIER_DISPUTED_BPS_def INFERENCE_FEE_REVIEWER_BPS_def
  INFERENCE_FEE_RECYCLE_DISPUTED_BPS_def

lemma settle_happy:
  assumes job: "board_fits job" "unat (js_max_fee job) * 10000 < 2 ^ 64" and le: "fee_within job"
    and p: "build_pay_entry_happy E s job e = Some p"
  shows "pay_fits p \<and> total_out p = js_max_fee job"
proof -
  obtain vs ds where b: "split_board_by_consensus job ''approved'' = (vs, ds)" by (cases "split_board_by_consensus job ''approved''")
  obtain w f where f: "js_winner job = Some w" "js_awarded_fee job = Some f"
    using p by (auto simp: build_pay_entry_happy_def bind_eq_Some_conv)
  have "unat f \<le> unat (js_max_fee job)" using le f by (simp add: fee_within_def u64_le_iff)
  then show ?thesis
    by (rule settle_shares [OF _ job(2,1) _ _ _ b, where a = INFERENCE_FEE_WORKER_BPS and
          b = INFERENCE_FEE_VERIFIER_BPS and c = 0 and d = INFERENCE_FEE_RECYCLE_BPS and rs = "[]" and E = E and s = s])
      (use p f b in \<open>auto simp: build_pay_entry_happy_def Let_def fee_bps reviewer_shares_def split: prod.splits\<close>)
qed

lemma settle_disputed:
  assumes job: "board_fits job" "unat (js_max_fee job) * 10000 < 2 ^ 64" and le: "fee_within job"
    and rs: "length rs < 2 ^ 64" and p: "build_pay_entry_disputed E s job rs e = Some p"
  shows "pay_fits p \<and> total_out p = js_max_fee job"
proof -
  obtain vs ds where b: "split_board_by_consensus job ''review_required'' = (vs, ds)"
    by (cases "split_board_by_consensus job ''review_required''")
  obtain w f where f: "js_winner job = Some w" "js_awarded_fee job = Some f"
    using p by (auto simp: build_pay_entry_disputed_def bind_eq_Some_conv)
  have "unat f \<le> unat (js_max_fee job)" using le f by (simp add: fee_within_def u64_le_iff)
  then show ?thesis
    by (rule settle_shares [OF _ job(2,1) _ _ rs b, where a = INFERENCE_FEE_WORKER_DISPUTED_BPS and
          b = INFERENCE_FEE_VERIFIER_DISPUTED_BPS and c = INFERENCE_FEE_REVIEWER_BPS and
          d = INFERENCE_FEE_RECYCLE_DISPUTED_BPS and E = E and s = s])
      (use p f b in \<open>auto simp: build_pay_entry_disputed_def Let_def fee_bps split: prod.splits\<close>)
qed

lemma settle_nofee:
  assumes job: "board_fits job" "unat (js_max_fee job) * 10000 < 2 ^ 64" and le: "fee_within job"
    and rs: "length rs < 2 ^ 64"
  shows "pay_fits (build_pay_entry_nofee E s job rs e) \<and> total_out (build_pay_entry_nofee E s job rs e) = js_max_fee job"
proof -
  let ?f = "case js_awarded_fee job of Some f \<Rightarrow> f | None \<Rightarrow> js_max_fee job"
  obtain vs ds where b: "split_board_by_consensus job ''rejected'' = (vs, ds)" by (cases "split_board_by_consensus job ''rejected''")
  have z: "fee_share ?f 0 = 0" by (simp add: fee_share_def)
  have "unat ?f \<le> unat (js_max_fee job)" using le by (simp add: fee_within_def u64_le_iff split: option.splits)
  then show ?thesis
    by (rule settle_shares [OF _ job(2,1) _ _ rs b, where a = 0 and b = INFERENCE_FEE_VERIFIER_DISPUTED_BPS and
          c = "if rs = [] then 0 else INFERENCE_FEE_REVIEWER_BPS" and d = INFERENCE_FEE_RECYCLE_DISPUTED_BPS and E = E and s = s])
      (use b z in \<open>auto simp: build_pay_entry_nofee_def Let_def fee_bps split: prod.splits\<close>)
qed

text \<open>
  (C32) A settlement distributes the escrow exactly. Whichever of the three payment entries the node builds for a job (approved,
  approved on review, rejected), the amounts to the worker, the verifiers, the reviewers, the recycle fund and back
  to the requester add up without overflow to the fee that was put in escrow, if the fee awarded is at most that, the fee in escrow
  times 10000 fits 64 bits, so that the products of the shares do not wrap, and so do the lengths of the lists of
  verifiers, verdicts and reviewers.
\<close>

theorem settlement_is_escrow:
  assumes "fee_within job" and "board_fits job" and "unat (js_max_fee job) * 10000 < 2 ^ 64" and "length rs < 2 ^ 64"
    and "build_pay_entry_happy E s job e = Some p \<or> build_pay_entry_disputed E s job rs e = Some p \<or>
      build_pay_entry_nofee E s job rs e = p"
  shows "pay_fits p \<and> total_out p = js_max_fee job"
  using assms(5) settle_happy [OF assms(2,3,1)] settle_disputed [OF assms(2,3,1,4)] settle_nofee [OF assms(2,3,1,4)] by blast

definition verified_job :: JobState where
  "verified_job = \<lparr>js_job_id = ''j'', js_requester = ''ann'', js_model = ''m'', js_mode = ''solo'', js_input_hash = [],
     js_max_fee = 100, js_min_reputation = 0, js_bid_window_epochs = 2, js_deadline_epoch = 9, js_posted_epoch = 1,
     js_status = JobVerified, js_winner = Some ''bob'', js_awarded_fee = Some 80, js_verifiers = [], js_result_hash = Some ''h'',
     js_latency_ms = Some 5, js_disputed_epoch = None, js_claimed_epoch = None, js_settled_epoch = None,
     js_completed_epoch = Some 4, js_persist_on_fs = False,
     js_verdicts = [(''eve'', ''approved''), (''dan'', ''rejected''), (''joe'', ''approved'')], js_commits = [],
     js_min_verifiers = 3, js_node_fingerprint = None\<rparr>"

theorem settlement_is_escrow_witness:
  "\<exists>p. build_pay_entry_happy demo_env empty_chain verified_job 9 = Some p \<and> total_out p = 100"
proof -
  obtain p where p: "build_pay_entry_happy demo_env empty_chain verified_job 9 = Some p"
    by (cases "build_pay_entry_happy demo_env empty_chain verified_job 9")
      (auto simp: build_pay_entry_happy_def verified_job_def Let_def split: prod.splits)
  have "fee_within verified_job" "board_fits verified_job" "unat (js_max_fee verified_job) * 10000 < 2 ^ 64"
    by (simp_all add: fee_within_def board_fits_def verified_job_def)
  from settlement_is_escrow [OF this, of "[]" demo_env empty_chain 9 p] p show ?thesis by (simp add: verified_job_def)
qed

end
