(* ===== verification/InferenceDaemon.thy ===== *)
theory InferenceDaemon
  imports InferenceJobs InferencePay
begin

text \<open>
  The daemon of the inference marketplace (\<open>inference_daemon.rs\<close>): once per epoch it awards the jobs whose bid
  window is over, expires claims and jobs, and pays what is decided. Its entries are applied at once; a
  failure is logged and the daemon goes on.
\<close>

section \<open>The steps of an epoch\<close>

definition VERIFICATION_GRACE_EPOCHS :: u64 where "VERIFICATION_GRACE_EPOCHS = 20"

definition submit :: "env \<Rightarrow> inference_entry \<Rightarrow> unit chain_act" where
  "submit E x = seq (attempt (apply_inference_entry E x)) (ret ())"

definition award_job :: "env \<Rightarrow> JobState \<Rightarrow> unit chain_act" where
  "award_job E job =
     andThen (reads (\<lambda>s. get_bids E s (js_job_id job))) (\<lambda>bids.
     andThen (reads (\<lambda>s. select_best_bid E s bids ''worker'')) (\<lambda>best.
     case best of
       Some worker_bid \<Rightarrow>
         andThen (attempt (apply_inference_entry E
             (InferenceJobAward (js_job_id job) (bs_bidder worker_bid) ''worker'' (bs_fee worker_bid)))) (\<lambda>awarded.
         when_do awarded
           (each (\<lambda>vbid. submit E (InferenceJobAward (js_job_id job) (bs_bidder vbid) ''verifier'' (bs_fee vbid)))
              (take 3 (filter (\<lambda>b. bs_role b = ''verifier'') bids))))
     | None \<Rightarrow> submit E (InferenceJobCancel (js_job_id job) ''system'')))"

definition award_pending_jobs :: "env \<Rightarrow> u64 \<Rightarrow> unit chain_act" where
  "award_pending_jobs E cur = andThen (reads (\<lambda>s. jobs_ready_to_award E s cur)) (each (award_job E))"

definition expire_stale_claims :: "env \<Rightarrow> u64 \<Rightarrow> unit chain_act" where
  "expire_stale_claims E cur =
     andThen (reads (\<lambda>s. jobs_claim_expired E s cur)) (each (\<lambda>job.
     andThen (reads (\<lambda>s. build_pay_entry_nofee E s job [] cur)) (\<lambda>pay. submit E (InferenceJobPay pay))))"

definition expire_stale_jobs :: "env \<Rightarrow> u64 \<Rightarrow> unit chain_act" where
  "expire_stale_jobs E cur =
     andThen (reads (\<lambda>s. jobs_past_deadline E s cur)) (each (\<lambda>job. submit E (InferenceJobCancel (js_job_id job) ''system'')))"

definition pay_some :: "env \<Rightarrow> PayEntry option \<Rightarrow> unit chain_act" where
  "pay_some E pay = (case pay of Some p \<Rightarrow> submit E (InferenceJobPay p) | None \<Rightarrow> ret ())"

definition pay_verified_jobs :: "env \<Rightarrow> u64 \<Rightarrow> unit chain_act" where
  "pay_verified_jobs E cur =
     andThen (reads (\<lambda>s. filter (\<lambda>j. js_status j = JobVerified) (all_jobs E s))) (each (\<lambda>job.
     andThen (reads (\<lambda>s. build_pay_entry_happy E s job cur)) (pay_some E)))"

definition pay_resolved_disputes :: "env \<Rightarrow> u64 \<Rightarrow> unit chain_act" where
  "pay_resolved_disputes E cur =
     andThen (reads (\<lambda>s. filter (\<lambda>j. js_status j = JobReviewed \<or> js_status j = JobRejected) (all_jobs E s))) (each (\<lambda>job.
     andThen (reads (\<lambda>s. map rv_reviewer (get_votes E s (js_job_id job)))) (\<lambda>reviewers.
     andThen (reads (\<lambda>s. if js_status job = JobReviewed then build_pay_entry_disputed E s job reviewers cur
        else Some (build_pay_entry_nofee E s job reviewers cur))) (pay_some E))))"

definition auto_settle_unverified :: "env \<Rightarrow> u64 \<Rightarrow> unit chain_act" where
  "auto_settle_unverified E cur =
     andThen (reads (\<lambda>s. filter (\<lambda>j. js_status j = JobCompleted \<and> js_verifiers j = [] \<and> js_latency_ms j \<noteq> None)
        (all_jobs E s))) (each (\<lambda>job.
     when_do (\<not> cur < js_deadline_epoch job + VERIFICATION_GRACE_EPOCHS)
       (andThen (reads (\<lambda>s. build_pay_entry_happy E s job cur)) (pay_some E))))"

definition process_epoch :: "env \<Rightarrow> u64 \<Rightarrow> unit chain_act" where
  "process_epoch E cur =
     seq (award_pending_jobs E cur)
    (seq (expire_stale_claims E cur)
    (seq (expire_stale_jobs E cur)
    (seq (pay_verified_jobs E cur)
    (seq (pay_resolved_disputes E cur)
         (auto_settle_unverified E cur)))))"

section \<open>The daemon as a sequence of entries\<close>

definition daemon_entry :: "inference_entry \<Rightarrow> bool" where
  "daemon_entry x = (case x of InferenceJobAward i w role f \<Rightarrow> role = ''worker''
     | InferenceJobCancel i by_whom \<Rightarrow> by_whom = ''system'' | InferenceJobPay p \<Rightarrow> True | _ \<Rightarrow> False)"

text \<open>An action of the daemon returns, and what it did is what its entries do one after the other.\<close>

definition emits :: "env \<Rightarrow> unit chain_act \<Rightarrow> bool" where
  "emits E m \<longleftrightarrow> (\<forall>s. jobs_named E s \<longrightarrow>
     (\<exists>xs. list_all daemon_entry xs \<and> m s = (Inr (), run_inference E xs s)))"

lemma run_inference_append: "run_inference E (xs @ ys) s = run_inference E ys (run_inference E xs s)"
  by (induction xs arbitrary: s) simp_all

lemma run_named: "jobs_named E s \<Longrightarrow> jobs_named E (run_inference E xs s)"
  by (induction xs arbitrary: s) (auto intro: job_step_named [OF entry_job_step])

text \<open>The entries of the daemon do not panic, so that none of them stops the epoch.\<close>

lemma calm_award: "calm (apply_infer_award E i w role f)"
  unfolding apply_infer_award_def award_role_def amend_reputation_def set_reputation_def set_job_def
  by (intro calm_intros; simp)

lemma calm_cancel: "calm (apply_infer_cancel E i c)"
  unfolding apply_infer_cancel_def amend_reputation_def set_reputation_def set_job_def by (intro calm_intros; simp)

lemma calm_pay: "calm (seq (apply_infer_pay E p) (index_pay_history E p))"
  unfolding apply_infer_pay_def slash_dissenter_def set_job_def index_pay_history_def by (intro calm_intros; simp)

lemma calm_daemon: "daemon_entry x \<or> (\<exists>i w role f. x = InferenceJobAward i w role f) \<Longrightarrow> calm (apply_inference_entry E x)"
  by (cases x) (auto simp: daemon_entry_def intro: calm_award calm_cancel calm_pay)

lemma submit_apply:
  "daemon_entry x \<or> (\<exists>i w role f. x = InferenceJobAward i w role f) \<Longrightarrow>
    submit E x s = (Inr (), snd (apply_inference_entry E x s))"
  using attempt_result [OF calm_daemon, of x E s] attempt_state [of "apply_inference_entry E x" s]
  by (auto simp: submit_def seq_apply ret_apply)

lemma emits_ret: "emits E (ret ())"
  unfolding emits_def by (intro allI impI exI [of _ "[]"]) (simp add: ret_apply)

lemma emits_submit: "daemon_entry x \<Longrightarrow> emits E (submit E x)"
  unfolding emits_def by (intro allI impI exI [of _ "[x]"]) (simp add: submit_apply)

lemma emits_seq:
  assumes "emits E m" and "emits E n"
  shows "emits E (seq m n)"
  unfolding emits_def
proof (intro allI impI)
  fix s assume s: "jobs_named E s"
  obtain xs where xs: "list_all daemon_entry xs" "m s = (Inr (), run_inference E xs s)" using assms(1) s by (auto simp: emits_def)
  obtain ys where "list_all daemon_entry ys" "n (run_inference E xs s) = (Inr (), run_inference E ys (run_inference E xs s))"
    using assms(2) run_named [OF s] unfolding emits_def by blast
  with xs show "\<exists>xs. list_all daemon_entry xs \<and> seq m n s = (Inr (), run_inference E xs s)"
    by (intro exI [of _ "xs @ ys"]) (simp add: seq_apply run_inference_append)
qed

lemma emits_reads: "(\<And>x. emits E (n x)) \<Longrightarrow> emits E (andThen (reads f) n)"
  by (simp add: emits_def andThen_apply reads_apply)

lemma emits_each: "(\<And>x. emits E (g x)) \<Longrightarrow> emits E (each g xs)"
  by (induction xs) (simp_all add: emits_ret emits_seq)

lemma emits_when: "emits E m \<Longrightarrow> emits E (when_do b m)"
  by (simp add: when_do_def emits_ret)

lemma emits_pay: "emits E (pay_some E p)"
  by (cases p) (simp_all add: pay_some_def emits_ret emits_submit daemon_entry_def)

text \<open>After the award of the worker the job is not posted any more, and the awards of the verifiers are refused.\<close>

lemma awarded_status:
  assumes "jobs_named E s" and run: "apply_infer_award E i w ''worker'' f s = (Inr (), s')"
  shows "\<exists>j. infer_get_job E s' i = Some j \<and> js_status j = JobAwarded"
proof -
  obtain j where j: "infer_get_job E s i = Some j" "js_job_id j = i"
    using run assms(1) by (cases "infer_get_job E s i") (auto simp: apply_infer_award_def act_simps jobs_named_def)
  let ?j = "j\<lparr>js_winner := Some w, js_awarded_fee := Some f, js_status := JobAwarded\<rparr>"
  obtain t where "set_job ?j t = (Inr (), s')"
    using run j by (auto simp: apply_infer_award_def award_role_def act_simps state_set_def split: if_splits prod.splits sum.splits)
  with set_job_directory [of E ?j t] j(2) show ?thesis by auto
qed

lemma award_refused:
  assumes "infer_get_job E s i = Some j" "js_status j \<noteq> JobPosted"
  shows "submit E (InferenceJobAward i w role f) s = (Inr (), s)"
  using assms by (simp add: submit_apply apply_infer_award_def act_simps)

lemma awards_refused:
  assumes "infer_get_job E s i = Some j" "js_status j \<noteq> JobPosted"
  shows "each (\<lambda>b. submit E (InferenceJobAward i (bs_bidder b) role (bs_fee b))) bs s = (Inr (), s)"
  by (induction bs) (simp_all add: ret_apply seq_apply award_refused [OF assms])

lemma emits_award: "emits E (award_job E job)"
  unfolding award_job_def
proof (intro emits_reads)
  fix bids and best :: "BidState option"
  let ?i = "js_job_id job"
  show "emits E (case best of
       Some b \<Rightarrow> andThen (attempt (apply_inference_entry E (InferenceJobAward ?i (bs_bidder b) ''worker'' (bs_fee b)))) (\<lambda>awarded.
         when_do awarded (each (\<lambda>v. submit E (InferenceJobAward ?i (bs_bidder v) ''verifier'' (bs_fee v)))
           (take 3 (filter (\<lambda>b. bs_role b = ''verifier'') bids))))
     | None \<Rightarrow> submit E (InferenceJobCancel ?i ''system''))"
  proof (cases best)
    case (Some b)
    let ?x = "InferenceJobAward ?i (bs_bidder b) ''worker'' (bs_fee b)"
    show ?thesis
      unfolding emits_def Some option.case
    proof (intro allI impI exI [of _ "[?x]"] conjI)
      fix s assume s: "jobs_named E s"
      obtain y t where t: "apply_inference_entry E ?x s = (y, t)" by (cases "apply_inference_entry E ?x s")
      have "\<exists>j. infer_get_job E t ?i = Some j \<and> js_status j = JobAwarded" if "y = Inr u" for u
        using awarded_status [OF s] t that by simp
      then show "andThen (attempt (apply_inference_entry E ?x)) (\<lambda>awarded. when_do awarded
          (each (\<lambda>v. submit E (InferenceJobAward ?i (bs_bidder v) ''verifier'' (bs_fee v)))
            (take 3 (filter (\<lambda>b. bs_role b = ''verifier'') bids)))) s = (Inr (), run_inference E [?x] s)"
        using t calm_award [of E ?i "bs_bidder b" "''worker''" "bs_fee b", unfolded calm_def]
        by (cases y) (auto simp: andThen_apply attempt_apply when_do_def ret_apply awards_refused)
    qed (simp add: daemon_entry_def)
  qed (simp add: emits_submit daemon_entry_def)
qed

lemma emits_epoch: "emits E (process_epoch E cur)"
  unfolding process_epoch_def award_pending_jobs_def expire_stale_claims_def expire_stale_jobs_def pay_verified_jobs_def
    pay_resolved_disputes_def auto_settle_unverified_def
  by (intro emits_seq emits_reads emits_each emits_award emits_when emits_pay emits_submit)
    (simp_all add: daemon_entry_def)

section \<open>What the daemon does to a job\<close>

definition daemon_keeps :: "JobState \<Rightarrow> JobState \<Rightarrow> bool" where
  "daemon_keeps j j' \<longleftrightarrow> js_verifiers j' = js_verifiers j \<and> js_status j \<noteq> JobDisputed"

lemma tracked_job:
  assumes n: "\<And>j. js_job_id j = i \<Longrightarrow> tracks E i (Some j) (R j) (n j)" and "jobs_named E s"
    and run: "andThen (need_job E i) n s = (r, s')" and k: "infer_get_job E s k = Some j"
  shows "\<exists>j'. infer_get_job E s' k = Some j' \<and> (j' = j \<or> R j j')"
proof (cases "infer_get_job E s i")
  case None
  with run k show ?thesis by (auto simp: act_simps)
next
  case (Some l)
  have "js_job_id l = i" using assms(2) Some by (auto simp: jobs_named_def)
  moreover have "n l s = (r, s')" using run Some by (simp add: act_simps)
  ultimately have "infer_get_job E s' = infer_get_job E s \<or> (\<exists>l'. R l l' \<and> infer_get_job E s' = (infer_get_job E s)(i \<mapsto> l'))"
    using n Some unfolding tracks_def by blast
  then show ?thesis using k Some by (cases "k = i") auto
qed

lemma award_daemon:
  "jobs_named E s \<Longrightarrow> apply_infer_award E i w ''worker'' f s = (r, s') \<Longrightarrow> infer_get_job E s k = Some j \<Longrightarrow>
    \<exists>j'. infer_get_job E s' k = Some j' \<and> (j' = j \<or> daemon_keeps j j')"
  unfolding apply_infer_award_def
  by (erule (2) tracked_job [rotated])
    (intro tracks_ensure tracks_award tracks_seq keeps_jobs tracks_set | simp add: daemon_keeps_def)+

lemma cancel_daemon:
  "jobs_named E s \<Longrightarrow> apply_infer_cancel E i c s = (r, s') \<Longrightarrow> infer_get_job E s k = Some j \<Longrightarrow>
    \<exists>j'. infer_get_job E s' k = Some j' \<and> (j' = j \<or> daemon_keeps j j')"
  unfolding apply_infer_cancel_def
  by (erule (2) tracked_job [rotated])
    (intro tracks_ensure tracks_set tracks_seq keeps_option keeps_if keeps_intros keeps_jobs | force simp: daemon_keeps_def)+

lemma pay_daemon:
  "jobs_named E s \<Longrightarrow> apply_infer_pay E p s = (r, s') \<Longrightarrow> infer_get_job E s k = Some j \<Longrightarrow>
    \<exists>j'. infer_get_job E s' k = Some j' \<and> (j' = j \<or> daemon_keeps j j')"
  unfolding apply_infer_pay_def Let_def
  by (erule (2) tracked_job [rotated])
    (intro tracks_ensure tracks_set_seq tracks_seq keeps_intros keeps_jobs keeps_jobs_slash
      | force simp: daemon_keeps_def infer_payable_def)+

lemma entry_daemon:
  assumes "daemon_entry x" "jobs_named E s" "infer_get_job E s k = Some j"
  shows "\<exists>j'. infer_get_job E (snd (apply_inference_entry E x s)) k = Some j' \<and> (j' = j \<or> daemon_keeps j j')"
proof (cases x)
  case (InferenceJobPay p)
  obtain y t where p: "apply_infer_pay E p s = (y, t)" by (cases "apply_infer_pay E p s")
  have "infer_get_job E (snd (index_pay_history E p t)) = infer_get_job E t"
    using keepsD [OF keeps_jobs_history surjective_pairing] .
  with pay_daemon [OF assms(2) p assms(3)] p InferenceJobPay show ?thesis by (cases y) (simp_all add: seq_apply)
qed (use assms award_daemon [OF assms(2) surjective_pairing assms(3)] cancel_daemon [OF assms(2) surjective_pairing assms(3)]
  in \<open>auto simp: daemon_entry_def\<close>)

lemma run_daemon:
  assumes "list_all daemon_entry xs" "jobs_named E s" "infer_get_job E s i = Some j"
  shows "\<exists>j'. infer_get_job E (run_inference E xs s) i = Some j' \<and> job_move\<^sup>*\<^sup>* j j' \<and> js_verifiers j' = js_verifiers j \<and>
    (js_status j = JobDisputed \<longrightarrow> j' = j)"
  using assms
proof (induction xs arbitrary: s j)
  case (Cons x xs)
  let ?t = "snd (apply_inference_entry E x s)"
  have d: "daemon_entry x" "list_all daemon_entry xs" using Cons.prems(1) by simp_all
  have st: "infer_step E (entry_job x) s ?t" by (rule entry_job_step [OF Cons.prems(2)])
  obtain k where k: "infer_get_job E ?t i = Some k" "k = j \<or> daemon_keeps j k" "job_move\<^sup>*\<^sup>* j k"
    using entry_daemon [OF d(1) Cons.prems(2,3)] job_step_job [OF st Cons.prems(3)] by auto
  obtain j' where j': "infer_get_job E (run_inference E xs ?t) i = Some j'" "job_move\<^sup>*\<^sup>* k j'" "js_verifiers j' = js_verifiers k"
      "js_status k = JobDisputed \<longrightarrow> j' = k"
    using Cons.IH [OF d(2) job_step_named [OF st Cons.prems(2)] k(1)] by blast
  have "job_move\<^sup>*\<^sup>* j j'" using k(3) j'(2) by (rule rtranclp_trans)
  moreover have "js_verifiers j' = js_verifiers j" "js_status j = JobDisputed \<longrightarrow> j' = j"
    using k(2) j'(3,4) by (auto simp: daemon_keeps_def)
  ultimately show ?case using j'(1) by simp
qed auto

text \<open>
  (C25) An epoch of the daemon. It returns whatever its entries do, and it is a sequence of awards of workers,
  cancellations by the system and payments, along which every job follows its life cycle. The awards of verifiers it
  submits have no effect: the job has left the state in which they are accepted, so that its list of
  verifiers never changes. A disputed job stays as it is, also when the window for claims is over: the
  payment built for it is refused, and its escrow is never released.
\<close>

theorem daemon_epoch:
  assumes "jobs_named E s"
  shows "\<exists>xs. list_all daemon_entry xs \<and> process_epoch E cur s = (Inr (), run_inference E xs s) \<and>
    (\<forall>i j. infer_get_job E s i = Some j \<longrightarrow> (\<exists>j'. infer_get_job E (run_inference E xs s) i = Some j' \<and>
      job_move\<^sup>*\<^sup>* j j' \<and> js_verifiers j' = js_verifiers j \<and> (js_status j = JobDisputed \<longrightarrow> j' = j)))"
proof -
  obtain xs where "list_all daemon_entry xs" "process_epoch E cur s = (Inr (), run_inference E xs s)"
    using emits_epoch [of E cur] assms unfolding emits_def by blast
  with run_daemon [OF _ assms] show ?thesis by blast
qed

definition disputed_job :: JobState where
  "disputed_job = verified_job\<lparr>js_status := JobDisputed, js_disputed_epoch := Some 5\<rparr>"

theorem daemon_epoch_witness:
  "infer_get_job demo_env (snd (process_epoch demo_env 100 (snd (set_job disputed_job empty_chain)))) ''j'' = Some disputed_job"
proof -
  let ?s = "snd (set_job disputed_job empty_chain)"
  have n: "jobs_named demo_env ?s" by (simp add: jobs_named_def one_job_directory)
  have j: "infer_get_job demo_env ?s ''j'' = Some disputed_job"
    by (simp add: one_job_directory disputed_job_def verified_job_def)
  have "js_status disputed_job = JobDisputed" by (simp add: disputed_job_def)
  with daemon_epoch [OF n, of 100] j show ?thesis by fastforce
qed

end
