(* ===== verification/InferenceTx.thy ===== *)
theory InferenceTx
  imports IdentityTx InferenceDaemon
begin

text \<open>
  Submission of inference entries: their arms in \<open>validate_and_apply\<close> of \<open>tx.rs\<close>, with the stale guard and the fee
  check before them and the fee after them. Awards and payments come from the node alone. The theorems say
  what an accepted entry was authorised by, and that the score of a verdict is not covered by the signature.
\<close>

section \<open>Entries\<close>

text \<open>
  A submitted entry: what \<open>apply_entry\<close> reads, and the fields only validation reads. \<open>jx_epoch\<close> is the epoch of
  a cancellation; the other entries carry theirs.
\<close>

record inference_tx =
  jx_entry :: inference_entry
  jx_epoch :: u64
  jx_nonce :: u64
  jx_signed_by :: string

text \<open>The account an entry acts for; awards and payments have none.\<close>

fun inference_actor :: "inference_entry \<Rightarrow> string option" where
  "inference_actor (InferenceJobPost _ requester _ _ _ _ _ _ _ _ _ _ _) = Some requester"
| "inference_actor (InferenceJobBid _ bidder _ _ _) = Some bidder"
| "inference_actor (InferenceJobComplete _ worker _ _ _) = Some worker"
| "inference_actor (InferenceJobCommit _ verifier _ _) = Some verifier"
| "inference_actor (InferenceJobVerify _ verifier _ _ _ _) = Some verifier"
| "inference_actor (InferenceJobClaim _ claimant _) = Some claimant"
| "inference_actor (InferenceReviewVote _ reviewer _ _) = Some reviewer"
| "inference_actor (InferenceJobCancel _ cancelled_by) = Some cancelled_by"
| "inference_actor _ = None"

text \<open>Posts, bids, claims and cancellations have a nonce.\<close>

fun inference_nonced :: "inference_entry \<Rightarrow> bool" where
  "inference_nonced (InferenceJobPost _ _ _ _ _ _ _ _ _ _ _ _ _) = True"
| "inference_nonced (InferenceJobBid _ _ _ _ _) = True"
| "inference_nonced (InferenceJobClaim _ _ _) = True"
| "inference_nonced (InferenceJobCancel _ _) = True"
| "inference_nonced _ = False"

definition inference_epoch :: "inference_tx \<Rightarrow> u64 option" where
  "inference_epoch T = (case jx_entry T of
       InferenceJobPost _ _ _ _ _ _ _ _ _ epoch _ _ _ \<Rightarrow> Some epoch
     | InferenceJobBid _ _ _ _ epoch \<Rightarrow> Some epoch
     | InferenceJobComplete _ _ _ _ epoch \<Rightarrow> Some epoch
     | InferenceJobCommit _ _ _ epoch \<Rightarrow> Some epoch
     | InferenceJobVerify _ _ _ _ epoch _ \<Rightarrow> Some epoch
     | InferenceJobClaim _ _ epoch \<Rightarrow> Some epoch
     | InferenceReviewVote _ _ _ epoch \<Rightarrow> Some epoch
     | InferenceJobCancel _ _ \<Rightarrow> Some (jx_epoch T)
     | _ \<Rightarrow> None)"

definition inference_fields :: "inference_tx \<Rightarrow> (string \<times> json) list" where
  "inference_fields T = (case jx_entry T of
       InferenceJobPost _ requester model _ _ max_fee _ _ _ _ _ _ _ \<Rightarrow>
         [(''type'', JStr ''INFERENCE_JOB_POST''), (''requester'', JStr requester), (''model'', JStr model),
          (''max_fee'', JNum max_fee), (''nonce'', JNum (jx_nonce T))]
     | InferenceJobBid job_id bidder fee role _ \<Rightarrow>
         [(''type'', JStr ''INFERENCE_JOB_BID''), (''bidder'', JStr bidder), (''job_id'', JStr job_id),
          (''fee'', JNum fee), (''role'', JStr role), (''nonce'', JNum (jx_nonce T))]
     | InferenceJobComplete job_id worker result_hash _ _ \<Rightarrow>
         [(''type'', JStr ''INFERENCE_JOB_COMPLETE''), (''worker'', JStr worker), (''job_id'', JStr job_id),
          (''result_hash'', JStr result_hash)]
     | InferenceJobCommit job_id verifier commit_hash _ \<Rightarrow>
         [(''type'', JStr ''INFERENCE_JOB_COMMIT''), (''verifier'', JStr verifier), (''job_id'', JStr job_id),
          (''commit_hash'', JStr commit_hash)]
     | InferenceJobVerify job_id verifier verdict _ _ _ \<Rightarrow>
         [(''type'', JStr ''INFERENCE_JOB_VERIFY''), (''verifier'', JStr verifier), (''job_id'', JStr job_id),
          (''verdict'', JStr verdict)]
     | InferenceJobClaim job_id claimant _ \<Rightarrow>
         [(''type'', JStr ''INFERENCE_JOB_CLAIM''), (''claimant'', JStr claimant), (''job_id'', JStr job_id),
          (''nonce'', JNum (jx_nonce T))]
     | InferenceReviewVote job_id reviewer approved _ \<Rightarrow>
         [(''type'', JStr ''INFERENCE_REVIEW_VOTE''), (''reviewer'', JStr reviewer), (''job_id'', JStr job_id),
          (''approved'', JBool approved)]
     | InferenceJobCancel job_id cancelled_by \<Rightarrow>
         [(''type'', JStr ''INFERENCE_JOB_CANCEL''), (''cancelled_by'', JStr cancelled_by), (''job_id'', JStr job_id),
          (''nonce'', JNum (jx_nonce T))]
     | _ \<Rightarrow> [])"

definition inference_message :: "env \<Rightarrow> node \<Rightarrow> inference_tx \<Rightarrow> string" where
  "inference_message E N T = json_print E (jobj ((''chain_id'', JStr (chain_id N)) # inference_fields T))"

section \<open>The arms\<close>

text \<open>\<open>check_signature\<close> with the role \<open>posting\<close>.\<close>

definition check_inference_signature :: "env \<Rightarrow> node \<Rightarrow> inference_tx \<Rightarrow> string option \<Rightarrow> unit chain_act" where
  "check_inference_signature E N T sig_hex =
     andThen (reads (\<lambda>s. get_account s (jx_signed_by T))) (\<lambda>st.
     case Option.bind st (\<lambda>state. role_key state ''posting'') of
       None \<Rightarrow> ret ()
     | Some pubkey_hex \<Rightarrow> verify_against_pubkey E (inference_message E N T) pubkey_hex sig_hex)"

definition inference_checks :: "env \<Rightarrow> node \<Rightarrow> inference_tx \<Rightarrow> string \<Rightarrow> string option \<Rightarrow> unit chain_act" where
  "inference_checks E N T actor sig_hex =
     seq (ensure (jx_signed_by T = actor) (Err ''signed_by must equal the actor''))
    (seq (require_key actor)
    (seq (when_do (inference_nonced (jx_entry T)) (check_nonce actor (jx_nonce T)))
         (check_inference_signature E N T sig_hex)))"

definition validate_inference :: "env \<Rightarrow> node \<Rightarrow> inference_tx \<Rightarrow> string option \<Rightarrow> unit chain_act" where
  "validate_inference E N T sig_hex = (case inference_actor (jx_entry T) of
       None \<Rightarrow> bail (Err ''entry type is not externally submittable'')
     | Some actor \<Rightarrow>
         seq (inference_checks E N T actor sig_hex)
        (seq (apply_inference_entry E (jx_entry T))
             (when_do (inference_nonced (jx_entry T)) (bump_nonce actor))))"

definition inference_stale_guard :: "inference_tx \<Rightarrow> unit chain_act" where
  "inference_stale_guard T = (case inference_epoch T of
       None \<Rightarrow> ret ()
     | Some epoch \<Rightarrow>
        andThen (reads current_epoch) (\<lambda>current.
        ensure (\<not> (current > STALE_WINDOW \<and> epoch < current - STALE_WINDOW)) (Err ''entry epoch is too stale'')))"

text \<open>The payer of the fee is \<open>signed_by\<close>, a field that awards and payments do not have.\<close>

definition inference_payer :: "inference_tx \<Rightarrow> string option" where
  "inference_payer T = (if inference_actor (jx_entry T) = None then None else Some (jx_signed_by T))"

definition inference_fee :: "env \<Rightarrow> chain \<Rightarrow> u64" where
  "inference_fee E s = sat_mul (read_base_fee E s) ENTRY_WEIGHT_HEAVY"

definition submit_inference :: "env \<Rightarrow> node \<Rightarrow> inference_tx \<Rightarrow> string option \<Rightarrow> unit chain_act" where
  "submit_inference E N T sig_hex =
     seq (inference_stale_guard T)
    (andThen (reads (\<lambda>s. case inference_payer T of None \<Rightarrow> True
        | Some payer \<Rightarrow> inference_fee E s = 0 \<or> get_balance s payer NATIVE_TOKEN \<ge> inference_fee E s)) (\<lambda>covered.
     seq (ensure covered (Err ''insufficient balance for entry fee''))
    (seq (validate_inference E N T sig_hex)
    (andThen (reads (inference_fee E)) (\<lambda>fee.
     case inference_payer T of None \<Rightarrow> ret () | Some payer \<Rightarrow> when_do (fee > 0) (move_fee payer fee))))))"

section \<open>Authorisation\<close>

definition inference_signed :: "env \<Rightarrow> node \<Rightarrow> inference_tx \<Rightarrow> string \<Rightarrow> string option \<Rightarrow> bool" where
  "inference_signed E N T k sig \<longleftrightarrow> (\<exists>t pk sg. sig = Some t \<and> t \<noteq> [] \<and> hex_bytes E 32 k = Some pk \<and>
     hex_bytes E 64 t = Some sg \<and> ed25519_verify E pk (inference_message E N T) sg)"

lemma check_inference_signature_Inr [guard_simps]:
  "check_inference_signature E N T sig s = (Inr x, s') \<longleftrightarrow>
     (\<forall>st k. get_account s (jx_signed_by T) = Some st \<longrightarrow> role_key st ''posting'' = Some k \<longrightarrow> inference_signed E N T k sig) \<and>
     s' = s"
  by (auto simp: check_inference_signature_def verify_against_pubkey_def inference_signed_def andThen_Inr guard_simps ret_apply
      split: option.splits bind_splits if_splits)

lemma inference_checks_Inr:
  "inference_checks E N T a sig s = (Inr x, s') \<longleftrightarrow>
     jx_signed_by T = a \<and>
     (a \<in> set STAKE_EXEMPT_ACCOUNTS \<or> (\<forall>st. get_account s a = Some st \<longrightarrow> role_key st ''posting'' \<noteq> None)) \<and>
     (inference_nonced (jx_entry T) \<longrightarrow> jx_nonce T = next_nonce s a) \<and>
     (\<forall>st k. get_account s a = Some st \<longrightarrow> role_key st ''posting'' = Some k \<longrightarrow> inference_signed E N T k sig) \<and> s' = s"
  by (auto simp: inference_checks_def seq_Inr when_do_apply ret_apply guard_simps split: if_splits)

text \<open>
  An accepted inference entry was authorised by its account. It is neither an award nor a payment; it was signed
  by the account it acts for, with the account's next nonce where the entry has one; if the account exists
  and is not one of the protocol's own, it has a posting key and the signature was made with that
  key over the message of the entry.
\<close>

theorem inference_entry_authorised:
  assumes run: "submit_inference E N T sig s = (Inr (), s')"
  shows "\<exists>a. inference_actor (jx_entry T) = Some a \<and> jx_signed_by T = a \<and>
    (inference_nonced (jx_entry T) \<longrightarrow> jx_nonce T = next_nonce s a) \<and>
    (\<forall>st. get_account s a = Some st \<longrightarrow> a \<notin> set STAKE_EXEMPT_ACCOUNTS \<longrightarrow>
       (\<exists>k. role_key st ''posting'' = Some k \<and> inference_signed E N T k sig))"
proof -
  obtain u t where v: "validate_inference E N T sig u = (Inr (), t)" and u: "u = s"
    using run by (auto simp: submit_inference_def inference_stale_guard_def andThen_Inr seq_Inr guard_simps ret_apply
      split: option.splits)
  then obtain a w where "inference_actor (jx_entry T) = Some a" "inference_checks E N T a sig s = (Inr (), w)"
    by (auto simp: validate_inference_def seq_Inr bail_apply split: option.splits)
  then show ?thesis by (auto simp: inference_checks_Inr)
qed

section \<open>The score of a verdict\<close>

definition recorded_score :: "env \<Rightarrow> u64 \<Rightarrow> string \<Rightarrow> chain \<Rightarrow> u64" where
  "recorded_score E e v s =
    (case state_json E s (infer_verify_key e v) of Some j \<Rightarrow> the_u64 j ''value_score_total'' 0 | None \<Rightarrow> 0)"

definition scores :: "env \<Rightarrow> u64 \<Rightarrow> string \<Rightarrow> u64 \<Rightarrow> 'a chain_act \<Rightarrow> bool" where
  "scores E e v n m \<longleftrightarrow> (\<forall>s x s'. m s = (Inr x, s') \<longrightarrow> recorded_score E e v s' = recorded_score E e v s + n)"

lemma scores_bind:
  "keeps (recorded_score E e v) m \<Longrightarrow> (\<And>x. scores E e v n (k x)) \<Longrightarrow> scores E e v n (andThen m k)"
  unfolding scores_def by (fastforce simp: andThen_Inr dest: keepsD)

lemma scores_seq: "keeps (recorded_score E e v) m \<Longrightarrow> scores E e v n k \<Longrightarrow> scores E e v n (seq m k)"
  unfolding seq_def by (rule scores_bind)

lemma keeps_score_set: "k \<noteq> infer_verify_key e v \<Longrightarrow> keeps (recorded_score E e v) (state_set k x)"
  by (simp add: keeps_def recorded_score_def state_json_def state_set_def state_get_def act_simps)

lemma keeps_score_meta: "keeps cf_meta m \<Longrightarrow> keeps (recorded_score E e v) m"
  by (simp add: keeps_def recorded_score_def state_json_def state_get_def)

lemma scores_count:
  assumes "keeps (recorded_score E e v) k"
  shows "scores E e v n (seq (count_verification E e v n) k)"
  unfolding scores_def
proof (intro allI impI)
  fix s x s'
  assume run: "seq (count_verification E e v n) k s = (Inr x, s')"
  obtain t where t: "count_verification E e v n s = (Inr (), t)"
    by (simp add: count_verification_def Let_def act_simps state_set_def)
  have total: "the_u64 (jobj [(''verifier'', a), (''epoch'', b), (''count'', c), (''value_score_total'', JNum r)]) ''value_score_total'' 0 = r"
    for a b c r by (simp add: the_u64_def)
  have "recorded_score E e v t = recorded_score E e v s + n"
    using t total by (auto simp: count_verification_def Let_def act_simps state_set_def recorded_score_def state_json_def state_get_def
      split: option.splits)
  moreover have "recorded_score E e v s' = recorded_score E e v t"
    using run t keepsD [OF assms, of t] by (auto simp: seq_apply)
  ultimately show "recorded_score E e v s' = recorded_score E e v s + n" by simp
qed

lemma keeps_score_parts:
  "keeps (recorded_score E e v) (amend_reputation E a f)" "keeps (recorded_score E e v) (set_job j)"
  "keeps (recorded_score E e v) (update_verifier_approval_rate E w b)" "keeps (recorded_score E e v) (settle_verdict E j e')"
  "keeps (recorded_score E e v) (check_reveal E j w d t)" "keeps (recorded_score E e v) (check_assignment E i w e')"
proof -
  have k: "''node_rep:'' @ x \<noteq> infer_verify_key e v" "''infer_job:'' @ x \<noteq> infer_verify_key e v"
    "''verifier_rep:'' @ x \<noteq> infer_verify_key e v" for x
    by (simp_all add: infer_verify_key_def)
  note sets = k [THEN keeps_score_set]
  show rep: "keeps (recorded_score E e v) (amend_reputation E a f)" for a f
    unfolding amend_reputation_def set_reputation_def save_record_def node_rep_key_def by (intro keeps_intros sets)
  show "keeps (recorded_score E e v) (set_job j)"
    unfolding set_job_def save_record_def infer_job_key_def by (intro sets)
  show "keeps (recorded_score E e v) (update_verifier_approval_rate E w b)"
    unfolding update_verifier_approval_rate_def verifier_rep_key_def by (intro keeps_intros sets)
  show "keeps (recorded_score E e v) (settle_verdict E j e')"
    unfolding settle_verdict_def by (intro keeps_intros rep)
qed (unfold check_reveal_def check_assignment_def, (intro keeps_intros)+)

lemma verify_scores: "scores E e v n (apply_infer_verify E i v d n e t)"
  unfolding apply_infer_verify_def
  by (intro scores_bind scores_seq scores_count keeps_score_parts keeps_ensure keeps_reads keeps_need keeps_andThen keeps_when_do)

text \<open>Whether the verdict is accepted does not depend on the score.\<close>

lemma same_outcome_bind:
  "(\<And>x t. fst (f x t) = fst (g x t)) \<Longrightarrow> fst (andThen m f s) = fst (andThen m g s)"
  by (simp add: andThen_apply split: prod.split sum.split)

lemma same_outcome_seq: "(\<And>t. fst (f t) = fst (g t)) \<Longrightarrow> fst (seq m f s) = fst (seq m g s)"
  unfolding seq_def by (rule same_outcome_bind)

lemma same_outcome_approval:
  assumes "state_json E s (verifier_rep_key v) = state_json E t (verifier_rep_key v)"
  shows "fst (update_verifier_approval_rate E v b s) = fst (update_verifier_approval_rate E v b t)"
  using assms by (simp add: update_verifier_approval_rate_def act_simps with_fields_def state_set_def split: prod.split option.split)

lemma same_outcome_count:
  "fst (seq (count_verification E e v n) (update_verifier_approval_rate E v b) s) =
    fst (seq (count_verification E e v m) (update_verifier_approval_rate E v b) s)"
proof -
  obtain t u where tu: "count_verification E e v n s = (Inr (), t)" "count_verification E e v m s = (Inr (), u)"
    by (simp add: count_verification_def Let_def act_simps state_set_def)
  have "infer_verify_key e v \<noteq> verifier_rep_key v" by (simp add: infer_verify_key_def verifier_rep_key_def)
  then have "state_json E t (verifier_rep_key v) = state_json E u (verifier_rep_key v)"
    using tu by (auto simp: count_verification_def Let_def act_simps state_set_def state_json_def state_get_def)
  from same_outcome_approval [OF this] tu show ?thesis by (simp add: seq_apply)
qed

lemma same_outcome_verify: "fst (apply_infer_verify E i v d n e t s) = fst (apply_infer_verify E i v d m e t s)"
  unfolding apply_infer_verify_def by (intro same_outcome_bind same_outcome_seq same_outcome_count)

text \<open>
  The score of a verdict is not signed. If a verdict is accepted, the same verdict with any other score is accepted
  with the same signature, and that score is what the verifier's record of the epoch grows by.
\<close>

theorem verdict_score_forgeable:
  assumes T: "jx_entry T = InferenceJobVerify i v d n e t" and run: "submit_inference E N T sig s = (Inr (), s1)"
  shows "\<exists>s2. submit_inference E N (T\<lparr>jx_entry := InferenceJobVerify i v d m e t\<rparr>) sig s = (Inr (), s2) \<and>
    recorded_score E e v s2 = recorded_score E e v s + m"
proof -
  let ?T = "T\<lparr>jx_entry := InferenceJobVerify i v d m e t\<rparr>"
  have msg: "inference_message E N ?T = inference_message E N T"
    by (simp add: inference_message_def inference_fields_def T)
  have same: "inference_stale_guard ?T = inference_stale_guard T" "inference_payer ?T = inference_payer T"
      "inference_checks E N ?T v sig = inference_checks E N T v sig"
    unfolding inference_checks_def check_inference_signature_def msg
    by (simp_all add: inference_stale_guard_def inference_epoch_def inference_payer_def T)
  have g: "inference_stale_guard T s = (Inr (), s)" and c: "case inference_payer T of None \<Rightarrow> True
      | Some p \<Rightarrow> inference_fee E s = 0 \<or> get_balance s p NATIVE_TOKEN \<ge> inference_fee E s"
    and ok: "inference_checks E N T v sig s = (Inr (), s)" and "\<exists>u. apply_infer_verify E i v d n e t s = (Inr (), u)"
    using run T by (auto simp: submit_inference_def validate_inference_def inference_stale_guard_def inference_checks_Inr
      andThen_Inr seq_Inr guard_simps ret_apply split: option.splits)
  then have "fst (apply_infer_verify E i v d m e t s) = Inr ()" using same_outcome_verify [of E i v d n e t s m] by auto
  then obtain u where u: "apply_infer_verify E i v d m e t s = (Inr (), u)" by (metis prod.collapse)
  have val: "validate_inference E N ?T sig s = (Inr (), u)"
    using ok u same by (simp add: validate_inference_def seq_apply when_do_apply ret_apply)
  let ?fee = "case inference_payer T of None \<Rightarrow> ret () | Some p \<Rightarrow> when_do (inference_fee E u > 0) (move_fee p (inference_fee E u))"
  have "\<exists>w. move_fee p f u = (Inr (), w)" for p f by (rule move_fee_result)
  then obtain s2 where s2: "?fee u = (Inr (), s2)"
    by (cases "inference_payer T"; cases "inference_fee E u > 0") (auto simp: when_do_apply ret_apply)
  have "submit_inference E N ?T sig s = (Inr (), s2)"
    using g c val s2 by (simp add: submit_inference_def same seq_apply andThen_apply reads_apply ensure_apply)
  moreover have "keeps (recorded_score E e v) ?fee"
    unfolding move_fee_def by (rule keeps_score_meta) (intro keeps_intros)
  then have "recorded_score E e v s2 = recorded_score E e v u" using s2 by (rule keepsD)
  moreover have "recorded_score E e v u = recorded_score E e v s + m"
    using verify_scores [of E e v m i d t] u unfolding scores_def by blast
  ultimately show ?thesis by auto
qed

definition completed_job :: JobState where
  "completed_job = verified_job\<lparr>js_status := JobCompleted, js_verdicts := [], js_min_verifiers := 1\<rparr>"

definition demo_verdict_chain :: chain where
  "demo_verdict_chain = snd (set_job completed_job demo_keyed)"

definition demo_verdict :: inference_tx where
  "demo_verdict = \<lparr>jx_entry = InferenceJobVerify ''j'' ''alice'' ''approved'' 1 0 None, jx_epoch = 0, jx_nonce = 0, jx_signed_by = ''alice''\<rparr>"

lemma demo_verdict_chain_facts:
  "infer_get_job E demo_verdict_chain ''j'' = Some completed_job" "cf_accounts demo_verdict_chain = cf_accounts demo_keyed"
  "cf_balances demo_verdict_chain = cf_balances demo_keyed" "current_epoch demo_verdict_chain = current_epoch demo_keyed"
  "k \<noteq> infer_job_key ''j'' \<Longrightarrow> state_get demo_verdict_chain k = state_get demo_keyed k"
  using set_job_directory [of E completed_job demo_keyed]
  by (auto simp: demo_verdict_chain_def completed_job_def verified_job_def set_job_def save_record_def state_set_def state_get_def act_simps)

lemma approval_first: "state_json E s (verifier_rep_key v) = None \<Longrightarrow> fst (update_verifier_approval_rate E v b s) = Inr ()"
  by (simp add: update_verifier_approval_rate_def andThen_apply reads_apply with_fields_def need_apply state_set_def modify_apply
    split: prod.split)

lemma count_first_verdict:
  assumes "state_json E s (verifier_rep_key v) = None"
  shows "fst (seq (count_verification E e v n) (update_verifier_approval_rate E v b) s) = Inr ()"
proof -
  obtain u where u: "count_verification E e v n s = (Inr (), u)"
    by (simp add: count_verification_def Let_def act_simps state_set_def)
  have "infer_verify_key e v \<noteq> verifier_rep_key v" by (simp add: infer_verify_key_def verifier_rep_key_def)
  then have "state_json E u (verifier_rep_key v) = None"
    using u assms by (auto simp: count_verification_def Let_def act_simps state_set_def state_json_def state_get_def)
  then show ?thesis using u by (simp add: seq_apply approval_first)
qed

lemma demo_verdict_applies: "fst (apply_infer_verify E ''j'' ''alice'' ''approved'' n 0 None demo_verdict_chain) = Inr ()"
proof -
  let ?j = "completed_job\<lparr>js_verdicts := [(''alice'', ''approved'')]\<rparr>" and ?s = demo_verdict_chain
  have job: "js_status completed_job = JobCompleted" "js_winner completed_job = Some ''bob''" "js_verifiers completed_job = []"
    "js_verdicts completed_job = []" "js_min_verifiers completed_job = 1"
    by (simp_all add: completed_job_def verified_job_def)
  have "resolve_quorum_verdict [(''alice'', ''approved'')] 1 = Some ''approved''"
    by (subst resolve_unat) (simp_all add: verdicts_for_def)
  then have st: "settle_verdict E ?j 0 ?s = (Inr (?j\<lparr>js_status := JobVerified\<rparr>), ?s)"
    by (simp add: settle_verdict_def job ret_apply)
  have rep: "state_json E ?s (verifier_rep_key ''alice'') = None"
    by (simp add: state_json_def demo_verdict_chain_facts infer_job_key_def verifier_rep_key_def)
      (simp add: state_get_def demo_keyed_def empty_chain_def kv_get_def)
  obtain t where t: "set_job (?j\<lparr>js_status := JobVerified\<rparr>) ?s = (Inr (), t)" by (simp add: set_job_def save_record_apply)
  then have "state_json E t (verifier_rep_key ''alice'') = None"
    using rep by (auto simp: set_job_def save_record_def state_set_def state_json_def state_get_def act_simps
      infer_job_key_def verifier_rep_key_def)
  then have "fst (seq (count_verification E 0 ''alice'' n) (update_verifier_approval_rate E ''alice'' True) t) = Inr ()"
    by (rule count_first_verdict)
  then show ?thesis
    using st t rep job
    by (simp add: apply_infer_verify_def demo_verdict_chain_facts andThen_apply seq_apply reads_apply need_apply ensure_apply when_do_apply
      ret_apply INFERENCE_COMMIT_REVEAL_ENABLED_def VERIFIER_ASSIGNMENT_ENABLED_def the_u64_def jget_def)
qed

lemma demo_verdict_accepted:
  "\<exists>s'. submit_inference demo_env demo_node demo_verdict (Some demo_sig) demo_verdict_chain = (Inr (), s')"
proof -
  let ?s = demo_verdict_chain
  obtain u where u: "apply_infer_verify demo_env ''j'' ''alice'' ''approved'' 1 0 None ?s = (Inr (), u)"
    using demo_verdict_applies [of demo_env 1] by (metis prod.collapse)
  have acc: "get_account ?s a = get_account demo_keyed a" for a by (simp add: get_account_def demo_verdict_chain_facts)
  have "inference_signed demo_env demo_node demo_verdict demo_key (Some demo_sig)"
    using demo_hex_bytes by (simp add: inference_signed_def hex_bytes_def demo_env_def demo_sig_def demo_key_def)
  then have "inference_checks demo_env demo_node demo_verdict ''alice'' (Some demo_sig) ?s = (Inr (), ?s)"
    by (simp add: inference_checks_Inr acc demo_keyed_account role_key_def demo_key_def) (simp add: demo_verdict_def)
  with u have v: "validate_inference demo_env demo_node demo_verdict (Some demo_sig) ?s = (Inr (), u)"
    by (simp add: validate_inference_def demo_verdict_def seq_apply when_do_apply ret_apply)
  have "read_base_fee demo_env ?s = 10000000"
    by (simp add: read_base_fee_def state_json_def demo_verdict_chain_facts infer_job_key_def)
      (simp add: state_get_def demo_keyed_def empty_chain_def kv_get_def BASE_FEE_INITIAL_HUNITS_def)
  moreover have "get_balance ?s ''alice'' NATIVE_TOKEN = 1000000000"
    using demo_keyed_facts(5) by (simp add: get_balance_def demo_verdict_chain_facts)
  moreover have "inference_stale_guard demo_verdict ?s = (Inr (), ?s)"
    by (simp add: inference_stale_guard_def inference_epoch_def demo_verdict_def demo_verdict_chain_facts act_simps
      demo_keyed_def empty_chain_def STALE_WINDOW_def)
  moreover have "\<exists>s'. move_fee ''alice'' f u = (Inr (), s')" for f by (rule move_fee_result)
  ultimately show ?thesis using v
    by (simp add: submit_inference_def seq_apply andThen_apply reads_apply ensure_apply inference_fee_def sat_mul_def
      ENTRY_WEIGHT_HEAVY_def inference_payer_def when_do_apply ret_apply) (simp add: demo_verdict_def)
qed

theorem inference_entry_authorised_witness:
  "inference_signed demo_env demo_node demo_verdict demo_key (Some demo_sig)"
proof -
  obtain s' where "submit_inference demo_env demo_node demo_verdict (Some demo_sig) demo_verdict_chain = (Inr (), s')"
    using demo_verdict_accepted by blast
  from inference_entry_authorised [OF this] show ?thesis
    by (auto simp: demo_verdict_def get_account_def demo_verdict_chain_facts demo_keyed_def STAKE_EXEMPT_ACCOUNTS_def kv_get_def
      role_key_def demo_key_def)
qed

theorem verdict_score_forgeable_witness:
  "\<exists>s2. submit_inference demo_env demo_node (demo_verdict\<lparr>jx_entry := InferenceJobVerify ''j'' ''alice'' ''approved'' 1000000 0 None\<rparr>)
      (Some demo_sig) demo_verdict_chain = (Inr (), s2) \<and> recorded_score demo_env 0 ''alice'' s2 = 1000000"
proof -
  obtain s' where "submit_inference demo_env demo_node demo_verdict (Some demo_sig) demo_verdict_chain = (Inr (), s')"
    using demo_verdict_accepted by blast
  moreover have "jx_entry demo_verdict = InferenceJobVerify ''j'' ''alice'' ''approved'' 1 0 None" by (simp add: demo_verdict_def)
  moreover have "recorded_score demo_env 0 ''alice'' demo_verdict_chain = 0"
    by (simp add: recorded_score_def state_json_def demo_verdict_chain_facts infer_job_key_def infer_verify_key_def)
      (simp add: state_get_def demo_keyed_def empty_chain_def kv_get_def)
  ultimately show ?thesis using verdict_score_forgeable [of demo_verdict _ _ _ _ _ _ demo_env demo_node "Some demo_sig" demo_verdict_chain _ 1000000]
    by fastforce
qed

end
