(* ===== verification/PrivateAuth.thy ===== *)
theory PrivateAuth
  imports AgentTask
begin

text \<open>
  Private authorisation (\<open>private_auth.rs\<close>): groups of members with a threshold, and the record of who approved a
  transaction. The theorems are that a decided approval is final and that anyone can decide one.
\<close>

section \<open>State\<close>

record MemberKey =
  mk_account :: string
  mk_pubkey :: string

record AuthGroup =
  gr_group_id :: string
  gr_members :: "MemberKey list"
  gr_threshold_n :: u32
  gr_threshold_m :: u32

record ApprovalRecord =
  ap_group_id :: string
  ap_tx_hash :: string
  ap_approvals :: "string list"
  ap_finalized :: bool

definition MemberKey_json :: "MemberKey \<Rightarrow> json" where
  "MemberKey_json k = jobj [(''account'', JStr (mk_account k)), (''pubkey'', JStr (mk_pubkey k))]"

definition MemberKey_of_json :: "json \<Rightarrow> MemberKey option" where
  "MemberKey_of_json j =
     Option.bind (field_str j ''account'') (\<lambda>account.
     Option.bind (field_str j ''pubkey'') (\<lambda>pubkey.
     Some \<lparr>mk_account = account, mk_pubkey = pubkey\<rparr>))"

definition AuthGroup_json :: "AuthGroup \<Rightarrow> json" where
  "AuthGroup_json g = jobj [(''group_id'', JStr (gr_group_id g)), (''members'', vec_json MemberKey_json (gr_members g)),
     (''threshold_n'', u32_json (gr_threshold_n g)), (''threshold_m'', u32_json (gr_threshold_m g))]"

definition AuthGroup_of_json :: "json \<Rightarrow> AuthGroup option" where
  "AuthGroup_of_json j =
     Option.bind (field_str j ''group_id'') (\<lambda>group_id.
     Option.bind (field_vec MemberKey_of_json j ''members'') (\<lambda>members.
     Option.bind (Option.bind (jfield j ''threshold_n'') as_u32) (\<lambda>threshold_n.
     Option.bind (Option.bind (jfield j ''threshold_m'') as_u32) (\<lambda>threshold_m.
     Some \<lparr>gr_group_id = group_id, gr_members = members, gr_threshold_n = threshold_n, gr_threshold_m = threshold_m\<rparr>))))"

definition ApprovalRecord_json :: "ApprovalRecord \<Rightarrow> json" where
  "ApprovalRecord_json r = jobj [(''group_id'', JStr (ap_group_id r)), (''tx_hash'', JStr (ap_tx_hash r)),
     (''approvals'', jstrs (ap_approvals r)), (''finalized'', JBool (ap_finalized r))]"

definition ApprovalRecord_of_json :: "json \<Rightarrow> ApprovalRecord option" where
  "ApprovalRecord_of_json j =
     Option.bind (field_str j ''group_id'') (\<lambda>group_id.
     Option.bind (field_str j ''tx_hash'') (\<lambda>tx_hash.
     Option.bind (Option.bind (jfield j ''approvals'') as_strs) (\<lambda>approvals.
     Option.bind (field_bool j ''finalized'') (\<lambda>finalized.
     Some \<lparr>ap_group_id = group_id, ap_tx_hash = tx_hash, ap_approvals = approvals, ap_finalized = finalized\<rparr>))))"

interpretation member_keys: record_codec MemberKey_json MemberKey_of_json
  by unfold_locales (simp add: MemberKey_of_json_def MemberKey_json_def field_defs)

interpretation auth_groups: record_codec AuthGroup_json AuthGroup_of_json
  by unfold_locales
    (simp add: AuthGroup_of_json_def AuthGroup_json_def field_str_def field_vec_def member_keys.as_vec_json as_u32_json)

interpretation approval_records: record_codec ApprovalRecord_json ApprovalRecord_of_json
  by unfold_locales (simp add: ApprovalRecord_of_json_def ApprovalRecord_json_def field_defs)

definition auth_group_key :: "string \<Rightarrow> string" where
  "auth_group_key i = ''private_auth_group:'' @ i"

definition auth_approval_key :: "string \<Rightarrow> string" where
  "auth_approval_key tx_hash = ''private_auth_approval:'' @ tx_hash"

section \<open>Operations\<close>

definition enrolled :: "AuthGroup \<Rightarrow> string \<Rightarrow> string \<Rightarrow> u32 \<Rightarrow> u32 \<Rightarrow> AuthGroup" where
  "enrolled g member member_pubkey threshold_n threshold_m =
     g\<lparr>gr_members := (if list_ex (\<lambda>k. mk_account k = member) (gr_members g) then gr_members g
         else gr_members g @ [\<lparr>mk_account = member, mk_pubkey = member_pubkey\<rparr>]),
       gr_threshold_n := threshold_n, gr_threshold_m := threshold_m\<rparr>"

definition apply_enroll :: "env \<Rightarrow> string \<Rightarrow> string \<Rightarrow> string \<Rightarrow> u32 \<Rightarrow> u32 \<Rightarrow> unit chain_act" where
  "apply_enroll E group_id member member_pubkey threshold_n threshold_m =
     seq (ensure (threshold_m \<le> threshold_n \<and> threshold_m \<ge> 1) (Err ''invalid threshold''))
    (andThen (reads (\<lambda>s. case peek E AuthGroup_of_json s (auth_group_key group_id) of Some g \<Rightarrow> g
        | None \<Rightarrow> \<lparr>gr_group_id = group_id, gr_members = [], gr_threshold_n = threshold_n, gr_threshold_m = threshold_m\<rparr>)) (\<lambda>group.
     save_record AuthGroup_json (auth_group_key group_id) (enrolled group member member_pubkey threshold_n threshold_m)))"

definition approved_by :: "ApprovalRecord \<Rightarrow> AuthGroup \<Rightarrow> string \<Rightarrow> ApprovalRecord" where
  "approved_by r g approver =
    (let approvals = (if approver \<in> set (ap_approvals r) then ap_approvals r else ap_approvals r @ [approver]) in
     r\<lparr>ap_approvals := approvals,
       ap_finalized := (if word_of_nat (length approvals) \<ge> gr_threshold_m g then True else ap_finalized r)\<rparr>)"

definition apply_approve :: "env \<Rightarrow> string \<Rightarrow> string \<Rightarrow> string \<Rightarrow> bool chain_act" where
  "apply_approve E group_id tx_hash approver =
     andThen (load_record E AuthGroup_of_json (auth_group_key group_id) ''group not found'') (\<lambda>group.
     seq (ensure (list_ex (\<lambda>k. mk_account k = approver) (gr_members group)) (Err ''approver is not a member of group''))
    (andThen (reads (\<lambda>s. case peek E ApprovalRecord_of_json s (auth_approval_key tx_hash) of Some r \<Rightarrow> r
        | None \<Rightarrow> \<lparr>ap_group_id = group_id, ap_tx_hash = tx_hash, ap_approvals = [], ap_finalized = False\<rparr>)) (\<lambda>record.
     seq (ensure (\<not> ap_finalized record) (Err ''approval already finalized''))
    (let r = approved_by record group approver in
     seq (save_record ApprovalRecord_json (auth_approval_key tx_hash) r)
         (ret (word_of_nat (length (ap_approvals r)) \<ge> gr_threshold_m group))))))"

datatype auth_entry =
    PrivateAuthEnroll string string string u32 u32 u64
  | PrivateAuthApprove string string string u64

definition apply_auth_entry :: "env \<Rightarrow> auth_entry \<Rightarrow> unit chain_act" where
  "apply_auth_entry E x = (case x of
       PrivateAuthEnroll group_id member member_pubkey threshold_n threshold_m epoch \<Rightarrow>
         seq (touch_alive E member epoch)
        (seq (ensure_account member epoch)
             (apply_enroll E group_id member member_pubkey threshold_n threshold_m))
     | PrivateAuthApprove group_id tx_hash approver epoch \<Rightarrow>
         seq (touch_alive E approver epoch)
        (seq (ensure_account approver epoch)
        (seq (apply_approve E group_id tx_hash approver) (ret ()))))"

fun run_auth :: "env \<Rightarrow> auth_entry list \<Rightarrow> chain \<Rightarrow> chain" where
  "run_auth E [] s = s"
| "run_auth E (x # xs) s = run_auth E xs (snd (apply_auth_entry E x s))"

section \<open>A decided approval is final\<close>

abbreviation approval :: "env \<Rightarrow> string \<Rightarrow> chain \<Rightarrow> ApprovalRecord option" where
  "approval E tx s \<equiv> peek E ApprovalRecord_of_json s (auth_approval_key tx)"

lemma keeps_peek_set: "k' \<noteq> k \<Longrightarrow> keeps (\<lambda>s. peek E rd s k) (state_set k' v)"
  by (simp add: keeps_def peek_state_get state_set_def state_get_def act_simps)

lemma keeps_peek_arm:
  assumes "\<not> prefix ''alive:'' k"
  shows "keeps (\<lambda>s. peek E rd s k) (touch_alive E' a e)" "keeps (\<lambda>s. peek E rd s k) (ensure_account a e)"
proof -
  have "''alive:'' @ b \<noteq> k" for b using assms by auto
  then show "keeps (\<lambda>s. peek E rd s k) (touch_alive E' a e)"
    unfolding touch_alive_def set_alive_epoch_def by (intro keeps_intros keeps_peek_set)
  show "keeps (\<lambda>s. peek E rd s k) (ensure_account a e)" by (rule keeps_peek [OF keeps_ensure_account(3)])
qed

lemma auth_keys: "\<not> prefix ''alive:'' (auth_approval_key tx)" "\<not> prefix ''alive:'' (auth_group_key g)"
  "auth_group_key g \<noteq> auth_approval_key tx"
  by (simp_all add: auth_approval_key_def auth_group_key_def)

lemmas keeps_approval_arm = keeps_peek_arm [OF auth_keys(1)] and keeps_group_arm = keeps_peek_arm [OF auth_keys(2)]

lemma keeps_approval_enroll: "keeps (approval E tx) (apply_enroll E g m pk n t)"
  unfolding apply_enroll_def save_record_def by (intro keeps_intros keeps_peek_set auth_keys)

definition approval_ok :: "env \<Rightarrow> string \<Rightarrow> chain \<Rightarrow> bool" where
  "approval_ok E tx s \<longleftrightarrow> (\<forall>r. approval E tx s = Some r \<longrightarrow> ap_approvals r \<noteq> [] \<and> distinct (ap_approvals r))"

text \<open>What an approval does to the record of a transaction.\<close>

definition approval_step :: "ApprovalRecord option \<Rightarrow> ApprovalRecord option \<Rightarrow> bool" where
  "approval_step x y \<longleftrightarrow> y = x \<or> (\<exists>r g a. y = Some (approved_by r g a) \<and> \<not> ap_finalized r \<and>
     (x = Some r \<or> x = None \<and> ap_approvals r = []))"

lemma approve_step:
  assumes run: "apply_approve E g tx' a s = (x, s')"
  shows "approval_step (approval E tx s) (approval E tx s')"
proof (cases "s' = s")
  case False
  let ?r = "case approval E tx' s of Some r \<Rightarrow> r
      | None \<Rightarrow> \<lparr>ap_group_id = g, ap_tx_hash = tx', ap_approvals = [], ap_finalized = False\<rparr>"
  obtain gr where r: "\<not> ap_finalized ?r"
    and sv: "save_record ApprovalRecord_json (auth_approval_key tx') (approved_by ?r gr a) s = (Inr (), s')"
    using run False
    by (auto simp: apply_approve_def Let_def andThen_apply seq_apply load_record_apply reads_apply ensure_apply ret_apply save_record_apply
        split: option.splits if_splits)
  show ?thesis
  proof (cases "tx = tx'")
    case True
    then have "approval E tx s' = Some (approved_by ?r gr a)" using approval_records.peek_save [OF sv] by simp
    with r True show ?thesis unfolding approval_step_def
      by (intro disjI2 exI [of _ ?r] exI [of _ gr] exI [of _ a]) (auto split: option.splits)
  next
    case False
    then have "auth_approval_key tx \<noteq> auth_approval_key tx'" by (simp add: auth_approval_key_def)
    from peek_save_other [OF sv this, of E ApprovalRecord_of_json] show ?thesis by (simp add: approval_step_def)
  qed
qed (simp add: approval_step_def)

lemma arm_returns: "\<exists>s'. touch_alive E a e s = (Inr (), s')" "\<exists>s'. ensure_account a e s = (Inr (), s')"
  by (auto simp: touch_alive_def set_alive_epoch_def ensure_account_def set_account_def act_simps state_set_def)

lemma auth_entry_step: "approval_step (approval E tx s) (approval E tx (snd (apply_auth_entry E x s)))"
proof (cases x)
  case (PrivateAuthEnroll g m pk n t e)
  have "keeps (approval E tx) (apply_auth_entry E x)"
    unfolding PrivateAuthEnroll apply_auth_entry_def auth_entry.case
    by (intro keeps_seq keeps_approval_arm keeps_approval_enroll)
  then show ?thesis by (simp add: keeps_def approval_step_def)
next
  case (PrivateAuthApprove g tx' a e)
  obtain s1 where s1: "touch_alive E a e s = (Inr (), s1)" using arm_returns by blast
  obtain s2 where s2: "ensure_account a e s1 = (Inr (), s2)" using arm_returns by blast
  have pre: "approval E tx s2 = approval E tx s"
    using keepsD [OF keeps_approval_arm(1) s1] keepsD [OF keeps_approval_arm(2) s2] by metis
  obtain y s3 where s3: "apply_approve E g tx' a s2 = (y, s3)" by (cases "apply_approve E g tx' a s2")
  have "snd (apply_auth_entry E x s) = s3"
    using s1 s2 s3 by (cases y) (simp_all add: PrivateAuthApprove apply_auth_entry_def seq_apply ret_apply)
  moreover have "approval_step (approval E tx s2) (approval E tx s3)" by (rule approve_step [OF s3])
  ultimately show ?thesis using pre by simp
qed

lemma approval_step_ok:
  assumes "approval_step x y" "\<And>r. x = Some r \<Longrightarrow> ap_approvals r \<noteq> [] \<and> distinct (ap_approvals r)" "y = Some q"
  shows "ap_approvals q \<noteq> [] \<and> distinct (ap_approvals q)"
  using assms by (auto simp: approval_step_def approved_by_def Let_def split: if_splits)

text \<open>
  A decided approval is final. Over any sequence of enrolments and approvals no account is counted twice in the
  record of a transaction, and a record that is final never changes, whatever happens to its group.
\<close>

theorem approval_final:
  assumes "approval_ok E tx s"
  shows "approval_ok E tx (run_auth E xs s) \<and>
    (\<forall>r. approval E tx s = Some r \<and> ap_finalized r \<longrightarrow> approval E tx (run_auth E xs s) = Some r)"
  using assms
proof (induction xs arbitrary: s)
  case (Cons x xs)
  let ?t = "snd (apply_auth_entry E x s)"
  note step = auth_entry_step [of E s tx x]
  have "approval_ok E tx ?t" using approval_step_ok [OF step] Cons.prems unfolding approval_ok_def by blast
  moreover have "approval E tx ?t = Some r" if "approval E tx s = Some r" "ap_finalized r" for r
    using step that by (auto simp: approval_step_def)
  ultimately show ?case using Cons.IH [of ?t] by auto
qed simp

section \<open>Anyone can decide\<close>

text \<open>
  Anyone can decide an approval. For every group, whoever its members and whatever its threshold are, an account that is
  not a member enrols itself with a threshold of one and approves: the transaction is decided.
\<close>

theorem outsider_decides:
  assumes "\<And>r. approval E tx s = Some r \<Longrightarrow> \<not> ap_finalized r \<and> length (ap_approvals r) < 2 ^ 32 - 1"
  shows "\<exists>r. approval E tx (run_auth E [PrivateAuthEnroll g a pk 1 1 e, PrivateAuthApprove g tx a e] s) = Some r \<and> ap_finalized r"
proof -
  obtain s1 s2 where s12: "touch_alive E a e s = (Inr (), s1)" "ensure_account a e s1 = (Inr (), s2)" using arm_returns by metis
  let ?g = "case peek E AuthGroup_of_json s2 (auth_group_key g) of Some gr \<Rightarrow> gr
      | None \<Rightarrow> \<lparr>gr_group_id = g, gr_members = [], gr_threshold_n = 1, gr_threshold_m = 1\<rparr>"
  let ?gr = "enrolled ?g a pk 1 1"
  obtain s3 where s3: "save_record AuthGroup_json (auth_group_key g) ?gr s2 = (Inr (), s3)" by (simp add: save_record_apply)
  then have enrol: "apply_enroll E g a pk 1 1 s2 = (Inr (), s3)" by (simp add: apply_enroll_def seq_apply ensure_apply andThen_apply reads_apply)
  obtain s4 s5 where s45: "touch_alive E a e s3 = (Inr (), s4)" "ensure_account a e s4 = (Inr (), s5)" using arm_returns by metis
  have g: "peek E AuthGroup_of_json s5 (auth_group_key g) = Some ?gr"
    using auth_groups.peek_save [OF s3, of E] keepsD [OF keeps_group_arm(1) s45(1)] keepsD [OF keeps_group_arm(2) s45(2)] by metis
  have "approval E tx s5 = approval E tx s"
    using keepsD [OF keeps_approval_arm(1) s12(1)] keepsD [OF keeps_approval_arm(2) s12(2)]
      keepsD [OF keeps_approval_enroll enrol] keepsD [OF keeps_approval_arm(1) s45(1)] keepsD [OF keeps_approval_arm(2) s45(2)] by metis
  moreover define q where "q = (case approval E tx s5 of Some r \<Rightarrow> r
      | None \<Rightarrow> \<lparr>ap_group_id = g, ap_tx_hash = tx, ap_approvals = [], ap_finalized = False\<rparr>)"
  ultimately have q: "\<not> ap_finalized q" "length (ap_approvals q) < 2 ^ 32 - 1" using assms by (auto split: option.split)
  obtain s6 where s6: "save_record ApprovalRecord_json (auth_approval_key tx) (approved_by q ?gr a) s5 = (Inr (), s6)"
    by (simp add: save_record_apply)
  have mem: "list_ex (\<lambda>k. mk_account k = a) (gr_members ?gr)" by (auto simp: enrolled_def list_ex_iff)
  have thr: "gr_threshold_m ?gr = 1" by (simp add: enrolled_def)
  have "0 < length (ap_approvals (approved_by q ?gr a))" "length (ap_approvals (approved_by q ?gr a)) < 2 ^ 32"
    using q(2) by (auto simp: approved_by_def Let_def)
  then have one: "(1 :: u32) \<le> word_of_nat (length (ap_approvals (approved_by q ?gr a)))"
    by (simp add: word_le_nat_alt unat_of_nat take_bit_nat_eq_self Suc_le_eq)
  then have fin: "ap_finalized (approved_by q ?gr a)" using thr by (simp add: approved_by_def Let_def)
  have "apply_approve E g tx a s5 = (Inr True, s6)"
    using g q(1) s6 mem thr one unfolding q_def
    by (simp add: apply_approve_def Let_def andThen_apply load_record_apply seq_apply ensure_apply reads_apply ret_apply)
  then have "run_auth E [PrivateAuthEnroll g a pk 1 1 e, PrivateAuthApprove g tx a e] s = s6"
    using s12 enrol s45 by (simp add: apply_auth_entry_def seq_apply ret_apply)
  with approval_records.peek_save [OF s6, of E] fin show ?thesis by auto
qed

definition demo_approval :: ApprovalRecord where
  "demo_approval = \<lparr>ap_group_id = ''g'', ap_tx_hash = ''t'', ap_approvals = [''ann'', ''bob''], ap_finalized = True\<rparr>"

theorem approval_final_witness:
  "approval demo_env ''t'' (run_auth demo_env [PrivateAuthEnroll ''g'' ''eve'' ''k'' 9 9 1, PrivateAuthApprove ''g'' ''t'' ''eve'' 1]
     (snd (save_record ApprovalRecord_json (auth_approval_key ''t'') demo_approval empty_chain))) = Some demo_approval"
proof -
  let ?s = "snd (save_record ApprovalRecord_json (auth_approval_key ''t'') demo_approval empty_chain)"
  have "approval demo_env ''t'' ?s = Some demo_approval" by (rule approval_records.peek_save) (simp add: save_record_apply)
  then show ?thesis
    using approval_final [of demo_env "''t''" ?s "[PrivateAuthEnroll ''g'' ''eve'' ''k'' 9 9 1, PrivateAuthApprove ''g'' ''t'' ''eve'' 1]"]
    by (auto simp: approval_ok_def demo_approval_def)
qed

definition demo_group :: AuthGroup where
  "demo_group = \<lparr>gr_group_id = ''g'', gr_members = [\<lparr>mk_account = ''ann'', mk_pubkey = ''k''\<rparr>, \<lparr>mk_account = ''bob'', mk_pubkey = ''l''\<rparr>],
     gr_threshold_n = 2, gr_threshold_m = 2\<rparr>"

theorem outsider_decides_witness:
  "\<exists>r. approval demo_env ''t'' (run_auth demo_env [PrivateAuthEnroll ''g'' ''eve'' ''m'' 1 1 3, PrivateAuthApprove ''g'' ''t'' ''eve'' 3]
     (snd (save_record AuthGroup_json (auth_group_key ''g'') demo_group empty_chain))) = Some r \<and> ap_finalized r"
proof (rule outsider_decides)
  fix r
  assume "approval demo_env ''t'' (snd (save_record AuthGroup_json (auth_group_key ''g'') demo_group empty_chain)) = Some r"
  then show "\<not> ap_finalized r \<and> length (ap_approvals r) < 2 ^ 32 - 1"
    by (simp add: save_record_def state_set_def act_simps peek_state_get state_get_def auth_keys(3) [symmetric] empty_chain_def)
qed

end
