(* ===== verification/Services.thy ===== *)
theory Services
  imports PrivateAuth
begin

text \<open>
  The small services with entries of their own: fine-tuning (\<open>finetune.rs\<close>) and computer-use jobs (\<open>computer_use.rs\<close>)
  with their fee in escrow, proofs of served blobs (\<open>blob_serve.rs\<close>) and of phone storage (\<open>phone_storage.rs\<close>)
  with their rewards, amber pills (\<open>amber_pill.rs\<close>) and the memory of an account (\<open>memory_service.rs\<close>).
\<close>

section \<open>Fine-tuning jobs\<close>

datatype FineTuneJobStatus = FtOpen | FtAwarded | FtComplete | FtExpired

record FineTuneJob =
  ft_job_id :: string
  ft_requester :: string
  ft_base_model :: string
  ft_dataset_cid :: string
  ft_max_fee :: u64
  ft_status :: FineTuneJobStatus
  ft_posted_epoch :: u64
  ft_worker :: "string option"
  ft_adapter_cid :: "string option"
  ft_completed_epoch :: "u64 option"

fun FineTuneJobStatus_json :: "FineTuneJobStatus \<Rightarrow> json" where
  "FineTuneJobStatus_json FtOpen = JStr ''open''"
| "FineTuneJobStatus_json FtAwarded = JStr ''awarded''"
| "FineTuneJobStatus_json FtComplete = JStr ''complete''"
| "FineTuneJobStatus_json FtExpired = JStr ''expired''"

definition FineTuneJobStatus_of_json :: "json \<Rightarrow> FineTuneJobStatus option" where
  "FineTuneJobStatus_of_json j = find (\<lambda>st. FineTuneJobStatus_json st = j) [FtOpen, FtAwarded, FtComplete, FtExpired]"

definition FineTuneJob_json :: "FineTuneJob \<Rightarrow> json" where
  "FineTuneJob_json b = jobj [(''job_id'', JStr (ft_job_id b)), (''requester'', JStr (ft_requester b)),
     (''base_model'', JStr (ft_base_model b)), (''dataset_cid'', JStr (ft_dataset_cid b)), (''max_fee'', JNum (ft_max_fee b)),
     (''status'', FineTuneJobStatus_json (ft_status b)), (''posted_epoch'', JNum (ft_posted_epoch b)),
     (''worker'', jopt_str (ft_worker b)), (''adapter_cid'', jopt_str (ft_adapter_cid b)),
     (''completed_epoch'', jopt_u64 (ft_completed_epoch b))]"

definition FineTuneJob_of_json :: "json \<Rightarrow> FineTuneJob option" where
  "FineTuneJob_of_json j =
     Option.bind (field_str j ''job_id'') (\<lambda>job_id.
     Option.bind (field_str j ''requester'') (\<lambda>requester.
     Option.bind (field_str j ''base_model'') (\<lambda>base_model.
     Option.bind (field_str j ''dataset_cid'') (\<lambda>dataset_cid.
     Option.bind (field_u64 j ''max_fee'') (\<lambda>max_fee.
     Option.bind (Option.bind (jfield j ''status'') FineTuneJobStatus_of_json) (\<lambda>status.
     Option.bind (field_u64 j ''posted_epoch'') (\<lambda>posted_epoch.
     Option.bind (field_opt as_str j ''worker'') (\<lambda>worker.
     Option.bind (field_opt as_str j ''adapter_cid'') (\<lambda>adapter_cid.
     Option.bind (field_opt as_u64 j ''completed_epoch'') (\<lambda>completed_epoch.
     Some \<lparr>ft_job_id = job_id, ft_requester = requester, ft_base_model = base_model, ft_dataset_cid = dataset_cid,
       ft_max_fee = max_fee, ft_status = status, ft_posted_epoch = posted_epoch, ft_worker = worker,
       ft_adapter_cid = adapter_cid, ft_completed_epoch = completed_epoch\<rparr>))))))))))"

lemma FineTuneJobStatus_roundtrip: "FineTuneJobStatus_of_json (FineTuneJobStatus_json st) = Some st"
  by (cases st) (simp_all add: FineTuneJobStatus_of_json_def)

interpretation finetune_jobs: record_codec FineTuneJob_json FineTuneJob_of_json
  by unfold_locales
    (simp add: FineTuneJob_of_json_def FineTuneJob_json_def field_str_def field_u64_def FineTuneJobStatus_roundtrip)

definition finetune_key :: "string \<Rightarrow> string" where
  "finetune_key job_id = ''finetune_job:'' @ job_id"

definition finetune_escrow_key :: "string \<Rightarrow> string" where
  "finetune_escrow_key job_id = ''finetune_escrow:'' @ job_id"

text \<open>The escrow is released to the worker and its record deleted.\<close>

definition release_escrow :: "env \<Rightarrow> string \<Rightarrow> string \<Rightarrow> unit chain_act" where
  "release_escrow E key worker =
     andThen (reads (\<lambda>s. case Option.bind (state_get s key) (as_le64 E) of Some n \<Rightarrow> n | None \<Rightarrow> 0)) (\<lambda>escrow.
     when_do (escrow > 0)
      (seq (credit worker NATIVE_TOKEN escrow)
           (state_delete key)))"

definition apply_finetune_post :: "string \<Rightarrow> string \<Rightarrow> string \<Rightarrow> string \<Rightarrow> u64 \<Rightarrow> u64 \<Rightarrow> unit chain_act" where
  "apply_finetune_post job_id requester base_model dataset_cid max_fee epoch =
     andThen (reads (\<lambda>s. state_get s (finetune_key job_id))) (\<lambda>prev.
     seq (ensure (prev = None) (Err ''fine-tune job already exists''))
    (seq (ensure (max_fee > 0) (Err ''max_fee must be positive''))
    (seq (debit requester NATIVE_TOKEN max_fee)
    (seq (state_set (finetune_escrow_key job_id) (Le64 max_fee))
         (save_record FineTuneJob_json (finetune_key job_id)
           \<lparr>ft_job_id = job_id, ft_requester = requester, ft_base_model = base_model, ft_dataset_cid = dataset_cid,
            ft_max_fee = max_fee, ft_status = FtOpen, ft_posted_epoch = epoch, ft_worker = None, ft_adapter_cid = None,
            ft_completed_epoch = None\<rparr>)))))"

definition apply_finetune_complete :: "env \<Rightarrow> string \<Rightarrow> string \<Rightarrow> string \<Rightarrow> u64 \<Rightarrow> unit chain_act" where
  "apply_finetune_complete E job_id worker adapter_cid epoch =
     andThen (load_record E FineTuneJob_of_json (finetune_key job_id) ''fine-tune job not found'') (\<lambda>job.
     seq (ensure (ft_status job = FtOpen) (Err ''job is not open''))
    (seq (release_escrow E (finetune_escrow_key job_id) worker)
         (save_record FineTuneJob_json (finetune_key job_id)
           (job\<lparr>ft_status := FtComplete, ft_worker := Some worker, ft_adapter_cid := Some adapter_cid,
              ft_completed_epoch := Some epoch\<rparr>))))"

definition get_finetune_job :: "env \<Rightarrow> chain \<Rightarrow> string \<Rightarrow> FineTuneJob option" where
  "get_finetune_job E s job_id = peek E FineTuneJob_of_json s (finetune_key job_id)"

definition list_open_finetune :: "env \<Rightarrow> chain \<Rightarrow> FineTuneJob list" where
  "list_open_finetune E s = filter (\<lambda>j. ft_status j = FtOpen)
     (List.map_filter (\<lambda>kv. Option.bind (as_json E (snd kv)) FineTuneJob_of_json) (state_scan_prefix s ''finetune_job:''))"

section \<open>Computer-use jobs\<close>

datatype ComputerUseJobStatus = CuOpen | CuAwarded | CuComplete | CuExpired | CuFailed

record ComputerUseJob =
  cu_job_id :: string
  cu_requester :: string
  cu_task_json :: string
  cu_max_fee :: u64
  cu_status :: ComputerUseJobStatus
  cu_posted_epoch :: u64
  cu_worker :: "string option"
  cu_result_cid :: "string option"
  cu_completed_epoch :: "u64 option"

fun ComputerUseJobStatus_json :: "ComputerUseJobStatus \<Rightarrow> json" where
  "ComputerUseJobStatus_json CuOpen = JStr ''open''"
| "ComputerUseJobStatus_json CuAwarded = JStr ''awarded''"
| "ComputerUseJobStatus_json CuComplete = JStr ''complete''"
| "ComputerUseJobStatus_json CuExpired = JStr ''expired''"
| "ComputerUseJobStatus_json CuFailed = JStr ''failed''"

definition ComputerUseJobStatus_of_json :: "json \<Rightarrow> ComputerUseJobStatus option" where
  "ComputerUseJobStatus_of_json j =
     find (\<lambda>st. ComputerUseJobStatus_json st = j) [CuOpen, CuAwarded, CuComplete, CuExpired, CuFailed]"

definition ComputerUseJob_json :: "ComputerUseJob \<Rightarrow> json" where
  "ComputerUseJob_json b = jobj [(''job_id'', JStr (cu_job_id b)), (''requester'', JStr (cu_requester b)),
     (''task_json'', JStr (cu_task_json b)), (''max_fee'', JNum (cu_max_fee b)),
     (''status'', ComputerUseJobStatus_json (cu_status b)), (''posted_epoch'', JNum (cu_posted_epoch b)),
     (''worker'', jopt_str (cu_worker b)), (''result_cid'', jopt_str (cu_result_cid b)),
     (''completed_epoch'', jopt_u64 (cu_completed_epoch b))]"

definition ComputerUseJob_of_json :: "json \<Rightarrow> ComputerUseJob option" where
  "ComputerUseJob_of_json j =
     Option.bind (field_str j ''job_id'') (\<lambda>job_id.
     Option.bind (field_str j ''requester'') (\<lambda>requester.
     Option.bind (field_str j ''task_json'') (\<lambda>task_json.
     Option.bind (field_u64 j ''max_fee'') (\<lambda>max_fee.
     Option.bind (Option.bind (jfield j ''status'') ComputerUseJobStatus_of_json) (\<lambda>status.
     Option.bind (field_u64 j ''posted_epoch'') (\<lambda>posted_epoch.
     Option.bind (field_opt as_str j ''worker'') (\<lambda>worker.
     Option.bind (field_opt as_str j ''result_cid'') (\<lambda>result_cid.
     Option.bind (field_opt as_u64 j ''completed_epoch'') (\<lambda>completed_epoch.
     Some \<lparr>cu_job_id = job_id, cu_requester = requester, cu_task_json = task_json, cu_max_fee = max_fee, cu_status = status,
       cu_posted_epoch = posted_epoch, cu_worker = worker, cu_result_cid = result_cid,
       cu_completed_epoch = completed_epoch\<rparr>)))))))))"

lemma ComputerUseJobStatus_roundtrip: "ComputerUseJobStatus_of_json (ComputerUseJobStatus_json st) = Some st"
  by (cases st) (simp_all add: ComputerUseJobStatus_of_json_def)

interpretation computer_jobs: record_codec ComputerUseJob_json ComputerUseJob_of_json
  by unfold_locales
    (simp add: ComputerUseJob_of_json_def ComputerUseJob_json_def field_str_def field_u64_def ComputerUseJobStatus_roundtrip)

definition computer_use_key :: "string \<Rightarrow> string" where
  "computer_use_key job_id = ''computer_use_job:'' @ job_id"

definition computer_use_escrow_key :: "string \<Rightarrow> string" where
  "computer_use_escrow_key job_id = ''computer_use_escrow:'' @ job_id"

definition apply_computer_post :: "env \<Rightarrow> string \<Rightarrow> string \<Rightarrow> string \<Rightarrow> u64 \<Rightarrow> u64 \<Rightarrow> unit chain_act" where
  "apply_computer_post E job_id requester task_json max_fee epoch =
     andThen (reads (\<lambda>s. state_get s (computer_use_key job_id))) (\<lambda>prev.
     seq (ensure (prev = None) (Err ''computer-use job already exists''))
    (seq (ensure (max_fee > 0) (Err ''max_fee must be positive''))
    (seq (ensure (json_parse E task_json \<noteq> None) (Err ''invalid task_json''))
    (seq (debit requester NATIVE_TOKEN max_fee)
    (seq (state_set (computer_use_escrow_key job_id) (Le64 max_fee))
         (save_record ComputerUseJob_json (computer_use_key job_id)
           \<lparr>cu_job_id = job_id, cu_requester = requester, cu_task_json = task_json, cu_max_fee = max_fee,
            cu_status = CuOpen, cu_posted_epoch = epoch, cu_worker = None, cu_result_cid = None,
            cu_completed_epoch = None\<rparr>))))))"

definition apply_computer_complete :: "env \<Rightarrow> string \<Rightarrow> string \<Rightarrow> string \<Rightarrow> u64 \<Rightarrow> unit chain_act" where
  "apply_computer_complete E job_id worker result_cid epoch =
     andThen (load_record E ComputerUseJob_of_json (computer_use_key job_id) ''computer-use job not found'') (\<lambda>job.
     seq (ensure (cu_status job = CuOpen) (Err ''job is not open''))
    (seq (release_escrow E (computer_use_escrow_key job_id) worker)
         (save_record ComputerUseJob_json (computer_use_key job_id)
           (job\<lparr>cu_status := CuComplete, cu_worker := Some worker, cu_result_cid := Some result_cid,
              cu_completed_epoch := Some epoch\<rparr>))))"

definition get_computer_job :: "env \<Rightarrow> chain \<Rightarrow> string \<Rightarrow> ComputerUseJob option" where
  "get_computer_job E s job_id = peek E ComputerUseJob_of_json s (computer_use_key job_id)"

definition list_open_computer :: "env \<Rightarrow> chain \<Rightarrow> ComputerUseJob list" where
  "list_open_computer E s = filter (\<lambda>j. cu_status j = CuOpen)
     (List.map_filter (\<lambda>kv. Option.bind (as_json E (snd kv)) ComputerUseJob_of_json) (state_scan_prefix s ''computer_use_job:''))"

section \<open>Proofs\<close>

definition BLOB_SERVE_REWARD_HUNITS :: u64 where "BLOB_SERVE_REWARD_HUNITS = 1000000"

definition MAX_BYTES_PER_PROOF :: u64 where "MAX_BYTES_PER_PROOF = 100 * 1024 * 1024 * 1024"

definition PHONE_STORAGE_REWARD_HUNITS :: u64 where "PHONE_STORAGE_REWARD_HUNITS = 250"

definition blob_proof_key :: "string \<Rightarrow> string" where
  "blob_proof_key proof_hash = ''blob_proof_used:'' @ proof_hash"

definition phone_proof_key :: "string \<Rightarrow> string" where
  "phone_proof_key proof_hash = ''phone_store_proof_used:'' @ proof_hash"

definition verify_blob_proof :: "env \<Rightarrow> string \<Rightarrow> u64 \<Rightarrow> string \<Rightarrow> u64 \<Rightarrow> string \<Rightarrow> bool" where
  "verify_blob_proof E cid bytes_served node_id epoch proof_hash \<longleftrightarrow>
     hex_encode E (sha256 E (cid @ to_le bytes_served @ node_id @ to_le epoch)) = proof_hash"

definition verify_phone_proof :: "env \<Rightarrow> string \<Rightarrow> string \<Rightarrow> string \<Rightarrow> u64 \<Rightarrow> string \<Rightarrow> bool" where
  "verify_phone_proof E device_id proof_hash_inner account epoch submitted_hash \<longleftrightarrow>
     hex_encode E (sha256 E (device_id @ proof_hash_inner @ account @ to_le epoch)) = submitted_hash"

text \<open>The counters of proofs and bytes under a key.\<close>

definition add_proof_stats :: "env \<Rightarrow> string \<Rightarrow> u64 \<Rightarrow> unit chain_act" where
  "add_proof_stats E stats_key bytes =
     andThen (reads (\<lambda>s. case state_json E s stats_key of Some j \<Rightarrow> j
        | None \<Rightarrow> jobj [(''proofs'', JNum 0), (''bytes_total'', JNum 0)])) (\<lambda>stats.
     andThen (with_fields stats [(''proofs'', JNum (the_u64 stats ''proofs'' 0 + 1)),
        (''bytes_total'', JNum (the_u64 stats ''bytes_total'' 0 + bytes))]) (\<lambda>stats'.
     state_set stats_key (Json stats')))"

definition get_bandwidth :: "env \<Rightarrow> chain \<Rightarrow> string \<Rightarrow> u64" where
  "get_bandwidth E s cid = (case Option.bind (state_get s (''blob_serve_bw:'' @ cid)) (as_le64 E) of Some n \<Rightarrow> n | None \<Rightarrow> 0)"

definition apply_serve_proof :: "env \<Rightarrow> string \<Rightarrow> string \<Rightarrow> u64 \<Rightarrow> string \<Rightarrow> u64 \<Rightarrow> unit chain_act" where
  "apply_serve_proof E node_id cid bytes_served proof_hash epoch =
     seq (ensure (bytes_served > 0) (Err ''bytes_served must be positive''))
    (seq (ensure (bytes_served \<le> MAX_BYTES_PER_PROOF) (Err ''bytes_served exceeds per-proof limit''))
    (andThen (reads (\<lambda>s. state_get s (blob_proof_key proof_hash))) (\<lambda>used.
     seq (ensure (\<not> verify_blob_proof E cid bytes_served node_id epoch proof_hash \<or> used = None) (Err ''proof already claimed''))
    (seq (ensure (verify_blob_proof E cid bytes_served node_id epoch proof_hash) (Err ''invalid proof hash''))
    (seq (state_set (blob_proof_key proof_hash) (Le64 epoch))
    (seq (credit node_id NATIVE_TOKEN BLOB_SERVE_REWARD_HUNITS)
    (seq (add_proof_stats E (''blob_serve_stats:'' @ node_id) bytes_served)
    (andThen (reads (\<lambda>s. get_bandwidth E s cid)) (\<lambda>prev_bw.
     state_set (''blob_serve_bw:'' @ cid) (Le64 (prev_bw + bytes_served)))))))))))"

definition apply_phone_proof :: "env \<Rightarrow> string \<Rightarrow> string \<Rightarrow> string \<Rightarrow> u64 \<Rightarrow> u64 \<Rightarrow> unit chain_act" where
  "apply_phone_proof E account device_id proof_hash bytes_proven epoch =
     seq (ensure (bytes_proven > 0) (Err ''bytes_proven must be positive''))
    (andThen (reads (\<lambda>s. state_get s (phone_proof_key proof_hash))) (\<lambda>used.
     seq (ensure (used = None) (Err ''proof already claimed''))
    (seq (state_set (phone_proof_key proof_hash) (Le64 epoch))
    (seq (credit account NATIVE_TOKEN PHONE_STORAGE_REWARD_HUNITS)
         (add_proof_stats E (''phone_store_stats:'' @ account @ '':'' @ device_id) bytes_proven)))))"

definition get_phone_proof :: "env \<Rightarrow> chain \<Rightarrow> string \<Rightarrow> string \<Rightarrow> json option" where
  "get_phone_proof E s account device_id = state_json E s (''phone_store_stats:'' @ account @ '':'' @ device_id)"

section \<open>Amber pills and memory\<close>

record AmberPill =
  pl_account :: string
  pl_pill_id :: string
  pl_minted_epoch :: u64

definition AmberPill_json :: "AmberPill \<Rightarrow> json" where
  "AmberPill_json p = jobj [(''account'', JStr (pl_account p)), (''pill_id'', JStr (pl_pill_id p)),
     (''minted_epoch'', JNum (pl_minted_epoch p))]"

definition AmberPill_of_json :: "json \<Rightarrow> AmberPill option" where
  "AmberPill_of_json j =
     Option.bind (field_str j ''account'') (\<lambda>account.
     Option.bind (field_str j ''pill_id'') (\<lambda>pill_id.
     Option.bind (field_u64 j ''minted_epoch'') (\<lambda>minted_epoch.
     Some \<lparr>pl_account = account, pl_pill_id = pill_id, pl_minted_epoch = minted_epoch\<rparr>)))"

interpretation pills: record_codec AmberPill_json AmberPill_of_json
  by unfold_locales (simp add: AmberPill_of_json_def AmberPill_json_def field_defs)

definition pill_key :: "string \<Rightarrow> string" where
  "pill_key account = ''amber_pill:'' @ account"

definition pill_id_key :: "string \<Rightarrow> string" where
  "pill_id_key pill_id = ''amber_pill_id:'' @ pill_id"

definition apply_pill_mint :: "string \<Rightarrow> string \<Rightarrow> u64 \<Rightarrow> unit chain_act" where
  "apply_pill_mint account pill_id epoch =
     andThen (reads (\<lambda>s. state_get s (pill_key account))) (\<lambda>held.
     seq (ensure (held = None) (Err ''account already holds an AmberPill''))
    (andThen (reads (\<lambda>s. state_get s (pill_id_key pill_id))) (\<lambda>minted.
     seq (ensure (minted = None) (Err ''pill_id already minted''))
    (seq (save_record AmberPill_json (pill_key account) \<lparr>pl_account = account, pl_pill_id = pill_id, pl_minted_epoch = epoch\<rparr>)
         (state_set (pill_id_key pill_id) (Text account))))))"

definition has_pill :: "chain \<Rightarrow> string \<Rightarrow> bool" where
  "has_pill s account \<longleftrightarrow> state_get s (pill_key account) \<noteq> None"

definition AMBER_PILL_WEIGHT_BPS :: u64 where "AMBER_PILL_WEIGHT_BPS = 15000"

definition get_pill :: "env \<Rightarrow> chain \<Rightarrow> string \<Rightarrow> AmberPill option" where
  "get_pill E s account = peek E AmberPill_of_json s (pill_key account)"

definition get_pill_by_id :: "env \<Rightarrow> chain \<Rightarrow> string \<Rightarrow> AmberPill option" where
  "get_pill_by_id E s pill_id = Option.bind (state_text E s (pill_id_key pill_id)) (get_pill E s)"

definition memory_key :: "string \<Rightarrow> string \<Rightarrow> string" where
  "memory_key account key = ''memory:'' @ account @ '':'' @ key"

definition apply_memory_set :: "string \<Rightarrow> string \<Rightarrow> string \<Rightarrow> unit chain_act" where
  "apply_memory_set account key value =
     seq (ensure (key \<noteq> []) (Err ''memory key cannot be empty''))
    (seq (ensure (length value \<le> 4096) (Err ''memory value exceeds 4096 byte limit''))
         (state_set (memory_key account key) (Text value)))"

definition apply_memory_delete :: "string \<Rightarrow> string \<Rightarrow> unit chain_act" where
  "apply_memory_delete account key = state_delete (memory_key account key)"

definition memory_get :: "env \<Rightarrow> chain \<Rightarrow> string \<Rightarrow> string \<Rightarrow> string option" where
  "memory_get E s account key = state_text E s (memory_key account key)"

definition memory_scan :: "env \<Rightarrow> chain \<Rightarrow> string \<Rightarrow> (string \<times> string) list" where
  "memory_scan E s account = List.map_filter (\<lambda>(k, v). map_option (Pair (drop (length (memory_key account [])) k)) (as_utf8 E v))
     (state_scan_prefix s (memory_key account []))"

section \<open>Entries\<close>

datatype service_entry =
    FineTuneJobPost string string string string u64 u64
  | FineTuneJobComplete string string string u64
  | ComputerUseJobPost string string string u64 u64
  | ComputerUseJobComplete string string string u64
  | BlobServeProof string string u64 string u64
  | PhoneStorageProof string string string u64 u64
  | AmberPillMint string string u64
  | MemorySet string string string u64
  | MemoryDelete string string u64

definition arm_of :: "env \<Rightarrow> string \<Rightarrow> u64 \<Rightarrow> unit chain_act \<Rightarrow> unit chain_act" where
  "arm_of E account epoch m = seq (touch_alive E account epoch) (seq (ensure_account account epoch) m)"

definition apply_service_entry :: "env \<Rightarrow> service_entry \<Rightarrow> unit chain_act" where
  "apply_service_entry E x = (case x of
       FineTuneJobPost job_id requester base_model dataset_cid max_fee epoch \<Rightarrow>
         arm_of E requester epoch (apply_finetune_post job_id requester base_model dataset_cid max_fee epoch)
     | FineTuneJobComplete job_id worker adapter_cid epoch \<Rightarrow>
         arm_of E worker epoch (apply_finetune_complete E job_id worker adapter_cid epoch)
     | ComputerUseJobPost job_id requester task_json max_fee epoch \<Rightarrow>
         arm_of E requester epoch (apply_computer_post E job_id requester task_json max_fee epoch)
     | ComputerUseJobComplete job_id worker result_cid epoch \<Rightarrow>
         arm_of E worker epoch (apply_computer_complete E job_id worker result_cid epoch)
     | BlobServeProof node_id cid bytes_served proof_hash epoch \<Rightarrow>
         arm_of E node_id epoch (apply_serve_proof E node_id cid bytes_served proof_hash epoch)
     | PhoneStorageProof account device_id proof_hash bytes_proven epoch \<Rightarrow>
         arm_of E account epoch (apply_phone_proof E account device_id proof_hash bytes_proven epoch)
     | AmberPillMint account pill_id epoch \<Rightarrow> arm_of E account epoch (apply_pill_mint account pill_id epoch)
     | MemorySet account key value epoch \<Rightarrow> arm_of E account epoch (apply_memory_set account key value)
     | MemoryDelete account key epoch \<Rightarrow> arm_of E account epoch (apply_memory_delete account key))"

fun run_services :: "env \<Rightarrow> service_entry list \<Rightarrow> chain \<Rightarrow> chain" where
  "run_services E [] s = s"
| "run_services E (x # xs) s = run_services E xs (snd (apply_service_entry E x s))"

section \<open>Value\<close>

definition escrow_share :: "env \<Rightarrow> string \<Rightarrow> val \<Rightarrow> int" where
  "escrow_share E k v = (if prefix ''finetune_escrow:'' k \<or> prefix ''computer_use_escrow:'' k
     then (case as_le64 E v of Some n \<Rightarrow> uint n | None \<Rightarrow> 0) else 0)"

text \<open>The native supply with the fees of the open jobs.\<close>

definition compute_value :: "env \<Rightarrow> chain \<Rightarrow> int" where
  "compute_value E s = hone_total s + kv_sum (escrow_share E) (cf_meta s)"

text \<open>Only a job that was posted has an escrow.\<close>

definition escrows_owned :: "chain \<Rightarrow> bool" where
  "escrows_owned s \<longleftrightarrow> (\<forall>i. (state_get s (finetune_escrow_key i) \<noteq> None \<longrightarrow> state_get s (finetune_key i) \<noteq> None) \<and>
     (state_get s (computer_use_escrow_key i) \<noteq> None \<longrightarrow> state_get s (computer_use_key i) \<noteq> None))"

definition escrow_key :: "string \<Rightarrow> bool" where
  "escrow_key k \<longleftrightarrow> prefix ''finetune_escrow:'' k \<or> prefix ''computer_use_escrow:'' k"

definition job_record_key :: "string \<Rightarrow> bool" where
  "job_record_key k \<longleftrightarrow> prefix ''finetune_job:'' k \<or> prefix ''computer_use_job:'' k"

lemma service_keys [simp]:
  "escrow_key (finetune_escrow_key i)" "escrow_key (computer_use_escrow_key i)"
  "\<not> escrow_key (finetune_key i)" "\<not> escrow_key (computer_use_key i)"
  "\<not> job_record_key (finetune_escrow_key i)" "\<not> job_record_key (computer_use_escrow_key i)"
  "\<not> escrow_key (''alive:'' @ a)" "\<not> escrow_key (blob_proof_key h)" "\<not> escrow_key (phone_proof_key h)"
  "\<not> escrow_key (''blob_serve_stats:'' @ a)" "\<not> escrow_key (''blob_serve_bw:'' @ a)" "\<not> escrow_key (''phone_store_stats:'' @ a)"
  "\<not> escrow_key (pill_key a)" "\<not> escrow_key (pill_id_key a)" "\<not> escrow_key (memory_key a b)" "\<not> job_record_key (memory_key a b)"
  by (simp_all add: escrow_key_def job_record_key_def finetune_escrow_key_def computer_use_escrow_key_def finetune_key_def
    computer_use_key_def blob_proof_key_def phone_proof_key_def pill_key_def pill_id_key_def memory_key_def)

lemma kv_at_escrow:
  "kv_at (escrow_share E) (cf_meta s) k =
    (if escrow_key k then (case Option.bind (state_get s k) (as_le64 E) of Some n \<Rightarrow> uint n | None \<Rightarrow> 0) else 0)"
  by (auto simp: kv_at_def escrow_share_def escrow_key_def state_get_def split: option.split)

lemma compute_put:
  "compute_value E (s\<lparr>cf_meta := kv_put k v (cf_meta s)\<rparr>) = compute_value E s + escrow_share E k v -
    (if escrow_key k then (case Option.bind (state_get s k) (as_le64 E) of Some n \<Rightarrow> uint n | None \<Rightarrow> 0) else 0)"
  by (simp add: compute_value_def token_supply_def kv_sum_put kv_at_escrow)

lemma compute_del:
  "compute_value E (s\<lparr>cf_meta := kv_del k (cf_meta s)\<rparr>) = compute_value E s -
    (if escrow_key k then (case Option.bind (state_get s k) (as_le64 E) of Some n \<Rightarrow> uint n | None \<Rightarrow> 0) else 0)"
  by (simp add: compute_value_def token_supply_def kv_sum_del kv_at_escrow)

lemma compute_balance:
  "compute_value E (s\<lparr>cf_balances := kv_put (balance_key a NATIVE_TOKEN) n (cf_balances s)\<rparr>) =
    compute_value E s + (uint n - uint (get_balance s a NATIVE_TOKEN))"
  by (simp add: compute_value_def supply_put)

lemma keeps_compute_set: "\<not> escrow_key k \<Longrightarrow> keeps (compute_value E) (state_set k v)"
  by (auto simp: keeps_def state_set_def modify_apply compute_put escrow_share_def escrow_key_def)

lemma keeps_compute_delete: "\<not> escrow_key k \<Longrightarrow> keeps (compute_value E) (state_delete k)"
  by (auto simp: keeps_def state_delete_def modify_apply compute_del)

lemma keeps_compute: "keeps cf_balances m \<Longrightarrow> keeps cf_meta m \<Longrightarrow> keeps (compute_value E) m"
  by (simp add: keeps_def compute_value_def token_supply_def)

lemma keeps_compute_arm:
  assumes "keeps (compute_value E) m"
  shows "keeps (compute_value E) (arm_of E' a e m)"
  unfolding arm_of_def touch_alive_def set_alive_epoch_def
  by (intro keeps_intros keeps_compute_set keeps_compute [OF keeps_ensure_account(1,3)] assms service_keys)

lemma owned_set:
  assumes "\<not> escrow_key k"
  shows "preserves escrows_owned (state_set k v)"
proof -
  have "finetune_escrow_key i \<noteq> k" "computer_use_escrow_key i \<noteq> k" for i using assms service_keys(1,2) by metis+
  then show ?thesis by (simp add: preserves_def state_set_def modify_apply escrows_owned_def state_get_def)
qed

lemma owned_delete:
  assumes "\<not> job_record_key k"
  shows "preserves escrows_owned (state_delete k)"
proof -
  have "finetune_key i \<noteq> k" "computer_use_key i \<noteq> k" for i
    using assms by (auto simp: job_record_key_def finetune_key_def computer_use_key_def)
  then show ?thesis by (simp add: preserves_def state_delete_def modify_apply escrows_owned_def state_get_def)
qed

lemma owned_meta: "keeps cf_meta m \<Longrightarrow> preserves escrows_owned m"
  by (simp add: preserves_def keeps_def escrows_owned_def state_get_def)

lemma owned_post:
  "preserves escrows_owned (seq (state_set (finetune_escrow_key i) x) (save_record wr (finetune_key i) r))"
  "preserves escrows_owned (seq (state_set (computer_use_escrow_key i) x) (save_record wr (computer_use_key i) r))"
  by (auto simp: preserves_def save_record_def state_set_def act_simps escrows_owned_def state_get_def finetune_key_def
    computer_use_key_def finetune_escrow_key_def computer_use_escrow_key_def)

lemma owned_arm: "preserves escrows_owned m \<Longrightarrow> preserves escrows_owned (arm_of E a e m)"
  unfolding arm_of_def touch_alive_def set_alive_epoch_def
  by (intro preserves_intros owned_set owned_meta [OF keeps_ensure_account(3)] service_keys; assumption)

lemma owned_operations:
  "preserves escrows_owned (apply_finetune_post i q b c f e)" "preserves escrows_owned (apply_finetune_complete E i w c e)"
  "preserves escrows_owned (apply_computer_post E i q t f e)" "preserves escrows_owned (apply_computer_complete E i w c e)"
  "preserves escrows_owned (apply_serve_proof E n c y h e)" "preserves escrows_owned (apply_phone_proof E n d h y e)"
  "preserves escrows_owned (apply_pill_mint n p e)" "preserves escrows_owned (apply_memory_set n k t)"
  "preserves escrows_owned (apply_memory_delete n k)"
proof -
  note leaves = owned_set owned_delete owned_meta [OF keeps_credit(3)] owned_meta [OF keeps_debit(3)] service_keys
    preserves_load_record
  show "preserves escrows_owned (apply_finetune_post i q b c f e)" "preserves escrows_owned (apply_computer_post E i q t f e)"
    unfolding apply_finetune_post_def apply_computer_post_def
    by (rule preserves_andThen [OF preserves_reads], intro preserves_seq [OF preserves_ensure] preserves_seq [OF owned_meta [OF keeps_debit(3)]] owned_post)+
  show "preserves escrows_owned (apply_finetune_complete E i w c e)" "preserves escrows_owned (apply_computer_complete E i w c e)"
    unfolding apply_finetune_complete_def apply_computer_complete_def release_escrow_def save_record_def
    by (intro preserves_intros leaves)+
  show "preserves escrows_owned (apply_serve_proof E n c y h e)" "preserves escrows_owned (apply_phone_proof E n d h y e)"
    unfolding apply_serve_proof_def apply_phone_proof_def add_proof_stats_def by (intro preserves_intros leaves)+
  show "preserves escrows_owned (apply_pill_mint n p e)" "preserves escrows_owned (apply_memory_set n k t)"
    "preserves escrows_owned (apply_memory_delete n k)"
    unfolding apply_pill_mint_def apply_memory_set_def apply_memory_delete_def save_record_def
    by (intro preserves_intros leaves)+
qed

lemma owned_entry: "preserves escrows_owned (apply_service_entry E x)"
  by (cases x) (simp_all add: apply_service_entry_def owned_arm owned_operations)

lemma release_exact:
  assumes "escrow_key k"
  shows "keeps (compute_value E) (release_escrow E k w)"
proof -
  have "compute_value E (snd (release_escrow E k w s)) = compute_value E s" for s
  proof (cases "Option.bind (state_get s k) (as_le64 E)")
    case (Some n)
    let ?b = "get_balance s w NATIVE_TOKEN"
    let ?s = "s\<lparr>cf_balances := kv_put (balance_key w NATIVE_TOKEN) (?b + n) (cf_balances s)\<rparr>"
    have "state_get ?s k = state_get s k" by (simp add: state_get_def)
    then have "compute_value E (?s\<lparr>cf_meta := kv_del k (cf_meta ?s)\<rparr>) = compute_value E ?s - uint n"
      using compute_del [of E k ?s] assms Some by simp
    then show ?thesis using Some
      by (simp add: release_escrow_def andThen_apply reads_apply when_do_apply ret_apply seq_apply credit_cases state_delete_def
        modify_apply compute_balance uint_u64_add)
  qed (simp add: release_escrow_def andThen_apply reads_apply when_do_apply ret_apply)
  then show ?thesis by (simp add: keeps_def)
qed

lemma complete_exact:
  "keeps (compute_value E) (apply_finetune_complete E i w c e)" "keeps (compute_value E) (apply_computer_complete E i w c e)"
  unfolding apply_finetune_complete_def apply_computer_complete_def save_record_def
  by (intro keeps_intros release_exact keeps_compute_set service_keys keeps_load_record)+

lemma escrow_exact:
  assumes "escrow_key k" and "state_get s k = None" and m: "keeps (compute_value E) m"
  shows "compute_value E (snd (seq (debit q NATIVE_TOKEN n) (seq (state_set k (Le64 n)) m) s)) = compute_value E s"
proof (cases "n \<le> get_balance s q NATIVE_TOKEN")
  case True
  let ?s = "s\<lparr>cf_balances := kv_put (balance_key q NATIVE_TOKEN) (get_balance s q NATIVE_TOKEN - n) (cf_balances s)\<rparr>"
  have "state_get ?s k = None" using assms(2) by (simp add: state_get_def)
  then have "compute_value E (?s\<lparr>cf_meta := kv_put k (Le64 n) (cf_meta ?s)\<rparr>) = compute_value E ?s + uint n"
    using compute_put [of E k "Le64 n" ?s] assms(1) by (simp add: escrow_share_def escrow_key_def)
  then show ?thesis using True m
    by (simp add: seq_apply debit_cases state_set_def modify_apply compute_balance uint_u64_sub keeps_def)
qed (simp add: seq_apply debit_cases)

lemma andThen_reads: "andThen (reads f) n s = n (f s) s"
  by (simp add: andThen_apply reads_apply)

lemma guard_exact: "(b \<Longrightarrow> v (snd (m s)) = v s) \<Longrightarrow> v (snd (seq (ensure b e) m s)) = v s"
  by (simp add: seq_apply ensure_apply)

lemma post_exact:
  assumes "escrows_owned s"
  shows "compute_value E (snd (apply_finetune_post i q b c f e s)) = compute_value E s"
    and "compute_value E (snd (apply_computer_post E i q t f e s)) = compute_value E s"
proof -
  have save: "keeps (compute_value E) (save_record wr (finetune_key i) r)"
    "keeps (compute_value E) (save_record wr' (computer_use_key i) r')" for wr wr' r r'
    unfolding save_record_def by (intro keeps_compute_set service_keys)+
  have "state_get s (finetune_key i) = None \<Longrightarrow> state_get s (finetune_escrow_key i) = None"
    "state_get s (computer_use_key i) = None \<Longrightarrow> state_get s (computer_use_escrow_key i) = None"
    using assms by (auto simp: escrows_owned_def)
  note free = this
  have "state_get s (finetune_key i) = None \<Longrightarrow> compute_value E (snd (seq (debit q NATIVE_TOKEN f)
      (seq (state_set (finetune_escrow_key i) (Le64 f)) (save_record wr (finetune_key i) r)) s)) = compute_value E s" for wr r
    by (rule escrow_exact [OF service_keys(1) free(1) save(1)])
  then show "compute_value E (snd (apply_finetune_post i q b c f e s)) = compute_value E s"
    unfolding apply_finetune_post_def andThen_reads by (intro guard_exact)
  have "state_get s (computer_use_key i) = None \<Longrightarrow> compute_value E (snd (seq (debit q NATIVE_TOKEN f)
      (seq (state_set (computer_use_escrow_key i) (Le64 f)) (save_record wr (computer_use_key i) r)) s)) = compute_value E s" for wr r
    by (rule escrow_exact [OF service_keys(2) free(2) save(2)])
  then show "compute_value E (snd (apply_computer_post E i q t f e s)) = compute_value E s"
    unfolding apply_computer_post_def andThen_reads by (intro guard_exact)
qed

text \<open>An operation earns at most an amount when it adds no more than that, and takes nothing away.\<close>

definition earns :: "('s \<Rightarrow> int) \<Rightarrow> int \<Rightarrow> ('s, 'a) act \<Rightarrow> bool" where
  "earns v d m \<longleftrightarrow> (\<forall>s. v s \<le> v (snd (m s)) \<and> v (snd (m s)) \<le> v s + d)"

lemma earns_keeps: "keeps v m \<Longrightarrow> 0 \<le> d \<Longrightarrow> earns v d m"
  by (simp add: earns_def keeps_def)

lemma earns_after:
  assumes "keeps v m" and "\<And>x. earns v d (n x)" and "0 \<le> d"
  shows "earns v d (andThen m n)"
proof -
  have "v s \<le> v (snd (andThen m n s)) \<and> v (snd (andThen m n s)) \<le> v s + d" for s
  proof (cases "m s")
    case (Pair r t)
    then have t: "v t = v s" using assms(1) by (auto simp: keeps_def dest: spec [of _ s])
    have "v t \<le> v (snd (n x t)) \<and> v (snd (n x t)) \<le> v t + d" for x using assms(2) [of x] by (simp add: earns_def)
    then show ?thesis using t assms(3) Pair by (cases r) (simp_all add: andThen_apply)
  qed
  then show ?thesis by (simp add: earns_def)
qed

lemma earns_before:
  assumes "earns v d m" and "keeps v n"
  shows "earns v d (seq m n)"
proof -
  have "v s \<le> v (snd (seq m n s)) \<and> v (snd (seq m n s)) \<le> v s + d" for s
  proof (cases "m s")
    case (Pair r t)
    then have t: "v s \<le> v t \<and> v t \<le> v s + d" using assms(1) by (auto simp: earns_def dest: spec [of _ s])
    then show ?thesis using assms(2) Pair by (cases r) (auto simp: seq_apply keeps_def)
  qed
  then show ?thesis by (simp add: earns_def)
qed

lemma earns_then: "keeps v m \<Longrightarrow> earns v d n \<Longrightarrow> 0 \<le> d \<Longrightarrow> earns v d (seq m n)"
  unfolding seq_def by (rule earns_after)

lemma earns_credit: "earns (compute_value E) (uint n) (credit a NATIVE_TOKEN n)"
  by (auto simp: earns_def credit_cases compute_balance uint_u64_add)

lemma keeps_compute_stats: "\<not> escrow_key k \<Longrightarrow> keeps (compute_value E) (add_proof_stats E' k n)"
  unfolding add_proof_stats_def by (intro keeps_intros keeps_compute_set keeps_with_fields)

text \<open>What a proof mints.\<close>

fun service_reward :: "service_entry \<Rightarrow> int" where
  "service_reward (BlobServeProof _ _ _ _ _) = uint BLOB_SERVE_REWARD_HUNITS"
| "service_reward (PhoneStorageProof _ _ _ _ _) = uint PHONE_STORAGE_REWARD_HUNITS"
| "service_reward _ = 0"

lemma service_reward_nonneg: "0 \<le> service_reward x"
  by (cases x) simp_all

lemma serve_proof_earns:
  "earns (compute_value E) (uint BLOB_SERVE_REWARD_HUNITS) (apply_serve_proof E' n c y h e)"
  unfolding apply_serve_proof_def
  by (intro earns_then earns_after earns_before [OF earns_credit] keeps_intros keeps_compute_set keeps_compute_stats
    service_keys uint_nonnegative)

lemma phone_proof_earns:
  "earns (compute_value E) (uint PHONE_STORAGE_REWARD_HUNITS) (apply_phone_proof E' n d h y e)"
  unfolding apply_phone_proof_def
  by (intro earns_then earns_after earns_before [OF earns_credit] keeps_intros keeps_compute_set keeps_compute_stats
    service_keys uint_nonnegative)

lemma simple_services_exact:
  "keeps (compute_value E) (apply_pill_mint n p e)" "keeps (compute_value E) (apply_memory_set n k t)"
  "keeps (compute_value E) (apply_memory_delete n k)"
  unfolding apply_pill_mint_def apply_memory_set_def apply_memory_delete_def save_record_def
  by (intro keeps_intros keeps_compute_set keeps_compute_delete service_keys)+

text \<open>What an arm does before its operation keeps the value and the ownership of the escrows.\<close>

lemma arm_split:
  "\<exists>t. compute_value E t = compute_value E s \<and> (escrows_owned s \<longrightarrow> escrows_owned t) \<and>
    (snd (arm_of E' a e m s) = t \<or> snd (arm_of E' a e m s) = snd (m t))"
proof -
  let ?pre = "seq (touch_alive E' a e) (ensure_account a e)"
  have "keeps (compute_value E) ?pre" "preserves escrows_owned ?pre"
    unfolding touch_alive_def set_alive_epoch_def
    by (intro keeps_intros keeps_compute_set keeps_compute [OF keeps_ensure_account(1,3)] service_keys)
      (intro preserves_intros owned_set owned_meta [OF keeps_ensure_account(3)] service_keys)
  then have "compute_value E (snd (?pre s)) = compute_value E s" "escrows_owned s \<longrightarrow> escrows_owned (snd (?pre s))"
    by (auto simp: keeps_def preserves_def)
  moreover have "snd (arm_of E' a e m s) = snd (?pre s) \<or> snd (arm_of E' a e m s) = snd (m (snd (?pre s)))"
    by (auto simp: arm_of_def seq_apply split: prod.splits sum.splits)
  ultimately show ?thesis by blast
qed

lemma arm_exact:
  assumes "escrows_owned s" and "\<And>t. escrows_owned t \<Longrightarrow> v t \<le> v (snd (m t)) \<and> v (snd (m t)) \<le> v t + d"
    and "0 \<le> d" and v: "v = compute_value E"
  shows "v s \<le> v (snd (arm_of E' a e m s)) \<and> v (snd (arm_of E' a e m s)) \<le> v s + d"
proof -
  obtain t where t: "v t = v s" "escrows_owned t" "snd (arm_of E' a e m s) = t \<or> snd (arm_of E' a e m s) = snd (m t)"
    using arm_split [of E s E' a e m] assms(1) v by blast
  with assms(2) [OF t(2)] assms(3) show ?thesis by auto
qed

lemma entry_exact:
  assumes "escrows_owned s"
  shows "compute_value E s \<le> compute_value E (snd (apply_service_entry E x s)) \<and>
    compute_value E (snd (apply_service_entry E x s)) \<le> compute_value E s + service_reward x"
proof -
  note exact = complete_exact [unfolded keeps_def, rule_format] simple_services_exact [unfolded keeps_def, rule_format] post_exact
  note earned = serve_proof_earns [unfolded earns_def, rule_format] phone_proof_earns [unfolded earns_def, rule_format]
  show ?thesis
    by (cases x; simp only: apply_service_entry_def service_entry.case service_reward.simps;
        rule arm_exact [OF assms _ _ refl]; simp add: exact earned)
qed

text \<open>
  (C29) No fee is lost or made: over any sequence of entries of these services the native supply together with the fees in escrow
  never falls, and grows at most by the rewards of the proofs in the sequence.
\<close>

theorem compute_escrow_exact:
  assumes "escrows_owned s"
  shows "escrows_owned (run_services E xs s) \<and> compute_value E s \<le> compute_value E (run_services E xs s) \<and>
    compute_value E (run_services E xs s) \<le> compute_value E s + (\<Sum>x \<leftarrow> xs. service_reward x)"
  using assms
proof (induction xs arbitrary: s)
  case (Cons x xs)
  have "escrows_owned (snd (apply_service_entry E x s))" using owned_entry [of E x] Cons.prems by (simp add: preserves_def)
  from Cons.IH [OF this] entry_exact [OF Cons.prems, of E x] show ?case by auto
qed simp

definition demo_services :: "service_entry list" where
  "demo_services = [FineTuneJobPost ''j'' ''alice'' ''m'' ''d'' 40 1, FineTuneJobComplete ''j'' ''bob'' ''a'' 2,
     PhoneStorageProof ''bob'' ''p'' ''h'' 7 2, MemorySet ''bob'' ''k'' ''v'' 3]"

theorem compute_escrow_exact_witness:
  "compute_value demo_env (run_services demo_env demo_services (snd (credit ''alice'' NATIVE_TOKEN 100 empty_chain))) \<le>
    compute_value demo_env (snd (credit ''alice'' NATIVE_TOKEN 100 empty_chain)) + 250"
proof -
  have "escrows_owned (snd (credit ''alice'' NATIVE_TOKEN 100 empty_chain))"
    by (simp add: escrows_owned_def state_get_def credit_cases empty_chain_def)
  from compute_escrow_exact [OF this, of demo_env demo_services] show ?thesis
    by (simp add: demo_services_def PHONE_STORAGE_REWARD_HUNITS_def)
qed

section \<open>Who is paid\<close>

text \<open>
  The first to complete an open job takes its fee. Whoever sends the completion, the fee in escrow is credited to that account
  and to nobody else, the escrow is gone, and every later completion is refused.
\<close>

theorem first_completion_takes_fee:
  assumes "get_finetune_job E s i = Some job" and "ft_status job = FtOpen"
    and "Option.bind (state_get s (finetune_escrow_key i)) (as_le64 E) = Some fee" and "fee > 0"
    and "unat (get_balance s w NATIVE_TOKEN) + unat fee < 2 ^ 64"
  shows "\<exists>s'. apply_finetune_complete E i w cid e s = (Inr (), s') \<and>
    get_balance s' w NATIVE_TOKEN = get_balance s w NATIVE_TOKEN + fee \<and>
    (\<forall>a. a \<noteq> w \<longrightarrow> get_balance s' a NATIVE_TOKEN = get_balance s a NATIVE_TOKEN) \<and>
    state_get s' (finetune_escrow_key i) = None \<and>
    (\<forall>w' cid' e'. apply_finetune_complete E i w' cid' e' s' = (Inl (Err ''job is not open''), s'))"
proof -
  let ?b = "get_balance s w NATIVE_TOKEN + fee"
  let ?s1 = "s\<lparr>cf_balances := kv_put (balance_key w NATIVE_TOKEN) ?b (cf_balances s)\<rparr>"
  let ?s2 = "?s1\<lparr>cf_meta := kv_del (finetune_escrow_key i) (cf_meta ?s1)\<rparr>"
  let ?job = "job\<lparr>ft_status := FtComplete, ft_worker := Some w, ft_adapter_cid := Some cid, ft_completed_epoch := Some e\<rparr>"
  obtain s' where s': "save_record FineTuneJob_json (finetune_key i) ?job ?s2 = (Inr (), s')" by (simp add: save_record_apply)
  have "release_escrow E (finetune_escrow_key i) w s = (Inr (), ?s2)"
    using assms by (simp add: release_escrow_def andThen_reads when_do_apply seq_apply credit_cases state_delete_def modify_apply)
  then have run: "apply_finetune_complete E i w cid e s = (Inr (), s')"
    using assms(1,2) s' by (simp add: get_finetune_job_def apply_finetune_complete_def andThen_apply load_record_apply seq_apply ensure_apply)
  have "peek E FineTuneJob_of_json s' (finetune_key i) = Some ?job" by (rule finetune_jobs.peek_save [OF s'])
  then have "apply_finetune_complete E i w' cid' e' s' = (Inl (Err ''job is not open''), s')" for w' cid' e'
    by (simp add: apply_finetune_complete_def andThen_apply load_record_apply seq_apply ensure_apply)
  moreover have "cf_balances s' = cf_balances ?s1" using s' by (auto simp: save_record_def state_set_def modify_apply)
  moreover have "state_get s' (finetune_escrow_key i) = None"
    using s' by (auto simp: save_record_def state_set_def modify_apply state_get_def finetune_key_def finetune_escrow_key_def)
  moreover have "get_balance s' a NATIVE_TOKEN = (if a = w then ?b else get_balance s a NATIVE_TOKEN)" for a
    using \<open>cf_balances s' = cf_balances ?s1\<close> by (simp add: get_balance_def)
  ultimately show ?thesis using run by auto
qed

definition demo_finetune_job :: FineTuneJob where
  "demo_finetune_job = \<lparr>ft_job_id = ''j'', ft_requester = ''alice'', ft_base_model = ''m'', ft_dataset_cid = ''d'', ft_max_fee = 40,
     ft_status = FtOpen, ft_posted_epoch = 1, ft_worker = None, ft_adapter_cid = None, ft_completed_epoch = None\<rparr>"

definition demo_finetune :: chain where
  "demo_finetune = snd (seq (state_set (finetune_escrow_key ''j'') (Le64 40))
     (save_record FineTuneJob_json (finetune_key ''j'') demo_finetune_job) empty_chain)"

lemma demo_finetune_open:
  "get_finetune_job demo_env demo_finetune ''j'' = Some demo_finetune_job"
  "Option.bind (state_get demo_finetune (finetune_escrow_key ''j'')) (as_le64 demo_env) = Some 40"
  "get_balance demo_finetune ''eve'' NATIVE_TOKEN = 0"
proof -
  obtain s where s: "state_set (finetune_escrow_key ''j'') (Le64 40) empty_chain = (Inr (), s)" by (simp add: state_set_def modify_apply)
  show "get_finetune_job demo_env demo_finetune ''j'' = Some demo_finetune_job" unfolding get_finetune_job_def
    by (rule finetune_jobs.peek_save [of _ _ s]) (simp add: demo_finetune_def seq_apply s save_record_apply)
  show "Option.bind (state_get demo_finetune (finetune_escrow_key ''j'')) (as_le64 demo_env) = Some 40"
    by (simp add: demo_finetune_def seq_apply save_record_def state_set_def modify_apply state_get_def finetune_key_def finetune_escrow_key_def)
  show "get_balance demo_finetune ''eve'' NATIVE_TOKEN = 0"
    by (simp add: demo_finetune_def seq_apply save_record_def state_set_def modify_apply get_balance_def empty_chain_def)
qed

theorem first_completion_takes_fee_witness:
  "\<exists>s'. apply_finetune_complete demo_env ''j'' ''eve'' ''nothing'' 2 demo_finetune = (Inr (), s') \<and>
    get_balance s' ''eve'' NATIVE_TOKEN = 40"
proof -
  from demo_finetune_open(3) have "unat (get_balance demo_finetune ''eve'' NATIVE_TOKEN) + unat (40 :: u64) < 2 ^ 64" by simp
  from first_completion_takes_fee [OF demo_finetune_open(1) _ demo_finetune_open(2) _ this, of "''nothing''" 2] show ?thesis
    using demo_finetune_open(3) by (auto simp: demo_finetune_job_def)
qed

text \<open>
  A storage proof is not looked at. Every string that was not claimed before pays the reward of a phone storage proof to the
  account that sends it.
\<close>

theorem storage_proof_unchecked:
  assumes "bytes > 0" and "state_get s (phone_proof_key h) = None"
    and "unat (get_balance s a NATIVE_TOKEN) + 250 < 2 ^ 64"
  shows "get_balance (snd (apply_phone_proof E a d h bytes e s)) a NATIVE_TOKEN = get_balance s a NATIVE_TOKEN + 250"
proof -
  obtain s1 where s1: "state_set (phone_proof_key h) (Le64 e) s = (Inr (), s1)" "get_balance s1 a NATIVE_TOKEN = get_balance s a NATIVE_TOKEN"
    by (simp add: state_set_def modify_apply get_balance_def)
  then obtain x s2 where s2: "credit a NATIVE_TOKEN PHONE_STORAGE_REWARD_HUNITS s1 = (Inr x, s2)"
      "get_balance s2 a NATIVE_TOKEN = get_balance s a NATIVE_TOKEN + 250"
    using assms(3) by (simp add: credit_cases PHONE_STORAGE_REWARD_HUNITS_def get_balance_put)
  have "keeps cf_balances (add_proof_stats E k bytes)" for k unfolding add_proof_stats_def by (intro keeps_intros)
  then have "cf_balances (snd (apply_phone_proof E a d h bytes e s)) = cf_balances s2"
    using assms(1,2) s1(1) s2(1) by (simp add: apply_phone_proof_def seq_apply ensure_apply andThen_reads keeps_def)
  with s2(2) show ?thesis by (simp add: get_balance_def)
qed

theorem storage_proof_unchecked_witness:
  "get_balance (snd (apply_phone_proof demo_env ''eve'' ''d'' ''anything'' 1 2 empty_chain)) ''eve'' NATIVE_TOKEN =
    get_balance empty_chain ''eve'' NATIVE_TOKEN + 250"
  by (rule storage_proof_unchecked) (simp_all add: state_get_def get_balance_def empty_chain_def)

section \<open>Pills\<close>

text \<open>The part of the state that pills live in.\<close>

definition pill_part :: "chain \<Rightarrow> string \<Rightarrow> val option" where
  "pill_part s k = (if prefix ''amber_pill'' k then state_get s k else None)"

definition pills_linked :: "env \<Rightarrow> chain \<Rightarrow> bool" where
  "pills_linked E s \<longleftrightarrow> (\<forall>a x. get_pill E s a = Some x \<longrightarrow>
     pl_account x = a \<and> state_text E s (pill_id_key (pl_pill_id x)) = Some a)"

lemma pill_part_keys: "pill_part s (pill_key a) = state_get s (pill_key a)" "pill_part s (pill_id_key p) = state_get s (pill_id_key p)"
  by (simp_all add: pill_part_def pill_key_def pill_id_key_def)

lemma pills_by_part:
  assumes "pill_part t = pill_part s"
  shows "get_pill E t a = get_pill E s a" "state_text E t (pill_id_key p) = state_text E s (pill_id_key p)"
  using fun_cong [OF assms, of "pill_key a"] fun_cong [OF assms, of "pill_id_key p"]
  by (simp_all add: pill_part_keys get_pill_def peek_state_get state_text_def)

lemma keeps_pill_set: "\<not> prefix ''amber_pill'' k \<Longrightarrow> keeps pill_part (state_set k v)"
  by (auto simp: keeps_def state_set_def modify_apply pill_part_def state_get_def fun_eq_iff)

lemma keeps_pill_delete: "\<not> prefix ''amber_pill'' k \<Longrightarrow> keeps pill_part (state_delete k)"
  by (auto simp: keeps_def state_delete_def modify_apply pill_part_def state_get_def fun_eq_iff)

lemma keeps_pill_meta: "keeps cf_meta m \<Longrightarrow> keeps pill_part m"
  by (simp add: keeps_def pill_part_def state_get_def fun_eq_iff)

lemma other_keys:
  "\<not> prefix ''amber_pill'' (finetune_key i)" "\<not> prefix ''amber_pill'' (finetune_escrow_key i)"
  "\<not> prefix ''amber_pill'' (computer_use_key i)" "\<not> prefix ''amber_pill'' (computer_use_escrow_key i)"
  "\<not> prefix ''amber_pill'' (blob_proof_key i)" "\<not> prefix ''amber_pill'' (phone_proof_key i)"
  "\<not> prefix ''amber_pill'' (memory_key i j)" "\<not> prefix ''amber_pill'' (''alive:'' @ i)"
  "\<not> prefix ''amber_pill'' (''blob_serve_stats:'' @ i)" "\<not> prefix ''amber_pill'' (''blob_serve_bw:'' @ i)"
  "\<not> prefix ''amber_pill'' (''phone_store_stats:'' @ i)"
  by (simp_all add: finetune_key_def finetune_escrow_key_def computer_use_key_def computer_use_escrow_key_def blob_proof_key_def
    phone_proof_key_def memory_key_def)

lemma keeps_pill_operations:
  "keeps pill_part (apply_finetune_post i q b c f e)" "keeps pill_part (apply_finetune_complete E i w c e)"
  "keeps pill_part (apply_computer_post E i q t f e)" "keeps pill_part (apply_computer_complete E i w c e)"
  "keeps pill_part (apply_serve_proof E n c y h e)" "keeps pill_part (apply_phone_proof E n d h y e)"
  "keeps pill_part (apply_memory_set n k t)" "keeps pill_part (apply_memory_delete n k)"
  "keeps pill_part (seq (touch_alive E a e) (ensure_account a e))"
  unfolding apply_finetune_post_def apply_finetune_complete_def apply_computer_post_def apply_computer_complete_def
    apply_serve_proof_def apply_phone_proof_def apply_memory_set_def apply_memory_delete_def release_escrow_def save_record_def
    add_proof_stats_def touch_alive_def set_alive_epoch_def
  by (intro keeps_andThen keeps_seq keeps_reads keeps_ensure keeps_when_do keeps_load_record keeps_with_fields keeps_pill_set
    keeps_pill_delete keeps_pill_meta [OF keeps_credit(3)] keeps_pill_meta [OF keeps_debit(3)]
    keeps_pill_meta [OF keeps_ensure_account(3)] other_keys)+

text \<open>A pill that is held stays as it is, and the link between pills and their numbers is kept.\<close>

definition pill_step :: "env \<Rightarrow> chain \<Rightarrow> chain \<Rightarrow> bool" where
  "pill_step E s t \<longleftrightarrow> pills_linked E t \<and> (\<forall>a x. get_pill E s a = Some x \<longrightarrow> get_pill E t a = Some x)"

lemma pill_step_part: "pills_linked E s \<Longrightarrow> pill_part t = pill_part s \<Longrightarrow> pill_step E s t"
  by (simp add: pill_step_def pills_linked_def pills_by_part [of t s])

lemma get_after_set: "state_get (snd (state_set key v s)) k = (if k = key then Some v else state_get s k)"
  by (simp add: state_set_def modify_apply state_get_def)

lemma mint_step:
  assumes "pills_linked E s"
  shows "pill_step E s (snd (apply_pill_mint n p e s))"
proof (cases "state_get s (pill_key n) = None \<and> state_get s (pill_id_key p) = None")
  case True
  let ?x = "\<lparr>pl_account = n, pl_pill_id = p, pl_minted_epoch = e\<rparr>"
  let ?t = "snd (apply_pill_mint n p e s)"
  have k: "pill_key a \<noteq> pill_id_key q" "pill_key a = pill_key b \<longleftrightarrow> a = b" "pill_id_key q = pill_id_key r \<longleftrightarrow> q = r" for a b q r
    by (simp_all add: pill_key_def pill_id_key_def)
  have t: "?t = snd (state_set (pill_id_key p) (Text n) (snd (state_set (pill_key n) (Json (AmberPill_json ?x)) s)))"
    using True by (simp add: apply_pill_mint_def andThen_reads seq_apply ensure_apply save_record_apply)
  have held: "get_pill E ?t a = (if a = n then Some ?x else get_pill E s a)" for a
    by (simp add: t get_pill_def peek_state_get get_after_set k pills.decode_encode)
  have num: "state_text E ?t (pill_id_key q) = (if q = p then Some n else state_text E s (pill_id_key q))" for q
    using k(1) [symmetric] by (simp add: t state_text_def get_after_set k)
  have "get_pill E s n = None" "state_text E s (pill_id_key p) = None" using True by (simp_all add: get_pill_def peek_state_get state_text_def)
  then show ?thesis using assms unfolding pill_step_def pills_linked_def held num by auto
next
  case False
  then have "snd (apply_pill_mint n p e s) = s" by (auto simp: apply_pill_mint_def andThen_reads seq_apply ensure_apply)
  then show ?thesis using assms by (simp add: pill_step_def)
qed

lemma entry_pill_step:
  assumes "pills_linked E s"
  shows "pill_step E s (snd (apply_service_entry E x s))"
proof -
  let ?P = "\<lambda>m. \<forall>t. pills_linked E t \<longrightarrow> pill_step E t (snd (m t))"
  have kept: "keeps pill_part m \<Longrightarrow> ?P m" for m :: "unit chain_act" by (simp add: keeps_def pill_step_part)
  have arm: "pill_step E s (snd (arm_of E a e m s))" if m: "?P m" for a e m
  proof -
    let ?pre = "seq (touch_alive E a e) (ensure_account a e)"
    have t: "pill_step E s (snd (?pre s))" using kept [OF keeps_pill_operations(9)] assms by blast
    then have "pill_step E (snd (?pre s)) (snd (m (snd (?pre s))))" using m by (simp add: pill_step_def)
    moreover have "snd (arm_of E a e m s) = snd (?pre s) \<or> snd (arm_of E a e m s) = snd (m (snd (?pre s)))"
      by (auto simp: arm_of_def seq_apply split: prod.splits sum.splits)
    ultimately show ?thesis using t unfolding pill_step_def by metis
  qed
  have mint: "?P (apply_pill_mint n p e)" for n p e by (simp add: mint_step)
  show ?thesis
    by (cases x; simp only: apply_service_entry_def service_entry.case; rule arm; rule mint kept [OF keeps_pill_operations(1)]
      kept [OF keeps_pill_operations(2)] kept [OF keeps_pill_operations(3)] kept [OF keeps_pill_operations(4)]
      kept [OF keeps_pill_operations(5)] kept [OF keeps_pill_operations(6)] kept [OF keeps_pill_operations(7)]
      kept [OF keeps_pill_operations(8)])
qed

text \<open>
  (C30) Pills are bound to their holders. Over any sequence of entries of these services a pill that is held stays with its holder
  unchanged, no two accounts hold pills of the same number, and the holder of a number is found by it.
\<close>

theorem pills_soulbound:
  assumes "pills_linked E s" and "s' = run_services E xs s"
  shows "pills_linked E s' \<and> (\<forall>a x. get_pill E s a = Some x \<longrightarrow> get_pill E s' a = Some x) \<and>
    (\<forall>a x. get_pill E s' a = Some x \<longrightarrow> get_pill_by_id E s' (pl_pill_id x) = Some x) \<and>
    (\<forall>a b x y. get_pill E s' a = Some x \<and> get_pill E s' b = Some y \<and> pl_pill_id x = pl_pill_id y \<longrightarrow> a = b)"
proof -
  have "pill_step E s (run_services E xs s)" using assms(1)
  proof (induction xs arbitrary: s)
    case (Cons x xs)
    have "pill_step E s (snd (apply_service_entry E x s))" by (rule entry_pill_step [OF Cons.prems])
    with Cons.IH [of "snd (apply_service_entry E x s)"] show ?case by (simp add: pill_step_def)
  qed (simp add: pill_step_def)
  with assms(2) have linked: "pills_linked E s'" and "\<forall>a x. get_pill E s a = Some x \<longrightarrow> get_pill E s' a = Some x"
    by (simp_all add: pill_step_def)
  moreover have "\<forall>a x. get_pill E s' a = Some x \<longrightarrow> get_pill_by_id E s' (pl_pill_id x) = Some x"
    using linked by (auto simp: pills_linked_def get_pill_by_id_def)
  moreover have "\<forall>a b x y. get_pill E s' a = Some x \<and> get_pill E s' b = Some y \<and> pl_pill_id x = pl_pill_id y \<longrightarrow> a = b"
    using linked unfolding pills_linked_def by (metis option.inject)
  ultimately show ?thesis by blast
qed

definition demo_pills :: "service_entry list" where
  "demo_pills = [AmberPillMint ''ann'' ''p1'' 1, AmberPillMint ''bob'' ''p1'' 2, AmberPillMint ''ann'' ''p2'' 3]"

theorem pills_soulbound_witness:
  "pills_linked demo_env (run_services demo_env demo_pills empty_chain)"
proof -
  have "pills_linked demo_env empty_chain"
    by (simp add: pills_linked_def get_pill_def peek_state_get state_get_def empty_chain_def)
  from pills_soulbound [OF this refl, of demo_pills] show ?thesis by blast
qed

end
