(* ===== verification/Spec2Isabelle.thy ===== *)
theory Spec2Isabelle
  imports Clock Validation Runtime Projects LinkGit Merkle Auction Bridge Oracle AgentTask SessionMarket Slashing Names IdentityTx Vrf Ensemble
    AgentSession AgentRegistry MarketTx InferenceTx Services Nonces
begin

text \<open>
  A verification library of the HONE node (\<open>rust/hone-node\<close>), the ledger of a network that pays
  clocks, storage, sensors and compute hosts in a native token counted in units of
  \<open>10^-10\<close> HONE.

  \<^bold>\<open>The program.\<close> Every change of state is a \<open>LedgerEntry\<close> (\<open>crates/hone-types/src/entry.rs\<close>).
  \<open>tx.rs\<close> validates an entry that a user submits, the pending pool of \<open>chain.rs\<close> orders it, and
  \<open>Chain::apply_entry\<close> (\<open>src/chain.rs\<close>), one long match with an arm per entry, applies it to the
  \<open>Store\<close> (\<open>src/store.rs\<close>): RocksDB column families for accounts, balances, stakes, epochs, blocks,
  and a key-value space of JSON records that the arms read and write under keys they build from
  names. \<open>clock.rs\<close> collects the seals and reward proposals of the registered clocks and decides
  when an epoch is sealed; at each sealed epoch the drains release unbonded stake and decide
  governance proposals. \<open>emission.rs\<close> has the schedule of rewards and fees.

  \<^bold>\<open>The theories\<close>, in the order they build on each other.
  \<^item> \<open>Prelude\<close>: \<open>u64\<close> arithmetic (wrapping, checked, saturating, widened multiply-divide), integers as
    text and bytes, the contract \<open>codec\<close> of an encoding, and the action monad of the handlers: a
    result or an error, together with the state reached. Nothing rolls back on an error, in the
    program or in the model. Its calculus has three judgements, \<open>keeps\<close> (an observation does not
    change), \<open>preserves\<close> (an invariant holds on both ways out), \<open>gains\<close> (a measure grows by exactly
    so much), with structural rules in named collections that carry the component proofs.
  \<^item> \<open>Ordered_KV\<close>: a column family as a sorted association list with prefix scan, its contract
    \<open>ordered_kv\<close>, and sums over a family. \<open>Json\<close>: the stored values and the \<open>env\<close> of third-party code
    (JSON text, SHA-256, hex, Ed25519, wall clock).
  \<^item> \<open>Store\<close>: \<open>Store\<close> operation by operation, the supply of a token, and the contract \<open>value_ledger\<close>
    that debit and credit satisfy; it is interpreted for the native supply here, for \<open>bonded\<close> value in
    \<open>Staking\<close> and for clock value in \<open>Consensus\<close>. \<open>Merkle\<close>: the balance tree and its proofs, with the
    contract \<open>authenticated_list\<close>.
  \<^item> \<open>Accounts\<close>, \<open>Staking\<close>, \<open>Consensus\<close>, \<open>Governance\<close>, \<open>Runtime\<close>, \<open>Tracker\<close>, \<open>Projects\<close>, \<open>LinkGit\<close>:
    the arms of \<open>apply_entry\<close>, each as a definition \<open>apply_<Entry>\<close> with the guards, early returns and
    writes of the arm in their order, and the drains. \<open>Emission\<close>: \<open>emission.rs\<close>. \<open>Clock\<close>: \<open>clock.rs\<close>
    as a state machine over an explicit \<open>Inner\<close> state.
  \<^item> \<open>Entry\<close>: ledger entries as values, with serialised form, hash, epoch and fee weight, the dispatch of
    \<open>apply_entry\<close> and the transaction history. \<open>History\<close>: facts about applying an entry. \<open>Validation\<close>:
    \<open>validate_and_apply\<close> of \<open>tx.rs\<close> arm by arm (\<open>validate_<Entry>\<close>), the guards it shares, the canonical
    message, fees, and the queue of parameter changes. \<open>Nonces\<close>: the judgement \<open>advances\<close> that bounds how far an
    action moves the nonce of an account, for every arm of the gate, and what follows for nonces over
    sequences of submissions.

  \<^item> \<open>Records\<close>: the contract \<open>record_codec\<close> of structs stored as JSON under a key, and \<open>escrow_table\<close> of
    records that hold tokens. On it the services in files of their own, each with the arms of
    \<open>apply_entry\<close> that call it: \<open>Auction\<close> (\<open>auction.rs\<close>), \<open>Bridge\<close> (\<open>bridge.rs\<close>), \<open>Oracle\<close>
    (\<open>oracle.rs\<close>), \<open>AgentTask\<close> (\<open>agent_task.rs\<close>), \<open>SessionMarket\<close> (\<open>session_market.rs\<close>), \<open>Slashing\<close>
    (\<open>slashing.rs\<close>), \<open>Identity\<close> (\<open>identity_nft.rs\<close>, \<open>soulbound.rs\<close>, \<open>reserved_names.rs\<close>), \<open>Vrf\<close>
    (\<open>vrf.rs\<close>), \<open>Ensemble\<close> (\<open>ensemble.rs\<close>), \<open>AgentSession\<close> (\<open>agent_session.rs\<close>, with the inference
    engine as a parameter), \<open>AgentRegistry\<close> (\<open>agent_registry.rs\<close>, specified by the history of its operations:
    what was said last, since when, and how often something happened since).
  \<^item> \<open>PrivateAuth\<close>: groups that approve by threshold (\<open>private_auth.rs\<close>). \<open>Services\<close>: fine-tuning and computer-use
    jobs, proofs of served blobs and of phone storage, amber pills and the memory of an account (\<open>finetune.rs\<close>,
    \<open>computer_use.rs\<close>, \<open>blob_serve.rs\<close>, \<open>phone_storage.rs\<close>, \<open>amber_pill.rs\<close>, \<open>memory_service.rs\<close>), with the judgement
    \<open>earns\<close> that bounds what a handler adds on both sides.
  \<^item> \<open>Inference\<close>: the inference marketplace (\<open>inference.rs\<close>). \<open>InferenceJobs\<close>: what a board decides, and the life cycle
    of a job with the judgement \<open>tracks\<close> for handlers that replace the record of one job. \<open>InferencePay\<close>: the
    judgement \<open>spends\<close> that bounds the value a handler adds, and what the payment entries distribute.
    \<open>InferenceDaemon\<close>: the daemon (\<open>inference_daemon.rs\<close>) as the sequence of entries it applies. \<open>InferenceTx\<close>:
    the arms of \<open>tx.rs\<close> for inference entries.
  \<^item> \<open>Names\<close>: auctions and identity entries interleaved, which write the same index. \<open>IdentityTx\<close>: the arms
    of \<open>tx.rs\<close> for identity entries, value signatures and the authority of guardians. \<open>MarketTx\<close>: the arms
    for the entries of the other services, with the fee before and after them.

  \<^bold>\<open>What is shown.\<close>
  \<^item> Value: a transfer (but for a pending record that it replaces), its acceptance and rejection, every staking
    entry but a device claim, the runtime entries but rewards, which mint, and attestations, which round, and the
    bounty of a lost tracker conserve value, counted over balances and the
    records that lock it; rewards add at most what they say. The task market conserves value over any
    sequence of entries, auctions never create any, the supply of wrapped tokens equals what is in the
    balances and stays under its cap. Inference entries create nothing and a settlement distributes exactly the
    escrow of its job. Ensembles create nothing while their log lines do not panic; the
    deposits of the randomness beacon and the escrow of agent sessions are accounted for to the unit, with
    the late reveals and the turns that break conservation counted. The fees of fine-tuning and computer-use jobs are
    neither lost nor made, and proofs add at most their rewards.
  \<^item> Authorisation: what an accepted transfer or account creation was signed by; a transfer in order is
    accepted; a nonce that an arm has checked and accepted is spent for all arms that check nonces, over any further
    submissions; a parameter change waits for its epoch.
    A recovery was authorised by its guardians or the founders, and moves a name to the destination pinned
    in advance; a locked name moves in no other way. A task or registry entry of an
    existing account was signed by it, the protocol's own accounts apart.
  \<^item> Once only: a nonce is not replayable, a vote counts once, a job is paid once, double signing is
    slashed once, a pending transfer is settled once, an unlock of the bridge and an authorisation of
    guardians are used once, a listing is sold once, a decided approval is final, a pill stays with its holder.
  \<^item> Agreement: fork choice converges in any order of delivery when a hash always comes with the same quorum, the pool drains in an order that
    depends only on the entries, two nodes do not finalise different rewards unless a clock votes
    twice, and the invariant of the clock holds in every reachable state. A clear verdict on a task settles
    it to the same state on every node, a price lies where the majority of reports does, tasks follow
    their life cycle, as do inference jobs under the entries of users and of the daemon, and a minted name
    has one owner under auctions and identity entries in any order.
  \<^item> Equivalence and round trips: the integer square root, the block rewards that add up to the cap,
    the vote and serve counters against the records they count, balance proofs in both directions. An
    early verdict of a board is the one it has in the end. The beacon of a round is determined by its commitments, and the
    listing of the agent registry is what the history of its operations says.
  \<^item> Error behaviour: the paths on which the program loses or creates value or diverges, each as a
    theorem on the handler as it is written: a turn that undoes a concurrent close, a purchase that one
    account submits and another pays, a score that is not signed, disputes that the daemon never settles, an
    outsider that decides the approval of a group, a storage proof that nobody looks at.

  \<^bold>\<open>Correspondence.\<close> A definition has the name of the function, constant or entry it models. JSON
  records keep the field names of the source; a read of a record goes through \<open>as_json\<close>, so a record
  of the wrong shape takes the branch the program takes. Error values carry the fixed part of the
  message. A panic is an error of its own that stops the handler and goes through \<open>let _ = \<dots>\<close> (\<open>attempt\<close>), which
  drops an \<open>Err\<close> only, and through the loop over the entries of a block. \<open>u64\<close> arithmetic that the source leaves
  unchecked wraps, as in a release build. Log output
  is not modelled, except that the slices \<open>[..12]\<close> in the arguments of log lines of \<open>ensemble.rs\<close> and of the
  submission of a task in \<open>agent_task.rs\<close> can panic; there a
  parameter (\<open>log\<close>, \<open>log_info\<close>) says whether such lines are evaluated. The slices in log lines of \<open>chain.rs\<close> (at
  \<open>EpochFinalize\<close> and \<open>ClockSlash\<close>), which are cut to the length of the string and panic only inside a character of several
  bytes, and those of \<open>bridge.rs\<close> and \<open>vrf.rs\<close>, which are of hexadecimal digests, are not modelled. The order in which a hash map is walked is a parameter.
  Names and keys are byte strings; where a property needs a name without the
  separator of the keys it says so.

  \<^bold>\<open>Loops and bounds.\<close> Every loop of the modelled code is a fold over a finite list or a recursion
  with a termination proof (\<open>isqrt_loop\<close>, \<open>build_levels\<close>, \<open>dec\<close>); there is no fuel. The thresholds of
  \<open>clock.rs\<close>, which are \<open>f64\<close> products, are computed exactly with the rounding of a 53-bit significand.

  \<^bold>\<open>Not modelled.\<close> The arms of \<open>tx.rs\<close> for the entries that are neither values of \<open>ledger_entry\<close> nor
  identity, market or inference entries (sensors, storage, phones, private authorisation, the entries of
  \<open>Services\<close>); snapshots, whose slugs depend on the Unicode tables;
  \<open>Mine\<close>, external signers and wallet families; the entries that read
  floating-point coordinates (\<open>SensorReading\<close>, \<open>CoverageReport\<close>); the HTTP API, gossip and the main loop,
  which are I/O; RocksDB errors; the other crates, and \<open>ludicrous\<close>, a vendored terminal emulator.
\<close>

end
